(* ===== verification/Aw_Prelude.thy ===== *)
theory Aw_Prelude
  imports Main "HOL-Library.Word" "HOL-Library.Multiset" "HOL-Library.List_Lexorder" "HOL-Library.Char_ord"
begin

text \<open>
  The vocabulary every component shares: Rust's fixed-width unsigned integers with their
  checked and saturating arithmetic, \<open>Result\<close> values, byte strings with the predicates the
  sources apply to them, decimal printing, and three interfaces as locales.

  \<^item> \<open>inv_system\<close>: a step relation and a predicate every step keeps;
  \<^item> \<open>checkpointing\<close>: a component that can be written to a checkpoint and restored;
  \<^item> \<open>crash_safe\<close>: both, so that a run interrupted by crashes and restores is a run.
\<close>

section \<open>Machine integers\<close>

type_synonym u16 = "16 word"
type_synonym u32 = "32 word"
type_synonym u64 = "64 word"

text \<open>Collection lengths (\<open>usize\<close>) never wrap on a real machine and are natural numbers.\<close>

type_synonym usize = nat

definition checked_add :: "'a::len word \<Rightarrow> 'a word \<Rightarrow> 'a word option" where
  "checked_add a b = (if unat a + unat b < 2 ^ LENGTH('a) then Some (a + b) else None)"

definition checked_sub :: "'a::len word \<Rightarrow> 'a word \<Rightarrow> 'a word option" where
  "checked_sub a b = (if b \<le> a then Some (a - b) else None)"

definition saturating_add :: "'a::len word \<Rightarrow> 'a word \<Rightarrow> 'a word" where
  "saturating_add a b = (if unat a + unat b < 2 ^ LENGTH('a) then a + b else - 1)"

definition saturating_sub :: "'a::len word \<Rightarrow> 'a word \<Rightarrow> 'a word" where
  "saturating_sub a b = (if b \<le> a then a - b else 0)"

text \<open>\<open>u32::try_from(count)\<close> and \<open>u64::try_from(len)\<close>.\<close>

definition try_from_usize :: "usize \<Rightarrow> 'a::len word option" where
  "try_from_usize n = (if n < 2 ^ LENGTH('a) then Some (of_nat n) else None)"

named_theorems rust_arith

lemma checked_add_Some [rust_arith]:
  "checked_add a b = Some c \<longleftrightarrow> unat c = unat a + unat b"
proof
  assume "checked_add a b = Some c"
  then show "unat c = unat a + unat b"
    by (auto simp: checked_add_def unat_word_ariths split: if_splits)
next
  assume eq: "unat c = unat a + unat b"
  have "unat c < 2 ^ LENGTH('a)"
    by (rule unsigned_less)
  with eq have lt: "unat a + unat b < 2 ^ LENGTH('a)"
    by simp
  with eq have "unat (a + b) = unat c"
    by (simp add: unat_word_ariths)
  then have "a + b = c"
    by (simp add: word_unat_eq_iff)
  with lt show "checked_add a b = Some c"
    by (simp add: checked_add_def)
qed

lemma checked_add_None [rust_arith]:
  fixes a b :: "'a::len word"
  shows "checked_add a b = None \<longleftrightarrow> 2 ^ LENGTH('a) \<le> unat a + unat b"
  by (auto simp: checked_add_def)

lemma unat_sub_le: "b \<le> a \<Longrightarrow> unat (a - b) = unat a - unat b"
  for a b :: "'a::len word"
  by (simp add: unat_sub)

lemma checked_sub_Some [rust_arith]:
  "checked_sub a b = Some c \<longleftrightarrow> unat a = unat c + unat b"
  for a b c :: "'a::len word"
proof
  assume "checked_sub a b = Some c"
  then have le: "b \<le> a" and c: "c = a - b"
    by (auto simp: checked_sub_def split: if_splits)
  from le have "unat b \<le> unat a"
    by (simp add: word_le_nat_alt)
  with le c show "unat a = unat c + unat b"
    by (simp add: unat_sub_le)
next
  assume eq: "unat a = unat c + unat b"
  then have le: "b \<le> a"
    by (simp add: word_le_nat_alt)
  with eq have "unat (a - b) = unat c"
    by (simp add: unat_sub_le)
  then have "a - b = c"
    by (simp add: word_unat_eq_iff)
  with le show "checked_sub a b = Some c"
    by (simp add: checked_sub_def)
qed

lemma checked_sub_None [rust_arith]:
  "checked_sub a b = None \<longleftrightarrow> unat a < unat b"
  by (auto simp: checked_sub_def word_le_nat_alt)

lemma unat_saturating_sub [rust_arith]:
  "unat (saturating_sub a b) = unat a - unat b"
  by (auto simp: saturating_sub_def unat_sub_le word_le_nat_alt)

lemma unat_saturating_add [rust_arith]:
  fixes a b :: "'a::len word"
  shows "unat (saturating_add a b) = min (unat a + unat b) (2 ^ LENGTH('a) - 1)"
proof -
  have "unat (- 1 :: 'a word) = 2 ^ LENGTH('a) - 1"
    by (simp add: unsigned_minus_1_eq_mask mask_eq_exp_minus_1)
  then show ?thesis
    by (auto simp: saturating_add_def unat_word_ariths)
qed

lemma try_from_usize_Some [rust_arith]:
  "(try_from_usize n :: 'a::len word option) = Some w \<longleftrightarrow> unat w = n"
proof
  assume "try_from_usize n = Some w"
  then show "unat w = n"
    by (auto simp: try_from_usize_def unat_of_nat split: if_splits)
next
  assume "unat w = n"
  then have "n < 2 ^ LENGTH('a)" "of_nat n = w"
    by auto
  then show "(try_from_usize n :: 'a word option) = Some w"
    by (simp add: try_from_usize_def)
qed

lemma word_add_1_le:
  fixes a b :: "'a::len word"
  assumes "a < b"
  shows "unat (a + 1) = unat a + 1" "a + 1 \<le> b"
proof -
  have "unat a + 1 \<le> unat b"
    using assms by (simp add: word_less_nat_alt)
  moreover have "unat b < 2 ^ LENGTH('a)"
    by (rule unsigned_less)
  ultimately have "unat a + 1 < 2 ^ LENGTH('a)"
    by (rule le_less_trans)
  then show eq: "unat (a + 1) = unat a + 1"
    by (simp add: unat_word_ariths)
  with \<open>unat a + 1 \<le> unat b\<close> show "a + 1 \<le> b"
    by (simp add: word_le_nat_alt)
qed

text \<open>Overflow shows in the wrapped sum; this form evaluates without unary numbers.\<close>

lemma add_overflow_iff:
  fixes a b :: "'a::len word"
  shows "unat a + unat b < 2 ^ LENGTH('a) \<longleftrightarrow> a \<le> a + b"
proof (cases "unat a + unat b < 2 ^ LENGTH('a)")
  case True
  then have "unat (a + b) = unat a + unat b"
    by (simp add: unat_word_ariths)
  with True show ?thesis
    by (simp add: word_le_nat_alt)
next
  case False
  define n :: nat where "n = 2 ^ LENGTH('a)"
  have ab: "unat a < n" "unat b < n"
    unfolding n_def by (rule unsigned_less)+
  from False have ge: "n \<le> unat a + unat b"
    by (simp add: n_def)
  with ab have "(unat a + unat b) mod n = unat a + unat b - n"
    by (subst le_mod_geq) auto
  then have "unat (a + b) = unat a + unat b - n"
    by (simp add: unat_word_ariths n_def)
  with ab ge have "unat (a + b) < unat a"
    by linarith
  with False show ?thesis
    by (simp add: word_le_nat_alt)
qed

lemma try_from_usize_code [code]:
  "try_from_usize n = (let w = of_nat n :: 'a::len word in if unat w = n then Some w else None)"
proof -
  have "n < 2 ^ LENGTH('a) \<longleftrightarrow> unat (of_nat n :: 'a word) = n"
    by (metis unsigned_less unat_of_nat mod_less)
  then show ?thesis
    by (simp add: try_from_usize_def Let_def)
qed

lemma checked_add_code [code]: "checked_add a b = (let c = a + b in if a \<le> c then Some c else None)"
  by (simp add: checked_add_def add_overflow_iff Let_def)

lemma saturating_add_code [code]: "saturating_add a b = (let c = a + b in if a \<le> c then c else - 1)"
  by (simp add: saturating_add_def add_overflow_iff Let_def)

lemma saturating_succ:
  fixes a :: "'a::len word"
  shows "unat (saturating_add a 1) = (if a = - 1 then unat a else Suc (unat a))"
proof -
  have lt: "unat a < 2 ^ LENGTH('a)"
    by (rule unsigned_less)
  have max: "unat (- 1 :: 'a word) = 2 ^ LENGTH('a) - 1"
    by (simp add: unsigned_minus_1_eq_mask mask_eq_exp_minus_1)
  show ?thesis
  proof (cases "a = - 1")
    case True
    with max show ?thesis
      by (simp add: unat_saturating_add)
  next
    case False
    then have "unat a \<noteq> 2 ^ LENGTH('a) - 1"
      using max by (metis word_unat_eq_iff)
    with lt have "Suc (unat a) \<le> 2 ^ LENGTH('a) - 1"
      by linarith
    with False show ?thesis
      by (simp add: unat_saturating_add)
  qed
qed

section \<open>Results\<close>

text \<open>\<open>Result<T, E>\<close> is \<open>'e + 'a\<close> with \<open>Inl\<close> for \<open>Err\<close>.\<close>

type_synonym ('e, 'a) result = "'e + 'a"

definition is_ok :: "'e + 'a \<Rightarrow> bool" where
  "is_ok r = (case r of Inl _ \<Rightarrow> False | Inr _ \<Rightarrow> True)"

lemma is_ok_simps [simp]: "is_ok (Inr a)" "\<not> is_ok (Inl e)"
  by (simp_all add: is_ok_def)

lemma is_okE: "is_ok r \<Longrightarrow> (\<And>a. r = Inr a \<Longrightarrow> P) \<Longrightarrow> P"
  by (cases r) auto

text \<open>The operator \<open>?\<close> and \<open>Option::ok_or\<close>.\<close>

definition bind_r :: "'e + 'a \<Rightarrow> ('a \<Rightarrow> 'e + 'b) \<Rightarrow> 'e + 'b" where
  "bind_r r f = (case r of Inl e \<Rightarrow> Inl e | Inr a \<Rightarrow> f a)"

definition ok_or :: "'a option \<Rightarrow> 'e \<Rightarrow> 'e + 'a" where
  "ok_or x e = (case x of None \<Rightarrow> Inl e | Some a \<Rightarrow> Inr a)"

lemma bind_r_simps [simp]: "bind_r (Inr a) f = f a" "bind_r (Inl e) f = Inl e"
  by (simp_all add: bind_r_def)

lemma bind_r_Inr: "bind_r r f = Inr b \<longleftrightarrow> (\<exists>a. r = Inr a \<and> f a = Inr b)"
  by (cases r) auto

lemma bind_r_Inl: "bind_r r f = Inl e \<longleftrightarrow> r = Inl e \<or> (\<exists>a. r = Inr a \<and> f a = Inl e)"
  by (cases r) auto

lemma ok_or_simps [simp]: "ok_or (Some a) e = Inr a" "ok_or None e = Inl e"
  by (simp_all add: ok_or_def)

lemma ok_or_Inr: "ok_or x e = Inr a \<longleftrightarrow> x = Some a"
  by (cases x) auto

lemma ok_or_Inl: "ok_or x e = Inl e' \<longleftrightarrow> x = None \<and> e' = e"
  by (cases x) auto

text \<open>\<open>collect::<Result<Vec<_>, _>>()\<close> over an infallible-state iterator.\<close>

fun try_map :: "('a \<Rightarrow> 'e + 'b) \<Rightarrow> 'a list \<Rightarrow> 'e + 'b list" where
  "try_map f [] = Inr []"
| "try_map f (x # xs) =
     (case f x of Inl e \<Rightarrow> Inl e
      | Inr y \<Rightarrow> (case try_map f xs of Inl e \<Rightarrow> Inl e | Inr ys \<Rightarrow> Inr (y # ys)))"

text \<open>A validation loop \<open>for x in xs { check(x)?; }\<close>.\<close>

fun try_all :: "('a \<Rightarrow> 'e + unit) \<Rightarrow> 'a list \<Rightarrow> 'e + unit" where
  "try_all f [] = Inr ()"
| "try_all f (x # xs) = (case f x of Inl e \<Rightarrow> Inl e | Inr _ \<Rightarrow> try_all f xs)"

lemma try_map_Inr_iff: "try_map f xs = Inr ys \<longleftrightarrow> list_all2 (\<lambda>x y. f x = Inr y) xs ys"
proof (induction xs arbitrary: ys)
  case (Cons x xs)
  then show ?case
    by (cases "f x"; cases "try_map f xs") (simp_all add: list_all2_Cons1, metis+)
qed auto

lemma try_map_pure: "(\<And>x. x \<in> set xs \<Longrightarrow> f x = Inr (g x)) \<Longrightarrow> try_map f xs = Inr (map g xs)"
  by (induction xs) auto

lemma try_all_Inr_iff: "try_all f xs = Inr u \<longleftrightarrow> (\<forall>x \<in> set xs. is_ok (f x))"
  by (induction xs) (auto split: sum.splits)

section \<open>Byte strings\<close>

text \<open>
  A Rust \<open>String\<close> is its UTF-8 bytes, a \<open>char list\<close>; \<open>len()\<close> is the number of bytes and the
  order of \<open>List_Lexorder\<close> over \<open>Char_ord\<close> is the bytewise order of \<open>str::cmp\<close>.
\<close>

definition byte :: "char \<Rightarrow> nat" where
  "byte c = of_char c"

definition is_ascii_digit :: "char \<Rightarrow> bool" where
  "is_ascii_digit c \<longleftrightarrow> 48 \<le> byte c \<and> byte c \<le> 57"

definition is_ascii_alphanumeric :: "char \<Rightarrow> bool" where
  "is_ascii_alphanumeric c \<longleftrightarrow>
     is_ascii_digit c \<or> (65 \<le> byte c \<and> byte c \<le> 90) \<or> (97 \<le> byte c \<and> byte c \<le> 122)"

definition is_ascii_hexdigit :: "char \<Rightarrow> bool" where
  "is_ascii_hexdigit c \<longleftrightarrow>
     is_ascii_digit c \<or> (65 \<le> byte c \<and> byte c \<le> 70) \<or> (97 \<le> byte c \<and> byte c \<le> 102)"

definition is_lower_hexdigit :: "char \<Rightarrow> bool" where
  "is_lower_hexdigit c \<longleftrightarrow> is_ascii_digit c \<or> (97 \<le> byte c \<and> byte c \<le> 102)"

text \<open>The same tests on the bits of a byte, for evaluation.\<close>

lemma is_ascii_digit_code [code]:
  "is_ascii_digit (Char b0 b1 b2 b3 b4 b5 b6 b7) = (\<not> b7 \<and> \<not> b6 \<and> b5 \<and> b4 \<and> \<not> (b3 \<and> (b2 \<or> b1)))"
  by (cases b0; cases b1; cases b2; cases b3; cases b4; cases b5; cases b6; cases b7)
     (simp_all add: is_ascii_digit_def byte_def)

lemma is_ascii_alphanumeric_code [code]:
  "is_ascii_alphanumeric (Char b0 b1 b2 b3 b4 b5 b6 b7) =
     (is_ascii_digit (Char b0 b1 b2 b3 b4 b5 b6 b7)
      \<or> \<not> b7 \<and> b6 \<and> (b4 \<or> b3 \<or> b2 \<or> b1 \<or> b0) \<and> \<not> (b4 \<and> b3 \<and> (b2 \<or> b1 \<and> b0)))"
  by (cases b0; cases b1; cases b2; cases b3; cases b4; cases b5; cases b6; cases b7)
     (simp_all add: is_ascii_alphanumeric_def byte_def)

lemma is_lower_hexdigit_code [code]:
  "is_lower_hexdigit (Char b0 b1 b2 b3 b4 b5 b6 b7) =
     (is_ascii_digit (Char b0 b1 b2 b3 b4 b5 b6 b7)
      \<or> \<not> b7 \<and> b6 \<and> b5 \<and> \<not> b4 \<and> \<not> b3 \<and> (b2 \<or> b1 \<or> b0) \<and> \<not> (b2 \<and> b1 \<and> b0))"
  by (cases b0; cases b1; cases b2; cases b3; cases b4; cases b5; cases b6; cases b7)
     (simp_all add: is_lower_hexdigit_def byte_def)

lemma is_ascii_hexdigit_code [code]:
  "is_ascii_hexdigit (Char b0 b1 b2 b3 b4 b5 b6 b7) =
     (is_ascii_digit (Char b0 b1 b2 b3 b4 b5 b6 b7)
      \<or> \<not> b7 \<and> b6 \<and> \<not> b4 \<and> \<not> b3 \<and> (b2 \<or> b1 \<or> b0) \<and> \<not> (b2 \<and> b1 \<and> b0))"
  by (cases b0; cases b1; cases b2; cases b3; cases b4; cases b5; cases b6; cases b7)
     (simp_all add: is_ascii_hexdigit_def byte_def)

text \<open>The UTF-8 encodings of the code points with the Unicode property \<open>White_Space\<close>.\<close>

definition whitespace_encodings :: "nat list list" where
  "whitespace_encodings =
     [[9], [10], [11], [12], [13], [32], [194, 133], [194, 160], [225, 154, 128],
      [226, 128, 128], [226, 128, 129], [226, 128, 130], [226, 128, 131], [226, 128, 132],
      [226, 128, 133], [226, 128, 134], [226, 128, 135], [226, 128, 136], [226, 128, 137],
      [226, 128, 138], [226, 128, 168], [226, 128, 169], [226, 128, 175], [226, 129, 159],
      [227, 128, 128]]"

text \<open>\<open>s.trim().is_empty()\<close>: every character of \<open>s\<close> is white space.\<close>

fun all_whitespace :: "nat list \<Rightarrow> bool" where
  "all_whitespace [] = True"
| "all_whitespace [a] = ([a] \<in> set whitespace_encodings)"
| "all_whitespace [a, b] =
     (if [a] \<in> set whitespace_encodings then all_whitespace [b]
      else [a, b] \<in> set whitespace_encodings)"
| "all_whitespace (a # b # c # s) =
     (if [a] \<in> set whitespace_encodings then all_whitespace (b # c # s)
      else if [a, b] \<in> set whitespace_encodings then all_whitespace (c # s)
      else [a, b, c] \<in> set whitespace_encodings \<and> all_whitespace s)"

definition trim_is_empty :: "string \<Rightarrow> bool" where
  "trim_is_empty s = all_whitespace (map byte s)"

text \<open>\<open>s.trim() == s\<close>: no white-space character at either end.\<close>

definition is_trimmed :: "string \<Rightarrow> bool" where
  "is_trimmed s = (\<forall>w \<in> set whitespace_encodings.
     take (length w) (map byte s) \<noteq> w
     \<and> drop (length s - length w) (map byte s) \<noteq> w)"

text \<open>\<open>s.chars().any(char::is_control)\<close>: U+0000 to U+001F and U+007F to U+009F.\<close>

fun any_control :: "nat list \<Rightarrow> bool" where
  "any_control [] = False"
| "any_control [a] = (a < 32 \<or> a = 127)"
| "any_control (a # b # s) =
     (a < 32 \<or> a = 127 \<or> (a = 194 \<and> 128 \<le> b \<and> b \<le> 159) \<or> any_control (b # s))"

definition has_control :: "string \<Rightarrow> bool" where
  "has_control s = any_control (map byte s)"

text \<open>\<open>format!("{}", n)\<close> on an unsigned integer.\<close>

definition digit_char :: "nat \<Rightarrow> char" where
  "digit_char d = ''0123456789'' ! d"

fun show_nat :: "nat \<Rightarrow> string" where
  "show_nat n = (if n < 10 then [digit_char n] else show_nat (n div 10) @ [digit_char (n mod 10)])"

declare show_nat.simps [simp del]

lemma byte_digit_char: "d < 10 \<Longrightarrow> byte (digit_char d) = 48 + d"
proof -
  assume "d < 10"
  then have "d \<in> {0, 1, 2, 3, 4, 5, 6, 7, 8, 9}"
    by auto
  then show ?thesis
    by (elim insertE) (simp_all add: digit_char_def byte_def)
qed

lemma digit_char_inj: "d < 10 \<Longrightarrow> e < 10 \<Longrightarrow> digit_char d = digit_char e \<Longrightarrow> d = e"
  using byte_digit_char by (metis add_left_cancel)

lemma show_nat_nonempty [simp]: "show_nat n \<noteq> []"
  by (subst show_nat.simps) simp

lemma show_nat_digits: "c \<in> set (show_nat n) \<Longrightarrow> is_ascii_digit c"
proof (induction n rule: show_nat.induct)
  case (1 n)
  show ?case
  proof (cases "n < 10")
    case True
    with "1.prems" show ?thesis
      by (subst (asm) show_nat.simps) (simp add: is_ascii_digit_def byte_digit_char)
  next
    case False
    with "1.prems" have "c \<in> set (show_nat (n div 10)) \<or> c = digit_char (n mod 10)"
      by (subst (asm) show_nat.simps) auto
    with False "1.IH" show ?thesis
      by (auto simp: is_ascii_digit_def byte_digit_char)
  qed
qed

text \<open>Decimal printing loses nothing: identifiers built from different ordinals differ.\<close>

lemma show_nat_inj: "show_nat m = show_nat n \<Longrightarrow> m = n"
proof (induction m arbitrary: n rule: show_nat.induct)
  case (1 m)
  have len: "length (show_nat k) = 1 \<longleftrightarrow> k < 10" for k
    by (subst show_nat.simps) auto
  show ?case
  proof (cases "m < 10")
    case True
    with len "1.prems" have "n < 10"
      by metis
    with True "1.prems" show ?thesis
      by (simp add: show_nat.simps [of m] show_nat.simps [of n] digit_char_inj)
  next
    case False
    with len "1.prems" have n: "\<not> n < 10"
      by metis
    with False "1.prems" have "show_nat (m div 10) = show_nat (n div 10)"
      and "digit_char (m mod 10) = digit_char (n mod 10)"
      by (simp_all add: show_nat.simps [of m] show_nat.simps [of n])
    then have "m div 10 = n div 10" "m mod 10 = n mod 10"
      using "1.IH" False by (auto intro: digit_char_inj)
    then show ?thesis
      by (metis div_mult_mod_eq)
  qed
qed

text \<open>\<open>slice.join(sep)\<close>.\<close>

fun join_with :: "string \<Rightarrow> string list \<Rightarrow> string" where
  "join_with sep [] = []"
| "join_with sep [x] = x"
| "join_with sep (x # y # xs) = x @ sep @ join_with sep (y # xs)"

text \<open>\<open>s.split_once(c)\<close>.\<close>

fun split_once :: "char \<Rightarrow> string \<Rightarrow> (string \<times> string) option" where
  "split_once c [] = None"
| "split_once c (x # xs) =
     (if x = c then Some ([], xs)
      else map_option (\<lambda>(a, b). (x # a, b)) (split_once c xs))"

lemma split_once_append:
  "c \<notin> set a \<Longrightarrow> split_once c (a @ c # b) = Some (a, b)"
  by (induction a) auto

lemma split_once_None: "split_once c s = None \<longleftrightarrow> c \<notin> set s"
  by (induction s) auto

section \<open>Digests\<close>

text \<open>
  SHA-256 is a library the sources call: a function from bytes to its lower-case hexadecimal
  digest, an argument \<open>sha\<close> of every definition that hashes. What the sources rely on is that a
  digest is 64 lower-case hexadecimal characters.
\<close>

type_synonym digest = "string \<Rightarrow> string"

definition hex_digest :: "digest \<Rightarrow> bool" where
  "hex_digest sha \<longleftrightarrow> (\<forall>m. length (sha m) = 64 \<and> (\<forall>c \<in> set (sha m). is_lower_hexdigit c))"

definition zero_digest :: digest where
  "zero_digest m = replicate 64 (CHR ''0'')"

lemma hex_digest_zero: "hex_digest zero_digest"
  by (simp add: hex_digest_def zero_digest_def is_lower_hexdigit_def is_ascii_digit_def byte_def)

lemma lower_hex_alphanumeric: "is_lower_hexdigit c \<Longrightarrow> is_ascii_alphanumeric c"
  by (auto simp: is_lower_hexdigit_def is_ascii_alphanumeric_def)

lemma lower_hex_hex: "is_lower_hexdigit c \<Longrightarrow> is_ascii_hexdigit c"
  by (auto simp: is_lower_hexdigit_def is_ascii_hexdigit_def)

lemma set_map_filter_iff: "y \<in> set (List.map_filter f xs) \<longleftrightarrow> (\<exists>x \<in> set xs. f x = Some y)"
  by (force simp: List.map_filter_def)

lemma distinct_filter_mset:
  "mset xs = mset ys \<Longrightarrow> distinct (map g (filter P xs)) \<longleftrightarrow> distinct (map g (filter P ys))"
  by (rule mset_eq_imp_distinct_iff) simp

section \<open>Interfaces\<close>

locale inv_system =
  fixes step :: "'s \<Rightarrow> 's \<Rightarrow> bool"
    and inv :: "'s \<Rightarrow> bool"
  assumes step_inv: "inv s \<Longrightarrow> step s t \<Longrightarrow> inv t"
begin

lemma steps_inv: "step\<^sup>*\<^sup>* s t \<Longrightarrow> inv s \<Longrightarrow> inv t"
  by (induction rule: rtranclp_induct) (auto intro: step_inv)

lemma steps_preorder:
  assumes "\<And>s t. inv s \<Longrightarrow> step s t \<Longrightarrow> R s t"
    and "\<And>s. R s s" and "\<And>s t u. R s t \<Longrightarrow> R t u \<Longrightarrow> R s u"
    and "step\<^sup>*\<^sup>* s t" and "inv s"
  shows "R s t"
  using assms(4,5)
proof (induction rule: rtranclp_induct)
  case base
  show ?case by (rule assms(2))
next
  case (step t u)
  then have "inv t"
    by (blast intro: steps_inv)
  with step show ?case
    by (blast intro: assms(1,3))
qed

end

text \<open>
  \<open>typed c\<close> is what the type of a checkpoint guarantees before \<open>restore\<close> runs: its identifiers
  are parsed \<open>StableId\<close>s.
\<close>

locale checkpointing =
  fixes checkpoint :: "'s \<Rightarrow> 'c"
    and restore :: "'c \<Rightarrow> 'e + 's"
    and typed :: "'c \<Rightarrow> bool"
    and inv :: "'s \<Rightarrow> bool"
  assumes restore_checkpoint: "inv s \<Longrightarrow> restore (checkpoint s) = Inr s"
    and restore_inv: "typed c \<Longrightarrow> restore c = Inr s \<Longrightarrow> inv s"
begin

lemma checkpoint_inj: "inv s \<Longrightarrow> inv t \<Longrightarrow> checkpoint s = checkpoint t \<Longrightarrow> s = t"
  using restore_checkpoint by (metis sum.inject(2))

lemma restore_idem: "typed c \<Longrightarrow> restore c = Inr s \<Longrightarrow> restore (checkpoint s) = Inr s"
  by (blast intro: restore_checkpoint restore_inv)

end

locale crash_safe = inv_system step inv + checkpointing checkpoint restore typed inv
  for step :: "'s \<Rightarrow> 's \<Rightarrow> bool" and inv :: "'s \<Rightarrow> bool"
    and checkpoint :: "'s \<Rightarrow> 'c" and restore :: "'c \<Rightarrow> 'e + 's" and typed :: "'c \<Rightarrow> bool"
begin

text \<open>Restoring the last checkpoint at any points of a run adds no behaviour.\<close>

lemma crash_step: "inv s \<Longrightarrow> restore (checkpoint s) = Inr t \<Longrightarrow> t = s"
  by (simp add: restore_checkpoint)

lemma crashes_transparent:
  assumes "(\<lambda>s t. step s t \<or> restore (checkpoint s) = Inr t)\<^sup>*\<^sup>* s t" and "inv s"
  shows "step\<^sup>*\<^sup>* s t"
  using assms
proof (induction rule: rtranclp_induct)
  case (step t u)
  then have "step\<^sup>*\<^sup>* s t" and "inv t"
    using steps_inv by blast+
  with step.hyps(2) show ?case
    by (auto dest: crash_step intro: rtranclp.rtrancl_into_rtrancl)
qed simp

end

end
