(* ===== verification/Btree.thy ===== *)
theory Btree
  imports Aw_Prelude
begin

text \<open>
  \<open>BTreeMap\<close> and \<open>BTreeSet\<close> of the Rust standard library. A map is its list of entries in
  ascending key order, so \<open>values()\<close>, \<open>keys()\<close> and \<open>iter()\<close> are the list itself and equality
  of maps is equality of lists; a set is its ascending list of elements. \<open>bwf\<close> and \<open>swf\<close> say
  that the keys ascend strictly. The laws of \<open>get\<close> after an update hold of every list; \<open>bwf\<close>
  matters for lengths, for distinctness and for rebuilding a map from its entries.
\<close>

section \<open>Maps\<close>

type_synonym ('k, 'v) bmap = "('k \<times> 'v) list"

abbreviation bget :: "('k, 'v) bmap \<Rightarrow> 'k \<Rightarrow> 'v option" where
  "bget \<equiv> map_of"

abbreviation bkeys :: "('k, 'v) bmap \<Rightarrow> 'k list" where
  "bkeys \<equiv> map fst"

abbreviation bvalues :: "('k, 'v) bmap \<Rightarrow> 'v list" where
  "bvalues \<equiv> map snd"

definition bcontains :: "('k, 'v) bmap \<Rightarrow> 'k \<Rightarrow> bool" where
  "bcontains m k = (bget m k \<noteq> None)"

fun binsert :: "'k::linorder \<Rightarrow> 'v \<Rightarrow> ('k, 'v) bmap \<Rightarrow> ('k, 'v) bmap" where
  "binsert k v [] = [(k, v)]"
| "binsert k v (e # m) =
     (if k < fst e then (k, v) # e # m
      else if k = fst e then (k, v) # m
      else e # binsert k v m)"

definition bremove :: "'k \<Rightarrow> ('k, 'v) bmap \<Rightarrow> ('k, 'v) bmap" where
  "bremove k m = filter (\<lambda>e. fst e \<noteq> k) m"

text \<open>A write through \<open>get_mut(k)\<close>, and through \<open>values_mut()\<close>.\<close>

definition bmodify :: "'k \<Rightarrow> ('v \<Rightarrow> 'v) \<Rightarrow> ('k, 'v) bmap \<Rightarrow> ('k, 'v) bmap" where
  "bmodify k f m = map (\<lambda>e. if fst e = k then (fst e, f (snd e)) else e) m"

definition bmap_values :: "('v \<Rightarrow> 'w) \<Rightarrow> ('k, 'v) bmap \<Rightarrow> ('k, 'w) bmap" where
  "bmap_values f m = map (\<lambda>e. (fst e, f (snd e))) m"

definition bwf :: "('k::linorder, 'v) bmap \<Rightarrow> bool" where
  "bwf m = sorted_wrt (<) (bkeys m)"

text \<open>\<open>BTreeMap::from_iter\<close>: later entries replace earlier ones.\<close>

definition bmap_of_list :: "('k::linorder \<times> 'v) list \<Rightarrow> ('k, 'v) bmap" where
  "bmap_of_list es = fold (\<lambda>e. binsert (fst e) (snd e)) es []"

section \<open>Sets\<close>

fun sinsert :: "'a::linorder \<Rightarrow> 'a list \<Rightarrow> 'a list" where
  "sinsert x [] = [x]"
| "sinsert x (y # ys) =
     (if x < y then x # y # ys else if x = y then y # ys else y # sinsert x ys)"

definition swf :: "'a::linorder list \<Rightarrow> bool" where
  "swf s = sorted_wrt (<) s"

text \<open>\<open>iter().collect::<BTreeSet<_>>()\<close>.\<close>

definition bset_of_list :: "'a::linorder list \<Rightarrow> 'a list" where
  "bset_of_list xs = fold sinsert xs []"

section \<open>Laws of maps\<close>

named_theorems btree

lemma bget_binsert [simp, btree]:
  "bget (binsert k v m) k' = (if k' = k then Some v else bget m k')"
  by (induction m) auto

lemma bget_bremove [simp, btree]:
  "bget (bremove k m) k' = (if k' = k then None else bget m k')"
  unfolding bremove_def by (induction m) auto

lemma bget_bmodify [simp, btree]:
  "bget (bmodify k f m) k' = (if k' = k then map_option f (bget m k) else bget m k')"
  unfolding bmodify_def by (induction m) auto

lemma bget_bmap_values [simp, btree]: "bget (bmap_values f m) k = map_option f (bget m k)"
  unfolding bmap_values_def by (induction m) auto

lemma bcontains_iff: "bcontains m k \<longleftrightarrow> k \<in> set (bkeys m)"
  by (auto simp: bcontains_def map_of_eq_None_iff)

lemma bcontains_simps [simp]:
  "bcontains (binsert k v m) k' \<longleftrightarrow> k' = k \<or> bcontains m k'"
  "bcontains (bremove k m) k' \<longleftrightarrow> k' \<noteq> k \<and> bcontains m k'"
  "bcontains (bmodify k f m) k' \<longleftrightarrow> bcontains m k'"
  "\<not> bcontains [] k'"
  by (auto simp: bcontains_def)

lemma bkeys_bmodify [simp]: "bkeys (bmodify k f m) = bkeys m"
  unfolding bmodify_def by (induction m) auto

lemma bkeys_bmap_values [simp]: "bkeys (bmap_values f m) = bkeys m"
  unfolding bmap_values_def by (induction m) auto

lemma bvalues_bmap_values [simp]: "bvalues (bmap_values f m) = map f (bvalues m)"
  unfolding bmap_values_def by (induction m) auto

lemma bvalues_bmodify:
  "bvalues (bmodify k f m) = map (\<lambda>e. if fst e = k then f (snd e) else snd e) m"
  unfolding bmodify_def by (induction m) auto

lemma set_bkeys_binsert [simp]: "set (bkeys (binsert k v m)) = insert k (set (bkeys m))"
  by (induction m) auto

lemma set_bkeys_bremove [simp]: "set (bkeys (bremove k m)) = set (bkeys m) - {k}"
  unfolding bremove_def by auto

section \<open>Ascending keys\<close>

lemma bwf_Nil [simp]: "bwf []"
  by (simp add: bwf_def)

lemma bwf_Cons: "bwf (e # m) \<longleftrightarrow> (\<forall>k \<in> set (bkeys m). fst e < k) \<and> bwf m"
  by (simp add: bwf_def)

lemma bwf_distinct: "bwf m \<Longrightarrow> distinct (bkeys m)"
  unfolding bwf_def by (simp add: strict_sorted_iff)

lemma bwf_binsert [intro, simp]: "bwf m \<Longrightarrow> bwf (binsert k v m)"
proof (induction m)
  case (Cons e m)
  then have lt: "\<forall>x \<in> set m. fst e < fst x" and wf: "bwf m"
    by (simp_all add: bwf_Cons)
  have keys: "fst ` set (binsert k v m) = insert k (fst ` set m)"
    using set_bkeys_binsert [of k v m] by simp
  show ?case
  proof (cases k "fst e" rule: linorder_cases)
    case less
    with lt have "\<forall>x \<in> set m. k < fst x"
      by (meson less_trans)
    with less Cons.prems show ?thesis
      by (simp add: bwf_Cons)
  next
    case equal
    with Cons.prems show ?thesis
      by (simp add: bwf_Cons)
  next
    case greater
    with lt keys have "\<forall>k' \<in> fst ` set (binsert k v m). fst e < k'"
      by simp
    moreover from greater have "\<not> k < fst e" "k \<noteq> fst e"
      by auto
    ultimately show ?thesis
      using Cons.IH [OF wf] by (simp add: bwf_Cons)
  qed
qed (simp add: bwf_def)

lemma bwf_bremove [intro, simp]: "bwf m \<Longrightarrow> bwf (bremove k m)"
  unfolding bremove_def by (induction m) (auto simp: bwf_Cons)

lemma bwf_bmodify [simp]: "bwf (bmodify k f m) \<longleftrightarrow> bwf m"
  by (simp add: bwf_def)

lemma bwf_bmap_values [simp]: "bwf (bmap_values f m) \<longleftrightarrow> bwf m"
  by (simp add: bwf_def)

lemma bwf_filter [simp]: "bwf m \<Longrightarrow> bwf (filter P m)"
  by (induction m) (auto simp: bwf_Cons)

lemma bget_mem: "bwf m \<Longrightarrow> bget m k = Some v \<longleftrightarrow> (k, v) \<in> set m"
  by (simp add: bwf_distinct)

lemma bget_filter:
  "bwf m \<Longrightarrow> bget (filter P m) k =
     (case bget m k of None \<Rightarrow> None | Some v \<Rightarrow> if P (k, v) then Some v else None)"
proof (induction m)
  case (Cons e m)
  then have "bget (filter P m) (fst e) = None"
    by (force simp: bwf_Cons map_of_eq_None_iff)
  with Cons show ?case
    by (auto simp: bwf_Cons split: option.splits)
qed simp

lemma bwf_ext:
  assumes "bwf m" and "bwf m'" and "\<And>k. bget m k = bget m' k"
  shows "m = m'"
proof -
  have "set m = set m'"
    using assms by (auto simp: bget_mem [symmetric])
  moreover have "sorted (map fst m)" "sorted (map fst m')"
    "distinct (map fst m)" "distinct (map fst m')"
    using assms(1,2) by (simp_all add: bwf_def strict_sorted_iff)
  ultimately show ?thesis
    by (intro map_sorted_distinct_set_unique [where f = fst]) (simp_all add: distinct_map)
qed

lemma binsert_append:
  "(\<And>k'. k' \<in> set (bkeys m) \<Longrightarrow> k' < k) \<Longrightarrow> binsert k v m = m @ [(k, v)]"
proof (induction m)
  case (Cons e m)
  from Cons.prems [of "fst e"] have "fst e < k"
    by simp
  then have "\<not> k < fst e" "k \<noteq> fst e"
    by auto
  with Cons show ?case
    by simp
qed simp

lemma binsert_fold_append:
  "bwf (m @ es) \<Longrightarrow> fold (\<lambda>e. binsert (fst e) (snd e)) es m = m @ es"
proof (induction es arbitrary: m)
  case (Cons e es)
  from Cons.prems have "binsert (fst e) (snd e) m = m @ [e]"
    by (subst binsert_append) (auto simp: bwf_def sorted_wrt_append)
  with Cons show ?case
    by simp
qed simp

lemma bmap_of_list_id: "bwf m \<Longrightarrow> bmap_of_list m = m"
  unfolding bmap_of_list_def using binsert_fold_append [of "[]"] by simp

lemma bwf_bmap_of_list [simp]: "bwf (bmap_of_list es)"
proof -
  have "bwf m \<Longrightarrow> bwf (fold (\<lambda>e. binsert (fst e) (snd e)) es m)" for m
    by (induction es arbitrary: m) auto
  then show ?thesis
    by (simp add: bmap_of_list_def)
qed

lemma length_binsert:
  "bwf m \<Longrightarrow> length (binsert k v m) = (if bcontains m k then length m else Suc (length m))"
proof (induction m)
  case (Cons e m)
  then show ?case
    by (cases e) (force simp: bwf_Cons bcontains_iff)
qed simp

lemma length_bmodify [simp]: "length (bmodify k f m) = length m"
  by (simp add: bmodify_def)

lemma length_bmap_values [simp]: "length (bmap_values f m) = length m"
  by (simp add: bmap_values_def)

text \<open>A write at a key whose value it does not change is no write.\<close>

lemma bmodify_idle: "(\<And>v. bget m k = Some v \<Longrightarrow> f v = v) \<Longrightarrow> bwf m \<Longrightarrow> bmodify k f m = m"
  by (rule bwf_ext; cases "bget m k") auto

text \<open>What a map holds after an insertion or a write, as a set of entries.\<close>

lemma bmodify_cong_at:
  "bwf m \<Longrightarrow> bget m k = Some v \<Longrightarrow> f v = g v \<Longrightarrow> bmodify k f m = bmodify k g m"
  by (rule bwf_ext) auto

lemma set_binsert:
  "bwf m \<Longrightarrow> set (binsert k v m) = insert (k, v) {e \<in> set m. fst e \<noteq> k}"
  by (rule set_eqI) (auto simp: bget_mem [symmetric] split: if_splits)

lemma bget_in_values: "bget m k = Some v \<Longrightarrow> v \<in> set (bvalues m)"
  by (auto dest!: map_of_SomeD intro: rev_image_eqI)

lemma in_values_iff: "bwf m \<Longrightarrow> v \<in> set (bvalues m) \<longleftrightarrow> (\<exists>k. bget m k = Some v)"
  by (force simp: bget_mem)

text \<open>
  Every entry, and some value, of a map; with what each write does to them. The components state
  their invariants with these, so that a step's effect on an invariant is one rewrite.
\<close>

definition bforall :: "('k \<Rightarrow> 'v \<Rightarrow> bool) \<Rightarrow> ('k, 'v) bmap \<Rightarrow> bool" where
  "bforall P m \<longleftrightarrow> (\<forall>k v. bget m k = Some v \<longrightarrow> P k v)"

definition bexists :: "('v \<Rightarrow> bool) \<Rightarrow> ('k, 'v) bmap \<Rightarrow> bool" where
  "bexists Q m \<longleftrightarrow> (\<exists>k v. bget m k = Some v \<and> Q v)"

lemma bforallD: "bforall P m \<Longrightarrow> bget m k = Some v \<Longrightarrow> P k v"
  by (simp add: bforall_def)

lemma bforallI: "(\<And>k v. bget m k = Some v \<Longrightarrow> P k v) \<Longrightarrow> bforall P m"
  by (simp add: bforall_def)

lemma bforall_Nil [simp]: "bforall P []"
  by (simp add: bforall_def)

lemma bforall_mono: "bforall P m \<Longrightarrow> (\<And>k v. bget m k = Some v \<Longrightarrow> P k v \<Longrightarrow> Q k v) \<Longrightarrow> bforall Q m"
  by (simp add: bforall_def)

lemma bforall_binsert [simp]:
  "bforall P (binsert k v m) \<longleftrightarrow> P k v \<and> bforall (\<lambda>k' v'. k' \<noteq> k \<longrightarrow> P k' v') m"
  by (auto simp: bforall_def)

lemma bforall_bremove [simp]:
  "bforall P (bremove k m) \<longleftrightarrow> bforall (\<lambda>k' v'. k' \<noteq> k \<longrightarrow> P k' v') m"
  by (auto simp: bforall_def)

lemma bforall_bmodify [simp]:
  "bforall P (bmodify k f m) \<longleftrightarrow> bforall (\<lambda>k' v'. P k' (if k' = k then f v' else v')) m"
  by (auto simp: bforall_def)

lemma bforall_bmap_values [simp]:
  "bforall P (bmap_values f m) \<longleftrightarrow> bforall (\<lambda>k v. P k (f v)) m"
  by (auto simp: bforall_def)

lemma bforall_entries: "bwf m \<Longrightarrow> bforall P m \<longleftrightarrow> (\<forall>e \<in> set m. P (fst e) (snd e))"
  by (auto simp: bforall_def bget_mem)

lemma bexistsI: "bget m k = Some v \<Longrightarrow> Q v \<Longrightarrow> bexists Q m"
  by (auto simp: bexists_def)

lemma bexists_Nil [simp]: "\<not> bexists Q []"
  by (simp add: bexists_def)

lemma bexists_values: "bwf m \<Longrightarrow> bexists Q m \<longleftrightarrow> (\<exists>v \<in> set (bvalues m). Q v)"
  by (force simp: bexists_def bget_mem)

lemma bexists_binsert_new:
  "bget m k = None \<Longrightarrow> bexists Q (binsert k v m) \<longleftrightarrow> Q v \<or> bexists Q m"
  unfolding bexists_def by (metis bget_binsert option.distinct(1) option.inject)

lemma bexists_bmodify:
  "bget m k = Some v \<Longrightarrow> \<not> Q v \<Longrightarrow> bexists Q (bmodify k f m) \<longleftrightarrow> Q (f v) \<or> bexists Q m"
  unfolding bexists_def by (metis bget_bmodify option.map(2) option.inject)

lemma bexists_bmodify_same:
  "bget m k = Some v \<Longrightarrow> Q (f v) = Q v \<Longrightarrow> bexists Q (bmodify k f m) \<longleftrightarrow> bexists Q m"
  unfolding bexists_def by (metis bget_bmodify option.map(2) option.inject)

lemma bexists_bmap_values: "bexists Q (bmap_values f m) \<longleftrightarrow> bexists (\<lambda>v. Q (f v)) m"
  by (auto simp: bexists_def)

text \<open>
  A field that is unique among the values that satisfy \<open>P\<close>: as a property of lookups, and as
  distinctness of the list of values, which is how a restore meets it.
\<close>

definition bunique :: "('v \<Rightarrow> bool) \<Rightarrow> ('v \<Rightarrow> 'f) \<Rightarrow> ('k, 'v) bmap \<Rightarrow> bool" where
  "bunique P g m \<longleftrightarrow> (\<forall>k k' v v'. bget m k = Some v \<longrightarrow> bget m k' = Some v' \<longrightarrow> P v \<longrightarrow> P v'
     \<longrightarrow> g v = g v' \<longrightarrow> k = k')"

lemma buniqueD:
  "bunique P g m \<Longrightarrow> bget m k = Some v \<Longrightarrow> bget m k' = Some v' \<Longrightarrow> P v \<Longrightarrow> P v' \<Longrightarrow> g v = g v' \<Longrightarrow> k = k'"
  unfolding bunique_def by blast

lemma bunique_Nil [simp]: "bunique P g []"
  by (simp add: bunique_def)

lemma bunique_binsert:
  assumes un: "bunique P g m"
    and other: "\<And>k' v'. P v \<Longrightarrow> bget m k' = Some v' \<Longrightarrow> P v' \<Longrightarrow> k' \<noteq> k \<Longrightarrow> g v' \<noteq> g v"
  shows "bunique P g (binsert k v m)"
  unfolding bunique_def
proof (intro allI impI)
  fix a b x y
  assume a: "bget (binsert k v m) a = Some x" and b: "bget (binsert k v m) b = Some y"
    and P: "P x" "P y" and eq: "g x = g y"
  show "a = b"
  proof (cases "a = k")
    case True
    with a b P eq other [of b y] show ?thesis
      by (cases "b = k") auto
  next
    case False
    with a b P eq other [of a x] buniqueD [OF un, of a x b y] show ?thesis
      by (cases "b = k") auto
  qed
qed

lemma bunique_bmap_values:
  assumes "bunique P g m" and keep: "\<And>v. P (f v) \<Longrightarrow> P v \<and> g (f v) = g v"
  shows "bunique P g (bmap_values f m)"
  unfolding bunique_def
proof (intro allI impI)
  fix a b x y
  assume "bget (bmap_values f m) a = Some x" "bget (bmap_values f m) b = Some y" "P x" "P y" "g x = g y"
  then obtain x' y' where "bget m a = Some x'" "bget m b = Some y'" "P x'" "P y'" "g x' = g y'"
    using keep by auto
  then show "a = b"
    by (rule buniqueD [OF assms(1)])
qed

lemma bunique_bmodify:
  assumes un: "bunique P g m"
    and keep: "\<And>v. bget m k = Some v \<Longrightarrow> P (f v) \<Longrightarrow> P v \<and> g (f v) = g v"
  shows "bunique P g (bmodify k f m)"
proof -
  have orig: "\<exists>v. bget m a = Some v \<and> P v \<and> g v = g x"
    if "bget (bmodify k f m) a = Some x" "P x" for a x
    using that keep by (cases "a = k") auto
  show ?thesis
    unfolding bunique_def
  proof (intro allI impI)
    fix a b x y
    assume a: "bget (bmodify k f m) a = Some x" and b: "bget (bmodify k f m) b = Some y"
      and P: "P x" "P y" and eq: "g x = g y"
    from orig [OF a P(1)] orig [OF b P(2)] eq show "a = b"
      by (metis buniqueD [OF un])
  qed
qed

lemma bunique_distinct:
  assumes "bwf m"
  shows "bunique P g m \<longleftrightarrow> distinct (map g (filter P (bvalues m)))"
proof -
  have eq: "map g (filter P (bvalues m)) = map (g \<circ> snd) (filter (P \<circ> snd) m)"
    by (simp add: filter_map)
  have dist: "distinct (filter (P \<circ> snd) m)"
    using bwf_distinct [OF assms] by (simp add: distinct_map)
  have "distinct (map g (filter P (bvalues m))) \<longleftrightarrow> inj_on (g \<circ> snd) (set (filter (P \<circ> snd) m))"
    by (simp add: eq distinct_map dist)
  also have "\<dots> \<longleftrightarrow> bunique P g m"
  proof
    assume inj: "inj_on (g \<circ> snd) (set (filter (P \<circ> snd) m))"
    show "bunique P g m"
      unfolding bunique_def bget_mem [OF assms] using inj by (fastforce simp: inj_on_def)
  next
    assume un: "bunique P g m"
    show "inj_on (g \<circ> snd) (set (filter (P \<circ> snd) m))"
    proof (rule inj_onI)
      fix x y
      assume "x \<in> set (filter (P \<circ> snd) m)" "y \<in> set (filter (P \<circ> snd) m)"
        and "(g \<circ> snd) x = (g \<circ> snd) y"
      then have x: "bget m (fst x) = Some (snd x)" and y: "bget m (fst y) = Some (snd y)"
        and "P (snd x)" "P (snd y)" "g (snd x) = g (snd y)"
        by (simp_all add: bget_mem [OF assms])
      with un have "fst x = fst y"
        by (blast dest: buniqueD)
      with x y show "x = y"
        by (simp add: prod_eq_iff)
    qed
  qed
  finally show ?thesis
    by simp
qed

section \<open>Laws of sets\<close>

lemma set_sinsert [simp]: "set (sinsert x s) = insert x (set s)"
  by (induction s) auto

lemma swf_Nil [simp]: "swf []"
  by (simp add: swf_def)

lemma swf_sinsert [intro, simp]: "swf s \<Longrightarrow> swf (sinsert x s)"
  unfolding swf_def by (induction s) auto

lemma swf_distinct: "swf s \<Longrightarrow> distinct s"
  by (simp add: swf_def strict_sorted_iff)

lemma set_bset_of_list [simp]: "set (bset_of_list xs) = set xs"
proof -
  have "set (fold sinsert xs s) = set s \<union> set xs" for s
    by (induction xs arbitrary: s) auto
  then show ?thesis
    by (simp add: bset_of_list_def)
qed

lemma swf_bset_of_list [simp]: "swf (bset_of_list xs)"
proof -
  have "swf s \<Longrightarrow> swf (fold sinsert xs s)" for s
    by (induction xs arbitrary: s) auto
  then show ?thesis
    by (simp add: bset_of_list_def)
qed

lemma swf_ext: "swf s \<Longrightarrow> swf t \<Longrightarrow> set s = set t \<Longrightarrow> s = t"
  by (simp add: swf_def strict_sorted_equal)

lemma bset_of_list_id: "swf s \<Longrightarrow> bset_of_list s = s"
  by (rule swf_ext) simp_all

lemma length_bset_of_list: "length (bset_of_list xs) = card (set xs)"
  using swf_distinct [of "bset_of_list xs"] by (simp add: distinct_card [symmetric])

text \<open>The sources' test for duplicates: collect into a set and compare the lengths.\<close>

lemma bset_length_eq_iff: "length (bset_of_list xs) = length xs \<longleftrightarrow> distinct xs"
  using card_distinct [of xs] distinct_card [of xs] by (auto simp: length_bset_of_list)

lemma swf_filter [simp]: "swf s \<Longrightarrow> swf (filter P s)"
  unfolding swf_def by (induction s) auto

section \<open>The interface\<close>

text \<open>
  What the components rely on when they keep their state in a keyed store: lookups after a
  write, and that every write keeps the representation.
\<close>

locale keyed_store =
  fixes empty :: 'm
    and get :: "'m \<Rightarrow> 'k \<Rightarrow> 'v option"
    and put :: "'k \<Rightarrow> 'v \<Rightarrow> 'm \<Rightarrow> 'm"
    and del :: "'k \<Rightarrow> 'm \<Rightarrow> 'm"
    and entries :: "'m \<Rightarrow> ('k \<times> 'v) list"
    and wf :: "'m \<Rightarrow> bool"
  assumes get_empty: "get empty k = None"
    and get_put: "get (put k v m) k' = (if k' = k then Some v else get m k')"
    and get_del: "get (del k m) k' = (if k' = k then None else get m k')"
    and wf_empty: "wf empty"
    and wf_put: "wf m \<Longrightarrow> wf (put k v m)"
    and wf_del: "wf m \<Longrightarrow> wf (del k m)"
    and entries_get: "wf m \<Longrightarrow> (k, v) \<in> set (entries m) \<longleftrightarrow> get m k = Some v"
    and ext: "wf m \<Longrightarrow> wf m' \<Longrightarrow> (\<And>k. get m k = get m' k) \<Longrightarrow> m = m'"
begin

text \<open>Loading the entries of a store into an empty one rebuilds it.\<close>

lemma get_load:
  "distinct (map fst es) \<Longrightarrow>
   get (fold (\<lambda>e. put (fst e) (snd e)) es m) k =
     (case map_of es k of None \<Rightarrow> get m k | Some v \<Rightarrow> Some v)"
proof (induction es arbitrary: m)
  case (Cons e es)
  then have "map_of es (fst e) = None"
    by (simp add: map_of_eq_None_iff)
  with Cons show ?case
    by (auto simp: get_put split: option.splits)
qed simp

lemma wf_load: "wf m \<Longrightarrow> wf (fold (\<lambda>e. put (fst e) (snd e)) es m)"
  by (induction es arbitrary: m) (auto intro: wf_put)

lemma load_entries:
  assumes "wf m" and "distinct (map fst (entries m))"
  shows "fold (\<lambda>e. put (fst e) (snd e)) (entries m) empty = m"
proof (rule ext)
  show "wf (fold (\<lambda>e. put (fst e) (snd e)) (entries m) empty)"
    by (rule wf_load) (rule wf_empty)
  show "wf m" by fact
  show "get (fold (\<lambda>e. put (fst e) (snd e)) (entries m) empty) k = get m k" for k
    using assms entries_get [of m k]
    by (cases "get m k")
       (auto simp: get_load get_empty map_of_eq_None_iff map_of_eq_Some_iff
             split: option.splits)
qed

lemma put_put: "wf m \<Longrightarrow> put k v (put k w m) = put k v m"
  by (rule ext) (auto simp: get_put wf_put)

lemma put_commute: "wf m \<Longrightarrow> k \<noteq> k' \<Longrightarrow> put k v (put k' w m) = put k' w (put k v m)"
  by (rule ext) (auto simp: get_put wf_put)

lemma put_same: "wf m \<Longrightarrow> get m k = Some v \<Longrightarrow> put k v m = m"
  by (rule ext) (auto simp: get_put wf_put)

lemma del_put: "wf m \<Longrightarrow> get m k = None \<Longrightarrow> del k (put k v m) = m"
  by (rule ext) (auto simp: get_put get_del wf_put wf_del)

end

interpretation bm: keyed_store "[]" bget binsert bremove "\<lambda>m. m" bwf
  by unfold_locales (simp_all add: bget_mem bwf_ext)

section \<open>Values stored under their own key\<close>

lemma fold_self_keyed:
  "fold (\<lambda>f. binsert (key f) f) fs m = fold (\<lambda>e. binsert (fst e) (snd e)) (map (\<lambda>f. (key f, f)) fs) m"
  by (induction fs arbitrary: m) auto

lemma self_keyed_entries:
  assumes "bwf m" and "bforall (\<lambda>k f. key f = k) m"
  shows "map (\<lambda>f. (key f, f)) (bvalues m) = m"
  unfolding map_map comp_def
  by (rule map_idI) (use assms in \<open>simp add: bforall_entries\<close>)

lemma load_self_keyed:
  assumes "bwf m" and "bforall (\<lambda>k f. key f = k) m"
  shows "fold (\<lambda>f. binsert (key f) f) (bvalues m) [] = m"
  unfolding fold_self_keyed self_keyed_entries [OF assms]
  using bmap_of_list_id [OF assms(1)] by (simp add: bmap_of_list_def)

lemma map_key_values:
  "bwf m \<Longrightarrow> bforall (\<lambda>k f. key f = k) m \<Longrightarrow> map key (bvalues m) = bkeys m"
  by (auto simp: bforall_entries)

lemma load_self_keyed_inv:
  assumes "distinct (map key fs)"
  defines "m \<equiv> fold (\<lambda>f. binsert (key f) f) fs []"
  shows "bwf m" "bforall (\<lambda>k f. key f = k) m" "set (bvalues m) = set fs" "mset (bvalues m) = mset fs"
proof -
  have m: "m = bmap_of_list (map (\<lambda>f. (key f, f)) fs)"
    by (simp add: m_def fold_self_keyed bmap_of_list_def)
  have dist: "distinct (map fst (map (\<lambda>f. (key f, f)) fs))"
    using assms(1) by (simp add: comp_def)
  have get: "bget m k = map_of (map (\<lambda>f. (key f, f)) fs) k" for k
    unfolding m bmap_of_list_def using bm.get_load [OF dist, of "[]" k]
    by (simp split: option.splits)
  show wf: "bwf m"
    by (simp add: m)
  show keyed: "bforall (\<lambda>k f. key f = k) m"
    unfolding bforall_def get by (auto dest: map_of_SomeD)
  have "bget m k = Some v \<longleftrightarrow> v \<in> set fs \<and> key v = k" for k v
    unfolding get map_of_eq_Some_iff [OF dist] by auto
  then show vals: "set (bvalues m) = set fs"
    by (simp add: set_eq_iff in_values_iff [OF wf] del: set_map)
  have "distinct (map key (bvalues m))"
    unfolding map_key_values [OF wf keyed] by (rule bwf_distinct [OF wf])
  then show "mset (bvalues m) = mset fs"
    using vals assms(1) by (metis distinct_map set_eq_iff_mset_eq_distinct)
qed

section \<open>Sums and counts over values\<close>

definition bsum :: "('v \<Rightarrow> nat) \<Rightarrow> ('k, 'v) bmap \<Rightarrow> nat" where
  "bsum f m = sum_list (map f (bvalues m))"

definition bcount :: "('v \<Rightarrow> bool) \<Rightarrow> ('k, 'v) bmap \<Rightarrow> nat" where
  "bcount P m = length (filter P (bvalues m))"

lemma bcount_bsum: "bcount P m = bsum (\<lambda>v. of_bool (P v)) m"
  by (induction m) (auto simp: bcount_def bsum_def)

lemma bsum_Nil [simp]: "bsum f [] = 0"
  by (simp add: bsum_def)

lemma bsum_binsert_new: "bget m k = None \<Longrightarrow> bsum f (binsert k v m) = f v + bsum f m"
  by (induction m) (auto simp: bsum_def split: if_splits)

lemma bsum_bremove: "bwf m \<Longrightarrow> bget m k = Some v \<Longrightarrow> bsum f m = f v + bsum f (bremove k m)"
proof (induction m)
  case (Cons e m)
  show ?case
  proof (cases "fst e = k")
    case True
    with Cons.prems have "filter (\<lambda>e. fst e \<noteq> k) m = m"
      by (auto simp: bwf_Cons intro!: filter_True)
    with Cons.prems True show ?thesis
      by (simp add: bsum_def bremove_def)
  qed (use Cons in \<open>simp add: bsum_def bremove_def bwf_Cons\<close>)
qed simp

lemma bsum_cong_values:
  "(\<And>k v. bget m k = Some v \<Longrightarrow> f v = g v) \<Longrightarrow> bwf m \<Longrightarrow> bsum f m = bsum g m"
  unfolding bsum_def by (rule arg_cong [where f = sum_list]) (auto simp: bget_mem)

lemma bsum_bmodify_same:
  assumes "bwf m" and "\<And>v. bget m k = Some v \<Longrightarrow> f (g v) = f v"
  shows "bsum f (bmodify k g m) = bsum f m"
proof -
  have "map f (bvalues (bmodify k g m)) = map f (bvalues m)"
    using assms by (auto simp: bmodify_def bget_mem)
  then show ?thesis
    by (simp only: bsum_def)
qed

lemma bcount_binsert_new:
  "bget m k = None \<Longrightarrow> bcount P (binsert k v m) = of_bool (P v) + bcount P m"
  by (simp add: bcount_bsum bsum_binsert_new)

lemma bcount_bremove:
  "bwf m \<Longrightarrow> bget m k = Some v \<Longrightarrow> bcount P m = of_bool (P v) + bcount P (bremove k m)"
  by (simp add: bcount_bsum bsum_bremove)

lemma bcount_bmodify_same:
  "bwf m \<Longrightarrow> (\<And>v. bget m k = Some v \<Longrightarrow> P (g v) = P v) \<Longrightarrow> bcount P (bmodify k g m) = bcount P m"
  by (simp add: bcount_bsum bsum_bmodify_same)

lemma bcount_0: "bwf m \<Longrightarrow> bcount P m = 0 \<longleftrightarrow> bforall (\<lambda>_ v. \<not> P v) m"
  by (auto simp: bcount_def filter_empty_conv bforall_entries)

lemma bsum_mem_le: "bwf m \<Longrightarrow> bget m k = Some v \<Longrightarrow> f v \<le> bsum f m"
  by (simp add: bsum_bremove)

section \<open>Replacing a value\<close>

lemma bmodify_binsert: "bwf m \<Longrightarrow> bget m k = Some v \<Longrightarrow> bmodify k f m = binsert k (f v) m"
  by (rule bwf_ext) auto

lemma binsert_bremove_same: "bwf m \<Longrightarrow> binsert k v m = binsert k v (bremove k m)"
  by (rule bwf_ext) auto

lemma bsum_binsert_replace:
  assumes "bwf m" and "bget m k = Some v"
  shows "bsum f (binsert k w m) + f v = bsum f m + f w"
proof -
  have "bsum f (binsert k w m) = f w + bsum f (bremove k m)"
    unfolding binsert_bremove_same [OF assms(1)] by (rule bsum_binsert_new) simp
  with bsum_bremove [OF assms, of f] show ?thesis
    by simp
qed

lemma bcount_binsert_replace:
  "bwf m \<Longrightarrow> bget m k = Some v \<Longrightarrow> bcount P (binsert k w m) + of_bool (P v) = bcount P m + of_bool (P w)"
  unfolding bcount_bsum by (rule bsum_binsert_replace)

section \<open>Updating several keys\<close>

lemma bget_fold_bmodify:
  "distinct ks \<Longrightarrow>
     bget (fold (\<lambda>k. bmodify k f) ks m) x = (if x \<in> set ks then map_option f (bget m x) else bget m x)"
  by (induction ks arbitrary: m) auto

lemma bwf_fold_bmodify [simp]: "bwf (fold (\<lambda>k. bmodify k f) ks m) \<longleftrightarrow> bwf m"
  by (induction ks arbitrary: m) auto

lemma bcount_fold_bmodify_same:
  "bwf m \<Longrightarrow> (\<And>v. P (g v) = P v) \<Longrightarrow> bcount P (fold (\<lambda>k. bmodify k g) ks m) = bcount P m"
  by (induction ks arbitrary: m) (auto simp: bcount_bmodify_same)

end
