(* ===== verification/Protocol.thy ===== *)
theory Protocol
  imports Btree
begin

text \<open>
  Stable identifiers and bounded framing (\<open>crates/aworkit-protocol/src/lib.rs\<close>).
  A \<open>StableId\<close> is its text; the type's private field makes \<open>valid_stable_id\<close> hold of every
  value the program has, which theorems state as a premise where they need it.
\<close>

section \<open>Stable identifiers\<close>

type_synonym stable_id = string

datatype envelope_kind = EkCommand | EkEvent | EkRequest | EkResult | EkError

datatype protocol_error =
    InvalidStableId
  | FrameTooLarge
  | TruncatedFrame
  | TrailingBytes
  | UnsupportedSchemaVersion u16
  | EnvelopeKindMismatch envelope_kind envelope_kind
  | InvalidProcessGeneration
  | InvalidWireInteger
  | InvalidText
  | InvalidJson

definition stable_id_byte :: "char \<Rightarrow> bool" where
  "stable_id_byte c \<longleftrightarrow> is_ascii_alphanumeric c \<or> c \<in> {CHR ''_'', CHR ''-'', CHR ''.''}"

definition valid_stable_id :: "string \<Rightarrow> bool" where
  "valid_stable_id s \<longleftrightarrow> s \<noteq> [] \<and> length s \<le> 128 \<and> list_all stable_id_byte s"

definition stable_id_parse :: "string \<Rightarrow> protocol_error + stable_id" where
  "stable_id_parse s = (if valid_stable_id s then Inr s else Inl InvalidStableId)"

lemma stable_id_parse_Inr [simp]: "stable_id_parse s = Inr t \<longleftrightarrow> t = s \<and> valid_stable_id s"
  by (auto simp: stable_id_parse_def)

text \<open>\<open>filter_map(|id| StableId::parse(id).ok())\<close>.\<close>

definition parse_ok :: "string list \<Rightarrow> stable_id list" where
  "parse_ok ids = filter valid_stable_id ids"

lemma parse_ok_all: "(\<And>i. i \<in> set ids \<Longrightarrow> valid_stable_id i) \<Longrightarrow> parse_ok ids = ids"
  by (simp add: parse_ok_def)

text \<open>
  Identifiers derived from a digest (\<open>stable_id(material)\<close> in the scheduler, the agent and the
  gateway): a fixed prefix and the first 48 characters of the hexadecimal digest.
\<close>

definition derived_id :: "digest \<Rightarrow> string \<Rightarrow> string \<Rightarrow> protocol_error + stable_id" where
  "derived_id sha prefix material = stable_id_parse (prefix @ take 48 (sha material))"

lemma stable_id_byte_hex: "is_lower_hexdigit c \<Longrightarrow> stable_id_byte c"
  by (simp add: stable_id_byte_def lower_hex_alphanumeric)

lemma derived_id_ok:
  assumes "hex_digest sha" and "length prefix \<le> 80" and "list_all stable_id_byte prefix"
  shows "derived_id sha prefix material = Inr (prefix @ take 48 (sha material))"
proof -
  have "length (sha material) = 64" and hex: "\<And>c. c \<in> set (sha material) \<Longrightarrow> is_lower_hexdigit c"
    using assms(1) by (auto simp: hex_digest_def)
  then have "list_all stable_id_byte (take 48 (sha material))"
    by (auto simp: list_all_iff dest: in_set_takeD intro: stable_id_byte_hex)
  with assms(2,3) \<open>length (sha material) = 64\<close>
  have "valid_stable_id (prefix @ take 48 (sha material))"
    by (cases "sha material") (auto simp: valid_stable_id_def)
  then show ?thesis
    by (simp add: derived_id_def)
qed

text \<open>A digest for examples: the low halves of the last twenty bytes, in hexadecimal.\<close>

fun nibble :: "char \<Rightarrow> char" where
  "nibble (Char b0 b1 b2 b3 _ _ _ _) =
     (if b3 then (if b2 then (if b1 then (if b0 then CHR ''f'' else CHR ''e'') else (if b0 then CHR ''d'' else CHR ''c''))
                        else (if b1 then (if b0 then CHR ''b'' else CHR ''a'') else (if b0 then CHR ''9'' else CHR ''8'')))
      else (if b2 then (if b1 then (if b0 then CHR ''7'' else CHR ''6'') else (if b0 then CHR ''5'' else CHR ''4''))
                   else (if b1 then (if b0 then CHR ''3'' else CHR ''2'') else (if b0 then CHR ''1'' else CHR ''0''))))"

definition tail_digest :: digest where
  "tail_digest m = take 64 (map nibble (take 20 (rev m)) @ replicate 64 (CHR ''0''))"

lemma nibble_hex: "is_lower_hexdigit (nibble c)"
  by (cases c) (simp add: is_lower_hexdigit_def is_ascii_digit_def byte_def)

lemma hex_tail_digest: "hex_digest tail_digest"
  by (auto simp: hex_digest_def tail_digest_def dest!: in_set_takeD intro: nibble_hex)
     (simp_all add: is_lower_hexdigit_def is_ascii_digit_def byte_def)

end
