(* ===== verification/Json.thy ===== *)
theory Json
  imports Protocol
begin

text \<open>
  JSON values as \<open>serde_json::Value\<close> has them. An object is its entries in ascending key order:
  \<open>Map\<close> equality ignores the order of entries, and no component observes it. A number is an
  unsigned or a negative integer or a finite double, kept as \<open>m * 2 ^ e\<close> with \<open>m\<close> odd or zero.
\<close>

datatype json_number = PosInt u64 | NegInt int | Float int int

datatype json =
    JNull
  | JBool bool
  | JNumber json_number
  | JString string
  | JArray "json list"
  | JObject "(string \<times> json) list"

type_synonym json_map = "(string, json) bmap"

section \<open>Accessors\<close>

fun as_object :: "json \<Rightarrow> json_map option" where
  "as_object (JObject m) = Some m"
| "as_object _ = None"

fun as_array :: "json \<Rightarrow> json list option" where
  "as_array (JArray xs) = Some xs"
| "as_array _ = None"

fun as_str :: "json \<Rightarrow> string option" where
  "as_str (JString s) = Some s"
| "as_str _ = None"

fun as_bool :: "json \<Rightarrow> bool option" where
  "as_bool (JBool b) = Some b"
| "as_bool _ = None"

fun as_u64 :: "json \<Rightarrow> u64 option" where
  "as_u64 (JNumber (PosInt n)) = Some n"
| "as_u64 _ = None"

text \<open>\<open>Value::get(key)\<close> with a string key.\<close>

definition jget :: "json \<Rightarrow> string \<Rightarrow> json option" where
  "jget v key = Option.bind (as_object v) (\<lambda>m. bget m key)"

section \<open>Paths\<close>

text \<open>\<open>str::split\<close> on one character and \<open>str::parse::<usize>()\<close>, which admits a leading plus.\<close>

fun split_on :: "char \<Rightarrow> string \<Rightarrow> string list" where
  "split_on c [] = [[]]"
| "split_on c (x # xs) =
     (if x = c then [] # split_on c xs
      else (case split_on c xs of [] \<Rightarrow> [[x]] | s # ss \<Rightarrow> (x # s) # ss))"

definition parse_usize :: "string \<Rightarrow> nat option" where
  "parse_usize s =
     (let ds = (case s of c # cs \<Rightarrow> if c = CHR ''+'' then cs else s | [] \<Rightarrow> s) in
      if ds = [] \<or> \<not> list_all is_ascii_digit ds then None
      else let n = foldl (\<lambda>n c. n * 10 + (byte c - 48)) 0 ds in
        if n < 2 ^ 64 then Some n else None)"

lemma split_on_nonempty [simp]: "split_on c s \<noteq> []"
  by (induction s) (auto split: list.splits)

lemma join_split_on: "join_with [c] (split_on c s) = s"
proof (induction s)
  case (Cons x xs)
  then show ?case
    by (cases "split_on c xs"; cases "tl (split_on c xs)") (auto simp: neq_Nil_conv)
qed simp

end
