(* ===== verification/Runtime_Contract.thy ===== *)
theory Runtime_Contract
  imports Json
begin

text \<open>
  The messages and documents the trusted core and the workflow worker exchange
  (\<open>crates/aworkit-protocol/src/runtime.rs\<close>, with the bindings of \<open>extension.rs\<close> and
  \<open>history.rs\<close> they contain). Fields keep the order of the sources. An \<open>i32\<close> is only compared and
  is an \<open>int\<close>; a \<open>ProcessGeneration\<close> is its number.
\<close>

type_synonym process_generation = u64

section \<open>The frozen run snapshot\<close>

record worker_port =
  wp_name :: string
  wp_schema_ref :: "string option"
  wp_required :: bool

datatype worker_executor_kind =
    ExPure | ExBrokered | ExModel | ExAgent | ExSubagent | ExWait | ExRouter | ExBranch | ExJoin
  | ExTerminal

record worker_node =
  wn_node_id :: stable_id
  wn_node_type :: string
  wn_node_version :: u32
  wn_contribution_hash :: string
  wn_inputs :: "worker_port list"
  wn_outputs :: "worker_port list"
  wn_executor :: worker_executor_kind
  wn_config :: json
  wn_capability_ref :: "stable_id option"
  wn_result_schema_ref :: "string option"

record worker_transition =
  wt_transition_id :: stable_id
  wt_from_node :: stable_id
  wt_from_port :: string
  wt_to_node :: stable_id
  wt_to_port :: string
  wt_priority :: int
  wt_predicate :: "json option"
  wt_declared_loop_id :: "stable_id option"

record worker_loop_descriptor =
  ld_loop_id :: stable_id
  ld_maximum_iterations :: u32
  ld_body_entry :: stable_id
  ld_body_exit :: stable_id

record worker_join_descriptor =
  jd_join_id :: stable_id
  jd_node_id :: stable_id
  jd_expected_branches :: "stable_id list"
  jd_merge_policy :: string

record worker_route_rule =
  wr_route_id :: stable_id
  wr_node_id :: stable_id
  wr_priority :: int
  wr_predicate :: json
  wr_destination_transition :: stable_id

record worker_budget =
  wb_turns :: u64
  wb_attempts :: u64
  wb_tool_calls :: u64
  wb_tokens :: u64
  wb_cost_micros :: u64
  wb_actions :: u64
  wb_depth :: u32
  wb_fanout :: u32
  wb_parallel :: u32
  wb_deadline_ms :: u64

record extension_identity =
  ei_extension_id :: stable_id
  ei_version :: string
  ei_content_hash :: string

record extension_runtime_binding =
  erb_identity :: extension_identity
  erb_contribution_id :: stable_id
  erb_host_id :: stable_id
  erb_host_generation :: process_generation
  erb_handshake_hash :: string

record frozen_capability_binding =
  fcb_capability_id :: stable_id
  fcb_adapter_id :: stable_id
  fcb_adapter_version :: string
  fcb_descriptor_hash :: string
  fcb_extension :: "extension_runtime_binding option"
  fcb_required_isolation_profile :: "string option"

datatype history_backend = LocalSqlite | PortableProject stable_id

record worker_frozen_run_snapshot =
  ws_snapshot_id :: stable_id
  ws_snapshot_hash :: string
  ws_chat_id :: stable_id
  ws_run_id :: stable_id
  ws_schema_version :: u16
  ws_compiler_version :: string
  ws_workflow_hash :: string
  ws_nodes :: "worker_node list"
  ws_transitions :: "worker_transition list"
  ws_entry_nodes :: "stable_id list"
  ws_loop_descriptors :: "worker_loop_descriptor list"
  ws_join_descriptors :: "worker_join_descriptor list"
  ws_route_rules :: "worker_route_rule list"
  ws_authority_manifest_ref :: stable_id
  ws_authority_manifest_hash :: string
  ws_capability_bindings :: "frozen_capability_binding list"
  ws_capability_refs :: "stable_id list"
  ws_workspace_identity :: json
  ws_budget :: worker_budget
  ws_history_mode :: history_backend

section \<open>Outcomes and checkpoints\<close>

datatype approval_outcome = Approved | ApDenied | ApExpired | ApCancelled

datatype capability_outcome_class =
    CoSuccess | CoDefiniteNotStarted | CoFailedKnownStarted | CoCancelledEvidence | CoUncertain
  | CoDenied

record capability_outcome =
  co_outcome_id :: stable_id
  co_invocation_id :: stable_id
  co_class :: capability_outcome_class
  co_retry_safe_proof :: bool
  co_payload :: json
  co_usage :: "json option"

record worker_checkpoint =
  wc_checkpoint_id :: stable_id
  wc_snapshot_hash :: string
  wc_plan_hash :: string
  wc_checkpoint_hash :: string
  wc_prior_generation :: process_generation
  wc_committed_cursor :: u64
  wc_proposal_sequence :: u64
  wc_token_frontier :: json
  wc_context_heads :: json
  wc_context_revision_dag :: json
  wc_branch_frames :: json
  wc_loop_frames :: json
  wc_budget_state :: json
  wc_attempt_state :: json
  wc_no_resend_state :: json
  wc_suspension_state :: json
  wc_child_frames :: json

record rehydration_envelope =
  re_snapshot :: worker_frozen_run_snapshot
  re_checkpoint :: worker_checkpoint
  re_replacement_generation :: process_generation
  re_committed_deltas :: "json list"
  re_reconciled_outcomes :: "capability_outcome list"

section \<open>Control messages, proposals and output\<close>

datatype worker_control_kind =
    CtStart worker_frozen_run_snapshot
  | CtRestore rehydration_envelope
  | CtInput stable_id json
  | CtApproval stable_id approval_outcome
  | CtPause stable_id string
  | CtResume stable_id string
  | CtCancel stable_id string
  | CtCapabilityOutcome capability_outcome
  | CtCommittedAck stable_id u64
  | CtShutdown stable_id

record worker_control_envelope =
  ce_message_id :: stable_id
  ce_chat_id :: stable_id
  ce_run_id :: stable_id
  ce_generation :: process_generation
  ce_snapshot_hash :: string
  ce_committed_cursor :: u64
  ce_control :: worker_control_kind

record worker_invocation_proposal =
  ip_invocation_id :: stable_id
  ip_node_id :: stable_id
  ip_attempt_id :: stable_id
  ip_capability_ref :: stable_id
  ip_authority_manifest_ref :: stable_id
  ip_budget_ref :: stable_id
  ip_payload :: json

datatype worker_proposal_kind =
    PrReady string
  | PrTransition stable_id json
  | PrInvocation worker_invocation_proposal
  | PrSuspension stable_id json
  | PrCheckpoint worker_checkpoint
  | PrTerminal string json
  | PrHealth json
  | PrRehydrationReady string
  | PrRehydrationBlocked string string

record worker_proposal_envelope =
  pe_proposal_id :: stable_id
  pe_chat_id :: stable_id
  pe_run_id :: stable_id
  pe_generation :: process_generation
  pe_snapshot_hash :: string
  pe_worker_sequence :: u64
  pe_base_committed_cursor :: u64
  pe_proposal :: worker_proposal_kind

record worker_handshake =
  wh_protocol_version :: u16
  wh_worker_version :: string
  wh_chat_id :: stable_id
  wh_run_id :: stable_id
  wh_generation :: process_generation
  wh_snapshot_hash :: string
  wh_plan_fingerprint :: string
  wh_executable_identity :: string

record worker_heartbeat =
  hb_sequence :: u64
  hb_monotonic_time_ms :: u64
  hb_active :: bool
  hb_quiescent :: bool

datatype worker_output_kind =
    OutHandshake worker_handshake
  | OutProposal worker_proposal_envelope
  | OutHeartbeat worker_heartbeat
  | OutError string string
  | OutShutdownAck stable_id

record worker_output_envelope =
  oe_message_id :: stable_id
  oe_generation :: process_generation
  oe_output :: worker_output_kind

end
