(* ===== verification/Suspension.thy ===== *)
theory Suspension
  imports Runtime_Contract
begin

text \<open>
  Suspension frames (\<open>SuspensionControllerV1\<close> of
  \<open>crates/aworkit-workflow-worker/src/suspension.rs\<close>): a token that waits for an input, an
  approval or the end of a pause has one unresolved frame; each input, approval and control is
  consumed once; the whole state survives a checkpoint.
\<close>

section \<open>Data\<close>

datatype suspension_kind =
    KInput stable_id
  | KApproval stable_id
  | KPaused string
  | KCancelling string

record suspension_frame =
  suspension_id :: stable_id
  sf_token_id :: stable_id
  sf_kind :: suspension_kind
  sf_resolved :: bool

record suspension_checkpoint =
  ck_frames :: "suspension_frame list"
  ck_consumed_inputs :: "stable_id list"
  ck_consumed_approvals :: "stable_id list"
  ck_applied_controls :: "stable_id list"

datatype suspension_error =
    DuplicateSuspension string
  | UnknownSuspension string
  | AlreadyResolved
  | ControlMismatch
  | SuspensionInvalidCheckpoint

record suspension_controller =
  sc_frames :: "(string, suspension_frame) bmap"
  consumed_inputs :: "string list"
  consumed_approvals :: "string list"
  applied_controls :: "string list"

section \<open>Operations\<close>

definition sc_new :: suspension_controller where
  "sc_new = \<lparr>sc_frames = [], consumed_inputs = [], consumed_approvals = [], applied_controls = []\<rparr>"

definition sc_suspend ::
  "suspension_frame \<Rightarrow> suspension_controller \<Rightarrow> (suspension_error + unit) \<times> suspension_controller"
where
  "sc_suspend frame s =
     (if sf_resolved frame
         \<or> (\<exists>e \<in> set (bvalues (sc_frames s)). \<not> sf_resolved e \<and> sf_token_id e = sf_token_id frame)
         \<or> bcontains (sc_frames s) (suspension_id frame)
      then (Inl (DuplicateSuspension (suspension_id frame)), s)
      else (Inr (), s\<lparr>sc_frames := binsert (suspension_id frame) frame (sc_frames s)\<rparr>))"

definition frame_unresolved ::
  "suspension_controller \<Rightarrow> stable_id \<Rightarrow> suspension_error + suspension_frame"
where
  "frame_unresolved s sid =
     (case bget (sc_frames s) sid of
        None \<Rightarrow> Inl (UnknownSuspension sid)
      | Some frame \<Rightarrow> if sf_resolved frame then Inl AlreadyResolved else Inr frame)"

definition resolve_input ::
  "stable_id \<Rightarrow> stable_id \<Rightarrow> suspension_controller \<Rightarrow> (suspension_error + bool) \<times> suspension_controller"
where
  "resolve_input sid input_id s =
     (if input_id \<in> set (consumed_inputs s) then (Inr False, s)
      else case frame_unresolved s sid of
        Inl e \<Rightarrow> (Inl e, s)
      | Inr frame \<Rightarrow>
          if sf_kind frame \<noteq> KInput input_id then (Inl ControlMismatch, s)
          else (Inr True,
            s\<lparr>sc_frames := bmodify sid (\<lambda>f. f\<lparr>sf_resolved := True\<rparr>) (sc_frames s),
              consumed_inputs := sinsert input_id (consumed_inputs s)\<rparr>))"

text \<open>The outcome of the approval is not read: the parameter \<open>_outcome\<close> of the source.\<close>

definition resolve_approval ::
  "stable_id \<Rightarrow> stable_id \<Rightarrow> approval_outcome \<Rightarrow> suspension_controller
   \<Rightarrow> (suspension_error + bool) \<times> suspension_controller"
where
  "resolve_approval sid approval_id outcome s =
     (if approval_id \<in> set (consumed_approvals s) then (Inr False, s)
      else case frame_unresolved s sid of
        Inl e \<Rightarrow> (Inl e, s)
      | Inr frame \<Rightarrow>
          if sf_kind frame \<noteq> KApproval approval_id then (Inl ControlMismatch, s)
          else (Inr True,
            s\<lparr>sc_frames := bmodify sid (\<lambda>f. f\<lparr>sf_resolved := True\<rparr>) (sc_frames s),
              consumed_approvals := sinsert approval_id (consumed_approvals s)\<rparr>))"

definition apply_control ::
  "stable_id \<Rightarrow> string \<Rightarrow> bool \<Rightarrow> suspension_controller
   \<Rightarrow> (suspension_error + bool) \<times> suspension_controller"
where
  "apply_control control_id scope cancelling s =
     (if scope = [] \<or> length scope > 512 then (Inl ControlMismatch, s)
      else if control_id \<in> set (applied_controls s) then (Inr False, s)
      else (Inr True,
        s\<lparr>applied_controls := sinsert control_id (applied_controls s),
          sc_frames := bmap_values
            (\<lambda>f. if sf_resolved f then f
                 else f\<lparr>sf_kind := (if cancelling then KCancelling scope else KPaused scope)\<rparr>)
            (sc_frames s)\<rparr>))"

definition resume_pause ::
  "stable_id \<Rightarrow> string \<Rightarrow> suspension_controller
   \<Rightarrow> (suspension_error + stable_id list) \<times> suspension_controller"
where
  "resume_pause control_id scope s =
     (if scope = [] \<or> length scope > 512 then (Inl ControlMismatch, s)
      else if control_id \<in> set (applied_controls s) then (Inr [], s)
      else
        (let hit = (\<lambda>f. sf_kind f = KPaused scope \<and> \<not> sf_resolved f) in
         (Inr (map sf_token_id (filter hit (bvalues (sc_frames s)))),
          s\<lparr>applied_controls := sinsert control_id (applied_controls s),
            sc_frames := bmap_values (\<lambda>f. if hit f then f\<lparr>sf_resolved := True\<rparr> else f) (sc_frames s)\<rparr>)))"

definition sc_unresolved :: "suspension_controller \<Rightarrow> suspension_frame list" where
  "sc_unresolved s = filter (\<lambda>f. \<not> sf_resolved f) (bvalues (sc_frames s))"

definition sc_checkpoint :: "suspension_controller \<Rightarrow> suspension_checkpoint" where
  "sc_checkpoint s =
     \<lparr>ck_frames = bvalues (sc_frames s),
      ck_consumed_inputs = parse_ok (consumed_inputs s),
      ck_consumed_approvals = parse_ok (consumed_approvals s),
      ck_applied_controls = parse_ok (applied_controls s)\<rparr>"

text \<open>The loop of \<open>restore\<close> over the saved frames, with the set of tokens still waiting.\<close>

fun sc_restore_frames ::
  "suspension_frame list \<Rightarrow> string list \<Rightarrow> (string, suspension_frame) bmap
   \<Rightarrow> suspension_error + (string, suspension_frame) bmap"
where
  "sc_restore_frames [] unresolved m = Inr m"
| "sc_restore_frames (frame # rest) unresolved m =
     (if (\<not> sf_resolved frame \<and> sf_token_id frame \<in> set unresolved)
         \<or> bcontains m (suspension_id frame)
      then Inl SuspensionInvalidCheckpoint
      else sc_restore_frames rest
        (if sf_resolved frame then unresolved else sinsert (sf_token_id frame) unresolved)
        (binsert (suspension_id frame) frame m))"

definition unique_ids :: "stable_id list \<Rightarrow> suspension_error + string list" where
  "unique_ids ids =
     (if length (bset_of_list ids) \<noteq> length ids then Inl SuspensionInvalidCheckpoint
      else Inr (bset_of_list ids))"

definition resolved_inputs :: "suspension_frame list \<Rightarrow> string list" where
  "resolved_inputs fs = bset_of_list (List.map_filter
     (\<lambda>f. case sf_kind f of KInput i \<Rightarrow> if sf_resolved f then Some i else None | _ \<Rightarrow> None) fs)"

definition resolved_approvals :: "suspension_frame list \<Rightarrow> string list" where
  "resolved_approvals fs = bset_of_list (List.map_filter
     (\<lambda>f. case sf_kind f of KApproval i \<Rightarrow> if sf_resolved f then Some i else None | _ \<Rightarrow> None) fs)"

definition sc_restore :: "suspension_checkpoint \<Rightarrow> suspension_error + suspension_controller" where
  "sc_restore c =
     (if length (ck_frames c) > 10000 then Inl SuspensionInvalidCheckpoint
      else case sc_restore_frames (ck_frames c) [] [] of
        Inl e \<Rightarrow> Inl e
      | Inr fs \<Rightarrow>
        (case unique_ids (ck_consumed_inputs c) of
           Inl e \<Rightarrow> Inl e
         | Inr inputs \<Rightarrow>
           (case unique_ids (ck_consumed_approvals c) of
              Inl e \<Rightarrow> Inl e
            | Inr approvals \<Rightarrow>
              (case unique_ids (ck_applied_controls c) of
                 Inl e \<Rightarrow> Inl e
               | Inr controls \<Rightarrow>
                 if resolved_inputs (bvalues fs) \<noteq> inputs
                    \<or> resolved_approvals (bvalues fs) \<noteq> approvals
                 then Inl SuspensionInvalidCheckpoint
                 else Inr \<lparr>sc_frames = fs, consumed_inputs = inputs,
                           consumed_approvals = approvals, applied_controls = controls\<rparr>))))"

section \<open>Invariant\<close>

text \<open>
  Frames are stored under their own identifier, at most one unresolved frame waits for a token,
  and the consumed inputs and approvals are exactly those of the resolved frames.
\<close>

definition sc_inv :: "suspension_controller \<Rightarrow> bool" where
  "sc_inv s \<longleftrightarrow>
     bwf (sc_frames s)
     \<and> bforall (\<lambda>k f. suspension_id f = k) (sc_frames s)
     \<and> bunique (\<lambda>f. \<not> sf_resolved f) sf_token_id (sc_frames s)
     \<and> swf (consumed_inputs s) \<and> swf (consumed_approvals s) \<and> swf (applied_controls s)
     \<and> (\<forall>i \<in> set (consumed_inputs s) \<union> set (consumed_approvals s) \<union> set (applied_controls s).
          valid_stable_id i)
     \<and> (\<forall>i. i \<in> set (consumed_inputs s) \<longleftrightarrow>
          bexists (\<lambda>f. sf_kind f = KInput i \<and> sf_resolved f) (sc_frames s))
     \<and> (\<forall>i. i \<in> set (consumed_approvals s) \<longleftrightarrow>
          bexists (\<lambda>f. sf_kind f = KApproval i \<and> sf_resolved f) (sc_frames s))"

text \<open>One rule per operation, whatever its result.\<close>

inductive sc_step :: "suspension_controller \<Rightarrow> suspension_controller \<Rightarrow> bool" where
  step_suspend: "sc_suspend frame s = (r, t) \<Longrightarrow> sc_step s t"
| step_input: "valid_stable_id i \<Longrightarrow> resolve_input sid i s = (r', t) \<Longrightarrow> sc_step s t"
| step_approval: "valid_stable_id i \<Longrightarrow> resolve_approval sid i out s = (r', t) \<Longrightarrow> sc_step s t"
| step_control: "valid_stable_id c \<Longrightarrow> apply_control c scope cancelling s = (r', t) \<Longrightarrow> sc_step s t"
| step_resume: "valid_stable_id c \<Longrightarrow> resume_pause c scope s = (r'', t) \<Longrightarrow> sc_step s t"

lemma sc_inv_new: "sc_inv sc_new"
  by (simp add: sc_inv_def sc_new_def bunique_def)

lemma sc_inv_suspend:
  assumes "sc_inv s" and "sc_suspend frame s = (r, t)"
  shows "sc_inv t"
proof (cases "t = s")
  case False
  with assms(2) have new: "bget (sc_frames s) (suspension_id frame) = None"
    and un: "\<not> sf_resolved frame"
    and none: "\<forall>e \<in> set (sc_frames s). sf_resolved (snd e) \<or> sf_token_id (snd e) \<noteq> sf_token_id frame"
    and t: "t = s\<lparr>sc_frames := binsert (suspension_id frame) frame (sc_frames s)\<rparr>"
    by (auto simp: sc_suspend_def bcontains_def split: if_splits)
  have tok: "sf_token_id f \<noteq> sf_token_id frame"
    if "bget (sc_frames s) k = Some f" "\<not> sf_resolved f" for k f
    using map_of_SomeD [OF that(1)] that(2) none by fastforce
  have "bunique (\<lambda>f. \<not> sf_resolved f) sf_token_id (sc_frames t)"
    using assms(1) tok unfolding t sc_inv_def by (auto intro: bunique_binsert)
  with assms(1) un new show ?thesis
    unfolding sc_inv_def t by (simp add: bexists_binsert_new bforall_def)
qed (use assms in simp)

lemma sc_inv_resolve_input:
  assumes "sc_inv s" and "valid_stable_id i" and "resolve_input sid i s = (r, t)"
  shows "sc_inv t"
proof (cases "t = s")
  case False
  with assms(3) obtain f where f: "bget (sc_frames s) sid = Some f" "\<not> sf_resolved f"
      "sf_kind f = KInput i"
    and t: "t = s\<lparr>sc_frames := bmodify sid (\<lambda>f. f\<lparr>sf_resolved := True\<rparr>) (sc_frames s),
              consumed_inputs := sinsert i (consumed_inputs s)\<rparr>"
    by (auto simp: resolve_input_def frame_unresolved_def split: if_splits sum.splits option.splits)
  have "bunique (\<lambda>f. \<not> sf_resolved f) sf_token_id (sc_frames t)"
    using assms(1) unfolding t sc_inv_def by (auto intro: bunique_bmodify)
  with assms(1,2) f show ?thesis
    unfolding sc_inv_def t by (auto simp: bexists_bmodify elim: bforall_mono)
qed (use assms in simp)

lemma sc_inv_resolve_approval:
  assumes "sc_inv s" and "valid_stable_id i" and "resolve_approval sid i out s = (r, t)"
  shows "sc_inv t"
proof (cases "t = s")
  case False
  with assms(3) obtain f where f: "bget (sc_frames s) sid = Some f" "\<not> sf_resolved f"
      "sf_kind f = KApproval i"
    and t: "t = s\<lparr>sc_frames := bmodify sid (\<lambda>f. f\<lparr>sf_resolved := True\<rparr>) (sc_frames s),
              consumed_approvals := sinsert i (consumed_approvals s)\<rparr>"
    by (auto simp: resolve_approval_def frame_unresolved_def
             split: if_splits sum.splits option.splits)
  have "bunique (\<lambda>f. \<not> sf_resolved f) sf_token_id (sc_frames t)"
    using assms(1) unfolding t sc_inv_def by (auto intro: bunique_bmodify)
  with assms(1,2) f show ?thesis
    unfolding sc_inv_def t by (auto simp: bexists_bmodify elim: bforall_mono)
qed (use assms in simp)

lemma sc_inv_apply_control:
  assumes "sc_inv s" and "valid_stable_id c" and "apply_control c scope cancelling s = (r, t)"
  shows "sc_inv t"
proof (cases "t = s")
  case False
  define mark where "mark = (\<lambda>f::suspension_frame. if sf_resolved f then f
      else f\<lparr>sf_kind := (if cancelling then KCancelling scope else KPaused scope)\<rparr>)"
  from False assms(3) have t: "t = s\<lparr>applied_controls := sinsert c (applied_controls s),
      sc_frames := bmap_values mark (sc_frames s)\<rparr>"
    by (auto simp: apply_control_def mark_def split: if_splits)
  have same: "(sf_kind (mark f) = KInput i \<and> sf_resolved (mark f)) = (sf_kind f = KInput i \<and> sf_resolved f)"
    "(sf_kind (mark f) = KApproval i \<and> sf_resolved (mark f)) = (sf_kind f = KApproval i \<and> sf_resolved f)"
    "suspension_id (mark f) = suspension_id f" for f i
    by (auto simp: mark_def)
  have "bunique (\<lambda>f. \<not> sf_resolved f) sf_token_id (bmap_values mark (sc_frames s))"
    using assms(1) unfolding sc_inv_def
    by (intro bunique_bmap_values) (auto simp: mark_def split: if_splits)
  with assms(1,2) show ?thesis
    unfolding sc_inv_def t by (simp add: bexists_bmap_values same)
qed (use assms in simp)

lemma sc_inv_resume_pause:
  assumes "sc_inv s" and "valid_stable_id c" and "resume_pause c scope s = (r, t)"
  shows "sc_inv t"
proof (cases "t = s")
  case False
  define wake where "wake = (\<lambda>f::suspension_frame. if sf_kind f = KPaused scope \<and> \<not> sf_resolved f
      then f\<lparr>sf_resolved := True\<rparr> else f)"
  from False assms(3) have t: "t = s\<lparr>applied_controls := sinsert c (applied_controls s),
      sc_frames := bmap_values wake (sc_frames s)\<rparr>"
    by (auto simp: resume_pause_def wake_def Let_def split: if_splits)
  have same: "(sf_kind (wake f) = KInput i \<and> sf_resolved (wake f)) = (sf_kind f = KInput i \<and> sf_resolved f)"
    "(sf_kind (wake f) = KApproval i \<and> sf_resolved (wake f)) = (sf_kind f = KApproval i \<and> sf_resolved f)"
    "suspension_id (wake f) = suspension_id f" for f i
    by (auto simp: wake_def)
  have "bunique (\<lambda>f. \<not> sf_resolved f) sf_token_id (bmap_values wake (sc_frames s))"
    using assms(1) unfolding sc_inv_def
    by (intro bunique_bmap_values) (auto simp: wake_def split: if_splits)
  with assms(1,2) show ?thesis
    unfolding sc_inv_def t by (simp add: bexists_bmap_values same)
qed (use assms in simp)

lemma sc_step_inv: "sc_inv s \<Longrightarrow> sc_step s t \<Longrightarrow> sc_inv t"
  by (auto elim!: sc_step.cases dest: sc_inv_suspend sc_inv_resolve_input sc_inv_resolve_approval
        sc_inv_apply_control sc_inv_resume_pause)

section \<open>Checkpoint and restore\<close>

definition frames_fresh ::
  "suspension_frame list \<Rightarrow> string list \<Rightarrow> (string, suspension_frame) bmap \<Rightarrow> bool" where
  "frames_fresh fs U m \<longleftrightarrow>
     distinct (map suspension_id fs) \<and> (\<forall>f \<in> set fs. \<not> bcontains m (suspension_id f))
     \<and> distinct (map sf_token_id (filter (\<lambda>f. \<not> sf_resolved f) fs))
     \<and> (\<forall>f \<in> set fs. \<not> sf_resolved f \<longrightarrow> sf_token_id f \<notin> set U)"

lemma frames_fresh_Cons:
  "frames_fresh (f # fs) U m \<longleftrightarrow>
     (sf_resolved f \<or> sf_token_id f \<notin> set U) \<and> \<not> bcontains m (suspension_id f)
     \<and> frames_fresh fs (if sf_resolved f then U else sinsert (sf_token_id f) U)
         (binsert (suspension_id f) f m)"
  by (cases "sf_resolved f") (force simp: frames_fresh_def image_iff)+

lemma sc_restore_frames_eq:
  "sc_restore_frames fs U m =
     (if frames_fresh fs U m then Inr (fold (\<lambda>f. binsert (suspension_id f) f) fs m)
      else Inl SuspensionInvalidCheckpoint)"
  by (induction fs arbitrary: U m) (auto simp: frames_fresh_Cons, simp add: frames_fresh_def)

lemma kind_cases_Some:
  "(case k of KInput i \<Rightarrow> if r then Some i else None | _ \<Rightarrow> None) = Some x \<longleftrightarrow> k = KInput x \<and> r"
  "(case k of KApproval i \<Rightarrow> if r then Some i else None | _ \<Rightarrow> None) = Some x \<longleftrightarrow> k = KApproval x \<and> r"
  by (cases k; auto)+

lemma set_resolved_inputs:
  "set (resolved_inputs fs) = {i. \<exists>f \<in> set fs. sf_kind f = KInput i \<and> sf_resolved f}"
  by (simp add: resolved_inputs_def set_eq_iff set_map_filter_iff kind_cases_Some)

lemma set_resolved_approvals:
  "set (resolved_approvals fs) = {i. \<exists>f \<in> set fs. sf_kind f = KApproval i \<and> sf_resolved f}"
  by (simp add: resolved_approvals_def set_eq_iff set_map_filter_iff kind_cases_Some)

lemma swf_resolved [simp]: "swf (resolved_inputs fs)" "swf (resolved_approvals fs)"
  by (simp_all add: resolved_inputs_def resolved_approvals_def)

lemma unique_ids_id: "swf s \<Longrightarrow> unique_ids s = Inr s"
  using swf_distinct by (auto simp: unique_ids_def bset_of_list_id)

lemma unique_ids_Inr: "unique_ids ids = Inr s \<Longrightarrow> swf s \<and> set s = set ids"
  by (auto simp: unique_ids_def split: if_splits)

lemma sc_restore_checkpoint:
  assumes "sc_inv s"
  shows "sc_restore (sc_checkpoint s) =
    (if length (sc_frames s) \<le> 10000 then Inr s else Inl SuspensionInvalidCheckpoint)"
proof -
  have wf: "bwf (sc_frames s)" and keyed: "bforall (\<lambda>k f. suspension_id f = k) (sc_frames s)"
    and un: "bunique (\<lambda>f. \<not> sf_resolved f) sf_token_id (sc_frames s)"
    and swf: "swf (consumed_inputs s)" "swf (consumed_approvals s)" "swf (applied_controls s)"
    and valid: "\<And>i. i \<in> set (consumed_inputs s) \<union> set (consumed_approvals s)
        \<union> set (applied_controls s) \<Longrightarrow> valid_stable_id i"
    and ins: "\<And>i. i \<in> set (consumed_inputs s) \<longleftrightarrow>
        bexists (\<lambda>f. sf_kind f = KInput i \<and> sf_resolved f) (sc_frames s)"
    and aps: "\<And>i. i \<in> set (consumed_approvals s) \<longleftrightarrow>
        bexists (\<lambda>f. sf_kind f = KApproval i \<and> sf_resolved f) (sc_frames s)"
    using assms by (auto simp: sc_inv_def)
  have "distinct (map suspension_id (bvalues (sc_frames s)))"
    using map_key_values [OF wf keyed] bwf_distinct [OF wf] by metis
  then have frames: "sc_restore_frames (bvalues (sc_frames s)) [] [] = Inr (sc_frames s)"
    using un wf load_self_keyed [OF wf keyed]
    by (simp add: sc_restore_frames_eq frames_fresh_def bunique_distinct)
  have "resolved_inputs (bvalues (sc_frames s)) = consumed_inputs s"
    using swf ins by (intro swf_ext) (auto simp: set_resolved_inputs bexists_values [OF wf])
  moreover have "resolved_approvals (bvalues (sc_frames s)) = consumed_approvals s"
    using swf aps by (intro swf_ext) (auto simp: set_resolved_approvals bexists_values [OF wf])
  moreover have "parse_ok (consumed_inputs s) = consumed_inputs s"
    "parse_ok (consumed_approvals s) = consumed_approvals s"
    "parse_ok (applied_controls s) = applied_controls s"
    using valid by (auto intro: parse_ok_all)
  ultimately show ?thesis
    using frames swf by (simp add: sc_restore_def sc_checkpoint_def unique_ids_id)
qed

text \<open>What the type \<open>Vec<StableId>\<close> of a checkpoint's fields guarantees.\<close>

definition sc_typed :: "suspension_checkpoint \<Rightarrow> bool" where
  "sc_typed c \<longleftrightarrow> list_all valid_stable_id
     (ck_consumed_inputs c @ ck_consumed_approvals c @ ck_applied_controls c)"

lemma sc_restore_inv:
  assumes "sc_typed c" and "sc_restore c = Inr s"
  shows "sc_inv s \<and> length (sc_frames s) \<le> 10000"
proof -
  define fs where "fs = ck_frames c"
  define m where "m = fold (\<lambda>f. binsert (suspension_id f) f) fs []"
  from assms(2) have len: "length fs \<le> 10000"
    and fsr: "sc_restore_frames fs [] [] = Inr (sc_frames s)"
    and ids: "unique_ids (ck_consumed_inputs c) = Inr (consumed_inputs s)"
      "unique_ids (ck_consumed_approvals c) = Inr (consumed_approvals s)"
      "unique_ids (ck_applied_controls c) = Inr (applied_controls s)"
    and eqs: "resolved_inputs (bvalues (sc_frames s)) = consumed_inputs s"
      "resolved_approvals (bvalues (sc_frames s)) = consumed_approvals s"
    by (auto simp: sc_restore_def fs_def split: if_splits sum.splits)
  from fsr have dist: "distinct (map suspension_id fs)"
    and tok: "distinct (map sf_token_id (filter (\<lambda>f. \<not> sf_resolved f) fs))"
    and sm: "sc_frames s = m"
    by (auto simp: sc_restore_frames_eq frames_fresh_def m_def split: if_splits)
  note load = load_self_keyed_inv [OF dist, folded m_def]
  have un: "bunique (\<lambda>f. \<not> sf_resolved f) sf_token_id m"
    unfolding bunique_distinct [OF load(1)] using tok distinct_filter_mset [OF load(4)] by blast
  have len_m: "length m = length fs"
    using load(4) by (metis length_map size_mset)
  note sets = ids [THEN unique_ids_Inr]
  have "i \<in> set (consumed_inputs s) \<longleftrightarrow> bexists (\<lambda>f. sf_kind f = KInput i \<and> sf_resolved f) m" for i
    unfolding eqs(1) [symmetric] sm by (simp add: set_resolved_inputs bexists_values [OF load(1)] del: set_map)
  moreover have "i \<in> set (consumed_approvals s) \<longleftrightarrow> bexists (\<lambda>f. sf_kind f = KApproval i \<and> sf_resolved f) m" for i
    unfolding eqs(2) [symmetric] sm by (simp add: set_resolved_approvals bexists_values [OF load(1)] del: set_map)
  moreover have "valid_stable_id i"
    if "i \<in> set (consumed_inputs s) \<union> set (consumed_approvals s) \<union> set (applied_controls s)" for i
    using that sets assms(1) by (auto simp: sc_typed_def list_all_iff)
  ultimately have "sc_inv s"
    unfolding sc_inv_def sm using load(1,2) un sets(1-3) [THEN conjunct1] by blast
  with len len_m show ?thesis
    by (simp add: sm)
qed

section \<open>The controller behind checkpoints\<close>

text \<open>
  A controller that is checkpointed and restored at arbitrary moments, as long as it holds at most
  10,000 frames: the number \<open>restore\<close> accepts.
\<close>

definition sc_bounded :: "suspension_controller \<Rightarrow> bool" where
  "sc_bounded s \<longleftrightarrow> length (sc_frames s) \<le> 10000"

definition sc_bounded_step :: "suspension_controller \<Rightarrow> suspension_controller \<Rightarrow> bool" where
  "sc_bounded_step s t \<longleftrightarrow> sc_step s t \<and> sc_bounded t"

interpretation sc: crash_safe sc_bounded_step "\<lambda>s. sc_inv s \<and> sc_bounded s"
    sc_checkpoint sc_restore sc_typed
  by unfold_locales
    (auto simp: sc_bounded_step_def sc_bounded_def sc_restore_checkpoint
          intro: sc_step_inv dest: sc_restore_inv)

interpretation sc_sys: inv_system sc_step sc_inv
  by unfold_locales (rule sc_step_inv)

text \<open>Nothing that was consumed is forgotten.\<close>

lemma sc_step_consumed_mono:
  "sc_step s t \<Longrightarrow>
     set (consumed_inputs s) \<subseteq> set (consumed_inputs t)
     \<and> set (consumed_approvals s) \<subseteq> set (consumed_approvals t)"
  by (erule sc_step.cases)
    (auto simp: sc_suspend_def resolve_input_def resolve_approval_def apply_control_def
        resume_pause_def Let_def split: if_splits sum.splits)

lemma sc_steps_consumed_mono:
  "sc_step\<^sup>*\<^sup>* s t \<Longrightarrow>
     set (consumed_inputs s) \<subseteq> set (consumed_inputs t)
     \<and> set (consumed_approvals s) \<subseteq> set (consumed_approvals t)"
  by (induction rule: rtranclp_induct) (blast dest: sc_step_consumed_mono)+

lemma resolve_input_True: "resolve_input sid i s = (Inr True, t) \<Longrightarrow> i \<in> set (consumed_inputs t)"
  by (auto simp: resolve_input_def split: if_splits sum.splits)

section \<open>Properties\<close>

text \<open>
  Every controller reached from \<open>new\<close> by the five mutating operations is rebuilt exactly from
  its checkpoint, unless it holds more than 10,000 frames: then \<open>restore\<close> rejects the controller's
  own checkpoint.
\<close>

theorem suspension_checkpoint_roundtrip:
  assumes "sc_step\<^sup>*\<^sup>* sc_new s"
  shows "sc_restore (sc_checkpoint s) =
    (if length (sc_frames s) \<le> 10000 then Inr s else Inl SuspensionInvalidCheckpoint)"
  using sc_sys.steps_inv [OF assms sc_inv_new] by (rule sc_restore_checkpoint)

definition demo_frame :: suspension_frame where
  "demo_frame = \<lparr>suspension_id = ''suspension.1'', sf_token_id = ''token.1'',
     sf_kind = KInput ''input.1'', sf_resolved = False\<rparr>"

definition demo_waiting :: suspension_controller where
  "demo_waiting = snd (sc_suspend demo_frame sc_new)"

lemma demo_waiting_reached: "sc_step\<^sup>*\<^sup>* sc_new demo_waiting"
  unfolding demo_waiting_def by (rule r_into_rtranclp, rule step_suspend [where r = "fst (sc_suspend demo_frame sc_new)" and frame = demo_frame]) simp

theorem suspension_checkpoint_roundtrip_witness:
  "sc_restore (sc_checkpoint demo_waiting) = Inr demo_waiting
   \<and> sc_frames demo_waiting = [(''suspension.1'', demo_frame)]"
  using suspension_checkpoint_roundtrip [OF demo_waiting_reached]
  by (simp add: demo_waiting_def sc_suspend_def sc_new_def demo_frame_def)

text \<open>
  An input that resolved a suspension once is spent for ever: after any further operations a
  second delivery of it, to whatever suspension, changes nothing and reports \<open>Ok(false)\<close>.
\<close>

theorem suspension_input_consumed_once:
  assumes "resolve_input sid i s = (Inr True, t)" and "sc_step\<^sup>*\<^sup>* t u"
  shows "resolve_input sid' i u = (Inr False, u)"
  using resolve_input_True [OF assms(1)] sc_steps_consumed_mono [OF assms(2)]
  by (auto simp: resolve_input_def)

theorem suspension_input_consumed_once_witness:
  "\<exists>t. resolve_input ''suspension.1'' ''input.1'' demo_waiting = (Inr True, t)
     \<and> resolve_input ''suspension.2'' ''input.1'' t = (Inr False, t)"
proof -
  obtain t where t: "resolve_input ''suspension.1'' ''input.1'' demo_waiting = (Inr True, t)"
    by (simp add: demo_waiting_def sc_suspend_def sc_new_def demo_frame_def resolve_input_def
        frame_unresolved_def)
  show ?thesis
    using t suspension_input_consumed_once [OF t rtranclp.rtrancl_refl] by blast
qed

text \<open>
  Stopping the worker after any operation and restoring it from its last checkpoint adds no
  behaviour: a run with restores in it is a run without them.
\<close>

theorem suspension_crash_transparent:
  assumes "(\<lambda>s t. sc_bounded_step s t \<or> sc_restore (sc_checkpoint s) = Inr t)\<^sup>*\<^sup>* sc_new s"
  shows "sc_bounded_step\<^sup>*\<^sup>* sc_new s"
  by (rule sc.crashes_transparent [OF assms])
     (use sc_inv_new in \<open>simp add: sc_bounded_def sc_new_def\<close>)

theorem suspension_crash_transparent_witness:
  "sc_bounded_step\<^sup>*\<^sup>* sc_new demo_waiting"
proof (rule suspension_crash_transparent)
  have "sc_bounded_step sc_new demo_waiting"
    unfolding sc_bounded_step_def demo_waiting_def
    by (intro conjI step_suspend [where r = "fst (sc_suspend demo_frame sc_new)" and frame = demo_frame])
      (simp_all add: sc_bounded_def sc_suspend_def sc_new_def demo_frame_def)
  then show "(\<lambda>s t. sc_bounded_step s t \<or> sc_restore (sc_checkpoint s) = Inr t)\<^sup>*\<^sup>* sc_new demo_waiting"
    by (blast intro: r_into_rtranclp)
qed

text \<open>
  Pausing and resuming a scope releases a token that waits for an approval, although no approval
  was given: \<open>apply_control\<close> overwrites the kind of every unresolved frame, and \<open>resume_pause\<close>
  resolves every frame paused under the scope.
\<close>

theorem pause_resume_releases_approval_wait:
  assumes "bget (sc_frames s) sid = Some f" and "sf_kind f = KApproval a" and "\<not> sf_resolved f"
    and "scope \<noteq> []" and "length scope \<le> 512"
    and "c \<notin> set (applied_controls s)" and "d \<notin> set (applied_controls s)" and "c \<noteq> d"
    and "apply_control c scope False s = (r, t)" and "resume_pause d scope t = (r', u)"
  shows "(\<exists>tokens. r' = Inr tokens \<and> sf_token_id f \<in> set tokens)
    \<and> consumed_approvals u = consumed_approvals s
    \<and> (a \<notin> set (consumed_approvals s) \<longrightarrow> resolve_approval sid a out u = (Inl AlreadyResolved, u))"
proof -
  define pause :: "suspension_frame \<Rightarrow> suspension_frame" where
    "pause = (\<lambda>f. if sf_resolved f then f else f\<lparr>sf_kind := KPaused scope\<rparr>)"
  have t: "t = s\<lparr>applied_controls := sinsert c (applied_controls s),
      sc_frames := bmap_values pause (sc_frames s)\<rparr>"
    using assms(4-9) by (auto simp: apply_control_def pause_def split: if_splits)
  define hit :: "suspension_frame \<Rightarrow> bool" where
    "hit = (\<lambda>f. sf_kind f = KPaused scope \<and> \<not> sf_resolved f)"
  have res: "r' = Inr (map sf_token_id (filter hit (bvalues (sc_frames t))))"
    "u = t\<lparr>applied_controls := sinsert d (applied_controls t),
       sc_frames := bmap_values (\<lambda>f. if hit f then f\<lparr>sf_resolved := True\<rparr> else f) (sc_frames t)\<rparr>"
    using assms(4-8,10) unfolding resume_pause_def Let_def hit_def by (simp_all add: t)
  have tf: "bget (sc_frames t) sid = Some (f\<lparr>sf_kind := KPaused scope\<rparr>)"
    using assms(1,3) by (simp add: t pause_def)
  have hit: "hit (f\<lparr>sf_kind := KPaused scope\<rparr>)"
    using assms(3) by (simp add: hit_def)
  have "f\<lparr>sf_kind := KPaused scope\<rparr> \<in> set (filter hit (bvalues (sc_frames t)))"
    using hit bget_in_values [OF tf] by (simp del: set_map)
  then have "sf_token_id f \<in> set (map sf_token_id (filter hit (bvalues (sc_frames t))))"
    unfolding set_map by (rule rev_image_eqI) simp
  moreover have "bget (sc_frames u) sid = Some (f\<lparr>sf_kind := KPaused scope, sf_resolved := True\<rparr>)"
    using tf hit by (simp add: res(2))
  ultimately show ?thesis
    by (simp add: res(1) resolve_approval_def frame_unresolved_def) (simp add: res(2) t)
qed

theorem pause_resume_releases_approval_wait_witness:
  "resolve_approval ''suspension.1'' ''approval.1'' Approved
     (snd (resume_pause ''control.2'' ''run'' (snd (apply_control ''control.1'' ''run'' False
       (snd (sc_suspend (demo_frame\<lparr>sf_kind := KApproval ''approval.1''\<rparr>) sc_new))))))
   = (Inl AlreadyResolved,
      snd (resume_pause ''control.2'' ''run'' (snd (apply_control ''control.1'' ''run'' False
        (snd (sc_suspend (demo_frame\<lparr>sf_kind := KApproval ''approval.1''\<rparr>) sc_new))))))"
  using pause_resume_releases_approval_wait
    [of "snd (sc_suspend (demo_frame\<lparr>sf_kind := KApproval ''approval.1''\<rparr>) sc_new)" "''suspension.1''"
      "demo_frame\<lparr>sf_kind := KApproval ''approval.1''\<rparr>" "''approval.1''" "''run''" "''control.1''"
      "''control.2''", OF _ _ _ _ _ _ _ _ prod.collapse [symmetric] prod.collapse [symmetric]]
  by (simp add: sc_suspend_def sc_new_def demo_frame_def)

end
