(* ===== verification/Branch.thy ===== *)
theory Branch
  imports Json
begin

text \<open>
  Parallel branches and joins (\<open>crates/aworkit-workflow-worker/src/branch.rs\<close>): a frame declares
  its branches in order, each branch reaches one terminal state, and the join integrates the
  results once, in the declared order whatever the order of completion.
\<close>

section \<open>Data\<close>

datatype branch_state = BReady | BRunning | BCompleted | BCancelled | BFailed

record branch_record =
  branch_id :: stable_id
  br_ordinal :: u32
  br_state :: branch_state
  br_result :: "json option"

record branch_frame =
  bf_frame_id :: stable_id
  bf_parent_token_id :: stable_id
  bf_join_node_id :: stable_id
  bf_branches :: "branch_record list"
  bf_merge_policy :: string
  bf_integrated :: bool

record branch_checkpoint =
  bck_frames :: "branch_frame list"

datatype branch_error =
    DuplicateFrame string
  | UnknownFrame string
  | UnknownBranch string
  | BranchTerminal string
  | JoinNotReady
  | AlreadyIntegrated
  | InvalidBranchCount
  | DuplicateBranch
  | UnsupportedMergePolicy string
  | ObjectMergeType

record branch_join_coordinator =
  bj_frames :: "(string, branch_frame) bmap"

section \<open>Operations\<close>

definition max_branches_per_frame :: nat where
  "max_branches_per_frame = 1024"

definition bj_new :: branch_join_coordinator where
  "bj_new = \<lparr>bj_frames = []\<rparr>"

definition supported_policy :: "string \<Rightarrow> bool" where
  "supported_policy p \<longleftrightarrow> p = ''ordered_array'' \<or> p = ''object_overlay''"

definition terminal :: "branch_record \<Rightarrow> bool" where
  "terminal b \<longleftrightarrow> br_state b \<in> {BCompleted, BCancelled, BFailed}"

definition fresh_branches :: "stable_id list \<Rightarrow> branch_record list" where
  "fresh_branches ids =
     map (\<lambda>(i, ordinal). \<lparr>branch_id = i, br_ordinal = of_nat ordinal, br_state = BReady, br_result = None\<rparr>)
       (zip ids [0..<length ids])"

definition open_parallel ::
  "stable_id \<Rightarrow> stable_id \<Rightarrow> stable_id \<Rightarrow> stable_id list \<Rightarrow> string \<Rightarrow> branch_join_coordinator
   \<Rightarrow> (branch_error + branch_record list) \<times> branch_join_coordinator"
where
  "open_parallel frame_id parent_token_id join_node_id ids merge_policy s =
     (if ids = [] \<or> length ids > max_branches_per_frame then (Inl InvalidBranchCount, s)
      else if \<not> supported_policy merge_policy then (Inl (UnsupportedMergePolicy merge_policy), s)
      else if bcontains (bj_frames s) frame_id then (Inl (DuplicateFrame frame_id), s)
      else if length (bset_of_list ids) \<noteq> length ids then (Inl DuplicateBranch, s)
      else
        (Inr (fresh_branches ids),
         s\<lparr>bj_frames := binsert frame_id
             \<lparr>bf_frame_id = frame_id, bf_parent_token_id = parent_token_id,
              bf_join_node_id = join_node_id, bf_branches = fresh_branches ids,
              bf_merge_policy = merge_policy, bf_integrated = False\<rparr> (bj_frames s)\<rparr>))"

text \<open>
  \<open>format!("branch.{ordinal}.{:x}", digest)[..64]\<close>, with SHA-256 as the parameter \<open>sha\<close>.
\<close>

definition stable_branch_id :: "digest \<Rightarrow> stable_id \<Rightarrow> nat \<Rightarrow> protocol_error + stable_id" where
  "stable_branch_id sha frame_id ordinal =
     stable_id_parse (take 64 (''branch.'' @ show_nat ordinal @ ''.'' @ sha (frame_id @ '':'' @ show_nat ordinal)))"

definition open_for_each ::
  "digest \<Rightarrow> stable_id \<Rightarrow> stable_id \<Rightarrow> stable_id \<Rightarrow> json list \<Rightarrow> nat \<Rightarrow> string \<Rightarrow> branch_join_coordinator
   \<Rightarrow> (branch_error + (branch_record \<times> json) list) \<times> branch_join_coordinator"
where
  "open_for_each sha frame_id parent_token_id join_node_id items maximum_items merge_policy s =
     (if items = [] \<or> length items > maximum_items \<or> length items > max_branches_per_frame
      then (Inl InvalidBranchCount, s)
      else case try_map (stable_branch_id sha frame_id) [0..<length items] of
        Inl _ \<Rightarrow> (Inl InvalidBranchCount, s)
      | Inr ids \<Rightarrow>
        (case open_parallel frame_id parent_token_id join_node_id ids merge_policy s of
           (Inl e, t) \<Rightarrow> (Inl e, t)
         | (Inr branches, t) \<Rightarrow> (Inr (zip branches items), t)))"

text \<open>A write through \<open>branch_mut\<close>: the first branch of the frame with the id.\<close>

definition branch_lookup :: "branch_join_coordinator \<Rightarrow> stable_id \<Rightarrow> stable_id \<Rightarrow> branch_error + branch_record" where
  "branch_lookup s frame_id bid =
     (case bget (bj_frames s) frame_id of
        None \<Rightarrow> Inl (UnknownFrame frame_id)
      | Some frame \<Rightarrow>
          (case List.find (\<lambda>b. branch_id b = bid) (bf_branches frame) of
             None \<Rightarrow> Inl (UnknownBranch bid)
           | Some b \<Rightarrow> Inr b))"

fun update_first :: "('a \<Rightarrow> bool) \<Rightarrow> ('a \<Rightarrow> 'a) \<Rightarrow> 'a list \<Rightarrow> 'a list" where
  "update_first P f [] = []"
| "update_first P f (x # xs) = (if P x then f x # xs else x # update_first P f xs)"

definition write_branch ::
  "stable_id \<Rightarrow> stable_id \<Rightarrow> (branch_record \<Rightarrow> branch_record) \<Rightarrow> branch_join_coordinator \<Rightarrow> branch_join_coordinator"
where
  "write_branch frame_id bid f s =
     s\<lparr>bj_frames := bmodify frame_id
        (\<lambda>frame. frame\<lparr>bf_branches := update_first (\<lambda>b. branch_id b = bid) f (bf_branches frame)\<rparr>)
        (bj_frames s)\<rparr>"

definition mark_running ::
  "stable_id \<Rightarrow> stable_id \<Rightarrow> branch_join_coordinator \<Rightarrow> (branch_error + unit) \<times> branch_join_coordinator"
where
  "mark_running frame_id bid s =
     (case branch_lookup s frame_id bid of
        Inl e \<Rightarrow> (Inl e, s)
      | Inr b \<Rightarrow>
          if br_state b \<noteq> BReady then (Inl (BranchTerminal bid), s)
          else (Inr (), write_branch frame_id bid (\<lambda>b. b\<lparr>br_state := BRunning\<rparr>) s))"

definition bj_complete ::
  "stable_id \<Rightarrow> stable_id \<Rightarrow> json \<Rightarrow> branch_join_coordinator \<Rightarrow> (branch_error + unit) \<times> branch_join_coordinator"
where
  "bj_complete frame_id bid result s =
     (case branch_lookup s frame_id bid of
        Inl e \<Rightarrow> (Inl e, s)
      | Inr b \<Rightarrow>
          if terminal b then (Inl (BranchTerminal bid), s)
          else (Inr (), write_branch frame_id bid
                  (\<lambda>b. b\<lparr>br_state := BCompleted, br_result := Some result\<rparr>) s))"

definition cancel_frame ::
  "stable_id \<Rightarrow> branch_join_coordinator \<Rightarrow> (branch_error + unit) \<times> branch_join_coordinator"
where
  "cancel_frame frame_id s =
     (if \<not> bcontains (bj_frames s) frame_id then (Inl (UnknownFrame frame_id), s)
      else (Inr (), s\<lparr>bj_frames := bmodify frame_id
             (\<lambda>frame. frame\<lparr>bf_branches :=
                map (\<lambda>b. if terminal b then b else b\<lparr>br_state := BCancelled\<rparr>) (bf_branches frame)\<rparr>)
             (bj_frames s)\<rparr>))"

definition is_join_ready :: "branch_join_coordinator \<Rightarrow> stable_id \<Rightarrow> bool" where
  "is_join_ready s frame_id =
     (case bget (bj_frames s) frame_id of
        None \<Rightarrow> False
      | Some frame \<Rightarrow> list_all terminal (bf_branches frame))"

fun overlay :: "branch_record list \<Rightarrow> json_map \<Rightarrow> branch_error + json_map" where
  "overlay [] merged = Inr merged"
| "overlay (b # bs) merged =
     (case br_result b of
        None \<Rightarrow> overlay bs merged
      | Some v \<Rightarrow>
          (case as_object v of
             None \<Rightarrow> Inl ObjectMergeType
           | Some object \<Rightarrow> overlay bs (fold (\<lambda>e. binsert (fst e) (snd e)) object merged)))"

definition merge_results :: "branch_frame \<Rightarrow> branch_error + json" where
  "merge_results frame =
     (if bf_merge_policy frame = ''ordered_array''
      then Inr (JArray (map (\<lambda>b. case br_result b of None \<Rightarrow> JNull | Some v \<Rightarrow> v) (bf_branches frame)))
      else if bf_merge_policy frame = ''object_overlay''
      then bind_r (overlay (bf_branches frame) []) (\<lambda>m. Inr (JObject m))
      else Inl (UnsupportedMergePolicy (bf_merge_policy frame)))"

definition integrate ::
  "stable_id \<Rightarrow> branch_join_coordinator \<Rightarrow> (branch_error + json) \<times> branch_join_coordinator"
where
  "integrate frame_id s =
     (case bget (bj_frames s) frame_id of
        None \<Rightarrow> (Inl (UnknownFrame frame_id), s)
      | Some frame \<Rightarrow>
          if bf_integrated frame then (Inl AlreadyIntegrated, s)
          else if \<not> list_all terminal (bf_branches frame) then (Inl JoinNotReady, s)
          else case merge_results frame of
            Inl e \<Rightarrow> (Inl e, s)
          | Inr v \<Rightarrow> (Inr v, s\<lparr>bj_frames := bmodify frame_id (\<lambda>f. f\<lparr>bf_integrated := True\<rparr>) (bj_frames s)\<rparr>))"

definition bj_checkpoint :: "branch_join_coordinator \<Rightarrow> branch_checkpoint" where
  "bj_checkpoint s = \<lparr>bck_frames = bvalues (bj_frames s)\<rparr>"

definition check_frame :: "branch_frame \<Rightarrow> branch_error + unit" where
  "check_frame frame =
     (let bs = bf_branches frame in
      if bs = [] \<or> length bs > max_branches_per_frame then Inl InvalidBranchCount
      else if \<not> supported_policy (bf_merge_policy frame)
      then Inl (UnsupportedMergePolicy (bf_merge_policy frame))
      else if length (bset_of_list (map branch_id bs)) \<noteq> length bs
        \<or> bset_of_list (map br_ordinal bs) \<noteq> bset_of_list (map of_nat [0..<length bs])
        \<or> (\<exists>b \<in> set bs. case br_state b of BCompleted \<Rightarrow> br_result b = None | _ \<Rightarrow> br_result b \<noteq> None)
        \<or> (bf_integrated frame \<and> \<not> list_all terminal bs)
      then Inl DuplicateBranch
      else Inr ())"

fun restore_frames ::
  "branch_frame list \<Rightarrow> (string, branch_frame) bmap \<Rightarrow> branch_error + (string, branch_frame) bmap"
where
  "restore_frames [] m = Inr m"
| "restore_frames (frame # frames) m =
     bind_r (check_frame frame) (\<lambda>_.
     if bcontains m (bf_frame_id frame) then Inl DuplicateBranch
     else restore_frames frames (binsert (bf_frame_id frame) frame m))"

definition bj_restore :: "branch_checkpoint \<Rightarrow> branch_error + branch_join_coordinator" where
  "bj_restore c = bind_r (restore_frames (bck_frames c) []) (\<lambda>m. Inr \<lparr>bj_frames = m\<rparr>)"

section \<open>Invariant\<close>

definition frame_ok :: "branch_frame \<Rightarrow> bool" where
  "frame_ok frame \<longleftrightarrow> is_ok (check_frame frame)"

definition bj_inv :: "branch_join_coordinator \<Rightarrow> bool" where
  "bj_inv s \<longleftrightarrow> bwf (bj_frames s) \<and> bforall (\<lambda>k f. bf_frame_id f = k \<and> frame_ok f) (bj_frames s)"

lemma frame_ok_iff:
  "frame_ok f \<longleftrightarrow>
     bf_branches f \<noteq> [] \<and> length (bf_branches f) \<le> max_branches_per_frame
     \<and> supported_policy (bf_merge_policy f) \<and> distinct (map branch_id (bf_branches f))
     \<and> bset_of_list (map br_ordinal (bf_branches f)) = bset_of_list (map of_nat [0..<length (bf_branches f)])
     \<and> (\<forall>b \<in> set (bf_branches f). br_state b = BCompleted \<longleftrightarrow> br_result b \<noteq> None)
     \<and> (bf_integrated f \<longrightarrow> list_all terminal (bf_branches f))"
proof -
  have eq: "(case br_state b of BCompleted \<Rightarrow> br_result b = None | _ \<Rightarrow> br_result b \<noteq> None)
      \<longleftrightarrow> \<not> (br_state b = BCompleted \<longleftrightarrow> br_result b \<noteq> None)" for b :: branch_record
    by (cases "br_state b") auto
  have len: "length (bset_of_list (map branch_id (bf_branches f))) = length (bf_branches f)
      \<longleftrightarrow> distinct (map branch_id (bf_branches f))"
    using bset_length_eq_iff [of "map branch_id (bf_branches f)"] by simp
  show ?thesis
    unfolding frame_ok_def check_frame_def Let_def eq by (auto simp: len)
qed

lemma update_first_map:
  "(\<And>x. P x \<Longrightarrow> g (f x) = g x) \<Longrightarrow> map g (update_first P f xs) = map g xs"
  by (induction xs) auto

lemma update_first_length [simp]: "length (update_first P f xs) = length xs"
  by (induction xs) auto

lemma update_first_distinct:
  "distinct (map g xs) \<Longrightarrow> update_first (\<lambda>x. g x = k) f xs = map (\<lambda>x. if g x = k then f x else x) xs"
  by (induction xs) (fastforce intro!: map_idI [symmetric] simp: image_iff)+

lemma find_Some_mem: "List.find P xs = Some x \<Longrightarrow> x \<in> set xs \<and> P x"
  by (auto simp: find_Some_iff)

lemma branch_lookup_Inr:
  "branch_lookup s fid bid = Inr b \<Longrightarrow>
     \<exists>f. bget (bj_frames s) fid = Some f \<and> b \<in> set (bf_branches f) \<and> branch_id b = bid"
  by (auto simp: branch_lookup_def split: option.splits dest: find_Some_mem)

lemma frame_ok_branches:
  assumes "frame_ok f" and "map branch_id bs = map branch_id (bf_branches f)"
    and "map br_ordinal bs = map br_ordinal (bf_branches f)"
    and "\<And>b. b \<in> set bs \<Longrightarrow> br_state b = BCompleted \<longleftrightarrow> br_result b \<noteq> None"
    and "bf_integrated f \<longrightarrow> list_all terminal bs"
  shows "frame_ok (f\<lparr>bf_branches := bs\<rparr>)"
proof -
  have len: "length bs = length (bf_branches f)"
    using assms(2) by (metis length_map)
  then show ?thesis
    using assms by (simp add: frame_ok_iff flip: length_greater_0_conv)
qed

text \<open>One write to a branch that has not reached a terminal state.\<close>

lemma write_branch_ok:
  assumes inv: "bj_inv s" and b: "branch_lookup s fid bid = Inr b" and live: "\<not> terminal b"
    and keep: "\<And>x. branch_id (g x) = branch_id x \<and> br_ordinal (g x) = br_ordinal x"
    and state: "\<And>x. br_result x = None \<Longrightarrow> br_state (g x) = BCompleted \<longleftrightarrow> br_result (g x) \<noteq> None"
  shows "bj_inv (write_branch fid bid g s)"
    and "bget (bj_frames (write_branch fid bid g s)) i = map_option (\<lambda>f. if i = fid
      then f\<lparr>bf_branches := map (\<lambda>x. if branch_id x = bid then g x else x) (bf_branches f)\<rparr> else f) (bget (bj_frames s) i)"
    and "\<exists>f. bget (bj_frames s) fid = Some f \<and> b \<in> set (bf_branches f) \<and> branch_id b = bid \<and> br_result b = None"
proof -
  obtain f where f: "bget (bj_frames s) fid = Some f" "b \<in> set (bf_branches f)" "branch_id b = bid"
    using branch_lookup_Inr [OF b] by blast
  have ok: "frame_ok f" and wf: "bwf (bj_frames s)"
    using inv f by (auto simp: bj_inv_def dest: bforallD)
  then have none: "br_result b = None" and dist: "distinct (map branch_id (bf_branches f))"
    using f live by (auto simp: frame_ok_iff terminal_def)
  then show "\<exists>f. bget (bj_frames s) fid = Some f \<and> b \<in> set (bf_branches f) \<and> branch_id b = bid \<and> br_result b = None"
    using f by blast
  have upd: "update_first (\<lambda>x. branch_id x = bid) g (bf_branches f)
      = map (\<lambda>x. if branch_id x = bid then g x else x) (bf_branches f)"
    by (rule update_first_distinct [OF dist])
  have only: "x = b" if "x \<in> set (bf_branches f)" "branch_id x = bid" for x
    using dist f that by (metis distinct_map inj_onD)
  have "frame_ok (f\<lparr>bf_branches := map (\<lambda>x. if branch_id x = bid then g x else x) (bf_branches f)\<rparr>)"
  proof (rule frame_ok_branches [OF ok])
    show "bf_integrated f \<longrightarrow> list_all terminal (map (\<lambda>x. if branch_id x = bid then g x else x) (bf_branches f))"
      using ok live f(2) by (auto simp: frame_ok_iff list_all_iff)
    show "br_state x = BCompleted \<longleftrightarrow> br_result x \<noteq> None"
      if "x \<in> set (map (\<lambda>x. if branch_id x = bid then g x else x) (bf_branches f))" for x
      using that ok only none state by (auto simp: frame_ok_iff)
  qed (auto simp: keep)
  with inv f(1) show "bj_inv (write_branch fid bid g s)"
    unfolding bj_inv_def write_branch_def by (auto simp: bforall_def upd split: if_splits)
  show "bget (bj_frames (write_branch fid bid g s)) i = map_option (\<lambda>f. if i = fid
      then f\<lparr>bf_branches := map (\<lambda>x. if branch_id x = bid then g x else x) (bf_branches f)\<rparr> else f) (bget (bj_frames s) i)"
    using f(1) by (auto simp: write_branch_def upd option.map_ident)
qed

lemma bj_inv_new: "bj_inv bj_new"
  by (simp add: bj_inv_def bj_new_def)

lemma fresh_branches_simps:
  "map branch_id (fresh_branches ids) = ids" "length (fresh_branches ids) = length ids"
  "map br_ordinal (fresh_branches ids) = map of_nat [0..<length ids]"
  by (auto simp: fresh_branches_def comp_def case_prod_beta intro!: nth_equalityI)

lemma fresh_branches_state: "b \<in> set (fresh_branches ids) \<Longrightarrow> br_state b = BReady \<and> br_result b = None"
  by (auto simp: fresh_branches_def)

lemma bj_inv_open_parallel:
  assumes "bj_inv s" and "open_parallel fid p j ids pol s = (r, t)"
  shows "bj_inv t \<and> (bcontains (bj_frames s) i \<longrightarrow> bget (bj_frames t) i = bget (bj_frames s) i)"
proof (cases "t = s")
  case False
  with assms(2) have ok: "ids \<noteq> []" "length ids \<le> max_branches_per_frame" "supported_policy pol"
      "\<not> bcontains (bj_frames s) fid" "distinct ids"
    and t: "t = s\<lparr>bj_frames := binsert fid \<lparr>bf_frame_id = fid, bf_parent_token_id = p, bf_join_node_id = j,
        bf_branches = fresh_branches ids, bf_merge_policy = pol, bf_integrated = False\<rparr> (bj_frames s)\<rparr>"
    by (auto simp: open_parallel_def bset_length_eq_iff not_less split: if_splits)
  have "frame_ok \<lparr>bf_frame_id = fid, bf_parent_token_id = p, bf_join_node_id = j,
        bf_branches = fresh_branches ids, bf_merge_policy = pol, bf_integrated = False\<rparr>"
    using ok by (auto simp: frame_ok_iff fresh_branches_simps fresh_branches_state simp flip: length_greater_0_conv)
  with assms(1) ok(4) show ?thesis
    by (auto simp: bj_inv_def t bforall_def)
qed (use assms in simp)

lemma bj_inv_open_for_each:
  assumes "bj_inv s" and "open_for_each sha fid p j items mx pol s = (r, t)"
  shows "bj_inv t \<and> (bcontains (bj_frames s) i \<longrightarrow> bget (bj_frames t) i = bget (bj_frames s) i)"
proof (cases "t = s")
  case False
  with assms(2) obtain ids r' where "open_parallel fid p j ids pol s = (r', t)"
    by (auto simp: open_for_each_def split: if_splits sum.splits prod.splits)
  with bj_inv_open_parallel [OF assms(1) this, of i] show ?thesis
    by simp
qed (use assms in simp)

lemma bj_inv_cancel_frame:
  assumes "bj_inv s" and "cancel_frame fid s = (r, t)"
  shows "bj_inv t"
proof (cases "t = s")
  case False
  define c :: "branch_record \<Rightarrow> branch_record" where
    "c = (\<lambda>b. if terminal b then b else b\<lparr>br_state := BCancelled\<rparr>)"
  have t: "t = s\<lparr>bj_frames := bmodify fid (\<lambda>f. f\<lparr>bf_branches := map c (bf_branches f)\<rparr>) (bj_frames s)\<rparr>"
    using assms(2) False by (auto simp: cancel_frame_def c_def split: if_splits)
  have "frame_ok (f\<lparr>bf_branches := map c (bf_branches f)\<rparr>)" if "frame_ok f" for f
  proof (rule frame_ok_branches [OF that])
    show "br_state x = BCompleted \<longleftrightarrow> br_result x \<noteq> None" if "x \<in> set (map c (bf_branches f))" for x
      using that \<open>frame_ok f\<close> by (auto simp: frame_ok_iff c_def terminal_def)
  qed (auto simp: c_def list_all_iff terminal_def)
  with assms(1) show ?thesis
    by (auto simp: bj_inv_def t bforall_def)
qed (use assms in simp)

lemma bj_inv_mark_running:
  assumes "bj_inv s" and "mark_running fid bid s = (r, t)"
  shows "bj_inv t"
proof (cases "t = s")
  case False
  with assms(2) obtain b where b: "branch_lookup s fid bid = Inr b" "br_state b = BReady"
    and t: "t = write_branch fid bid (\<lambda>b. b\<lparr>br_state := BRunning\<rparr>) s"
    by (auto simp: mark_running_def split: sum.splits if_splits)
  show ?thesis
    unfolding t by (rule write_branch_ok(1) [OF assms(1) b(1)]) (use b in \<open>auto simp: terminal_def\<close>)
qed (use assms in simp)

lemma bj_inv_complete:
  assumes "bj_inv s" and "bj_complete fid bid v s = (r, t)"
  shows "bj_inv t"
proof (cases "t = s")
  case False
  with assms(2) obtain b where b: "branch_lookup s fid bid = Inr b" "\<not> terminal b"
    and t: "t = write_branch fid bid (\<lambda>b. b\<lparr>br_state := BCompleted, br_result := Some v\<rparr>) s"
    by (auto simp: bj_complete_def split: sum.splits if_splits)
  show ?thesis
    unfolding t by (rule write_branch_ok(1) [OF assms(1) b]) auto
qed (use assms in simp)

lemma bj_inv_integrate:
  assumes "bj_inv s" and "integrate fid s = (r, t)"
  shows "bj_inv t"
  using assms
  by (auto simp: integrate_def bj_inv_def bforall_def frame_ok_iff split: option.splits if_splits sum.splits)

lemma restore_frames_ok:
  "restore_frames fs m = Inr m' \<longleftrightarrow>
     (\<forall>f \<in> set fs. frame_ok f \<and> \<not> bcontains m (bf_frame_id f)) \<and> distinct (map bf_frame_id fs)
     \<and> m' = fold (\<lambda>f. binsert (bf_frame_id f) f) fs m"
proof (induction fs arbitrary: m)
  case (Cons f fs)
  show ?case
    by (cases "check_frame f") (auto simp: Cons.IH frame_ok_def image_iff)
qed auto

lemma bj_restore_checkpoint:
  assumes "bj_inv s"
  shows "bj_restore (bj_checkpoint s) = Inr s"
proof -
  have wf: "bwf (bj_frames s)" and keyed: "bforall (\<lambda>k f. bf_frame_id f = k) (bj_frames s)"
    and ok: "bforall (\<lambda>_. frame_ok) (bj_frames s)"
    using assms by (auto simp: bj_inv_def elim: bforall_mono)
  have "distinct (map bf_frame_id (bvalues (bj_frames s)))"
    unfolding map_key_values [OF wf keyed] by (rule bwf_distinct [OF wf])
  then have "restore_frames (bvalues (bj_frames s)) [] = Inr (bj_frames s)"
    unfolding restore_frames_ok using ok wf load_self_keyed [OF wf keyed] by (auto simp: bforall_entries)
  then show ?thesis
    by (simp add: bj_restore_def bj_checkpoint_def)
qed

lemma bj_restore_inv: "bj_restore c = Inr s \<Longrightarrow> bj_inv s"
proof -
  assume "bj_restore c = Inr s"
  then have fs: "\<forall>f \<in> set (bck_frames c). frame_ok f" "distinct (map bf_frame_id (bck_frames c))"
    and s: "bj_frames s = fold (\<lambda>f. binsert (bf_frame_id f) f) (bck_frames c) []"
    by (auto simp: bj_restore_def bind_r_Inr restore_frames_ok)
  note load = load_self_keyed_inv [OF fs(2), folded s]
  have "bforall (\<lambda>_. frame_ok) (bj_frames s)"
    using fs(1) load(1,3) unfolding bforall_entries [OF load(1)] by (metis in_set_zipE image_eqI set_map)
  with load(1,2) show "bj_inv s"
    by (auto simp: bj_inv_def bforall_def)
qed

section \<open>Runs\<close>

text \<open>The label of a step is the result that a call of \<open>complete\<close> recorded for a branch.\<close>

type_synonym branch_event = "(stable_id \<times> stable_id) \<times> json"

inductive bj_step :: "branch_join_coordinator \<Rightarrow> branch_event list \<Rightarrow> branch_join_coordinator \<Rightarrow> bool" where
  step_open: "open_parallel fid p j ids pol s = (r, t) \<Longrightarrow> bj_step s [] t"
| step_for_each: "open_for_each sha fid p j items mx pol s = (r', t) \<Longrightarrow> bj_step s [] t"
| step_running: "mark_running fid bid s = (r'', t) \<Longrightarrow> bj_step s [] t"
| step_complete: "bj_complete fid bid v s = (r'', t) \<Longrightarrow>
    bj_step s (if r'' = Inr () then [((fid, bid), v)] else []) t"
| step_cancel: "cancel_frame fid s = (r'', t) \<Longrightarrow> bj_step s [] t"
| step_integrate: "integrate fid s = (r''', t) \<Longrightarrow> bj_step s [] t"
| step_restore: "bj_restore (bj_checkpoint s) = Inr t \<Longrightarrow> bj_step s [] t"

inductive bj_run :: "branch_join_coordinator \<Rightarrow> branch_event list \<Rightarrow> branch_join_coordinator \<Rightarrow> bool" for s where
  run_start: "bj_run s [] s"
| run_step: "bj_run s es t \<Longrightarrow> bj_step t es' u \<Longrightarrow> bj_run s (es @ es') u"

lemma bj_step_inv: "bj_inv s \<Longrightarrow> bj_step s es t \<Longrightarrow> bj_inv t"
  by (erule bj_step.cases)
    (auto dest: bj_inv_open_parallel bj_inv_open_for_each bj_inv_mark_running bj_inv_complete
       bj_inv_cancel_frame bj_inv_integrate bj_restore_inv)

interpretation bj: crash_safe "\<lambda>s t. \<exists>es. bj_step s es t" bj_inv bj_checkpoint bj_restore "\<lambda>_. True"
  by unfold_locales (auto intro: bj_step_inv bj_restore_checkpoint bj_restore_inv)

lemma bj_run_inv: "bj_run s es t \<Longrightarrow> bj_inv s \<Longrightarrow> bj_inv t"
  by (induction rule: bj_run.induct) (auto intro: bj_step_inv)

section \<open>What a join integrates\<close>

text \<open>A frame between its opening and its join: the declared branches with the recorded results.\<close>

definition tracks :: "stable_id \<Rightarrow> stable_id list \<Rightarrow> string \<Rightarrow> branch_event list \<Rightarrow> branch_join_coordinator \<Rightarrow> bool" where
  "tracks fid ids pol es s \<longleftrightarrow> (\<exists>f. bget (bj_frames s) fid = Some f \<and> map branch_id (bf_branches f) = ids
     \<and> bf_merge_policy f = pol \<and> (\<forall>b \<in> set (bf_branches f). br_result b = map_of es (fid, branch_id b)))"

lemma tracks_keep:
  assumes "tracks fid ids pol es s"
    and "\<And>f. bget (bj_frames s) fid = Some f \<Longrightarrow> \<exists>f'. bget (bj_frames t) fid = Some f'
      \<and> map (\<lambda>b. (branch_id b, br_result b)) (bf_branches f') = map (\<lambda>b. (branch_id b, br_result b)) (bf_branches f)
      \<and> bf_merge_policy f' = bf_merge_policy f"
  shows "tracks fid ids pol es t"
proof -
  obtain f where f: "bget (bj_frames s) fid = Some f" "map branch_id (bf_branches f) = ids" "bf_merge_policy f = pol"
    "\<forall>b \<in> set (bf_branches f). br_result b = map_of es (fid, branch_id b)"
    using assms(1) by (auto simp: tracks_def)
  obtain f' where f': "bget (bj_frames t) fid = Some f'" "bf_merge_policy f' = bf_merge_policy f"
    and pairs: "map (\<lambda>b. (branch_id b, br_result b)) (bf_branches f') = map (\<lambda>b. (branch_id b, br_result b)) (bf_branches f)"
    using assms(2) [OF f(1)] by blast
  have "map branch_id (bf_branches f') = map branch_id (bf_branches f)"
    using arg_cong [OF pairs, of "map fst"] by (simp add: comp_def)
  moreover have "br_result b = map_of es (fid, branch_id b)" if "b \<in> set (bf_branches f')" for b
  proof -
    have "(branch_id b, br_result b) \<in> set (map (\<lambda>b. (branch_id b, br_result b)) (bf_branches f))"
      unfolding pairs [symmetric] using that by simp
    with f(4) show ?thesis
      by auto
  qed
  ultimately show ?thesis
    using f f' by (auto simp: tracks_def)
qed

lemma tracks_complete:
  assumes inv: "bj_inv s" and tr: "tracks fid ids pol es s" and op: "bj_complete fid' bid v s = (r, t)"
  shows "tracks fid ids pol (es @ (if r = Inr () then [((fid', bid), v)] else [])) t"
proof (cases "r = Inr ()")
  case True
  then obtain b where b: "branch_lookup s fid' bid = Inr b" "\<not> terminal b"
    and t: "t = write_branch fid' bid (\<lambda>b. b\<lparr>br_state := BCompleted, br_result := Some v\<rparr>) s"
    using op by (auto simp: bj_complete_def split: sum.splits if_splits)
  note w = write_branch_ok [OF inv b, of "\<lambda>b. b\<lparr>br_state := BCompleted, br_result := Some v\<rparr>", simplified]
  obtain f where f: "bget (bj_frames s) fid = Some f" "map branch_id (bf_branches f) = ids" "bf_merge_policy f = pol"
    "\<forall>b \<in> set (bf_branches f). br_result b = map_of es (fid, branch_id b)"
    using tr by (auto simp: tracks_def)
  have unset: "map_of es (fid, bid) = None" if "fid' = fid"
    using w(3) f that by fastforce
  have "tracks fid ids pol (es @ [((fid', bid), v)]) t"
    unfolding tracks_def t w(2) using f unset
    by (auto simp: comp_def map_add_def split: option.splits)
  with True show ?thesis
    by simp
next
  case False
  then have "t = s"
    using op by (auto simp: bj_complete_def split: sum.splits if_splits)
  with False tr show ?thesis
    by simp
qed

lemma tracks_step:
  assumes inv: "bj_inv s" and tr: "tracks fid ids pol es s" and step: "bj_step s es' t"
  shows "tracks fid ids pol (es @ es') t"
  using step
proof cases
  case (step_open fid' p j ids' pol' r)
  have "bcontains (bj_frames s) fid"
    using tr by (auto simp: tracks_def bcontains_def)
  then have "bget (bj_frames t) fid = bget (bj_frames s) fid"
    using bj_inv_open_parallel [OF inv step_open(2)] by blast
  with tr step_open show ?thesis
    by (simp add: tracks_def)
next
  case (step_for_each sha fid' p j items mx pol' r)
  have "bcontains (bj_frames s) fid"
    using tr by (auto simp: tracks_def bcontains_def)
  then have "bget (bj_frames t) fid = bget (bj_frames s) fid"
    using bj_inv_open_for_each [OF inv step_for_each(2)] by blast
  with tr step_for_each show ?thesis
    by (simp add: tracks_def)
next
  case (step_running fid' bid r)
  have "tracks fid ids pol es t"
    using tr
  proof (rule tracks_keep)
    fix f assume f: "bget (bj_frames s) fid = Some f"
    show "\<exists>f'. bget (bj_frames t) fid = Some f'
      \<and> map (\<lambda>b. (branch_id b, br_result b)) (bf_branches f') = map (\<lambda>b. (branch_id b, br_result b)) (bf_branches f)
      \<and> bf_merge_policy f' = bf_merge_policy f"
      using f step_running(2)
      by (auto simp: mark_running_def write_branch_def intro!: update_first_map split: sum.splits if_splits)
  qed
  with step_running show ?thesis
    by simp
next
  case (step_complete fid' bid v r)
  with tracks_complete [OF inv tr step_complete(2)] show ?thesis
    by simp
next
  case (step_cancel fid' r)
  have "tracks fid ids pol es t"
    using tr by (rule tracks_keep) (use step_cancel(2) in \<open>auto simp: cancel_frame_def split: if_splits\<close>)
  with step_cancel show ?thesis
    by simp
next
  case (step_integrate fid' r)
  have "tracks fid ids pol es t"
    using tr by (rule tracks_keep)
      (use step_integrate(2) in \<open>auto simp: integrate_def split: if_splits option.splits sum.splits\<close>)
  with step_integrate show ?thesis
    by simp
next
  case step_restore
  with bj_restore_checkpoint [OF inv] tr show ?thesis
    by simp
qed

lemma tracks_run:
  "bj_run s es t \<Longrightarrow> bj_inv s \<Longrightarrow> tracks fid ids pol [] s \<Longrightarrow> tracks fid ids pol es t"
  by (induction rule: bj_run.induct) (auto intro: tracks_step bj_run_inv)

lemma tracks_open:
  "open_parallel fid p j ids pol s = (Inr bs, t) \<Longrightarrow> tracks fid ids pol [] t"
  by (auto simp: open_parallel_def tracks_def fresh_branches_simps fresh_branches_state split: if_splits)

lemma integrated_kept:
  assumes "bj_inv s" and "bj_step s es t" and "\<exists>f. bget (bj_frames s) fid = Some f \<and> bf_integrated f"
  shows "\<exists>f. bget (bj_frames t) fid = Some f \<and> bf_integrated f"
  using assms(2,3)
proof cases
  case (step_open fid' p j ids' pol' r)
  with bj_inv_open_parallel [OF assms(1) step_open(2), of fid] assms(3) show ?thesis
    by (auto simp: bcontains_def)
next
  case (step_for_each sha fid' p j items mx pol' r)
  with bj_inv_open_for_each [OF assms(1) step_for_each(2), of fid] assms(3) show ?thesis
    by (auto simp: bcontains_def)
next
  case step_restore
  with bj_restore_checkpoint [OF assms(1)] assms(3) show ?thesis
    by simp
qed (use assms(3) in \<open>auto simp: mark_running_def bj_complete_def write_branch_def cancel_frame_def integrate_def
      split: sum.splits if_splits option.splits\<close>)

section \<open>Properties\<close>

definition demo_open :: branch_join_coordinator where
  "demo_open = snd (open_parallel ''frame'' ''token'' ''join'' [''a'', ''b''] ''ordered_array'' bj_new)"

definition demo_first :: branch_join_coordinator where
  "demo_first = snd (bj_complete ''frame'' ''b'' (JBool True) demo_open)"

definition demo_both :: branch_join_coordinator where
  "demo_both = snd (bj_complete ''frame'' ''a'' (JBool False) demo_first)"

lemma demo_ops:
  "open_parallel ''frame'' ''token'' ''join'' [''a'', ''b''] ''ordered_array'' bj_new
     = (Inr (fresh_branches [''a'', ''b'']), demo_open)"
  "bj_complete ''frame'' ''b'' (JBool True) demo_open = (Inr (), demo_first)"
  "bj_complete ''frame'' ''a'' (JBool False) demo_first = (Inr (), demo_both)"
  by code_simp+

lemma demo_run_both:
  "bj_run demo_open [((''frame'', ''b''), JBool True), ((''frame'', ''a''), JBool False)] demo_both"
  using run_step [OF run_step [OF run_start step_complete [OF demo_ops(2)]] step_complete [OF demo_ops(3)]] by simp

text \<open>
  A join is independent of the interleaving of its branches: after a frame is opened with the
  declared branches, and after any run of operations on any frames (restores included), the array
  it integrates holds, in the declared order, the result recorded for each branch, and null for a
  branch that recorded none.
\<close>

theorem join_in_declared_order:
  assumes "bj_run bj_new es0 s0" and "open_parallel fid p j ids ''ordered_array'' s0 = (Inr bs, s1)"
    and "bj_run s1 es s2" and "integrate fid s2 = (Inr v, s3)"
  shows "v = JArray (map (\<lambda>i. case map_of es (fid, i) of None \<Rightarrow> JNull | Some r \<Rightarrow> r) ids)"
proof -
  have "bj_inv s0"
    using bj_run_inv [OF assms(1)] bj_inv_new by blast
  then have inv1: "bj_inv s1"
    using bj_inv_open_parallel [OF _ assms(2)] by blast
  then have "tracks fid ids ''ordered_array'' es s2"
    using tracks_run [OF assms(3) _ tracks_open [OF assms(2)]] by blast
  then obtain f where f: "bget (bj_frames s2) fid = Some f" "map branch_id (bf_branches f) = ids"
    "bf_merge_policy f = ''ordered_array''" "\<forall>b \<in> set (bf_branches f). br_result b = map_of es (fid, branch_id b)"
    by (auto simp: tracks_def)
  then have "v = JArray (map (\<lambda>b. case br_result b of None \<Rightarrow> JNull | Some v \<Rightarrow> v) (bf_branches f))"
    using assms(4) by (auto simp: integrate_def merge_results_def split: if_splits)
  also have "map (\<lambda>b. case br_result b of None \<Rightarrow> JNull | Some v \<Rightarrow> v) (bf_branches f)
      = map (\<lambda>i. case map_of es (fid, i) of None \<Rightarrow> JNull | Some r \<Rightarrow> r) (map branch_id (bf_branches f))"
    using f(4) by simp
  finally show ?thesis
    by (simp add: f(2))
qed

theorem join_in_declared_order_witness:
  "fst (integrate ''frame'' demo_both) = Inr (JArray [JBool False, JBool True])"
proof -
  obtain v t where v: "integrate ''frame'' demo_both = (Inr v, t)"
  proof -
    have "is_ok (fst (integrate ''frame'' demo_both))"
      by code_simp
    then show ?thesis
      using that by (cases "integrate ''frame'' demo_both") (auto elim: is_okE)
  qed
  from join_in_declared_order [OF run_start demo_ops(1) demo_run_both v] v show ?thesis
    by simp
qed

text \<open>
  A join is integrated at most once: after a successful \<open>integrate\<close>, and whatever happens
  next, integrating the frame again is refused.
\<close>

theorem join_integrated_once:
  assumes "bj_run bj_new es0 s" and "integrate fid s = (Inr v, t)" and "bj_run t es u"
  shows "integrate fid u = (Inl AlreadyIntegrated, u)"
proof -
  have inv: "bj_inv t"
    using bj_inv_integrate [OF bj_run_inv [OF assms(1) bj_inv_new] assms(2)] .
  have "\<exists>f. bget (bj_frames t) fid = Some f \<and> bf_integrated f"
    using assms(2) by (auto simp: integrate_def split: option.splits if_splits sum.splits)
  with assms(3) have "\<exists>f. bget (bj_frames u) fid = Some f \<and> bf_integrated f"
  proof (induction rule: bj_run.induct)
    case (run_step es t' es' u)
    then show ?case
      using integrated_kept bj_run_inv [OF run_step.hyps(1) inv] by blast
  qed
  then show ?thesis
    by (auto simp: integrate_def)
qed

theorem join_integrated_once_witness:
  "\<exists>v t. integrate ''frame'' demo_both = (Inr v, t) \<and> integrate ''frame'' t = (Inl AlreadyIntegrated, t)"
proof -
  obtain v t where v: "integrate ''frame'' demo_both = (Inr v, t)"
  proof -
    have "is_ok (fst (integrate ''frame'' demo_both))"
      by code_simp
    then show ?thesis
      using that by (cases "integrate ''frame'' demo_both") (auto elim: is_okE)
  qed
  have "bj_run bj_new ([] @ []) demo_open"
    by (rule run_step [OF run_start step_open [OF demo_ops(1)]])
  then have "\<exists>es. bj_run bj_new es demo_both"
    using run_step [OF run_step [OF _ step_complete [OF demo_ops(2)]] step_complete [OF demo_ops(3)]] by blast
  with join_integrated_once [OF _ v run_start] v show ?thesis
    by blast
qed

text \<open>
  Stopping the coordinator at any points of a run and restoring it from its checkpoint adds no
  behaviour, and the checkpoint of whatever is reached restores to exactly that coordinator.
\<close>

theorem branch_crash_transparent:
  "(\<lambda>s t. (\<exists>es. bj_step s es t) \<or> bj_restore (bj_checkpoint s) = Inr t)\<^sup>*\<^sup>* bj_new s
     \<longrightarrow> (\<lambda>s t. \<exists>es. bj_step s es t)\<^sup>*\<^sup>* bj_new s \<and> bj_restore (bj_checkpoint s) = Inr s"
  using bj.crashes_transparent [OF _ bj_inv_new] bj.steps_inv [OF _ bj_inv_new] bj_restore_checkpoint by blast

theorem branch_crash_transparent_witness:
  "bj_restore (bj_checkpoint demo_open) = Inr demo_open"
proof -
  have "\<exists>es. bj_step bj_new es demo_open"
    using step_open [OF demo_ops(1)] by blast
  then have "(\<lambda>s t. (\<exists>es. bj_step s es t) \<or> bj_restore (bj_checkpoint s) = Inr t)\<^sup>*\<^sup>* bj_new demo_open"
    by blast
  with branch_crash_transparent [of demo_open] show ?thesis
    by blast
qed

end
