(* ===== verification/Policy.thy ===== *)
theory Policy
  imports Protocol
begin

text \<open>
  Attempt policy (\<open>crates/aworkit-workflow-worker/src/policy.rs\<close>): the decision after each attempt
  of an operation, the ledger that remembers decisions and invocations that must not be sent
  again, and its checkpoint.
\<close>

section \<open>Data\<close>

datatype effect_outcome = EffSuccess | EffDefiniteNotStarted | EffFailed | EffOutcomeUncertain

datatype attempt_decision_compat =
    Continue
  | Retry
  | Fallback string
  | WaitForApproval
  | TerminalFailure

record attempt_policy_compat =
  max_retries :: u32
  fallback :: "string option"
  requires_approval :: bool

datatype outcome_class =
    Succeeded
  | DefiniteNotStarted
  | ContractFailure
  | FailedKnownStarted
  | CancelledWithEvidence
  | OutcomeUncertain
  | Denied

record retry_proof =
  rp_invocation_id :: string
  descriptor_idempotent :: bool
  same_id_deduplicated :: bool
  effect_absence_proven :: bool

record attempt_policy =
  policy_id :: string
  max_attempts :: u32
  fallback_node_id :: "string option"
  feedback_transition_id :: "string option"
  evaluator_transition_id :: "string option"
  approval_gate_id :: "string option"

record attempt_input =
  ai_operation_id :: string
  ai_attempt_id :: string
  ai_attempt_ordinal :: u32
  ai_outcome :: outcome_class
  ai_retry_proof :: "retry_proof option"
  evaluator_passed :: "bool option"
  gate_passed :: "bool option"
  ai_cancelled :: bool

datatype attempt_decision =
    AComplete
  | RetryWithNewAttempt u32
  | ReconcileSameInvocation string
  | FollowExistingEdge string
  | SelectExistingFallback string
  | AwaitApproval string
  | RequireUserDecision
  | AFail string

record attempt_record =
  ar_operation_id :: string
  ar_attempt_id :: string
  ar_attempt_ordinal :: u32
  ar_outcome :: outcome_class
  ar_decision :: attempt_decision

datatype policy_error =
    AttemptIdentityConflict
  | AttemptOrdinalGap
  | MalformedOutcome
  | PolicyInvalidCheckpoint

record attempt_ledger =
  al_records :: "(string, attempt_record) bmap"
  last_ordinal :: "(string, u32) bmap"
  no_resend_invocations :: "string list"

section \<open>Decisions\<close>

definition compat_decide :: "attempt_policy_compat \<Rightarrow> u32 \<Rightarrow> effect_outcome \<Rightarrow> attempt_decision_compat" where
  "compat_decide policy attempt outcome =
     (let exit = (case fallback policy of None \<Rightarrow> TerminalFailure | Some f \<Rightarrow> Fallback f) in
      case outcome of
        EffSuccess \<Rightarrow> Continue
      | EffOutcomeUncertain \<Rightarrow> WaitForApproval
      | EffDefiniteNotStarted \<Rightarrow> if attempt < max_retries policy then Retry else exit
      | EffFailed \<Rightarrow> exit)"

definition non_repeating_exit :: "attempt_policy \<Rightarrow> string \<Rightarrow> attempt_decision" where
  "non_repeating_exit policy reason =
     (case feedback_transition_id policy of
        Some transition_id \<Rightarrow> FollowExistingEdge transition_id
      | None \<Rightarrow>
          (case fallback_node_id policy of
             Some node_id \<Rightarrow> SelectExistingFallback node_id
           | None \<Rightarrow> AFail reason))"

definition evaluate_outcome :: "attempt_policy \<Rightarrow> attempt_input \<Rightarrow> attempt_decision" where
  "evaluate_outcome policy input =
     (case ai_outcome input of
        Succeeded \<Rightarrow> AComplete
      | OutcomeUncertain \<Rightarrow> RequireUserDecision
      | Denied \<Rightarrow> non_repeating_exit policy ''denied''
      | DefiniteNotStarted \<Rightarrow>
          if ai_attempt_ordinal input < max_attempts policy
          then RetryWithNewAttempt (ai_attempt_ordinal input + 1)
          else non_repeating_exit policy ''attempts_exhausted''
      | ContractFailure \<Rightarrow>
          if ai_attempt_ordinal input < max_attempts policy
          then RetryWithNewAttempt (ai_attempt_ordinal input + 1)
          else non_repeating_exit policy ''attempts_exhausted''
      | _ \<Rightarrow>
          (case ai_retry_proof input of
             Some proof \<Rightarrow>
               if descriptor_idempotent proof \<and> same_id_deduplicated proof
               then ReconcileSameInvocation (rp_invocation_id proof)
               else non_repeating_exit policy ''known_started''
           | None \<Rightarrow> non_repeating_exit policy ''known_started''))"

text \<open>\<open>evaluate\<close>; the source wraps each of these results in \<open>Ok\<close>.\<close>

definition evaluate_attempt :: "attempt_policy \<Rightarrow> attempt_input \<Rightarrow> attempt_decision" where
  "evaluate_attempt policy input =
     (if ai_cancelled input then AFail ''cancelled''
      else if evaluator_passed input = Some False \<and> evaluator_transition_id policy \<noteq> None
      then FollowExistingEdge (the (evaluator_transition_id policy))
      else if gate_passed input = Some False \<and> approval_gate_id policy \<noteq> None
      then AwaitApproval (the (approval_gate_id policy))
      else evaluate_outcome policy input)"

definition is_reconcile :: "attempt_decision \<Rightarrow> bool" where
  "is_reconcile d = (case d of ReconcileSameInvocation _ \<Rightarrow> True | _ \<Rightarrow> False)"

definition decide ::
  "attempt_policy \<Rightarrow> attempt_input \<Rightarrow> attempt_ledger \<Rightarrow> (policy_error + attempt_decision) \<times> attempt_ledger"
where
  "decide policy input l =
     (case bget (al_records l) (ai_attempt_id input) of
        Some existing \<Rightarrow>
          if ar_operation_id existing = ai_operation_id input
             \<and> ar_attempt_ordinal existing = ai_attempt_ordinal input
             \<and> ar_outcome existing = ai_outcome input
          then (Inr (ar_decision existing), l)
          else (Inl AttemptIdentityConflict, l)
      | None \<Rightarrow>
          (let previous = (case bget (last_ordinal l) (ai_operation_id input) of None \<Rightarrow> 0 | Some n \<Rightarrow> n) in
           if ai_attempt_ordinal input \<noteq> saturating_add previous 1 then (Inl AttemptOrdinalGap, l)
           else
             (let decision = evaluate_attempt policy input;
                  started = ai_outcome input \<in> {FailedKnownStarted, CancelledWithEvidence, OutcomeUncertain} in
              (Inr decision,
               l\<lparr>no_resend_invocations :=
                   (case ai_retry_proof input of
                      Some proof \<Rightarrow>
                        if started \<and> \<not> is_reconcile decision
                        then sinsert (rp_invocation_id proof) (no_resend_invocations l)
                        else no_resend_invocations l
                    | None \<Rightarrow> no_resend_invocations l),
                 last_ordinal := binsert (ai_operation_id input) (ai_attempt_ordinal input) (last_ordinal l),
                 al_records := binsert (ai_attempt_id input)
                   \<lparr>ar_operation_id = ai_operation_id input, ar_attempt_id = ai_attempt_id input,
                    ar_attempt_ordinal = ai_attempt_ordinal input, ar_outcome = ai_outcome input,
                    ar_decision = decision\<rparr> (al_records l)\<rparr>))))"

definition may_send_invocation :: "attempt_ledger \<Rightarrow> string \<Rightarrow> bool" where
  "may_send_invocation l invocation_id \<longleftrightarrow> invocation_id \<notin> set (no_resend_invocations l)"

section \<open>Checkpoint and restore\<close>

definition al_new :: attempt_ledger where
  "al_new = \<lparr>al_records = [], last_ordinal = [], no_resend_invocations = []\<rparr>"

definition al_checkpoint :: "attempt_ledger \<Rightarrow> attempt_record list \<times> string list" where
  "al_checkpoint l = (bvalues (al_records l), no_resend_invocations l)"

definition decision_matches_outcome :: "attempt_record \<Rightarrow> bool" where
  "decision_matches_outcome r =
     (case ar_decision r of
        AComplete \<Rightarrow> ar_outcome r = Succeeded
      | RequireUserDecision \<Rightarrow> ar_outcome r = OutcomeUncertain
      | RetryWithNewAttempt next_ordinal \<Rightarrow>
          ar_outcome r \<in> {DefiniteNotStarted, ContractFailure}
          \<and> next_ordinal = saturating_add (ar_attempt_ordinal r) 1
      | ReconcileSameInvocation _ \<Rightarrow> ar_outcome r \<in> {FailedKnownStarted, CancelledWithEvidence}
      | _ \<Rightarrow> True)"

definition record_ok :: "attempt_record \<Rightarrow> bool" where
  "record_ok r \<longleftrightarrow>
     \<not> trim_is_empty (ar_operation_id r) \<and> \<not> trim_is_empty (ar_attempt_id r)
     \<and> length (ar_operation_id r) \<le> 512 \<and> length (ar_attempt_id r) \<le> 512
     \<and> ar_attempt_ordinal r \<noteq> 0 \<and> decision_matches_outcome r"

definition add_ordinal :: "attempt_record \<Rightarrow> (string, u32 list) bmap \<Rightarrow> (string, u32 list) bmap" where
  "add_ordinal r om =
     binsert (ar_operation_id r)
       (sinsert (ar_attempt_ordinal r) (case bget om (ar_operation_id r) of None \<Rightarrow> [] | Some s \<Rightarrow> s)) om"

fun restore_records ::
  "attempt_record list \<Rightarrow> (string, attempt_record) bmap \<Rightarrow> (string, u32 list) bmap
   \<Rightarrow> policy_error + (string, attempt_record) bmap \<times> (string, u32 list) bmap"
where
  "restore_records [] m om = Inr (m, om)"
| "restore_records (r # rs) m om =
     (if \<not> record_ok r \<or> bcontains m (ar_attempt_id r) then Inl PolicyInvalidCheckpoint
      else restore_records rs (binsert (ar_attempt_id r) r m) (add_ordinal r om))"

definition check_ordinals :: "string \<times> u32 list \<Rightarrow> policy_error + string \<times> u32" where
  "check_ordinals e =
     (let maximum = (if snd e = [] then 0 else last (snd e)) in
      if length (snd e) \<noteq> unat maximum \<or> map unat (snd e) \<noteq> [1..<unat maximum + 1]
      then Inl PolicyInvalidCheckpoint
      else Inr (fst e, maximum))"

fun restore_no_resend :: "string list \<Rightarrow> string list \<Rightarrow> policy_error + string list" where
  "restore_no_resend [] s = Inr s"
| "restore_no_resend (i # is) s =
     (if trim_is_empty i \<or> length i > 512 \<or> i \<in> set s then Inl PolicyInvalidCheckpoint
      else restore_no_resend is (sinsert i s))"

definition reconciles_fenced :: "string list \<Rightarrow> attempt_record \<Rightarrow> bool" where
  "reconciles_fenced no_resend r =
     (case ar_decision r of ReconcileSameInvocation i \<Rightarrow> i \<in> set no_resend | _ \<Rightarrow> False)"

definition al_restore :: "attempt_record list \<times> string list \<Rightarrow> policy_error + attempt_ledger" where
  "al_restore c =
     bind_r (restore_records (fst c) [] []) (\<lambda>(records, ordinals).
     bind_r (try_map check_ordinals ordinals) (\<lambda>entries.
     bind_r (restore_no_resend (snd c) []) (\<lambda>no_resend.
     if \<exists>r \<in> set (bvalues records). reconciles_fenced no_resend r then Inl PolicyInvalidCheckpoint
     else Inr \<lparr>al_records = records, last_ordinal = bmap_of_list entries,
               no_resend_invocations = no_resend\<rparr>)))"

section \<open>Invariant\<close>

definition ordinals_of :: "attempt_ledger \<Rightarrow> string \<Rightarrow> nat set" where
  "ordinals_of l op = {unat (ar_attempt_ordinal r) | r k. bget (al_records l) k = Some r \<and> ar_operation_id r = op}"

definition al_last :: "attempt_ledger \<Rightarrow> string \<Rightarrow> nat" where
  "al_last l op = (case bget (last_ordinal l) op of None \<Rightarrow> 0 | Some n \<Rightarrow> unat n)"

text \<open>The attempts of an operation carry exactly the ordinals from one to the last.\<close>

definition al_inv :: "attempt_ledger \<Rightarrow> bool" where
  "al_inv l \<longleftrightarrow> bwf (al_records l) \<and> bwf (last_ordinal l) \<and> swf (no_resend_invocations l)
     \<and> bforall (\<lambda>k r. ar_attempt_id r = k \<and> decision_matches_outcome r \<and> ar_attempt_ordinal r \<noteq> 0) (al_records l)
     \<and> bforall (\<lambda>_ n. n \<noteq> 0) (last_ordinal l)
     \<and> (\<forall>op. ordinals_of l op = {1..al_last l op})"

lemma al_inv_new: "al_inv al_new"
  by (simp add: al_inv_def al_new_def ordinals_of_def al_last_def)

lemma decide_cases:
  assumes "decide policy input l = (r, t)"
  obtains (error) e where "r = Inl e" "t = l"
  | (repeated) rec where "bget (al_records l) (ai_attempt_id input) = Some rec" "r = Inr (ar_decision rec)" "t = l"
      "ar_operation_id rec = ai_operation_id input" "ar_attempt_ordinal rec = ai_attempt_ordinal input"
      "ar_outcome rec = ai_outcome input"
  | (fresh) rec where "bget (al_records l) (ai_attempt_id input) = None"
      "r = Inr (evaluate_attempt policy input)"
      "ai_attempt_ordinal input = saturating_add (case bget (last_ordinal l) (ai_operation_id input) of None \<Rightarrow> 0 | Some n \<Rightarrow> n) 1"
      "rec = \<lparr>ar_operation_id = ai_operation_id input, ar_attempt_id = ai_attempt_id input,
         ar_attempt_ordinal = ai_attempt_ordinal input, ar_outcome = ai_outcome input,
         ar_decision = evaluate_attempt policy input\<rparr>"
      "al_records t = binsert (ai_attempt_id input) rec (al_records l)"
      "last_ordinal t = binsert (ai_operation_id input) (ai_attempt_ordinal input) (last_ordinal l)"
      "no_resend_invocations t = (case ai_retry_proof input of
         Some proof \<Rightarrow> if ai_outcome input \<in> {FailedKnownStarted, CancelledWithEvidence, OutcomeUncertain}
             \<and> \<not> is_reconcile (evaluate_attempt policy input)
           then sinsert (rp_invocation_id proof) (no_resend_invocations l) else no_resend_invocations l
       | None \<Rightarrow> no_resend_invocations l)"
proof (cases "bget (al_records l) (ai_attempt_id input)")
  case (Some rec)
  with assms show ?thesis
    using error repeated by (auto simp: decide_def split: if_splits)
next
  case None
  show ?thesis
  proof (cases "ai_attempt_ordinal input = saturating_add (case bget (last_ordinal l) (ai_operation_id input) of None \<Rightarrow> 0 | Some n \<Rightarrow> n) 1")
    case True
    show ?thesis
      by (rule fresh [OF None _ True refl]) (use assms None True in \<open>auto simp: decide_def Let_def split: option.splits\<close>)
  next
    case False
    with assms None error show ?thesis
      by (auto simp: decide_def Let_def)
  qed
qed

lemma evaluate_matches:
  "decision_matches_outcome \<lparr>ar_operation_id = op, ar_attempt_id = at, ar_attempt_ordinal = ai_attempt_ordinal input,
     ar_outcome = ai_outcome input, ar_decision = evaluate_attempt policy input\<rparr>"
proof -
  define r where "r d = \<lparr>ar_operation_id = op, ar_attempt_id = at, ar_attempt_ordinal = ai_attempt_ordinal input,
     ar_outcome = ai_outcome input, ar_decision = d\<rparr>" for d
  have exit: "decision_matches_outcome (r (non_repeating_exit policy reason))" for reason
    by (simp add: r_def non_repeating_exit_def decision_matches_outcome_def split: option.splits)
  have next_ord: "a + 1 = saturating_add a 1" if "a < b" for a b :: u32
    using word_add_1_le [OF that] by (simp add: saturating_add_code Let_def word_le_nat_alt)
  have out: "decision_matches_outcome (r (evaluate_outcome policy input))"
  proof (cases "ai_outcome input")
    case DefiniteNotStarted
    then show ?thesis
      using exit by (simp add: evaluate_outcome_def) (simp add: r_def decision_matches_outcome_def next_ord)
  next
    case ContractFailure
    then show ?thesis
      using exit by (simp add: evaluate_outcome_def) (simp add: r_def decision_matches_outcome_def next_ord)
  next
    case FailedKnownStarted
    then show ?thesis
      using exit by (simp add: evaluate_outcome_def split: option.splits) (simp add: r_def decision_matches_outcome_def)
  next
    case CancelledWithEvidence
    then show ?thesis
      using exit by (simp add: evaluate_outcome_def split: option.splits) (simp add: r_def decision_matches_outcome_def)
  next
    case Denied
    then show ?thesis
      using exit by (simp add: evaluate_outcome_def)
  qed (simp_all add: evaluate_outcome_def r_def decision_matches_outcome_def)
  have "decision_matches_outcome (r (evaluate_attempt policy input))"
    using out by (simp add: evaluate_attempt_def) (simp add: r_def decision_matches_outcome_def)
  then show ?thesis
    by (simp add: r_def)
qed

lemma saturating_add_nonzero: "saturating_add a (1 :: u32) \<noteq> 0"
proof -
  have "unat (saturating_add a 1) \<noteq> 0"
    using saturating_succ [of a]
    by (auto simp: unsigned_minus_1_eq_mask mask_eq_exp_minus_1 split: if_splits)
  then show ?thesis
    by auto
qed

lemma al_inv_decide:
  assumes inv: "al_inv l" and op: "decide policy input l = (r, t)"
  shows "al_inv t"
  using op
proof (cases rule: decide_cases)
  case (fresh rec)
  define prev where "prev = (case bget (last_ordinal l) (ai_operation_id input) of None \<Rightarrow> 0 | Some n \<Rightarrow> n)"
  have ord: "ai_attempt_ordinal input = saturating_add prev 1"
    using fresh(3) by (simp add: prev_def)
  have last: "al_last l (ai_operation_id input) = unat prev"
    by (simp add: al_last_def prev_def split: option.splits)
  have ords: "ordinals_of t op = (if op = ai_operation_id input
      then insert (unat (ai_attempt_ordinal input)) (ordinals_of l op) else ordinals_of l op)" for op
  proof -
    have "bget (al_records t) k = Some r \<longleftrightarrow> k = ai_attempt_id input \<and> r = rec \<or> bget (al_records l) k = Some r" for k r
      using fresh(1) by (auto simp: fresh(5))
    moreover have "ar_operation_id rec = ai_operation_id input" "ar_attempt_ordinal rec = ai_attempt_ordinal input"
      by (simp_all add: fresh(4))
    ultimately show ?thesis
      unfolding ordinals_of_def by auto (auto intro!: exI [of _ rec])
  qed
  have lasts: "al_last t op = (if op = ai_operation_id input then unat (ai_attempt_ordinal input) else al_last l op)" for op
    by (simp add: al_last_def fresh(6))
  have range: "ordinals_of l op = {1..al_last l op}" for op
    using inv by (simp add: al_inv_def)
  have "ordinals_of t op = {1..al_last t op}" for op
    unfolding ords lasts range last ord
    by (auto simp: last saturating_succ unsigned_minus_1_eq_mask mask_eq_exp_minus_1 split: if_splits)
  moreover have "swf (no_resend_invocations t)"
    using inv by (auto simp: fresh(7) al_inv_def split: option.splits)
  ultimately show ?thesis
    using inv evaluate_matches [of _ _ input policy] ord saturating_add_nonzero [of prev]
    unfolding al_inv_def fresh(5,6) by (auto simp: fresh(4) bforall_binsert intro: bwf_binsert elim!: bforall_mono)
qed (use inv in simp_all)

section \<open>Restoring a checkpoint\<close>

definition al_restorable :: "attempt_ledger \<Rightarrow> bool" where
  "al_restorable l \<longleftrightarrow>
     (\<forall>r \<in> set (bvalues (al_records l)). record_ok r \<and> \<not> reconciles_fenced (no_resend_invocations l) r)
     \<and> (\<forall>i \<in> set (no_resend_invocations l). \<not> trim_is_empty i \<and> length i \<le> 512)"

lemma restore_records_eq:
  "restore_records rs m om =
     (if (\<forall>r \<in> set rs. record_ok r \<and> \<not> bcontains m (ar_attempt_id r)) \<and> distinct (map ar_attempt_id rs)
      then Inr (fold (\<lambda>r. binsert (ar_attempt_id r) r) rs m, fold add_ordinal rs om)
      else Inl PolicyInvalidCheckpoint)"
proof (induction rs arbitrary: m om)
  case (Cons r rs)
  have "ar_attempt_id r \<in> ar_attempt_id ` set rs \<longleftrightarrow> (\<exists>x \<in> set rs. ar_attempt_id x = ar_attempt_id r)"
    by (auto simp: image_iff) metis
  then show ?case
    by (auto simp: Cons.IH)
qed simp

lemma restore_no_resend_eq:
  "restore_no_resend is s =
     (if (\<forall>i \<in> set is. \<not> trim_is_empty i \<and> length i \<le> 512 \<and> i \<notin> set s) \<and> distinct is
      then Inr (fold sinsert is s) else Inl PolicyInvalidCheckpoint)"
  by (induction "is" arbitrary: s) auto

lemma bget_fold_add_ordinal:
  "bget (fold add_ordinal rs om) op =
     (let os = map ar_attempt_ordinal (filter (\<lambda>r. ar_operation_id r = op) rs) in
      if os = [] then bget om op
      else Some (fold sinsert os (case bget om op of None \<Rightarrow> [] | Some s \<Rightarrow> s)))"
  by (induction rs arbitrary: om) (auto simp: add_ordinal_def Let_def)

lemma bwf_fold_add_ordinal: "bwf om \<Longrightarrow> bwf (fold add_ordinal rs om)"
  by (induction rs arbitrary: om) (auto simp: add_ordinal_def)

lemma swf_range:
  assumes "swf s" and "unat ` set s = {1..n}"
  shows "map unat (s :: u32 list) = [1..<n + 1]"
proof (rule strict_sorted_equal)
  show "sorted_wrt (<) (map unat s)"
    using assms(1) unfolding swf_def sorted_wrt_map by (rule sorted_wrt_mono_rel [rotated]) (simp add: word_less_nat_alt)
  show "set (map unat s) = set [1..<n + 1]"
    using assms(2) by (auto simp: atLeastLessThanSuc_atLeastAtMost)
qed (rule sorted_wrt_upt)

lemma check_ordinals_range:
  assumes "map unat s = [1..<n + 1]" and "s \<noteq> []"
  shows "check_ordinals (op, s) = Inr (op, last s)" and "unat (last s) = n"
proof -
  have "unat (last s) = last [1..<n + 1]"
    using assms by (metis last_map)
  moreover have "n \<noteq> 0"
    using assms by (cases n) auto
  ultimately show n: "unat (last s) = n"
    by simp
  have "length s = n"
    using arg_cong [OF assms(1), of length] by simp
  with assms n show "check_ordinals (op, s) = Inr (op, last s)"
    by (simp add: check_ordinals_def Let_def)
qed

lemma ordinal_entries:
  assumes inv: "al_inv l" and get: "bget (fold add_ordinal (bvalues (al_records l)) []) op = Some s"
  shows "s \<noteq> []" and "map unat s = [1..<al_last l op + 1]"
proof -
  define os where "os = map ar_attempt_ordinal (filter (\<lambda>r. ar_operation_id r = op) (bvalues (al_records l)))"
  have s: "s = bset_of_list os" and "os \<noteq> []"
    using get by (auto simp: bget_fold_add_ordinal Let_def os_def bset_of_list_def split: if_splits)
  then show "s \<noteq> []"
    by (metis set_bset_of_list set_empty)
  have wf: "bwf (al_records l)"
    using inv by (simp add: al_inv_def)
  have "unat ` set s = ordinals_of l op"
    unfolding s ordinals_of_def os_def using in_values_iff [OF wf] by (auto simp: image_iff)
  then show "map unat s = [1..<al_last l op + 1]"
    using inv by (intro swf_range) (simp_all add: s al_inv_def)
qed

lemma restore_last_ordinal:
  assumes inv: "al_inv l"
  shows "\<exists>entries. try_map check_ordinals (fold add_ordinal (bvalues (al_records l)) []) = Inr entries
    \<and> bmap_of_list entries = last_ordinal l"
proof -
  define om where "om = fold add_ordinal (bvalues (al_records l)) []"
  have wf: "bwf om" "bwf (al_records l)" "bwf (last_ordinal l)"
    using inv by (simp_all add: om_def bwf_fold_add_ordinal al_inv_def)
  have entry: "check_ordinals e = Inr (fst e, last (snd e)) \<and> unat (last (snd e)) = al_last l (fst e)" if "e \<in> set om" for e
  proof -
    have "bget om (fst e) = Some (snd e)"
      using that wf(1) by (simp add: bget_mem)
    note s = ordinal_entries [OF inv this [unfolded om_def]]
    from check_ordinals_range(1) [OF s(2,1), of "fst e"] check_ordinals_range(2) [OF s(2,1)] show ?thesis
      by simp
  qed
  define entries where "entries = bmap_values last om"
  have "try_map check_ordinals om = Inr entries"
    unfolding entries_def bmap_values_def by (rule try_map_pure) (use entry in blast)
  moreover have "bmap_of_list entries = last_ordinal l"
  proof -
    have ewf: "bwf entries"
      using wf(1) by (simp add: entries_def)
    have "bget entries op = bget (last_ordinal l) op" for op
    proof (cases "bget om op")
      case None
      have "map ar_attempt_ordinal (filter (\<lambda>r. ar_operation_id r = op) (bvalues (al_records l))) = []"
        using None by (auto simp: om_def bget_fold_add_ordinal Let_def split: if_splits)
      then have "ordinals_of l op = {}"
        unfolding ordinals_of_def using bget_in_values by (fastforce simp: filter_empty_conv)
      then have "al_last l op = 0"
        using inv by (simp add: al_inv_def)
      then have "bget (last_ordinal l) op = None"
        using inv bforallD [of "\<lambda>_ n. n \<noteq> 0" "last_ordinal l" op]
        by (cases "bget (last_ordinal l) op") (auto simp: al_last_def al_inv_def word_unat_eq_iff)
      with None show ?thesis
        by (simp add: entries_def)
    next
      case (Some s)
      then have "unat (last s) = al_last l op" and "s \<noteq> []"
        using entry [of "(op, s)"] ordinal_entries(1) [OF inv Some [unfolded om_def]] by (simp_all add: bget_mem wf(1))
      moreover have "al_last l op \<noteq> 0"
        using ordinal_entries [OF inv Some [unfolded om_def]] by (cases "al_last l op") auto
      ultimately have "bget (last_ordinal l) op = Some (last s)"
        by (cases "bget (last_ordinal l) op") (auto simp: al_last_def word_unat_eq_iff)
      with Some show ?thesis
        by (simp add: entries_def)
    qed
    with ewf wf(3) show ?thesis
      by (simp add: bmap_of_list_id bwf_ext)
  qed
  ultimately show ?thesis
    unfolding om_def by blast
qed

lemma al_restore_checkpoint:
  assumes inv: "al_inv l"
  shows "al_restore (al_checkpoint l) = (if al_restorable l then Inr l else Inl PolicyInvalidCheckpoint)"
proof -
  have wf: "bwf (al_records l)" and keyed: "bforall (\<lambda>k r. ar_attempt_id r = k) (al_records l)"
    and swf: "swf (no_resend_invocations l)"
    using inv by (auto simp: al_inv_def elim: bforall_mono)
  have dist: "distinct (map ar_attempt_id (bvalues (al_records l)))" "distinct (no_resend_invocations l)"
    using bwf_distinct [OF wf] swf_distinct [OF swf] unfolding map_key_values [OF wf keyed] by simp_all
  have load: "fold (\<lambda>r. binsert (ar_attempt_id r) r) (bvalues (al_records l)) [] = al_records l"
    "fold sinsert (no_resend_invocations l) [] = no_resend_invocations l"
    using load_self_keyed [OF wf keyed] bset_of_list_id [OF swf] by (simp_all add: bset_of_list_def)
  obtain entries where "try_map check_ordinals (fold add_ordinal (bvalues (al_records l)) []) = Inr entries"
    "bmap_of_list entries = last_ordinal l"
    using restore_last_ordinal [OF inv] by blast
  then show ?thesis
    unfolding al_restore_def al_checkpoint_def restore_records_eq restore_no_resend_eq fst_conv snd_conv load
    using dist by (auto simp: al_restorable_def simp del: set_map)
qed

section \<open>Runs\<close>

inductive al_step :: "attempt_ledger \<Rightarrow> attempt_ledger \<Rightarrow> bool" where
  step_decide: "decide policy input l = (r, t) \<Longrightarrow> al_step l t"
| step_restore: "al_restore (al_checkpoint l) = Inr t \<Longrightarrow> al_step l t"

lemma al_step_inv: "al_inv l \<Longrightarrow> al_step l t \<Longrightarrow> al_inv t"
  by (erule al_step.cases) (auto simp: al_restore_checkpoint al_inv_decide split: if_splits)

interpretation al: inv_system al_step al_inv
  by unfold_locales (rule al_step_inv)

lemma al_step_mono:
  assumes "al_inv l" and "al_step l t"
  shows "(\<forall>k r. bget (al_records l) k = Some r \<longrightarrow> bget (al_records t) k = Some r)
    \<and> set (no_resend_invocations l) \<subseteq> set (no_resend_invocations t)"
  using assms(2)
proof cases
  case (step_decide policy input r)
  then show ?thesis
    by (cases rule: decide_cases) (auto split: option.splits)
next
  case step_restore
  then show ?thesis
    using al_restore_checkpoint [OF assms(1)] by (auto split: if_splits)
qed

lemma al_steps_mono:
  assumes "al_step\<^sup>*\<^sup>* l t" and "al_inv l"
  shows "(\<forall>k r. bget (al_records l) k = Some r \<longrightarrow> bget (al_records t) k = Some r)
    \<and> set (no_resend_invocations l) \<subseteq> set (no_resend_invocations t)"
  using al.steps_preorder [where R = "\<lambda>l t. (\<forall>k r. bget (al_records l) k = Some r \<longrightarrow> bget (al_records t) k = Some r)
    \<and> set (no_resend_invocations l) \<subseteq> set (no_resend_invocations t)", OF _ _ _ assms] al_step_mono by blast

text \<open>One policy frozen for the whole run, as a plan has it.\<close>

definition policy_step :: "attempt_policy \<Rightarrow> attempt_ledger \<Rightarrow> attempt_ledger \<Rightarrow> bool" where
  "policy_step policy l t \<longleftrightarrow> (\<exists>input r. decide policy input l = (r, t)) \<or> al_restore (al_checkpoint l) = Inr t"

text \<open>What a repeated send needs, and that retries carry distinct ordinals below the limit.\<close>

definition retries :: "attempt_ledger \<Rightarrow> string \<Rightarrow> string set" where
  "retries l op = {k. \<exists>r n. bget (al_records l) k = Some r \<and> ar_operation_id r = op
     \<and> ar_decision r = RetryWithNewAttempt n}"

definition bounded_retries :: "attempt_policy \<Rightarrow> attempt_ledger \<Rightarrow> bool" where
  "bounded_retries policy l \<longleftrightarrow>
     (\<forall>k r n. bget (al_records l) k = Some r \<longrightarrow> ar_decision r = RetryWithNewAttempt n \<longrightarrow>
        ar_attempt_ordinal r < max_attempts policy)
     \<and> (\<forall>k k' r r'. bget (al_records l) k = Some r \<longrightarrow> bget (al_records l) k' = Some r' \<longrightarrow>
          ar_operation_id r = ar_operation_id r' \<longrightarrow> ar_attempt_ordinal r = ar_attempt_ordinal r' \<longrightarrow>
          ar_attempt_ordinal r \<noteq> - 1 \<longrightarrow> k = k')"

lemma evaluate_retry_bound:
  "evaluate_attempt policy input = RetryWithNewAttempt n \<Longrightarrow> ai_attempt_ordinal input < max_attempts policy"
  by (auto simp: evaluate_attempt_def evaluate_outcome_def non_repeating_exit_def
      split: if_splits outcome_class.splits option.splits)

lemma bounded_retries_decide:
  assumes inv: "al_inv l" and b: "bounded_retries policy l" and op: "decide policy input l = (r, t)"
  shows "bounded_retries policy t"
  using op
proof (cases rule: decide_cases)
  case (fresh rec)
  define prev where "prev = (case bget (last_ordinal l) (ai_operation_id input) of None \<Rightarrow> 0 | Some n \<Rightarrow> n)"
  have ord: "ai_attempt_ordinal input = saturating_add prev 1"
    using fresh(3) by (simp add: prev_def)
  have new: "ar_attempt_ordinal r = - 1"
    if "bget (al_records l) k = Some r" "ar_operation_id r = ai_operation_id input"
      "ar_attempt_ordinal r = ai_attempt_ordinal input" for k r
  proof -
    have "unat (ar_attempt_ordinal r) \<in> ordinals_of l (ai_operation_id input)"
      using that unfolding ordinals_of_def by blast
    then have "unat (ar_attempt_ordinal r) \<le> unat prev"
      using inv by (auto simp: al_inv_def al_last_def prev_def split: option.splits)
    then have "prev = - 1"
      using that(3) by (simp add: ord saturating_succ split: if_splits)
    then show ?thesis
      using that(3) saturating_succ [of prev] by (simp add: ord word_unat_eq_iff)
  qed
  have get: "bget (al_records t) k = Some x \<longleftrightarrow> k = ai_attempt_id input \<and> x = rec \<or> bget (al_records l) k = Some x" for k x
    using fresh(1) by (auto simp: fresh(5))
  have rec: "ar_operation_id rec = ai_operation_id input" "ar_attempt_ordinal rec = ai_attempt_ordinal input"
    "ar_decision rec = evaluate_attempt policy input"
    by (simp_all add: fresh(4))
  show ?thesis
    unfolding bounded_retries_def
  proof (intro conjI allI impI)
    fix k x n assume "bget (al_records t) k = Some x" "ar_decision x = RetryWithNewAttempt n"
    then show "ar_attempt_ordinal x < max_attempts policy"
      using b rec evaluate_retry_bound unfolding get bounded_retries_def by metis
  next
    fix k k' x x' assume "bget (al_records t) k = Some x" "bget (al_records t) k' = Some x'"
      "ar_operation_id x = ar_operation_id x'" "ar_attempt_ordinal x = ar_attempt_ordinal x'" "ar_attempt_ordinal x \<noteq> - 1"
    then show "k = k'"
      using b rec new unfolding get bounded_retries_def by metis
  qed
qed (use b in simp_all)

lemma policy_run:
  assumes "(policy_step policy)\<^sup>*\<^sup>* al_new l"
  shows "al_inv l \<and> bounded_retries policy l"
  using assms
proof (induction rule: rtranclp_induct)
  case base
  show ?case
    using al_inv_new by (simp add: bounded_retries_def) (simp add: al_new_def)
next
  case (step l t)
  then show ?case
    unfolding policy_step_def
    using al_inv_decide bounded_retries_decide al_restore_checkpoint [of l] by (auto split: if_splits)
qed

section \<open>Properties\<close>

definition demo_policy :: attempt_policy where
  "demo_policy = \<lparr>policy_id = ''p'', max_attempts = 2, fallback_node_id = None, feedback_transition_id = None,
     evaluator_transition_id = None, approval_gate_id = None\<rparr>"

definition demo_input :: "outcome_class \<Rightarrow> attempt_input" where
  "demo_input out = \<lparr>ai_operation_id = ''op'', ai_attempt_id = ''a1'', ai_attempt_ordinal = 1, ai_outcome = out,
     ai_retry_proof = Some \<lparr>rp_invocation_id = ''inv'', descriptor_idempotent = False,
       same_id_deduplicated = True, effect_absence_proven = False\<rparr>,
     evaluator_passed = None, gate_passed = None, ai_cancelled = False\<rparr>"

text \<open>
  C37. An effect that may have started is never blindly repeated: a new attempt is granted only
  after an outcome that proves nothing started or a contract failure, and below the attempt limit;
  the same invocation is sent again only for a known-started effect whose descriptor is idempotent
  and deduplicated by id. Everything else leads to an existing edge, a gate, the user or failure.
\<close>

theorem repeat_needs_proof:
  assumes "decide policy input l = (Inr d, t)" and "bget (al_records l) (ai_attempt_id input) = None"
  shows "(\<forall>n. d = RetryWithNewAttempt n \<longrightarrow>
      ai_outcome input \<in> {DefiniteNotStarted, ContractFailure} \<and> ai_attempt_ordinal input < max_attempts policy
      \<and> unat n = unat (ai_attempt_ordinal input) + 1)
    \<and> (\<forall>i. d = ReconcileSameInvocation i \<longrightarrow>
      ai_outcome input \<in> {FailedKnownStarted, CancelledWithEvidence}
      \<and> (\<exists>proof. ai_retry_proof input = Some proof \<and> rp_invocation_id proof = i
           \<and> descriptor_idempotent proof \<and> same_id_deduplicated proof))"
proof -
  have d: "d = evaluate_attempt policy input"
    using assms(1)
  proof (cases rule: decide_cases)
    case (repeated rec)
    with assms(2) show ?thesis by simp
  qed simp_all
  show ?thesis
    unfolding d
    by (auto simp: evaluate_attempt_def evaluate_outcome_def non_repeating_exit_def word_add_1_le
        split: if_splits outcome_class.splits option.splits)
qed

theorem repeat_needs_proof_witness:
  "fst (decide demo_policy (demo_input DefiniteNotStarted) al_new) = Inr (RetryWithNewAttempt 2)
   \<and> ai_attempt_ordinal (demo_input DefiniteNotStarted) < max_attempts demo_policy"
proof -
  obtain t where t: "decide demo_policy (demo_input DefiniteNotStarted) al_new = (Inr (RetryWithNewAttempt 2), t)"
  proof -
    have "fst (decide demo_policy (demo_input DefiniteNotStarted) al_new) = Inr (RetryWithNewAttempt 2)"
      by code_simp
    then show ?thesis
      using that by (metis prod.collapse)
  qed
  have "bget (al_records al_new) (ai_attempt_id (demo_input DefiniteNotStarted)) = None"
    by (simp add: al_new_def)
  from repeat_needs_proof [OF t this] t show ?thesis
    by simp
qed

text \<open>
  Retries of an operation are bounded: under one frozen policy, and across any restores, the
  ledger grants fewer new attempts to an operation than its attempt limit.
\<close>

theorem retries_bounded:
  assumes "(policy_step policy)\<^sup>*\<^sup>* al_new l"
  shows "finite (retries l op) \<and> card (retries l op) \<le> unat (max_attempts policy) - 1"
proof -
  have inv: "al_inv l" and b: "bounded_retries policy l"
    using policy_run [OF assms] by simp_all
  define ord where "ord k = unat (ar_attempt_ordinal (the (bget (al_records l) k)))" for k
  have lim: "\<exists>r. bget (al_records l) k = Some r \<and> ar_operation_id r = op \<and> ar_attempt_ordinal r < max_attempts policy
      \<and> ar_attempt_ordinal r \<noteq> 0" if "k \<in> retries l op" for k
    using that b inv by (auto simp: retries_def bounded_retries_def al_inv_def dest: bforallD)
  have "inj_on ord (retries l op)"
  proof (rule inj_onI)
    fix k k' assume k: "k \<in> retries l op" "k' \<in> retries l op" "ord k = ord k'"
    obtain r r' where r: "bget (al_records l) k = Some r" "bget (al_records l) k' = Some r'"
      "ar_operation_id r = op" "ar_operation_id r' = op" "ar_attempt_ordinal r < max_attempts policy"
      using lim k by metis
    moreover have "ar_attempt_ordinal r = ar_attempt_ordinal r'"
      using k(3) r by (simp add: ord_def word_unat_eq_iff)
    moreover have "ar_attempt_ordinal r \<noteq> - 1"
      using r(5) by (metis leD word_order.extremum)
    ultimately show "k = k'"
      using b unfolding bounded_retries_def by metis
  qed
  moreover have "ord ` retries l op \<subseteq> {1..<unat (max_attempts policy)}"
  proof
    fix x assume "x \<in> ord ` retries l op"
    then obtain k r where "x = ord k" "bget (al_records l) k = Some r" "ar_attempt_ordinal r < max_attempts policy"
      "ar_attempt_ordinal r \<noteq> 0"
      using lim by blast
    then show "x \<in> {1..<unat (max_attempts policy)}"
      by (simp add: ord_def word_less_nat_alt word_unat_eq_iff Suc_le_eq)
  qed
  ultimately have "card (retries l op) \<le> card {1..<unat (max_attempts policy)}" and "finite (retries l op)"
    using card_inj_on_le [of ord "retries l op"] inj_on_finite [of ord "retries l op"] by blast+
  then show ?thesis
    by simp
qed

theorem retries_bounded_witness:
  "card (retries (snd (decide demo_policy (demo_input DefiniteNotStarted) al_new)) ''op'') \<le> 1"
proof -
  have "(policy_step demo_policy)\<^sup>*\<^sup>* al_new (snd (decide demo_policy (demo_input DefiniteNotStarted) al_new))"
    by (rule r_into_rtranclp) (metis policy_step_def prod.collapse)
  from retries_bounded [OF this, of "''op''"] show ?thesis
    by (simp add: demo_policy_def)
qed

text \<open>
  An invocation whose outcome was uncertain, or that started and was not reconciled, is fenced
  for ever: \<open>may_send_invocation\<close> stays false through every later decision and restore.
\<close>

theorem uncertain_never_resent:
  assumes "al_step\<^sup>*\<^sup>* al_new l" and "decide policy input l = (Inr d, t)"
    and "bget (al_records l) (ai_attempt_id input) = None"
    and "ai_outcome input \<in> {FailedKnownStarted, CancelledWithEvidence, OutcomeUncertain}"
    and "ai_retry_proof input = Some proof" and "\<not> is_reconcile d" and "al_step\<^sup>*\<^sup>* t u"
  shows "\<not> may_send_invocation u (rp_invocation_id proof)"
proof -
  have inv: "al_inv t"
    using al_inv_decide [OF al.steps_inv [OF assms(1) al_inv_new] assms(2)] .
  have "rp_invocation_id proof \<in> set (no_resend_invocations t)"
    using assms(2)
  proof (cases rule: decide_cases)
    case (repeated rec)
    with assms(3) show ?thesis by simp
  next
    case (fresh rec)
    with assms(4-6) show ?thesis by auto
  qed simp
  with al_steps_mono [OF assms(7) inv] show ?thesis
    by (auto simp: may_send_invocation_def)
qed

theorem uncertain_never_resent_witness:
  "\<not> may_send_invocation (snd (decide demo_policy (demo_input OutcomeUncertain) al_new)) ''inv''"
proof -
  have d: "decide demo_policy (demo_input OutcomeUncertain) al_new =
      (Inr RequireUserDecision, snd (decide demo_policy (demo_input OutcomeUncertain) al_new))"
    by code_simp
  show ?thesis
    using uncertain_never_resent [OF rtranclp.rtrancl_refl d, where u = "snd (decide demo_policy (demo_input OutcomeUncertain) al_new)"]
    by (simp add: demo_input_def al_new_def is_reconcile_def)
qed

text \<open>
  Checkpoint and restore of the attempt ledger: a reachable ledger is restored exactly as it
  was if its identifiers are non-blank and at most 512 bytes long and no recorded reconciliation
  names a fenced invocation, and is rejected otherwise. \<open>decide\<close> enforces none of these.
\<close>

theorem attempt_checkpoint_roundtrip:
  assumes "al_step\<^sup>*\<^sup>* al_new l"
  shows "al_restore (al_checkpoint l) = (if al_restorable l then Inr l else Inl PolicyInvalidCheckpoint)"
  by (rule al_restore_checkpoint [OF al.steps_inv [OF assms al_inv_new]])

theorem attempt_checkpoint_roundtrip_witness:
  "al_restore (al_checkpoint (snd (decide demo_policy (demo_input OutcomeUncertain) al_new)))
     = Inr (snd (decide demo_policy (demo_input OutcomeUncertain) al_new))"
proof -
  have "al_step\<^sup>*\<^sup>* al_new (snd (decide demo_policy (demo_input OutcomeUncertain) al_new))"
    by (rule r_into_rtranclp) (rule step_decide [OF prod.collapse [symmetric]])
  moreover have "al_restorable (snd (decide demo_policy (demo_input OutcomeUncertain) al_new))"
    by code_simp
  ultimately show ?thesis
    using attempt_checkpoint_roundtrip by simp
qed

end
