(* ===== verification/Cycles.thy ===== *)
theory Cycles
  imports Btree
begin

text \<open>
  The depth-first cycle check that plan compilation runs twice, once per snapshot format
  (\<open>validate_v1_cycles\<close> and \<open>validate_legacy_cycles\<close> in \<open>plan.rs\<close>). Both nested functions
  \<open>visit\<close> are the same traversal over edges with an identifier, a target and a flag that says
  whether the edge may close a cycle; the flag is never set in the current format.

  The set \<open>visiting\<close> is inserted into before the loop over the edges and removed from after it,
  so a call leaves it as it was; it is passed down here and the set \<open>visited\<close> is threaded.
\<close>

section \<open>The traversal\<close>

record cycle_edge =
  cy_id :: string
  cy_to :: string
  cy_bounded :: bool

type_synonym adjacency = "(string, cycle_edge list) bmap"

definition edges_of :: "adjacency \<Rightarrow> string \<Rightarrow> cycle_edge list" where
  "edges_of adj n = (case bget adj n of None \<Rightarrow> [] | Some es \<Rightarrow> es)"

definition adj_targets :: "adjacency \<Rightarrow> string set" where
  "adj_targets adj = (\<Union>es \<in> set (bvalues adj). cy_to ` set es)"

lemma finite_adj_targets [simp]: "finite (adj_targets adj)"
  by (simp add: adj_targets_def)

lemma edges_of_targets: "cy_to ` set (edges_of adj n) \<subseteq> adj_targets adj"
proof (cases "bget adj n")
  case (Some es)
  then have "es \<in> set (bvalues adj)"
    by (rule bget_in_values)
  with Some show ?thesis
    by (auto simp: edges_of_def adj_targets_def)
qed (simp add: edges_of_def)

text \<open>
  Every call that descends an edge enters a node outside \<open>visiting\<close> and adds it there, so the
  number of nodes left outside decreases.
\<close>

definition visit_rank :: "adjacency \<Rightarrow> string \<Rightarrow> string list \<Rightarrow> nat \<times> nat" where
  "visit_rank adj n visiting =
     (card (insert n (adj_targets adj) - set visiting),
      if n \<in> set visiting then length (edges_of adj n) + 2 else 0)"

definition visit_edges_rank :: "adjacency \<Rightarrow> cycle_edge list \<Rightarrow> string list \<Rightarrow> nat \<times> nat" where
  "visit_edges_rank adj es visiting =
     (card ((adj_targets adj \<union> cy_to ` set es) - set visiting), length es + 1)"

lemma visit_edges_rank_less:
  "(visit_edges_rank adj (edges_of adj n) (sinsert n visiting), visit_rank adj n visiting)
     \<in> less_than <*lex*> less_than"
proof -
  let ?T = "adj_targets adj"
  have T: "?T \<union> cy_to ` set (edges_of adj n) = ?T"
    using edges_of_targets by blast
  show ?thesis
  proof (cases "n \<in> set visiting")
    case True
    then have "set (sinsert n visiting) = set visiting" and "insert n ?T - set visiting = ?T - set visiting"
      by auto
    with True show ?thesis
      by (simp only: visit_edges_rank_def visit_rank_def T in_lex_prod less_than_iff if_True) simp
  next
    case False
    then have "card (?T - insert n (set visiting)) < card (insert n ?T - set visiting)"
      by (intro psubset_card_mono) auto
    with False show ?thesis
      by (simp add: visit_edges_rank_def visit_rank_def T)
  qed
qed

lemma visit_rank_less:
  assumes "cy_to e \<notin> set visiting"
  shows "(visit_rank adj (cy_to e) visiting, visit_edges_rank adj (e # es) visiting) \<in> less_than <*lex*> less_than"
proof -
  have "card (insert (cy_to e) (adj_targets adj) - set visiting)
      \<le> card ((adj_targets adj \<union> cy_to ` set (e # es)) - set visiting)"
    by (rule card_mono) auto
  with assms show ?thesis
    by (auto simp: visit_rank_def visit_edges_rank_def)
qed

lemma visit_edges_rank_tail:
  "(visit_edges_rank adj es visiting, visit_edges_rank adj (e # es) visiting) \<in> less_than <*lex*> less_than"
proof -
  have "card ((adj_targets adj \<union> cy_to ` set es) - set visiting)
      \<le> card ((adj_targets adj \<union> cy_to ` set (e # es)) - set visiting)"
    by (rule card_mono) auto
  then show ?thesis
    by (auto simp: visit_edges_rank_def)
qed

function visit :: "adjacency \<Rightarrow> string \<Rightarrow> string list \<Rightarrow> string list \<Rightarrow> string + string list"
  and visit_edges :: "adjacency \<Rightarrow> cycle_edge list \<Rightarrow> string list \<Rightarrow> string list \<Rightarrow> string + string list"
where
  "visit adj n visiting visited =
     (if n \<in> set visited then Inr visited
      else bind_r (visit_edges adj (edges_of adj n) (sinsert n visiting) visited)
             (\<lambda>visited'. Inr (sinsert n visited')))"
| "visit_edges adj [] visiting visited = Inr visited"
| "visit_edges adj (e # es) visiting visited =
     (if cy_to e \<in> set visiting
      then if cy_bounded e then visit_edges adj es visiting visited else Inl (cy_id e)
      else bind_r (visit adj (cy_to e) visiting visited)
             (\<lambda>visited'. visit_edges adj es visiting visited'))"
  by pat_completeness auto

termination
proof (relation "inv_image (less_than <*lex*> less_than)
    (\<lambda>c. case c of Inl (adj, n, visiting, _) \<Rightarrow> visit_rank adj n visiting
      | Inr (adj, es, visiting, _) \<Rightarrow> visit_edges_rank adj es visiting)", goal_cases)
  case 1
  show ?case by (intro wf_inv_image wf_lex_prod wf_less_than)
qed (simp_all add: visit_edges_rank_less visit_rank_less visit_edges_rank_tail)

declare visit.simps [simp del]

text \<open>The loop over \<open>nodes.keys()\<close>.\<close>

fun check_cycles :: "adjacency \<Rightarrow> string list \<Rightarrow> string list \<Rightarrow> string + string list" where
  "check_cycles adj [] visited = Inr visited"
| "check_cycles adj (n # ns) visited =
     bind_r (visit adj n [] visited) (\<lambda>visited'. check_cycles adj ns visited')"

section \<open>What it decides\<close>

text \<open>\<open>must_edges\<close> are the edges that may not close a cycle, \<open>all_edges\<close> all of them.\<close>

definition all_edges :: "adjacency \<Rightarrow> (string \<times> string) set" where
  "all_edges adj = {(n, cy_to e) |n e. e \<in> set (edges_of adj n)}"

definition must_edges :: "adjacency \<Rightarrow> (string \<times> string) set" where
  "must_edges adj = {(n, cy_to e) |n e. e \<in> set (edges_of adj n) \<and> \<not> cy_bounded e}"

text \<open>The finished nodes: closed under edges that may not close a cycle, and without a cycle.\<close>

definition finished :: "adjacency \<Rightarrow> string set \<Rightarrow> bool" where
  "finished adj V \<longleftrightarrow> must_edges adj `` V \<subseteq> V \<and> acyclic (must_edges adj \<inter> V \<times> V)"

lemma finished_empty [simp]: "finished adj {}"
  by (simp add: finished_def acyclic_def)

lemma acyclic_add_source:
  assumes ac: "acyclic (r \<inter> V \<times> V)" and closed: "r `` V \<subseteq> V" and "n \<notin> V" and "r `` {n} \<subseteq> V"
  shows "acyclic (r \<inter> insert n V \<times> insert n V)"
proof -
  let ?r = "r \<inter> insert n V \<times> insert n V"
  have into: "(a, b) \<in> ?r\<^sup>+ \<Longrightarrow> b \<in> V" for a b
    using assms by (auto elim: trancl.cases)
  have stay: "(a, b) \<in> ?r\<^sup>+ \<Longrightarrow> a \<in> V \<Longrightarrow> (a, b) \<in> (r \<inter> V \<times> V)\<^sup>+" for a b
  proof (induction rule: trancl_induct)
    case (base b)
    with closed show ?case by blast
  next
    case (step b c)
    then have "b \<in> V"
      using into by blast
    with step closed have "(b, c) \<in> r \<inter> V \<times> V"
      by blast
    with step show ?case
      by (blast intro: trancl_into_trancl)
  qed
  show ?thesis
    unfolding acyclic_def
  proof (intro allI notI)
    fix a
    assume loop: "(a, a) \<in> ?r\<^sup>+"
    then have "a \<in> V"
      by (rule into)
    with loop stay ac show False
      by (auto simp: acyclic_def)
  qed
qed

lemma finished_insert:
  assumes "finished adj V" and "n \<notin> V" and "must_edges adj `` {n} \<subseteq> V"
  shows "finished adj (insert n V)"
  using assms acyclic_add_source [of "must_edges adj" V n] by (auto simp: finished_def)

lemma must_edges_of: "must_edges adj `` {n} = cy_to ` {e \<in> set (edges_of adj n). \<not> cy_bounded e}"
  by (auto simp: must_edges_def)

text \<open>What a successful visit leaves behind.\<close>

definition extends :: "adjacency \<Rightarrow> string list \<Rightarrow> string list \<Rightarrow> string list \<Rightarrow> bool" where
  "extends adj visiting V V' \<longleftrightarrow>
     set V \<subseteq> set V' \<and> set V' \<inter> set visiting \<subseteq> set V \<and> (finished adj (set V) \<longrightarrow> finished adj (set V'))"

lemma extends_refl [simp]: "extends adj visiting V V"
  by (simp add: extends_def)

lemma extends_trans: "extends adj visiting V V' \<Longrightarrow> extends adj visiting V' V'' \<Longrightarrow> extends adj visiting V V''"
  by (auto simp: extends_def)

lemma visit_ok:
  "visit adj n visiting V = Inr V' \<Longrightarrow> n \<notin> set visiting \<Longrightarrow> n \<in> set V' \<and> extends adj visiting V V'"
  "visit_edges adj es visiting V = Inr V' \<Longrightarrow>
     cy_to ` {e \<in> set es. \<not> cy_bounded e} \<subseteq> set V' \<and> extends adj visiting V V'"
proof (induction adj n visiting V and adj es visiting V arbitrary: V' and V' rule: visit_visit_edges.induct)
  case (1 adj n visiting V)
  show ?case
  proof (cases "n \<in> set V")
    case True
    with "1.prems" show ?thesis
      by (simp add: visit.simps)
  next
    case False
    with "1.prems" obtain U where U: "visit_edges adj (edges_of adj n) (sinsert n visiting) V = Inr U"
      and V': "V' = sinsert n U"
      by (auto simp: visit.simps bind_r_Inr)
    from "1.IH" [OF False U] have edges: "must_edges adj `` {n} \<subseteq> set U"
      and ext: "extends adj (sinsert n visiting) V U"
      by (simp_all add: must_edges_of)
    from ext False have "n \<notin> set U"
      by (auto simp: extends_def)
    with edges have "finished adj (set U) \<Longrightarrow> finished adj (insert n (set U))"
      by (blast intro: finished_insert)
    with ext V' \<open>n \<notin> set visiting\<close> show ?thesis
      by (auto simp: extends_def)
  qed
next
  case (3 adj e es visiting V)
  show ?case
  proof (cases "cy_to e \<in> set visiting")
    case True
    with "3.prems" have "cy_bounded e" and "visit_edges adj es visiting V = Inr V'"
      by (auto split: if_splits)
    with "3.IH"(1) [OF True] show ?thesis
      by auto
  next
    case False
    with "3.prems" obtain U where U: "visit adj (cy_to e) visiting V = Inr U"
      and V': "visit_edges adj es visiting U = Inr V'"
      by (auto simp: bind_r_Inr)
    from "3.IH"(2) [OF False U False] "3.IH"(3) [OF False V'] show ?thesis
      by (auto simp: extends_def intro: extends_trans)
  qed
qed auto

lemma check_cycles_ok:
  assumes "check_cycles adj ns V = Inr V'" and "finished adj (set V)"
  shows "set V \<union> set ns \<subseteq> set V' \<and> finished adj (set V')"
  using assms
proof (induction ns arbitrary: V)
  case (Cons n ns)
  then obtain U where U: "visit adj n [] V = Inr U" and V': "check_cycles adj ns U = Inr V'"
    by (auto simp: bind_r_Inr)
  from visit_ok(1) [OF U] have "n \<in> set U" and "set V \<subseteq> set U" and "finished adj (set U)"
    using Cons.prems(2) by (auto simp: extends_def)
  with Cons.IH [OF V'] show ?case
    by auto
qed simp

lemma check_cycles_sound:
  assumes "check_cycles adj ns [] = Inr V" and "must_edges adj \<subseteq> set ns \<times> set ns"
  shows "acyclic (must_edges adj)"
proof -
  from check_cycles_ok [OF assms(1)] have sub: "set ns \<subseteq> set V" and "finished adj (set V)"
    by auto
  moreover have "must_edges adj \<inter> set V \<times> set V = must_edges adj"
    using sub assms(2) by blast
  ultimately show ?thesis
    by (simp add: finished_def)
qed

text \<open>A reported edge lies on a cycle.\<close>

definition closes_cycle :: "adjacency \<Rightarrow> string \<Rightarrow> bool" where
  "closes_cycle adj i \<longleftrightarrow>
     (\<exists>n e. e \<in> set (edges_of adj n) \<and> cy_id e = i \<and> \<not> cy_bounded e \<and> (cy_to e, n) \<in> (all_edges adj)\<^sup>*)"

lemma visit_err:
  "visit adj n visiting V = Inl i \<Longrightarrow> (\<And>m. m \<in> set visiting \<Longrightarrow> (m, n) \<in> (all_edges adj)\<^sup>*) \<Longrightarrow>
     closes_cycle adj i"
  "visit_edges adj es visiting V = Inl i \<Longrightarrow>
     (\<And>m. m \<in> set visiting \<Longrightarrow> (m, k) \<in> (all_edges adj)\<^sup>*) \<Longrightarrow> set es \<subseteq> set (edges_of adj k) \<Longrightarrow>
     closes_cycle adj i"
proof (induction adj n visiting V and adj es visiting V arbitrary: i and i k rule: visit_visit_edges.induct)
  case (1 adj n visiting V)
  then have out: "n \<notin> set V" and "visit_edges adj (edges_of adj n) (sinsert n visiting) V = Inl i"
    by (auto simp: visit.simps bind_r_Inl split: if_splits)
  with "1.IH" [OF out, of i n] "1.prems"(2) show ?case
    by auto
next
  case (3 adj e es visiting V)
  from "3.prems"(3) have e: "e \<in> set (edges_of adj k)"
    by simp
  then have edge: "(k, cy_to e) \<in> all_edges adj"
    by (auto simp: all_edges_def)
  show ?case
  proof (cases "cy_to e \<in> set visiting")
    case True
    show ?thesis
    proof (cases "cy_bounded e")
      case True
      with \<open>cy_to e \<in> set visiting\<close> "3.IH"(1) [of i k] "3.prems" show ?thesis
        by simp
    next
      case False
      with True "3.prems"(1) have "cy_id e = i"
        by simp
      with False e "3.prems"(2) [OF True] show ?thesis
        by (auto simp: closes_cycle_def)
    qed
  next
    case False
    with "3.prems"(1) consider "visit adj (cy_to e) visiting V = Inl i"
      | U where "visit adj (cy_to e) visiting V = Inr U" "visit_edges adj es visiting U = Inl i"
      by (auto simp: bind_r_Inl)
    then show ?thesis
    proof cases
      case 1
      show ?thesis
      proof (rule "3.IH"(2) [OF False 1])
        fix m
        assume "m \<in> set visiting"
        from "3.prems"(2) [OF this] edge show "(m, cy_to e) \<in> (all_edges adj)\<^sup>*"
          by (rule rtrancl_into_rtrancl)
      qed
    next
      case 2
      show ?thesis
        by (rule "3.IH"(3) [OF False 2(2), of k]) (use "3.prems" in auto)
    qed
  qed
qed auto

lemma check_cycles_err: "check_cycles adj ns V = Inl i \<Longrightarrow> closes_cycle adj i"
  by (induction ns arbitrary: V) (auto simp: bind_r_Inl dest: visit_err(1))

lemma closes_cycle_must:
  assumes "closes_cycle adj i" and "must_edges adj = all_edges adj"
  shows "\<not> acyclic (must_edges adj)"
proof -
  from assms(1) obtain n e where e: "e \<in> set (edges_of adj n)"
    and walk: "(cy_to e, n) \<in> (all_edges adj)\<^sup>*"
    by (auto simp: closes_cycle_def)
  from e have "(n, cy_to e) \<in> all_edges adj"
    by (auto simp: all_edges_def)
  from rtrancl_into_trancl2 [OF this walk] assms(2) show ?thesis
    by (auto simp: acyclic_def)
qed

text \<open>Without bounded edges the check decides acyclicity.\<close>

lemma check_cycles_iff:
  assumes "must_edges adj \<subseteq> set ns \<times> set ns" and "must_edges adj = all_edges adj"
  shows "is_ok (check_cycles adj ns []) \<longleftrightarrow> acyclic (must_edges adj)"
proof (cases "check_cycles adj ns []")
  case (Inl i)
  with closes_cycle_must [OF check_cycles_err assms(2)] show ?thesis
    by auto
next
  case (Inr V)
  with check_cycles_sound assms(1) show ?thesis
    by auto
qed

end
