(* ===== verification/Routing.thy ===== *)
theory Routing
  imports Runtime_Contract "HOL-Library.Product_Lexorder"
begin

text \<open>
  Route selection (\<open>crates/aworkit-workflow-worker/src/routing.rs\<close>): the frozen predicate
  language evaluated with bounds on depth and on the number of terms, and the choice of the first
  matching rule in ascending order of priority and route id.
\<close>

section \<open>Data\<close>

datatype route_trace_outcome = Matched | NotMatched

record route_trace_entry =
  rte_route_id :: stable_id
  rte_priority :: int
  rte_outcome :: route_trace_outcome

record routing_decision =
  rd_route_id :: stable_id
  rd_transition_id :: stable_id
  rd_trace :: "route_trace_entry list"

datatype routing_error =
    NoMatch string
  | InvalidPredicate string
  | PredicateTooComplex

section \<open>Predicates\<close>

fun resolve_segments :: "json \<Rightarrow> string list \<Rightarrow> json option" where
  "resolve_segments v [] = Some v"
| "resolve_segments v (seg # segs) =
     (if seg = [] then None
      else case parse_usize seg of
        Some i \<Rightarrow> (case as_array v of
            None \<Rightarrow> None
          | Some xs \<Rightarrow> if i < length xs then resolve_segments (xs ! i) segs else None)
      | None \<Rightarrow> (case as_object v of
            None \<Rightarrow> None
          | Some m \<Rightarrow> (case bget m seg of None \<Rightarrow> None | Some w \<Rightarrow> resolve_segments w segs)))"

definition resolve_path :: "json \<Rightarrow> string \<Rightarrow> json option" where
  "resolve_path facts path =
     (if path = [] \<or> length path > 512 then None
      else resolve_segments facts (split_on (CHR ''.'') path))"

text \<open>The operand of \<open>eq\<close> and \<open>neq\<close>.\<close>

definition eval_comparison :: "string \<Rightarrow> json \<Rightarrow> json \<Rightarrow> routing_error + bool" where
  "eval_comparison operator operand facts =
     (case as_object operand of
        None \<Rightarrow> Inl (InvalidPredicate (operator @ '' requires an object''))
      | Some c \<Rightarrow>
          if length c \<noteq> 2 \<or> \<not> bcontains c ''path'' \<or> \<not> bcontains c ''value''
          then Inl (InvalidPredicate (operator @ '' requires only path and value''))
          else case Option.bind (bget c ''path'') as_str of
            None \<Rightarrow> Inl (InvalidPredicate (operator @ ''.path must be text''))
          | Some path \<Rightarrow>
              (let equal = (resolve_path facts path = bget c ''value'') in
               Inr (if operator = ''eq'' then equal else \<not> equal)))"

text \<open>
  \<open>evaluate\<close> threads the number of terms met so far, as the source does through \<open>&mut terms\<close>;
  \<open>eval_children\<close> is the loop of \<open>and\<close> (which stops at the first \<open>False\<close>) and of \<open>or\<close> (which
  stops at the first \<open>True\<close>).
\<close>

definition single_operator :: "json \<Rightarrow> routing_error + string \<times> json" where
  "single_operator predicate =
     (case as_object predicate of
        None \<Rightarrow> Inl (InvalidPredicate ''predicate must be an object'')
      | Some object \<Rightarrow>
          if length object \<noteq> 1
          then Inl (InvalidPredicate ''predicate must contain exactly one operator'')
          else Inr (hd object))"

lemma single_operator_Inr: "single_operator p = Inr (operator, operand) \<longleftrightarrow> p = JObject [(operator, operand)]"
  by (cases p) (auto simp: single_operator_def length_Suc_conv)

lemma single_operator_size [termination_simp]:
  "single_operator p = Inr (operator, operand) \<Longrightarrow> size operand < size p"
  by (auto simp: single_operator_Inr)

lemma as_array_size [termination_simp]: "as_array v = Some xs \<Longrightarrow> size_list size xs < size v"
  by (cases v) auto

function evaluate :: "json \<Rightarrow> json \<Rightarrow> nat \<Rightarrow> nat \<Rightarrow> (routing_error + bool) \<times> nat"
  and eval_children :: "bool \<Rightarrow> json list \<Rightarrow> json \<Rightarrow> nat \<Rightarrow> nat \<Rightarrow> (routing_error + bool) \<times> nat"
where
  "evaluate predicate facts depth terms =
     (if depth > 32 \<or> terms \<ge> 256 then (Inl PredicateTooComplex, terms)
      else case single_operator predicate of
        Inl e \<Rightarrow> (Inl e, terms + 1)
      | Inr (operator, operand) \<Rightarrow>
          if operator = ''always'' then
            ((case as_bool operand of
                None \<Rightarrow> Inl (InvalidPredicate ''always requires a boolean'')
              | Some b \<Rightarrow> Inr b), terms + 1)
          else if operator = ''exists'' then
            ((case as_str operand of
                None \<Rightarrow> Inl (InvalidPredicate ''exists requires a path'')
              | Some path \<Rightarrow> Inr (resolve_path facts path \<noteq> None)), terms + 1)
          else if operator = ''eq'' \<or> operator = ''neq'' then
            (eval_comparison operator operand facts, terms + 1)
          else if operator = ''and'' \<or> operator = ''or'' then
            (case as_array operand of
               None \<Rightarrow> (Inl (InvalidPredicate (operator @ '' requires an array'')), terms + 1)
             | Some children \<Rightarrow>
                 if children = [] \<or> length children > 256
                 then (Inl (InvalidPredicate (operator @ '' requires a non-empty bounded array'')), terms + 1)
                 else eval_children (operator = ''and'') children facts (depth + 1) (terms + 1))
          else if operator = ''not'' then
            (case evaluate operand facts (depth + 1) (terms + 1) of
               (Inl e, n) \<Rightarrow> (Inl e, n)
             | (Inr b, n) \<Rightarrow> (Inr (\<not> b), n))
          else (Inl (InvalidPredicate (''unknown operator '' @ operator)), terms + 1))"
| "eval_children unit_b [] facts depth terms = (Inr unit_b, terms)"
| "eval_children unit_b (child # children) facts depth terms =
     (case evaluate child facts depth terms of
        (Inl e, n) \<Rightarrow> (Inl e, n)
      | (Inr b, n) \<Rightarrow>
          if b = unit_b then eval_children unit_b children facts depth n else (Inr b, n))"
  by pat_completeness simp_all
termination
proof (relation "measure (\<lambda>x. case x of Inl (p, _) \<Rightarrow> 2 * size p
    | Inr (_, cs, _) \<Rightarrow> 2 * size_list size cs + 1)", goal_cases)
  case (2 predicate facts depth terms b operator operand children)
  have "size operand < size predicate"
    by (rule single_operator_size [of _ operator]) (simp only: 2(2,3))
  moreover have "size_list size children < size operand"
    by (rule as_array_size) (rule 2(8))
  ultimately show ?case
    by simp
next
  case (3 predicate facts depth terms b operator operand)
  have "size operand < size predicate"
    by (rule single_operator_size [of _ operator]) (simp only: 3(2,3))
  then show ?case
    by simp
qed simp_all

definition evaluate_predicate :: "json \<Rightarrow> json \<Rightarrow> routing_error + bool" where
  "evaluate_predicate predicate facts = fst (evaluate predicate facts 0 0)"

section \<open>Selection\<close>

fun first_route ::
  "stable_id \<Rightarrow> json \<Rightarrow> worker_route_rule list \<Rightarrow> route_trace_entry list \<Rightarrow> routing_error + routing_decision"
where
  "first_route node_id facts [] trace = Inl (NoMatch node_id)"
| "first_route node_id facts (rule # rules) trace =
     bind_r (evaluate_predicate (wr_predicate rule) facts) (\<lambda>matched.
     let trace' = trace @ [\<lparr>rte_route_id = wr_route_id rule, rte_priority = wr_priority rule,
                            rte_outcome = (if matched then Matched else NotMatched)\<rparr>] in
     if matched
     then Inr \<lparr>rd_route_id = wr_route_id rule, rd_transition_id = wr_destination_transition rule,
               rd_trace = trace'\<rparr>
     else first_route node_id facts rules trace')"

definition route_key :: "worker_route_rule \<Rightarrow> int \<times> string" where
  "route_key rule = (wr_priority rule, wr_route_id rule)"

definition choose_route ::
  "stable_id \<Rightarrow> worker_route_rule list \<Rightarrow> json \<Rightarrow> routing_error + routing_decision"
where
  "choose_route node_id rules facts = first_route node_id facts (sort_key route_key rules) []"

section \<open>A reference semantics\<close>

text \<open>Predicates as syntax trees, their JSON form, and what they mean without any bound.\<close>

datatype predicate =
    PAlways bool
  | PExists string
  | PEq string json
  | PNeq string json
  | PAnd "predicate list"
  | POr "predicate list"
  | PNot predicate

fun pred_json :: "predicate \<Rightarrow> json" where
  "pred_json (PAlways b) = JObject [(''always'', JBool b)]"
| "pred_json (PExists path) = JObject [(''exists'', JString path)]"
| "pred_json (PEq path v) = JObject [(''eq'', JObject [(''path'', JString path), (''value'', v)])]"
| "pred_json (PNeq path v) = JObject [(''neq'', JObject [(''path'', JString path), (''value'', v)])]"
| "pred_json (PAnd ps) = JObject [(''and'', JArray (map pred_json ps))]"
| "pred_json (POr ps) = JObject [(''or'', JArray (map pred_json ps))]"
| "pred_json (PNot p) = JObject [(''not'', pred_json p)]"

fun holds :: "json \<Rightarrow> predicate \<Rightarrow> bool" where
  "holds facts (PAlways b) = b"
| "holds facts (PExists path) = (resolve_path facts path \<noteq> None)"
| "holds facts (PEq path v) = (resolve_path facts path = Some v)"
| "holds facts (PNeq path v) = (resolve_path facts path \<noteq> Some v)"
| "holds facts (PAnd ps) = list_all (holds facts) ps"
| "holds facts (POr ps) = list_ex (holds facts) ps"
| "holds facts (PNot p) = (\<not> holds facts p)"

fun pred_terms :: "predicate \<Rightarrow> nat" where
  "pred_terms (PAnd ps) = Suc (sum_list (map pred_terms ps))"
| "pred_terms (POr ps) = Suc (sum_list (map pred_terms ps))"
| "pred_terms (PNot p) = Suc (pred_terms p)"
| "pred_terms _ = 1"

fun pred_depth :: "predicate \<Rightarrow> nat" where
  "pred_depth (PAnd ps) = Suc (Max (set (map pred_depth ps)))"
| "pred_depth (POr ps) = Suc (Max (set (map pred_depth ps)))"
| "pred_depth (PNot p) = Suc (pred_depth p)"
| "pred_depth _ = 0"

fun pred_nonempty :: "predicate \<Rightarrow> bool" where
  "pred_nonempty (PAnd ps) = (ps \<noteq> [] \<and> list_all pred_nonempty ps)"
| "pred_nonempty (POr ps) = (ps \<noteq> [] \<and> list_all pred_nonempty ps)"
| "pred_nonempty (PNot p) = pred_nonempty p"
| "pred_nonempty _ = True"

declare evaluate.simps [simp del]

lemma pred_terms_pos: "0 < pred_terms p"
  by (cases p) auto

lemma length_le_pred_terms: "length ps \<le> sum_list (map pred_terms ps)"
proof (induction ps)
  case (Cons p ps)
  then show ?case
    using pred_terms_pos [of p] by simp
qed simp

text \<open>One evaluation within its bounds, and the loop over the children.\<close>

definition evaluates :: "json \<Rightarrow> predicate \<Rightarrow> bool" where
  "evaluates facts p \<longleftrightarrow> (\<forall>depth terms. depth + pred_depth p \<le> 32 \<longrightarrow> terms + pred_terms p \<le> 256 \<longrightarrow>
     (\<exists>n. evaluate (pred_json p) facts depth terms = (Inr (holds facts p), n) \<and> n \<le> terms + pred_terms p))"

lemma eval_children_correct:
  assumes "\<And>p. p \<in> set ps \<Longrightarrow> evaluates facts p" and "\<And>p. p \<in> set ps \<Longrightarrow> depth + pred_depth p \<le> 32"
    and "terms + sum_list (map pred_terms ps) \<le> 256"
  shows "\<exists>n. eval_children b (map pred_json ps) facts depth terms =
    (Inr (if b then list_all (holds facts) ps else list_ex (holds facts) ps), n)
    \<and> n \<le> terms + sum_list (map pred_terms ps)"
  using assms
proof (induction ps arbitrary: terms)
  case (Cons p ps)
  obtain n where n: "evaluate (pred_json p) facts depth terms = (Inr (holds facts p), n)" "n \<le> terms + pred_terms p"
    using Cons.prems(1) [of p, unfolded evaluates_def, rule_format, of depth terms] Cons.prems(2) [of p] Cons.prems(3) by auto
  obtain n' where n': "eval_children b (map pred_json ps) facts depth n =
      (Inr (if b then list_all (holds facts) ps else list_ex (holds facts) ps), n')"
      "n' \<le> n + sum_list (map pred_terms ps)"
    using Cons.IH [of n] Cons.prems n(2) by auto
  show ?case
    using n n' by (cases b; cases "holds facts p") auto
qed (cases b; simp)

lemma evaluates_connective:
  assumes "\<And>p. p \<in> set ps \<Longrightarrow> evaluates facts p" and "ps \<noteq> []"
  shows "evaluates facts (PAnd ps)" and "evaluates facts (POr ps)"
proof -
  have depth: "d + pred_depth p \<le> 32"
    if "Suc (d' + Max (set (map pred_depth ps))) \<le> 32" "d = Suc d'" "p \<in> set ps" for d d' p
  proof -
    have "pred_depth p \<le> Max (set (map pred_depth ps))"
      using that(3) by (intro Max_ge) auto
    with that show ?thesis
      by linarith
  qed
  have *: "\<exists>n. eval_children b (map pred_json ps) facts (Suc d) (Suc terms) =
      (Inr (if b then list_all (holds facts) ps else list_ex (holds facts) ps), n)
      \<and> n \<le> Suc terms + sum_list (map pred_terms ps)"
    if "Suc (d + Max (set (map pred_depth ps))) \<le> 32" "Suc (terms + sum_list (map pred_terms ps)) \<le> 256" for b d terms
    by (rule eval_children_correct) (use assms that depth in auto)
  have len: "length ps \<le> 256" if "Suc (terms + sum_list (map pred_terms ps)) \<le> 256" for terms
    using that length_le_pred_terms [of ps] by linarith
  show "evaluates facts (PAnd ps)"
    unfolding evaluates_def
  proof (intro allI impI)
    fix d n assume "d + pred_depth (PAnd ps) \<le> 32" "n + pred_terms (PAnd ps) \<le> 256"
    then have b: "Suc (d + Max (set (map pred_depth ps))) \<le> 32" "Suc (n + sum_list (map pred_terms ps)) \<le> 256"
      by simp_all
    with * [OF b, of True] len [OF b(2)] assms(2)
    show "\<exists>k. evaluate (pred_json (PAnd ps)) facts d n = (Inr (holds facts (PAnd ps)), k) \<and> k \<le> n + pred_terms (PAnd ps)"
      by (auto simp: evaluate.simps single_operator_def)
  qed
  show "evaluates facts (POr ps)"
    unfolding evaluates_def
  proof (intro allI impI)
    fix d n assume "d + pred_depth (POr ps) \<le> 32" "n + pred_terms (POr ps) \<le> 256"
    then have b: "Suc (d + Max (set (map pred_depth ps))) \<le> 32" "Suc (n + sum_list (map pred_terms ps)) \<le> 256"
      by simp_all
    with * [OF b, of False] len [OF b(2)] assms(2)
    show "\<exists>k. evaluate (pred_json (POr ps)) facts d n = (Inr (holds facts (POr ps)), k) \<and> k \<le> n + pred_terms (POr ps)"
      by (auto simp: evaluate.simps single_operator_def)
  qed
qed

lemma evaluates_all: "pred_nonempty p \<Longrightarrow> evaluates facts p"
proof (induction p)
  case (PNot p)
  show ?case
    unfolding evaluates_def
  proof (intro allI impI)
    fix d n assume b: "d + pred_depth (PNot p) \<le> 32" "n + pred_terms (PNot p) \<le> 256"
    obtain k where "evaluate (pred_json p) facts (Suc d) (Suc n) = (Inr (holds facts p), k)" "k \<le> Suc n + pred_terms p"
      using PNot b unfolding evaluates_def by (metis add_Suc add_Suc_right pred_depth.simps(3) pred_nonempty.simps(3) pred_terms.simps(3))
    with b show "\<exists>k. evaluate (pred_json (PNot p)) facts d n = (Inr (holds facts (PNot p)), k) \<and> k \<le> n + pred_terms (PNot p)"
      by (auto simp: evaluate.simps [of "JObject _"] single_operator_def)
  qed
next
  case (PAnd ps)
  then show ?case
    by (intro evaluates_connective(1)) (auto simp: list_all_iff)
next
  case (POr ps)
  then show ?case
    by (intro evaluates_connective(2)) (auto simp: list_all_iff)
qed (auto simp: evaluates_def evaluate.simps single_operator_def eval_comparison_def bcontains_def)

section \<open>Selection lemmas\<close>

definition rule_verdict :: "json \<Rightarrow> worker_route_rule \<Rightarrow> routing_error + bool" where
  "rule_verdict facts rule = evaluate_predicate (wr_predicate rule) facts"

definition trace_entry :: "bool \<Rightarrow> worker_route_rule \<Rightarrow> route_trace_entry" where
  "trace_entry b rule = \<lparr>rte_route_id = wr_route_id rule, rte_priority = wr_priority rule,
     rte_outcome = (if b then Matched else NotMatched)\<rparr>"

lemma first_route_Inr:
  "first_route node facts rules trace = Inr d \<longleftrightarrow>
     (\<exists>before rule after. rules = before @ rule # after
        \<and> (\<forall>x \<in> set before. rule_verdict facts x = Inr False) \<and> rule_verdict facts rule = Inr True
        \<and> d = \<lparr>rd_route_id = wr_route_id rule, rd_transition_id = wr_destination_transition rule,
               rd_trace = trace @ map (trace_entry False) before @ [trace_entry True rule]\<rparr>)"
proof (induction rules arbitrary: trace)
  case (Cons r rules)
  show ?case
  proof (cases "rule_verdict facts r")
    case (Inl e)
    then show ?thesis
      by (auto simp: rule_verdict_def Cons_eq_append_conv)
  next
    case (Inr b)
    show ?thesis
    proof (cases b)
      case True
      with Inr show ?thesis
        by (auto simp: rule_verdict_def trace_entry_def Cons_eq_append_conv)
    next
      case False
      with Inr have eq: "first_route node facts (r # rules) trace = first_route node facts rules (trace @ [trace_entry False r])"
        by (simp add: rule_verdict_def trace_entry_def)
      have split: "(\<exists>before rule after. r # rules = before @ rule # after
            \<and> (\<forall>x \<in> set before. rule_verdict facts x = Inr False) \<and> rule_verdict facts rule = Inr True
            \<and> P (map (trace_entry False) before) rule) \<longleftrightarrow>
          (\<exists>before rule after. rules = before @ rule # after
            \<and> (\<forall>x \<in> set before. rule_verdict facts x = Inr False) \<and> rule_verdict facts rule = Inr True
            \<and> P (trace_entry False r # map (trace_entry False) before) rule)" (is "?L \<longleftrightarrow> ?R") for P
      proof
        assume ?L
        then show ?R
          using Inr False by (simp only: Cons_eq_append_conv) fastforce
      next
        assume ?R
        then obtain before rule after where "rules = before @ rule # after"
          "\<forall>x \<in> set before. rule_verdict facts x = Inr False" "rule_verdict facts rule = Inr True"
          "P (trace_entry False r # map (trace_entry False) before) rule"
          by blast
        with Inr False show ?L
          by (intro exI [of _ "r # before"] exI [of _ rule] exI [of _ after]) auto
      qed
      show ?thesis
        unfolding eq Cons.IH split [of "\<lambda>tr rule. d = \<lparr>rd_route_id = wr_route_id rule,
            rd_transition_id = wr_destination_transition rule, rd_trace = trace @ tr @ [trace_entry True rule]\<rparr>"]
        by simp
    qed
  qed
qed simp

lemma filter_same_key:
  assumes "distinct (map f zs)" and "k \<in> set zs"
  shows "filter (\<lambda>x. f k = f x) zs = [k]"
proof -
  have "filter (\<lambda>x. f k = f x) zs = filter (\<lambda>x. k = x) zs"
    using assms by (intro filter_cong) (auto simp: distinct_map inj_on_def)
  also have "\<dots> = [k]"
    using assms by (induction zs) (auto simp: filter_empty_conv distinct_map)
  finally show ?thesis .
qed

lemma sort_key_distinct_mset:
  assumes "mset xs = mset ys" and "distinct (map f xs)"
  shows "sort_key f xs = sort_key f ys"
proof (rule properties_for_sort_key)
  show ms: "mset (sort_key f ys) = mset xs"
    using assms(1) by simp
  have dist: "distinct (map f (sort_key f ys))"
    using assms(2) ms by (metis mset_map mset_eq_imp_distinct_iff)
  have "set (sort_key f ys) = set xs"
    using ms by (metis set_mset_mset)
  then show "filter (\<lambda>x. f k = f x) (sort_key f ys) = filter (\<lambda>x. f k = f x) xs"
    if "k \<in> set (sort_key f ys)" for k
    using filter_same_key [OF dist that] filter_same_key [OF assms(2), of k] that by simp
qed simp

section \<open>Properties\<close>

text \<open>
  C40. The bounded evaluator computes the meaning of a predicate: for every predicate without empty
  connectives, with at most 256 terms and at most 32 levels of nesting, evaluating its JSON form
  gives exactly its truth value over the facts.
\<close>

theorem evaluate_predicate_correct:
  assumes "pred_nonempty p" and "pred_terms p \<le> 256" and "pred_depth p \<le> 32"
  shows "evaluate_predicate (pred_json p) facts = Inr (holds facts p)"
  using evaluates_all [OF assms(1), of facts, unfolded evaluates_def, rule_format, of 0 0] assms(2,3)
  by (auto simp: evaluate_predicate_def)

definition demo_predicate :: predicate where
  "demo_predicate = PAnd [PNot (PExists ''error''), POr [PEq ''kind'' (JString ''draft''), PAlways True]]"

theorem evaluate_predicate_correct_witness:
  "evaluate_predicate (pred_json demo_predicate) (JObject [(''kind'', JString ''final'')]) = Inr True"
proof -
  have "pred_nonempty demo_predicate" "pred_terms demo_predicate \<le> 256" "pred_depth demo_predicate \<le> 32"
    "holds (JObject [(''kind'', JString ''final'')]) demo_predicate"
    by code_simp+
  with evaluate_predicate_correct [of demo_predicate "JObject [(''kind'', JString ''final'')]"] show ?thesis
    by simp
qed

text \<open>
  Routing is deterministic and explained: the chosen rule matches, every rule before it in
  the order of priority and route id was evaluated and did not match, the trace lists exactly
  those rules in that order followed by the chosen one, and the order in which the rules are
  supplied does not matter.
\<close>

theorem choose_route_first_match:
  assumes "choose_route node rules facts = Inr d" and "distinct (map route_key rules)"
  shows "(\<exists>rule \<in> set rules. rd_route_id d = wr_route_id rule
      \<and> rd_transition_id d = wr_destination_transition rule
      \<and> evaluate_predicate (wr_predicate rule) facts = Inr True
      \<and> (\<forall>x \<in> set rules. route_key x < route_key rule \<longrightarrow> evaluate_predicate (wr_predicate x) facts = Inr False)
      \<and> rd_trace d = map (trace_entry False)
          (filter (\<lambda>x. route_key x < route_key rule) (sort_key route_key rules)) @ [trace_entry True rule])
    \<and> (mset rules' = mset rules \<longrightarrow> choose_route node rules' facts = Inr d)"
proof -
  obtain before rule after where split: "sort_key route_key rules = before @ rule # after"
    and no: "\<forall>x \<in> set before. rule_verdict facts x = Inr False" and yes: "rule_verdict facts rule = Inr True"
    and d: "d = \<lparr>rd_route_id = wr_route_id rule, rd_transition_id = wr_destination_transition rule,
        rd_trace = map (trace_entry False) before @ [trace_entry True rule]\<rparr>"
    using assms(1) by (auto simp: choose_route_def first_route_Inr)
  have "distinct (map route_key (sort_key route_key rules))"
    using assms(2) by (metis mset_map mset_sort mset_eq_imp_distinct_iff)
  moreover have "sorted (map route_key (sort_key route_key rules))"
    by simp
  ultimately have strict: "sorted_wrt (<) (map route_key before @ route_key rule # map route_key after)"
    unfolding split by (simp add: strict_sorted_iff)
  have set: "set rules = set before \<union> {rule} \<union> set after"
    using arg_cong [OF split, of set] by auto
  have less: "x \<in> set before \<Longrightarrow> route_key x < route_key rule"
    and greater: "x \<in> set after \<Longrightarrow> route_key rule < route_key x" for x
    using strict by (auto simp: sorted_wrt_append)
  have "x \<in> set before" if "x \<in> set rules" "route_key x < route_key rule" for x
    using that set greater [of x] by auto
  moreover have "filter (\<lambda>x. route_key x < route_key rule) (sort_key route_key rules) = before"
    unfolding split using less greater by (auto simp: filter_empty_conv intro!: filter_True dest: less_asym)
  ultimately have "\<exists>rule \<in> set rules. rd_route_id d = wr_route_id rule
      \<and> rd_transition_id d = wr_destination_transition rule
      \<and> evaluate_predicate (wr_predicate rule) facts = Inr True
      \<and> (\<forall>x \<in> set rules. route_key x < route_key rule \<longrightarrow> evaluate_predicate (wr_predicate x) facts = Inr False)
      \<and> rd_trace d = map (trace_entry False)
          (filter (\<lambda>x. route_key x < route_key rule) (sort_key route_key rules)) @ [trace_entry True rule]"
    using set no yes d by (intro bexI [of _ rule]) (auto simp: rule_verdict_def)
  moreover have "choose_route node rules' facts = Inr d" if "mset rules' = mset rules"
    using assms sort_key_distinct_mset [of rules rules' route_key] that by (simp add: choose_route_def)
  ultimately show ?thesis
    by blast
qed

definition demo_rules :: "worker_route_rule list" where
  "demo_rules =
     [\<lparr>wr_route_id = ''fallback'', wr_node_id = ''node'', wr_priority = 9, wr_predicate = pred_json (PAlways True),
       wr_destination_transition = ''t.fallback''\<rparr>,
      \<lparr>wr_route_id = ''urgent'', wr_node_id = ''node'', wr_priority = 1, wr_predicate = pred_json (PExists ''urgent''),
       wr_destination_transition = ''t.urgent''\<rparr>]"

theorem choose_route_first_match_witness:
  "choose_route ''node'' (rev demo_rules) (JObject []) =
     Inr \<lparr>rd_route_id = ''fallback'', rd_transition_id = ''t.fallback'',
          rd_trace = [\<lparr>rte_route_id = ''urgent'', rte_priority = 1, rte_outcome = NotMatched\<rparr>,
                      \<lparr>rte_route_id = ''fallback'', rte_priority = 9, rte_outcome = Matched\<rparr>]\<rparr>"
proof -
  have "choose_route ''node'' demo_rules (JObject []) =
     Inr \<lparr>rd_route_id = ''fallback'', rd_transition_id = ''t.fallback'',
          rd_trace = [\<lparr>rte_route_id = ''urgent'', rte_priority = 1, rte_outcome = NotMatched\<rparr>,
                      \<lparr>rte_route_id = ''fallback'', rte_priority = 9, rte_outcome = Matched\<rparr>]\<rparr>"
    "distinct (map route_key demo_rules)"
    by code_simp+
  from choose_route_first_match [OF this, of "rev demo_rules"] show ?thesis
    by simp
qed

end
