(* ===== verification/Plan.thy ===== *)
theory Plan
  imports Cycles Routing
begin

text \<open>
  Compilation of a frozen run snapshot into an execution plan (\<open>ExecutionPlanV1\<close> of
  \<open>crates/aworkit-workflow-worker/src/plan.rs\<close>): bounds, versions and hashes, the canonical
  order of every semantic vector, nodes, entries, transitions with their ports, declared loops,
  the cycle check, joins, routes and the fingerprint.
\<close>

section \<open>Data\<close>

datatype plan_error =
    PlGenerationMismatch
  | PlEmptyGraph
  | PlDuplicateNode string
  | PlDuplicateTransition string
  | PlUnknownNode string string
  | PlUnboundedCycle string
  | PlUnsupportedSchema u16
  | PlUnsupportedCompiler string
  | PlSnapshotHashMismatch
  | PlInvalidHash
  | PlInvalidEntry string
  | PlInvalidNodeContract string
  | PlInvalidPort string string
  | PlPortMismatch string
  | PlUnresolvedCapability string string
  | PlInvalidLoop string
  | PlInvalidJoin string
  | PlInvalidRoute string
  | PlPlanTooLarge
  | PlEncoding

definition SUPPORTED_WORKER_SCHEMA_VERSION :: u16 where
  "SUPPORTED_WORKER_SCHEMA_VERSION = 1"

definition WORKER_COMPILER_VERSION :: string where
  "WORKER_COMPILER_VERSION = ''aworkit-worker-v1''"

record execution_plan =
  ep_snapshot :: worker_frozen_run_snapshot
  ep_nodes :: "(string, worker_node) bmap"
  ep_outgoing :: "(string, worker_transition list) bmap"
  ep_transitions :: "(string, worker_transition) bmap"
  ep_loops :: "(string, worker_loop_descriptor) bmap"
  ep_joins :: "(string, worker_join_descriptor) bmap"
  ep_routes :: "(string, worker_route_rule list) bmap"
  ep_fingerprint :: string

text \<open>
  The serializers and SHA-256 are libraries: \<open>serde_json::to_vec\<close> on a snapshot and on a value,
  \<open>serde_jcs::to_vec\<close> on a snapshot and on the fingerprinted triple. \<open>None\<close> is their error.
\<close>

record plan_codec =
  pc_snapshot_to_vec :: "worker_frozen_run_snapshot \<Rightarrow> string option"
  pc_value_to_vec :: "json \<Rightarrow> string option"
  pc_jcs_snapshot :: "worker_frozen_run_snapshot \<Rightarrow> string option"
  pc_jcs_plan :: "string \<times> worker_frozen_run_snapshot \<times> string \<Rightarrow> string option"
  pc_sha :: digest

section \<open>Canonical order\<close>

definition canonicalize_node :: "worker_node \<Rightarrow> worker_node" where
  "canonicalize_node n =
     n\<lparr>wn_inputs := sort_key wp_name (wn_inputs n), wn_outputs := sort_key wp_name (wn_outputs n)\<rparr>"

definition canonicalize_snapshot :: "worker_frozen_run_snapshot \<Rightarrow> worker_frozen_run_snapshot" where
  "canonicalize_snapshot s =
     s\<lparr>ws_nodes := map canonicalize_node (sort_key wn_node_id (ws_nodes s)),
       ws_transitions := sort_key wt_transition_id (ws_transitions s),
       ws_entry_nodes := sort (ws_entry_nodes s),
       ws_loop_descriptors := sort_key ld_loop_id (ws_loop_descriptors s),
       ws_join_descriptors := sort_key jd_join_id (ws_join_descriptors s),
       ws_route_rules := sort_key wr_route_id (ws_route_rules s),
       ws_capability_bindings := sort_key fcb_capability_id (ws_capability_bindings s),
       ws_capability_refs := sort (ws_capability_refs s)\<rparr>"

definition snapshot_content_hash :: "plan_codec \<Rightarrow> worker_frozen_run_snapshot \<Rightarrow> plan_error + string" where
  "snapshot_content_hash c s =
     bind_r (ok_or (pc_jcs_snapshot c (canonicalize_snapshot (s\<lparr>ws_snapshot_hash := []\<rparr>))) PlEncoding)
       (\<lambda>bytes. Inr (pc_sha c bytes))"

definition plan_fingerprint :: "plan_codec \<Rightarrow> worker_frozen_run_snapshot \<Rightarrow> plan_error + string" where
  "plan_fingerprint c s =
     bind_r (ok_or (pc_jcs_plan c (WORKER_COMPILER_VERSION, s, ''deterministic-plan-v1'')) PlEncoding)
       (\<lambda>bytes. Inr (pc_sha c bytes))"

section \<open>Validation\<close>

definition valid_port_name :: "string \<Rightarrow> bool" where
  "valid_port_name v \<longleftrightarrow> v \<noteq> [] \<and> length v \<le> 128
     \<and> list_all (\<lambda>b. is_ascii_alphanumeric b \<or> b \<in> {CHR ''.'', CHR ''_'', CHR ''-''}) v"

definition valid_sha256 :: "string \<Rightarrow> bool" where
  "valid_sha256 v \<longleftrightarrow> length v = 64 \<and> list_all is_ascii_hexdigit v"

definition is_canonical_sha256 :: "string \<Rightarrow> bool" where
  "is_canonical_sha256 v \<longleftrightarrow>
     length v = 71 \<and> take 7 v = ''sha256:'' \<and> list_all is_lower_hexdigit (drop 7 v)"

definition validate_snapshot_bounds :: "plan_codec \<Rightarrow> worker_frozen_run_snapshot \<Rightarrow> plan_error + unit" where
  "validate_snapshot_bounds c s =
     (if 100000 < length (ws_nodes s) \<or> 500000 < length (ws_transitions s)
         \<or> 1024 < length (ws_entry_nodes s) \<or> 10000 < length (ws_loop_descriptors s)
         \<or> 10000 < length (ws_join_descriptors s) \<or> 100000 < length (ws_route_rules s)
         \<or> 4096 < length (ws_capability_bindings s) \<or> 4096 < length (ws_capability_refs s)
      then Inl PlPlanTooLarge
      else bind_r (ok_or (pc_snapshot_to_vec c s) PlEncoding)
             (\<lambda>bytes. if 16 * 1024 * 1024 < length bytes then Inl PlPlanTooLarge else Inr ()))"

fun validate_ports :: "stable_id \<Rightarrow> worker_port list \<Rightarrow> string list \<Rightarrow> plan_error + unit" where
  "validate_ports node [] names = Inr ()"
| "validate_ports node (port # ports) names =
     (if \<not> valid_port_name (wp_name port) \<or> wp_name port \<in> set names
      then Inl (PlInvalidPort node (wp_name port))
      else validate_ports node ports (sinsert (wp_name port) names))"

definition validate_capability :: "worker_node \<Rightarrow> string list \<Rightarrow> plan_error + unit" where
  "validate_capability node capabilities =
     (case wn_capability_ref node of
        None \<Rightarrow>
          if wn_executor node \<in> {ExBrokered, ExModel, ExAgent}
          then Inl (PlInvalidNodeContract (wn_node_id node)) else Inr ()
      | Some capability \<Rightarrow>
          if capability \<in> set capabilities then Inr ()
          else Inl (PlUnresolvedCapability (wn_node_id node) capability))"

definition validate_node :: "string list \<Rightarrow> worker_node \<Rightarrow> plan_error + unit" where
  "validate_node capabilities node =
     (if wn_node_type node = [] \<or> 128 < length (wn_node_type node) \<or> wn_node_version node = 0
         \<or> \<not> valid_sha256 (wn_contribution_hash node)
      then Inl (PlInvalidNodeContract (wn_node_id node))
      else bind_r (validate_ports (wn_node_id node) (wn_inputs node) []) (\<lambda>_.
           bind_r (validate_ports (wn_node_id node) (wn_outputs node) []) (\<lambda>_.
           validate_capability node capabilities)))"

definition validate_transition ::
  "plan_codec \<Rightarrow> (string, worker_node) bmap \<Rightarrow> worker_transition \<Rightarrow> plan_error + unit" where
  "validate_transition c nodes t =
     bind_r (ok_or (bget nodes (wt_from_node t)) (PlUnknownNode (wt_transition_id t) (wt_from_node t))) (\<lambda>from.
     bind_r (ok_or (bget nodes (wt_to_node t)) (PlUnknownNode (wt_transition_id t) (wt_to_node t))) (\<lambda>to.
     bind_r (ok_or (find (\<lambda>port. wp_name port = wt_from_port t) (wn_outputs from))
               (PlPortMismatch (wt_transition_id t))) (\<lambda>output.
     bind_r (ok_or (find (\<lambda>port. wp_name port = wt_to_port t) (wn_inputs to))
               (PlPortMismatch (wt_transition_id t))) (\<lambda>input.
     if wp_schema_ref output \<noteq> None \<and> wp_schema_ref input \<noteq> None
        \<and> wp_schema_ref output \<noteq> wp_schema_ref input
     then Inl (PlPortMismatch (wt_transition_id t))
     else (case wt_predicate t of
             None \<Rightarrow> Inr ()
           | Some predicate \<Rightarrow>
               bind_r (ok_or (pc_value_to_vec c predicate) PlEncoding)
                 (\<lambda>bytes. if 64 * 1024 < length bytes then Inl PlPlanTooLarge else Inr ()))))))"

text \<open>
  The loop \<open>validate(x)?; if map.insert(key(x), x).is_some() { return Err(..) }\<close> that loads nodes,
  loops and joins.
\<close>

fun load_unique ::
  "('a \<Rightarrow> plan_error + unit) \<Rightarrow> ('a \<Rightarrow> string) \<Rightarrow> ('a \<Rightarrow> plan_error) \<Rightarrow> 'a list \<Rightarrow> (string, 'a) bmap
     \<Rightarrow> plan_error + (string, 'a) bmap" where
  "load_unique check key dup [] acc = Inr acc"
| "load_unique check key dup (x # xs) acc =
     bind_r (check x) (\<lambda>_.
     if bcontains acc (key x) then Inl (dup x)
     else load_unique check key dup xs (binsert (key x) x acc))"

definition load_nodes :: "string list \<Rightarrow> worker_node list \<Rightarrow> plan_error + (string, worker_node) bmap" where
  "load_nodes capabilities ns =
     load_unique (validate_node capabilities) wn_node_id (\<lambda>n. PlDuplicateNode (wn_node_id n)) ns []"

fun check_entries :: "(string, worker_node) bmap \<Rightarrow> stable_id list \<Rightarrow> string list \<Rightarrow> plan_error + string list" where
  "check_entries nodes [] ids = Inr ids"
| "check_entries nodes (entry # entries) ids =
     (if entry \<in> set ids \<or> \<not> bcontains nodes entry then Inl (PlInvalidEntry entry)
      else check_entries nodes entries (sinsert entry ids))"

definition bpush :: "string \<Rightarrow> 'a \<Rightarrow> (string, 'a list) bmap \<Rightarrow> (string, 'a list) bmap" where
  "bpush k x m = binsert k (case bget m k of None \<Rightarrow> [x] | Some xs \<Rightarrow> xs @ [x]) m"

fun load_transitions ::
  "plan_codec \<Rightarrow> (string, worker_node) bmap \<Rightarrow> worker_transition list
     \<Rightarrow> (string, worker_transition) bmap \<Rightarrow> (string, worker_transition list) bmap
     \<Rightarrow> plan_error + (string, worker_transition) bmap \<times> (string, worker_transition list) bmap" where
  "load_transitions c nodes [] transitions outgoing = Inr (transitions, outgoing)"
| "load_transitions c nodes (t # ts) transitions outgoing =
     bind_r (validate_transition c nodes t) (\<lambda>_.
     if bcontains transitions (wt_transition_id t) then Inl (PlDuplicateTransition (wt_transition_id t))
     else load_transitions c nodes ts (binsert (wt_transition_id t) t transitions)
            (bpush (wt_from_node t) t outgoing))"

definition edge_key :: "worker_transition \<Rightarrow> int \<times> string" where
  "edge_key t = (wt_priority t, wt_transition_id t)"

definition validate_loop :: "(string, worker_node) bmap \<Rightarrow> worker_loop_descriptor \<Rightarrow> plan_error + unit" where
  "validate_loop nodes d =
     (if ld_maximum_iterations d = 0 \<or> \<not> bcontains nodes (ld_body_entry d) \<or> \<not> bcontains nodes (ld_body_exit d)
      then Inl (PlInvalidLoop (ld_loop_id d)) else Inr ())"

fun check_loop_uses ::
  "(string, worker_loop_descriptor) bmap \<Rightarrow> worker_transition list \<Rightarrow> string list \<Rightarrow> plan_error + string list" where
  "check_loop_uses loops [] used = Inr used"
| "check_loop_uses loops (t # ts) used =
     (case wt_declared_loop_id t of
        None \<Rightarrow> check_loop_uses loops ts used
      | Some loop_id \<Rightarrow>
          (case bget loops loop_id of
             None \<Rightarrow> Inl (PlInvalidLoop loop_id)
           | Some d \<Rightarrow>
               if wt_from_node t \<noteq> ld_body_exit d \<or> wt_to_node t \<noteq> ld_body_entry d
               then Inl (PlInvalidLoop loop_id)
               else check_loop_uses loops ts (sinsert loop_id used)))"

definition validate_loops ::
  "worker_loop_descriptor list \<Rightarrow> (string, worker_node) bmap \<Rightarrow> (string, worker_transition) bmap
     \<Rightarrow> plan_error + (string, worker_loop_descriptor) bmap" where
  "validate_loops descriptors nodes transitions =
     bind_r (load_unique (validate_loop nodes) ld_loop_id (\<lambda>d. PlInvalidLoop (ld_loop_id d)) descriptors []) (\<lambda>loops.
     bind_r (check_loop_uses loops (bvalues transitions) []) (\<lambda>used.
     case find (\<lambda>id. id \<notin> set used) (bkeys loops) of
       Some unused \<Rightarrow> Inl (PlInvalidLoop unused)
     | None \<Rightarrow> Inr loops))"

definition validate_join :: "(string, worker_node) bmap \<Rightarrow> worker_join_descriptor \<Rightarrow> plan_error + unit" where
  "validate_join nodes d =
     (case bget nodes (jd_node_id d) of
        None \<Rightarrow> Inl (PlInvalidJoin (jd_join_id d))
      | Some node \<Rightarrow>
          if wn_executor node \<noteq> ExJoin \<or> length (jd_expected_branches d) < 2
             \<or> length (bset_of_list (jd_expected_branches d)) \<noteq> length (jd_expected_branches d)
             \<or> jd_merge_policy d \<notin> {''require_equal'', ''object_union'', ''ordered_array''}
          then Inl (PlInvalidJoin (jd_join_id d)) else Inr ())"

definition validate_joins ::
  "worker_join_descriptor list \<Rightarrow> (string, worker_node) bmap
     \<Rightarrow> plan_error + (string, worker_join_descriptor) bmap" where
  "validate_joins descriptors nodes =
     load_unique (validate_join nodes) jd_node_id (\<lambda>d. PlInvalidJoin (jd_join_id d)) descriptors []"

fun load_routes ::
  "plan_codec \<Rightarrow> (string, worker_node) bmap \<Rightarrow> (string, worker_transition) bmap \<Rightarrow> worker_route_rule list
     \<Rightarrow> string list \<Rightarrow> (string, worker_route_rule list) bmap
     \<Rightarrow> plan_error + (string, worker_route_rule list) bmap" where
  "load_routes c nodes transitions [] ids routes = Inr routes"
| "load_routes c nodes transitions (rule # rules) ids routes =
     bind_r (ok_or (bget nodes (wr_node_id rule)) (PlInvalidRoute (wr_route_id rule))) (\<lambda>node.
     bind_r (ok_or (bget transitions (wr_destination_transition rule)) (PlInvalidRoute (wr_route_id rule))) (\<lambda>t.
     if wn_executor node \<noteq> ExRouter \<or> wt_from_node t \<noteq> wr_node_id rule \<or> wr_route_id rule \<in> set ids
     then Inl (PlInvalidRoute (wr_route_id rule))
     else bind_r (ok_or (pc_value_to_vec c (wr_predicate rule)) PlEncoding) (\<lambda>bytes.
          if 64 * 1024 < length bytes then Inl (PlInvalidRoute (wr_route_id rule))
          else load_routes c nodes transitions rules (sinsert (wr_route_id rule) ids)
                 (bpush (wr_node_id rule) rule routes))))"

definition validate_routes ::
  "plan_codec \<Rightarrow> worker_route_rule list \<Rightarrow> (string, worker_node) bmap \<Rightarrow> (string, worker_transition) bmap
     \<Rightarrow> plan_error + (string, worker_route_rule list) bmap" where
  "validate_routes c rules nodes transitions =
     bind_r (load_routes c nodes transitions rules [] []) (\<lambda>routes.
     Inr (bmap_values (sort_key route_key) routes))"

definition loop_free_edges :: "worker_transition list \<Rightarrow> cycle_edge list" where
  "loop_free_edges ts =
     map (\<lambda>t. \<lparr>cy_id = wt_transition_id t, cy_to = wt_to_node t, cy_bounded = False\<rparr>)
       (filter (\<lambda>t. wt_declared_loop_id t = None) ts)"

definition validate_v1_cycles ::
  "(string, worker_node) bmap \<Rightarrow> (string, worker_transition list) bmap \<Rightarrow> plan_error + unit" where
  "validate_v1_cycles nodes outgoing =
     (case check_cycles (bmap_values loop_free_edges outgoing) (bkeys nodes) [] of
        Inl transition \<Rightarrow> Inl (PlUnboundedCycle transition)
      | Inr _ \<Rightarrow> Inr ())"

section \<open>Compilation\<close>

definition validate_binding :: "frozen_capability_binding \<Rightarrow> plan_error + unit" where
  "validate_binding b =
     (if trim_is_empty (fcb_adapter_version b) \<or> \<not> is_canonical_sha256 (fcb_descriptor_hash b)
         \<or> (case fcb_extension b of None \<Rightarrow> False | Some e \<Rightarrow>
              erb_host_generation e = 0 \<or> erb_contribution_id e \<noteq> fcb_adapter_id b
              \<or> \<not> is_canonical_sha256 (ei_content_hash (erb_identity e))
              \<or> \<not> is_canonical_sha256 (erb_handshake_hash e))
         \<or> (case fcb_required_isolation_profile b of None \<Rightarrow> False | Some profile \<Rightarrow>
              profile = [] \<or> 256 < length profile \<or> \<not> is_trimmed profile \<or> has_control profile)
      then Inl (PlInvalidNodeContract (''invalid frozen capability binding '' @ fcb_capability_id b))
      else Inr ())"

definition validate_capabilities :: "worker_frozen_run_snapshot \<Rightarrow> plan_error + string list" where
  "validate_capabilities s =
     (let capability_refs = bset_of_list (ws_capability_refs s);
          frozen_binding_refs = bset_of_list (map fcb_capability_id (ws_capability_bindings s)) in
      if length capability_refs \<noteq> length (ws_capability_refs s)
      then Inl (PlInvalidNodeContract ''duplicate capability reference'')
      else if length frozen_binding_refs \<noteq> length (ws_capability_bindings s)
              \<or> frozen_binding_refs \<noteq> capability_refs
      then Inl (PlInvalidNodeContract ''frozen capability bindings differ from capability references'')
      else bind_r (try_all validate_binding (ws_capability_bindings s)) (\<lambda>_. Inr capability_refs))"

definition build_plan :: "plan_codec \<Rightarrow> worker_frozen_run_snapshot \<Rightarrow> plan_error + execution_plan" where
  "build_plan c s =
     bind_r (validate_capabilities s) (\<lambda>capabilities.
     bind_r (load_nodes capabilities (ws_nodes s)) (\<lambda>nodes.
     if nodes = [] then Inl PlEmptyGraph
     else bind_r (check_entries nodes (ws_entry_nodes s) []) (\<lambda>entry_ids.
     if entry_ids = [] then Inl (PlInvalidEntry ''<empty>'')
     else bind_r (load_transitions c nodes (ws_transitions s) [] []) (\<lambda>(transitions, unsorted).
     let outgoing = bmap_values (sort_key edge_key) unsorted in
     bind_r (validate_loops (ws_loop_descriptors s) nodes transitions) (\<lambda>loops.
     bind_r (validate_v1_cycles nodes outgoing) (\<lambda>_.
     bind_r (validate_joins (ws_join_descriptors s) nodes) (\<lambda>joins.
     bind_r (validate_routes c (ws_route_rules s) nodes transitions) (\<lambda>routes.
     bind_r (plan_fingerprint c s) (\<lambda>fingerprint.
     Inr \<lparr>ep_snapshot = s, ep_nodes = nodes, ep_outgoing = outgoing, ep_transitions = transitions,
          ep_loops = loops, ep_joins = joins, ep_routes = routes, ep_fingerprint = fingerprint\<rparr>)))))))))"

definition compile :: "plan_codec \<Rightarrow> worker_frozen_run_snapshot \<Rightarrow> string \<Rightarrow> plan_error + execution_plan" where
  "compile c s declared_snapshot_hash =
     bind_r (validate_snapshot_bounds c s) (\<lambda>_.
     if ws_schema_version s \<noteq> SUPPORTED_WORKER_SCHEMA_VERSION
     then Inl (PlUnsupportedSchema (ws_schema_version s))
     else if ws_compiler_version s \<noteq> WORKER_COMPILER_VERSION
     then Inl (PlUnsupportedCompiler (ws_compiler_version s))
     else if \<not> valid_sha256 (ws_workflow_hash s) \<or> \<not> valid_sha256 (ws_authority_manifest_hash s)
             \<or> \<not> valid_sha256 (ws_snapshot_hash s) \<or> \<not> valid_sha256 declared_snapshot_hash
     then Inl PlInvalidHash
     else bind_r (snapshot_content_hash c s) (\<lambda>calculated_hash.
          if ws_snapshot_hash s \<noteq> declared_snapshot_hash \<or> calculated_hash \<noteq> ws_snapshot_hash s
          then Inl PlSnapshotHashMismatch
          else build_plan c (canonicalize_snapshot s)))"

definition plan_node :: "execution_plan \<Rightarrow> stable_id \<Rightarrow> worker_node option" where
  "plan_node p i = bget (ep_nodes p) i"

definition plan_transition :: "execution_plan \<Rightarrow> stable_id \<Rightarrow> worker_transition option" where
  "plan_transition p i = bget (ep_transitions p) i"

definition plan_outgoing :: "execution_plan \<Rightarrow> stable_id \<Rightarrow> worker_transition list" where
  "plan_outgoing p i = (case bget (ep_outgoing p) i of None \<Rightarrow> [] | Some ts \<Rightarrow> ts)"

definition loop_descriptor :: "execution_plan \<Rightarrow> stable_id \<Rightarrow> worker_loop_descriptor option" where
  "loop_descriptor p i = bget (ep_loops p) i"

definition join_descriptor :: "execution_plan \<Rightarrow> stable_id \<Rightarrow> worker_join_descriptor option" where
  "join_descriptor p node_id = bget (ep_joins p) node_id"

definition plan_route_rules :: "execution_plan \<Rightarrow> stable_id \<Rightarrow> worker_route_rule list" where
  "plan_route_rules p node_id = (case bget (ep_routes p) node_id of None \<Rightarrow> [] | Some rules \<Rightarrow> rules)"


section \<open>What the loaders accept\<close>

lemma bget_binsert_None: "bget (binsert k v m) k' = None \<longleftrightarrow> k' \<noteq> k \<and> bget m k' = None"
  by simp

lemma not_in_keys: "k \<notin> key ` A \<longleftrightarrow> (\<forall>x \<in> A. key x \<noteq> k)"
  by auto

lemma load_unique_Inr:
  "load_unique check key dup xs acc = Inr m \<longleftrightarrow>
     (\<forall>x \<in> set xs. is_ok (check x) \<and> bget acc (key x) = None) \<and> distinct (map key xs)
     \<and> m = fold (\<lambda>x. binsert (key x) x) xs acc"
proof (induction xs arbitrary: acc)
  case (Cons x xs)
  show ?case
  proof (cases "check x")
    case (Inr u)
    then show ?thesis
      by (auto simp: Cons.IH bcontains_def bget_binsert_None not_in_keys simp del: bget_binsert)
  qed simp
qed auto

lemma validate_ports_Inr:
  "validate_ports node ports names = Inr u \<longleftrightarrow>
     (\<forall>p \<in> set ports. valid_port_name (wp_name p) \<and> wp_name p \<notin> set names) \<and> distinct (map wp_name ports)"
  by (induction ports arbitrary: names) (auto simp: not_in_keys)

lemma check_entries_Inr:
  "check_entries nodes es ids = Inr ids' \<longleftrightarrow>
     (\<forall>e \<in> set es. bcontains nodes e \<and> e \<notin> set ids) \<and> distinct es \<and> ids' = fold sinsert es ids"
  by (induction es arbitrary: ids) auto

lemma load_transitions_Inr:
  "load_transitions c nodes ts tm out = Inr (tm', out') \<longleftrightarrow>
     (\<forall>t \<in> set ts. is_ok (validate_transition c nodes t) \<and> bget tm (wt_transition_id t) = None)
     \<and> distinct (map wt_transition_id ts)
     \<and> tm' = fold (\<lambda>t. binsert (wt_transition_id t) t) ts tm
     \<and> out' = fold (\<lambda>t. bpush (wt_from_node t) t) ts out"
proof (induction ts arbitrary: tm out)
  case (Cons t ts)
  show ?case
  proof (cases "validate_transition c nodes t")
    case (Inr u)
    then show ?thesis
      by (auto simp: Cons.IH bcontains_def bget_binsert_None not_in_keys simp del: bget_binsert)
  qed simp
qed auto

lemma check_loop_uses_Inr:
  "check_loop_uses loops ts used = Inr used' \<longleftrightarrow>
     (\<forall>t \<in> set ts. \<forall>l. wt_declared_loop_id t = Some l \<longrightarrow>
        (\<exists>d. bget loops l = Some d \<and> wt_from_node t = ld_body_exit d \<and> wt_to_node t = ld_body_entry d))
     \<and> used' = fold sinsert (List.map_filter wt_declared_loop_id ts) used"
proof (induction ts arbitrary: used)
  case (Cons t ts)
  then show ?case
    by (cases "wt_declared_loop_id t"; cases "bget loops (the (wt_declared_loop_id t))")
       (auto simp: List.map_filter_simps)
qed (auto simp: List.map_filter_simps)

lemma load_routes_Inr:
  assumes "load_routes c nodes tm rules ids routes = Inr routes'"
  shows "\<forall>r \<in> set rules. \<exists>n t. bget nodes (wr_node_id r) = Some n \<and> wn_executor n = ExRouter
           \<and> bget tm (wr_destination_transition r) = Some t \<and> wt_from_node t = wr_node_id r
           \<and> wr_route_id r \<notin> set ids"
    and "distinct (map wr_route_id rules)"
    and "routes' = fold (\<lambda>r. bpush (wr_node_id r) r) rules routes"
proof -
  have "(\<forall>r \<in> set rules. \<exists>n t. bget nodes (wr_node_id r) = Some n \<and> wn_executor n = ExRouter
           \<and> bget tm (wr_destination_transition r) = Some t \<and> wt_from_node t = wr_node_id r
           \<and> wr_route_id r \<notin> set ids)
     \<and> distinct (map wr_route_id rules) \<and> routes' = fold (\<lambda>r. bpush (wr_node_id r) r) rules routes"
    using assms
  proof (induction rules arbitrary: ids routes)
    case (Cons r rules)
    then obtain n t where "bget nodes (wr_node_id r) = Some n" "wn_executor n = ExRouter"
      "bget tm (wr_destination_transition r) = Some t" "wt_from_node t = wr_node_id r" "wr_route_id r \<notin> set ids"
      and rest: "load_routes c nodes tm rules (sinsert (wr_route_id r) ids) (bpush (wr_node_id r) r routes) = Inr routes'"
      by (auto simp: bind_r_Inr ok_or_Inr split: if_splits)
    with Cons.IH [OF rest] show ?case
      by fastforce
  qed simp
  then show "\<forall>r \<in> set rules. \<exists>n t. bget nodes (wr_node_id r) = Some n \<and> wn_executor n = ExRouter
           \<and> bget tm (wr_destination_transition r) = Some t \<and> wt_from_node t = wr_node_id r
           \<and> wr_route_id r \<notin> set ids"
    and "distinct (map wr_route_id rules)"
    and "routes' = fold (\<lambda>r. bpush (wr_node_id r) r) rules routes"
    by blast+
qed

section \<open>Grouping\<close>

lemma bget_bpush: "bget (bpush k x m) k' =
    (if k' = k then Some (case bget m k of None \<Rightarrow> [x] | Some xs \<Rightarrow> xs @ [x]) else bget m k')"
  by (simp add: bpush_def)

definition group_get :: "(string, 'a list) bmap \<Rightarrow> string \<Rightarrow> 'a list" where
  "group_get m k = (case bget m k of None \<Rightarrow> [] | Some xs \<Rightarrow> xs)"

lemma group_get_bpush: "group_get (bpush k x m) k' = group_get m k' @ (if k' = k then [x] else [])"
  by (simp add: group_get_def bget_bpush split: option.splits)

lemma group_get_fold: "group_get (fold (\<lambda>x. bpush (key x) x) xs m) k = group_get m k @ filter (\<lambda>x. key x = k) xs"
  by (induction xs arbitrary: m) (simp_all add: group_get_bpush)

lemma group_get_map: "f [] = [] \<Longrightarrow> group_get (bmap_values f m) k = f (group_get m k)"
  by (simp add: group_get_def split: option.splits)

lemma group_get_Nil [simp]: "group_get [] k = []"
  by (simp add: group_get_def)

lemma edges_of_group: "edges_of adj n = group_get adj n"
  by (simp add: edges_of_def group_get_def)

lemma loop_free_edges_Nil [simp]: "loop_free_edges [] = []"
  by (simp add: loop_free_edges_def)

lemma bfold_self_keyed_sorted:
  assumes "sorted (map key xs)" and "distinct (map key xs)"
  shows "fold (\<lambda>x. binsert (key x) x) xs [] = map (\<lambda>x. (key x, x)) xs"
proof -
  have "bwf (map (\<lambda>x. (key x, x)) xs)"
    using assms by (simp add: bwf_def comp_def strict_sorted_iff)
  from bmap_of_list_id [OF this] show ?thesis
    by (simp add: fold_self_keyed bmap_of_list_def)
qed

section \<open>The compiled plan\<close>

text \<open>The graph without its declared loop transitions.\<close>

definition dag_edges :: "worker_transition list \<Rightarrow> (string \<times> string) set" where
  "dag_edges ts = {(wt_from_node t, wt_to_node t) |t. t \<in> set ts \<and> wt_declared_loop_id t = None}"

text \<open>What every other component of the worker relies on.\<close>

definition plan_wf :: "execution_plan \<Rightarrow> bool" where
  "plan_wf p \<longleftrightarrow>
     ep_nodes p = map (\<lambda>n. (wn_node_id n, n)) (ws_nodes (ep_snapshot p))
     \<and> bwf (ep_nodes p) \<and> length (ep_nodes p) \<le> 100000
     \<and> ep_transitions p = map (\<lambda>t. (wt_transition_id t, t)) (ws_transitions (ep_snapshot p))
     \<and> bwf (ep_transitions p)
     \<and> ep_loops p = map (\<lambda>d. (ld_loop_id d, d)) (ws_loop_descriptors (ep_snapshot p))
     \<and> bwf (ep_loops p)
     \<and> (\<forall>e \<in> set (ws_entry_nodes (ep_snapshot p)). bcontains (ep_nodes p) e)
     \<and> (\<forall>t \<in> set (bvalues (ep_transitions p)).
          bcontains (ep_nodes p) (wt_from_node t) \<and> bcontains (ep_nodes p) (wt_to_node t))
     \<and> (\<forall>n. plan_outgoing p n =
          sort_key edge_key (filter (\<lambda>t. wt_from_node t = n) (bvalues (ep_transitions p))))
     \<and> (\<forall>t \<in> set (bvalues (ep_transitions p)). \<forall>l. wt_declared_loop_id t = Some l \<longrightarrow>
          (\<exists>d. loop_descriptor p l = Some d \<and> ld_maximum_iterations d \<noteq> 0
             \<and> wt_from_node t = ld_body_exit d \<and> wt_to_node t = ld_body_entry d))
     \<and> acyclic (dag_edges (bvalues (ep_transitions p)))
     \<and> (\<forall>n. \<forall>r \<in> set (plan_route_rules p n). wr_node_id r = n
          \<and> (\<exists>t. plan_transition p (wr_destination_transition r) = Some t \<and> wt_from_node t = n))"

text \<open>The order of the semantic vectors after \<open>canonicalize_snapshot\<close>.\<close>

definition canonical_order :: "worker_frozen_run_snapshot \<Rightarrow> bool" where
  "canonical_order s \<longleftrightarrow>
     sorted (map wn_node_id (ws_nodes s)) \<and> sorted (map wt_transition_id (ws_transitions s))
     \<and> sorted (map ld_loop_id (ws_loop_descriptors s))"

lemma canonicalize_node_id [simp]: "wn_node_id (canonicalize_node n) = wn_node_id n"
  by (simp add: canonicalize_node_def)

lemma canonical_order_canonicalize: "canonical_order (canonicalize_snapshot s)"
  by (simp add: canonical_order_def canonicalize_snapshot_def comp_def sorted_sort_key)

lemma validate_transition_ends:
  "is_ok (validate_transition c nodes t) \<Longrightarrow>
     bcontains nodes (wt_from_node t) \<and> bcontains nodes (wt_to_node t)"
  by (auto simp: validate_transition_def bcontains_def ok_or_def elim!: is_okE split: option.splits)

lemma set_loop_free_edges:
  "set (loop_free_edges ts) =
     (\<lambda>t. \<lparr>cy_id = wt_transition_id t, cy_to = wt_to_node t, cy_bounded = False\<rparr>)
       ` {t \<in> set ts. wt_declared_loop_id t = None}"
  by (auto simp: loop_free_edges_def)

lemma v1_edges:
  assumes "\<And>n. group_get outgoing n = sort_key edge_key (filter (\<lambda>t. wt_from_node t = n) ts)"
  shows "must_edges (bmap_values loop_free_edges outgoing) = dag_edges ts"
    and "all_edges (bmap_values loop_free_edges outgoing) = dag_edges ts"
proof -
  define e :: "worker_transition \<Rightarrow> cycle_edge" where "e t = \<lparr>cy_id = wt_transition_id t, cy_to = wt_to_node t, cy_bounded = False\<rparr>" for t
  have mem: "set (edges_of (bmap_values loop_free_edges outgoing) n)
      = e ` {t \<in> set ts. wt_from_node t = n \<and> wt_declared_loop_id t = None}" for n
    by (auto simp: edges_of_group group_get_map assms set_loop_free_edges e_def)
  have e: "cy_to (e t) = wt_to_node t" "\<not> cy_bounded (e t)" for t
    by (simp_all add: e_def)
  show "must_edges (bmap_values loop_free_edges outgoing) = dag_edges ts"
    and "all_edges (bmap_values loop_free_edges outgoing) = dag_edges ts"
    unfolding must_edges_def all_edges_def dag_edges_def mem using e by (auto intro!: exI [where x = "e t" for t])
qed

lemma validate_v1_cycles_iff:
  assumes "\<And>n. group_get outgoing n = sort_key edge_key (filter (\<lambda>t. wt_from_node t = n) ts)"
    and "\<forall>t \<in> set ts. bcontains nodes (wt_from_node t) \<and> bcontains nodes (wt_to_node t)"
  shows "is_ok (validate_v1_cycles nodes outgoing) \<longleftrightarrow> acyclic (dag_edges ts)"
proof -
  let ?adj = "bmap_values loop_free_edges outgoing"
  note edges = v1_edges [OF assms(1)]
  have "must_edges ?adj \<subseteq> set (bkeys nodes) \<times> set (bkeys nodes)"
    unfolding edges(1) using assms(2) by (auto simp: dag_edges_def bcontains_iff)
  from check_cycles_iff [OF this] have "is_ok (check_cycles ?adj (bkeys nodes) []) \<longleftrightarrow> acyclic (dag_edges ts)"
    by (simp add: edges)
  then show ?thesis
    by (simp add: validate_v1_cycles_def is_ok_def split: sum.splits)
qed

lemma load_nodes_Inr:
  "load_nodes capabilities ns = Inr nodes \<longleftrightarrow>
     (\<forall>n \<in> set ns. is_ok (validate_node capabilities n)) \<and> distinct (map wn_node_id ns)
     \<and> nodes = fold (\<lambda>n. binsert (wn_node_id n) n) ns []"
  by (auto simp: load_nodes_def load_unique_Inr)

lemma validate_loops_Inr:
  assumes "validate_loops ds nodes tm = Inr loops"
  shows "distinct (map ld_loop_id ds)" and "loops = fold (\<lambda>d. binsert (ld_loop_id d) d) ds []"
    and "\<forall>d \<in> set ds. ld_maximum_iterations d \<noteq> 0"
    and "\<forall>t \<in> set (bvalues tm). \<forall>l. wt_declared_loop_id t = Some l \<longrightarrow>
        (\<exists>d. bget loops l = Some d \<and> wt_from_node t = ld_body_exit d \<and> wt_to_node t = ld_body_entry d)"
proof -
  from assms obtain used where
    load: "load_unique (validate_loop nodes) ld_loop_id (\<lambda>d. PlInvalidLoop (ld_loop_id d)) ds [] = Inr loops"
    and uses: "check_loop_uses loops (bvalues tm) [] = Inr used"
    by (auto simp: validate_loops_def bind_r_Inr split: option.splits)
  from load show "distinct (map ld_loop_id ds)" "loops = fold (\<lambda>d. binsert (ld_loop_id d) d) ds []"
    and "\<forall>d \<in> set ds. ld_maximum_iterations d \<noteq> 0"
    by (auto simp: load_unique_Inr validate_loop_def)
  from uses show "\<forall>t \<in> set (bvalues tm). \<forall>l. wt_declared_loop_id t = Some l \<longrightarrow>
        (\<exists>d. bget loops l = Some d \<and> wt_from_node t = ld_body_exit d \<and> wt_to_node t = ld_body_entry d)"
    by (simp add: check_loop_uses_Inr)
qed

lemma validate_routes_Inr:
  assumes "validate_routes c rules nodes tm = Inr routes"
  shows "group_get routes n = sort_key route_key (filter (\<lambda>r. wr_node_id r = n) rules)"
    and "\<forall>r \<in> set rules. \<exists>n t. bget nodes (wr_node_id r) = Some n \<and> wn_executor n = ExRouter
           \<and> bget tm (wr_destination_transition r) = Some t \<and> wt_from_node t = wr_node_id r"
    and "distinct (map wr_route_id rules)"
proof -
  from assms obtain raw where raw: "load_routes c nodes tm rules [] [] = Inr raw"
    and routes: "routes = bmap_values (sort_key route_key) raw"
    by (auto simp: validate_routes_def bind_r_Inr)
  note load = load_routes_Inr [OF raw]
  show "group_get routes n = sort_key route_key (filter (\<lambda>r. wr_node_id r = n) rules)"
    by (simp add: routes group_get_map load(3) group_get_fold)
  show "\<forall>r \<in> set rules. \<exists>n t. bget nodes (wr_node_id r) = Some n \<and> wn_executor n = ExRouter
           \<and> bget tm (wr_destination_transition r) = Some t \<and> wt_from_node t = wr_node_id r"
    using load(1) by blast
  show "distinct (map wr_route_id rules)"
    by (rule load(2))
qed

lemma bget_self_keyed: "bget (map (\<lambda>x. (key x, x)) xs) k = Some y \<Longrightarrow> y \<in> set xs \<and> key y = k"
  by (auto dest!: map_of_SomeD)

lemma build_plan_wf:
  assumes build: "build_plan c s = Inr p" and order: "canonical_order s" and size: "length (ws_nodes s) \<le> 100000"
  shows "plan_wf p \<and> ep_snapshot p = s"
proof -
  from build obtain capabilities nodes entry_ids transitions unsorted loops joins routes fingerprint where
    nodes: "load_nodes capabilities (ws_nodes s) = Inr nodes"
    and entries: "check_entries nodes (ws_entry_nodes s) [] = Inr entry_ids"
    and trans: "load_transitions c nodes (ws_transitions s) [] [] = Inr (transitions, unsorted)"
    and loops: "validate_loops (ws_loop_descriptors s) nodes transitions = Inr loops"
    and cycles: "validate_v1_cycles nodes (bmap_values (sort_key edge_key) unsorted) = Inr ()"
    and routes: "validate_routes c (ws_route_rules s) nodes transitions = Inr routes"
    and p: "p = \<lparr>ep_snapshot = s, ep_nodes = nodes, ep_outgoing = bmap_values (sort_key edge_key) unsorted,
      ep_transitions = transitions, ep_loops = loops, ep_joins = joins, ep_routes = routes, ep_fingerprint = fingerprint\<rparr>"
    by (auto simp: build_plan_def bind_r_Inr Let_def split: if_splits prod.splits)
  from order have sorted: "sorted (map wn_node_id (ws_nodes s))" "sorted (map wt_transition_id (ws_transitions s))"
    "sorted (map ld_loop_id (ws_loop_descriptors s))"
    by (simp_all add: canonical_order_def)
  from nodes have dn: "distinct (map wn_node_id (ws_nodes s))"
    and fn: "nodes = fold (\<lambda>n. binsert (wn_node_id n) n) (ws_nodes s) []"
    by (simp_all add: load_nodes_Inr)
  from trans have dt: "distinct (map wt_transition_id (ws_transitions s))"
    and ft: "transitions = fold (\<lambda>t. binsert (wt_transition_id t) t) (ws_transitions s) []"
    and out: "unsorted = fold (\<lambda>t. bpush (wt_from_node t) t) (ws_transitions s) []"
    and ends: "\<forall>t \<in> set (ws_transitions s). bcontains nodes (wt_from_node t) \<and> bcontains nodes (wt_to_node t)"
    by (auto simp: load_transitions_Inr dest: validate_transition_ends)
  note l = validate_loops_Inr [OF loops]
  note eqs = fn [unfolded bfold_self_keyed_sorted [OF sorted(1) dn]]
    ft [unfolded bfold_self_keyed_sorted [OF sorted(2) dt]] l(2) [unfolded bfold_self_keyed_sorted [OF sorted(3) l(1)]]
  have wf: "bwf nodes" "bwf transitions" "bwf loops"
    using load_self_keyed_inv(1) dn dt l(1) unfolding fn ft l(2) by blast+
  have tvals: "bvalues transitions = ws_transitions s"
    unfolding eqs(2) by (simp add: comp_def)
  have grp: "group_get (bmap_values (sort_key edge_key) unsorted) n
      = sort_key edge_key (filter (\<lambda>t. wt_from_node t = n) (ws_transitions s))" for n
    by (simp add: group_get_map out group_get_fold)
  have acyc: "acyclic (dag_edges (ws_transitions s))"
    using validate_v1_cycles_iff [of "bmap_values (sort_key edge_key) unsorted", OF grp ends] cycles by simp
  have decl: "\<exists>d. bget loops l = Some d \<and> ld_maximum_iterations d \<noteq> 0
      \<and> wt_from_node t = ld_body_exit d \<and> wt_to_node t = ld_body_entry d"
    if "t \<in> set (ws_transitions s)" and "wt_declared_loop_id t = Some l" for t l
  proof -
    from l(4) that tvals obtain d where d: "bget loops l = Some d" "wt_from_node t = ld_body_exit d" "wt_to_node t = ld_body_entry d"
      by metis
    then have "d \<in> set (ws_loop_descriptors s)"
      unfolding eqs(3) by (blast dest: bget_self_keyed)
    with l(3) d show ?thesis by blast
  qed
  note r = validate_routes_Inr [OF routes]
  have rules: "wr_node_id x = n \<and> (\<exists>t. bget transitions (wr_destination_transition x) = Some t \<and> wt_from_node t = n)"
    if "x \<in> set (group_get routes n)" for x n
    using that r(2) by (auto simp: r(1))
  have "bcontains nodes e" if "e \<in> set (ws_entry_nodes s)" for e
    using entries that by (simp add: check_entries_Inr)
  moreover have "length nodes \<le> 100000"
    using size by (simp add: eqs(1))
  ultimately show ?thesis
    using eqs wf ends grp acyc decl rules unfolding plan_wf_def p
    by (simp add: tvals comp_def plan_outgoing_def plan_route_rules_def group_get_def loop_descriptor_def plan_transition_def)
qed

lemma compile_Inr:
  assumes "compile c s h = Inr p"
  shows "build_plan c (canonicalize_snapshot s) = Inr p" and "snapshot_content_hash c s = Inr h"
    and "ws_snapshot_hash s = h" and "length (ws_nodes s) \<le> 100000"
  using assms by (auto simp: compile_def bind_r_Inr validate_snapshot_bounds_def split: if_splits)

lemma compile_wf: "compile c s h = Inr p \<Longrightarrow> plan_wf p \<and> ep_snapshot p = canonicalize_snapshot s"
  using build_plan_wf [OF compile_Inr(1) canonical_order_canonicalize] compile_Inr(4)
  by (simp add: canonicalize_snapshot_def)

lemma plan_wfD:
  assumes "plan_wf p"
  shows "ep_nodes p = map (\<lambda>n. (wn_node_id n, n)) (ws_nodes (ep_snapshot p))"
    and "bwf (ep_nodes p)" and "length (ep_nodes p) \<le> 100000"
    and "ep_transitions p = map (\<lambda>t. (wt_transition_id t, t)) (ws_transitions (ep_snapshot p))"
    and "bwf (ep_transitions p)"
    and "ep_loops p = map (\<lambda>d. (ld_loop_id d, d)) (ws_loop_descriptors (ep_snapshot p))"
    and "bwf (ep_loops p)"
    and "\<forall>e \<in> set (ws_entry_nodes (ep_snapshot p)). bcontains (ep_nodes p) e"
    and "\<forall>t \<in> set (bvalues (ep_transitions p)).
          bcontains (ep_nodes p) (wt_from_node t) \<and> bcontains (ep_nodes p) (wt_to_node t)"
    and "plan_outgoing p n = sort_key edge_key (filter (\<lambda>t. wt_from_node t = n) (bvalues (ep_transitions p)))"
    and "\<forall>t \<in> set (bvalues (ep_transitions p)). \<forall>l. wt_declared_loop_id t = Some l \<longrightarrow>
          (\<exists>d. loop_descriptor p l = Some d \<and> ld_maximum_iterations d \<noteq> 0
             \<and> wt_from_node t = ld_body_exit d \<and> wt_to_node t = ld_body_entry d)"
    and "acyclic (dag_edges (bvalues (ep_transitions p)))"
    and "\<forall>r \<in> set (plan_route_rules p n). wr_node_id r = n
          \<and> (\<exists>t. plan_transition p (wr_destination_transition r) = Some t \<and> wt_from_node t = n)"
  by (insert assms, unfold plan_wf_def, elim conjE, assumption)
     (insert assms, unfold plan_wf_def, blast)+

lemma plan_wf_transitions: "plan_wf p \<Longrightarrow> bvalues (ep_transitions p) = ws_transitions (ep_snapshot p)"
  by (simp add: plan_wfD(4) comp_def)

lemma plan_wf_transition:
  "plan_wf p \<Longrightarrow> plan_transition p k = Some t \<longleftrightarrow> t \<in> set (bvalues (ep_transitions p)) \<and> wt_transition_id t = k"
  unfolding plan_transition_def using bget_mem [OF plan_wfD(5), of p k t]
  by (auto simp: plan_wfD(4))

lemma v1_cycle_reported:
  assumes grp: "\<And>n. group_get outgoing n = sort_key edge_key (filter (\<lambda>t. wt_from_node t = n) ts)"
    and "validate_v1_cycles nodes outgoing = Inl e"
  shows "\<exists>t \<in> set ts. e = PlUnboundedCycle (wt_transition_id t) \<and> wt_declared_loop_id t = None
           \<and> (wt_to_node t, wt_from_node t) \<in> (dag_edges ts)\<^sup>*"
proof -
  let ?adj = "bmap_values loop_free_edges outgoing"
  from assms(2) obtain i where e: "e = PlUnboundedCycle i" and "check_cycles ?adj (bkeys nodes) [] = Inl i"
    by (auto simp: validate_v1_cycles_def split: sum.splits)
  then have "closes_cycle ?adj i"
    by (blast dest: check_cycles_err)
  then obtain n x where x: "x \<in> set (edges_of ?adj n)" "cy_id x = i" and walk: "(cy_to x, n) \<in> (dag_edges ts)\<^sup>*"
    unfolding closes_cycle_def v1_edges(2) [OF grp] by blast
  from x(1) obtain t where "t \<in> set ts" "wt_from_node t = n" "wt_declared_loop_id t = None"
    "cy_id x = wt_transition_id t" "cy_to x = wt_to_node t"
    by (auto simp: edges_of_group group_get_map grp set_loop_free_edges)
  with e x(2) walk show ?thesis
    by auto
qed

lemma canonicalize_clear:
  "canonicalize_snapshot (s\<lparr>ws_snapshot_hash := h\<rparr>) = (canonicalize_snapshot s)\<lparr>ws_snapshot_hash := h\<rparr>"
  by (simp add: canonicalize_snapshot_def)

lemma sort_mset_eq: "mset xs = mset ys \<Longrightarrow> sort xs = sort ys"
  by (metis mset_sort properties_for_sort sorted_sort)

section \<open>Properties\<close>

definition demo_port :: "string \<Rightarrow> worker_port" where
  "demo_port name = \<lparr>wp_name = name, wp_schema_ref = None, wp_required = True\<rparr>"

definition demo_node :: "stable_id \<Rightarrow> worker_executor_kind \<Rightarrow> worker_node" where
  "demo_node i ex = \<lparr>wn_node_id = i, wn_node_type = ''step'', wn_node_version = 1,
     wn_contribution_hash = zero_digest [], wn_inputs = [demo_port ''in''], wn_outputs = [demo_port ''out''],
     wn_executor = ex, wn_config = JNull, wn_capability_ref = None, wn_result_schema_ref = None\<rparr>"

definition demo_transition :: "stable_id \<Rightarrow> stable_id \<Rightarrow> stable_id \<Rightarrow> int \<Rightarrow> stable_id option \<Rightarrow> worker_transition" where
  "demo_transition i a b prio l = \<lparr>wt_transition_id = i, wt_from_node = a, wt_from_port = ''out'', wt_to_node = b,
     wt_to_port = ''in'', wt_priority = prio, wt_predicate = None, wt_declared_loop_id = l\<rparr>"

definition demo_budget :: worker_budget where
  "demo_budget = \<lparr>wb_turns = 9, wb_attempts = 9, wb_tool_calls = 9, wb_tokens = 9, wb_cost_micros = 9,
     wb_actions = 9, wb_depth = 9, wb_fanout = 9, wb_parallel = 9, wb_deadline_ms = 9\<rparr>"

text \<open>Draft, review, and back to draft at most three times; otherwise done.\<close>

definition demo_snapshot :: worker_frozen_run_snapshot where
  "demo_snapshot = \<lparr>ws_snapshot_id = ''s'', ws_snapshot_hash = zero_digest [], ws_chat_id = ''c'', ws_run_id = ''r'',
     ws_schema_version = 1, ws_compiler_version = WORKER_COMPILER_VERSION, ws_workflow_hash = zero_digest [],
     ws_nodes = [demo_node ''review'' ExPure, demo_node ''draft'' ExPure, demo_node ''done'' ExTerminal],
     ws_transitions = [demo_transition ''t1'' ''draft'' ''review'' 0 None, demo_transition ''t3'' ''review'' ''done'' 5 None,
        demo_transition ''t2'' ''review'' ''draft'' 1 (Some ''again'')],
     ws_entry_nodes = [''draft''],
     ws_loop_descriptors = [\<lparr>ld_loop_id = ''again'', ld_maximum_iterations = 3, ld_body_entry = ''draft'', ld_body_exit = ''review''\<rparr>],
     ws_join_descriptors = [], ws_route_rules = [], ws_authority_manifest_ref = ''m'',
     ws_authority_manifest_hash = zero_digest [], ws_capability_bindings = [], ws_capability_refs = [],
     ws_workspace_identity = JNull, ws_budget = demo_budget, ws_history_mode = LocalSqlite\<rparr>"

definition demo_codec :: plan_codec where
  "demo_codec = \<lparr>pc_snapshot_to_vec = (\<lambda>_. Some []), pc_value_to_vec = (\<lambda>_. Some []), pc_jcs_snapshot = (\<lambda>_. Some []),
     pc_jcs_plan = (\<lambda>_. Some []), pc_sha = zero_digest\<rparr>"

definition demo_plan :: execution_plan where
  "demo_plan = (case compile demo_codec demo_snapshot (zero_digest []) of Inr p \<Rightarrow> p)"

lemma demo_build_ok: "is_ok (build_plan demo_codec (canonicalize_snapshot demo_snapshot))"
  by code_simp

lemma demo_compiles_ok: "is_ok (compile demo_codec demo_snapshot (zero_digest []))"
proof -
  have "valid_sha256 (zero_digest [])"
    by code_simp
  then have "compile demo_codec demo_snapshot (zero_digest []) = build_plan demo_codec (canonicalize_snapshot demo_snapshot)"
    by (simp add: compile_def validate_snapshot_bounds_def snapshot_content_hash_def demo_snapshot_def demo_codec_def
        SUPPORTED_WORKER_SCHEMA_VERSION_def zero_digest_def)
  with demo_build_ok show ?thesis
    by simp
qed

lemma demo_compiles: "compile demo_codec demo_snapshot (zero_digest []) = Inr demo_plan"
  using demo_compiles_ok by (auto simp: demo_plan_def elim: is_okE)

text \<open>The plan, written out.\<close>

lemma demo_plan_value [code]:
  "demo_plan =
     \<lparr>ep_snapshot = demo_snapshot\<lparr>
        ws_nodes := [demo_node ''done'' ExTerminal, demo_node ''draft'' ExPure, demo_node ''review'' ExPure],
        ws_transitions := [demo_transition ''t1'' ''draft'' ''review'' 0 None,
          demo_transition ''t2'' ''review'' ''draft'' 1 (Some ''again''), demo_transition ''t3'' ''review'' ''done'' 5 None]\<rparr>,
      ep_nodes = [(''done'', demo_node ''done'' ExTerminal), (''draft'', demo_node ''draft'' ExPure),
        (''review'', demo_node ''review'' ExPure)],
      ep_outgoing = [(''draft'', [demo_transition ''t1'' ''draft'' ''review'' 0 None]),
        (''review'', [demo_transition ''t2'' ''review'' ''draft'' 1 (Some ''again''), demo_transition ''t3'' ''review'' ''done'' 5 None])],
      ep_transitions = [(''t1'', demo_transition ''t1'' ''draft'' ''review'' 0 None),
        (''t2'', demo_transition ''t2'' ''review'' ''draft'' 1 (Some ''again'')), (''t3'', demo_transition ''t3'' ''review'' ''done'' 5 None)],
      ep_loops = [(''again'', \<lparr>ld_loop_id = ''again'', ld_maximum_iterations = 3, ld_body_entry = ''draft'', ld_body_exit = ''review''\<rparr>)],
      ep_joins = [], ep_routes = [], ep_fingerprint = zero_digest []\<rparr>"
  (is "_ = ?p")
proof -
  have "build_plan demo_codec (canonicalize_snapshot demo_snapshot) = Inr ?p"
    by code_simp
  with compile_Inr(1) [OF demo_compiles] show ?thesis
    by simp
qed

text \<open>
  C4. A compiled plan has no unbounded cycle: without the transitions that declare a loop the graph
  of the snapshot's transitions is acyclic, and every transition that declares a loop goes from the
  exit to the entry of a declared loop body with a positive iteration bound.
\<close>

theorem compile_bounds_every_cycle:
  assumes "compile c s h = Inr p"
  shows "acyclic (dag_edges (ws_transitions s))
    \<and> (\<forall>t \<in> set (ws_transitions s). \<forall>l. wt_declared_loop_id t = Some l \<longrightarrow>
         (\<exists>d. loop_descriptor p l = Some d \<and> d \<in> set (ws_loop_descriptors s) \<and> 0 < ld_maximum_iterations d
            \<and> wt_from_node t = ld_body_exit d \<and> wt_to_node t = ld_body_entry d))"
proof -
  from compile_wf [OF assms] have wf: "plan_wf p" and snap: "ep_snapshot p = canonicalize_snapshot s"
    by auto
  have vals: "set (bvalues (ep_transitions p)) = set (ws_transitions s)"
    by (simp add: plan_wf_transitions [OF wf] snap canonicalize_snapshot_def del: set_map)
  have "loop_descriptor p l = Some d \<Longrightarrow> d \<in> set (ws_loop_descriptors s)" for l d
    by (auto simp: plan_wfD(6) [OF wf] snap loop_descriptor_def canonicalize_snapshot_def dest!: bget_self_keyed)
  then have "\<forall>t \<in> set (ws_transitions s). \<forall>l. wt_declared_loop_id t = Some l \<longrightarrow>
         (\<exists>d. loop_descriptor p l = Some d \<and> d \<in> set (ws_loop_descriptors s) \<and> 0 < ld_maximum_iterations d
            \<and> wt_from_node t = ld_body_exit d \<and> wt_to_node t = ld_body_entry d)"
    using plan_wfD(11) [OF wf] unfolding vals by (metis word_gt_0)
  moreover have "dag_edges (bvalues (ep_transitions p)) = dag_edges (ws_transitions s)"
    unfolding dag_edges_def vals ..
  ultimately show ?thesis
    using plan_wfD(12) [OF wf] by simp
qed

theorem compile_bounds_every_cycle_witness:
  "acyclic (dag_edges (ws_transitions demo_snapshot))
   \<and> (\<exists>d. loop_descriptor demo_plan ''again'' = Some d \<and> 0 < ld_maximum_iterations d)"
proof -
  have "demo_transition ''t2'' ''review'' ''draft'' 1 (Some ''again'') \<in> set (ws_transitions demo_snapshot)"
    by (simp add: demo_snapshot_def)
  then show ?thesis
    using compile_bounds_every_cycle [OF demo_compiles] by (force simp: demo_transition_def)
qed

text \<open>
  The compiled plan is the snapshot's graph: a node lookup finds exactly the nodes of the
  snapshot (with their ports in canonical order), a transition lookup exactly its transitions, both
  ends of a transition are nodes, entry nodes are nodes, and the outgoing transitions of a node are
  its transitions in ascending order of priority and, for equal priorities, of identifier.
\<close>

theorem compile_indexes_graph:
  assumes "compile c s h = Inr p"
  shows "(plan_node p i = Some n \<longleftrightarrow> (\<exists>m \<in> set (ws_nodes s). wn_node_id m = i \<and> n = canonicalize_node m))
    \<and> (plan_transition p k = Some t \<longleftrightarrow> t \<in> set (ws_transitions s) \<and> wt_transition_id t = k)
    \<and> (t \<in> set (ws_transitions s) \<longrightarrow> plan_node p (wt_from_node t) \<noteq> None \<and> plan_node p (wt_to_node t) \<noteq> None)
    \<and> (\<forall>e \<in> set (ws_entry_nodes s). plan_node p e \<noteq> None)
    \<and> set (plan_outgoing p i) = {t \<in> set (ws_transitions s). wt_from_node t = i}
    \<and> distinct (plan_outgoing p i) \<and> sorted (map edge_key (plan_outgoing p i))"
proof -
  from compile_wf [OF assms] have wf: "plan_wf p" and snap: "ep_snapshot p = canonicalize_snapshot s"
    by auto
  have nodes: "ep_nodes p = map (\<lambda>n. (wn_node_id n, n)) (map canonicalize_node (sort_key wn_node_id (ws_nodes s)))"
    by (simp add: plan_wfD(1) [OF wf] snap canonicalize_snapshot_def)
  have vals: "set (bvalues (ep_transitions p)) = set (ws_transitions s)"
    by (simp add: plan_wf_transitions [OF wf] snap canonicalize_snapshot_def del: set_map)
  have "distinct (map wt_transition_id (bvalues (ep_transitions p)))"
    using bwf_distinct [OF plan_wfD(5) [OF wf]]
    unfolding plan_wf_transitions [OF wf] by (simp add: plan_wfD(4) [OF wf] comp_def)
  then have "distinct (bvalues (ep_transitions p))"
    unfolding distinct_map by blast
  then have out: "set (plan_outgoing p i) = {t \<in> set (ws_transitions s). wt_from_node t = i}"
    "distinct (plan_outgoing p i)" "sorted (map edge_key (plan_outgoing p i))"
    unfolding plan_wfD(10) [OF wf] set_sort set_filter vals by (simp_all add: distinct_sort)
  have ends: "plan_node p (wt_from_node t) \<noteq> None \<and> plan_node p (wt_to_node t) \<noteq> None"
    if "t \<in> set (ws_transitions s)"
    using plan_wfD(9) [OF wf] that unfolding vals by (simp add: plan_node_def bcontains_def)
  have entries: "\<forall>e \<in> set (ws_entry_nodes s). plan_node p e \<noteq> None"
    using plan_wfD(8) [OF wf] by (simp add: plan_node_def bcontains_def snap canonicalize_snapshot_def)
  have node: "plan_node p i = Some n \<longleftrightarrow> (\<exists>m \<in> set (ws_nodes s). wn_node_id m = i \<and> n = canonicalize_node m)"
    using bget_mem [OF plan_wfD(2) [OF wf], of i n] unfolding plan_node_def nodes by auto
  show ?thesis
    using out ends entries node plan_wf_transition [OF wf, of k t] unfolding vals by blast
qed

theorem compile_indexes_graph_witness:
  "plan_node demo_plan ''draft'' \<noteq> None
   \<and> plan_transition demo_plan ''t1'' = Some (demo_transition ''t1'' ''draft'' ''review'' 0 None)
   \<and> set (plan_outgoing demo_plan ''draft'') = {demo_transition ''t1'' ''draft'' ''review'' 0 None}"
proof -
  have t1: "demo_transition ''t1'' ''draft'' ''review'' 0 None \<in> set (ws_transitions demo_snapshot)"
    by (simp add: demo_snapshot_def)
  have "{t \<in> set (ws_transitions demo_snapshot). wt_from_node t = ''draft''} = {demo_transition ''t1'' ''draft'' ''review'' 0 None}"
    by (auto simp: demo_snapshot_def demo_transition_def)
  moreover have "wt_transition_id (demo_transition ''t1'' ''draft'' ''review'' 0 None) = ''t1''"
    and "''draft'' \<in> set (ws_entry_nodes demo_snapshot)"
    by (simp_all add: demo_transition_def demo_snapshot_def)
  ultimately show ?thesis
    using t1 compile_indexes_graph [OF demo_compiles, where i = "''draft''" and k = "''t1''"
      and t = "demo_transition ''t1'' ''draft'' ''review'' 0 None"]
    by blast
qed

text \<open>
  The order in which a snapshot lists its nodes, transitions, entries, loops, joins, routes,
  bindings and capability references is irrelevant: reordering them leaves the content hash and the
  result of compilation as they were, provided identifiers are distinct within each vector and the
  length of the JSON encoding does not depend on the order.
\<close>

theorem compile_order_independent:
  assumes "s' = s\<lparr>ws_nodes := ns, ws_transitions := ts, ws_entry_nodes := es, ws_loop_descriptors := ls,
      ws_join_descriptors := js, ws_route_rules := rs, ws_capability_bindings := bs, ws_capability_refs := cs\<rparr>"
    and "mset (ws_nodes s) = mset ns" and "distinct (map wn_node_id (ws_nodes s))"
    and "mset (ws_transitions s) = mset ts" and "distinct (map wt_transition_id (ws_transitions s))"
    and "mset (ws_entry_nodes s) = mset es"
    and "mset (ws_loop_descriptors s) = mset ls" and "distinct (map ld_loop_id (ws_loop_descriptors s))"
    and "mset (ws_join_descriptors s) = mset js" and "distinct (map jd_join_id (ws_join_descriptors s))"
    and "mset (ws_route_rules s) = mset rs" and "distinct (map wr_route_id (ws_route_rules s))"
    and "mset (ws_capability_bindings s) = mset bs" and "distinct (map fcb_capability_id (ws_capability_bindings s))"
    and "mset (ws_capability_refs s) = mset cs"
    and len: "map_option length (pc_snapshot_to_vec c s) = map_option length (pc_snapshot_to_vec c s')"
  shows "snapshot_content_hash c s' = snapshot_content_hash c s \<and> compile c s' h = compile c s h"
proof -
  note sorted = sort_key_distinct_mset [OF assms(2,3)] sort_key_distinct_mset [OF assms(4,5)] sort_mset_eq [OF assms(6)]
    sort_key_distinct_mset [OF assms(7,8)] sort_key_distinct_mset [OF assms(9,10)] sort_key_distinct_mset [OF assms(11,12)]
    sort_key_distinct_mset [OF assms(13,14)] sort_mset_eq [OF assms(15)]
  have canon: "canonicalize_snapshot s' = canonicalize_snapshot s"
    by (simp add: canonicalize_snapshot_def assms(1) sorted)
  have hash: "snapshot_content_hash c s' = snapshot_content_hash c s"
    by (simp only: snapshot_content_hash_def canonicalize_clear canon)
  have lens: "length ns = length (ws_nodes s)" "length ts = length (ws_transitions s)" "length es = length (ws_entry_nodes s)"
    "length ls = length (ws_loop_descriptors s)" "length js = length (ws_join_descriptors s)" "length rs = length (ws_route_rules s)"
    "length bs = length (ws_capability_bindings s)" "length cs = length (ws_capability_refs s)"
    using assms(2,4,6,7,9,11,13,15) [THEN mset_eq_length] by simp_all
  have fields: "ws_nodes s' = ns" "ws_transitions s' = ts" "ws_entry_nodes s' = es" "ws_loop_descriptors s' = ls"
    "ws_join_descriptors s' = js" "ws_route_rules s' = rs" "ws_capability_bindings s' = bs" "ws_capability_refs s' = cs"
    "ws_schema_version s' = ws_schema_version s" "ws_compiler_version s' = ws_compiler_version s"
    "ws_workflow_hash s' = ws_workflow_hash s" "ws_authority_manifest_hash s' = ws_authority_manifest_hash s"
    "ws_snapshot_hash s' = ws_snapshot_hash s"
    by (simp_all add: assms(1))
  have "bind_r (ok_or (pc_snapshot_to_vec c s') PlEncoding)
      (\<lambda>bytes. if 16 * 1024 * 1024 < length bytes then Inl PlPlanTooLarge else Inr ())
    = bind_r (ok_or (pc_snapshot_to_vec c s) PlEncoding)
      (\<lambda>bytes. if 16 * 1024 * 1024 < length bytes then Inl PlPlanTooLarge else Inr ())"
    using len by (cases "pc_snapshot_to_vec c s"; cases "pc_snapshot_to_vec c s'") simp_all
  then have "validate_snapshot_bounds c s' = validate_snapshot_bounds c s"
    by (simp only: validate_snapshot_bounds_def fields lens)
  then show ?thesis
    using canon hash by (simp only: compile_def fields simp_thms)
qed

theorem compile_order_independent_witness:
  "compile demo_codec (demo_snapshot\<lparr>ws_nodes := rev (ws_nodes demo_snapshot), ws_transitions := rev (ws_transitions demo_snapshot)\<rparr>)
     (zero_digest []) = Inr demo_plan"
proof -
  let ?s = demo_snapshot
  let ?s' = "?s\<lparr>ws_nodes := rev (ws_nodes ?s), ws_transitions := rev (ws_transitions ?s)\<rparr>"
  have "?s' = ?s\<lparr>ws_nodes := rev (ws_nodes ?s), ws_transitions := rev (ws_transitions ?s), ws_entry_nodes := ws_entry_nodes ?s,
     ws_loop_descriptors := ws_loop_descriptors ?s, ws_join_descriptors := ws_join_descriptors ?s, ws_route_rules := ws_route_rules ?s,
     ws_capability_bindings := ws_capability_bindings ?s, ws_capability_refs := ws_capability_refs ?s\<rparr>"
    by simp
  from compile_order_independent [OF this, of demo_codec "zero_digest []"] demo_compiles show ?thesis
    by (simp add: demo_snapshot_def demo_node_def demo_transition_def demo_codec_def)
qed

text \<open>
  C39. The cycle check decides acyclicity whatever the order of its traversal: on transitions that
  loaded, it succeeds exactly when the graph without declared loop transitions is acyclic, and when
  it fails it names a transition of that graph that lies on a cycle of it.
\<close>

theorem v1_cycle_check_decides:
  assumes "load_transitions c nodes ts [] [] = Inr (tm, unsorted)"
  shows "(validate_v1_cycles nodes (bmap_values (sort_key edge_key) unsorted) = Inr () \<longleftrightarrow> acyclic (dag_edges ts))
    \<and> (\<forall>e. validate_v1_cycles nodes (bmap_values (sort_key edge_key) unsorted) = Inl e \<longrightarrow>
         (\<exists>t \<in> set ts. e = PlUnboundedCycle (wt_transition_id t) \<and> wt_declared_loop_id t = None
            \<and> (wt_to_node t, wt_from_node t) \<in> (dag_edges ts)\<^sup>*))"
proof -
  let ?out = "bmap_values (sort_key edge_key) unsorted"
  from assms have ends: "\<forall>t \<in> set ts. bcontains nodes (wt_from_node t) \<and> bcontains nodes (wt_to_node t)"
    and "unsorted = fold (\<lambda>t. bpush (wt_from_node t) t) ts []"
    by (auto simp: load_transitions_Inr dest: validate_transition_ends)
  then have grp: "group_get ?out n = sort_key edge_key (filter (\<lambda>t. wt_from_node t = n) ts)" for n
    by (simp add: group_get_map group_get_fold)
  have "validate_v1_cycles nodes ?out = Inr () \<longleftrightarrow> is_ok (validate_v1_cycles nodes ?out)"
    by (cases "validate_v1_cycles nodes ?out") simp_all
  with validate_v1_cycles_iff [of ?out, OF grp ends] v1_cycle_reported [of ?out, OF grp] show ?thesis
    by blast
qed

definition demo_cyclic :: "worker_transition list" where
  "demo_cyclic = [demo_transition ''t1'' ''a'' ''b'' 0 None, demo_transition ''t2'' ''b'' ''a'' 0 None]"

definition demo_cyclic_nodes :: "(string, worker_node) bmap" where
  "demo_cyclic_nodes = [(''a'', demo_node ''a'' ExPure), (''b'', demo_node ''b'' ExPure)]"

definition demo_cyclic_load :: "(string, worker_transition) bmap \<times> (string, worker_transition list) bmap" where
  "demo_cyclic_load = (case load_transitions demo_codec demo_cyclic_nodes demo_cyclic [] [] of Inr r \<Rightarrow> r)"

theorem v1_cycle_check_decides_witness:
  "validate_v1_cycles demo_cyclic_nodes (bmap_values (sort_key edge_key) (snd demo_cyclic_load)) = Inl (PlUnboundedCycle ''t2'')
   \<and> \<not> acyclic (dag_edges demo_cyclic)"
proof -
  have "is_ok (load_transitions demo_codec demo_cyclic_nodes demo_cyclic [] [])"
    by code_simp
  then have load: "load_transitions demo_codec demo_cyclic_nodes demo_cyclic [] [] = Inr (fst demo_cyclic_load, snd demo_cyclic_load)"
    by (auto simp: demo_cyclic_load_def elim: is_okE)
  have err: "validate_v1_cycles demo_cyclic_nodes (bmap_values (sort_key edge_key) (snd demo_cyclic_load)) = Inl (PlUnboundedCycle ''t2'')"
    by code_simp
  with v1_cycle_check_decides [OF load] show ?thesis
    by simp
qed

end
