(* ===== verification/Scheduler.thy ===== *)
theory Scheduler
  imports Plan
begin

text \<open>
  The deterministic token scheduler (\<open>SchedulerV1\<close> of
  \<open>crates/aworkit-workflow-worker/src/scheduler.rs\<close>). A token marks a runnable node; its progress
  over an edge of the plan is proposed, and takes effect only when the trusted core acknowledges
  the committed proposal. Methods that take \<open>&mut self\<close> return their result and the next state,
  also on their error paths.
\<close>

section \<open>Data\<close>

datatype token_state = TReady | TInFlight | TAwaitingCommit | TCompleted | TSuspended | TCancelled

datatype external_completion = WaitInputReceived

record token =
  tk_token_id :: stable_id
  tk_node_id :: stable_id
  tk_context_revision :: u64
  tk_logical_tick :: u64
  tk_branch_lineage :: string
  tk_state :: token_state
  tk_awaiting_proposal_id :: "stable_id option"
  tk_selected_transition_id :: "stable_id option"
  tk_selected_loop_id :: "stable_id option"
  tk_external_completion :: "external_completion option"

text \<open>
  \<open>ReadyKeyV1\<close> with its derived order: logical tick, node ordinal, branch lineage, token id.
\<close>

type_synonym ready_key = "u64 \<times> u32 \<times> string \<times> string"

record transition_proposal =
  tp_proposal_id :: stable_id
  tp_token_id :: stable_id
  tp_transition_id :: stable_id
  tp_facts :: json

record terminal_proposal =
  tmp_proposal_id :: stable_id
  tmp_token_id :: stable_id
  tmp_outcome :: string
  tmp_facts :: json

record wait_input_proposal =
  wip_proposal_id :: stable_id
  wip_token_id :: stable_id
  wip_facts :: json

record ack_admission =
  aa_duplicate :: bool
  aa_admitted_token :: "token option"

record scheduler_checkpoint =
  scp_logical_tick :: u64
  scp_next_token_ordinal :: u64
  scp_committed_cursor :: u64
  scp_tokens :: "token list"
  scp_ready :: "ready_key list"
  scp_loop_counts :: "(string, u32) bmap"
  scp_acknowledged_proposals :: "(string, string option) bmap"

datatype scheduler_error =
    SvUnknownNode string
  | SvUnknownToken string
  | SvInvalidTokenState string
  | SvNoTransition string
  | SvInvalidPredicate string
  | SvLoopExhausted string
  | SvAckMismatch
  | SvNotTerminal string
  | SvNotWait string
  | SvCursorRegression
  | SvInvalidCheckpoint
  | SvInvalidIdentifier

record scheduler =
  sch_plan :: execution_plan
  sch_node_ordinals :: "(string, u32) bmap"
  sch_ready :: "ready_key list"
  sch_tokens :: "(string, token) bmap"
  sch_next_token_ordinal :: u64
  sch_logical_tick :: u64
  sch_committed_cursor :: u64
  sch_loop_counts :: "(string, u32) bmap"
  sch_acknowledged_proposals :: "(string, string option) bmap"

section \<open>Creation and admission\<close>

definition node_ordinals :: "execution_plan \<Rightarrow> (string, u32) bmap" where
  "node_ordinals p =
     bmap_of_list (map (\<lambda>(i, n). (wn_node_id n, of_nat i)) (List.enumerate 0 (ws_nodes (ep_snapshot p))))"

definition sch_new :: "execution_plan \<Rightarrow> scheduler" where
  "sch_new p = \<lparr>sch_plan = p, sch_node_ordinals = node_ordinals p, sch_ready = [], sch_tokens = [],
     sch_next_token_ordinal = 1, sch_logical_tick = 0, sch_committed_cursor = 0, sch_loop_counts = [],
     sch_acknowledged_proposals = []\<rparr>"

definition sch_stable_id :: "digest \<Rightarrow> string \<Rightarrow> scheduler_error + stable_id" where
  "sch_stable_id sha material =
     (case derived_id sha ''worker.'' material of Inl _ \<Rightarrow> Inl SvInvalidIdentifier | Inr i \<Rightarrow> Inr i)"

definition token_material :: "scheduler \<Rightarrow> stable_id \<Rightarrow> string \<Rightarrow> string" where
  "token_material s node_id lineage =
     ''token:'' @ ep_fingerprint (sch_plan s) @ '':'' @ show_nat (unat (sch_next_token_ordinal s)) @ '':''
       @ node_id @ '':'' @ lineage"

definition ready_key :: "u32 \<Rightarrow> token \<Rightarrow> ready_key" where
  "ready_key ordinal t = (tk_logical_tick t, ordinal, tk_branch_lineage t, tk_token_id t)"

definition sch_enqueue ::
  "digest \<Rightarrow> stable_id \<Rightarrow> u64 \<Rightarrow> string \<Rightarrow> scheduler \<Rightarrow> (scheduler_error + token) \<times> scheduler" where
  "sch_enqueue sha node_id context_revision lineage s =
     (case bget (sch_node_ordinals s) node_id of
        None \<Rightarrow> (Inl (SvUnknownNode node_id), s)
      | Some ordinal \<Rightarrow>
          if lineage = [] \<or> 512 < length lineage then (Inl SvInvalidCheckpoint, s)
          else (case sch_stable_id sha (token_material s node_id lineage) of
            Inl e \<Rightarrow> (Inl e, s)
          | Inr token_id \<Rightarrow>
              (case checked_add (sch_next_token_ordinal s) 1 of
                 None \<Rightarrow> (Inl SvInvalidCheckpoint, s)
               | Some next \<Rightarrow>
                   let token = \<lparr>tk_token_id = token_id, tk_node_id = node_id, tk_context_revision = context_revision,
                         tk_logical_tick = sch_logical_tick s, tk_branch_lineage = lineage, tk_state = TReady,
                         tk_awaiting_proposal_id = None, tk_selected_transition_id = None,
                         tk_selected_loop_id = None, tk_external_completion = None\<rparr> in
                   (Inr token,
                    s\<lparr>sch_next_token_ordinal := next, sch_ready := sinsert (ready_key ordinal token) (sch_ready s),
                      sch_tokens := binsert token_id token (sch_tokens s)\<rparr>))))"

fun sch_seed :: "digest \<Rightarrow> stable_id list \<Rightarrow> u64 \<Rightarrow> scheduler \<Rightarrow> (scheduler_error + token list) \<times> scheduler" where
  "sch_seed sha [] context_revision s = (Inr [], s)"
| "sch_seed sha (node # nodes) context_revision s =
     (case sch_enqueue sha node context_revision ''root'' s of
        (Inl e, s') \<Rightarrow> (Inl e, s')
      | (Inr token, s') \<Rightarrow>
          (case sch_seed sha nodes context_revision s' of
             (Inl e, s'') \<Rightarrow> (Inl e, s'')
           | (Inr tokens, s'') \<Rightarrow> (Inr (token # tokens), s'')))"

definition sch_seed_entries :: "digest \<Rightarrow> u64 \<Rightarrow> scheduler \<Rightarrow> (scheduler_error + token list) \<times> scheduler" where
  "sch_seed_entries sha context_revision s =
     sch_seed sha (ws_entry_nodes (ep_snapshot (sch_plan s))) context_revision s"

definition sch_claim_next :: "scheduler \<Rightarrow> token option \<times> scheduler" where
  "sch_claim_next s =
     (case sch_ready s of
        [] \<Rightarrow> (None, s)
      | (_, _, _, token_id) # ready \<Rightarrow>
          let s' = s\<lparr>sch_ready := ready\<rparr> in
          (case bget (sch_tokens s) token_id of
             None \<Rightarrow> (None, s')
           | Some token \<Rightarrow>
               if tk_state token \<noteq> TReady then (None, s')
               else let token' = token\<lparr>tk_state := TInFlight\<rparr> in
                    (Some token', s'\<lparr>sch_tokens := binsert token_id token' (sch_tokens s)\<rparr>)))"

section \<open>Proposals\<close>

text \<open>\<open>RoutingError::to_string()\<close>.\<close>

fun routing_error_display :: "routing_error \<Rightarrow> string" where
  "routing_error_display (NoMatch n) = ''no declared route matched node '' @ n"
| "routing_error_display (InvalidPredicate m) = ''route predicate is malformed: '' @ m"
| "routing_error_display PredicateTooComplex = ''route predicate exceeded its bounded complexity''"

fun first_transition :: "stable_id \<Rightarrow> json \<Rightarrow> worker_transition list \<Rightarrow> scheduler_error + worker_transition" where
  "first_transition node_id facts [] = Inl (SvNoTransition node_id)"
| "first_transition node_id facts (t # ts) =
     (case wt_predicate t of
        None \<Rightarrow> Inr t
      | Some predicate \<Rightarrow>
          (case evaluate_predicate predicate facts of
             Inl e \<Rightarrow> Inl (SvInvalidPredicate (routing_error_display e))
           | Inr True \<Rightarrow> Inr t
           | Inr False \<Rightarrow> first_transition node_id facts ts))"

definition select_transition :: "execution_plan \<Rightarrow> stable_id \<Rightarrow> json \<Rightarrow> scheduler_error + worker_transition" where
  "select_transition p node_id facts =
     (let routes = plan_route_rules p node_id in
      if routes \<noteq> []
      then (case choose_route node_id routes facts of
              Inl e \<Rightarrow> Inl (SvInvalidPredicate (routing_error_display e))
            | Inr decision \<Rightarrow> ok_or (plan_transition p (rd_transition_id decision)) (SvNoTransition node_id))
      else first_transition node_id facts (plan_outgoing p node_id))"

definition pending_in :: "(string, token) bmap \<Rightarrow> stable_id \<Rightarrow> usize" where
  "pending_in tokens loop_id =
     bcount (\<lambda>t. tk_state t = TAwaitingCommit \<and> tk_selected_loop_id t = Some loop_id) tokens"

definition committed_in :: "(string, u32) bmap \<Rightarrow> stable_id \<Rightarrow> u32" where
  "committed_in counts loop_id = (case bget counts loop_id of None \<Rightarrow> 0 | Some n \<Rightarrow> n)"

definition loop_capacity :: "scheduler \<Rightarrow> worker_transition \<Rightarrow> scheduler_error + unit" where
  "loop_capacity s transition =
     (case wt_declared_loop_id transition of
        None \<Rightarrow> Inr ()
      | Some loop_id \<Rightarrow>
          bind_r (ok_or (loop_descriptor (sch_plan s) loop_id) (SvLoopExhausted loop_id)) (\<lambda>descriptor.
          bind_r (ok_or (try_from_usize (pending_in (sch_tokens s) loop_id)) (SvLoopExhausted loop_id)) (\<lambda>pending.
          if ld_maximum_iterations descriptor \<le> saturating_add (committed_in (sch_loop_counts s) loop_id) pending
          then Inl (SvLoopExhausted loop_id) else Inr ())))"

definition in_flight :: "scheduler \<Rightarrow> stable_id \<Rightarrow> scheduler_error + token" where
  "in_flight s token_id =
     bind_r (ok_or (bget (sch_tokens s) token_id) (SvUnknownToken token_id)) (\<lambda>token.
     if tk_state token \<noteq> TInFlight then Inl (SvInvalidTokenState token_id) else Inr token)"

definition await_commit ::
  "stable_id \<Rightarrow> stable_id option \<Rightarrow> stable_id option \<Rightarrow> external_completion option \<Rightarrow> token \<Rightarrow> token" where
  "await_commit proposal_id transition_id loop_id external token =
     token\<lparr>tk_state := TAwaitingCommit, tk_awaiting_proposal_id := Some proposal_id,
           tk_selected_transition_id := transition_id, tk_selected_loop_id := loop_id,
           tk_external_completion := external\<rparr>"

definition transition_material :: "scheduler \<Rightarrow> stable_id \<Rightarrow> stable_id \<Rightarrow> string" where
  "transition_material s token_id transition_id =
     ''transition:'' @ ep_fingerprint (sch_plan s) @ '':'' @ token_id @ '':'' @ transition_id"

definition propose_transition ::
  "digest \<Rightarrow> stable_id \<Rightarrow> json \<Rightarrow> scheduler \<Rightarrow> (scheduler_error + transition_proposal) \<times> scheduler" where
  "propose_transition sha token_id facts s =
     (case bind_r (in_flight s token_id) (\<lambda>token.
           bind_r (select_transition (sch_plan s) (tk_node_id token) facts) (\<lambda>transition.
           bind_r (loop_capacity s transition) (\<lambda>_.
           bind_r (sch_stable_id sha (transition_material s token_id (wt_transition_id transition))) (\<lambda>proposal_id.
           Inr (transition, proposal_id))))) of
        Inl e \<Rightarrow> (Inl e, s)
      | Inr (transition, proposal_id) \<Rightarrow>
          (Inr \<lparr>tp_proposal_id = proposal_id, tp_token_id = token_id, tp_transition_id = wt_transition_id transition,
                tp_facts = facts\<rparr>,
           s\<lparr>sch_tokens := bmodify token_id
              (await_commit proposal_id (Some (wt_transition_id transition)) (wt_declared_loop_id transition) None)
              (sch_tokens s)\<rparr>))"

definition names_executor :: "execution_plan \<Rightarrow> stable_id \<Rightarrow> worker_executor_kind \<Rightarrow> bool" where
  "names_executor p node_id kind = (case plan_node p node_id of None \<Rightarrow> False | Some n \<Rightarrow> wn_executor n = kind)"

definition terminal_material :: "scheduler \<Rightarrow> stable_id \<Rightarrow> string \<Rightarrow> string" where
  "terminal_material s token_id outcome =
     ''terminal:'' @ ep_fingerprint (sch_plan s) @ '':'' @ token_id @ '':'' @ outcome"

definition propose_terminal ::
  "digest \<Rightarrow> stable_id \<Rightarrow> string \<Rightarrow> json \<Rightarrow> scheduler \<Rightarrow> (scheduler_error + terminal_proposal) \<times> scheduler" where
  "propose_terminal sha token_id outcome facts s =
     (case bind_r (in_flight s token_id) (\<lambda>token.
           if \<not> names_executor (sch_plan s) (tk_node_id token) ExTerminal then Inl (SvNotTerminal token_id)
           else if trim_is_empty outcome \<or> 256 < length outcome then Inl SvInvalidCheckpoint
           else sch_stable_id sha (terminal_material s token_id outcome)) of
        Inl e \<Rightarrow> (Inl e, s)
      | Inr proposal_id \<Rightarrow>
          (Inr \<lparr>tmp_proposal_id = proposal_id, tmp_token_id = token_id, tmp_outcome = outcome, tmp_facts = facts\<rparr>,
           s\<lparr>sch_tokens := bmodify token_id (await_commit proposal_id None None None) (sch_tokens s)\<rparr>))"

definition wait_material :: "scheduler \<Rightarrow> stable_id \<Rightarrow> string" where
  "wait_material s token_id = ''wait-input:'' @ ep_fingerprint (sch_plan s) @ '':'' @ token_id"

definition propose_wait_input ::
  "digest \<Rightarrow> stable_id \<Rightarrow> json \<Rightarrow> scheduler \<Rightarrow> (scheduler_error + wait_input_proposal) \<times> scheduler" where
  "propose_wait_input sha token_id facts s =
     (case bind_r (in_flight s token_id) (\<lambda>token.
           if \<not> names_executor (sch_plan s) (tk_node_id token) ExWait then Inl (SvNotWait token_id)
           else sch_stable_id sha (wait_material s token_id)) of
        Inl e \<Rightarrow> (Inl e, s)
      | Inr proposal_id \<Rightarrow>
          (Inr \<lparr>wip_proposal_id = proposal_id, wip_token_id = token_id, wip_facts = facts\<rparr>,
           s\<lparr>sch_tokens := bmodify token_id (await_commit proposal_id None None (Some WaitInputReceived))
              (sch_tokens s)\<rparr>))"

section \<open>Acknowledgements\<close>

definition awaiting_source :: "(string, token) bmap \<Rightarrow> stable_id \<Rightarrow> token option" where
  "awaiting_source tokens proposal_id =
     find (\<lambda>t. tk_awaiting_proposal_id t = Some proposal_id) (bvalues tokens)"

text \<open>The lookup by proposal, then by the identifier of the token it found.\<close>

definition ack_source :: "scheduler \<Rightarrow> stable_id \<Rightarrow> scheduler_error + token" where
  "ack_source s proposal_id =
     bind_r (ok_or (map_option tk_token_id (awaiting_source (sch_tokens s) proposal_id)) SvAckMismatch) (\<lambda>source_id.
     ok_or (bget (sch_tokens s) source_id) SvAckMismatch)"

definition complete_token :: "stable_id \<Rightarrow> u64 \<Rightarrow> scheduler \<Rightarrow> scheduler" where
  "complete_token source_id committed_cursor s =
     s\<lparr>sch_tokens := bmodify source_id (\<lambda>t. t\<lparr>tk_state := TCompleted\<rparr>) (sch_tokens s),
       sch_logical_tick := saturating_add (sch_logical_tick s) 1, sch_committed_cursor := committed_cursor\<rparr>"

definition acknowledge_transition ::
  "digest \<Rightarrow> stable_id \<Rightarrow> u64 \<Rightarrow> u64 \<Rightarrow> scheduler \<Rightarrow> (scheduler_error + ack_admission) \<times> scheduler" where
  "acknowledge_transition sha proposal_id committed_cursor context_revision s =
     (if committed_cursor < sch_committed_cursor s then (Inl SvCursorRegression, s)
      else case bget (sch_acknowledged_proposals s) proposal_id of
        Some child \<Rightarrow>
          (Inr \<lparr>aa_duplicate = True, aa_admitted_token = Option.bind child (bget (sch_tokens s))\<rparr>, s)
      | None \<Rightarrow>
          if committed_cursor \<le> sch_committed_cursor s then (Inl SvCursorRegression, s)
          else case bind_r (ack_source s proposal_id) (\<lambda>source.
                    if tk_state source \<noteq> TAwaitingCommit \<or> tk_external_completion source \<noteq> None
                    then Inl SvAckMismatch
                    else bind_r (ok_or (tk_selected_transition_id source) SvAckMismatch) (\<lambda>transition_id.
                         bind_r (ok_or (plan_transition (sch_plan s) transition_id) SvAckMismatch) (\<lambda>transition.
                         Inr (source, transition)))) of
              Inl e \<Rightarrow> (Inl e, s)
            | Inr (source, transition) \<Rightarrow>
                let s1 = (case tk_selected_loop_id source of
                      None \<Rightarrow> s
                    | Some loop_id \<Rightarrow>
                        s\<lparr>sch_loop_counts := binsert loop_id (committed_in (sch_loop_counts s) loop_id + 1)
                           (sch_loop_counts s)\<rparr>);
                    s2 = complete_token (tk_token_id source) committed_cursor s1 in
                (case sch_enqueue sha (wt_to_node transition) context_revision (tk_branch_lineage source) s2 of
                   (Inl e, s3) \<Rightarrow> (Inl e, s3)
                 | (Inr child, s3) \<Rightarrow>
                     (Inr \<lparr>aa_duplicate = False, aa_admitted_token = Some child\<rparr>,
                      s3\<lparr>sch_acknowledged_proposals :=
                          binsert proposal_id (Some (tk_token_id child)) (sch_acknowledged_proposals s3)\<rparr>)))"

text \<open>\<open>acknowledge_terminal\<close> and \<open>acknowledge_wait_input\<close> differ in the executor and completion they require.\<close>

definition completes_as :: "scheduler \<Rightarrow> worker_executor_kind \<Rightarrow> external_completion option \<Rightarrow> token \<Rightarrow> bool" where
  "completes_as s kind external source \<longleftrightarrow>
     tk_selected_transition_id source = None \<and> tk_external_completion source = external
     \<and> names_executor (sch_plan s) (tk_node_id source) kind"

definition acknowledge_completion ::
  "worker_executor_kind \<Rightarrow> external_completion option \<Rightarrow> stable_id \<Rightarrow> u64 \<Rightarrow> scheduler
     \<Rightarrow> (scheduler_error + ack_admission) \<times> scheduler" where
  "acknowledge_completion kind external proposal_id committed_cursor s =
     (if committed_cursor < sch_committed_cursor s then (Inl SvCursorRegression, s)
      else if bcontains (sch_acknowledged_proposals s) proposal_id
      then (case awaiting_source (sch_tokens s) proposal_id of
              None \<Rightarrow> (Inl SvAckMismatch, s)
            | Some source \<Rightarrow>
                if \<not> completes_as s kind external source then (Inl SvAckMismatch, s)
                else (Inr \<lparr>aa_duplicate = True, aa_admitted_token = None\<rparr>, s))
      else if committed_cursor \<le> sch_committed_cursor s then (Inl SvCursorRegression, s)
      else case ack_source s proposal_id of
        Inl e \<Rightarrow> (Inl e, s)
      | Inr source \<Rightarrow>
          if tk_state source \<noteq> TAwaitingCommit \<or> \<not> completes_as s kind external source
          then (Inl SvAckMismatch, s)
          else let s1 = complete_token (tk_token_id source) committed_cursor s in
               (Inr \<lparr>aa_duplicate = False, aa_admitted_token = None\<rparr>,
                s1\<lparr>sch_acknowledged_proposals := binsert proposal_id None (sch_acknowledged_proposals s1)\<rparr>))"

definition acknowledge_terminal :: "stable_id \<Rightarrow> u64 \<Rightarrow> scheduler \<Rightarrow> (scheduler_error + ack_admission) \<times> scheduler" where
  "acknowledge_terminal = acknowledge_completion ExTerminal None"

definition acknowledge_wait_input :: "stable_id \<Rightarrow> u64 \<Rightarrow> scheduler \<Rightarrow> (scheduler_error + ack_admission) \<times> scheduler" where
  "acknowledge_wait_input = acknowledge_completion ExWait (Some WaitInputReceived)"

section \<open>Suspension and cancellation\<close>

definition sch_suspend :: "stable_id \<Rightarrow> scheduler \<Rightarrow> (scheduler_error + unit) \<times> scheduler" where
  "sch_suspend token_id s =
     (case in_flight s token_id of
        Inl e \<Rightarrow> (Inl e, s)
      | Inr _ \<Rightarrow> (Inr (), s\<lparr>sch_tokens := bmodify token_id (\<lambda>t. t\<lparr>tk_state := TSuspended\<rparr>) (sch_tokens s)\<rparr>))"

text \<open>The state is written before the ordinal is looked up; a miss leaves the token ready but unqueued.\<close>

definition sch_resume :: "stable_id \<Rightarrow> scheduler \<Rightarrow> (scheduler_error + unit) \<times> scheduler" where
  "sch_resume token_id s =
     (case bget (sch_tokens s) token_id of
        None \<Rightarrow> (Inl (SvUnknownToken token_id), s)
      | Some token \<Rightarrow>
          if tk_state token \<noteq> TSuspended then (Inl (SvInvalidTokenState token_id), s)
          else let s1 = s\<lparr>sch_tokens := bmodify token_id (\<lambda>t. t\<lparr>tk_state := TReady\<rparr>) (sch_tokens s)\<rparr> in
               (case bget (sch_node_ordinals s) (tk_node_id token) of
                  None \<Rightarrow> (Inl (SvUnknownNode (tk_node_id token)), s1)
                | Some ordinal \<Rightarrow> (Inr (), s1\<lparr>sch_ready := sinsert (ready_key ordinal token) (sch_ready s1)\<rparr>)))"

definition lineage_matches :: "string \<Rightarrow> string \<Rightarrow> bool" where
  "lineage_matches candidate cancelled \<longleftrightarrow>
     candidate = cancelled
     \<or> (take (length cancelled) candidate = cancelled
        \<and> (case drop (length cancelled) candidate of [] \<Rightarrow> False | c # _ \<Rightarrow> c = CHR ''/''))"

definition cancellable :: "string \<Rightarrow> token \<Rightarrow> bool" where
  "cancellable lineage t \<longleftrightarrow>
     lineage_matches (tk_branch_lineage t) lineage \<and> tk_state t \<notin> {TAwaitingCommit, TCompleted, TCancelled}"

definition cancel_lineage :: "string \<Rightarrow> scheduler \<Rightarrow> usize \<times> scheduler" where
  "cancel_lineage lineage s =
     (bcount (cancellable lineage) (sch_tokens s),
      s\<lparr>sch_ready := filter (\<lambda>(_, _, l, _). \<not> lineage_matches l lineage) (sch_ready s),
        sch_tokens := bmap_values (\<lambda>t. if cancellable lineage t then t\<lparr>tk_state := TCancelled\<rparr> else t) (sch_tokens s)\<rparr>)"

definition sch_is_quiescent :: "scheduler \<Rightarrow> bool" where
  "sch_is_quiescent s \<longleftrightarrow>
     sch_ready s = []
     \<and> list_all (\<lambda>t. tk_state t \<in> {TCompleted, TSuspended, TCancelled}) (bvalues (sch_tokens s))"

section \<open>Checkpoint and restore\<close>

definition sch_checkpoint :: "scheduler \<Rightarrow> scheduler_checkpoint" where
  "sch_checkpoint s =
     \<lparr>scp_logical_tick = sch_logical_tick s, scp_next_token_ordinal = sch_next_token_ordinal s,
      scp_committed_cursor = sch_committed_cursor s, scp_tokens = bvalues (sch_tokens s),
      scp_ready = sch_ready s, scp_loop_counts = sch_loop_counts s,
      scp_acknowledged_proposals = sch_acknowledged_proposals s\<rparr>"

definition checkpoint_loop_bound :: "execution_plan \<Rightarrow> stable_id \<Rightarrow> u32 option" where
  "checkpoint_loop_bound p loop_id = map_option ld_maximum_iterations (loop_descriptor p loop_id)"

definition valid_completion :: "worker_executor_kind \<Rightarrow> external_completion option \<Rightarrow> bool" where
  "valid_completion kind external \<longleftrightarrow>
     (kind, external) \<in> {(ExTerminal, None), (ExWait, Some WaitInputReceived)}"

definition validate_restored_token :: "execution_plan \<Rightarrow> token \<Rightarrow> bool" where
  "validate_restored_token p t =
     (case plan_node p (tk_node_id t) of
        None \<Rightarrow> False
      | Some node \<Rightarrow>
          tk_branch_lineage t \<noteq> [] \<and> length (tk_branch_lineage t) \<le> 512
          \<and> (if tk_state t \<in> {TReady, TInFlight, TSuspended, TCancelled}
             then tk_awaiting_proposal_id t = None \<and> tk_selected_transition_id t = None
                  \<and> tk_selected_loop_id t = None \<and> tk_external_completion t = None
             else tk_awaiting_proposal_id t \<noteq> None
                  \<and> (case tk_selected_transition_id t of
                       Some transition_id \<Rightarrow>
                         (case plan_transition p transition_id of
                            None \<Rightarrow> False
                          | Some transition \<Rightarrow>
                              wt_from_node transition = tk_node_id t
                              \<and> wt_declared_loop_id transition = tk_selected_loop_id t
                              \<and> tk_external_completion t = None)
                     | None \<Rightarrow>
                         tk_selected_loop_id t = None
                         \<and> valid_completion (wn_executor node) (tk_external_completion t))))"

fun restore_tokens ::
  "execution_plan \<Rightarrow> u64 \<Rightarrow> token list \<Rightarrow> string list \<Rightarrow> (string, token) bmap \<Rightarrow> scheduler_error + (string, token) bmap" where
  "restore_tokens p tick [] proposal_ids tokens = Inr tokens"
| "restore_tokens p tick (t # ts) proposal_ids tokens =
     (if tick < tk_logical_tick t \<or> \<not> validate_restored_token p t
         \<or> (case tk_awaiting_proposal_id t of None \<Rightarrow> False | Some i \<Rightarrow> i \<in> set proposal_ids)
         \<or> bcontains tokens (tk_token_id t)
      then Inl SvInvalidCheckpoint
      else restore_tokens p tick ts
             (case tk_awaiting_proposal_id t of None \<Rightarrow> proposal_ids | Some i \<Rightarrow> sinsert i proposal_ids)
             (binsert (tk_token_id t) t tokens))"

fun restore_ready ::
  "(string, u32) bmap \<Rightarrow> (string, token) bmap \<Rightarrow> ready_key list \<Rightarrow> ready_key list \<Rightarrow> scheduler_error + ready_key list" where
  "restore_ready ordinals tokens [] ready = Inr ready"
| "restore_ready ordinals tokens (k # ks) ready =
     (case k of (logical_tick, node_ordinal, lineage, token_id) \<Rightarrow>
        (case bget tokens token_id of
           None \<Rightarrow> Inl SvInvalidCheckpoint
         | Some t \<Rightarrow>
             if tk_state t \<noteq> TReady \<or> tk_logical_tick t \<noteq> logical_tick \<or> tk_branch_lineage t \<noteq> lineage
                \<or> bget ordinals (tk_node_id t) \<noteq> Some node_ordinal
             then Inl SvInvalidCheckpoint
             else if k \<in> set ready then Inl SvInvalidCheckpoint
             else restore_ready ordinals tokens ks (sinsert k ready)))"

definition restored_ack_ok :: "execution_plan \<Rightarrow> (string, token) bmap \<Rightarrow> string \<times> string option \<Rightarrow> scheduler_error + unit" where
  "restored_ack_ok p tokens e =
     (if \<not> valid_stable_id (fst e) then Inl SvInvalidCheckpoint
      else bind_r (ok_or (awaiting_source tokens (fst e)) SvInvalidCheckpoint) (\<lambda>source.
        if tk_state source \<noteq> TCompleted then Inl SvInvalidCheckpoint
        else case snd e of
          Some child_id \<Rightarrow>
            bind_r (ok_or (bget tokens child_id) SvInvalidCheckpoint) (\<lambda>child.
            bind_r (ok_or (Option.bind (tk_selected_transition_id source) (plan_transition p)) SvInvalidCheckpoint) (\<lambda>transition.
            if wt_to_node transition \<noteq> tk_node_id child \<or> tk_branch_lineage source \<noteq> tk_branch_lineage child
               \<or> tk_external_completion source \<noteq> None
            then Inl SvInvalidCheckpoint else Inr ()))
        | None \<Rightarrow>
            if tk_selected_transition_id source \<noteq> None
               \<or> \<not> (case plan_node p (tk_node_id source) of None \<Rightarrow> False
                     | Some node \<Rightarrow> valid_completion (wn_executor node) (tk_external_completion source))
            then Inl SvInvalidCheckpoint else Inr ()))"

definition restored_token_acked :: "(string, string option) bmap \<Rightarrow> token \<Rightarrow> bool" where
  "restored_token_acked acks t =
     (case tk_awaiting_proposal_id t of None \<Rightarrow> False | Some proposal \<Rightarrow> bcontains acks proposal)"

definition restored_loop_ok :: "(string, u32) bmap \<Rightarrow> (string, token) bmap \<Rightarrow> worker_loop_descriptor \<Rightarrow> bool" where
  "restored_loop_ok counts tokens d =
     (case (try_from_usize (pending_in tokens (ld_loop_id d)) :: u32 option) of
        None \<Rightarrow> False
      | Some pending \<Rightarrow> saturating_add (committed_in counts (ld_loop_id d)) pending \<le> ld_maximum_iterations d)"

definition sch_restore :: "execution_plan \<Rightarrow> scheduler_checkpoint \<Rightarrow> scheduler_error + scheduler" where
  "sch_restore p cp =
     (if scp_next_token_ordinal cp = 0
         \<or> (case (try_from_usize (length (scp_acknowledged_proposals cp)) :: u64 option) of
              None \<Rightarrow> True | Some n \<Rightarrow> scp_committed_cursor cp < n)
      then Inl SvInvalidCheckpoint
      else if \<exists>(loop_id, count) \<in> set (scp_loop_counts cp). \<not> valid_stable_id loop_id
         \<or> (case checkpoint_loop_bound p loop_id of None \<Rightarrow> True | Some bound \<Rightarrow> bound < count)
      then Inl SvInvalidCheckpoint
      else
        bind_r (restore_tokens p (scp_logical_tick cp) (scp_tokens cp) [] []) (\<lambda>tokens.
        bind_r (ok_or (Option.bind (try_from_usize (length tokens)) (\<lambda>n. checked_add n 1)) SvInvalidCheckpoint) (\<lambda>expected_next.
        if scp_next_token_ordinal cp \<noteq> expected_next then Inl SvInvalidCheckpoint
        else
          bind_r (restore_ready (node_ordinals p) tokens (scp_ready cp) []) (\<lambda>ready.
          if \<exists>t \<in> set (bvalues tokens). tk_state t = TReady \<and> (\<forall>(_, _, _, token_id) \<in> set ready. token_id \<noteq> tk_token_id t)
          then Inl SvInvalidCheckpoint
          else
            bind_r (try_all (restored_ack_ok p tokens) (scp_acknowledged_proposals cp)) (\<lambda>_.
            if \<exists>t \<in> set (bvalues tokens).
                 (tk_state t = TCompleted) \<noteq> restored_token_acked (scp_acknowledged_proposals cp) t
                 \<or> (tk_state t = TAwaitingCommit \<and> restored_token_acked (scp_acknowledged_proposals cp) t)
            then Inl SvInvalidCheckpoint
            else if \<exists>d \<in> set (ws_loop_descriptors (ep_snapshot p)). \<not> restored_loop_ok (scp_loop_counts cp) tokens d
            then Inl SvInvalidCheckpoint
            else Inr \<lparr>sch_plan = p, sch_node_ordinals = node_ordinals p, sch_ready = ready, sch_tokens = tokens,
                      sch_next_token_ordinal = scp_next_token_ordinal cp, sch_logical_tick = scp_logical_tick cp,
                      sch_committed_cursor = scp_committed_cursor cp, sch_loop_counts = scp_loop_counts cp,
                      sch_acknowledged_proposals = scp_acknowledged_proposals cp\<rparr>)))))"

end
