(* ===== verification/Scheduler_Inv.thy ===== *)
theory Scheduler_Inv
  imports Scheduler
begin

text \<open>
  The invariant of the scheduler: tokens are well formed against the plan, the ready set holds
  exactly the keys of the ready tokens, proposal identifiers are unique, a token is completed
  exactly when its proposal is acknowledged, and no loop has more committed and pending iterations
  than the plan allows. It is kept by replacing a live token, by admitting a new one and by
  acknowledging one, of which every operation is composed.
\<close>

section \<open>The invariant\<close>

definition token_key :: "execution_plan \<Rightarrow> token \<Rightarrow> ready_key" where
  "token_key p t = ready_key (the (bget (node_ordinals p) (tk_node_id t))) t"

definition token_ok :: "execution_plan \<Rightarrow> u64 \<Rightarrow> string \<Rightarrow> token \<Rightarrow> bool" where
  "token_ok p tick k t \<longleftrightarrow> tk_token_id t = k \<and> tk_logical_tick t \<le> tick \<and> validate_restored_token p t
     \<and> (\<forall>pid. tk_awaiting_proposal_id t = Some pid \<longrightarrow> valid_stable_id pid)"

definition ready_ok :: "execution_plan \<Rightarrow> (string, token) bmap \<Rightarrow> ready_key list \<Rightarrow> bool" where
  "ready_ok p tokens ready \<longleftrightarrow> swf ready
     \<and> (\<forall>key. key \<in> set ready \<longleftrightarrow> (\<exists>k t. bget tokens k = Some t \<and> tk_state t = TReady \<and> key = token_key p t))"

abbreviation proposals_unique :: "(string, token) bmap \<Rightarrow> bool" where
  "proposals_unique \<equiv> bunique (\<lambda>t. tk_awaiting_proposal_id t \<noteq> None) tk_awaiting_proposal_id"

text \<open>What an acknowledged proposal says of the token that proposed it and of the token it admitted.\<close>

definition ack_linked :: "execution_plan \<Rightarrow> (string, token) bmap \<Rightarrow> string \<Rightarrow> string option \<Rightarrow> bool" where
  "ack_linked p tokens pid child \<longleftrightarrow>
     (\<exists>k src. bget tokens k = Some src \<and> tk_awaiting_proposal_id src = Some pid \<and> tk_state src = TCompleted
        \<and> (case child of
             None \<Rightarrow> tk_selected_transition_id src = None
           | Some cid \<Rightarrow>
               \<exists>c t. bget tokens cid = Some c
                 \<and> Option.bind (tk_selected_transition_id src) (plan_transition p) = Some t
                 \<and> wt_to_node t = tk_node_id c \<and> tk_branch_lineage src = tk_branch_lineage c))"

definition acks_ok :: "execution_plan \<Rightarrow> (string, token) bmap \<Rightarrow> (string, string option) bmap \<Rightarrow> bool" where
  "acks_ok p tokens acks \<longleftrightarrow> bwf acks \<and> bforall (ack_linked p tokens) acks
     \<and> bforall (\<lambda>_ t. (tk_state t = TCompleted) = restored_token_acked acks t) tokens"

definition loops_ok :: "execution_plan \<Rightarrow> (string, token) bmap \<Rightarrow> (string, u32) bmap \<Rightarrow> bool" where
  "loops_ok p tokens counts \<longleftrightarrow> bwf counts
     \<and> bforall (\<lambda>l _. valid_stable_id l \<and> loop_descriptor p l \<noteq> None) counts
     \<and> (\<forall>l d. loop_descriptor p l = Some d \<longrightarrow>
          unat (committed_in counts l) + pending_in tokens l \<le> unat (ld_maximum_iterations d))"

text \<open>The type of \<open>declared_loop_id\<close> makes it a parsed identifier.\<close>

definition plan_typed :: "execution_plan \<Rightarrow> bool" where
  "plan_typed p \<longleftrightarrow> (\<forall>t \<in> set (bvalues (ep_transitions p)). \<forall>l. wt_declared_loop_id t = Some l \<longrightarrow> valid_stable_id l)"

definition sch_inv :: "scheduler \<Rightarrow> bool" where
  "sch_inv s \<longleftrightarrow>
     plan_wf (sch_plan s) \<and> sch_node_ordinals s = node_ordinals (sch_plan s)
     \<and> bwf (sch_tokens s) \<and> bforall (token_ok (sch_plan s) (sch_logical_tick s)) (sch_tokens s)
     \<and> unat (sch_next_token_ordinal s) = length (sch_tokens s) + 1
     \<and> ready_ok (sch_plan s) (sch_tokens s) (sch_ready s)
     \<and> proposals_unique (sch_tokens s)
     \<and> acks_ok (sch_plan s) (sch_tokens s) (sch_acknowledged_proposals s)
     \<and> length (sch_acknowledged_proposals s) \<le> unat (sch_committed_cursor s)
     \<and> loops_ok (sch_plan s) (sch_tokens s) (sch_loop_counts s) \<and> plan_typed (sch_plan s)"

lemma sch_invD:
  assumes "sch_inv s"
  shows "plan_wf (sch_plan s)" and "sch_node_ordinals s = node_ordinals (sch_plan s)"
    and "bwf (sch_tokens s)" and "bforall (token_ok (sch_plan s) (sch_logical_tick s)) (sch_tokens s)"
    and "unat (sch_next_token_ordinal s) = length (sch_tokens s) + 1"
    and "ready_ok (sch_plan s) (sch_tokens s) (sch_ready s)"
    and "proposals_unique (sch_tokens s)"
    and "acks_ok (sch_plan s) (sch_tokens s) (sch_acknowledged_proposals s)"
    and "length (sch_acknowledged_proposals s) \<le> unat (sch_committed_cursor s)"
    and "loops_ok (sch_plan s) (sch_tokens s) (sch_loop_counts s)" and "plan_typed (sch_plan s)"
  using assms by (simp_all add: sch_inv_def)

lemma sch_inv_token: "sch_inv s \<Longrightarrow> bget (sch_tokens s) k = Some t \<Longrightarrow> token_ok (sch_plan s) (sch_logical_tick s) k t"
  by (blast dest: sch_invD(4) bforallD)

section \<open>Ordinals and keys\<close>

lemma bget_bmap_of_list:
  assumes "distinct (map fst es)"
  shows "bget (bmap_of_list es) k = map_of es k"
  unfolding bmap_of_list_def bm.get_load [OF assms] by (cases "map_of es k") simp_all

lemma map_fst_enumerate: "map fst (map (\<lambda>(i, x). (f x, g i)) (List.enumerate k xs)) = map f xs"
  by (induction xs arbitrary: k) auto

lemma node_ordinals_get:
  assumes "plan_wf p"
  shows "bget (node_ordinals p) n \<noteq> None \<longleftrightarrow> plan_node p n \<noteq> None"
proof -
  let ?ns = "ws_nodes (ep_snapshot p)"
  let ?es = "map (\<lambda>(i, n). (wn_node_id n, of_nat i :: u32)) (List.enumerate 0 ?ns)"
  have fst: "map fst ?es = map wn_node_id ?ns"
    by (rule map_fst_enumerate)
  have "bkeys (ep_nodes p) = map wn_node_id ?ns"
    by (simp add: plan_wfD(1) [OF assms] comp_def)
  with bwf_distinct [OF plan_wfD(2) [OF assms]] have dist: "distinct (map fst ?es)"
    by (simp only: fst)
  have "bget (node_ordinals p) n = map_of ?es n"
    unfolding node_ordinals_def by (rule bget_bmap_of_list [OF dist])
  moreover have "map_of ?es n \<noteq> None \<longleftrightarrow> n \<in> set (map fst ?es)"
    by (simp only: map_of_eq_None_iff set_map not_not)
  moreover have "plan_node p n \<noteq> None \<longleftrightarrow> n \<in> set (map wn_node_id ?ns)"
    by (simp add: plan_node_def plan_wfD(1) [OF assms] map_of_eq_None_iff image_image)
  ultimately show ?thesis
    by (simp only: fst)
qed

lemma token_key_id: "token_key p t = token_key p t' \<Longrightarrow> tk_token_id t = tk_token_id t'"
  by (simp add: token_key_def ready_key_def)

text \<open>The fields that no operation changes after admission.\<close>

definition same_place :: "token \<Rightarrow> token \<Rightarrow> bool" where
  "same_place t t' \<longleftrightarrow> tk_token_id t' = tk_token_id t \<and> tk_node_id t' = tk_node_id t
     \<and> tk_logical_tick t' = tk_logical_tick t \<and> tk_branch_lineage t' = tk_branch_lineage t"

lemma same_place_key: "same_place t t' \<Longrightarrow> token_key p t' = token_key p t"
  by (simp add: same_place_def token_key_def ready_key_def)

definition keeps_completed :: "(string, token) bmap \<Rightarrow> (string, token) bmap \<Rightarrow> bool" where
  "keeps_completed m m' \<longleftrightarrow> (\<forall>k t. bget m k = Some t \<longrightarrow>
     (tk_state t = TCompleted \<longrightarrow> bget m' k = Some t) \<and> (\<exists>t'. bget m' k = Some t' \<and> same_place t t'))"

lemma same_place_refl [simp]: "same_place t t"
  by (simp add: same_place_def)

lemma keeps_completed_replace:
  "bget m k = Some t \<Longrightarrow> same_place t t' \<Longrightarrow> tk_state t \<noteq> TCompleted \<Longrightarrow> keeps_completed m (binsert k t' m)"
  by (auto simp: keeps_completed_def)

lemma keeps_completed_new: "bget m k = None \<Longrightarrow> keeps_completed m (binsert k t' m)"
  by (auto simp: keeps_completed_def)

lemma ack_linked_mono:
  assumes "ack_linked p m pid child" and "keeps_completed m m'"
  shows "ack_linked p m' pid child"
proof -
  from assms(1) obtain j src where src: "bget m j = Some src" "tk_awaiting_proposal_id src = Some pid"
      "tk_state src = TCompleted"
    and child: "case child of None \<Rightarrow> tk_selected_transition_id src = None
      | Some cid \<Rightarrow> \<exists>c t. bget m cid = Some c \<and> Option.bind (tk_selected_transition_id src) (plan_transition p) = Some t
          \<and> wt_to_node t = tk_node_id c \<and> tk_branch_lineage src = tk_branch_lineage c"
    unfolding ack_linked_def by blast
  have "case child of None \<Rightarrow> tk_selected_transition_id src = None
      | Some cid \<Rightarrow> \<exists>c t. bget m' cid = Some c \<and> Option.bind (tk_selected_transition_id src) (plan_transition p) = Some t
          \<and> wt_to_node t = tk_node_id c \<and> tk_branch_lineage src = tk_branch_lineage c"
  proof (cases child)
    case (Some cid)
    with child obtain c t where c: "bget m cid = Some c" "Option.bind (tk_selected_transition_id src) (plan_transition p) = Some t"
      "wt_to_node t = tk_node_id c" "tk_branch_lineage src = tk_branch_lineage c"
      by auto
    moreover from assms(2) c(1) obtain c' where "bget m' cid = Some c'" "same_place c c'"
      unfolding keeps_completed_def by blast
    ultimately show ?thesis
      using Some by (auto simp: same_place_def)
  qed (use child in simp)
  with src assms(2) show ?thesis
    unfolding ack_linked_def keeps_completed_def by blast
qed

section \<open>Replacing a live token\<close>

lemma ex_bget_binsert:
  "(\<exists>j x. bget (binsert k t m) j = Some x \<and> Q x) \<longleftrightarrow> Q t \<or> (\<exists>j x. j \<noteq> k \<and> bget m j = Some x \<and> Q x)"
  (is "?L \<longleftrightarrow> ?R")
proof
  assume ?L
  then obtain j x where "bget (binsert k t m) j = Some x" "Q x"
    by blast
  then show ?R
    by (cases "j = k") auto
next
  assume ?R
  then show ?L
    by (elim disjE) (auto intro: exI [of _ k])
qed

lemma ex_bget_binsert_new:
  assumes "bget m k = None"
  shows "(\<exists>j x. bget (binsert k t m) j = Some x \<and> Q x) \<longleftrightarrow> Q t \<or> (\<exists>j x. bget m j = Some x \<and> Q x)"
proof -
  have "(\<exists>j x. j \<noteq> k \<and> bget m j = Some x \<and> Q x) \<longleftrightarrow> (\<exists>j x. bget m j = Some x \<and> Q x)"
    using assms by (metis option.distinct(1))
  then show ?thesis
    by (simp only: ex_bget_binsert)
qed

lemma ready_ok_mem:
  "ready_ok p m ready \<Longrightarrow> key \<in> set ready \<longleftrightarrow> (\<exists>j x. bget m j = Some x \<and> tk_state x = TReady \<and> key = token_key p x)"
  unfolding ready_ok_def by blast

lemma ready_ok_replace:
  assumes ok: "ready_ok p m ready" and t: "bget m k = Some t" and same: "same_place t t'"
    and ids: "bforall (\<lambda>k t. tk_token_id t = k) m" and "swf ready'"
    and set': "set ready' = (if tk_state t' = TReady then insert (token_key p t) (set ready) else set ready - {token_key p t})"
  shows "ready_ok p (binsert k t' m) ready'"
proof -
  have other: "token_key p x \<noteq> token_key p t" if "bget m j = Some x" "j \<noteq> k" for j x
    using that bforallD [OF ids that(1)] bforallD [OF ids t] token_key_id [of p x t] by auto
  have mem: "key \<in> set ready \<longleftrightarrow> (\<exists>j x. bget m j = Some x \<and> tk_state x = TReady \<and> key = token_key p x)" for key
    by (rule ready_ok_mem [OF ok])
  have "key \<in> set ready' \<longleftrightarrow> (\<exists>j x. bget (binsert k t' m) j = Some x \<and> tk_state x = TReady \<and> key = token_key p x)" for key
  proof -
    have "(\<exists>j x. bget (binsert k t' m) j = Some x \<and> tk_state x = TReady \<and> key = token_key p x) \<longleftrightarrow>
        (tk_state t' = TReady \<and> key = token_key p t')
        \<or> (\<exists>j x. j \<noteq> k \<and> bget m j = Some x \<and> tk_state x = TReady \<and> key = token_key p x)"
      by (rule ex_bget_binsert)
    moreover have "key \<in> set ready - {token_key p t} \<longleftrightarrow>
        (\<exists>j x. j \<noteq> k \<and> bget m j = Some x \<and> tk_state x = TReady \<and> key = token_key p x)"
      unfolding Diff_iff mem using t other by (auto, metis option.inject)
    ultimately show ?thesis
      unfolding set' same_place_key [OF same, of p] by (auto split: if_splits)
  qed
  with \<open>swf ready'\<close> show ?thesis
    unfolding ready_ok_def by blast
qed

lemma acks_ok_replace:
  assumes "acks_ok p m acks" and "bget m k = Some t" and "same_place t t'"
    and "tk_state t \<noteq> TCompleted" and "tk_state t' \<noteq> TCompleted" and "\<not> restored_token_acked acks t'"
  shows "acks_ok p (binsert k t' m) acks"
proof -
  have "keeps_completed m (binsert k t' m)"
    using assms(2-4) by (rule keeps_completed_replace)
  then have "bforall (ack_linked p (binsert k t' m)) acks"
    using assms(1) by (auto simp: acks_ok_def elim!: bforall_mono intro: ack_linked_mono)
  moreover have "bforall (\<lambda>_ t. (tk_state t = TCompleted) = restored_token_acked acks t) (binsert k t' m)"
    using assms(1,5,6) by (auto simp: acks_ok_def bforall_def)
  ultimately show ?thesis
    using assms(1) by (simp add: acks_ok_def)
qed

lemma sch_inv_replace:
  assumes inv: "sch_inv s" and t: "bget (sch_tokens s) k = Some t" and same: "same_place t t'"
    and valid: "validate_restored_token (sch_plan s) t'"
    and live: "tk_state t \<noteq> TCompleted" "tk_state t' \<noteq> TCompleted"
    and pid: "\<And>i. tk_awaiting_proposal_id t' = Some i \<Longrightarrow>
        valid_stable_id i \<and> \<not> bcontains (sch_acknowledged_proposals s) i
        \<and> (\<forall>j x. bget (sch_tokens s) j = Some x \<longrightarrow> j \<noteq> k \<longrightarrow> tk_awaiting_proposal_id x \<noteq> Some i)"
    and ready: "swf ready'" "set ready' = (if tk_state t' = TReady then insert (token_key (sch_plan s) t) (set (sch_ready s))
        else set (sch_ready s) - {token_key (sch_plan s) t})"
    and loops: "loops_ok (sch_plan s) (binsert k t' (sch_tokens s)) (sch_loop_counts s)"
  shows "sch_inv (s\<lparr>sch_ready := ready', sch_tokens := binsert k t' (sch_tokens s)\<rparr>)"
proof -
  note D = sch_invD [OF inv]
  have ids: "bforall (\<lambda>k t. tk_token_id t = k) (sch_tokens s)"
    using D(4) by (rule bforall_mono) (simp add: token_ok_def)
  from sch_inv_token [OF inv t] same have "token_ok (sch_plan s) (sch_logical_tick s) k t'"
    using valid pid by (auto simp: token_ok_def same_place_def)
  then have toks: "bforall (token_ok (sch_plan s) (sch_logical_tick s)) (binsert k t' (sch_tokens s))"
    using D(4) by (simp add: bforall_def)
  have len: "length (binsert k t' (sch_tokens s)) = length (sch_tokens s)"
    using D(3) t by (simp add: length_binsert bcontains_def)
  have "\<not> restored_token_acked (sch_acknowledged_proposals s) t'"
    using pid by (auto simp: restored_token_acked_def split: option.splits)
  then have acks: "acks_ok (sch_plan s) (binsert k t' (sch_tokens s)) (sch_acknowledged_proposals s)"
    by (rule acks_ok_replace [OF D(8) t same live])
  have uniq: "proposals_unique (binsert k t' (sch_tokens s))"
    by (rule bunique_binsert [OF D(7)]) (use pid in \<open>auto dest: sym\<close>)
  have rdy: "ready_ok (sch_plan s) (binsert k t' (sch_tokens s)) ready'"
    by (rule ready_ok_replace [OF D(6) t same ids ready])
  show ?thesis
    unfolding sch_inv_def using D toks len acks uniq rdy loops by simp
qed

section \<open>Admitting a token\<close>

definition worker_id :: "digest \<Rightarrow> string \<Rightarrow> stable_id" where
  "worker_id sha material = ''worker.'' @ take 48 (sha material)"

lemma sch_stable_id_Inr: "sch_stable_id sha material = Inr i \<longleftrightarrow> i = worker_id sha material \<and> valid_stable_id i"
  by (auto simp: sch_stable_id_def derived_id_def worker_id_def stable_id_parse_def)

lemma sch_stable_id_ok: "hex_digest sha \<Longrightarrow> sch_stable_id sha material = Inr (worker_id sha material)"
  using derived_id_ok [of sha "''worker.''" material]
  by (simp add: sch_stable_id_def worker_id_def stable_id_byte_def is_ascii_alphanumeric_def is_ascii_digit_def byte_def)

definition new_token :: "digest \<Rightarrow> stable_id \<Rightarrow> u64 \<Rightarrow> string \<Rightarrow> scheduler \<Rightarrow> token" where
  "new_token sha node_id context_revision lineage s =
     \<lparr>tk_token_id = worker_id sha (token_material s node_id lineage), tk_node_id = node_id,
      tk_context_revision = context_revision, tk_logical_tick = sch_logical_tick s, tk_branch_lineage = lineage,
      tk_state = TReady, tk_awaiting_proposal_id = None, tk_selected_transition_id = None,
      tk_selected_loop_id = None, tk_external_completion = None\<rparr>"

definition admit_token :: "token \<Rightarrow> scheduler \<Rightarrow> scheduler" where
  "admit_token t s = s\<lparr>sch_next_token_ordinal := sch_next_token_ordinal s + 1,
     sch_ready := sinsert (ready_key (the (bget (sch_node_ordinals s) (tk_node_id t))) t) (sch_ready s),
     sch_tokens := binsert (tk_token_id t) t (sch_tokens s)\<rparr>"

lemma sch_enqueue_cases:
  assumes "sch_enqueue sha n ctx lin s = (r, s')"
  obtains (err) e where "r = Inl e" "s' = s"
  | (ok) "r = Inr (new_token sha n ctx lin s)" "s' = admit_token (new_token sha n ctx lin s) s"
      "bget (sch_node_ordinals s) n \<noteq> None" "lin \<noteq> []" "length lin \<le> 512"
      "unat (sch_next_token_ordinal s + 1) = unat (sch_next_token_ordinal s) + 1"
proof -
  let ?t = "new_token sha n ctx lin s"
  consider "bget (sch_node_ordinals s) n = None" | "lin = [] \<or> 512 < length lin"
    | e where "sch_stable_id sha (token_material s n lin) = Inl e" | "checked_add (sch_next_token_ordinal s) 1 = None"
    | ordinal nxt where "bget (sch_node_ordinals s) n = Some ordinal" "lin \<noteq> []" "length lin \<le> 512"
        "sch_stable_id sha (token_material s n lin) = Inr (tk_token_id ?t)" "checked_add (sch_next_token_ordinal s) 1 = Some nxt"
    by (cases "lin = [] \<or> 512 < length lin"; cases "bget (sch_node_ordinals s) n"; cases "sch_stable_id sha (token_material s n lin)";
        cases "checked_add (sch_next_token_ordinal s) 1") (auto simp: sch_stable_id_Inr new_token_def not_less)
  then show thesis
  proof cases
    case 5
    from 5(5) have "nxt = sch_next_token_ordinal s + 1"
      by (simp add: checked_add_def split: if_splits)
    moreover from 5(5) have "unat nxt = unat (sch_next_token_ordinal s) + 1"
      by (simp add: checked_add_Some)
    moreover from 5 assms have "r = Inr ?t" "s' = s\<lparr>sch_next_token_ordinal := nxt,
        sch_ready := sinsert (ready_key ordinal ?t) (sch_ready s), sch_tokens := binsert (tk_token_id ?t) ?t (sch_tokens s)\<rparr>"
      by (simp_all add: sch_enqueue_def Let_def) (simp_all add: new_token_def)
    ultimately show thesis
      using 5(1-3) by (intro ok) (simp_all add: admit_token_def, simp add: new_token_def)
  qed (use assms err in \<open>force simp: sch_enqueue_def split: option.splits sum.splits if_splits\<close>)+
qed

lemma pending_in_new:
  "bget m k = None \<Longrightarrow> tk_state t \<noteq> TAwaitingCommit \<Longrightarrow> pending_in (binsert k t m) l = pending_in m l"
  by (simp add: pending_in_def bcount_binsert_new)

lemma sch_inv_admit:
  assumes inv: "sch_inv s" and fresh: "bget (sch_tokens s) (tk_token_id t) = None"
    and t: "tk_state t = TReady" "tk_logical_tick t \<le> sch_logical_tick s" "validate_restored_token (sch_plan s) t"
    and node: "bget (sch_node_ordinals s) (tk_node_id t) \<noteq> None"
    and succ: "unat (sch_next_token_ordinal s + 1) = unat (sch_next_token_ordinal s) + 1"
  shows "sch_inv (admit_token t s)"
proof -
  note D = sch_invD [OF inv]
  let ?m = "binsert (tk_token_id t) t (sch_tokens s)"
  have aw: "tk_awaiting_proposal_id t = None"
    using t by (auto simp: validate_restored_token_def split: option.splits)
  then have "bforall (token_ok (sch_plan s) (sch_logical_tick s)) ?m"
    using D(4) t by (auto simp: bforall_def token_ok_def)
  moreover have "length ?m = length (sch_tokens s) + 1"
    using D(3) fresh by (simp add: length_binsert bcontains_def)
  moreover have "ready_ok (sch_plan s) ?m (sinsert (token_key (sch_plan s) t) (sch_ready s))"
  proof -
    have "key \<in> set (sinsert (token_key (sch_plan s) t) (sch_ready s)) \<longleftrightarrow>
        (\<exists>j x. bget ?m j = Some x \<and> tk_state x = TReady \<and> key = token_key (sch_plan s) x)" for key
      unfolding ex_bget_binsert_new [OF fresh] using ready_ok_mem [OF D(6), of key] t(1) by simp
    moreover have "swf (sch_ready s)"
      using D(6) unfolding ready_ok_def by blast
    ultimately show ?thesis
      unfolding ready_ok_def by blast
  qed
  moreover have "proposals_unique ?m"
    by (rule bunique_binsert [OF D(7)]) (simp add: aw)
  moreover have "acks_ok (sch_plan s) ?m (sch_acknowledged_proposals s)"
  proof -
    have "bforall (ack_linked (sch_plan s) ?m) (sch_acknowledged_proposals s)"
      using D(8) keeps_completed_new [OF fresh] by (auto simp: acks_ok_def elim!: bforall_mono intro: ack_linked_mono)
    with D(8) aw t(1) show ?thesis
      by (auto simp: acks_ok_def bforall_def restored_token_acked_def)
  qed
  moreover have "loops_ok (sch_plan s) ?m (sch_loop_counts s)"
    using D(10) fresh t(1) by (simp add: loops_ok_def pending_in_new)
  moreover have "ready_key (the (bget (sch_node_ordinals s) (tk_node_id t))) t = token_key (sch_plan s) t"
    by (simp add: token_key_def D(2))
  ultimately show ?thesis
    unfolding sch_inv_def admit_token_def using D succ by simp
qed

section \<open>Acknowledging a token\<close>

definition bump_loop :: "token \<Rightarrow> (string, u32) bmap \<Rightarrow> (string, u32) bmap" where
  "bump_loop t counts = (case tk_selected_loop_id t of None \<Rightarrow> counts
     | Some l \<Rightarrow> binsert l (committed_in counts l + 1) counts)"

lemma committed_in_bump:
  "committed_in (bump_loop t counts) l = committed_in counts l + (if tk_selected_loop_id t = Some l then 1 else 0)"
  by (auto simp: bump_loop_def committed_in_def split: option.splits)

lemma selected_loop_known:
  assumes "plan_wf p" and "plan_typed p" and "validate_restored_token p t" and "tk_selected_loop_id t = Some l"
  shows "valid_stable_id l" and "\<exists>d. loop_descriptor p l = Some d"
proof -
  from assms(3,4) obtain tid tr where "plan_transition p tid = Some tr" and decl: "wt_declared_loop_id tr = Some l"
    by (auto simp: validate_restored_token_def split: option.splits if_splits)
  then have tr: "tr \<in> set (bvalues (ep_transitions p))"
    using plan_wf_transition [OF assms(1)] by blast
  with assms(2) decl show "valid_stable_id l"
    unfolding plan_typed_def by blast
  from plan_wfD(11) [OF assms(1)] tr decl show "\<exists>d. loop_descriptor p l = Some d"
    by blast
qed

lemma loops_ok_complete:
  assumes ok: "loops_ok p m counts" and p: "plan_wf p" "plan_typed p" and m: "bwf m" "bget m k = Some t"
    and t: "tk_state t = TAwaitingCommit" "validate_restored_token p t"
  shows "loops_ok p (binsert k (t\<lparr>tk_state := TCompleted\<rparr>) m) (bump_loop t counts)"
proof -
  let ?m = "binsert k (t\<lparr>tk_state := TCompleted\<rparr>) m"
  have sum: "pending_in ?m l + of_bool (tk_selected_loop_id t = Some l) = pending_in m l" for l
    using bcount_binsert_replace [OF m, of "\<lambda>t. tk_state t = TAwaitingCommit \<and> tk_selected_loop_id t = Some l"
        "t\<lparr>tk_state := TCompleted\<rparr>"] t(1) by (simp add: pending_in_def)
  have bound: "unat (committed_in (bump_loop t counts) l) + pending_in ?m l \<le> unat (ld_maximum_iterations d)"
    if d: "loop_descriptor p l = Some d" for l d
  proof (cases "tk_selected_loop_id t = Some l")
    case True
    have le: "unat (committed_in counts l) + pending_in m l \<le> unat (ld_maximum_iterations d)"
      using ok d by (simp add: loops_ok_def)
    with sum [of l] True have "unat (committed_in counts l) + 1 \<le> unat (ld_maximum_iterations d)"
      by simp
    moreover have "unat (ld_maximum_iterations d) < 2 ^ 32"
      using unsigned_less [of "ld_maximum_iterations d"] by simp
    ultimately have "unat (committed_in counts l + 1) = unat (committed_in counts l) + 1"
      by (simp add: unat_word_ariths)
    with le sum [of l] True show ?thesis
      by (simp add: committed_in_bump)
  next
    case False
    with sum [of l] ok d show ?thesis
      by (simp add: committed_in_bump loops_ok_def)
  qed
  have "bforall (\<lambda>l _. valid_stable_id l \<and> loop_descriptor p l \<noteq> None) (bump_loop t counts)"
    using ok selected_loop_known [OF p t(2)]
    by (auto simp: loops_ok_def bump_loop_def bforall_def split: option.splits if_splits)
  moreover have "bwf (bump_loop t counts)"
    using ok by (simp add: loops_ok_def bump_loop_def split: option.splits)
  ultimately show ?thesis
    using bound by (simp add: loops_ok_def)
qed

lemma ready_ok_keep:
  assumes "ready_ok p m ready" and "bget m k = Some t" and "tk_state t \<noteq> TReady" and "tk_state t' \<noteq> TReady"
  shows "ready_ok p (binsert k t' m) ready"
proof -
  have "(\<exists>j x. bget (binsert k t' m) j = Some x \<and> tk_state x = TReady \<and> key = token_key p x)
      \<longleftrightarrow> (\<exists>j x. bget m j = Some x \<and> tk_state x = TReady \<and> key = token_key p x)" for key
    unfolding ex_bget_binsert using assms(2-4) by (metis option.inject)
  with assms(1) show ?thesis
    unfolding ready_ok_def by blast
qed

lemma proposal_not_acked:
  assumes inv: "sch_inv s" and t: "bget (sch_tokens s) k = Some t" "tk_awaiting_proposal_id t = Some pid" "tk_state t \<noteq> TCompleted"
  shows "bget (sch_acknowledged_proposals s) pid = None"
proof -
  have "(tk_state t = TCompleted) = restored_token_acked (sch_acknowledged_proposals s) t"
    using sch_invD(8) [OF inv] t(1) by (auto simp: acks_ok_def dest: bforallD)
  with t(2,3) show ?thesis
    by (simp add: restored_token_acked_def bcontains_def)
qed

lemma sch_inv_ack:
  assumes inv: "sch_inv s" and t: "bget (sch_tokens s) k = Some t" "tk_state t = TAwaitingCommit"
      "tk_awaiting_proposal_id t = Some pid"
    and child: "case child of None \<Rightarrow> tk_selected_transition_id t = None
      | Some cid \<Rightarrow> \<exists>c tr. bget (sch_tokens s) cid = Some c \<and> cid \<noteq> k
          \<and> Option.bind (tk_selected_transition_id t) (plan_transition (sch_plan s)) = Some tr
          \<and> wt_to_node tr = tk_node_id c \<and> tk_branch_lineage t = tk_branch_lineage c"
    and cursor: "length (sch_acknowledged_proposals s) < unat (sch_committed_cursor s)"
  shows "sch_inv (s\<lparr>sch_tokens := binsert k (t\<lparr>tk_state := TCompleted\<rparr>) (sch_tokens s),
     sch_loop_counts := bump_loop t (sch_loop_counts s),
     sch_acknowledged_proposals := binsert pid child (sch_acknowledged_proposals s)\<rparr>)"
proof -
  note D = sch_invD [OF inv]
  define t' where "t' = t\<lparr>tk_state := TCompleted\<rparr>"
  define m' where "m' = binsert k t' (sch_tokens s)"
  define acks' where "acks' = binsert pid child (sch_acknowledged_proposals s)"
  have tok: "token_ok (sch_plan s) (sch_logical_tick s) k t"
    by (rule sch_inv_token [OF inv t(1)])
  then have tok': "token_ok (sch_plan s) (sch_logical_tick s) k t'"
    using t by (auto simp: token_ok_def t'_def validate_restored_token_def split: option.splits)
  then have toks: "bforall (token_ok (sch_plan s) (sch_logical_tick s)) m'"
    using D(4) by (simp add: bforall_def m'_def)
  have none: "bget (sch_acknowledged_proposals s) pid = None"
    by (rule proposal_not_acked [OF inv t(1,3)]) (simp add: t(2))
  have uniq: "proposals_unique m'"
    unfolding m'_def
  proof (rule bunique_binsert [OF D(7)])
    fix j x
    assume x: "bget (sch_tokens s) j = Some x" "tk_awaiting_proposal_id x \<noteq> None" "j \<noteq> k"
    then show "tk_awaiting_proposal_id x \<noteq> tk_awaiting_proposal_id t'"
      using buniqueD [OF D(7) x(1) t(1)] t(3) by (auto simp: t'_def)
  qed
  have keeps: "keeps_completed (sch_tokens s) m'"
    unfolding m'_def by (rule keeps_completed_replace [OF t(1)]) (simp_all add: t'_def same_place_def t(2))
  have linked: "ack_linked (sch_plan s) m' pid child"
    unfolding ack_linked_def
  proof (intro exI conjI)
    show "bget m' k = Some t'" "tk_awaiting_proposal_id t' = Some pid" "tk_state t' = TCompleted"
      by (simp_all add: m'_def t'_def t)
    show "case child of None \<Rightarrow> tk_selected_transition_id t' = None
      | Some cid \<Rightarrow> \<exists>c tr. bget m' cid = Some c \<and> Option.bind (tk_selected_transition_id t') (plan_transition (sch_plan s)) = Some tr
          \<and> wt_to_node tr = tk_node_id c \<and> tk_branch_lineage t' = tk_branch_lineage c"
      using child by (auto simp: m'_def t'_def split: option.splits)
  qed
  have "(tk_state x = TCompleted) = restored_token_acked acks' x" if x: "bget m' j = Some x" for j x
  proof (cases "j = k")
    case True
    with x have "x = t'"
      by (simp add: m'_def)
    then show ?thesis
      by (simp add: t'_def t(3) restored_token_acked_def acks'_def)
  next
    case False
    with x have x': "bget (sch_tokens s) j = Some x"
      by (simp add: m'_def)
    with False t(1,3) buniqueD [OF D(7) x' t(1)] have "tk_awaiting_proposal_id x \<noteq> Some pid"
      by auto
    then have "restored_token_acked acks' x = restored_token_acked (sch_acknowledged_proposals s) x"
      by (auto simp: restored_token_acked_def acks'_def split: option.splits)
    with D(8) x' show ?thesis
      by (auto simp: acks_ok_def dest: bforallD)
  qed
  moreover have "ack_linked (sch_plan s) m' j v" if "bget acks' j = Some v" for j v
  proof (cases "j = pid")
    case False
    with that D(8) have "ack_linked (sch_plan s) (sch_tokens s) j v"
      by (auto simp: acks'_def acks_ok_def dest: bforallD)
    then show ?thesis
      by (rule ack_linked_mono [OF _ keeps])
  qed (use that linked in \<open>simp add: acks'_def\<close>)
  ultimately have acks: "acks_ok (sch_plan s) m' acks'"
    using D(8) unfolding acks_ok_def bforall_def by (simp add: acks'_def)
  have loops: "loops_ok (sch_plan s) m' (bump_loop t (sch_loop_counts s))"
    unfolding m'_def t'_def by (rule loops_ok_complete [OF D(10,1,11,3) t(1,2)]) (use tok in \<open>simp add: token_ok_def\<close>)
  have rdy: "ready_ok (sch_plan s) m' (sch_ready s)"
    unfolding m'_def by (rule ready_ok_keep [OF D(6) t(1)]) (simp_all add: t'_def t(2))
  have len: "length m' = length (sch_tokens s)" "length acks' = length (sch_acknowledged_proposals s) + 1"
    using D(3,8) t(1) none by (simp_all add: m'_def acks'_def acks_ok_def length_binsert bcontains_def)
  have "bwf m'"
    using D(3) by (simp add: m'_def)
  with toks uniq acks loops rdy len D cursor
  have "sch_inv (s\<lparr>sch_tokens := m', sch_loop_counts := bump_loop t (sch_loop_counts s), sch_acknowledged_proposals := acks'\<rparr>)"
    by (simp add: sch_inv_def)
  then show ?thesis
    by (simp add: m'_def t'_def acks'_def)
qed

end
