(* ===== verification/Scheduler_Run.thy ===== *)
theory Scheduler_Run
  imports Scheduler_Inv
begin

text \<open>
  Runs of the scheduler. \<open>sch_change\<close> is the abstract step relation: a token moves along its life
  cycle, a token is admitted from outside, an acknowledged token finishes, an acknowledged token
  advances over an edge of the plan, or a lineage is cancelled. Every operation of the scheduler is
  one such step, and what is proved of all runs is proved of the relation.
\<close>

section \<open>Abstract steps\<close>

datatype change = CIdle | CMove | CAdmit | CFinish | CAdvance | CCancel

definition lifecycle :: "(token_state \<times> token_state) set" where
  "lifecycle = {(TReady, TInFlight), (TInFlight, TAwaitingCommit), (TInFlight, TSuspended), (TSuspended, TReady)}"

definition cancel_token :: "string \<Rightarrow> token \<Rightarrow> token" where
  "cancel_token lineage t = (if cancellable lineage t then t\<lparr>tk_state := TCancelled\<rparr> else t)"

definition fresh_proposal :: "scheduler \<Rightarrow> stable_id \<Rightarrow> bool" where
  "fresh_proposal s i \<longleftrightarrow> list_all (\<lambda>t. tk_awaiting_proposal_id t \<noteq> Some i) (bvalues (sch_tokens s))"

definition commit_clock :: "u64 \<Rightarrow> scheduler \<Rightarrow> scheduler" where
  "commit_clock c s = s\<lparr>sch_logical_tick := saturating_add (sch_logical_tick s) 1, sch_committed_cursor := c\<rparr>"

definition completed :: "string \<Rightarrow> token \<Rightarrow> stable_id \<Rightarrow> string option \<Rightarrow> scheduler \<Rightarrow> scheduler" where
  "completed k t pid child s =
     s\<lparr>sch_tokens := binsert k (t\<lparr>tk_state := TCompleted\<rparr>) (sch_tokens s),
       sch_loop_counts := bump_loop t (sch_loop_counts s),
       sch_acknowledged_proposals := binsert pid child (sch_acknowledged_proposals s)\<rparr>"

inductive sch_change :: "scheduler \<Rightarrow> change \<Rightarrow> scheduler \<Rightarrow> bool" where
  idle: "sch_change s CIdle s"
| move: "\<lbrakk>bget (sch_tokens s) k = Some t; same_place t t'; (tk_state t, tk_state t') \<in> lifecycle;
     validate_restored_token (sch_plan s) t';
     tk_state t' = TAwaitingCommit \<Longrightarrow> valid_stable_id (the (tk_awaiting_proposal_id t')) \<and> fresh_proposal s (the (tk_awaiting_proposal_id t'));
     swf ready'; set ready' = (if tk_state t' = TReady then insert (token_key (sch_plan s) t) (set (sch_ready s))
        else set (sch_ready s) - {token_key (sch_plan s) t});
     loops_ok (sch_plan s) (binsert k t' (sch_tokens s)) (sch_loop_counts s)\<rbrakk> \<Longrightarrow>
   sch_change s CMove (s\<lparr>sch_ready := ready', sch_tokens := binsert k t' (sch_tokens s)\<rparr>)"
| admit: "\<lbrakk>bget (sch_tokens s) (tk_token_id t) = None; tk_state t = TReady; tk_logical_tick t = sch_logical_tick s;
     validate_restored_token (sch_plan s) t; bget (sch_node_ordinals s) (tk_node_id t) \<noteq> None;
     unat (sch_next_token_ordinal s + 1) = unat (sch_next_token_ordinal s) + 1\<rbrakk> \<Longrightarrow>
   sch_change s CAdmit (admit_token t s)"
| finish: "\<lbrakk>bget (sch_tokens s) k = Some t; tk_state t = TAwaitingCommit; tk_awaiting_proposal_id t = Some pid;
     tk_selected_transition_id t = None; sch_committed_cursor s < c\<rbrakk> \<Longrightarrow>
   sch_change s CFinish (completed k t pid None (commit_clock c s))"
| advance: "\<lbrakk>bget (sch_tokens s) k = Some t; tk_state t = TAwaitingCommit; tk_awaiting_proposal_id t = Some pid;
     tk_selected_transition_id t = Some tid; plan_transition (sch_plan s) tid = Some tr; sch_committed_cursor s < c;
     bget (sch_tokens s) (tk_token_id u) = None; tk_state u = TReady; tk_node_id u = wt_to_node tr;
     tk_branch_lineage u = tk_branch_lineage t; tk_logical_tick u = saturating_add (sch_logical_tick s) 1;
     validate_restored_token (sch_plan s) u; unat (sch_next_token_ordinal s + 1) = unat (sch_next_token_ordinal s) + 1\<rbrakk> \<Longrightarrow>
   sch_change s CAdvance (completed k t pid (Some (tk_token_id u)) (admit_token u (commit_clock c s)))"
| cancel: "sch_change s CCancel (s\<lparr>sch_ready := filter (\<lambda>(_, _, l, _). \<not> lineage_matches l lineage) (sch_ready s),
     sch_tokens := bmap_values (cancel_token lineage) (sch_tokens s)\<rparr>)"

section \<open>The invariant\<close>

lemma fresh_proposalD:
  "fresh_proposal s i \<Longrightarrow> bget (sch_tokens s) j = Some x \<Longrightarrow> tk_awaiting_proposal_id x \<noteq> Some i"
  unfolding fresh_proposal_def list_all_iff by (blast dest: bget_in_values)

lemma fresh_not_acked:
  assumes "sch_inv s" and "fresh_proposal s i"
  shows "bget (sch_acknowledged_proposals s) i = None"
proof (rule ccontr)
  assume "bget (sch_acknowledged_proposals s) i \<noteq> None"
  then obtain child where "bget (sch_acknowledged_proposals s) i = Some child"
    by blast
  then have "ack_linked (sch_plan s) (sch_tokens s) i child"
    using sch_invD(8) [OF assms(1)] by (auto simp: acks_ok_def dest: bforallD)
  then show False
    using fresh_proposalD [OF assms(2)] unfolding ack_linked_def by blast
qed

lemma sch_inv_clock:
  assumes "sch_inv s" and "sch_committed_cursor s < c"
  shows "sch_inv (commit_clock c s)" and "length (sch_acknowledged_proposals s) < unat c"
proof -
  note D = sch_invD [OF assms(1)]
  have "sch_logical_tick s \<le> saturating_add (sch_logical_tick s) 1"
    using saturating_succ [of "sch_logical_tick s"] by (simp add: word_le_nat_alt split: if_splits)
  then have "bforall (token_ok (sch_plan s) (saturating_add (sch_logical_tick s) 1)) (sch_tokens s)"
    using D(4) by (auto simp: token_ok_def elim!: bforall_mono)
  moreover show "length (sch_acknowledged_proposals s) < unat c"
    using D(9) assms(2) by (simp add: word_less_nat_alt)
  ultimately show "sch_inv (commit_clock c s)"
    using D by (simp add: sch_inv_def commit_clock_def)
qed

lemma commit_clock_simps [simp]:
  "sch_tokens (commit_clock c s) = sch_tokens s" "sch_plan (commit_clock c s) = sch_plan s"
  "sch_acknowledged_proposals (commit_clock c s) = sch_acknowledged_proposals s"
  "sch_committed_cursor (commit_clock c s) = c" "sch_loop_counts (commit_clock c s) = sch_loop_counts s"
  "sch_next_token_ordinal (commit_clock c s) = sch_next_token_ordinal s"
  "sch_node_ordinals (commit_clock c s) = sch_node_ordinals s" "sch_ready (commit_clock c s) = sch_ready s"
  "sch_logical_tick (commit_clock c s) = saturating_add (sch_logical_tick s) 1"
  by (simp_all add: commit_clock_def)

lemma admit_simps [simp]:
  "sch_tokens (admit_token u s) = binsert (tk_token_id u) u (sch_tokens s)" "sch_plan (admit_token u s) = sch_plan s"
  "sch_acknowledged_proposals (admit_token u s) = sch_acknowledged_proposals s"
  "sch_committed_cursor (admit_token u s) = sch_committed_cursor s" "sch_loop_counts (admit_token u s) = sch_loop_counts s"
  by (simp_all add: admit_token_def)

lemma validate_node_known: "validate_restored_token p t \<Longrightarrow> plan_node p (tk_node_id t) \<noteq> None"
  by (auto simp: validate_restored_token_def split: option.splits)

lemma ex_bget_bmap_values:
  "(\<exists>j x. bget (bmap_values f m) j = Some x \<and> Q x) \<longleftrightarrow> (\<exists>j x. bget m j = Some x \<and> Q (f x))"
  unfolding bget_bmap_values by (auto simp: map_option_eq_Some)

lemma sch_inv_cancel:
  assumes inv: "sch_inv s"
  shows "sch_inv (s\<lparr>sch_ready := filter (\<lambda>(_, _, l, _). \<not> lineage_matches l lineage) (sch_ready s),
     sch_tokens := bmap_values (cancel_token lineage) (sch_tokens s)\<rparr>)"
proof -
  note D = sch_invD [OF inv]
  let ?m = "bmap_values (cancel_token lineage) (sch_tokens s)"
  have live: "cancellable lineage t \<Longrightarrow> tk_state t \<in> {TReady, TInFlight, TSuspended}" for t
    by (cases "tk_state t") (auto simp: cancellable_def)
  have tok: "token_ok (sch_plan s) (sch_logical_tick s) k (cancel_token lineage t)"
    if "token_ok (sch_plan s) (sch_logical_tick s) k t" for k t
    using that live [of t]
    by (auto simp: token_ok_def cancel_token_def validate_restored_token_def split: option.splits)
  have "bforall (token_ok (sch_plan s) (sch_logical_tick s)) ?m"
    using D(4) by (auto simp: bforall_bmap_values elim!: bforall_mono intro: tok)
  moreover have "ready_ok (sch_plan s) ?m (filter (\<lambda>(_, _, l, _). \<not> lineage_matches l lineage) (sch_ready s))"
  proof -
    have key: "token_key p (cancel_token lineage t) = token_key p t" for p t
      by (simp add: token_key_def ready_key_def cancel_token_def)
    define P :: "ready_key \<Rightarrow> bool" where "P = (\<lambda>(_, _, l, _). \<not> lineage_matches l lineage)"
    have mem: "P (token_key p t) \<longleftrightarrow> \<not> lineage_matches (tk_branch_lineage t) lineage" for p t
      by (simp add: token_key_def ready_key_def P_def)
    have rdy: "tk_state (cancel_token lineage t) = TReady \<longleftrightarrow> tk_state t = TReady \<and> \<not> lineage_matches (tk_branch_lineage t) lineage" for t
      by (auto simp: cancel_token_def cancellable_def)
    have "key \<in> set (filter P (sch_ready s)) \<longleftrightarrow>
        (\<exists>j x. bget ?m j = Some x \<and> tk_state x = TReady \<and> key = token_key (sch_plan s) x)" for key
    proof -
      have "(\<exists>j x. bget ?m j = Some x \<and> tk_state x = TReady \<and> key = token_key (sch_plan s) x) \<longleftrightarrow>
          (\<exists>j x. bget (sch_tokens s) j = Some x \<and> tk_state x = TReady \<and> \<not> lineage_matches (tk_branch_lineage x) lineage
             \<and> key = token_key (sch_plan s) x)"
        unfolding ex_bget_bmap_values by (simp only: rdy key conj_assoc)
      moreover have "(\<exists>j x. bget (sch_tokens s) j = Some x \<and> tk_state x = TReady \<and> key = token_key (sch_plan s) x) \<and> P key \<longleftrightarrow>
          (\<exists>j x. bget (sch_tokens s) j = Some x \<and> tk_state x = TReady \<and> \<not> lineage_matches (tk_branch_lineage x) lineage
             \<and> key = token_key (sch_plan s) x)"
        using mem [of "sch_plan s"] by metis
      ultimately show ?thesis
        by (simp only: set_filter mem_Collect_eq ready_ok_mem [OF D(6)])
    qed
    moreover have "swf (sch_ready s)"
      using D(6) unfolding ready_ok_def by blast
    ultimately have "ready_ok (sch_plan s) ?m (filter P (sch_ready s))"
      unfolding ready_ok_def by (blast intro: swf_filter)
    then show ?thesis
      by (simp only: P_def)
  qed
  moreover have "proposals_unique ?m"
    by (rule bunique_bmap_values [OF D(7)]) (auto simp: cancel_token_def split: if_splits)
  moreover have "acks_ok (sch_plan s) ?m (sch_acknowledged_proposals s)"
  proof -
    have "keeps_completed (sch_tokens s) ?m"
      by (auto simp: keeps_completed_def cancel_token_def cancellable_def same_place_def)
    then have "bforall (ack_linked (sch_plan s) ?m) (sch_acknowledged_proposals s)"
      using D(8) by (auto simp: acks_ok_def elim!: bforall_mono intro: ack_linked_mono)
    moreover have "bforall (\<lambda>_ t. (tk_state t = TCompleted) = restored_token_acked (sch_acknowledged_proposals s) t) ?m"
      using D(8) by (auto simp: acks_ok_def bforall_bmap_values cancel_token_def cancellable_def restored_token_acked_def
          elim!: bforall_mono)
    ultimately show ?thesis
      using D(8) by (simp add: acks_ok_def)
  qed
  moreover have "pending_in ?m l = pending_in (sch_tokens s) l" for l
    unfolding pending_in_def bcount_bsum bsum_def
    by (rule arg_cong [where f = sum_list]) (auto simp: bmap_values_def cancel_token_def cancellable_def)
  then have "loops_ok (sch_plan s) ?m (sch_loop_counts s)"
    using D(10) by (simp add: loops_ok_def)
  ultimately show ?thesis
    using D by (simp add: sch_inv_def)
qed

lemma lifecycle_live:
  "(a, b) \<in> lifecycle \<Longrightarrow> a \<noteq> TCompleted \<and> b \<noteq> TCompleted \<and> a \<noteq> TAwaitingCommit"
  by (auto simp: lifecycle_def)

lemma not_awaiting_none:
  "validate_restored_token p t \<Longrightarrow> tk_state t \<in> {TReady, TInFlight, TSuspended, TCancelled} \<Longrightarrow> tk_awaiting_proposal_id t = None"
  by (auto simp: validate_restored_token_def split: option.splits)

lemma lifecycle_target: "(a, b) \<in> lifecycle \<Longrightarrow> b \<noteq> TAwaitingCommit \<Longrightarrow> b \<in> {TReady, TInFlight, TSuspended, TCancelled}"
  by (auto simp: lifecycle_def)

lemma sch_change_inv: "sch_change s c s' \<Longrightarrow> sch_inv s \<Longrightarrow> sch_inv s'"
proof (induction rule: sch_change.induct)
  case (move s k t t' ready')
  note life = lifecycle_live [OF move.hyps(3)]
  have pid: "valid_stable_id i \<and> \<not> bcontains (sch_acknowledged_proposals s) i
      \<and> (\<forall>j x. bget (sch_tokens s) j = Some x \<longrightarrow> j \<noteq> k \<longrightarrow> tk_awaiting_proposal_id x \<noteq> Some i)"
    if i: "tk_awaiting_proposal_id t' = Some i" for i
  proof -
    have "tk_state t' = TAwaitingCommit"
      using not_awaiting_none [OF move.hyps(4) lifecycle_target [OF move.hyps(3)]] i by auto
    with move.hyps(5) i have "valid_stable_id i" and fresh: "fresh_proposal s i"
      by simp_all
    then show ?thesis
      using fresh_not_acked [OF move.prems fresh] fresh_proposalD [OF fresh] by (simp add: bcontains_def)
  qed
  show ?case
    by (rule sch_inv_replace [OF move.prems move.hyps(1,2,4) _ _ pid move.hyps(6-8)]) (use life in simp_all)
next
  case (admit s t)
  then show ?case
    by (intro sch_inv_admit) simp_all
next
  case (finish s k t pid c)
  have "sch_inv (completed k t pid None (commit_clock c s))"
    unfolding completed_def
    by (rule sch_inv_ack [OF sch_inv_clock(1) [OF finish.prems finish.hyps(5)]])
       (use finish sch_inv_clock(2) [OF finish.prems finish.hyps(5)] in simp_all)
  then show ?case .
next
  case (advance s k t pid tid tr c u)
  have clock: "sch_inv (commit_clock c s)"
    by (rule sch_inv_clock(1) [OF advance.prems advance.hyps(6)])
  have "bget (sch_node_ordinals s) (tk_node_id u) \<noteq> None"
    using node_ordinals_get [OF sch_invD(1) [OF advance.prems]] validate_node_known [OF advance.hyps(12)]
    by (simp add: sch_invD(2) [OF advance.prems])
  then have adm: "sch_inv (admit_token u (commit_clock c s))"
    using advance.hyps by (intro sch_inv_admit [OF clock]) simp_all
  have "tk_token_id u \<noteq> k"
    using advance.hyps(1,7) by auto
  then show ?case
    unfolding completed_def
    by (intro sch_inv_ack [OF adm]) (use advance sch_inv_clock(2) [OF advance.prems advance.hyps(6)] in auto)
next
  case (cancel s lineage)
  then show ?case
    by (rule sch_inv_cancel)
qed

section \<open>Every operation is an abstract step\<close>

text \<open>
  Identifiers are digests; that two different materials of a run have different digests is what the
  sources rely on. \<open>regular_op\<close> says so of the one identifier the operation derives, and that the
  64-bit ordinal of the next token is not exhausted.
\<close>

datatype sch_op =
    OpEnqueue stable_id u64 string
  | OpClaim
  | OpProposeTransition stable_id json
  | OpProposeTerminal stable_id string json
  | OpProposeWait stable_id json
  | OpAckTransition stable_id u64 u64
  | OpAckTerminal stable_id u64
  | OpAckWait stable_id u64
  | OpSuspend stable_id
  | OpResume stable_id
  | OpCancel string

fun apply_op :: "digest \<Rightarrow> sch_op \<Rightarrow> scheduler \<Rightarrow> scheduler" where
  "apply_op sha (OpEnqueue n ctx lin) s = snd (sch_enqueue sha n ctx lin s)"
| "apply_op sha OpClaim s = snd (sch_claim_next s)"
| "apply_op sha (OpProposeTransition k facts) s = snd (propose_transition sha k facts s)"
| "apply_op sha (OpProposeTerminal k outcome facts) s = snd (propose_terminal sha k outcome facts s)"
| "apply_op sha (OpProposeWait k facts) s = snd (propose_wait_input sha k facts s)"
| "apply_op sha (OpAckTransition pid c ctx) s = snd (acknowledge_transition sha pid c ctx s)"
| "apply_op sha (OpAckTerminal pid c) s = snd (acknowledge_terminal pid c s)"
| "apply_op sha (OpAckWait pid c) s = snd (acknowledge_wait_input pid c s)"
| "apply_op sha (OpSuspend k) s = snd (sch_suspend k s)"
| "apply_op sha (OpResume k) s = snd (sch_resume k s)"
| "apply_op sha (OpCancel lin) s = snd (cancel_lineage lin s)"

definition fresh_token :: "digest \<Rightarrow> stable_id \<Rightarrow> string \<Rightarrow> scheduler \<Rightarrow> bool" where
  "fresh_token sha n lin s \<longleftrightarrow> bget (sch_tokens s) (worker_id sha (token_material s n lin)) = None"

fun regular_op :: "digest \<Rightarrow> sch_op \<Rightarrow> scheduler \<Rightarrow> bool" where
  "regular_op sha (OpEnqueue n ctx lin) s = fresh_token sha n lin s"
| "regular_op sha (OpProposeTransition k facts) s =
     (case bget (sch_tokens s) k of None \<Rightarrow> True | Some t \<Rightarrow>
        (case select_transition (sch_plan s) (tk_node_id t) facts of Inl _ \<Rightarrow> True | Inr tr \<Rightarrow>
           fresh_proposal s (worker_id sha (transition_material s k (wt_transition_id tr)))))"
| "regular_op sha (OpProposeTerminal k outcome facts) s = fresh_proposal s (worker_id sha (terminal_material s k outcome))"
| "regular_op sha (OpProposeWait k facts) s = fresh_proposal s (worker_id sha (wait_material s k))"
| "regular_op sha (OpAckTransition pid c ctx) s =
     (sch_next_token_ordinal s \<noteq> - 1
      \<and> (case awaiting_source (sch_tokens s) pid of None \<Rightarrow> True | Some t \<Rightarrow>
           (case Option.bind (tk_selected_transition_id t) (plan_transition (sch_plan s)) of None \<Rightarrow> True | Some tr \<Rightarrow>
              fresh_token sha (wt_to_node tr) (tk_branch_lineage t) s)))"
| "regular_op sha _ s = True"

lemma new_token_valid:
  assumes inv: "sch_inv s" and node: "bget (sch_node_ordinals s) n \<noteq> None" and lin: "lin \<noteq> []" "length lin \<le> 512"
  shows "validate_restored_token (sch_plan s) (new_token sha n ctx lin s)"
proof -
  from node obtain x where "plan_node (sch_plan s) n = Some x"
    using node_ordinals_get [OF sch_invD(1) [OF inv]] by (auto simp: sch_invD(2) [OF inv])
  with lin show ?thesis
    by (simp add: validate_restored_token_def new_token_def)
qed

lemma sch_enqueue_ok:
  assumes "hex_digest sha" and "bget (sch_node_ordinals s) n \<noteq> None" and "lin \<noteq> []" and "length lin \<le> 512"
    and "sch_next_token_ordinal s \<noteq> - 1"
  shows "sch_enqueue sha n ctx lin s = (Inr (new_token sha n ctx lin s), admit_token (new_token sha n ctx lin s) s)"
proof -
  from assms(2) obtain ordinal where "bget (sch_node_ordinals s) n = Some ordinal"
    by blast
  moreover have "unat (sch_next_token_ordinal s + 1) = unat (sch_next_token_ordinal s) + 1"
    using assms(5) by (intro word_add_1_le(1) [where b = "- 1"]) (simp add: word_order.not_eq_extremum)
  then have "checked_add (sch_next_token_ordinal s) 1 = Some (sch_next_token_ordinal s + 1)"
    by (simp add: checked_add_Some)
  ultimately show ?thesis
    using assms(3,4) sch_stable_id_ok [OF assms(1)]
    by (simp add: sch_enqueue_def admit_token_def new_token_def Let_def)
qed

lemma enqueue_change:
  assumes inv: "sch_inv s" and fresh: "fresh_token sha n lin s" and op: "sch_enqueue sha n ctx lin s = (r, s')"
  shows "(\<exists>e. r = Inl e) \<and> sch_change s CIdle s' \<or> (\<exists>t. r = Inr t) \<and> sch_change s CAdmit s'"
  using op
proof (cases rule: sch_enqueue_cases)
  case ok
  let ?t = "new_token sha n ctx lin s"
  have "sch_change s CAdmit (admit_token ?t s)"
    using fresh new_token_valid [OF inv ok(3-5)] ok(3,6)
    by (intro sch_change.admit) (simp_all add: fresh_token_def new_token_def)
  with ok show ?thesis by simp
qed (simp add: sch_change.idle)

lemma claim_next_change:
  assumes inv: "sch_inv s" and op: "sch_claim_next s = (r, s')"
  shows "r = None \<and> s' = s \<and> sch_ready s = []
    \<or> (\<exists>k t. bget (sch_tokens s) k = Some t \<and> tk_state t = TReady \<and> r = Some (t\<lparr>tk_state := TInFlight\<rparr>)
         \<and> hd (sch_ready s) = token_key (sch_plan s) t \<and> sch_ready s \<noteq> [] \<and> sch_change s CMove s')"
proof (cases "sch_ready s")
  case Nil
  with op show ?thesis by (simp add: sch_claim_next_def)
next
  case (Cons key rest)
  note D = sch_invD [OF inv]
  from Cons have "key \<in> set (sch_ready s)"
    by simp
  then obtain k t where t: "bget (sch_tokens s) k = Some t" "tk_state t = TReady" "key = token_key (sch_plan s) t"
    unfolding ready_ok_mem [OF D(6)] by blast
  have tok: "token_ok (sch_plan s) (sch_logical_tick s) k t"
    by (rule sch_inv_token [OF inv t(1)])
  define t' where "t' = t\<lparr>tk_state := TInFlight\<rparr>"
  have swf: "swf (key # rest)"
    using D(6) Cons unfolding ready_ok_def by simp
  then have rest: "swf rest" "key \<notin> set rest"
    by (auto simp: swf_def)
  have "sch_change s CMove (s\<lparr>sch_ready := rest, sch_tokens := binsert k t' (sch_tokens s)\<rparr>)"
  proof (rule sch_change.move [OF t(1)])
    show "same_place t t'" "(tk_state t, tk_state t') \<in> lifecycle"
      by (simp_all add: same_place_def t'_def t(2) lifecycle_def)
    show "validate_restored_token (sch_plan s) t'"
      using tok t(2) by (auto simp: token_ok_def t'_def validate_restored_token_def split: option.splits)
    show "set rest = (if tk_state t' = TReady then insert (token_key (sch_plan s) t) (set (sch_ready s))
        else set (sch_ready s) - {token_key (sch_plan s) t})"
      using Cons rest(2) t(3) by (auto simp: t'_def)
    have "pending_in (binsert k t' (sch_tokens s)) l = pending_in (sch_tokens s) l" for l
      using bcount_binsert_replace [OF D(3) t(1), of "\<lambda>t. tk_state t = TAwaitingCommit \<and> tk_selected_loop_id t = Some l" t']
      by (simp add: pending_in_def t'_def t(2))
    then show "loops_ok (sch_plan s) (binsert k t' (sch_tokens s)) (sch_loop_counts s)"
      using D(10) by (simp add: loops_ok_def)
  qed (simp_all add: rest t'_def)
  moreover have "sch_claim_next s = (Some t', s\<lparr>sch_ready := rest, sch_tokens := binsert k t' (sch_tokens s)\<rparr>)"
    using Cons t tok by (simp add: sch_claim_next_def token_key_def ready_key_def token_ok_def t'_def Let_def)
  ultimately show ?thesis
    using op t Cons by (auto simp: t'_def)
qed

lemma key_not_ready:
  assumes inv: "sch_inv s" and t: "bget (sch_tokens s) k = Some t" "tk_state t \<noteq> TReady"
  shows "token_key (sch_plan s) t \<notin> set (sch_ready s)"
proof
  assume "token_key (sch_plan s) t \<in> set (sch_ready s)"
  then obtain j x where x: "bget (sch_tokens s) j = Some x" "tk_state x = TReady" "token_key (sch_plan s) t = token_key (sch_plan s) x"
    unfolding ready_ok_mem [OF sch_invD(6) [OF inv]] by blast
  from token_key_id [OF x(3)] sch_inv_token [OF inv x(1)] sch_inv_token [OF inv t(1)] have "j = k"
    by (simp add: token_ok_def)
  with x t show False by simp
qed

text \<open>A token in flight moves on; it was not in the ready set.\<close>

lemma in_flight_move:
  assumes inv: "sch_inv s" and t: "bget (sch_tokens s) k = Some t" "tk_state t = TInFlight"
    and t': "same_place t t'" "tk_state t' \<in> {TAwaitingCommit, TSuspended}" "validate_restored_token (sch_plan s) t'"
    and pid: "tk_state t' = TAwaitingCommit \<Longrightarrow> valid_stable_id (the (tk_awaiting_proposal_id t'))
        \<and> fresh_proposal s (the (tk_awaiting_proposal_id t'))"
    and cap: "\<And>l d. tk_state t' = TAwaitingCommit \<Longrightarrow> tk_selected_loop_id t' = Some l \<Longrightarrow> loop_descriptor (sch_plan s) l = Some d \<Longrightarrow>
        unat (committed_in (sch_loop_counts s) l) + pending_in (sch_tokens s) l < unat (ld_maximum_iterations d)"
  shows "sch_change s CMove (s\<lparr>sch_tokens := binsert k t' (sch_tokens s)\<rparr>)"
proof -
  note D = sch_invD [OF inv]
  have count: "pending_in (binsert k t' (sch_tokens s)) l = pending_in (sch_tokens s) l
      + of_bool (tk_state t' = TAwaitingCommit \<and> tk_selected_loop_id t' = Some l)" for l
    using bcount_binsert_replace [OF D(3) t(1), of "\<lambda>t. tk_state t = TAwaitingCommit \<and> tk_selected_loop_id t = Some l" t'] t(2)
    by (simp add: pending_in_def)
  have bound: "unat (committed_in (sch_loop_counts s) l) + pending_in (binsert k t' (sch_tokens s)) l \<le> unat (ld_maximum_iterations d)"
    if "loop_descriptor (sch_plan s) l = Some d" for l d
    using cap [OF _ _ that] D(10) that by (auto simp: count loops_ok_def)
  have "sch_change s CMove (s\<lparr>sch_ready := sch_ready s, sch_tokens := binsert k t' (sch_tokens s)\<rparr>)"
  proof (rule sch_change.move [OF t(1) t'(1)])
    show "(tk_state t, tk_state t') \<in> lifecycle"
      using t(2) t'(2) by (auto simp: lifecycle_def)
    show "set (sch_ready s) = (if tk_state t' = TReady then insert (token_key (sch_plan s) t) (set (sch_ready s))
        else set (sch_ready s) - {token_key (sch_plan s) t})"
      using key_not_ready [OF inv t(1)] t(2) t'(2) by auto
    show "loops_ok (sch_plan s) (binsert k t' (sch_tokens s)) (sch_loop_counts s)"
      using D(10) bound by (simp add: loops_ok_def)
    show "swf (sch_ready s)"
      using D(6) unfolding ready_ok_def by blast
  qed (use t'(3) pid in simp_all)
  then show ?thesis by simp
qed

lemma in_flight_Inr: "in_flight s k = Inr t \<longleftrightarrow> bget (sch_tokens s) k = Some t \<and> tk_state t = TInFlight"
  by (auto simp: in_flight_def bind_r_Inr ok_or_Inr)

lemma first_transition_Inr: "first_transition n facts ts = Inr t \<Longrightarrow> t \<in> set ts"
  by (induction ts) (auto split: option.splits sum.splits bool.splits)

lemma select_transition_Inr:
  assumes "plan_wf p" and sel: "select_transition p n facts = Inr tr"
  shows "plan_transition p (wt_transition_id tr) = Some tr" and "wt_from_node tr = n"
    and "tr \<in> set (bvalues (ep_transitions p))"
proof -
  have "tr \<in> set (bvalues (ep_transitions p)) \<and> wt_from_node tr = n"
  proof (cases "plan_route_rules p n = []")
    case True
    with sel have "tr \<in> set (plan_outgoing p n)"
      by (auto simp: select_transition_def dest: first_transition_Inr)
    then show ?thesis
      unfolding plan_wfD(10) [OF assms(1)] by simp
  next
    case False
    with sel obtain d where d: "choose_route n (plan_route_rules p n) facts = Inr d" "plan_transition p (rd_transition_id d) = Some tr"
      by (auto simp: select_transition_def Let_def ok_or_Inr split: sum.splits)
    from d(1) obtain rule where rule: "rule \<in> set (plan_route_rules p n)" "rd_transition_id d = wr_destination_transition rule"
      by (force simp: choose_route_def first_route_Inr dest: arg_cong [where f = set])
    with plan_wfD(13) [OF assms(1), of n] d(2) have "wt_from_node tr = n"
      by auto
    with d(2) plan_wf_transition [OF assms(1)] show ?thesis
      by blast
  qed
  then show "wt_from_node tr = n" "tr \<in> set (bvalues (ep_transitions p))"
    by blast+
  then show "plan_transition p (wt_transition_id tr) = Some tr"
    using plan_wf_transition [OF assms(1)] by blast
qed

lemma loop_capacity_Inr:
  assumes "loop_capacity s tr = Inr u" and "wt_declared_loop_id tr = Some l" and "loop_descriptor (sch_plan s) l = Some d"
  shows "unat (committed_in (sch_loop_counts s) l) + pending_in (sch_tokens s) l < unat (ld_maximum_iterations d)"
proof -
  from assms obtain pending :: u32 where pending: "unat pending = pending_in (sch_tokens s) l"
    and lt: "saturating_add (committed_in (sch_loop_counts s) l) pending < ld_maximum_iterations d"
    by (auto simp: loop_capacity_def bind_r_Inr ok_or_Inr try_from_usize_Some split: if_splits)
  have "unat (ld_maximum_iterations d) < 2 ^ 32"
    using unsigned_less [of "ld_maximum_iterations d"] by simp
  with lt pending show ?thesis
    by (auto simp: word_less_nat_alt unat_saturating_add min_def split: if_splits)
qed

lemma await_commit_simps [simp]:
  "tk_state (await_commit pid tid l x t) = TAwaitingCommit"
  "tk_awaiting_proposal_id (await_commit pid tid l x t) = Some pid"
  "tk_selected_transition_id (await_commit pid tid l x t) = tid"
  "tk_selected_loop_id (await_commit pid tid l x t) = l"
  "tk_external_completion (await_commit pid tid l x t) = x"
  "tk_node_id (await_commit pid tid l x t) = tk_node_id t"
  "tk_branch_lineage (await_commit pid tid l x t) = tk_branch_lineage t"
  "same_place t (await_commit pid tid l x t)"
  by (simp_all add: await_commit_def same_place_def)

lemma propose_transition_change:
  assumes inv: "sch_inv s" and reg: "regular_op sha (OpProposeTransition k facts) s"
    and op: "propose_transition sha k facts s = (r, s')"
  shows "(\<exists>e. r = Inl e) \<and> s' = s \<or> (\<exists>p. r = Inr p) \<and> sch_change s CMove s'"
proof (cases r)
  case (Inr pr)
  from op Inr obtain t tr where t: "bget (sch_tokens s) k = Some t" "tk_state t = TInFlight"
    and sel: "select_transition (sch_plan s) (tk_node_id t) facts = Inr tr" and cap: "loop_capacity s tr = Inr ()"
    and valid: "valid_stable_id (worker_id sha (transition_material s k (wt_transition_id tr)))"
    and s': "s' = s\<lparr>sch_tokens := bmodify k (await_commit (worker_id sha (transition_material s k (wt_transition_id tr)))
       (Some (wt_transition_id tr)) (wt_declared_loop_id tr) None) (sch_tokens s)\<rparr>"
    by (auto simp: propose_transition_def bind_r_Inr in_flight_Inr sch_stable_id_Inr split: sum.splits)
  note tr = select_transition_Inr [OF sch_invD(1) [OF inv] sel]
  let ?t' = "await_commit (worker_id sha (transition_material s k (wt_transition_id tr)))
       (Some (wt_transition_id tr)) (wt_declared_loop_id tr) None t"
  have "validate_restored_token (sch_plan s) ?t'"
    using sch_inv_token [OF inv t(1)] tr(1,2) by (auto simp: token_ok_def validate_restored_token_def split: option.splits)
  then have "sch_change s CMove (s\<lparr>sch_tokens := binsert k ?t' (sch_tokens s)\<rparr>)"
    using valid reg t sel loop_capacity_Inr [OF cap] by (intro in_flight_move [OF inv t]) simp_all
  with s' Inr show ?thesis
    by (simp add: bmodify_binsert [OF sch_invD(3) [OF inv] t(1)])
qed (use op in \<open>auto simp: propose_transition_def split: sum.splits\<close>)

lemma names_executor_iff: "names_executor p n kind \<longleftrightarrow> (\<exists>x. plan_node p n = Some x \<and> wn_executor x = kind)"
  by (auto simp: names_executor_def split: option.splits)

text \<open>A token that completes without an edge.\<close>

lemma completion_move:
  assumes inv: "sch_inv s" and t: "bget (sch_tokens s) k = Some t" "tk_state t = TInFlight"
    and node: "names_executor (sch_plan s) (tk_node_id t) kind" "valid_completion kind x"
    and pid: "valid_stable_id pid" "fresh_proposal s pid"
  shows "sch_change s CMove (s\<lparr>sch_tokens := bmodify k (await_commit pid None None x) (sch_tokens s)\<rparr>)"
proof -
  have "validate_restored_token (sch_plan s) (await_commit pid None None x t)"
    using sch_inv_token [OF inv t(1)] node
    by (auto simp: token_ok_def validate_restored_token_def names_executor_iff split: option.splits)
  then have "sch_change s CMove (s\<lparr>sch_tokens := binsert k (await_commit pid None None x t) (sch_tokens s)\<rparr>)"
    using pid by (intro in_flight_move [OF inv t]) simp_all
  then show ?thesis
    by (simp add: bmodify_binsert [OF sch_invD(3) [OF inv] t(1)])
qed

lemma propose_terminal_change:
  assumes inv: "sch_inv s" and reg: "regular_op sha (OpProposeTerminal k outcome facts) s"
    and op: "propose_terminal sha k outcome facts s = (r, s')"
  shows "(\<exists>e. r = Inl e) \<and> s' = s \<or> (\<exists>p. r = Inr p) \<and> sch_change s CMove s'"
proof (cases r)
  case (Inr pr)
  with op obtain t where t: "bget (sch_tokens s) k = Some t" "tk_state t = TInFlight"
    and "names_executor (sch_plan s) (tk_node_id t) ExTerminal"
    and "valid_stable_id (worker_id sha (terminal_material s k outcome))"
    and "s' = s\<lparr>sch_tokens := bmodify k (await_commit (worker_id sha (terminal_material s k outcome)) None None None) (sch_tokens s)\<rparr>"
    by (auto simp: propose_terminal_def bind_r_Inr in_flight_Inr sch_stable_id_Inr split: sum.splits if_splits)
  with completion_move [OF inv t, of ExTerminal None] reg Inr show ?thesis
    by (simp add: valid_completion_def)
qed (use op in \<open>auto simp: propose_terminal_def split: sum.splits\<close>)

lemma propose_wait_change:
  assumes inv: "sch_inv s" and reg: "regular_op sha (OpProposeWait k facts) s"
    and op: "propose_wait_input sha k facts s = (r, s')"
  shows "(\<exists>e. r = Inl e) \<and> s' = s \<or> (\<exists>p. r = Inr p) \<and> sch_change s CMove s'"
proof (cases r)
  case (Inr pr)
  with op obtain t where t: "bget (sch_tokens s) k = Some t" "tk_state t = TInFlight"
    and "names_executor (sch_plan s) (tk_node_id t) ExWait"
    and "valid_stable_id (worker_id sha (wait_material s k))"
    and "s' = s\<lparr>sch_tokens := bmodify k (await_commit (worker_id sha (wait_material s k)) None None (Some WaitInputReceived)) (sch_tokens s)\<rparr>"
    by (auto simp: propose_wait_input_def bind_r_Inr in_flight_Inr sch_stable_id_Inr split: sum.splits if_splits)
  with completion_move [OF inv t, of ExWait "Some WaitInputReceived"] reg Inr show ?thesis
    by (simp add: valid_completion_def)
qed (use op in \<open>auto simp: propose_wait_input_def split: sum.splits\<close>)

lemma suspend_change:
  assumes inv: "sch_inv s" and op: "sch_suspend k s = (r, s')"
  shows "(\<exists>e. r = Inl e) \<and> s' = s \<or> r = Inr () \<and> sch_change s CMove s'"
proof (cases r)
  case (Inr u)
  with op obtain t where t: "bget (sch_tokens s) k = Some t" "tk_state t = TInFlight"
    and s': "s' = s\<lparr>sch_tokens := bmodify k (\<lambda>t. t\<lparr>tk_state := TSuspended\<rparr>) (sch_tokens s)\<rparr>"
    by (auto simp: sch_suspend_def in_flight_Inr split: sum.splits)
  have "validate_restored_token (sch_plan s) (t\<lparr>tk_state := TSuspended\<rparr>)"
    using sch_inv_token [OF inv t(1)] t(2) by (auto simp: token_ok_def validate_restored_token_def split: option.splits)
  then have "sch_change s CMove (s\<lparr>sch_tokens := binsert k (t\<lparr>tk_state := TSuspended\<rparr>) (sch_tokens s)\<rparr>)"
    by (intro in_flight_move [OF inv t]) (simp_all add: same_place_def)
  with s' Inr show ?thesis
    by (simp add: bmodify_binsert [OF sch_invD(3) [OF inv] t(1)])
qed (use op in \<open>auto simp: sch_suspend_def split: sum.splits\<close>)

lemma resume_change:
  assumes inv: "sch_inv s" and op: "sch_resume k s = (r, s')"
  shows "(\<exists>e. r = Inl e) \<and> s' = s \<or> r = Inr () \<and> sch_change s CMove s'"
proof (cases "\<exists>t. bget (sch_tokens s) k = Some t \<and> tk_state t = TSuspended")
  case True
  note D = sch_invD [OF inv]
  from True obtain t where t: "bget (sch_tokens s) k = Some t" "tk_state t = TSuspended"
    by blast
  have tok: "token_ok (sch_plan s) (sch_logical_tick s) k t"
    by (rule sch_inv_token [OF inv t(1)])
  then have "plan_node (sch_plan s) (tk_node_id t) \<noteq> None"
    by (simp only: token_ok_def validate_node_known not_False_eq_True)
  then obtain ordinal where ord: "bget (node_ordinals (sch_plan s)) (tk_node_id t) = Some ordinal"
    using node_ordinals_get [OF D(1), of "tk_node_id t"] by blast
  define t' where "t' = t\<lparr>tk_state := TReady\<rparr>"
  have count: "pending_in (binsert k t' (sch_tokens s)) l = pending_in (sch_tokens s) l" for l
    using bcount_binsert_replace [OF D(3) t(1), of "\<lambda>t. tk_state t = TAwaitingCommit \<and> tk_selected_loop_id t = Some l" t']
    by (simp add: pending_in_def t'_def t(2))
  have key: "ready_key ordinal t = token_key (sch_plan s) t"
    by (simp add: token_key_def ord)
  have "sch_change s CMove (s\<lparr>sch_ready := sinsert (ready_key ordinal t) (sch_ready s), sch_tokens := binsert k t' (sch_tokens s)\<rparr>)"
  proof (rule sch_change.move [OF t(1)])
    show "same_place t t'" "(tk_state t, tk_state t') \<in> lifecycle"
      by (simp_all add: t'_def same_place_def t(2) lifecycle_def)
    show "validate_restored_token (sch_plan s) t'"
      using tok t(2) by (auto simp: token_ok_def t'_def validate_restored_token_def split: option.splits)
    show "loops_ok (sch_plan s) (binsert k t' (sch_tokens s)) (sch_loop_counts s)"
      using D(10) by (simp add: loops_ok_def count)
    show "swf (sinsert (ready_key ordinal t) (sch_ready s))"
      using D(6) unfolding ready_ok_def by blast
  qed (simp_all add: t'_def key)
  also have "s\<lparr>sch_ready := sinsert (ready_key ordinal t) (sch_ready s), sch_tokens := binsert k t' (sch_tokens s)\<rparr>
      = s\<lparr>sch_tokens := binsert k t' (sch_tokens s), sch_ready := sinsert (ready_key ordinal t) (sch_ready s)\<rparr>"
    by simp
  finally show ?thesis
    using op t ord by (auto simp: sch_resume_def Let_def D(2) bmodify_binsert [OF D(3) t(1)] t'_def)
qed (use op in \<open>auto simp: sch_resume_def split: option.splits if_splits\<close>)

lemma awaiting_source_Some:
  assumes "bwf m" and "proposals_unique m"
  shows "awaiting_source m pid = Some t \<longleftrightarrow> (\<exists>k. bget m k = Some t) \<and> tk_awaiting_proposal_id t = Some pid"
proof
  assume "awaiting_source m pid = Some t"
  then have "t \<in> set (bvalues m)" and "tk_awaiting_proposal_id t = Some pid"
    unfolding awaiting_source_def find_Some_iff by (auto simp del: set_map simp: in_set_conv_nth)
  then show "(\<exists>k. bget m k = Some t) \<and> tk_awaiting_proposal_id t = Some pid"
    using in_values_iff [OF assms(1)] by blast
next
  assume "(\<exists>k. bget m k = Some t) \<and> tk_awaiting_proposal_id t = Some pid"
  then obtain k where k: "bget m k = Some t" "tk_awaiting_proposal_id t = Some pid"
    by blast
  then have "awaiting_source m pid \<noteq> None"
    using bget_in_values [OF k(1)] unfolding awaiting_source_def find_None_iff by auto
  then obtain t' where t': "awaiting_source m pid = Some t'"
    by blast
  then have "t' \<in> set (bvalues m)" and pid': "tk_awaiting_proposal_id t' = Some pid"
    unfolding awaiting_source_def find_Some_iff by (auto simp del: set_map simp: in_set_conv_nth)
  then obtain k' where "bget m k' = Some t'"
    using in_values_iff [OF assms(1)] by blast
  with k pid' t' buniqueD [OF assms(2), of k t k' t'] show "awaiting_source m pid = Some t"
    by simp
qed

lemma ack_source_Inr:
  assumes inv: "sch_inv s"
  shows "ack_source s pid = Inr t \<longleftrightarrow> bget (sch_tokens s) (tk_token_id t) = Some t \<and> tk_awaiting_proposal_id t = Some pid"
proof -
  note D = sch_invD [OF inv]
  have id: "bget (sch_tokens s) k = Some x \<Longrightarrow> tk_token_id x = k" for k x
    using sch_inv_token [OF inv] by (simp add: token_ok_def)
  have "ack_source s pid = Inr t \<longleftrightarrow>
      (\<exists>x. awaiting_source (sch_tokens s) pid = Some x \<and> bget (sch_tokens s) (tk_token_id x) = Some t)"
    by (auto simp: ack_source_def bind_r_Inr ok_or_Inr)
  also have "\<dots> \<longleftrightarrow> bget (sch_tokens s) (tk_token_id t) = Some t \<and> tk_awaiting_proposal_id t = Some pid"
    (is "?L \<longleftrightarrow> ?R")
  proof
    assume ?L
    then obtain x k where "bget (sch_tokens s) k = Some x" "tk_awaiting_proposal_id x = Some pid" "bget (sch_tokens s) (tk_token_id x) = Some t"
      unfolding awaiting_source_Some [OF D(3,7)] by blast
    then show ?R
      using id by force
  next
    assume ?R
    then show ?L
      unfolding awaiting_source_Some [OF D(3,7)] by blast
  qed
  finally show ?thesis .
qed

lemma acknowledge_completion_change:
  assumes inv: "sch_inv s" and op: "acknowledge_completion kind x pid c s = (r, s')" and "valid_completion kind x"
  shows "s' = s \<or> (\<exists>a. r = Inr a \<and> \<not> aa_duplicate a) \<and> sch_change s CFinish s'"
proof (cases "s' = s")
  case False
  note D = sch_invD [OF inv]
  from False op obtain t where src: "ack_source s pid = Inr t" and t: "tk_state t = TAwaitingCommit" "completes_as s kind x t"
    and c: "sch_committed_cursor s < c" and r: "r = Inr \<lparr>aa_duplicate = False, aa_admitted_token = None\<rparr>"
    and s': "s' = (complete_token (tk_token_id t) c s)\<lparr>sch_acknowledged_proposals :=
       binsert pid None (sch_acknowledged_proposals (complete_token (tk_token_id t) c s))\<rparr>"
    by (auto simp: acknowledge_completion_def Let_def not_le split: if_splits option.splits sum.splits)
  from src have get: "bget (sch_tokens s) (tk_token_id t) = Some t" and aw: "tk_awaiting_proposal_id t = Some pid"
    by (simp_all add: ack_source_Inr [OF inv])
  have none: "tk_selected_transition_id t = None"
    using t(2) by (simp add: completes_as_def)
  then have "tk_selected_loop_id t = None"
    using sch_inv_token [OF inv get] t(1) by (auto simp: token_ok_def validate_restored_token_def split: option.splits)
  then have "s' = completed (tk_token_id t) t pid None (commit_clock c s)"
    by (simp add: s' complete_token_def completed_def commit_clock_def bump_loop_def bmodify_binsert [OF D(3) get])
  with sch_change.finish [OF get t(1) aw none c] r show ?thesis
    by simp
qed simp

lemma acknowledge_transition_change:
  assumes inv: "sch_inv s" and reg: "regular_op sha (OpAckTransition pid c ctx) s" and hex: "hex_digest sha"
    and op: "acknowledge_transition sha pid c ctx s = (r, s')"
  shows "s' = s \<or> (\<exists>a. r = Inr a \<and> \<not> aa_duplicate a) \<and> sch_change s CAdvance s'"
proof (cases "s' = s")
  case False
  note D = sch_invD [OF inv]
  define s2 :: "token \<Rightarrow> scheduler" where "s2 t = (complete_token (tk_token_id t) c
      (case tk_selected_loop_id t of None \<Rightarrow> s | Some l \<Rightarrow>
         s\<lparr>sch_loop_counts := binsert l (committed_in (sch_loop_counts s) l + 1) (sch_loop_counts s)\<rparr>))" for t
  from False op obtain t tid tr where src: "ack_source s pid = Inr t" and t: "tk_state t = TAwaitingCommit"
    and tid: "tk_selected_transition_id t = Some tid" and tr: "plan_transition (sch_plan s) tid = Some tr"
    and c: "sch_committed_cursor s < c"
    and enq: "(r, s') = (case sch_enqueue sha (wt_to_node tr) ctx (tk_branch_lineage t) (s2 t) of
         (Inl e, s3) \<Rightarrow> (Inl e, s3)
       | (Inr child, s3) \<Rightarrow> (Inr \<lparr>aa_duplicate = False, aa_admitted_token = Some child\<rparr>,
            s3\<lparr>sch_acknowledged_proposals := binsert pid (Some (tk_token_id child)) (sch_acknowledged_proposals s3)\<rparr>))"
    unfolding s2_def
    by (auto simp: acknowledge_transition_def Let_def not_le bind_r_Inr ok_or_Inr split: if_splits option.splits sum.splits)
  from src have get: "bget (sch_tokens s) (tk_token_id t) = Some t" and aw: "tk_awaiting_proposal_id t = Some pid"
    by (simp_all add: ack_source_Inr [OF inv])
  let ?k = "tk_token_id t"
  have tok: "token_ok (sch_plan s) (sch_logical_tick s) ?k t"
    by (rule sch_inv_token [OF inv get])
  have s2: "s2 t = (commit_clock c s)\<lparr>sch_tokens := binsert ?k (t\<lparr>tk_state := TCompleted\<rparr>) (sch_tokens s),
      sch_loop_counts := bump_loop t (sch_loop_counts s)\<rparr>"
    by (simp add: s2_def complete_token_def commit_clock_def bump_loop_def bmodify_binsert [OF D(3) get] split: option.splits)
  define u where "u = new_token sha (wt_to_node tr) ctx (tk_branch_lineage t) (commit_clock c s)"
  have mat: "token_material (s2 t) n l = token_material s n l" "token_material (commit_clock c s) n l = token_material s n l" for n l
    by (simp_all add: s2 token_material_def)
  have "awaiting_source (sch_tokens s) pid = Some t"
    using get aw awaiting_source_Some [OF D(3,7)] by blast
  with reg tid tr have fresh: "bget (sch_tokens s) (tk_token_id u) = None" and max: "sch_next_token_ordinal s \<noteq> - 1"
    by (simp_all add: fresh_token_def u_def new_token_def mat)
  have succ: "unat (sch_next_token_ordinal s + 1) = unat (sch_next_token_ordinal s) + 1"
    using max by (intro word_add_1_le(1) [where b = "- 1"]) (simp add: word_order.not_eq_extremum)
  have "tr \<in> set (bvalues (ep_transitions (sch_plan s)))"
    using plan_wf_transition [OF D(1)] tr by blast
  with plan_wfD(9) [OF D(1)] have "plan_node (sch_plan s) (wt_to_node tr) \<noteq> None"
    by (auto simp: bcontains_def plan_node_def)
  then obtain ordinal where ord: "bget (sch_node_ordinals s) (wt_to_node tr) = Some ordinal"
    unfolding D(2) using node_ordinals_get [OF D(1), of "wt_to_node tr"] by blast
  have lin: "tk_branch_lineage t \<noteq> []" "length (tk_branch_lineage t) \<le> 512"
    using tok by (auto simp: token_ok_def validate_restored_token_def split: option.splits)
  have "u = new_token sha (wt_to_node tr) ctx (tk_branch_lineage t) (s2 t)"
    by (simp add: u_def new_token_def mat) (simp add: s2)
  moreover have "sch_node_ordinals (s2 t) = sch_node_ordinals s" "sch_next_token_ordinal (s2 t) = sch_next_token_ordinal s"
    by (simp_all add: s2)
  ultimately have child: "sch_enqueue sha (wt_to_node tr) ctx (tk_branch_lineage t) (s2 t) = (Inr u, admit_token u (s2 t))"
    using sch_enqueue_ok [OF hex, of "s2 t"] ord lin max by simp
  have eq: "s' = completed ?k t pid (Some (tk_token_id u)) (admit_token u (commit_clock c s))"
    and r: "r = Inr \<lparr>aa_duplicate = False, aa_admitted_token = Some u\<rparr>"
  proof -
    have "?k \<noteq> tk_token_id u"
      using get fresh by auto
    then have "binsert (tk_token_id u) u (binsert ?k (t\<lparr>tk_state := TCompleted\<rparr>) (sch_tokens s))
        = binsert ?k (t\<lparr>tk_state := TCompleted\<rparr>) (binsert (tk_token_id u) u (sch_tokens s))"
      using bm.put_commute [OF D(3)] by metis
    with enq child show "s' = completed ?k t pid (Some (tk_token_id u)) (admit_token u (commit_clock c s))"
      by (simp add: completed_def s2 admit_token_def commit_clock_def)
    from enq child show "r = Inr \<lparr>aa_duplicate = False, aa_admitted_token = Some u\<rparr>"
      by simp
  qed
  have "validate_restored_token (sch_plan s) u"
    using new_token_valid [OF sch_inv_clock(1) [OF inv c], of "wt_to_node tr" "tk_branch_lineage t" sha ctx] ord lin
    by (simp add: u_def)
  then have "sch_change s CAdvance s'"
    unfolding eq by (intro sch_change.advance [OF get t aw tid tr c fresh _ _ _ _ _ succ]) (simp_all add: u_def new_token_def)
  with r show ?thesis by simp
qed simp

end
