(* ===== verification/Scheduler_Bounds.thy ===== *)
theory Scheduler_Bounds
  imports Scheduler_Run
begin

text \<open>
  What holds of every run of the scheduler: loops stay within their bound, the number of tokens a
  run creates is bounded by the plan, an acknowledged proposal stays acknowledged, and the ready
  token that runs next is the least one.
\<close>

section \<open>Runs\<close>

inductive sch_run :: "digest \<Rightarrow> scheduler \<Rightarrow> sch_op list \<Rightarrow> scheduler \<Rightarrow> bool" for sha s where
  start: "sch_run sha s [] s"
| next_op: "sch_run sha s ops t \<Longrightarrow> regular_op sha op t \<Longrightarrow> sch_run sha s (ops @ [op]) (apply_op sha op t)"

fun is_enqueue :: "sch_op \<Rightarrow> bool" where
  "is_enqueue (OpEnqueue _ _ _) = True"
| "is_enqueue _ = False"

definition enqueues :: "sch_op list \<Rightarrow> nat" where
  "enqueues ops = length (filter is_enqueue ops)"

lemma apply_op_change:
  assumes inv: "sch_inv s" and hex: "hex_digest sha" and reg: "regular_op sha op s"
  shows "\<exists>c. sch_change s c (apply_op sha op s) \<and> (c = CAdmit \<longrightarrow> is_enqueue op)"
proof (cases op)
  case (OpEnqueue n ctx lin)
  with reg enqueue_change [OF inv, of sha n lin ctx "fst (sch_enqueue sha n ctx lin s)" "snd (sch_enqueue sha n ctx lin s)"]
  show ?thesis by auto
next
  case OpClaim
  with claim_next_change [OF inv, of "fst (sch_claim_next s)" "snd (sch_claim_next s)"] sch_change.idle [of s]
  show ?thesis by auto
next
  case (OpProposeTransition k facts)
  with reg propose_transition_change [OF inv, of sha k facts "fst (propose_transition sha k facts s)" "snd (propose_transition sha k facts s)"]
    sch_change.idle [of s]
  show ?thesis by auto
next
  case (OpProposeTerminal k outcome facts)
  with reg propose_terminal_change [OF inv, of sha k outcome facts "fst (propose_terminal sha k outcome facts s)"
      "snd (propose_terminal sha k outcome facts s)"] sch_change.idle [of s]
  show ?thesis by auto
next
  case (OpProposeWait k facts)
  with reg propose_wait_change [OF inv, of sha k facts "fst (propose_wait_input sha k facts s)" "snd (propose_wait_input sha k facts s)"]
    sch_change.idle [of s]
  show ?thesis by auto
next
  case (OpAckTransition pid c ctx)
  with reg acknowledge_transition_change [OF inv _ hex, of pid c ctx "fst (acknowledge_transition sha pid c ctx s)"
      "snd (acknowledge_transition sha pid c ctx s)"] sch_change.idle [of s]
  show ?thesis by auto
next
  case (OpAckTerminal pid c)
  with acknowledge_completion_change [OF inv, of ExTerminal None pid c "fst (acknowledge_terminal pid c s)"
      "snd (acknowledge_terminal pid c s)"] sch_change.idle [of s]
  show ?thesis by (auto simp: acknowledge_terminal_def valid_completion_def)
next
  case (OpAckWait pid c)
  with acknowledge_completion_change [OF inv, of ExWait "Some WaitInputReceived" pid c "fst (acknowledge_wait_input pid c s)"
      "snd (acknowledge_wait_input pid c s)"] sch_change.idle [of s]
  show ?thesis by (auto simp: acknowledge_wait_input_def valid_completion_def)
next
  case (OpSuspend k)
  with suspend_change [OF inv, of k "fst (sch_suspend k s)" "snd (sch_suspend k s)"] sch_change.idle [of s]
  show ?thesis by auto
next
  case (OpResume k)
  with resume_change [OF inv, of k "fst (sch_resume k s)" "snd (sch_resume k s)"] sch_change.idle [of s]
  show ?thesis by auto
next
  case (OpCancel lin)
  have "(\<lambda>t. if cancellable lin t then t\<lparr>tk_state := TCancelled\<rparr> else t) = cancel_token lin"
    by (simp add: fun_eq_iff cancel_token_def)
  then have "apply_op sha op s = s\<lparr>sch_ready := filter (\<lambda>(_, _, l, _). \<not> lineage_matches l lin) (sch_ready s),
      sch_tokens := bmap_values (cancel_token lin) (sch_tokens s)\<rparr>"
    by (simp add: OpCancel cancel_lineage_def)
  with sch_change.cancel [of s lin] show ?thesis by auto
qed

lemma sch_inv_new: "plan_wf p \<Longrightarrow> plan_typed p \<Longrightarrow> sch_inv (sch_new p)"
  by (simp add: sch_inv_def sch_new_def ready_ok_def acks_ok_def loops_ok_def committed_in_def pending_in_def bcount_def)

lemma sch_run_inv: "sch_run sha s ops t \<Longrightarrow> hex_digest sha \<Longrightarrow> sch_inv s \<Longrightarrow> sch_inv t"
proof (induction rule: sch_run.induct)
  case (next_op ops t op)
  then show ?case
    using apply_op_change [of t sha op] sch_change_inv by blast
qed

text \<open>A quantity that every abstract step respects is respected by every run.\<close>

lemma sch_run_preserves:
  assumes run: "sch_run sha s ops t" and hex: "hex_digest sha" and inv: "sch_inv s" and init: "Q 0 s"
    and step: "\<And>n a c b. sch_inv a \<Longrightarrow> sch_change a c b \<Longrightarrow> Q n a \<Longrightarrow> Q (n + of_bool (c = CAdmit)) b"
    and mono: "\<And>n a. Q n a \<Longrightarrow> Q (Suc n) a"
  shows "Q (enqueues ops) t"
  using run
proof (induction rule: sch_run.induct)
  case start
  show ?case using init by (simp add: enqueues_def)
next
  case (next_op ops t op)
  have inv': "sch_inv t"
    using sch_run_inv [OF next_op.hyps(1) hex inv] .
  then obtain c where c: "sch_change t c (apply_op sha op t)" "c = CAdmit \<longrightarrow> is_enqueue op"
    using apply_op_change [OF _ hex next_op.hyps(2)] by blast
  from step [OF inv' c(1) next_op.IH] c(2) mono show ?case
    by (cases "c = CAdmit"; cases "is_enqueue op") (auto simp: enqueues_def)
qed

section \<open>Loop bounds\<close>

definition loop_taken :: "stable_id \<Rightarrow> token \<Rightarrow> bool" where
  "loop_taken l t \<longleftrightarrow> tk_state t = TCompleted \<and> tk_selected_loop_id t = Some l"

definition counts_exact :: "scheduler \<Rightarrow> bool" where
  "counts_exact s \<longleftrightarrow> (\<forall>l. unat (committed_in (sch_loop_counts s) l) = bcount (loop_taken l) (sch_tokens s))"

lemma bcount_completed:
  assumes "bwf m" and "bget m k = Some t" and "tk_state t \<noteq> TCompleted"
  shows "bcount (loop_taken l) (binsert k (t\<lparr>tk_state := TCompleted\<rparr>) m)
    = bcount (loop_taken l) m + of_bool (tk_selected_loop_id t = Some l)"
  using bcount_binsert_replace [OF assms(1,2), of "loop_taken l" "t\<lparr>tk_state := TCompleted\<rparr>"] assms(3)
  by (simp add: loop_taken_def)

lemma committed_bump_exact:
  assumes inv: "sch_inv s" and t: "bget (sch_tokens s) k = Some t" "tk_state t = TAwaitingCommit"
  shows "unat (committed_in (bump_loop t (sch_loop_counts s)) l)
    = unat (committed_in (sch_loop_counts s) l) + of_bool (tk_selected_loop_id t = Some l)"
proof (cases "tk_selected_loop_id t = Some l")
  case True
  note D = sch_invD [OF inv]
  have "validate_restored_token (sch_plan s) t"
    using sch_inv_token [OF inv t(1)] by (simp add: token_ok_def)
  from selected_loop_known(2) [OF D(1,11) this True] obtain d where d: "loop_descriptor (sch_plan s) l = Some d"
    by blast
  have "bcount (\<lambda>t. tk_state t = TAwaitingCommit \<and> tk_selected_loop_id t = Some l) (sch_tokens s) \<ge> 1"
    using bcount_bremove [OF D(3) t(1), of "\<lambda>t. tk_state t = TAwaitingCommit \<and> tk_selected_loop_id t = Some l"] t(2) True
    by simp
  then have "unat (committed_in (sch_loop_counts s) l) + 1 \<le> unat (ld_maximum_iterations d)"
    using D(10) d unfolding loops_ok_def pending_in_def by (meson add_left_mono order_trans)
  moreover have "unat (ld_maximum_iterations d) < 2 ^ 32"
    using unsigned_less [of "ld_maximum_iterations d"] by simp
  ultimately show ?thesis
    using True by (simp add: committed_in_bump unat_word_ariths)
qed (simp add: committed_in_bump)

lemma sch_change_counts:
  assumes "sch_change s c s'" and "sch_inv s" and "counts_exact s"
  shows "counts_exact s'"
  using assms
proof (induction rule: sch_change.induct)
  case (move s k t t' ready')
  then show ?case
    using bcount_binsert_replace [OF sch_invD(3) [OF move.prems(1)] move.hyps(1), of "loop_taken _" t']
      lifecycle_live [OF move.hyps(3)]
    by (simp add: counts_exact_def loop_taken_def)
next
  case (admit s t)
  then show ?case
    by (simp add: counts_exact_def bcount_binsert_new loop_taken_def)
next
  case (finish s k t pid c)
  then show ?case
    using committed_bump_exact [OF finish.prems(1) finish.hyps(1,2)] bcount_completed [OF sch_invD(3) [OF finish.prems(1)] finish.hyps(1)]
    by (simp add: counts_exact_def completed_def)
next
  case (advance s k t pid tid tr c u)
  have k: "bget (binsert (tk_token_id u) u (sch_tokens s)) k = Some t" "bwf (binsert (tk_token_id u) u (sch_tokens s))"
    using advance.hyps(1,7) sch_invD(3) [OF advance.prems(1)] by auto
  show ?case
    using advance committed_bump_exact [OF advance.prems(1) advance.hyps(1,2)] bcount_completed [OF k(2,1)]
    by (simp add: counts_exact_def completed_def bcount_binsert_new loop_taken_def)
next
  case (cancel s lineage)
  have "bcount (loop_taken l) (bmap_values (cancel_token lineage) (sch_tokens s)) = bcount (loop_taken l) (sch_tokens s)" for l
    unfolding bcount_bsum bsum_def
    by (rule arg_cong [where f = sum_list]) (auto simp: bmap_values_def cancel_token_def cancellable_def loop_taken_def)
  with cancel show ?case
    by (simp add: counts_exact_def)
qed

lemma sch_change_plan: "sch_change s c s' \<Longrightarrow> sch_plan s' = sch_plan s"
  by (induction rule: sch_change.induct) (simp_all add: completed_def)

lemma sch_run_counts:
  assumes "sch_run sha (sch_new p) ops s" and "hex_digest sha" and "plan_wf p" and "plan_typed p"
  shows "sch_inv s \<and> counts_exact s \<and> sch_plan s = p"
proof -
  have inv: "sch_inv (sch_new p)"
    using assms(3,4) by (rule sch_inv_new)
  have "counts_exact (sch_new p) \<and> sch_plan (sch_new p) = p"
    by (simp add: counts_exact_def sch_new_def committed_in_def bcount_def)
  from sch_run_preserves [OF assms(1,2) inv, where Q = "\<lambda>_ s. counts_exact s \<and> sch_plan s = p", OF this]
  show ?thesis
    using sch_run_inv [OF assms(1,2) inv] sch_change_counts sch_change_plan by blast
qed

section \<open>A run creates boundedly many tokens\<close>

text \<open>
  The rank of a node is the number of nodes below it in the graph without loop transitions. The
  potential of a state adds the ranks of its live tokens and the size of the graph for every
  iteration a loop has left.
\<close>

definition rank :: "execution_plan \<Rightarrow> stable_id \<Rightarrow> nat" where
  "rank p n = card ((dag_edges (bvalues (ep_transitions p)))\<^sup>+ `` {n})"

definition live_rank :: "execution_plan \<Rightarrow> token \<Rightarrow> nat" where
  "live_rank p t = (if tk_state t \<in> {TCompleted, TCancelled} then 0 else rank p (tk_node_id t))"

definition loop_left :: "execution_plan \<Rightarrow> (string, u32) bmap \<Rightarrow> nat" where
  "loop_left p counts =
     (\<Sum>d\<leftarrow>ws_loop_descriptors (ep_snapshot p). unat (ld_maximum_iterations d) - unat (committed_in counts (ld_loop_id d)))"

definition potential :: "scheduler \<Rightarrow> nat" where
  "potential s = bsum (live_rank (sch_plan s)) (sch_tokens s)
     + length (ep_nodes (sch_plan s)) * loop_left (sch_plan s) (sch_loop_counts s)"

lemma dag_edges_nodes:
  assumes "plan_wf p"
  shows "dag_edges (bvalues (ep_transitions p)) \<subseteq> set (bkeys (ep_nodes p)) \<times> set (bkeys (ep_nodes p))"
proof -
  have "bcontains (ep_nodes p) (wt_from_node t) \<and> bcontains (ep_nodes p) (wt_to_node t)" if "t \<in> set (bvalues (ep_transitions p))" for t
    using plan_wfD(9) [OF assms] that by blast
  then show ?thesis
    unfolding dag_edges_def bcontains_iff by blast
qed

lemma finite_below:
  assumes "plan_wf p"
  shows "finite ((dag_edges (bvalues (ep_transitions p)))\<^sup>+ `` A)"
proof (rule finite_subset)
  show "(dag_edges (bvalues (ep_transitions p)))\<^sup>+ `` A \<subseteq> set (bkeys (ep_nodes p))"
    using trancl_subset_Sigma [OF dag_edges_nodes [OF assms]] by blast
qed simp

lemma rank_less_nodes:
  assumes wf: "plan_wf p" and n: "plan_node p n \<noteq> None"
  shows "rank p n < length (ep_nodes p)"
proof -
  let ?E = "dag_edges (bvalues (ep_transitions p))"
  have "?E\<^sup>+ `` {n} \<subseteq> set (bkeys (ep_nodes p)) - {n}"
    using trancl_subset_Sigma [OF dag_edges_nodes [OF wf]] plan_wfD(12) [OF wf] by (auto simp: acyclic_def)
  moreover have "n \<in> set (bkeys (ep_nodes p))"
    using n bcontains_iff [of "ep_nodes p" n] unfolding plan_node_def bcontains_def by blast
  ultimately have "card (?E\<^sup>+ `` {n}) < card (set (bkeys (ep_nodes p)))"
    by (intro psubset_card_mono) auto
  also have "\<dots> = length (ep_nodes p)"
    using distinct_card [OF bwf_distinct [OF plan_wfD(2) [OF wf]]] by simp
  finally show ?thesis
    by (simp add: rank_def)
qed

lemma rank_decreases:
  assumes wf: "plan_wf p" and t: "t \<in> set (bvalues (ep_transitions p))" "wt_declared_loop_id t = None"
  shows "rank p (wt_to_node t) < rank p (wt_from_node t)"
proof -
  let ?E = "dag_edges (bvalues (ep_transitions p))"
  have e: "(wt_from_node t, wt_to_node t) \<in> ?E"
    using t unfolding dag_edges_def by blast
  then have "?E\<^sup>+ `` {wt_to_node t} \<subseteq> ?E\<^sup>+ `` {wt_from_node t}"
    by (auto intro: trancl_into_trancl2)
  moreover have "wt_to_node t \<in> ?E\<^sup>+ `` {wt_from_node t}" "wt_to_node t \<notin> ?E\<^sup>+ `` {wt_to_node t}"
    using e plan_wfD(12) [OF wf] by (auto simp: acyclic_def)
  ultimately show ?thesis
    unfolding rank_def using finite_below [OF wf] by (intro psubset_card_mono) auto
qed

lemma sum_list_decrease:
  fixes f g :: "'a \<Rightarrow> nat"
  assumes "\<And>x. x \<in> set xs \<Longrightarrow> g x \<le> f x" and "y \<in> set xs" and "g y < f y"
  shows "sum_list (map g xs) < sum_list (map f xs)"
  using assms
proof (induction xs)
  case (Cons x xs)
  have "sum_list (map g xs) \<le> sum_list (map f xs)"
    using Cons.prems(1) by (intro sum_list_mono) simp
  with Cons show ?case
    by (cases "y = x") (force intro: add_less_le_mono add_le_less_mono)+
qed simp

lemma loop_left_bump:
  assumes inv: "sch_inv s" and t: "bget (sch_tokens s) k = Some t" "tk_state t = TAwaitingCommit" "tk_selected_loop_id t = Some l"
  shows "loop_left (sch_plan s) (bump_loop t (sch_loop_counts s)) < loop_left (sch_plan s) (sch_loop_counts s)"
proof -
  note D = sch_invD [OF inv]
  note bump = committed_bump_exact [OF inv t(1,2)]
  have "validate_restored_token (sch_plan s) t"
    using sch_inv_token [OF inv t(1)] by (simp add: token_ok_def)
  from selected_loop_known(2) [OF D(1,11) this t(3)] obtain d where d: "loop_descriptor (sch_plan s) l = Some d"
    by blast
  then have mem: "d \<in> set (ws_loop_descriptors (ep_snapshot (sch_plan s)))" "ld_loop_id d = l"
    using bget_self_keyed [where key = ld_loop_id] unfolding loop_descriptor_def plan_wfD(6) [OF D(1)] by blast+
  have "loops_ok (sch_plan s) (sch_tokens s) (sch_loop_counts s)"
    by (rule D(10))
  with d have "unat (committed_in (sch_loop_counts s) l) + pending_in (sch_tokens s) l \<le> unat (ld_maximum_iterations d)"
    unfolding loops_ok_def by blast
  moreover have "0 < pending_in (sch_tokens s) l"
    using bcount_bremove [OF D(3) t(1), of "\<lambda>t. tk_state t = TAwaitingCommit \<and> tk_selected_loop_id t = Some l"] t(2,3)
    by (simp add: pending_in_def)
  ultimately have "unat (committed_in (sch_loop_counts s) l) < unat (ld_maximum_iterations d)"
    by simp
  then show ?thesis
    unfolding loop_left_def
  proof (intro sum_list_decrease [OF _ mem(1)])
    show "unat (ld_maximum_iterations x) - unat (committed_in (bump_loop t (sch_loop_counts s)) (ld_loop_id x))
      \<le> unat (ld_maximum_iterations x) - unat (committed_in (sch_loop_counts s) (ld_loop_id x))" for x
      using bump [of "ld_loop_id x"] by simp
  qed (use mem(2) bump [of l] t(3) in simp)
qed

lemma live_rank_completed: "live_rank p (t\<lparr>tk_state := TCompleted\<rparr>) = 0"
  by (simp add: live_rank_def)

lemma sch_change_potential:
  assumes "sch_change s c s'" and "sch_inv s"
  shows "length (sch_tokens s') + potential s'
    \<le> length (sch_tokens s) + potential s + of_bool (c = CAdmit) * length (ep_nodes (sch_plan s))"
  using assms
proof (induction rule: sch_change.induct)
  case (move s k t t' ready')
  have "live_rank (sch_plan s) t' = live_rank (sch_plan s) t"
    using move.hyps(2,3) by (auto simp: live_rank_def same_place_def lifecycle_def)
  with bsum_binsert_replace [OF sch_invD(3) [OF move.prems] move.hyps(1), of "live_rank (sch_plan s)" t'] move.hyps(1) sch_invD(3) [OF move.prems]
  show ?case
    by (simp add: potential_def length_binsert bcontains_def)
next
  case (admit s t)
  have "live_rank (sch_plan s) t < length (ep_nodes (sch_plan s))"
    using rank_less_nodes [OF sch_invD(1) [OF admit.prems] validate_node_known [OF admit.hyps(4)]] admit.hyps(2)
    by (simp add: live_rank_def)
  with admit.hyps(1) sch_invD(3) [OF admit.prems] show ?case
    by (simp add: potential_def length_binsert bcontains_def bsum_binsert_new)
next
  case (finish s k t pid c)
  note D = sch_invD [OF finish.prems]
  have "tk_selected_loop_id t = None"
    using sch_inv_token [OF finish.prems finish.hyps(1)] finish.hyps(2,4)
    by (auto simp: token_ok_def validate_restored_token_def split: option.splits)
  with bsum_binsert_replace [OF D(3) finish.hyps(1), of "live_rank (sch_plan s)" "t\<lparr>tk_state := TCompleted\<rparr>"] finish.hyps(1) D(3)
  show ?case
    by (simp add: potential_def completed_def length_binsert bcontains_def live_rank_completed bump_loop_def)
next
  case (advance s k t pid tid tr c u)
  note D = sch_invD [OF advance.prems]
  let ?p = "sch_plan s"
  let ?m = "binsert (tk_token_id u) u (sch_tokens s)"
  have tr: "tr \<in> set (bvalues (ep_transitions ?p))"
    using plan_wf_transition [OF D(1)] advance.hyps(5) by blast
  have "validate_restored_token ?p t"
    using sch_inv_token [OF advance.prems advance.hyps(1)] by (simp add: token_ok_def)
  then have src: "wt_from_node tr = tk_node_id t" and loop: "wt_declared_loop_id tr = tk_selected_loop_id t"
    using advance.hyps(2,4,5) by (auto simp: validate_restored_token_def split: option.splits)
  have k: "bget ?m k = Some t" "bwf ?m"
    using advance.hyps(1,7) D(3) by auto
  have sum: "bsum (live_rank ?p) (binsert k (t\<lparr>tk_state := TCompleted\<rparr>) ?m) + rank ?p (tk_node_id t)
      = bsum (live_rank ?p) (sch_tokens s) + rank ?p (wt_to_node tr)"
    using bsum_binsert_replace [OF k(2,1), of "live_rank ?p" "t\<lparr>tk_state := TCompleted\<rparr>"] advance.hyps(2,7,8,9)
    by (simp add: live_rank_completed bsum_binsert_new live_rank_def)
  have len: "length (binsert k (t\<lparr>tk_state := TCompleted\<rparr>) ?m) = length (sch_tokens s) + 1"
    using k D(3) advance.hyps(7) by (simp add: length_binsert bcontains_def)
  have dst: "rank ?p (wt_to_node tr) < length (ep_nodes ?p)"
    using rank_less_nodes [OF D(1) validate_node_known [OF advance.hyps(12)]] advance.hyps(9) by simp
  have "bsum (live_rank ?p) (binsert k (t\<lparr>tk_state := TCompleted\<rparr>) ?m)
      + length (ep_nodes ?p) * loop_left ?p (bump_loop t (sch_loop_counts s))
    < bsum (live_rank ?p) (sch_tokens s) + length (ep_nodes ?p) * loop_left ?p (sch_loop_counts s)"
  proof (cases "tk_selected_loop_id t")
    case None
    with rank_decreases [OF D(1) tr] loop src sum show ?thesis
      by (simp add: bump_loop_def)
  next
    case (Some l)
    from loop_left_bump [OF advance.prems advance.hyps(1,2) Some]
    have "length (ep_nodes ?p) * (loop_left ?p (bump_loop t (sch_loop_counts s)) + 1)
        \<le> length (ep_nodes ?p) * loop_left ?p (sch_loop_counts s)"
      by (intro mult_le_mono2) simp
    with sum dst show ?thesis by simp
  qed
  with len show ?case
    by (simp add: potential_def completed_def)
next
  case (cancel s lineage)
  have "bsum (live_rank (sch_plan s)) (bmap_values (cancel_token lineage) (sch_tokens s)) \<le> bsum (live_rank (sch_plan s)) (sch_tokens s)"
    unfolding bsum_def bvalues_bmap_values map_map comp_def
    by (rule sum_list_mono) (simp add: live_rank_def cancel_token_def)
  then show ?case
    by (simp add: potential_def)
qed simp

section \<open>Acknowledgements are final\<close>

lemma same_place_trans: "same_place a b \<Longrightarrow> same_place b c \<Longrightarrow> same_place a c"
  by (simp add: same_place_def)

lemma sch_change_acks:
  assumes "sch_change s c s'" and "sch_inv s" and "bget (sch_acknowledged_proposals s) pid = Some child"
  shows "bget (sch_acknowledged_proposals s') pid = Some child"
  using assms
proof (induction rule: sch_change.induct)
  case (finish s k t i c)
  then show ?case
    using proposal_not_acked [OF finish.prems(1) finish.hyps(1,3)] by (auto simp: completed_def)
next
  case (advance s k t i tid tr c u)
  then show ?case
    using proposal_not_acked [OF advance.prems(1) advance.hyps(1,3)] by (auto simp: completed_def)
qed simp_all

lemma sch_change_places:
  assumes "sch_change s c s'" and "sch_inv s" and "bget (sch_tokens s) j = Some x"
  shows "\<exists>y. bget (sch_tokens s') j = Some y \<and> same_place x y"
  using assms
proof (induction rule: sch_change.induct)
  case (move s k t t' ready')
  then show ?case by (cases "j = k") auto
next
  case (admit s t)
  then show ?case by auto
next
  case (finish s k t i c)
  then show ?case by (cases "j = k") (auto simp: completed_def same_place_def)
next
  case (advance s k t i tid tr c u)
  then show ?case by (cases "j = k") (auto simp: completed_def same_place_def)
next
  case (cancel s lineage)
  then show ?case by (simp add: cancel_token_def same_place_def)
qed simp

lemma sch_run_acks:
  assumes "sch_run sha s ops t" and "hex_digest sha" and "sch_inv s"
    and "bget (sch_acknowledged_proposals s) pid = Some child" and "bget (sch_tokens s) j = Some x"
  shows "bget (sch_acknowledged_proposals t) pid = Some child \<and> (\<exists>y. bget (sch_tokens t) j = Some y \<and> same_place x y)"
  using sch_run_preserves [OF assms(1-3), where Q = "\<lambda>_ s. bget (sch_acknowledged_proposals s) pid = Some child
      \<and> (\<exists>y. bget (sch_tokens s) j = Some y \<and> same_place x y)"] assms(4,5)
    sch_change_acks sch_change_places same_place_trans same_place_refl by blast

section \<open>Properties\<close>

text \<open>Running a list of operations, checking that each is regular.\<close>

fun run_ops :: "digest \<Rightarrow> sch_op list \<Rightarrow> scheduler \<Rightarrow> scheduler option" where
  "run_ops sha [] s = Some s"
| "run_ops sha (op # ops) s = (if regular_op sha op s then run_ops sha ops (apply_op sha op s) else None)"

lemma run_ops_append: "run_ops sha (xs @ ys) s = Option.bind (run_ops sha xs s) (run_ops sha ys)"
  by (induction xs arbitrary: s) auto

lemma run_ops_run: "run_ops sha ops s = Some t \<Longrightarrow> sch_run sha s ops t"
proof (induction ops arbitrary: t rule: rev_induct)
  case Nil
  then show ?case by (simp add: sch_run.start)
next
  case (snoc op ops)
  then obtain u where u: "run_ops sha ops s = Some u" "regular_op sha op u" "t = apply_op sha op u"
    by (auto simp: run_ops_append bind_eq_Some_conv split: if_splits)
  from sch_run.next_op [OF snoc.IH [OF u(1)] u(2)] u(3) show ?case
    by simp
qed

definition demo_token1 :: stable_id where
  "demo_token1 = worker_id tail_digest (token_material (sch_new demo_plan) ''draft'' ''root'')"

definition demo_proposal1 :: stable_id where
  "demo_proposal1 = worker_id tail_digest (transition_material (sch_new demo_plan) demo_token1 ''t1'')"

definition demo_token2 :: stable_id where
  "demo_token2 = worker_id tail_digest (token_material ((sch_new demo_plan)\<lparr>sch_next_token_ordinal := 2\<rparr>) ''review'' ''root'')"

definition demo_proposal2 :: stable_id where
  "demo_proposal2 = worker_id tail_digest (transition_material (sch_new demo_plan) demo_token2 ''t2'')"

definition demo_ops :: "sch_op list" where
  "demo_ops = [OpEnqueue ''draft'' 0 ''root'', OpClaim, OpProposeTransition demo_token1 JNull, OpAckTransition demo_proposal1 1 1,
     OpClaim, OpProposeTransition demo_token2 JNull, OpAckTransition demo_proposal2 2 2]"

definition demo_run :: "scheduler option" where
  "demo_run = run_ops tail_digest demo_ops (sch_new demo_plan)"

lemma demo_run_ok:
  "(case demo_run of None \<Rightarrow> False | Some s \<Rightarrow>
      length (sch_tokens s) = 3 \<and> committed_in (sch_loop_counts s) ''again'' = 1
      \<and> bget (sch_acknowledged_proposals s) demo_proposal1 = Some (Some demo_token2))"
  by code_simp

lemma demo_typed: "plan_typed demo_plan"
proof -
  have "valid_stable_id ''again''"
    by code_simp
  then show ?thesis
    by (simp add: plan_typed_def demo_plan_value demo_transition_def)
qed

lemma demo_run_run: "sch_run tail_digest (sch_new demo_plan) demo_ops (the demo_run)"
  using demo_run_ok by (intro run_ops_run) (auto simp: demo_run_def split: option.splits)

text \<open>
  C2. No loop runs more often than the plan allows: in every state that a scheduler for a compiled
  plan reaches, the tokens that have completed over a transition of a loop and those whose proposal
  over it awaits its commit are together at most the loop's maximum number of iterations.
\<close>

theorem loop_iterations_bounded:
  assumes "compile c snapshot h = Inr p" and "plan_typed p" and "hex_digest sha"
    and "sch_run sha (sch_new p) ops s" and "loop_descriptor p l = Some d"
  shows "bcount (loop_taken l) (sch_tokens s) + pending_in (sch_tokens s) l \<le> unat (ld_maximum_iterations d)"
proof -
  have "sch_inv s" "counts_exact s" "sch_plan s = p"
    using sch_run_counts [OF assms(4,3) _ assms(2)] compile_wf [OF assms(1)] by auto
  then have "loops_ok p (sch_tokens s) (sch_loop_counts s)"
    using sch_invD(10) by blast
  with assms(5) \<open>counts_exact s\<close> show ?thesis
    unfolding loops_ok_def counts_exact_def by metis
qed

theorem loop_iterations_bounded_witness:
  "bcount (loop_taken ''again'') (sch_tokens (the demo_run)) = 1
   \<and> bcount (loop_taken ''again'') (sch_tokens (the demo_run)) + pending_in (sch_tokens (the demo_run)) ''again'' \<le> 3"
proof -
  have "bcount (loop_taken ''again'') (sch_tokens (the demo_run)) = 1"
    by code_simp
  moreover have "loop_descriptor demo_plan ''again'' =
      Some \<lparr>ld_loop_id = ''again'', ld_maximum_iterations = 3, ld_body_entry = ''draft'', ld_body_exit = ''review''\<rparr>"
    by (simp add: loop_descriptor_def demo_plan_value)
  ultimately show ?thesis
    using loop_iterations_bounded [OF demo_compiles demo_typed hex_tail_digest demo_run_run, of "''again''"] by simp
qed

text \<open>
  C11. Every run makes boundedly many tokens: after any sequence of operations on a scheduler for a
  compiled plan with \<open>N\<close> nodes, at most \<open>N * (e + m)\<close> tokens exist, where \<open>e\<close> is the number of
  tokens the caller enqueued and \<open>m\<close> the sum of the iteration bounds of the loops. Every further
  token comes from a committed transition, so a workflow cannot run forever.
\<close>

theorem scheduler_tokens_bounded:
  assumes "compile c snapshot h = Inr p" and "plan_typed p" and "hex_digest sha"
    and "sch_run sha (sch_new p) ops s"
  shows "length (sch_tokens s) \<le> length (ws_nodes snapshot)
    * (enqueues ops + (\<Sum>d\<leftarrow>ws_loop_descriptors snapshot. unat (ld_maximum_iterations d)))"
proof -
  from compile_wf [OF assms(1)] have wf: "plan_wf p" and snap: "ep_snapshot p = canonicalize_snapshot snapshot"
    by auto
  have inv: "sch_inv (sch_new p)"
    by (rule sch_inv_new [OF wf assms(2)])
  let ?N = "length (ep_nodes p)"
  let ?M = "\<Sum>d\<leftarrow>ws_loop_descriptors (ep_snapshot p). unat (ld_maximum_iterations d)"
  let ?Q = "\<lambda>n s. sch_plan s = p \<and> length (sch_tokens s) + potential s \<le> ?N * (n + ?M)"
  have "?Q 0 (sch_new p)"
    by (simp add: sch_new_def potential_def loop_left_def committed_in_def)
  moreover have "?Q (n + of_bool (c = CAdmit)) b" if "sch_inv a" "sch_change a c b" "?Q n a" for n a c b
    using sch_change_potential [OF that(2,1)] sch_change_plan [OF that(2)] that(3)
    by (cases "c = CAdmit") (auto simp: algebra_simps)
  ultimately have "?Q (enqueues ops) s"
    by (rule sch_run_preserves [OF assms(4,3) inv, where Q = ?Q]) (auto simp: algebra_simps)
  moreover have "?N = length (ws_nodes snapshot)"
    by (simp add: plan_wfD(1) [OF wf] snap canonicalize_snapshot_def)
  moreover have "?M = (\<Sum>d\<leftarrow>ws_loop_descriptors snapshot. unat (ld_maximum_iterations d))"
  proof -
    have "mset (map (\<lambda>d. unat (ld_maximum_iterations d)) (sort_key ld_loop_id (ws_loop_descriptors snapshot)))
        = mset (map (\<lambda>d. unat (ld_maximum_iterations d)) (ws_loop_descriptors snapshot))"
      by simp
    then show ?thesis
      by (simp add: snap canonicalize_snapshot_def flip: sum_mset_sum_list)
  qed
  ultimately show ?thesis
    by simp
qed

theorem scheduler_tokens_bounded_witness:
  "length (sch_tokens (the demo_run)) = 3 \<and> length (sch_tokens (the demo_run)) \<le> 3 * (1 + 3)"
proof -
  obtain s where "demo_run = Some s" "length (sch_tokens s) = 3"
    using demo_run_ok by (simp only: split: option.split_asm)
  then have "length (sch_tokens (the demo_run)) = 3"
    by (metis option.sel)
  moreover have "enqueues demo_ops = 1"
    by (simp add: enqueues_def demo_ops_def)
  ultimately show ?thesis
    using scheduler_tokens_bounded [OF demo_compiles demo_typed hex_tail_digest demo_run_run] by (simp add: demo_snapshot_def)
qed

lemma acknowledge_transition_admits:
  assumes "acknowledge_transition sha pid c ctx s = (Inr a, s1)" and "\<not> aa_duplicate a"
  shows "\<exists>u. aa_admitted_token a = Some u \<and> bget (sch_acknowledged_proposals s1) pid = Some (Some (tk_token_id u))
    \<and> bget (sch_tokens s1) (tk_token_id u) = Some u"
proof -
  from assms obtain u s3 n l s2 where enq: "sch_enqueue sha n ctx l s2 = (Inr u, s3)"
    and a: "a = \<lparr>aa_duplicate = False, aa_admitted_token = Some u\<rparr>"
    and s1: "s1 = s3\<lparr>sch_acknowledged_proposals := binsert pid (Some (tk_token_id u)) (sch_acknowledged_proposals s3)\<rparr>"
    unfolding acknowledge_transition_def Let_def by (simp split: if_splits option.splits sum.splits prod.splits) (blast | force)+
  from enq have "bget (sch_tokens s3) (tk_token_id u) = Some u"
    by (cases rule: sch_enqueue_cases) (simp_all add: admit_token_def)
  with a s1 show ?thesis
    by simp
qed

text \<open>
  C24. A committed transition takes effect once: after its acknowledgement has admitted a token, in a
  run without collisions of generated identifiers, every later acknowledgement of the same proposal,
  with any cursor and any context revision, changes nothing. With a cursor below the committed one it
  is refused as a cursor regression. With any other it reports a duplicate and names the token that
  was admitted then, still at the same node and in the same lineage.
\<close>

theorem acknowledged_once:
  assumes "compile c snapshot h = Inr p" and "plan_typed p" and "hex_digest sha"
    and "sch_run sha (sch_new p) ops s" and "regular_op sha (OpAckTransition pid cursor ctx) s"
    and "acknowledge_transition sha pid cursor ctx s = (Inr a, s1)" and "\<not> aa_duplicate a"
    and "sch_run sha s1 ops' t"
  shows "\<exists>u v. aa_admitted_token a = Some u
    \<and> acknowledge_transition sha pid cursor' ctx' t =
        (if cursor' < sch_committed_cursor t then Inl SvCursorRegression
         else Inr \<lparr>aa_duplicate = True, aa_admitted_token = Some v\<rparr>, t)
    \<and> tk_token_id v = tk_token_id u \<and> tk_node_id v = tk_node_id u \<and> tk_branch_lineage v = tk_branch_lineage u"
proof -
  have inv: "sch_inv s"
    using sch_run_counts [OF assms(4,3) _ assms(2)] compile_wf [OF assms(1)] by auto
  have inv1: "sch_inv s1"
    using sch_run_inv [OF sch_run.next_op [OF sch_run.start assms(5)] assms(3) inv] assms(6) by simp
  from acknowledge_transition_admits [OF assms(6,7)] obtain u where u: "aa_admitted_token a = Some u"
    and acks: "bget (sch_acknowledged_proposals s1) pid = Some (Some (tk_token_id u))"
    and tok: "bget (sch_tokens s1) (tk_token_id u) = Some u"
    by blast
  from sch_run_acks [OF assms(8,3) inv1 acks tok] obtain v
    where "bget (sch_acknowledged_proposals t) pid = Some (Some (tk_token_id u))" "bget (sch_tokens t) (tk_token_id u) = Some v" "same_place u v"
    by blast
  with u show ?thesis
    by (auto simp: acknowledge_transition_def same_place_def)
qed

definition demo_prefix :: "scheduler option" where
  "demo_prefix = run_ops tail_digest (take 3 demo_ops) (sch_new demo_plan)"

definition demo_acked :: "(scheduler_error + ack_admission) \<times> scheduler" where
  "demo_acked = acknowledge_transition tail_digest demo_proposal1 1 1 (the demo_prefix)"

lemma demo_acked_ok:
  "demo_prefix \<noteq> None \<and> regular_op tail_digest (OpAckTransition demo_proposal1 1 1) (the demo_prefix)
   \<and> (case fst demo_acked of Inl _ \<Rightarrow> False | Inr a \<Rightarrow> \<not> aa_duplicate a)
   \<and> (case run_ops tail_digest (drop 4 demo_ops) (snd demo_acked) of None \<Rightarrow> False | Some t \<Rightarrow>
        sch_committed_cursor t = 2)"
  by code_simp

theorem acknowledged_once_witness:
  "\<exists>a t u v. fst demo_acked = Inr a \<and> run_ops tail_digest (drop 4 demo_ops) (snd demo_acked) = Some t
    \<and> aa_admitted_token a = Some u
    \<and> acknowledge_transition tail_digest demo_proposal1 2 7 t = (Inr \<lparr>aa_duplicate = True, aa_admitted_token = Some v\<rparr>, t)
    \<and> acknowledge_transition tail_digest demo_proposal1 1 7 t = (Inl SvCursorRegression, t)
    \<and> tk_token_id v = tk_token_id u"
proof -
  obtain s where "demo_prefix = Some s"
    using demo_acked_ok by blast
  then have pre: "sch_run tail_digest (sch_new demo_plan) (take 3 demo_ops) (the demo_prefix)"
    by (intro run_ops_run) (metis demo_prefix_def option.sel)
  obtain a where a: "fst demo_acked = Inr a" "\<not> aa_duplicate a"
    using demo_acked_ok by (auto split: sum.splits)
  obtain t where t: "run_ops tail_digest (drop 4 demo_ops) (snd demo_acked) = Some t" "sch_committed_cursor t = 2"
    using demo_acked_ok by (auto split: option.splits)
  have "acknowledge_transition tail_digest demo_proposal1 1 1 (the demo_prefix) = (Inr a, snd demo_acked)"
    by (metis a(1) demo_acked_def prod.collapse)
  note once = acknowledged_once [OF demo_compiles demo_typed hex_tail_digest pre _ this a(2) run_ops_run [OF t(1)]]
  from once [of 2 7] once [of 1 7] a(1) t demo_acked_ok show ?thesis
    by auto
qed

text \<open>
  C26. A ready token is never starved of a claim: in every reachable state, \<open>claim_next\<close> finds nothing
  only when no token is ready; otherwise it takes a ready token that no other ready token precedes in
  the order of creation tick, node ordinal and lineage.
\<close>

theorem claim_next_serves_ready:
  assumes "compile c snapshot h = Inr p" and "plan_typed p" and "hex_digest sha"
    and "sch_run sha (sch_new p) ops s" and "sch_claim_next s = (r, s')"
  shows "case r of None \<Rightarrow> s' = s \<and> (\<forall>k t. bget (sch_tokens s) k = Some t \<longrightarrow> tk_state t \<noteq> TReady)
    | Some t' \<Rightarrow> \<exists>t. bget (sch_tokens s) (tk_token_id t') = Some t \<and> tk_state t = TReady \<and> t' = t\<lparr>tk_state := TInFlight\<rparr>
        \<and> bget (sch_tokens s') (tk_token_id t') = Some t'
        \<and> (\<forall>j u. bget (sch_tokens s) j = Some u \<and> tk_state u = TReady \<longrightarrow> token_key p t \<le> token_key p u)"
proof -
  have inv: "sch_inv s" and plan: "sch_plan s = p"
    using sch_run_counts [OF assms(4,3) _ assms(2)] compile_wf [OF assms(1)] by auto
  note mem = ready_ok_mem [OF sch_invD(6) [OF inv]]
  have swf: "swf (sch_ready s)"
    using sch_invD(6) [OF inv] unfolding ready_ok_def by simp
  consider (none) "r = None" "s' = s" "sch_ready s = []"
    | (some) k t where "bget (sch_tokens s) k = Some t" "tk_state t = TReady" "r = Some (t\<lparr>tk_state := TInFlight\<rparr>)"
        "hd (sch_ready s) = token_key (sch_plan s) t" "sch_ready s \<noteq> []"
    using claim_next_change [OF inv assms(5)] by blast
  then show ?thesis
  proof cases
    case none
    then have "\<not> (\<exists>k t. bget (sch_tokens s) k = Some t \<and> tk_state t = TReady)"
      using mem by (metis list.set(1) empty_iff)
    with none show ?thesis by auto
  next
    case some
    have id: "tk_token_id t = k"
      using sch_inv_token [OF inv some(1)] by (simp add: token_ok_def)
    have "bget (sch_tokens s') k = Some (t\<lparr>tk_state := TInFlight\<rparr>)"
      using assms(5) some id by (cases "sch_ready s") (auto simp: sch_claim_next_def token_key_def ready_key_def Let_def)
    moreover have "token_key p t \<le> token_key p u" if "bget (sch_tokens s) j = Some u \<and> tk_state u = TReady" for j u
    proof -
      have "token_key p u \<in> set (sch_ready s)"
        using that unfolding mem plan by blast
      then show ?thesis
        using swf some(4,5) plan by (cases "sch_ready s") (auto simp del: less_eq_prod_simp simp: swf_def)
    qed
    ultimately show ?thesis
      using some(1,2,3) id by auto
  qed
qed

lemma demo_claim_ok:
  "demo_prefix \<noteq> None \<and> regular_op tail_digest (OpEnqueue ''draft'' 0 ''root'') (sch_new demo_plan)
   \<and> fst (sch_claim_next (snd (sch_enqueue tail_digest ''draft'' 0 ''root'' (sch_new demo_plan)))) \<noteq> None"
  by code_simp

theorem claim_next_serves_ready_witness:
  "\<exists>t'. fst (sch_claim_next (snd (sch_enqueue tail_digest ''draft'' 0 ''root'' (sch_new demo_plan)))) = Some t'
     \<and> tk_state t' = TInFlight"
proof -
  let ?s = "snd (sch_enqueue tail_digest ''draft'' 0 ''root'' (sch_new demo_plan))"
  have "sch_run tail_digest (sch_new demo_plan) [OpEnqueue ''draft'' 0 ''root''] ?s"
    using sch_run.next_op [OF sch_run.start, of tail_digest "OpEnqueue ''draft'' 0 ''root''" "sch_new demo_plan"] demo_claim_ok
    by simp
  from claim_next_serves_ready [OF demo_compiles demo_typed hex_tail_digest this prod.collapse [symmetric]] demo_claim_ok
  show ?thesis
    by (auto split: option.splits)
qed

end
