(* ===== verification/Scheduler_Restore.thy ===== *)
theory Scheduler_Restore
  imports Scheduler_Bounds
begin

text \<open>
  Checkpoints of the scheduler: restoring the checkpoint of a state with the invariant gives the
  state back, and every checkpoint that \<open>restore\<close> accepts is a state with the invariant, provided
  no loop of the plan allows the largest 32-bit number of iterations. The scheduler is then a
  \<open>crash_safe\<close> system: crashes and restores add no behaviour to its runs.
\<close>

section \<open>What the loops of restore accept\<close>

definition proposals_of :: "token list \<Rightarrow> string list" where
  "proposals_of ts = List.map_filter tk_awaiting_proposal_id ts"

lemma proposals_of_simps [simp]:
  "proposals_of [] = []"
  "proposals_of (t # ts) = (case tk_awaiting_proposal_id t of None \<Rightarrow> proposals_of ts | Some i \<Rightarrow> i # proposals_of ts)"
  by (simp_all add: proposals_of_def List.map_filter_def split: option.splits)

lemma restore_tokens_Inr:
  "restore_tokens p tick ts pids m = Inr m' \<longleftrightarrow>
     (\<forall>t \<in> set ts. tk_logical_tick t \<le> tick \<and> validate_restored_token p t)
     \<and> distinct (map tk_token_id ts) \<and> (\<forall>t \<in> set ts. bget m (tk_token_id t) = None)
     \<and> distinct (proposals_of ts) \<and> set (proposals_of ts) \<inter> set pids = {}
     \<and> m' = fold (\<lambda>t. binsert (tk_token_id t) t) ts m"
proof (induction ts arbitrary: pids m)
  case (Cons t ts)
  show ?case
    by (cases "tk_awaiting_proposal_id t") (auto simp: Cons.IH bcontains_def image_iff)
qed auto

definition ready_entry_ok :: "(string, u32) bmap \<Rightarrow> (string, token) bmap \<Rightarrow> ready_key \<Rightarrow> bool" where
  "ready_entry_ok ordinals tokens key \<longleftrightarrow> (\<exists>k t ordinal. bget tokens k = Some t \<and> tk_state t = TReady
     \<and> bget ordinals (tk_node_id t) = Some ordinal \<and> key = (tk_logical_tick t, ordinal, tk_branch_lineage t, k))"

lemma restore_ready_Inr:
  "restore_ready ordinals tokens ks ready = Inr ready' \<longleftrightarrow>
     (\<forall>key \<in> set ks. ready_entry_ok ordinals tokens key) \<and> distinct ks \<and> set ks \<inter> set ready = {}
     \<and> ready' = fold sinsert ks ready"
proof (induction ks arbitrary: ready)
  case (Cons k ks)
  obtain a b c d where k: "k = (a, b, c, d)"
    by (cases k) auto
  show ?case
    by (auto simp: Cons.IH k ready_entry_ok_def split: option.splits)
qed auto

lemma proposals_of_filter:
  "proposals_of ts = map (\<lambda>t. the (tk_awaiting_proposal_id t)) (filter (\<lambda>t. tk_awaiting_proposal_id t \<noteq> None) ts)"
  by (induction ts) (auto split: option.splits)

lemma distinct_proposals:
  assumes "bwf m"
  shows "proposals_unique m \<longleftrightarrow> distinct (proposals_of (bvalues m))"
proof -
  let ?ts = "filter (\<lambda>t. tk_awaiting_proposal_id t \<noteq> None) (bvalues m)"
  have "map tk_awaiting_proposal_id ?ts = map Some (proposals_of (bvalues m))"
    by (auto simp: proposals_of_filter)
  then show ?thesis
    unfolding bunique_distinct [OF assms] by (simp add: distinct_map)
qed

section \<open>The restored state\<close>

definition restored_state :: "execution_plan \<Rightarrow> scheduler_checkpoint \<Rightarrow> (string, token) bmap \<Rightarrow> ready_key list \<Rightarrow> scheduler" where
  "restored_state p cp tokens ready =
     \<lparr>sch_plan = p, sch_node_ordinals = node_ordinals p, sch_ready = ready, sch_tokens = tokens,
      sch_next_token_ordinal = scp_next_token_ordinal cp, sch_logical_tick = scp_logical_tick cp,
      sch_committed_cursor = scp_committed_cursor cp, sch_loop_counts = scp_loop_counts cp,
      sch_acknowledged_proposals = scp_acknowledged_proposals cp\<rparr>"

lemma restored_counts:
  "(\<exists>(l, n) \<in> set counts. \<not> valid_stable_id l \<or> (case checkpoint_loop_bound p l of None \<Rightarrow> True | Some bound \<Rightarrow> bound < n))
     \<longleftrightarrow> \<not> (\<forall>(l, n) \<in> set counts. valid_stable_id l \<and> (\<exists>d. loop_descriptor p l = Some d \<and> n \<le> ld_maximum_iterations d))"
proof -
  have "(case checkpoint_loop_bound p l of None \<Rightarrow> True | Some bound \<Rightarrow> bound < n)
      \<longleftrightarrow> \<not> (\<exists>d. loop_descriptor p l = Some d \<and> n \<le> ld_maximum_iterations d)" for l n
    by (cases "loop_descriptor p l") (auto simp: checkpoint_loop_bound_def)
  then show ?thesis
    by (simp only: split_def) blast
qed

lemma restored_cursor:
  fixes cursor :: u64
  shows "(case (try_from_usize n :: u64 option) of None \<Rightarrow> True | Some k \<Rightarrow> cursor < k) \<longleftrightarrow> \<not> n \<le> unat cursor"
proof (cases "n < 2 ^ LENGTH(64)")
  case True
  then have "unat (of_nat n :: u64) = n"
    by (simp add: unat_of_nat)
  with True show ?thesis
    by (simp add: try_from_usize_def word_less_nat_alt not_le)
next
  case False
  moreover have "unat cursor < 2 ^ LENGTH(64)"
    by (rule unsigned_less)
  ultimately show ?thesis
    by (simp add: try_from_usize_def)
qed

lemma restored_ordinal:
  fixes ordinal :: u64
  shows "Option.bind (try_from_usize n) (\<lambda>m. checked_add m 1) = Some ordinal \<longleftrightarrow> unat ordinal = n + 1"
proof
  assume "Option.bind (try_from_usize n) (\<lambda>m. checked_add m 1) = Some ordinal"
  then show "unat ordinal = n + 1"
    by (auto simp: bind_eq_Some_conv rust_arith)
next
  assume ord: "unat ordinal = n + 1"
  then have "unat (ordinal - 1) = n"
    by (metis add_diff_cancel_right' unat_minus_one add_is_0 one_neq_zero unsigned_0)
  with ord show "Option.bind (try_from_usize n) (\<lambda>m. checked_add m 1) = Some ordinal"
    by (auto simp: bind_eq_Some_conv rust_arith intro!: exI [where x = "ordinal - 1"])
qed

lemma restored_ready:
  "(\<exists>t \<in> T. tk_state t = TReady \<and> (\<forall>(_, _, _, i) \<in> set ready. i \<noteq> tk_token_id t))
     \<longleftrightarrow> \<not> (\<forall>t \<in> T. tk_state t = TReady \<longrightarrow> (\<exists>a b c. (a, b, c, tk_token_id t) \<in> set (ready :: ready_key list)))"
proof -
  have "(\<forall>(_, _, _, i) \<in> set ready. i \<noteq> j) \<longleftrightarrow> \<not> (\<exists>a b c. (a, b, c, j) \<in> set ready)" for j
    by auto
  then show ?thesis
    by (simp only:) blast
qed

lemma restored_acked:
  "(\<exists>t \<in> T. (tk_state t = TCompleted) \<noteq> A t \<or> (tk_state t = TAwaitingCommit \<and> A t))
     \<longleftrightarrow> \<not> (\<forall>t \<in> T. (tk_state t = TCompleted) = A t)"
  by (force split: if_splits)

lemma if_Inl: "(if c then Inl e else r) = Inr s \<longleftrightarrow> \<not> c \<and> r = Inr s"
  by simp

lemma sch_restore_Inr:
  "sch_restore p cp = Inr s \<longleftrightarrow> (\<exists>tokens ready.
     restore_tokens p (scp_logical_tick cp) (scp_tokens cp) [] [] = Inr tokens
     \<and> restore_ready (node_ordinals p) tokens (scp_ready cp) [] = Inr ready
     \<and> s = restored_state p cp tokens ready
     \<and> length (scp_acknowledged_proposals cp) \<le> unat (scp_committed_cursor cp)
     \<and> (\<forall>(l, n) \<in> set (scp_loop_counts cp). valid_stable_id l \<and> (\<exists>d. loop_descriptor p l = Some d \<and> n \<le> ld_maximum_iterations d))
     \<and> unat (scp_next_token_ordinal cp) = length tokens + 1
     \<and> (\<forall>t \<in> set (bvalues tokens). tk_state t = TReady \<longrightarrow> (\<exists>a b c. (a, b, c, tk_token_id t) \<in> set ready))
     \<and> (\<forall>e \<in> set (scp_acknowledged_proposals cp). is_ok (restored_ack_ok p tokens e))
     \<and> (\<forall>t \<in> set (bvalues tokens). (tk_state t = TCompleted) = restored_token_acked (scp_acknowledged_proposals cp) t)
     \<and> (\<forall>d \<in> set (ws_loop_descriptors (ep_snapshot p)). restored_loop_ok (scp_loop_counts cp) tokens d))"
proof -
  have zero: "ordinal \<noteq> 0" if "unat ordinal = n + 1" for ordinal :: u64 and n
    using that by auto
  show ?thesis
    unfolding sch_restore_def restored_cursor restored_counts restored_ready restored_acked if_Inl bind_r_Inr ok_or_Inr
      restored_ordinal try_all_Inr_iff restored_state_def [symmetric]
    using zero by blast
qed

section \<open>Round trip\<close>

lemma loop_descriptor_mem:
  assumes "plan_wf p"
  shows "loop_descriptor p l = Some d \<longleftrightarrow> d \<in> set (ws_loop_descriptors (ep_snapshot p)) \<and> ld_loop_id d = l"
  unfolding loop_descriptor_def bget_mem [OF plan_wfD(7) [OF assms]] by (auto simp: plan_wfD(6) [OF assms])

lemma ready_entry_key:
  assumes "plan_wf p" and "bforall (\<lambda>k t. tk_token_id t = k) tokens"
    and nodes: "\<And>k t. bget tokens k = Some t \<Longrightarrow> plan_node p (tk_node_id t) \<noteq> None"
  shows "ready_entry_ok (node_ordinals p) tokens key \<longleftrightarrow>
     (\<exists>k t. bget tokens k = Some t \<and> tk_state t = TReady \<and> key = token_key p t)"
proof -
  have "\<exists>ordinal. bget (node_ordinals p) (tk_node_id t) = Some ordinal" if "bget tokens k = Some t" for k t
    using node_ordinals_get [OF assms(1), of "tk_node_id t"] nodes [OF that] by auto
  moreover have "tk_token_id t = k" if "bget tokens k = Some t" for k t
    by (rule bforallD [OF assms(2) that])
  ultimately show ?thesis
    unfolding ready_entry_ok_def token_key_def ready_key_def by fastforce
qed

lemma restored_loop_ok_iff:
  "unat (committed_in counts (ld_loop_id d)) + pending_in tokens (ld_loop_id d) \<le> unat (ld_maximum_iterations d)
     \<Longrightarrow> restored_loop_ok counts tokens d"
proof -
  let ?c = "committed_in counts (ld_loop_id d)" and ?n = "pending_in tokens (ld_loop_id d)"
  assume le: "unat ?c + ?n \<le> unat (ld_maximum_iterations d)"
  have "unat (ld_maximum_iterations d) < 2 ^ LENGTH(32)"
    by (rule unsigned_less)
  with le have "unat (of_nat ?n :: u32) = ?n"
    by (simp add: unat_of_nat)
  then have "(try_from_usize ?n :: u32 option) = Some (of_nat ?n)" and "unat (of_nat ?n :: u32) = ?n"
    by (simp_all add: rust_arith)
  with le show ?thesis
    by (simp add: restored_loop_ok_def word_le_nat_alt unat_saturating_add)
qed

lemma restored_ack:
  assumes inv: "sch_inv s" and ack: "bget (sch_acknowledged_proposals s) pid = Some child"
  shows "is_ok (restored_ack_ok (sch_plan s) (sch_tokens s) (pid, child))"
proof -
  note D = sch_invD [OF inv]
  from D(8) ack have "ack_linked (sch_plan s) (sch_tokens s) pid child"
    unfolding acks_ok_def by (blast dest: bforallD)
  then obtain k src where src: "bget (sch_tokens s) k = Some src" "tk_awaiting_proposal_id src = Some pid" "tk_state src = TCompleted"
    and link: "case child of None \<Rightarrow> tk_selected_transition_id src = None
           | Some cid \<Rightarrow> \<exists>c t. bget (sch_tokens s) cid = Some c
                 \<and> Option.bind (tk_selected_transition_id src) (plan_transition (sch_plan s)) = Some t
                 \<and> wt_to_node t = tk_node_id c \<and> tk_branch_lineage src = tk_branch_lineage c"
    unfolding ack_linked_def by blast
  have aw: "awaiting_source (sch_tokens s) pid = Some src"
    using awaiting_source_Some [OF D(3,7)] src(1,2) by blast
  have tok: "valid_stable_id pid" "validate_restored_token (sch_plan s) src"
    using sch_inv_token [OF inv src(1)] src(2) by (simp_all add: token_ok_def)
  show ?thesis
  proof (cases child)
    case None
    with aw tok src(3) link show ?thesis
      by (auto simp: restored_ack_ok_def validate_restored_token_def split: option.splits)
  next
    case (Some cid)
    with link obtain c t tid where "bget (sch_tokens s) cid = Some c" "tk_selected_transition_id src = Some tid"
      "plan_transition (sch_plan s) tid = Some t" "wt_to_node t = tk_node_id c" "tk_branch_lineage src = tk_branch_lineage c"
      by (auto simp: bind_eq_Some_conv)
    with Some aw tok src(3) show ?thesis
      by (auto simp: restored_ack_ok_def validate_restored_token_def split: option.splits)
  qed
qed

lemma restored_token_node: "validate_restored_token p t \<Longrightarrow> plan_node p (tk_node_id t) \<noteq> None"
  by (auto simp: validate_restored_token_def split: option.splits)

lemma sch_restore_checkpoint:
  assumes inv: "sch_inv s"
  shows "sch_restore (sch_plan s) (sch_checkpoint s) = Inr s"
proof -
  note D = sch_invD [OF inv]
  let ?p = "sch_plan s" and ?m = "sch_tokens s"
  have keyed: "bforall (\<lambda>k t. tk_token_id t = k) ?m"
    using D(4) by (rule bforall_mono) (simp add: token_ok_def)
  have vals: "tk_logical_tick t \<le> sch_logical_tick s \<and> validate_restored_token ?p t" if "t \<in> set (bvalues ?m)" for t
    using that sch_inv_token [OF inv] unfolding in_values_iff [OF D(3)] by (auto simp: token_ok_def)
  have "distinct (map tk_token_id (bvalues ?m))"
    unfolding map_key_values [OF D(3) keyed] by (rule bwf_distinct [OF D(3)])
  then have tokens: "restore_tokens ?p (sch_logical_tick s) (bvalues ?m) [] [] = Inr ?m"
    unfolding restore_tokens_Inr using vals D(7) [unfolded distinct_proposals [OF D(3)]] load_self_keyed [OF D(3) keyed]
    by (auto simp del: set_map)
  have nodes: "plan_node ?p (tk_node_id t) \<noteq> None" if "bget ?m k = Some t" for k t
    using sch_inv_token [OF inv that] restored_token_node by (simp add: token_ok_def)
  note mem = ready_ok_mem [OF D(6)]
  have swf: "swf (sch_ready s)"
    using D(6) unfolding ready_ok_def by blast
  have "restore_ready (node_ordinals ?p) ?m (sch_ready s) [] = Inr (sch_ready s)"
    unfolding restore_ready_Inr using mem ready_entry_key [OF D(1) keyed nodes] swf swf_distinct [OF swf] bset_of_list_id [OF swf] by (auto simp: bset_of_list_def)
  moreover have "\<exists>a b c. (a, b, c, tk_token_id t) \<in> set (sch_ready s)" if "t \<in> set (bvalues ?m)" "tk_state t = TReady" for t
  proof -
    have "token_key ?p t \<in> set (sch_ready s)"
      unfolding mem using that in_values_iff [OF D(3)] by blast
    then show ?thesis
      unfolding token_key_def ready_key_def by blast
  qed
  moreover have "valid_stable_id l \<and> (\<exists>d. loop_descriptor ?p l = Some d \<and> n \<le> ld_maximum_iterations d)"
    if "(l, n) \<in> set (sch_loop_counts s)" for l n
  proof -
    have wf: "bwf (sch_loop_counts s)"
      using D(10) by (simp add: loops_ok_def)
    from that have get: "bget (sch_loop_counts s) l = Some n"
      by (simp add: bget_mem [OF wf])
    with D(10) obtain d where "valid_stable_id l" and d: "loop_descriptor ?p l = Some d"
      unfolding loops_ok_def by (blast dest: bforallD)
    moreover from D(10) d get have "unat n \<le> unat (ld_maximum_iterations d)"
      unfolding loops_ok_def committed_in_def by fastforce
    ultimately show ?thesis
      by (auto simp: word_le_nat_alt)
  qed
  moreover have "is_ok (restored_ack_ok ?p ?m e)" if "e \<in> set (sch_acknowledged_proposals s)" for e
  proof -
    have "bwf (sch_acknowledged_proposals s)"
      using D(8) by (simp add: acks_ok_def)
    with that have "bget (sch_acknowledged_proposals s) (fst e) = Some (snd e)"
      by (simp add: bget_mem)
    from restored_ack [OF inv this] show ?thesis
      by simp
  qed
  moreover have "(tk_state t = TCompleted) = restored_token_acked (sch_acknowledged_proposals s) t" if "t \<in> set (bvalues ?m)" for t
    using D(8) that unfolding acks_ok_def in_values_iff [OF D(3)] by (blast dest: bforallD)
  moreover have "restored_loop_ok (sch_loop_counts s) ?m d" if "d \<in> set (ws_loop_descriptors (ep_snapshot ?p))" for d
    using that D(10) loop_descriptor_mem [OF D(1)] unfolding loops_ok_def by (blast intro: restored_loop_ok_iff)
  moreover have "s = restored_state ?p (sch_checkpoint s) ?m (sch_ready s)"
    by (simp add: restored_state_def sch_checkpoint_def D(2))
  ultimately show ?thesis
    unfolding sch_restore_Inr using tokens D(5,9)
    by (intro exI [where x = ?m] exI [where x = "sch_ready s"]) (auto simp: sch_checkpoint_def simp del: set_map)
qed

section \<open>Accepted checkpoints\<close>

text \<open>What the types of a decoded checkpoint say: its maps are maps, its identifiers are parsed.\<close>

definition checkpoint_typed :: "scheduler_checkpoint \<Rightarrow> bool" where
  "checkpoint_typed cp \<longleftrightarrow> bwf (scp_loop_counts cp) \<and> bwf (scp_acknowledged_proposals cp)
     \<and> (\<forall>t \<in> set (scp_tokens cp). \<forall>pid. tk_awaiting_proposal_id t = Some pid \<longrightarrow> valid_stable_id pid)"

definition loops_small :: "execution_plan \<Rightarrow> bool" where
  "loops_small p \<longleftrightarrow> (\<forall>d \<in> set (ws_loop_descriptors (ep_snapshot p)). ld_maximum_iterations d \<noteq> - 1)"

lemma restored_loop_okD:
  assumes "restored_loop_ok counts tokens d" and "ld_maximum_iterations d \<noteq> - 1"
  shows "unat (committed_in counts (ld_loop_id d)) + pending_in tokens (ld_loop_id d) \<le> unat (ld_maximum_iterations d)"
proof -
  let ?c = "committed_in counts (ld_loop_id d)" and ?n = "pending_in tokens (ld_loop_id d)"
  from assms(1) obtain n :: u32 where n: "unat n = ?n" and le: "saturating_add ?c n \<le> ld_maximum_iterations d"
    by (auto simp: restored_loop_ok_def rust_arith split: option.splits)
  have "unat (ld_maximum_iterations d) < 2 ^ LENGTH(32) - 1"
    using assms(2) word_order.not_eq_extremum [of "ld_maximum_iterations d"]
    by (simp add: word_less_nat_alt unsigned_minus_1_eq_mask mask_eq_exp_minus_1)
  with le n show ?thesis
    by (simp add: word_le_nat_alt unat_saturating_add)
qed

lemma restored_ack_okD:
  assumes "is_ok (restored_ack_ok p tokens (pid, child))" and "bwf tokens" and "proposals_unique tokens"
  shows "ack_linked p tokens pid child"
proof -
  from assms(1) obtain src where aw: "awaiting_source tokens pid = Some src" and st: "tk_state src = TCompleted"
    and rest: "case child of
          Some child_id \<Rightarrow> \<exists>c tr. bget tokens child_id = Some c
            \<and> Option.bind (tk_selected_transition_id src) (plan_transition p) = Some tr
            \<and> wt_to_node tr = tk_node_id c \<and> tk_branch_lineage src = tk_branch_lineage c
        | None \<Rightarrow> tk_selected_transition_id src = None"
    by (auto simp: restored_ack_ok_def bind_r_def ok_or_def split: if_splits option.splits sum.splits)
  from aw obtain k where "bget tokens k = Some src" "tk_awaiting_proposal_id src = Some pid"
    using awaiting_source_Some [OF assms(2,3)] by blast
  with st rest show ?thesis
    unfolding ack_linked_def by blast
qed

lemma sch_restore_inv:
  assumes "plan_wf p" and "plan_typed p" and "loops_small p" and typed: "checkpoint_typed cp"
    and "sch_restore p cp = Inr s"
  shows "sch_inv s" and "sch_plan s = p"
proof -
  from assms(5) obtain tokens ready where
    toks: "restore_tokens p (scp_logical_tick cp) (scp_tokens cp) [] [] = Inr tokens"
    and rdy: "restore_ready (node_ordinals p) tokens (scp_ready cp) [] = Inr ready"
    and s: "s = restored_state p cp tokens ready"
    and len: "length (scp_acknowledged_proposals cp) \<le> unat (scp_committed_cursor cp)"
    and counts: "\<forall>(l, n) \<in> set (scp_loop_counts cp). valid_stable_id l \<and> (\<exists>d. loop_descriptor p l = Some d \<and> n \<le> ld_maximum_iterations d)"
    and ord: "unat (scp_next_token_ordinal cp) = length tokens + 1"
    and all_ready: "\<forall>t \<in> set (bvalues tokens). tk_state t = TReady \<longrightarrow> (\<exists>a b c. (a, b, c, tk_token_id t) \<in> set ready)"
    and acks: "\<forall>e \<in> set (scp_acknowledged_proposals cp). is_ok (restored_ack_ok p tokens e)"
    and completed: "\<forall>t \<in> set (bvalues tokens). (tk_state t = TCompleted) = restored_token_acked (scp_acknowledged_proposals cp) t"
    and loops: "\<forall>d \<in> set (ws_loop_descriptors (ep_snapshot p)). restored_loop_ok (scp_loop_counts cp) tokens d"
    unfolding sch_restore_Inr by blast
  from toks have ts: "\<forall>t \<in> set (scp_tokens cp). tk_logical_tick t \<le> scp_logical_tick cp \<and> validate_restored_token p t"
    and dist: "distinct (map tk_token_id (scp_tokens cp))" "distinct (proposals_of (scp_tokens cp))"
    and fold: "tokens = fold (\<lambda>t. binsert (tk_token_id t) t) (scp_tokens cp) []"
    unfolding restore_tokens_Inr by blast+
  note load = load_self_keyed_inv [OF dist(1), folded fold]
  have get: "t \<in> set (scp_tokens cp) \<and> tk_token_id t = k" if "bget tokens k = Some t" for k t
    using that load(3) bforallD [OF load(2) that] bget_in_values [OF that] by simp
  have tok: "bforall (token_ok p (scp_logical_tick cp)) tokens"
    by (rule bforallI) (use get ts typed in \<open>auto simp: token_ok_def checkpoint_typed_def\<close>)
  have "mset (proposals_of (bvalues tokens)) = mset (proposals_of (scp_tokens cp))"
    using load(4) by (simp add: proposals_of_filter)
  then have props: "proposals_unique tokens"
    unfolding distinct_proposals [OF load(1)] using dist(2) mset_eq_imp_distinct_iff by blast
  have nodes: "plan_node p (tk_node_id t) \<noteq> None" if "bget tokens k = Some t" for k t
    using get [OF that] ts restored_token_node by blast
  have rdy': "ready = bset_of_list (scp_ready cp)" and ent: "\<forall>key \<in> set (scp_ready cp). ready_entry_ok (node_ordinals p) tokens key"
    using rdy unfolding restore_ready_Inr bset_of_list_def by blast+
  have entry: "ready_entry_ok (node_ordinals p) tokens key \<longleftrightarrow> (\<exists>k t. bget tokens k = Some t \<and> tk_state t = TReady \<and> key = token_key p t)" for key
    by (rule ready_entry_key [OF assms(1) load(2)]) (rule nodes)
  have mem: "key \<in> set ready \<Longrightarrow> \<exists>k t. bget tokens k = Some t \<and> tk_state t = TReady \<and> key = token_key p t" for key
    using ent unfolding rdy' set_bset_of_list entry by blast
  have "token_key p t \<in> set ready" if "bget tokens k = Some t" "tk_state t = TReady" for k t
  proof -
    from all_ready bget_in_values [OF that(1)] that(2) obtain a b c where key: "(a, b, c, tk_token_id t) \<in> set ready"
      by blast
    from mem [OF this] obtain j u where u: "bget tokens j = Some u" "(a, b, c, tk_token_id t) = token_key p u"
      by blast
    then have "tk_token_id u = tk_token_id t"
      by (simp add: token_key_def ready_key_def)
    with get [OF u(1)] get [OF that(1)] u(1) that(1) have "u = t"
      by simp
    with key u(2) show ?thesis by simp
  qed
  with mem have ready: "ready_ok p tokens ready"
    unfolding ready_ok_def rdy' by (auto simp del: split_paired_All split_paired_Ex)
  have awf: "bwf (scp_acknowledged_proposals cp)" and cwf: "bwf (scp_loop_counts cp)"
    using typed by (simp_all add: checkpoint_typed_def)
  have "acks_ok p tokens (scp_acknowledged_proposals cp)"
    unfolding acks_ok_def bforall_entries [OF load(1)] bforall_entries [OF awf]
    using awf acks restored_ack_okD [OF _ load(1) props] completed by auto
  moreover have "loops_ok p tokens (scp_loop_counts cp)"
    unfolding loops_ok_def bforall_entries [OF cwf] loop_descriptor_mem [OF assms(1)]
  proof (intro conjI allI impI)
    fix l d assume "d \<in> set (ws_loop_descriptors (ep_snapshot p)) \<and> ld_loop_id d = l"
    with loops assms(3) restored_loop_okD
    show "unat (committed_in (scp_loop_counts cp) l) + pending_in tokens l \<le> unat (ld_maximum_iterations d)"
      unfolding loops_small_def by blast
  qed (use cwf counts in auto)
  ultimately show "sch_inv s" "sch_plan s = p"
    unfolding s restored_state_def using load(1) tok ord ready props len assms(1,2) by (simp_all add: sch_inv_def)
qed

section \<open>Crashes\<close>

definition sch_step :: "digest \<Rightarrow> scheduler \<Rightarrow> scheduler \<Rightarrow> bool" where
  "sch_step sha s t \<longleftrightarrow> hex_digest sha \<and> (\<exists>op. regular_op sha op s \<and> t = apply_op sha op s)"

lemma sch_step_inv: "sch_inv s \<Longrightarrow> sch_step sha s t \<Longrightarrow> sch_inv t"
  using apply_op_change sch_change_inv unfolding sch_step_def by blast

interpretation sch: crash_safe "sch_step sha" sch_inv "\<lambda>s. (sch_plan s, sch_checkpoint s)" "\<lambda>(p, cp). sch_restore p cp"
    "\<lambda>(p, cp). plan_wf p \<and> plan_typed p \<and> loops_small p \<and> checkpoint_typed cp"
  for sha
  by unfold_locales (auto intro: sch_step_inv sch_restore_checkpoint sch_restore_inv(1))

section \<open>Properties\<close>

text \<open>
  C36. Crashes of the worker are invisible to the schedule: a run of a compiled plan in which the
  scheduler is replaced at any points by the restore of its last checkpoint is a run without crashes,
  and restoring the checkpoint of the state it reaches gives that state back.
\<close>

theorem scheduler_crash_transparent:
  assumes "compile c snapshot h = Inr p" and "plan_typed p"
    and "(\<lambda>s t. sch_step sha s t \<or> sch_restore (sch_plan s) (sch_checkpoint s) = Inr t)\<^sup>*\<^sup>* (sch_new p) s"
  shows "(sch_step sha)\<^sup>*\<^sup>* (sch_new p) s \<and> sch_restore p (sch_checkpoint s) = Inr s"
proof -
  have inv: "sch_inv (sch_new p)"
    using sch_inv_new compile_wf [OF assms(1)] assms(2) by blast
  have steps: "(sch_step sha)\<^sup>*\<^sup>* (sch_new p) s"
    using sch.crashes_transparent [OF _ inv] assms(3) by simp
  have "sch_plan t = sch_plan s" if "sch_step sha s t" "sch_inv s" for s t
    using that apply_op_change sch_change_plan unfolding sch_step_def by blast
  then have "sch_plan s = sch_plan (sch_new p)"
    using sch.steps_preorder [where R = "\<lambda>s t. sch_plan t = sch_plan s", OF _ _ _ steps inv] by auto
  moreover have "sch_plan (sch_new p) = p"
    by (simp add: sch_new_def)
  ultimately show ?thesis
    using steps sch_restore_checkpoint [OF sch.steps_inv [OF steps inv]] by metis
qed

theorem scheduler_crash_transparent_witness:
  "(sch_step tail_digest)\<^sup>*\<^sup>* (sch_new demo_plan) (apply_op tail_digest (OpEnqueue ''draft'' 0 ''root'') (sch_new demo_plan))"
proof -
  have "sch_step tail_digest (sch_new demo_plan) (apply_op tail_digest (OpEnqueue ''draft'' 0 ''root'') (sch_new demo_plan))"
    using demo_claim_ok hex_tail_digest unfolding sch_step_def by blast
  then have "(\<lambda>s t. sch_step tail_digest s t \<or> sch_restore (sch_plan s) (sch_checkpoint s) = Inr t)\<^sup>*\<^sup>* (sch_new demo_plan)
      (apply_op tail_digest (OpEnqueue ''draft'' 0 ''root'') (sch_new demo_plan))"
    by blast
  from scheduler_crash_transparent [OF demo_compiles demo_typed this] show ?thesis
    by blast
qed

text \<open>
  A checkpoint from outside cannot lift a loop bound: after \<open>restore\<close> accepts any decoded
  checkpoint for a compiled plan whose loop bounds stay below the largest 32-bit number, every run
  from the restored state keeps the committed and pending iterations of each loop within its bound.
\<close>

theorem restored_loops_bounded:
  assumes "compile c snapshot h = Inr p" and "plan_typed p" and "loops_small p" and "hex_digest sha"
    and "checkpoint_typed cp" and "sch_restore p cp = Inr s" and "sch_run sha s ops t"
    and "loop_descriptor p l = Some d"
  shows "unat (committed_in (sch_loop_counts t) l) + pending_in (sch_tokens t) l \<le> unat (ld_maximum_iterations d)"
proof -
  have wf: "plan_wf p"
    using compile_wf [OF assms(1)] by blast
  note inv = sch_restore_inv [OF wf assms(2,3,5,6)]
  have "sch_inv t" and "sch_plan t = p"
    using sch_run_preserves [OF assms(7,4) inv(1), where Q = "\<lambda>_ t. sch_plan t = p"] sch_run_inv [OF assms(7,4) inv(1)]
      sch_change_plan inv(2) by auto
  then have "loops_ok p (sch_tokens t) (sch_loop_counts t)"
    using sch_invD(10) by blast
  with assms(8) show ?thesis
    unfolding loops_ok_def by blast
qed

definition demo_checkpoint :: scheduler_checkpoint where
  "demo_checkpoint = (sch_checkpoint (sch_new demo_plan))\<lparr>scp_loop_counts := [(''again'', 2)]\<rparr>"

theorem restored_loops_bounded_witness:
  "\<exists>s. sch_restore demo_plan demo_checkpoint = Inr s \<and> unat (committed_in (sch_loop_counts s) ''again'') + pending_in (sch_tokens s) ''again'' \<le> 3"
proof -
  have "is_ok (sch_restore demo_plan demo_checkpoint)"
    by code_simp
  then obtain s where s: "sch_restore demo_plan demo_checkpoint = Inr s"
    by (rule is_okE)
  have small: "loops_small demo_plan" and typed: "checkpoint_typed demo_checkpoint"
    by (simp_all add: loops_small_def demo_plan_value demo_snapshot_def canonicalize_snapshot_def checkpoint_typed_def
        demo_checkpoint_def sch_checkpoint_def sch_new_def bwf_def)
  have "loop_descriptor demo_plan ''again'' =
      Some \<lparr>ld_loop_id = ''again'', ld_maximum_iterations = 3, ld_body_entry = ''draft'', ld_body_exit = ''review''\<rparr>"
    by (simp add: loop_descriptor_def demo_plan_value)
  with s restored_loops_bounded [OF demo_compiles demo_typed small hex_tail_digest typed s sch_run.start, of "''again''"]
  show ?thesis
    by simp
qed

text \<open>
  Without the bound on the plan, \<open>restore\<close> adds with saturation: for a loop that allows the largest
  32-bit number of iterations it accepts a checkpoint with one more committed and pending iteration
  than that. Acknowledging the pending proposal then wraps the committed count.
\<close>

definition wide_plan :: execution_plan where
  "wide_plan = (let ds = [\<lparr>ld_loop_id = ''again'', ld_maximum_iterations = - 1, ld_body_entry = ''draft'', ld_body_exit = ''review''\<rparr>] in
     demo_plan\<lparr>ep_loops := map (\<lambda>d. (ld_loop_id d, d)) ds,
       ep_snapshot := (ep_snapshot demo_plan)\<lparr>ws_loop_descriptors := ds\<rparr>\<rparr>)"

definition wide_checkpoint :: scheduler_checkpoint where
  "wide_checkpoint =
     \<lparr>scp_logical_tick = 0, scp_next_token_ordinal = 2, scp_committed_cursor = 0,
      scp_tokens = [\<lparr>tk_token_id = ''token'', tk_node_id = ''review'', tk_context_revision = 0, tk_logical_tick = 0,
        tk_branch_lineage = ''root'', tk_state = TAwaitingCommit, tk_awaiting_proposal_id = Some ''proposal'',
        tk_selected_transition_id = Some ''t2'', tk_selected_loop_id = Some ''again'', tk_external_completion = None\<rparr>],
      scp_ready = [], scp_loop_counts = [(''again'', - 1)], scp_acknowledged_proposals = []\<rparr>"

lemma restore_saturates:
  "case sch_restore wide_plan wide_checkpoint of Inl _ \<Rightarrow> False | Inr s \<Rightarrow>
     pending_in (sch_tokens s) ''again'' = 1 \<and> committed_in (sch_loop_counts s) ''again'' = - 1
     \<and> committed_in (sch_loop_counts (snd (acknowledge_transition tail_digest ''proposal'' 1 0 s))) ''again'' = 0"
  by code_simp

end
