(* ===== verification/Compat.thy ===== *)
theory Compat
  imports Plan
begin

text \<open>
  The compatibility runtime that early tests and the exported API keep beside the versioned one:
  \<open>FrozenRunSnapshot\<close> and \<open>ExecutionPlan\<close> of \<open>plan.rs\<close>, \<open>Scheduler\<close> of \<open>scheduler.rs\<close>, and
  \<open>SuspensionController\<close>, \<open>Checkpoint\<close> and \<open>Rehydrator\<close> of \<open>suspension.rs\<close>. Here a loop is a bound on
  a transition, so the cycle check of \<open>Cycles\<close> runs with bounded edges.
\<close>

section \<open>The compatibility plan\<close>

record compat_node =
  cn_id :: stable_id
  cn_node_type :: string
  cn_version :: u16
  cn_config :: json

record compat_transition =
  ct_id :: stable_id
  ct_from :: stable_id
  ct_from_port :: string
  ct_to :: stable_id
  ct_to_port :: string
  ct_priority :: u32
  ct_loop_bound :: "u32 option"

record compat_snapshot =
  cs_snapshot_id :: stable_id
  cs_snapshot_hash :: string
  cs_generation :: process_generation
  cs_nodes :: "compat_node list"
  cs_transitions :: "compat_transition list"

record compat_plan =
  cp_snapshot :: compat_snapshot
  cp_nodes :: "(string, compat_node) bmap"
  cp_outgoing :: "(string, compat_transition list) bmap"
  cp_fingerprint :: string

text \<open>\<open>serde_json::to_vec\<close> of the fingerprinted tuple; \<open>None\<close> is its error.\<close>

type_synonym compat_to_vec =
  "string \<times> string \<times> process_generation \<times> compat_node list \<times> compat_transition list \<Rightarrow> string option"

definition legacy_fingerprint :: "compat_to_vec \<Rightarrow> digest \<Rightarrow> compat_snapshot \<Rightarrow> plan_error + string" where
  "legacy_fingerprint to_vec sha s =
     bind_r (ok_or (to_vec (cs_snapshot_id s, cs_snapshot_hash s, cs_generation s,
                            sort_key cn_id (cs_nodes s), sort_key ct_id (cs_transitions s))) PlEncoding)
       (\<lambda>bytes. Inr (sha bytes))"

text \<open>\<open>edge.loop_bound.unwrap_or(0) != 0\<close>.\<close>

definition ct_bounded :: "compat_transition \<Rightarrow> bool" where
  "ct_bounded t \<longleftrightarrow> (case ct_loop_bound t of None \<Rightarrow> False | Some b \<Rightarrow> b \<noteq> 0)"

definition compat_edges :: "compat_transition list \<Rightarrow> cycle_edge list" where
  "compat_edges ts = map (\<lambda>t. \<lparr>cy_id = ct_id t, cy_to = ct_to t, cy_bounded = ct_bounded t\<rparr>) ts"

definition validate_legacy_cycles ::
  "(string, compat_node) bmap \<Rightarrow> (string, compat_transition list) bmap \<Rightarrow> plan_error + unit" where
  "validate_legacy_cycles nodes outgoing =
     (case check_cycles (bmap_values compat_edges outgoing) (bkeys nodes) [] of
        Inl transition \<Rightarrow> Inl (PlUnboundedCycle transition)
      | Inr _ \<Rightarrow> Inr ())"

fun compat_load ::
  "(string, compat_node) bmap \<Rightarrow> compat_transition list \<Rightarrow> string list \<Rightarrow> (string, compat_transition list) bmap
     \<Rightarrow> plan_error + (string, compat_transition list) bmap" where
  "compat_load nodes [] ids outgoing = Inr outgoing"
| "compat_load nodes (t # ts) ids outgoing =
     (if ct_id t \<in> set ids then Inl (PlDuplicateTransition (ct_id t))
      else bind_r (try_all (\<lambda>n. if bcontains nodes n then Inr () else Inl (PlUnknownNode (ct_id t) n)) [ct_from t, ct_to t])
        (\<lambda>_. compat_load nodes ts (sinsert (ct_id t) ids) (bpush (ct_from t) t outgoing)))"

definition compat_key :: "compat_transition \<Rightarrow> u32 \<times> string" where
  "compat_key t = (ct_priority t, ct_id t)"

definition compat_compile ::
  "compat_to_vec \<Rightarrow> digest \<Rightarrow> compat_snapshot \<Rightarrow> process_generation \<Rightarrow> plan_error + compat_plan" where
  "compat_compile to_vec sha s generation =
     (if cs_generation s \<noteq> generation then Inl PlGenerationMismatch
      else if cs_nodes s = [] then Inl PlEmptyGraph
      else bind_r (load_unique (\<lambda>_. Inr ()) cn_id (\<lambda>n. PlDuplicateNode (cn_id n)) (cs_nodes s) []) (\<lambda>nodes.
           bind_r (compat_load nodes (cs_transitions s) [] []) (\<lambda>unsorted.
           let outgoing = bmap_values (sort_key compat_key) unsorted in
           bind_r (validate_legacy_cycles nodes outgoing) (\<lambda>_.
           bind_r (legacy_fingerprint to_vec sha s) (\<lambda>fingerprint.
           Inr \<lparr>cp_snapshot = s, cp_nodes = nodes, cp_outgoing = outgoing, cp_fingerprint = fingerprint\<rparr>)))))"

definition compat_plan_node :: "compat_plan \<Rightarrow> stable_id \<Rightarrow> compat_node option" where
  "compat_plan_node p i = bget (cp_nodes p) i"

definition compat_outgoing :: "compat_plan \<Rightarrow> stable_id \<Rightarrow> compat_transition list" where
  "compat_outgoing p i = (case bget (cp_outgoing p) i of None \<Rightarrow> [] | Some ts \<Rightarrow> ts)"

section \<open>The compatibility scheduler\<close>

record compat_token =
  tk_id :: u64
  tk_node_id :: stable_id
  tk_context_revision :: u64

datatype compat_scheduler_error = CsUnknownNode string | CsNoTransition string

record compat_scheduler =
  csch_plan :: compat_plan
  csch_queue :: "compat_token list"
  csch_next_token :: u64
  csch_loop_counts :: "(string, u32) bmap"

definition csch_new :: "compat_plan \<Rightarrow> compat_scheduler" where
  "csch_new p = \<lparr>csch_plan = p, csch_queue = [], csch_next_token = 1, csch_loop_counts = []\<rparr>"

definition csch_enqueue ::
  "stable_id \<Rightarrow> u64 \<Rightarrow> compat_scheduler \<Rightarrow> (compat_scheduler_error + compat_token) \<times> compat_scheduler" where
  "csch_enqueue node_id revision s =
     (if compat_plan_node (csch_plan s) node_id = None then (Inl (CsUnknownNode node_id), s)
      else let token = \<lparr>tk_id = csch_next_token s, tk_node_id = node_id, tk_context_revision = revision\<rparr> in
        (Inr token, s\<lparr>csch_next_token := csch_next_token s + 1, csch_queue := csch_queue s @ [token]\<rparr>))"

definition csch_next :: "compat_scheduler \<Rightarrow> compat_token option \<times> compat_scheduler" where
  "csch_next s =
     (case csch_queue s of [] \<Rightarrow> (None, s) | t # ts \<Rightarrow> (Some t, s\<lparr>csch_queue := ts\<rparr>))"

definition csch_count :: "compat_scheduler \<Rightarrow> string \<Rightarrow> u32" where
  "csch_count s i = (case bget (csch_loop_counts s) i of None \<Rightarrow> 0 | Some n \<Rightarrow> n)"

definition csch_is_legal :: "compat_scheduler \<Rightarrow> json \<Rightarrow> compat_transition \<Rightarrow> bool" where
  "csch_is_legal s context edge \<longleftrightarrow>
     (case ct_loop_bound edge of None \<Rightarrow> True | Some bound \<Rightarrow> csch_count s (ct_id edge) < bound)
     \<and> (ct_from_port edge = ''default''
        \<or> (case jget context (ct_from_port edge) of None \<Rightarrow> False | Some v \<Rightarrow> v \<noteq> JNull))"

definition csch_route ::
  "compat_token \<Rightarrow> json \<Rightarrow> compat_scheduler \<Rightarrow> (compat_scheduler_error + compat_transition) \<times> compat_scheduler" where
  "csch_route token context s =
     (case find (csch_is_legal s context) (compat_outgoing (csch_plan s) (tk_node_id token)) of
        None \<Rightarrow> (Inl (CsNoTransition (tk_node_id token)), s)
      | Some edge \<Rightarrow>
          (Inr edge,
           if ct_loop_bound edge \<noteq> None
           then s\<lparr>csch_loop_counts := binsert (ct_id edge) (csch_count s (ct_id edge) + 1) (csch_loop_counts s)\<rparr>
           else s))"

definition csch_admit_transition ::
  "compat_transition \<Rightarrow> u64 \<Rightarrow> compat_scheduler \<Rightarrow> (compat_scheduler_error + compat_token) \<times> compat_scheduler" where
  "csch_admit_transition route revision s = csch_enqueue (ct_to route) revision s"

section \<open>Suspension and recovery\<close>

datatype compat_suspension = CsInput | CsApproval | CsPaused | CsCancelling | CsQuiescent

record compat_suspension_controller =
  csc_state :: "compat_suspension option"
  csc_token :: "compat_token option"

definition csc_new :: compat_suspension_controller where
  "csc_new = \<lparr>csc_state = None, csc_token = None\<rparr>"

definition csc_suspend ::
  "compat_suspension \<Rightarrow> compat_token \<Rightarrow> compat_suspension_controller \<Rightarrow> compat_suspension_controller" where
  "csc_suspend state token c = c\<lparr>csc_state := Some state, csc_token := Some token\<rparr>"

definition csc_resume :: "compat_suspension_controller \<Rightarrow> compat_token option \<times> compat_suspension_controller" where
  "csc_resume c =
     (case csc_state c of
        None \<Rightarrow> (None, c)
      | Some _ \<Rightarrow> (csc_token c, c\<lparr>csc_state := None, csc_token := None\<rparr>))"

record compat_checkpoint =
  ccp_snapshot_hash :: string
  ccp_plan_fingerprint :: string
  ccp_generation :: process_generation
  ccp_committed_cursor :: u64
  ccp_tokens :: "compat_token list"

datatype compat_recovery_error = CrSnapshotMismatch | CrPlanMismatch | CrGenerationMismatch

definition compat_restore ::
  "compat_plan \<Rightarrow> compat_checkpoint \<Rightarrow> process_generation \<Rightarrow> compat_recovery_error + compat_token list" where
  "compat_restore p c generation =
     (if ccp_snapshot_hash c \<noteq> cs_snapshot_hash (cp_snapshot p) then Inl CrSnapshotMismatch
      else if ccp_plan_fingerprint c \<noteq> cp_fingerprint p then Inl CrPlanMismatch
      else if ccp_generation c \<noteq> generation then Inl CrGenerationMismatch
      else Inr (ccp_tokens c))"

definition compat_checkpoint_of ::
  "compat_plan \<Rightarrow> process_generation \<Rightarrow> u64 \<Rightarrow> compat_token list \<Rightarrow> compat_checkpoint" where
  "compat_checkpoint_of p generation cursor tokens =
     \<lparr>ccp_snapshot_hash = cs_snapshot_hash (cp_snapshot p), ccp_plan_fingerprint = cp_fingerprint p,
      ccp_generation = generation, ccp_committed_cursor = cursor, ccp_tokens = tokens\<rparr>"

section \<open>Laws\<close>

lemma compat_restore_checkpoint:
  "compat_restore p (compat_checkpoint_of q generation cursor tokens) generation' =
     (if cs_snapshot_hash (cp_snapshot q) \<noteq> cs_snapshot_hash (cp_snapshot p) then Inl CrSnapshotMismatch
      else if cp_fingerprint q \<noteq> cp_fingerprint p then Inl CrPlanMismatch
      else if generation \<noteq> generation' then Inl CrGenerationMismatch
      else Inr tokens)"
  by (simp add: compat_restore_def compat_checkpoint_of_def)

lemma csc_resume_once:
  "csc_resume (csc_suspend state token c) = (Some token, csc_new)"
  "csc_resume csc_new = (None, csc_new)"
  by (simp_all add: csc_resume_def csc_suspend_def csc_new_def)

text \<open>The edges of a compiled compatibility plan that no loop bound guards.\<close>

definition unguarded_edges :: "compat_transition list \<Rightarrow> (string \<times> string) set" where
  "unguarded_edges ts = {(ct_from t, ct_to t) |t. t \<in> set ts \<and> \<not> ct_bounded t}"

lemma compat_load_Inr:
  "compat_load nodes ts ids out = Inr out' \<Longrightarrow>
     out' = fold (\<lambda>t. bpush (ct_from t) t) ts out
     \<and> (\<forall>t \<in> set ts. bcontains nodes (ct_from t) \<and> bcontains nodes (ct_to t))"
  by (induction ts arbitrary: ids out) (auto simp: bind_r_Inr split: if_splits)

text \<open>
  Although the search treats a bounded edge to a node in progress as harmless wherever it meets it,
  an accepted graph never has a cycle of unguarded edges alone.
\<close>

lemma compat_compile_acyclic:
  assumes "compat_compile to_vec sha s generation = Inr p"
  shows "acyclic (unguarded_edges (cs_transitions s))"
proof -
  from assms obtain nodes out where out: "compat_load nodes (cs_transitions s) [] [] = Inr out"
    and "validate_legacy_cycles nodes (bmap_values (sort_key compat_key) out) = Inr ()"
    by (auto simp: compat_compile_def bind_r_Inr Let_def split: if_splits)
  then obtain U where ok: "check_cycles (bmap_values compat_edges (bmap_values (sort_key compat_key) out)) (bkeys nodes) [] = Inr U"
    by (auto simp: validate_legacy_cycles_def split: sum.splits)
  define adj where "adj = bmap_values compat_edges (bmap_values (sort_key compat_key) out)"
  from compat_load_Inr [OF out] have out_eq: "out = fold (\<lambda>t. bpush (ct_from t) t) (cs_transitions s) []"
    and ends: "\<And>t. t \<in> set (cs_transitions s) \<Longrightarrow> ct_from t \<in> set (bkeys nodes) \<and> ct_to t \<in> set (bkeys nodes)"
    by (auto simp: bcontains_iff)
  have edges: "edges_of adj n = compat_edges (sort_key compat_key (filter (\<lambda>t. ct_from t = n) (cs_transitions s)))" for n
    by (simp add: adj_def edges_of_group group_get_map group_get_fold out_eq compat_edges_def)
  have must: "must_edges adj = unguarded_edges (cs_transitions s)"
    by (auto simp: must_edges_def edges unguarded_edges_def compat_edges_def image_iff) force
  have "must_edges adj \<subseteq> set (bkeys nodes) \<times> set (bkeys nodes)"
    using ends by (auto simp: must unguarded_edges_def)
  with check_cycles_sound [OF ok] show ?thesis
    by (simp add: adj_def [symmetric] must)
qed

text \<open>No run takes a guarded transition more often than its bound.\<close>

inductive csch_step :: "compat_scheduler \<Rightarrow> compat_transition option \<Rightarrow> compat_scheduler \<Rightarrow> bool" where
  step_enqueue: "csch_enqueue n r s = (res, t) \<Longrightarrow> csch_step s None t"
| step_next: "csch_next s = (res, t) \<Longrightarrow> csch_step s None t"
| step_route: "csch_route tok ctx s = (Inr e, t) \<Longrightarrow> csch_step s (Some e) t"
| step_stuck: "csch_route tok ctx s = (Inl e, t) \<Longrightarrow> csch_step s None t"

inductive csch_run :: "compat_scheduler \<Rightarrow> compat_transition list \<Rightarrow> compat_scheduler \<Rightarrow> bool" for s where
  csch_start: "csch_run s [] s"
| csch_more: "csch_run s es t \<Longrightarrow> csch_step t r u \<Longrightarrow> csch_run s (case r of None \<Rightarrow> es | Some e \<Rightarrow> es @ [e]) u"

definition taken :: "string \<Rightarrow> compat_transition list \<Rightarrow> nat" where
  "taken i es = length (filter (\<lambda>e. ct_id e = i \<and> ct_loop_bound e \<noteq> None) es)"

lemma taken_snoc [simp]:
  "taken i [] = 0"
  "taken i (es @ [e]) = taken i es + (if ct_id e = i \<and> ct_loop_bound e \<noteq> None then 1 else 0)"
  by (simp_all add: taken_def)

lemma csch_count_frame [simp]:
  "csch_count (s\<lparr>csch_queue := q\<rparr>) i = csch_count s i"
  "csch_count (s\<lparr>csch_next_token := n\<rparr>) i = csch_count s i"
  "csch_count (s\<lparr>csch_loop_counts := binsert k c m\<rparr>) i
     = (if i = k then c else csch_count (s\<lparr>csch_loop_counts := m\<rparr>) i)"
  by (simp_all add: csch_count_def)

lemma csch_run_counts:
  assumes "csch_run (csch_new p) es s"
  shows "csch_plan s = p \<and> (\<forall>i. unat (csch_count s i) = taken i es)
    \<and> (\<forall>e \<in> set es. \<exists>n. e \<in> set (compat_outgoing p n))"
  using assms
proof induction
  case csch_start
  show ?case by (simp add: csch_new_def csch_count_def)
next
  case (csch_more es t r u)
  from csch_more.hyps(2) show ?case
  proof cases
    case (step_route tok ctx e)
    then have e: "find (csch_is_legal t ctx) (compat_outgoing (csch_plan t) (tk_node_id tok)) = Some e"
      by (auto simp: csch_route_def split: option.splits)
    then have mem: "e \<in> set (compat_outgoing p (tk_node_id tok))" and legal: "csch_is_legal t ctx e"
      using csch_more.IH by (auto simp: find_Some_iff)
    have succ: "unat (csch_count t (ct_id e) + 1) = Suc (taken (ct_id e) es)" if "ct_loop_bound e = Some b" for b
    proof -
      from legal that have "csch_count t (ct_id e) < b"
        by (simp add: csch_is_legal_def)
      from word_add_1_le(1) [OF this] csch_more.IH show ?thesis
        by simp
    qed
    from step_route e mem succ csch_more.IH show ?thesis
      by (auto simp: csch_route_def)
  qed (use csch_more.IH in \<open>auto simp: csch_enqueue_def csch_next_def csch_route_def Let_def
         split: if_splits list.splits option.splits\<close>)
qed

lemma compat_loops_bounded:
  assumes "csch_run (csch_new p) es s" and "csch_route tok ctx s = (Inr e, t)" and "ct_loop_bound e = Some b"
  shows "taken (ct_id e) es < unat b"
proof -
  from assms(2) have "csch_is_legal s ctx e"
    by (auto simp: csch_route_def find_Some_iff split: option.splits)
  with csch_run_counts [OF assms(1)] assms(3) show ?thesis
    by (simp add: csch_is_legal_def word_less_nat_alt)
qed

end
