(* ===== verification/Node.thy ===== *)
theory Node
  imports Compat
begin

text \<open>
  Typed node contracts (\<open>crates/aworkit-workflow-worker/src/node.rs\<close>): the compatibility registry,
  and the registry of executors that are pinned by type, version and contribution hash, validate what
  goes in and out of a node and turn effects into proposals for the trusted core. An executor is a
  function, as in the source; the JSON encoder of \<open>broker_proposal\<close> and SHA-256 are parameters.
\<close>

section \<open>Data\<close>

record node_task =
  nt_node_id :: stable_id
  nt_attempt :: u32
  nt_input_revision :: u64

record node_proposal =
  np_kind :: string
  np_node_id :: stable_id
  np_payload :: json

datatype node_outcome = NoCompleted json | NoProposed node_proposal | NoFailed string

datatype node_error =
    MissingExecutor string u16
  | RegistrySealed
  | DuplicateExecutor
  | ContributionMismatch
  | SchemaViolation string
  | TaskIdentityMismatch
  | MissingCapability
  | NodeCancelled
  | InvalidIdentity

type_synonym executor = "compat_node \<Rightarrow> node_task \<Rightarrow> json \<Rightarrow> node_outcome"

type_synonym executor_registry = "(string \<times> u16, executor) bmap"

record node_task_v1 =
  nv_token_id :: stable_id
  nv_node_id :: stable_id
  nv_attempt_id :: stable_id
  nv_input_revision :: u64
  nv_cancelled :: bool

datatype node_outcome_v1 =
    Completed json
  | NeedCapability worker_invocation_proposal
  | Suspended string json
  | Failed string bool

type_synonym v1_executor = "worker_node \<Rightarrow> node_task_v1 \<Rightarrow> json \<Rightarrow> node_error + node_outcome_v1"

record executor_binding =
  eb_contribution_hash :: string
  eb_kind :: worker_executor_kind
  eb_executor :: v1_executor

record executor_registry_v1 =
  er_executors :: "(string \<times> u32, executor_binding) bmap"
  er_sealed :: bool

section \<open>The compatibility registry\<close>

definition noop_executor :: executor where
  "noop_executor node task input = NoCompleted input"

definition set_value_executor :: executor where
  "set_value_executor node task input = NoCompleted (cn_config node)"

definition broker_executor :: executor where
  "broker_executor node task input =
     NoProposed \<lparr>np_kind = (case Option.bind (jget (cn_config node) ''kind'') as_str of
                              None \<Rightarrow> ''capability'' | Some kind \<Rightarrow> kind),
                 np_node_id = cn_id node,
                 np_payload = JObject [(''config'', cn_config node), (''input'', input)]\<rparr>"

definition compat_register :: "string \<Rightarrow> u16 \<Rightarrow> executor \<Rightarrow> executor_registry \<Rightarrow> executor_registry" where
  "compat_register name version f r = binsert (name, version) f r"

definition with_builtins :: executor_registry where
  "with_builtins = compat_register ''broker'' 1 broker_executor
     (compat_register ''set_value'' 1 set_value_executor (compat_register ''noop'' 1 noop_executor []))"

definition compat_execute ::
  "compat_node \<Rightarrow> node_task \<Rightarrow> json \<Rightarrow> executor_registry \<Rightarrow> node_error + node_outcome" where
  "compat_execute node task input r =
     (if cn_id node \<noteq> nt_node_id task then Inl TaskIdentityMismatch
      else case bget r (cn_node_type node, cn_version node) of
        None \<Rightarrow> Inl (MissingExecutor (cn_node_type node) (cn_version node))
      | Some f \<Rightarrow> Inr (f node task input))"

section \<open>Schemas and ports\<close>

fun is_null :: "json \<Rightarrow> bool" where
  "is_null JNull = True"
| "is_null _ = False"

fun is_boolean :: "json \<Rightarrow> bool" where
  "is_boolean (JBool _) = True"
| "is_boolean _ = False"

fun is_number :: "json \<Rightarrow> bool" where
  "is_number (JNumber _) = True"
| "is_number _ = False"

definition is_string :: "json \<Rightarrow> bool" where
  "is_string v \<longleftrightarrow> as_str v \<noteq> None"

definition is_array :: "json \<Rightarrow> bool" where
  "is_array v \<longleftrightarrow> as_array v \<noteq> None"

definition is_object :: "json \<Rightarrow> bool" where
  "is_object v \<longleftrightarrow> as_object v \<noteq> None"

text \<open>The match of \<open>validate_schema_ref\<close>, in its order.\<close>

definition schema_accepts :: "string \<Rightarrow> json \<Rightarrow> bool" where
  "schema_accepts schema v =
     (if schema = ''json:any'' then True
      else if schema = ''json:null'' then is_null v
      else if schema = ''json:boolean'' then is_boolean v
      else if schema = ''json:number'' then is_number v
      else if schema = ''json:string'' then is_string v
      else if schema = ''json:array'' then is_array v
      else if schema = ''json:object'' then is_object v
      else take 7 schema = ''schema:'')"

definition validate_schema_ref :: "string option \<Rightarrow> json \<Rightarrow> node_error + unit" where
  "validate_schema_ref schema v =
     (let reference = (case schema of None \<Rightarrow> ''json:any'' | Some s \<Rightarrow> s) in
      if schema_accepts reference v then Inr () else Inl (SchemaViolation reference))"

definition validate_port :: "string \<Rightarrow> json_map \<Rightarrow> worker_port \<Rightarrow> node_error + unit" where
  "validate_port missing object port =
     (case bget object (wp_name port) of
        Some v \<Rightarrow> validate_schema_ref (wp_schema_ref port) v
      | None \<Rightarrow>
          if wp_required port then Inl (SchemaViolation (missing @ wp_name port)) else Inr ())"

definition validate_input :: "worker_node \<Rightarrow> json \<Rightarrow> node_error + unit" where
  "validate_input node v =
     (if length (wn_inputs node) = 1 \<and> wp_name (wn_inputs node ! 0) = ''input''
      then validate_schema_ref (wp_schema_ref (wn_inputs node ! 0)) v
      else bind_r (ok_or (as_object v) (SchemaViolation ''multi-port input must be an object'')) (\<lambda>object.
           try_all (validate_port ''missing required input '' object) (wn_inputs node)))"

definition validate_output :: "worker_node \<Rightarrow> json \<Rightarrow> node_error + unit" where
  "validate_output node v =
     (if length (wn_outputs node) = 1 \<and> wp_name (wn_outputs node ! 0) = ''output''
      then validate_schema_ref (wp_schema_ref (wn_outputs node ! 0)) v
      else bind_r (ok_or (as_object v) (SchemaViolation ''multi-port output must be an object'')) (\<lambda>object.
           try_all (validate_port ''missing required output '' object) (wn_outputs node)))"

section \<open>The registry\<close>

definition er_new :: executor_registry_v1 where
  "er_new = \<lparr>er_executors = [], er_sealed = False\<rparr>"

definition er_register ::
  "string \<Rightarrow> u32 \<Rightarrow> string \<Rightarrow> worker_executor_kind \<Rightarrow> v1_executor \<Rightarrow> executor_registry_v1
     \<Rightarrow> (node_error + unit) \<times> executor_registry_v1" where
  "er_register node_type node_version contribution_hash kind f r =
     (if er_sealed r then (Inl RegistrySealed, r)
      else if bcontains (er_executors r) (node_type, node_version) then (Inl DuplicateExecutor, r)
      else (Inr (), r\<lparr>er_executors := binsert (node_type, node_version)
              \<lparr>eb_contribution_hash = contribution_hash, eb_kind = kind, eb_executor = f\<rparr> (er_executors r)\<rparr>))"

definition er_seal :: "executor_registry_v1 \<Rightarrow> executor_registry_v1" where
  "er_seal r = r\<lparr>er_sealed := True\<rparr>"

text \<open>
  Both \<open>expect\<close>s of the source hold (\<open>audited_builtins_registered\<close> below), so only the registry of each
  registration is kept.
\<close>

definition with_audited_builtins :: "string \<Rightarrow> string \<Rightarrow> executor_registry_v1" where
  "with_audited_builtins noop_hash set_value_hash =
     snd (er_register ''aworkit.set_value'' 1 set_value_hash ExPure (\<lambda>node task input. Inr (Completed (wn_config node)))
       (snd (er_register ''aworkit.noop'' 1 noop_hash ExPure (\<lambda>node task input. Inr (Completed input)) er_new)))"

text \<open>\<open>u16::try_from(version).unwrap_or(u16::MAX)\<close>.\<close>

definition clamp_u16 :: "u32 \<Rightarrow> u16" where
  "clamp_u16 v = (if v < 65536 then ucast v else 65535)"

definition check_outcome :: "worker_node \<Rightarrow> node_outcome_v1 \<Rightarrow> node_error + unit" where
  "check_outcome node outcome =
     (case outcome of
        Completed v \<Rightarrow> validate_output node v
      | NeedCapability proposal \<Rightarrow>
          if wn_capability_ref node \<noteq> Some (ip_capability_ref proposal) then Inl MissingCapability else Inr ()
      | Suspended _ _ \<Rightarrow> Inr ()
      | Failed _ _ \<Rightarrow> Inr ())"

definition er_execute ::
  "worker_node \<Rightarrow> node_task_v1 \<Rightarrow> json \<Rightarrow> stable_id \<Rightarrow> stable_id \<Rightarrow> executor_registry_v1
     \<Rightarrow> node_error + node_outcome_v1" where
  "er_execute node task input authority_manifest_ref budget_ref r =
     (if wn_node_id node \<noteq> nv_node_id task then Inl TaskIdentityMismatch
      else if nv_cancelled task then Inl NodeCancelled
      else bind_r (validate_input node input) (\<lambda>_.
           bind_r (ok_or (bget (er_executors r) (wn_node_type node, wn_node_version node))
                     (MissingExecutor (wn_node_type node) (clamp_u16 (wn_node_version node)))) (\<lambda>binding.
           if eb_contribution_hash binding \<noteq> wn_contribution_hash node \<or> eb_kind binding \<noteq> wn_executor node
           then Inl ContributionMismatch
           else bind_r (eb_executor binding node task input) (\<lambda>outcome.
                bind_r (check_outcome node outcome) (\<lambda>_.
                if authority_manifest_ref = [] \<or> budget_ref = [] then Inl InvalidIdentity
                else Inr outcome)))))"

text \<open>\<open>serde_json::to_vec\<close> of the five-tuple that identifies an invocation.\<close>

type_synonym broker_to_vec = "stable_id \<times> stable_id \<times> stable_id \<times> stable_id \<times> json \<Rightarrow> string option"

definition broker_proposal ::
  "broker_to_vec \<Rightarrow> digest \<Rightarrow> worker_node \<Rightarrow> node_task_v1 \<Rightarrow> json \<Rightarrow> stable_id \<Rightarrow> stable_id
     \<Rightarrow> node_error + node_outcome_v1" where
  "broker_proposal to_vec sha node task input authority_manifest_ref budget_ref =
     bind_r (ok_or (wn_capability_ref node) MissingCapability) (\<lambda>capability_ref.
     bind_r (validate_input node input) (\<lambda>_.
     bind_r (ok_or (to_vec (nv_token_id task, nv_node_id task, nv_attempt_id task, capability_ref, input))
               (SchemaViolation ''encoding'')) (\<lambda>bytes.
     case stable_id_parse (''inv.'' @ take 40 (sha bytes)) of
       Inl _ \<Rightarrow> Inl InvalidIdentity
     | Inr invocation_id \<Rightarrow>
         Inr (NeedCapability \<lparr>ip_invocation_id = invocation_id, ip_node_id = wn_node_id node,
           ip_attempt_id = nv_attempt_id task, ip_capability_ref = capability_ref,
           ip_authority_manifest_ref = authority_manifest_ref, ip_budget_ref = budget_ref,
           ip_payload = JObject [(''config'', wn_config node), (''input'', input)]\<rparr>))))"

section \<open>Laws\<close>

lemma audited_builtins_registered:
  "fst (er_register ''aworkit.noop'' 1 h ExPure f er_new) = Inr ()"
  "fst (er_register ''aworkit.set_value'' 1 h' ExPure g (snd (er_register ''aworkit.noop'' 1 h ExPure f er_new))) = Inr ()"
  by (simp_all add: er_register_def er_new_def bcontains_def)

text \<open>
  A registry is used by registering executors and sealing it, in any order and however often. What it
  is to hold after that: for each type and version the first registration made before the first seal.
\<close>

datatype registry_use = UseRegister string u32 string worker_executor_kind v1_executor | UseSeal

fun use_registry :: "registry_use \<Rightarrow> executor_registry_v1 \<Rightarrow> executor_registry_v1" where
  "use_registry (UseRegister node_type node_version contribution_hash kind f) r =
     snd (er_register node_type node_version contribution_hash kind f r)"
| "use_registry UseSeal r = er_seal r"

fun first_registered :: "string \<times> u32 \<Rightarrow> registry_use list \<Rightarrow> executor_binding option" where
  "first_registered k [] = None"
| "first_registered k (UseSeal # uses) = None"
| "first_registered k (UseRegister node_type node_version contribution_hash kind f # uses) =
     (if k = (node_type, node_version)
      then Some \<lparr>eb_contribution_hash = contribution_hash, eb_kind = kind, eb_executor = f\<rparr>
      else first_registered k uses)"

lemma fold_use_sealed: "er_sealed r \<Longrightarrow> fold use_registry uses r = r"
proof (induction uses)
  case (Cons u uses)
  then have "use_registry u r = r"
    by (cases u) (simp_all add: er_register_def er_seal_def)
  with Cons show ?case by simp
qed simp

lemma fold_use_registry:
  "\<not> er_sealed r \<Longrightarrow> bget (er_executors (fold use_registry uses r)) k =
     (case bget (er_executors r) k of Some b \<Rightarrow> Some b | None \<Rightarrow> first_registered k uses)"
proof (induction uses arbitrary: r)
  case (Cons u uses)
  show ?case
  proof (cases u)
    case (UseRegister t v h kind f)
    have "\<not> er_sealed (use_registry u r)"
      using Cons.prems by (simp add: UseRegister er_register_def)
    from Cons.IH [OF this] Cons.prems show ?thesis
      by (auto simp: UseRegister er_register_def bcontains_def split: option.splits)
  next
    case UseSeal
    then show ?thesis
      by (simp add: fold_use_sealed er_seal_def split: option.split)
  qed
qed (simp split: option.split)

lemma registered_first: "bget (er_executors (fold use_registry uses er_new)) k = first_registered k uses"
  using fold_use_registry [of er_new] by (simp add: er_new_def)

lemma first_registered_sealed: "first_registered k (uses @ UseSeal # later) = first_registered k uses"
  by (induction k uses rule: first_registered.induct) simp_all

text \<open>
  The types of the schema references: \<open>json:any\<close>, \<open>json:\<close> with the kind of the value, and a reference to
  an external schema, which is not looked into.
\<close>

fun json_kind :: "json \<Rightarrow> string" where
  "json_kind JNull = ''null''"
| "json_kind (JBool _) = ''boolean''"
| "json_kind (JNumber _) = ''number''"
| "json_kind (JString _) = ''string''"
| "json_kind (JArray _) = ''array''"
| "json_kind (JObject _) = ''object''"

definition typed_by :: "string \<Rightarrow> json \<Rightarrow> bool" where
  "typed_by schema v \<longleftrightarrow> schema \<in> {''json:any'', ''json:'' @ json_kind v} \<or> (\<exists>name. schema = ''schema:'' @ name)"

lemma schema_accepts_typed: "schema_accepts schema v = typed_by schema v"
proof -
  have "schema = ''schema:'' @ drop 7 schema" if "take 7 schema = ''schema:''"
    using append_take_drop_id [of 7 schema] that by simp
  then have "(\<exists>name. schema = ''schema:'' @ name) \<longleftrightarrow> take 7 schema = ''schema:''"
    by auto
  then show ?thesis
    unfolding typed_by_def schema_accepts_def
    by (cases v) (auto simp: is_string_def is_array_def is_object_def)
qed

text \<open>
  What a delivered value satisfies: the single port named \<open>input\<close> (or \<open>output\<close>) takes the whole value,
  otherwise the value is an object with every required port and every given port of its schema.
\<close>

definition port_accepts :: "worker_port \<Rightarrow> json \<Rightarrow> bool" where
  "port_accepts port v = typed_by (case wp_schema_ref port of None \<Rightarrow> ''json:any'' | Some s \<Rightarrow> s) v"

definition conforms :: "string \<Rightarrow> worker_port list \<Rightarrow> json \<Rightarrow> bool" where
  "conforms whole ports v \<longleftrightarrow>
     (if map wp_name ports = [whole] then port_accepts (hd ports) v
      else case as_object v of
        None \<Rightarrow> False
      | Some object \<Rightarrow> \<forall>port \<in> set ports.
          (case bget object (wp_name port) of None \<Rightarrow> \<not> wp_required port | Some x \<Rightarrow> port_accepts port x))"

lemma validate_schema_ref_ok: "is_ok (validate_schema_ref s v) = typed_by (case s of None \<Rightarrow> ''json:any'' | Some s \<Rightarrow> s) v"
  by (simp add: validate_schema_ref_def Let_def schema_accepts_typed)

lemma validate_ports_ok:
  "is_ok (if length ports = 1 \<and> wp_name (ports ! 0) = whole then validate_schema_ref (wp_schema_ref (ports ! 0)) v
          else bind_r (ok_or (as_object v) e) (\<lambda>object. try_all (validate_port missing object) ports))
   = conforms whole ports v"
proof -
  have port: "is_ok (validate_port missing m p)
      = (case bget m (wp_name p) of None \<Rightarrow> \<not> wp_required p | Some x \<Rightarrow> port_accepts p x)" for m p
    by (simp add: validate_port_def port_accepts_def validate_schema_ref_ok split: option.splits)
  have all: "is_ok (try_all f ps) = (\<forall>p \<in> set ps. is_ok (f p))" for f :: "worker_port \<Rightarrow> node_error + unit" and ps
    using try_all_Inr_iff [of f ps "()"] by (auto simp: is_ok_def split: sum.splits)
  have one: "(length ports = 1 \<and> wp_name (ports ! 0) = whole) = (map wp_name ports = [whole])"
    by (cases ports) auto
  have hd: "map wp_name ports = [whole] \<Longrightarrow> ports ! 0 = hd ports"
    by (cases ports) auto
  show ?thesis
  proof (cases "map wp_name ports = [whole]")
    case True
    then show ?thesis
      unfolding one conforms_def by (simp add: hd validate_schema_ref_ok port_accepts_def)
  next
    case False
    then show ?thesis
      unfolding one conforms_def by (cases "as_object v") (simp_all add: all port)
  qed
qed

lemma validate_input_ok: "is_ok (validate_input node v) = conforms ''input'' (wn_inputs node) v"
  unfolding validate_input_def by (rule validate_ports_ok)

lemma validate_output_ok: "is_ok (validate_output node v) = conforms ''output'' (wn_outputs node) v"
  unfolding validate_output_def by (rule validate_ports_ok)

lemma execute_binding:
  "er_execute node task input authority budget r = Inr outcome \<longleftrightarrow>
     wn_node_id node = nv_node_id task \<and> \<not> nv_cancelled task \<and> authority \<noteq> [] \<and> budget \<noteq> []
     \<and> conforms ''input'' (wn_inputs node) input
     \<and> (\<exists>b. bget (er_executors r) (wn_node_type node, wn_node_version node) = Some b
          \<and> eb_contribution_hash b = wn_contribution_hash node \<and> eb_kind b = wn_executor node
          \<and> eb_executor b node task input = Inr outcome)
     \<and> (case outcome of
          Completed v \<Rightarrow> conforms ''output'' (wn_outputs node) v
        | NeedCapability p \<Rightarrow> wn_capability_ref node = Some (ip_capability_ref p)
        | _ \<Rightarrow> True)"
proof -
  have "check_outcome node outcome = Inr u \<longleftrightarrow>
      (case outcome of
         Completed v \<Rightarrow> conforms ''output'' (wn_outputs node) v
       | NeedCapability p \<Rightarrow> wn_capability_ref node = Some (ip_capability_ref p)
       | _ \<Rightarrow> True)" for u
    by (cases "validate_output node (case outcome of Completed v \<Rightarrow> v | _ \<Rightarrow> JNull)")
       (auto simp: check_outcome_def validate_output_ok [symmetric] split: node_outcome_v1.split)
  moreover have "validate_input node input = Inr u \<longleftrightarrow> conforms ''input'' (wn_inputs node) input" for u
    by (cases "validate_input node input") (simp_all add: validate_input_ok [symmetric])
  ultimately show ?thesis
    unfolding er_execute_def by (auto simp: bind_r_Inr ok_or_Inr)
qed

text \<open>
  C28. A node runs the code it was frozen with, on values of its declared types, exactly: on a registry
  built by any sequence of registrations and seals, \<open>execute\<close> returns an outcome if and only if the first
  executor registered for the node's type and version before the first seal has the frozen contribution
  hash and kind and produced this outcome; the task names this node and is not cancelled; the input has
  the JSON types of the input ports and a completed value those of the output ports; a proposal names
  the capability frozen for the node; and both references are given. Whatever is attempted on the
  registry after a seal, every task executes as before.
\<close>

theorem execute_respects_contract:
  "(er_execute node task input authority budget (fold use_registry uses er_new) = Inr outcome \<longleftrightarrow>
     (\<exists>b. first_registered (wn_node_type node, wn_node_version node) uses = Some b
        \<and> eb_contribution_hash b = wn_contribution_hash node \<and> eb_kind b = wn_executor node
        \<and> eb_executor b node task input = Inr outcome)
     \<and> wn_node_id node = nv_node_id task \<and> \<not> nv_cancelled task \<and> authority \<noteq> [] \<and> budget \<noteq> []
     \<and> conforms ''input'' (wn_inputs node) input
     \<and> (case outcome of
          Completed v \<Rightarrow> conforms ''output'' (wn_outputs node) v
        | NeedCapability p \<Rightarrow> wn_capability_ref node = Some (ip_capability_ref p)
        | _ \<Rightarrow> True))
   \<and> er_execute node task input authority budget (fold use_registry (uses @ UseSeal # later) er_new)
     = er_execute node task input authority budget (fold use_registry uses er_new)"
proof
  show "er_execute node task input authority budget (fold use_registry (uses @ UseSeal # later) er_new)
      = er_execute node task input authority budget (fold use_registry uses er_new)"
    unfolding er_execute_def registered_first by (simp add: first_registered_sealed)
qed (auto simp: execute_binding registered_first)

text \<open>
  The proposal of a brokered node always has a well-formed identity, names the frozen capability and
  passes the checks of \<open>execute\<close>; it depends on the token, node, attempt, capability and input only.
\<close>

lemma broker_proposal_ok:
  assumes "hex_digest sha" and "wn_capability_ref node = Some capability"
    and "conforms ''input'' (wn_inputs node) input"
    and "to_vec (nv_token_id task, nv_node_id task, nv_attempt_id task, capability, input) = Some bytes"
  shows "\<exists>p. broker_proposal to_vec sha node task input authority budget = Inr (NeedCapability p)
    \<and> ip_capability_ref p = capability \<and> valid_stable_id (ip_invocation_id p)"
proof -
  have "length (sha bytes) = 64" and "list_all stable_id_byte (take 40 (sha bytes))"
    using assms(1) by (auto simp: hex_digest_def list_all_iff dest: in_set_takeD intro: stable_id_byte_hex)
  then have "valid_stable_id (''inv.'' @ take 40 (sha bytes))"
    by (auto simp: valid_stable_id_def stable_id_byte_def is_ascii_alphanumeric_code)
  moreover have "validate_input node input = Inr ()"
    using assms(3) validate_input_ok [of node input] by (cases "validate_input node input") auto
  ultimately show ?thesis
    using assms(2,4) by (simp add: broker_proposal_def stable_id_parse_def)
qed

end
