(* ===== verification/Limits.thy ===== *)
theory Limits
  imports Protocol
begin

text \<open>
  Execution limits (\<open>crates/aworkit-workflow-worker/src/limits.rs\<close>): the compact
  \<open>LimitController\<close> and the hierarchical \<open>LimitLedger\<close>, whose scopes form a tree, whose
  reservations debit a scope and all of its ancestors, and whose charges and releases credit the
  same chain. The ledger is kept at machine width: every counter is a \<open>u64\<close> or \<open>u32\<close> word.
\<close>

section \<open>Data\<close>

datatype limit_error =
    Exhausted
  | DeadlineExceeded
  | InvalidReservation
  | UnknownScope string
  | DuplicateId string
  | UnknownReservation string
  | ReservationExceeded
  | StructuralLimit
  | LimitOverflow
  | DeadlineExtension

record budget =
  bu_turns :: u32
  bu_attempts :: u32
  bu_deadline_tick :: u64

record reservation =
  re_turns :: u32
  re_attempts :: u32

record limit_controller =
  lc_remaining :: budget
  lc_tick :: u64

record budget_envelope =
  be_turns :: u64
  be_attempts :: u64
  be_tool_calls :: u64
  be_tokens :: u64
  be_cost_micros :: u64
  be_actions :: u64
  max_depth :: u32
  max_fan_out :: u32
  max_parallel :: u32
  deadline_tick :: u64

record usage =
  us_turns :: u64
  us_attempts :: u64
  us_tool_calls :: u64
  us_tokens :: u64
  us_cost_micros :: u64
  us_actions :: u64

record reservation_record =
  reservation_id :: string
  rr_scope_id :: string
  reserved :: usage

record budget_scope_checkpoint =
  bsc_scope_id :: string
  bsc_parent_scope_id :: "string option"
  bsc_depth :: u32
  bsc_remaining :: budget_envelope
  bsc_active_children :: u32
  bsc_active_parallel :: u32

record limit_checkpoint =
  current_tick :: u64
  lck_scopes :: "budget_scope_checkpoint list"
  lck_reservations :: "reservation_record list"
  lck_charge_ids :: "string list"
  lck_loop_iterations :: "(string \<times> u32) list"

record budget_scope =
  bs_parent :: "string option"
  bs_depth :: u32
  bs_remaining :: budget_envelope
  bs_active_children :: u32
  bs_active_parallel :: u32

record limit_ledger =
  ll_tick :: u64
  ll_scopes :: "(string, budget_scope) bmap"
  ll_reservations :: "(string, reservation_record) bmap"
  ll_charge_ids :: "string list"
  ll_loop_iterations :: "(string, u32) bmap"

section \<open>The compact controller\<close>

definition lc_new :: "budget \<Rightarrow> limit_controller" where
  "lc_new b = \<lparr>lc_remaining = b, lc_tick = 0\<rparr>"

definition ensure_before_deadline :: "limit_controller \<Rightarrow> limit_error + unit" where
  "ensure_before_deadline c =
     (if lc_tick c \<ge> bu_deadline_tick (lc_remaining c) then Inl DeadlineExceeded else Inr ())"

definition lc_reserve ::
  "reservation \<Rightarrow> limit_controller \<Rightarrow> (limit_error + unit) \<times> limit_controller"
where
  "lc_reserve r c =
     (if re_turns r = 0 \<and> re_attempts r = 0 then (Inl InvalidReservation, c)
      else case ensure_before_deadline c of
        Inl e \<Rightarrow> (Inl e, c)
      | Inr _ \<Rightarrow>
          if re_turns r > bu_turns (lc_remaining c) \<or> re_attempts r > bu_attempts (lc_remaining c)
          then (Inl Exhausted, c)
          else (Inr (), c\<lparr>lc_remaining := (lc_remaining c)
                  \<lparr>bu_turns := bu_turns (lc_remaining c) - re_turns r,
                   bu_attempts := bu_attempts (lc_remaining c) - re_attempts r\<rparr>\<rparr>))"

definition lc_advance :: "limit_controller \<Rightarrow> (limit_error + unit) \<times> limit_controller" where
  "lc_advance c =
     (case checked_add (lc_tick c) 1 of
        None \<Rightarrow> (Inl LimitOverflow, c)
      | Some t \<Rightarrow> (let c' = c\<lparr>lc_tick := t\<rparr> in (ensure_before_deadline c', c')))"

section \<open>Envelopes and usage\<close>

definition component_min :: "budget_envelope \<Rightarrow> budget_envelope \<Rightarrow> budget_envelope" where
  "component_min a b =
     \<lparr>be_turns = min (be_turns a) (be_turns b),
      be_attempts = min (be_attempts a) (be_attempts b),
      be_tool_calls = min (be_tool_calls a) (be_tool_calls b),
      be_tokens = min (be_tokens a) (be_tokens b),
      be_cost_micros = min (be_cost_micros a) (be_cost_micros b),
      be_actions = min (be_actions a) (be_actions b),
      max_depth = min (max_depth a) (max_depth b),
      max_fan_out = min (max_fan_out a) (max_fan_out b),
      max_parallel = min (max_parallel a) (max_parallel b),
      deadline_tick = min (deadline_tick a) (deadline_tick b)\<rparr>"

definition be_checked_sub :: "budget_envelope \<Rightarrow> usage \<Rightarrow> limit_error + budget_envelope" where
  "be_checked_sub b u =
     bind_r (ok_or (checked_sub (be_turns b) (us_turns u)) Exhausted) (\<lambda>turns.
     bind_r (ok_or (checked_sub (be_attempts b) (us_attempts u)) Exhausted) (\<lambda>attempts.
     bind_r (ok_or (checked_sub (be_tool_calls b) (us_tool_calls u)) Exhausted) (\<lambda>tool_calls.
     bind_r (ok_or (checked_sub (be_tokens b) (us_tokens u)) Exhausted) (\<lambda>tokens.
     bind_r (ok_or (checked_sub (be_cost_micros b) (us_cost_micros u)) Exhausted) (\<lambda>cost_micros.
     bind_r (ok_or (checked_sub (be_actions b) (us_actions u)) Exhausted) (\<lambda>actions.
     Inr (b\<lparr>be_turns := turns, be_attempts := attempts, be_tool_calls := tool_calls,
            be_tokens := tokens, be_cost_micros := cost_micros, be_actions := actions\<rparr>)))))))"

definition checked_add_usage :: "budget_envelope \<Rightarrow> usage \<Rightarrow> limit_error + budget_envelope" where
  "checked_add_usage b u =
     bind_r (ok_or (checked_add (be_turns b) (us_turns u)) LimitOverflow) (\<lambda>turns.
     bind_r (ok_or (checked_add (be_attempts b) (us_attempts u)) LimitOverflow) (\<lambda>attempts.
     bind_r (ok_or (checked_add (be_tool_calls b) (us_tool_calls u)) LimitOverflow) (\<lambda>tool_calls.
     bind_r (ok_or (checked_add (be_tokens b) (us_tokens u)) LimitOverflow) (\<lambda>tokens.
     bind_r (ok_or (checked_add (be_cost_micros b) (us_cost_micros u)) LimitOverflow) (\<lambda>cost_micros.
     bind_r (ok_or (checked_add (be_actions b) (us_actions u)) LimitOverflow) (\<lambda>actions.
     Inr (b\<lparr>be_turns := turns, be_attempts := attempts, be_tool_calls := tool_calls,
            be_tokens := tokens, be_cost_micros := cost_micros, be_actions := actions\<rparr>)))))))"

definition us_is_zero :: "usage \<Rightarrow> bool" where
  "us_is_zero u \<longleftrightarrow> us_turns u = 0 \<and> us_attempts u = 0 \<and> us_tool_calls u = 0 \<and> us_tokens u = 0
     \<and> us_cost_micros u = 0 \<and> us_actions u = 0"

definition us_contains :: "usage \<Rightarrow> usage \<Rightarrow> bool" where
  "us_contains u actual \<longleftrightarrow>
     us_turns actual \<le> us_turns u \<and> us_attempts actual \<le> us_attempts u
     \<and> us_tool_calls actual \<le> us_tool_calls u \<and> us_tokens actual \<le> us_tokens u
     \<and> us_cost_micros actual \<le> us_cost_micros u \<and> us_actions actual \<le> us_actions u"

definition us_checked_sub :: "usage \<Rightarrow> usage \<Rightarrow> limit_error + usage" where
  "us_checked_sub u a =
     bind_r (ok_or (checked_sub (us_turns u) (us_turns a)) LimitOverflow) (\<lambda>turns.
     bind_r (ok_or (checked_sub (us_attempts u) (us_attempts a)) LimitOverflow) (\<lambda>attempts.
     bind_r (ok_or (checked_sub (us_tool_calls u) (us_tool_calls a)) LimitOverflow) (\<lambda>tool_calls.
     bind_r (ok_or (checked_sub (us_tokens u) (us_tokens a)) LimitOverflow) (\<lambda>tokens.
     bind_r (ok_or (checked_sub (us_cost_micros u) (us_cost_micros a)) LimitOverflow) (\<lambda>cost_micros.
     bind_r (ok_or (checked_sub (us_actions u) (us_actions a)) LimitOverflow) (\<lambda>actions.
     Inr \<lparr>us_turns = turns, us_attempts = attempts, us_tool_calls = tool_calls,
          us_tokens = tokens, us_cost_micros = cost_micros, us_actions = actions\<rparr>))))))"

section \<open>The ledger\<close>

definition logical_id_byte :: "char \<Rightarrow> bool" where
  "logical_id_byte c \<longleftrightarrow> is_ascii_alphanumeric c \<or> c \<in> {CHR ''.'', CHR ''_'', CHR ''-'', CHR '':''}"

definition validate_logical_id :: "string \<Rightarrow> limit_error + unit" where
  "validate_logical_id v =
     (if v = [] \<or> length v > 128 \<or> \<not> list_all logical_id_byte v then Inl InvalidReservation
      else Inr ())"

definition ll_new :: "string \<Rightarrow> budget_envelope \<Rightarrow> limit_error + limit_ledger" where
  "ll_new root b =
     bind_r (validate_logical_id root) (\<lambda>_.
     Inr \<lparr>ll_tick = 0,
          ll_scopes = [(root, \<lparr>bs_parent = None, bs_depth = 0, bs_remaining = b,
                               bs_active_children = 0, bs_active_parallel = 0\<rparr>)],
          ll_reservations = [], ll_charge_ids = [], ll_loop_iterations = []\<rparr>)"

definition create_child ::
  "string \<Rightarrow> string \<Rightarrow> budget_envelope \<Rightarrow> limit_ledger \<Rightarrow> (limit_error + unit) \<times> limit_ledger"
where
  "create_child scope_id parent_scope_id configured l =
     (case validate_logical_id scope_id of
        Inl e \<Rightarrow> (Inl e, l)
      | Inr _ \<Rightarrow>
        if bcontains (ll_scopes l) scope_id then (Inl (DuplicateId scope_id), l)
        else case bget (ll_scopes l) parent_scope_id of
          None \<Rightarrow> (Inl (UnknownScope parent_scope_id), l)
        | Some parent \<Rightarrow>
          (case checked_add (bs_depth parent) 1 of
             None \<Rightarrow> (Inl LimitOverflow, l)
           | Some depth \<Rightarrow>
             if depth > max_depth (bs_remaining parent)
                \<or> bs_active_children parent \<ge> max_fan_out (bs_remaining parent)
             then (Inl StructuralLimit, l)
             else (Inr (),
               l\<lparr>ll_scopes := binsert scope_id
                   \<lparr>bs_parent = Some parent_scope_id, bs_depth = depth,
                    bs_remaining = component_min configured (bs_remaining parent),
                    bs_active_children = 0, bs_active_parallel = 0\<rparr>
                   (bmodify parent_scope_id
                     (\<lambda>p. p\<lparr>bs_active_children := bs_active_children p + 1\<rparr>) (ll_scopes l))\<rparr>)))"

definition can_close_child :: "limit_ledger \<Rightarrow> string \<Rightarrow> limit_error + unit" where
  "can_close_child l scope_id =
     (case bget (ll_scopes l) scope_id of
        None \<Rightarrow> Inl (UnknownScope scope_id)
      | Some scope \<Rightarrow>
          if bs_parent scope = None then Inl InvalidReservation
          else if (\<exists>r \<in> set (bvalues (ll_reservations l)). rr_scope_id r = scope_id)
                  \<or> (\<exists>c \<in> set (bvalues (ll_scopes l)). bs_parent c = Some scope_id)
          then Inl InvalidReservation
          else Inr ())"

definition close_child :: "string \<Rightarrow> limit_ledger \<Rightarrow> (limit_error + unit) \<times> limit_ledger" where
  "close_child scope_id l =
     (case can_close_child l scope_id of
        Inl e \<Rightarrow> (Inl e, l)
      | Inr _ \<Rightarrow>
        (let parent = (case bget (ll_scopes l) scope_id of None \<Rightarrow> None | Some s \<Rightarrow> bs_parent s);
             scopes = bremove scope_id (ll_scopes l) in
         case parent of
           None \<Rightarrow> (Inr (), l\<lparr>ll_scopes := scopes\<rparr>)
         | Some p \<Rightarrow>
             if bcontains scopes p
             then (Inr (), l\<lparr>ll_scopes := bmodify p
                     (\<lambda>s. s\<lparr>bs_active_children := saturating_sub (bs_active_children s) 1\<rparr>) scopes\<rparr>)
             else (Inl (UnknownScope p), l\<lparr>ll_scopes := scopes\<rparr>)))"

text \<open>The walk to the root, with the set of scopes already met.\<close>

function lineage_loop ::
  "(string, budget_scope) bmap \<Rightarrow> string option \<Rightarrow> string list \<Rightarrow> limit_error + string list"
where
  "lineage_loop scopes None seen = Inr []"
| "lineage_loop scopes (Some i) seen =
     (if i \<in> set seen then Inl InvalidReservation
      else case bget scopes i of
        None \<Rightarrow> Inl (UnknownScope i)
      | Some scope \<Rightarrow>
          bind_r (lineage_loop scopes (bs_parent scope) (sinsert i seen)) (\<lambda>rest. Inr (i # rest)))"
  by pat_completeness auto
termination
proof (relation "measure (\<lambda>(scopes, cur, seen).
    card (set (bkeys scopes) - set seen) + (if cur = None then 0 else 1))", goal_cases)
  case (2 scopes i seen scope)
  then have "i \<in> set (bkeys scopes)"
    by (force dest: map_of_SomeD)
  with 2 have "card (set (bkeys scopes) - insert i (set seen)) < card (set (bkeys scopes) - set seen)"
    by (intro psubset_card_mono) auto
  then show ?case
    by simp
qed simp

definition scope_lineage :: "limit_ledger \<Rightarrow> string \<Rightarrow> limit_error + string list" where
  "scope_lineage l scope_id = lineage_loop (ll_scopes l) (Some scope_id) []"

text \<open>
  The first loop of \<open>reserve\<close> proves the debit on every ancestor, the second performs it. The
  \<open>expect\<close> of the second loop is the branch \<open>None\<close> of \<open>debit_loop\<close>: the first loop has just
  found every ancestor.
\<close>

definition admit :: "limit_ledger \<Rightarrow> usage \<Rightarrow> string \<Rightarrow> limit_error + unit" where
  "admit l u ancestor =
     (case bget (ll_scopes l) ancestor of
        None \<Rightarrow> Inl (UnknownScope ancestor)
      | Some scope \<Rightarrow>
          if ll_tick l \<ge> deadline_tick (bs_remaining scope) then Inl DeadlineExceeded
          else bind_r (be_checked_sub (bs_remaining scope) u) (\<lambda>_. Inr ()))"

fun debit_loop ::
  "usage \<Rightarrow> string list \<Rightarrow> (string, budget_scope) bmap
   \<Rightarrow> (limit_error + unit) \<times> (string, budget_scope) bmap"
where
  "debit_loop u [] scopes = (Inr (), scopes)"
| "debit_loop u (a # as) scopes =
     (case bget scopes a of
        None \<Rightarrow> (Inl (UnknownScope a), scopes)
      | Some scope \<Rightarrow>
        (case be_checked_sub (bs_remaining scope) u of
           Inl e \<Rightarrow> (Inl e, scopes)
         | Inr rem \<Rightarrow> debit_loop u as (bmodify a (\<lambda>s. s\<lparr>bs_remaining := rem\<rparr>) scopes)))"

fun credit_loop ::
  "usage \<Rightarrow> string list \<Rightarrow> (string, budget_scope) bmap
   \<Rightarrow> (limit_error + unit) \<times> (string, budget_scope) bmap"
where
  "credit_loop u [] scopes = (Inr (), scopes)"
| "credit_loop u (a # as) scopes =
     (case bget scopes a of
        None \<Rightarrow> (Inl (UnknownScope a), scopes)
      | Some scope \<Rightarrow>
        (case checked_add_usage (bs_remaining scope) u of
           Inl e \<Rightarrow> (Inl e, scopes)
         | Inr rem \<Rightarrow> credit_loop u as (bmodify a (\<lambda>s. s\<lparr>bs_remaining := rem\<rparr>) scopes)))"

definition ll_reserve ::
  "string \<Rightarrow> string \<Rightarrow> usage \<Rightarrow> limit_ledger \<Rightarrow> (limit_error + unit) \<times> limit_ledger"
where
  "ll_reserve scope_id rid u l =
     (case validate_logical_id rid of
        Inl e \<Rightarrow> (Inl e, l)
      | Inr _ \<Rightarrow>
        if us_is_zero u then (Inl InvalidReservation, l)
        else if bcontains (ll_reservations l) rid \<or> rid \<in> set (ll_charge_ids l)
        then (Inl (DuplicateId rid), l)
        else case scope_lineage l scope_id of
          Inl e \<Rightarrow> (Inl e, l)
        | Inr lineage \<Rightarrow>
          (case try_all (admit l u) lineage of
             Inl e \<Rightarrow> (Inl e, l)
           | Inr _ \<Rightarrow>
             (case debit_loop u lineage (ll_scopes l) of
                (Inl e, scopes) \<Rightarrow> (Inl e, l\<lparr>ll_scopes := scopes\<rparr>)
              | (Inr _, scopes) \<Rightarrow>
                  (Inr (), l\<lparr>ll_scopes := scopes,
                     ll_reservations := binsert rid
                       \<lparr>reservation_id = rid, rr_scope_id = scope_id, reserved = u\<rparr>
                       (ll_reservations l)\<rparr>))))"

definition ll_charge ::
  "string \<Rightarrow> string \<Rightarrow> usage \<Rightarrow> limit_ledger \<Rightarrow> (limit_error + unit) \<times> limit_ledger"
where
  "ll_charge rid charge_id actual l =
     (case validate_logical_id charge_id of
        Inl e \<Rightarrow> (Inl e, l)
      | Inr _ \<Rightarrow>
        if charge_id \<in> set (ll_charge_ids l) then (Inr (), l)
        else case bget (ll_reservations l) rid of
          None \<Rightarrow> (Inl (UnknownReservation rid), l)
        | Some r \<Rightarrow>
          (let l1 = l\<lparr>ll_reservations := bremove rid (ll_reservations l)\<rparr> in
           if \<not> us_contains (reserved r) actual
           then (Inl ReservationExceeded,
                 l1\<lparr>ll_reservations := binsert (reservation_id r) r (ll_reservations l1)\<rparr>)
           else case us_checked_sub (reserved r) actual of
             Inl e \<Rightarrow> (Inl e, l1)
           | Inr unused \<Rightarrow>
             (case scope_lineage l1 (rr_scope_id r) of
                Inl e \<Rightarrow> (Inl e, l1)
              | Inr lineage \<Rightarrow>
                (case credit_loop unused lineage (ll_scopes l1) of
                   (Inl e, scopes) \<Rightarrow> (Inl e, l1\<lparr>ll_scopes := scopes\<rparr>)
                 | (Inr _, scopes) \<Rightarrow>
                     (Inr (), l1\<lparr>ll_scopes := scopes,
                                ll_charge_ids := sinsert charge_id (ll_charge_ids l1)\<rparr>)))))"

definition ll_release :: "string \<Rightarrow> limit_ledger \<Rightarrow> (limit_error + unit) \<times> limit_ledger" where
  "ll_release rid l =
     (case bget (ll_reservations l) rid of
        None \<Rightarrow> (Inl (UnknownReservation rid), l)
      | Some r \<Rightarrow>
        (let l1 = l\<lparr>ll_reservations := bremove rid (ll_reservations l)\<rparr> in
         case scope_lineage l1 (rr_scope_id r) of
           Inl e \<Rightarrow> (Inl e, l1)
         | Inr lineage \<Rightarrow>
           (case credit_loop (reserved r) lineage (ll_scopes l1) of
              (res, scopes) \<Rightarrow> (res, l1\<lparr>ll_scopes := scopes\<rparr>))))"

definition scope_before_deadline :: "limit_ledger \<Rightarrow> string \<Rightarrow> limit_error + budget_scope" where
  "scope_before_deadline l scope_id =
     (case bget (ll_scopes l) scope_id of
        None \<Rightarrow> Inl (UnknownScope scope_id)
      | Some scope \<Rightarrow>
          if ll_tick l \<ge> deadline_tick (bs_remaining scope) then Inl DeadlineExceeded else Inr scope)"

definition enter_parallel :: "string \<Rightarrow> limit_ledger \<Rightarrow> (limit_error + unit) \<times> limit_ledger" where
  "enter_parallel scope_id l =
     (case scope_before_deadline l scope_id of
        Inl e \<Rightarrow> (Inl e, l)
      | Inr scope \<Rightarrow>
          if bs_active_parallel scope \<ge> max_parallel (bs_remaining scope) then (Inl StructuralLimit, l)
          else (Inr (), l\<lparr>ll_scopes := bmodify scope_id
                 (\<lambda>s. s\<lparr>bs_active_parallel := bs_active_parallel s + 1\<rparr>) (ll_scopes l)\<rparr>))"

definition leave_parallel :: "string \<Rightarrow> limit_ledger \<Rightarrow> (limit_error + unit) \<times> limit_ledger" where
  "leave_parallel scope_id l =
     (if bcontains (ll_scopes l) scope_id
      then (Inr (), l\<lparr>ll_scopes := bmodify scope_id
             (\<lambda>s. s\<lparr>bs_active_parallel := saturating_sub (bs_active_parallel s) 1\<rparr>) (ll_scopes l)\<rparr>)
      else (Inl (UnknownScope scope_id), l))"

definition loop_key :: "string \<Rightarrow> string \<Rightarrow> string" where
  "loop_key scope_id loop_id = scope_id @ '':'' @ loop_id"

definition next_loop_iteration ::
  "string \<Rightarrow> string \<Rightarrow> u32 \<Rightarrow> limit_ledger \<Rightarrow> (limit_error + u32) \<times> limit_ledger"
where
  "next_loop_iteration scope_id loop_id maximum l =
     (case scope_before_deadline l scope_id of
        Inl e \<Rightarrow> (Inl e, l)
      | Inr _ \<Rightarrow>
        if maximum = 0 then (Inl StructuralLimit, l)
        else
          (let key = loop_key scope_id loop_id;
               current = (case bget (ll_loop_iterations l) key of None \<Rightarrow> 0 | Some n \<Rightarrow> n) in
           if current \<ge> maximum then (Inl Exhausted, l)
           else case checked_add current 1 of
             None \<Rightarrow> (Inl LimitOverflow, l)
           | Some n \<Rightarrow> (Inr n, l\<lparr>ll_loop_iterations := binsert key n (ll_loop_iterations l)\<rparr>)))"

definition advance_to :: "u64 \<Rightarrow> limit_ledger \<Rightarrow> (limit_error + unit) \<times> limit_ledger" where
  "advance_to tick l =
     (if tick < ll_tick l then (Inl DeadlineExtension, l)
      else (let l1 = l\<lparr>ll_tick := tick\<rparr> in
        if \<exists>s \<in> set (bvalues (ll_scopes l1)). ll_tick l1 \<ge> deadline_tick (bs_remaining s)
        then (Inl DeadlineExceeded, l1)
        else (Inr (), l1)))"

definition ll_remaining :: "limit_ledger \<Rightarrow> string \<Rightarrow> budget_envelope option" where
  "ll_remaining l scope_id = map_option bs_remaining (bget (ll_scopes l) scope_id)"

section \<open>Checkpoint and restore\<close>

definition scope_checkpoint :: "u64 \<Rightarrow> string \<Rightarrow> budget_scope \<Rightarrow> budget_scope_checkpoint" where
  "scope_checkpoint tick scope_id s =
     \<lparr>bsc_scope_id = scope_id, bsc_parent_scope_id = bs_parent s, bsc_depth = bs_depth s,
      bsc_remaining = (bs_remaining s)
        \<lparr>deadline_tick := saturating_sub (deadline_tick (bs_remaining s)) tick\<rparr>,
      bsc_active_children = bs_active_children s, bsc_active_parallel = bs_active_parallel s\<rparr>"

definition ll_checkpoint :: "limit_ledger \<Rightarrow> limit_checkpoint" where
  "ll_checkpoint l =
     \<lparr>current_tick = ll_tick l,
      lck_scopes = map (\<lambda>e. scope_checkpoint (ll_tick l) (fst e) (snd e)) (ll_scopes l),
      lck_reservations = bvalues (ll_reservations l),
      lck_charge_ids = ll_charge_ids l,
      lck_loop_iterations = ll_loop_iterations l\<rparr>"

definition restore_scope :: "u64 \<Rightarrow> budget_scope_checkpoint \<Rightarrow> limit_error + string \<times> budget_scope" where
  "restore_scope new_tick saved =
     bind_r (validate_logical_id (bsc_scope_id saved)) (\<lambda>_.
     bind_r (ok_or (checked_add new_tick (deadline_tick (bsc_remaining saved))) LimitOverflow) (\<lambda>d.
     Inr (bsc_scope_id saved,
       \<lparr>bs_parent = bsc_parent_scope_id saved, bs_depth = bsc_depth saved,
        bs_remaining = (bsc_remaining saved)\<lparr>deadline_tick := d\<rparr>,
        bs_active_children = bsc_active_children saved,
        bs_active_parallel = bsc_active_parallel saved\<rparr>)))"

definition check_scope :: "u64 \<Rightarrow> (string, budget_scope) bmap \<Rightarrow> budget_scope \<Rightarrow> limit_error + unit" where
  "check_scope new_tick scopes s =
     (case bs_parent s of
        Some p \<Rightarrow> if \<not> bcontains scopes p then Inl (UnknownScope p) else
          if bs_active_parallel s > max_parallel (bs_remaining s) then Inl StructuralLimit
          else if deadline_tick (bs_remaining s) \<le> new_tick then Inl DeadlineExceeded
          else Inr ()
      | None \<Rightarrow>
          if bs_active_parallel s > max_parallel (bs_remaining s) then Inl StructuralLimit
          else if deadline_tick (bs_remaining s) \<le> new_tick then Inl DeadlineExceeded
          else Inr ())"

definition check_tree :: "(string, budget_scope) bmap \<Rightarrow> string \<times> budget_scope \<Rightarrow> limit_error + unit" where
  "check_tree scopes e =
     (let s = snd e in
      if bcount (\<lambda>c. bs_parent c = Some (fst e)) scopes \<noteq> unat (bs_active_children s)
      then Inl StructuralLimit
      else if bs_active_children s > max_fan_out (bs_remaining s) then Inl StructuralLimit
      else case bs_parent s of
        Some p \<Rightarrow>
          (case bget scopes p of
             None \<Rightarrow> Inl (UnknownScope p)
           | Some parent \<Rightarrow>
               if bs_depth s \<noteq> saturating_add (bs_depth parent) 1
                  \<or> bs_depth s > max_depth (bs_remaining parent)
               then Inl StructuralLimit else Inr ())
      | None \<Rightarrow> if bs_depth s \<noteq> 0 then Inl StructuralLimit else Inr ())"

fun restore_reservations ::
  "(string, budget_scope) bmap \<Rightarrow> reservation_record list \<Rightarrow> (string, reservation_record) bmap
   \<Rightarrow> limit_error + (string, reservation_record) bmap"
where
  "restore_reservations scopes [] m = Inr m"
| "restore_reservations scopes (r # rs) m =
     bind_r (validate_logical_id (reservation_id r)) (\<lambda>_.
     if \<not> bcontains scopes (rr_scope_id r) \<or> us_is_zero (reserved r)
        \<or> bcontains m (reservation_id r)
     then Inl InvalidReservation
     else restore_reservations scopes rs (binsert (reservation_id r) r m))"

definition loop_entry_ok :: "(string, budget_scope) bmap \<Rightarrow> string \<times> u32 \<Rightarrow> bool" where
  "loop_entry_ok scopes e \<longleftrightarrow>
     snd e \<noteq> 0 \<and>
     (case split_once (CHR '':'') (fst e) of
        None \<Rightarrow> False
      | Some (scope_id, loop_id) \<Rightarrow> bcontains scopes scope_id \<and> is_ok (validate_logical_id loop_id))"

definition ll_restore :: "limit_checkpoint \<Rightarrow> u64 \<Rightarrow> limit_error + limit_ledger" where
  "ll_restore c new_tick =
     bind_r (try_map (restore_scope new_tick) (lck_scopes c)) (\<lambda>entries.
     let scopes = bmap_of_list entries in
     bind_r (try_all (check_scope new_tick scopes) (bvalues scopes)) (\<lambda>_.
     if bcount (\<lambda>s. bs_parent s = None) scopes \<noteq> 1 then Inl StructuralLimit
     else
     bind_r (try_all (check_tree scopes) scopes) (\<lambda>_.
     bind_r (restore_reservations scopes (lck_reservations c) []) (\<lambda>reservations.
     let charge_ids = bset_of_list (lck_charge_ids c) in
     if length charge_ids \<noteq> length (lck_charge_ids c)
        \<or> (\<exists>i \<in> set charge_ids. \<not> is_ok (validate_logical_id i) \<or> bcontains reservations i)
     then Inl InvalidReservation
     else
     (let loops = bmap_of_list (lck_loop_iterations c) in
      if length loops \<noteq> length (lck_loop_iterations c) \<or> (\<exists>e \<in> set loops. \<not> loop_entry_ok scopes e)
      then Inl InvalidReservation
      else Inr \<lparr>ll_tick = new_tick, ll_scopes = scopes, ll_reservations = reservations,
                ll_charge_ids = charge_ids, ll_loop_iterations = loops\<rparr>)))))"

end
