(* ===== verification/Limits_Tree.thy ===== *)
theory Limits_Tree
  imports Limits
begin

text \<open>
  Lemmas on the ledger's arithmetic and on its tree of scopes: one statement per operation for all
  six consumable dimensions, the chain of a scope up to the root, and the invariant of the tree
  with its preservation by the creation and the closing of a child.
\<close>

section \<open>Dimensions\<close>

text \<open>The six consumable dimensions, so that one statement covers all of them.\<close>

datatype dim = DTurns | DAttempts | DToolCalls | DTokens | DCostMicros | DActions

fun us_dim :: "dim \<Rightarrow> usage \<Rightarrow> u64" where
  "us_dim DTurns u = us_turns u"
| "us_dim DAttempts u = us_attempts u"
| "us_dim DToolCalls u = us_tool_calls u"
| "us_dim DTokens u = us_tokens u"
| "us_dim DCostMicros u = us_cost_micros u"
| "us_dim DActions u = us_actions u"

fun be_dim :: "dim \<Rightarrow> budget_envelope \<Rightarrow> u64" where
  "be_dim DTurns b = be_turns b"
| "be_dim DAttempts b = be_attempts b"
| "be_dim DToolCalls b = be_tool_calls b"
| "be_dim DTokens b = be_tokens b"
| "be_dim DCostMicros b = be_cost_micros b"
| "be_dim DActions b = be_actions b"

definition same_structure :: "budget_envelope \<Rightarrow> budget_envelope \<Rightarrow> bool" where
  "same_structure a b \<longleftrightarrow> max_depth a = max_depth b \<and> max_fan_out a = max_fan_out b
     \<and> max_parallel a = max_parallel b \<and> deadline_tick a = deadline_tick b"

lemma all_dims:
  "(\<forall>d. P d) \<longleftrightarrow> P DTurns \<and> P DAttempts \<and> P DToolCalls \<and> P DTokens \<and> P DCostMicros \<and> P DActions"
  by (metis dim.exhaust)

lemma envelope_ext:
  "(\<And>d. be_dim d a = be_dim d b) \<Longrightarrow> same_structure a b \<Longrightarrow> a = (b :: budget_envelope)"
  using all_dims [of "\<lambda>d. be_dim d a = be_dim d b"]
  by (cases a; cases b) (simp add: same_structure_def)

lemma be_checked_sub_Inr:
  "be_checked_sub b u = Inr b' \<longleftrightarrow>
     (\<forall>d. unat (be_dim d b) = unat (be_dim d b') + unat (us_dim d u)) \<and> same_structure b' b"
  unfolding be_checked_sub_def all_dims same_structure_def
  by (cases b'; cases b) (auto simp: bind_r_Inr ok_or_Inr rust_arith)

lemma be_checked_sub_ok:
  "is_ok (be_checked_sub b u) \<longleftrightarrow> (\<forall>d. us_dim d u \<le> be_dim d b)"
  unfolding be_checked_sub_def all_dims
  by (simp add: checked_sub_def split: if_splits)

lemma be_checked_sub_err: "be_checked_sub b u = Inl e \<Longrightarrow> e = Exhausted"
  unfolding be_checked_sub_def by (auto simp: bind_r_Inl ok_or_Inl)

lemma checked_add_usage_Inr:
  "checked_add_usage b u = Inr b' \<longleftrightarrow>
     (\<forall>d. unat (be_dim d b') = unat (be_dim d b) + unat (us_dim d u)) \<and> same_structure b' b"
  unfolding checked_add_usage_def all_dims same_structure_def
  by (cases b'; cases b) (auto simp: bind_r_Inr ok_or_Inr rust_arith)

lemma checked_add_usage_ok:
  "is_ok (checked_add_usage b u) \<longleftrightarrow> (\<forall>d. unat (be_dim d b) + unat (us_dim d u) < 2 ^ 64)"
  unfolding checked_add_usage_def all_dims
  by (simp add: checked_add_def split: if_splits)

lemma us_contains_dims: "us_contains u a \<longleftrightarrow> (\<forall>d. us_dim d a \<le> us_dim d u)"
  by (simp add: us_contains_def all_dims)

lemma us_is_zero_dims: "us_is_zero u \<longleftrightarrow> (\<forall>d. us_dim d u = 0)"
  by (simp add: us_is_zero_def all_dims)

lemma us_checked_sub_Inr:
  "us_checked_sub u a = Inr r \<longleftrightarrow> (\<forall>d. unat (us_dim d u) = unat (us_dim d r) + unat (us_dim d a))"
  unfolding us_checked_sub_def all_dims
  by (cases r) (auto simp: bind_r_Inr ok_or_Inr rust_arith)

lemma us_checked_sub_ok: "is_ok (us_checked_sub u a) \<longleftrightarrow> us_contains u a"
  unfolding us_checked_sub_def us_contains_def
  by (simp add: checked_sub_def split: if_splits)

lemma component_min_dim: "be_dim d (component_min a b) = min (be_dim d a) (be_dim d b)"
  by (cases d) (simp_all add: component_min_def)

section \<open>Lineages\<close>

declare lineage_loop.simps(2) [simp del]

text \<open>The chain of a scope, by the shape of the tree alone.\<close>

inductive lineage_path :: "(string, budget_scope) bmap \<Rightarrow> string \<Rightarrow> string list \<Rightarrow> bool"
  for scopes where
  path_root: "bget scopes i = Some s \<Longrightarrow> bs_parent s = None \<Longrightarrow> lineage_path scopes i [i]"
| path_step: "bget scopes i = Some s \<Longrightarrow> bs_parent s = Some p \<Longrightarrow> lineage_path scopes p ps
    \<Longrightarrow> lineage_path scopes i (i # ps)"

inductive_cases lineage_pathE: "lineage_path scopes i ps"

lemma lineage_path_fun: "lineage_path scopes i ps \<Longrightarrow> lineage_path scopes i qs \<Longrightarrow> ps = qs"
proof (induction arbitrary: qs rule: lineage_path.induct)
  case (path_root i s)
  from path_root.prems show ?case
    by (rule lineage_pathE) (use path_root in simp_all)
next
  case (path_step i s p ps)
  from path_step.prems obtain ps' where "qs = i # ps'" "lineage_path scopes p ps'"
    by (rule lineage_pathE) (use path_step.hyps(1,2) in simp_all)
  with path_step.IH show ?case
    by blast
qed

lemma lineage_path_keys: "lineage_path scopes i ps \<Longrightarrow> x \<in> set ps \<Longrightarrow> bcontains scopes x"
  by (induction rule: lineage_path.induct) (auto simp: bcontains_def)

lemma lineage_path_self: "lineage_path scopes i ps \<Longrightarrow> i \<in> set ps"
  by (erule lineage_pathE) simp_all

lemma lineage_path_cong:
  "lineage_path scopes i ps \<Longrightarrow>
     (\<And>k. k \<in> set ps \<Longrightarrow> map_option bs_parent (bget scopes' k) = map_option bs_parent (bget scopes k))
   \<Longrightarrow> lineage_path scopes' i ps"
proof (induction rule: lineage_path.induct)
  case (path_root i s)
  then show ?case
    using path_root.prems [of i] by (auto intro: lineage_path.intros)
next
  case (path_step i s p ps)
  have "map_option bs_parent (bget scopes' i) = Some (Some p)"
    using path_step.prems [of i] path_step.hyps(1,2) by simp
  then obtain s' where "bget scopes' i = Some s'" "bs_parent s' = Some p"
    by auto
  with path_step show ?case
    by (auto intro: lineage_path.path_step)
qed

lemma lineage_path_avoid:
  "lineage_path scopes i ps \<Longrightarrow> bforall (\<lambda>_ s. bs_parent s \<noteq> Some c) scopes \<Longrightarrow> i \<noteq> c \<Longrightarrow> c \<notin> set ps"
  by (induction rule: lineage_path.induct) (auto dest: bforallD)

text \<open>With depths that grow by one from parent to child every scope has a chain, without repetition.\<close>

definition tree_ok :: "(string, budget_scope) bmap \<Rightarrow> bool" where
  "tree_ok scopes \<longleftrightarrow> bforall (\<lambda>_ s. case bs_parent s of
       None \<Rightarrow> bs_depth s = 0
     | Some p \<Rightarrow> (case bget scopes p of
         None \<Rightarrow> False
       | Some ps \<Rightarrow> unat (bs_depth s) = Suc (unat (bs_depth ps)))) scopes"

lemma tree_okD:
  "tree_ok scopes \<Longrightarrow> bget scopes i = Some s \<Longrightarrow> bs_parent s = Some p \<Longrightarrow>
     \<exists>ps. bget scopes p = Some ps \<and> unat (bs_depth s) = Suc (unat (bs_depth ps))"
  by (auto simp: tree_ok_def dest!: bforallD split: option.splits)

lemma lineage_path_ex:
  assumes "tree_ok scopes" and "bcontains scopes i"
  shows "\<exists>ps. lineage_path scopes i ps"
proof -
  have "\<exists>ps. lineage_path scopes i ps" if "bget scopes i = Some s" "n = unat (bs_depth s)" for n s
    using that
  proof (induction n arbitrary: i s rule: less_induct)
    case (less n)
    show ?case
    proof (cases "bs_parent s")
      case (Some p)
      with less tree_okD [OF assms(1)] show ?thesis
        by (metis lessI lineage_path.path_step)
    qed (use less.prems in \<open>auto intro: lineage_path.intros\<close>)
  qed
  with assms(2) show ?thesis
    by (auto simp: bcontains_def)
qed

lemma lineage_path_depth:
  assumes "tree_ok scopes" and "lineage_path scopes i ps" and "bget scopes i = Some s"
    and "x \<in> set ps" and "bget scopes x = Some sx" and "x \<noteq> i"
  shows "unat (bs_depth sx) < unat (bs_depth s)"
  using assms(2-6)
proof (induction arbitrary: s rule: lineage_path.induct)
  case (path_step i s0 p ps)
  obtain sp where sp: "bget scopes p = Some sp" "unat (bs_depth s) = Suc (unat (bs_depth sp))"
    using tree_okD [OF assms(1) path_step.hyps(1,2)] path_step by auto
  with path_step show ?case
    by (cases "x = p") (auto simp: less_Suc_eq)
qed auto

lemma lineage_path_distinct:
  assumes "tree_ok scopes" and "lineage_path scopes i ps"
  shows "distinct ps"
  using assms(2)
proof (induction rule: lineage_path.induct)
  case (path_step i s p ps)
  have "i \<notin> set ps"
  proof
    assume "i \<in> set ps"
    obtain sp where sp: "bget scopes p = Some sp" "unat (bs_depth s) = Suc (unat (bs_depth sp))"
      using tree_okD [OF assms(1)] path_step by blast
    then have "i \<noteq> p"
      using path_step.hyps(1) by auto
    with lineage_path_depth [OF assms(1) path_step.hyps(3) sp(1) \<open>i \<in> set ps\<close> path_step.hyps(1)] sp
    show False
      by simp
  qed
  with path_step show ?case
    by simp
qed simp

lemma lineage_loop_path:
  "lineage_path scopes i ps \<Longrightarrow> distinct ps \<Longrightarrow> set ps \<inter> set seen = {} \<Longrightarrow>
     lineage_loop scopes (Some i) seen = Inr ps"
proof (induction arbitrary: seen rule: lineage_path.induct)
  case (path_step i s p ps)
  have "lineage_loop scopes (Some p) (sinsert i seen) = Inr ps"
    using path_step.prems by (intro path_step.IH) auto
  with path_step show ?case
    by (simp add: lineage_loop.simps(2) [of _ i])
qed (simp add: lineage_loop.simps)

lemma scope_lineage_path:
  "tree_ok (ll_scopes l) \<Longrightarrow> lineage_path (ll_scopes l) i ps \<Longrightarrow> scope_lineage l i = Inr ps"
  by (simp add: scope_lineage_def lineage_loop_path lineage_path_distinct)

lemma scope_lineage_unknown: "bget (ll_scopes l) i = None \<Longrightarrow> scope_lineage l i = Inl (UnknownScope i)"
  by (simp add: scope_lineage_def lineage_loop.simps)

section \<open>The scope tree\<close>

definition scope_ok :: "(string, budget_scope) bmap \<Rightarrow> string \<Rightarrow> budget_scope \<Rightarrow> bool" where
  "scope_ok scopes k s \<longleftrightarrow>
     is_ok (validate_logical_id k)
     \<and> bs_active_parallel s \<le> max_parallel (bs_remaining s)
     \<and> bs_active_children s \<le> max_fan_out (bs_remaining s)
     \<and> bcount (\<lambda>c. bs_parent c = Some k) scopes = unat (bs_active_children s)
     \<and> (\<forall>p ps. bs_parent s = Some p \<longrightarrow> bget scopes p = Some ps \<longrightarrow>
          bs_depth s \<le> max_depth (bs_remaining ps)
          \<and> deadline_tick (bs_remaining s) \<le> deadline_tick (bs_remaining ps))"

definition scopes_ok :: "(string, budget_scope) bmap \<Rightarrow> bool" where
  "scopes_ok scopes \<longleftrightarrow> bwf scopes \<and> tree_ok scopes \<and> bforall (scope_ok scopes) scopes
     \<and> bcount (\<lambda>s. bs_parent s = None) scopes = 1"

text \<open>A write to one scope that leaves the tree and the structural limits alone.\<close>

definition adjusts :: "budget_scope \<Rightarrow> budget_scope \<Rightarrow> bool" where
  "adjusts s s' \<longleftrightarrow> bs_parent s' = bs_parent s \<and> bs_depth s' = bs_depth s
     \<and> bs_active_children s' = bs_active_children s
     \<and> same_structure (bs_remaining s') (bs_remaining s)
     \<and> (bs_active_parallel s \<le> max_parallel (bs_remaining s) \<longrightarrow>
          bs_active_parallel s' \<le> max_parallel (bs_remaining s'))"

lemma tree_ok_bmodify:
  assumes "tree_ok m" and "\<And>s. bget m k = Some s \<Longrightarrow> bs_parent (g s) = bs_parent s \<and> bs_depth (g s) = bs_depth s"
  shows "tree_ok (bmodify k g m)"
  unfolding tree_ok_def
proof (rule bforallI)
  fix i s assume "bget (bmodify k g m) i = Some s"
  then obtain s0 where s0: "bget m i = Some s0" "s = (if i = k then g s0 else s0)"
    by (auto split: if_splits)
  then have same: "bs_parent s = bs_parent s0" "bs_depth s = bs_depth s0"
    using assms(2) by auto
  show "case bs_parent s of None \<Rightarrow> bs_depth s = 0
    | Some p \<Rightarrow> (case bget (bmodify k g m) p of None \<Rightarrow> False
        | Some ps \<Rightarrow> unat (bs_depth s) = Suc (unat (bs_depth ps)))"
    using bforallD [OF assms(1) [unfolded tree_ok_def] s0(1)] assms(2)
    by (auto simp: same split: option.splits)
qed

lemma scopes_ok_bmodify:
  assumes "scopes_ok m" and adj: "\<And>s. bget m k = Some s \<Longrightarrow> adjusts s (g s)"
  shows "scopes_ok (bmodify k g m)"
proof -
  have wf: "bwf m" and tree: "tree_ok m" and each: "bforall (scope_ok m) m"
    and one: "bcount (\<lambda>s. bs_parent s = None) m = 1"
    using assms(1) by (auto simp: scopes_ok_def)
  have cnt: "bcount (\<lambda>c. bs_parent c = p) (bmodify k g m) = bcount (\<lambda>c. bs_parent c = p) m" for p
    using wf adj by (intro bcount_bmodify_same) (auto simp: adjusts_def)
  have new: "scope_ok (bmodify k g m) i (if i = k then g s else s)" if s: "bget m i = Some s" for i s
  proof -
    have ok: "scope_ok m i s"
      by (rule bforallD [OF each s])
    have adj': "adjusts s (if i = k then g s else s)"
      using adj s by (auto simp: adjusts_def same_structure_def)
    have par: "bget m k = Some ps \<Longrightarrow> max_depth (bs_remaining (g ps)) = max_depth (bs_remaining ps)"
        "bget m k = Some ps \<Longrightarrow> deadline_tick (bs_remaining (g ps)) = deadline_tick (bs_remaining ps)" for ps
      using adj by (auto simp: adjusts_def same_structure_def)
    show ?thesis
      using ok adj' par unfolding scope_ok_def cnt
      by (auto simp: adjusts_def same_structure_def split: if_splits)
  qed
  have "bforall (scope_ok (bmodify k g m)) (bmodify k g m)"
  proof (rule bforallI)
    fix i s' assume "bget (bmodify k g m) i = Some s'"
    then obtain s where "bget m i = Some s" "s' = (if i = k then g s else s)"
      by (auto split: if_splits)
    with new show "scope_ok (bmodify k g m) i s'"
      by simp
  qed
  moreover have "tree_ok (bmodify k g m)"
    using adj by (intro tree_ok_bmodify [OF tree]) (auto simp: adjusts_def)
  ultimately show ?thesis
    using wf one cnt by (simp add: scopes_ok_def)
qed

lemma scopes_ok_fold_bmodify:
  "scopes_ok m \<Longrightarrow> (\<And>s. adjusts s (g s)) \<Longrightarrow> scopes_ok (fold (\<lambda>k. bmodify k g) ks m)"
  by (induction ks arbitrary: m) (auto intro: scopes_ok_bmodify)

lemma scopes_ok_new:
  "is_ok (validate_logical_id root) \<Longrightarrow>
     scopes_ok [(root, \<lparr>bs_parent = None, bs_depth = 0, bs_remaining = b,
                        bs_active_children = 0, bs_active_parallel = 0\<rparr>)]"
  by (simp add: scopes_ok_def tree_ok_def bforall_def scope_ok_def bwf_def bcount_def)

lemma scopes_ok_create:
  assumes ok: "scopes_ok m" and c: "bget m c = None" "is_ok (validate_logical_id c)"
    and p: "bget m p = Some ps" and depth: "unat (bs_depth child) = Suc (unat (bs_depth ps))"
    and lim: "bs_depth child \<le> max_depth (bs_remaining ps)"
      "bs_active_children ps < max_fan_out (bs_remaining ps)"
      "deadline_tick (bs_remaining child) \<le> deadline_tick (bs_remaining ps)"
    and child: "bs_parent child = Some p" "bs_active_children child = 0" "bs_active_parallel child = 0"
  defines "m' \<equiv> binsert c child (bmodify p (\<lambda>s. s\<lparr>bs_active_children := bs_active_children s + 1\<rparr>) m)"
  shows "scopes_ok m'"
proof -
  have wf: "bwf m" and tree: "tree_ok m" and each: "bforall (scope_ok m) m"
    and one: "bcount (\<lambda>s. bs_parent s = None) m = 1"
    using ok by (auto simp: scopes_ok_def)
  have "c \<noteq> p"
    using c p by auto
  have get: "bget m' i = (if i = c then Some child
      else if i = p then Some (ps\<lparr>bs_active_children := bs_active_children ps + 1\<rparr>) else bget m i)" for i
    using p \<open>c \<noteq> p\<close> by (simp add: m'_def)
  have cnt: "bcount (\<lambda>s. bs_parent s = x) m' = of_bool (x = Some p) + bcount (\<lambda>s. bs_parent s = x) m" for x
    using c child wf \<open>c \<noteq> p\<close> unfolding m'_def
    by (subst bcount_binsert_new) (auto simp: bcount_bmodify_same)
  have orphan: "bcount (\<lambda>s. bs_parent s = Some c) m = 0"
    unfolding bcount_0 [OF wf] using tree_okD [OF tree] c by (auto intro!: bforallI) fastforce
  have "tree_ok m'"
    unfolding tree_ok_def
  proof (rule bforallI)
    fix i s assume s: "bget m' i = Some s"
    show "case bs_parent s of None \<Rightarrow> bs_depth s = 0
      | Some q \<Rightarrow> (case bget m' q of None \<Rightarrow> False | Some qs \<Rightarrow> unat (bs_depth s) = Suc (unat (bs_depth qs)))"
    proof (cases "i = c")
      case False
      then obtain s0 where s0: "bget m i = Some s0" "bs_parent s = bs_parent s0" "bs_depth s = bs_depth s0"
        using s p by (auto simp: get split: if_splits)
      with bforallD [OF tree [unfolded tree_ok_def] s0(1)] c(1) p show ?thesis
        by (auto simp: get split: option.splits)
    qed (use s depth child \<open>c \<noteq> p\<close> in \<open>simp add: get\<close>)
  qed
  moreover have "bforall (scope_ok m') m'"
  proof (rule bforallI)
    fix i s assume s: "bget m' i = Some s"
    show "scope_ok m' i s"
    proof (cases "i = c")
      case True
      with s child c lim orphan \<open>c \<noteq> p\<close> show ?thesis
        by (auto simp: scope_ok_def get cnt)
    next
      case False
      then obtain s0 where s0: "bget m i = Some s0"
        "s = (if i = p then s0\<lparr>bs_active_children := bs_active_children s0 + 1\<rparr> else s0)"
        using s p by (auto simp: get split: if_splits)
      with bforallD [OF each s0(1)] p lim(2) c(1) tree_okD [OF tree s0(1)] show ?thesis
        by (auto simp: scope_ok_def get cnt word_add_1_le split: if_splits)
    qed
  qed
  ultimately show ?thesis
    using wf one by (simp add: scopes_ok_def cnt) (simp add: m'_def)
qed

lemma scopes_ok_close:
  assumes ok: "scopes_ok m" and c: "bget m c = Some s" and p: "bs_parent s = Some p"
    and leaf: "bforall (\<lambda>_ x. bs_parent x \<noteq> Some c) m"
  defines "m' \<equiv> bmodify p (\<lambda>s. s\<lparr>bs_active_children := saturating_sub (bs_active_children s) 1\<rparr>) (bremove c m)"
  shows "scopes_ok m'" and "bcontains (bremove c m) p"
proof -
  have wf: "bwf m" and tree: "tree_ok m" and each: "bforall (scope_ok m) m"
    and one: "bcount (\<lambda>s. bs_parent s = None) m = 1"
    using ok by (auto simp: scopes_ok_def)
  obtain ps where ps: "bget m p = Some ps"
    using tree_okD [OF tree c p] by blast
  have "c \<noteq> p"
    using bforallD [OF leaf c] p by auto
  then show "bcontains (bremove c m) p"
    using ps by (simp add: bcontains_def)
  have get: "bget m' i = (if i = c then None
      else if i = p then Some (ps\<lparr>bs_active_children := saturating_sub (bs_active_children ps) 1\<rparr>)
      else bget m i)" for i
    using ps \<open>c \<noteq> p\<close> by (simp add: m'_def)
  have cnt: "bcount (\<lambda>s. bs_parent s = x) m = of_bool (x = Some p) + bcount (\<lambda>s. bs_parent s = x) m'" for x
    using wf bcount_bremove [OF wf c, of "\<lambda>s. bs_parent s = x"] p unfolding m'_def
    by (subst bcount_bmodify_same) auto
  have "tree_ok m'"
    unfolding tree_ok_def
  proof (rule bforallI)
    fix i x assume x: "bget m' i = Some x"
    then obtain x0 where x0: "bget m i = Some x0" "bs_parent x = bs_parent x0" "bs_depth x = bs_depth x0"
      using ps by (auto simp: get split: if_splits)
    with bforallD [OF tree [unfolded tree_ok_def] x0(1)] bforallD [OF leaf x0(1)] ps
    show "case bs_parent x of None \<Rightarrow> bs_depth x = 0
      | Some q \<Rightarrow> (case bget m' q of None \<Rightarrow> False | Some qs \<Rightarrow> unat (bs_depth x) = Suc (unat (bs_depth qs)))"
      by (auto simp: get split: option.splits)
  qed
  moreover have "bforall (scope_ok m') m'"
  proof (rule bforallI)
    fix i x assume x: "bget m' i = Some x"
    then obtain x0 where x0: "bget m i = Some x0"
      "x = (if i = p then x0\<lparr>bs_active_children := saturating_sub (bs_active_children x0) 1\<rparr> else x0)"
      using ps by (auto simp: get split: if_splits)
    have "bcount (\<lambda>s. bs_parent s = Some i) m' = unat (bs_active_children x)"
      using bforallD [OF each x0(1)] cnt [of "Some i"] x0(2)
      by (auto simp: scope_ok_def unat_saturating_sub)
    moreover have "bs_active_children x \<le> bs_active_children x0"
      using x0(2) by (simp add: word_le_nat_alt unat_saturating_sub)
    ultimately show "scope_ok m' i x"
      using bforallD [OF each x0(1)] x0(2) ps unfolding scope_ok_def
      by (auto simp: get split: if_splits)
  qed
  ultimately show "scopes_ok m'"
    using wf one cnt [of None] by (simp add: scopes_ok_def) (simp add: m'_def)
qed

end
