(* ===== verification/Limits_Ledger.thy ===== *)
theory Limits_Ledger
  imports Limits_Tree
begin

text \<open>
  The ledger as a whole: its invariant, what a scope holds together with its live reservations,
  the preservation of both by every operation, restoring a checkpoint, and the properties of runs.
\<close>

section \<open>Debits and credits\<close>

definition env_sub :: "usage \<Rightarrow> budget_scope \<Rightarrow> budget_scope" where
  "env_sub u s = (case be_checked_sub (bs_remaining s) u of Inr b \<Rightarrow> s\<lparr>bs_remaining := b\<rparr> | Inl _ \<Rightarrow> s)"

definition env_add :: "usage \<Rightarrow> budget_scope \<Rightarrow> budget_scope" where
  "env_add u s = (case checked_add_usage (bs_remaining s) u of Inr b \<Rightarrow> s\<lparr>bs_remaining := b\<rparr> | Inl _ \<Rightarrow> s)"

lemma adjusts_env_sub: "adjusts s (env_sub u s)"
  by (auto simp: adjusts_def env_sub_def same_structure_def be_checked_sub_Inr split: sum.splits)

lemma adjusts_env_add: "adjusts s (env_add u s)"
  by (auto simp: adjusts_def env_add_def same_structure_def checked_add_usage_Inr split: sum.splits)

lemma bs_parent_env [simp]: "bs_parent (env_sub u s) = bs_parent s" "bs_parent (env_add u s) = bs_parent s"
  using adjusts_env_sub [of s u] adjusts_env_add [of s u] by (simp_all add: adjusts_def)

lemma debit_loop_ok:
  "bwf m \<Longrightarrow> distinct as \<Longrightarrow> (\<And>a. a \<in> set as \<Longrightarrow> \<exists>s. bget m a = Some s \<and> is_ok (be_checked_sub (bs_remaining s) u))
   \<Longrightarrow> debit_loop u as m = (Inr (), fold (\<lambda>k. bmodify k (env_sub u)) as m)"
proof (induction as arbitrary: m)
  case (Cons a as)
  obtain s b where s: "bget m a = Some s" "be_checked_sub (bs_remaining s) u = Inr b"
    using Cons.prems(3) [of a] by (auto elim: is_okE)
  have m1: "bmodify a (\<lambda>s. s\<lparr>bs_remaining := b\<rparr>) m = bmodify a (env_sub u) m"
    using s Cons.prems(1) by (intro bmodify_cong_at) (auto simp: env_sub_def)
  have "debit_loop u as (bmodify a (env_sub u) m)
      = (Inr (), fold (\<lambda>k. bmodify k (env_sub u)) as (bmodify a (env_sub u) m))"
    by (rule Cons.IH) (use Cons.prems in auto)
  with s m1 show ?case
    by simp
qed simp

lemma credit_loop_ok:
  "bwf m \<Longrightarrow> distinct as \<Longrightarrow> (\<And>a. a \<in> set as \<Longrightarrow> \<exists>s. bget m a = Some s \<and> is_ok (checked_add_usage (bs_remaining s) u))
   \<Longrightarrow> credit_loop u as m = (Inr (), fold (\<lambda>k. bmodify k (env_add u)) as m)"
proof (induction as arbitrary: m)
  case (Cons a as)
  obtain s b where s: "bget m a = Some s" "checked_add_usage (bs_remaining s) u = Inr b"
    using Cons.prems(3) [of a] by (auto elim: is_okE)
  have m1: "bmodify a (\<lambda>s. s\<lparr>bs_remaining := b\<rparr>) m = bmodify a (env_add u) m"
    using s Cons.prems(1) by (intro bmodify_cong_at) (auto simp: env_add_def)
  have "credit_loop u as (bmodify a (env_add u) m)
      = (Inr (), fold (\<lambda>k. bmodify k (env_add u)) as (bmodify a (env_add u) m))"
    by (rule Cons.IH) (use Cons.prems in auto)
  with s m1 show ?case
    by simp
qed simp

lemma env_sub_dim:
  "is_ok (be_checked_sub (bs_remaining s) u) \<Longrightarrow>
     unat (be_dim d (bs_remaining s)) = unat (be_dim d (bs_remaining (env_sub u s))) + unat (us_dim d u)"
  by (erule is_okE) (frule be_checked_sub_Inr [THEN iffD1], simp add: env_sub_def)

lemma env_add_dim:
  "is_ok (checked_add_usage (bs_remaining s) u) \<Longrightarrow>
     unat (be_dim d (bs_remaining (env_add u s))) = unat (be_dim d (bs_remaining s)) + unat (us_dim d u)"
  by (erule is_okE) (frule checked_add_usage_Inr [THEN iffD1], simp add: env_add_def)

section \<open>What is held\<close>

definition lineage_of :: "(string, budget_scope) bmap \<Rightarrow> string \<Rightarrow> string list" where
  "lineage_of scopes i = (case lineage_loop scopes (Some i) [] of Inr ps \<Rightarrow> ps | Inl _ \<Rightarrow> [])"

text \<open>What live reservations hold of a scope, in its own name or a descendant's.\<close>

definition outstanding ::
  "dim \<Rightarrow> (string, budget_scope) bmap \<Rightarrow> (string, reservation_record) bmap \<Rightarrow> string \<Rightarrow> nat"
where
  "outstanding d scopes res i =
     bsum (\<lambda>r. if i \<in> set (lineage_of scopes (rr_scope_id r)) then unat (us_dim d (reserved r)) else 0) res"

definition res_ok :: "(string, budget_scope) bmap \<Rightarrow> (string, reservation_record) bmap \<Rightarrow> bool" where
  "res_ok scopes res \<longleftrightarrow> bwf res \<and> bforall (\<lambda>k r. reservation_id r = k \<and> is_ok (validate_logical_id k)
     \<and> bcontains scopes (rr_scope_id r) \<and> \<not> us_is_zero (reserved r)) res"

definition held_ok :: "(string, budget_scope) bmap \<Rightarrow> (string, reservation_record) bmap \<Rightarrow> bool" where
  "held_ok scopes res \<longleftrightarrow>
     bforall (\<lambda>i s. \<forall>d. unat (be_dim d (bs_remaining s)) + outstanding d scopes res i < 2 ^ 64) scopes"

definition ll_inv :: "limit_ledger \<Rightarrow> bool" where
  "ll_inv l \<longleftrightarrow>
     scopes_ok (ll_scopes l) \<and> res_ok (ll_scopes l) (ll_reservations l)
     \<and> held_ok (ll_scopes l) (ll_reservations l)
     \<and> swf (ll_charge_ids l) \<and> (\<forall>i \<in> set (ll_charge_ids l). is_ok (validate_logical_id i))
     \<and> bwf (ll_loop_iterations l) \<and> bforall (\<lambda>_ n. n \<noteq> 0) (ll_loop_iterations l)"

lemma lineage_of_path: "tree_ok m \<Longrightarrow> lineage_path m i ps \<Longrightarrow> lineage_of m i = ps"
  by (simp add: lineage_of_def lineage_loop_path lineage_path_distinct)

lemma lineage_of_cong:
  assumes "tree_ok m" "tree_ok m'" "bcontains m i"
    and "\<And>k. k \<in> set (lineage_of m i) \<Longrightarrow> map_option bs_parent (bget m' k) = map_option bs_parent (bget m k)"
  shows "lineage_of m' i = lineage_of m i"
proof -
  obtain ps where ps: "lineage_path m i ps"
    using lineage_path_ex assms(1,3) by blast
  have "lineage_path m' i ps"
    by (rule lineage_path_cong [OF ps]) (use assms(4) lineage_of_path [OF assms(1) ps] in simp)
  with ps show ?thesis
    using assms(1,2) by (simp add: lineage_of_path)
qed

lemma outstanding_cong:
  assumes "tree_ok m" "tree_ok m'" "res_ok m res"
    and "\<And>x k. bexists (\<lambda>r. rr_scope_id r = x) res \<Longrightarrow> k \<in> set (lineage_of m x)
      \<Longrightarrow> map_option bs_parent (bget m' k) = map_option bs_parent (bget m k)"
  shows "outstanding d m' res i = outstanding d m res i"
  unfolding outstanding_def
proof (rule bsum_cong_values)
  fix k r assume r: "bget res k = Some r"
  have "lineage_of m' (rr_scope_id r) = lineage_of m (rr_scope_id r)"
  proof (rule lineage_of_cong [OF assms(1,2)])
    show "bcontains m (rr_scope_id r)"
      using assms(3) r by (auto simp: res_ok_def dest: bforallD)
    show "map_option bs_parent (bget m' k) = map_option bs_parent (bget m k)"
      if "k \<in> set (lineage_of m (rr_scope_id r))" for k
      using r that by (auto intro: assms(4) bexistsI)
  qed
  then show "(if i \<in> set (lineage_of m' (rr_scope_id r)) then unat (us_dim d (reserved r)) else 0)
      = (if i \<in> set (lineage_of m (rr_scope_id r)) then unat (us_dim d (reserved r)) else 0)"
    by simp
qed (use assms(3) in \<open>simp add: res_ok_def\<close>)

lemma outstanding_cong_parents:
  assumes "scopes_ok m" "scopes_ok m'" "res_ok m res"
    and "\<And>k. map_option bs_parent (bget m' k) = map_option bs_parent (bget m k)"
  shows "outstanding d m' res i = outstanding d m res i"
  using assms by (intro outstanding_cong) (auto simp: scopes_ok_def)

lemma outstanding_insert:
  "bget res k = None \<Longrightarrow> outstanding d m (binsert k r res) i =
     (if i \<in> set (lineage_of m (rr_scope_id r)) then unat (us_dim d (reserved r)) else 0)
     + outstanding d m res i"
  by (simp add: outstanding_def bsum_binsert_new)

lemma outstanding_remove:
  "bwf res \<Longrightarrow> bget res k = Some r \<Longrightarrow> outstanding d m res i =
     (if i \<in> set (lineage_of m (rr_scope_id r)) then unat (us_dim d (reserved r)) else 0)
     + outstanding d m (bremove k res) i"
  unfolding outstanding_def by (rule bsum_bremove)

section \<open>What the operations do\<close>

lemma ll_inv_lineage:
  assumes "ll_inv l" and "bcontains (ll_scopes l) i"
  obtains ps where "lineage_path (ll_scopes l) i ps" "scope_lineage l i = Inr ps"
    "lineage_of (ll_scopes l) i = ps" "distinct ps"
  using assms lineage_path_ex [of "ll_scopes l" i]
  by (auto simp: ll_inv_def scopes_ok_def scope_lineage_path lineage_of_path lineage_path_distinct)

lemma admit_ok:
  "is_ok (admit l u a) \<longleftrightarrow> (\<exists>s. bget (ll_scopes l) a = Some s
     \<and> ll_tick l < deadline_tick (bs_remaining s) \<and> is_ok (be_checked_sub (bs_remaining s) u))"
  by (auto simp: admit_def bind_r_def is_ok_def split: option.splits sum.splits)

lemma ll_reserve_cases:
  assumes inv: "ll_inv l" and op: "ll_reserve sid rid u l = (r, t)"
  obtains (error) e where "r = Inl e" "t = l"
  | (reserved) ps where "r = Inr ()" "lineage_path (ll_scopes l) sid ps" "lineage_of (ll_scopes l) sid = ps"
      "distinct ps" "is_ok (validate_logical_id rid)" "\<not> us_is_zero u"
      "bget (ll_reservations l) rid = None" "rid \<notin> set (ll_charge_ids l)"
      "\<And>a. a \<in> set ps \<Longrightarrow> \<exists>s. bget (ll_scopes l) a = Some s \<and> ll_tick l < deadline_tick (bs_remaining s)
         \<and> is_ok (be_checked_sub (bs_remaining s) u)"
      "t = l\<lparr>ll_scopes := fold (\<lambda>k. bmodify k (env_sub u)) ps (ll_scopes l),
             ll_reservations := binsert rid \<lparr>reservation_id = rid, rr_scope_id = sid, reserved = u\<rparr>
               (ll_reservations l)\<rparr>"
proof (cases "r = Inl (projl r)")
  case True
  show ?thesis
  proof (rule error [OF True])
    consider "bget (ll_scopes l) sid = None" | "bcontains (ll_scopes l) sid"
      by (auto simp: bcontains_def)
    then show "t = l"
    proof cases
      case 2
      then obtain ps where ps: "scope_lineage l sid = Inr ps" "distinct ps"
        using ll_inv_lineage [OF inv] by blast
      have "debit_loop u ps (ll_scopes l) = (Inr (), fold (\<lambda>k. bmodify k (env_sub u)) ps (ll_scopes l))"
        if "\<forall>a \<in> set ps. is_ok (admit l u a)"
        using that inv ps(2)
        by (intro debit_loop_ok) (auto simp: ll_inv_def scopes_ok_def admit_ok)
      with op ps True show ?thesis
        by (cases "validate_logical_id rid"; cases r)
          (auto simp: ll_reserve_def try_all_Inr_iff split: sum.splits if_splits prod.splits)
    qed (use op in \<open>auto simp: ll_reserve_def scope_lineage_unknown split: sum.splits if_splits\<close>)
  qed
next
  case False
  then have r: "r = Inr ()"
    by (cases r) auto
  have "bcontains (ll_scopes l) sid"
    using op r by (cases "bget (ll_scopes l) sid")
      (auto simp: ll_reserve_def scope_lineage_unknown bcontains_def split: sum.splits if_splits)
  then obtain ps where ps: "lineage_path (ll_scopes l) sid ps" "scope_lineage l sid = Inr ps"
    "lineage_of (ll_scopes l) sid = ps" "distinct ps"
    using ll_inv_lineage [OF inv] by blast
  have adm: "\<forall>a \<in> set ps. is_ok (admit l u a)"
    using op r ps by (auto simp: ll_reserve_def try_all_Inr_iff split: sum.splits if_splits prod.splits)
  then have each: "\<exists>s. bget (ll_scopes l) a = Some s \<and> ll_tick l < deadline_tick (bs_remaining s)
       \<and> is_ok (be_checked_sub (bs_remaining s) u)" if "a \<in> set ps" for a
    using that by (auto simp: admit_ok)
  then have deb: "debit_loop u ps (ll_scopes l) = (Inr (), fold (\<lambda>k. bmodify k (env_sub u)) ps (ll_scopes l))"
    using inv ps(4) by (intro debit_loop_ok) (auto simp: ll_inv_def scopes_ok_def)
  show ?thesis
    by (rule reserved [OF r ps(1,3,4) _ _ _ _ each])
      (use op r ps deb in \<open>auto simp: ll_reserve_def bcontains_def split: sum.splits if_splits\<close>)
qed

lemma binsert_bremove: "bwf m \<Longrightarrow> bget m k = Some v \<Longrightarrow> binsert k v (bremove k m) = m"
  by (rule bwf_ext) auto

text \<open>Settling a reservation: its record goes, and part of it returns to the whole chain.\<close>

definition settled :: "string \<Rightarrow> reservation_record \<Rightarrow> usage \<Rightarrow> limit_ledger \<Rightarrow> limit_ledger" where
  "settled rid r back l = l\<lparr>ll_reservations := bremove rid (ll_reservations l),
     ll_scopes := fold (\<lambda>k. bmodify k (env_add back)) (lineage_of (ll_scopes l) (rr_scope_id r)) (ll_scopes l)\<rparr>"

lemma credit_lineage:
  assumes inv: "ll_inv l" and r: "bget (ll_reservations l) rid = Some r"
    and le: "\<And>d. unat (us_dim d back) \<le> unat (us_dim d (reserved r))"
  shows "credit_loop back (lineage_of (ll_scopes l) (rr_scope_id r)) (ll_scopes l)
      = (Inr (), fold (\<lambda>k. bmodify k (env_add back)) (lineage_of (ll_scopes l) (rr_scope_id r)) (ll_scopes l))"
    and "\<And>a. a \<in> set (lineage_of (ll_scopes l) (rr_scope_id r)) \<Longrightarrow>
      \<exists>s. bget (ll_scopes l) a = Some s \<and> is_ok (checked_add_usage (bs_remaining s) back)"
    and "scope_lineage l (rr_scope_id r) = Inr (lineage_of (ll_scopes l) (rr_scope_id r))"
    and "distinct (lineage_of (ll_scopes l) (rr_scope_id r))"
proof -
  have "bcontains (ll_scopes l) (rr_scope_id r)"
    using inv r by (auto simp: ll_inv_def res_ok_def dest: bforallD)
  then obtain ps where ps: "lineage_path (ll_scopes l) (rr_scope_id r) ps"
      "scope_lineage l (rr_scope_id r) = Inr ps" "lineage_of (ll_scopes l) (rr_scope_id r) = ps" "distinct ps"
    using ll_inv_lineage [OF inv] by blast
  have wf: "bwf (ll_reservations l)" "bwf (ll_scopes l)"
    using inv by (auto simp: ll_inv_def res_ok_def scopes_ok_def)
  show each: "\<exists>s. bget (ll_scopes l) a = Some s \<and> is_ok (checked_add_usage (bs_remaining s) back)"
    if mem: "a \<in> set (lineage_of (ll_scopes l) (rr_scope_id r))" for a
  proof -
    obtain s where s: "bget (ll_scopes l) a = Some s"
      using lineage_path_keys [OF ps(1), of a] mem ps(3) by (auto simp: bcontains_def)
    have "unat (be_dim d (bs_remaining s)) + unat (us_dim d back) < 2 ^ 64" for d
    proof -
      have "unat (us_dim d (reserved r)) \<le> outstanding d (ll_scopes l) (ll_reservations l) a"
        using outstanding_remove [OF wf(1) r, of d "ll_scopes l" a] mem by simp
      moreover have "unat (be_dim d (bs_remaining s)) + outstanding d (ll_scopes l) (ll_reservations l) a < 2 ^ 64"
        using inv s by (auto simp: ll_inv_def held_ok_def dest: bforallD)
      ultimately show ?thesis
        using le [of d] by linarith
    qed
    with s show ?thesis
      by (simp add: checked_add_usage_ok)
  qed
  show "credit_loop back (lineage_of (ll_scopes l) (rr_scope_id r)) (ll_scopes l)
      = (Inr (), fold (\<lambda>k. bmodify k (env_add back)) (lineage_of (ll_scopes l) (rr_scope_id r)) (ll_scopes l))"
    using wf ps each by (intro credit_loop_ok) auto
  show "scope_lineage l (rr_scope_id r) = Inr (lineage_of (ll_scopes l) (rr_scope_id r))"
    "distinct (lineage_of (ll_scopes l) (rr_scope_id r))"
    using ps by simp_all
qed

lemma ll_release_known:
  assumes "ll_inv l" and "bget (ll_reservations l) rid = Some r"
  shows "ll_release rid l = (Inr (), settled rid r (reserved r) l)"
  using credit_lineage [OF assms, of "reserved r"] assms(2)
  by (simp add: ll_release_def settled_def scope_lineage_def Let_def)

lemma ll_charge_known:
  assumes "ll_inv l" and "bget (ll_reservations l) rid = Some r" and "is_ok (validate_logical_id cid)"
    and "cid \<notin> set (ll_charge_ids l)" and "us_contains (reserved r) actual"
  shows "\<exists>unused. us_checked_sub (reserved r) actual = Inr unused \<and>
    ll_charge rid cid actual l = (Inr (),
      (settled rid r unused l)\<lparr>ll_charge_ids := sinsert cid (ll_charge_ids l)\<rparr>)"
proof -
  obtain unused where un: "us_checked_sub (reserved r) actual = Inr unused"
    using assms(5) us_checked_sub_ok [of "reserved r" actual] by (auto elim: is_okE)
  then have "unat (us_dim d unused) \<le> unat (us_dim d (reserved r))" for d
    by (simp add: us_checked_sub_Inr)
  note credit = credit_lineage [OF assms(1,2) this]
  show ?thesis
    using assms(2-5) un credit
    by (auto simp: ll_charge_def settled_def scope_lineage_def Let_def elim!: is_okE)
qed

lemma ll_charge_cases:
  assumes inv: "ll_inv l" and op: "ll_charge rid cid actual l = (r, t)"
  obtains (error) e where "r = Inl e" "t = l"
  | (repeated) "r = Inr ()" "t = l" "cid \<in> set (ll_charge_ids l)"
  | (charged) rec unused where "r = Inr ()" "bget (ll_reservations l) rid = Some rec"
      "cid \<notin> set (ll_charge_ids l)" "is_ok (validate_logical_id cid)"
      "us_checked_sub (reserved rec) actual = Inr unused"
      "t = (settled rid rec unused l)\<lparr>ll_charge_ids := sinsert cid (ll_charge_ids l)\<rparr>"
proof (cases "is_ok (validate_logical_id cid) \<and> cid \<notin> set (ll_charge_ids l)
    \<and> (\<exists>rec. bget (ll_reservations l) rid = Some rec \<and> us_contains (reserved rec) actual)")
  case True
  then show ?thesis
    using ll_charge_known [OF inv] op charged by fastforce
next
  case False
  have "reservation_id rec = rid \<and> binsert rid rec (bremove rid (ll_reservations l)) = ll_reservations l"
    if "bget (ll_reservations l) rid = Some rec" for rec
    using inv that by (auto simp: ll_inv_def res_ok_def binsert_bremove dest: bforallD)
  with False op have "(\<exists>e. r = Inl e \<and> t = l) \<or> r = Inr () \<and> t = l \<and> cid \<in> set (ll_charge_ids l)"
    by (cases "validate_logical_id cid"; cases r)
      (auto simp: ll_charge_def Let_def split: if_splits option.splits)
  then show ?thesis
    using error repeated by blast
qed

section \<open>Conservation\<close>

text \<open>What a scope still has plus what live reservations hold of it.\<close>

definition held :: "dim \<Rightarrow> limit_ledger \<Rightarrow> string \<Rightarrow> nat" where
  "held d l i = (case bget (ll_scopes l) i of None \<Rightarrow> 0
     | Some s \<Rightarrow> unat (be_dim d (bs_remaining s)) + outstanding d (ll_scopes l) (ll_reservations l) i)"

lemma held_ok_held: "held_ok (ll_scopes l) (ll_reservations l) \<longleftrightarrow> (\<forall>d i. held d l i < 2 ^ 64)"
proof
  assume ok: "held_ok (ll_scopes l) (ll_reservations l)"
  have "held d l i < 2 ^ 64" for d i
    using bforallD [OF ok [unfolded held_ok_def], of i]
    by (cases "bget (ll_scopes l) i") (auto simp: held_def)
  then show "\<forall>d i. held d l i < 2 ^ 64"
    by blast
next
  assume held: "\<forall>d i. held d l i < 2 ^ 64"
  show "held_ok (ll_scopes l) (ll_reservations l)"
    unfolding held_ok_def
  proof (intro bforallI allI)
    fix i s d
    assume s: "bget (ll_scopes l) i = Some s"
    show "unat (be_dim d (bs_remaining s)) + outstanding d (ll_scopes l) (ll_reservations l) i < 2 ^ 64"
      using held [rule_format, of d i] unfolding held_def s by (simp only: option.case)
  qed
qed

lemma held_cong:
  "map_option (\<lambda>s. be_dim d (bs_remaining s)) (bget (ll_scopes t) i)
     = map_option (\<lambda>s. be_dim d (bs_remaining s)) (bget (ll_scopes l) i) \<Longrightarrow>
   outstanding d (ll_scopes t) (ll_reservations t) i = outstanding d (ll_scopes l) (ll_reservations l) i \<Longrightarrow>
   held d t i = held d l i"
  by (cases "bget (ll_scopes t) i"; cases "bget (ll_scopes l) i") (simp_all add: held_def)

lemma fold_parent_same:
  assumes "distinct ps" and "\<And>s. bs_parent (g s) = bs_parent s"
  shows "map_option bs_parent (bget (fold (\<lambda>k. bmodify k g) ps m) k) = map_option bs_parent (bget m k)"
  using assms by (simp add: bget_fold_bmodify option.map_comp comp_def)

lemma bcontains_fold_bmodify [simp]:
  fixes m :: "('k::linorder, 'v) bmap"
  shows "bcontains (fold (\<lambda>k. bmodify k g) ps m) k \<longleftrightarrow> bcontains m k"
  by (induction ps arbitrary: m) simp_all

lemma res_ok_cong: "(\<And>k. bcontains m' k \<longleftrightarrow> bcontains m k) \<Longrightarrow> res_ok m' res \<longleftrightarrow> res_ok m res"
  by (simp add: res_ok_def)

lemma res_ok_bremove: "res_ok m res \<Longrightarrow> res_ok m (bremove k res)"
  by (auto simp: res_ok_def bforall_def)

lemma ll_inv_reserve:
  assumes inv: "ll_inv l" and op: "ll_reserve sid rid u l = (r, t)"
  shows "ll_inv t \<and> held d t i = held d l i"
  using inv op
proof (cases rule: ll_reserve_cases)
  case (reserved ps)
  define m where "m = fold (\<lambda>k. bmodify k (env_sub u)) ps (ll_scopes l)"
  define rec where "rec = \<lparr>reservation_id = rid, rr_scope_id = sid, reserved = u\<rparr>"
  have sok: "scopes_ok (ll_scopes l)" and rok: "res_ok (ll_scopes l) (ll_reservations l)"
    using inv by (auto simp: ll_inv_def)
  have mok: "scopes_ok m"
    unfolding m_def by (rule scopes_ok_fold_bmodify [OF sok adjusts_env_sub])
  have par: "map_option bs_parent (bget m k) = map_option bs_parent (bget (ll_scopes l) k)" for k
    unfolding m_def by (rule fold_parent_same [OF reserved(4)]) simp
  have sid: "bcontains (ll_scopes l) sid"
    using lineage_path_keys [OF reserved(2) lineage_path_self [OF reserved(2)]] .
  have lin: "lineage_of m sid = ps"
    using lineage_of_cong [of "ll_scopes l" m sid] sok mok sid par reserved(3) by (simp add: scopes_ok_def)
  have rok': "res_ok m (binsert rid rec (ll_reservations l))"
    using rok sid reserved(5,6) by (simp add: res_ok_def rec_def m_def bforall_def)
  have out: "outstanding d m (binsert rid rec (ll_reservations l)) i
      = (if i \<in> set ps then unat (us_dim d u) else 0) + outstanding d (ll_scopes l) (ll_reservations l) i" for d i
    using reserved(7) outstanding_cong_parents [OF sok mok rok par]
    by (simp add: outstanding_insert rec_def lin)
  have t: "t = l\<lparr>ll_scopes := m, ll_reservations := binsert rid rec (ll_reservations l)\<rparr>"
    using reserved(10) by (simp add: m_def rec_def)
  have held: "held d t i = held d l i" for d i
  proof (cases "i \<in> set ps")
    case True
    then obtain s where s: "bget (ll_scopes l) i = Some s" "is_ok (be_checked_sub (bs_remaining s) u)"
      using reserved(9) by blast
    then have "bget m i = Some (env_sub u s)"
      using True reserved(4) by (simp add: m_def bget_fold_bmodify)
    with s True out [of d i] env_sub_dim [OF s(2), of d] show ?thesis
      by (simp add: held_def t)
  next
    case False
    then have "bget m i = bget (ll_scopes l) i"
      using reserved(4) by (simp add: m_def bget_fold_bmodify)
    with False out [of d i] show ?thesis
      by (simp add: held_def t split: option.splits)
  qed
  have "held_ok (ll_scopes t) (ll_reservations t)"
    using inv unfolding held_ok_held ll_inv_def by (simp add: held)
  with inv mok rok' held show ?thesis
    by (simp add: ll_inv_def t)
qed (use inv in simp)

lemma ll_inv_settled:
  assumes inv: "ll_inv l" and r: "bget (ll_reservations l) rid = Some r"
    and le: "\<And>d. unat (us_dim d (reserved r)) = unat (us_dim d back) + unat (us_dim d spent)"
  shows "ll_inv (settled rid r back l)"
    and "held d (settled rid r back l) i
      + (if i \<in> set (lineage_of (ll_scopes l) (rr_scope_id r)) then unat (us_dim d spent) else 0) = held d l i"
proof -
  define ps where "ps = lineage_of (ll_scopes l) (rr_scope_id r)"
  define m where "m = fold (\<lambda>k. bmodify k (env_add back)) ps (ll_scopes l)"
  have "unat (us_dim d back) \<le> unat (us_dim d (reserved r))" for d
    using le [of d] by simp
  note credit = credit_lineage [OF inv r this, folded ps_def]
  have sok: "scopes_ok (ll_scopes l)" and rok: "res_ok (ll_scopes l) (ll_reservations l)"
    and wf: "bwf (ll_reservations l)"
    using inv by (auto simp: ll_inv_def res_ok_def)
  have mok: "scopes_ok m"
    unfolding m_def by (rule scopes_ok_fold_bmodify [OF sok adjusts_env_add])
  have par: "map_option bs_parent (bget m k) = map_option bs_parent (bget (ll_scopes l) k)" for k
    unfolding m_def by (rule fold_parent_same [OF credit(4)]) simp
  have rok': "res_ok (ll_scopes l) (bremove rid (ll_reservations l))" "res_ok m (bremove rid (ll_reservations l))"
    using res_ok_bremove [OF rok] res_ok_cong [of m "ll_scopes l"] by (simp_all add: m_def)
  have out: "outstanding d (ll_scopes l) (ll_reservations l) i =
      (if i \<in> set ps then unat (us_dim d (reserved r)) else 0)
      + outstanding d m (bremove rid (ll_reservations l)) i" for d i
    using outstanding_remove [OF wf r, of d "ll_scopes l" i] outstanding_cong_parents [OF sok mok rok'(1) par]
    by (simp add: ps_def)
  have t: "settled rid r back l = l\<lparr>ll_reservations := bremove rid (ll_reservations l), ll_scopes := m\<rparr>"
    by (simp add: settled_def m_def ps_def)
  show held: "held d (settled rid r back l) i
      + (if i \<in> set (lineage_of (ll_scopes l) (rr_scope_id r)) then unat (us_dim d spent) else 0) = held d l i" for d i
  proof (cases "i \<in> set ps")
    case True
    then obtain s where s: "bget (ll_scopes l) i = Some s" "is_ok (checked_add_usage (bs_remaining s) back)"
      using credit(2) by blast
    then have "bget m i = Some (env_add back s)"
      using True credit(4) by (simp add: m_def bget_fold_bmodify)
    with s True out [of d i] env_add_dim [OF s(2), of d] le [of d] show ?thesis
      by (simp add: held_def t flip: ps_def)
  next
    case False
    then have "bget m i = bget (ll_scopes l) i"
      using credit(4) by (simp add: m_def bget_fold_bmodify)
    with False out [of d i] show ?thesis
      by (simp add: held_def t flip: ps_def split: option.splits)
  qed
  have "held d (settled rid r back l) i < 2 ^ 64" for d i
    using inv held [of d i] unfolding ll_inv_def held_ok_held by (metis add_lessD1)
  then have "held_ok (ll_scopes (settled rid r back l)) (ll_reservations (settled rid r back l))"
    unfolding held_ok_held by blast
  with inv mok rok' show "ll_inv (settled rid r back l)"
    by (simp add: ll_inv_def t)
qed

lemma ll_inv_charge:
  assumes inv: "ll_inv l" and op: "ll_charge rid cid actual l = (r, t)"
  shows "ll_inv t"
  using inv op
proof (cases rule: ll_charge_cases)
  case (charged rec unused)
  then have "ll_inv (settled rid rec unused l)"
    using inv by (intro ll_inv_settled(1) [where spent = actual]) (simp_all add: us_checked_sub_Inr)
  moreover have "ll_charge_ids (settled rid rec unused l) = ll_charge_ids l"
    by (simp add: settled_def)
  ultimately show ?thesis
    using charged(4) inv unfolding charged(6) by (auto simp: ll_inv_def)
qed (use inv in simp_all)

lemma ll_inv_release:
  assumes inv: "ll_inv l" and op: "ll_release rid l = (r, t)"
  shows "ll_inv t \<and> held d t i = held d l i"
proof (cases "bget (ll_reservations l) rid")
  case None
  with inv op show ?thesis
    by (simp add: ll_release_def)
next
  case (Some rec)
  define z :: usage where "z = \<lparr>us_turns = 0, us_attempts = 0, us_tool_calls = 0, us_tokens = 0,
    us_cost_micros = 0, us_actions = 0\<rparr>"
  have "us_dim d z = 0" for d
    by (cases d) (simp_all add: z_def)
  then show ?thesis
    using ll_inv_settled(1) [OF inv Some, of "reserved rec" z]
      ll_inv_settled(2) [OF inv Some, of "reserved rec" z d i] ll_release_known [OF inv Some] op
    by (simp split: if_splits)
qed

lemma u64_bound: "unat (w :: u64) < 2 ^ 64"
  using unsigned_less [of w] by simp

lemma component_min_deadline: "deadline_tick (component_min a b) \<le> deadline_tick b"
  by (simp add: component_min_def)

lemma ll_inv_create_child:
  assumes inv: "ll_inv l" and op: "create_child c p conf l = (r, t)"
  shows "ll_inv t \<and> (bcontains (ll_scopes l) i \<longrightarrow> held d t i = held d l i)"
proof (cases "t = l")
  case False
  with op obtain ps depth where ok: "is_ok (validate_logical_id c)" "bget (ll_scopes l) c = None"
      "bget (ll_scopes l) p = Some ps" "checked_add (bs_depth ps) 1 = Some depth"
      "depth \<le> max_depth (bs_remaining ps)" "bs_active_children ps < max_fan_out (bs_remaining ps)"
    and t: "t = l\<lparr>ll_scopes := binsert c \<lparr>bs_parent = Some p, bs_depth = depth,
           bs_remaining = component_min conf (bs_remaining ps), bs_active_children = 0, bs_active_parallel = 0\<rparr>
         (bmodify p (\<lambda>s. s\<lparr>bs_active_children := bs_active_children s + 1\<rparr>) (ll_scopes l))\<rparr>"
    by (auto simp: create_child_def bcontains_def not_less not_le split: sum.splits if_splits option.splits)
  have sok: "scopes_ok (ll_scopes l)" and rok: "res_ok (ll_scopes l) (ll_reservations l)"
    using inv by (auto simp: ll_inv_def)
  have tok: "scopes_ok (ll_scopes t)"
    using scopes_ok_create [OF sok ok(2,1,3), of "\<lparr>bs_parent = Some p, bs_depth = depth,
        bs_remaining = component_min conf (bs_remaining ps), bs_active_children = 0, bs_active_parallel = 0\<rparr>"] ok(4-)
    by (simp add: t component_min_deadline checked_add_Some)
  have rok': "res_ok (ll_scopes t) (ll_reservations t)"
    using rok by (auto simp: t res_ok_def elim!: bforall_mono)
  have par: "map_option bs_parent (bget (ll_scopes t) k) = map_option bs_parent (bget (ll_scopes l) k)"
    if "bcontains (ll_scopes l) k" for k
    using that ok(2) by (auto simp: t bcontains_def)
  have lin: "bcontains (ll_scopes l) k" if "k \<in> set (lineage_of (ll_scopes l) x)" for k x
  proof -
    have "bcontains (ll_scopes l) x"
      using that by (auto simp: lineage_of_def lineage_loop.simps bcontains_def split: option.splits)
    then show ?thesis
      using ll_inv_lineage [OF inv] lineage_path_keys that by metis
  qed
  have out: "outstanding d (ll_scopes t) (ll_reservations l) i = outstanding d (ll_scopes l) (ll_reservations l) i" for d i
    using sok tok by (intro outstanding_cong [OF _ _ rok] par lin) (auto simp: scopes_ok_def)
  have "c \<notin> set (lineage_of (ll_scopes l) x)" for x
    using lin [of c x] ok(2) by (auto simp: bcontains_def)
  then have new: "outstanding d (ll_scopes l) (ll_reservations l) c = 0" for d
    by (simp add: outstanding_def bsum_def)
  have held: "held d t i = (if i = c then unat (be_dim d (component_min conf (bs_remaining ps))) else held d l i)" for d i
  proof (cases "i = c")
    case True
    have "bget (ll_scopes t) c = Some \<lparr>bs_parent = Some p, bs_depth = depth,
        bs_remaining = component_min conf (bs_remaining ps), bs_active_children = 0, bs_active_parallel = 0\<rparr>"
      and "ll_reservations t = ll_reservations l"
      by (simp_all add: t)
    with True out [of d c] new [of d] show ?thesis
      by (simp add: held_def)
  next
    case False
    have "held d t i = held d l i"
    proof (rule held_cong)
      show "map_option (\<lambda>s. be_dim d (bs_remaining s)) (bget (ll_scopes t) i)
          = map_option (\<lambda>s. be_dim d (bs_remaining s)) (bget (ll_scopes l) i)"
        using False by (cases "bget (ll_scopes l) i") (auto simp: t)
    qed (use out [of d i] in \<open>simp add: t\<close>)
    with False show ?thesis
      by simp
  qed
  have "held d t i < 2 ^ 64" for d i
    using inv u64_bound unfolding held ll_inv_def held_ok_held by simp
  then have "held_ok (ll_scopes t) (ll_reservations t)"
    unfolding held_ok_held by blast
  with inv tok rok' held ok(2) show ?thesis
    by (auto simp: ll_inv_def t bcontains_def)
qed (use inv in simp)

lemma ll_inv_close_child:
  assumes inv: "ll_inv l" and op: "close_child c l = (r, t)"
  shows "ll_inv t \<and> (bcontains (ll_scopes t) i \<longrightarrow> held d t i = held d l i)"
proof (cases "can_close_child l c")
  case (Inr u)
  have sok: "scopes_ok (ll_scopes l)" and rok: "res_ok (ll_scopes l) (ll_reservations l)"
    and wf: "bwf (ll_scopes l)" "bwf (ll_reservations l)"
    using inv by (auto simp: ll_inv_def scopes_ok_def res_ok_def)
  from Inr obtain s p where s: "bget (ll_scopes l) c = Some s" "bs_parent s = Some p"
    and leaf: "bforall (\<lambda>_ x. bs_parent x \<noteq> Some c) (ll_scopes l)"
    and unused: "bforall (\<lambda>_ r. rr_scope_id r \<noteq> c) (ll_reservations l)"
    using wf by (auto simp: can_close_child_def bforall_entries split: option.splits if_splits)
  note close = scopes_ok_close [OF sok s leaf]
  have t: "t = l\<lparr>ll_scopes := bmodify p (\<lambda>s. s\<lparr>bs_active_children := saturating_sub (bs_active_children s) 1\<rparr>)
      (bremove c (ll_scopes l))\<rparr>"
    using op Inr s close(2) by (simp add: close_child_def)
  have rok': "res_ok (ll_scopes t) (ll_reservations l)"
    using rok unused by (auto simp: t res_ok_def bforall_def)
  have tok: "scopes_ok (ll_scopes t)"
    using close(1) by (simp add: t)
  have par: "map_option bs_parent (bget (ll_scopes t) k) = map_option bs_parent (bget (ll_scopes l) k)"
    if "k \<noteq> c" for k
    using that by (cases "bget (ll_scopes l) k") (auto simp: t)
  have lin: "k \<noteq> c" if "bexists (\<lambda>r. rr_scope_id r = x) (ll_reservations l)"
      "k \<in> set (lineage_of (ll_scopes l) x)" for x k
  proof -
    have "x \<noteq> c" "bcontains (ll_scopes l) x"
      using that(1) unused rok by (auto simp: bexists_def res_ok_def dest: bforallD)
    then show ?thesis
      using ll_inv_lineage [OF inv, of x] lineage_path_avoid [OF _ leaf] that(2) by metis
  qed
  have out: "outstanding d (ll_scopes t) (ll_reservations l) i = outstanding d (ll_scopes l) (ll_reservations l) i" for d i
    using sok tok by (intro outstanding_cong [OF _ _ rok] par lin) (auto simp: scopes_ok_def)
  have "c \<noteq> p"
    using bforallD [OF leaf s(1)] s(2) by auto
  have held: "held d t i = (if i = c then 0 else held d l i)" for d i
  proof (cases "i = c")
    case True
    with \<open>c \<noteq> p\<close> show ?thesis
      by (simp add: held_def t)
  next
    case False
    have "held d t i = held d l i"
    proof (rule held_cong)
      show "map_option (\<lambda>s. be_dim d (bs_remaining s)) (bget (ll_scopes t) i)
          = map_option (\<lambda>s. be_dim d (bs_remaining s)) (bget (ll_scopes l) i)"
        using False by (cases "bget (ll_scopes l) i") (auto simp: t)
    qed (use out [of d i] in \<open>simp add: t\<close>)
    with False show ?thesis
      by simp
  qed
  have "held d t i < 2 ^ 64" for d i
    using inv unfolding held ll_inv_def held_ok_held by simp
  then have "held_ok (ll_scopes t) (ll_reservations t)"
    unfolding held_ok_held by blast
  with inv tok rok' held show ?thesis
    by (auto simp: ll_inv_def t)
qed (use inv op in \<open>simp add: close_child_def\<close>)

text \<open>Writes that touch neither the tree nor any consumable dimension.\<close>

lemma ll_inv_adjust:
  assumes inv: "ll_inv l" and adj: "\<And>s. bget (ll_scopes l) k = Some s \<Longrightarrow> adjusts s (g s) \<and> bs_remaining (g s) = bs_remaining s"
  shows "ll_inv (l\<lparr>ll_scopes := bmodify k g (ll_scopes l)\<rparr>)
    \<and> held d (l\<lparr>ll_scopes := bmodify k g (ll_scopes l)\<rparr>) i = held d l i"
proof -
  define t where "t = l\<lparr>ll_scopes := bmodify k g (ll_scopes l)\<rparr>"
  have sok: "scopes_ok (ll_scopes l)" and rok: "res_ok (ll_scopes l) (ll_reservations l)"
    using inv by (auto simp: ll_inv_def)
  have tok: "scopes_ok (ll_scopes t)"
    using scopes_ok_bmodify [OF sok] adj by (simp add: t_def)
  have par: "map_option bs_parent (bget (ll_scopes t) x) = map_option bs_parent (bget (ll_scopes l) x)" for x
    using adj by (cases "bget (ll_scopes l) x") (auto simp: t_def adjusts_def)
  have out: "outstanding d (ll_scopes t) (ll_reservations l) i = outstanding d (ll_scopes l) (ll_reservations l) i" for d i
    by (rule outstanding_cong_parents [OF sok tok rok par])
  have held: "held d t i = held d l i" for d i
  proof (rule held_cong)
    show "map_option (\<lambda>s. be_dim d (bs_remaining s)) (bget (ll_scopes t) i)
        = map_option (\<lambda>s. be_dim d (bs_remaining s)) (bget (ll_scopes l) i)"
      using adj by (cases "bget (ll_scopes l) i") (auto simp: t_def)
  qed (use out [of d i] in \<open>simp add: t_def\<close>)
  have "held_ok (ll_scopes t) (ll_reservations t)"
    using inv unfolding ll_inv_def held_ok_held held by blast
  moreover have "res_ok (ll_scopes t) (ll_reservations t)"
    using rok by (simp add: t_def res_ok_def)
  ultimately show ?thesis
    using inv tok held by (fold t_def) (simp add: ll_inv_def, simp add: t_def)
qed

lemma ll_inv_enter_parallel:
  assumes "ll_inv l" and "enter_parallel k l = (r, t)"
  shows "ll_inv t \<and> held d t i = held d l i"
proof (cases "t = l")
  case False
  with assms(2) obtain s where s: "bget (ll_scopes l) k = Some s"
      "bs_active_parallel s < max_parallel (bs_remaining s)"
    and t: "t = l\<lparr>ll_scopes := bmodify k (\<lambda>s. s\<lparr>bs_active_parallel := bs_active_parallel s + 1\<rparr>) (ll_scopes l)\<rparr>"
    by (auto simp: enter_parallel_def scope_before_deadline_def not_le split: sum.splits option.splits if_splits)
  show ?thesis
    unfolding t by (rule ll_inv_adjust [OF assms(1)])
      (use s in \<open>auto simp: adjusts_def same_structure_def word_add_1_le\<close>)
qed (use assms in simp)

lemma ll_inv_leave_parallel:
  assumes "ll_inv l" and "leave_parallel k l = (r, t)"
  shows "ll_inv t \<and> held d t i = held d l i"
proof (cases "t = l")
  case False
  with assms(2) have t: "t = l\<lparr>ll_scopes := bmodify k
      (\<lambda>s. s\<lparr>bs_active_parallel := saturating_sub (bs_active_parallel s) 1\<rparr>) (ll_scopes l)\<rparr>"
    by (auto simp: leave_parallel_def split: if_splits)
  show ?thesis
    unfolding t by (rule ll_inv_adjust [OF assms(1)])
      (auto simp: adjusts_def same_structure_def word_le_nat_alt unat_saturating_sub)
qed (use assms in simp)

lemma ll_inv_next_loop_iteration:
  assumes "ll_inv l" and "next_loop_iteration k lp mx l = (r, t)"
  shows "ll_inv t \<and> held d t i = held d l i"
proof (cases "t = l")
  case False
  with assms(2) obtain n c where "checked_add c 1 = Some n"
    and t: "t = l\<lparr>ll_loop_iterations := binsert (loop_key k lp) n (ll_loop_iterations l)\<rparr>"
    by (auto simp: next_loop_iteration_def Let_def split: sum.splits option.splits if_splits)
  then have "n \<noteq> 0"
    by (auto simp: checked_add_Some)
  with assms(1) show ?thesis
    by (auto simp: ll_inv_def held_def t bforall_def cong: option.case_cong)
qed (use assms in simp)

lemma ll_inv_advance_to:
  assumes "ll_inv l" and "advance_to n l = (r, t)"
  shows "ll_inv t \<and> held d t i = held d l i"
  using assms by (auto simp: advance_to_def Let_def ll_inv_def held_def cong: option.case_cong split: if_splits)

section \<open>Restoring a checkpoint\<close>

text \<open>The deadlines of a ledger, moved to a new clock with the remaining durations kept.\<close>

definition shift_scope :: "u64 \<Rightarrow> u64 \<Rightarrow> budget_scope \<Rightarrow> budget_scope" where
  "shift_scope tick new_tick s = s\<lparr>bs_remaining := (bs_remaining s)
     \<lparr>deadline_tick := new_tick + saturating_sub (deadline_tick (bs_remaining s)) tick\<rparr>\<rparr>"

definition ll_shift :: "u64 \<Rightarrow> limit_ledger \<Rightarrow> limit_ledger" where
  "ll_shift new_tick l = l\<lparr>ll_tick := new_tick,
     ll_scopes := bmap_values (shift_scope (ll_tick l) new_tick) (ll_scopes l)\<rparr>"

definition clock_ok :: "u64 \<Rightarrow> limit_ledger \<Rightarrow> bool" where
  "clock_ok new_tick l \<longleftrightarrow> bforall (\<lambda>_ s. ll_tick l < deadline_tick (bs_remaining s)
     \<and> unat new_tick + (unat (deadline_tick (bs_remaining s)) - unat (ll_tick l)) < 2 ^ 64) (ll_scopes l)"

definition ids_ok :: "limit_ledger \<Rightarrow> bool" where
  "ids_ok l \<longleftrightarrow> (\<forall>i \<in> set (ll_charge_ids l). \<not> bcontains (ll_reservations l) i)
     \<and> (\<forall>e \<in> set (ll_loop_iterations l). loop_entry_ok (ll_scopes l) e)"

lemma try_map_err: "x \<in> set xs \<Longrightarrow> f x = Inl e \<Longrightarrow> \<exists>e. try_map f xs = Inl e"
  by (induction xs) (auto split: sum.splits)

lemma try_all_err: "x \<in> set xs \<Longrightarrow> f x = Inl e \<Longrightarrow> \<exists>e. try_all f xs = Inl e"
  by (induction xs) (auto split: sum.splits)

lemma try_all_ok: "(\<And>x. x \<in> set xs \<Longrightarrow> f x = Inr ()) \<Longrightarrow> try_all f xs = Inr ()"
  by (induction xs) auto

lemma restore_scope_checkpoint:
  assumes "is_ok (validate_logical_id k)"
  shows "restore_scope t (scope_checkpoint tick k s) =
    (if unat t + (unat (deadline_tick (bs_remaining s)) - unat tick) < 2 ^ 64
     then Inr (k, shift_scope tick t s) else Inl LimitOverflow)"
  using assms
  by (cases s; cases "bs_remaining s")
    (auto simp: restore_scope_def scope_checkpoint_def shift_scope_def checked_add_def
       unat_saturating_sub elim!: is_okE)

lemma restore_reservations_ok:
  "(\<And>r. r \<in> set rs \<Longrightarrow> is_ok (validate_logical_id (reservation_id r)) \<and> bcontains m (rr_scope_id r)
      \<and> \<not> us_is_zero (reserved r) \<and> \<not> bcontains acc (reservation_id r))
   \<Longrightarrow> distinct (map reservation_id rs)
   \<Longrightarrow> restore_reservations m rs acc = Inr (fold (\<lambda>r. binsert (reservation_id r) r) rs acc)"
proof (induction rs arbitrary: acc)
  case (Cons r rs)
  have "restore_reservations m rs (binsert (reservation_id r) r acc)
      = Inr (fold (\<lambda>r. binsert (reservation_id r) r) rs (binsert (reservation_id r) r acc))"
  proof (rule Cons.IH)
    fix r' assume "r' \<in> set rs"
    moreover from this have "reservation_id r' \<noteq> reservation_id r"
      using Cons.prems(2) by (metis distinct.simps(2) imageI list.simps(9) set_map)
    ultimately show "is_ok (validate_logical_id (reservation_id r')) \<and> bcontains m (rr_scope_id r')
        \<and> \<not> us_is_zero (reserved r') \<and> \<not> bcontains (binsert (reservation_id r) r acc) (reservation_id r')"
      using Cons.prems(1) by simp
  qed (use Cons.prems(2) in simp)
  with Cons.prems(1) [of r] show ?case
    by (auto elim: is_okE)
qed simp

lemma shift_scope_simps [simp]:
  "bs_parent (shift_scope tick t s) = bs_parent s" "bs_depth (shift_scope tick t s) = bs_depth s"
  "bs_active_children (shift_scope tick t s) = bs_active_children s"
  "bs_active_parallel (shift_scope tick t s) = bs_active_parallel s"
  "max_depth (bs_remaining (shift_scope tick t s)) = max_depth (bs_remaining s)"
  "max_fan_out (bs_remaining (shift_scope tick t s)) = max_fan_out (bs_remaining s)"
  "max_parallel (bs_remaining (shift_scope tick t s)) = max_parallel (bs_remaining s)"
  "be_dim d (bs_remaining (shift_scope tick t s)) = be_dim d (bs_remaining s)"
  by (simp_all add: shift_scope_def) (cases d; simp)

lemma shift_deadline:
  assumes "unat t + (unat (deadline_tick (bs_remaining s)) - unat tick) < 2 ^ 64"
  shows "unat (deadline_tick (bs_remaining (shift_scope tick t s)))
    = unat t + (unat (deadline_tick (bs_remaining s)) - unat tick)"
  using assms by (simp add: shift_scope_def unat_word_ariths unat_saturating_sub)

lemma bcontains_bmap_values [simp]: "bcontains (bmap_values f m) k \<longleftrightarrow> bcontains m k"
  by (simp add: bcontains_def)

lemma bcount_bmap_values: "bcount P (bmap_values f m) = bcount (\<lambda>v. P (f v)) m"
  by (induction m) (auto simp: bcount_def bmap_values_def)

lemma scopes_checks_shift:
  fixes tick t :: u64
  assumes ok: "scopes_ok m"
  defines "m' \<equiv> bmap_values (shift_scope tick t) m"
  shows "try_all (check_tree m') m' = Inr ()" and "bcount (\<lambda>s. bs_parent s = None) m' = 1"
    and "bforall (\<lambda>_ s. unat t + (unat (deadline_tick (bs_remaining s)) - unat tick) < 2 ^ 64) m
      \<Longrightarrow> try_all (check_scope t m') (bvalues m') = Inr () \<longleftrightarrow>
        bforall (\<lambda>_ s. tick < deadline_tick (bs_remaining s)) m"
proof -
  have wf: "bwf m" and tree: "tree_ok m" and each: "bforall (scope_ok m) m"
    and one: "bcount (\<lambda>s. bs_parent s = None) m = 1"
    using ok by (auto simp: scopes_ok_def)
  show "bcount (\<lambda>s. bs_parent s = None) m' = 1"
    using one by (simp add: m'_def bcount_bmap_values)
  show "try_all (check_tree m') m' = Inr ()"
  proof (rule try_all_ok)
    fix e assume "e \<in> set m'"
    then obtain k s where e: "e = (k, shift_scope tick t s)" and s: "bget m k = Some s"
      by (auto simp: m'_def bmap_values_def bget_mem [OF wf])
    have cnt: "bcount (\<lambda>c. bs_parent c = Some k) m' = unat (bs_active_children s)"
      using bforallD [OF each s] by (simp add: m'_def bcount_bmap_values scope_ok_def)
    have "bs_depth s = saturating_add (bs_depth ps) 1 \<and> bs_depth s \<le> max_depth (bs_remaining ps)"
      if "bs_parent s = Some p" "bget m p = Some ps" for p ps
    proof -
      have d: "unat (bs_depth s) = Suc (unat (bs_depth ps))"
        using tree_okD [OF tree s that(1)] that(2) by auto
      moreover have "unat (bs_depth s) < 2 ^ 32"
        using unsigned_less [of "bs_depth s"] by simp
      ultimately have "unat (saturating_add (bs_depth ps) 1) = unat (bs_depth s)"
        by (simp add: unat_saturating_add)
      moreover have "bs_depth s \<le> max_depth (bs_remaining ps)"
        using bforallD [OF each s] that by (simp add: scope_ok_def)
      ultimately show ?thesis
        by (simp add: word_unat_eq_iff)
    qed
    moreover have "bs_parent s = None \<Longrightarrow> bs_depth s = 0"
      using bforallD [OF tree [unfolded tree_ok_def] s] by simp
    moreover have "bs_parent s = Some p \<Longrightarrow> \<exists>ps. bget m p = Some ps" for p
      using tree_okD [OF tree s] by blast
    ultimately show "check_tree m' e = Inr ()"
      using bforallD [OF each s] cnt
      by (auto simp: check_tree_def e Let_def scope_ok_def m'_def not_less split: option.splits)
  qed
  assume fits: "bforall (\<lambda>_ s. unat t + (unat (deadline_tick (bs_remaining s)) - unat tick) < 2 ^ 64) m"
  have chk: "check_scope t m' (shift_scope tick t s) =
      (if tick < deadline_tick (bs_remaining s) then Inr () else Inl DeadlineExceeded)"
    if s: "bget m k = Some s" for k s
  proof -
    have "deadline_tick (bs_remaining (shift_scope tick t s)) \<le> t \<longleftrightarrow> \<not> tick < deadline_tick (bs_remaining s)"
      using shift_deadline [OF bforallD [OF fits s]] by (auto simp: word_le_nat_alt word_less_nat_alt)
    moreover have "bs_active_parallel s \<le> max_parallel (bs_remaining s)"
      using bforallD [OF each s] by (simp add: scope_ok_def)
    moreover have "bs_parent s = Some p \<Longrightarrow> bcontains m p" for p
      using tree_okD [OF tree s] by (auto simp: bcontains_def)
    ultimately show ?thesis
      by (auto simp: check_scope_def m'_def not_less split: option.splits)
  qed
  have "try_all (check_scope t m') (bvalues m') = Inr () \<longleftrightarrow>
      (\<forall>s \<in> set (bvalues m). is_ok (check_scope t m' (shift_scope tick t s)))"
    by (simp add: try_all_Inr_iff m'_def bmap_values_def)
  also have "\<dots> \<longleftrightarrow> bforall (\<lambda>_ s. tick < deadline_tick (bs_remaining s)) m"
    unfolding bforall_entries [OF wf] using chk by (force simp: bget_mem [OF wf] split: if_splits)
  finally show "try_all (check_scope t m') (bvalues m') = Inr () \<longleftrightarrow>
      bforall (\<lambda>_ s. tick < deadline_tick (bs_remaining s)) m" .
qed

lemma ll_restore_scopes:
  assumes inv: "ll_inv l"
  shows "(\<exists>entries. try_map (restore_scope t) (lck_scopes (ll_checkpoint l)) = Inr entries) \<longleftrightarrow>
      bforall (\<lambda>_ s. unat t + (unat (deadline_tick (bs_remaining s)) - unat (ll_tick l)) < 2 ^ 64) (ll_scopes l)"
    and "try_map (restore_scope t) (lck_scopes (ll_checkpoint l)) = Inr entries \<Longrightarrow>
      bmap_of_list entries = bmap_values (shift_scope (ll_tick l) t) (ll_scopes l)"
proof -
  have wf: "bwf (ll_scopes l)" and each: "bforall (scope_ok (ll_scopes l)) (ll_scopes l)"
    using inv by (auto simp: ll_inv_def scopes_ok_def)
  define fit where "fit s \<longleftrightarrow> unat t + (unat (deadline_tick (bs_remaining s)) - unat (ll_tick l)) < 2 ^ 64"
    for s :: budget_scope
  have one: "restore_scope t (scope_checkpoint (ll_tick l) (fst e) (snd e)) =
      (if fit (snd e) then Inr (fst e, shift_scope (ll_tick l) t (snd e)) else Inl LimitOverflow)"
    if "e \<in> set (ll_scopes l)" for e
    using that each restore_scope_checkpoint [of "fst e"]
    by (simp add: bforall_entries [OF wf] scope_ok_def fit_def)
  have good: "try_map (restore_scope t) (lck_scopes (ll_checkpoint l))
      = Inr (bmap_values (shift_scope (ll_tick l) t) (ll_scopes l))" if "bforall (\<lambda>_. fit) (ll_scopes l)"
  proof -
    have "try_map (restore_scope t) (map (\<lambda>e. scope_checkpoint (ll_tick l) (fst e) (snd e)) es)
        = Inr (bmap_values (shift_scope (ll_tick l) t) es)" if "set es \<subseteq> set (ll_scopes l)" for es
      using that one \<open>bforall (\<lambda>_. fit) (ll_scopes l)\<close>
      by (induction es) (auto simp: bmap_values_def bforall_entries [OF wf])
    then show ?thesis
      by (simp add: ll_checkpoint_def)
  qed
  have bad: "\<exists>e. try_map (restore_scope t) (lck_scopes (ll_checkpoint l)) = Inl e"
    if "e \<in> set (ll_scopes l)" "\<not> fit (snd e)" for e
    using one [OF that(1)] that
    by (intro try_map_err [of "scope_checkpoint (ll_tick l) (fst e) (snd e)"]) (auto simp: ll_checkpoint_def)
  show "(\<exists>entries. try_map (restore_scope t) (lck_scopes (ll_checkpoint l)) = Inr entries) \<longleftrightarrow>
      bforall (\<lambda>_ s. unat t + (unat (deadline_tick (bs_remaining s)) - unat (ll_tick l)) < 2 ^ 64) (ll_scopes l)"
    unfolding fit_def [symmetric] using good bad by (force simp: bforall_entries [OF wf])
  show "bmap_of_list entries = bmap_values (shift_scope (ll_tick l) t) (ll_scopes l)"
    if "try_map (restore_scope t) (lck_scopes (ll_checkpoint l)) = Inr entries"
  proof -
    have "bforall (\<lambda>_. fit) (ll_scopes l)"
      using that bad by (force simp: bforall_entries [OF wf])
    with good that show ?thesis
      using wf by (simp add: bmap_of_list_id)
  qed
qed

lemma ll_restore_ids:
  assumes inv: "ll_inv l"
  shows "restore_reservations (bmap_values f (ll_scopes l)) (bvalues (ll_reservations l)) [] = Inr (ll_reservations l)"
    and "bset_of_list (ll_charge_ids l) = ll_charge_ids l"
    and "bmap_of_list (ll_loop_iterations l) = ll_loop_iterations l"
    and "loop_entry_ok (bmap_values f (ll_scopes l)) e \<longleftrightarrow> loop_entry_ok (ll_scopes l) e"
proof -
  have wf: "bwf (ll_reservations l)" and keyed: "bforall (\<lambda>k r. reservation_id r = k) (ll_reservations l)"
    using inv by (auto simp: ll_inv_def res_ok_def elim: bforall_mono)
  have "restore_reservations (bmap_values f (ll_scopes l)) (bvalues (ll_reservations l)) []
      = Inr (fold (\<lambda>r. binsert (reservation_id r) r) (bvalues (ll_reservations l)) [])"
  proof (rule restore_reservations_ok)
    show "distinct (map reservation_id (bvalues (ll_reservations l)))"
      unfolding map_key_values [OF wf keyed] by (rule bwf_distinct [OF wf])
  qed (use inv wf in \<open>auto simp: ll_inv_def res_ok_def bforall_entries\<close>)
  then show "restore_reservations (bmap_values f (ll_scopes l)) (bvalues (ll_reservations l)) [] = Inr (ll_reservations l)"
    by (simp add: load_self_keyed [OF wf keyed])
  show "bset_of_list (ll_charge_ids l) = ll_charge_ids l" "bmap_of_list (ll_loop_iterations l) = ll_loop_iterations l"
    using inv by (simp_all add: ll_inv_def bset_of_list_id bmap_of_list_id)
  show "loop_entry_ok (bmap_values f (ll_scopes l)) e \<longleftrightarrow> loop_entry_ok (ll_scopes l) e"
    by (auto simp: loop_entry_ok_def split: option.splits prod.splits)
qed

lemma ll_restore_checkpoint:
  assumes inv: "ll_inv l"
  shows "clock_ok t l \<and> ids_ok l \<Longrightarrow> ll_restore (ll_checkpoint l) t = Inr (ll_shift t l)"
    and "\<not> (clock_ok t l \<and> ids_ok l) \<Longrightarrow> \<exists>e. ll_restore (ll_checkpoint l) t = Inl e"
proof -
  define m' where "m' = bmap_values (shift_scope (ll_tick l) t) (ll_scopes l)"
  have sok: "scopes_ok (ll_scopes l)"
    using inv by (simp add: ll_inv_def)
  note checks = scopes_checks_shift [OF sok, where tick = "ll_tick l" and t = t, folded m'_def]
  note ids = ll_restore_ids(1,4) [OF inv, where f = "shift_scope (ll_tick l) t", folded m'_def]
    ll_restore_ids(2,3) [OF inv]
  have valid: "is_ok (validate_logical_id i)" if "i \<in> set (ll_charge_ids l)" for i
    using inv that by (simp add: ll_inv_def)
  have fields: "lck_reservations (ll_checkpoint l) = bvalues (ll_reservations l)"
    "lck_charge_ids (ll_checkpoint l) = ll_charge_ids l"
    "lck_loop_iterations (ll_checkpoint l) = ll_loop_iterations l"
    by (simp_all add: ll_checkpoint_def)
  define fits where "fits \<longleftrightarrow> bforall (\<lambda>_ s. unat t + (unat (deadline_tick (bs_remaining s)) - unat (ll_tick l)) < 2 ^ 64) (ll_scopes l)"
  have tail: "ll_restore (ll_checkpoint l) t = bind_r (try_all (check_scope t m') (bvalues m')) (\<lambda>_.
      if ids_ok l then Inr (ll_shift t l) else Inl InvalidReservation)" if f: fits
  proof -
    obtain entries where ent: "try_map (restore_scope t) (lck_scopes (ll_checkpoint l)) = Inr entries"
      using f ll_restore_scopes(1) [OF inv, of t] by (auto simp: fits_def)
    then have "bmap_of_list entries = m'"
      using ll_restore_scopes(2) [OF inv] by (simp add: m'_def)
    then show ?thesis
      using checks(1,2) ids valid
      by (auto simp: ll_restore_def ent fields ids_ok_def Let_def ll_shift_def m'_def [symmetric] bind_r_def
          split: sum.splits)
  qed
  have clock: "clock_ok t l \<longleftrightarrow> fits \<and> bforall (\<lambda>_ s. ll_tick l < deadline_tick (bs_remaining s)) (ll_scopes l)"
    by (auto simp: clock_ok_def fits_def bforall_def)
  show "clock_ok t l \<and> ids_ok l \<Longrightarrow> ll_restore (ll_checkpoint l) t = Inr (ll_shift t l)"
    using tail checks(3) clock by (simp add: fits_def)
  show "\<exists>e. ll_restore (ll_checkpoint l) t = Inl e" if bad: "\<not> (clock_ok t l \<and> ids_ok l)"
  proof (cases fits)
    case True
    with bad clock tail checks(3) show ?thesis
      by (cases "try_all (check_scope t m') (bvalues m')") (auto simp: fits_def)
  next
    case False
    then have "\<nexists>entries. try_map (restore_scope t) (lck_scopes (ll_checkpoint l)) = Inr entries"
      using ll_restore_scopes(1) [OF inv, of t] by (simp add: fits_def)
    then obtain e where "try_map (restore_scope t) (lck_scopes (ll_checkpoint l)) = Inl e"
      by (cases "try_map (restore_scope t) (lck_scopes (ll_checkpoint l))") auto
    then show ?thesis
      by (simp add: ll_restore_def)
  qed
qed

lemma scopes_ok_shift:
  assumes ok: "scopes_ok m"
    and fits: "bforall (\<lambda>_ s. unat t + (unat (deadline_tick (bs_remaining s)) - unat tick) < 2 ^ 64) m"
  shows "scopes_ok (bmap_values (shift_scope tick t) m)"
proof -
  define m' where "m' = bmap_values (shift_scope tick t) m"
  have wf: "bwf m" and tree: "tree_ok m" and each: "bforall (scope_ok m) m"
    and one: "bcount (\<lambda>s. bs_parent s = None) m = 1"
    using ok by (auto simp: scopes_ok_def)
  have "tree_ok m'"
    unfolding tree_ok_def
  proof (rule bforallI)
    fix k s' assume "bget m' k = Some s'"
    then obtain s where s: "bget m k = Some s" and s': "s' = shift_scope tick t s"
      by (auto simp: m'_def)
    show "case bs_parent s' of None \<Rightarrow> bs_depth s' = 0
      | Some p \<Rightarrow> (case bget m' p of None \<Rightarrow> False | Some ps \<Rightarrow> unat (bs_depth s') = Suc (unat (bs_depth ps)))"
      using bforallD [OF tree [unfolded tree_ok_def] s] by (auto simp: m'_def s' split: option.splits)
  qed
  moreover have "scope_ok m' k (shift_scope tick t s)" if s: "bget m k = Some s" for k s
  proof -
    have "deadline_tick (bs_remaining (shift_scope tick t s)) \<le> deadline_tick (bs_remaining (shift_scope tick t ps))"
      if "bget m p = Some ps" "deadline_tick (bs_remaining s) \<le> deadline_tick (bs_remaining ps)" for p ps
      using that shift_deadline [OF bforallD [OF fits s]] shift_deadline [OF bforallD [OF fits that(1)]]
      by (simp add: word_le_nat_alt)
    then show ?thesis
      using bforallD [OF each s] by (auto simp: scope_ok_def m'_def bcount_bmap_values)
  qed
  then have "bforall (scope_ok m') m'"
    by (auto simp: m'_def bforall_def)
  ultimately show ?thesis
    using wf one by (simp add: scopes_ok_def m'_def bcount_bmap_values)
qed

lemma ll_inv_shift:
  assumes inv: "ll_inv l" and clock: "clock_ok t l"
  shows "ll_inv (ll_shift t l) \<and> held d (ll_shift t l) i = held d l i"
proof -
  have sok: "scopes_ok (ll_scopes l)" and rok: "res_ok (ll_scopes l) (ll_reservations l)"
    using inv by (auto simp: ll_inv_def)
  have tok: "scopes_ok (bmap_values (shift_scope (ll_tick l) t) (ll_scopes l))"
    using clock by (intro scopes_ok_shift [OF sok]) (auto simp: clock_ok_def elim: bforall_mono)
  have par: "map_option bs_parent (bget (bmap_values (shift_scope (ll_tick l) t) (ll_scopes l)) k)
      = map_option bs_parent (bget (ll_scopes l) k)" for k
    by (simp add: option.map_comp comp_def)
  have held: "held d (ll_shift t l) i = held d l i" for d i
    using outstanding_cong_parents [OF sok tok rok par]
    by (intro held_cong) (simp_all add: ll_shift_def option.map_comp comp_def)
  have "held_ok (ll_scopes (ll_shift t l)) (ll_reservations (ll_shift t l))"
    using inv unfolding ll_inv_def held_ok_held held by blast
  with inv tok rok held show ?thesis
    by (simp add: ll_inv_def ll_shift_def res_ok_def)
qed

lemma ll_inv_restore:
  assumes "ll_inv l" and "ll_restore (ll_checkpoint l) n = Inr t"
  shows "t = ll_shift n l \<and> clock_ok n l"
  using ll_restore_checkpoint [OF assms(1), of n] assms(2) by (cases "clock_ok n l \<and> ids_ok l") auto

section \<open>Runs of a ledger\<close>

text \<open>
  A step is one call of an operation, whatever its result, or a restore of the ledger's own
  checkpoint under any clock. The label is the usage that a call of \<open>charge\<close> committed.
\<close>

inductive ll_step :: "limit_ledger \<Rightarrow> usage option \<Rightarrow> limit_ledger \<Rightarrow> bool" where
  step_create: "create_child c p conf l = (r, t) \<Longrightarrow> ll_step l None t"
| step_close: "close_child c l = (r, t) \<Longrightarrow> ll_step l None t"
| step_reserve: "ll_reserve sid rid u l = (r, t) \<Longrightarrow> ll_step l None t"
| step_charge: "ll_charge rid cid actual l = (r, t) \<Longrightarrow>
    ll_step l (if r = Inr () \<and> cid \<notin> set (ll_charge_ids l) then Some actual else None) t"
| step_release: "ll_release rid l = (r, t) \<Longrightarrow> ll_step l None t"
| step_enter: "enter_parallel k l = (r, t) \<Longrightarrow> ll_step l None t"
| step_leave: "leave_parallel k l = (r, t) \<Longrightarrow> ll_step l None t"
| step_loop: "next_loop_iteration k lp mx l = (r', t) \<Longrightarrow> ll_step l None t"
| step_advance: "advance_to n l = (r, t) \<Longrightarrow> ll_step l None t"
| step_restore: "ll_restore (ll_checkpoint l) n = Inr t \<Longrightarrow> ll_step l None t"

inductive ll_run :: "limit_ledger \<Rightarrow> usage list \<Rightarrow> limit_ledger \<Rightarrow> bool" for l where
  run_start: "ll_run l [] l"
| run_step: "ll_run l us t \<Longrightarrow> ll_step t x u \<Longrightarrow> ll_run l (us @ (case x of None \<Rightarrow> [] | Some a \<Rightarrow> [a])) u"

lemma ll_inv_new: "ll_new root b = Inr l \<Longrightarrow> ll_inv l"
proof -
  assume new: "ll_new root b = Inr l"
  then have ok: "is_ok (validate_logical_id root)"
    and l: "ll_scopes l = [(root, \<lparr>bs_parent = None, bs_depth = 0, bs_remaining = b,
        bs_active_children = 0, bs_active_parallel = 0\<rparr>)]"
      "ll_reservations l = []" "ll_charge_ids l = []" "ll_loop_iterations l = []"
    by (auto simp: ll_new_def bind_r_Inr)
  have "held d l i < 2 ^ 64" for d i
    using u64_bound by (simp add: held_def l outstanding_def)
  then have "held_ok (ll_scopes l) (ll_reservations l)"
    unfolding held_ok_held by blast
  with scopes_ok_new [OF ok] show "ll_inv l"
    by (simp add: ll_inv_def l res_ok_def)
qed

text \<open>The root: the one scope without a parent, on every chain, and never closed.\<close>

definition root_of :: "limit_ledger \<Rightarrow> string \<Rightarrow> bool" where
  "root_of l root \<longleftrightarrow> (\<exists>s. bget (ll_scopes l) root = Some s \<and> bs_parent s = None)"

lemma root_unique:
  assumes inv: "ll_inv l" and root: "root_of l root" and i: "bget (ll_scopes l) i = Some s" "bs_parent s = None"
  shows "i = root"
proof (rule ccontr)
  assume "i \<noteq> root"
  have wf: "bwf (ll_scopes l)" and one: "bcount (\<lambda>s. bs_parent s = None) (ll_scopes l) = 1"
    using inv by (auto simp: ll_inv_def scopes_ok_def)
  obtain rs where "bget (ll_scopes l) root = Some rs" "bs_parent rs = None"
    using root by (auto simp: root_of_def)
  then have "bcount (\<lambda>s. bs_parent s = None) (bremove root (ll_scopes l)) = 0"
    using bcount_bremove [OF wf, of root rs "\<lambda>s. bs_parent s = None"] one by simp
  with wf have "bforall (\<lambda>_ s. bs_parent s \<noteq> None) (bremove root (ll_scopes l))"
    by (simp add: bcount_0)
  from bforallD [OF this, of i s] i \<open>i \<noteq> root\<close> show False
    by simp
qed

lemma root_on_path:
  assumes inv: "ll_inv l" and root: "root_of l root"
  shows "lineage_path (ll_scopes l) i ps \<Longrightarrow> root \<in> set ps"
  by (induction rule: lineage_path.induct) (auto dest: root_unique [OF inv root])

lemma root_outstanding:
  assumes inv: "ll_inv l" and root: "root_of l root"
  shows "outstanding d (ll_scopes l) (ll_reservations l) root = bsum (\<lambda>r. unat (us_dim d (reserved r))) (ll_reservations l)"
  unfolding outstanding_def
proof (rule bsum_cong_values)
  fix k r assume r: "bget (ll_reservations l) k = Some r"
  then have "bcontains (ll_scopes l) (rr_scope_id r)"
    using inv by (auto simp: ll_inv_def res_ok_def dest: bforallD)
  then have "root \<in> set (lineage_of (ll_scopes l) (rr_scope_id r))"
    using ll_inv_lineage [OF inv] root_on_path [OF inv root] by metis
  then show "(if root \<in> set (lineage_of (ll_scopes l) (rr_scope_id r)) then unat (us_dim d (reserved r)) else 0)
      = unat (us_dim d (reserved r))"
    by simp
qed (use inv in \<open>simp add: ll_inv_def res_ok_def\<close>)

lemma root_of_parent: "root_of l root \<longleftrightarrow> map_option bs_parent (bget (ll_scopes l) root) = Some None"
  by (auto simp: root_of_def)

lemma root_kept:
  assumes inv: "ll_inv l" and root: "root_of l root" and step: "ll_step l x t"
  shows "root_of t root"
  using step
proof cases
  case (step_create c p conf r)
  then show ?thesis
    using root by (auto simp: create_child_def root_of_def bcontains_def
        split: sum.splits if_splits option.splits)
next
  case (step_close c r)
  then show ?thesis
    using root by (auto simp: close_child_def can_close_child_def root_of_def Let_def
        split: sum.splits if_splits option.splits)
next
  case (step_reserve sid rid u r)
  from inv step_reserve(2) show ?thesis
  proof (cases rule: ll_reserve_cases)
    case (reserved ps)
    with root show ?thesis
      unfolding root_of_parent by (simp add: fold_parent_same)
  qed (use root in simp)
next
  case (step_charge rid cid actual r)
  from inv step_charge(2) show ?thesis
  proof (cases rule: ll_charge_cases)
    case (charged rec unused)
    have "unat (us_dim d unused) \<le> unat (us_dim d (reserved rec))" for d
      using charged(5) by (simp add: us_checked_sub_Inr)
    note credit_lineage(4) [OF inv charged(2) this]
    with charged(6) root show ?thesis
      unfolding root_of_parent by (simp add: settled_def fold_parent_same)
  qed (use root in simp_all)
next
  case (step_release rid r)
  show ?thesis
  proof (cases "bget (ll_reservations l) rid")
    case (Some rec)
    note credit_lineage(4) [OF inv Some order_refl]
    with ll_release_known [OF inv Some] step_release(2) root show ?thesis
      unfolding root_of_parent by (simp add: settled_def fold_parent_same)
  qed (use root step_release(2) in \<open>simp add: ll_release_def\<close>)
next
  case (step_restore n)
  with root ll_inv_restore [OF inv step_restore(2)] show ?thesis
    by (auto simp: ll_shift_def root_of_def)
qed (use root in \<open>auto simp: enter_parallel_def leave_parallel_def next_loop_iteration_def advance_to_def
      root_of_def Let_def split: sum.splits if_splits option.splits\<close>)

lemma ll_step_conserves:
  assumes inv: "ll_inv l" and root: "root_of l root" and step: "ll_step l x t"
  shows "ll_inv t" and "held d t root + (case x of None \<Rightarrow> 0 | Some a \<Rightarrow> unat (us_dim d a)) = held d l root"
proof -
  have "ll_inv t \<and> held d t root + (case x of None \<Rightarrow> 0 | Some a \<Rightarrow> unat (us_dim d a)) = held d l root" for d
    using step
  proof cases
    case (step_create c p conf r)
    with root ll_inv_create_child [OF inv step_create(2)] show ?thesis
      by (auto simp: root_of_def bcontains_def)
  next
    case (step_close c r)
    have "bcontains (ll_scopes t) root"
      using root_kept [OF inv root step] by (auto simp: root_of_def bcontains_def)
    with step_close ll_inv_close_child [OF inv step_close(2)] show ?thesis
      by auto
  next
    case (step_charge rid cid actual r)
    from inv step_charge(2) show ?thesis
    proof (cases rule: ll_charge_cases)
      case (charged rec unused)
      have "bcontains (ll_scopes l) (rr_scope_id rec)"
        using inv charged(2) by (auto simp: ll_inv_def res_ok_def dest: bforallD)
      then have "root \<in> set (lineage_of (ll_scopes l) (rr_scope_id rec))"
        using ll_inv_lineage [OF inv] root_on_path [OF inv root] by metis
      moreover have "\<And>d. unat (us_dim d (reserved rec)) = unat (us_dim d unused) + unat (us_dim d actual)"
        using charged(5) by (simp add: us_checked_sub_Inr)
      ultimately have "held d (settled rid rec unused l) root + unat (us_dim d actual) = held d l root"
        using ll_inv_settled(2) [OF inv charged(2), of unused actual d root] by simp
      with charged ll_inv_charge [OF inv step_charge(2)] step_charge(1) show ?thesis
        by (simp add: held_def cong: option.case_cong)
    qed (use inv step_charge in auto)
  next
    case (step_restore n)
    with ll_inv_shift [OF inv] ll_inv_restore [OF inv step_restore(2)] show ?thesis
      by auto
  next
    case (step_reserve sid rid u r)
    with ll_inv_reserve [OF inv step_reserve(2)] show ?thesis
      by simp
  next
    case (step_release rid r)
    with ll_inv_release [OF inv step_release(2)] show ?thesis
      by simp
  next
    case (step_enter k r)
    with ll_inv_enter_parallel [OF inv step_enter(2)] show ?thesis
      by simp
  next
    case (step_leave k r)
    with ll_inv_leave_parallel [OF inv step_leave(2)] show ?thesis
      by simp
  next
    case (step_loop k lp mx r')
    with ll_inv_next_loop_iteration [OF inv step_loop(2)] show ?thesis
      by simp
  next
    case (step_advance n r)
    with ll_inv_advance_to [OF inv step_advance(2)] show ?thesis
      by simp
  qed
  then show "ll_inv t" and "held d t root + (case x of None \<Rightarrow> 0 | Some a \<Rightarrow> unat (us_dim d a)) = held d l root"
    by blast+
qed

lemma root_of_new: "ll_new root b = Inr l \<Longrightarrow> root_of l root"
  by (auto simp: ll_new_def bind_r_Inr root_of_def)

lemma ll_run_conserves:
  assumes "ll_run l us t" and "ll_inv l" and "root_of l root"
  shows "ll_inv t \<and> root_of t root
    \<and> held d t root + sum_list (map (\<lambda>u. unat (us_dim d u)) us) = held d l root"
  using assms
proof (induction rule: ll_run.induct)
  case (run_step us t x u)
  then have t: "ll_inv t" "root_of t root"
    by simp_all
  show ?case
    using ll_step_conserves(1) [OF t run_step.hyps(2)] ll_step_conserves(2) [OF t run_step.hyps(2), of d] root_kept [OF t run_step.hyps(2)] run_step
    by (auto split: option.splits)
qed simp

section \<open>Deadlines\<close>

definition root_duration :: "limit_ledger \<Rightarrow> string \<Rightarrow> nat" where
  "root_duration l root = (case bget (ll_scopes l) root of None \<Rightarrow> 0
     | Some s \<Rightarrow> unat (deadline_tick (bs_remaining s)) - unat (ll_tick l))"

lemma deadline_le_root:
  assumes inv: "ll_inv l" and root: "bget (ll_scopes l) root = Some rs" "bs_parent rs = None"
  shows "lineage_path (ll_scopes l) i ps \<Longrightarrow> bget (ll_scopes l) i = Some s \<Longrightarrow>
    deadline_tick (bs_remaining s) \<le> deadline_tick (bs_remaining rs)"
proof (induction arbitrary: s rule: lineage_path.induct)
  case (path_root i s0)
  have "root_of l root"
    using root by (auto simp: root_of_def)
  with root_unique [OF inv _ path_root.hyps] path_root root show ?case
    by auto
next
  case (path_step i s0 p ps)
  have each: "bforall (scope_ok (ll_scopes l)) (ll_scopes l)" and tree: "tree_ok (ll_scopes l)"
    using inv by (auto simp: ll_inv_def scopes_ok_def)
  obtain sp where sp: "bget (ll_scopes l) p = Some sp"
    using tree_okD [OF tree path_step.hyps(1,2)] by blast
  then have "deadline_tick (bs_remaining s) \<le> deadline_tick (bs_remaining sp)"
    using bforallD [OF each path_step.prems] path_step by (auto simp: scope_ok_def)
  with path_step.IH [OF sp] show ?case
    by simp
qed

lemma deadline_env [simp]:
  "deadline_tick (bs_remaining (env_sub u s)) = deadline_tick (bs_remaining s)"
  "deadline_tick (bs_remaining (env_add u s)) = deadline_tick (bs_remaining s)"
  using adjusts_env_sub [of s u] adjusts_env_add [of s u] by (simp_all add: adjusts_def same_structure_def)

text \<open>The frozen deadline of a scope, which only a restore moves.\<close>

definition deadline_of :: "limit_ledger \<Rightarrow> string \<Rightarrow> u64 option" where
  "deadline_of l i = map_option (\<lambda>s. deadline_tick (bs_remaining s)) (bget (ll_scopes l) i)"

lemma deadline_of_fold:
  assumes "distinct ps" and "\<And>s. deadline_tick (bs_remaining (g s)) = deadline_tick (bs_remaining s)"
  shows "map_option (\<lambda>s. deadline_tick (bs_remaining s)) (bget (fold (\<lambda>k. bmodify k g) ps m) i)
    = map_option (\<lambda>s. deadline_tick (bs_remaining s)) (bget m i)"
  using assms by (simp add: bget_fold_bmodify option.map_comp comp_def)

lemma ll_step_deadline:
  assumes inv: "ll_inv l" and root: "root_of l root" and step: "ll_step l x t"
  shows "(deadline_of t root = deadline_of l root \<and> ll_tick l \<le> ll_tick t) \<or> (\<exists>n. t = ll_shift n l \<and> clock_ok n l)"
  using step
proof cases
  case (step_create c p conf r)
  then show ?thesis
    using root by (auto simp: create_child_def root_of_def bcontains_def deadline_of_def
        split: sum.splits if_splits option.splits)
next
  case (step_close c r)
  then show ?thesis
    using root by (auto simp: close_child_def can_close_child_def root_of_def Let_def deadline_of_def
        split: sum.splits if_splits option.splits)
next
  case (step_reserve sid rid u r)
  from inv step_reserve(2) show ?thesis
  proof (cases rule: ll_reserve_cases)
    case (reserved ps)
    then show ?thesis
      by (simp add: deadline_of_def deadline_of_fold)
  qed simp
next
  case (step_charge rid cid actual r)
  from inv step_charge(2) show ?thesis
  proof (cases rule: ll_charge_cases)
    case (charged rec unused)
    have "unat (us_dim d unused) \<le> unat (us_dim d (reserved rec))" for d
      using charged(5) by (simp add: us_checked_sub_Inr)
    note credit_lineage(4) [OF inv charged(2) this]
    with charged(6) show ?thesis
      by (simp add: deadline_of_def settled_def deadline_of_fold)
  qed simp_all
next
  case (step_release rid r)
  show ?thesis
  proof (cases "bget (ll_reservations l) rid")
    case (Some rec)
    note credit_lineage(4) [OF inv Some order_refl]
    with ll_release_known [OF inv Some] step_release(2) show ?thesis
      by (simp add: deadline_of_def settled_def deadline_of_fold)
  qed (use step_release(2) in \<open>simp add: ll_release_def\<close>)
next
  case (step_restore n)
  with ll_inv_restore [OF inv step_restore(2)] show ?thesis
    by blast
qed (auto simp: enter_parallel_def leave_parallel_def next_loop_iteration_def advance_to_def
      deadline_of_def option.map_comp comp_def Let_def split: sum.splits if_splits option.splits)

lemma ll_step_duration:
  assumes inv: "ll_inv l" and root: "root_of l root" and step: "ll_step l x t"
  shows "root_duration t root \<le> root_duration l root"
  using ll_step_deadline [OF assms]
proof
  assume "deadline_of t root = deadline_of l root \<and> ll_tick l \<le> ll_tick t"
  then show ?thesis
    by (cases "bget (ll_scopes t) root"; cases "bget (ll_scopes l) root")
      (auto simp: deadline_of_def root_duration_def word_le_nat_alt)
next
  assume "\<exists>n. t = ll_shift n l \<and> clock_ok n l"
  then obtain n where t: "t = ll_shift n l" and c: "clock_ok n l"
    by blast
  show ?thesis
  proof (cases "bget (ll_scopes l) root")
    case (Some s)
    have "unat n + (unat (deadline_tick (bs_remaining s)) - unat (ll_tick l)) < 2 ^ 64"
      using c Some by (auto simp: clock_ok_def dest: bforallD)
    from shift_deadline [OF this] Some show ?thesis
      by (simp add: t root_duration_def ll_shift_def)
  qed (simp add: t root_duration_def ll_shift_def)
qed

lemma ll_run_duration:
  assumes "ll_run l us t" and "ll_inv l" and "root_of l root"
  shows "root_duration t root \<le> root_duration l root"
  using assms(1)
proof (induction rule: ll_run.induct)
  case (run_step us t x u)
  have "ll_inv t" "root_of t root"
    using ll_run_conserves [OF run_step.hyps(1) assms(2,3)] by simp_all
  with run_step ll_step_duration show ?case
    by (meson le_trans)
qed simp

section \<open>A sample run\<close>

text \<open>The concrete ledger the witnesses below evaluate: a root, a child, a reservation, a charge.\<close>

definition demo_usage :: "u64 \<Rightarrow> usage" where
  "demo_usage n = \<lparr>us_turns = n, us_attempts = n, us_tool_calls = n, us_tokens = n,
     us_cost_micros = n, us_actions = n\<rparr>"

definition demo_budget :: budget_envelope where
  "demo_budget = \<lparr>be_turns = 10, be_attempts = 10, be_tool_calls = 10, be_tokens = 10,
     be_cost_micros = 10, be_actions = 10, max_depth = 3, max_fan_out = 2, max_parallel = 2,
     deadline_tick = 100\<rparr>"

definition demo_new :: limit_ledger where
  "demo_new = projr (ll_new ''run'' demo_budget)"

definition demo_child :: limit_ledger where
  "demo_child = snd (create_child ''child'' ''run'' demo_budget demo_new)"

definition demo_reserved :: limit_ledger where
  "demo_reserved = snd (ll_reserve ''child'' ''r1'' (demo_usage 4) demo_child)"

definition demo_charged :: limit_ledger where
  "demo_charged = snd (ll_charge ''r1'' ''c1'' (demo_usage 3) demo_reserved)"

definition demo_looped :: limit_ledger where
  "demo_looped = snd (next_loop_iteration ''child'' ''loop'' 5 demo_child)"

definition demo_closed :: limit_ledger where
  "demo_closed = snd (close_child ''child'' demo_looped)"

lemma demo_new_eq: "ll_new ''run'' demo_budget = Inr demo_new"
  by code_simp

lemma demo_run_child: "ll_run demo_new [] demo_child"
  using run_step [OF run_start step_create [OF prod.collapse [symmetric]], of demo_new "''child''" "''run''" demo_budget]
  by (simp add: demo_child_def)

lemma demo_run_reserved: "ll_run demo_new [] demo_reserved"
  using run_step [OF demo_run_child step_reserve [OF prod.collapse [symmetric]], of "''child''" "''r1''" "demo_usage 4"]
  by (simp add: demo_reserved_def)

lemma demo_charge: "ll_charge ''r1'' ''c1'' (demo_usage 3) demo_reserved = (Inr (), demo_charged)"
  "''c1'' \<notin> set (ll_charge_ids demo_reserved)"
  by code_simp+

lemma demo_run_charged: "ll_run demo_new [demo_usage 3] demo_charged"
  using run_step [OF demo_run_reserved step_charge [OF demo_charge(1)]] demo_charge(2) by simp

lemma demo_reserved_live:
  "bget (ll_reservations demo_reserved) ''r1''
    = Some \<lparr>reservation_id = ''r1'', rr_scope_id = ''child'', reserved = demo_usage 4\<rparr>"
  by code_simp

section \<open>Properties\<close>

text \<open>
  C1. No budget is minted and none is lost: along every run of a ledger made by \<open>new\<close> - child
  scopes, reservations, charges, releases, failed calls and restores of its own checkpoints in any
  order - the allowance left at the root, the live reservations and the committed charges add up
  to the budget the core froze, in each of the six dimensions.
\<close>

theorem budget_conserved:
  assumes "ll_new root b = Inr l0" and "ll_run l0 us l"
  shows "\<exists>s. bget (ll_scopes l) root = Some s \<and>
    unat (be_dim d (bs_remaining s)) + (\<Sum>r \<leftarrow> bvalues (ll_reservations l). unat (us_dim d (reserved r)))
      + (\<Sum>u \<leftarrow> us. unat (us_dim d u)) = unat (be_dim d b)"
proof -
  note ok = ll_run_conserves [OF assms(2) ll_inv_new [OF assms(1)] root_of_new [OF assms(1)], of d]
  then obtain s where s: "bget (ll_scopes l) root = Some s"
    by (auto simp: root_of_def)
  have "held d l0 root = unat (be_dim d b)"
    using assms(1) by (auto simp: ll_new_def bind_r_Inr held_def outstanding_def)
  with s ok root_outstanding [of l root d] show ?thesis
    by (simp add: held_def bsum_def)
qed

theorem budget_conserved_witness:
  "\<exists>s. bget (ll_scopes demo_charged) ''run'' = Some s \<and>
    unat (be_dim DTokens (bs_remaining s))
      + (\<Sum>r \<leftarrow> bvalues (ll_reservations demo_charged). unat (us_dim DTokens (reserved r))) + 3 = 10"
  using budget_conserved [OF demo_new_eq demo_run_charged, of DTokens]
  by (simp add: demo_usage_def demo_budget_def)

text \<open>
  A deadline is never extended: however a ledger is run, restored and given new clocks, the
  time any scope has left never exceeds the duration of the root's frozen deadline.
\<close>

theorem deadline_never_extended:
  assumes "ll_new root b = Inr l0" and "ll_run l0 us l" and "bget (ll_scopes l) i = Some s"
  shows "unat (deadline_tick (bs_remaining s)) - unat (ll_tick l) \<le> unat (deadline_tick b)"
proof -
  note new = ll_inv_new [OF assms(1)] root_of_new [OF assms(1)]
  note ok = ll_run_conserves [OF assms(2) new]
  then have inv: "ll_inv l"
    by simp
  obtain rs where rs: "bget (ll_scopes l) root = Some rs" "bs_parent rs = None"
    using ok by (auto simp: root_of_def)
  obtain ps where "lineage_path (ll_scopes l) i ps"
    using ll_inv_lineage [OF inv] assms(3) by (metis bcontains_def option.discI)
  then have "deadline_tick (bs_remaining s) \<le> deadline_tick (bs_remaining rs)"
    using deadline_le_root [OF inv rs] assms(3) by blast
  moreover have "unat (deadline_tick (bs_remaining rs)) - unat (ll_tick l) \<le> unat (deadline_tick b)"
    using ll_run_duration [OF assms(2) new] rs assms(1)
    by (auto simp: root_duration_def ll_new_def bind_r_Inr)
  ultimately show ?thesis
    by (simp add: word_le_nat_alt)
qed

theorem deadline_never_extended_witness:
  "\<exists>s. bget (ll_scopes demo_charged) ''child'' = Some s
     \<and> unat (deadline_tick (bs_remaining s)) - unat (ll_tick demo_charged) \<le> 100"
proof -
  have "bget (ll_scopes demo_charged) ''child'' \<noteq> None"
    by code_simp
  then obtain s where s: "bget (ll_scopes demo_charged) ''child'' = Some s"
    by blast
  with deadline_never_extended [OF demo_new_eq demo_run_charged s] show ?thesis
    by (simp add: demo_budget_def)
qed

text \<open>
  A reservation is all or nothing along the whole chain of scopes: a refused \<open>reserve\<close> leaves
  the ledger as it was, and an accepted one takes exactly the requested usage from the scope and
  from each of its ancestors up to the root, and touches no other scope.
\<close>

theorem reserve_all_or_nothing:
  assumes "ll_new root b = Inr l0" and "ll_run l0 us l" and "ll_reserve sid rid u l = (r, t)"
  shows "(\<exists>e. r = Inl e \<and> t = l) \<or>
    (r = Inr () \<and> (\<exists>chain. scope_lineage l sid = Inr chain \<and> sid \<in> set chain \<and> root \<in> set chain \<and>
      (\<forall>i. (i \<in> set chain \<longrightarrow> (\<exists>s s'. bget (ll_scopes l) i = Some s \<and> bget (ll_scopes t) i = Some s' \<and>
             (\<forall>d. unat (be_dim d (bs_remaining s)) = unat (be_dim d (bs_remaining s')) + unat (us_dim d u)))) \<and>
           (i \<notin> set chain \<longrightarrow> bget (ll_scopes t) i = bget (ll_scopes l) i))))"
proof -
  note ok = ll_run_conserves [OF assms(2) ll_inv_new [OF assms(1)] root_of_new [OF assms(1)]]
  then have inv: "ll_inv l" and root: "root_of l root"
    by simp_all
  from inv assms(3) show ?thesis
  proof (cases rule: ll_reserve_cases)
    case (reserved ps)
    have lin: "scope_lineage l sid = Inr ps"
      using inv reserved(2) by (simp add: ll_inv_def scopes_ok_def scope_lineage_path)
    have "\<exists>s s'. bget (ll_scopes l) i = Some s \<and> bget (ll_scopes t) i = Some s' \<and>
        (\<forall>d. unat (be_dim d (bs_remaining s)) = unat (be_dim d (bs_remaining s')) + unat (us_dim d u))"
      if "i \<in> set ps" for i
      using reserved(9) [OF that] that reserved(4,10) env_sub_dim by (fastforce simp: bget_fold_bmodify)
    moreover have "bget (ll_scopes t) i = bget (ll_scopes l) i" if "i \<notin> set ps" for i
      using that reserved(4,10) by (simp add: bget_fold_bmodify)
    ultimately show ?thesis
      using reserved(1) lin lineage_path_self [OF reserved(2)] root_on_path [OF inv root reserved(2)] by blast
  qed simp
qed

theorem reserve_all_or_nothing_witness:
  "fst (ll_reserve ''child'' ''r1'' (demo_usage 4) demo_child) = Inr ()
   \<and> (\<exists>s s'. bget (ll_scopes demo_child) ''run'' = Some s \<and> bget (ll_scopes demo_reserved) ''run'' = Some s'
     \<and> unat (be_dim DTurns (bs_remaining s)) = unat (be_dim DTurns (bs_remaining s')) + 4)"
proof -
  have ok: "ll_reserve ''child'' ''r1'' (demo_usage 4) demo_child = (Inr (), demo_reserved)"
    by code_simp
  have "\<exists>chain. ''run'' \<in> set chain \<and> (\<forall>i. i \<in> set chain \<longrightarrow> (\<exists>s s'. bget (ll_scopes demo_child) i = Some s
      \<and> bget (ll_scopes demo_reserved) i = Some s'
      \<and> (\<forall>d. unat (be_dim d (bs_remaining s)) = unat (be_dim d (bs_remaining s')) + unat (us_dim d (demo_usage 4)))))"
    using reserve_all_or_nothing [OF demo_new_eq demo_run_child ok] by blast
  then obtain s s' where "bget (ll_scopes demo_child) ''run'' = Some s" "bget (ll_scopes demo_reserved) ''run'' = Some s'"
    "unat (be_dim DTurns (bs_remaining s)) = unat (be_dim DTurns (bs_remaining s')) + unat (us_dim DTurns (demo_usage 4))"
    by blast
  with ok show ?thesis
    by (simp add: demo_usage_def)
qed

text \<open>
  Settling never gets stuck: in every reachable ledger a live reservation can be released, and
  can be charged with any usage it contains under a fresh valid charge id - no overflow and no
  broken chain can make either fail.
\<close>

theorem settlement_never_fails:
  assumes "ll_new root b = Inr l0" and "ll_run l0 us l" and "bget (ll_reservations l) rid = Some rec"
  shows "fst (ll_release rid l) = Inr () \<and>
    (us_contains (reserved rec) actual \<and> validate_logical_id cid = Inr () \<and> cid \<notin> set (ll_charge_ids l)
      \<longrightarrow> fst (ll_charge rid cid actual l) = Inr ())"
proof -
  have inv: "ll_inv l"
    using ll_run_conserves [OF assms(2) ll_inv_new [OF assms(1)] root_of_new [OF assms(1)]] by simp
  show ?thesis
    using ll_release_known [OF inv assms(3)] ll_charge_known [OF inv assms(3), of cid actual] by auto
qed

theorem settlement_never_fails_witness:
  "fst (ll_release ''r1'' demo_reserved) = Inr ()
   \<and> fst (ll_charge ''r1'' ''c1'' (demo_usage 3) demo_reserved) = Inr ()"
proof -
  have "us_contains (demo_usage 4) (demo_usage 3) \<and> validate_logical_id ''c1'' = Inr ()
      \<and> ''c1'' \<notin> set (ll_charge_ids demo_reserved)"
    by code_simp
  with settlement_never_fails [OF demo_new_eq demo_run_reserved demo_reserved_live, of "demo_usage 3" "''c1''"]
  show ?thesis
    by simp
qed

text \<open>
  Checkpoint and restore: a reachable ledger is restored under a new clock exactly when no
  deadline has passed, the new deadlines fit in 64 bits, no charge id is also the id of a live
  reservation, and every loop counter belongs to a scope that still exists; then everything but
  the clock is unchanged and each deadline keeps its remaining duration.
\<close>

theorem ledger_checkpoint_roundtrip:
  assumes "ll_new root b = Inr l0" and "ll_run l0 us l"
  shows "(clock_ok n l \<and> ids_ok l \<longrightarrow> ll_restore (ll_checkpoint l) n = Inr (ll_shift n l))
    \<and> (\<not> (clock_ok n l \<and> ids_ok l) \<longrightarrow> (\<exists>e. ll_restore (ll_checkpoint l) n = Inl e))"
proof -
  have inv: "ll_inv l"
    using ll_run_conserves [OF assms(2) ll_inv_new [OF assms(1)] root_of_new [OF assms(1)]] by simp
  show ?thesis
    using ll_restore_checkpoint [OF inv] by blast
qed

theorem ledger_checkpoint_roundtrip_witness:
  "ll_restore (ll_checkpoint demo_reserved) 7 = Inr (ll_shift 7 demo_reserved)"
proof -
  have "clock_ok 7 demo_reserved \<and> ids_ok demo_reserved"
  proof
    have "list_all (\<lambda>e. ll_tick demo_reserved < deadline_tick (bs_remaining (snd e))
        \<and> deadline_tick (bs_remaining (snd e)) = 100) (ll_scopes demo_reserved)"
      "ll_tick demo_reserved = 0" "bwf (ll_scopes demo_reserved)"
      by code_simp+
    then show "clock_ok 7 demo_reserved"
      by (auto simp: clock_ok_def bforall_entries list_all_iff)
    show "ids_ok demo_reserved"
      by code_simp
  qed
  then show ?thesis
    using ledger_checkpoint_roundtrip [OF demo_new_eq demo_run_reserved, of 7] by blast
qed

text \<open>
  A child scope that has counted a loop iteration poisons the ledger when it is closed:
  \<open>close_child\<close> leaves the loop counter behind, and \<open>restore\<close> rejects the ledger's own checkpoint
  from then on.
\<close>

theorem closed_loop_scope_breaks_restore:
  assumes "ll_new root b = Inr l0" and "ll_run l0 us l" and "CHR '':'' \<notin> set k"
    and "next_loop_iteration k lp mx l = (Inr i, l1)" and "close_child k l1 = (Inr (), l2)"
  shows "\<exists>e. ll_restore (ll_checkpoint l2) n = Inl e"
proof -
  have "ll_run l0 us l2"
    using run_step [OF run_step [OF assms(2) step_loop [OF assms(4)]] step_close [OF assms(5)]] by simp
  then have inv: "ll_inv l2"
    using ll_run_conserves [OF _ ll_inv_new [OF assms(1)] root_of_new [OF assms(1)]] by blast
  have "bget (ll_loop_iterations l1) (loop_key k lp) = Some i"
    using assms(4) by (auto simp: next_loop_iteration_def Let_def split: sum.splits if_splits option.splits)
  then have loop: "(loop_key k lp, i) \<in> set (ll_loop_iterations l2)"
    using assms(5) by (auto simp: close_child_def Let_def dest: map_of_SomeD split: sum.splits option.splits if_splits)
  have "bget (ll_scopes l2) k = None"
    using assms(5) by (auto simp: close_child_def can_close_child_def Let_def split: sum.splits option.splits if_splits)
  then have "\<not> loop_entry_ok (ll_scopes l2) (loop_key k lp, i)"
    using assms(3) by (simp add: loop_entry_ok_def loop_key_def split_once_append bcontains_def)
  with loop have "\<not> ids_ok l2"
    by (auto simp: ids_ok_def)
  then show ?thesis
    using ll_restore_checkpoint(2) [OF inv] by blast
qed

theorem closed_loop_scope_breaks_restore_witness:
  "\<exists>e. ll_restore (ll_checkpoint demo_closed) 0 = Inl e"
proof (rule closed_loop_scope_breaks_restore [OF demo_new_eq demo_run_child])
  show "CHR '':'' \<notin> set ''child''"
    by simp
  show "next_loop_iteration ''child'' ''loop'' 5 demo_child = (Inr 1, demo_looped)"
    "close_child ''child'' demo_looped = (Inr (), demo_closed)"
    by code_simp+
qed

end
