(* ===== verification/Context_Store.thy ===== *)
theory Context_Store
  imports Json
begin

text \<open>
  The store of context revisions (\<open>crates/aworkit-workflow-worker/src/context.rs\<close>): every change of
  the context of a run appends an immutable revision that names its parents. A revision identifier
  is a \<open>u64\<close>, the map of revisions is sorted by it. The JSON encoder and SHA-256 are parameters. A
  \<open>Map\<close> is built and compared by its entries in key order.
\<close>

section \<open>Data\<close>

datatype revision_kind =
    RkRoot | RkReplace | RkPatch | RkFork | RkProjection | RkForEach | RkJoin | RkChildRoot | RkChildIntegration

record context_provenance =
  pv_kind :: revision_kind
  pv_operation_id :: string
  pv_source_pointer :: "string option"
  pv_omitted_pointers :: "string list"
  pv_child_id :: "string option"

record context_revision =
  cr_id :: u64
  cr_parents :: "u64 list"
  cr_value :: json
  cr_content_hash :: string
  cr_lineage :: "string list"
  cr_provenance :: context_provenance

datatype join_strategy = RequireEqual | ObjectUnion | OrderedArray

record join_contract =
  jc_contract_id :: string
  jc_common_ancestor :: u64
  jc_ordered_heads :: "u64 list"
  jc_strategy :: join_strategy

record child_context_spec =
  cs_child_id :: string
  cs_parent_revision :: u64
  cs_selected_pointers :: "string list list"
  cs_instructions :: json

datatype child_integration = ReplaceAtKey string | MergeObjectAtKey string | AppendSummaryAtKey string

datatype context_error =
    CxUnknownRevision u64
  | CxInvalidJoin
  | CxUnequalBranches
  | CxConflictingJoin
  | CxMissingPath string
  | CxNotArray
  | CxTooLarge
  | CxRevisionLimit
  | CxUndeclaredJoin
  | CxRevisionExhausted
  | CxInvalidChildIntegration
  | CxPatchRequiresObject

record child_record =
  ch_root_revision :: u64
  ch_integrated :: bool

record context_store =
  cx_revisions :: "(u64, context_revision) bmap"
  cx_heads :: "u64 list"
  cx_children :: "(string, child_record) bmap"
  cx_next_id :: u64
  cx_max_revisions :: usize
  cx_max_inline_bytes :: usize

text \<open>\<open>serde_json::to_vec\<close> of a value and of the triple that \<open>hash_revision\<close> hashes, and SHA-256.\<close>

record context_codec =
  cc_value :: "json \<Rightarrow> string option"
  cc_revision :: "u64 list \<Rightarrow> json \<Rightarrow> context_provenance \<Rightarrow> string"
  cc_sha :: digest

definition provenance_simple :: "revision_kind \<Rightarrow> string \<Rightarrow> context_provenance" where
  "provenance_simple kind operation_id =
     \<lparr>pv_kind = kind, pv_operation_id = operation_id, pv_source_pointer = None, pv_omitted_pointers = [],
      pv_child_id = None\<rparr>"

definition encoded_size :: "context_codec \<Rightarrow> json \<Rightarrow> context_error + usize" where
  "encoded_size c value = (case cc_value c value of None \<Rightarrow> Inl CxTooLarge | Some bytes \<Rightarrow> Inr (length bytes))"

definition hash_revision :: "context_codec \<Rightarrow> u64 list \<Rightarrow> json \<Rightarrow> context_provenance \<Rightarrow> string" where
  "hash_revision c parents value provenance = cc_sha c (cc_revision c parents value provenance)"

section \<open>Creation and appending\<close>

definition cx_with_limits :: "context_codec \<Rightarrow> json \<Rightarrow> usize \<Rightarrow> usize \<Rightarrow> context_error + context_store" where
  "cx_with_limits c root max_revisions max_inline_bytes =
     (if max_revisions = 0 then Inl CxTooLarge
      else bind_r (encoded_size c root) (\<lambda>size.
        if max_inline_bytes < size then Inl CxTooLarge
        else let provenance = provenance_simple RkRoot ''root'';
                 revision = \<lparr>cr_id = 1, cr_parents = [], cr_value = root,
                   cr_content_hash = hash_revision c [] root provenance, cr_lineage = [''root''],
                   cr_provenance = provenance\<rparr> in
          Inr \<lparr>cx_revisions = [(1, revision)], cx_heads = [1], cx_children = [], cx_next_id = 2,
               cx_max_revisions = max_revisions, cx_max_inline_bytes = max_inline_bytes\<rparr>))"

definition cx_get :: "u64 \<Rightarrow> context_store \<Rightarrow> context_error + context_revision" where
  "cx_get i s = ok_or (bget (cx_revisions s) i) (CxUnknownRevision i)"

text \<open>The loop over the parents: each must exist, and none may occur twice.\<close>

fun check_parents :: "(u64, context_revision) bmap \<Rightarrow> u64 list \<Rightarrow> u64 list \<Rightarrow> context_error + unit" where
  "check_parents revisions [] unique = Inr ()"
| "check_parents revisions (p # ps) unique =
     (if bget revisions p = None then Inl (CxUnknownRevision p)
      else if p \<in> set unique then Inl CxInvalidJoin
      else check_parents revisions ps (sinsert p unique))"

definition append_with_provenance ::
  "context_codec \<Rightarrow> u64 list \<Rightarrow> json \<Rightarrow> context_provenance \<Rightarrow> string option \<Rightarrow> context_store
     \<Rightarrow> (context_error + u64) \<times> context_store" where
  "append_with_provenance c parents value provenance lineage_suffix s =
     (case (if parents = [] then Inl CxInvalidJoin
            else if cx_max_revisions s \<le> length (cx_revisions s) then Inl CxRevisionLimit
            else bind_r (encoded_size c value) (\<lambda>size.
              if cx_max_inline_bytes s < size then Inl CxTooLarge
              else bind_r (check_parents (cx_revisions s) parents []) (\<lambda>_.
                   bind_r (ok_or (checked_add (cx_next_id s) 1) CxRevisionExhausted) (\<lambda>next_id.
                   bind_r (cx_get (hd parents) s) (\<lambda>first.
                   Inr (next_id, cr_lineage first @ (case lineage_suffix of None \<Rightarrow> [] | Some suffix \<Rightarrow> [suffix]))))))) of
        Inl e \<Rightarrow> (Inl e, s)
      | Inr (next_id, lineage) \<Rightarrow>
          let i = cx_next_id s;
              revision = \<lparr>cr_id = i, cr_parents = parents, cr_value = value,
                cr_content_hash = hash_revision c parents value provenance, cr_lineage = lineage,
                cr_provenance = provenance\<rparr> in
          (Inr i,
           s\<lparr>cx_next_id := next_id, cx_revisions := binsert i revision (cx_revisions s),
             cx_heads := sinsert i (filter (\<lambda>h. h \<notin> set parents) (cx_heads s))\<rparr>))"

text \<open>\<open>format!("{}", id)\<close>.\<close>

definition show_id :: "u64 \<Rightarrow> string" where
  "show_id i = show_nat (unat i)"

definition cx_append :: "context_codec \<Rightarrow> u64 \<Rightarrow> json \<Rightarrow> context_store \<Rightarrow> (context_error + u64) \<times> context_store" where
  "cx_append c parent value s =
     append_with_provenance c [parent] value (provenance_simple RkReplace (''replace-'' @ show_id parent)) None s"

definition patch_object ::
  "context_codec \<Rightarrow> u64 \<Rightarrow> string \<Rightarrow> (string, json) bmap \<Rightarrow> context_store \<Rightarrow> (context_error + u64) \<times> context_store" where
  "patch_object c parent operation_id patch s =
     (case bind_r (cx_get parent s) (\<lambda>r. ok_or (as_object (cr_value r)) CxPatchRequiresObject) of
        Inl e \<Rightarrow> (Inl e, s)
      | Inr object \<Rightarrow>
          append_with_provenance c [parent] (JObject (fold (\<lambda>(k, v). binsert k v) patch object))
            (provenance_simple RkPatch operation_id) None s)"

section \<open>Branching\<close>

fun fork_loop ::
  "context_codec \<Rightarrow> u64 \<Rightarrow> json \<Rightarrow> nat list \<Rightarrow> u64 list \<Rightarrow> context_store \<Rightarrow> (context_error + u64 list) \<times> context_store" where
  "fork_loop c parent base [] heads s = (Inr heads, s)"
| "fork_loop c parent base (index # indexes) heads s =
     (case append_with_provenance c [parent] base
             (provenance_simple RkFork (''fork-'' @ show_id parent @ ''-'' @ show_nat index))
             (Some (''branch-'' @ show_nat index)) s of
        (Inl e, s') \<Rightarrow> (Inl e, s')
      | (Inr i, s') \<Rightarrow> fork_loop c parent base indexes (heads @ [i]) s')"

definition cx_fork :: "context_codec \<Rightarrow> u64 \<Rightarrow> usize \<Rightarrow> context_store \<Rightarrow> (context_error + u64 list) \<times> context_store" where
  "cx_fork c parent copies s =
     (if copies = 0 then (Inl CxInvalidJoin, s)
      else case cx_get parent s of
        Inl e \<Rightarrow> (Inl e, s)
      | Inr r \<Rightarrow> fork_loop c parent (cr_value r) [0..<copies] [] s)"

text \<open>Following the keys of a path, with \<open>missing\<close> the path of the error.\<close>

fun walk_path :: "string \<Rightarrow> string list \<Rightarrow> json \<Rightarrow> context_error + json" where
  "walk_path missing [] value = Inr value"
| "walk_path missing (key # keys) value =
     (case jget value key of None \<Rightarrow> Inl (CxMissingPath missing) | Some v \<Rightarrow> walk_path missing keys v)"

definition pointer_path :: "string list \<Rightarrow> string" where
  "pointer_path keys = ''/'' @ join_with ''/'' keys"

definition cx_project :: "context_codec \<Rightarrow> u64 \<Rightarrow> string list \<Rightarrow> context_store \<Rightarrow> (context_error + u64) \<times> context_store" where
  "cx_project c parent keys s =
     (case bind_r (cx_get parent s) (\<lambda>r. walk_path (pointer_path keys) keys (cr_value r)) of
        Inl e \<Rightarrow> (Inl e, s)
      | Inr value \<Rightarrow>
          append_with_provenance c [parent] value
            ((provenance_simple RkProjection (''project-'' @ show_id parent @ ''-'' @ join_with ''.'' keys))
               \<lparr>pv_source_pointer := Some (pointer_path keys)\<rparr>) None s)"

fun for_each_loop ::
  "context_codec \<Rightarrow> u64 \<Rightarrow> nat \<Rightarrow> json list \<Rightarrow> u64 list \<Rightarrow> context_store \<Rightarrow> (context_error + u64 list) \<times> context_store" where
  "for_each_loop c parent index [] heads s = (Inr heads, s)"
| "for_each_loop c parent index (item # items) heads s =
     (case append_with_provenance c [parent] item
             (provenance_simple RkForEach (''foreach-'' @ show_id parent @ ''-'' @ show_nat index))
             (Some (''item-'' @ show_nat index)) s of
        (Inl e, s') \<Rightarrow> (Inl e, s')
      | (Inr i, s') \<Rightarrow> for_each_loop c parent (Suc index) items (heads @ [i]) s')"

definition for_each_window ::
  "context_codec \<Rightarrow> u64 \<Rightarrow> usize \<Rightarrow> usize \<Rightarrow> context_store \<Rightarrow> (context_error + u64 list) \<times> context_store" where
  "for_each_window c parent start limit s =
     (case bind_r (cx_get parent s) (\<lambda>r. ok_or (as_array (cr_value r)) CxNotArray) of
        Inl e \<Rightarrow> (Inl e, s)
      | Inr items \<Rightarrow> for_each_loop c parent start (take limit (drop start items)) [] s)"

definition cx_for_each :: "context_codec \<Rightarrow> u64 \<Rightarrow> context_store \<Rightarrow> (context_error + u64 list) \<times> context_store" where
  "cx_for_each c parent s =
     (case bind_r (cx_get parent s) (\<lambda>r. ok_or (as_array (cr_value r)) CxNotArray) of
        Inl e \<Rightarrow> (Inl e, s)
      | Inr items \<Rightarrow> for_each_window c parent 0 (length items) s)"

section \<open>Ancestry\<close>

definition revision_parents :: "(u64, context_revision) bmap \<Rightarrow> u64 \<Rightarrow> u64 list" where
  "revision_parents revisions i = (case bget revisions i of None \<Rightarrow> [] | Some r \<Rightarrow> cr_parents r)"

text \<open>
  The search of \<open>is_descendant_of\<close>; the top of the stack comes first. An identifier without a
  revision has no parents.
\<close>

function descends :: "(u64, context_revision) bmap \<Rightarrow> u64 \<Rightarrow> u64 list \<Rightarrow> u64 list \<Rightarrow> bool" where
  "descends revisions ancestor [] seen = False"
| "descends revisions ancestor (i # pending) seen =
     (if i = ancestor then True
      else if i \<in> set seen then descends revisions ancestor pending seen
      else descends revisions ancestor (rev (revision_parents revisions i) @ pending) (sinsert i seen))"
  by pat_completeness auto
termination
proof (relation "measures [\<lambda>(m, _, _, seen). card (set (bkeys m) - set seen), \<lambda>(_, _, pending, _). length pending]", goal_cases)
  case (3 m ancestor i pending seen)
  show ?case
  proof (cases "bget m i")
    case None
    then have "set (bkeys m) - set (sinsert i seen) = set (bkeys m) - set seen"
      by (auto simp: map_of_eq_None_iff)
    with None show ?thesis
      by (simp add: revision_parents_def)
  next
    case (Some r)
    then have "i \<in> set (bkeys m)"
      by (auto simp: image_iff dest!: map_of_SomeD intro!: bexI)
    with 3 have "set (bkeys m) - set (sinsert i seen) \<subset> set (bkeys m) - set seen"
      by auto
    then have "card (set (bkeys m) - set (sinsert i seen)) < card (set (bkeys m) - set seen)"
      by (intro psubset_card_mono) simp_all
    then show ?thesis by simp
  qed
qed simp_all

definition is_descendant_of :: "u64 \<Rightarrow> u64 \<Rightarrow> context_store \<Rightarrow> bool" where
  "is_descendant_of candidate ancestor s = descends (cx_revisions s) ancestor [candidate] []"

section \<open>Joins\<close>

text \<open>Inserting entries one by one; an entry that is there with another value is a conflict.\<close>

fun union_entries :: "(string, json) bmap \<Rightarrow> (string, json) bmap \<Rightarrow> context_error + (string, json) bmap" where
  "union_entries [] joined = Inr joined"
| "union_entries ((key, value) # entries) joined =
     (case bget joined key of
        Some previous \<Rightarrow>
          if previous \<noteq> value then Inl CxConflictingJoin else union_entries entries (binsert key value joined)
      | None \<Rightarrow> union_entries entries (binsert key value joined))"

fun union_objects :: "json list \<Rightarrow> (string, json) bmap \<Rightarrow> context_error + (string, json) bmap" where
  "union_objects [] joined = Inr joined"
| "union_objects (v # vs) joined =
     bind_r (ok_or (as_object v) CxConflictingJoin) (\<lambda>object.
     bind_r (union_entries object joined) (\<lambda>joined'. union_objects vs joined'))"

definition join_value :: "join_strategy \<Rightarrow> json list \<Rightarrow> context_error + json" where
  "join_value strategy values =
     (case strategy of
        RequireEqual \<Rightarrow>
          if list_all (\<lambda>(a, b). a = b) (zip values (tl values)) then Inr (hd values) else Inl CxUnequalBranches
      | ObjectUnion \<Rightarrow> bind_r (union_objects values []) (\<lambda>joined. Inr (JObject joined))
      | OrderedArray \<Rightarrow> Inr (JArray values))"

definition join_values ::
  "context_codec \<Rightarrow> u64 list \<Rightarrow> join_strategy \<Rightarrow> context_provenance \<Rightarrow> context_store \<Rightarrow> (context_error + u64) \<times> context_store" where
  "join_values c ordered_heads strategy provenance s =
     (case bind_r (try_map (\<lambda>i. cx_get i s) ordered_heads) (\<lambda>revisions. join_value strategy (map cr_value revisions)) of
        Inl e \<Rightarrow> (Inl e, s)
      | Inr value \<Rightarrow> append_with_provenance c ordered_heads value provenance (Some ''join'') s)"

definition cx_join :: "context_codec \<Rightarrow> u64 list \<Rightarrow> join_strategy \<Rightarrow> context_store \<Rightarrow> (context_error + u64) \<times> context_store" where
  "cx_join c heads strategy s =
     (let unique = bset_of_list heads in
      if length unique < 2 then (Inl CxInvalidJoin, s)
      else join_values c unique strategy (provenance_simple RkJoin ''compat-join'') s)"

definition join_declared :: "context_codec \<Rightarrow> join_contract \<Rightarrow> context_store \<Rightarrow> (context_error + u64) \<times> context_store" where
  "join_declared c contract s =
     (if length (jc_ordered_heads contract) < 2
         \<or> length (bset_of_list (jc_ordered_heads contract)) \<noteq> length (jc_ordered_heads contract)
         \<or> (\<exists>head \<in> set (jc_ordered_heads contract).
              head \<notin> set (cx_heads s) \<or> \<not> is_descendant_of head (jc_common_ancestor contract) s)
      then (Inl CxUndeclaredJoin, s)
      else join_values c (jc_ordered_heads contract) (jc_strategy contract)
             (provenance_simple RkJoin (jc_contract_id contract)) s)"

section \<open>Children\<close>

fun select_pointers :: "json \<Rightarrow> string list list \<Rightarrow> (string, json) bmap \<Rightarrow> context_error + (string, json) bmap" where
  "select_pointers parent [] selected = Inr selected"
| "select_pointers parent (pointer # pointers) selected =
     bind_r (walk_path (pointer_path pointer) pointer parent) (\<lambda>value.
     select_pointers parent pointers (binsert (join_with ''.'' pointer) value selected))"

definition spawn_child :: "context_codec \<Rightarrow> child_context_spec \<Rightarrow> context_store \<Rightarrow> (context_error + u64) \<times> context_store" where
  "spawn_child c spec s =
     (if bcontains (cx_children s) (cs_child_id spec) then (Inl CxInvalidChildIntegration, s)
      else case bind_r (cx_get (cs_parent_revision spec) s) (\<lambda>r.
                  select_pointers (cr_value r) (cs_selected_pointers spec) []) of
        Inl e \<Rightarrow> (Inl e, s)
      | Inr selected \<Rightarrow>
          (case append_with_provenance c [cs_parent_revision spec]
                  (JObject (binsert ''instructions'' (cs_instructions spec) selected))
                  ((provenance_simple RkChildRoot (''spawn-'' @ cs_child_id spec))\<lparr>pv_child_id := Some (cs_child_id spec)\<rparr>)
                  (Some (''child-'' @ cs_child_id spec)) s of
             (Inl e, s') \<Rightarrow> (Inl e, s')
           | (Inr root_revision, s') \<Rightarrow>
               (Inr root_revision,
                s'\<lparr>cx_heads := sinsert (cs_parent_revision spec) (cx_heads s'),
                   cx_children := binsert (cs_child_id spec)
                     \<lparr>ch_root_revision = root_revision, ch_integrated = False\<rparr> (cx_children s')\<rparr>)))"

fun integrate_value :: "child_integration \<Rightarrow> json \<Rightarrow> (string, json) bmap \<Rightarrow> context_error + (string, json) bmap" where
  "integrate_value (ReplaceAtKey key) result parent = Inr (binsert key result parent)"
| "integrate_value (MergeObjectAtKey key) result parent =
     bind_r (ok_or (as_object result) CxConflictingJoin) (\<lambda>fields.
     bind_r (ok_or (as_object (case bget parent key of None \<Rightarrow> JObject [] | Some v \<Rightarrow> v)) CxConflictingJoin) (\<lambda>target.
     bind_r (union_entries fields target) (\<lambda>merged. Inr (binsert key (JObject merged) parent))))"
| "integrate_value (AppendSummaryAtKey key) result parent =
     bind_r (ok_or (as_array (case bget parent key of None \<Rightarrow> JArray [] | Some v \<Rightarrow> v)) CxConflictingJoin) (\<lambda>target.
     Inr (binsert key (JArray (target @ [result])) parent))"

definition integrate_child ::
  "context_codec \<Rightarrow> string \<Rightarrow> u64 \<Rightarrow> u64 \<Rightarrow> json \<Rightarrow> child_integration \<Rightarrow> context_store \<Rightarrow> (context_error + u64) \<times> context_store" where
  "integrate_child c child_id child_head parent_head result integration s =
     (case bget (cx_children s) child_id of
        None \<Rightarrow> (Inl CxInvalidChildIntegration, s)
      | Some child \<Rightarrow>
          if ch_integrated child \<or> child_head \<notin> set (cx_heads s) \<or> parent_head \<notin> set (cx_heads s)
             \<or> \<not> is_descendant_of child_head (ch_root_revision child) s
          then (Inl CxInvalidChildIntegration, s)
          else case bind_r (cx_get parent_head s) (\<lambda>r.
                    bind_r (ok_or (as_object (cr_value r)) CxPatchRequiresObject) (\<lambda>parent.
                    integrate_value integration result parent)) of
            Inl e \<Rightarrow> (Inl e, s)
          | Inr parent \<Rightarrow>
              (case append_with_provenance c [parent_head, child_head] (JObject parent)
                      ((provenance_simple RkChildIntegration (''integrate-'' @ child_id))\<lparr>pv_child_id := Some child_id\<rparr>)
                      (Some (''integrated-'' @ child_id)) s of
                 (Inl e, s') \<Rightarrow> (Inl e, s')
               | (Inr i, s') \<Rightarrow>
                   (Inr i, s'\<lparr>cx_children := bmodify child_id (\<lambda>ch. ch\<lparr>ch_integrated := True\<rparr>) (cx_children s')\<rparr>)))"

section \<open>Pruning\<close>

text \<open>The loop that collects the ancestors of the committed heads.\<close>

function reach_loop :: "(u64, context_revision) bmap \<Rightarrow> u64 list \<Rightarrow> u64 list \<Rightarrow> context_error + u64 list" where
  "reach_loop revisions [] reachable = Inr reachable"
| "reach_loop revisions (i # pending) reachable =
     (if i \<in> set reachable then reach_loop revisions pending reachable
      else case bget revisions i of
        None \<Rightarrow> Inl (CxUnknownRevision i)
      | Some r \<Rightarrow> reach_loop revisions (pending @ cr_parents r) (sinsert i reachable))"
  by pat_completeness auto
termination
proof (relation "measures [\<lambda>(m, _, reachable). card (set (bkeys m) - set reachable), \<lambda>(_, pending, _). length pending]", goal_cases)
  case (3 m i pending reachable r)
  from 3(2) have "i \<in> set (bkeys m)"
    by (auto simp: image_iff dest!: map_of_SomeD intro!: bexI)
  with 3(1) have "set (bkeys m) - set (sinsert i reachable) \<subset> set (bkeys m) - set reachable"
    by auto
  then have "card (set (bkeys m) - set (sinsert i reachable)) < card (set (bkeys m) - set reachable)"
    by (intro psubset_card_mono) simp_all
  then show ?case by simp
qed simp_all

definition prune_unreachable :: "u64 list \<Rightarrow> context_store \<Rightarrow> (context_error + usize) \<times> context_store" where
  "prune_unreachable committed_heads s =
     (case reach_loop (cx_revisions s) committed_heads [] of
        Inl e \<Rightarrow> (Inl e, s)
      | Inr reachable \<Rightarrow>
          let revisions = filter (\<lambda>e. fst e \<in> set reachable) (cx_revisions s) in
          (Inr (length (cx_revisions s) - length revisions),
           s\<lparr>cx_revisions := revisions, cx_heads := filter (\<lambda>h. h \<in> set reachable) (cx_heads s),
             cx_children := filter (\<lambda>e. ch_root_revision (snd e) \<in> set reachable) (cx_children s)\<rparr>))"

end
