(* ===== verification/Context_Laws.thy ===== *)
theory Context_Laws
  imports Context_Store
begin

text \<open>
  The laws of the context store: revisions form a graph in which parents are older than their
  children, an identifier never denotes two revisions, the two graph searches decide ancestry, and
  pruning keeps exactly the ancestors of the committed heads.
\<close>

section \<open>Searches\<close>

definition parent_edges :: "(u64, context_revision) bmap \<Rightarrow> (u64 \<times> u64) set" where
  "parent_edges m = {(i, p). p \<in> set (revision_parents m i)}"

lemma parent_edgesI: "p \<in> set (revision_parents m i) \<Longrightarrow> (i, p) \<in> parent_edges m"
  by (simp add: parent_edges_def)

text \<open>A set that holds the parents of its members holds all their ancestors.\<close>

lemma closed_ancestors:
  assumes "(i, j) \<in> (parent_edges m)\<^sup>*" and "i \<in> S" and "\<And>k. k \<in> S \<Longrightarrow> set (revision_parents m k) \<subseteq> S"
  shows "j \<in> S"
  using assms by (induction rule: rtrancl_induct) (auto simp: parent_edges_def)

lemma descends_sound: "descends m a pending seen \<Longrightarrow> \<exists>i \<in> set pending. (i, a) \<in> (parent_edges m)\<^sup>*"
proof (induction m a pending seen rule: descends.induct)
  case (2 m a i pending seen)
  show ?case
  proof (cases "i = a \<or> i \<in> set seen")
    case True
    with 2 show ?thesis by (auto split: if_splits)
  next
    case False
    with 2 obtain j where "j \<in> set (revision_parents m i) \<union> set pending" "(j, a) \<in> (parent_edges m)\<^sup>*"
      by auto
    then show ?thesis
      by (auto intro: converse_rtrancl_into_rtrancl parent_edgesI)
  qed
qed simp

lemma descends_complete:
  assumes "\<not> descends m a pending seen" and "a \<notin> set seen"
    and "\<And>k. k \<in> set seen \<Longrightarrow> set (revision_parents m k) \<subseteq> set seen \<union> set pending"
  shows "\<forall>i \<in> set seen \<union> set pending. (i, a) \<notin> (parent_edges m)\<^sup>*"
  using assms
proof (induction m a pending seen rule: descends.induct)
  case (1 m a seen)
  then show ?case
    using closed_ancestors [of _ a m "set seen"] by auto
next
  case (2 m a i pending seen)
  show ?case
  proof (cases "i \<in> set seen")
    case True
    with 2(1) 2(3-5) have "\<forall>j \<in> set seen \<union> set pending. (j, a) \<notin> (parent_edges m)\<^sup>*"
      by (auto split: if_splits)
    with True show ?thesis by auto
  next
    case False
    from 2(3) have "i \<noteq> a" by auto
    from False this 2(3-5) have "\<forall>j \<in> set (sinsert i seen) \<union> set (rev (revision_parents m i) @ pending). (j, a) \<notin> (parent_edges m)\<^sup>*"
      by (intro 2(2)) (auto, blast?)
    then show ?thesis by auto
  qed
qed

lemma is_descendant_of_iff: "is_descendant_of i a s \<longleftrightarrow> (i, a) \<in> (parent_edges (cx_revisions s))\<^sup>*"
proof
  show "is_descendant_of i a s \<Longrightarrow> (i, a) \<in> (parent_edges (cx_revisions s))\<^sup>*"
    unfolding is_descendant_of_def by (drule descends_sound) simp
  show "(i, a) \<in> (parent_edges (cx_revisions s))\<^sup>* \<Longrightarrow> is_descendant_of i a s"
    unfolding is_descendant_of_def by (rule ccontr, drule descends_complete) simp_all
qed

lemma reach_loop_closed:
  assumes "reach_loop m pending reachable = Inr R"
    and "\<And>k. k \<in> set reachable \<Longrightarrow> set (revision_parents m k) \<subseteq> set reachable \<union> set pending"
  shows "set reachable \<union> set pending \<subseteq> set R \<and> (\<forall>k \<in> set R. set (revision_parents m k) \<subseteq> set R)
    \<and> (\<forall>k \<in> set R. \<exists>i \<in> set reachable \<union> set pending. (i, k) \<in> (parent_edges m)\<^sup>*)"
  using assms
proof (induction m pending reachable rule: reach_loop.induct)
  case (1 m reachable)
  then show ?case by auto
next
  case (2 m i pending reachable)
  show ?case
  proof (cases "i \<in> set reachable")
    case True
    with 2(3) have "reach_loop m pending reachable = Inr R" by simp
    from 2(1) [OF True this] 2(4) True show ?thesis
      by (simp add: insert_absorb)
  next
    case False
    with 2(3) obtain r where r: "bget m i = Some r" and rec: "reach_loop m (pending @ cr_parents r) (sinsert i reachable) = Inr R"
      by (auto split: option.splits)
    have parents: "revision_parents m i = cr_parents r"
      using r by (simp add: revision_parents_def)
    have IH: "set (sinsert i reachable) \<union> set (pending @ cr_parents r) \<subseteq> set R \<and> (\<forall>k \<in> set R. set (revision_parents m k) \<subseteq> set R)
        \<and> (\<forall>k \<in> set R. \<exists>j \<in> set (sinsert i reachable) \<union> set (pending @ cr_parents r). (j, k) \<in> (parent_edges m)\<^sup>*)"
      by (rule 2(2) [OF False r rec]) (use 2(4) parents in auto)
    have up: "\<exists>j \<in> set reachable \<union> set (i # pending). (j, k) \<in> (parent_edges m)\<^sup>*"
      if "j \<in> set (cr_parents r)" "(j, k) \<in> (parent_edges m)\<^sup>*" for j k
      using that parents by (auto intro!: bexI [of _ i] converse_rtrancl_into_rtrancl [of i j] parent_edgesI)
    have "\<exists>j \<in> set reachable \<union> set (i # pending). (j, k) \<in> (parent_edges m)\<^sup>*" if "k \<in> set R" for k
    proof -
      from IH that obtain j where j: "j \<in> set (sinsert i reachable) \<union> set (pending @ cr_parents r)" "(j, k) \<in> (parent_edges m)\<^sup>*"
        by blast
      then show ?thesis
        using up [of j k] by (cases "j \<in> set (cr_parents r)") auto
    qed
    with IH show ?thesis
      by simp
  qed
qed

lemma reach_loop_set:
  assumes "reach_loop m heads [] = Inr R"
  shows "set R = {k. \<exists>h \<in> set heads. (h, k) \<in> (parent_edges m)\<^sup>*}"
proof -
  have R: "set heads \<subseteq> set R" "\<forall>k \<in> set R. set (revision_parents m k) \<subseteq> set R"
    "\<forall>k \<in> set R. \<exists>h \<in> set heads. (h, k) \<in> (parent_edges m)\<^sup>*"
    using reach_loop_closed [OF assms] by auto
  then show ?thesis
    using closed_ancestors [of _ _ m "set R"] by blast
qed

lemma reach_loop_ok:
  assumes "\<And>k r. bget m k = Some r \<Longrightarrow> \<forall>p \<in> set (cr_parents r). bget m p \<noteq> None" and "\<forall>i \<in> set pending. bget m i \<noteq> None"
  shows "is_ok (reach_loop m pending reachable)"
  using assms by (induction m pending reachable rule: reach_loop.induct) (auto split: option.splits, blast?)

section \<open>The invariant\<close>

definition revision_ok :: "context_codec \<Rightarrow> context_store \<Rightarrow> u64 \<Rightarrow> context_revision \<Rightarrow> bool" where
  "revision_ok c s i r \<longleftrightarrow> cr_id r = i \<and> i < cx_next_id s \<and> distinct (cr_parents r)
     \<and> (\<forall>p \<in> set (cr_parents r). p < i \<and> bget (cx_revisions s) p \<noteq> None)
     \<and> cr_content_hash r = hash_revision c (cr_parents r) (cr_value r) (cr_provenance r)
     \<and> (\<exists>n. encoded_size c (cr_value r) = Inr n \<and> n \<le> cx_max_inline_bytes s)"

definition cx_inv :: "context_codec \<Rightarrow> context_store \<Rightarrow> bool" where
  "cx_inv c s \<longleftrightarrow> bwf (cx_revisions s) \<and> bforall (revision_ok c s) (cx_revisions s)
     \<and> swf (cx_heads s) \<and> (\<forall>h \<in> set (cx_heads s). bget (cx_revisions s) h \<noteq> None)
     \<and> bwf (cx_children s) \<and> bforall (\<lambda>_ ch. bget (cx_revisions s) (ch_root_revision ch) \<noteq> None) (cx_children s)
     \<and> length (cx_revisions s) \<le> cx_max_revisions s"

lemma cx_invD:
  assumes "cx_inv c s"
  shows "bwf (cx_revisions s)" and "bforall (revision_ok c s) (cx_revisions s)" and "swf (cx_heads s)"
    and "\<forall>h \<in> set (cx_heads s). bget (cx_revisions s) h \<noteq> None" and "bwf (cx_children s)"
    and "bforall (\<lambda>_ ch. bget (cx_revisions s) (ch_root_revision ch) \<noteq> None) (cx_children s)"
    and "length (cx_revisions s) \<le> cx_max_revisions s"
  using assms by (simp_all add: cx_inv_def)

lemma cx_inv_revision: "cx_inv c s \<Longrightarrow> bget (cx_revisions s) i = Some r \<Longrightarrow> revision_ok c s i r"
  by (rule bforallD [OF cx_invD(2)])

text \<open>
  What every operation does to the store: revisions may be added under fresh identifiers or dropped,
  and are never changed.
\<close>

definition cx_evolves :: "context_codec \<Rightarrow> context_store \<Rightarrow> context_store \<Rightarrow> bool" where
  "cx_evolves c s t \<longleftrightarrow> cx_inv c t \<and> cx_next_id s \<le> cx_next_id t \<and> cx_max_revisions t = cx_max_revisions s
     \<and> cx_max_inline_bytes t = cx_max_inline_bytes s
     \<and> (\<forall>i r. bget (cx_revisions t) i = Some r \<longrightarrow> bget (cx_revisions s) i = Some r \<or> cx_next_id s \<le> i)"

lemma cx_evolves_refl: "cx_inv c s \<Longrightarrow> cx_evolves c s s"
  by (simp add: cx_evolves_def)

lemma cx_evolves_trans: "cx_evolves c s t \<Longrightarrow> cx_evolves c t u \<Longrightarrow> cx_evolves c s u"
  unfolding cx_evolves_def by (metis order_trans)

lemma cx_evolves_inv: "cx_evolves c s t \<Longrightarrow> cx_inv c t"
  by (simp add: cx_evolves_def)

lemma check_parents_Inr:
  "check_parents m ps u = Inr () \<longleftrightarrow> (\<forall>p \<in> set ps. bget m p \<noteq> None) \<and> distinct ps \<and> set ps \<inter> set u = {}"
  by (induction ps arbitrary: u) auto

lemma append_cases:
  assumes "append_with_provenance c ps v pv suffix s = (r, s')"
  obtains (err) e where "r = Inl e" "s' = s"
  | (ok) next_id lineage n where "r = Inr (cx_next_id s)" "unat next_id = unat (cx_next_id s) + 1"
      "length (cx_revisions s) < cx_max_revisions s" "encoded_size c v = Inr n" "n \<le> cx_max_inline_bytes s"
      "\<forall>p \<in> set ps. bget (cx_revisions s) p \<noteq> None" "distinct ps"
      "s' = s\<lparr>cx_next_id := next_id, cx_revisions := binsert (cx_next_id s)
          \<lparr>cr_id = cx_next_id s, cr_parents = ps, cr_value = v, cr_content_hash = hash_revision c ps v pv,
           cr_lineage = lineage, cr_provenance = pv\<rparr> (cx_revisions s),
        cx_heads := sinsert (cx_next_id s) (filter (\<lambda>h. h \<notin> set ps) (cx_heads s))\<rparr>"
proof (cases r)
  case (Inl e)
  with assms have "s' = s"
    by (auto simp: append_with_provenance_def Let_def split: sum.splits if_splits)
  with Inl show ?thesis by (rule err)
next
  case (Inr i)
  with assms show ?thesis
    by (auto simp: append_with_provenance_def Let_def bind_r_Inr ok_or_Inr check_parents_Inr checked_add_Some
        split: sum.splits if_splits intro!: ok)
qed

lemma cx_evolves_append:
  assumes inv: "cx_inv c s" and op: "append_with_provenance c ps v pv suffix s = (r, s')"
  shows "cx_evolves c s s'"
  using op
proof (cases rule: append_cases)
  case err
  with inv show ?thesis by (simp add: cx_evolves_refl)
next
  case (ok next_id lineage n)
  note D = cx_invD [OF inv]
  let ?i = "cx_next_id s"
  let ?r = "\<lparr>cr_id = ?i, cr_parents = ps, cr_value = v, cr_content_hash = hash_revision c ps v pv,
           cr_lineage = lineage, cr_provenance = pv\<rparr>"
  have lt: "?i < next_id"
    using ok(2) by (simp add: word_less_nat_alt)
  have old: "j < ?i" if "bget (cx_revisions s) j = Some x" for j x
    using cx_inv_revision [OF inv that] by (simp add: revision_ok_def)
  then have new: "bget (cx_revisions s) ?i = None"
    by (cases "bget (cx_revisions s) ?i") auto
  have "p < ?i" if "p \<in> set ps" for p
    using ok(6) that old by blast
  then have "revision_ok c s' ?i ?r"
    using lt ok(4-8) by (auto simp: revision_ok_def)
  moreover have "revision_ok c s' j x" if "bget (cx_revisions s) j = Some x" for j x
    using cx_inv_revision [OF inv that] lt ok(8) by (auto simp: revision_ok_def)
  ultimately have revs: "bforall (revision_ok c s') (cx_revisions s')"
    using ok(8) by (auto intro!: bforallI split: if_splits)
  have "length (cx_revisions s') = Suc (length (cx_revisions s))"
    using ok(8) new D(1) by (simp add: length_binsert bcontains_def)
  moreover have "bforall (\<lambda>_ ch. bget (cx_revisions s') (ch_root_revision ch) \<noteq> None) (cx_children s')"
    using D(6) ok(8) by (auto elim: bforall_mono)
  ultimately have "cx_inv c s'"
    using D revs ok(3,8) unfolding cx_inv_def by auto
  with lt ok(8) show ?thesis
    by (auto simp: cx_evolves_def split: if_splits)
qed

section \<open>The operations\<close>

lemma cx_evolves_fork_loop:
  "fork_loop c parent base indexes heads s = (r, s') \<Longrightarrow> cx_inv c s \<Longrightarrow> cx_evolves c s s'"
proof (induction c parent base indexes heads s rule: fork_loop.induct)
  case (2 c parent base index indexes heads s)
  then show ?case
    by (auto split: prod.splits sum.splits dest!: cx_evolves_append [OF 2(3)]
        intro: cx_evolves_trans cx_evolves_inv)
qed (simp add: cx_evolves_refl)

lemma cx_evolves_for_each_loop:
  "for_each_loop c parent index items heads s = (r, s') \<Longrightarrow> cx_inv c s \<Longrightarrow> cx_evolves c s s'"
proof (induction c parent index items heads s rule: for_each_loop.induct)
  case (2 c parent index item items heads s)
  then show ?case
    by (auto split: prod.splits sum.splits dest!: cx_evolves_append [OF 2(3)]
        intro: cx_evolves_trans cx_evolves_inv)
qed (simp add: cx_evolves_refl)

lemma cx_evolves_join_values:
  "cx_inv c s \<Longrightarrow> join_values c heads strategy pv s = (r, s') \<Longrightarrow> cx_evolves c s s'"
  by (auto simp: join_values_def intro: cx_evolves_refl cx_evolves_append split: sum.splits)

lemma revision_ok_frame [simp]:
  "revision_ok c (s\<lparr>cx_heads := hs\<rparr>) = revision_ok c s"
  "revision_ok c (s\<lparr>cx_children := chs\<rparr>) = revision_ok c s"
  by (simp_all add: revision_ok_def fun_eq_iff)

lemma cx_evolves_spawn_child:
  assumes inv: "cx_inv c s" and op: "spawn_child c spec s = (r, s')"
  shows "cx_evolves c s s'"
proof -
  let ?p = "cs_parent_revision spec"
  consider "s' = s"
    | v pv suffix i s1 where "append_with_provenance c [?p] v pv suffix s = (Inr i, s1)"
        "s' = s1\<lparr>cx_heads := sinsert ?p (cx_heads s1),
           cx_children := binsert (cs_child_id spec) \<lparr>ch_root_revision = i, ch_integrated = False\<rparr> (cx_children s1)\<rparr>"
    | v pv suffix e s1 where "append_with_provenance c [?p] v pv suffix s = (Inl e, s1)" "s' = s1"
    using op by (auto simp: spawn_child_def split: if_splits sum.splits prod.splits)
  then show ?thesis
  proof cases
    case (2 v pv suffix i s1)
    from cx_evolves_append [OF inv 2(1)] have ev: "cx_evolves c s s1" .
    from 2(1) have "bget (cx_revisions s1) ?p \<noteq> None" "bget (cx_revisions s1) i \<noteq> None"
      by (cases rule: append_cases; simp)+
    then have "cx_inv c s'"
      using cx_evolves_inv [OF ev] 2(2) by (auto simp: cx_inv_def elim: bforall_mono)
    with ev 2(2) show ?thesis
      by (simp add: cx_evolves_def)
  qed (use inv cx_evolves_refl cx_evolves_append in blast)+
qed

lemma cx_evolves_integrate_child:
  assumes inv: "cx_inv c s" and op: "integrate_child c child_id child_head parent_head v k s = (r, s')"
  shows "cx_evolves c s s'"
proof -
  consider "s' = s"
    | ps v pv suffix r1 s1 f where "append_with_provenance c ps v pv suffix s = (r1, s1)"
        "s' = s1\<lparr>cx_children := bmodify child_id (\<lambda>ch. ch\<lparr>ch_integrated := f ch\<rparr>) (cx_children s1)\<rparr>"
    | ps v pv suffix e s1 where "append_with_provenance c ps v pv suffix s = (Inl e, s1)" "s' = s1"
    using op by (auto simp: integrate_child_def split: option.splits if_splits sum.splits prod.splits)
  then show ?thesis
  proof cases
    case (2 ps v pv suffix r1 s1 f)
    from cx_evolves_append [OF inv 2(1)] have ev: "cx_evolves c s s1" .
    then have "cx_inv c s'"
      using cx_evolves_inv [OF ev] 2(2) by (auto simp: cx_inv_def elim: bforall_mono)
    with ev 2(2) show ?thesis
      by (simp add: cx_evolves_def)
  qed (use inv cx_evolves_refl cx_evolves_append in blast)+
qed

lemma cx_inv_parents:
  "cx_inv c s \<Longrightarrow> bget (cx_revisions s) k = Some r \<Longrightarrow> \<forall>p \<in> set (cr_parents r). bget (cx_revisions s) p \<noteq> None"
  by (drule cx_inv_revision) (auto simp: revision_ok_def)

lemma bget_retain: "bwf m \<Longrightarrow> bget (filter (\<lambda>e. fst e \<in> R) m) k = (if k \<in> R then bget m k else None)"
  by (induction m) (auto simp: bwf_Cons)

lemma cx_evolves_prune:
  assumes inv: "cx_inv c s" and op: "prune_unreachable heads s = (r, s')"
  shows "cx_evolves c s s'"
proof (cases "reach_loop (cx_revisions s) heads []")
  case (Inl e)
  with inv op show ?thesis
    by (simp add: prune_unreachable_def cx_evolves_refl)
next
  case (Inr R)
  note D = cx_invD [OF inv]
  from Inr op have revs: "cx_revisions s' = filter (\<lambda>e. fst e \<in> set R) (cx_revisions s)"
    and other: "cx_heads s' = filter (\<lambda>h. h \<in> set R) (cx_heads s)"
      "cx_children s' = filter (\<lambda>e. ch_root_revision (snd e) \<in> set R) (cx_children s)"
      "cx_next_id s' = cx_next_id s" "cx_max_revisions s' = cx_max_revisions s" "cx_max_inline_bytes s' = cx_max_inline_bytes s"
    by (auto simp: prune_unreachable_def Let_def)
  have get: "bget (cx_revisions s') k = (if k \<in> set R then bget (cx_revisions s) k else None)" for k
    unfolding revs by (rule bget_retain [OF D(1)])
  have closed: "\<forall>k \<in> set R. set (revision_parents (cx_revisions s) k) \<subseteq> set R"
    using reach_loop_closed [OF Inr] by simp
  have "revision_ok c s' k x" if "bget (cx_revisions s') k = Some x" for k x
  proof -
    from that have k: "k \<in> set R" "bget (cx_revisions s) k = Some x"
      by (auto simp: get split: if_splits)
    then have "set (cr_parents x) \<subseteq> set R"
      using closed by (force simp: revision_parents_def)
    with cx_inv_revision [OF inv k(2)] show ?thesis
      by (auto simp: revision_ok_def get other)
  qed
  then have "bforall (revision_ok c s') (cx_revisions s')"
    by (rule bforallI)
  moreover have "bforall (\<lambda>_ ch. bget (cx_revisions s') (ch_root_revision ch) \<noteq> None) (cx_children s')"
    using D(5,6) unfolding other bforall_entries [OF D(5)] bforall_entries [OF bwf_filter [OF D(5)]] by (auto simp: get)
  moreover have "bwf (cx_revisions s')" "length (cx_revisions s') \<le> length (cx_revisions s)"
    unfolding revs using D(1) by simp_all
  ultimately have "cx_inv c s'"
    using D by (auto simp: cx_inv_def other get)
  then show ?thesis
    by (auto simp: cx_evolves_def other get split: if_splits)
qed

section \<open>Runs\<close>

inductive cx_step :: "context_codec \<Rightarrow> context_store \<Rightarrow> context_store \<Rightarrow> bool" for c s where
  append: "cx_append c p v s = (r, t) \<Longrightarrow> cx_step c s t"
| append_full: "append_with_provenance c ps v pv suffix s = (r, t) \<Longrightarrow> cx_step c s t"
| patch: "patch_object c p op patch s = (r, t) \<Longrightarrow> cx_step c s t"
| fork: "cx_fork c p n s = (rs, t) \<Longrightarrow> cx_step c s t"
| project: "cx_project c p keys s = (r, t) \<Longrightarrow> cx_step c s t"
| for_each: "cx_for_each c p s = (rs, t) \<Longrightarrow> cx_step c s t"
| window: "for_each_window c p start limit s = (rs, t) \<Longrightarrow> cx_step c s t"
| join: "cx_join c hs strategy s = (r, t) \<Longrightarrow> cx_step c s t"
| declared: "join_declared c contract s = (r, t) \<Longrightarrow> cx_step c s t"
| spawn: "spawn_child c spec s = (r, t) \<Longrightarrow> cx_step c s t"
| integrate: "integrate_child c child ch ph v k s = (r, t) \<Longrightarrow> cx_step c s t"
| prune: "prune_unreachable hs s = (n, t) \<Longrightarrow> cx_step c s t"

lemma cx_step_evolves:
  assumes inv: "cx_inv c s" and step: "cx_step c s t"
  shows "cx_evolves c s t"
proof -
  note basic = inv cx_evolves_refl [OF inv] cx_evolves_append [OF inv]
  have window: "cx_evolves c s t" if "for_each_window c p start limit s = (rs, t)" for p start limit rs
    using that basic by (auto simp: for_each_window_def intro: cx_evolves_for_each_loop split: sum.splits)
  from step show ?thesis
    by cases (use basic window in \<open>auto simp: cx_append_def patch_object_def cx_fork_def cx_project_def cx_for_each_def
        cx_join_def join_declared_def Let_def split: sum.splits if_splits
        intro: cx_evolves_fork_loop cx_evolves_join_values cx_evolves_spawn_child cx_evolves_integrate_child cx_evolves_prune\<close>)
qed

interpretation cx: inv_system "cx_step c" "cx_inv c" for c
  by unfold_locales (blast intro: cx_evolves_inv cx_step_evolves)

lemma cx_steps_evolve: "(cx_step c)\<^sup>*\<^sup>* s t \<Longrightarrow> cx_inv c s \<Longrightarrow> cx_evolves c s t"
proof (induction rule: rtranclp_induct)
  case base
  then show ?case by (rule cx_evolves_refl)
next
  case (step t u)
  then show ?case
    by (blast intro: cx_evolves_trans cx_evolves_inv cx_step_evolves)
qed

lemma cx_inv_new: "cx_with_limits c root n b = Inr s \<Longrightarrow> cx_inv c s"
  by (auto simp: cx_with_limits_def bind_r_Inr Let_def cx_inv_def bwf_def swf_def bforall_def revision_ok_def
      split: if_splits)

section \<open>Properties\<close>

definition demo_context_codec :: context_codec where
  "demo_context_codec = \<lparr>cc_value = (\<lambda>_. Some ''{}''), cc_revision = (\<lambda>ps _ pv. concat (map show_id ps) @ pv_operation_id pv), cc_sha = tail_digest\<rparr>"

definition demo_root :: context_store where
  "demo_root = projr (cx_with_limits demo_context_codec (JObject [(''a'', JBool True)]) 8 100)"

definition demo_forked :: context_store where
  "demo_forked = snd (cx_fork demo_context_codec 1 2 demo_root)"

definition demo_joined :: context_store where
  "demo_joined = snd (cx_join demo_context_codec [3, 2] RequireEqual demo_forked)"

lemma demo_root_ok: "cx_with_limits demo_context_codec (JObject [(''a'', JBool True)]) 8 100 = Inr demo_root"
  by (simp add: demo_root_def cx_with_limits_def encoded_size_def demo_context_codec_def Let_def)

lemma demo_forked_steps: "(cx_step demo_context_codec)\<^sup>*\<^sup>* demo_root demo_forked"
  unfolding demo_forked_def by (rule r_into_rtranclp, rule cx_step.fork) (rule prod.collapse [symmetric])

lemma demo_joined_steps: "(cx_step demo_context_codec)\<^sup>*\<^sup>* demo_forked demo_joined"
  unfolding demo_joined_def by (rule r_into_rtranclp, rule cx_step.join) (rule prod.collapse [symmetric])

lemma demo_context_ids:
  "bkeys (cx_revisions demo_forked) = [1, 2, 3] \<and> cx_heads demo_forked = [2, 3]
   \<and> map_option cr_parents (bget (cx_revisions demo_joined) 4) = Some [2, 3]
   \<and> map fst (cx_revisions (snd (prune_unreachable [2] demo_joined))) = [1, 2]"
  by code_simp

text \<open>
  C27. A context store is well formed at every point of its life: each revision is stored under its
  own identifier, its parents are distinct, older than it and present, its content hash is the hash
  of its parents, value and provenance, its value is within the size limit, every head and every
  child's root is a stored revision, and there are at most as many revisions as the limit allows.
\<close>

theorem context_wellformed:
  assumes "cx_with_limits c root n b = Inr s" and "(cx_step c)\<^sup>*\<^sup>* s t"
  shows "(\<forall>i r. bget (cx_revisions t) i = Some r \<longrightarrow> cr_id r = i \<and> distinct (cr_parents r)
      \<and> (\<forall>p \<in> set (cr_parents r). p < i \<and> bget (cx_revisions t) p \<noteq> None)
      \<and> cr_content_hash r = hash_revision c (cr_parents r) (cr_value r) (cr_provenance r)
      \<and> (\<exists>size. encoded_size c (cr_value r) = Inr size \<and> size \<le> b))
    \<and> (\<forall>h \<in> set (cx_heads t). bget (cx_revisions t) h \<noteq> None)
    \<and> (\<forall>k ch. bget (cx_children t) k = Some ch \<longrightarrow> bget (cx_revisions t) (ch_root_revision ch) \<noteq> None)
    \<and> length (cx_revisions t) \<le> n"
proof -
  have ev: "cx_evolves c s t"
    by (rule cx_steps_evolve [OF assms(2) cx_inv_new [OF assms(1)]])
  then have inv: "cx_inv c t" and lim: "cx_max_revisions t = n" "cx_max_inline_bytes t = b"
    using assms(1) by (auto simp: cx_evolves_def cx_with_limits_def bind_r_Inr Let_def split: if_splits)
  note D = cx_invD [OF inv]
  show ?thesis
  proof (intro conjI allI impI)
    show "\<forall>h \<in> set (cx_heads t). bget (cx_revisions t) h \<noteq> None" "length (cx_revisions t) \<le> n"
      using D(4,7) lim by auto
    show "bget (cx_children t) k = Some ch \<Longrightarrow> bget (cx_revisions t) (ch_root_revision ch) \<noteq> None" for k ch
      by (rule bforallD [OF D(6)])
  qed (use cx_inv_revision [OF inv] lim in \<open>auto simp: revision_ok_def\<close>)
qed

theorem context_wellformed_witness:
  "map_option cr_id (bget (cx_revisions demo_forked) 3) = Some 3 \<and> bget (cx_revisions demo_forked) 2 \<noteq> None
   \<and> length (cx_revisions demo_forked) \<le> 8"
proof -
  have "bget (cx_revisions demo_forked) 3 \<noteq> None" and "2 \<in> set (cx_heads demo_forked)"
    by code_simp+
  with context_wellformed [OF demo_root_ok demo_forked_steps] show ?thesis
    by fastforce
qed

text \<open>
  C13. Revisions are immutable: when an identifier denotes a revision at two points of the life of a
  store, it denotes the same revision, whatever appends, joins, integrations and prunings happened in
  between; a pruned identifier is not given out again.
\<close>

theorem revision_immutable:
  assumes "cx_with_limits c root n b = Inr s" and "(cx_step c)\<^sup>*\<^sup>* s t" and "(cx_step c)\<^sup>*\<^sup>* t u"
    and "bget (cx_revisions t) i = Some r" and "(cx_step c)\<^sup>*\<^sup>* u v" and "bget (cx_revisions v) i = Some r'"
  shows "r' = r \<and> bget (cx_revisions u) i = Some r"
proof -
  have inv: "cx_inv c s" "cx_inv c t" "cx_inv c u"
    using cx_inv_new [OF assms(1)] cx.steps_inv [OF assms(2)] cx.steps_inv [OF assms(3)] by blast+
  have "i < cx_next_id t"
    using cx_inv_revision [OF inv(2) assms(4)] by (simp add: revision_ok_def)
  moreover have tu: "cx_evolves c t u" and uv: "cx_evolves c u v"
    using cx_steps_evolve assms(3,5) inv by blast+
  ultimately have "bget (cx_revisions u) i = Some r'"
    using assms(6) unfolding cx_evolves_def by (meson leD less_le_trans)
  then show ?thesis
    using tu assms(4) \<open>i < cx_next_id t\<close> unfolding cx_evolves_def by (metis leD option.inject)
qed

theorem revision_immutable_witness:
  "bget (cx_revisions demo_joined) 2 = bget (cx_revisions demo_forked) 2 \<and> bget (cx_revisions demo_forked) 2 \<noteq> None"
proof -
  have "bget (cx_revisions demo_forked) 2 \<noteq> None \<and> bget (cx_revisions demo_joined) 2 \<noteq> None"
    by code_simp
  then obtain r r' where r: "bget (cx_revisions demo_forked) 2 = Some r" "bget (cx_revisions demo_joined) 2 = Some r'"
    by blast
  from revision_immutable [OF demo_root_ok demo_forked_steps rtranclp.rtrancl_refl r(1) demo_joined_steps r(2)] r
  show ?thesis by simp
qed

text \<open>
  C32. Pruning keeps exactly what the committed heads need: in every reachable store, pruning with known
  heads succeeds, and afterwards an identifier is stored if and only if a committed head descends from
  it, with its revision unchanged; the count is the number of revisions removed.
\<close>

theorem prune_exact:
  assumes "cx_with_limits c root n b = Inr s" and "(cx_step c)\<^sup>*\<^sup>* s t"
    and "\<forall>h \<in> set heads. bget (cx_revisions t) h \<noteq> None"
  shows "\<exists>k u. prune_unreachable heads t = (Inr k, u) \<and> length (cx_revisions u) + k = length (cx_revisions t)
    \<and> (\<forall>i. bget (cx_revisions u) i = (if \<exists>h \<in> set heads. is_descendant_of h i t then bget (cx_revisions t) i else None))"
proof -
  have inv: "cx_inv c t"
    using cx.steps_inv [OF assms(2) cx_inv_new [OF assms(1)]] .
  have "is_ok (reach_loop (cx_revisions t) heads [])"
    by (rule reach_loop_ok [OF cx_inv_parents [OF inv] assms(3)])
  then obtain R where R: "reach_loop (cx_revisions t) heads [] = Inr R"
    by (rule is_okE)
  have "i \<in> set R \<longleftrightarrow> (\<exists>h \<in> set heads. is_descendant_of h i t)" for i
    unfolding reach_loop_set [OF R] is_descendant_of_iff by simp
  then show ?thesis
    using R bget_retain [OF cx_invD(1) [OF inv], of "set R"]
    by (auto simp: prune_unreachable_def Let_def)
qed

theorem prune_exact_witness:
  "\<exists>k u. prune_unreachable [2] demo_forked = (Inr k, u) \<and> length (cx_revisions u) + k = 3"
proof -
  have "\<forall>h \<in> set [2]. bget (cx_revisions demo_forked) h \<noteq> None" and "length (cx_revisions demo_forked) = 3"
    by code_simp+
  from prune_exact [OF demo_root_ok demo_forked_steps this(1)] this(2) show ?thesis
    by fastforce
qed

text \<open>
  Spawning a child from a revision that is no head makes that revision a head again: the parent is
  inserted into the heads whether or not it was one.
\<close>

lemma spawn_revives_head:
  "1 \<notin> set (cx_heads demo_forked)
   \<and> 1 \<in> set (cx_heads (snd (spawn_child demo_context_codec
        \<lparr>cs_child_id = ''kid'', cs_parent_revision = 1, cs_selected_pointers = [], cs_instructions = JNull\<rparr> demo_forked)))"
  by code_simp

text \<open>A fork that meets the revision limit fails and leaves the branches it has made.\<close>

lemma fork_leaves_branches:
  "fst (cx_fork demo_context_codec 1 9 demo_root) = Inl CxRevisionLimit
   \<and> length (cx_revisions (snd (cx_fork demo_context_codec 1 9 demo_root))) = 8"
  by code_simp

end
