(* ===== verification/Agent.thy ===== *)
theory Agent
  imports Node Limits_Ledger Context_Laws
begin

text \<open>
  Model and subagent orchestration (\<open>crates/aworkit-workflow-worker/src/agent.rs\<close>). An agent loop works
  on the budget ledger: it reserves before it emits a proposal and settles when the core returns the
  committed outcome. The subagent manager works on the ledger and on the context store. Every operation
  takes and returns the states of the components it changes. \<open>Value::pointer\<close> of the JSON library and
  SHA-256 are parameters.
\<close>

section \<open>The compatibility loop\<close>

record agent_step =
  as_proposal :: node_proposal
  as_turn :: u32

definition next_step ::
  "stable_id \<Rightarrow> json \<Rightarrow> u32 \<Rightarrow> limit_controller \<Rightarrow> (limit_error + agent_step) \<times> limit_controller" where
  "next_step node_id context turn limits =
     (case lc_reserve \<lparr>re_turns = 1, re_attempts = 1\<rparr> limits of
        (Inl e, limits') \<Rightarrow> (Inl e, limits')
      | (Inr _, limits') \<Rightarrow>
          (Inr \<lparr>as_proposal = \<lparr>np_kind = ''model'', np_node_id = node_id,
                  np_payload = JObject [(''context'', context), (''turn'', JNumber (PosInt (ucast turn)))]\<rparr>,
                as_turn = turn\<rparr>, limits'))"

record subagent_request =
  sr_parent_revision :: u64
  sr_delegated :: json
  sr_depth :: u32
  sr_max_depth :: u32

datatype compat_subagent_error = DepthExceeded

definition compat_start ::
  "context_codec \<Rightarrow> subagent_request \<Rightarrow> context_store \<Rightarrow> (compat_subagent_error + u64) \<times> context_store" where
  "compat_start c request s =
     (if sr_depth request \<ge> sr_max_depth request then (Inl DepthExceeded, s)
      else case cx_append c (sr_parent_revision request) (sr_delegated request) s of
        (Inl _, s') \<Rightarrow> (Inl DepthExceeded, s')
      | (Inr i, s') \<Rightarrow> (Inr i, s'))"

definition compat_integrate ::
  "context_codec \<Rightarrow> u64 \<Rightarrow> json \<Rightarrow> context_store \<Rightarrow> (compat_subagent_error + u64) \<times> context_store" where
  "compat_integrate c parent result s =
     (case cx_append c parent result s of
        (Inl _, s') \<Rightarrow> (Inl DepthExceeded, s')
      | (Inr i, s') \<Rightarrow> (Inr i, s'))"

section \<open>The agent loop\<close>

record agent_loop_config =
  alc_loop_id :: stable_id
  alc_node_id :: stable_id
  alc_model_capability_ref :: stable_id
  alc_authority_manifest_ref :: stable_id
  alc_budget_ref :: stable_id
  alc_scope_id :: string
  alc_legacy_maximum_turns :: "u32 option"
  alc_turn_reservation :: usage
  alc_context_pointers :: "string list"
  alc_allowed_tool_capability_refs :: "stable_id list"

record agent_loop_checkpoint =
  ack_config :: agent_loop_config
  ack_next_turn :: u32
  ack_pending_invocation_id :: "stable_id option"
  ack_pending_reservation_id :: "string option"
  ack_completed_outcome_ids :: "stable_id list"
  ack_cancelled :: bool

datatype agent_error =
    AgInvalidState
  | AgInvocationPending
  | AgCapabilityDenied
  | AgOutcomeMismatch
  | AgCancelled
  | AgContextProjection
  | AgBudget string
  | AgInvalidIdentifier

record agent_loop =
  ag_config :: agent_loop_config
  ag_next_turn :: u32
  ag_pending_invocation_id :: "stable_id option"
  ag_pending_reservation_id :: "string option"
  ag_completed_outcome_ids :: "string list"
  ag_cancelled :: bool

record agent_env =
  ae_pointer :: "json \<Rightarrow> string \<Rightarrow> json option"
  ae_sha :: digest

text \<open>\<open>error.to_string()\<close> of a limit error and of a context error.\<close>

fun limit_error_display :: "limit_error \<Rightarrow> string" where
  "limit_error_display Exhausted = ''budget exhausted''"
| "limit_error_display DeadlineExceeded = ''deadline exceeded''"
| "limit_error_display InvalidReservation = ''invalid reservation''"
| "limit_error_display (UnknownScope i) = ''unknown budget scope '' @ i"
| "limit_error_display (DuplicateId i) = ''duplicate budget scope, reservation, or charge id '' @ i"
| "limit_error_display (UnknownReservation i) = ''reservation '' @ i @ '' is unknown or already settled''"
| "limit_error_display ReservationExceeded = ''usage exceeds the amount reserved''"
| "limit_error_display StructuralLimit = ''nested depth, fan-out, or parallelism limit exceeded''"
| "limit_error_display LimitOverflow = ''budget arithmetic overflow''"
| "limit_error_display DeadlineExtension = ''checkpoint would extend a frozen deadline''"

fun context_error_display :: "context_error \<Rightarrow> string" where
  "context_error_display (CxUnknownRevision i) = ''unknown context revision '' @ show_id i"
| "context_error_display CxInvalidJoin = ''join requires at least two distinct branch heads''"
| "context_error_display CxUnequalBranches = ''branch values are not identical''"
| "context_error_display CxConflictingJoin = ''object-union join requires objects with non-conflicting keys''"
| "context_error_display (CxMissingPath p) = ''projection path does not exist: '' @ p"
| "context_error_display CxNotArray = ''for-each input must be an array''"
| "context_error_display CxTooLarge = ''revision exceeds the bounded inline context size''"
| "context_error_display CxRevisionLimit =
     ''revision limit reached before a committed checkpoint allowed pruning''"
| "context_error_display CxUndeclaredJoin = ''join heads do not belong to the declared ancestor and order''"
| "context_error_display CxRevisionExhausted = ''revision ID arithmetic overflow''"
| "context_error_display CxInvalidChildIntegration =
     ''child result was already integrated or does not match its child lineage''"
| "context_error_display CxPatchRequiresObject = ''patch requires an object base''"

definition resource_usage :: "usage \<Rightarrow> usage" where
  "resource_usage u = \<lparr>us_turns = 0, us_attempts = 0, us_tool_calls = 0, us_tokens = us_tokens u,
     us_cost_micros = us_cost_micros u, us_actions = 0\<rparr>"

fun project_loop :: "agent_env \<Rightarrow> json \<Rightarrow> string list \<Rightarrow> json_map \<Rightarrow> agent_error + json_map" where
  "project_loop env context [] projected = Inr projected"
| "project_loop env context (pointer # pointers) projected =
     (if pointer = [] \<or> 512 < length pointer \<or> hd pointer \<noteq> CHR ''/'' then Inl AgContextProjection
      else bind_r (ok_or (ae_pointer env context pointer) AgContextProjection) (\<lambda>v.
           project_loop env context pointers (binsert pointer v projected)))"

definition project_context :: "agent_env \<Rightarrow> json \<Rightarrow> string list \<Rightarrow> agent_error + json" where
  "project_context env context pointers =
     (if pointers = [] then Inr context
      else bind_r (project_loop env context pointers []) (\<lambda>projected. Inr (JObject projected)))"

definition ag_stable_id :: "agent_env \<Rightarrow> string \<Rightarrow> agent_error + stable_id" where
  "ag_stable_id env material =
     (case derived_id (ae_sha env) ''agent.'' material of
        Inl _ \<Rightarrow> Inl AgInvalidIdentifier
      | Inr i \<Rightarrow> Inr i)"

definition ag_new :: "agent_loop_config \<Rightarrow> agent_error + agent_loop" where
  "ag_new config =
     (if alc_scope_id config = [] \<or> us_is_zero (resource_usage (alc_turn_reservation config))
         \<or> 256 < length (alc_context_pointers config) \<or> 256 < length (alc_allowed_tool_capability_refs config)
      then Inl AgInvalidState
      else Inr \<lparr>ag_config = config, ag_next_turn = 0, ag_pending_invocation_id = None,
             ag_pending_reservation_id = None, ag_completed_outcome_ids = [], ag_cancelled = False\<rparr>)"

text \<open>The identity of a turn: \<open>loop_id\<close> and \<open>next_turn\<close> with a separator.\<close>

definition turn_key :: "string \<Rightarrow> agent_loop \<Rightarrow> string" where
  "turn_key separator a = alc_loop_id (ag_config a) @ separator @ show_nat (unat (ag_next_turn a))"

definition turn_payload :: "agent_loop \<Rightarrow> json \<Rightarrow> json" where
  "turn_payload a projected =
     JObject [(''allowedToolCapabilityRefs'', JArray (map JString (alc_allowed_tool_capability_refs (ag_config a)))),
              (''context'', projected),
              (''turn'', JNumber (PosInt (ucast (ag_next_turn a))))]"

definition propose_model_turn ::
  "agent_env \<Rightarrow> json \<Rightarrow> agent_loop \<Rightarrow> limit_ledger
     \<Rightarrow> (agent_error + worker_invocation_proposal) \<times> agent_loop \<times> limit_ledger" where
  "propose_model_turn env context a limits =
     (if ag_cancelled a then (Inl AgCancelled, a, limits)
      else if ag_pending_invocation_id a \<noteq> None then (Inl AgInvocationPending, a, limits)
      else case ag_stable_id env (''agent:'' @ turn_key '':'' a) of
        Inl e \<Rightarrow> (Inl e, a, limits)
      | Inr invocation_id \<Rightarrow>
          let rid = ''agent.'' @ turn_key ''.'' a in
          (case ll_reserve (alc_scope_id (ag_config a)) rid
                  (resource_usage (alc_turn_reservation (ag_config a))) limits of
             (Inl e, limits1) \<Rightarrow> (Inl (AgBudget (limit_error_display e)), a, limits1)
           | (Inr _, limits1) \<Rightarrow>
               (case project_context env context (alc_context_pointers (ag_config a)) of
                  Inl e \<Rightarrow>
                    (case ll_release rid limits1 of
                       (Inl release, limits2) \<Rightarrow> (Inl (AgBudget (limit_error_display release)), a, limits2)
                     | (Inr _, limits2) \<Rightarrow> (Inl e, a, limits2))
                | Inr projected \<Rightarrow>
                    let a1 = a\<lparr>ag_pending_invocation_id := Some invocation_id,
                               ag_pending_reservation_id := Some rid\<rparr> in
                    (case ag_stable_id env (''attempt:'' @ turn_key '':'' a) of
                       Inl e \<Rightarrow> (Inl e, a1, limits1)
                     | Inr attempt_id \<Rightarrow>
                         (Inr \<lparr>ip_invocation_id = invocation_id, ip_node_id = alc_node_id (ag_config a),
                               ip_attempt_id = attempt_id,
                               ip_capability_ref = alc_model_capability_ref (ag_config a),
                               ip_authority_manifest_ref = alc_authority_manifest_ref (ag_config a),
                               ip_budget_ref = alc_budget_ref (ag_config a),
                               ip_payload = turn_payload a projected\<rparr>,
                          a1, limits1)))))"

definition outcome_is_duplicate_or_matching :: "agent_loop \<Rightarrow> capability_outcome \<Rightarrow> agent_error + bool" where
  "outcome_is_duplicate_or_matching a outcome =
     (if co_outcome_id outcome \<in> set (ag_completed_outcome_ids a) then Inr True
      else if ag_pending_invocation_id a \<noteq> Some (co_invocation_id outcome) then Inl AgOutcomeMismatch
      else Inr False)"

definition settle_reserved_outcome ::
  "capability_outcome \<Rightarrow> usage \<Rightarrow> agent_loop \<Rightarrow> limit_ledger \<Rightarrow> (agent_error + bool) \<times> agent_loop \<times> limit_ledger" where
  "settle_reserved_outcome outcome actual_usage a limits =
     (case ag_pending_reservation_id a of
        None \<Rightarrow> (Inl AgOutcomeMismatch, a, limits)
      | Some rid \<Rightarrow>
          (case ll_charge rid (co_outcome_id outcome) actual_usage limits of
             (Inl e, limits1) \<Rightarrow> (Inl (AgBudget (limit_error_display e)), a, limits1)
           | (Inr _, limits1) \<Rightarrow>
               (Inr True,
                a\<lparr>ag_completed_outcome_ids := sinsert (co_outcome_id outcome) (ag_completed_outcome_ids a),
                  ag_pending_invocation_id := None, ag_pending_reservation_id := None,
                  ag_next_turn := saturating_add (ag_next_turn a) 1,
                  ag_cancelled := (if co_class outcome \<in> {CoCancelledEvidence, CoDenied} then True else ag_cancelled a)\<rparr>,
                limits1)))"

definition settle_committed_outcome ::
  "capability_outcome \<Rightarrow> usage \<Rightarrow> agent_loop \<Rightarrow> limit_ledger \<Rightarrow> (agent_error + bool) \<times> agent_loop \<times> limit_ledger" where
  "settle_committed_outcome outcome actual_usage a limits =
     (case outcome_is_duplicate_or_matching a outcome of
        Inl e \<Rightarrow> (Inl e, a, limits)
      | Inr duplicate \<Rightarrow>
          if duplicate then (Inr False, a, limits)
          else if us_turns actual_usage \<noteq> 1 \<or> us_attempts actual_usage \<noteq> 1
          then (Inl (AgBudget ''a committed model turn must charge exactly one turn and attempt''), a, limits)
          else settle_reserved_outcome outcome (resource_usage actual_usage) a limits)"

definition settle_committed_run_outcome ::
  "capability_outcome \<Rightarrow> usage \<Rightarrow> agent_loop \<Rightarrow> limit_ledger \<Rightarrow> (agent_error + bool) \<times> agent_loop \<times> limit_ledger" where
  "settle_committed_run_outcome outcome actual_usage a limits =
     (case outcome_is_duplicate_or_matching a outcome of
        Inl e \<Rightarrow> (Inl e, a, limits)
      | Inr duplicate \<Rightarrow>
          if duplicate then (Inr False, a, limits)
          else let permits_zero_turns = (co_class outcome \<in> {CoDefiniteNotStarted, CoDenied}) in
            if us_turns actual_usage \<noteq> us_attempts actual_usage \<or> (us_turns actual_usage = 0 \<and> \<not> permits_zero_turns)
            then (Inl (AgBudget ''a committed Agent run must charge its actual provider turns and attempts''), a, limits)
            else settle_reserved_outcome outcome (resource_usage actual_usage) a limits)"

definition validate_tool_capability :: "agent_loop \<Rightarrow> stable_id \<Rightarrow> agent_error + unit" where
  "validate_tool_capability a capability =
     (if capability \<in> set (alc_allowed_tool_capability_refs (ag_config a)) then Inr () else Inl AgCapabilityDenied)"

definition ag_cancel :: "agent_loop \<Rightarrow> (agent_error + bool) \<times> agent_loop" where
  "ag_cancel a =
     (if ag_cancelled a then (Inr False, a)
      else if ag_pending_invocation_id a \<noteq> None then (Inl AgInvocationPending, a)
      else (Inr True, a\<lparr>ag_cancelled := True\<rparr>))"

definition ag_checkpoint :: "agent_loop \<Rightarrow> agent_loop_checkpoint" where
  "ag_checkpoint a =
     \<lparr>ack_config = ag_config a, ack_next_turn = ag_next_turn a,
      ack_pending_invocation_id = ag_pending_invocation_id a,
      ack_pending_reservation_id = ag_pending_reservation_id a,
      ack_completed_outcome_ids = parse_ok (ag_completed_outcome_ids a), ack_cancelled = ag_cancelled a\<rparr>"

definition ag_restore :: "agent_loop_checkpoint \<Rightarrow> agent_error + agent_loop" where
  "ag_restore c =
     (let completed = bset_of_list (ack_completed_outcome_ids c) in
      if (ack_pending_invocation_id c = None) \<noteq> (ack_pending_reservation_id c = None)
         \<or> length completed \<noteq> length (ack_completed_outcome_ids c)
         \<or> unat (ack_next_turn c) \<noteq> length completed
      then Inl AgInvalidState
      else bind_r (ag_new (ack_config c)) (\<lambda>restored.
        Inr (restored\<lparr>ag_next_turn := ack_next_turn c,
               ag_pending_invocation_id := ack_pending_invocation_id c,
               ag_pending_reservation_id := ack_pending_reservation_id c,
               ag_completed_outcome_ids := bset_of_list (ack_completed_outcome_ids c),
               ag_cancelled := ack_cancelled c\<rparr>)))"

section \<open>The subagent manager\<close>

datatype child_state = ChRunning | ChCompleted | ChIntegrated | ChCancelled

record child_frame =
  cf_child_id :: stable_id
  cf_parent_revision :: u64
  cf_child_root_revision :: u64
  cf_child_head_revision :: u64
  cf_scope_id :: string
  cf_state :: child_state
  cf_result :: "json option"

datatype subagent_error =
    SaDuplicateChild string
  | SaUnknownChild string
  | SaInvalidState
  | SaContext string
  | SaBudget string

type_synonym subagent_manager = "(string, child_frame) bmap"

definition child_scope :: "stable_id \<Rightarrow> string" where
  "child_scope child_id = ''child.'' @ child_id"

definition sm_spawn ::
  "context_codec \<Rightarrow> stable_id \<Rightarrow> string \<Rightarrow> budget_envelope \<Rightarrow> child_context_spec
     \<Rightarrow> subagent_manager \<Rightarrow> context_store \<Rightarrow> limit_ledger
     \<Rightarrow> (subagent_error + child_frame) \<times> subagent_manager \<times> context_store \<times> limit_ledger" where
  "sm_spawn c child_id parent_scope_id child_budget spec m context limits =
     (if bcontains m child_id \<or> cs_child_id spec \<noteq> child_id then (Inl (SaDuplicateChild child_id), m, context, limits)
      else let scope_id = child_scope child_id in
        (case create_child scope_id parent_scope_id child_budget limits of
           (Inl e, limits1) \<Rightarrow> (Inl (SaBudget (limit_error_display e)), m, context, limits1)
         | (Inr _, limits1) \<Rightarrow>
             (case spawn_child c spec context of
                (Inl e, context1) \<Rightarrow>
                  (case close_child scope_id limits1 of
                     (Inl rollback, limits2) \<Rightarrow> (Inl (SaBudget (limit_error_display rollback)), m, context1, limits2)
                   | (Inr _, limits2) \<Rightarrow> (Inl (SaContext (context_error_display e)), m, context1, limits2))
              | (Inr root, context1) \<Rightarrow>
                  let frame = \<lparr>cf_child_id = child_id, cf_parent_revision = cs_parent_revision spec,
                        cf_child_root_revision = root, cf_child_head_revision = root,
                        cf_scope_id = scope_id, cf_state = ChRunning, cf_result = None\<rparr> in
                  (Inr frame, binsert child_id frame m, context1, limits1))))"

definition sm_complete ::
  "stable_id \<Rightarrow> u64 \<Rightarrow> json \<Rightarrow> subagent_manager \<Rightarrow> (subagent_error + unit) \<times> subagent_manager" where
  "sm_complete child_id child_head_revision result m =
     (case bget m child_id of
        None \<Rightarrow> (Inl (SaUnknownChild child_id), m)
      | Some frame \<Rightarrow>
          if cf_state frame \<noteq> ChRunning then (Inl SaInvalidState, m)
          else (Inr (), bmodify child_id (\<lambda>f. f\<lparr>cf_child_head_revision := child_head_revision,
                          cf_result := Some result, cf_state := ChCompleted\<rparr>) m))"

definition sm_integrate ::
  "context_codec \<Rightarrow> stable_id \<Rightarrow> u64 \<Rightarrow> child_integration \<Rightarrow> subagent_manager \<Rightarrow> context_store \<Rightarrow> limit_ledger
     \<Rightarrow> (subagent_error + u64) \<times> subagent_manager \<times> context_store \<times> limit_ledger" where
  "sm_integrate c child_id parent_head integration m context limits =
     (case bget m child_id of
        None \<Rightarrow> (Inl (SaUnknownChild child_id), m, context, limits)
      | Some frame \<Rightarrow>
          if cf_state frame \<noteq> ChCompleted then (Inl SaInvalidState, m, context, limits)
          else case can_close_child limits (cf_scope_id frame) of
            Inl e \<Rightarrow> (Inl (SaBudget (limit_error_display e)), m, context, limits)
          | Inr _ \<Rightarrow>
              (case cf_result frame of
                 None \<Rightarrow> (Inl SaInvalidState, m, context, limits)
               | Some result \<Rightarrow>
                   (case integrate_child c child_id (cf_child_head_revision frame) parent_head result integration context of
                      (Inl e, context1) \<Rightarrow> (Inl (SaContext (context_error_display e)), m, context1, limits)
                    | (Inr revision, context1) \<Rightarrow>
                        (case close_child (cf_scope_id frame) limits of
                           (Inl e, limits1) \<Rightarrow> (Inl (SaBudget (limit_error_display e)), m, context1, limits1)
                         | (Inr _, limits1) \<Rightarrow>
                             (Inr revision, bmodify child_id (\<lambda>f. f\<lparr>cf_state := ChIntegrated\<rparr>) m, context1, limits1)))))"

definition sm_cancel ::
  "stable_id \<Rightarrow> subagent_manager \<Rightarrow> limit_ledger \<Rightarrow> (subagent_error + bool) \<times> subagent_manager \<times> limit_ledger" where
  "sm_cancel child_id m limits =
     (case bget m child_id of
        None \<Rightarrow> (Inl (SaUnknownChild child_id), m, limits)
      | Some frame \<Rightarrow>
          if cf_state frame \<in> {ChIntegrated, ChCancelled} then (Inr False, m, limits)
          else case close_child (cf_scope_id frame) limits of
            (Inl e, limits1) \<Rightarrow> (Inl (SaBudget (limit_error_display e)), m, limits1)
          | (Inr _, limits1) \<Rightarrow> (Inr True, bmodify child_id (\<lambda>f. f\<lparr>cf_state := ChCancelled\<rparr>) m, limits1))"

definition sm_checkpoint :: "subagent_manager \<Rightarrow> child_frame list" where
  "sm_checkpoint m = bvalues m"

definition valid_result :: "child_frame \<Rightarrow> bool" where
  "valid_result f =
     (case cf_state f of
        ChRunning \<Rightarrow> cf_result f = None
      | ChCompleted \<Rightarrow> cf_result f \<noteq> None
      | ChIntegrated \<Rightarrow> cf_result f \<noteq> None
      | ChCancelled \<Rightarrow> True)"

fun sm_restore_loop :: "child_frame list \<Rightarrow> string list \<Rightarrow> subagent_manager \<Rightarrow> subagent_error + subagent_manager" where
  "sm_restore_loop [] scopes children = Inr children"
| "sm_restore_loop (child # rest) scopes children =
     (if cf_parent_revision child = 0 \<or> cf_child_root_revision child = 0
         \<or> cf_child_head_revision child < cf_child_root_revision child
         \<or> cf_scope_id child \<noteq> child_scope (cf_child_id child) \<or> \<not> valid_result child
         \<or> cf_scope_id child \<in> set scopes
      then Inl SaInvalidState
      else if bcontains children (cf_child_id child) then Inl SaInvalidState
      else sm_restore_loop rest (sinsert (cf_scope_id child) scopes) (binsert (cf_child_id child) child children))"

definition sm_restore :: "child_frame list \<Rightarrow> subagent_error + subagent_manager" where
  "sm_restore children = sm_restore_loop children [] []"

end
