(* ===== verification/Agent_Laws.thy ===== *)
theory Agent_Laws
  imports Agent
begin

text \<open>
  What agent loops and subagents guarantee about the components they drive: a pending invocation always
  holds its reservation, every error leaves loop, manager, ledger and context as they were, a loop is
  rebuilt from its checkpoint, and a committed outcome settles exactly one turn.
\<close>

section \<open>Undoing ledger operations\<close>

lemma env_add_sub:
  assumes "is_ok (be_checked_sub (bs_remaining s) u)"
  shows "env_add u (env_sub u s) = s"
proof -
  obtain b where b: "be_checked_sub (bs_remaining s) u = Inr b"
    using assms by (rule is_okE)
  then have "checked_add_usage b u = Inr (bs_remaining s)"
    by (auto simp: be_checked_sub_Inr checked_add_usage_Inr same_structure_def)
  then show ?thesis
    by (simp add: env_add_def env_sub_def b)
qed

lemma reserve_release:
  assumes inv: "ll_inv l" and op: "ll_reserve sid rid u l = (Inr x, t)"
  shows "ll_release rid t = (Inr (), l)"
  using inv op
proof (cases rule: ll_reserve_cases)
  case (reserved ps)
  define rec where "rec = \<lparr>reservation_id = rid, rr_scope_id = sid, reserved = u\<rparr>"
  have tinv: "ll_inv t"
    using ll_inv_reserve [OF inv op] by blast
  have scopes: "scopes_ok (ll_scopes l)" "scopes_ok (ll_scopes t)" and wf: "bwf (ll_scopes l)" "bwf (ll_reservations l)"
    using inv tinv by (auto simp: ll_inv_def scopes_ok_def res_ok_def)
  have live: "bget (ll_reservations t) rid = Some rec"
    by (simp add: reserved rec_def)
  have "lineage_of (ll_scopes t) sid = lineage_of (ll_scopes l) sid"
  proof (rule lineage_of_cong)
    show "bcontains (ll_scopes l) sid"
      using lineage_path_keys [OF reserved(2) lineage_path_self [OF reserved(2)]] .
  qed (use scopes reserved in \<open>auto simp: scopes_ok_def fold_parent_same\<close>)
  moreover have "fold (\<lambda>k. bmodify k (env_add u)) ps (ll_scopes t) = ll_scopes l"
  proof (rule bwf_ext)
    show "bget (fold (\<lambda>k. bmodify k (env_add u)) ps (ll_scopes t)) k = bget (ll_scopes l) k" for k
      using reserved(9) [of k] reserved(4)
      by (auto simp: reserved(10) bget_fold_bmodify env_add_sub)
  qed (use wf in \<open>simp_all add: reserved\<close>)
  moreover have "bremove rid (binsert rid rec (ll_reservations l)) = ll_reservations l"
    using reserved(7) wf(2) by (rule bm.del_put [rotated])
  ultimately show ?thesis
    using ll_release_known [OF tinv live] reserved(3,10) by (simp add: settled_def rec_def)
qed simp

lemma create_close:
  assumes inv: "ll_inv l" and op: "create_child c p conf l = (Inr x, t)"
  shows "close_child c t = (Inr (), l)"
proof -
  from op obtain ps depth where ok: "bget (ll_scopes l) c = None" "bget (ll_scopes l) p = Some ps"
      "bs_active_children ps < max_fan_out (bs_remaining ps)"
    and t: "t = l\<lparr>ll_scopes := binsert c \<lparr>bs_parent = Some p, bs_depth = depth,
           bs_remaining = component_min conf (bs_remaining ps), bs_active_children = 0, bs_active_parallel = 0\<rparr>
         (bmodify p (\<lambda>s. s\<lparr>bs_active_children := bs_active_children s + 1\<rparr>) (ll_scopes l))\<rparr>"
    by (auto simp: create_child_def bcontains_def not_less not_le split: sum.splits if_splits option.splits)
  have sok: "scopes_ok (ll_scopes l)" and wf: "bwf (ll_scopes l)" "bwf (ll_reservations l)"
    and res: "res_ok (ll_scopes l) (ll_reservations l)"
    using inv by (auto simp: ll_inv_def scopes_ok_def res_ok_def)
  have leaf: "bs_parent s \<noteq> Some c" if "bget (ll_scopes l) k = Some s" for k s
    using tree_okD [of "ll_scopes l" k s c] sok that ok(1) by (auto simp: scopes_ok_def)
  have unused: "rr_scope_id r \<noteq> c" if "bget (ll_reservations l) k = Some r" for k r
    using res that ok(1) unfolding res_ok_def by (fastforce simp: bcontains_def dest: bforallD)
  have "c \<noteq> p"
    using ok by auto
  have "bs_parent v \<noteq> Some c" if "v \<in> set (bvalues (ll_scopes t))" for v
  proof -
    have "bwf (ll_scopes t)"
      using wf by (simp add: t)
    from in_values_iff [OF this, of v] that obtain k where "bget (ll_scopes t) k = Some v"
      by blast
    then show ?thesis
      using leaf \<open>c \<noteq> p\<close> by (auto simp: t split: if_splits)
  qed
  moreover have "rr_scope_id r \<noteq> c" if "r \<in> set (bvalues (ll_reservations t))" for r
    using in_values_iff [OF wf(2), of r] that unused by (auto simp: t)
  moreover have "bget (ll_scopes t) c \<noteq> None" "\<And>s. bget (ll_scopes t) c = Some s \<Longrightarrow> bs_parent s \<noteq> None"
    by (auto simp: t)
  ultimately have can: "can_close_child t c = Inr ()"
    unfolding can_close_child_def by (auto split: option.splits)
  have "bmodify p (\<lambda>s. s\<lparr>bs_active_children := saturating_sub (bs_active_children s) 1\<rparr>)
      (bremove c (ll_scopes t)) = ll_scopes l"
  proof (rule bwf_ext)
    have "saturating_sub (bs_active_children ps + 1) 1 = bs_active_children ps"
      using word_add_1_le(1) [OF ok(3)] by (intro word_unat_eq_iff [THEN iffD2]) (simp add: unat_saturating_sub)
    then show "bget (bmodify p (\<lambda>s. s\<lparr>bs_active_children := saturating_sub (bs_active_children s) 1\<rparr>)
        (bremove c (ll_scopes t))) k = bget (ll_scopes l) k" for k
      using ok \<open>c \<noteq> p\<close> by (auto simp: t)
  qed (use wf in \<open>simp_all add: t\<close>)
  then show ?thesis
    using can ok(2) \<open>c \<noteq> p\<close> by (simp add: close_child_def Let_def) (simp add: t bcontains_def)
qed

lemma close_child_cases:
  assumes "ll_inv l"
  shows "case can_close_child l c of
      Inl e \<Rightarrow> close_child c l = (Inl e, l)
    | Inr _ \<Rightarrow> \<exists>t. close_child c l = (Inr (), t)"
proof (cases "can_close_child l c")
  case (Inr u)
  have sok: "scopes_ok (ll_scopes l)" and wf: "bwf (ll_scopes l)"
    using assms by (auto simp: ll_inv_def scopes_ok_def)
  from Inr obtain s p where s: "bget (ll_scopes l) c = Some s" "bs_parent s = Some p"
    and leaf: "bforall (\<lambda>_ x. bs_parent x \<noteq> Some c) (ll_scopes l)"
    using wf by (auto simp: can_close_child_def bforall_entries split: option.splits if_splits)
  from scopes_ok_close(2) [OF sok s leaf] s Inr show ?thesis
    by (simp add: close_child_def Let_def)
qed (simp add: close_child_def)

lemma ll_inv_root: "ll_inv l \<Longrightarrow> \<exists>root. root_of l root"
proof -
  assume "ll_inv l"
  then have "bcount (\<lambda>s. bs_parent s = None) (ll_scopes l) \<noteq> 0" and wf: "bwf (ll_scopes l)"
    by (auto simp: ll_inv_def scopes_ok_def)
  then show ?thesis
    by (auto simp: bcount_0 bforall_def root_of_def)
qed

lemma ll_step_inv: "ll_inv l \<Longrightarrow> ll_step l x t \<Longrightarrow> ll_inv t"
  using ll_step_conserves(1) ll_inv_root by blast

text \<open>Recorded charges stay recorded.\<close>

lemma ll_step_charges:
  assumes "ll_inv l" and "ll_step l x t"
  shows "set (ll_charge_ids l) \<subseteq> set (ll_charge_ids t)"
  using assms(2)
proof cases
  case (step_charge rid cid actual r)
  from assms(1) step_charge(2) show ?thesis
    by (cases rule: ll_charge_cases) (auto simp: settled_def)
next
  case (step_reserve sid rid u r)
  from assms(1) step_reserve(2) show ?thesis
    by (cases rule: ll_reserve_cases) auto
next
  case (step_release rid r)
  then show ?thesis
    using ll_release_known [OF assms(1)]
    by (cases "bget (ll_reservations l) rid") (auto simp: ll_release_def settled_def)
next
  case (step_restore n)
  then show ?thesis
    using ll_inv_restore [OF assms(1), of n t] by (auto simp: ll_shift_def)
qed (auto simp: create_child_def close_child_def enter_parallel_def leave_parallel_def next_loop_iteration_def
       advance_to_def Let_def split: sum.splits if_splits option.splits)

section \<open>The loop and its ledger\<close>

text \<open>
  An agent loop and the ledger it shares with the rest of the worker: the pending reservation is live with
  the configured amount, every completed outcome has been charged, and the turn number counts the completed
  outcomes until it saturates.
\<close>

definition pending_ok :: "agent_loop \<Rightarrow> limit_ledger \<Rightarrow> bool" where
  "pending_ok a l \<longleftrightarrow>
     (ag_pending_invocation_id a = None \<longleftrightarrow> ag_pending_reservation_id a = None)
     \<and> (\<forall>r. ag_pending_reservation_id a = Some r \<longrightarrow>
          (\<exists>rec. bget (ll_reservations l) r = Some rec \<and> rr_scope_id rec = alc_scope_id (ag_config a)
             \<and> reserved rec = resource_usage (alc_turn_reservation (ag_config a))))"

definition turns_ok :: "agent_loop \<Rightarrow> bool" where
  "turns_ok a \<longleftrightarrow>
     swf (ag_completed_outcome_ids a) \<and> (\<forall>i \<in> set (ag_completed_outcome_ids a). valid_stable_id i)
     \<and> unat (ag_next_turn a) = min (length (ag_completed_outcome_ids a)) (2 ^ 32 - 1)
     \<and> is_ok (ag_new (ag_config a))"

definition agent_inv :: "agent_loop \<times> limit_ledger \<Rightarrow> bool" where
  "agent_inv = (\<lambda>(a, l). ll_inv l \<and> pending_ok a l \<and> turns_ok a
     \<and> set (ag_completed_outcome_ids a) \<subseteq> set (ll_charge_ids l))"

datatype agent_op =
    OpPropose json
  | OpSettle capability_outcome usage
  | OpSettleRun capability_outcome usage
  | OpCancel

text \<open>One operation of the loop; the result is the error, if any.\<close>

fun agent_apply :: "agent_env \<Rightarrow> agent_op \<Rightarrow> agent_loop \<Rightarrow> limit_ledger \<Rightarrow> agent_error option \<times> agent_loop \<times> limit_ledger" where
  "agent_apply env (OpPropose context) a l =
     (case propose_model_turn env context a l of (r, a', l') \<Rightarrow> (case r of Inl e \<Rightarrow> Some e | Inr _ \<Rightarrow> None, a', l'))"
| "agent_apply env (OpSettle outcome u) a l =
     (case settle_committed_outcome outcome u a l of (r, a', l') \<Rightarrow> (case r of Inl e \<Rightarrow> Some e | Inr _ \<Rightarrow> None, a', l'))"
| "agent_apply env (OpSettleRun outcome u) a l =
     (case settle_committed_run_outcome outcome u a l of (r, a', l') \<Rightarrow> (case r of Inl e \<Rightarrow> Some e | Inr _ \<Rightarrow> None, a', l'))"
| "agent_apply env OpCancel a l =
     (case ag_cancel a of (r, a') \<Rightarrow> (case r of Inl e \<Rightarrow> Some e | Inr _ \<Rightarrow> None, a', l))"

lemma ag_stable_id_ok: "hex_digest (ae_sha env) \<Longrightarrow> ag_stable_id env material = Inr (''agent.'' @ take 48 (ae_sha env material))"
  using derived_id_ok [of "ae_sha env" "''agent.''" material]
  by (simp add: ag_stable_id_def stable_id_byte_def is_ascii_alphanumeric_code)

lemma propose_cases:
  assumes inv: "ll_inv l" and sha: "hex_digest (ae_sha env)"
    and op: "propose_model_turn env context a l = (r, a', l')"
  obtains (error) e where "r = Inl e" "a' = a" "l' = l"
  | (proposed) p where "r = Inr p" "ag_pending_invocation_id a = None" "\<not> ag_cancelled a"
      "ll_reserve (alc_scope_id (ag_config a)) (''agent.'' @ turn_key ''.'' a)
         (resource_usage (alc_turn_reservation (ag_config a))) l = (Inr (), l')"
      "a' = a\<lparr>ag_pending_invocation_id := Some (ip_invocation_id p),
              ag_pending_reservation_id := Some (''agent.'' @ turn_key ''.'' a)\<rparr>"
proof -
  obtain rr l1 where res: "ll_reserve (alc_scope_id (ag_config a)) (''agent.'' @ turn_key ''.'' a)
         (resource_usage (alc_turn_reservation (ag_config a))) l = (rr, l1)"
    by fastforce
  have keep: "rr = Inl e \<Longrightarrow> l1 = l" for e
    using inv res by (cases rule: ll_reserve_cases) auto
  have undo: "rr = Inr () \<Longrightarrow> ll_release (''agent.'' @ turn_key ''.'' a) l1 = (Inr (), l)"
    using reserve_release [OF inv] res by simp
  show thesis
  proof (cases "rr = Inr () \<and> ag_pending_invocation_id a = None \<and> \<not> ag_cancelled a
      \<and> is_ok (project_context env context (alc_context_pointers (ag_config a)))")
    case True
    then show ?thesis
      using op res proposed sha by (auto simp: propose_model_turn_def ag_stable_id_ok Let_def elim!: is_okE)
  next
    case False
    then show ?thesis
      using op res keep undo error sha
      by (cases rr; cases "project_context env context (alc_context_pointers (ag_config a))")
         (auto simp: propose_model_turn_def ag_stable_id_ok Let_def split: if_splits)
  qed
qed

text \<open>The loop after a settled outcome.\<close>

definition advanced :: "capability_outcome \<Rightarrow> agent_loop \<Rightarrow> agent_loop" where
  "advanced outcome a =
     a\<lparr>ag_completed_outcome_ids := sinsert (co_outcome_id outcome) (ag_completed_outcome_ids a),
       ag_pending_invocation_id := None, ag_pending_reservation_id := None,
       ag_next_turn := saturating_add (ag_next_turn a) 1,
       ag_cancelled := (if co_class outcome \<in> {CoCancelledEvidence, CoDenied} then True else ag_cancelled a)\<rparr>"

lemma settle_cases:
  assumes inv: "ll_inv l"
    and op: "settle_committed_outcome outcome u a l = (r, a', l') \<or> settle_committed_run_outcome outcome u a l = (r, a', l')"
  obtains (error) e where "r = Inl e" "a' = a" "l' = l"
  | (duplicate) "r = Inr False" "a' = a" "l' = l" "co_outcome_id outcome \<in> set (ag_completed_outcome_ids a)"
  | (settled) rid where "r = Inr True" "co_outcome_id outcome \<notin> set (ag_completed_outcome_ids a)"
      "ag_pending_invocation_id a = Some (co_invocation_id outcome)" "ag_pending_reservation_id a = Some rid"
      "ll_charge rid (co_outcome_id outcome) (resource_usage u) l = (Inr (), l')" "a' = advanced outcome a"
proof -
  have keep: "l1 = l" if "ll_charge rid (co_outcome_id outcome) (resource_usage u) l = (Inl e, l1)" for rid e l1
    using inv that by (cases rule: ll_charge_cases) auto
  have "(\<exists>e. r = Inl e \<and> a' = a \<and> l' = l)
    \<or> (r = Inr False \<and> a' = a \<and> l' = l \<and> co_outcome_id outcome \<in> set (ag_completed_outcome_ids a))
    \<or> (\<exists>rid. r = Inr True \<and> co_outcome_id outcome \<notin> set (ag_completed_outcome_ids a)
        \<and> ag_pending_invocation_id a = Some (co_invocation_id outcome) \<and> ag_pending_reservation_id a = Some rid
        \<and> ll_charge rid (co_outcome_id outcome) (resource_usage u) l = (Inr (), l') \<and> a' = advanced outcome a)"
    using op
    by (auto simp: settle_committed_outcome_def settle_committed_run_outcome_def outcome_is_duplicate_or_matching_def
        settle_reserved_outcome_def advanced_def Let_def dest: keep split: if_splits option.splits prod.splits sum.splits)
  then show thesis
    using error duplicate settled by blast
qed

lemma turns_ok_advanced:
  assumes "turns_ok a" and "co_outcome_id outcome \<notin> set (ag_completed_outcome_ids a)" and "valid_stable_id (co_outcome_id outcome)"
  shows "turns_ok (advanced outcome a)"
proof -
  have "length (sinsert x s) = Suc (length s)" if "swf s" "x \<notin> set s" for x :: string and s
    using that distinct_card [OF swf_distinct, of s] distinct_card [OF swf_distinct [OF swf_sinsert], of s x] by simp
  then show ?thesis
    using assms by (auto simp: turns_ok_def advanced_def unat_saturating_add)
qed

fun op_typed :: "agent_op \<Rightarrow> bool" where
  "op_typed (OpSettle outcome u) = valid_stable_id (co_outcome_id outcome)"
| "op_typed (OpSettleRun outcome u) = valid_stable_id (co_outcome_id outcome)"
| "op_typed _ = True"

lemma agent_inv_settle:
  assumes inv: "agent_inv (a, l)" and typed: "valid_stable_id (co_outcome_id outcome)"
    and op: "settle_committed_outcome outcome u a l = (r, a', l') \<or> settle_committed_run_outcome outcome u a l = (r, a', l')"
  shows "agent_inv (a', l') \<and> ag_config a' = ag_config a"
proof -
  have l: "ll_inv l" and rest: "pending_ok a l" "turns_ok a" "set (ag_completed_outcome_ids a) \<subseteq> set (ll_charge_ids l)"
    using inv by (auto simp: agent_inv_def)
  from l op show ?thesis
  proof (cases rule: settle_cases)
    case (settled rid)
    have "set (ll_charge_ids l) \<subseteq> set (ll_charge_ids l') \<and> co_outcome_id outcome \<in> set (ll_charge_ids l')"
      using l settled(5) by (cases rule: ll_charge_cases) (auto simp: settled_def)
    then show ?thesis
      using settled(6) turns_ok_advanced [OF rest(2) settled(2) typed] ll_inv_charge [OF l settled(5)] rest(3)
      by (auto simp: agent_inv_def pending_ok_def advanced_def)
  qed (use inv in auto)
qed

lemma agent_inv_propose:
  assumes inv: "agent_inv (a, l)" and sha: "hex_digest (ae_sha env)"
    and op: "propose_model_turn env context a l = (r, a', l')"
  shows "agent_inv (a', l') \<and> ag_config a' = ag_config a"
proof -
  have l: "ll_inv l" and rest: "turns_ok a" "set (ag_completed_outcome_ids a) \<subseteq> set (ll_charge_ids l)"
    using inv by (auto simp: agent_inv_def)
  from l sha op show ?thesis
  proof (cases rule: propose_cases)
    case (proposed p)
    have "ll_inv l'"
      using ll_inv_reserve [OF l proposed(4)] by blast
    with l proposed(4) show ?thesis
    proof (cases rule: ll_reserve_cases)
      case (reserved ps)
      then show ?thesis
        using \<open>ll_inv l'\<close> rest proposed(5) by (auto simp: agent_inv_def pending_ok_def turns_ok_def)
    qed simp
  qed (use inv in auto)
qed

lemma agent_inv_apply:
  assumes "agent_inv (a, l)" and "hex_digest (ae_sha env)" and "op_typed op" and "agent_apply env op a l = (e, a', l')"
  shows "agent_inv (a', l') \<and> ag_config a' = ag_config a"
proof (cases op)
  case (OpPropose ctx)
  with assms(4) obtain r where "propose_model_turn env ctx a l = (r, a', l')"
    by (auto split: prod.splits)
  from agent_inv_propose [OF assms(1,2) this] show ?thesis .
next
  case (OpSettle outcome u)
  with assms(4) obtain r where "settle_committed_outcome outcome u a l = (r, a', l')"
    by (auto split: prod.splits)
  from agent_inv_settle [OF assms(1) _ disjI1 [OF this]] assms(3) OpSettle show ?thesis
    by simp
next
  case (OpSettleRun outcome u)
  with assms(4) obtain r where "settle_committed_run_outcome outcome u a l = (r, a', l')"
    by (auto split: prod.splits)
  from agent_inv_settle [OF assms(1) _ disjI2 [OF this]] assms(3) OpSettleRun show ?thesis
    by simp
next
  case OpCancel
  with assms(1,4) show ?thesis
    by (auto simp: ag_cancel_def agent_inv_def pending_ok_def turns_ok_def split: if_splits)
qed

text \<open>Restoring a loop from its own checkpoint gives the loop back or is refused.\<close>

lemma ag_restore_checkpoint:
  assumes "pending_ok a l" and "turns_ok a"
  shows "ag_restore (ag_checkpoint a)
    = (if length (ag_completed_outcome_ids a) < 2 ^ 32 then Inr a else Inl AgInvalidState)"
proof -
  have ids: "parse_ok (ag_completed_outcome_ids a) = ag_completed_outcome_ids a"
    and bs: "bset_of_list (ag_completed_outcome_ids a) = ag_completed_outcome_ids a"
    using assms(2) by (auto simp: turns_ok_def parse_ok_all bset_of_list_id)
  obtain b where b: "ag_new (ag_config a) = Inr b"
    using assms(2) by (auto simp: turns_ok_def elim: is_okE)
  then have "b = \<lparr>ag_config = ag_config a, ag_next_turn = 0, ag_pending_invocation_id = None,
      ag_pending_reservation_id = None, ag_completed_outcome_ids = [], ag_cancelled = False\<rparr>"
    by (auto simp: ag_new_def split: if_splits)
  then have "a = b\<lparr>ag_next_turn := ag_next_turn a, ag_pending_invocation_id := ag_pending_invocation_id a,
      ag_pending_reservation_id := ag_pending_reservation_id a,
      ag_completed_outcome_ids := ag_completed_outcome_ids a, ag_cancelled := ag_cancelled a\<rparr>"
    by simp
  moreover have "(ag_pending_invocation_id a = None) = (ag_pending_reservation_id a = None)"
    and "unat (ag_next_turn a) = min (length (ag_completed_outcome_ids a)) (2 ^ 32 - 1)"
    using assms by (auto simp: pending_ok_def turns_ok_def)
  ultimately show ?thesis
    by (simp add: ag_restore_def ag_checkpoint_def ids bs b Let_def)
qed

inductive agent_moves :: "agent_env \<Rightarrow> agent_loop \<times> limit_ledger \<Rightarrow> agent_loop \<times> limit_ledger \<Rightarrow> bool" for env where
  agent_operates: "agent_apply env op a l = (e, a', l') \<Longrightarrow> op_typed op \<Longrightarrow> agent_moves env (a, l) (a', l')"
| agent_restarts: "ag_restore (ag_checkpoint a) = Inr a' \<Longrightarrow> agent_moves env (a, l) (a', l)"
| others_operate: "ll_step l x l' \<Longrightarrow>
    (\<And>r. ag_pending_reservation_id a = Some r \<Longrightarrow> bget (ll_reservations l') r = bget (ll_reservations l) r) \<Longrightarrow>
    agent_moves env (a, l) (a, l')"

lemma agent_moves_inv:
  assumes "agent_moves env s t" and "agent_inv s" and "hex_digest (ae_sha env)"
  shows "agent_inv t \<and> ag_config (fst t) = ag_config (fst s)"
  using assms(1)
proof cases
  case (agent_operates op a l e a' l')
  then show ?thesis
    using agent_inv_apply [OF _ assms(3) agent_operates(4,3)] assms(2) by simp
next
  case (agent_restarts a a' l)
  then have "a' = a"
    using assms(2) ag_restore_checkpoint [of a l] by (auto simp: agent_inv_def split: if_splits)
  with agent_restarts assms(2) show ?thesis by simp
next
  case (others_operate l x l' a)
  then have "ll_inv l"
    using assms(2) by (simp add: agent_inv_def)
  with others_operate show ?thesis
    using assms(2) ll_step_inv [OF _ others_operate(3)] ll_step_charges [OF _ others_operate(3)]
    by (auto simp: agent_inv_def pending_ok_def)
qed

interpretation agent: inv_system "agent_moves env"
  "\<lambda>s. hex_digest (ae_sha env) \<and> agent_inv s \<and> ag_config (fst s) = config" for env config
  by unfold_locales (use agent_moves_inv in blast)

lemma agent_inv_new:
  assumes "ag_new config = Inr a" and "ll_inv l"
  shows "agent_inv (a, l) \<and> ag_config a = config"
proof -
  from assms(1) have "a = \<lparr>ag_config = config, ag_next_turn = 0, ag_pending_invocation_id = None,
      ag_pending_reservation_id = None, ag_completed_outcome_ids = [], ag_cancelled = False\<rparr>"
    by (auto simp: ag_new_def split: if_splits)
  with assms show ?thesis
    by (simp add: agent_inv_def pending_ok_def turns_ok_def)
qed

lemma ll_run_inv: "ll_new root b = Inr l0 \<Longrightarrow> ll_run l0 us l \<Longrightarrow> ll_inv l"
  using ll_run_conserves ll_inv_new root_of_new by blast

lemma stable_logical: "valid_stable_id i \<Longrightarrow> is_ok (validate_logical_id i)"
  by (auto simp: valid_stable_id_def validate_logical_id_def list_all_iff stable_id_byte_def logical_id_byte_def)

text \<open>
  An outcome whose identifier was charged before for another invocation is taken for a repetition: the
  loop moves on and forgets its reservation, which stays in the ledger.
\<close>

lemma reused_outcome_leaks_reservation:
  assumes "agent_inv (a, l)" and "ag_pending_reservation_id a = Some rid"
    and "ag_pending_invocation_id a = Some (co_invocation_id outcome)"
    and "co_outcome_id outcome \<in> set (ll_charge_ids l)" "co_outcome_id outcome \<notin> set (ag_completed_outcome_ids a)"
    and "us_turns u = 1" "us_attempts u = 1"
  shows "settle_committed_outcome outcome u a l = (Inr True, advanced outcome a, l)
    \<and> bget (ll_reservations l) rid \<noteq> None"
proof -
  have "is_ok (validate_logical_id (co_outcome_id outcome))"
    using assms(1,4) by (auto simp: agent_inv_def ll_inv_def)
  then have "ll_charge rid (co_outcome_id outcome) (resource_usage u) l = (Inr (), l)"
    using assms(4) by (auto simp: ll_charge_def elim: is_okE)
  then show ?thesis
    using assms by (auto simp: settle_committed_outcome_def outcome_is_duplicate_or_matching_def
        settle_reserved_outcome_def advanced_def agent_inv_def pending_ok_def)
qed

text \<open>
  Reservation identifiers are the loop identifier with a prefix and the turn, and are held to the same
  128 bytes as the loop identifier itself: a loop with a long identifier never reserves.
\<close>

lemma long_loop_never_proposes:
  assumes "121 \<le> length (alc_loop_id (ag_config a))" and "hex_digest (ae_sha env)"
    and "\<not> ag_cancelled a" and "ag_pending_invocation_id a = None"
  shows "propose_model_turn env context a l = (Inl (AgBudget ''invalid reservation''), a, l)"
proof -
  obtain c cs where "show_nat (unat (ag_next_turn a)) = c # cs"
    by (meson list.exhaust show_nat_nonempty)
  with assms(1) have "128 < length (''agent.'' @ turn_key ''.'' a)"
    unfolding turn_key_def by simp
  then have "validate_logical_id (''agent.'' @ turn_key ''.'' a) = Inl InvalidReservation"
    by (simp add: validate_logical_id_def)
  then show ?thesis
    using assms(2-4) by (simp add: propose_model_turn_def ag_stable_id_ok ll_reserve_def Let_def)
qed

section \<open>Subagents\<close>

lemma append_error: "append_with_provenance c ps v pv suffix s = (Inl e, s') \<Longrightarrow> s' = s"
  by (auto simp: append_with_provenance_def Let_def split: sum.splits)

lemma spawn_child_error: "spawn_child c spec s = (Inl e, s') \<Longrightarrow> s' = s"
  by (auto simp: spawn_child_def dest: append_error split: if_splits sum.splits prod.splits)

lemma integrate_child_error: "integrate_child c i h p r g s = (Inl e, s') \<Longrightarrow> s' = s"
  by (auto simp: integrate_child_def dest: append_error split: if_splits sum.splits prod.splits option.splits)

datatype subagent_op =
    OpSpawn stable_id string budget_envelope child_context_spec
  | OpComplete stable_id u64 json
  | OpIntegrate stable_id u64 child_integration
  | OpCancelChild stable_id

definition result_error :: "'e + 'a \<Rightarrow> 'e option" where
  "result_error r = (case r of Inl e \<Rightarrow> Some e | Inr _ \<Rightarrow> None)"

lemma result_error_Some [simp]: "result_error r = Some e \<longleftrightarrow> r = Inl e"
  by (cases r) (simp_all add: result_error_def)

fun subagent_apply ::
  "context_codec \<Rightarrow> subagent_op \<Rightarrow> subagent_manager \<Rightarrow> context_store \<Rightarrow> limit_ledger
     \<Rightarrow> subagent_error option \<times> subagent_manager \<times> context_store \<times> limit_ledger" where
  "subagent_apply c (OpSpawn i p b spec) m s l = (case sm_spawn c i p b spec m s l of (r, m', s', l') \<Rightarrow> (result_error r, m', s', l'))"
| "subagent_apply c (OpComplete i h v) m s l = (case sm_complete i h v m of (r, m') \<Rightarrow> (result_error r, m', s, l))"
| "subagent_apply c (OpIntegrate i h g) m s l = (case sm_integrate c i h g m s l of (r, m', s', l') \<Rightarrow> (result_error r, m', s', l'))"
| "subagent_apply c (OpCancelChild i) m s l = (case sm_cancel i m l of (r, m', l') \<Rightarrow> (result_error r, m', s, l'))"

lemma create_child_error: "create_child i p b l = (Inl e, l') \<Longrightarrow> l' = l"
  by (auto simp: create_child_def split: sum.splits if_splits option.splits)

lemma sm_spawn_error:
  assumes "ll_inv l" and "sm_spawn c i p b spec m s l = (Inl e, m', s', l')"
  shows "m' = m \<and> s' = s \<and> l' = l"
  using assms(2) create_close [OF assms(1), of "child_scope i" p b]
  by (auto simp: sm_spawn_def Let_def dest: create_child_error spawn_child_error
      split: if_splits prod.splits sum.splits)

lemma sm_integrate_error:
  assumes "ll_inv l" and "sm_integrate c i h g m s l = (Inl e, m', s', l')"
  shows "m' = m \<and> s' = s \<and> l' = l"
proof (cases "bget m i")
  case (Some f)
  with assms(2) close_child_cases [OF assms(1), of "cf_scope_id f"] show ?thesis
    by (auto simp: sm_integrate_def dest: integrate_child_error split: if_splits prod.splits sum.splits option.splits)
qed (use assms in \<open>simp add: sm_integrate_def\<close>)

lemma sm_cancel_error:
  assumes "ll_inv l" and "sm_cancel i m l = (Inl e, m', l')"
  shows "m' = m \<and> l' = l"
proof (cases "bget m i")
  case (Some f)
  with assms(2) close_child_cases [OF assms(1), of "cf_scope_id f"] show ?thesis
    by (auto simp: sm_cancel_def split: if_splits prod.splits sum.splits)
qed (use assms in \<open>simp add: sm_cancel_def\<close>)

text \<open>
  \<open>complete\<close> stores whatever head it is given. A head older than the child's root is accepted, and from
  then on the manager's own checkpoint is refused.
\<close>

lemma sm_restore_bad:
  "f \<in> set fs \<Longrightarrow> cf_child_head_revision f < cf_child_root_revision f \<Longrightarrow> sm_restore_loop fs scopes acc = Inl SaInvalidState"
  by (induction fs arbitrary: scopes acc) auto

lemma early_head_breaks_restore:
  assumes "bget m i = Some f" and "cf_state f = ChRunning" and "h < cf_child_root_revision f"
  shows "\<exists>m'. sm_complete i h v m = (Inr (), m') \<and> sm_restore (sm_checkpoint m') = Inl SaInvalidState"
proof -
  define g where "g = f\<lparr>cf_child_head_revision := h, cf_result := Some v, cf_state := ChCompleted\<rparr>"
  define m' where "m' = snd (sm_complete i h v m)"
  have "bget m' i = Some g" and "sm_complete i h v m = (Inr (), m')"
    using assms(1,2) by (simp_all add: m'_def g_def sm_complete_def)
  moreover from this(1) have "g \<in> set (bvalues m')"
    by (rule bget_in_values)
  ultimately show ?thesis
    using assms(3) sm_restore_bad [of g "bvalues m'" "[]" "[]"] by (simp add: sm_restore_def sm_checkpoint_def g_def)
qed

section \<open>Properties\<close>

definition demo_agent_env :: agent_env where
  "demo_agent_env = \<lparr>ae_pointer = (\<lambda>v p. jget v (tl p)), ae_sha = tail_digest\<rparr>"

definition demo_agent_config :: agent_loop_config where
  "demo_agent_config = \<lparr>alc_loop_id = ''lp'', alc_node_id = ''n'', alc_model_capability_ref = ''m'',
     alc_authority_manifest_ref = ''au'', alc_budget_ref = ''b'', alc_scope_id = ''run'',
     alc_legacy_maximum_turns = None, alc_turn_reservation = demo_usage 4,
     alc_context_pointers = [''/a''], alc_allowed_tool_capability_refs = [''t'']\<rparr>"

definition demo_agent :: agent_loop where
  "demo_agent = projr (ag_new demo_agent_config)"

definition demo_turn :: "agent_loop \<times> limit_ledger" where
  "demo_turn = snd (propose_model_turn demo_agent_env (JObject [(''a'', JBool True)]) demo_agent demo_new)"

definition demo_outcome :: capability_outcome where
  "demo_outcome = \<lparr>co_outcome_id = ''o1'', co_invocation_id = the (ag_pending_invocation_id (fst demo_turn)),
     co_class = CoSuccess, co_retry_safe_proof = False, co_payload = JNull, co_usage = None\<rparr>"

definition demo_turn_usage :: usage where
  "demo_turn_usage = (demo_usage 3)\<lparr>us_turns := 1, us_attempts := 1\<rparr>"

lemma demo_agent_ok: "ag_new demo_agent_config = Inr demo_agent" "hex_digest (ae_sha demo_agent_env)"
  by code_simp (simp add: demo_agent_env_def hex_tail_digest)

lemma demo_turn_steps: "(agent_moves demo_agent_env)\<^sup>*\<^sup>* (demo_agent, demo_new) (fst demo_turn, snd demo_turn)"
proof (rule r_into_rtranclp)
  have "agent_apply demo_agent_env (OpPropose (JObject [(''a'', JBool True)])) demo_agent demo_new
      = (fst (agent_apply demo_agent_env (OpPropose (JObject [(''a'', JBool True)])) demo_agent demo_new),
         fst demo_turn, snd demo_turn)"
    by (simp add: demo_turn_def split: prod.splits)
  then show "agent_moves demo_agent_env (demo_agent, demo_new) (fst demo_turn, snd demo_turn)"
    by (rule agent_operates) simp
qed

lemma demo_turn_pending:
  "ag_pending_invocation_id (fst demo_turn) = Some (co_invocation_id demo_outcome)"
  "co_outcome_id demo_outcome \<notin> set (ll_charge_ids (snd demo_turn))" "valid_stable_id (co_outcome_id demo_outcome)"
  by code_simp+

text \<open>
  C8. A committed model turn always settles, and settles once. Take any loop and any ledger history, let the loop
  propose, settle, be cancelled and restart from checkpoints, with other ledger users in between that leave its
  pending reservation alone: whenever an invocation is pending, the committed outcome of that invocation, with an
  identifier never charged before and a usage within the configured reservation, is accepted; the reservation is
  gone, the charge is recorded, the turn is advanced, and delivering the outcome again changes nothing.
\<close>

theorem agent_turn_settles:
  assumes "hex_digest (ae_sha env)" and "ag_new config = Inr a0" and "ll_new root b = Inr l0" and "ll_run l0 us l1"
    and "(agent_moves env)\<^sup>*\<^sup>* (a0, l1) (a, l)" and "ag_pending_invocation_id a = Some (co_invocation_id outcome)"
    and "valid_stable_id (co_outcome_id outcome)" and "co_outcome_id outcome \<notin> set (ll_charge_ids l)"
    and "us_turns u = 1" "us_attempts u = 1" "us_tokens u \<le> us_tokens (alc_turn_reservation config)"
      "us_cost_micros u \<le> us_cost_micros (alc_turn_reservation config)"
  shows "\<exists>rid a' l'. ag_pending_reservation_id a = Some rid
    \<and> settle_committed_outcome outcome u a l = (Inr True, a', l')
    \<and> bget (ll_reservations l) rid \<noteq> None \<and> bget (ll_reservations l') rid = None
    \<and> ll_charge_ids l' = sinsert (co_outcome_id outcome) (ll_charge_ids l)
    \<and> ag_pending_invocation_id a' = None \<and> ag_next_turn a' = saturating_add (ag_next_turn a) 1
    \<and> settle_committed_outcome outcome u a' l' = (Inr False, a', l')"
proof -
  have "agent_inv (a, l) \<and> ag_config a = config"
    using agent.steps_inv [OF assms(5), of config] agent_inv_new [OF assms(2) ll_run_inv [OF assms(3,4)]] assms(1) by simp
  then obtain rid rec where l: "ll_inv l" and rid: "ag_pending_reservation_id a = Some rid"
    and rec: "bget (ll_reservations l) rid = Some rec" "reserved rec = resource_usage (alc_turn_reservation config)"
    and "set (ag_completed_outcome_ids a) \<subseteq> set (ll_charge_ids l)"
    using assms(6) unfolding agent_inv_def pending_ok_def by force
  moreover from this have fresh: "co_outcome_id outcome \<notin> set (ag_completed_outcome_ids a)"
    using assms(8) by blast
  have "us_contains (reserved rec) (resource_usage u)"
    using assms(11,12) by (simp add: rec(2) us_contains_def resource_usage_def)
  from ll_charge_known [OF l rec(1) stable_logical [OF assms(7)] assms(8) this] obtain unused where
    "ll_charge rid (co_outcome_id outcome) (resource_usage u) l =
       (Inr (), (settled rid rec unused l)\<lparr>ll_charge_ids := sinsert (co_outcome_id outcome) (ll_charge_ids l)\<rparr>)"
    by blast
  ultimately show ?thesis
    using assms(6,9,10) fresh
    by (simp add: settle_committed_outcome_def outcome_is_duplicate_or_matching_def settle_reserved_outcome_def settled_def)
qed

theorem agent_turn_settles_witness:
  "\<exists>a' l'. settle_committed_outcome demo_outcome demo_turn_usage (fst demo_turn) (snd demo_turn) = (Inr True, a', l')
    \<and> ag_pending_invocation_id a' = None"
proof -
  have "us_turns demo_turn_usage = 1" "us_attempts demo_turn_usage = 1"
    "us_tokens demo_turn_usage \<le> us_tokens (alc_turn_reservation demo_agent_config)"
    "us_cost_micros demo_turn_usage \<le> us_cost_micros (alc_turn_reservation demo_agent_config)"
    by (simp_all add: demo_turn_usage_def demo_usage_def demo_agent_config_def)
  from agent_turn_settles [OF demo_agent_ok(2,1) demo_new_eq run_start demo_turn_steps demo_turn_pending(1,3,2) this]
  show ?thesis by blast
qed

text \<open>
  C25. Failed operations of an agent loop change nothing: when proposing, settling or cancelling returns an error,
  the loop and the ledger are exactly as before, including a reservation that was made and rolled back because the
  context projection failed. The same holds for the subagent manager with its context store and ledger: a refused
  spawn, completion, integration or cancellation leaves the manager, every revision and every budget as before.
\<close>

theorem agent_errors_atomic:
  assumes "ll_new root b = Inr l0" and "ll_run l0 us l" and "hex_digest (ae_sha env)"
  shows "(agent_apply env op a l = (Some e, a', l') \<longrightarrow> a' = a \<and> l' = l)
    \<and> (subagent_apply c sop m s l = (Some e', m', s', l'') \<longrightarrow> m' = m \<and> s' = s \<and> l'' = l)"
proof -
  have l: "ll_inv l"
    by (rule ll_run_inv [OF assms(1,2)])
  have propose: "propose_model_turn env ctx a l = (Inl e, a', l') \<Longrightarrow> a' = a \<and> l' = l" for ctx
    using l assms(3) by (elim propose_cases) auto
  have settle: "settle_committed_outcome o' u a l = (Inl e, a', l') \<or> settle_committed_run_outcome o' u a l = (Inl e, a', l')
      \<Longrightarrow> a' = a \<and> l' = l" for o' u
    using l by (elim settle_cases) auto
  have "agent_apply env op a l = (Some e, a', l') \<Longrightarrow> a' = a \<and> l' = l"
    by (cases op) (auto simp: ag_cancel_def dest: propose settle [OF disjI1] settle [OF disjI2] split: prod.splits sum.splits if_splits)
  moreover have "subagent_apply c sop m s l = (Some e', m', s', l'') \<Longrightarrow> m' = m \<and> s' = s \<and> l'' = l"
    using sm_spawn_error [OF l] sm_integrate_error [OF l] sm_cancel_error [OF l]
    by (cases sop) (auto simp: sm_complete_def split: prod.splits option.splits if_splits)
  ultimately show ?thesis by blast
qed

theorem agent_errors_atomic_witness:
  "agent_apply demo_agent_env (OpPropose JNull) demo_agent demo_new = (Some AgContextProjection, demo_agent, demo_new)"
proof -
  have "fst (agent_apply demo_agent_env (OpPropose JNull) demo_agent demo_new) = Some AgContextProjection"
    by code_simp
  then obtain a' l' where "agent_apply demo_agent_env (OpPropose JNull) demo_agent demo_new = (Some AgContextProjection, a', l')"
    by (metis prod.collapse)
  with agent_errors_atomic [OF demo_new_eq run_start demo_agent_ok(2)] show ?thesis
    by metis
qed

end
