(* ===== verification/Gateway.thy ===== *)
theory Gateway
  imports Plan
begin

text \<open>
  The worker's boundary to the trusted core (\<open>crates/aworkit-workflow-worker/src/gateway.rs\<close>):
  controls are admitted once and only for the active identity, proposals are numbered, kept until
  they are acknowledged and bounded in number and bytes. The canonical and the plain JSON encoders
  are parameters.
\<close>

section \<open>Data\<close>

datatype admission = AdNew | AdDuplicate

datatype gateway_error =
    GwNotInitialized | GwAlreadyInitialized | GwMessageIdentityConflict | GwIdentityMismatch
  | GwGenerationMismatch | GwSnapshotMismatch | GwCursorMismatch | GwBackpressure
  | GwUnknownAcknowledgement | GwSequenceExhausted | GwEncoding | GwInvalidIdentifier

record active_identity =
  ai_chat_id :: stable_id
  ai_run_id :: stable_id
  ai_generation :: process_generation
  ai_snapshot_hash :: string

record gateway =
  gw_identity :: "active_identity option"
  gw_worker_sequence :: u64
  gw_committed_cursor :: u64
  gw_seen_messages :: "(string, string) bmap"
  gw_pending :: "(string, worker_proposal_envelope) bmap"
  gw_pending_bytes :: usize
  gw_max_pending_proposals :: usize
  gw_max_pending_bytes :: usize
  gw_acknowledged :: "string list"

text \<open>\<open>serde_jcs::to_vec\<close> of a control, \<open>serde_json::to_vec\<close> of a proposal, and SHA-256.\<close>

record gateway_codec =
  gc_jcs :: "worker_control_envelope \<Rightarrow> string option"
  gc_json :: "worker_proposal_envelope \<Rightarrow> string option"
  gc_sha :: digest

definition MAX_RESERVED_CONTROL_PROPOSALS :: usize where
  "MAX_RESERVED_CONTROL_PROPOSALS = 64"

definition RESERVED_BYTES :: usize where
  "RESERVED_BYTES = 256 * 1024"

text \<open>Sums of \<open>usize\<close> values, 64 bits wide.\<close>

definition usize_saturating_add :: "usize \<Rightarrow> usize \<Rightarrow> usize" where
  "usize_saturating_add a b = min (a + b) (2 ^ 64 - 1)"

definition usize_checked_add :: "usize \<Rightarrow> usize \<Rightarrow> usize option" where
  "usize_checked_add a b = (if a + b < 2 ^ 64 then Some (a + b) else None)"

lemma usize_saturating_add_code [code]:
  "usize_saturating_add a b = (case (try_from_usize (a + b) :: u64 option) of None \<Rightarrow> unat (- 1 :: u64) | Some _ \<Rightarrow> a + b)"
  by (simp add: usize_saturating_add_def try_from_usize_def unsigned_minus_1_eq_mask mask_eq_exp_minus_1 min_def)

lemma usize_checked_add_code [code]:
  "usize_checked_add a b = (case (try_from_usize (a + b) :: u64 option) of None \<Rightarrow> None | Some _ \<Rightarrow> Some (a + b))"
  by (simp add: usize_checked_add_def try_from_usize_def)

section \<open>Operations\<close>

definition gw_with_bounds :: "usize \<Rightarrow> usize \<Rightarrow> gateway" where
  "gw_with_bounds max_pending_proposals max_pending_bytes =
     \<lparr>gw_identity = None, gw_worker_sequence = 0, gw_committed_cursor = 0, gw_seen_messages = [],
      gw_pending = [], gw_pending_bytes = 0, gw_max_pending_proposals = max_pending_proposals,
      gw_max_pending_bytes = max_pending_bytes, gw_acknowledged = []\<rparr>"

definition gw_new :: gateway where
  "gw_new = gw_with_bounds 1024 (8 * 1024 * 1024)"

definition validate_identity :: "worker_control_envelope \<Rightarrow> gateway \<Rightarrow> gateway_error + unit" where
  "validate_identity envelope g =
     (case gw_identity g of
        None \<Rightarrow> Inl GwNotInitialized
      | Some i \<Rightarrow>
          if ai_chat_id i \<noteq> ce_chat_id envelope \<or> ai_run_id i \<noteq> ce_run_id envelope then Inl GwIdentityMismatch
          else if ai_generation i \<noteq> ce_generation envelope then Inl GwGenerationMismatch
          else if ai_snapshot_hash i \<noteq> ce_snapshot_hash envelope then Inl GwSnapshotMismatch
          else Inr ())"

definition gw_acknowledge :: "gateway_codec \<Rightarrow> stable_id \<Rightarrow> u64 \<Rightarrow> gateway \<Rightarrow> (gateway_error + unit) \<times> gateway" where
  "gw_acknowledge c proposal_id committed_cursor g =
     (if proposal_id \<in> set (gw_acknowledged g)
      then if committed_cursor < gw_committed_cursor g then (Inl GwCursorMismatch, g)
           else (Inr (), g\<lparr>gw_committed_cursor := committed_cursor\<rparr>)
      else if committed_cursor \<le> gw_committed_cursor g then (Inl GwCursorMismatch, g)
      else case bget (gw_pending g) proposal_id of
        None \<Rightarrow> (Inl GwUnknownAcknowledgement, g)
      | Some removed \<Rightarrow>
          let g1 = g\<lparr>gw_pending := bremove proposal_id (gw_pending g)\<rparr> in
          (case gc_json c removed of
             None \<Rightarrow> (Inl GwEncoding, g1)
           | Some bytes \<Rightarrow>
               (Inr (),
                g1\<lparr>gw_pending_bytes := gw_pending_bytes g - length bytes,
                   gw_acknowledged := sinsert proposal_id (gw_acknowledged g),
                   gw_committed_cursor := committed_cursor\<rparr>)))"

definition envelope_identity :: "worker_control_envelope \<Rightarrow> active_identity" where
  "envelope_identity envelope =
     \<lparr>ai_chat_id = ce_chat_id envelope, ai_run_id = ce_run_id envelope, ai_generation = ce_generation envelope,
      ai_snapshot_hash = ce_snapshot_hash envelope\<rparr>"

definition snapshot_matches :: "worker_frozen_run_snapshot \<Rightarrow> worker_control_envelope \<Rightarrow> bool" where
  "snapshot_matches snapshot envelope \<longleftrightarrow>
     ws_chat_id snapshot = ce_chat_id envelope \<and> ws_run_id snapshot = ce_run_id envelope
     \<and> ws_snapshot_hash snapshot = ce_snapshot_hash envelope"

text \<open>The two matches of \<open>admit_control\<close>: the identity, then the cursor.\<close>

definition admit_identity :: "worker_control_envelope \<Rightarrow> gateway \<Rightarrow> (gateway_error + unit) \<times> gateway" where
  "admit_identity envelope g =
     (case ce_control envelope of
        CtStart snapshot \<Rightarrow>
          if gw_identity g \<noteq> None then (Inl GwAlreadyInitialized, g)
          else if \<not> snapshot_matches snapshot envelope then (Inl GwIdentityMismatch, g)
          else (Inr (), g\<lparr>gw_identity := Some (envelope_identity envelope), gw_committed_cursor := ce_committed_cursor envelope\<rparr>)
      | CtRestore rehydration \<Rightarrow>
          if gw_identity g \<noteq> None then (Inl GwAlreadyInitialized, g)
          else if \<not> snapshot_matches (re_snapshot rehydration) envelope
               \<or> re_replacement_generation rehydration \<noteq> ce_generation envelope
          then (Inl GwIdentityMismatch, g)
          else (Inr (), g\<lparr>gw_identity := Some (envelope_identity envelope), gw_committed_cursor := ce_committed_cursor envelope\<rparr>)
      | _ \<Rightarrow> (validate_identity envelope g, g))"

definition admit_cursor :: "gateway_codec \<Rightarrow> worker_control_envelope \<Rightarrow> gateway \<Rightarrow> (gateway_error + unit) \<times> gateway" where
  "admit_cursor c envelope g =
     (case ce_control envelope of
        CtCommittedAck proposal_id committed_cursor \<Rightarrow> gw_acknowledge c proposal_id committed_cursor g
      | _ \<Rightarrow> if ce_committed_cursor envelope \<noteq> gw_committed_cursor g then (Inl GwCursorMismatch, g) else (Inr (), g))"

definition admit_control :: "gateway_codec \<Rightarrow> worker_control_envelope \<Rightarrow> gateway \<Rightarrow> (gateway_error + admission) \<times> gateway" where
  "admit_control c envelope g =
     (case gc_jcs c envelope of
        None \<Rightarrow> (Inl GwEncoding, g)
      | Some bytes \<Rightarrow>
          let message_hash = gc_sha c bytes in
          (case bget (gw_seen_messages g) (ce_message_id envelope) of
             Some existing \<Rightarrow>
               if existing \<noteq> message_hash then (Inl GwMessageIdentityConflict, g)
               else (bind_r (validate_identity envelope g) (\<lambda>_. Inr AdDuplicate), g)
           | None \<Rightarrow>
               (case admit_identity envelope g of
                  (Inl e, g1) \<Rightarrow> (Inl e, g1)
                | (Inr _, g1) \<Rightarrow>
                    (case admit_cursor c envelope g1 of
                       (Inl e, g2) \<Rightarrow> (Inl e, g2)
                     | (Inr _, g2) \<Rightarrow>
                         (Inr AdNew,
                          g2\<lparr>gw_seen_messages := binsert (ce_message_id envelope) message_hash (gw_seen_messages g2)\<rparr>)))))"

definition proposal_material :: "active_identity \<Rightarrow> u64 \<Rightarrow> string" where
  "proposal_material i next_sequence =
     ''proposal:'' @ ai_chat_id i @ '':'' @ ai_run_id i @ '':'' @ show_nat (unat (ai_generation i)) @ '':''
       @ show_nat (unat next_sequence)"

definition gw_stable_id :: "gateway_codec \<Rightarrow> string \<Rightarrow> gateway_error + stable_id" where
  "gw_stable_id c material =
     (case derived_id (gc_sha c) ''gateway.'' material of Inl _ \<Rightarrow> Inl GwInvalidIdentifier | Inr i \<Rightarrow> Inr i)"

definition proposal_envelope :: "active_identity \<Rightarrow> stable_id \<Rightarrow> u64 \<Rightarrow> u64 \<Rightarrow> worker_proposal_kind \<Rightarrow> worker_proposal_envelope" where
  "proposal_envelope i proposal_id next_sequence cursor proposal =
     \<lparr>pe_proposal_id = proposal_id, pe_chat_id = ai_chat_id i, pe_run_id = ai_run_id i,
      pe_generation = ai_generation i, pe_snapshot_hash = ai_snapshot_hash i, pe_worker_sequence = next_sequence,
      pe_base_committed_cursor = cursor, pe_proposal = proposal\<rparr>"

definition over_byte_limit :: "bool \<Rightarrow> usize \<Rightarrow> usize \<Rightarrow> bool" where
  "over_byte_limit reserved max_pending_bytes new_bytes \<longleftrightarrow>
     (\<not> reserved \<and> max_pending_bytes < new_bytes) \<or> usize_saturating_add max_pending_bytes RESERVED_BYTES < new_bytes"

lemma over_byte_limit_code [code]:
  "over_byte_limit reserved m n =
     (if n \<le> m then (try_from_usize n :: u64 option) = None else \<not> reserved \<or> usize_saturating_add m RESERVED_BYTES < n)"
  by (auto simp: over_byte_limit_def usize_saturating_add_def try_from_usize_def min_def)

definition emit_inner ::
  "gateway_codec \<Rightarrow> worker_proposal_kind \<Rightarrow> bool \<Rightarrow> gateway \<Rightarrow> (gateway_error + worker_proposal_envelope) \<times> gateway" where
  "emit_inner c proposal reserved g =
     (case gw_identity g of
        None \<Rightarrow> (Inl GwNotInitialized, g)
      | Some i \<Rightarrow>
          if (\<not> reserved \<and> gw_max_pending_proposals g \<le> length (gw_pending g))
             \<or> usize_saturating_add (gw_max_pending_proposals g) MAX_RESERVED_CONTROL_PROPOSALS \<le> length (gw_pending g)
          then (Inl GwBackpressure, g)
          else
            (case bind_r (ok_or (checked_add (gw_worker_sequence g) 1) GwSequenceExhausted) (\<lambda>next_sequence.
                  bind_r (gw_stable_id c (proposal_material i next_sequence)) (\<lambda>proposal_id.
                  let envelope = proposal_envelope i proposal_id next_sequence (gw_committed_cursor g) proposal in
                  bind_r (ok_or (gc_json c envelope) GwEncoding) (\<lambda>encoded.
                  bind_r (ok_or (usize_checked_add (gw_pending_bytes g) (length encoded)) GwBackpressure) (\<lambda>new_bytes.
                  if over_byte_limit reserved (gw_max_pending_bytes g) new_bytes then Inl GwBackpressure else Inr (envelope, new_bytes))))) of
               Inl e \<Rightarrow> (Inl e, g)
             | Inr (envelope, new_bytes) \<Rightarrow>
                 (Inr envelope,
                  g\<lparr>gw_pending_bytes := new_bytes, gw_worker_sequence := pe_worker_sequence envelope,
                    gw_pending := binsert (pe_proposal_id envelope) envelope (gw_pending g)\<rparr>)))"

definition gw_emit :: "gateway_codec \<Rightarrow> worker_proposal_kind \<Rightarrow> gateway \<Rightarrow> (gateway_error + worker_proposal_envelope) \<times> gateway" where
  "gw_emit c proposal g = emit_inner c proposal False g"

definition gw_emit_reserved :: "gateway_codec \<Rightarrow> worker_proposal_kind \<Rightarrow> gateway \<Rightarrow> (gateway_error + worker_proposal_envelope) \<times> gateway" where
  "gw_emit_reserved c proposal g = emit_inner c proposal True g"

definition retransmit_pending :: "gateway \<Rightarrow> worker_proposal_envelope list" where
  "retransmit_pending g = sort_key pe_worker_sequence (bvalues (gw_pending g))"

section \<open>The invariant\<close>

lemma emit_inner_cases:
  assumes "emit_inner c p reserved g = (r, g')"
  obtains (refused) x where "r = Inl x" "g' = g"
  | (emitted) i e bytes where "r = Inr e" "gw_identity g = Some i"
      "e = proposal_envelope i (pe_proposal_id e) (pe_worker_sequence e) (gw_committed_cursor g) p"
      "unat (pe_worker_sequence e) = unat (gw_worker_sequence g) + 1" "gc_json c e = Some bytes"
      "length (gw_pending g) < usize_saturating_add (gw_max_pending_proposals g) MAX_RESERVED_CONTROL_PROPOSALS"
      "gw_pending_bytes g + length bytes \<le> usize_saturating_add (gw_max_pending_bytes g) RESERVED_BYTES"
      "g' = g\<lparr>gw_pending_bytes := gw_pending_bytes g + length bytes, gw_worker_sequence := pe_worker_sequence e,
         gw_pending := binsert (pe_proposal_id e) e (gw_pending g)\<rparr>"
proof (cases r)
  case (Inl x)
  with assms have "g' = g"
    by (auto simp: emit_inner_def split: option.splits if_splits sum.splits)
  with Inl show ?thesis by (rule refused)
next
  case (Inr e)
  with assms obtain i q k bytes where i: "gw_identity g = Some i" and seq: "checked_add (gw_worker_sequence g) 1 = Some q"
    and e: "e = proposal_envelope i k q (gw_committed_cursor g) p" and json: "gc_json c e = Some bytes"
    and room: "length (gw_pending g) < usize_saturating_add (gw_max_pending_proposals g) MAX_RESERVED_CONTROL_PROPOSALS"
    and fit: "gw_pending_bytes g + length bytes \<le> usize_saturating_add (gw_max_pending_bytes g) RESERVED_BYTES"
    and g': "g' = g\<lparr>gw_pending_bytes := gw_pending_bytes g + length bytes, gw_worker_sequence := pe_worker_sequence e,
         gw_pending := binsert (pe_proposal_id e) e (gw_pending g)\<rparr>"
    by (auto simp: emit_inner_def bind_r_Inr ok_or_Inr usize_checked_add_def over_byte_limit_def Let_def not_le not_less
        split: option.splits if_splits sum.splits)
  have "unat q = unat (gw_worker_sequence g) + 1"
    using seq by (simp add: checked_add_Some)
  then show ?thesis
    using emitted [OF Inr i _ _ json room fit g'] e by (simp add: proposal_envelope_def)
qed

definition proposal_identity :: "worker_proposal_envelope \<Rightarrow> active_identity" where
  "proposal_identity e = \<lparr>ai_chat_id = pe_chat_id e, ai_run_id = pe_run_id e, ai_generation = pe_generation e,
     ai_snapshot_hash = pe_snapshot_hash e\<rparr>"

lemma proposal_identity_envelope [simp]: "proposal_identity (proposal_envelope i k q cur p) = i"
  by (simp add: proposal_identity_def proposal_envelope_def)

abbreviation proposal_bytes :: "gateway_codec \<Rightarrow> worker_proposal_envelope \<Rightarrow> nat" where
  "proposal_bytes c e \<equiv> length (the (gc_json c e))"

definition sequenced :: "worker_proposal_envelope list \<Rightarrow> u64 \<Rightarrow> bool" where
  "sequenced es q \<longleftrightarrow> map (\<lambda>e. unat (pe_worker_sequence e)) es = [1..<Suc (unat q)]"

lemma sequenced_snoc:
  "sequenced es q \<Longrightarrow> unat (pe_worker_sequence e) = unat q + 1 \<Longrightarrow> sequenced (es @ [e]) (pe_worker_sequence e)"
  by (simp add: sequenced_def)

text \<open>The state of a gateway that has emitted the proposals \<open>es\<close>, in this order.\<close>

definition gw_inv :: "gateway_codec \<Rightarrow> worker_proposal_envelope list \<Rightarrow> gateway \<Rightarrow> bool" where
  "gw_inv c es g \<longleftrightarrow>
     bwf (gw_pending g) \<and> distinct (map pe_proposal_id es)
     \<and> sequenced es (gw_worker_sequence g)
     \<and> (\<forall>k e. bget (gw_pending g) k = Some e \<longleftrightarrow> e \<in> set es \<and> pe_proposal_id e = k \<and> k \<notin> set (gw_acknowledged g))
     \<and> set (gw_acknowledged g) \<subseteq> pe_proposal_id ` set es
     \<and> (\<forall>e \<in> set es. gc_json c e \<noteq> None)
     \<and> gw_pending_bytes g = bsum (proposal_bytes c) (gw_pending g)
     \<and> length (gw_pending g) \<le> usize_saturating_add (gw_max_pending_proposals g) MAX_RESERVED_CONTROL_PROPOSALS
     \<and> gw_pending_bytes g \<le> usize_saturating_add (gw_max_pending_bytes g) RESERVED_BYTES"

lemma gw_invD:
  assumes "gw_inv c es g"
  shows "bwf (gw_pending g)" and "distinct (map pe_proposal_id es)" and "sequenced es (gw_worker_sequence g)"
    and "bget (gw_pending g) k = Some e \<longleftrightarrow> e \<in> set es \<and> pe_proposal_id e = k \<and> k \<notin> set (gw_acknowledged g)"
    and "set (gw_acknowledged g) \<subseteq> pe_proposal_id ` set es" and "\<forall>e \<in> set es. gc_json c e \<noteq> None"
    and "gw_pending_bytes g = bsum (proposal_bytes c) (gw_pending g)"
    and "length (gw_pending g) \<le> usize_saturating_add (gw_max_pending_proposals g) MAX_RESERVED_CONTROL_PROPOSALS"
    and "gw_pending_bytes g \<le> usize_saturating_add (gw_max_pending_bytes g) RESERVED_BYTES"
  using assms unfolding gw_inv_def by blast+

lemma gw_inv_new: "gw_inv c [] (gw_with_bounds n b)"
  by (simp add: gw_inv_def gw_with_bounds_def sequenced_def)

lemma gw_inv_emit:
  assumes inv: "gw_inv c es g" and op: "emit_inner c p reserved g = (Inr e, g')"
    and fresh: "pe_proposal_id e \<notin> pe_proposal_id ` set es"
  shows "gw_inv c (es @ [e]) g'"
  using op
proof (cases rule: emit_inner_cases)
  case (emitted i e' bytes)
  let ?k = "pe_proposal_id e"
  have e: "e' = e"
    using emitted(1) by simp
  have nack: "?k \<notin> set (gw_acknowledged g)"
    using gw_invD(5) [OF inv] fresh by blast
  have "bget (gw_pending g) ?k \<noteq> Some x" for x
    using gw_invD(4) [OF inv, of ?k x] fresh by (metis imageI)
  then have none: "bget (gw_pending g) ?k = None"
    by (cases "bget (gw_pending g) ?k") auto
  have "length (binsert ?k e (gw_pending g)) = Suc (length (gw_pending g))"
    using none gw_invD(1) [OF inv] by (simp add: length_binsert bcontains_def)
  moreover have "bsum (proposal_bytes c) (binsert ?k e (gw_pending g)) = length bytes + bsum (proposal_bytes c) (gw_pending g)"
    using bsum_binsert_new [OF none] emitted(5) e by simp
  moreover have "bget (binsert ?k e (gw_pending g)) j = Some x \<longleftrightarrow> x \<in> set (es @ [e]) \<and> pe_proposal_id x = j \<and> j \<notin> set (gw_acknowledged g)" for j x
    using gw_invD(4) [OF inv, of j x] nack fresh none by auto
  moreover have "sequenced (es @ [e]) (pe_worker_sequence e)"
    using inv emitted(4) sequenced_snoc unfolding gw_inv_def e by blast
  ultimately show ?thesis
    unfolding gw_inv_def emitted(8) using inv emitted(5-7) fresh unfolding gw_inv_def e by auto
qed simp

lemma gw_inv_acknowledge:
  assumes inv: "gw_inv c es g" and op: "gw_acknowledge c pid cur g = (r, g')"
  shows "gw_inv c es g'"
proof (cases "bget (gw_pending g) pid")
  case None
  with op inv show ?thesis
    by (auto simp: gw_acknowledge_def gw_inv_def split: if_splits)
next
  case (Some e)
  have json: "gc_json c e \<noteq> None" and nack: "pid \<notin> set (gw_acknowledged g)" and mem: "e \<in> set es" "pe_proposal_id e = pid"
    using inv Some unfolding gw_inv_def by blast+
  then obtain bytes where bytes: "gc_json c e = Some bytes"
    by blast
  have sum: "bsum (proposal_bytes c) (gw_pending g) = length bytes + bsum (proposal_bytes c) (bremove pid (gw_pending g))"
    using bsum_bremove [OF _ Some] inv bytes by (simp add: gw_inv_def)
  have len: "length (bremove pid (gw_pending g)) \<le> length (gw_pending g)"
    by (simp add: bremove_def)
  have get: "bget (bremove pid (gw_pending g)) k = Some x \<longleftrightarrow> x \<in> set es \<and> pe_proposal_id x = k \<and> k \<notin> set (sinsert pid (gw_acknowledged g))" for k x
    using inv unfolding gw_inv_def by auto
  have removed: "gw_inv c es (g\<lparr>gw_pending := bremove pid (gw_pending g), gw_pending_bytes := gw_pending_bytes g - length bytes,
      gw_acknowledged := sinsert pid (gw_acknowledged g), gw_committed_cursor := cur\<rparr>)"
    using inv sum len get mem unfolding gw_inv_def by auto
  from op Some bytes nack have "g' = g \<or> g' = g\<lparr>gw_pending := bremove pid (gw_pending g), gw_pending_bytes := gw_pending_bytes g - length bytes,
      gw_acknowledged := sinsert pid (gw_acknowledged g), gw_committed_cursor := cur\<rparr>"
    by (auto simp: gw_acknowledge_def Let_def split: if_splits)
  with inv removed show ?thesis
    by blast
qed

lemma admit_identity_cases:
  assumes "admit_identity envelope g = (r, g')"
  obtains "g' = g" | "r = Inr ()" "gw_identity g = None"
    "g' = g\<lparr>gw_identity := Some (envelope_identity envelope), gw_committed_cursor := ce_committed_cursor envelope\<rparr>"
proof -
  from assms have "g' = g \<or> r = Inr () \<and> gw_identity g = None
      \<and> g' = g\<lparr>gw_identity := Some (envelope_identity envelope), gw_committed_cursor := ce_committed_cursor envelope\<rparr>"
    by (cases "ce_control envelope") (auto simp: admit_identity_def split: if_splits)
  then show ?thesis
    by (elim disjE conjE) (rule that; assumption)+
qed

lemma admit_cursor_cases:
  assumes "admit_cursor c envelope g = (r, g')"
  obtains "g' = g" | pid cur where "gw_acknowledge c pid cur g = (r, g')"
  using assms that by (cases "ce_control envelope") (auto simp: admit_cursor_def split: if_splits)

text \<open>Admitting a control composes an initialisation, an acknowledgement and a note of the message.\<close>

lemma admit_control_cases:
  assumes "admit_control c envelope g = (r, g')"
  obtains "g' = g" | r1 g1 r2 g2 seen where "admit_identity envelope g = (r1, g1)"
    "g2 = g1 \<or> admit_cursor c envelope g1 = (r2, g2)" "g' = g2\<lparr>gw_seen_messages := seen\<rparr>"
proof -
  have same: "g2 = g2\<lparr>gw_seen_messages := gw_seen_messages g2\<rparr>" for g2 :: gateway
    by simp
  obtain r1 g1 where id: "admit_identity envelope g = (r1, g1)"
    by fastforce
  obtain r2 g2 where cur: "admit_cursor c envelope g1 = (r2, g2)"
    by fastforce
  from assms id cur have "g' = g \<or> g' = g1 \<or> g' = g2 \<or> (\<exists>seen. g' = g2\<lparr>gw_seen_messages := seen\<rparr>)"
    by (auto simp: admit_control_def Let_def split: option.splits if_splits sum.splits)
  then consider "g' = g" | "g' = g1\<lparr>gw_seen_messages := gw_seen_messages g1\<rparr>" | seen where "g' = g2\<lparr>gw_seen_messages := seen\<rparr>"
    using same [of g1] same [of g2] by blast
  then show ?thesis
    by cases (use that id cur in blast)+
qed

lemma gw_inv_other [simp]:
  "gw_inv c es (g\<lparr>gw_seen_messages := seen\<rparr>) \<longleftrightarrow> gw_inv c es g"
  "gw_inv c es (g\<lparr>gw_identity := i, gw_committed_cursor := cur\<rparr>) \<longleftrightarrow> gw_inv c es g"
  by (simp_all add: gw_inv_def)

lemma gw_inv_control:
  assumes inv: "gw_inv c es g" and op: "admit_control c envelope g = (r, g')"
  shows "gw_inv c es g'"
proof -
  have id: "gw_inv c es g1" if "admit_identity envelope g = (r1, g1)" for r1 g1
    using that inv by (cases rule: admit_identity_cases) simp_all
  have cur: "gw_inv c es g2" if "gw_inv c es g1" "admit_cursor c envelope g1 = (r2, g2)" for r2 g1 g2
    using that(2) by (cases rule: admit_cursor_cases) (use that(1) gw_inv_acknowledge in auto)
  from op show ?thesis
    by (cases rule: admit_control_cases) (use inv id cur in auto)
qed

section \<open>Runs\<close>

text \<open>A run labelled with the proposals it emits; proposal identifiers do not collide.\<close>

inductive gw_run :: "gateway_codec \<Rightarrow> gateway \<Rightarrow> worker_proposal_envelope list \<Rightarrow> gateway \<Rightarrow> bool" for c g0 where
  run_start: "gw_run c g0 [] g0"
| run_control: "gw_run c g0 es g \<Longrightarrow> admit_control c envelope g = (r, g') \<Longrightarrow> gw_run c g0 es g'"
| run_emitted: "gw_run c g0 es g \<Longrightarrow> emit_inner c p reserved g = (Inr e, g')
    \<Longrightarrow> pe_proposal_id e \<notin> pe_proposal_id ` set es \<Longrightarrow> gw_run c g0 (es @ [e]) g'"
| run_refused: "gw_run c g0 es g \<Longrightarrow> emit_inner c p reserved g = (Inl x, g') \<Longrightarrow> gw_run c g0 es g'"

lemma emit_refused: "emit_inner c p reserved g = (Inl x, g') \<Longrightarrow> g' = g"
  by (erule emit_inner_cases) simp_all

lemma gw_run_inv: "gw_run c (gw_with_bounds n b) es g \<Longrightarrow> gw_inv c es g"
  by (induction rule: gw_run.induct) (auto intro: gw_inv_new gw_inv_control gw_inv_emit dest: emit_refused)

lemma gw_acknowledge_frame:
  assumes "gw_acknowledge c pid cur g = (r, g')"
  shows "gw_identity g' = gw_identity g" "gw_committed_cursor g \<le> gw_committed_cursor g'"
    "gw_max_pending_proposals g' = gw_max_pending_proposals g" "gw_max_pending_bytes g' = gw_max_pending_bytes g"
  using assms by (auto simp: gw_acknowledge_def Let_def split: if_splits option.splits)

lemma admit_control_frame:
  assumes op: "admit_control c envelope g = (r, g')"
  shows "gw_max_pending_proposals g' = gw_max_pending_proposals g \<and> gw_max_pending_bytes g' = gw_max_pending_bytes g
    \<and> (gw_identity g \<noteq> None \<longrightarrow> gw_identity g' = gw_identity g \<and> gw_committed_cursor g \<le> gw_committed_cursor g')"
proof -
  have cur: "gw_identity g2 = gw_identity g1 \<and> gw_committed_cursor g1 \<le> gw_committed_cursor g2
      \<and> gw_max_pending_proposals g2 = gw_max_pending_proposals g1 \<and> gw_max_pending_bytes g2 = gw_max_pending_bytes g1"
    if "admit_cursor c envelope g1 = (r2, g2)" for r2 g1 g2
    using that by (cases rule: admit_cursor_cases) (auto simp: gw_acknowledge_frame)
  have id: "gw_max_pending_proposals g1 = gw_max_pending_proposals g \<and> gw_max_pending_bytes g1 = gw_max_pending_bytes g
      \<and> (gw_identity g \<noteq> None \<longrightarrow> g1 = g)" if "admit_identity envelope g = (r1, g1)" for r1 g1
    using that by (cases rule: admit_identity_cases) simp_all
  from op show ?thesis
  proof (cases rule: admit_control_cases)
    case (2 r1 g1 r2 g2 seen)
    with id [OF 2(1)] cur [of g1 r2 g2] show ?thesis by auto
  qed simp
qed

lemma gw_run_fence:
  assumes "gw_run c g es g'" and "gw_identity g = Some i"
  shows "gw_identity g' = Some i \<and> gw_committed_cursor g \<le> gw_committed_cursor g' \<and> (\<forall>e \<in> set es. proposal_identity e = i)"
  using assms
proof (induction rule: gw_run.induct)
  case (run_control es g envelope r g')
  with admit_control_frame [OF run_control.hyps(2)] show ?case by auto
next
  case (run_emitted es g p reserved e g')
  from run_emitted.hyps(2) show ?case
  proof (cases rule: emit_inner_cases)
    case (emitted i' e' bytes)
    then have "proposal_identity e = i'"
      by (metis proposal_identity_envelope sum.inject(2))
    with emitted run_emitted show ?thesis by auto
  qed simp
qed (auto dest: emit_refused)

lemma gw_run_limits:
  "gw_run c g es g' \<Longrightarrow> gw_max_pending_proposals g' = gw_max_pending_proposals g \<and> gw_max_pending_bytes g' = gw_max_pending_bytes g"
proof (induction rule: gw_run.induct)
  case (run_control es g envelope r g')
  with admit_control_frame [OF run_control.hyps(2)] show ?case by simp
next
  case (run_emitted es g p reserved e g')
  from run_emitted.hyps(2) show ?case
    by (cases rule: emit_inner_cases) (use run_emitted.IH in simp_all)
qed (auto dest: emit_refused)

section \<open>Properties\<close>

definition demo_gateway_codec :: gateway_codec where
  "demo_gateway_codec = \<lparr>gc_jcs = (\<lambda>_. Some []), gc_json = (\<lambda>e. Some (pe_proposal_id e)), gc_sha = tail_digest\<rparr>"

definition demo_run_snapshot :: worker_frozen_run_snapshot where
  "demo_run_snapshot = demo_snapshot\<lparr>ws_chat_id := ''c'', ws_run_id := ''r'', ws_snapshot_hash := ''h''\<rparr>"

definition demo_control :: "stable_id \<Rightarrow> worker_control_kind \<Rightarrow> worker_control_envelope" where
  "demo_control message_id control =
     \<lparr>ce_message_id = message_id, ce_chat_id = ''c'', ce_run_id = ''r'',
      ce_generation = 1, ce_snapshot_hash = ''h'', ce_committed_cursor = 0, ce_control = control\<rparr>"

definition demo_gateway0 :: gateway where
  "demo_gateway0 = snd (admit_control demo_gateway_codec (demo_control ''start'' (CtStart demo_run_snapshot)) (gw_with_bounds 2 200))"

definition demo_emit1 :: "(gateway_error + worker_proposal_envelope) \<times> gateway" where
  "demo_emit1 = gw_emit demo_gateway_codec (PrReady ''plan'') demo_gateway0"

definition demo_emit2 :: "(gateway_error + worker_proposal_envelope) \<times> gateway" where
  "demo_emit2 = gw_emit demo_gateway_codec (PrHealth JNull) (snd demo_emit1)"

definition demo_acked_gateway :: gateway where
  "demo_acked_gateway = snd (admit_control demo_gateway_codec
     (demo_control ''ack'' (CtCommittedAck (pe_proposal_id (projr (fst demo_emit1))) 1)) (snd demo_emit2))"

lemma demo_emits:
  "is_ok (fst demo_emit1) \<and> is_ok (fst demo_emit2)
   \<and> pe_proposal_id (projr (fst demo_emit2)) \<noteq> pe_proposal_id (projr (fst demo_emit1))
   \<and> map pe_worker_sequence (retransmit_pending demo_acked_gateway) = [2]
   \<and> length (gw_acknowledged demo_acked_gateway) = 1"
  by code_simp

lemma demo_gateway_run:
  "gw_run demo_gateway_codec (gw_with_bounds 2 200) [projr (fst demo_emit1), projr (fst demo_emit2)] demo_acked_gateway"
proof -
  have ok: "x = (Inr (projr (fst x)), snd x)" if "is_ok (fst x)" for x :: "(gateway_error + worker_proposal_envelope) \<times> gateway"
    using that by (cases x; cases "fst x") auto
  have "gw_run demo_gateway_codec (gw_with_bounds 2 200) [] demo_gateway0"
    unfolding demo_gateway0_def by (rule run_control [OF run_start]) (rule prod.collapse [symmetric])
  then have "gw_run demo_gateway_codec (gw_with_bounds 2 200) ([] @ [projr (fst demo_emit1)]) (snd demo_emit1)"
    by (rule run_emitted [where reserved = False]) (use ok [of demo_emit1] demo_emits in \<open>simp_all add: demo_emit1_def gw_emit_def\<close>)
  then have "gw_run demo_gateway_codec (gw_with_bounds 2 200) (([] @ [projr (fst demo_emit1)]) @ [projr (fst demo_emit2)]) (snd demo_emit2)"
    by (rule run_emitted [where reserved = False]) (use ok [of demo_emit2] demo_emits in \<open>simp_all add: demo_emit2_def gw_emit_def\<close>)
  then have "gw_run demo_gateway_codec (gw_with_bounds 2 200) [projr (fst demo_emit1), projr (fst demo_emit2)] (snd demo_emit2)"
    by simp
  then show ?thesis
    unfolding demo_acked_gateway_def by (rule run_control) (rule prod.collapse [symmetric])
qed

text \<open>
  C19. Retransmission is exact: after any run of a gateway that emitted the proposals \<open>es\<close>, the
  proposals it retransmits are those of \<open>es\<close> that no acknowledgement has named, unaltered and in the
  order in which they were emitted, and the \<open>n\<close>-th emitted proposal carries the sequence number \<open>n\<close>.
\<close>

theorem retransmit_exact:
  assumes "gw_run c (gw_with_bounds n b) es g"
  shows "retransmit_pending g = filter (\<lambda>e. pe_proposal_id e \<notin> set (gw_acknowledged g)) es
    \<and> map (\<lambda>e. unat (pe_worker_sequence e)) es = [1..<Suc (length es)]"
proof -
  note D = gw_invD [OF gw_run_inv [OF assms]]
  let ?fs = "filter (\<lambda>e. pe_proposal_id e \<notin> set (gw_acknowledged g)) es"
  have seq: "map (\<lambda>e. unat (pe_worker_sequence e)) es = [1..<Suc (unat (gw_worker_sequence g))]"
    using D(3) by (simp only: sequenced_def)
  from arg_cong [OF this, of length] have len: "length es = unat (gw_worker_sequence g)"
    by (simp del: upt_Suc)
  have "sorted_wrt (<) (map (\<lambda>e. unat (pe_worker_sequence e)) es)"
    unfolding seq by (rule sorted_wrt_upt)
  then have lt: "sorted_wrt (\<lambda>x y. pe_worker_sequence x < pe_worker_sequence y) es"
    by (simp add: sorted_wrt_map word_less_nat_alt)
  then have "sorted_wrt (\<lambda>x y. pe_worker_sequence x < pe_worker_sequence y) ?fs"
    by (rule sorted_wrt_filter)
  then have sorted: "sorted (map pe_worker_sequence ?fs)"
    unfolding sorted_wrt_map by (rule sorted_wrt_mono_rel [rotated]) simp
  have inj: "inj_on pe_worker_sequence (set es)"
    using lt by (auto simp: inj_on_def in_set_conv_nth sorted_wrt_iff_nth_less) (metis linorder_neqE_nat less_irrefl)
  have keyed: "bforall (\<lambda>k e. pe_proposal_id e = k) (gw_pending g)"
    by (rule bforallI) (simp add: D(4))
  have "distinct (map pe_proposal_id (bvalues (gw_pending g)))"
    unfolding map_key_values [OF D(1) keyed] by (rule bwf_distinct [OF D(1)])
  moreover have "set (bvalues (gw_pending g)) = set ?fs"
    using D(4) in_values_iff [OF D(1)] by (auto simp del: set_map)
  ultimately have "mset (bvalues (gw_pending g)) = mset ?fs"
    using D(2) by (metis distinct_filter distinct_map set_eq_iff_mset_eq_distinct)
  moreover have "inj_on pe_worker_sequence (set (bvalues (gw_pending g)))"
    unfolding \<open>set (bvalues (gw_pending g)) = set ?fs\<close> using inj by (rule inj_on_subset) auto
  ultimately have "sort_key pe_worker_sequence (bvalues (gw_pending g)) = ?fs"
    using sorted by (intro sort_key_inj_key_eq)
  with seq len show ?thesis
    by (simp only: retransmit_pending_def)
qed

theorem retransmit_exact_witness:
  "retransmit_pending demo_acked_gateway = filter (\<lambda>e. pe_proposal_id e \<notin> set (gw_acknowledged demo_acked_gateway))
     [projr (fst demo_emit1), projr (fst demo_emit2)]
   \<and> map pe_worker_sequence (retransmit_pending demo_acked_gateway) = [2]"
  using retransmit_exact [OF demo_gateway_run] demo_emits by blast

text \<open>
  Proposals in flight are bounded and accounted exactly: after any run, the pending proposals are
  at most the limit and 64 for the control lane, the byte count is the sum of the sizes of their
  encodings, and it is at most the byte limit and 256 KiB for the control lane.
\<close>

theorem gateway_bounded:
  assumes "gw_run c (gw_with_bounds n b) es g"
  shows "length (gw_pending g) \<le> n + 64 \<and> gw_pending_bytes g = bsum (\<lambda>e. length (the (gc_json c e))) (gw_pending g)
    \<and> gw_pending_bytes g \<le> b + 256 * 1024"
proof -
  note D = gw_invD [OF gw_run_inv [OF assms]]
  have "gw_max_pending_proposals g = n" "gw_max_pending_bytes g = b"
    using gw_run_limits [OF assms] by (simp_all add: gw_with_bounds_def)
  with D(7-9) show ?thesis
    by (simp add: usize_saturating_add_def MAX_RESERVED_CONTROL_PROPOSALS_def RESERVED_BYTES_def)
qed

theorem gateway_bounded_witness:
  "length (gw_pending demo_acked_gateway) \<le> 2 + 64 \<and> gw_pending_bytes demo_acked_gateway \<le> 200 + 256 * 1024"
  using gateway_bounded [OF demo_gateway_run] by blast

text \<open>
  C21. A started gateway belongs to one run of one generation: whatever follows, its identity stays,
  its committed cursor never falls, every proposal it emits carries the identity, and a control for
  another chat, run, generation or snapshot is refused and leaves the state as it is.
\<close>

theorem gateway_fence:
  assumes "gw_identity g = Some i" and "gw_run c g es g'" and "envelope_identity envelope \<noteq> i"
  shows "gw_identity g' = Some i \<and> gw_committed_cursor g \<le> gw_committed_cursor g'
    \<and> (\<forall>e \<in> set es. proposal_identity e = i) \<and> (\<exists>x. admit_control c envelope g' = (Inl x, g'))"
proof -
  note fence = gw_run_fence [OF assms(2,1)]
  then have "validate_identity envelope g' \<noteq> Inr ()"
    using assms(3) by (cases i) (auto simp: validate_identity_def envelope_identity_def)
  then obtain x where x: "validate_identity envelope g' = Inl x"
    by (cases "validate_identity envelope g'") auto
  have "admit_identity envelope g' = (Inl y, g') \<or> admit_identity envelope g' = (validate_identity envelope g', g')"
    if "y = GwAlreadyInitialized" for y
    using fence that by (cases "ce_control envelope") (simp_all add: admit_identity_def)
  with fence x show ?thesis
    by (auto simp: admit_control_def Let_def split: option.splits)
qed

theorem gateway_fence_witness:
  "gw_identity (snd demo_emit1) = Some (envelope_identity (demo_control ''x'' (CtPause ''p'' ''q'')))
   \<and> (\<exists>x. admit_control demo_gateway_codec ((demo_control ''x'' (CtPause ''p'' ''q''))\<lparr>ce_generation := 2\<rparr>) (snd demo_emit1) = (Inl x, snd demo_emit1))"
proof -
  have "gw_identity (snd demo_emit1) = Some (envelope_identity (demo_control ''x'' (CtPause ''p'' ''q'')))"
    by code_simp
  from gateway_fence [OF this run_start, of "(demo_control ''x'' (CtPause ''p'' ''q''))\<lparr>ce_generation := 2\<rparr>"] this show ?thesis
    by (simp add: envelope_identity_def demo_control_def)
qed

end
