(* ===== verification/Framing.thy ===== *)
theory Framing
  imports Protocol
begin

text \<open>
  Envelopes and bounded framing (\<open>crates/aworkit-protocol/src/lib.rs\<close>): messages travel as a
  four-byte big-endian length and a JSON body. The JSON codec of a message type is a parameter,
  \<open>to_vec\<close> and \<open>from_slice\<close>; theorems that need it assume that decoding inverts encoding. The
  incremental decoder is shown to implement the decoding of the whole stream, however the
  stream is cut into chunks, and to keep a bounded buffer whatever bytes arrive.
\<close>

section \<open>Envelopes\<close>

definition MAX_SAFE_WIRE_INTEGER :: u64 where
  "MAX_SAFE_WIRE_INTEGER = 9007199254740991"

record 'a envelope =
  env_schema_version :: u16
  env_message_id :: stable_id
  env_generation :: u64
  env_kind :: envelope_kind
  env_payload :: 'a

text \<open>The trait \<open>WirePayload\<close>.\<close>

record 'a wire_payload =
  wire_kind :: envelope_kind
  wire_validate :: "'a \<Rightarrow> protocol_error + unit"

definition envelope_v1 :: "stable_id \<Rightarrow> u64 \<Rightarrow> envelope_kind \<Rightarrow> 'a \<Rightarrow> 'a envelope" where
  "envelope_v1 message_id generation kind payload =
     \<lparr>env_schema_version = 1, env_message_id = message_id, env_generation = generation, env_kind = kind,
      env_payload = payload\<rparr>"

definition envelope_typed :: "'a wire_payload \<Rightarrow> stable_id \<Rightarrow> u64 \<Rightarrow> 'a \<Rightarrow> 'a envelope" where
  "envelope_typed w message_id generation payload = envelope_v1 message_id generation (wire_kind w) payload"

definition validate_envelope :: "'a envelope \<Rightarrow> protocol_error + unit" where
  "validate_envelope e =
     (if env_schema_version e \<noteq> 1 then Inl (UnsupportedSchemaVersion (env_schema_version e))
      else if MAX_SAFE_WIRE_INTEGER < env_generation e then Inl InvalidProcessGeneration
      else Inr ())"

definition validate_typed :: "'a wire_payload \<Rightarrow> 'a envelope \<Rightarrow> protocol_error + unit" where
  "validate_typed w e =
     bind_r (validate_envelope e) (\<lambda>_.
     if env_kind e \<noteq> wire_kind w then Inl (EnvelopeKindMismatch (wire_kind w) (env_kind e))
     else wire_validate w (env_payload e))"

section \<open>Base payloads\<close>

text \<open>\<open>chars().count()\<close>: every character of a UTF-8 string has one byte that is no continuation byte.\<close>

definition char_count :: "string \<Rightarrow> usize" where
  "char_count s = length (filter (\<lambda>c. \<not> (128 \<le> byte c \<and> byte c < 192)) s)"

definition validate_bounded_text :: "string \<Rightarrow> usize \<Rightarrow> protocol_error + unit" where
  "validate_bounded_text value maximum =
     (if value = [] \<or> maximum < char_count value then Inl InvalidText else Inr ())"

definition validate_safe_wire_integer :: "u64 \<Rightarrow> protocol_error + unit" where
  "validate_safe_wire_integer value =
     (if MAX_SAFE_WIRE_INTEGER < value then Inl InvalidWireInteger else Inr ())"

record base_command =
  bc_name :: string
  bc_target_id :: stable_id

record base_event =
  be_name :: string
  be_sequence :: u64

record base_request =
  brq_operation :: string
  brq_correlation_id :: stable_id

record base_result =
  brs_correlation_id :: stable_id
  brs_accepted :: bool

record base_error =
  ber_code :: string
  ber_message :: string
  ber_retryable :: bool

definition base_command_payload :: "base_command wire_payload" where
  "base_command_payload = \<lparr>wire_kind = EkCommand, wire_validate = (\<lambda>p. validate_bounded_text (bc_name p) 256)\<rparr>"

definition base_event_payload :: "base_event wire_payload" where
  "base_event_payload = \<lparr>wire_kind = EkEvent,
     wire_validate = (\<lambda>p. bind_r (validate_bounded_text (be_name p) 256) (\<lambda>_. validate_safe_wire_integer (be_sequence p)))\<rparr>"

definition base_request_payload :: "base_request wire_payload" where
  "base_request_payload = \<lparr>wire_kind = EkRequest, wire_validate = (\<lambda>p. validate_bounded_text (brq_operation p) 256)\<rparr>"

definition base_result_payload :: "base_result wire_payload" where
  "base_result_payload = \<lparr>wire_kind = EkResult, wire_validate = (\<lambda>_. Inr ())\<rparr>"

definition base_error_payload :: "base_error wire_payload" where
  "base_error_payload = \<lparr>wire_kind = EkError,
     wire_validate = (\<lambda>p. bind_r (validate_bounded_text (ber_code p) 256) (\<lambda>_. validate_bounded_text (ber_message p) 4096))\<rparr>"

section \<open>Frames\<close>

definition MAX_FRAME_BYTES :: usize where
  "MAX_FRAME_BYTES = 1024 * 1024"

definition to_be_bytes :: "u32 \<Rightarrow> string" where
  "to_be_bytes w = map (\<lambda>i. char_of (unat w div 256 ^ i)) [3, 2, 1, 0]"

definition from_be_bytes :: "string \<Rightarrow> u32" where
  "from_be_bytes bs = of_nat (foldl (\<lambda>n c. n * 256 + byte c) 0 bs)"

definition encode_frame :: "('a \<Rightarrow> string option) \<Rightarrow> 'a \<Rightarrow> protocol_error + string" where
  "encode_frame to_vec message =
     bind_r (ok_or (to_vec message) InvalidJson) (\<lambda>body.
     if MAX_FRAME_BYTES < length body then Inl FrameTooLarge
     else bind_r (ok_or (try_from_usize (length body)) FrameTooLarge) (\<lambda>len.
     Inr (to_be_bytes len @ body)))"

definition encode_typed_frame :: "'a wire_payload \<Rightarrow> ('a envelope \<Rightarrow> string option) \<Rightarrow> 'a envelope \<Rightarrow> protocol_error + string" where
  "encode_typed_frame w to_vec e = bind_r (validate_typed w e) (\<lambda>_. encode_frame to_vec e)"

text \<open>The length a frame declares in its first four bytes.\<close>

definition body_length :: "string \<Rightarrow> usize" where
  "body_length frame = unat (from_be_bytes (take 4 frame))"

definition decode_frame :: "(string \<Rightarrow> 'a option) \<Rightarrow> string \<Rightarrow> protocol_error + 'a" where
  "decode_frame from_slice frame =
     (if length frame < 4 then Inl TruncatedFrame
      else if MAX_FRAME_BYTES < body_length frame then Inl FrameTooLarge
      else let expected_length = 4 + body_length frame in
        if length frame < expected_length then Inl TruncatedFrame
        else if expected_length < length frame then Inl TrailingBytes
        else ok_or (from_slice (drop 4 frame)) InvalidJson)"

definition decode_typed_frame :: "'a wire_payload \<Rightarrow> (string \<Rightarrow> 'a envelope option) \<Rightarrow> string \<Rightarrow> protocol_error + 'a envelope" where
  "decode_typed_frame w from_slice frame =
     bind_r (decode_frame from_slice frame) (\<lambda>e. bind_r (validate_typed w e) (\<lambda>_. Inr e))"

section \<open>The incremental decoder\<close>

text \<open>
  \<open>FrameDecoder::push\<close>, where \<open>chunk\<close> is the rest of the chunk from the offset. The result is
  \<open>None\<close> when \<open>frame_length - self.buffer.len()\<close> would underflow. When the buffer holds the four
  bytes of the prefix, \<open>4 - length buffer\<close> is 0 and nothing is added to the prefix.
\<close>

lemma push_prefix_progress:
  assumes "chunk \<noteq> []" and "n = min (4 - length buffer) (length chunk)" and "length (buffer @ take n chunk) < 4"
  shows "length (drop n chunk) < length chunk"
  using assms by (cases chunk) (auto simp: min_def split: if_splits)

lemma push_body_progress:
  assumes "chunk \<noteq> []" and "n = min (4 - length buffer) (length chunk)" and "length (buffer @ take n chunk) = b"
    and "\<not> f < b" and "m = min (f - b) (length (drop n chunk))" and "\<not> b < 4"
  shows "length (drop m (drop n chunk)) < length chunk
    \<or> length (drop m (drop n chunk)) = length chunk \<and> 0 < length buffer \<and> b + length (take m (drop n chunk)) = f"
proof -
  have "0 < length chunk" and b: "b = length buffer + min n (length chunk)"
    using assms(1,3) by auto
  then have "n = 0 \<Longrightarrow> 4 \<le> length buffer" and "n = 0 \<Longrightarrow> m = 0 \<Longrightarrow> b = f"
    using assms(2,4,5) by (auto simp: min_def split: if_splits)
  with \<open>0 < length chunk\<close> show ?thesis
    by (cases "n = 0"; cases "m = 0") auto
qed

function push_loop ::
  "(string \<Rightarrow> 'a option) \<Rightarrow> string \<Rightarrow> string \<Rightarrow> 'a list \<Rightarrow> ((protocol_error + 'a list) \<times> string) option" where
  "push_loop from_slice chunk buffer messages =
     (if chunk = [] then Some (Inr messages, buffer)
      else let prefix_bytes = min (4 - length buffer) (length chunk);
               buffer1 = buffer @ take prefix_bytes chunk; chunk1 = drop prefix_bytes chunk in
        if length buffer1 < 4 then push_loop from_slice chunk1 buffer1 messages
        else if MAX_FRAME_BYTES < body_length buffer1 then Some (Inl FrameTooLarge, [])
        else let frame_length = 4 + body_length buffer1 in
          if frame_length < length buffer1 then None
          else let body_bytes = min (frame_length - length buffer1) (length chunk1);
                   buffer2 = buffer1 @ take body_bytes chunk1; chunk2 = drop body_bytes chunk1 in
            if length buffer2 \<noteq> frame_length then push_loop from_slice chunk2 buffer2 messages
            else (case decode_frame from_slice buffer2 of
                    Inl e \<Rightarrow> Some (Inl e, [])
                  | Inr message \<Rightarrow> push_loop from_slice chunk2 [] (messages @ [message])))"
  by pat_completeness auto
termination
proof (relation "measures [\<lambda>(_, chunk, _, _). length chunk, \<lambda>(_, _, buffer, _). length buffer]", goal_cases)
  case (2 _ chunk buffer _ n)
  from push_prefix_progress [OF 2(1,2)] 2 show ?case by simp
next
  case (3 _ chunk buffer _ n b1 c1 f m b2 c2)
  from push_body_progress [OF 3(1,2) 3(3) [symmetric, THEN arg_cong [where f = length]] 3(8) 3(9) [unfolded 3(4)] 3(5)]
  have "length c2 < length chunk"
    using 3(12) unfolding 3(4,10,11) length_append by blast
  then show ?case by simp
next
  case (4 _ chunk buffer _ n b1 c1 f m b2 c2)
  from push_body_progress [OF 4(1,2) 4(3) [symmetric, THEN arg_cong [where f = length]] 4(8) 4(9) [unfolded 4(4)] 4(5)]
  have "length c2 < length chunk \<or> length c2 = length chunk \<and> 0 < length buffer"
    unfolding 4(4,10,11) by blast
  then show ?case by simp
qed simp

declare push_loop.simps [simp del]

definition decoder_push :: "(string \<Rightarrow> 'a option) \<Rightarrow> string \<Rightarrow> string \<Rightarrow> ((protocol_error + 'a list) \<times> string) option" where
  "decoder_push from_slice chunk buffer = push_loop from_slice chunk buffer []"

section \<open>Frames and their encoding\<close>

lemma byte_char_of: "byte (char_of n) = n mod 256"
  by (simp add: byte_def)

lemma length_to_be_bytes [simp]: "length (to_be_bytes w) = 4"
  by (simp add: to_be_bytes_def)

lemma from_to_be_bytes [simp]: "from_be_bytes (to_be_bytes w) = w"
proof -
  let ?n = "unat w"
  have "?n < 2 ^ LENGTH(32)"
    by (rule unsigned_less)
  then have "?n div 256 ^ 3 mod 256 = ?n div 256 ^ 3"
    by (simp add: less_mult_imp_div_less)
  moreover have step: "?n div 256 ^ j * 256 + ?n div 256 ^ i mod 256 = ?n div 256 ^ i" if "j = Suc i" for i j
    unfolding that power_Suc2 div_mult2_eq by (rule div_mult_mod_eq)
  moreover have "?n div 256 ^ 3 * 256 + ?n div 256 ^ 2 mod 256 = ?n div 256 ^ 2"
    and "?n div 256 ^ 2 * 256 + ?n div 256 ^ 1 mod 256 = ?n div 256 ^ 1"
    and "?n div 256 ^ 1 * 256 + ?n div 256 ^ 0 mod 256 = ?n"
    using step [of 3 2] step [of 2 1] step [of 1 0] by (simp_all del: power_one_right)
  ultimately have "foldl (\<lambda>n c. n * 256 + byte c) 0 (to_be_bytes w) = ?n"
    unfolding to_be_bytes_def by (simp only: list.map foldl.simps byte_char_of mult_zero_left add_0)
  then show ?thesis
    by (simp add: from_be_bytes_def)
qed

lemma encode_frame_Inr:
  "encode_frame to_vec m = Inr f \<longleftrightarrow>
     (\<exists>body. to_vec m = Some body \<and> length body \<le> MAX_FRAME_BYTES \<and> f = to_be_bytes (of_nat (length body)) @ body)"
proof -
  have "(try_from_usize n :: u32 option) = Some (of_nat n)" if "n \<le> MAX_FRAME_BYTES" for n
    using that by (simp add: try_from_usize_def MAX_FRAME_BYTES_def)
  then show ?thesis
    by (cases "to_vec m") (auto simp: encode_frame_def not_less)
qed

text \<open>A frame as bytes: a prefix that declares the length of a bounded body, and that body.\<close>

definition frame_of :: "string \<Rightarrow> string" where
  "frame_of body = to_be_bytes (of_nat (length body)) @ body"

lemma frame_of_simps [simp]:
  "length (frame_of body) = 4 + length body" "drop 4 (frame_of body @ rest) = body @ rest"
  by (simp_all add: frame_of_def)

lemma body_length_frame_of: "length body \<le> MAX_FRAME_BYTES \<Longrightarrow> body_length (frame_of body @ rest) = length body"
  by (simp add: body_length_def frame_of_def MAX_FRAME_BYTES_def unat_of_nat)

lemma decode_frame_of:
  "length body \<le> MAX_FRAME_BYTES \<Longrightarrow> decode_frame from_slice (frame_of body) = ok_or (from_slice body) InvalidJson"
  using body_length_frame_of [of body "[]"] frame_of_simps(2) [of body "[]"] by (simp add: decode_frame_def)

section \<open>What the decoder computes\<close>

text \<open>The reference: the frames of a complete byte stream, and the bytes of an unfinished last frame.\<close>

function stream_frames :: "(string \<Rightarrow> 'a option) \<Rightarrow> string \<Rightarrow> protocol_error + 'a list \<times> string" where
  "stream_frames from_slice bs =
     (if length bs < 4 then Inr ([], bs)
      else if MAX_FRAME_BYTES < body_length bs then Inl FrameTooLarge
      else if length bs < 4 + body_length bs then Inr ([], bs)
      else bind_r (decode_frame from_slice (take (4 + body_length bs) bs)) (\<lambda>m.
           bind_r (stream_frames from_slice (drop (4 + body_length bs) bs)) (\<lambda>(ms, rest).
           Inr (m # ms, rest))))"
  by pat_completeness auto
termination
  by (relation "measure (\<lambda>(_, bs). length bs)") auto

declare stream_frames.simps [simp del]

text \<open>What a decoder keeps between chunks: an unfinished frame.\<close>

definition unfinished :: "string \<Rightarrow> bool" where
  "unfinished buffer \<longleftrightarrow>
     length buffer < 4 \<or> (body_length buffer \<le> MAX_FRAME_BYTES \<and> length buffer < 4 + body_length buffer)"

lemma stream_frames_unfinished: "unfinished bs \<Longrightarrow> stream_frames from_slice bs = Inr ([], bs)"
  by (subst stream_frames.simps) (auto simp: unfinished_def)

lemma body_length_append [simp]: "4 \<le> length bs \<Longrightarrow> body_length (bs @ rest) = body_length bs"
  by (simp add: body_length_def)

lemma unfinished_bound: "unfinished buffer \<Longrightarrow> length buffer < 4 + MAX_FRAME_BYTES"
  by (auto simp: unfinished_def MAX_FRAME_BYTES_def)

lemma stream_frames_rest: "stream_frames from_slice bs = Inr (ms, rest) \<Longrightarrow> unfinished rest"
proof (induction from_slice bs arbitrary: ms rest rule: stream_frames.induct)
  case (1 from_slice bs)
  show ?case
  proof (cases "unfinished bs")
    case True
    with 1(2) show ?thesis by (simp add: stream_frames_unfinished)
  next
    case False
    with 1(2) obtain m' ms' where "stream_frames from_slice (drop (4 + body_length bs) bs) = Inr (ms', rest)"
      and "\<not> length bs < 4" "\<not> MAX_FRAME_BYTES < body_length bs" "\<not> length bs < 4 + body_length bs"
      "decode_frame from_slice (take (4 + body_length bs) bs) = Inr m'"
      by (subst (asm) stream_frames.simps) (auto simp: bind_r_Inr unfinished_def split: if_splits)
    with 1(1) show ?thesis by blast
  qed
qed

lemma bind_r_Inr_id: "bind_r r Inr = r"
  by (cases r) auto

lemma bind_r_assoc: "bind_r (bind_r r f) g = bind_r r (\<lambda>a. bind_r (f a) g)"
  by (cases r) auto

lemma stream_frames_append:
  "stream_frames from_slice (a @ b) =
     bind_r (stream_frames from_slice a) (\<lambda>(ms, rest). bind_r (stream_frames from_slice (rest @ b)) (\<lambda>(ns, rest'). Inr (ms @ ns, rest')))"
proof (induction from_slice a rule: stream_frames.induct)
  case (1 from_slice a)
  let ?n = "4 + body_length a"
  show ?case
  proof (cases "unfinished a")
    case True
    then show ?thesis by (simp add: stream_frames_unfinished bind_r_Inr_id)
  next
    case False
    then have len: "\<not> length a < 4" "MAX_FRAME_BYTES < body_length a \<or> \<not> length a < ?n"
      by (auto simp: unfinished_def)
    show ?thesis
    proof (cases "MAX_FRAME_BYTES < body_length a")
      case True
      with len(1) show ?thesis by (simp add: stream_frames.simps [of _ a] stream_frames.simps [of _ "a @ b"])
    next
      case False
      with len 1 show ?thesis
        by (simp add: stream_frames.simps [of _ a] stream_frames.simps [of _ "a @ b"] bind_r_assoc split_def)
    qed
  qed
qed

text \<open>The decoder implements the reference: what it holds and what it is given make up the stream.\<close>

definition pushed :: "'a list \<Rightarrow> protocol_error + 'a list \<times> string \<Rightarrow> (protocol_error + 'a list) \<times> string" where
  "pushed messages r = (case r of Inl e \<Rightarrow> (Inl e, []) | Inr (ms, rest) \<Rightarrow> (Inr (messages @ ms), rest))"

lemma stream_frames_complete:
  assumes "length b = 4 + body_length b" and "body_length b \<le> MAX_FRAME_BYTES"
  shows "stream_frames from_slice (b @ c) =
    bind_r (decode_frame from_slice b) (\<lambda>m. bind_r (stream_frames from_slice c) (\<lambda>(ms, rest). Inr (m # ms, rest)))"
proof -
  have "4 \<le> length b"
    using assms(1) by simp
  then have "body_length (b @ c) = body_length b"
    by simp
  with assms show ?thesis
    by (subst stream_frames.simps) (simp add: not_less)
qed

lemma push_loop_stream:
  assumes "unfinished buffer"
  shows "push_loop from_slice chunk buffer messages = Some (pushed messages (stream_frames from_slice (buffer @ chunk)))"
  using assms
proof (induction from_slice chunk buffer messages rule: push_loop.induct)
  case (1 from_slice chunk buffer messages)
  show ?case
  proof (cases "chunk = []")
    case True
    with 1(4) show ?thesis
      by (simp add: push_loop.simps stream_frames_unfinished pushed_def)
  next
    case False
    define n where "n = min (4 - length buffer) (length chunk)"
    define b1 where "b1 = buffer @ take n chunk"
    define c1 where "c1 = drop n chunk"
    define f where "f = 4 + body_length b1"
    define m where "m = min (f - length b1) (length c1)"
    define b2 where "b2 = b1 @ take m c1"
    define c2 where "c2 = drop m c1"
    note defs = n_def b1_def c1_def f_def m_def b2_def c2_def
    have eq1: "buffer @ chunk = b1 @ c1" and eq2: "b1 @ c1 = b2 @ c2"
      by (simp_all add: b1_def c1_def b2_def c2_def del: drop_drop)
    note IH = 1(1-3) [OF False n_def b1_def c1_def]
    have step: "push_loop from_slice chunk buffer messages =
       (if length b1 < 4 then push_loop from_slice c1 b1 messages
        else if MAX_FRAME_BYTES < body_length b1 then Some (Inl FrameTooLarge, [])
        else if f < length b1 then None
        else if length b2 \<noteq> f then push_loop from_slice c2 b2 messages
        else (case decode_frame from_slice b2 of Inl e \<Rightarrow> Some (Inl e, [])
              | Inr message \<Rightarrow> push_loop from_slice c2 [] (messages @ [message])))"
      by (subst push_loop.simps) (simp only: False Let_def defs if_False)
    have full: "length b1 \<le> f"
    proof (cases "length buffer < 4")
      case True
      then show ?thesis by (simp add: f_def b1_def n_def)
    next
      case False
      with 1(4) show ?thesis by (simp add: f_def b1_def n_def unfinished_def)
    qed
    consider (prefix) "length b1 < 4" | (large) "\<not> length b1 < 4" "MAX_FRAME_BYTES < body_length b1"
      | (partial) "\<not> length b1 < 4" "\<not> MAX_FRAME_BYTES < body_length b1" "length b2 \<noteq> f"
      | (whole) "\<not> length b1 < 4" "\<not> MAX_FRAME_BYTES < body_length b1" "length b2 = f"
      by blast
    then show ?thesis
    proof cases
      case prefix
      with IH(1) show ?thesis
        by (simp add: step eq1 unfinished_def)
    next
      case large
      then show ?thesis
        by (simp add: step eq1 pushed_def stream_frames.simps [of _ "b1 @ c1"])
    next
      case partial
      then have "body_length b2 = body_length b1"
        by (simp add: b2_def)
      moreover have "length b2 \<le> f"
        using full by (simp add: b2_def m_def)
      ultimately have "unfinished b2"
        using partial by (simp add: unfinished_def f_def)
      with IH(2) [OF partial(1,2) f_def _ m_def b2_def c2_def] partial full show ?thesis
        by (simp add: step eq1 eq2)
    next
      case whole
      then have body: "length b2 = 4 + body_length b2" "body_length b2 \<le> MAX_FRAME_BYTES"
        by (simp_all add: b2_def f_def)
      have "unfinished []"
        by (simp add: unfinished_def)
      with IH(3) [OF whole(1,2) f_def _ m_def b2_def c2_def] whole full
      show ?thesis
        by (auto simp: step eq1 eq2 stream_frames_complete [OF body] pushed_def bind_r_def split: sum.splits)
    qed
  qed
qed

lemma decoder_push_stream:
  "unfinished buffer \<Longrightarrow> decoder_push from_slice chunk buffer = Some (pushed [] (stream_frames from_slice (buffer @ chunk)))"
  by (simp add: decoder_push_def push_loop_stream)

text \<open>Every outcome of a push, an error included, leaves an unfinished frame.\<close>

lemma decoder_push_unfinished:
  assumes "unfinished buffer"
  shows "\<exists>r buffer'. decoder_push from_slice chunk buffer = Some (r, buffer') \<and> unfinished buffer'"
  using decoder_push_stream [OF assms, of from_slice chunk] stream_frames_rest [of from_slice "buffer @ chunk"]
  by (auto simp: pushed_def unfinished_def [of "[]"] split: sum.splits)

text \<open>Pushing chunks one after another while no error occurs, collecting the messages.\<close>

fun push_all :: "(string \<Rightarrow> 'a option) \<Rightarrow> string list \<Rightarrow> string \<Rightarrow> ((protocol_error + 'a list) \<times> string) option" where
  "push_all from_slice [] buffer = Some (Inr [], buffer)"
| "push_all from_slice (chunk # chunks) buffer =
     (case decoder_push from_slice chunk buffer of
        None \<Rightarrow> None
      | Some (Inl e, buffer') \<Rightarrow> Some (Inl e, buffer')
      | Some (Inr ms, buffer') \<Rightarrow>
          (case push_all from_slice chunks buffer' of
             Some (Inr ns, buffer'') \<Rightarrow> Some (Inr (ms @ ns), buffer'')
           | r \<Rightarrow> r))"

lemma push_all_stream:
  "unfinished buffer \<Longrightarrow> push_all from_slice chunks buffer = Some (pushed [] (stream_frames from_slice (buffer @ concat chunks)))"
proof (induction chunks arbitrary: buffer)
  case Nil
  then show ?case by (simp add: stream_frames_unfinished pushed_def)
next
  case (Cons chunk chunks)
  show ?case
  proof (cases "stream_frames from_slice (buffer @ chunk)")
    case (Inl e)
    with Cons.prems stream_frames_append [of from_slice "buffer @ chunk" "concat chunks"] show ?thesis
      by (simp add: decoder_push_stream pushed_def)
  next
    case (Inr r)
    obtain ms rest where r: "r = (ms, rest)"
      by (cases r)
    have "unfinished rest"
      using stream_frames_rest Inr r by blast
    from Cons.IH [OF this] Cons.prems Inr r stream_frames_append [of from_slice "buffer @ chunk" "concat chunks"] show ?thesis
      by (auto simp: decoder_push_stream pushed_def bind_r_def split: sum.splits)
  qed
qed

section \<open>Properties\<close>

text \<open>What is assumed of the JSON codec: decoding the encoding of a message gives the message.\<close>

definition codec_inverse :: "('a \<Rightarrow> string option) \<Rightarrow> (string \<Rightarrow> 'a option) \<Rightarrow> bool" where
  "codec_inverse to_vec from_slice \<longleftrightarrow> (\<forall>m body. to_vec m = Some body \<longrightarrow> from_slice body = Some m)"

lemma stream_frames_encoded:
  assumes "codec_inverse to_vec from_slice" and "list_all2 (\<lambda>m f. encode_frame to_vec m = Inr f) ms fs"
  shows "stream_frames from_slice (concat fs) = Inr (ms, [])"
  using assms(2)
proof (induction rule: list_all2_induct)
  case Nil
  show ?case by (subst stream_frames.simps) simp
next
  case (Cons m ms f fs)
  from Cons(1) obtain body where body: "to_vec m = Some body" "length body \<le> MAX_FRAME_BYTES" "f = frame_of body"
    by (auto simp: encode_frame_Inr frame_of_def)
  then have "length f = 4 + body_length f" "body_length f \<le> MAX_FRAME_BYTES"
    using body_length_frame_of [of body "[]"] by simp_all
  moreover have "decode_frame from_slice f = Inr m"
    using assms(1) body by (simp add: decode_frame_of codec_inverse_def)
  ultimately show ?case
    using Cons(3) by (simp add: stream_frames_complete)
qed

text \<open>
  C17. Messages survive the stream: when the JSON codec inverts, the frames of any messages, sent as
  one stream and cut into any chunks, are decoded by successive pushes into exactly these messages in
  order, with an empty buffer at the end.
\<close>

theorem decoder_reads_stream:
  assumes "codec_inverse to_vec from_slice" and "list_all2 (\<lambda>m f. encode_frame to_vec m = Inr f) ms fs"
    and "concat chunks = concat fs"
  shows "push_all from_slice chunks [] = Some (Inr ms, [])"
proof -
  have "unfinished []"
    by (simp add: unfinished_def)
  from push_all_stream [OF this, of from_slice chunks] assms(3) stream_frames_encoded [OF assms(1,2)] show ?thesis
    by (simp add: pushed_def)
qed

theorem decoder_reads_stream_witness:
  "push_all (\<lambda>b. Some b) [[char_of (0::nat)], [char_of (0::nat), char_of (0::nat), char_of (2::nat), CHR ''4''],
     [CHR ''2'', char_of (0::nat), char_of (0::nat), char_of (0::nat), char_of (1::nat), CHR ''7'']] [] = Some (Inr [''42'', ''7''], [])"
proof (rule decoder_reads_stream [where to_vec = Some and fs = "[frame_of ''42'', frame_of ''7'']"])
  show "codec_inverse Some (\<lambda>b. Some b)"
    by (simp add: codec_inverse_def)
  show "list_all2 (\<lambda>m f. encode_frame Some m = Inr f) [''42'', ''7''] [frame_of ''42'', frame_of ''7'']"
    by (simp add: encode_frame_Inr frame_of_def MAX_FRAME_BYTES_def)
  show "concat [[char_of (0::nat)], [char_of (0::nat), char_of (0::nat), char_of (2::nat), CHR ''4''],
     [CHR ''2'', char_of (0::nat), char_of (0::nat), char_of (0::nat), char_of (1::nat), CHR ''7'']] = concat [frame_of ''42'', frame_of ''7'']"
    by (simp add: frame_of_def to_be_bytes_def)
qed

text \<open>The buffers a decoder can come to hold, errors included.\<close>

inductive decoder_reaches :: "(string \<Rightarrow> 'a option) \<Rightarrow> string \<Rightarrow> bool" for from_slice where
  reach_new: "decoder_reaches from_slice []"
| reach_push: "decoder_reaches from_slice buffer \<Longrightarrow> decoder_push from_slice chunk buffer = Some (r, buffer')
    \<Longrightarrow> decoder_reaches from_slice buffer'"

lemma decoder_reaches_unfinished: "decoder_reaches from_slice buffer \<Longrightarrow> unfinished buffer"
proof (induction rule: decoder_reaches.induct)
  case reach_new
  show ?case by (simp add: unfinished_def)
next
  case (reach_push buffer chunk r buffer')
  with decoder_push_unfinished [OF reach_push.IH, of from_slice chunk] show ?case by auto
qed

text \<open>
  No sender can make the decoder hold more than one frame: from an empty decoder, whatever chunks
  arrive and however many of them fail, the next push returns, and the buffer stays shorter than the
  largest frame.
\<close>

theorem decoder_bounded:
  assumes "decoder_reaches from_slice buffer"
  shows "length buffer < 4 + MAX_FRAME_BYTES \<and> decoder_push from_slice chunk buffer \<noteq> None"
  using unfinished_bound decoder_push_unfinished decoder_reaches_unfinished [OF assms] by blast

theorem decoder_bounded_witness:
  "decoder_push (\<lambda>b. Some b) [CHR ''x''] [] \<noteq> None \<and> length ([] :: string) < 4 + MAX_FRAME_BYTES"
  using decoder_bounded [OF reach_new] by blast

text \<open>
  C38. A typed frame carries its envelope: a frame made by \<open>encode_typed_frame\<close> is within the bound and
  decodes to the same envelope, whose version, generation, kind and payload are valid; without its last
  byte it is truncated, and with a byte more it has trailing bytes.
\<close>

theorem typed_frame_round_trip:
  assumes "codec_inverse to_vec from_slice" and "encode_typed_frame w to_vec e = Inr f"
  shows "decode_typed_frame w from_slice f = Inr e \<and> length f \<le> 4 + MAX_FRAME_BYTES
    \<and> env_schema_version e = 1 \<and> env_generation e \<le> MAX_SAFE_WIRE_INTEGER \<and> env_kind e = wire_kind w
    \<and> wire_validate w (env_payload e) = Inr ()
    \<and> decode_typed_frame w from_slice (butlast f) = Inl TruncatedFrame
    \<and> decode_typed_frame w from_slice (f @ [c]) = Inl TrailingBytes"
proof -
  from assms(2) obtain body where ok: "validate_typed w e = Inr ()"
    and body: "to_vec e = Some body" "length body \<le> MAX_FRAME_BYTES" and f: "f = frame_of body"
    by (auto simp: encode_typed_frame_def bind_r_Inr encode_frame_Inr frame_of_def)
  have "decode_typed_frame w from_slice f = Inr e"
    using assms(1) ok body by (simp add: decode_typed_frame_def f decode_frame_of codec_inverse_def)
  moreover have "decode_frame from_slice (butlast f) = Inl TruncatedFrame"
  proof (cases body rule: rev_cases)
    case Nil
    then show ?thesis by (simp add: decode_frame_def f)
  next
    case (snoc xs x)
    then have "butlast f = to_be_bytes (of_nat (length body)) @ xs"
      by (simp add: f frame_of_def butlast_append)
    moreover from this have "body_length (butlast f) = length body"
      using body(2) by (simp add: body_length_def MAX_FRAME_BYTES_def unat_of_nat)
    ultimately show ?thesis
      using body(2) snoc by (simp add: decode_frame_def)
  qed
  moreover have "decode_frame from_slice (f @ [c]) = Inl TrailingBytes"
    using body(2) body_length_frame_of [OF body(2), of "[c]"] by (simp add: decode_frame_def f del: body_length_append)
  ultimately show ?thesis
    using ok body(2) by (auto simp: validate_typed_def validate_envelope_def decode_typed_frame_def f split: if_splits)
qed

definition demo_command :: "base_command envelope" where
  "demo_command = envelope_typed base_command_payload ''msg_01'' 7 \<lparr>bc_name = ''smoke'', bc_target_id = ''core''\<rparr>"

definition demo_to_vec :: "base_command envelope \<Rightarrow> string option" where
  "demo_to_vec e = (if e = demo_command then Some ''{}'' else None)"

definition demo_from_slice :: "string \<Rightarrow> base_command envelope option" where
  "demo_from_slice b = (if b = ''{}'' then Some demo_command else None)"

theorem typed_frame_round_trip_witness:
  "decode_typed_frame base_command_payload demo_from_slice (frame_of ''{}'') = Inr demo_command"
proof -
  have "codec_inverse demo_to_vec demo_from_slice"
    by (simp add: codec_inverse_def demo_to_vec_def demo_from_slice_def)
  moreover have "encode_typed_frame base_command_payload demo_to_vec demo_command = Inr (frame_of ''{}'')"
    by (simp add: encode_typed_frame_def encode_frame_Inr bind_r_Inr demo_to_vec_def frame_of_def MAX_FRAME_BYTES_def
        validate_typed_def validate_envelope_def demo_command_def envelope_typed_def envelope_v1_def
        base_command_payload_def validate_bounded_text_def char_count_def byte_def MAX_SAFE_WIRE_INTEGER_def)
  ultimately show ?thesis
    using typed_frame_round_trip by blast
qed

text \<open>
  A malformed frame discards the whole chunk it arrives in: a message that was complete before it in
  the same chunk is not returned, although the same bytes in two chunks return it.
\<close>

lemma error_drops_earlier_messages:
  fixes from_slice :: "string \<Rightarrow> string option"
  assumes "from_slice ''42'' = Some ''42''" and "from_slice ''x'' = None"
  shows "decoder_push from_slice (frame_of ''42'' @ frame_of ''x'') [] = Some (Inl InvalidJson, [])"
    and "decoder_push from_slice (frame_of ''42'') [] = Some (Inr [''42''], [])"
proof -
  have len: "length (frame_of ''42'') = 4 + body_length (frame_of ''42'')" "body_length (frame_of ''42'') \<le> MAX_FRAME_BYTES"
      "length (frame_of ''x'') = 4 + body_length (frame_of ''x'')" "body_length (frame_of ''x'') \<le> MAX_FRAME_BYTES"
    using body_length_frame_of [of "''42''" "[]"] body_length_frame_of [of "''x''" "[]"] by (simp_all add: MAX_FRAME_BYTES_def)
  have decode: "decode_frame from_slice (frame_of ''42'') = Inr ''42''" "decode_frame from_slice (frame_of ''x'') = Inl InvalidJson"
    using assms by (simp_all add: decode_frame_of MAX_FRAME_BYTES_def)
  have empty: "unfinished []" "stream_frames from_slice [] = Inr ([], [])"
    by (simp_all add: unfinished_def stream_frames_unfinished)
  show "decoder_push from_slice (frame_of ''42'' @ frame_of ''x'') [] = Some (Inl InvalidJson, [])"
    using stream_frames_complete [OF len(1,2), of from_slice "frame_of ''x''"] stream_frames_complete [OF len(3,4), of from_slice "[]"]
    by (simp add: decoder_push_stream [OF empty(1)] pushed_def decode)
  show "decoder_push from_slice (frame_of ''42'') [] = Some (Inr [''42''], [])"
    using stream_frames_complete [OF len(1,2), of from_slice "[]"]
    by (simp add: decoder_push_stream [OF empty(1)] pushed_def decode empty(2))
qed

end
