(* ===== verification/Worker.thy ===== *)
theory Worker
  imports Gateway Framing
begin

text \<open>
  The worker process (\<open>crates/aworkit-workflow-worker/src/runtime.rs\<close>, with \<open>RehydratorV1\<close> of
  \<open>suspension.rs\<close>): the recovery checks, the service that compiles a plan, admits controls through
  the gateway and answers with proposals, and the loop that reads controls from a byte stream and
  writes framed answers. The encoders, SHA-256, the package version and the path of the executable
  are parameters. A reader is the list of what its reads return: bytes, or a failure; whether a write
  or a flush of the output fails, and after how many bytes, is a parameter too.
\<close>

section \<open>Recovery\<close>

datatype recovery_error =
    RcSnapshotMismatch | RcPlanMismatch | RcCheckpointHashMismatch | RcGenerationFence | RcDeltaGap
  | RcOutcomeConflict | RcPayloadTooLarge | RcEncoding

record rehydrated_state =
  rs_checkpoint :: worker_checkpoint
  rs_committed_deltas :: "json list"
  rs_reconciled_outcome_ids :: "stable_id list"

record worker_codec =
  wk_plan :: plan_codec
  wk_gateway :: gateway_codec
  wk_jcs_checkpoint :: "worker_checkpoint \<Rightarrow> string option"
  wk_outcome_value :: "capability_outcome \<Rightarrow> json option"
  wk_sha :: digest
  wk_version :: string
  wk_executable :: string
  wk_output_to_vec :: "worker_output_envelope \<Rightarrow> string option"
  wk_control_from_slice :: "string \<Rightarrow> worker_control_envelope option"
  wk_write_fails :: "string \<Rightarrow> string \<Rightarrow> nat option"
  wk_flush_fails :: "string \<Rightarrow> bool"

definition checkpoint_hash :: "worker_codec \<Rightarrow> worker_checkpoint \<Rightarrow> recovery_error + string" where
  "checkpoint_hash c checkpoint =
     bind_r (ok_or (wk_jcs_checkpoint c (checkpoint\<lparr>wc_checkpoint_hash := []\<rparr>)) RcEncoding) (\<lambda>bytes. Inr (wk_sha c bytes))"

fun delta_loop :: "u64 \<Rightarrow> json list \<Rightarrow> recovery_error + unit" where
  "delta_loop expected [] = Inr ()"
| "delta_loop expected (delta # deltas) =
     bind_r (ok_or (Option.bind (jget delta ''cursor'') as_u64) RcDeltaGap) (\<lambda>cursor.
     if cursor \<noteq> expected then Inl RcDeltaGap else delta_loop (saturating_add expected 1) deltas)"

definition validate_delta_cursors :: "u64 \<Rightarrow> json list \<Rightarrow> recovery_error + unit" where
  "validate_delta_cursors start deltas = delta_loop (saturating_add start 1) deltas"

fun outcome_loop ::
  "worker_codec \<Rightarrow> capability_outcome list \<Rightarrow> (string, string \<times> json) bmap \<Rightarrow> stable_id list
     \<Rightarrow> recovery_error + stable_id list" where
  "outcome_loop c [] seen ids = Inr ids"
| "outcome_loop c (outcome # outcomes) seen ids =
     bind_r (ok_or (wk_outcome_value c outcome) RcEncoding) (\<lambda>value.
     let current = (co_outcome_id outcome, value) in
     case bget seen (co_invocation_id outcome) of
       Some previous \<Rightarrow>
         if previous \<noteq> current then Inl RcOutcomeConflict
         else outcome_loop c outcomes (binsert (co_invocation_id outcome) current seen) (ids @ [co_outcome_id outcome])
     | None \<Rightarrow> outcome_loop c outcomes (binsert (co_invocation_id outcome) current seen) (ids @ [co_outcome_id outcome]))"

definition rehydrate :: "worker_codec \<Rightarrow> rehydration_envelope \<Rightarrow> recovery_error + rehydrated_state" where
  "rehydrate c envelope =
     (if 10000 < length (re_committed_deltas envelope) \<or> 10000 < length (re_reconciled_outcomes envelope)
      then Inl RcPayloadTooLarge
      else case snapshot_content_hash (wk_plan c) (re_snapshot envelope) of
        Inl _ \<Rightarrow> Inl RcEncoding
      | Inr calculated_snapshot \<Rightarrow>
          if ws_snapshot_hash (re_snapshot envelope) \<noteq> calculated_snapshot
             \<or> wc_snapshot_hash (re_checkpoint envelope) \<noteq> calculated_snapshot
          then Inl RcSnapshotMismatch
          else case compile (wk_plan c) (re_snapshot envelope) calculated_snapshot of
            Inl _ \<Rightarrow> Inl RcPlanMismatch
          | Inr plan \<Rightarrow>
              if wc_plan_hash (re_checkpoint envelope) \<noteq> ep_fingerprint plan then Inl RcPlanMismatch
              else if re_replacement_generation envelope \<le> wc_prior_generation (re_checkpoint envelope)
              then Inl RcGenerationFence
              else bind_r (checkpoint_hash c (re_checkpoint envelope)) (\<lambda>calculated.
                   if calculated \<noteq> wc_checkpoint_hash (re_checkpoint envelope) then Inl RcCheckpointHashMismatch
                   else bind_r (validate_delta_cursors (wc_committed_cursor (re_checkpoint envelope))
                                  (re_committed_deltas envelope)) (\<lambda>_.
                        bind_r (outcome_loop c (re_reconciled_outcomes envelope) [] []) (\<lambda>outcome_ids.
                        Inr \<lparr>rs_checkpoint = re_checkpoint envelope, rs_committed_deltas = re_committed_deltas envelope,
                             rs_reconciled_outcome_ids = outcome_ids\<rparr>))))"

section \<open>The service\<close>

datatype runtime_error =
    RtGateway gateway_error
  | RtPlan plan_error
  | RtRecovery recovery_error
  | RtProtocol protocol_error
  | RtIo
  | RtNotStarted
  | RtTruncatedFrame

record service_result =
  res_handshake :: "worker_handshake option"
  res_proposals :: "worker_proposal_envelope list"
  res_heartbeat :: "worker_heartbeat option"
  res_shutdown_ack :: "stable_id option"
  res_shutdown :: bool

record worker_service =
  svc_gateway :: gateway
  svc_plan :: "execution_plan option"
  svc_heartbeat_sequence :: u64

definition result_default :: service_result where
  "result_default = \<lparr>res_handshake = None, res_proposals = [], res_heartbeat = None, res_shutdown_ack = None,
     res_shutdown = False\<rparr>"

definition svc_new :: worker_service where
  "svc_new = \<lparr>svc_gateway = gw_new, svc_plan = None, svc_heartbeat_sequence = 0\<rparr>"

definition handshake :: "worker_codec \<Rightarrow> worker_control_envelope \<Rightarrow> string \<Rightarrow> worker_handshake" where
  "handshake c envelope fingerprint =
     \<lparr>wh_protocol_version = 1, wh_worker_version = wk_version c, wh_chat_id = ce_chat_id envelope,
      wh_run_id = ce_run_id envelope, wh_generation = ce_generation envelope,
      wh_snapshot_hash = ce_snapshot_hash envelope, wh_plan_fingerprint = fingerprint,
      wh_executable_identity = wk_executable c\<rparr>"

text \<open>The serialized names of the outcomes (\<open>rename_all = "snake_case"\<close>).\<close>

fun approval_name :: "approval_outcome \<Rightarrow> string" where
  "approval_name Approved = ''approved''"
| "approval_name ApDenied = ''denied''"
| "approval_name ApExpired = ''expired''"
| "approval_name ApCancelled = ''cancelled''"

fun outcome_class_name :: "capability_outcome_class \<Rightarrow> string" where
  "outcome_class_name CoSuccess = ''success''"
| "outcome_class_name CoDefiniteNotStarted = ''definite_not_started''"
| "outcome_class_name CoFailedKnownStarted = ''failed_known_started''"
| "outcome_class_name CoCancelledEvidence = ''cancelled_evidence''"
| "outcome_class_name CoUncertain = ''uncertain''"
| "outcome_class_name CoDenied = ''denied''"

text \<open>The validated start or restore material; \<open>Some hash\<close> is the checkpoint hash of a restore.\<close>

definition prepare :: "worker_codec \<Rightarrow> worker_control_envelope \<Rightarrow> runtime_error + (execution_plan \<times> string option) option" where
  "prepare c envelope =
     (case ce_control envelope of
        CtStart snapshot \<Rightarrow>
          (case compile (wk_plan c) snapshot (ce_snapshot_hash envelope) of
             Inl e \<Rightarrow> Inl (RtPlan e)
           | Inr plan \<Rightarrow> Inr (Some (plan, None)))
      | CtRestore rehydration \<Rightarrow>
          (case rehydrate c rehydration of
             Inl e \<Rightarrow> Inl (RtRecovery e)
           | Inr restored \<Rightarrow>
               (case compile (wk_plan c) (re_snapshot rehydration) (ce_snapshot_hash envelope) of
                  Inl e \<Rightarrow> Inl (RtPlan e)
                | Inr plan \<Rightarrow> Inr (Some (plan, Some (wc_checkpoint_hash (rs_checkpoint restored))))))
      | _ \<Rightarrow> Inr None)"

text \<open>Pushing the proposal that the gateway emits on the result.\<close>

definition push_proposal ::
  "worker_codec \<Rightarrow> bool \<Rightarrow> worker_proposal_kind \<Rightarrow> service_result \<Rightarrow> worker_service
     \<Rightarrow> (runtime_error + service_result) \<times> worker_service" where
  "push_proposal c reserved kind result s =
     (case (if reserved then gw_emit_reserved (wk_gateway c) kind (svc_gateway s)
            else gw_emit (wk_gateway c) kind (svc_gateway s)) of
        (Inl e, g) \<Rightarrow> (Inl (RtGateway e), s\<lparr>svc_gateway := g\<rparr>)
      | (Inr proposal, g) \<Rightarrow> (Inr (result\<lparr>res_proposals := res_proposals result @ [proposal]\<rparr>), s\<lparr>svc_gateway := g\<rparr>))"

definition planned_proposal ::
  "worker_codec \<Rightarrow> bool \<Rightarrow> worker_proposal_kind \<Rightarrow> worker_service \<Rightarrow> (runtime_error + service_result) \<times> worker_service" where
  "planned_proposal c reserved kind s =
     (if svc_plan s = None then (Inl RtNotStarted, s) else push_proposal c reserved kind result_default s)"

text \<open>
  The match on an admitted control. Start and restore are the controls that were prepared, so the
  last case is the acknowledgement.
\<close>

definition dispatch ::
  "worker_codec \<Rightarrow> worker_control_envelope \<Rightarrow> (execution_plan \<times> string option) option \<Rightarrow> worker_service
     \<Rightarrow> (runtime_error + service_result) \<times> worker_service" where
  "dispatch c envelope prepared s =
     (case prepared of
        Some (plan, checkpoint) \<Rightarrow>
          push_proposal c False
            (case checkpoint of None \<Rightarrow> PrReady (ep_fingerprint plan) | Some hash \<Rightarrow> PrRehydrationReady hash)
            (result_default\<lparr>res_handshake := Some (handshake c envelope (ep_fingerprint plan))\<rparr>)
            (s\<lparr>svc_plan := Some plan\<rparr>)
      | None \<Rightarrow>
          (case ce_control envelope of
             CtInput input_id _ \<Rightarrow>
               planned_proposal c False (PrHealth (JObject [(''acceptedInputId'', JString input_id)])) s
           | CtApproval approval_id outcome \<Rightarrow>
               planned_proposal c False (PrHealth (JObject [(''acceptedApprovalId'', JString approval_id),
                 (''outcome'', JString (approval_name outcome))])) s
           | CtPause control_id scope \<Rightarrow>
               planned_proposal c True (PrSuspension control_id (JObject [(''scope'', JString scope), (''state'', JString ''paused'')])) s
           | CtResume control_id scope \<Rightarrow>
               planned_proposal c True (PrHealth (JObject [(''resumedControlId'', JString control_id), (''scope'', JString scope)])) s
           | CtCancel control_id scope \<Rightarrow>
               planned_proposal c True (PrTerminal ''cancelled'' (JObject [(''controlId'', JString control_id), (''scope'', JString scope)])) s
           | CtCapabilityOutcome outcome \<Rightarrow>
               planned_proposal c False (PrHealth (JObject [(''acceptedOutcomeId'', JString (co_outcome_id outcome)),
                 (''class'', JString (outcome_class_name (co_class outcome))),
                 (''invocationId'', JString (co_invocation_id outcome))])) s
           | CtShutdown control_id \<Rightarrow>
               (Inr (result_default\<lparr>res_shutdown_ack := Some control_id, res_shutdown := True\<rparr>), s)
           | _ \<Rightarrow> (Inr result_default, s)))"

definition handle ::
  "worker_codec \<Rightarrow> worker_control_envelope \<Rightarrow> worker_service \<Rightarrow> (runtime_error + service_result) \<times> worker_service" where
  "handle c envelope s =
     (case prepare c envelope of
        Inl e \<Rightarrow> (Inl e, s)
      | Inr prepared \<Rightarrow>
          (case admit_control (wk_gateway c) envelope (svc_gateway s) of
             (Inl e, g) \<Rightarrow> (Inl (RtGateway e), s\<lparr>svc_gateway := g\<rparr>)
           | (Inr AdDuplicate, g) \<Rightarrow> (Inr result_default, s\<lparr>svc_gateway := g\<rparr>)
           | (Inr AdNew, g) \<Rightarrow>
               (case dispatch c envelope prepared (s\<lparr>svc_gateway := g\<rparr>) of
                  (Inl e, s1) \<Rightarrow> (Inl e, s1)
                | (Inr result, s1) \<Rightarrow>
                    let sequence = saturating_add (svc_heartbeat_sequence s1) 1 in
                    (Inr (result\<lparr>res_heartbeat := Some \<lparr>hb_sequence = sequence, hb_monotonic_time_ms = sequence,
                            hb_active = (\<not> res_shutdown result), hb_quiescent = (res_proposals result = [])\<rparr>\<rparr>),
                     s1\<lparr>svc_heartbeat_sequence := sequence\<rparr>))))"

definition pending_proposals :: "worker_service \<Rightarrow> worker_proposal_envelope list" where
  "pending_proposals s = retransmit_pending (svc_gateway s)"

section \<open>Error messages\<close>

fun gateway_error_display :: "gateway_error \<Rightarrow> string" where
  "gateway_error_display GwNotInitialized = ''worker gateway has not accepted a start or restore envelope''"
| "gateway_error_display GwAlreadyInitialized = ''worker gateway is already initialized''"
| "gateway_error_display GwMessageIdentityConflict = ''control message ID was reused with different content''"
| "gateway_error_display GwIdentityMismatch = ''control envelope does not match the active Chat/Run identity''"
| "gateway_error_display GwGenerationMismatch = ''stale or unexpected process generation''"
| "gateway_error_display GwSnapshotMismatch = ''frozen snapshot hash does not match the active Run''"
| "gateway_error_display GwCursorMismatch = ''committed cursor regressed or skipped required acknowledgement state''"
| "gateway_error_display GwBackpressure = ''proposal buffer is full; scheduling must stop until an ack arrives''"
| "gateway_error_display GwUnknownAcknowledgement = ''unknown proposal acknowledgement''"
| "gateway_error_display GwSequenceExhausted = ''proposal sequence exhausted''"
| "gateway_error_display GwEncoding = ''proposal cannot be encoded''"
| "gateway_error_display GwInvalidIdentifier = ''stable identifier construction failed''"

fun plan_error_display :: "plan_error \<Rightarrow> string" where
  "plan_error_display PlGenerationMismatch = ''snapshot belongs to a different worker generation''"
| "plan_error_display PlEmptyGraph = ''snapshot must contain at least one node''"
| "plan_error_display (PlDuplicateNode n) = ''duplicate node id '' @ n"
| "plan_error_display (PlDuplicateTransition t) = ''duplicate transition id '' @ t"
| "plan_error_display (PlUnknownNode t n) = ''transition '' @ t @ '' references unknown node '' @ n"
| "plan_error_display (PlUnboundedCycle t) = ''cycle requires an explicit positive loop bound on transition '' @ t"
| "plan_error_display (PlUnsupportedSchema v) = ''unsupported worker snapshot schema version '' @ show_nat (unat v)"
| "plan_error_display (PlUnsupportedCompiler v) = ''unsupported worker compiler version '' @ v"
| "plan_error_display PlSnapshotHashMismatch = ''snapshot hash does not match its canonical content''"
| "plan_error_display PlInvalidHash = ''workflow, contribution, authority, or plan hash is malformed''"
| "plan_error_display (PlInvalidEntry n) = ''entry node is duplicated or absent from the plan: '' @ n"
| "plan_error_display (PlInvalidNodeContract n) = ''node type/version or contribution is malformed: '' @ n"
| "plan_error_display (PlInvalidPort n p) = ''duplicate or malformed port '' @ p @ '' on node '' @ n"
| "plan_error_display (PlPortMismatch t) = ''transition '' @ t @ '' has incompatible ports''"
| "plan_error_display (PlUnresolvedCapability n c) = ''node '' @ n @ '' references an unfrozen capability '' @ c"
| "plan_error_display (PlInvalidLoop l) = ''loop descriptor is missing, duplicate, invalid, or unused: '' @ l"
| "plan_error_display (PlInvalidJoin j) = ''join descriptor is missing, duplicate, or invalid: '' @ j"
| "plan_error_display (PlInvalidRoute r) =
     ''route rule is missing, duplicate, invalid, or points outside its router: '' @ r"
| "plan_error_display PlPlanTooLarge = ''snapshot exceeds a bounded worker compilation limit''"
| "plan_error_display PlEncoding = ''snapshot cannot be encoded canonically''"

fun recovery_error_display :: "recovery_error \<Rightarrow> string" where
  "recovery_error_display RcSnapshotMismatch = ''rehydration snapshot hash is invalid''"
| "recovery_error_display RcPlanMismatch = ''rehydration plan hash is invalid''"
| "recovery_error_display RcCheckpointHashMismatch = ''checkpoint content hash is invalid''"
| "recovery_error_display RcGenerationFence = ''replacement process generation must be newer''"
| "recovery_error_display RcDeltaGap = ''committed recovery deltas are not contiguous''"
| "recovery_error_display RcOutcomeConflict = ''reconciled capability outcomes conflict''"
| "recovery_error_display RcPayloadTooLarge = ''rehydration payload exceeds its bound''"
| "recovery_error_display RcEncoding = ''rehydration payload cannot be encoded''"

text \<open>
  Only errors of \<open>handle\<close> are shown: gateway, plan and recovery errors and \<open>NotStarted\<close>. Protocol and
  transport errors end the loop, and their texts (which quote library errors) are left open.
\<close>

fun runtime_error_display :: "runtime_error \<Rightarrow> string" where
  "runtime_error_display (RtGateway e) = ''core gateway rejected message: '' @ gateway_error_display e"
| "runtime_error_display (RtPlan e) = ''frozen execution plan is invalid: '' @ plan_error_display e"
| "runtime_error_display (RtRecovery e) = ''rehydration envelope is invalid: '' @ recovery_error_display e"
| "runtime_error_display RtNotStarted = ''worker received a control before start or restore''"
| "runtime_error_display RtTruncatedFrame = ''truncated frame on worker stdin''"

text \<open>\<open>chars().take(n)\<close> of a UTF-8 text: bytes up to the start of the character after the last one.\<close>

fun take_chars :: "nat \<Rightarrow> string \<Rightarrow> string" where
  "take_chars n [] = []"
| "take_chars n (b # bs) =
     (if 128 \<le> byte b \<and> byte b < 192 then b # take_chars n bs
      else case n of 0 \<Rightarrow> [] | Suc m \<Rightarrow> b # take_chars m bs)"

section \<open>The byte stream\<close>

type_synonym reader = "string option list"

datatype read_stop = EndOfInput string | ReadFailed

text \<open>
  Reading until \<open>n\<close> more bytes are there: the loop over the length prefix, and \<open>read_exact\<close>. A read
  takes what the next entry has, at most what is missing; no bytes is the end of the input.
\<close>

fun read_full :: "nat \<Rightarrow> reader \<Rightarrow> string \<Rightarrow> (read_stop + string) \<times> reader" where
  "read_full n [] acc = (if n = 0 then (Inr acc, []) else (Inl (EndOfInput acc), []))"
| "read_full n (None # es) acc = (if n = 0 then (Inr acc, None # es) else (Inl ReadFailed, es))"
| "read_full n (Some bs # es) acc =
     (if n = 0 then (Inr acc, Some bs # es)
      else if bs = [] then (Inl (EndOfInput acc), es)
      else if length bs \<le> n then read_full (n - length bs) es (acc @ bs)
      else (Inr (acc @ take n bs), Some (drop n bs) # es))"

definition read_one_frame :: "reader \<Rightarrow> (runtime_error + string option) \<times> reader" where
  "read_one_frame input =
     (case read_full 4 input [] of
        (Inl (EndOfInput got), r) \<Rightarrow> (if got = [] then Inr None else Inl RtTruncatedFrame, r)
      | (Inl ReadFailed, r) \<Rightarrow> (Inl RtIo, r)
      | (Inr prefix, r) \<Rightarrow>
          if MAX_FRAME_BYTES < unat (from_be_bytes prefix) then (Inl (RtProtocol FrameTooLarge), r)
          else (case read_full (unat (from_be_bytes prefix)) r prefix of
                  (Inl (EndOfInput _), r') \<Rightarrow> (Inl RtTruncatedFrame, r')
                | (Inl ReadFailed, r') \<Rightarrow> (Inl RtIo, r')
                | (Inr frame, r') \<Rightarrow> (Inr (Some frame), r')))"

definition output_id :: "worker_codec \<Rightarrow> string \<Rightarrow> runtime_error + stable_id" where
  "output_id c material =
     (case derived_id (wk_sha c) ''worker.output.'' material of
        Inl _ \<Rightarrow> Inl (RtGateway GwInvalidIdentifier)
      | Inr i \<Rightarrow> Inr i)"

definition output_with :: "worker_codec \<Rightarrow> string \<Rightarrow> process_generation \<Rightarrow> worker_output_kind \<Rightarrow> runtime_error + worker_output_envelope" where
  "output_with c material generation output =
     bind_r (output_id c material) (\<lambda>i. Inr \<lparr>oe_message_id = i, oe_generation = generation, oe_output = output\<rparr>)"

text \<open>The answers to one control, in the order of writing.\<close>

definition answers :: "worker_codec \<Rightarrow> worker_control_envelope \<Rightarrow> runtime_error + service_result \<Rightarrow> (runtime_error + worker_output_envelope) list" where
  "answers c control response =
     (let generation = ce_generation control; request_id = ce_message_id control in
      case response of
        Inl e \<Rightarrow>
          [output_with c (''error:'' @ request_id) generation
             (OutError ''worker_control_rejected'' (take_chars 4096 (runtime_error_display e)))]
      | Inr result \<Rightarrow>
          (case res_handshake result of None \<Rightarrow> []
           | Some h \<Rightarrow> [output_with c (''handshake:'' @ request_id) generation (OutHandshake h)])
          @ map (\<lambda>p. Inr \<lparr>oe_message_id = pe_proposal_id p, oe_generation = generation, oe_output = OutProposal p\<rparr>)
              (res_proposals result)
          @ (case res_heartbeat result of None \<Rightarrow> []
             | Some hb \<Rightarrow> [output_with c (''heartbeat:ProcessGeneration('' @ show_nat (unat generation) @ ''):'' @ show_nat (unat (hb_sequence hb)))
                            generation (OutHeartbeat hb)])
          @ (case res_shutdown_ack result of None \<Rightarrow> []
             | Some control_id \<Rightarrow> [output_with c (''shutdown:'' @ control_id) generation (OutShutdownAck control_id)]))"

fun write_outputs :: "worker_codec \<Rightarrow> (runtime_error + worker_output_envelope) list \<Rightarrow> string \<Rightarrow> (runtime_error + unit) \<times> string" where
  "write_outputs c [] written = (Inr (), written)"
| "write_outputs c (Inl e # outputs) written = (Inl e, written)"
| "write_outputs c (Inr envelope # outputs) written =
     (case encode_frame (wk_output_to_vec c) envelope of
        Inl e \<Rightarrow> (Inl (RtProtocol e), written)
      | Inr frame \<Rightarrow>
          (case wk_write_fails c written frame of
             Some n \<Rightarrow> (Inl RtIo, written @ take n frame)
           | None \<Rightarrow> write_outputs c outputs (written @ frame)))"

text \<open>One turn of the loop: handle, write and flush the answers, and say whether to stop.\<close>

definition serve_control ::
  "worker_codec \<Rightarrow> worker_control_envelope \<Rightarrow> worker_service \<Rightarrow> string \<Rightarrow> (runtime_error + bool) \<times> worker_service \<times> string" where
  "serve_control c control s written =
     (case handle c control s of
        (response, s1) \<Rightarrow>
          (case write_outputs c (answers c control response) written of
             (Inl e, written1) \<Rightarrow> (Inl e, s1, written1)
           | (Inr _, written1) \<Rightarrow>
               (if wk_flush_fails c written1 then Inl RtIo
                else Inr (case response of Inl _ \<Rightarrow> False | Inr result \<Rightarrow> res_shutdown result), s1, written1)))"

definition reader_size :: "reader \<Rightarrow> nat" where
  "reader_size r = sum_list (map (\<lambda>e. 1 + (case e of None \<Rightarrow> 0 | Some bs \<Rightarrow> length bs)) r)"

lemma read_full_size:
  "read_full n r acc = (res, r') \<Longrightarrow> reader_size r' \<le> reader_size r \<and> (0 < n \<longrightarrow> is_ok res \<longrightarrow> reader_size r' < reader_size r)"
proof (induction n r acc rule: read_full.induct)
  case (3 n bs es acc)
  show ?case
  proof (cases "n = 0 \<or> bs = [] \<or> n < length bs")
    case True
    with 3 show ?thesis
      by (auto simp: reader_size_def split: if_splits)
  next
    case False
    with 3 have "reader_size r' \<le> reader_size es"
      by (auto split: if_splits)
    then show ?thesis
      by (simp add: reader_size_def)
  qed
qed (auto simp: reader_size_def split: if_splits)

lemma read_one_frame_size:
  assumes "read_one_frame r = (Inr (Some frame), r')"
  shows "reader_size r' < reader_size r"
proof -
  obtain x r1 where p: "read_full 4 r [] = (x, r1)"
    by fastforce
  with assms obtain prefix where "x = Inr prefix" and b: "read_full (unat (from_be_bytes prefix)) r1 prefix = (Inr frame, r')"
    by (auto simp: read_one_frame_def split: sum.splits read_stop.splits if_splits prod.splits)
  with read_full_size [OF p] read_full_size [OF b] show ?thesis
    by simp
qed

function serve_loop :: "worker_codec \<Rightarrow> reader \<Rightarrow> worker_service \<Rightarrow> string \<Rightarrow> (runtime_error + unit) \<times> string" where
  "serve_loop c input s written =
     (case read_one_frame input of
        (Inl e, _) \<Rightarrow> (Inl e, written)
      | (Inr None, _) \<Rightarrow> (Inr (), written)
      | (Inr (Some frame), input1) \<Rightarrow>
          (case decode_frame (wk_control_from_slice c) frame of
             Inl e \<Rightarrow> (Inl (RtProtocol e), written)
           | Inr control \<Rightarrow>
               (case serve_control c control s written of
                  (Inl e, _, written1) \<Rightarrow> (Inl e, written1)
                | (Inr stop, s1, written1) \<Rightarrow>
                    if stop then (Inr (), written1) else serve_loop c input1 s1 written1)))"
  by pat_completeness auto
termination
  by (relation "measure (\<lambda>(_, input, _, _). reader_size input)")
     (auto dest: read_one_frame_size [OF sym])

declare serve_loop.simps [simp del]

definition serve_stdio :: "worker_codec \<Rightarrow> reader \<Rightarrow> (runtime_error + unit) \<times> string" where
  "serve_stdio c input = serve_loop c input svc_new []"

end
