(* ===== verification/Worker_Laws.thy ===== *)
theory Worker_Laws
  imports Worker
begin

text \<open>
  What the worker process guarantees: a control takes effect at most once, a worker that is bound to a
  run has the plan of that run and a refused start leaves it fresh, and serving a byte stream is serving
  the controls it encodes, however the bytes arrive.
\<close>

section \<open>Controls\<close>

lemma validate_identity_Inr: "validate_identity envelope g = Inr u \<longleftrightarrow> gw_identity g = Some (envelope_identity envelope)"
  by (auto simp: validate_identity_def envelope_identity_def split: option.splits)

lemma gw_acknowledge_seen: "gw_acknowledge c pid cur g = (r, g') \<Longrightarrow> gw_seen_messages g' = gw_seen_messages g"
  by (auto simp: gw_acknowledge_def Let_def split: if_splits option.splits)

lemma admit_cursor_frame:
  "admit_cursor c envelope g = (r, g') \<Longrightarrow> gw_identity g' = gw_identity g \<and> gw_seen_messages g' = gw_seen_messages g"
  by (erule admit_cursor_cases) (auto dest: gw_acknowledge_frame(1) gw_acknowledge_seen)

lemma admit_identity_frame:
  assumes "admit_identity envelope g = (r, g')"
  shows "gw_seen_messages g' = gw_seen_messages g" and "r = Inr () \<Longrightarrow> gw_identity g' = Some (envelope_identity envelope)"
  using assms
  by (auto simp: admit_identity_def validate_identity_Inr split: worker_control_kind.splits if_splits)

text \<open>An admitted control is noted under its message identifier and belongs to the active identity.\<close>

lemma admit_control_noted:
  assumes "admit_control c envelope g = (Inr a, g')"
  obtains bytes where "gc_jcs c envelope = Some bytes" "bget (gw_seen_messages g') (ce_message_id envelope) = Some (gc_sha c bytes)"
    "gw_identity g' = Some (envelope_identity envelope)"
proof -
  obtain bytes where bytes: "gc_jcs c envelope = Some bytes"
    using assms by (auto simp: admit_control_def split: option.splits)
  obtain r1 g1 where id: "admit_identity envelope g = (r1, g1)"
    by fastforce
  obtain r2 g2 where cur: "admit_cursor c envelope g1 = (r2, g2)"
    by fastforce
  show thesis
  proof (cases "bget (gw_seen_messages g) (ce_message_id envelope)")
    case None
    with assms bytes id cur have "r1 = Inr ()" "g' = g2\<lparr>gw_seen_messages := binsert (ce_message_id envelope) (gc_sha c bytes) (gw_seen_messages g2)\<rparr>"
      by (auto simp: admit_control_def Let_def split: sum.splits)
    with that bytes admit_identity_frame(2) [OF id] admit_cursor_frame [OF cur] show ?thesis
      by simp
  next
    case (Some existing)
    with assms bytes that show ?thesis
      by (auto simp: admit_control_def Let_def bind_r_Inr validate_identity_Inr split: if_splits)
  qed
qed

lemma admit_control_again:
  assumes "gc_jcs c envelope = Some bytes" "bget (gw_seen_messages g) (ce_message_id envelope) = Some (gc_sha c bytes)"
    and "gw_identity g = Some (envelope_identity envelope)"
  shows "admit_control c envelope g = (Inr AdDuplicate, g)"
  using assms validate_identity_Inr [of envelope g "()"] by (simp add: admit_control_def Let_def)

lemma admit_control_keeps:
  assumes "admit_control c envelope g = (r, g')"
  shows "bget (gw_seen_messages g) k = Some h \<Longrightarrow> bget (gw_seen_messages g') k = Some h"
    and "gw_identity g = Some i \<Longrightarrow> gw_identity g' = Some i"
proof -
  show "gw_identity g = Some i \<Longrightarrow> gw_identity g' = Some i"
    using admit_control_frame [OF assms] by simp
  assume seen: "bget (gw_seen_messages g) k = Some h"
  obtain r1 g1 where id: "admit_identity envelope g = (r1, g1)"
    by fastforce
  obtain r2 g2 where cur: "admit_cursor c envelope g1 = (r2, g2)"
    by fastforce
  have "gw_seen_messages g1 = gw_seen_messages g" "gw_seen_messages g2 = gw_seen_messages g"
    using admit_identity_frame(1) [OF id] admit_cursor_frame [OF cur] by simp_all
  with assms id cur seen show "bget (gw_seen_messages g') k = Some h"
    by (auto simp: admit_control_def Let_def split: option.splits if_splits sum.splits)
qed

section \<open>The service\<close>

text \<open>What a service keeps: noted messages stay noted, the identity stays.\<close>

definition svc_keeps :: "worker_service \<Rightarrow> worker_service \<Rightarrow> bool" where
  "svc_keeps s t \<longleftrightarrow>
     (\<forall>k h. bget (gw_seen_messages (svc_gateway s)) k = Some h \<longrightarrow> bget (gw_seen_messages (svc_gateway t)) k = Some h)
     \<and> (\<forall>i. gw_identity (svc_gateway s) = Some i \<longrightarrow> gw_identity (svc_gateway t) = Some i)"

lemma push_proposal_cases:
  assumes "push_proposal c reserved kind result s = (r, t)"
  obtains (refused) x where "r = Inl (RtGateway x)" "t = s" "emit_inner (wk_gateway c) kind reserved (svc_gateway s) = (Inl x, svc_gateway s)"
  | (emitted) p g where "r = Inr (result\<lparr>res_proposals := res_proposals result @ [p]\<rparr>)" "t = s\<lparr>svc_gateway := g\<rparr>"
      "emit_inner (wk_gateway c) kind reserved (svc_gateway s) = (Inr p, g)"
      "gw_seen_messages g = gw_seen_messages (svc_gateway s)" "gw_identity g = gw_identity (svc_gateway s)"
proof -
  obtain x g where e: "emit_inner (wk_gateway c) kind reserved (svc_gateway s) = (x, g)"
    by fastforce
  have push: "push_proposal c reserved kind result s
      = (case x of Inl e \<Rightarrow> Inl (RtGateway e) | Inr p \<Rightarrow> Inr (result\<lparr>res_proposals := res_proposals result @ [p]\<rparr>), s\<lparr>svc_gateway := g\<rparr>)"
    using e by (cases reserved) (simp_all add: push_proposal_def gw_emit_def gw_emit_reserved_def split: sum.splits)
  show thesis
    using e
  proof (cases rule: emit_inner_cases)
    case (refused y)
    with push assms e that(1) show ?thesis by simp
  next
    case (emitted i e' bytes)
    with push assms e that(2) show ?thesis by simp
  qed
qed

lemma push_proposal_keeps:
  "push_proposal c reserved kind result s = (r, t) \<Longrightarrow>
     gw_seen_messages (svc_gateway t) = gw_seen_messages (svc_gateway s) \<and> gw_identity (svc_gateway t) = gw_identity (svc_gateway s)
     \<and> svc_plan t = svc_plan s \<and> svc_heartbeat_sequence t = svc_heartbeat_sequence s"
  by (erule push_proposal_cases) simp_all

lemma dispatch_keeps:
  assumes "dispatch c envelope prepared s = (r, t)"
  shows "gw_seen_messages (svc_gateway t) = gw_seen_messages (svc_gateway s) \<and> gw_identity (svc_gateway t) = gw_identity (svc_gateway s)
    \<and> svc_plan t = (case prepared of None \<Rightarrow> svc_plan s | Some (p, _) \<Rightarrow> Some p)
    \<and> (svc_plan s \<noteq> None \<longrightarrow> r \<noteq> Inl RtNotStarted)"
proof (cases prepared)
  case (Some p)
  with assms push_proposal_keeps show ?thesis
    by (cases p) (fastforce simp: dispatch_def elim: push_proposal_cases)
next
  case None
  have "gw_seen_messages (svc_gateway t) = gw_seen_messages (svc_gateway s) \<and> gw_identity (svc_gateway t) = gw_identity (svc_gateway s)
      \<and> svc_plan t = svc_plan s \<and> (svc_plan s \<noteq> None \<longrightarrow> r \<noteq> Inl RtNotStarted)"
    if "planned_proposal c reserved kind s = (r, t)" for reserved kind
    using that push_proposal_keeps
    by (fastforce simp: planned_proposal_def elim: push_proposal_cases split: if_splits)
  with assms None show ?thesis
    by (cases "ce_control envelope") (auto simp: dispatch_def)
qed

lemma handle_cases:
  assumes "handle c envelope s = (r, t)"
  obtains (unprepared) e where "r = Inl e" "t = s" "prepare c envelope = Inl e"
  | (rejected) prepared e g where "prepare c envelope = Inr prepared" "r = Inl (RtGateway e)" "t = s\<lparr>svc_gateway := g\<rparr>"
      "admit_control (wk_gateway c) envelope (svc_gateway s) = (Inl e, g)"
  | (repeated) prepared g where "prepare c envelope = Inr prepared" "r = Inr result_default" "t = s\<lparr>svc_gateway := g\<rparr>"
      "admit_control (wk_gateway c) envelope (svc_gateway s) = (Inr AdDuplicate, g)"
  | (dispatched) prepared g r1 s1 where "prepare c envelope = Inr prepared"
      "admit_control (wk_gateway c) envelope (svc_gateway s) = (Inr AdNew, g)"
      "dispatch c envelope prepared (s\<lparr>svc_gateway := g\<rparr>) = (r1, s1)"
      "svc_gateway t = svc_gateway s1" "svc_plan t = svc_plan s1"
      "is_ok r = is_ok r1" "\<And>e. r = Inl e \<longleftrightarrow> r1 = Inl e" "\<not> is_ok r \<Longrightarrow> t = s1"
proof (cases "prepare c envelope")
  case (Inl e)
  with assms unprepared show ?thesis
    by (auto simp: handle_def)
next
  case (Inr prepared)
  obtain a g where adm: "admit_control (wk_gateway c) envelope (svc_gateway s) = (a, g)"
    by fastforce
  obtain r1 s1 where dis: "dispatch c envelope prepared (s\<lparr>svc_gateway := g\<rparr>) = (r1, s1)"
    by fastforce
  consider e where "a = Inl e" | "a = Inr AdDuplicate" | "a = Inr AdNew"
    by (metis admission.exhaust sum.exhaust)
  then show ?thesis
  proof cases
    case 3
    show ?thesis
      by (rule dispatched [OF Inr _ dis])
         (use assms Inr adm dis 3 in \<open>auto simp: handle_def Let_def split: sum.splits\<close>)
  qed (use assms Inr adm rejected repeated in \<open>auto simp: handle_def\<close>)
qed

lemma handle_keeps:
  assumes "handle c envelope s = (r, t)"
  shows "svc_keeps s t"
  using assms
proof (cases rule: handle_cases)
  case (rejected prepared e g)
  with admit_control_keeps [OF rejected(4)] show ?thesis
    by (simp add: svc_keeps_def)
next
  case (repeated prepared g)
  with admit_control_keeps [OF repeated(4)] show ?thesis
    by (simp add: svc_keeps_def)
next
  case (dispatched prepared g r1 s1)
  with admit_control_keeps [OF dispatched(2)] dispatch_keeps [OF dispatched(3)] show ?thesis
    by (simp add: svc_keeps_def)
qed (simp add: svc_keeps_def)

inductive svc_step :: "worker_codec \<Rightarrow> worker_service \<Rightarrow> worker_service \<Rightarrow> bool" for c where
  svc_handles: "handle c envelope s = (r, t) \<Longrightarrow> svc_step c s t"

lemma svc_steps_keep: "(svc_step c)\<^sup>*\<^sup>* s t \<Longrightarrow> svc_keeps s t"
proof (induction rule: rtranclp_induct)
  case base
  show ?case by (simp add: svc_keeps_def)
next
  case (step t u)
  then have "svc_keeps t u"
    by (auto elim: svc_step.cases dest: handle_keeps)
  with step.IH show ?case
    by (simp add: svc_keeps_def)
qed

text \<open>A control that was admitted, whether or not it was then answered, is a duplicate from then on.\<close>

definition noted :: "worker_codec \<Rightarrow> worker_control_envelope \<Rightarrow> worker_service \<Rightarrow> bool" where
  "noted c envelope s \<longleftrightarrow>
     (\<exists>bytes. gc_jcs (wk_gateway c) envelope = Some bytes
        \<and> bget (gw_seen_messages (svc_gateway s)) (ce_message_id envelope) = Some (gc_sha (wk_gateway c) bytes))
     \<and> gw_identity (svc_gateway s) = Some (envelope_identity envelope)"

lemma noted_mono: "noted c envelope s \<Longrightarrow> svc_keeps s t \<Longrightarrow> noted c envelope t"
  by (auto simp: noted_def svc_keeps_def)

lemma admitted_noted:
  assumes "admit_control (wk_gateway c) envelope (svc_gateway s) = (Inr a, g)"
  shows "noted c envelope (s\<lparr>svc_gateway := g\<rparr>)"
  using assms by (elim admit_control_noted) (auto simp: noted_def)

lemma noted_is_duplicate:
  assumes "noted c envelope s" and "prepare c envelope = Inr prepared"
  shows "handle c envelope s = (Inr result_default, s)"
  using assms admit_control_again [of "wk_gateway c" envelope _ "svc_gateway s"]
  by (auto simp: noted_def handle_def)

lemma handle_noted:
  assumes "handle c envelope s = (r, t)" and "admit_control (wk_gateway c) envelope (svc_gateway s) = (Inr a, g)"
    and "prepare c envelope = Inr prepared"
  shows "noted c envelope t"
  using assms(1)
proof (cases rule: handle_cases)
  case (dispatched prepared' g' r1 s1)
  from admitted_noted [OF dispatched(2)] dispatch_keeps [OF dispatched(3)] dispatched(4) show ?thesis
    by (simp add: noted_def)
qed (use assms admitted_noted in auto)

section \<open>Starting\<close>

definition plan_of :: "execution_plan \<Rightarrow> active_identity \<Rightarrow> bool" where
  "plan_of p i \<longleftrightarrow> ws_chat_id (ep_snapshot p) = ai_chat_id i \<and> ws_run_id (ep_snapshot p) = ai_run_id i
     \<and> ws_snapshot_hash (ep_snapshot p) = ai_snapshot_hash i"

text \<open>A worker without an identity is as new; a worker with an identity has the plan of that run.\<close>

definition svc_inv :: "worker_service \<Rightarrow> bool" where
  "svc_inv s \<longleftrightarrow>
     (case gw_identity (svc_gateway s) of
        None \<Rightarrow> s = svc_new
      | Some i \<Rightarrow> \<exists>p. svc_plan s = Some p \<and> plan_of p i)"

lemma svc_inv_new: "svc_inv svc_new"
  by (simp add: svc_inv_def svc_new_def gw_new_def gw_with_bounds_def)

lemma prepare_Some:
  assumes "prepare c envelope = Inr (Some (p, h))"
  shows "\<exists>snapshot. (ce_control envelope = CtStart snapshot \<or> (\<exists>e. ce_control envelope = CtRestore e \<and> re_snapshot e = snapshot))
    \<and> ep_snapshot p = canonicalize_snapshot snapshot"
  using assms compile_wf
  by (auto simp: prepare_def split: worker_control_kind.splits sum.splits)

lemma admit_started:
  assumes "admit_control c envelope g = (Inr AdNew, g')" and "prepare c' envelope = Inr (Some (p, h))"
  shows "plan_of p (envelope_identity envelope)"
proof -
  obtain r1 g1 where id: "admit_identity envelope g = (r1, g1)"
    by fastforce
  with assms(1) have "r1 = Inr ()"
    by (auto simp: admit_control_def Let_def bind_r_Inr split: option.splits if_splits sum.splits)
  moreover obtain snapshot where
    "ce_control envelope = CtStart snapshot \<or> (\<exists>e. ce_control envelope = CtRestore e \<and> re_snapshot e = snapshot)"
    and "ep_snapshot p = canonicalize_snapshot snapshot"
    using prepare_Some [OF assms(2)] by blast
  ultimately show ?thesis
    using id by (auto simp: admit_identity_def snapshot_matches_def plan_of_def envelope_identity_def canonicalize_snapshot_def
        split: if_splits)
qed

lemma admit_without_start:
  assumes "prepare c' envelope = Inr None" and "gw_identity g = None"
  shows "\<exists>e. admit_control c envelope g = (Inl e, g)"
proof -
  have "admit_identity envelope g = (Inl GwNotInitialized, g)" and "validate_identity envelope g = Inl GwNotInitialized"
    using assms by (auto simp: prepare_def admit_identity_def validate_identity_def split: worker_control_kind.splits sum.splits)
  then show ?thesis
    by (auto simp: admit_control_def Let_def split: option.splits)
qed

lemma admit_error_fresh:
  assumes "admit_control c envelope g = (Inl e, g')" and "gw_identity g = None"
  shows "g' = g"
proof -
  have "admit_identity envelope g = (Inr (), g1) \<Longrightarrow>
      \<exists>s. ce_control envelope = CtStart s \<or> (\<exists>e. ce_control envelope = CtRestore e)" for g1
    using assms(2) by (auto simp: admit_identity_def validate_identity_def split: worker_control_kind.splits)
  moreover have "admit_identity envelope g = (Inr (), g1) \<Longrightarrow> gw_committed_cursor g1 = ce_committed_cursor envelope" for g1
    using assms(2) by (auto simp: admit_identity_def validate_identity_def split: worker_control_kind.splits if_splits)
  moreover have "admit_identity envelope g = (Inl x, g1) \<Longrightarrow> g1 = g" for x g1
    by (erule admit_identity_cases) auto
  ultimately show ?thesis
    using assms(1)
    by (auto simp: admit_control_def admit_cursor_def Let_def split: option.splits if_splits sum.splits prod.splits)
qed

lemma admit_duplicate: "admit_control c envelope g = (Inr AdDuplicate, g') \<Longrightarrow> g' = g \<and> gw_identity g = Some (envelope_identity envelope)"
  by (auto simp: admit_control_def Let_def bind_r_Inr validate_identity_Inr split: option.splits if_splits sum.splits prod.splits)

lemma svc_inv_handle:
  assumes inv: "svc_inv s" and op: "handle c envelope s = (r, t)"
  shows "svc_inv t"
  using op
proof (cases rule: handle_cases)
  case (rejected prepared e g)
  then show ?thesis
    using inv admit_error_fresh [OF rejected(4)] admit_control_keeps(2) [OF rejected(4)]
    by (cases "gw_identity (svc_gateway s)") (auto simp: svc_inv_def)
next
  case (repeated prepared g)
  with inv admit_duplicate [OF repeated(4)] show ?thesis by simp
next
  case (dispatched prepared g r1 s1)
  have id: "gw_identity g = Some (envelope_identity envelope)"
    using dispatched(2) by (rule admit_control_noted)
  note keeps = dispatch_keeps [OF dispatched(3)]
  show ?thesis
  proof (cases prepared)
    case None
    then obtain i where i: "gw_identity (svc_gateway s) = Some i"
      using admit_without_start [of c envelope "svc_gateway s" "wk_gateway c"] dispatched(1,2) by (cases "gw_identity (svc_gateway s)") auto
    with admit_control_keeps(2) [OF dispatched(2) i] id inv keeps dispatched(4,5) None show ?thesis
      by (auto simp: svc_inv_def)
  next
    case (Some ph)
    then obtain p h where "prepared = Some (p, h)"
      by (cases ph) simp
    with admit_started [OF dispatched(2)] dispatched(1,4,5) id keeps show ?thesis
      by (auto simp: svc_inv_def)
  qed
qed (use inv in simp)

interpretation svc: inv_system "svc_step c" svc_inv for c
  by unfold_locales (auto elim: svc_step.cases intro: svc_inv_handle)

text \<open>The first emission of a gateway without pending proposals can only fail on the encoding.\<close>

lemma emit_first_error:
  assumes "emit_inner c kind reserved g = (Inl x, g')" and "gw_identity g = Some i" and "gw_pending g = []"
    and "gw_max_pending_proposals g = 1024" and "gw_worker_sequence g = 0" and "hex_digest (gc_sha c)"
  shows "x \<in> {GwBackpressure, GwEncoding}"
proof -
  have "checked_add (0 :: u64) 1 = Some 1"
    by (simp add: checked_add_def)
  moreover have "\<exists>k. gw_stable_id c m = Inr k" for m
    using derived_id_ok [OF assms(6), of "''gateway.''" m]
    by (simp add: gw_stable_id_def stable_id_byte_def is_ascii_alphanumeric_code)
  then obtain k where "gw_stable_id c (proposal_material i 1) = Inr k"
    by blast
  ultimately show ?thesis
    using assms(1-5) by (auto simp: emit_inner_def usize_saturating_add_def MAX_RESERVED_CONTROL_PROPOSALS_def Let_def
        bind_r_Inl ok_or_Inl split: sum.splits if_splits)
qed

lemma admit_new_fresh:
  assumes "admit_control c envelope gw_new = (Inr AdNew, g)"
  shows "gw_pending g = [] \<and> gw_max_pending_proposals g = 1024 \<and> gw_worker_sequence g = 0"
proof -
  have "gw_acknowledge c pid cur g1 = (Inr (), g2) \<Longrightarrow> gw_pending g1 = [] \<Longrightarrow> gw_pending g2 = []
      \<and> gw_max_pending_proposals g2 = gw_max_pending_proposals g1 \<and> gw_worker_sequence g2 = gw_worker_sequence g1" for pid cur g1 g2
    by (auto simp: gw_acknowledge_def Let_def split: if_splits option.splits)
  then have cur: "admit_cursor c envelope g1 = (Inr (), g2) \<Longrightarrow> gw_pending g1 = [] \<Longrightarrow> gw_pending g2 = []
      \<and> gw_max_pending_proposals g2 = gw_max_pending_proposals g1 \<and> gw_worker_sequence g2 = gw_worker_sequence g1" for g1 g2
    by (auto simp: admit_cursor_def split: worker_control_kind.splits if_splits)
  have new: "gw_pending gw_new = []" "gw_max_pending_proposals gw_new = 1024" "gw_worker_sequence gw_new = 0" "gw_seen_messages gw_new = []"
    by (simp_all add: gw_new_def gw_with_bounds_def)
  obtain r1 g1 where id: "admit_identity envelope gw_new = (r1, g1)"
    by fastforce
  then have "gw_pending g1 = [] \<and> gw_max_pending_proposals g1 = 1024 \<and> gw_worker_sequence g1 = 0"
    using new by (cases rule: admit_identity_cases) simp_all
  moreover obtain r2 g2 where cur2: "admit_cursor c envelope g1 = (r2, g2)"
    by fastforce
  ultimately show ?thesis
    using assms id new(4) cur [of g1 g2] by (auto simp: admit_control_def Let_def split: option.splits sum.splits)
qed

text \<open>
  A control whose proposal is refused for backpressure has been noted as seen: when the core sends it
  again, it is taken for a duplicate and gets an empty answer, and its proposal is never made.
\<close>

lemma refused_control_is_swallowed:
  assumes "handle c envelope s = (Inl e, t)" and "prepare c envelope = Inr prepared"
    and "admit_control (wk_gateway c) envelope (svc_gateway s) = (Inr a, g)" and "(svc_step c)\<^sup>*\<^sup>* t u"
  shows "handle c envelope u = (Inr result_default, u)"
  using noted_is_duplicate [OF noted_mono [OF handle_noted [OF assms(1,3,2)] svc_steps_keep [OF assms(4)]] assms(2)] .

section \<open>Streams\<close>

text \<open>The service over a list of controls.\<close>

fun serve_controls :: "worker_codec \<Rightarrow> worker_control_envelope list \<Rightarrow> worker_service \<Rightarrow> string \<Rightarrow> (runtime_error + unit) \<times> string" where
  "serve_controls c [] s written = (Inr (), written)"
| "serve_controls c (control # controls) s written =
     (case serve_control c control s written of
        (Inl e, _, written1) \<Rightarrow> (Inl e, written1)
      | (Inr stop, s1, written1) \<Rightarrow>
          if stop then (Inr (), written1) else serve_controls c controls s1 written1)"

lemma read_full_chunks:
  assumes "[] \<notin> set chunks" and "n \<le> length (concat chunks)"
  shows "\<exists>rest. read_full n (map Some chunks) acc = (Inr (acc @ take n (concat chunks)), map Some rest)
    \<and> [] \<notin> set rest \<and> concat rest = drop n (concat chunks)"
  using assms
proof (induction chunks arbitrary: n acc)
  case (Cons b bs)
  show ?case
  proof (cases "n = 0 \<or> n < length b")
    case True
    show ?thesis
    proof (cases "n = 0")
      case True
      with Cons.prems show ?thesis
        by (intro exI [of _ "b # bs"]) auto
    next
      case False
      with True Cons.prems show ?thesis
        by (intro exI [of _ "drop n b # bs"]) auto
    qed
  next
    case False
    with Cons.IH [of "n - length b" "acc @ b"] Cons.prems show ?thesis
      by auto
  qed
qed simp

lemma read_one_frame_chunks:
  assumes "[] \<notin> set chunks" and "concat chunks = frame_of body @ rest" and "length body \<le> MAX_FRAME_BYTES"
  shows "\<exists>chunks'. read_one_frame (map Some chunks) = (Inr (Some (frame_of body)), map Some chunks')
    \<and> [] \<notin> set chunks' \<and> concat chunks' = rest"
proof -
  have len: "unat (from_be_bytes (take 4 (frame_of body))) = length body"
    using body_length_frame_of [OF assms(3), of "[]"] by (simp add: body_length_def)
  have split: "frame_of body = take 4 (frame_of body) @ body"
    by (metis append_take_drop_id append.right_neutral frame_of_simps(2))
  obtain r1 where r1: "read_full 4 (map Some chunks) [] = (Inr (take 4 (frame_of body)), map Some r1)"
    "[] \<notin> set r1" "concat r1 = body @ rest"
    using read_full_chunks [OF assms(1), of 4 "[]"] assms(2) frame_of_simps(2) [of body "[]"] by auto
  obtain r2 where r2: "read_full (length body) (map Some r1) (take 4 (frame_of body)) = (Inr (frame_of body), map Some r2)"
    "[] \<notin> set r2" "concat r2 = rest"
    using read_full_chunks [OF r1(2), of "length body" "take 4 (frame_of body)"] r1(3) split by auto
  show ?thesis
    using r1 r2 assms(3) by (simp add: read_one_frame_def len)
qed

lemma serve_loop_controls:
  assumes "list_all2 (\<lambda>m f. encode_frame to_vec m = Inr f) controls frames"
    and "codec_inverse to_vec (wk_control_from_slice c)" and "[] \<notin> set chunks" and "concat chunks = concat frames"
  shows "serve_loop c (map Some chunks) s written = serve_controls c controls s written"
  using assms
proof (induction controls frames arbitrary: chunks s written rule: list_all2_induct)
  case Nil
  then have "chunks = []"
    by (cases chunks) auto
  then show ?case
    by (simp add: serve_loop.simps [of c "[]"] read_one_frame_def)
next
  case (Cons m ms f fs)
  then obtain body where body: "to_vec m = Some body" "length body \<le> MAX_FRAME_BYTES" "f = frame_of body"
    by (auto simp: encode_frame_Inr frame_of_def)
  then obtain chunks' where read: "read_one_frame (map Some chunks) = (Inr (Some f), map Some chunks')"
    and rest: "[] \<notin> set chunks'" "concat chunks' = concat fs"
    using read_one_frame_chunks [OF Cons.prems(2), of body "concat fs"] Cons.prems(3) by auto
  have "decode_frame (wk_control_from_slice c) f = Inr m"
    using decode_frame_of [OF body(2), of "wk_control_from_slice c"] body Cons.prems(1) by (simp add: codec_inverse_def)
  then show ?case
    using Cons.IH [OF Cons.prems(1) rest] read
    by (subst serve_loop.simps) (auto split: sum.splits prod.splits)
qed

section \<open>Properties\<close>

definition demo_worker_codec :: worker_codec where
  "demo_worker_codec = \<lparr>wk_plan = demo_codec, wk_gateway = demo_gateway_codec, wk_jcs_checkpoint = (\<lambda>_. Some []),
     wk_outcome_value = (\<lambda>_. Some JNull), wk_sha = tail_digest, wk_version = ''0.1.0'', wk_executable = ''w'',
     wk_output_to_vec = (\<lambda>e. Some (oe_message_id e)),
     wk_control_from_slice = (\<lambda>b. Some (demo_control b (CtShutdown b))), wk_write_fails = (\<lambda>_ _. None), wk_flush_fails = (\<lambda>_. False)\<rparr>"

definition demo_start :: worker_control_envelope where
  "demo_start = (demo_control ''start'' (CtStart demo_snapshot))\<lparr>ce_snapshot_hash := zero_digest []\<rparr>"

definition demo_pause :: worker_control_envelope where
  "demo_pause = (demo_control ''pause'' (CtPause ''p1'' ''run''))\<lparr>ce_snapshot_hash := zero_digest []\<rparr>"

definition demo_service :: "gateway \<Rightarrow> worker_service" where
  "demo_service g = \<lparr>svc_gateway = g, svc_plan = None, svc_heartbeat_sequence = 0\<rparr>"

definition demo_started :: worker_service where
  "demo_started = snd (handle demo_worker_codec demo_start (demo_service (gw_with_bounds 2 200)))"

definition demo_paused :: worker_service where
  "demo_paused = snd (handle demo_worker_codec demo_pause demo_started)"

lemma demo_prepared: "prepare demo_worker_codec demo_start = Inr (Some (demo_plan, None))"
  using demo_compiles by (simp add: prepare_def demo_start_def demo_worker_codec_def demo_control_def)

text \<open>
  C12. A control takes effect at most once: after \<open>handle\<close> has accepted a control, every later delivery of the same
  control, whatever other controls were handled in between, returns an empty answer and changes nothing.
\<close>

theorem control_handled_once:
  assumes "handle c envelope s = (Inr result, s1)" and "(svc_step c)\<^sup>*\<^sup>* s1 s2"
  shows "handle c envelope s2 = (Inr result_default, s2)"
proof -
  from assms(1) obtain prepared a g where prepared: "prepare c envelope = Inr prepared"
    and "admit_control (wk_gateway c) envelope (svc_gateway s) = (Inr a, g)"
    by (cases rule: handle_cases) auto
  with handle_noted [OF assms(1)] noted_mono [OF _ svc_steps_keep [OF assms(2)]] noted_is_duplicate show ?thesis
    by blast
qed

lemma handle_new_ok:
  assumes "prepare c envelope = Inr prepared" and "fst (admit_control (wk_gateway c) envelope (svc_gateway s)) = Inr AdNew"
    and "is_ok (fst (dispatch c envelope prepared (s\<lparr>svc_gateway := snd (admit_control (wk_gateway c) envelope (svc_gateway s))\<rparr>)))"
  shows "\<exists>result. handle c envelope s = (Inr result, snd (handle c envelope s))"
proof -
  obtain g where g: "admit_control (wk_gateway c) envelope (svc_gateway s) = (Inr AdNew, g)"
    using assms(2) by (metis prod.collapse)
  obtain r s1 where "dispatch c envelope prepared (s\<lparr>svc_gateway := g\<rparr>) = (Inr r, s1)"
    using assms(3) g by (metis is_okE prod.collapse snd_conv)
  with assms(1) g show ?thesis
    by (simp add: handle_def Let_def)
qed

theorem control_handled_once_witness:
  "handle demo_worker_codec demo_start demo_paused = (Inr result_default, demo_paused)"
proof -
  let ?s = "demo_service (gw_with_bounds 2 200)"
  have "is_ok (fst (dispatch demo_worker_codec demo_start (Some (demo_plan, None))
      (?s\<lparr>svc_gateway := snd (admit_control (wk_gateway demo_worker_codec) demo_start (svc_gateway ?s))\<rparr>)))"
    and "fst (admit_control (wk_gateway demo_worker_codec) demo_start (svc_gateway ?s)) = Inr AdNew"
    by code_simp+
  then obtain result where "handle demo_worker_codec demo_start ?s = (Inr result, demo_started)"
    using handle_new_ok [OF demo_prepared, of ?s] by (auto simp: demo_started_def)
  moreover have "svc_step demo_worker_codec demo_started demo_paused"
    unfolding demo_paused_def by (rule svc_handles [OF prod.collapse [symmetric]])
  ultimately show ?thesis
    by (intro control_handled_once) auto
qed

text \<open>
  C20. A worker is bound to a run exactly when it holds the compiled plan of that run: in every reachable state, a
  worker whose gateway has no identity is as new, and otherwise its plan is of the identity's chat, run and snapshot
  hash. So no control is ever answered with \<open>NotStarted\<close>, and a start or restore that is refused leaves a new worker
  new, unless the first proposal could not be encoded within the byte limit.
\<close>

theorem worker_start_fence:
  assumes "hex_digest (gc_sha (wk_gateway c))" and "(svc_step c)\<^sup>*\<^sup>* svc_new s" and "handle c envelope s = (r, t)"
  shows "(case gw_identity (svc_gateway s) of
        None \<Rightarrow> s = svc_new
      | Some i \<Rightarrow> \<exists>p. svc_plan s = Some p \<and> ws_chat_id (ep_snapshot p) = ai_chat_id i
          \<and> ws_run_id (ep_snapshot p) = ai_run_id i \<and> ws_snapshot_hash (ep_snapshot p) = ai_snapshot_hash i)
    \<and> r \<noteq> Inl RtNotStarted
    \<and> (\<forall>e. s = svc_new \<and> r = Inl e \<longrightarrow> t = svc_new \<or> e \<in> {RtGateway GwBackpressure, RtGateway GwEncoding})"
proof (intro conjI allI impI)
  have inv: "svc_inv s"
    by (rule svc.steps_inv [OF assms(2) svc_inv_new])
  then show "case gw_identity (svc_gateway s) of
        None \<Rightarrow> s = svc_new
      | Some i \<Rightarrow> \<exists>p. svc_plan s = Some p \<and> ws_chat_id (ep_snapshot p) = ai_chat_id i
          \<and> ws_run_id (ep_snapshot p) = ai_run_id i \<and> ws_snapshot_hash (ep_snapshot p) = ai_snapshot_hash i"
    by (simp add: svc_inv_def plan_of_def split: option.splits)
  have new: "gw_identity (svc_gateway svc_new) = None" "svc_gateway svc_new = gw_new"
    by (simp_all add: svc_new_def gw_new_def gw_with_bounds_def)
  show "r \<noteq> Inl RtNotStarted"
    using assms(3)
  proof (cases rule: handle_cases)
    case (unprepared e)
    then show ?thesis
      by (auto simp: prepare_def split: worker_control_kind.splits sum.splits)
  next
    case (dispatched prepared g r1 s1)
    show ?thesis
    proof (cases prepared)
      case None
      then have "gw_identity (svc_gateway s) \<noteq> None"
        using admit_without_start [of c envelope "svc_gateway s" "wk_gateway c"] dispatched(1,2) by auto
      then have "svc_plan s \<noteq> None"
        using inv by (auto simp: svc_inv_def)
      with dispatch_keeps [OF dispatched(3)] dispatched(7) show ?thesis by simp
    next
      case (Some ph)
      with dispatched(3,7) show ?thesis
        by (cases ph) (auto simp: dispatch_def elim: push_proposal_cases)
    qed
  qed simp_all
  fix e
  assume fresh: "s = svc_new \<and> r = Inl e"
  from assms(3) show "t = svc_new \<or> e \<in> {RtGateway GwBackpressure, RtGateway GwEncoding}"
  proof (cases rule: handle_cases)
    case (rejected prepared x g)
    with admit_error_fresh [OF rejected(4)] fresh new show ?thesis by simp
  next
    case (dispatched prepared g r1 s1)
    then obtain p h where "prepared = Some (p, h)"
      using admit_without_start [of c envelope gw_new "wk_gateway c"] fresh new by (cases prepared) auto
    moreover have "r1 = Inl e"
      using dispatched(7) [of e] fresh by simp
    ultimately obtain kind res where
      "push_proposal c False kind res (svc_new\<lparr>svc_gateway := g, svc_plan := Some p\<rparr>) = (Inl e, s1)"
      using dispatched(3) fresh by (auto simp: dispatch_def)
    moreover have "gw_identity g = Some (envelope_identity envelope)"
      using dispatched(2) by (rule admit_control_noted)
    moreover have "gw_pending g = [] \<and> gw_max_pending_proposals g = 1024 \<and> gw_worker_sequence g = 0"
      using admit_new_fresh [of "wk_gateway c" envelope g] dispatched(2) fresh new(2) by simp
    moreover obtain x where "e = RtGateway x" "emit_inner (wk_gateway c) kind False g = (Inl x, g)"
      using calculation(1) by (auto elim: push_proposal_cases)
    ultimately show ?thesis
      using emit_first_error [of "wk_gateway c" kind False g x g, OF _ _ _ _ _ assms(1)] by auto
  qed (use fresh in auto)
qed

theorem worker_start_fence_witness:
  "fst (handle demo_worker_codec demo_pause svc_new) \<noteq> Inl RtNotStarted
   \<and> handle demo_worker_codec demo_pause svc_new = (Inl (RtGateway GwNotInitialized), svc_new)"
proof -
  have "fst (handle demo_worker_codec demo_pause svc_new) = Inl (RtGateway GwNotInitialized)"
    by (simp add: handle_def prepare_def demo_pause_def demo_control_def admit_control_def admit_identity_def
        validate_identity_def demo_worker_codec_def demo_gateway_codec_def svc_new_def gw_new_def gw_with_bounds_def)
  moreover have "hex_digest (gc_sha (wk_gateway demo_worker_codec))"
    by (simp add: demo_worker_codec_def demo_gateway_codec_def hex_tail_digest)
  ultimately show ?thesis
    using worker_start_fence [OF _ rtranclp.rtrancl_refl prod.collapse [symmetric], of demo_worker_codec demo_pause]
    by (cases "handle demo_worker_codec demo_pause svc_new") auto
qed

text \<open>
  C22. Serving a byte stream is serving the controls it encodes: whenever the JSON decoder inverts the sender's
  encoder, the frames of any controls, delivered in chunks of any size, make \<open>serve_stdio\<close> return and write exactly
  what handling these controls one after another returns and writes, up to and including a shutdown.
\<close>

theorem serve_reads_stream:
  assumes "list_all2 (\<lambda>m f. encode_frame to_vec m = Inr f) controls frames"
    and "codec_inverse to_vec (wk_control_from_slice c)" and "[] \<notin> set chunks" and "concat chunks = concat frames"
  shows "serve_stdio c (map Some chunks) = serve_controls c controls svc_new []"
  unfolding serve_stdio_def by (rule serve_loop_controls [OF assms])

theorem serve_reads_stream_witness:
  "serve_stdio demo_worker_codec (map Some [[char_of (0::nat), char_of (0::nat)], [char_of (0::nat), char_of (1::nat), CHR ''x'']])
     = serve_controls demo_worker_codec [demo_control ''x'' (CtShutdown ''x'')] svc_new []"
proof (rule serve_reads_stream [where frames = "[frame_of ''x'']"
    and to_vec = "\<lambda>m. if m = demo_control (ce_message_id m) (CtShutdown (ce_message_id m)) then Some (ce_message_id m) else None"])
  show "codec_inverse (\<lambda>m. if m = demo_control (ce_message_id m) (CtShutdown (ce_message_id m)) then Some (ce_message_id m) else None)
      (wk_control_from_slice demo_worker_codec)"
    by (auto simp: codec_inverse_def demo_worker_codec_def split: if_splits)
qed (simp_all add: encode_frame_Inr frame_of_def MAX_FRAME_BYTES_def demo_control_def to_be_bytes_def)

end
