(* ===== verification/Project.thy ===== *)
theory Project
  imports Plan
begin

text \<open>
  The project coordinator of the trusted core (\<open>crates/aworkit-trusted-core/src/project.rs\<close>):
  workspace identities and their revalidation, the registry of projects, and documents behind a
  storage port, with the scan that keeps direct secret material out of them. The file system and
  the storage port are parameters.
\<close>

section \<open>Data\<close>

record workspace_identity =
  wi_canonical_path :: string
  wi_created_at_nanos :: "nat option"

record workspace_binding =
  wsb_root :: string
  wsb_identity :: workspace_identity

record workspace_identity_v1 =
  wiv_canonical_path :: string
  wiv_platform :: string
  wiv_filesystem_object_id :: string

record workspace_binding_v1 =
  wbv_root :: string
  wbv_identity :: workspace_identity_v1

datatype project_document_kind = ProjectConfig | WorkflowDocument

record project_document =
  pd_schema_version :: u16
  pd_body :: json

record stored_project_document =
  sd_kind :: project_document_kind
  sd_document_id :: stable_id
  sd_version :: u64
  sd_content_hash :: string
  sd_document :: project_document

record project_port_error =
  ppe_code :: string
  ppe_message :: string
  ppe_retryable :: bool

record project_record =
  pr_project_id :: stable_id
  pr_display_name :: string
  pr_workspace :: workspace_binding_v1
  pr_config_document_id :: stable_id

datatype document_watch_result =
    WatchUnchanged u64
  | WatchChanged stored_project_document
  | WatchDeleted

datatype project_error =
    PjWorkspaceUnavailable
  | PjWorkspaceDrift
  | PjStateUnavailable
  | PjDocumentPortUnavailable
  | PjDocumentMissing
  | PjUnsupportedDocumentSchema u16
  | PjInvalidDocument
  | PjInvalidPortResponse
  | PjInvalidProject
  | PjDuplicateProject
  | PjPoisoned
  | PjPort string string bool

definition project_error_of_port :: "project_port_error \<Rightarrow> project_error" where
  "project_error_of_port e = PjPort (ppe_code e) (ppe_message e) (ppe_retryable e)"

definition MAX_DOCUMENT_BYTES :: usize where
  "MAX_DOCUMENT_BYTES = 4 * 1024 * 1024"

definition SUPPORTED_DOCUMENT_SCHEMA :: u16 where
  "SUPPORTED_DOCUMENT_SCHEMA = 1"

text \<open>
  The operating system: \<open>dunce::canonicalize\<close> and \<open>dunce::simplified\<close>, the directory test and the
  creation time of \<open>fs::metadata\<close>, the hash of a \<open>same_file::Handle\<close>, the lossy text of a path,
  the name of the platform and \<open>fs::create_dir_all\<close>. \<open>None\<close> and \<open>False\<close> are their errors; a
  creation time that is not available is the inner \<open>None\<close>.
\<close>

record fs_port =
  fs_canonicalize :: "string \<Rightarrow> string option"
  fs_is_dir :: "string \<Rightarrow> bool option"
  fs_created_nanos :: "string \<Rightarrow> nat option option"
  fs_handle_hash :: "string \<Rightarrow> u64 option"
  fs_to_string_lossy :: "string \<Rightarrow> string"
  fs_simplified :: "string \<Rightarrow> string"
  fs_os :: string
  fs_create_dir_all :: "string \<Rightarrow> bool"

text \<open>The storage port, over the state \<open>'d\<close> of the store, and the serializers.\<close>

record 'd document_port =
  dp_load :: "project_document_kind \<Rightarrow> stable_id \<Rightarrow> 'd \<Rightarrow> project_port_error + stored_project_document option"
  dp_save :: "project_document_kind \<Rightarrow> stable_id \<Rightarrow> u64 option \<Rightarrow> project_document \<Rightarrow> 'd
    \<Rightarrow> (project_port_error + stored_project_document) \<times> 'd"

record document_codec =
  dc_to_vec :: "project_document \<Rightarrow> string option"
  dc_jcs :: "project_document \<Rightarrow> string option"
  dc_from_slice :: "string \<Rightarrow> project_document option"
  dc_sha :: digest

record 'd project_coordinator =
  pj_state_root :: string
  pj_documents :: "'d document_port option"
  pj_projects :: "(string, project_record) bmap"

section \<open>Workspaces\<close>

definition canonical_directory :: "fs_port \<Rightarrow> string \<Rightarrow> project_error + string" where
  "canonical_directory fs path =
     bind_r (ok_or (fs_canonicalize fs path) PjWorkspaceUnavailable) (\<lambda>canonical.
     bind_r (ok_or (fs_is_dir fs canonical) PjWorkspaceUnavailable) (\<lambda>is_dir.
     if \<not> is_dir then Inl PjWorkspaceUnavailable else Inr canonical))"

definition same_canonical_path :: "fs_port \<Rightarrow> string \<Rightarrow> string \<Rightarrow> bool" where
  "same_canonical_path fs left right \<longleftrightarrow> fs_simplified fs left = fs_simplified fs right"

text \<open>\<open>format!("object:{:016x}", hash)\<close>.\<close>

definition hex16 :: "u64 \<Rightarrow> string" where
  "hex16 w = map (\<lambda>i. ''0123456789abcdef'' ! unat (drop_bit (4 * (15 - i)) w mod 16)) [0..<16]"

definition filesystem_object_id :: "u64 \<Rightarrow> string" where
  "filesystem_object_id hash = ''object:'' @ hex16 hash"

definition pj_open :: "fs_port \<Rightarrow> string \<Rightarrow> project_error + 'd project_coordinator" where
  "pj_open fs root =
     (if fs_create_dir_all fs root
      then Inr \<lparr>pj_state_root = root, pj_documents = None, pj_projects = []\<rparr>
      else Inl PjStateUnavailable)"

definition with_document_port :: "fs_port \<Rightarrow> string \<Rightarrow> 'd document_port \<Rightarrow> project_error + 'd project_coordinator" where
  "with_document_port fs root documents =
     bind_r (pj_open fs root) (\<lambda>coordinator. Inr (coordinator\<lparr>pj_documents := Some documents\<rparr>))"

definition resolve_workspace :: "fs_port \<Rightarrow> string \<Rightarrow> project_error + workspace_binding" where
  "resolve_workspace fs root =
     bind_r (canonical_directory fs root) (\<lambda>canonical.
     bind_r (ok_or (fs_created_nanos fs canonical) PjWorkspaceUnavailable) (\<lambda>created.
     Inr \<lparr>wsb_root = canonical, wsb_identity =
            \<lparr>wi_canonical_path = fs_to_string_lossy fs canonical, wi_created_at_nanos = created\<rparr>\<rparr>))"

definition revalidate_workspace :: "fs_port \<Rightarrow> workspace_binding \<Rightarrow> project_error + unit" where
  "revalidate_workspace fs b =
     bind_r (resolve_workspace fs (wsb_root b)) (\<lambda>observed.
     if wi_created_at_nanos (wsb_identity observed) \<noteq> wi_created_at_nanos (wsb_identity b)
        \<or> \<not> same_canonical_path fs (wi_canonical_path (wsb_identity observed)) (wi_canonical_path (wsb_identity b))
     then Inl PjWorkspaceDrift else Inr ())"

definition resolve_workspace_v1 :: "fs_port \<Rightarrow> string \<Rightarrow> project_error + workspace_binding_v1" where
  "resolve_workspace_v1 fs root =
     bind_r (canonical_directory fs root) (\<lambda>canonical.
     bind_r (ok_or (fs_handle_hash fs canonical) PjWorkspaceUnavailable) (\<lambda>hash.
     Inr \<lparr>wbv_root = canonical, wbv_identity =
            \<lparr>wiv_canonical_path = fs_to_string_lossy fs canonical, wiv_platform = fs_os fs,
             wiv_filesystem_object_id = filesystem_object_id hash\<rparr>\<rparr>))"

definition revalidate_workspace_v1 :: "fs_port \<Rightarrow> workspace_binding_v1 \<Rightarrow> project_error + unit" where
  "revalidate_workspace_v1 fs b =
     bind_r (resolve_workspace_v1 fs (wbv_root b)) (\<lambda>observed.
     if wiv_platform (wbv_identity observed) \<noteq> wiv_platform (wbv_identity b)
        \<or> wiv_filesystem_object_id (wbv_identity observed) \<noteq> wiv_filesystem_object_id (wbv_identity b)
        \<or> \<not> same_canonical_path fs (wiv_canonical_path (wbv_identity observed)) (wiv_canonical_path (wbv_identity b))
     then Inl PjWorkspaceDrift else Inr ())"

section \<open>The registry\<close>

definition validate_display_name :: "string \<Rightarrow> project_error + unit" where
  "validate_display_name name =
     (if trim_is_empty name \<or> 256 < length name \<or> has_control name then Inl PjInvalidProject else Inr ())"

text \<open>\<open>BTreeMap::insert\<close> replaces the entry before its result is inspected.\<close>

definition register_project ::
  "fs_port \<Rightarrow> project_record \<Rightarrow> 'd project_coordinator \<Rightarrow> (project_error + unit) \<times> 'd project_coordinator" where
  "register_project fs record c =
     (case bind_r (validate_display_name (pr_display_name record))
             (\<lambda>_. revalidate_workspace_v1 fs (pr_workspace record)) of
        Inl e \<Rightarrow> (Inl e, c)
      | Inr _ \<Rightarrow>
          (let previous = bget (pj_projects c) (pr_project_id record);
               c' = c\<lparr>pj_projects := binsert (pr_project_id record) record (pj_projects c)\<rparr> in
           if previous \<noteq> None then (Inl PjDuplicateProject, c') else (Inr (), c')))"

definition list_projects :: "'d project_coordinator \<Rightarrow> project_record list" where
  "list_projects c = bvalues (pj_projects c)"

section \<open>Documents\<close>

text \<open>
  \<open>key.to_ascii_lowercase().replace('-', "_").replace('_', "")\<close> and the substring test of
  \<open>str::contains\<close>.
\<close>

definition to_ascii_lowercase :: "string \<Rightarrow> string" where
  "to_ascii_lowercase s = map (\<lambda>c. if 65 \<le> byte c \<and> byte c \<le> 90 then char_of (byte c + 32) else c) s"

fun str_contains :: "string \<Rightarrow> string \<Rightarrow> bool" where
  "str_contains [] needle = (needle = [])"
| "str_contains (c # cs) needle = (take (length needle) (c # cs) = needle \<or> str_contains cs needle)"

definition secret_key :: "string \<Rightarrow> bool" where
  "secret_key key =
     (let normalized = map (\<lambda>c. if c = CHR ''-'' then CHR ''_'' else c) (to_ascii_lowercase key);
          compact = filter (\<lambda>c. c \<noteq> CHR ''_'') normalized in
      list_ex (str_contains compact) [''password'', ''secret'', ''apikey'', ''accesstoken'', ''privatekey''])"

fun contains_secret_material :: "json \<Rightarrow> nat \<Rightarrow> project_error + bool"
  and scan_object :: "(string \<times> json) list \<Rightarrow> nat \<Rightarrow> project_error + bool"
  and scan_array :: "json list \<Rightarrow> nat \<Rightarrow> project_error + bool"
where
  "contains_secret_material v depth =
     (if 64 < depth then Inl PjInvalidDocument
      else case v of
        JObject m \<Rightarrow> scan_object m depth
      | JArray vs \<Rightarrow> scan_array vs depth
      | _ \<Rightarrow> Inr False)"
| "scan_object [] depth = Inr False"
| "scan_object ((key, v) # m) depth =
     (if secret_key key then Inr True
      else case contains_secret_material v (depth + 1) of
        Inl e \<Rightarrow> Inl e
      | Inr found \<Rightarrow> if found then Inr True else scan_object m depth)"
| "scan_array [] depth = Inr False"
| "scan_array (v # vs) depth =
     (case contains_secret_material v (depth + 1) of
        Inl e \<Rightarrow> Inl e
      | Inr found \<Rightarrow> if found then Inr True else scan_array vs depth)"

definition validate_document :: "document_codec \<Rightarrow> project_document \<Rightarrow> project_error + unit" where
  "validate_document c d =
     (if pd_schema_version d = 0 \<or> SUPPORTED_DOCUMENT_SCHEMA < pd_schema_version d
      then Inl (PjUnsupportedDocumentSchema (pd_schema_version d))
      else bind_r (ok_or (dc_to_vec c d) PjInvalidDocument) (\<lambda>bytes.
           if MAX_DOCUMENT_BYTES < length bytes \<or> as_object (pd_body d) = None then Inl PjInvalidDocument
           else bind_r (contains_secret_material (pd_body d) 0) (\<lambda>found.
                if found then Inl PjInvalidDocument else Inr ())))"

definition validate_stored_document ::
  "document_codec \<Rightarrow> project_document_kind \<Rightarrow> stable_id \<Rightarrow> stored_project_document \<Rightarrow> project_error + unit" where
  "validate_stored_document c kind document_id stored =
     (if sd_kind stored \<noteq> kind \<or> sd_document_id stored \<noteq> document_id \<or> sd_version stored = 0
         \<or> \<not> valid_sha256 (sd_content_hash stored)
      then Inl PjInvalidPortResponse
      else bind_r (validate_document c (sd_document stored)) (\<lambda>_.
           bind_r (ok_or (dc_jcs c (sd_document stored)) PjInvalidDocument) (\<lambda>bytes.
           if dc_sha c bytes \<noteq> sd_content_hash stored then Inl PjInvalidPortResponse else Inr ())))"

definition pj_document_port :: "'d project_coordinator \<Rightarrow> project_error + 'd document_port" where
  "pj_document_port c = ok_or (pj_documents c) PjDocumentPortUnavailable"

definition load_document ::
  "document_codec \<Rightarrow> 'd project_coordinator \<Rightarrow> project_document_kind \<Rightarrow> stable_id \<Rightarrow> 'd
    \<Rightarrow> project_error + stored_project_document option" where
  "load_document cd c kind document_id store =
     bind_r (pj_document_port c) (\<lambda>port.
     case dp_load port kind document_id store of
       Inl e \<Rightarrow> Inl (project_error_of_port e)
     | Inr None \<Rightarrow> Inr None
     | Inr (Some stored) \<Rightarrow>
         bind_r (validate_stored_document cd kind document_id stored) (\<lambda>_. Inr (Some stored)))"

definition save_document ::
  "document_codec \<Rightarrow> 'd project_coordinator \<Rightarrow> project_document_kind \<Rightarrow> stable_id \<Rightarrow> u64 option
    \<Rightarrow> project_document \<Rightarrow> 'd \<Rightarrow> (project_error + stored_project_document) \<times> 'd" where
  "save_document cd c kind document_id expected_version document store =
     (case bind_r (validate_document cd document) (\<lambda>_. pj_document_port c) of
        Inl e \<Rightarrow> (Inl e, store)
      | Inr port \<Rightarrow>
          (case dp_save port kind document_id expected_version document store of
             (Inl e, store') \<Rightarrow> (Inl (project_error_of_port e), store')
           | (Inr stored, store') \<Rightarrow>
               (bind_r (validate_stored_document cd kind document_id stored) (\<lambda>_. Inr stored), store')))"

definition export_document ::
  "document_codec \<Rightarrow> 'd project_coordinator \<Rightarrow> project_document_kind \<Rightarrow> stable_id \<Rightarrow> 'd \<Rightarrow> project_error + string" where
  "export_document cd c kind document_id store =
     bind_r (load_document cd c kind document_id store) (\<lambda>loaded.
     bind_r (ok_or loaded PjDocumentMissing) (\<lambda>stored.
     ok_or (dc_jcs cd (sd_document stored)) PjInvalidDocument))"

definition import_document ::
  "document_codec \<Rightarrow> 'd project_coordinator \<Rightarrow> project_document_kind \<Rightarrow> stable_id \<Rightarrow> u64 option
    \<Rightarrow> string \<Rightarrow> 'd \<Rightarrow> (project_error + stored_project_document) \<times> 'd" where
  "import_document cd c kind document_id expected_version bytes store =
     (if bytes = [] \<or> MAX_DOCUMENT_BYTES < length bytes then (Inl PjInvalidDocument, store)
      else case dc_from_slice cd bytes of
        None \<Rightarrow> (Inl PjInvalidDocument, store)
      | Some document \<Rightarrow> save_document cd c kind document_id expected_version document store)"

definition watch_document ::
  "document_codec \<Rightarrow> 'd project_coordinator \<Rightarrow> project_document_kind \<Rightarrow> stable_id \<Rightarrow> u64 option \<Rightarrow> 'd
    \<Rightarrow> project_error + document_watch_result" where
  "watch_document cd c kind document_id observed_version store =
     bind_r (load_document cd c kind document_id store) (\<lambda>loaded.
     Inr (case loaded of
            None \<Rightarrow> WatchDeleted
          | Some stored \<Rightarrow>
              if Some (sd_version stored) = observed_version then WatchUnchanged (sd_version stored)
              else WatchChanged stored))"

section \<open>The secret scan\<close>

text \<open>Every object key of a value, and how deep the value nests.\<close>

fun json_keys :: "json \<Rightarrow> string list" where
  "json_keys (JObject m) = concat (map (\<lambda>(k, v). k # json_keys v) m)"
| "json_keys (JArray vs) = concat (map json_keys vs)"
| "json_keys _ = []"

fun json_depth :: "json \<Rightarrow> nat" where
  "json_depth (JObject m) = (if m = [] then 0 else Suc (Max (set (map (\<lambda>(k, v). json_depth v) m))))"
| "json_depth (JArray vs) = (if vs = [] then 0 else Suc (Max (set (map json_depth vs))))"
| "json_depth _ = 0"

lemma scan_object_Cons_clean:
  "scan_object (e # m) d = Inr False \<longleftrightarrow>
     \<not> secret_key (fst e) \<and> contains_secret_material (snd e) (d + 1) = Inr False \<and> scan_object m d = Inr False"
  by (cases e; cases "contains_secret_material (snd e) (d + 1)")
     (simp_all del: contains_secret_material.simps)

lemma scan_array_Cons_clean:
  "scan_array (v # vs) d = Inr False \<longleftrightarrow>
     contains_secret_material v (d + 1) = Inr False \<and> scan_array vs d = Inr False"
  by (cases "contains_secret_material v (d + 1)") (simp_all del: contains_secret_material.simps)

lemma scan_object_clean:
  "scan_object m d = Inr False \<longleftrightarrow>
     (\<forall>e \<in> set m. \<not> secret_key (fst e) \<and> contains_secret_material (snd e) (d + 1) = Inr False)"
proof (induction m)
  case (Cons e m)
  show ?case
    unfolding scan_object_Cons_clean Cons.IH by (simp del: contains_secret_material.simps)
qed simp

lemma scan_array_clean:
  "scan_array vs d = Inr False \<longleftrightarrow> (\<forall>v \<in> set vs. contains_secret_material v (d + 1) = Inr False)"
proof (induction vs)
  case (Cons v vs)
  show ?case
    unfolding scan_array_Cons_clean Cons.IH by (simp del: contains_secret_material.simps)
qed simp

lemma suc_max_le: "finite A \<Longrightarrow> A \<noteq> {} \<Longrightarrow> d + Suc (Max A) \<le> n \<longleftrightarrow> (\<forall>a \<in> A. d + 1 + a \<le> n)"
  by (metis (no_types, lifting) Max_ge Max_in add.assoc add_left_mono le_trans nat_add_left_cancel_le plus_1_eq_Suc)

lemma secret_scan_object:
  "contains_secret_material (JObject m) d = Inr False \<longleftrightarrow> d \<le> 64 \<and> scan_object m d = Inr False"
  by auto

lemma secret_scan_array:
  "contains_secret_material (JArray vs) d = Inr False \<longleftrightarrow> d \<le> 64 \<and> scan_array vs d = Inr False"
  by auto

lemma secret_scan_clean:
  "contains_secret_material v d = Inr False \<longleftrightarrow>
     d + json_depth v \<le> 64 \<and> (\<forall>k \<in> set (json_keys v). \<not> secret_key k)"
proof (induction v arbitrary: d)
  case (JArray vs)
  then have "contains_secret_material (JArray vs) d = Inr False \<longleftrightarrow>
      d \<le> 64 \<and> (\<forall>v \<in> set vs. d + 1 + json_depth v \<le> 64 \<and> (\<forall>k \<in> set (json_keys v). \<not> secret_key k))"
    unfolding secret_scan_array scan_array_clean by blast
  also have "\<dots> \<longleftrightarrow> d + json_depth (JArray vs) \<le> 64 \<and> (\<forall>k \<in> set (json_keys (JArray vs)). \<not> secret_key k)"
    by (cases vs) (auto simp: suc_max_le simp del: add_Suc_right)
  finally show ?case .
next
  case (JObject m)
  have IH: "contains_secret_material (snd e) d' = Inr False \<longleftrightarrow>
      d' + json_depth (snd e) \<le> 64 \<and> (\<forall>k \<in> set (json_keys (snd e)). \<not> secret_key k)" if "e \<in> set m" for e d'
    by (rule JObject [OF that]) (simp add: snds.simps)
  have "contains_secret_material (JObject m) d = Inr False \<longleftrightarrow>
      d \<le> 64 \<and> (\<forall>e \<in> set m. \<not> secret_key (fst e) \<and> d + 1 + json_depth (snd e) \<le> 64
        \<and> (\<forall>k \<in> set (json_keys (snd e)). \<not> secret_key k))"
    unfolding secret_scan_object scan_object_clean using IH by blast
  also have "\<dots> \<longleftrightarrow> d + json_depth (JObject m) \<le> 64 \<and> (\<forall>k \<in> set (json_keys (JObject m)). \<not> secret_key k)"
    by (cases m) (auto simp: suc_max_le split_beta simp del: add_Suc_right)
  finally show ?case .
qed auto

lemma no_secret_keys: "filter secret_key ks = [] \<longleftrightarrow> (\<forall>k \<in> set ks. \<not> secret_key k)"
  by (simp add: filter_empty_conv)

lemma validate_document_ok:
  "validate_document cd d = Inr u \<longleftrightarrow>
     pd_schema_version d = 1 \<and> (\<exists>bytes. dc_to_vec cd d = Some bytes \<and> length bytes \<le> MAX_DOCUMENT_BYTES)
     \<and> as_object (pd_body d) \<noteq> None \<and> json_depth (pd_body d) \<le> 64
     \<and> filter secret_key (json_keys (pd_body d)) = []"
proof -
  have v: "\<not> (v = 0 \<or> 1 < v) \<longleftrightarrow> v = 1" for v :: u16
    by (auto simp: word_less_nat_alt word_unat_eq_iff)
  have scan: "bind_r (contains_secret_material (pd_body d) 0) (\<lambda>found. if found then Inl PjInvalidDocument else Inr ()) = Inr u
      \<longleftrightarrow> json_depth (pd_body d) \<le> 64 \<and> filter secret_key (json_keys (pd_body d)) = []"
    using secret_scan_clean [of "pd_body d" 0] unfolding no_secret_keys bind_r_Inr by auto
  show ?thesis
    unfolding validate_document_def SUPPORTED_DOCUMENT_SCHEMA_def v [symmetric] scan [symmetric]
    by (cases "dc_to_vec cd d") (auto simp del: contains_secret_material.simps)
qed

lemma validate_stored_document_ok:
  "validate_stored_document cd kind i stored = Inr u \<longleftrightarrow>
     sd_kind stored = kind \<and> sd_document_id stored = i \<and> sd_version stored \<noteq> 0 \<and> valid_sha256 (sd_content_hash stored)
     \<and> validate_document cd (sd_document stored) = Inr ()
     \<and> map_option (dc_sha cd) (dc_jcs cd (sd_document stored)) = Some (sd_content_hash stored)"
  by (cases "dc_jcs cd (sd_document stored)") (auto simp: validate_stored_document_def bind_r_Inr ok_or_Inr)

lemma load_document_ok:
  "load_document cd c kind i store = Inr (Some stored) \<longleftrightarrow>
     (\<exists>port. pj_documents c = Some port \<and> dp_load port kind i store = Inr (Some stored)
        \<and> validate_stored_document cd kind i stored = Inr ())"
proof (cases "pj_documents c")
  case (Some port)
  show ?thesis
  proof (cases "dp_load port kind i store")
    case (Inr r)
    with Some show ?thesis
      by (cases r) (auto simp: load_document_def pj_document_port_def bind_r_Inr)
  qed (simp add: Some load_document_def pj_document_port_def)
qed (simp add: load_document_def pj_document_port_def)

text \<open>A refused registration of a known project has replaced its record.\<close>

lemma duplicate_registration_overwrites:
  assumes "bget (pj_projects c) (pr_project_id record) = Some old"
    and "validate_display_name (pr_display_name record) = Inr ()"
    and "revalidate_workspace_v1 fs (pr_workspace record) = Inr ()"
  shows "fst (register_project fs record c) = Inl PjDuplicateProject"
    and "bget (pj_projects (snd (register_project fs record c))) (pr_project_id record) = Some record"
  using assms by (simp_all add: register_project_def Let_def)

section \<open>Properties\<close>

text \<open>A store of one document, and codecs that know one document.\<close>

definition demo_document :: project_document where
  "demo_document = \<lparr>pd_schema_version = 1, pd_body = JObject [(''credentialRef'', JString ''credential.one'')]\<rparr>"

definition demo_document_codec :: document_codec where
  "demo_document_codec = \<lparr>dc_to_vec = (\<lambda>_. Some ''{}''), dc_jcs = (\<lambda>d. if d = demo_document then Some ''{}'' else None),
     dc_from_slice = (\<lambda>_. Some demo_document), dc_sha = zero_digest\<rparr>"

definition demo_stored :: "project_document_kind \<Rightarrow> stable_id \<Rightarrow> project_document \<Rightarrow> stored_project_document" where
  "demo_stored kind i d = \<lparr>sd_kind = kind, sd_document_id = i, sd_version = 1, sd_content_hash = zero_digest [], sd_document = d\<rparr>"

definition demo_document_port :: "project_document option document_port" where
  "demo_document_port =
     \<lparr>dp_load = (\<lambda>kind i store. Inr (map_option (demo_stored kind i) store)),
      dp_save = (\<lambda>kind i _ d store. (Inr (demo_stored kind i d), Some d))\<rparr>"

definition demo_coordinator :: "project_document option project_coordinator" where
  "demo_coordinator = \<lparr>pj_state_root = ''/state'', pj_documents = Some demo_document_port, pj_projects = []\<rparr>"

text \<open>
  A document the coordinator returns is the one asked for, with a positive version, its schema
  supported and its content hash recomputed; its body is an object nested at most 64 deep in which
  no key at any depth names a password, secret, API key, access token or private key.
\<close>

theorem documents_secret_free:
  assumes "load_document cd c kind i store = Inr (Some stored)"
  shows "sd_kind stored = kind \<and> sd_document_id stored = i \<and> sd_version stored \<noteq> 0
    \<and> pd_schema_version (sd_document stored) = 1
    \<and> map_option (dc_sha cd) (dc_jcs cd (sd_document stored)) = Some (sd_content_hash stored)
    \<and> as_object (pd_body (sd_document stored)) \<noteq> None \<and> json_depth (pd_body (sd_document stored)) \<le> 64
    \<and> filter secret_key (json_keys (pd_body (sd_document stored))) = []"
  using assms unfolding load_document_ok validate_stored_document_ok validate_document_ok by blast

lemma demo_document_keys: "filter secret_key (json_keys (pd_body demo_document)) = []"
  by code_simp

lemma demo_secret: "contains_secret_material (JObject [(''a'', JArray [JObject [(''API-Key'', JNull)]])]) 0 = Inr True"
  by code_simp

lemma demo_hash: "valid_sha256 (zero_digest [])"
  by code_simp

lemma demo_load:
  "load_document demo_document_codec demo_coordinator ProjectConfig ''p'' (Some demo_document)
     = Inr (Some (demo_stored ProjectConfig ''p'' demo_document))"
proof -
  have "json_depth (pd_body demo_document) \<le> 64" "as_object (pd_body demo_document) \<noteq> None"
    "pd_schema_version demo_document = 1"
    by (simp_all add: demo_document_def)
  then show ?thesis
    using demo_hash unfolding load_document_ok validate_stored_document_ok validate_document_ok
    by (simp add: demo_coordinator_def demo_document_port_def demo_stored_def demo_document_codec_def
        MAX_DOCUMENT_BYTES_def demo_document_keys zero_digest_def)
qed

theorem documents_secret_free_witness:
  "filter secret_key (json_keys (pd_body demo_document)) = []
   \<and> load_document demo_document_codec demo_coordinator ProjectConfig ''p''
       (Some (demo_document\<lparr>pd_body := JObject [(''a'', JArray [JObject [(''API-Key'', JNull)]])]\<rparr>)) = Inl PjInvalidDocument"
  (is "_ \<and> load_document _ _ _ _ (Some ?d) = _")
proof -
  have "validate_document demo_document_codec ?d = Inl PjInvalidDocument"
    by (simp add: validate_document_def demo_secret demo_document_codec_def demo_document_def SUPPORTED_DOCUMENT_SCHEMA_def
        MAX_DOCUMENT_BYTES_def del: contains_secret_material.simps)
  then have "load_document demo_document_codec demo_coordinator ProjectConfig ''p'' (Some ?d) = Inl PjInvalidDocument"
    using demo_hash by (simp add: load_document_def pj_document_port_def demo_coordinator_def demo_document_port_def
        demo_stored_def validate_stored_document_def)
  with documents_secret_free [OF demo_load] show ?thesis
    by (simp add: demo_stored_def)
qed

text \<open>
  Exporting a document and importing the bytes elsewhere saves the same document: when the
  parser reads back what the canonical printer wrote and the bytes are within the size bound, no
  validation refuses them and the store receives exactly the exported document.
\<close>

theorem export_import_roundtrip:
  assumes "export_document cd c kind i store = Inr bytes"
    and "\<And>d b. dc_jcs cd d = Some b \<Longrightarrow> b \<noteq> [] \<and> dc_from_slice cd b = Some d"
    and "length bytes \<le> MAX_DOCUMENT_BYTES" and "pj_documents c' = Some port"
  shows "\<exists>stored. load_document cd c kind i store = Inr (Some stored)
    \<and> (case dp_save port kind' i' v (sd_document stored) store' of
         (Inl e, s) \<Rightarrow> import_document cd c' kind' i' v bytes store' = (Inl (project_error_of_port e), s)
       | (Inr saved, s) \<Rightarrow> import_document cd c' kind' i' v bytes store' =
           (bind_r (validate_stored_document cd kind' i' saved) (\<lambda>_. Inr saved), s))"
proof -
  from assms(1) obtain stored where load: "load_document cd c kind i store = Inr (Some stored)"
    and jcs: "dc_jcs cd (sd_document stored) = Some bytes"
    by (auto simp: export_document_def bind_r_Inr ok_or_Inr)
  from load have ok: "validate_document cd (sd_document stored) = Inr ()"
    unfolding load_document_ok validate_stored_document_ok by blast
  from assms(2) [OF jcs] assms(3) have "import_document cd c' kind' i' v bytes store' =
      save_document cd c' kind' i' v (sd_document stored) store'"
    by (simp add: import_document_def)
  with load show ?thesis
    by (auto simp: save_document_def ok pj_document_port_def assms(4) split: prod.splits sum.splits)
qed

theorem export_import_roundtrip_witness:
  "import_document demo_document_codec demo_coordinator WorkflowDocument ''q'' None ''{}'' None
     = (Inr (demo_stored WorkflowDocument ''q'' demo_document), Some demo_document)"
proof -
  have export: "export_document demo_document_codec demo_coordinator ProjectConfig ''p'' (Some demo_document) = Inr ''{}''"
    unfolding export_document_def demo_load by (simp add: demo_stored_def demo_document_codec_def)
  have port: "pj_documents demo_coordinator = Some demo_document_port"
    by (simp add: demo_coordinator_def)
  have "\<exists>stored. load_document demo_document_codec demo_coordinator ProjectConfig ''p'' (Some demo_document) = Inr (Some stored)
    \<and> (case dp_save demo_document_port WorkflowDocument ''q'' None (sd_document stored) None of
         (Inl e, s) \<Rightarrow> import_document demo_document_codec demo_coordinator WorkflowDocument ''q'' None ''{}'' None = (Inl (project_error_of_port e), s)
       | (Inr saved, s) \<Rightarrow> import_document demo_document_codec demo_coordinator WorkflowDocument ''q'' None ''{}'' None =
           (bind_r (validate_stored_document demo_document_codec WorkflowDocument ''q'' saved) (\<lambda>_. Inr saved), s))"
    by (rule export_import_roundtrip [OF export _ _ port]) (auto simp: demo_document_codec_def MAX_DOCUMENT_BYTES_def split: if_splits)
  moreover have "validate_stored_document demo_document_codec WorkflowDocument ''q'' (demo_stored WorkflowDocument ''q'' demo_document) = Inr ()"
    using demo_load unfolding load_document_ok validate_stored_document_ok by (auto simp: demo_stored_def)
  ultimately show ?thesis
    unfolding demo_load by (simp add: demo_document_port_def demo_stored_def)
qed

end
