(* ===== verification/Extension.thy ===== *)
theory Extension
  imports Plan
begin

text \<open>
  The metadata trusted extensions are described by
  (\<open>crates/aworkit-protocol/src/extension.rs\<close>): capability descriptors, manifests, inventory
  records, host handshakes and attestations, exact requirements and their resolution, and the
  canonical hashes of descriptors, handshakes and attested sets.
\<close>

section \<open>Descriptors and manifests\<close>

definition EXTENSION_MANIFEST_SCHEMA_V1 :: u16 where
  "EXTENSION_MANIFEST_SCHEMA_V1 = 1"

definition EXTENSION_HOST_PROTOCOL_V1 :: u16 where
  "EXTENSION_HOST_PROTOCOL_V1 = 1"

datatype capability_kind =
    CkShell | CkPython | CkModel | CkFileRead | CkFileSearch | CkFileList | CkFileGrep | CkFileEdit
  | CkFileWrite | CkWebSearch | CkWebFetch | CkTodo | CkGoal | CkAskUser | CkBrowse | CkSubagent
  | CkMcp | CkPlugin | CkExternalAgent | CkIsolation

datatype capability_side_effect = SePure | SeReadOnly | SeIdempotentWrite | SeNonIdempotent | SeUnknown

datatype capability_visibility = Mediated | Opaque | TrustedDesktopUser

record capability_descriptor =
  cd_capability_id :: stable_id
  cd_adapter_version :: string
  cd_kind :: capability_kind
  cd_side_effect :: capability_side_effect
  cd_guarantees_same_id_deduplication :: bool
  cd_supports_streaming :: bool
  cd_supports_cancellation :: bool
  cd_supports_continuation :: bool
  cd_supports_sessions :: bool
  cd_supports_approval_forwarding :: bool
  cd_supports_mcp_forwarding :: bool
  cd_allowed_scopes :: "string list"
  cd_secret_slots :: "string list"
  cd_input_schema_hash :: "string option"
  cd_output_schema_hash :: "string option"
  cd_requires_workspace :: bool
  cd_required_isolation :: "string option"
  cd_maximum_concurrency :: u32
  cd_max_input_bytes :: u64
  cd_max_output_bytes :: u64
  cd_supported_platforms :: "string list"
  cd_visibility :: capability_visibility
  cd_descriptor_hash :: string

record extension_contribution =
  xc_contribution_id :: stable_id
  xc_descriptor :: capability_descriptor

record extension_dependency =
  xd_extension_id :: stable_id
  xd_minimum_version :: string
  xd_maximum_version_exclusive :: "string option"

record extension_provenance =
  xp_source :: string
  xp_publisher :: "string option"
  xp_signature_status :: string
  xp_signature_identity :: "string option"

record extension_compatibility_range =
  xcr_minimum_aworkit_version :: string
  xcr_maximum_aworkit_version_exclusive :: "string option"
  xcr_minimum_host_protocol :: u16
  xcr_maximum_host_protocol :: u16

record extension_manifest =
  xm_schema_version :: u16
  xm_identity :: extension_identity
  xm_compatibility :: extension_compatibility_range
  xm_entry_point_identity :: string
  xm_configuration_schema_hash :: "string option"
  xm_contributions :: "extension_contribution list"
  xm_dependencies :: "extension_dependency list"
  xm_provenance :: extension_provenance

record inert_extension_candidate =
  ic_manifest :: extension_manifest
  ic_observed_content_hash :: string
  ic_observed_entry_point_identity :: "string option"

section \<open>Inventory records\<close>

datatype extension_integrity_status =
    XiUnverified
  | XiVerified
  | XiMissingEntryPoint
  | XiEntryPointIdentityMismatch
  | XiContentHashMismatch
  | XiMalformedManifest string

datatype extension_compatibility_status =
    XcUnchecked
  | XcCompatible string u16
  | XcIncompatible string string string u16

record extension_quarantine =
  xq_code :: string
  xq_message :: string

record host_extension_handshake =
  hs_host_id :: stable_id
  hs_host_generation :: process_generation
  hs_host_protocol :: u16
  hs_identity :: extension_identity
  hs_entry_point_identity :: string
  hs_healthy :: bool
  hs_contributions :: "extension_contribution list"
  hs_handshake_hash :: string

record host_extension_attestation =
  at_host_id :: stable_id
  at_host_generation :: process_generation
  at_host_protocol :: u16
  at_handshake_hash :: string
  at_descriptor_set_hash :: string
  at_dependency_snapshot_hash :: string

record extension_record =
  er_manifest :: extension_manifest
  er_installed :: bool
  er_enabled :: bool
  er_integrity :: extension_integrity_status
  er_compatibility :: extension_compatibility_status
  er_quarantine :: "extension_quarantine option"
  er_record_version :: u64
  er_last_attestation :: "host_extension_attestation option"

definition er_identity :: "extension_record \<Rightarrow> extension_identity" where
  "er_identity r = xm_identity (er_manifest r)"

datatype extension_audit_kind =
    AkRegistered | AkEnablementChanged | AkIntegrityEvaluated | AkCompatibilityEvaluated
  | AkQuarantined | AkAttested | AkRemoved

record extension_inventory_write =
  iw_operation_id :: stable_id
  iw_expected_version :: "u64 option"
  iw_record :: extension_record
  iw_audit_kind :: extension_audit_kind
  iw_detail :: string

record extension_audit_entry =
  ae_sequence :: u64
  ae_operation_id :: stable_id
  ae_identity :: extension_identity
  ae_record_version :: u64
  ae_kind :: extension_audit_kind
  ae_prior_record_hash :: "string option"
  ae_record_hash :: string
  ae_detail :: string
  ae_record :: extension_record

record inventory_port_error =
  ipe_code :: string
  ipe_message :: string
  ipe_retryable :: bool
  ipe_inspectable_read_only :: bool

section \<open>Requirements, pins and attested sets\<close>

record extension_requirement =
  rq_extension_id :: stable_id
  rq_contribution_id :: stable_id
  rq_exact_version :: string
  rq_exact_content_hash :: string

record pinned_extension_contribution =
  pin_identity :: extension_identity
  pin_contribution :: extension_contribution
  pin_host_id :: stable_id
  pin_host_generation :: process_generation
  pin_handshake_hash :: string

definition runtime_binding :: "pinned_extension_contribution \<Rightarrow> extension_runtime_binding" where
  "runtime_binding p =
     \<lparr>erb_identity = pin_identity p, erb_contribution_id = xc_contribution_id (pin_contribution p),
      erb_host_id = pin_host_id p, erb_host_generation = pin_host_generation p,
      erb_handshake_hash = pin_handshake_hash p\<rparr>"

datatype extension_resolution =
    ResResolved pinned_extension_contribution
  | ResMissing
  | ResDisabled extension_identity
  | ResIncompatible extension_identity string string
  | ResDrifted string string "extension_identity list"
  | ResQuarantined extension_identity string string
  | ResUnattested extension_identity process_generation

record attested_extension =
  ax_identity :: extension_identity
  ax_handshake_hash :: string
  ax_contributions :: "extension_contribution list"

record attested_extension_set =
  as_host_id :: stable_id
  as_host_generation :: process_generation
  as_host_protocol :: u16
  as_extensions :: "attested_extension list"
  as_set_hash :: string

section \<open>Canonical hashes\<close>

datatype extension_protocol_error = XpEncoding

text \<open>\<open>serde_jcs::to_vec\<close> on the three hashed values, and SHA-256.\<close>

record extension_codec =
  xk_jcs_descriptor :: "capability_descriptor \<Rightarrow> string option"
  xk_jcs_handshake :: "host_extension_handshake \<Rightarrow> string option"
  xk_jcs_set :: "attested_extension_set \<Rightarrow> string option"
  xk_sha :: digest

definition sorted_dedup :: "'a::linorder list \<Rightarrow> 'a list" where
  "sorted_dedup xs = remdups_adj (sort xs)"

definition normalize_descriptor :: "capability_descriptor \<Rightarrow> capability_descriptor" where
  "normalize_descriptor d =
     d\<lparr>cd_allowed_scopes := sorted_dedup (cd_allowed_scopes d),
       cd_secret_slots := sorted_dedup (cd_secret_slots d),
       cd_supported_platforms := sorted_dedup (cd_supported_platforms d)\<rparr>"

definition canonical_hash :: "extension_codec \<Rightarrow> string option \<Rightarrow> extension_protocol_error + string" where
  "canonical_hash c encoded = bind_r (ok_or encoded XpEncoding) (\<lambda>bytes. Inr (''sha256:'' @ xk_sha c bytes))"

definition capability_descriptor_hash :: "extension_codec \<Rightarrow> capability_descriptor \<Rightarrow> extension_protocol_error + string" where
  "capability_descriptor_hash c d =
     canonical_hash c (xk_jcs_descriptor c (normalize_descriptor (d\<lparr>cd_descriptor_hash := []\<rparr>)))"

definition normalize_contribution :: "extension_contribution \<Rightarrow> extension_contribution" where
  "normalize_contribution x = x\<lparr>xc_descriptor := normalize_descriptor (xc_descriptor x)\<rparr>"

definition host_extension_handshake_hash ::
  "extension_codec \<Rightarrow> host_extension_handshake \<Rightarrow> extension_protocol_error + string" where
  "host_extension_handshake_hash c h =
     canonical_hash c (xk_jcs_handshake c (h\<lparr>hs_handshake_hash := [],
       hs_contributions := map normalize_contribution (sort_key xc_contribution_id (hs_contributions h))\<rparr>))"

text \<open>The derived order of \<open>ExtensionIdentityV1\<close> compares its fields in turn.\<close>

definition identity_key :: "extension_identity \<Rightarrow> string \<times> string \<times> string" where
  "identity_key i = (ei_extension_id i, ei_version i, ei_content_hash i)"

definition normalize_attested_extension :: "attested_extension \<Rightarrow> attested_extension" where
  "normalize_attested_extension x =
     x\<lparr>ax_contributions := map normalize_contribution (sort_key xc_contribution_id (ax_contributions x))\<rparr>"

definition attested_extension_set_hash ::
  "extension_codec \<Rightarrow> attested_extension_set \<Rightarrow> extension_protocol_error + string" where
  "attested_extension_set_hash c s =
     canonical_hash c (xk_jcs_set c (s\<lparr>as_set_hash := [],
       as_extensions := map normalize_attested_extension
         (sort_key (\<lambda>x. (identity_key (ax_identity x), ax_handshake_hash x)) (as_extensions s))\<rparr>))"

section \<open>Laws\<close>

lemma identity_key_inj: "identity_key a = identity_key b \<longleftrightarrow> a = b"
  by (cases a; cases b) (auto simp: identity_key_def)

lemma set_sorted_dedup [simp]: "set (sorted_dedup xs) = set xs"
  by (simp add: sorted_dedup_def)

lemma sorted_distinct_remdups_adj: "sorted xs \<Longrightarrow> sorted_wrt (<) (remdups_adj xs)"
  by (induction xs rule: remdups_adj.induct) (auto simp: less_le)

lemma swf_sorted_dedup [simp]: "swf (sorted_dedup xs)"
  by (simp add: sorted_dedup_def swf_def sorted_distinct_remdups_adj)

lemma sorted_dedup_id: "swf xs \<Longrightarrow> sorted_dedup xs = xs"
  by (rule swf_ext) simp_all

lemma canonical_hash_ok:
  assumes "hex_digest (xk_sha c)" and "canonical_hash c encoded = Inr h"
  shows "is_canonical_sha256 h"
proof -
  from assms(2) obtain bytes where h: "h = ''sha256:'' @ xk_sha c bytes"
    by (auto simp: canonical_hash_def bind_r_Inr)
  from assms(1) have "length (xk_sha c bytes) = 64" "list_all is_lower_hexdigit (xk_sha c bytes)"
    by (auto simp: hex_digest_def list_all_iff)
  with h show ?thesis
    by (simp add: is_canonical_sha256_def)
qed

lemma normalize_descriptor_hash [simp]:
  "capability_descriptor_hash c (normalize_descriptor d) = capability_descriptor_hash c d"
proof -
  have "normalize_descriptor ((normalize_descriptor d)\<lparr>cd_descriptor_hash := []\<rparr>) =
      normalize_descriptor (d\<lparr>cd_descriptor_hash := []\<rparr>)"
    by (simp add: normalize_descriptor_def sorted_dedup_id)
  then show ?thesis
    by (simp add: capability_descriptor_hash_def)
qed

lemma normalize_contribution_id [simp]:
  "xc_contribution_id (normalize_contribution x) = xc_contribution_id x"
  "cd_capability_id (normalize_descriptor d) = cd_capability_id d"
  by (simp_all add: normalize_contribution_def normalize_descriptor_def)

section \<open>The inventory port\<close>

text \<open>
  What \<open>ExtensionInventoryPort\<close> promises the registry: a read that does not fail returns the stored
  facts, one record for each exact identity; a write either fails and changes nothing, is a repetition and changes
  nothing, or stores its record under compare-and-swap of the version without changing the manifest.
\<close>

definition swap_allowed :: "extension_record option \<Rightarrow> extension_inventory_write \<Rightarrow> bool" where
  "swap_allowed current w =
     (case current of
        None \<Rightarrow> iw_expected_version w = None \<and> er_record_version (iw_record w) = 1
      | Some r \<Rightarrow> iw_expected_version w = Some (er_record_version r)
          \<and> er_record_version (iw_record w) = saturating_add (er_record_version r) 1
          \<and> er_manifest (iw_record w) = er_manifest r)"

locale inventory_store =
  fixes load :: "extension_identity \<Rightarrow> 'i \<Rightarrow> inventory_port_error + extension_record option"
    and listing :: "stable_id option \<Rightarrow> 'i \<Rightarrow> inventory_port_error + extension_record list"
    and store :: "extension_inventory_write \<Rightarrow> 'i \<Rightarrow> (inventory_port_error + extension_record) \<times> 'i"
    and facts :: "'i \<Rightarrow> extension_identity \<Rightarrow> extension_record option"
    and ok :: "'i \<Rightarrow> bool"
  assumes load_facts: "ok s \<Longrightarrow> load i s = Inr x \<Longrightarrow> x = facts s i"
    and list_facts: "ok s \<Longrightarrow> listing e s = Inr rs \<Longrightarrow> distinct (map er_identity rs)
        \<and> (\<forall>r. r \<in> set rs \<longleftrightarrow> facts s (er_identity r) = Some r
             \<and> (e = None \<or> e = Some (ei_extension_id (er_identity r))))"
    and facts_identity: "ok s \<Longrightarrow> facts s i = Some r \<Longrightarrow> er_identity r = i"
    and store_error: "store w s = (Inl failure, s') \<Longrightarrow> s' = s"
    and store_ok: "ok s \<Longrightarrow> store w s = (Inr r, s') \<Longrightarrow> ok s' \<and> (s' = s
        \<or> r = iw_record w \<and> swap_allowed (facts s (er_identity r)) w
          \<and> facts s' = (facts s)(er_identity r := Some r))"
begin

lemma store_any: "ok s \<Longrightarrow> store w s = (x, s') \<Longrightarrow> ok s' \<and> (s' = s
    \<or> swap_allowed (facts s (er_identity (iw_record w))) w
      \<and> facts s' = (facts s)(er_identity (iw_record w) := Some (iw_record w)))"
  by (cases x) (auto dest: store_error store_ok)

lemma list_iff:
  "ok s \<Longrightarrow> listing e s = Inr rs \<Longrightarrow>
     r \<in> set rs \<longleftrightarrow> facts s (er_identity r) = Some r \<and> (e = None \<or> e = Some (ei_extension_id (er_identity r)))"
  using list_facts by blast

text \<open>A record once stored stays, with its manifest; its version never decreases.\<close>

lemma manifest_immutable:
  assumes "(\<lambda>s t. \<exists>w x. store w s = (x, t))\<^sup>*\<^sup>* s t" and "ok s" and "facts s i = Some r"
  shows "ok t \<and> (\<exists>r'. facts t i = Some r' \<and> er_manifest r' = er_manifest r \<and> er_record_version r \<le> er_record_version r')"
  using assms(1)
proof (induction rule: rtranclp_induct)
  case base
  with assms show ?case by auto
next
  case (step t u)
  then obtain r' w x where t: "ok t" "facts t i = Some r'" "er_manifest r' = er_manifest r"
      "er_record_version r \<le> er_record_version r'" and w: "store w t = (x, u)"
    by blast
  have sat: "v \<le> saturating_add v 1" for v :: u64
    using saturating_succ [of v] by (auto simp: word_le_nat_alt)
  have le: "er_record_version r \<le> saturating_add (er_record_version r') 1"
    using t(4) sat by (rule order_trans)
  from store_any [OF t(1) w] t facts_identity [OF t(1,2)] le show ?case
    by (auto simp: swap_allowed_def)
qed

end

end
