(* ===== verification/Authority.thy ===== *)
theory Authority
  imports Project Extension
begin

text \<open>
  Frozen capability authority (\<open>crates/aworkit-trusted-core/src/authority.rs\<close>): both snapshot
  freezers, the graph and snapshot hashes, validation of bindings and budgets, and the approval
  engine that consumes grants.
\<close>

section \<open>Data\<close>

datatype approval_requirement = ArNever | ArPerInvocation

record capability_binding =
  cb_capability_id :: stable_id
  cb_adapter_version :: string
  cb_enabled :: bool
  cb_compatible :: bool
  cb_approval :: approval_requirement

record authority_manifest =
  am_manifest_id :: stable_id
  am_capability_bindings :: "capability_binding list"
  am_summary :: string

record snapshot_request =
  sr_chat_id :: stable_id
  sr_workflow_id :: stable_id
  sr_workflow_version :: u64
  sr_workflow_hash :: string
  sr_workspace :: workspace_binding
  sr_capability_bindings :: "capability_binding list"

record frozen_run_snapshot =
  fs_chat_id :: stable_id
  fs_workflow_id :: stable_id
  fs_workflow_version :: u64
  fs_workflow_hash :: string
  fs_workspace :: workspace_binding
  fs_authority :: authority_manifest
  fs_snapshot_hash :: string

datatype snapshot_error =
    SnWorkspace project_error
  | SnNoCapabilities
  | SnUnresolvedBinding
  | SnDuplicateCapability
  | SnEncoding

record capability_binding_v1 =
  bv_capability_id :: stable_id
  bv_adapter_id :: stable_id
  bv_adapter_version :: string
  bv_descriptor_hash :: string
  bv_extension :: "extension_runtime_binding option"
  bv_required_isolation_profile :: "string option"
  bv_enabled :: bool
  bv_compatible :: bool
  bv_approval :: approval_requirement
  bv_allowed_node_types :: "string list"

record authority_manifest_v1 =
  mv_manifest_id :: stable_id
  mv_manifest_hash :: string
  mv_capability_bindings :: "capability_binding_v1 list"
  mv_summary :: string

record snapshot_request_v1 =
  rv_snapshot_id :: stable_id
  rv_chat_id :: stable_id
  rv_run_id :: stable_id
  rv_workflow_hash :: string
  rv_nodes :: "worker_node list"
  rv_transitions :: "worker_transition list"
  rv_entry_nodes :: "stable_id list"
  rv_loop_descriptors :: "worker_loop_descriptor list"
  rv_join_descriptors :: "worker_join_descriptor list"
  rv_route_rules :: "worker_route_rule list"
  rv_workspace :: workspace_binding_v1
  rv_capability_bindings :: "capability_binding_v1 list"
  rv_budget :: worker_budget
  rv_history_mode :: history_backend

datatype snapshot_error_v1 =
    SvWorkspace project_error
  | SvWorkflowHashMismatch
  | SvDuplicateCapability
  | SvInvalidCapability stable_id
  | SvNodeCapabilityMissing stable_id
  | SvUnresolvedCapability stable_id
  | SvNodeTypeDenied stable_id
  | SvInvalidBudget
  | SvEncoding

type_synonym workflow_graph =
  "worker_node list \<times> worker_transition list \<times> stable_id list \<times> worker_loop_descriptor list
     \<times> worker_join_descriptor list \<times> worker_route_rule list"

text \<open>\<open>serde_jcs::to_vec\<close> on the hashed values; the snapshot encoder and SHA-256 are the worker's.\<close>

record authority_codec =
  ac_jcs_legacy :: "string \<times> string \<times> u64 \<times> string \<times> workspace_identity \<times> capability_binding list \<Rightarrow> string option"
  ac_jcs_bindings :: "capability_binding_v1 list \<Rightarrow> string option"
  ac_jcs_graph :: "workflow_graph \<Rightarrow> string option"
  ac_jcs_snapshot :: "worker_frozen_run_snapshot \<Rightarrow> string option"
  ac_sha :: digest

section \<open>The first freezer\<close>

fun adjacent_equal :: "'a list \<Rightarrow> bool" where
  "adjacent_equal (x # y # zs) = (x = y \<or> adjacent_equal (y # zs))"
| "adjacent_equal _ = False"

definition approval_count :: "('b \<Rightarrow> approval_requirement) \<Rightarrow> 'b list \<Rightarrow> nat" where
  "approval_count approval bs = length (filter (\<lambda>b. approval b = ArPerInvocation) bs)"

definition freeze :: "fs_port \<Rightarrow> authority_codec \<Rightarrow> snapshot_request \<Rightarrow> snapshot_error + frozen_run_snapshot" where
  "freeze fs c q =
     (case revalidate_workspace fs (sr_workspace q) of
        Inl e \<Rightarrow> Inl (SnWorkspace e)
      | Inr _ \<Rightarrow>
          if sr_capability_bindings q = [] then Inl SnNoCapabilities
          else if list_ex (\<lambda>b. \<not> cb_enabled b \<or> \<not> cb_compatible b) (sr_capability_bindings q)
          then Inl SnUnresolvedBinding
          else
            (let bindings = sort_key cb_capability_id (sr_capability_bindings q) in
             if adjacent_equal (map cb_capability_id bindings) then Inl SnDuplicateCapability
             else bind_r (ok_or (ac_jcs_legacy c (sr_chat_id q, sr_workflow_id q, sr_workflow_version q,
                    sr_workflow_hash q, wsb_identity (sr_workspace q), bindings)) SnEncoding) (\<lambda>canonical.
               let digest = ac_sha c canonical in
               case stable_id_parse (''manifest.'' @ take 24 digest) of
                 Inl _ \<Rightarrow> Inl SnEncoding
               | Inr manifest_id \<Rightarrow>
                   Inr \<lparr>fs_chat_id = sr_chat_id q, fs_workflow_id = sr_workflow_id q,
                        fs_workflow_version = sr_workflow_version q, fs_workflow_hash = sr_workflow_hash q,
                        fs_workspace = sr_workspace q,
                        fs_authority = \<lparr>am_manifest_id = manifest_id, am_capability_bindings = bindings,
                          am_summary = show_nat (length bindings) @ '' frozen capability binding(s); ''
                            @ show_nat (approval_count cb_approval bindings) @ '' require per-invocation approval''\<rparr>,
                        fs_snapshot_hash = digest\<rparr>)))"

section \<open>Bindings and budgets\<close>

definition from_extension_pin ::
  "pinned_extension_contribution \<Rightarrow> approval_requirement \<Rightarrow> string list \<Rightarrow> capability_binding_v1" where
  "from_extension_pin pin approval allowed_node_types =
     \<lparr>bv_capability_id = cd_capability_id (xc_descriptor (pin_contribution pin)),
      bv_adapter_id = xc_contribution_id (pin_contribution pin),
      bv_adapter_version = cd_adapter_version (xc_descriptor (pin_contribution pin)),
      bv_descriptor_hash = cd_descriptor_hash (xc_descriptor (pin_contribution pin)),
      bv_extension = Some (runtime_binding pin),
      bv_required_isolation_profile = cd_required_isolation (xc_descriptor (pin_contribution pin)),
      bv_enabled = True, bv_compatible = True, bv_approval = approval,
      bv_allowed_node_types = allowed_node_types\<rparr>"

definition frozen_execution_binding :: "capability_binding_v1 \<Rightarrow> frozen_capability_binding" where
  "frozen_execution_binding b =
     \<lparr>fcb_capability_id = bv_capability_id b, fcb_adapter_id = bv_adapter_id b,
      fcb_adapter_version = bv_adapter_version b, fcb_descriptor_hash = bv_descriptor_hash b,
      fcb_extension = bv_extension b, fcb_required_isolation_profile = bv_required_isolation_profile b\<rparr>"

definition invalid_extension :: "capability_binding_v1 \<Rightarrow> bool" where
  "invalid_extension b =
     (case bv_extension b of
        None \<Rightarrow> False
      | Some e \<Rightarrow> erb_host_generation e = 0 \<or> erb_contribution_id e \<noteq> bv_adapter_id b
          \<or> trim_is_empty (ei_version (erb_identity e)) \<or> 128 < length (ei_version (erb_identity e))
          \<or> \<not> is_canonical_sha256 (ei_content_hash (erb_identity e)) \<or> \<not> is_canonical_sha256 (erb_handshake_hash e))"

definition invalid_isolation :: "capability_binding_v1 \<Rightarrow> bool" where
  "invalid_isolation b =
     (case bv_required_isolation_profile b of
        None \<Rightarrow> False
      | Some profile \<Rightarrow> profile = [] \<or> 256 < length profile \<or> \<not> is_trimmed profile \<or> has_control profile)"

definition core_validate_binding :: "capability_binding_v1 \<Rightarrow> snapshot_error_v1 + unit" where
  "core_validate_binding b =
     (if \<not> bv_enabled b \<or> \<not> bv_compatible b \<or> trim_is_empty (bv_adapter_version b)
         \<or> 128 < length (bv_adapter_version b) \<or> \<not> is_canonical_sha256 (bv_descriptor_hash b)
         \<or> invalid_extension b \<or> invalid_isolation b
         \<or> list_ex (\<lambda>t. t = [] \<or> 128 < length t \<or> has_control t) (bv_allowed_node_types b)
      then Inl (SvInvalidCapability (bv_capability_id b)) else Inr ())"

definition validate_budget :: "worker_budget \<Rightarrow> snapshot_error_v1 + unit" where
  "validate_budget b =
     (if wb_turns b = 0 \<or> wb_attempts b = 0 \<or> wb_actions b = 0 \<or> 64 < wb_depth b \<or> 1024 < wb_fanout b
         \<or> wb_parallel b = 0 \<or> max (wb_fanout b) 1 < wb_parallel b \<or> wb_deadline_ms b = 0
      then Inl SvInvalidBudget else Inr ())"

section \<open>Hashes\<close>

definition route_order :: "worker_route_rule \<Rightarrow> string \<times> int \<times> string" where
  "route_order r = (wr_node_id r, wr_priority r, wr_route_id r)"

definition workflow_graph_hash ::
  "authority_codec \<Rightarrow> worker_node list \<Rightarrow> worker_transition list \<Rightarrow> stable_id list \<Rightarrow> worker_loop_descriptor list
    \<Rightarrow> worker_join_descriptor list \<Rightarrow> worker_route_rule list \<Rightarrow> snapshot_error_v1 + string" where
  "workflow_graph_hash c nodes transitions entry_nodes loops joins routes =
     bind_r (ok_or (ac_jcs_graph c
       (map canonicalize_node (sort_key wn_node_id nodes), sort_key wt_transition_id transitions, sort entry_nodes,
        sort_key ld_loop_id loops, sort_key jd_join_id joins, sort_key route_order routes)) SvEncoding)
       (\<lambda>bytes. Inr (ac_sha c bytes))"

definition snapshot_hash :: "authority_codec \<Rightarrow> worker_frozen_run_snapshot \<Rightarrow> snapshot_error_v1 + string" where
  "snapshot_hash c s =
     bind_r (ok_or (ac_jcs_snapshot c
       (s\<lparr>ws_snapshot_hash := [],
          ws_nodes := map canonicalize_node (sort_key wn_node_id (ws_nodes s)),
          ws_transitions := sort_key wt_transition_id (ws_transitions s),
          ws_entry_nodes := sort (ws_entry_nodes s),
          ws_loop_descriptors := sort_key ld_loop_id (ws_loop_descriptors s),
          ws_join_descriptors := sort_key jd_join_id (ws_join_descriptors s),
          ws_route_rules := sort_key wr_route_id (ws_route_rules s),
          ws_capability_bindings := sort_key fcb_capability_id (ws_capability_bindings s),
          ws_capability_refs := sort (ws_capability_refs s)\<rparr>)) SvEncoding)
       (\<lambda>bytes. Inr (ac_sha c bytes))"

section \<open>The current freezer\<close>

fun freeze_bindings ::
  "capability_binding_v1 list \<Rightarrow> string list \<Rightarrow> snapshot_error_v1 + capability_binding_v1 list" where
  "freeze_bindings [] seen = Inr []"
| "freeze_bindings (b # bs) seen =
     (let b' = b\<lparr>bv_allowed_node_types := sorted_dedup (bv_allowed_node_types b)\<rparr> in
      if bv_capability_id b \<in> set seen then Inl SvDuplicateCapability
      else bind_r (core_validate_binding b') (\<lambda>_.
           bind_r (freeze_bindings bs (sinsert (bv_capability_id b) seen)) (\<lambda>rest. Inr (b' # rest))))"

definition check_node :: "(string, capability_binding_v1) bmap \<Rightarrow> worker_node \<Rightarrow> snapshot_error_v1 + unit" where
  "check_node bindings node =
     (case wn_capability_ref node of
        Some capability \<Rightarrow>
          if wn_executor node \<in> {ExBrokered, ExModel, ExAgent} then
            (case bget bindings capability of
               None \<Rightarrow> Inl (SvUnresolvedCapability capability)
             | Some b \<Rightarrow>
                 if bv_allowed_node_types b \<noteq> [] \<and> wn_node_type node \<notin> set (bv_allowed_node_types b)
                 then Inl (SvNodeTypeDenied (wn_node_id node)) else Inr ())
          else if \<not> bcontains bindings capability then Inl (SvUnresolvedCapability capability)
          else Inr ()
      | None \<Rightarrow>
          if wn_executor node \<in> {ExBrokered, ExModel, ExAgent} then Inl (SvNodeCapabilityMissing (wn_node_id node))
          else Inr ())"

text \<open>\<open>serde_json::to_value\<close> on the workspace identity.\<close>

definition identity_to_value :: "workspace_identity_v1 \<Rightarrow> json" where
  "identity_to_value i =
     JObject [(''canonicalPath'', JString (wiv_canonical_path i)),
              (''filesystemObjectId'', JString (wiv_filesystem_object_id i)),
              (''platform'', JString (wiv_platform i))]"

definition build_manifest :: "stable_id \<Rightarrow> string \<Rightarrow> capability_binding_v1 list \<Rightarrow> authority_manifest_v1" where
  "build_manifest manifest_id manifest_hash bindings =
     \<lparr>mv_manifest_id = manifest_id, mv_manifest_hash = manifest_hash, mv_capability_bindings = bindings,
      mv_summary = show_nat (length bindings) @ '' exact capability binding(s); ''
        @ show_nat (approval_count bv_approval bindings) @ '' require per-invocation approval''\<rparr>"

definition build_snapshot ::
  "snapshot_request_v1 \<Rightarrow> stable_id \<Rightarrow> string \<Rightarrow> capability_binding_v1 list \<Rightarrow> worker_frozen_run_snapshot" where
  "build_snapshot q manifest_id manifest_hash bindings =
     \<lparr>ws_snapshot_id = rv_snapshot_id q, ws_snapshot_hash = [], ws_chat_id = rv_chat_id q, ws_run_id = rv_run_id q,
      ws_schema_version = 1, ws_compiler_version = ''aworkit-worker-v1'', ws_workflow_hash = rv_workflow_hash q,
      ws_nodes = rv_nodes q, ws_transitions = rv_transitions q, ws_entry_nodes = rv_entry_nodes q,
      ws_loop_descriptors = rv_loop_descriptors q, ws_join_descriptors = rv_join_descriptors q,
      ws_route_rules = rv_route_rules q, ws_authority_manifest_ref = manifest_id,
      ws_authority_manifest_hash = manifest_hash,
      ws_capability_bindings = map frozen_execution_binding bindings,
      ws_capability_refs = map bv_capability_id bindings,
      ws_workspace_identity = identity_to_value (wbv_identity (rv_workspace q)),
      ws_budget = rv_budget q, ws_history_mode = rv_history_mode q\<rparr>"

definition seal_snapshot ::
  "authority_codec \<Rightarrow> snapshot_request_v1 \<Rightarrow> capability_binding_v1 list \<Rightarrow>
   snapshot_error_v1 + worker_frozen_run_snapshot \<times> authority_manifest_v1" where
  "seal_snapshot c q bindings =
     bind_r (ok_or (ac_jcs_bindings c bindings) SvEncoding) (\<lambda>bytes.
     let manifest_hash = ac_sha c bytes in
     case stable_id_parse (''manifest.'' @ take 32 manifest_hash) of
       Inl _ \<Rightarrow> Inl SvEncoding
     | Inr manifest_id \<Rightarrow>
         (let snapshot = build_snapshot q manifest_id manifest_hash bindings in
          bind_r (snapshot_hash c snapshot) (\<lambda>hash.
          Inr (snapshot\<lparr>ws_snapshot_hash := hash\<rparr>, build_manifest manifest_id manifest_hash bindings))))"

definition freeze_v1 ::
  "fs_port \<Rightarrow> authority_codec \<Rightarrow> snapshot_request_v1 \<Rightarrow> snapshot_error_v1 + worker_frozen_run_snapshot \<times> authority_manifest_v1" where
  "freeze_v1 fs c q =
     (case revalidate_workspace_v1 fs (rv_workspace q) of
        Inl e \<Rightarrow> Inl (SvWorkspace e)
      | Inr _ \<Rightarrow>
          bind_r (validate_budget (rv_budget q)) (\<lambda>_.
          bind_r (workflow_graph_hash c (rv_nodes q) (rv_transitions q) (rv_entry_nodes q) (rv_loop_descriptors q)
                    (rv_join_descriptors q) (rv_route_rules q)) (\<lambda>calculated.
          if rv_workflow_hash q \<noteq> calculated then Inl SvWorkflowHashMismatch
          else bind_r (freeze_bindings (sort_key bv_capability_id (rv_capability_bindings q)) []) (\<lambda>bindings.
               bind_r (try_all (check_node (bmap_of_list (map (\<lambda>b. (bv_capability_id b, b)) bindings))) (rv_nodes q)) (\<lambda>_.
               seal_snapshot c q bindings)))))"

section \<open>Approval grants\<close>

record approval_grant =
  ag_approval_id :: stable_id
  ag_invocation_id :: stable_id
  ag_authority_manifest_ref :: stable_id
  ag_expires_at_tick :: u64
  ag_constraints :: json

datatype approval_decision =
    AdNotRequired
  | AdApproved stable_id
  | AdRequired
  | AdDenied
  | AdExpired
  | AdAlreadyConsumed

record approval_engine =
  en_consumed :: "string list"
  en_denied_invocations :: "string list"

definition engine_default :: approval_engine where
  "engine_default = \<lparr>en_consumed = [], en_denied_invocations = []\<rparr>"

definition engine_deny :: "stable_id \<Rightarrow> approval_engine \<Rightarrow> approval_engine" where
  "engine_deny invocation_id e = e\<lparr>en_denied_invocations := sinsert invocation_id (en_denied_invocations e)\<rparr>"

definition engine_authorize ::
  "capability_binding_v1 \<Rightarrow> authority_manifest_v1 \<Rightarrow> stable_id \<Rightarrow> u64 \<Rightarrow> approval_grant option \<Rightarrow> approval_engine
    \<Rightarrow> approval_decision \<times> approval_engine" where
  "engine_authorize binding manifest invocation_id current_tick grant e =
     (if invocation_id \<in> set (en_denied_invocations e) then (AdDenied, e)
      else if bv_approval binding = ArNever then (AdNotRequired, e)
      else case grant of
        None \<Rightarrow> (AdRequired, e)
      | Some g \<Rightarrow>
          if ag_invocation_id g \<noteq> invocation_id \<or> ag_authority_manifest_ref g \<noteq> mv_manifest_id manifest
          then (AdDenied, e)
          else if ag_expires_at_tick g \<le> current_tick then (AdExpired, e)
          else if ag_approval_id g \<in> set (en_consumed e) then (AdAlreadyConsumed, e)
          else (AdApproved (ag_approval_id g), e\<lparr>en_consumed := sinsert (ag_approval_id g) (en_consumed e)\<rparr>))"

end
