(* ===== verification/Broker.thy ===== *)
theory Broker
  imports Authority
begin

text \<open>
  The invocation broker (\<open>crates/aworkit-trusted-core/src/broker.rs\<close>): proposals, approvals,
  dispatch and settlement over an append-only ledger port. Every operation of the broker and the
  ledger kept in memory are modelled.
\<close>

section \<open>Data\<close>

record worker_proposal =
  wp_proposal_id :: stable_id
  wp_capability_id :: stable_id
  wp_payload_hash :: string

datatype invocation_decision = IdDenied | IdAwaitingApproval | IdApproved stable_id

record invocation_proposal =
  ip_proposal_id :: stable_id
  ip_run_id :: stable_id
  ip_node_id :: stable_id
  ip_attempt :: u32
  ip_capability_id :: stable_id
  ip_payload_hash :: string

record approval_challenge =
  ch_invocation_id :: stable_id
  ch_nonce :: stable_id
  ch_expires_epoch_millis :: u64
  ch_capability_id :: stable_id

record approval_response =
  rs_invocation_id :: stable_id
  rs_nonce :: stable_id
  rs_approved :: bool
  rs_now_epoch_millis :: u64

record approved_dispatch =
  ad_invocation_id :: stable_id
  ad_proposal_id :: stable_id
  ad_capability_id :: stable_id
  ad_payload_hash :: string
  ad_manifest_id :: stable_id
  ad_lease_ids :: "stable_id list"

datatype broker_decision =
    BdDenied
  | BdAwaitingApproval approval_challenge
  | BdDispatchReady approved_dispatch
  | BdAlreadySettled string

datatype ledger_event =
    EvProposed stable_id invocation_proposal stable_id
  | EvApprovalRequested approval_challenge
  | EvApprovalRejected stable_id string
  | EvAuthorized approved_dispatch
  | EvDispatchAttempted stable_id
  | EvDispatchAccepted stable_id
  | EvProgressCommitted stable_id u64 string
  | EvSettled stable_id string bool

record dispatch_outbox =
  do_outbox_id :: stable_id
  do_dispatch :: approved_dispatch

record worker_result_outbox =
  wo_outbox_id :: stable_id
  wo_invocation_id :: stable_id
  wo_outcome_hash :: string
  wo_uncertain :: bool

datatype delivery_acceptance = DaAccepted | DaAlreadyAccepted | DaRejectedDefinitelyNotStarted | DaAmbiguous

datatype broker_error =
    BrUnavailable
  | BrCommitFailed
  | BrIdentityConflict
  | BrUnknownInvocation
  | BrInvalidApproval
  | BrStaleManifest
  | BrNotAuthorized
  | BrAlreadySettled
  | BrNotAccepted
  | BrNotAttempted
  | BrProgressSequence
  | BrIncompleteState
  | BrDispatchRejected
  | BrAmbiguousDispatch
  | BrWorkerDeliveryRejected
  | BrAmbiguousWorkerDelivery
  | BrDuplicateLease
  | BrLeaseRollbackFailed

section \<open>Ports\<close>

text \<open>The ledger port over its durable state, and the lease issuer over the rest of the world.\<close>

record 'l ledger_port =
  lp_append_atomic :: "ledger_event list \<Rightarrow> dispatch_outbox option \<Rightarrow> 'l \<Rightarrow> (broker_error + unit) \<times> 'l"
  lp_events :: "stable_id \<Rightarrow> 'l \<Rightarrow> broker_error + ledger_event list"
  lp_pending_dispatches :: "'l \<Rightarrow> broker_error + dispatch_outbox list"
  lp_mark_dispatch_delivered :: "stable_id \<Rightarrow> 'l \<Rightarrow> (broker_error + unit) \<times> 'l"
  lp_append_settlement_atomic :: "ledger_event \<Rightarrow> worker_result_outbox \<Rightarrow> 'l \<Rightarrow> (broker_error + unit) \<times> 'l"
  lp_pending_worker_results :: "'l \<Rightarrow> broker_error + worker_result_outbox list"
  lp_mark_worker_result_delivered :: "stable_id \<Rightarrow> 'l \<Rightarrow> (broker_error + unit) \<times> 'l"

record 'x lease_port =
  ls_issue_for_dispatch ::
    "invocation_proposal \<Rightarrow> authority_manifest \<Rightarrow> stable_id \<Rightarrow> 'x \<Rightarrow> (broker_error + stable_id list) \<times> 'x"
  ls_revoke_uncommitted :: "stable_id list \<Rightarrow> 'x \<Rightarrow> (broker_error + unit) \<times> 'x"

text \<open>
  The world a call of the broker acts on: the ledger, everything behind the other ports, and the
  trace of the dispatches handed to a host. The host port acts on the whole world, since a host may
  call the broker again while it dispatches: a subagent tool runs its own tools inside its dispatch.
\<close>

record ('l, 'x) broker_world =
  bw_ledger :: 'l
  bw_env :: 'x
  bw_dispatched :: "approved_dispatch list"

type_synonym ('l, 'x, 'a) brokered = "('l, 'x) broker_world \<Rightarrow> (broker_error + 'a) \<times> ('l, 'x) broker_world"

type_synonym ('l, 'x) host_port = "approved_dispatch \<Rightarrow> ('l, 'x, delivery_acceptance) brokered"

record ('l, 'x) invocation_broker =
  ib_ledger :: "'l ledger_port"
  ib_lease_port :: "'x lease_port option"
  ib_approval_ttl_millis :: u64
  ib_sha :: digest

definition then_w :: "('l, 'x, 'a) brokered \<Rightarrow> ('a \<Rightarrow> ('l, 'x, 'b) brokered) \<Rightarrow> ('l, 'x, 'b) brokered" where
  "then_w m f w = (case m w of (Inl e, w') \<Rightarrow> (Inl e, w') | (Inr a, w') \<Rightarrow> f a w')"

definition of_r :: "broker_error + 'a \<Rightarrow> ('l, 'x, 'a) brokered" where
  "of_r r w = (r, w)"

definition on_ledger :: "('l \<Rightarrow> (broker_error + 'a) \<times> 'l) \<Rightarrow> ('l, 'x, 'a) brokered" where
  "on_ledger f w = (case f (bw_ledger w) of (r, l) \<Rightarrow> (r, w\<lparr>bw_ledger := l\<rparr>))"

definition on_env :: "('x \<Rightarrow> (broker_error + 'a) \<times> 'x) \<Rightarrow> ('l, 'x, 'a) brokered" where
  "on_env f w = (case f (bw_env w) of (r, x) \<Rightarrow> (r, w\<lparr>bw_env := x\<rparr>))"

definition append_events :: "('l, 'x) invocation_broker \<Rightarrow> ledger_event list \<Rightarrow> dispatch_outbox option \<Rightarrow> ('l, 'x, unit) brokered" where
  "append_events b es ob = on_ledger (lp_append_atomic (ib_ledger b) es ob)"

definition read_events :: "('l, 'x) invocation_broker \<Rightarrow> stable_id \<Rightarrow> ('l, 'x, ledger_event list) brokered" where
  "read_events b i w = (lp_events (ib_ledger b) i (bw_ledger w), w)"

definition call_host :: "('l, 'x) host_port \<Rightarrow> ('l, 'x) host_port" where
  "call_host host d w = host d (w\<lparr>bw_dispatched := bw_dispatched w @ [d]\<rparr>)"

section \<open>Identifiers and the recorded history\<close>

text \<open>The prefix and half a digest always form a stable identifier, so \<open>expect\<close> does not panic.\<close>

definition stable_digest_id :: "digest \<Rightarrow> string \<Rightarrow> string \<Rightarrow> stable_id" where
  "stable_digest_id sha prefix input = prefix @ ''.'' @ take 32 (sha input)"

definition invocation_id_of :: "digest \<Rightarrow> stable_id \<Rightarrow> stable_id" where
  "invocation_id_of sha proposal_id = stable_digest_id sha ''invoke'' proposal_id"

definition approval_nonce :: "digest \<Rightarrow> stable_id \<Rightarrow> stable_id \<Rightarrow> stable_id" where
  "approval_nonce sha proposal_id manifest_id = stable_digest_id sha ''approval'' (proposal_id @ '':'' @ manifest_id)"

definition outcome_hash :: "digest \<Rightarrow> string \<Rightarrow> string" where
  "outcome_hash sha reason = ''sha256:'' @ sha reason"

definition HOST_DISPATCH_DEFINITELY_NOT_STARTED_REASON :: string where
  "HOST_DISPATCH_DEFINITELY_NOT_STARTED_REASON = ''host_dispatch_definitely_not_started''"

definition is_definitely_not_started_settlement :: "digest \<Rightarrow> string \<Rightarrow> bool \<Rightarrow> bool" where
  "is_definitely_not_started_settlement sha settlement_hash uncertain \<longleftrightarrow>
     \<not> uncertain \<and> settlement_hash = outcome_hash sha HOST_DISPATCH_DEFINITELY_NOT_STARTED_REASON"

fun event_invocation_id :: "ledger_event \<Rightarrow> stable_id" where
  "event_invocation_id (EvProposed i p m) = i"
| "event_invocation_id (EvApprovalRequested ch) = ch_invocation_id ch"
| "event_invocation_id (EvApprovalRejected i reason) = i"
| "event_invocation_id (EvAuthorized d) = ad_invocation_id d"
| "event_invocation_id (EvDispatchAttempted i) = i"
| "event_invocation_id (EvDispatchAccepted i) = i"
| "event_invocation_id (EvProgressCommitted i n h) = i"
| "event_invocation_id (EvSettled i h u) = i"

text \<open>The \<open>find_map\<close>s and \<open>any\<close>s over the history of one invocation.\<close>

fun find_proposed :: "ledger_event list \<Rightarrow> (invocation_proposal \<times> stable_id) option" where
  "find_proposed [] = None"
| "find_proposed (EvProposed i p m # es) = Some (p, m)"
| "find_proposed (e # es) = find_proposed es"

fun find_challenge :: "ledger_event list \<Rightarrow> approval_challenge option" where
  "find_challenge [] = None"
| "find_challenge (EvApprovalRequested ch # es) = Some ch"
| "find_challenge (e # es) = find_challenge es"

fun find_authorized :: "ledger_event list \<Rightarrow> approved_dispatch option" where
  "find_authorized [] = None"
| "find_authorized (EvAuthorized d # es) = Some d"
| "find_authorized (e # es) = find_authorized es"

fun find_settled :: "ledger_event list \<Rightarrow> (string \<times> bool) option" where
  "find_settled [] = None"
| "find_settled (EvSettled i h u # es) = Some (h, u)"
| "find_settled (e # es) = find_settled es"

fun find_progress :: "u64 \<Rightarrow> ledger_event list \<Rightarrow> string option" where
  "find_progress n [] = None"
| "find_progress n (EvProgressCommitted i k h # es) = (if k = n then Some h else find_progress n es)"
| "find_progress n (e # es) = find_progress n es"

fun progress_sequences :: "ledger_event list \<Rightarrow> u64 list" where
  "progress_sequences [] = []"
| "progress_sequences (EvProgressCommitted i n h # es) = n # progress_sequences es"
| "progress_sequences (e # es) = progress_sequences es"

fun is_rejected :: "ledger_event \<Rightarrow> bool" where
  "is_rejected (EvApprovalRejected i r) = True"
| "is_rejected e = False"

fun is_attempted :: "ledger_event \<Rightarrow> bool" where
  "is_attempted (EvDispatchAttempted i) = True"
| "is_attempted e = False"

fun is_accepted :: "ledger_event \<Rightarrow> bool" where
  "is_accepted (EvDispatchAccepted i) = True"
| "is_accepted e = False"

definition proposed_identity :: "ledger_event list \<Rightarrow> broker_error + invocation_proposal \<times> stable_id" where
  "proposed_identity events = ok_or (find_proposed events) BrUnknownInvocation"

definition verify_proposal_identity ::
  "ledger_event list \<Rightarrow> invocation_proposal \<Rightarrow> stable_id \<Rightarrow> broker_error + unit" where
  "verify_proposal_identity events proposal manifest_id =
     bind_r (proposed_identity events) (\<lambda>(stored, stored_manifest).
     if stored = proposal \<and> stored_manifest = manifest_id then Inr () else Inl BrIdentityConflict)"

definition replay_decision :: "ledger_event list \<Rightarrow> broker_error + broker_decision" where
  "replay_decision events =
     (case find_settled events of
        Some (h, _) \<Rightarrow> Inr (BdAlreadySettled h)
      | None \<Rightarrow>
          case find_authorized events of
            Some d \<Rightarrow> Inr (BdDispatchReady d)
          | None \<Rightarrow>
              if list_ex is_rejected events then Inr BdDenied
              else case find_challenge events of
                Some ch \<Rightarrow> Inr (BdAwaitingApproval ch)
              | None \<Rightarrow> Inl BrIncompleteState)"

definition require_authorized :: "ledger_event list \<Rightarrow> broker_error + unit" where
  "require_authorized events = (if find_authorized events \<noteq> None then Inr () else Inl BrNotAuthorized)"

section \<open>Deciding proposals\<close>

text \<open>\<open>InvocationBroker::decide\<close>, the stateless helper.\<close>

definition invocation_decide :: "digest \<Rightarrow> authority_manifest \<Rightarrow> worker_proposal \<Rightarrow> bool \<Rightarrow> invocation_decision" where
  "invocation_decide sha manifest proposal approved =
     (case find (\<lambda>b. cb_capability_id b = wp_capability_id proposal \<and> cb_enabled b \<and> cb_compatible b)
             (am_capability_bindings manifest) of
        None \<Rightarrow> IdDenied
      | Some binding \<Rightarrow>
          if cb_approval binding = ArPerInvocation \<and> \<not> approved then IdAwaitingApproval
          else IdApproved (invocation_id_of sha (wp_proposal_id proposal)))"

definition broker_new :: "'l ledger_port \<Rightarrow> digest \<Rightarrow> u64 \<Rightarrow> ('l, 'x) invocation_broker" where
  "broker_new ledger sha approval_ttl_millis =
     \<lparr>ib_ledger = ledger, ib_lease_port = None, ib_approval_ttl_millis = max approval_ttl_millis 1, ib_sha = sha\<rparr>"

definition with_lease_port :: "'x lease_port \<Rightarrow> ('l, 'x) invocation_broker \<Rightarrow> ('l, 'x) invocation_broker" where
  "with_lease_port port b = b\<lparr>ib_lease_port := Some port\<rparr>"

definition issue_leases ::
  "('l, 'x) invocation_broker \<Rightarrow> invocation_proposal \<Rightarrow> authority_manifest \<Rightarrow> stable_id \<Rightarrow> ('l, 'x, stable_id list) brokered" where
  "issue_leases b proposal manifest i =
     (case ib_lease_port b of
        Some port \<Rightarrow> on_env (ls_issue_for_dispatch port proposal manifest i)
      | None \<Rightarrow> of_r (Inr []))"

definition revoke_leases :: "('l, 'x) invocation_broker \<Rightarrow> stable_id list \<Rightarrow> ('l, 'x, unit) brokered" where
  "revoke_leases b lease_ids =
     (case ib_lease_port b of
        Some port \<Rightarrow> on_env (ls_revoke_uncommitted port lease_ids)
      | None \<Rightarrow> of_r (Inr ()))"

definition commit_authorized :: "('l, 'x) invocation_broker \<Rightarrow> approved_dispatch \<Rightarrow> ('l, 'x, broker_decision) brokered" where
  "commit_authorized b dispatch w =
     (let outbox = \<lparr>do_outbox_id = stable_digest_id (ib_sha b) ''dispatch'' (ad_invocation_id dispatch), do_dispatch = dispatch\<rparr> in
      case append_events b [EvAuthorized dispatch] (Some outbox) w of
        (Inr _, w') \<Rightarrow> (Inr (BdDispatchReady dispatch), w')
      | (Inl e, w') \<Rightarrow>
          (case revoke_leases b (ad_lease_ids dispatch) w' of
             (Inl _, w'') \<Rightarrow> (Inl BrLeaseRollbackFailed, w'')
           | (Inr _, w'') \<Rightarrow> (Inl e, w'')))"

definition broker_authorize ::
  "('l, 'x) invocation_broker \<Rightarrow> authority_manifest \<Rightarrow> invocation_proposal \<Rightarrow> ('l, 'x, broker_decision) brokered" where
  "broker_authorize b manifest proposal =
     (case find (\<lambda>c. cb_capability_id c = ip_capability_id proposal) (am_capability_bindings manifest) of
        None \<Rightarrow> of_r (Inl BrNotAuthorized)
      | Some binding \<Rightarrow>
          if \<not> cb_enabled binding \<or> \<not> cb_compatible binding then of_r (Inl BrNotAuthorized)
          else
            (let i = invocation_id_of (ib_sha b) (ip_proposal_id proposal) in
             then_w (issue_leases b proposal manifest i) (\<lambda>issued.
             let lease_ids = sort issued in
             if adjacent_equal lease_ids
             then (\<lambda>w. (Inl BrDuplicateLease, snd (revoke_leases b lease_ids w)))
             else commit_authorized b
               \<lparr>ad_invocation_id = i, ad_proposal_id = ip_proposal_id proposal, ad_capability_id = ip_capability_id proposal,
                ad_payload_hash = ip_payload_hash proposal, ad_manifest_id = am_manifest_id manifest,
                ad_lease_ids = lease_ids\<rparr>)))"

definition decide_after_proposed ::
  "('l, 'x) invocation_broker \<Rightarrow> authority_manifest \<Rightarrow> invocation_proposal \<Rightarrow> u64 \<Rightarrow> ('l, 'x, broker_decision) brokered" where
  "decide_after_proposed b manifest proposal now_epoch_millis =
     (let i = invocation_id_of (ib_sha b) (ip_proposal_id proposal) in
      case find (\<lambda>c. cb_capability_id c = ip_capability_id proposal \<and> cb_enabled c \<and> cb_compatible c)
             (am_capability_bindings manifest) of
        None \<Rightarrow> then_w (append_events b [EvApprovalRejected i ''authority_denied''] None) (\<lambda>_. of_r (Inr BdDenied))
      | Some binding \<Rightarrow>
          if cb_approval binding = ArPerInvocation then
            then_w (of_r (ok_or (checked_add now_epoch_millis (ib_approval_ttl_millis b)) BrInvalidApproval)) (\<lambda>expires.
            let challenge = \<lparr>ch_invocation_id = i,
                  ch_nonce = approval_nonce (ib_sha b) (ip_proposal_id proposal) (am_manifest_id manifest),
                  ch_expires_epoch_millis = expires, ch_capability_id = ip_capability_id proposal\<rparr> in
            then_w (append_events b [EvApprovalRequested challenge] None) (\<lambda>_. of_r (Inr (BdAwaitingApproval challenge))))
          else broker_authorize b manifest proposal)"

definition propose ::
  "('l, 'x) invocation_broker \<Rightarrow> authority_manifest \<Rightarrow> invocation_proposal \<Rightarrow> u64 \<Rightarrow> ('l, 'x, broker_decision) brokered" where
  "propose b manifest proposal now_epoch_millis =
     (let i = invocation_id_of (ib_sha b) (ip_proposal_id proposal) in
      then_w (read_events b i) (\<lambda>existing.
      if existing \<noteq> [] then
        then_w (of_r (verify_proposal_identity existing proposal (am_manifest_id manifest))) (\<lambda>_.
        case replay_decision existing of
          Inr decision \<Rightarrow> of_r (Inr decision)
        | Inl e \<Rightarrow>
            if e = BrIncompleteState then decide_after_proposed b manifest proposal now_epoch_millis
            else of_r (Inl e))
      else
        then_w (append_events b [EvProposed i proposal (am_manifest_id manifest)] None) (\<lambda>_.
        decide_after_proposed b manifest proposal now_epoch_millis)))"

text \<open>What an earlier decision answers to a response: \<open>None\<close> while the approval is open.\<close>

fun replayed_response :: "broker_error + broker_decision \<Rightarrow> bool \<Rightarrow> (broker_error + broker_decision) option" where
  "replayed_response (Inl e) approved = None"
| "replayed_response (Inr (BdDispatchReady d)) approved =
     Some (if approved then Inr (BdDispatchReady d) else Inl BrIdentityConflict)"
| "replayed_response (Inr (BdAlreadySettled h)) approved =
     Some (if approved then Inr (BdAlreadySettled h) else Inl BrIdentityConflict)"
| "replayed_response (Inr BdDenied) approved = Some (if approved then Inl BrIdentityConflict else Inr BdDenied)"
| "replayed_response (Inr (BdAwaitingApproval ch)) approved = None"

definition answer_challenge ::
  "('l, 'x) invocation_broker \<Rightarrow> authority_manifest \<Rightarrow> approval_response \<Rightarrow> invocation_proposal \<Rightarrow> approval_challenge
    \<Rightarrow> ('l, 'x, broker_decision) brokered" where
  "answer_challenge b manifest response proposal challenge =
     (if ch_nonce challenge \<noteq> rs_nonce response then of_r (Inl BrInvalidApproval)
      else if ch_expires_epoch_millis challenge \<le> rs_now_epoch_millis response then
        then_w (append_events b [EvApprovalRejected (rs_invocation_id response) ''approval_expired''] None)
          (\<lambda>_. of_r (Inr BdDenied))
      else if \<not> rs_approved response then
        then_w (append_events b [EvApprovalRejected (rs_invocation_id response) ''user_rejected''] None)
          (\<lambda>_. of_r (Inr BdDenied))
      else broker_authorize b manifest proposal)"

definition broker_resolve_approval ::
  "('l, 'x) invocation_broker \<Rightarrow> authority_manifest \<Rightarrow> approval_response \<Rightarrow> ('l, 'x, broker_decision) brokered" where
  "broker_resolve_approval b manifest response =
     then_w (read_events b (rs_invocation_id response)) (\<lambda>events.
     then_w (of_r (proposed_identity events)) (\<lambda>(proposal, stored_manifest).
     if stored_manifest \<noteq> am_manifest_id manifest then of_r (Inl BrStaleManifest)
     else
       then_w (of_r (ok_or (find_challenge events) BrInvalidApproval)) (\<lambda>challenge.
       case replayed_response (replay_decision events) (rs_approved response) of
         Some r \<Rightarrow> of_r r
       | None \<Rightarrow> answer_challenge b manifest response proposal challenge)))"

section \<open>Acceptance, progress and settlement\<close>

definition accept_dispatch :: "('l, 'x) invocation_broker \<Rightarrow> stable_id \<Rightarrow> ('l, 'x, unit) brokered" where
  "accept_dispatch b i =
     then_w (read_events b i) (\<lambda>events.
     then_w (of_r (require_authorized events)) (\<lambda>_.
     if \<not> list_ex is_attempted events then of_r (Inl BrNotAttempted)
     else if list_ex is_accepted events then of_r (Inr ())
     else append_events b [EvDispatchAccepted i] None))"

definition commit_progress :: "('l, 'x) invocation_broker \<Rightarrow> stable_id \<Rightarrow> u64 \<Rightarrow> string \<Rightarrow> ('l, 'x, unit) brokered" where
  "commit_progress b i sequence payload_hash =
     then_w (read_events b i) (\<lambda>events.
     then_w (of_r (require_authorized events)) (\<lambda>_.
     if \<not> list_ex is_accepted events then of_r (Inl BrNotAccepted)
     else if find_settled events \<noteq> None then of_r (Inl BrAlreadySettled)
     else case find_progress sequence events of
       Some existing_hash \<Rightarrow> of_r (if existing_hash = payload_hash then Inr () else Inl BrIdentityConflict)
     | None \<Rightarrow>
         then_w (of_r (ok_or (checked_add (fold max (progress_sequences events) 0) 1) BrProgressSequence)) (\<lambda>next_sequence.
         if sequence \<noteq> next_sequence then of_r (Inl BrProgressSequence)
         else append_events b [EvProgressCommitted i sequence payload_hash] None)))"

definition append_settlement :: "('l, 'x) invocation_broker \<Rightarrow> stable_id \<Rightarrow> string \<Rightarrow> bool \<Rightarrow> ('l, 'x, unit) brokered" where
  "append_settlement b i outcome uncertain =
     on_ledger (lp_append_settlement_atomic (ib_ledger b) (EvSettled i outcome uncertain)
       \<lparr>wo_outbox_id = stable_digest_id (ib_sha b) ''result'' i, wo_invocation_id = i, wo_outcome_hash = outcome,
        wo_uncertain = uncertain\<rparr>)"

definition settle :: "('l, 'x) invocation_broker \<Rightarrow> stable_id \<Rightarrow> string \<Rightarrow> bool \<Rightarrow> ('l, 'x, unit) brokered" where
  "settle b i outcome uncertain =
     then_w (read_events b i) (\<lambda>events.
     then_w (of_r (require_authorized events)) (\<lambda>_.
     if \<not> list_ex is_accepted events then of_r (Inl BrNotAccepted)
     else case find_settled events of
       Some existing \<Rightarrow> of_r (if existing = (outcome, uncertain) then Inr () else Inl BrIdentityConflict)
     | None \<Rightarrow> append_settlement b i outcome uncertain))"

definition settle_unaccepted_dispatch :: "('l, 'x) invocation_broker \<Rightarrow> stable_id \<Rightarrow> string \<Rightarrow> bool \<Rightarrow> ('l, 'x, unit) brokered" where
  "settle_unaccepted_dispatch b i reason uncertain =
     then_w (read_events b i) (\<lambda>events.
     then_w (of_r (require_authorized events)) (\<lambda>_.
     case find_settled events of
       Some (existing_hash, existing_uncertain) \<Rightarrow>
         of_r (if existing_hash = outcome_hash (ib_sha b) reason \<and> existing_uncertain = uncertain
               then Inr () else Inl BrIdentityConflict)
     | None \<Rightarrow> append_settlement b i (outcome_hash (ib_sha b) reason) uncertain))"

section \<open>Delivery\<close>

definition mark_dispatch_delivered :: "('l, 'x) invocation_broker \<Rightarrow> stable_id \<Rightarrow> ('l, 'x, unit) brokered" where
  "mark_dispatch_delivered b outbox_id = on_ledger (lp_mark_dispatch_delivered (ib_ledger b) outbox_id)"

definition broker_pending_dispatches :: "('l, 'x) invocation_broker \<Rightarrow> ('l, 'x, dispatch_outbox list) brokered" where
  "broker_pending_dispatches b w = (lp_pending_dispatches (ib_ledger b) (bw_ledger w), w)"

definition finish_delivery ::
  "('l, 'x) invocation_broker \<Rightarrow> dispatch_outbox \<Rightarrow> ('l, 'x, unit) brokered \<Rightarrow> broker_error + bool \<Rightarrow> ('l, 'x, bool) brokered" where
  "finish_delivery b outbox act r =
     then_w act (\<lambda>_. then_w (mark_dispatch_delivered b (do_outbox_id outbox)) (\<lambda>_. of_r r))"

definition deliver_outbox ::
  "('l, 'x) invocation_broker \<Rightarrow> dispatch_outbox \<Rightarrow> ('l, 'x) host_port \<Rightarrow> ('l, 'x, bool) brokered" where
  "deliver_outbox b outbox host =
     (let i = ad_invocation_id (do_dispatch outbox) in
      then_w (read_events b i) (\<lambda>events.
      if find_settled events \<noteq> None \<or> list_ex is_accepted events then
        finish_delivery b outbox (of_r (Inr ())) (Inr True)
      else if list_ex is_attempted events then
        finish_delivery b outbox (settle_unaccepted_dispatch b i ''host_dispatch_recovery_uncertain'' True)
          (Inl BrAmbiguousDispatch)
      else
        then_w (append_events b [EvDispatchAttempted i] None) (\<lambda>_ w.
        case call_host host (do_dispatch outbox) w of
          (Inl e, w') \<Rightarrow>
            finish_delivery b outbox (settle_unaccepted_dispatch b i ''host_dispatch_transport_uncertain'' True) (Inl e) w'
        | (Inr acceptance, w') \<Rightarrow>
            (case acceptance of
               DaRejectedDefinitelyNotStarted \<Rightarrow>
                 finish_delivery b outbox
                   (settle_unaccepted_dispatch b i HOST_DISPATCH_DEFINITELY_NOT_STARTED_REASON False) (Inl BrDispatchRejected) w'
             | DaAmbiguous \<Rightarrow>
                 finish_delivery b outbox (settle_unaccepted_dispatch b i ''host_dispatch_acceptance_uncertain'' True)
                   (Inl BrAmbiguousDispatch) w'
             | _ \<Rightarrow> finish_delivery b outbox (accept_dispatch b i) (Inr True) w'))))"

fun deliver_each ::
  "('l, 'x) invocation_broker \<Rightarrow> ('l, 'x) host_port \<Rightarrow> dispatch_outbox list \<Rightarrow> usize \<Rightarrow> ('l, 'x, usize) brokered" where
  "deliver_each b host [] delivered = of_r (Inr delivered)"
| "deliver_each b host (outbox # rest) delivered =
     then_w (deliver_outbox b outbox host) (\<lambda>now. deliver_each b host rest (if now then delivered + 1 else delivered))"

definition deliver_dispatches :: "('l, 'x) invocation_broker \<Rightarrow> ('l, 'x) host_port \<Rightarrow> ('l, 'x, usize) brokered" where
  "deliver_dispatches b host = then_w (broker_pending_dispatches b) (\<lambda>pending. deliver_each b host pending 0)"

definition deliver_pending_dispatch_for ::
  "('l, 'x) invocation_broker \<Rightarrow> stable_id \<Rightarrow> ('l, 'x) host_port \<Rightarrow> ('l, 'x, bool) brokered" where
  "deliver_pending_dispatch_for b i host =
     then_w (broker_pending_dispatches b) (\<lambda>pending.
     case find (\<lambda>outbox. ad_invocation_id (do_dispatch outbox) = i) pending of
       None \<Rightarrow> of_r (Inr False)
     | Some outbox \<Rightarrow> deliver_outbox b outbox host)"

fun deliver_results ::
  "('l, 'x) invocation_broker \<Rightarrow> (worker_result_outbox \<Rightarrow> 'x \<Rightarrow> (broker_error + delivery_acceptance) \<times> 'x)
    \<Rightarrow> worker_result_outbox list \<Rightarrow> usize \<Rightarrow> ('l, 'x, usize) brokered" where
  "deliver_results b worker [] delivered = of_r (Inr delivered)"
| "deliver_results b worker (outbox # rest) delivered =
     then_w (on_env (worker outbox)) (\<lambda>acceptance.
     case acceptance of
       DaRejectedDefinitelyNotStarted \<Rightarrow> of_r (Inl BrWorkerDeliveryRejected)
     | DaAmbiguous \<Rightarrow> of_r (Inl BrAmbiguousWorkerDelivery)
     | _ \<Rightarrow> then_w (on_ledger (lp_mark_worker_result_delivered (ib_ledger b) (wo_outbox_id outbox))) (\<lambda>_.
            deliver_results b worker rest (delivered + 1)))"

definition deliver_worker_results ::
  "('l, 'x) invocation_broker \<Rightarrow> (worker_result_outbox \<Rightarrow> 'x \<Rightarrow> (broker_error + delivery_acceptance) \<times> 'x)
    \<Rightarrow> ('l, 'x, usize) brokered" where
  "deliver_worker_results b worker w =
     (case lp_pending_worker_results (ib_ledger b) (bw_ledger w) of
        Inl e \<Rightarrow> (Inl e, w)
      | Inr pending \<Rightarrow> deliver_results b worker pending 0 w)"

section \<open>The ledger in memory\<close>

record memory_ledger =
  ml_events :: "ledger_event list"
  ml_outbox :: "(string, dispatch_outbox \<times> bool) bmap"
  ml_worker_results :: "(string, worker_result_outbox \<times> bool) bmap"
  ml_fail_next :: bool

definition empty_ledger :: memory_ledger where
  "empty_ledger = \<lparr>ml_events = [], ml_outbox = [], ml_worker_results = [], ml_fail_next = False\<rparr>"

definition fail_next_write :: "memory_ledger \<Rightarrow> memory_ledger" where
  "fail_next_write l = l\<lparr>ml_fail_next := True\<rparr>"

definition memory_append_atomic ::
  "ledger_event list \<Rightarrow> dispatch_outbox option \<Rightarrow> memory_ledger \<Rightarrow> (broker_error + unit) \<times> memory_ledger" where
  "memory_append_atomic events outbox l =
     (if ml_fail_next l then (Inl BrCommitFailed, l\<lparr>ml_fail_next := False\<rparr>)
      else case outbox of
        None \<Rightarrow> (Inr (), l\<lparr>ml_events := ml_events l @ events\<rparr>)
      | Some ob \<Rightarrow>
          (case bget (ml_outbox l) (do_outbox_id ob) of
             Some (existing, _) \<Rightarrow>
               if existing \<noteq> ob then (Inl BrIdentityConflict, l)
               else (Inr (), l\<lparr>ml_events := ml_events l @ events\<rparr>)
           | None \<Rightarrow>
               (Inr (), l\<lparr>ml_events := ml_events l @ events,
                          ml_outbox := binsert (do_outbox_id ob) (ob, False) (ml_outbox l)\<rparr>)))"

definition memory_events :: "stable_id \<Rightarrow> memory_ledger \<Rightarrow> broker_error + ledger_event list" where
  "memory_events i l = Inr (filter (\<lambda>e. event_invocation_id e = i) (ml_events l))"

definition memory_pending_dispatches :: "memory_ledger \<Rightarrow> broker_error + dispatch_outbox list" where
  "memory_pending_dispatches l = Inr (map fst (filter (\<lambda>(_, delivered). \<not> delivered) (bvalues (ml_outbox l))))"

definition memory_mark_dispatch_delivered :: "stable_id \<Rightarrow> memory_ledger \<Rightarrow> (broker_error + unit) \<times> memory_ledger" where
  "memory_mark_dispatch_delivered outbox_id l =
     (case bget (ml_outbox l) outbox_id of
        None \<Rightarrow> (Inl BrUnknownInvocation, l)
      | Some (ob, _) \<Rightarrow> (Inr (), l\<lparr>ml_outbox := binsert outbox_id (ob, True) (ml_outbox l)\<rparr>))"

definition memory_append_settlement_atomic ::
  "ledger_event \<Rightarrow> worker_result_outbox \<Rightarrow> memory_ledger \<Rightarrow> (broker_error + unit) \<times> memory_ledger" where
  "memory_append_settlement_atomic event outbox l =
     (if ml_fail_next l then (Inl BrCommitFailed, l\<lparr>ml_fail_next := False\<rparr>)
      else case bget (ml_worker_results l) (wo_outbox_id outbox) of
        Some (existing, _) \<Rightarrow> if existing \<noteq> outbox then (Inl BrIdentityConflict, l) else (Inr (), l)
      | None \<Rightarrow>
          (Inr (), l\<lparr>ml_events := ml_events l @ [event],
                     ml_worker_results := binsert (wo_outbox_id outbox) (outbox, False) (ml_worker_results l)\<rparr>))"

definition memory_pending_worker_results :: "memory_ledger \<Rightarrow> broker_error + worker_result_outbox list" where
  "memory_pending_worker_results l = Inr (map fst (filter (\<lambda>(_, delivered). \<not> delivered) (bvalues (ml_worker_results l))))"

definition memory_mark_worker_result_delivered :: "stable_id \<Rightarrow> memory_ledger \<Rightarrow> (broker_error + unit) \<times> memory_ledger" where
  "memory_mark_worker_result_delivered outbox_id l =
     (case bget (ml_worker_results l) outbox_id of
        None \<Rightarrow> (Inl BrUnknownInvocation, l)
      | Some (ob, _) \<Rightarrow> (Inr (), l\<lparr>ml_worker_results := binsert outbox_id (ob, True) (ml_worker_results l)\<rparr>))"

definition memory_port :: "memory_ledger ledger_port" where
  "memory_port = \<lparr>lp_append_atomic = memory_append_atomic, lp_events = memory_events,
     lp_pending_dispatches = memory_pending_dispatches, lp_mark_dispatch_delivered = memory_mark_dispatch_delivered,
     lp_append_settlement_atomic = memory_append_settlement_atomic,
     lp_pending_worker_results = memory_pending_worker_results,
     lp_mark_worker_result_delivered = memory_mark_worker_result_delivered\<rparr>"

end
