(* ===== verification/Registry.thy ===== *)
theory Registry
  imports Extension "HOL-Library.Option_ord"
begin

text \<open>
  The trusted-extension registry (\<open>crates/aworkit-trusted-core/src/extensions.rs\<close>) over an
  inventory port: registration of inert metadata, enablement, quarantine, removal, compatibility,
  attestation of a host handshake, resolution of exact requirements and the attested set of a host
  generation. Semantic versions are a parsed, linearly ordered type \<open>'v\<close>.
\<close>

section \<open>Data\<close>

datatype registry_error =
    RgInvalidAworkitVersion
  | RgInvalidHostProtocol
  | RgInvalidManifest string
  | RgExactIdentityMutation
  | RgMissing
  | RgNotInstalled
  | RgIntegrityUnavailable
  | RgIncompatible
  | RgQuarantined string
  | RgDependencyUnavailable stable_id
  | RgDependencyAmbiguous stable_id
  | RgDependencyAttestationStale stable_id
  | RgDependencyCycle stable_id
  | RgDependencySnapshotEncoding
  | RgVersionConflict u64 u64
  | RgVersionExhausted
  | RgStaleHostGeneration u64 u64
  | RgAttestationRejected string
  | RgRequirementUnavailable string
  | RgInventory string string
  | RgProtocol extension_protocol_error
  | RgFuelExhausted

text \<open>
  \<open>RgFuelExhausted\<close> is not an error of the source: it marks a dependency walk cut off by the bound
  of the model, which \<open>snapshot_fuel_enough\<close> shows never happens.
\<close>

record dependency_attestation_fact =
  df_identity :: extension_identity
  df_record_version :: u64
  df_handshake_hash :: string
  df_descriptor_set_hash :: string
  df_dependency_snapshot_hash :: string

text \<open>
  The port the registry holds. \<open>ip_stored\<close> is not an operation of the source: it is the number of
  stored records, by which the model bounds the dependency walk.
\<close>

record 'i inventory_port =
  ip_load :: "extension_identity \<Rightarrow> 'i \<Rightarrow> inventory_port_error + extension_record option"
  ip_list :: "stable_id option \<Rightarrow> 'i \<Rightarrow> inventory_port_error + extension_record list"
  ip_write :: "extension_inventory_write \<Rightarrow> 'i \<Rightarrow> (inventory_port_error + extension_record) \<times> 'i"
  ip_stored :: "'i \<Rightarrow> nat"

text \<open>The registry with the port it holds, and the libraries: semver, serde_jcs, SHA-256.\<close>

record ('v, 'i) extension_registry =
  xr_inventory :: "'i inventory_port"
  xr_aworkit_version :: 'v
  xr_aworkit_version_text :: string
  xr_host_protocol :: u16
  xr_semver :: "string \<Rightarrow> 'v option"
  xr_codec :: extension_codec
  xr_jcs_facts :: "dependency_attestation_fact list \<Rightarrow> string option"

definition MAX_MANIFEST_CONTRIBUTIONS :: usize where
  "MAX_MANIFEST_CONTRIBUTIONS = 256"

definition MAX_MANIFEST_DEPENDENCIES :: usize where
  "MAX_MANIFEST_DEPENDENCIES = 256"

definition registry_new ::
  "'i inventory_port \<Rightarrow> (string \<Rightarrow> 'v option) \<Rightarrow> extension_codec \<Rightarrow> (dependency_attestation_fact list \<Rightarrow> string option)
    \<Rightarrow> string \<Rightarrow> u16 \<Rightarrow> registry_error + ('v, 'i) extension_registry" where
  "registry_new port semver codec jcs_facts version protocol =
     (if protocol = 0 then Inl RgInvalidHostProtocol
      else bind_r (ok_or (semver version) RgInvalidAworkitVersion) (\<lambda>parsed.
           Inr \<lparr>xr_inventory = port, xr_aworkit_version = parsed, xr_aworkit_version_text = version,
                xr_host_protocol = protocol, xr_semver = semver, xr_codec = codec, xr_jcs_facts = jcs_facts\<rparr>))"

section \<open>The port and versions\<close>

definition inventory_failure :: "inventory_port_error \<Rightarrow> registry_error" where
  "inventory_failure e = RgInventory (ipe_code e) (ipe_message e)"

definition is_dependency_unavailable :: "registry_error \<Rightarrow> bool" where
  "is_dependency_unavailable e =
     (case e of RgDependencyUnavailable _ \<Rightarrow> True | RgDependencyAmbiguous _ \<Rightarrow> True
      | RgDependencyAttestationStale _ \<Rightarrow> True | RgDependencyCycle _ \<Rightarrow> True | _ \<Rightarrow> False)"

definition rg_load ::
  "('v, 'i) extension_registry \<Rightarrow> extension_identity \<Rightarrow> 'i \<Rightarrow> registry_error + extension_record option" where
  "rg_load g i s = (case ip_load (xr_inventory g) i s of Inl e \<Rightarrow> Inl (inventory_failure e) | Inr r \<Rightarrow> Inr r)"

definition rg_list ::
  "('v, 'i) extension_registry \<Rightarrow> stable_id option \<Rightarrow> 'i \<Rightarrow> registry_error + extension_record list" where
  "rg_list g i s = (case ip_list (xr_inventory g) i s of Inl e \<Rightarrow> Inl (inventory_failure e) | Inr rs \<Rightarrow> Inr rs)"

definition rg_write ::
  "('v, 'i) extension_registry \<Rightarrow> extension_inventory_write \<Rightarrow> 'i \<Rightarrow> (registry_error + extension_record) \<times> 'i" where
  "rg_write g w s =
     (case ip_write (xr_inventory g) w s of
        (Inl e, s') \<Rightarrow> (Inl (inventory_failure e), s')
      | (Inr r, s') \<Rightarrow> (Inr r, s'))"

definition require_record ::
  "('v, 'i) extension_registry \<Rightarrow> extension_identity \<Rightarrow> 'i \<Rightarrow> registry_error + extension_record" where
  "require_record g i s = bind_r (rg_load g i s) (\<lambda>r. ok_or r RgMissing)"

definition ensure_expected_version :: "extension_record \<Rightarrow> u64 \<Rightarrow> registry_error + unit" where
  "ensure_expected_version r expected =
     (if er_record_version r = expected then Inr () else Inl (RgVersionConflict expected (er_record_version r)))"

definition next_version :: "u64 \<Rightarrow> registry_error + u64" where
  "next_version current = ok_or (checked_add current 1) RgVersionExhausted"

section \<open>Manifests\<close>

definition normalize_contributions :: "extension_contribution list \<Rightarrow> extension_contribution list" where
  "normalize_contributions xs =
     map normalize_contribution
       (sort_key (\<lambda>x. (xc_contribution_id x, cd_capability_id (xc_descriptor x))) xs)"

definition normalize_manifest :: "extension_manifest \<Rightarrow> extension_manifest" where
  "normalize_manifest m =
     m\<lparr>xm_contributions := normalize_contributions (xm_contributions m),
       xm_dependencies := sort_key (\<lambda>d. (xd_extension_id d, xd_minimum_version d, xd_maximum_version_exclusive d))
         (xm_dependencies m)\<rparr>"

definition validate_identity_key :: "extension_manifest \<Rightarrow> registry_error + unit" where
  "validate_identity_key m =
     (if ei_version (xm_identity m) = [] \<or> 128 < length (ei_version (xm_identity m))
         \<or> \<not> is_canonical_sha256 (ei_content_hash (xm_identity m))
      then Inl (RgInvalidManifest ''exact identity key'') else Inr ())"

definition valid_manifest_text :: "string \<Rightarrow> usize \<Rightarrow> bool" where
  "valid_manifest_text v maximum \<longleftrightarrow> v \<noteq> [] \<and> length v \<le> maximum \<and> CHR 0x00 \<notin> set v"

definition sorted_unique_text :: "string list \<Rightarrow> bool" where
  "sorted_unique_text vs \<longleftrightarrow> list_all (\<lambda>v. valid_manifest_text v 256) vs \<and> sorted_wrt (<) vs"

definition validate_descriptor :: "capability_descriptor \<Rightarrow> bool" where
  "validate_descriptor d \<longleftrightarrow> \<not> (cd_adapter_version d = [] \<or> 128 < length (cd_adapter_version d)
     \<or> cd_maximum_concurrency d = 0 \<or> cd_max_input_bytes d = 0 \<or> cd_max_output_bytes d = 0
     \<or> \<not> is_canonical_sha256 (cd_descriptor_hash d)
     \<or> \<not> sorted_unique_text (cd_allowed_scopes d) \<or> \<not> sorted_unique_text (cd_secret_slots d)
     \<or> \<not> sorted_unique_text (cd_supported_platforms d)
     \<or> (case cd_input_schema_hash d of None \<Rightarrow> False | Some h \<Rightarrow> \<not> is_canonical_sha256 h)
     \<or> (case cd_output_schema_hash d of None \<Rightarrow> False | Some h \<Rightarrow> \<not> is_canonical_sha256 h))"

definition descriptor_hash_matches :: "extension_codec \<Rightarrow> capability_descriptor \<Rightarrow> bool" where
  "descriptor_hash_matches c d =
     (case capability_descriptor_hash c d of Inr h \<Rightarrow> h = cd_descriptor_hash d | Inl _ \<Rightarrow> False)"

definition malformed_manifest :: "extension_codec \<Rightarrow> extension_manifest \<Rightarrow> bool" where
  "malformed_manifest c m \<longleftrightarrow>
     MAX_MANIFEST_CONTRIBUTIONS < length (xm_contributions m)
     \<or> MAX_MANIFEST_DEPENDENCIES < length (xm_dependencies m)
     \<or> length (bset_of_list (map (\<lambda>x. cd_capability_id (xc_descriptor x)) (xm_contributions m)))
         \<noteq> length (xm_contributions m)
     \<or> \<not> valid_manifest_text (xm_entry_point_identity m) 4096
     \<or> (case xm_configuration_schema_hash m of None \<Rightarrow> False | Some h \<Rightarrow> \<not> is_canonical_sha256 h)
     \<or> \<not> sorted_wrt (<) (map xc_contribution_id (xm_contributions m))
     \<or> list_ex (\<lambda>x. \<not> validate_descriptor (xc_descriptor x) \<or> \<not> descriptor_hash_matches c (xc_descriptor x))
         (xm_contributions m)"

definition evaluate_integrity :: "extension_codec \<Rightarrow> inert_extension_candidate \<Rightarrow> extension_integrity_status" where
  "evaluate_integrity c x =
     (if malformed_manifest c (ic_manifest x)
      then XiMalformedManifest ''manifest or contribution descriptor is malformed''
      else if \<not> is_canonical_sha256 (ic_observed_content_hash x)
              \<or> ic_observed_content_hash x \<noteq> ei_content_hash (xm_identity (ic_manifest x))
      then XiContentHashMismatch
      else case ic_observed_entry_point_identity x of
        None \<Rightarrow> XiMissingEntryPoint
      | Some observed \<Rightarrow>
          if observed \<noteq> xm_entry_point_identity (ic_manifest x) then XiEntryPointIdentityMismatch else XiVerified)"

fun integrity_message :: "extension_integrity_status \<Rightarrow> string" where
  "integrity_message XiUnverified = ''extension integrity is unverified''"
| "integrity_message XiVerified = ''extension integrity is verified''"
| "integrity_message XiMissingEntryPoint = ''extension entry point is missing''"
| "integrity_message XiEntryPointIdentityMismatch = ''extension entry-point identity changed''"
| "integrity_message XiContentHashMismatch = ''extension content hash changed''"
| "integrity_message (XiMalformedManifest _) = ''extension manifest is malformed''"

definition registration_quarantine ::
  "extension_integrity_status \<Rightarrow> extension_compatibility_status \<Rightarrow> extension_quarantine option" where
  "registration_quarantine integrity compatibility =
     (if integrity \<noteq> XiVerified
      then Some \<lparr>xq_code = ''integrity_failed'', xq_message = integrity_message integrity\<rparr>
      else case compatibility of
        XcIncompatible code message _ _ \<Rightarrow> Some \<lparr>xq_code = ''compatibility_'' @ code, xq_message = message\<rparr>
      | _ \<Rightarrow> None)"

definition evaluate_compatibility ::
  "('v::linorder, 'i) extension_registry \<Rightarrow> extension_manifest \<Rightarrow> extension_compatibility_status" where
  "evaluate_compatibility g m =
     (let incompatible = (\<lambda>code message. XcIncompatible code message (xr_aworkit_version_text g) (xr_host_protocol g));
          range = xm_compatibility m in
      if xm_schema_version m \<noteq> EXTENSION_MANIFEST_SCHEMA_V1
      then incompatible ''manifest_schema'' ''manifest schema is unsupported''
      else if xcr_minimum_host_protocol range = 0
              \<or> xcr_maximum_host_protocol range < xcr_minimum_host_protocol range
              \<or> xr_host_protocol g < xcr_minimum_host_protocol range
              \<or> xcr_maximum_host_protocol range < xr_host_protocol g
      then incompatible ''host_protocol'' ''host protocol is outside the declared range''
      else case xr_semver g (xcr_minimum_aworkit_version range) of
        None \<Rightarrow> incompatible ''aworkit_range'' ''minimum Aworkit version is invalid''
      | Some minimum \<Rightarrow>
          (case (case xcr_maximum_aworkit_version_exclusive range of
                   None \<Rightarrow> Inr None
                 | Some v \<Rightarrow> (case xr_semver g v of
                     Some version \<Rightarrow> if minimum < version then Inr (Some version) else Inl ()
                   | None \<Rightarrow> Inl ())) of
             Inl _ \<Rightarrow> incompatible ''aworkit_range'' ''maximum Aworkit version is invalid''
           | Inr maximum \<Rightarrow>
               if xr_aworkit_version g < minimum
                  \<or> (case maximum of None \<Rightarrow> False | Some mx \<Rightarrow> mx \<le> xr_aworkit_version g)
               then incompatible ''aworkit_version'' ''Aworkit version is outside the declared range''
               else XcCompatible (xr_aworkit_version_text g) (xr_host_protocol g)))"

section \<open>Dependencies\<close>

definition dependency_range ::
  "('v::linorder, 'i) extension_registry \<Rightarrow> extension_dependency \<Rightarrow> registry_error + 'v \<times> 'v option" where
  "dependency_range g d =
     bind_r (ok_or (xr_semver g (xd_minimum_version d)) (RgInvalidManifest ''dependency range'')) (\<lambda>minimum.
     case xd_maximum_version_exclusive d of
       None \<Rightarrow> Inr (minimum, None)
     | Some v \<Rightarrow> bind_r (ok_or (xr_semver g v) (RgInvalidManifest ''dependency range'')) (\<lambda>maximum.
                 Inr (minimum, Some maximum)))"

definition is_compatible :: "extension_record \<Rightarrow> bool" where
  "is_compatible r = (case er_compatibility r of XcCompatible _ _ \<Rightarrow> True | _ \<Rightarrow> False)"

text \<open>The filter both dependency searches apply.\<close>

definition dependency_candidate ::
  "('v::linorder, 'i) extension_registry \<Rightarrow> 'v \<times> 'v option \<Rightarrow> extension_record \<Rightarrow> bool" where
  "dependency_candidate g bounds r =
     (case xr_semver g (ei_version (er_identity r)) of
        None \<Rightarrow> False
      | Some version \<Rightarrow> er_installed r \<and> er_enabled r \<and> er_integrity r = XiVerified \<and> is_compatible r
          \<and> er_quarantine r = None \<and> fst bounds \<le> version
          \<and> (case snd bounds of None \<Rightarrow> True | Some maximum \<Rightarrow> version < maximum))"

definition dependency_available ::
  "('v::linorder, 'i) extension_registry \<Rightarrow> 'i \<Rightarrow> extension_dependency \<Rightarrow> registry_error + unit" where
  "dependency_available g s d =
     bind_r (dependency_range g d) (\<lambda>bounds.
     bind_r (rg_list g (Some (xd_extension_id d)) s) (\<lambda>records.
     if list_ex (dependency_candidate g bounds) records then Inr ()
     else Inl (RgDependencyUnavailable (xd_extension_id d))))"

definition ensure_enableable ::
  "('v::linorder, 'i) extension_registry \<Rightarrow> extension_record \<Rightarrow> 'i \<Rightarrow> registry_error + unit" where
  "ensure_enableable g r s =
     (if \<not> er_installed r then Inl RgNotInstalled
      else if er_integrity r \<noteq> XiVerified then Inl RgIntegrityUnavailable
      else if \<not> is_compatible r then Inl RgIncompatible
      else case er_quarantine r of
        Some q \<Rightarrow> Inl (RgQuarantined (xq_code q))
      | None \<Rightarrow> try_all (dependency_available g s) (xm_dependencies (er_manifest r)))"

definition resolve_dependency_record ::
  "('v::linorder, 'i) extension_registry \<Rightarrow> 'i \<Rightarrow> extension_dependency \<Rightarrow> registry_error + extension_record" where
  "resolve_dependency_record g s d =
     bind_r (dependency_range g d) (\<lambda>bounds.
     bind_r (rg_list g (Some (xd_extension_id d)) s) (\<lambda>records.
     case filter (dependency_candidate g bounds) records of
       [] \<Rightarrow> Inl (RgDependencyUnavailable (xd_extension_id d))
     | [r] \<Rightarrow> Inr r
     | _ \<Rightarrow> Inl (RgDependencyAmbiguous (xd_extension_id d))))"

text \<open>The loop over the dependencies of one record; \<open>nested\<close> is the recursive call.\<close>

fun dependency_facts ::
  "(extension_record \<Rightarrow> registry_error + string) \<Rightarrow> (extension_dependency \<Rightarrow> registry_error + extension_record)
    \<Rightarrow> stable_id \<Rightarrow> process_generation \<Rightarrow> extension_dependency list
    \<Rightarrow> registry_error + dependency_attestation_fact list" where
  "dependency_facts nested resolve host generation [] = Inr []"
| "dependency_facts nested resolve host generation (d # ds) =
     bind_r (resolve d) (\<lambda>r.
     case er_last_attestation r of
       None \<Rightarrow> Inl (RgDependencyAttestationStale (xd_extension_id d))
     | Some a \<Rightarrow>
         if at_host_id a \<noteq> host \<or> at_host_generation a \<noteq> generation
         then Inl (RgDependencyAttestationStale (xd_extension_id d))
         else bind_r (nested r) (\<lambda>nested_hash.
              if nested_hash \<noteq> at_dependency_snapshot_hash a
              then Inl (RgDependencyAttestationStale (xd_extension_id d))
              else bind_r (dependency_facts nested resolve host generation ds) (\<lambda>facts.
                   Inr (\<lparr>df_identity = er_identity r, df_record_version = er_record_version r,
                         df_handshake_hash = at_handshake_hash a, df_descriptor_set_hash = at_descriptor_set_hash a,
                         df_dependency_snapshot_hash = nested_hash\<rparr> # facts))))"

fun dependency_snapshot_hash_inner ::
  "nat \<Rightarrow> ('v::linorder, 'i) extension_registry \<Rightarrow> 'i \<Rightarrow> stable_id \<Rightarrow> process_generation
    \<Rightarrow> (string \<times> string \<times> string) list \<Rightarrow> extension_record \<Rightarrow> registry_error + string" where
  "dependency_snapshot_hash_inner 0 g s host generation visiting r = Inl RgFuelExhausted"
| "dependency_snapshot_hash_inner (Suc fuel) g s host generation visiting r =
     (if identity_key (er_identity r) \<in> set visiting
      then Inl (RgDependencyCycle (ei_extension_id (er_identity r)))
      else bind_r (dependency_facts
                     (dependency_snapshot_hash_inner fuel g s host generation
                        (sinsert (identity_key (er_identity r)) visiting))
                     (resolve_dependency_record g s) host generation (xm_dependencies (er_manifest r))) (\<lambda>facts.
           bind_r (ok_or (xr_jcs_facts g facts) RgDependencySnapshotEncoding) (\<lambda>bytes.
           Inr (''sha256:'' @ xk_sha (xr_codec g) bytes))))"

text \<open>Every nested call visits another record of the inventory, so this many calls suffice.\<close>

definition snapshot_fuel :: "('v, 'i) extension_registry \<Rightarrow> 'i \<Rightarrow> nat" where
  "snapshot_fuel g s = ip_stored (xr_inventory g) s + 2"

definition dependency_snapshot_hash ::
  "('v::linorder, 'i) extension_registry \<Rightarrow> 'i \<Rightarrow> extension_record \<Rightarrow> stable_id \<Rightarrow> process_generation
    \<Rightarrow> registry_error + string" where
  "dependency_snapshot_hash g s r host generation =
     dependency_snapshot_hash_inner (snapshot_fuel g s) g s host generation [] r"

section \<open>Operations\<close>

definition register_installed ::
  "('v::linorder, 'i) extension_registry \<Rightarrow> stable_id \<Rightarrow> inert_extension_candidate \<Rightarrow> u64 option \<Rightarrow> 'i
    \<Rightarrow> (registry_error + extension_record) \<times> 'i" where
  "register_installed g operation_id candidate expected_version s =
     (let x = candidate\<lparr>ic_manifest := normalize_manifest (ic_manifest candidate)\<rparr>;
          m = ic_manifest x in
      case bind_r (validate_identity_key m) (\<lambda>_. rg_load g (xm_identity m) s) of
        Inl e \<Rightarrow> (Inl e, s)
      | Inr existing \<Rightarrow>
          if (case existing of None \<Rightarrow> False | Some r \<Rightarrow> er_manifest r \<noteq> m)
          then (Inl RgExactIdentityMutation, s)
          else
            (let integrity = evaluate_integrity (xr_codec g) x;
                 compatibility = evaluate_compatibility g m in
             rg_write g \<lparr>iw_operation_id = operation_id, iw_expected_version = expected_version,
               iw_record = \<lparr>er_manifest = m, er_installed = True,
                 er_enabled = (case existing of None \<Rightarrow> False | Some r \<Rightarrow> er_enabled r),
                 er_integrity = integrity, er_compatibility = compatibility,
                 er_quarantine = registration_quarantine integrity compatibility,
                 er_record_version = saturating_add (case expected_version of None \<Rightarrow> 0 | Some v \<Rightarrow> v) 1,
                 er_last_attestation = None\<rparr>,
               iw_audit_kind = AkRegistered, iw_detail = ''registered inert installed-extension facts''\<rparr> s))"

text \<open>The reads every later operation starts with.\<close>

definition fetch ::
  "('v, 'i) extension_registry \<Rightarrow> extension_identity \<Rightarrow> u64 \<Rightarrow> 'i \<Rightarrow> registry_error + extension_record" where
  "fetch g i expected s =
     bind_r (require_record g i s) (\<lambda>r. bind_r (ensure_expected_version r expected) (\<lambda>_. Inr r))"

text \<open>\<open>record_version = next_version(expected)?\<close>, then the write.\<close>

definition write_next ::
  "('v, 'i) extension_registry \<Rightarrow> stable_id \<Rightarrow> u64 \<Rightarrow> extension_record \<Rightarrow> extension_audit_kind \<Rightarrow> string \<Rightarrow> 'i
    \<Rightarrow> (registry_error + extension_record) \<times> 'i" where
  "write_next g operation_id expected r kind detail s =
     (case next_version expected of
        Inl e \<Rightarrow> (Inl e, s)
      | Inr version \<Rightarrow>
          rg_write g \<lparr>iw_operation_id = operation_id, iw_expected_version = Some expected,
            iw_record = r\<lparr>er_record_version := version\<rparr>, iw_audit_kind = kind, iw_detail = detail\<rparr> s)"

definition set_enabled ::
  "('v::linorder, 'i) extension_registry \<Rightarrow> stable_id \<Rightarrow> extension_identity \<Rightarrow> u64 \<Rightarrow> bool \<Rightarrow> 'i
    \<Rightarrow> (registry_error + extension_record) \<times> 'i" where
  "set_enabled g operation_id i expected enabled s =
     (case bind_r (fetch g i expected s) (\<lambda>r.
           bind_r (if enabled then ensure_enableable g r s else Inr ()) (\<lambda>_. Inr r)) of
        Inl e \<Rightarrow> (Inl e, s)
      | Inr r \<Rightarrow>
          if er_enabled r = enabled then (Inr r, s)
          else write_next g operation_id expected (r\<lparr>er_enabled := enabled, er_last_attestation := None\<rparr>)
                 AkEnablementChanged
                 (if enabled then ''extension explicitly enabled'' else ''extension explicitly disabled'') s)"

definition write_quarantine ::
  "('v, 'i) extension_registry \<Rightarrow> stable_id \<Rightarrow> extension_record \<Rightarrow> u64 \<Rightarrow> string \<Rightarrow> string \<Rightarrow> 'i
    \<Rightarrow> (registry_error + extension_record) \<times> 'i" where
  "write_quarantine g operation_id r expected code message s =
     write_next g operation_id expected
       (r\<lparr>er_quarantine := Some \<lparr>xq_code = code, xq_message = message\<rparr>, er_last_attestation := None\<rparr>)
       AkQuarantined ''quarantined exact extension identity for new dispatch'' s"

definition quarantine ::
  "('v, 'i) extension_registry \<Rightarrow> stable_id \<Rightarrow> extension_identity \<Rightarrow> u64 \<Rightarrow> string \<Rightarrow> string \<Rightarrow> 'i
    \<Rightarrow> (registry_error + extension_record) \<times> 'i" where
  "quarantine g operation_id i expected code message s =
     (case fetch g i expected s of
        Inl e \<Rightarrow> (Inl e, s)
      | Inr r \<Rightarrow> write_quarantine g operation_id r expected code message s)"

definition remove_installed_record ::
  "('v, 'i) extension_registry \<Rightarrow> stable_id \<Rightarrow> extension_identity \<Rightarrow> u64 \<Rightarrow> 'i
    \<Rightarrow> (registry_error + extension_record) \<times> 'i" where
  "remove_installed_record g operation_id i expected s =
     (case fetch g i expected s of
        Inl e \<Rightarrow> (Inl e, s)
      | Inr r \<Rightarrow>
          write_next g operation_id expected
            (r\<lparr>er_installed := False, er_enabled := False, er_last_attestation := None,
               er_quarantine := Some \<lparr>xq_code = ''removed'',
                 xq_message = ''exact extension identity is no longer installed''\<rparr>\<rparr>)
            AkRemoved ''retained historical identity after explicit removal'' s)"

definition recheck_quarantine :: "extension_compatibility_status \<Rightarrow> extension_quarantine option \<Rightarrow> extension_quarantine option" where
  "recheck_quarantine compatibility q =
     (case compatibility of
        XcIncompatible code message _ _ \<Rightarrow> Some \<lparr>xq_code = ''compatibility_'' @ code, xq_message = message\<rparr>
      | _ \<Rightarrow> if (case q of None \<Rightarrow> False | Some v \<Rightarrow> take 14 (xq_code v) = ''compatibility_'') then None else q)"

definition check_compatibility ::
  "('v::linorder, 'i) extension_registry \<Rightarrow> stable_id \<Rightarrow> extension_identity \<Rightarrow> u64 \<Rightarrow> 'i
    \<Rightarrow> (registry_error + extension_record) \<times> 'i" where
  "check_compatibility g operation_id i expected s =
     (case fetch g i expected s of
        Inl e \<Rightarrow> (Inl e, s)
      | Inr r \<Rightarrow>
          (let compatibility = evaluate_compatibility g (er_manifest r) in
           if er_compatibility r = compatibility then (Inr r, s)
           else write_next g operation_id expected
                  (r\<lparr>er_compatibility := compatibility, er_last_attestation := None,
                     er_quarantine := recheck_quarantine compatibility (er_quarantine r)\<rparr>)
                  AkCompatibilityEvaluated ''re-evaluated application and host protocol compatibility'' s))"

definition validate_handshake ::
  "('v, 'i) extension_registry \<Rightarrow> extension_record \<Rightarrow> host_extension_handshake \<Rightarrow> string + unit" where
  "validate_handshake g r h =
     (if hs_host_generation h = 0 then Inl ''host generation must be positive''
      else if hs_host_protocol h \<noteq> xr_host_protocol g then Inl ''host protocol differs from the core protocol''
      else if hs_identity h \<noteq> er_identity r then Inl ''host extension identity/version/content hash drifted''
      else if hs_entry_point_identity h \<noteq> xm_entry_point_identity (er_manifest r)
      then Inl ''host entry-point identity drifted''
      else if \<not> hs_healthy h then Inl ''host reported the contribution unhealthy''
      else if hs_contributions h \<noteq> xm_contributions (er_manifest r)
      then Inl ''host contribution descriptor set drifted''
      else case host_extension_handshake_hash (xr_codec g) h of
        Inl _ \<Rightarrow> Inl ''host handshake could not be hashed''
      | Inr calculated \<Rightarrow>
          if calculated \<noteq> hs_handshake_hash h then Inl ''host handshake hash does not match its facts'' else Inr ())"

definition one_extension_set_hash ::
  "('v, 'i) extension_registry \<Rightarrow> host_extension_handshake \<Rightarrow> registry_error + string" where
  "one_extension_set_hash g h =
     (case attested_extension_set_hash (xr_codec g)
             \<lparr>as_host_id = hs_host_id h, as_host_generation = hs_host_generation h, as_host_protocol = hs_host_protocol h,
              as_extensions = [\<lparr>ax_identity = hs_identity h, ax_handshake_hash = hs_handshake_hash h,
                                ax_contributions = hs_contributions h\<rparr>], as_set_hash = []\<rparr> of
        Inl e \<Rightarrow> Inl (RgProtocol e)
      | Inr h' \<Rightarrow> Inr h')"

definition stale_generation :: "extension_record \<Rightarrow> host_extension_handshake \<Rightarrow> registry_error + unit" where
  "stale_generation r h =
     (case er_last_attestation r of
        None \<Rightarrow> Inr ()
      | Some previous \<Rightarrow>
          if at_host_id previous = hs_host_id h \<and> hs_host_generation h < at_host_generation previous
          then Inl (RgStaleHostGeneration (at_host_generation previous) (hs_host_generation h)) else Inr ())"

definition same_attestation :: "extension_record \<Rightarrow> host_extension_handshake \<Rightarrow> string \<Rightarrow> bool" where
  "same_attestation r h snapshot =
     (case er_last_attestation r of
        None \<Rightarrow> False
      | Some previous \<Rightarrow> at_host_id previous = hs_host_id h \<and> at_host_generation previous = hs_host_generation h
          \<and> at_handshake_hash previous = hs_handshake_hash h \<and> at_dependency_snapshot_hash previous = snapshot)"

definition attestation_of :: "host_extension_handshake \<Rightarrow> string \<Rightarrow> string \<Rightarrow> host_extension_attestation" where
  "attestation_of h set_hash snapshot =
     \<lparr>at_host_id = hs_host_id h, at_host_generation = hs_host_generation h, at_host_protocol = hs_host_protocol h,
      at_handshake_hash = hs_handshake_hash h, at_descriptor_set_hash = set_hash, at_dependency_snapshot_hash = snapshot\<rparr>"

definition attest_host_handshake ::
  "('v::linorder, 'i) extension_registry \<Rightarrow> stable_id \<Rightarrow> extension_identity \<Rightarrow> u64 \<Rightarrow> host_extension_handshake \<Rightarrow> 'i
    \<Rightarrow> (registry_error + extension_record) \<times> 'i" where
  "attest_host_handshake g operation_id i expected handshake s =
     (let h = handshake\<lparr>hs_contributions := normalize_contributions (hs_contributions handshake)\<rparr> in
      case bind_r (fetch g i expected s) (\<lambda>r.
           bind_r (ensure_enableable g r s) (\<lambda>_.
           bind_r (stale_generation r h) (\<lambda>_. Inr r))) of
        Inl e \<Rightarrow> (Inl e, s)
      | Inr r \<Rightarrow>
          (case validate_handshake g r h of
             Inl reason \<Rightarrow>
               (case write_quarantine g operation_id r expected ''attestation_failed'' reason s of
                  (Inl e, s') \<Rightarrow> (Inl e, s')
                | (Inr _, s') \<Rightarrow> (Inl (RgAttestationRejected reason), s'))
           | Inr _ \<Rightarrow>
               (case dependency_snapshot_hash g s r (hs_host_id h) (hs_host_generation h) of
                  Inl e \<Rightarrow> (Inl e, s)
                | Inr snapshot \<Rightarrow>
                    if same_attestation r h snapshot then (Inr r, s)
                    else
                      (case one_extension_set_hash g h of
                         Inl e \<Rightarrow> (Inl e, s)
                       | Inr set_hash \<Rightarrow>
                           write_next g operation_id expected
                             (r\<lparr>er_last_attestation := Some (attestation_of h set_hash snapshot)\<rparr>)
                             AkAttested ''attested exact extension descriptors for supervised host generation'' s))))"

section \<open>Resolution\<close>

definition resolve_record ::
  "('v::linorder, 'i) extension_registry \<Rightarrow> extension_requirement \<Rightarrow> stable_id \<Rightarrow> process_generation
    \<Rightarrow> extension_record \<Rightarrow> 'i \<Rightarrow> registry_error + extension_resolution" where
  "resolve_record g requirement host generation r s =
     (let i = er_identity r; unattested = ResUnattested i generation in
      if \<not> er_installed r then Inr ResMissing
      else if \<not> er_enabled r then Inr (ResDisabled i)
      else case er_quarantine r of
        Some q \<Rightarrow> Inr (ResQuarantined i (xq_code q) (xq_message q))
      | None \<Rightarrow>
          (case er_compatibility r of
             XcIncompatible code message _ _ \<Rightarrow> Inr (ResIncompatible i code message)
           | _ \<Rightarrow>
               if er_integrity r \<noteq> XiVerified
               then Inr (ResQuarantined i ''integrity_unverified'' ''exact extension integrity is not verified'')
               else case find (\<lambda>x. xc_contribution_id x = rq_contribution_id requirement)
                           (xm_contributions (er_manifest r)) of
                 None \<Rightarrow> Inr ResMissing
               | Some contribution \<Rightarrow>
                   (case er_last_attestation r of
                      None \<Rightarrow> Inr unattested
                    | Some a \<Rightarrow>
                        if at_host_id a \<noteq> host \<or> at_host_generation a \<noteq> generation then Inr unattested
                        else case dependency_snapshot_hash g s r host generation of
                          Inl e \<Rightarrow> if is_dependency_unavailable e then Inr unattested else Inl e
                        | Inr snapshot \<Rightarrow>
                            if snapshot \<noteq> at_dependency_snapshot_hash a then Inr unattested
                            else Inr (ResResolved \<lparr>pin_identity = i, pin_contribution = contribution,
                                        pin_host_id = host, pin_host_generation = generation,
                                        pin_handshake_hash = at_handshake_hash a\<rparr>))))"

definition resolve_contribution ::
  "('v::linorder, 'i) extension_registry \<Rightarrow> extension_requirement \<Rightarrow> stable_id \<Rightarrow> process_generation \<Rightarrow> 'i
    \<Rightarrow> registry_error + extension_resolution" where
  "resolve_contribution g requirement host generation s =
     bind_r (rg_list g (Some (rq_extension_id requirement)) s) (\<lambda>records.
     if records = [] then Inr ResMissing
     else case find (\<lambda>r. ei_version (er_identity r) = rq_exact_version requirement
                 \<and> ei_content_hash (er_identity r) = rq_exact_content_hash requirement) records of
       None \<Rightarrow> Inr (ResDrifted (rq_exact_version requirement) (rq_exact_content_hash requirement)
                 (map er_identity (filter er_installed records)))
     | Some r \<Rightarrow> resolve_record g requirement host generation r s)"

fun resolution_code :: "extension_resolution \<Rightarrow> string" where
  "resolution_code (ResResolved _) = ''resolved''"
| "resolution_code ResMissing = ''missing''"
| "resolution_code (ResDisabled _) = ''disabled''"
| "resolution_code (ResIncompatible _ _ _) = ''incompatible''"
| "resolution_code (ResDrifted _ _ _) = ''drifted''"
| "resolution_code (ResQuarantined _ _ _) = ''quarantined''"
| "resolution_code (ResUnattested _ _) = ''unattested''"

text \<open>The grouping loop; a group keeps its identity, handshake hash and contributions.\<close>

fun group_pins ::
  "(extension_requirement \<Rightarrow> registry_error + extension_resolution) \<Rightarrow> extension_requirement list
    \<Rightarrow> (string \<times> string \<times> string, attested_extension) bmap
    \<Rightarrow> registry_error + (string \<times> string \<times> string, attested_extension) bmap" where
  "group_pins resolve [] grouped = Inr grouped"
| "group_pins resolve (q # qs) grouped =
     bind_r (resolve q) (\<lambda>resolution.
     case resolution of
       ResResolved pin \<Rightarrow>
         (let k = identity_key (pin_identity pin);
              entry = (case bget grouped k of
                 None \<Rightarrow> \<lparr>ax_identity = pin_identity pin, ax_handshake_hash = pin_handshake_hash pin, ax_contributions = []\<rparr>
               | Some e \<Rightarrow> e) in
          if ax_handshake_hash entry \<noteq> pin_handshake_hash pin
          then Inl (RgAttestationRejected ''one extension identity has conflicting handshake hashes'')
          else group_pins resolve qs
                 (binsert k (entry\<lparr>ax_contributions := ax_contributions entry @ [pin_contribution pin]\<rparr>) grouped))
     | _ \<Rightarrow> Inl (RgRequirementUnavailable (resolution_code resolution)))"

definition materialize_attested_set ::
  "('v::linorder, 'i) extension_registry \<Rightarrow> stable_id \<Rightarrow> process_generation \<Rightarrow> extension_requirement list \<Rightarrow> 'i
    \<Rightarrow> registry_error + attested_extension_set" where
  "materialize_attested_set g host generation requirements s =
     bind_r (group_pins (\<lambda>q. resolve_contribution g q host generation s) requirements []) (\<lambda>grouped.
     let extensions = map (\<lambda>x. x\<lparr>ax_contributions := normalize_contributions (ax_contributions x)\<rparr>) (bvalues grouped);
         set = \<lparr>as_host_id = host, as_host_generation = generation, as_host_protocol = xr_host_protocol g,
                as_extensions = sort_key (\<lambda>x. identity_key (ax_identity x)) extensions, as_set_hash = []\<rparr> in
     case attested_extension_set_hash (xr_codec g) set of
       Inl e \<Rightarrow> Inl (RgProtocol e)
     | Inr h \<Rightarrow> Inr (set\<lparr>as_set_hash := h\<rparr>))"

end
