(* ===== verification/Inventory.thy ===== *)
theory Inventory
  imports Extension
begin

text \<open>
  The persisted extension inventory (\<open>crates/aworkit-local-store/src/extension_inventory.rs\<close>).
  Its three SQLite tables are sorted maps and lists of rows; a transaction that returns an error
  leaves the tables as they were. The uniqueness constraints of the schema are checked where the
  source inserts. What the maintenance gate, the connection's mutex and the engine report on an
  access is an argument of the operations that make it.
\<close>

section \<open>Tables\<close>

datatype inventory_mode = ReadWrite | InspectableReadOnly u32

datatype inventory_error =
    IvIo string
  | IvSqlite string
  | IvJson string
  | IvInvalidPath
  | IvPoisoned
  | IvForwardSchema u32
  | IvInvalidRecord
  | IvRecordTooLarge
  | IvInvalidAuditDetail
  | IvInvalidRecordVersion
  | IvAlreadyExists
  | IvMissing
  | IvVersionConflict u64 u64
  | IvIdentityMutation
  | IvOperationConflict
  | IvCorrupt
  | IvEncoding

record record_row =
  rr_record_version :: u64
  rr_record_json :: string
  rr_record_hash :: string

record contribution_row =
  cr_identity :: extension_identity
  cr_contribution_id :: stable_id
  cr_capability_id :: stable_id
  cr_descriptor_hash :: string

record audit_row =
  au_sequence :: u64
  au_operation_id :: stable_id
  au_request_hash :: string
  au_identity :: extension_identity
  au_record_version :: u64
  au_kind :: string
  au_prior_record_hash :: "string option"
  au_record_hash :: string
  au_detail :: string
  au_record_json :: string

record inventory =
  in_mode :: inventory_mode
  in_records :: "(string \<times> string \<times> string, record_row) bmap"
  in_contributions :: "contribution_row list"
  in_audit :: "audit_row list"

text \<open>
  \<open>serde_jcs::to_vec\<close> on records and write requests, \<open>serde_json::from_str\<close> on a record, SHA-256,
  and the texts of the library's own errors.
\<close>

record inventory_codec =
  vk_jcs_record :: "extension_record \<Rightarrow> string option"
  vk_jcs_write :: "extension_inventory_write \<Rightarrow> string option"
  vk_from_str :: "string \<Rightarrow> extension_record option"
  vk_sha :: digest
  vk_json_text :: string
  vk_sql_text :: string

definition INVENTORY_SCHEMA_VERSION :: int where
  "INVENTORY_SCHEMA_VERSION = 1"

definition MAX_RECORD_BYTES :: usize where
  "MAX_RECORD_BYTES = 512 * 1024"

definition MAX_CONTRIBUTIONS :: usize where
  "MAX_CONTRIBUTIONS = 256"

definition MAX_DEPENDENCIES :: usize where
  "MAX_DEPENDENCIES = 256"

definition MAX_AUDIT_DETAIL_BYTES :: usize where
  "MAX_AUDIT_DETAIL_BYTES = 4096"

definition MAX_AUDIT_PAGE :: u32 where
  "MAX_AUDIT_PAGE = 256"

text \<open>The database after \<open>open\<close>: a newer schema is readable only.\<close>

definition inventory_open :: "int \<Rightarrow> inventory \<Rightarrow> inventory" where
  "inventory_open found tables =
     tables\<lparr>in_mode := if INVENTORY_SCHEMA_VERSION < found then InspectableReadOnly (of_int found) else ReadWrite\<rparr>"

definition empty_inventory :: inventory where
  "empty_inventory = \<lparr>in_mode = ReadWrite, in_records = [], in_contributions = [], in_audit = []\<rparr>"

section \<open>Encoding and validation\<close>

definition hash_bytes :: "inventory_codec \<Rightarrow> string \<Rightarrow> string" where
  "hash_bytes c bytes = ''sha256:'' @ vk_sha c bytes"

definition record_json :: "inventory_codec \<Rightarrow> extension_record \<Rightarrow> inventory_error + string" where
  "record_json c r = ok_or (vk_jcs_record c r) IvEncoding"

definition record_hash :: "inventory_codec \<Rightarrow> extension_record \<Rightarrow> inventory_error + string" where
  "record_hash c r = bind_r (record_json c r) (\<lambda>bytes. Inr (hash_bytes c bytes))"

definition write_hash :: "inventory_codec \<Rightarrow> extension_inventory_write \<Rightarrow> inventory_error + string" where
  "write_hash c w = bind_r (ok_or (vk_jcs_write c w) IvEncoding) (\<lambda>bytes. Inr (hash_bytes c bytes))"

definition valid_text :: "string \<Rightarrow> usize \<Rightarrow> bool" where
  "valid_text v maximum \<longleftrightarrow> v \<noteq> [] \<and> length v \<le> maximum \<and> CHR 0x00 \<notin> set v"

definition strictly_sorted_unique :: "string list \<Rightarrow> bool" where
  "strictly_sorted_unique vs \<longleftrightarrow> list_all (\<lambda>v. valid_text v 256) vs \<and> sorted_wrt (<) vs"

definition valid_hash_option :: "string option \<Rightarrow> bool" where
  "valid_hash_option h = (case h of None \<Rightarrow> True | Some v \<Rightarrow> is_canonical_sha256 v)"

definition storable_descriptor :: "capability_descriptor \<Rightarrow> bool" where
  "storable_descriptor d \<longleftrightarrow> cd_maximum_concurrency d \<noteq> 0 \<and> cd_max_input_bytes d \<noteq> 0
     \<and> cd_max_output_bytes d \<noteq> 0 \<and> is_canonical_sha256 (cd_descriptor_hash d)
     \<and> strictly_sorted_unique (cd_allowed_scopes d) \<and> strictly_sorted_unique (cd_secret_slots d)
     \<and> strictly_sorted_unique (cd_supported_platforms d)
     \<and> valid_hash_option (cd_input_schema_hash d) \<and> valid_hash_option (cd_output_schema_hash d)"

definition storable_attestation :: "host_extension_attestation \<Rightarrow> bool" where
  "storable_attestation a \<longleftrightarrow> at_host_generation a \<noteq> 0 \<and> is_canonical_sha256 (at_handshake_hash a)
     \<and> is_canonical_sha256 (at_descriptor_set_hash a) \<and> is_canonical_sha256 (at_dependency_snapshot_hash a)"

definition storable_manifest :: "extension_manifest \<Rightarrow> bool" where
  "storable_manifest m \<longleftrightarrow>
     ei_version (xm_identity m) \<noteq> [] \<and> length (ei_version (xm_identity m)) \<le> 128
     \<and> is_canonical_sha256 (ei_content_hash (xm_identity m))
     \<and> valid_text (xm_entry_point_identity m) 4096
     \<and> length (xm_contributions m) \<le> MAX_CONTRIBUTIONS \<and> length (xm_dependencies m) \<le> MAX_DEPENDENCIES
     \<and> valid_hash_option (xm_configuration_schema_hash m)
     \<and> sorted_wrt (<) (map xc_contribution_id (xm_contributions m))
     \<and> list_all (\<lambda>x. storable_descriptor (xc_descriptor x)) (xm_contributions m)"

definition storable_record :: "extension_record \<Rightarrow> bool" where
  "storable_record r \<longleftrightarrow>
     er_record_version r \<noteq> 0 \<and> er_record_version r \<le> 2 ^ 63 - 1 \<and> storable_manifest (er_manifest r)
     \<and> (er_installed r \<or> \<not> er_enabled r)
     \<and> (case er_quarantine r of None \<Rightarrow> True
        | Some q \<Rightarrow> valid_text (xq_code q) 128 \<and> valid_text (xq_message q) 4096)
     \<and> (case er_last_attestation r of None \<Rightarrow> True | Some a \<Rightarrow> storable_attestation a)"

definition validate_record :: "inventory_codec \<Rightarrow> extension_record \<Rightarrow> inventory_error + unit" where
  "validate_record c r =
     (if \<not> storable_record r then Inl IvInvalidRecord
      else bind_r (record_json c r) (\<lambda>encoded.
           if MAX_RECORD_BYTES < length encoded then Inl IvRecordTooLarge else Inr ()))"

text \<open>The size bound without unary numbers, for evaluation.\<close>

fun longer_than :: "'a list \<Rightarrow> int \<Rightarrow> bool" where
  "longer_than [] k = (k < 0)"
| "longer_than (x # xs) k = (k < 0 \<or> longer_than xs (k - 1))"

lemma longer_than_iff: "longer_than xs k \<longleftrightarrow> k < int (length xs)"
  by (induction xs k rule: longer_than.induct) auto

lemma validate_record_code [code]:
  "validate_record c r =
     (if \<not> storable_record r then Inl IvInvalidRecord
      else bind_r (record_json c r) (\<lambda>encoded. if longer_than encoded 524288 then Inl IvRecordTooLarge else Inr ()))"
  by (simp add: validate_record_def longer_than_iff MAX_RECORD_BYTES_def)

definition validate_write :: "inventory_codec \<Rightarrow> extension_inventory_write \<Rightarrow> inventory_error + unit" where
  "validate_write c w =
     bind_r (validate_record c (iw_record w)) (\<lambda>_.
     if \<not> valid_text (iw_detail w) MAX_AUDIT_DETAIL_BYTES then Inl IvInvalidAuditDetail else Inr ())"

definition decode_record :: "inventory_codec \<Rightarrow> string \<Rightarrow> string \<Rightarrow> inventory_error + extension_record" where
  "decode_record c json expected_hash =
     bind_r (ok_or (vk_from_str c json) (IvJson (vk_json_text c))) (\<lambda>r.
     bind_r (validate_record c r) (\<lambda>_.
     bind_r (record_hash c r) (\<lambda>h.
     if h \<noteq> expected_hash then Inl IvCorrupt else Inr r)))"

definition checked_i64 :: "u64 \<Rightarrow> inventory_error + u64" where
  "checked_i64 v = (if v \<le> 2 ^ 63 - 1 then Inr v else Inl IvInvalidRecordVersion)"

fun audit_kind_name :: "extension_audit_kind \<Rightarrow> string" where
  "audit_kind_name AkRegistered = ''registered''"
| "audit_kind_name AkEnablementChanged = ''enablement_changed''"
| "audit_kind_name AkIntegrityEvaluated = ''integrity_evaluated''"
| "audit_kind_name AkCompatibilityEvaluated = ''compatibility_evaluated''"
| "audit_kind_name AkQuarantined = ''quarantined''"
| "audit_kind_name AkAttested = ''attested''"
| "audit_kind_name AkRemoved = ''removed''"

definition parse_audit_kind :: "string \<Rightarrow> inventory_error + extension_audit_kind" where
  "parse_audit_kind v =
     (if v = ''registered'' then Inr AkRegistered
      else if v = ''enablement_changed'' then Inr AkEnablementChanged
      else if v = ''integrity_evaluated'' then Inr AkIntegrityEvaluated
      else if v = ''compatibility_evaluated'' then Inr AkCompatibilityEvaluated
      else if v = ''quarantined'' then Inr AkQuarantined
      else if v = ''attested'' then Inr AkAttested
      else if v = ''removed'' then Inr AkRemoved
      else Inl IvCorrupt)"

section \<open>Accesses and their failures\<close>

text \<open>
  Every public operation takes the maintenance gate (\<open>self.gate.shared()?\<close>), locks the connection
  (\<open>self.lock()?\<close>) and runs its statements (\<open>prepare\<close>, \<open>query_map\<close>, \<open>execute\<close>, \<open>commit\<close>, each with
  \<open>?\<close>). An \<open>access_faults\<close> says for each access which of these failed, if one did.
\<close>

datatype inventory_access =
    AcLoad extension_identity
  | AcList "stable_id option"
  | AcContribution stable_id
  | AcWrite extension_inventory_write
  | AcAudit u64 u32

datatype access_fault = GateIo string | LockPoisoned | EngineError string

type_synonym access_faults = "inventory_access \<Rightarrow> access_fault option"

fun fault_error :: "access_fault \<Rightarrow> inventory_error" where
  "fault_error (GateIo t) = IvIo t"
| "fault_error LockPoisoned = IvPoisoned"
| "fault_error (EngineError t) = IvSqlite t"

definition begin_access :: "access_faults \<Rightarrow> inventory_access \<Rightarrow> inventory_error + unit" where
  "begin_access f a = (case f a of None \<Rightarrow> Inr () | Some x \<Rightarrow> Inl (fault_error x))"

definition no_faults :: access_faults where
  "no_faults a = None"

section \<open>Reading\<close>

text \<open>The row of an identity, as the queries of a load and of a write read it.\<close>

definition load_record :: "inventory_codec \<Rightarrow> extension_identity \<Rightarrow> inventory \<Rightarrow> inventory_error + extension_record option" where
  "load_record c i s =
     (case bget (in_records s) (identity_key i) of
        None \<Rightarrow> Inr None
      | Some row \<Rightarrow> bind_r (decode_record c (rr_record_json row) (rr_record_hash row)) (\<lambda>r. Inr (Some r)))"

definition inventory_load_record ::
  "access_faults \<Rightarrow> inventory_codec \<Rightarrow> extension_identity \<Rightarrow> inventory \<Rightarrow> inventory_error + extension_record option" where
  "inventory_load_record f c i s = bind_r (begin_access f (AcLoad i)) (\<lambda>_. load_record c i s)"

text \<open>A row that does not decode fails the query it is read by.\<close>

definition read_record_columns :: "inventory_codec \<Rightarrow> record_row \<Rightarrow> inventory_error + extension_record" where
  "read_record_columns c row =
     (case decode_record c (rr_record_json row) (rr_record_hash row) of
        Inl _ \<Rightarrow> Inl (IvSqlite (vk_sql_text c))
      | Inr r \<Rightarrow> Inr r)"

definition list_records ::
  "access_faults \<Rightarrow> inventory_codec \<Rightarrow> stable_id option \<Rightarrow> inventory \<Rightarrow> inventory_error + extension_record list" where
  "list_records f c extension_id s =
     bind_r (begin_access f (AcList extension_id)) (\<lambda>_.
      let rows = filter (\<lambda>(k, _). case extension_id of None \<Rightarrow> True | Some i \<Rightarrow> fst k = i) (in_records s) in
      bind_r (try_map (read_record_columns c) (map snd rows)) (\<lambda>records.
      bind_r (try_all (validate_record c) records) (\<lambda>_.
      Inr (sort_key (\<lambda>r. identity_key (er_identity r)) records))))"

definition records_for_contribution ::
  "access_faults \<Rightarrow> inventory_codec \<Rightarrow> stable_id \<Rightarrow> inventory \<Rightarrow> inventory_error + extension_record list" where
  "records_for_contribution f c contribution_id s =
     bind_r (begin_access f (AcContribution contribution_id)) (\<lambda>_.
      let rows = filter (\<lambda>(k, _). \<exists>x \<in> set (in_contributions s).
            identity_key (cr_identity x) = k \<and> cr_contribution_id x = contribution_id) (in_records s) in
      bind_r (try_map (read_record_columns c) (map snd rows)) (\<lambda>records.
      bind_r (try_all (validate_record c) records) (\<lambda>_. Inr records)))"

definition audit_entry :: "inventory_codec \<Rightarrow> audit_row \<Rightarrow> inventory_error + extension_audit_entry" where
  "audit_entry c row =
     (let bad = IvSqlite (vk_sql_text c) in
      case (stable_id_parse (au_operation_id row), stable_id_parse (ei_extension_id (au_identity row)),
            parse_audit_kind (au_kind row), vk_from_str c (au_record_json row)) of
        (Inr operation_id, Inr extension_id, Inr kind, Some r) \<Rightarrow>
          Inr \<lparr>ae_sequence = au_sequence row, ae_operation_id = operation_id,
               ae_identity = (au_identity row)\<lparr>ei_extension_id := extension_id\<rparr>,
               ae_record_version = au_record_version row, ae_kind = kind,
               ae_prior_record_hash = au_prior_record_hash row, ae_record_hash = au_record_hash row,
               ae_detail = au_detail row, ae_record = r\<rparr>
      | _ \<Rightarrow> Inl bad)"

definition check_audit_entry :: "inventory_codec \<Rightarrow> extension_audit_entry \<Rightarrow> inventory_error + unit" where
  "check_audit_entry c e =
     bind_r (validate_record c (ae_record e)) (\<lambda>_.
     bind_r (record_hash c (ae_record e)) (\<lambda>h.
     if h \<noteq> ae_record_hash e \<or> er_record_version (ae_record e) \<noteq> ae_record_version e
        \<or> er_identity (ae_record e) \<noteq> ae_identity e
     then Inl IvCorrupt else Inr ()))"

definition audit ::
  "access_faults \<Rightarrow> inventory_codec \<Rightarrow> u64 \<Rightarrow> u32 \<Rightarrow> inventory \<Rightarrow> inventory_error + extension_audit_entry list" where
  "audit f c after_sequence limit s =
     bind_r (begin_access f (AcAudit after_sequence limit)) (\<lambda>_.
     bind_r (checked_i64 after_sequence) (\<lambda>after.
     let page = take (unat (max 1 (min limit MAX_AUDIT_PAGE)))
                  (filter (\<lambda>row. after < au_sequence row) (in_audit s)) in
     bind_r (try_map (audit_entry c) page) (\<lambda>entries.
     bind_r (try_all (check_audit_entry c) entries) (\<lambda>_. Inr entries))))"

section \<open>Writing\<close>

definition check_expected :: "extension_record option \<Rightarrow> extension_inventory_write \<Rightarrow> inventory_error + unit" where
  "check_expected current w =
     (case (current, iw_expected_version w) of
        (None, None) \<Rightarrow>
          if er_record_version (iw_record w) = 1 then Inr () else Inl IvInvalidRecordVersion
      | (None, Some _) \<Rightarrow> Inl IvMissing
      | (Some _, None) \<Rightarrow> Inl IvAlreadyExists
      | (Some r, Some expected) \<Rightarrow>
          if er_record_version r \<noteq> expected then Inl (IvVersionConflict expected (er_record_version r))
          else if er_record_version (iw_record w) \<noteq> saturating_add expected 1 then Inl IvInvalidRecordVersion
          else if er_manifest r \<noteq> er_manifest (iw_record w) then Inl IvIdentityMutation
          else Inr ())"

text \<open>The insertions of one transaction, with the constraint \<open>UNIQUE(identity, record_version)\<close>.\<close>

definition insert_rows ::
  "inventory_codec \<Rightarrow> extension_inventory_write \<Rightarrow> string \<Rightarrow> string \<Rightarrow> string \<Rightarrow> string option \<Rightarrow> u64
    \<Rightarrow> inventory \<Rightarrow> inventory_error + inventory" where
  "insert_rows c w request_hash json hash prior version s =
     (let i = er_identity (iw_record w);
          row = \<lparr>au_sequence = of_nat (length (in_audit s)) + 1, au_operation_id = iw_operation_id w,
                 au_request_hash = request_hash, au_identity = i, au_record_version = version,
                 au_kind = audit_kind_name (iw_audit_kind w), au_prior_record_hash = prior,
                 au_record_hash = hash, au_detail = iw_detail w, au_record_json = json\<rparr> in
      if \<exists>a \<in> set (in_audit s). au_identity a = i \<and> au_record_version a = version
      then Inl (IvSqlite (vk_sql_text c))
      else Inr (s\<lparr>in_records := binsert (identity_key i)
                    \<lparr>rr_record_version = version, rr_record_json = json, rr_record_hash = hash\<rparr> (in_records s),
                  in_contributions := filter (\<lambda>x. cr_identity x \<noteq> i) (in_contributions s)
                    @ map (\<lambda>x. \<lparr>cr_identity = i, cr_contribution_id = xc_contribution_id x,
                             cr_capability_id = cd_capability_id (xc_descriptor x),
                             cr_descriptor_hash = cd_descriptor_hash (xc_descriptor x)\<rparr>)
                        (xm_contributions (er_manifest (iw_record w))),
                  in_audit := in_audit s @ [row]\<rparr>))"

definition apply_write ::
  "inventory_codec \<Rightarrow> extension_inventory_write \<Rightarrow> string \<Rightarrow> string \<Rightarrow> inventory
    \<Rightarrow> inventory_error + extension_record \<times> inventory" where
  "apply_write c w request_hash json s =
     bind_r (load_record c (er_identity (iw_record w)) s) (\<lambda>current.
     bind_r (case current of None \<Rightarrow> Inr None
             | Some r \<Rightarrow> bind_r (record_hash c r) (\<lambda>h. Inr (Some h))) (\<lambda>prior.
     bind_r (check_expected current w) (\<lambda>_.
     bind_r (checked_i64 (er_record_version (iw_record w))) (\<lambda>version.
     bind_r (insert_rows c w request_hash json (hash_bytes c json) prior version s) (\<lambda>s'.
     Inr (iw_record w, s'))))))"

text \<open>A transaction that fails at any statement or at its commit is rolled back.\<close>

definition write_record ::
  "access_faults \<Rightarrow> inventory_codec \<Rightarrow> extension_inventory_write \<Rightarrow> inventory
    \<Rightarrow> (inventory_error + extension_record) \<times> inventory" where
  "write_record f c w s =
     (case in_mode s of
        InspectableReadOnly found \<Rightarrow> (Inl (IvForwardSchema found), s)
      | ReadWrite \<Rightarrow>
          (case bind_r (validate_write c w) (\<lambda>_. bind_r (write_hash c w) (\<lambda>request_hash.
                bind_r (record_json c (iw_record w)) (\<lambda>json.
                bind_r (begin_access f (AcWrite w)) (\<lambda>_. Inr (request_hash, json))))) of
             Inl e \<Rightarrow> (Inl e, s)
           | Inr (request_hash, json) \<Rightarrow>
               (case find (\<lambda>a. au_operation_id a = iw_operation_id w) (in_audit s) of
                  Some a \<Rightarrow>
                    if au_request_hash a \<noteq> request_hash then (Inl IvOperationConflict, s)
                    else (bind_r (ok_or (vk_from_str c (au_record_json a)) (IvJson (vk_json_text c))) (\<lambda>r.
                          bind_r (validate_record c r) (\<lambda>_. Inr r)), s)
                | None \<Rightarrow>
                    (case apply_write c w request_hash json s of
                       Inl e \<Rightarrow> (Inl e, s)
                     | Inr (r, s') \<Rightarrow> (Inr r, s')))))"

section \<open>The port\<close>

fun inventory_error_display :: "inventory_error \<Rightarrow> string" where
  "inventory_error_display (IvIo t) = ''extension inventory filesystem operation failed: '' @ t"
| "inventory_error_display (IvSqlite t) = ''extension inventory database operation failed: '' @ t"
| "inventory_error_display (IvJson t) = ''extension inventory JSON is invalid: '' @ t"
| "inventory_error_display IvInvalidPath = ''extension inventory path is invalid''"
| "inventory_error_display IvPoisoned = ''extension inventory connection is unavailable after a panic''"
| "inventory_error_display (IvForwardSchema found) =
     ''extension inventory schema '' @ show_nat (unat found) @ '' is inspectable read-only''"
| "inventory_error_display IvInvalidRecord = ''extension inventory record is malformed''"
| "inventory_error_display IvRecordTooLarge = ''extension inventory record exceeds its bounded size''"
| "inventory_error_display IvInvalidAuditDetail = ''extension inventory audit detail is malformed''"
| "inventory_error_display IvInvalidRecordVersion = ''extension inventory record version is invalid''"
| "inventory_error_display IvAlreadyExists = ''extension inventory record already exists''"
| "inventory_error_display IvMissing = ''extension inventory record does not exist''"
| "inventory_error_display (IvVersionConflict expected actual) =
     ''extension inventory version conflict: expected '' @ show_nat (unat expected) @ '', found '' @ show_nat (unat actual)"
| "inventory_error_display IvIdentityMutation = ''an exact extension identity cannot change its manifest''"
| "inventory_error_display IvOperationConflict = ''extension inventory operation ID was reused for different facts''"
| "inventory_error_display IvCorrupt = ''extension inventory contains corrupt or inconsistent facts''"
| "inventory_error_display IvEncoding = ''extension inventory canonical encoding failed''"

definition port_error :: "inventory_error \<Rightarrow> inventory_port_error" where
  "port_error e =
     (let (code, retryable, read_only) =
        (case e of
           IvVersionConflict _ _ \<Rightarrow> (''version_conflict'', True, False)
         | IvForwardSchema _ \<Rightarrow> (''forward_schema'', False, True)
         | IvPoisoned \<Rightarrow> (''inventory_unavailable'', True, False)
         | IvSqlite _ \<Rightarrow> (''inventory_storage'', True, False)
         | IvIo _ \<Rightarrow> (''inventory_storage'', True, False)
         | IvCorrupt \<Rightarrow> (''inventory_corrupt'', False, True)
         | _ \<Rightarrow> (''invalid_inventory_mutation'', False, False)) in
      \<lparr>ipe_code = code, ipe_message = inventory_error_display e, ipe_retryable = retryable,
       ipe_inspectable_read_only = read_only\<rparr>)"

text \<open>\<open>map_err\<close>.\<close>

definition map_err :: "('e \<Rightarrow> 'f) \<Rightarrow> 'e + 'a \<Rightarrow> 'f + 'a" where
  "map_err f r = (case r of Inl e \<Rightarrow> Inl (f e) | Inr a \<Rightarrow> Inr a)"

definition inventory_load ::
  "access_faults \<Rightarrow> inventory_codec \<Rightarrow> extension_identity \<Rightarrow> inventory \<Rightarrow> inventory_port_error + extension_record option" where
  "inventory_load f c i s = map_err port_error (inventory_load_record f c i s)"

definition inventory_list ::
  "access_faults \<Rightarrow> inventory_codec \<Rightarrow> stable_id option \<Rightarrow> inventory \<Rightarrow> inventory_port_error + extension_record list" where
  "inventory_list f c i s = map_err port_error (list_records f c i s)"

definition inventory_find_by_contribution ::
  "access_faults \<Rightarrow> inventory_codec \<Rightarrow> stable_id \<Rightarrow> inventory \<Rightarrow> inventory_port_error + extension_record list" where
  "inventory_find_by_contribution f c i s = map_err port_error (records_for_contribution f c i s)"

definition inventory_write ::
  "access_faults \<Rightarrow> inventory_codec \<Rightarrow> extension_inventory_write \<Rightarrow> inventory
    \<Rightarrow> (inventory_port_error + extension_record) \<times> inventory" where
  "inventory_write f c w s = (case write_record f c w s of (r, s') \<Rightarrow> (map_err port_error r, s'))"

definition inventory_audit_entries ::
  "access_faults \<Rightarrow> inventory_codec \<Rightarrow> u64 \<Rightarrow> u32 \<Rightarrow> inventory \<Rightarrow> inventory_port_error + extension_audit_entry list" where
  "inventory_audit_entries f c after limit s = map_err port_error (audit f c after limit s)"

end
