(* ===== verification/Inventory_Laws.thy ===== *)
theory Inventory_Laws
  imports Inventory
begin

text \<open>
  The inventory keeps a complete history: for each identity the audit rows carry the versions
  \<open>1, 2, \<dots>\<close> chained by record hashes, the stored row is the last of them, and a write is recorded
  once per operation identifier. It provides the port the extension registry relies on.
\<close>

section \<open>The invariant\<close>

text \<open>What is documented of the JSON codecs: canonical text parses back to the record.\<close>

definition inventory_codec_ok :: "inventory_codec \<Rightarrow> bool" where
  "inventory_codec_ok c \<longleftrightarrow> (\<forall>r j. vk_jcs_record c r = Some j \<longrightarrow> vk_from_str c j = Some r)"

definition history :: "inventory \<Rightarrow> extension_identity \<Rightarrow> audit_row list" where
  "history s i = filter (\<lambda>a. au_identity a = i) (in_audit s)"

fun audit_chain :: "nat \<Rightarrow> string option \<Rightarrow> audit_row list \<Rightarrow> bool" where
  "audit_chain n prior [] = True"
| "audit_chain n prior (a # as) =
     (unat (au_record_version a) = n + 1 \<and> au_prior_record_hash a = prior
      \<and> audit_chain (n + 1) (Some (au_record_hash a)) as)"

text \<open>The row of a record, and a row that decodes to a record of its identity.\<close>

definition row_of :: "inventory_codec \<Rightarrow> extension_record \<Rightarrow> record_row \<Rightarrow> bool" where
  "row_of c r row \<longleftrightarrow> vk_jcs_record c r = Some (rr_record_json row)
     \<and> rr_record_hash row = hash_bytes c (rr_record_json row) \<and> rr_record_version row = er_record_version r
     \<and> validate_record c r = Inr ()"

definition audit_row_of :: "inventory_codec \<Rightarrow> extension_record \<Rightarrow> audit_row \<Rightarrow> bool" where
  "audit_row_of c r a \<longleftrightarrow> au_identity a = er_identity r
     \<and> row_of c r \<lparr>rr_record_version = au_record_version a, rr_record_json = au_record_json a, rr_record_hash = au_record_hash a\<rparr>"

definition inventory_inv :: "inventory_codec \<Rightarrow> inventory \<Rightarrow> bool" where
  "inventory_inv c s \<longleftrightarrow> bwf (in_records s)
     \<and> (\<forall>k row. bget (in_records s) k = Some row \<longrightarrow>
          (\<exists>r. row_of c r row \<and> identity_key (er_identity r) = k
             \<and> history s (er_identity r) \<noteq> [] \<and> audit_row_of c r (last (history s (er_identity r)))))
     \<and> (\<forall>i. bget (in_records s) (identity_key i) = None \<longrightarrow> history s i = [])
     \<and> (\<forall>i. audit_chain 0 None (history s i))
     \<and> (\<forall>a \<in> set (in_audit s). \<exists>r. audit_row_of c r a)
     \<and> distinct (map au_operation_id (in_audit s))"

lemma audit_chain_append:
  "audit_chain n p (xs @ [a]) \<longleftrightarrow> audit_chain n p xs \<and> unat (au_record_version a) = n + length xs + 1
     \<and> au_prior_record_hash a = (if xs = [] then p else Some (au_record_hash (last xs)))"
  by (induction xs arbitrary: n p) auto

lemma audit_chain_version:
  "audit_chain n p xs \<Longrightarrow> x \<in> set xs \<Longrightarrow> unat (au_record_version x) \<le> n + length xs"
  by (induction xs arbitrary: n p) fastforce+

lemma audit_chain_last: "audit_chain n p xs \<Longrightarrow> xs \<noteq> [] \<Longrightarrow> unat (au_record_version (last xs)) = n + length xs"
  by (induction xs arbitrary: n p) auto

lemma decode_row:
  assumes "inventory_codec_ok c" and "row_of c r row"
  shows "decode_record c (rr_record_json row) (rr_record_hash row) = Inr r"
  using assms by (auto simp: row_of_def decode_record_def inventory_codec_ok_def record_hash_def record_json_def)

lemma inventory_invD:
  assumes "inventory_inv c s"
  shows "bwf (in_records s)"
    and "bget (in_records s) k = Some row \<Longrightarrow> \<exists>r. row_of c r row \<and> identity_key (er_identity r) = k
             \<and> history s (er_identity r) \<noteq> [] \<and> audit_row_of c r (last (history s (er_identity r)))"
    and "bget (in_records s) (identity_key i) = None \<Longrightarrow> history s i = []"
    and "audit_chain 0 None (history s i)"
    and "a \<in> set (in_audit s) \<Longrightarrow> \<exists>r. audit_row_of c r a"
    and "distinct (map au_operation_id (in_audit s))"
  using assms unfolding inventory_inv_def by blast+

definition inventory_facts :: "inventory_codec \<Rightarrow> inventory \<Rightarrow> extension_identity \<Rightarrow> extension_record option" where
  "inventory_facts c s i = Option.bind (bget (in_records s) (identity_key i)) (\<lambda>row. vk_from_str c (rr_record_json row))"

lemma facts_row:
  assumes "inventory_codec_ok c" and "inventory_inv c s"
  shows "inventory_facts c s i = Some r \<longleftrightarrow>
    (\<exists>row. bget (in_records s) (identity_key i) = Some row \<and> row_of c r row \<and> er_identity r = i)"
    and "inventory_facts c s i = None \<longleftrightarrow> bget (in_records s) (identity_key i) = None"
proof -
  have row: "\<exists>r. vk_from_str c (rr_record_json row) = Some r \<and> row_of c r row \<and> er_identity r = i"
    if "bget (in_records s) (identity_key i) = Some row" for row
    using inventory_invD(2) [OF assms(2) that] assms(1)
    by (auto simp: identity_key_inj row_of_def inventory_codec_ok_def)
  then show "inventory_facts c s i = None \<longleftrightarrow> bget (in_records s) (identity_key i) = None"
    by (cases "bget (in_records s) (identity_key i)") (auto simp: inventory_facts_def)
  have "vk_from_str c (rr_record_json row) = Some r'" if "row_of c r' row" for r' row
    using that assms(1) by (auto simp: row_of_def inventory_codec_ok_def)
  with row show "inventory_facts c s i = Some r \<longleftrightarrow>
    (\<exists>row. bget (in_records s) (identity_key i) = Some row \<and> row_of c r row \<and> er_identity r = i)"
    by (cases "bget (in_records s) (identity_key i)") (force simp: inventory_facts_def)+
qed

lemma load_record_facts:
  assumes "inventory_codec_ok c" and "inventory_inv c s"
  shows "load_record c i s = Inr (inventory_facts c s i)"
proof (cases "inventory_facts c s i")
  case None
  with facts_row(2) [OF assms, of i] show ?thesis
    by (simp add: load_record_def)
next
  case (Some r)
  then obtain row where "bget (in_records s) (identity_key i) = Some row" "row_of c r row"
    unfolding facts_row(1) [OF assms] by blast
  with decode_row [OF assms(1)] Some show ?thesis
    by (simp add: load_record_def)
qed

section \<open>Writes\<close>

lemma inventory_facts_Some:
  assumes "inventory_codec_ok c" and "inventory_inv c s" and "inventory_facts c s i = Some r"
  obtains row where "bget (in_records s) (identity_key i) = Some row" "row_of c r row" "er_identity r = i"
    "history s i \<noteq> []" "audit_row_of c r (last (history s i))"
proof -
  from assms(3) obtain row where row: "bget (in_records s) (identity_key i) = Some row" "row_of c r row" "er_identity r = i"
    unfolding facts_row(1) [OF assms(1,2)] by blast
  from inventory_invD(2) [OF assms(2) row(1)] obtain r' where r': "row_of c r' row" "identity_key (er_identity r') = identity_key i"
      "history s (er_identity r') \<noteq> []" "audit_row_of c r' (last (history s (er_identity r')))"
    by blast
  from r'(1) row(2) assms(1) have "r' = r"
    unfolding row_of_def inventory_codec_ok_def by (metis option.inject)
  with r' row that show ?thesis
    by (auto simp: identity_key_inj)
qed

lemma check_expected_ok: "check_expected current w = Inr u \<longleftrightarrow> swap_allowed current w"
  by (cases current; cases "iw_expected_version w") (auto simp: check_expected_def swap_allowed_def)

lemma storable_version:
  assumes "storable_record r"
  shows "er_record_version r \<noteq> - 1"
proof -
  have "\<not> (- 1 :: u64) \<le> 2 ^ 63 - 1"
    by (simp add: word_le_nat_alt unsigned_minus_1_eq_mask mask_eq_exp_minus_1)
  with assms show ?thesis
    by (auto simp: storable_record_def simp del: power_numeral)
qed

text \<open>The next version is one more than the number of audit rows, so the constraint never fires.\<close>

lemma swap_version:
  assumes "inventory_codec_ok c" and "inventory_inv c s" and "storable_record (iw_record w)"
    and "swap_allowed (inventory_facts c s (er_identity (iw_record w))) w"
  shows "unat (er_record_version (iw_record w)) = length (history s (er_identity (iw_record w))) + 1"
proof (cases "inventory_facts c s (er_identity (iw_record w))")
  case None
  with facts_row(2) [OF assms(1,2)] inventory_invD(3) [OF assms(2)] assms(4) show ?thesis
    by (simp add: swap_allowed_def)
next
  case (Some r)
  from inventory_facts_Some [OF assms(1,2) Some]
  obtain hist: "history s (er_identity (iw_record w)) \<noteq> []"
    and last: "audit_row_of c r (last (history s (er_identity (iw_record w))))"
    by metis
  have v: "er_record_version (iw_record w) = saturating_add (er_record_version r) 1"
    using assms(4) Some by (simp add: swap_allowed_def)
  have "saturating_add (- 1 :: u64) 1 = - 1"
    by (simp add: word_unat_eq_iff saturating_succ)
  with v storable_version [OF assms(3)] have "er_record_version r \<noteq> - 1"
    by auto
  then have "unat (er_record_version (iw_record w)) = Suc (unat (er_record_version r))"
    by (simp add: v saturating_succ)
  moreover have "unat (er_record_version r) = length (history s (er_identity (iw_record w)))"
    using audit_chain_last [OF inventory_invD(4) [OF assms(2)] hist] last
    by (simp add: audit_row_of_def row_of_def)
  ultimately show ?thesis
    by simp
qed

lemma swap_unique:
  assumes "inventory_inv c s" and "unat v = length (history s i) + 1"
  shows "\<not> (\<exists>a \<in> set (in_audit s). au_identity a = i \<and> au_record_version a = v)"
  using audit_chain_version [OF inventory_invD(4) [OF assms(1), of i]] assms(2)
  by (force simp: history_def)

lemma prior_hash:
  assumes "inventory_codec_ok c" and "inventory_inv c s"
  shows "(case inventory_facts c s i of None \<Rightarrow> Inr None | Some r \<Rightarrow> bind_r (record_hash c r) (\<lambda>h. Inr (Some h)))
    = Inr (if history s i = [] then None else Some (au_record_hash (last (history s i))))"
proof (cases "inventory_facts c s i")
  case None
  with facts_row(2) [OF assms, of i] inventory_invD(3) [OF assms(2), of i] show ?thesis
    by simp
next
  case (Some r)
  from inventory_facts_Some [OF assms Some] have "history s i \<noteq> []" "audit_row_of c r (last (history s i))"
    by metis+
  with Some show ?thesis
    by (simp add: audit_row_of_def row_of_def record_hash_def record_json_def)
qed

text \<open>A transaction goes through exactly when compare-and-swap allows it.\<close>

lemma apply_write_eq:
  assumes "inventory_codec_ok c" and "inventory_inv c s" and "storable_record (iw_record w)"
  shows "apply_write c w request_hash json s =
    bind_r (check_expected (inventory_facts c s (er_identity (iw_record w))) w) (\<lambda>_.
      bind_r (insert_rows c w request_hash json (hash_bytes c json)
        (if history s (er_identity (iw_record w)) = [] then None
         else Some (au_record_hash (last (history s (er_identity (iw_record w))))))
        (er_record_version (iw_record w)) s) (\<lambda>s'. Inr (iw_record w, s')))"
  using assms(3) by (simp add: apply_write_def load_record_facts [OF assms(1,2)] prior_hash [OF assms(1,2)]
      checked_i64_def storable_record_def)

definition new_audit_row :: "inventory_codec \<Rightarrow> extension_inventory_write \<Rightarrow> string \<Rightarrow> string \<Rightarrow> inventory \<Rightarrow> audit_row" where
  "new_audit_row c w request_hash json s =
     (let i = er_identity (iw_record w) in
      \<lparr>au_sequence = of_nat (length (in_audit s)) + 1, au_operation_id = iw_operation_id w,
       au_request_hash = request_hash, au_identity = i, au_record_version = er_record_version (iw_record w),
       au_kind = audit_kind_name (iw_audit_kind w),
       au_prior_record_hash = (if history s i = [] then None else Some (au_record_hash (last (history s i)))),
       au_record_hash = hash_bytes c json, au_detail = iw_detail w, au_record_json = json\<rparr>)"

lemma apply_write_Inr:
  assumes "inventory_codec_ok c" and "inventory_inv c s" and "storable_record (iw_record w)"
    and "apply_write c w request_hash json s = Inr (r, s')"
  shows "r = iw_record w" and "swap_allowed (inventory_facts c s (er_identity r)) w"
    and "in_mode s' = in_mode s" and "in_audit s' = in_audit s @ [new_audit_row c w request_hash json s]"
    and "in_records s' = binsert (identity_key (er_identity r))
      \<lparr>rr_record_version = er_record_version r, rr_record_json = json, rr_record_hash = hash_bytes c json\<rparr> (in_records s)"
  using assms(4) unfolding apply_write_eq [OF assms(1-3)]
  by (auto simp: bind_r_Inr check_expected_ok insert_rows_def Let_def new_audit_row_def split: if_splits)

lemma apply_write_total:
  assumes "inventory_codec_ok c" and "inventory_inv c s" and "storable_record (iw_record w)"
    and "swap_allowed (inventory_facts c s (er_identity (iw_record w))) w"
  shows "is_ok (apply_write c w request_hash json s)"
proof -
  have "\<not> (\<exists>a \<in> set (in_audit s). au_identity a = er_identity (iw_record w) \<and> au_record_version a = er_record_version (iw_record w))"
    by (rule swap_unique [OF assms(2) swap_version [OF assms]])
  moreover have "check_expected (inventory_facts c s (er_identity (iw_record w))) w = Inr ()"
    using assms(4) by (simp add: check_expected_ok)
  ultimately show ?thesis
    unfolding apply_write_eq [OF assms(1-3)] by (auto simp: insert_rows_def Let_def)
qed

lemma history_append:
  "in_audit s' = in_audit s @ [a] \<Longrightarrow> history s' i = history s i @ (if au_identity a = i then [a] else [])"
  by (simp add: history_def)

lemma apply_write_facts:
  assumes "inventory_codec_ok c" and "inventory_inv c s" and "storable_record (iw_record w)"
    and "apply_write c w request_hash json s = Inr (r, s')" and "vk_jcs_record c r = Some json"
  shows "inventory_facts c s' = (inventory_facts c s)(er_identity r := Some r)"
proof -
  have "vk_from_str c json = Some r"
    using assms(1,5) by (auto simp: inventory_codec_ok_def)
  then show ?thesis
    unfolding inventory_facts_def apply_write_Inr(5) [OF assms(1-4)] by (auto simp: identity_key_inj)
qed

lemma apply_write_inv:
  assumes "inventory_codec_ok c" and "inventory_inv c s" and "validate_record c (iw_record w) = Inr ()"
    and "apply_write c w request_hash json s = Inr (r, s')" and "vk_jcs_record c (iw_record w) = Some json"
    and "iw_operation_id w \<notin> set (map au_operation_id (in_audit s))"
  shows "inventory_inv c s'"
proof -
  have st: "storable_record (iw_record w)"
    using assms(3) by (simp add: validate_record_def split: if_splits)
  note eq = apply_write_Inr [OF assms(1,2) st assms(4)]
  let ?a = "new_audit_row c w request_hash json s" and ?i = "er_identity (iw_record w)"
  let ?row = "\<lparr>rr_record_version = er_record_version r, rr_record_json = json, rr_record_hash = hash_bytes c json\<rparr>"
  have a: "au_identity ?a = ?i" "audit_row_of c r ?a" "row_of c r ?row"
    using assms(3,5) by (simp_all add: eq(1) new_audit_row_def Let_def audit_row_of_def row_of_def)
  have hist: "history s' i = history s i @ (if i = ?i then [?a] else [])" for i
    using history_append [OF eq(4), of i] a(1) by auto
  note inv = inventory_invD [OF assms(2)]
  have rows: "\<exists>r. row_of c r row \<and> identity_key (er_identity r) = k
      \<and> history s' (er_identity r) \<noteq> [] \<and> audit_row_of c r (last (history s' (er_identity r)))"
    if "bget (in_records s') k = Some row" for k row
  proof (cases "k = identity_key ?i")
    case True
    with that a(2,3) show ?thesis
      by (auto simp: eq hist)
  next
    case False
    with that have "bget (in_records s) k = Some row"
      by (simp add: eq)
    from inv(2) [OF this] obtain r' where r': "row_of c r' row" "identity_key (er_identity r') = k"
        "history s (er_identity r') \<noteq> []" "audit_row_of c r' (last (history s (er_identity r')))"
      by blast
    with False have "history s' (er_identity r') = history s (er_identity r')"
      by (auto simp: hist)
    with r' show ?thesis
      by auto
  qed
  moreover have "history s' i = []" if "bget (in_records s') (identity_key i) = None" for i
    using that inv(3) [of i] by (auto simp: eq hist split: if_splits)
  moreover have "audit_chain 0 None (history s' i)" for i
    using inv(4) [of i] swap_version [OF assms(1,2) st] eq(1,2)
    by (auto simp: hist audit_chain_append new_audit_row_def Let_def)
  moreover have "\<exists>r. audit_row_of c r x" if "x \<in> set (in_audit s')" for x
    using that inv(5) a(2) by (auto simp: eq(4))
  moreover have "distinct (map au_operation_id (in_audit s'))"
    using inv(6) assms(6) by (auto simp: eq(4) new_audit_row_def Let_def)
  ultimately show ?thesis
    using inv(1) unfolding inventory_inv_def eq(5) by auto
qed

section \<open>The port contract\<close>

lemma list_records_facts:
  assumes "inventory_codec_ok c" and "inventory_inv c s"
  shows "\<exists>rs. list_records no_faults c e s = Inr rs \<and> distinct (map er_identity rs)
    \<and> (\<forall>r. r \<in> set rs \<longleftrightarrow> inventory_facts c s (er_identity r) = Some r
         \<and> (e = None \<or> e = Some (ei_extension_id (er_identity r))))"
proof -
  define rows where "rows = filter (\<lambda>(k, _). case e of None \<Rightarrow> True | Some i \<Rightarrow> fst k = i) (in_records s)"
  define g where "g row = the (vk_from_str c (rr_record_json row))" for row :: record_row
  have wf: "bwf (in_records s)"
    by (rule inventory_invD(1) [OF assms(2)])
  have row: "row_of c (g row) row \<and> identity_key (er_identity (g row)) = k
      \<and> read_record_columns c row = Inr (g row) \<and> is_ok (validate_record c (g row))"
    if "(k, row) \<in> set (in_records s)" for k row
  proof -
    from that have "bget (in_records s) k = Some row"
      using bget_mem [OF wf] by blast
    with inventory_invD(2) [OF assms(2)] obtain r where r: "row_of c r row" "identity_key (er_identity r) = k"
      by blast
    then have "g row = r"
      using assms(1) by (auto simp: g_def row_of_def inventory_codec_ok_def)
    with r decode_row [OF assms(1) r(1)] show ?thesis
      by (auto simp: read_record_columns_def row_of_def)
  qed
  define rs where "rs = map g (map snd rows)"
  have sub: "set rows \<subseteq> set (in_records s)"
    by (auto simp: rows_def)
  have "try_map (read_record_columns c) (map snd rows) = Inr rs"
    unfolding rs_def by (rule try_map_pure) (use row sub in force)
  moreover have "try_all (validate_record c) rs = Inr ()"
    unfolding try_all_Inr_iff rs_def using row sub by force
  ultimately have "list_records no_faults c e s = Inr (sort_key (\<lambda>r. identity_key (er_identity r)) rs)"
    by (simp add: list_records_def rows_def Let_def begin_access_def no_faults_def)
  moreover have "map (identity_key \<circ> er_identity) rs = bkeys rows"
    unfolding rs_def using row sub by (force simp: comp_def)
  then have "distinct (map (identity_key \<circ> er_identity) rs)"
    using bwf_distinct [OF bwf_filter [OF wf]] by (simp add: rows_def)
  then have "distinct (map er_identity rs)"
    unfolding map_map [symmetric] distinct_map by blast
  then have "distinct (map er_identity (sort_key (\<lambda>r. identity_key (er_identity r)) rs))"
    by (simp add: distinct_map)
  moreover have "r \<in> set rs \<longleftrightarrow> inventory_facts c s (er_identity r) = Some r
      \<and> (e = None \<or> e = Some (ei_extension_id (er_identity r)))" for r
  proof -
    have "r \<in> set rs \<longleftrightarrow> (\<exists>k row. (k, row) \<in> set (in_records s) \<and> g row = r
        \<and> (case e of None \<Rightarrow> True | Some i \<Rightarrow> fst k = i))"
      by (force simp: rs_def rows_def)
    also have "\<dots> \<longleftrightarrow> (\<exists>row. bget (in_records s) (identity_key (er_identity r)) = Some row \<and> row_of c r row
        \<and> (e = None \<or> e = Some (ei_extension_id (er_identity r))))"
    proof -
      have g: "g row = r" if "row_of c r row" for row
        using that assms(1) by (auto simp: g_def row_of_def inventory_codec_ok_def)
      have e: "(case e of None \<Rightarrow> True | Some i \<Rightarrow> fst (identity_key j) = i) \<longleftrightarrow> e = None \<or> e = Some (ei_extension_id j)" for j
        by (cases e) (auto simp: identity_key_def)
      show ?thesis
        unfolding bget_mem [OF wf] e [symmetric] using row g by metis
    qed
    finally show ?thesis
      unfolding facts_row(1) [OF assms] by blast
  qed
  ultimately show ?thesis
    by (metis set_sort)
qed

text \<open>An operation that returned a record is on file, with the hash of its request.\<close>

definition recorded :: "inventory_codec \<Rightarrow> extension_inventory_write \<Rightarrow> extension_record \<Rightarrow> inventory \<Rightarrow> bool" where
  "recorded c w r s \<longleftrightarrow> in_mode s = ReadWrite \<and> validate_write c w = Inr () \<and> is_ok (record_json c (iw_record w))
     \<and> (\<exists>a. find (\<lambda>a. au_operation_id a = iw_operation_id w) (in_audit s) = Some a
          \<and> write_hash c w = Inr (au_request_hash a) \<and> vk_from_str c (au_record_json a) = Some r
          \<and> validate_record c r = Inr ())"

lemma find_append_Some: "find P xs = Some a \<Longrightarrow> find P (xs @ ys) = Some a"
  by (induction xs) auto

lemma find_append_None: "find P xs = None \<Longrightarrow> find P (xs @ ys) = find P ys"
  by (induction xs) (auto split: if_splits)

lemma recorded_mono:
  "recorded c w r s \<Longrightarrow> in_mode t = in_mode s \<Longrightarrow> in_audit t = in_audit s @ xs \<Longrightarrow> recorded c w r t"
  unfolding recorded_def by (auto intro: find_append_Some)

lemma recorded_replay: "recorded c w r s \<Longrightarrow> f (AcWrite w) = None \<Longrightarrow> write_record f c w s = (Inr r, s)"
  unfolding recorded_def by (auto simp: write_record_def begin_access_def elim!: is_okE)

text \<open>The outcomes of a write.\<close>

lemma write_record_cases:
  assumes "inventory_codec_ok c" and "inventory_inv c s" and "write_record f c w s = (x, s')"
  shows "s' = s \<and> (\<forall>r. x = Inr r \<longrightarrow> recorded c w r s)
    \<or> (x = Inr (iw_record w) \<and> inventory_inv c s' \<and> recorded c w (iw_record w) s'
       \<and> swap_allowed (inventory_facts c s (er_identity (iw_record w))) w
       \<and> inventory_facts c s' = (inventory_facts c s)(er_identity (iw_record w) := Some (iw_record w))
       \<and> in_mode s' = in_mode s \<and> (\<exists>a. in_audit s' = in_audit s @ [a]))"
proof (cases "in_mode s")
  case mode: ReadWrite
  let ?pre = "bind_r (validate_write c w) (\<lambda>_. bind_r (write_hash c w) (\<lambda>h.
    bind_r (record_json c (iw_record w)) (\<lambda>json.
    bind_r (begin_access f (AcWrite w)) (\<lambda>_. Inr (h, json)))))"
  show ?thesis
  proof (cases ?pre)
    case (Inl e)
    with mode assms(3) show ?thesis
      by (auto simp: write_record_def)
  next
    case (Inr p)
    then obtain h json where p: "p = (h, json)" and vw: "validate_write c w = Inr ()" and h: "write_hash c w = Inr h"
        and json: "vk_jcs_record c (iw_record w) = Some json"
      by (auto simp: bind_r_Inr record_json_def ok_or_Inr)
    then have vr: "validate_record c (iw_record w) = Inr ()" and st: "storable_record (iw_record w)"
      by (auto simp: validate_write_def validate_record_def bind_r_Inr split: if_splits)
    show ?thesis
    proof (cases "find (\<lambda>a. au_operation_id a = iw_operation_id w) (in_audit s)")
      case (Some a)
      with mode Inr p assms(3) vw h json show ?thesis
        by (auto simp: write_record_def recorded_def bind_r_Inr ok_or_Inr record_json_def split: if_splits)
    next
      case None
      show ?thesis
      proof (cases "apply_write c w h json s")
        case (Inl e)
        with mode None Inr p assms(3) show ?thesis
          by (auto simp: write_record_def)
      next
        case (Inr q)
        obtain r t where q: "q = (r, t)"
          by fastforce
        note app = Inr [unfolded q]
        note eq = apply_write_Inr [OF assms(1,2) st app]
        have res: "x = Inr r" "s' = t"
          using mode None \<open>?pre = Inr p\<close> p app assms(3) by (auto simp: write_record_def)
        have "iw_operation_id w \<notin> set (map au_operation_id (in_audit s))"
          using None by (auto simp: find_None_iff)
        then have "inventory_inv c t"
          by (rule apply_write_inv [OF assms(1,2) vr app json])
        moreover have "inventory_facts c t = (inventory_facts c s)(er_identity r := Some r)"
          by (rule apply_write_facts [OF assms(1,2) st app]) (simp add: eq(1) json)
        moreover have "recorded c w (iw_record w) t"
          using mode vw vr h json None assms(1) unfolding recorded_def eq(3,4)
          by (auto simp: find_append_None new_audit_row_def Let_def record_json_def inventory_codec_ok_def)
        ultimately show ?thesis
          using eq res by auto
      qed
    qed
  qed
next
  case (InspectableReadOnly found)
  with assms(3) show ?thesis
    by (auto simp: write_record_def)
qed

definition inventory_ok :: "inventory_codec \<Rightarrow> inventory \<Rightarrow> bool" where
  "inventory_ok c s \<longleftrightarrow> inventory_codec_ok c \<and> inventory_inv c s"

text \<open>An access either fails with its fault or answers as if there were none.\<close>

lemma list_records_faults:
  "list_records f c e s = (case f (AcList e) of Some x \<Rightarrow> Inl (fault_error x) | None \<Rightarrow> list_records no_faults c e s)"
  by (simp add: list_records_def begin_access_def no_faults_def split: option.split)

lemma list_records_Inr: "list_records f c e s = Inr rs \<Longrightarrow> list_records no_faults c e s = Inr rs"
  by (simp add: list_records_faults [of f] split: option.splits)

lemma load_record_faults:
  "inventory_load_record f c i s = (case f (AcLoad i) of Some x \<Rightarrow> Inl (fault_error x) | None \<Rightarrow> load_record c i s)"
  by (simp add: inventory_load_record_def begin_access_def split: option.split)

interpretation inventory_port: inventory_store "inventory_load f c" "inventory_list f c" "inventory_write f c"
  "inventory_facts c" "inventory_ok c"
proof
  fix s i e w r s' x rs failure
  show "inventory_ok c s \<Longrightarrow> inventory_load f c i s = Inr x \<Longrightarrow> x = inventory_facts c s i"
    by (simp add: inventory_ok_def inventory_load_def map_err_def load_record_faults load_record_facts split: option.splits)
  show "inventory_ok c s \<Longrightarrow> inventory_list f c e s = Inr rs \<Longrightarrow> distinct (map er_identity rs)
      \<and> (\<forall>r. r \<in> set rs \<longleftrightarrow> inventory_facts c s (er_identity r) = Some r
           \<and> (e = None \<or> e = Some (ei_extension_id (er_identity r))))"
    using list_records_facts [of c s e] list_records_Inr [of f c e s]
    by (auto simp: inventory_ok_def inventory_list_def map_err_def split: sum.splits)
  show "inventory_ok c s \<Longrightarrow> inventory_facts c s i = Some r \<Longrightarrow> er_identity r = i"
    by (auto simp: inventory_ok_def facts_row)
  show "inventory_write f c w s = (Inl failure, s') \<Longrightarrow> s' = s"
    by (auto simp: inventory_write_def map_err_def write_record_def split: prod.splits sum.splits inventory_mode.splits option.splits if_splits)
  show "inventory_ok c s \<Longrightarrow> inventory_write f c w s = (Inr r, s') \<Longrightarrow> inventory_ok c s' \<and> (s' = s
        \<or> r = iw_record w \<and> swap_allowed (inventory_facts c s (er_identity r)) w
          \<and> inventory_facts c s' = (inventory_facts c s)(er_identity r := Some r))"
    using write_record_cases [of c s f w "fst (write_record f c w s)" s']
    by (cases "write_record f c w s") (auto simp: inventory_ok_def inventory_write_def map_err_def split: sum.splits)
qed

text \<open>A write under any faults.\<close>

definition inventory_step :: "inventory_codec \<Rightarrow> inventory \<Rightarrow> inventory \<Rightarrow> bool" where
  "inventory_step c s t \<longleftrightarrow> (\<exists>f w x. write_record f c w s = (x, t))"

lemma inventory_step_cases:
  assumes "inventory_ok c s" and "inventory_step c s t"
  shows "inventory_ok c t \<and> in_mode t = in_mode s \<and> (\<exists>xs. in_audit t = in_audit s @ xs)"
  using assms write_record_cases [of c s] unfolding inventory_step_def inventory_ok_def
  by (metis append_Nil2)

interpretation inventory_run: inv_system "inventory_step c" "inventory_ok c"
  by unfold_locales (blast dest: inventory_step_cases)

lemma inventory_steps:
  assumes "(inventory_step c)\<^sup>*\<^sup>* s t" and "inventory_ok c s"
  shows "in_mode t = in_mode s \<and> (\<exists>xs. in_audit t = in_audit s @ xs)"
  by (rule inventory_run.steps_preorder
        [where R = "\<lambda>s t. in_mode t = in_mode s \<and> (\<exists>xs. in_audit t = in_audit s @ xs)", OF _ _ _ assms])
     (use inventory_step_cases in blast, auto)

lemma empty_inventory_ok: "inventory_codec_ok c \<Longrightarrow> inventory_ok c empty_inventory"
  by (simp add: inventory_ok_def inventory_inv_def empty_inventory_def history_def)

section \<open>Properties\<close>

definition zero_hash :: string where
  "zero_hash = ''sha256:'' @ replicate 64 (CHR ''0'')"

definition demo_identity :: extension_identity where
  "demo_identity = \<lparr>ei_extension_id = ''ext'', ei_version = ''1.0.0'', ei_content_hash = zero_hash\<rparr>"

definition demo_manifest :: extension_manifest where
  "demo_manifest = \<lparr>xm_schema_version = 1, xm_identity = demo_identity,
     xm_compatibility = \<lparr>xcr_minimum_aworkit_version = ''0'', xcr_maximum_aworkit_version_exclusive = None,
       xcr_minimum_host_protocol = 1, xcr_maximum_host_protocol = 1\<rparr>,
     xm_entry_point_identity = ''bin/x'', xm_configuration_schema_hash = None, xm_contributions = [], xm_dependencies = [],
     xm_provenance = \<lparr>xp_source = ''local'', xp_publisher = None, xp_signature_status = ''none'', xp_signature_identity = None\<rparr>\<rparr>"

definition demo_record :: extension_record where
  "demo_record = \<lparr>er_manifest = demo_manifest, er_installed = True, er_enabled = False, er_integrity = XiVerified,
     er_compatibility = XcCompatible ''1'' 1, er_quarantine = None, er_record_version = 1, er_last_attestation = None\<rparr>"

definition demo_write :: extension_inventory_write where
  "demo_write = \<lparr>iw_operation_id = ''op'', iw_expected_version = None, iw_record = demo_record,
     iw_audit_kind = AkRegistered, iw_detail = ''registered''\<rparr>"

definition demo_inventory_codec :: inventory_codec where
  "demo_inventory_codec = \<lparr>vk_jcs_record = (\<lambda>r. if r = demo_record then Some ''{}'' else None), vk_jcs_write = (\<lambda>_. Some []),
     vk_from_str = (\<lambda>j. if j = ''{}'' then Some demo_record else None), vk_sha = zero_digest, vk_json_text = [], vk_sql_text = []\<rparr>"

definition demo_inventory :: inventory where
  "demo_inventory = snd (write_record no_faults demo_inventory_codec demo_write empty_inventory)"

lemma demo_inventory_codec_ok: "inventory_codec_ok demo_inventory_codec"
  by (simp add: inventory_codec_ok_def demo_inventory_codec_def)

lemma demo_storable: "storable_record demo_record"
  by code_simp

lemma demo_valid:
  "validate_write demo_inventory_codec demo_write = Inr ()"
  "record_json demo_inventory_codec (iw_record demo_write) = Inr ''{}''"
  "is_ok (write_hash demo_inventory_codec demo_write)"
proof -
  have "validate_record demo_inventory_codec demo_record = Inr ()"
    by (simp add: validate_record_def demo_storable record_json_def demo_inventory_codec_def MAX_RECORD_BYTES_def)
  then show "validate_write demo_inventory_codec demo_write = Inr ()"
    by (simp add: validate_write_def valid_text_def demo_write_def MAX_AUDIT_DETAIL_BYTES_def)
qed (simp_all add: record_json_def write_hash_def demo_inventory_codec_def demo_write_def)

lemma demo_write_ok: "write_record no_faults demo_inventory_codec demo_write empty_inventory = (Inr demo_record, demo_inventory)"
proof -
  let ?c = demo_inventory_codec and ?w = demo_write and ?s = empty_inventory
  obtain h where h: "write_hash ?c ?w = Inr h"
    using demo_valid(3) by (rule is_okE)
  have r: "iw_record ?w = demo_record"
    by (simp add: demo_write_def)
  have inv: "inventory_inv ?c ?s"
    using empty_inventory_ok [OF demo_inventory_codec_ok] by (simp add: inventory_ok_def)
  have "swap_allowed (inventory_facts ?c ?s i) ?w" for i
    by (simp add: swap_allowed_def inventory_facts_def empty_inventory_def demo_write_def demo_record_def)
  then have "is_ok (apply_write ?c ?w h ''{}'' ?s)"
    by (intro apply_write_total [OF demo_inventory_codec_ok inv]) (simp_all add: r demo_storable)
  then obtain q where q: "apply_write ?c ?w h ''{}'' ?s = Inr q"
    by (rule is_okE)
  then obtain t where t: "q = (demo_record, t)"
    using apply_write_Inr(1) [OF demo_inventory_codec_ok inv, of ?w h "''{}''" "fst q" "snd q"]
    by (cases q) (simp add: r demo_storable)
  with q h demo_valid(1,2) have "fst (write_record no_faults ?c ?w ?s) = Inr demo_record"
    by (simp add: write_record_def empty_inventory_def begin_access_def no_faults_def)
  then show ?thesis
    by (simp add: demo_inventory_def prod_eq_iff)
qed

lemma demo_run: "(inventory_step demo_inventory_codec)\<^sup>*\<^sup>* empty_inventory demo_inventory"
  unfolding inventory_step_def using demo_write_ok by (blast intro: r_into_rtranclp)

text \<open>
  C23. The audit log is the complete history of the inventory: after any writes, those that fail
  included, a load of an identity fails only when the gate, the lock or the engine does; otherwise it
  returns nothing exactly when the log has no row for it and else the record of its last row; the rows of an identity carry the versions 1, 2, 3 and so on,
  each with the hash of the record before it; and no operation identifier occurs twice.
\<close>

theorem inventory_history:
  assumes "inventory_codec_ok c" and "(inventory_step c)\<^sup>*\<^sup>* empty_inventory s"
  shows "(case inventory_load_record f c i s of
            Inl e \<Rightarrow> map_option fault_error (f (AcLoad i)) = Some e
          | Inr None \<Rightarrow> history s i = []
          | Inr (Some r) \<Rightarrow> history s i \<noteq> [] \<and> audit_row_of c r (last (history s i)))
    \<and> audit_chain 0 None (history s i) \<and> distinct (map au_operation_id (in_audit s))"
proof -
  have ok: "inventory_codec_ok c" "inventory_inv c s"
    using inventory_run.steps_inv [OF assms(2) empty_inventory_ok [OF assms(1)]] by (simp_all add: inventory_ok_def)
  have "case inventory_facts c s i of None \<Rightarrow> history s i = []
      | Some r \<Rightarrow> history s i \<noteq> [] \<and> audit_row_of c r (last (history s i))"
  proof (cases "inventory_facts c s i")
    case None
    with facts_row(2) [OF ok, of i] inventory_invD(3) [OF ok(2), of i] show ?thesis
      by simp
  next
    case (Some r)
    from inventory_facts_Some [OF ok Some] have "history s i \<noteq> [] \<and> audit_row_of c r (last (history s i))"
      by metis
    with Some show ?thesis
      by simp
  qed
  then show ?thesis
    using inventory_invD(4,6) [OF ok(2)] by (auto simp: load_record_faults load_record_facts [OF ok] split: option.splits)
qed

theorem inventory_history_witness:
  "inventory_load_record no_faults demo_inventory_codec demo_identity demo_inventory = Inr (Some demo_record)
   \<and> history demo_inventory demo_identity \<noteq> [] \<and> audit_chain 0 None (history demo_inventory demo_identity)"
proof -
  have ok: "inventory_codec_ok demo_inventory_codec" "inventory_inv demo_inventory_codec demo_inventory"
    using inventory_run.steps_inv [OF demo_run empty_inventory_ok [OF demo_inventory_codec_ok]] by (simp_all add: inventory_ok_def)
  have inv: "inventory_inv demo_inventory_codec empty_inventory"
    using empty_inventory_ok [OF demo_inventory_codec_ok] by (simp add: inventory_ok_def)
  have "\<not> recorded demo_inventory_codec demo_write demo_record empty_inventory"
    by (simp add: recorded_def empty_inventory_def)
  then have "inventory_facts demo_inventory_codec demo_inventory demo_identity = Some demo_record"
    using write_record_cases [OF demo_inventory_codec_ok inv demo_write_ok]
    by (auto simp: demo_write_def er_identity_def demo_record_def demo_manifest_def)
  then show ?thesis
    using inventory_history [OF demo_inventory_codec_ok demo_run, of no_faults demo_identity] load_record_facts [OF ok, of demo_identity]
    by (simp add: load_record_faults no_faults_def)
qed

text \<open>
  A write takes effect once: when a write returned a record, repeating the same request at any
  later time, after any other writes, returns the same record and changes nothing, unless the access
  itself fails.
\<close>

theorem inventory_write_once:
  assumes "inventory_codec_ok c" and "(inventory_step c)\<^sup>*\<^sup>* empty_inventory s"
    and "write_record f c w s = (Inr r, s')" and "(inventory_step c)\<^sup>*\<^sup>* s' t" and "f' (AcWrite w) = None"
  shows "write_record f' c w t = (Inr r, t)"
proof -
  have ok: "inventory_ok c s"
    by (rule inventory_run.steps_inv [OF assms(2) empty_inventory_ok [OF assms(1)]])
  then have rec: "recorded c w r s'"
    using write_record_cases [OF assms(1) _ assms(3)] by (auto simp: inventory_ok_def)
  have "inventory_step c s s'"
    using assms(3) by (auto simp: inventory_step_def)
  with ok have "inventory_ok c s'"
    by (blast dest: inventory_step_cases)
  from inventory_steps [OF assms(4) this] rec have "recorded c w r t"
    by (blast intro: recorded_mono)
  then show ?thesis
    using assms(5) by (rule recorded_replay)
qed

theorem inventory_write_once_witness:
  "write_record no_faults demo_inventory_codec demo_write demo_inventory = (Inr demo_record, demo_inventory)"
  by (rule inventory_write_once [OF demo_inventory_codec_ok rtranclp.rtrancl_refl demo_write_ok rtranclp.rtrancl_refl])
     (simp add: no_faults_def)

end
