(* ===== verification/Registry_Laws.thy ===== *)
theory Registry_Laws
  imports Registry Inventory_Laws
begin

text \<open>
  What the registry guarantees over any inventory that keeps the port contract, proved once in the
  locale \<open>registry_over\<close> and interpreted on the persisted inventory: records stay sound, a resolved
  pin names attested code, and the dependency walk ends.
\<close>

section \<open>Sound records\<close>

definition record_sound :: "('v, 'i) extension_registry \<Rightarrow> extension_record \<Rightarrow> bool" where
  "record_sound g r \<longleftrightarrow>
     (er_integrity r = XiVerified \<longrightarrow> \<not> malformed_manifest (xr_codec g) (er_manifest r))
     \<and> er_compatibility r \<noteq> XcUnchecked
     \<and> (\<forall>a. er_last_attestation r = Some a \<longrightarrow>
          (\<exists>h set_hash snapshot. a = attestation_of h set_hash snapshot \<and> validate_handshake g r h = Inr ()))"

lemma validate_handshake_cong:
  "er_manifest r = er_manifest r' \<Longrightarrow> validate_handshake g r h = validate_handshake g r' h"
  by (simp add: validate_handshake_def er_identity_def)

lemma validate_handshake_updates:
  "validate_handshake g (r\<lparr>er_record_version := v\<rparr>) h = validate_handshake g r h"
  "validate_handshake g (r\<lparr>er_enabled := e\<rparr>) h = validate_handshake g r h"
  "validate_handshake g (r\<lparr>er_installed := b\<rparr>) h = validate_handshake g r h"
  "validate_handshake g (r\<lparr>er_quarantine := q\<rparr>) h = validate_handshake g r h"
  "validate_handshake g (r\<lparr>er_last_attestation := x\<rparr>) h = validate_handshake g r h"
  "validate_handshake g (r\<lparr>er_compatibility := k\<rparr>) h = validate_handshake g r h"
  by (rule validate_handshake_cong, simp)+

lemma validate_handshake_ok:
  "validate_handshake g r h = Inr u \<longleftrightarrow> hs_host_generation h \<noteq> 0 \<and> hs_host_protocol h = xr_host_protocol g
     \<and> hs_identity h = er_identity r \<and> hs_entry_point_identity h = xm_entry_point_identity (er_manifest r)
     \<and> hs_healthy h \<and> hs_contributions h = xm_contributions (er_manifest r)
     \<and> host_extension_handshake_hash (xr_codec g) h = Inr (hs_handshake_hash h)"
  by (auto simp: validate_handshake_def split: sum.splits)

lemma evaluate_compatibility_checked: "evaluate_compatibility g m \<noteq> XcUnchecked"
  by (auto simp: evaluate_compatibility_def Let_def split: option.splits sum.splits)

lemma evaluate_integrity_verified:
  "evaluate_integrity c x = XiVerified \<Longrightarrow> \<not> malformed_manifest c (ic_manifest x)"
  by (auto simp: evaluate_integrity_def split: if_splits)

lemma record_sound_updates [simp]:
  "record_sound g (r\<lparr>er_record_version := v\<rparr>) = record_sound g r"
  "record_sound g (r\<lparr>er_enabled := e\<rparr>) = record_sound g r"
  "record_sound g (r\<lparr>er_installed := b\<rparr>) = record_sound g r"
  "record_sound g (r\<lparr>er_quarantine := q\<rparr>) = record_sound g r"
  "record_sound g r \<Longrightarrow> record_sound g (r\<lparr>er_last_attestation := None\<rparr>)"
  "record_sound g r \<Longrightarrow> k \<noteq> XcUnchecked \<Longrightarrow> record_sound g (r\<lparr>er_compatibility := k\<rparr>)"
  "record_sound g r \<Longrightarrow> validate_handshake g r h = Inr () \<Longrightarrow>
     record_sound g (r\<lparr>er_last_attestation := Some (attestation_of h x y)\<rparr>)"
  by (simp_all add: record_sound_def validate_handshake_updates) blast+

lemma er_identity_updates [simp]:
  "er_identity (r\<lparr>er_record_version := v\<rparr>) = er_identity r" "er_identity (r\<lparr>er_enabled := e\<rparr>) = er_identity r"
  "er_identity (r\<lparr>er_installed := b\<rparr>) = er_identity r" "er_identity (r\<lparr>er_quarantine := q\<rparr>) = er_identity r"
  "er_identity (r\<lparr>er_last_attestation := x\<rparr>) = er_identity r" "er_identity (r\<lparr>er_compatibility := k\<rparr>) = er_identity r"
  by (simp_all add: er_identity_def)

section \<open>Operations\<close>

datatype registry_op =
    OpRegister stable_id inert_extension_candidate "u64 option"
  | OpSetEnabled stable_id extension_identity u64 bool
  | OpQuarantine stable_id extension_identity u64 string string
  | OpRemove stable_id extension_identity u64
  | OpCheckCompatibility stable_id extension_identity u64
  | OpAttest stable_id extension_identity u64 host_extension_handshake

fun registry_apply ::
  "('v::linorder, 'i) extension_registry \<Rightarrow> registry_op \<Rightarrow> 'i \<Rightarrow> (registry_error + extension_record) \<times> 'i" where
  "registry_apply g (OpRegister o_id x v) s = register_installed g o_id x v s"
| "registry_apply g (OpSetEnabled o_id i v e) s = set_enabled g o_id i v e s"
| "registry_apply g (OpQuarantine o_id i v code message) s = quarantine g o_id i v code message s"
| "registry_apply g (OpRemove o_id i v) s = remove_installed_record g o_id i v s"
| "registry_apply g (OpCheckCompatibility o_id i v) s = check_compatibility g o_id i v s"
| "registry_apply g (OpAttest o_id i v h) s = attest_host_handshake g o_id i v h s"

definition registry_step :: "('v::linorder, 'i) extension_registry \<Rightarrow> 'i \<Rightarrow> 'i \<Rightarrow> bool" where
  "registry_step g s t \<longleftrightarrow> (\<exists>op. snd (registry_apply g op s) = t)"

text \<open>Every stored record is sound.\<close>

definition sound_facts :: "('v, 'i) extension_registry \<Rightarrow> (extension_identity \<Rightarrow> extension_record option) \<Rightarrow> bool" where
  "sound_facts g f \<longleftrightarrow> (\<forall>i r. f i = Some r \<longrightarrow> record_sound g r)"

locale registry_over = inventory_store load listing store facts ok
  for load :: "extension_identity \<Rightarrow> 'i \<Rightarrow> inventory_port_error + extension_record option"
    and listing :: "stable_id option \<Rightarrow> 'i \<Rightarrow> inventory_port_error + extension_record list"
    and store :: "extension_inventory_write \<Rightarrow> 'i \<Rightarrow> (inventory_port_error + extension_record) \<times> 'i"
    and facts :: "'i \<Rightarrow> extension_identity \<Rightarrow> extension_record option"
    and ok :: "'i \<Rightarrow> bool" +
  fixes stored :: "'i \<Rightarrow> nat"
    and g :: "('v::linorder, 'i) extension_registry"
  assumes port: "xr_inventory g = \<lparr>ip_load = load, ip_list = listing, ip_write = store, ip_stored = stored\<rparr>"
    and stored: "ok s \<Longrightarrow> finite (dom (facts s)) \<and> card (dom (facts s)) \<le> stored s"
begin

lemma rg_write_sound:
  assumes "ok s \<and> sound_facts g (facts s)" and "record_sound g (iw_record w)"
  shows "ok (snd (rg_write g w s)) \<and> sound_facts g (facts (snd (rg_write g w s)))"
proof -
  obtain x t where w: "store w s = (x, t)"
    by fastforce
  then have "snd (rg_write g w s) = t"
    by (simp add: rg_write_def port split: sum.splits)
  with store_any [OF _ w] assms show ?thesis
    by (auto simp: sound_facts_def split: if_splits)
qed

lemma write_next_sound:
  "ok s \<and> sound_facts g (facts s) \<Longrightarrow> record_sound g r \<Longrightarrow>
     ok (snd (write_next g o_id v r kind detail s)) \<and> sound_facts g (facts (snd (write_next g o_id v r kind detail s)))"
  by (cases "next_version v") (simp_all add: write_next_def rg_write_sound)

lemma fetch_facts: "ok s \<Longrightarrow> fetch g i v s = Inr r \<Longrightarrow> facts s i = Some r"
  by (auto simp: fetch_def require_record_def rg_load_def port bind_r_Inr ok_or_Inr dest: load_facts split: sum.splits)

lemma fetch_sound: "ok s \<and> sound_facts g (facts s) \<Longrightarrow> fetch g i v s = Inr r \<Longrightarrow> record_sound g r"
  by (auto simp: sound_facts_def dest: fetch_facts)

lemma register_sound:
  assumes "ok s \<and> sound_facts g (facts s)"
  shows "ok (snd (register_installed g o_id x v s)) \<and> sound_facts g (facts (snd (register_installed g o_id x v s)))"
proof -
  let ?x = "x\<lparr>ic_manifest := normalize_manifest (ic_manifest x)\<rparr>"
  have "record_sound g \<lparr>er_manifest = ic_manifest ?x, er_installed = True, er_enabled = e,
      er_integrity = evaluate_integrity (xr_codec g) ?x, er_compatibility = evaluate_compatibility g (ic_manifest ?x),
      er_quarantine = q, er_record_version = n, er_last_attestation = None\<rparr>" for e q n
    using evaluate_integrity_verified [of "xr_codec g" ?x] evaluate_compatibility_checked
    by (simp add: record_sound_def)
  with assms show ?thesis
    unfolding register_installed_def Let_def
    by (auto split: sum.split simp del: inert_extension_candidate.simps intro: rg_write_sound [THEN conjunct1] rg_write_sound [THEN conjunct2])
qed

lemma set_enabled_sound:
  assumes "ok s \<and> sound_facts g (facts s)"
  shows "ok (snd (set_enabled g o_id i v e s)) \<and> sound_facts g (facts (snd (set_enabled g o_id i v e s)))"
proof (cases "bind_r (fetch g i v s) (\<lambda>r. bind_r (if e then ensure_enableable g r s else Inr ()) (\<lambda>_. Inr r))")
  case (Inr r)
  then have "fetch g i v s = Inr r"
    by (auto simp: bind_r_Inr)
  from fetch_sound [OF assms this] Inr assms write_next_sound show ?thesis
    by (simp add: set_enabled_def)
qed (use assms in \<open>simp add: set_enabled_def\<close>)

lemma write_quarantine_sound:
  assumes "ok s \<and> sound_facts g (facts s)" and "record_sound g r" and "write_quarantine g o_id r v code message s = (x, t)"
  shows "ok t \<and> sound_facts g (facts t)"
proof -
  have "record_sound g (r\<lparr>er_quarantine := q, er_last_attestation := None\<rparr>)" for q
    using assms(2) by simp
  from write_next_sound [OF assms(1) this] assms(3) show ?thesis
    by (metis write_quarantine_def snd_conv)
qed

lemma quarantine_sound:
  assumes "ok s \<and> sound_facts g (facts s)"
  shows "ok (snd (quarantine g o_id i v code message s)) \<and> sound_facts g (facts (snd (quarantine g o_id i v code message s)))"
proof (cases "fetch g i v s")
  case (Inr r)
  from write_quarantine_sound [OF assms fetch_sound [OF assms Inr] prod.collapse [symmetric]] Inr show ?thesis
    by (simp add: quarantine_def)
qed (use assms in \<open>simp add: quarantine_def\<close>)

lemma remove_sound:
  assumes "ok s \<and> sound_facts g (facts s)"
  shows "ok (snd (remove_installed_record g o_id i v s)) \<and> sound_facts g (facts (snd (remove_installed_record g o_id i v s)))"
proof (cases "fetch g i v s")
  case (Inr r)
  have "record_sound g (r\<lparr>er_installed := False, er_enabled := False, er_last_attestation := None, er_quarantine := q\<rparr>)" for q
    using fetch_sound [OF assms Inr] by simp
  with Inr write_next_sound [OF assms] show ?thesis
    by (simp add: remove_installed_record_def)
qed (use assms in \<open>simp add: remove_installed_record_def\<close>)

lemma check_compatibility_sound:
  assumes "ok s \<and> sound_facts g (facts s)"
  shows "ok (snd (check_compatibility g o_id i v s)) \<and> sound_facts g (facts (snd (check_compatibility g o_id i v s)))"
proof (cases "fetch g i v s")
  case (Inr r)
  have "record_sound g (r\<lparr>er_compatibility := evaluate_compatibility g m, er_last_attestation := None, er_quarantine := q\<rparr>)" for q m
    using fetch_sound [OF assms Inr] evaluate_compatibility_checked
    unfolding record_sound_updates(4) by (intro record_sound_updates(5,6))
  with Inr write_next_sound [OF assms] assms show ?thesis
    by (simp add: check_compatibility_def Let_def)
qed (use assms in \<open>simp add: check_compatibility_def\<close>)

lemma attest_sound:
  assumes "ok s \<and> sound_facts g (facts s)"
  shows "ok (snd (attest_host_handshake g o_id i v handshake s))
    \<and> sound_facts g (facts (snd (attest_host_handshake g o_id i v handshake s)))"
proof -
  define h where "h = handshake\<lparr>hs_contributions := normalize_contributions (hs_contributions handshake)\<rparr>"
  show ?thesis
  proof (cases "bind_r (fetch g i v s) (\<lambda>r. bind_r (ensure_enableable g r s) (\<lambda>_. bind_r (stale_generation r h) (\<lambda>_. Inr r)))")
    case (Inr r)
    then have "fetch g i v s = Inr r"
      by (auto simp: bind_r_Inr)
    note sound = fetch_sound [OF assms this]
    show ?thesis
    proof (cases "validate_handshake g r h")
      case (Inl reason)
      obtain x t where t: "write_quarantine g o_id r v ''attestation_failed'' reason s = (x, t)"
        by fastforce
      from write_quarantine_sound [OF assms sound t] t Inl Inr show ?thesis
        by (cases x) (simp_all add: attest_host_handshake_def Let_def h_def)
    next
      case valid: (Inr u)
      then have "record_sound g (r\<lparr>er_last_attestation := Some (attestation_of h a b)\<rparr>)" for a b
        using sound by simp
      with Inr valid write_next_sound [OF assms] assms show ?thesis
        by (simp add: attest_host_handshake_def Let_def h_def split: sum.split)
    qed
  qed (use assms in \<open>simp add: attest_host_handshake_def Let_def h_def\<close>)
qed

lemma registry_step_sound:
  assumes "ok s \<and> sound_facts g (facts s)" and "registry_step g s t"
  shows "ok t \<and> sound_facts g (facts t)"
proof -
  from assms(2) obtain op where t: "t = snd (registry_apply g op s)"
    by (auto simp: registry_step_def)
  show ?thesis
    unfolding t by (cases op) (simp_all only: registry_apply.simps register_sound [OF assms(1)] set_enabled_sound [OF assms(1)]
        quarantine_sound [OF assms(1)] remove_sound [OF assms(1)] check_compatibility_sound [OF assms(1)] attest_sound [OF assms(1)] simp_thms)
qed

end

section \<open>Resolution\<close>

text \<open>The code a pin stands for: the exact record, enabled and attested, and its healthy host.\<close>

definition attested_pin ::
  "('v, 'i) extension_registry \<Rightarrow> extension_requirement \<Rightarrow> extension_record \<Rightarrow> host_extension_handshake
    \<Rightarrow> pinned_extension_contribution \<Rightarrow> bool" where
  "attested_pin g q r h pin \<longleftrightarrow>
     er_identity r = pin_identity pin
     \<and> pin_identity pin = \<lparr>ei_extension_id = rq_extension_id q, ei_version = rq_exact_version q,
                           ei_content_hash = rq_exact_content_hash q\<rparr>
     \<and> er_installed r \<and> er_enabled r \<and> er_quarantine r = None \<and> is_compatible r \<and> er_integrity r = XiVerified
     \<and> pin_contribution pin \<in> set (xm_contributions (er_manifest r))
     \<and> xc_contribution_id (pin_contribution pin) = rq_contribution_id q
     \<and> descriptor_hash_matches (xr_codec g) (xc_descriptor (pin_contribution pin))
     \<and> validate_descriptor (xc_descriptor (pin_contribution pin))
     \<and> hs_identity h = pin_identity pin \<and> hs_healthy h \<and> hs_contributions h = xm_contributions (er_manifest r)
     \<and> hs_host_id h = pin_host_id pin \<and> hs_host_generation h = pin_host_generation pin \<and> pin_host_generation pin \<noteq> 0
     \<and> host_extension_handshake_hash (xr_codec g) h = Inr (pin_handshake_hash pin)"

lemma find_SomeD: "find P xs = Some x \<Longrightarrow> x \<in> set xs \<and> P x"
  by (auto simp: find_Some_iff)

lemma resolve_record_resolved:
  assumes "resolve_record g q host generation r s = Inr (ResResolved pin)"
  obtains x a where "er_installed r" "er_enabled r" "er_quarantine r = None" "er_integrity r = XiVerified"
    "\<And>code message v p. er_compatibility r \<noteq> XcIncompatible code message v p"
    "x \<in> set (xm_contributions (er_manifest r))" "xc_contribution_id x = rq_contribution_id q"
    "er_last_attestation r = Some a" "at_host_id a = host" "at_host_generation a = generation"
    "pin = \<lparr>pin_identity = er_identity r, pin_contribution = x, pin_host_id = host, pin_host_generation = generation,
       pin_handshake_hash = at_handshake_hash a\<rparr>"
proof -
  have base: "er_installed r" "er_enabled r" "er_quarantine r = None" "er_integrity r = XiVerified"
    "\<And>code message v p. er_compatibility r \<noteq> XcIncompatible code message v p"
    using assms by (auto simp: resolve_record_def Let_def split: if_splits option.splits extension_compatibility_status.splits)
  let ?find = "find (\<lambda>x. xc_contribution_id x = rq_contribution_id q) (xm_contributions (er_manifest r))"
  let ?rest = "\<lambda>x. (case er_last_attestation r of
                      None \<Rightarrow> Inr (ResUnattested (er_identity r) generation)
                    | Some a \<Rightarrow>
                        if at_host_id a \<noteq> host \<or> at_host_generation a \<noteq> generation
                        then Inr (ResUnattested (er_identity r) generation)
                        else case dependency_snapshot_hash g s r host generation of
                          Inl e \<Rightarrow> if is_dependency_unavailable e then Inr (ResUnattested (er_identity r) generation) else Inl e
                        | Inr snapshot \<Rightarrow>
                            if snapshot \<noteq> at_dependency_snapshot_hash a then Inr (ResUnattested (er_identity r) generation)
                            else Inr (ResResolved \<lparr>pin_identity = er_identity r, pin_contribution = x,
                                        pin_host_id = host, pin_host_generation = generation,
                                        pin_handshake_hash = at_handshake_hash a\<rparr>))"
  have eq: "resolve_record g q host generation r s = (case ?find of None \<Rightarrow> Inr ResMissing | Some x \<Rightarrow> ?rest x)"
  proof (cases "er_compatibility r")
    case (XcIncompatible code message v p)
    with base(5) show ?thesis
      by blast
  qed (simp_all add: resolve_record_def Let_def base(1-4))
  with assms obtain x where x: "?find = Some x" and rest: "?rest x = Inr (ResResolved pin)"
    by (cases ?find) auto
  then obtain a where "er_last_attestation r = Some a" "at_host_id a = host" "at_host_generation a = generation"
    "pin = \<lparr>pin_identity = er_identity r, pin_contribution = x, pin_host_id = host, pin_host_generation = generation,
       pin_handshake_hash = at_handshake_hash a\<rparr>"
    by (auto split: option.splits if_splits sum.splits)
  with that base find_SomeD [OF x] show ?thesis
    by blast
qed

context registry_over
begin

lemma resolved_pin_attested:
  assumes "ok s \<and> sound_facts g (facts s)" and "resolve_contribution g q host generation s = Inr (ResResolved pin)"
  shows "pin_host_id pin = host \<and> pin_host_generation pin = generation
    \<and> (\<exists>r h. facts s (pin_identity pin) = Some r \<and> attested_pin g q r h pin)"
proof -
  from assms(2) obtain records r where list: "listing (Some (rq_extension_id q)) s = Inr records"
    and find: "find (\<lambda>r. ei_version (er_identity r) = rq_exact_version q
        \<and> ei_content_hash (er_identity r) = rq_exact_content_hash q) records = Some r"
    and res: "resolve_record g q host generation r s = Inr (ResResolved pin)"
    by (auto simp: resolve_contribution_def rg_list_def port bind_r_Inr split: sum.splits if_splits option.splits)
  from find_SomeD [OF find] list_iff [OF _ list] assms(1) have r: "facts s (er_identity r) = Some r"
      "er_identity r = \<lparr>ei_extension_id = rq_extension_id q, ei_version = rq_exact_version q,
                           ei_content_hash = rq_exact_content_hash q\<rparr>"
    by (auto intro: extension_identity.equality)
  then have sound: "record_sound g r"
    using assms(1) by (auto simp: sound_facts_def)
  from resolve_record_resolved [OF res] obtain x a where
    base: "er_installed r" "er_enabled r" "er_quarantine r = None" "er_integrity r = XiVerified"
      "\<And>code message v p. er_compatibility r \<noteq> XcIncompatible code message v p"
    and x: "x \<in> set (xm_contributions (er_manifest r))" "xc_contribution_id x = rq_contribution_id q"
    and a: "er_last_attestation r = Some a" "at_host_id a = host" "at_host_generation a = generation"
    and pin: "pin = \<lparr>pin_identity = er_identity r, pin_contribution = x, pin_host_id = host, pin_host_generation = generation,
       pin_handshake_hash = at_handshake_hash a\<rparr>"
    by blast
  from sound a(1) obtain h sh sn where h: "a = attestation_of h sh sn" "validate_handshake g r h = Inr ()"
    unfolding record_sound_def by blast
  have "is_compatible r"
    using base(5) sound by (cases "er_compatibility r") (auto simp: is_compatible_def record_sound_def)
  moreover have "validate_descriptor (xc_descriptor x)" "descriptor_hash_matches (xr_codec g) (xc_descriptor x)"
    using sound base(4) x(1) by (auto simp: record_sound_def malformed_manifest_def list_ex_iff)
  ultimately have "attested_pin g q r h pin"
    using base x r(2) h a(2,3) by (simp add: attested_pin_def pin validate_handshake_ok attestation_of_def)
  with r pin show ?thesis
    by auto
qed

end

section \<open>The dependency walk ends\<close>

lemma dependency_facts_fuel:
  assumes "\<And>d. resolve d \<noteq> Inl RgFuelExhausted"
    and "\<And>d r. d \<in> set ds \<Longrightarrow> resolve d = Inr r \<Longrightarrow> nested r \<noteq> Inl RgFuelExhausted"
  shows "dependency_facts nested resolve host generation ds \<noteq> Inl RgFuelExhausted"
  using assms(2)
proof (induction ds)
  case (Cons d ds)
  show ?case
  proof (cases "resolve d")
    case (Inl e)
    with assms(1) [of d] show ?thesis
      by simp
  next
    case (Inr r)
    with Cons show ?thesis
      by (auto simp: bind_r_Inl bind_r_Inr split: option.splits if_splits)
  qed
qed simp

context registry_over
begin

lemma resolve_dependency_stored:
  assumes "ok s"
  shows "resolve_dependency_record g s d \<noteq> Inl RgFuelExhausted"
    and "resolve_dependency_record g s d = Inr r \<Longrightarrow> facts s (er_identity r) = Some r"
proof -
  show "resolve_dependency_record g s d \<noteq> Inl RgFuelExhausted"
    by (auto simp: resolve_dependency_record_def dependency_range_def rg_list_def inventory_failure_def bind_r_Inl bind_r_Inr
        ok_or_Inl ok_or_Inr split: option.splits list.splits sum.splits)
  assume "resolve_dependency_record g s d = Inr r"
  then obtain bounds rs where rs: "listing (Some (xd_extension_id d)) s = Inr rs" and pick: "(case filter (dependency_candidate g bounds) rs of
      [] \<Rightarrow> Inl (RgDependencyUnavailable (xd_extension_id d)) | [r] \<Rightarrow> Inr r
    | _ \<Rightarrow> Inl (RgDependencyAmbiguous (xd_extension_id d))) = Inr r"
    unfolding resolve_dependency_record_def bind_r_Inr rg_list_def port by (auto split: sum.splits)
  then have "filter (dependency_candidate g bounds) rs = [r]"
    by (cases "filter (dependency_candidate g bounds) rs"; cases "tl (filter (dependency_candidate g bounds) rs)") auto
  then have "r \<in> set (filter (dependency_candidate g bounds) rs)"
    by simp
  then have "r \<in> set rs"
    by simp
  then show "facts s (er_identity r) = Some r"
    using list_iff [OF assms rs] by blast
qed

lemma inner_fuel_enough:
  assumes "ok s" and "finite K" and "\<And>r. facts s (er_identity r) = Some r \<Longrightarrow> identity_key (er_identity r) \<in> K"
  shows "identity_key (er_identity r) \<in> K \<Longrightarrow> card (K - set visiting) < fuel \<Longrightarrow>
    dependency_snapshot_hash_inner fuel g s host generation visiting r \<noteq> Inl RgFuelExhausted"
proof (induction fuel arbitrary: visiting r)
  case (Suc fuel)
  show ?case
  proof (cases "identity_key (er_identity r) \<in> set visiting")
    case False
    let ?v = "sinsert (identity_key (er_identity r)) visiting"
    have "K - set ?v = K - set visiting - {identity_key (er_identity r)}"
      by auto
    moreover have "identity_key (er_identity r) \<in> K - set visiting"
      using False Suc.prems(1) by blast
    ultimately have "card (K - set ?v) < card (K - set visiting)"
      using assms(2) by (metis card_Diff1_less finite_Diff)
    with Suc.prems(2) have "card (K - set ?v) < fuel"
      by linarith
    then have "dependency_facts (dependency_snapshot_hash_inner fuel g s host generation ?v) (resolve_dependency_record g s)
        host generation (xm_dependencies (er_manifest r)) \<noteq> Inl RgFuelExhausted"
      using Suc.IH resolve_dependency_stored [OF assms(1)] assms(3) by (intro dependency_facts_fuel) blast+
    with False show ?thesis
      by (auto simp: bind_r_Inl ok_or_Inl)
  qed simp
qed simp

lemma snapshot_fuel_enough:
  assumes "ok s"
  shows "dependency_snapshot_hash g s r host generation \<noteq> Inl RgFuelExhausted"
proof -
  let ?S = "identity_key ` dom (facts s)" and ?K = "insert (identity_key (er_identity r)) (identity_key ` dom (facts s))"
  have fin: "finite ?K"
    using stored [OF assms] by simp
  have "card ?K \<le> Suc (card ?S)"
    by (rule card_insert_le_m1) simp_all
  also have "card ?S \<le> stored s"
    using stored [OF assms] card_image_le [of "dom (facts s)" identity_key] by simp
  finally have "card (?K - set []) < snapshot_fuel g s"
    by (simp add: snapshot_fuel_def port)
  then show ?thesis
    unfolding dependency_snapshot_hash_def by (intro inner_fuel_enough [OF assms fin]) auto
qed

end

lemma resolve_record_error:
  assumes "resolve_record g q host generation r s = Inl e"
  shows "dependency_snapshot_hash g s r host generation = Inl e \<and> \<not> is_dependency_unavailable e"
proof -
  have "er_installed r" "er_enabled r" "er_quarantine r = None"
    using assms by (simp_all add: resolve_record_def Let_def split: if_splits option.splits)
  moreover from this have "\<exists>x a. find (\<lambda>x. xc_contribution_id x = rq_contribution_id q) (xm_contributions (er_manifest r)) = Some x
      \<and> er_last_attestation r = Some a \<and> er_integrity r = XiVerified"
    using assms by (cases "er_compatibility r") (simp_all add: resolve_record_def Let_def split: if_splits option.splits)
  ultimately show ?thesis
    using assms by (cases "er_compatibility r"; cases "dependency_snapshot_hash g s r host generation")
      (auto simp: resolve_record_def Let_def split: if_splits)
qed

text \<open>The errors of the walk, with those a listing of the inventory failed with.\<close>

definition walk_error :: "(inventory_port_error \<Rightarrow> bool) \<Rightarrow> registry_error \<Rightarrow> bool" where
  "walk_error failed e \<longleftrightarrow> is_dependency_unavailable e \<or> e = RgInvalidManifest ''dependency range''
     \<or> e = RgDependencySnapshotEncoding \<or> e = RgFuelExhausted \<or> (\<exists>x. failed x \<and> e = inventory_failure x)"

lemma dependency_facts_errors:
  assumes "\<And>d e. resolve d = Inl e \<Longrightarrow> walk_error failed e" and "\<And>r e. nested r = Inl e \<Longrightarrow> walk_error failed e"
  shows "dependency_facts nested resolve host generation ds = Inl e \<Longrightarrow> walk_error failed e"
proof (induction ds)
  case (Cons d ds)
  show ?case
  proof (cases "resolve d")
    case (Inl e')
    with assms(1) Cons.prems show ?thesis
      by auto
  next
    case (Inr r)
    with Cons assms(2) [of r] show ?thesis
      by (auto simp: bind_r_Inl walk_error_def is_dependency_unavailable_def split: option.splits if_splits)
  qed
qed simp

context registry_over
begin

abbreviation listing_failed :: "'i \<Rightarrow> inventory_port_error \<Rightarrow> bool" where
  "listing_failed s x \<equiv> \<exists>i. listing (Some i) s = Inl x"

lemma resolve_dependency_errors:
  assumes "resolve_dependency_record g s d = Inl e"
  shows "walk_error (listing_failed s) e"
proof (cases "listing (Some (xd_extension_id d)) s")
  case (Inl x)
  then have "resolve_dependency_record g s d = bind_r (dependency_range g d) (\<lambda>_. Inl (inventory_failure x))"
    by (simp add: resolve_dependency_record_def rg_list_def port)
  with Inl assms show ?thesis
    by (auto simp: dependency_range_def bind_r_Inl bind_r_Inr ok_or_Inl ok_or_Inr walk_error_def split: option.splits)
next
  case (Inr rs)
  with assms show ?thesis
    by (auto simp: resolve_dependency_record_def dependency_range_def rg_list_def port bind_r_Inl bind_r_Inr ok_or_Inl ok_or_Inr
        walk_error_def is_dependency_unavailable_def split: option.splits list.splits)
qed

lemma inner_errors:
  "dependency_snapshot_hash_inner fuel g s host generation visiting r = Inl e \<Longrightarrow> walk_error (listing_failed s) e"
proof (induction fuel arbitrary: visiting r e)
  case (Suc fuel)
  have "walk_error (listing_failed s) e'" if "dependency_facts (dependency_snapshot_hash_inner fuel g s host generation v)
      (resolve_dependency_record g s) host generation ds = Inl e'" for v ds e'
    by (rule dependency_facts_errors [OF _ _ that]) (erule resolve_dependency_errors, erule Suc.IH)
  moreover have "walk_error (listing_failed s) (RgDependencyCycle i)" "walk_error (listing_failed s) RgDependencySnapshotEncoding" for i
    by (simp_all add: walk_error_def is_dependency_unavailable_def)
  ultimately show ?case
    using Suc.prems by (auto simp: bind_r_Inl ok_or_Inl split: if_splits)
qed (simp add: walk_error_def)

lemma resolve_errors:
  assumes "ok s" and "resolve_contribution g q host generation s = Inl e"
  shows "e = RgInvalidManifest ''dependency range'' \<or> e = RgDependencySnapshotEncoding
    \<or> (\<exists>x. listing_failed s x \<and> e = inventory_failure x)"
proof (cases "listing (Some (rq_extension_id q)) s")
  case (Inl x)
  with assms(2) have "e = inventory_failure x"
    by (simp add: resolve_contribution_def rg_list_def port)
  with Inl show ?thesis
    by blast
next
  case (Inr rs)
  with assms(2) obtain r where "resolve_record g q host generation r s = Inl e"
    by (auto simp: resolve_contribution_def rg_list_def port split: if_splits option.splits)
  then have "dependency_snapshot_hash g s r host generation = Inl e \<and> \<not> is_dependency_unavailable e"
    by (rule resolve_record_error)
  then show ?thesis
    using inner_errors snapshot_fuel_enough [OF assms(1)]
    unfolding dependency_snapshot_hash_def walk_error_def by metis
qed

end

section \<open>Over the persisted inventory\<close>

text \<open>The registry over the tables, while the accesses of one operation have the faults \<open>f\<close>.\<close>

definition on_inventory ::
  "access_faults \<Rightarrow> inventory_codec \<Rightarrow> ('v, inventory) extension_registry \<Rightarrow> ('v, inventory) extension_registry" where
  "on_inventory f c g =
     g\<lparr>xr_inventory := \<lparr>ip_load = inventory_load f c, ip_list = inventory_list f c, ip_write = inventory_write f c,
        ip_stored = \<lambda>s. length (in_records s)\<rparr>\<rparr>"

lemma facts_bounded: "finite (dom (inventory_facts c s)) \<and> card (dom (inventory_facts c s)) \<le> length (in_records s)"
proof -
  have inj: "inj_on identity_key (dom (inventory_facts c s))"
    by (rule inj_onI) (simp add: identity_key_inj)
  have sub: "identity_key ` dom (inventory_facts c s) \<subseteq> set (map fst (in_records s))"
    by (force simp: inventory_facts_def bind_eq_Some_conv dest: map_of_SomeD)
  then have "card (identity_key ` dom (inventory_facts c s)) \<le> card (set (map fst (in_records s)))"
    by (rule card_mono [rotated]) simp
  also have "\<dots> \<le> length (in_records s)"
    using card_length [of "map fst (in_records s)"] by simp
  finally show ?thesis
    using card_image [OF inj] finite_imageD [OF finite_subset [OF sub] inj] by simp
qed

interpretation persisted: registry_over "inventory_load f c" "inventory_list f c" "inventory_write f c" "inventory_facts c"
  "inventory_ok c" "\<lambda>s. length (in_records s)" "on_inventory f c g"
  by unfold_locales (simp_all add: on_inventory_def facts_bounded)

text \<open>One operation of the registry, under any faults of its accesses.\<close>

definition persisted_step ::
  "inventory_codec \<Rightarrow> ('v::linorder, inventory) extension_registry \<Rightarrow> inventory \<Rightarrow> inventory \<Rightarrow> bool" where
  "persisted_step c g s t \<longleftrightarrow> (\<exists>f. registry_step (on_inventory f c g) s t)"

lemma sound_facts_on: "sound_facts (on_inventory f c g) = sound_facts g"
  by (simp add: sound_facts_def record_sound_def validate_handshake_def on_inventory_def fun_eq_iff)

interpretation registry_run: inv_system "persisted_step c g"
  "\<lambda>s. inventory_ok c s \<and> sound_facts g (inventory_facts c s)"
proof
  fix s t
  assume s: "inventory_ok c s \<and> sound_facts g (inventory_facts c s)" and "persisted_step c g s t"
  then obtain f where "registry_step (on_inventory f c g) s t"
    by (auto simp: persisted_step_def)
  from persisted.registry_step_sound [OF _ this] s show "inventory_ok c t \<and> sound_facts g (inventory_facts c t)"
    by (simp add: sound_facts_on)
qed

lemma registry_reachable:
  assumes "inventory_codec_ok c" and "(persisted_step c g)\<^sup>*\<^sup>* empty_inventory s"
  shows "inventory_ok c s \<and> sound_facts g (inventory_facts c s)"
proof (rule registry_run.steps_inv [OF assms(2)])
  show "inventory_ok c empty_inventory \<and> sound_facts g (inventory_facts c empty_inventory)"
    using empty_inventory_ok [OF assms(1)] by (simp add: sound_facts_def inventory_facts_def empty_inventory_def)
qed

text \<open>On a reachable inventory a listing fails only with the fault of its access.\<close>

lemma listing_fails:
  assumes "inventory_ok c s" and "inventory_list f c e s = Inl x"
  shows "\<exists>fault. f (AcList e) = Some fault \<and> x = port_error (fault_error fault)"
  using assms list_records_facts [of c s e]
  by (auto simp: inventory_ok_def inventory_list_def map_err_def list_records_faults [of f] split: option.splits)

text \<open>
  Two facts that differ from the documentation. A compatibility change and its reversal lift any
  quarantine. A manifest the inventory cannot store is refused, not retained as quarantined.
\<close>

lemma quarantine_lost_by_recheck:
  "recheck_quarantine (XcCompatible v p) (recheck_quarantine (XcIncompatible code message v' p') (Some q)) = None"
  by (simp add: recheck_quarantine_def)

lemma malformed_manifest_not_retained:
  assumes "inventory_ok c s" and "in_mode s = ReadWrite" and "validate_identity_key (normalize_manifest (ic_manifest x)) = Inr ()"
    and "\<not> storable_manifest (normalize_manifest (ic_manifest x))"
    and "inventory_facts c s (xm_identity (ic_manifest x)) = None" and "f (AcLoad (xm_identity (ic_manifest x))) = None"
  shows "register_installed (on_inventory f c g) o_id x v s =
    (Inl (RgInventory ''invalid_inventory_mutation'' ''extension inventory record is malformed''), s)"
proof -
  have "xm_identity (normalize_manifest (ic_manifest x)) = xm_identity (ic_manifest x)"
    by (simp add: normalize_manifest_def)
  moreover have "inventory_load f c (xm_identity (ic_manifest x)) s = Inr None"
    using assms(1,5,6) by (simp add: inventory_load_def load_record_faults load_record_facts inventory_ok_def map_err_def)
  ultimately show ?thesis
    using assms(2-4)
    by (simp add: register_installed_def Let_def rg_load_def rg_write_def on_inventory_def inventory_write_def write_record_def
        validate_write_def validate_record_def storable_record_def map_err_def port_error_def inventory_failure_def)
qed

section \<open>Properties\<close>

text \<open>One extension with one contribution, registered, enabled and attested by host generation 7.\<close>

definition demo_descriptor :: capability_descriptor where
  "demo_descriptor = \<lparr>cd_capability_id = ''tool.search'', cd_adapter_version = ''1'', cd_kind = CkFileSearch,
     cd_side_effect = SeReadOnly, cd_guarantees_same_id_deduplication = True, cd_supports_streaming = True,
     cd_supports_cancellation = True, cd_supports_continuation = False, cd_supports_sessions = False,
     cd_supports_approval_forwarding = False, cd_supports_mcp_forwarding = False, cd_allowed_scopes = [], cd_secret_slots = [],
     cd_input_schema_hash = None, cd_output_schema_hash = None, cd_requires_workspace = True, cd_required_isolation = None,
     cd_maximum_concurrency = 1, cd_max_input_bytes = 1, cd_max_output_bytes = 1, cd_supported_platforms = [],
     cd_visibility = Mediated, cd_descriptor_hash = zero_hash\<rparr>"

definition demo_contribution :: extension_contribution where
  "demo_contribution = \<lparr>xc_contribution_id = ''contribution.search'', xc_descriptor = demo_descriptor\<rparr>"

definition demo_tool_manifest :: extension_manifest where
  "demo_tool_manifest = demo_manifest\<lparr>xm_contributions := [demo_contribution]\<rparr>"

definition demo_candidate :: inert_extension_candidate where
  "demo_candidate = \<lparr>ic_manifest = demo_tool_manifest, ic_observed_content_hash = zero_hash,
     ic_observed_entry_point_identity = Some ''bin/x''\<rparr>"

definition demo_handshake :: host_extension_handshake where
  "demo_handshake = \<lparr>hs_host_id = ''host'', hs_host_generation = 7, hs_host_protocol = 1, hs_identity = demo_identity,
     hs_entry_point_identity = ''bin/x'', hs_healthy = True, hs_contributions = [demo_contribution], hs_handshake_hash = zero_hash\<rparr>"

definition demo_tool_record :: "nat \<Rightarrow> extension_record" where
  "demo_tool_record n = \<lparr>er_manifest = demo_tool_manifest, er_installed = True, er_enabled = (1 < n), er_integrity = XiVerified,
     er_compatibility = XcCompatible ''1'' 1, er_quarantine = None, er_record_version = of_nat n,
     er_last_attestation = (if n = 3 then Some (attestation_of demo_handshake zero_hash zero_hash) else None)\<rparr>"

definition demo_tool_codec :: inventory_codec where
  "demo_tool_codec = \<lparr>
     vk_jcs_record = (\<lambda>r. if r = demo_tool_record 1 then Some ''1'' else if r = demo_tool_record 2 then Some ''2''
        else if r = demo_tool_record 3 then Some ''3'' else None),
     vk_jcs_write = (\<lambda>w. Some (iw_operation_id w)),
     vk_from_str = (\<lambda>j. if j = ''1'' then Some (demo_tool_record 1) else if j = ''2'' then Some (demo_tool_record 2)
        else if j = ''3'' then Some (demo_tool_record 3) else None),
     vk_sha = zero_digest, vk_json_text = [], vk_sql_text = []\<rparr>"

definition demo_registry :: "(nat, inventory) extension_registry" where
  "demo_registry = on_inventory no_faults demo_tool_codec
     \<lparr>xr_inventory = \<lparr>ip_load = \<lambda>_ _. Inr None, ip_list = \<lambda>_ _. Inr [], ip_write = \<lambda>w s. (Inr (iw_record w), s), ip_stored = \<lambda>_. 0\<rparr>,
      xr_aworkit_version = 1, xr_aworkit_version_text = ''1'', xr_host_protocol = 1, xr_semver = (\<lambda>_. Some 0),
      xr_codec = \<lparr>xk_jcs_descriptor = (\<lambda>_. Some []), xk_jcs_handshake = (\<lambda>_. Some []), xk_jcs_set = (\<lambda>_. Some []), xk_sha = zero_digest\<rparr>,
      xr_jcs_facts = (\<lambda>_. Some [])\<rparr>"

definition demo_tool_inventory :: inventory where
  "demo_tool_inventory =
     snd (attest_host_handshake demo_registry ''op3'' demo_identity 2 demo_handshake
       (snd (set_enabled demo_registry ''op2'' demo_identity 1 True
          (snd (register_installed demo_registry ''op1'' demo_candidate None empty_inventory)))))"

definition demo_requirement :: extension_requirement where
  "demo_requirement = \<lparr>rq_extension_id = ''ext'', rq_contribution_id = ''contribution.search'', rq_exact_version = ''1.0.0'',
     rq_exact_content_hash = zero_hash\<rparr>"

definition demo_pin :: pinned_extension_contribution where
  "demo_pin = \<lparr>pin_identity = demo_identity, pin_contribution = demo_contribution, pin_host_id = ''host'', pin_host_generation = 7,
     pin_handshake_hash = zero_hash\<rparr>"

lemma demo_resolves:
  "resolve_contribution demo_registry demo_requirement ''host'' 7 demo_tool_inventory = Inr (ResResolved demo_pin)"
  by code_simp

lemma demo_tool_codec_ok: "inventory_codec_ok demo_tool_codec"
  by (auto simp: inventory_codec_ok_def demo_tool_codec_def split: if_splits)

lemma demo_registry_on: "on_inventory no_faults demo_tool_codec demo_registry = demo_registry"
  by (simp add: demo_registry_def on_inventory_def)

lemma demo_registry_run: "(persisted_step demo_tool_codec demo_registry)\<^sup>*\<^sup>* empty_inventory demo_tool_inventory"
proof -
  have "persisted_step demo_tool_codec demo_registry s (snd (registry_apply demo_registry op s))" for op s
    unfolding persisted_step_def registry_step_def using demo_registry_on by metis
  from this [of _ "OpRegister _ _ _"] this [of _ "OpSetEnabled _ _ _ _"] this [of _ "OpAttest _ _ _ _"] show ?thesis
    unfolding demo_tool_inventory_def registry_apply.simps
    by (meson rtranclp.rtrancl_into_rtrancl rtranclp.rtrancl_refl)
qed

text \<open>
  C5. Only attested code is pinned: after any run of registry operations, failing ones included,
  and whatever storage faults the operations meet,
  a requirement resolves only to the record with exactly the required identity, version and content
  hash, installed, enabled, verified, compatible and not quarantined; the pinned contribution is one
  of its manifest whose descriptor hash recomputes; and the pin's handshake hash is that of a healthy
  handshake of the very host generation asked for, with the manifest's contributions.
\<close>

theorem resolved_pins_attested:
  assumes "inventory_codec_ok c" and "(persisted_step c g)\<^sup>*\<^sup>* empty_inventory s"
    and "resolve_contribution (on_inventory f c g) q host generation s = Inr (ResResolved pin)"
  shows "pin_host_id pin = host \<and> pin_host_generation pin = generation
    \<and> (\<exists>r h. load_record c (pin_identity pin) s = Inr (Some r) \<and> attested_pin (on_inventory f c g) q r h pin)"
proof -
  note inv = registry_reachable [OF assms(1,2)]
  then have "load_record c i s = Inr (inventory_facts c s i)" for i
    by (simp add: inventory_ok_def load_record_facts)
  with persisted.resolved_pin_attested [OF inv [folded sound_facts_on [of f c g]] assms(3)] show ?thesis
    by simp
qed

theorem resolved_pins_attested_witness:
  "\<exists>r h. load_record demo_tool_codec demo_identity demo_tool_inventory = Inr (Some r)
     \<and> attested_pin demo_registry demo_requirement r h demo_pin"
  using resolved_pins_attested [of demo_tool_codec demo_registry _ no_faults, unfolded demo_registry_on,
    OF demo_tool_codec_ok demo_registry_run demo_resolves]
  by (simp add: demo_pin_def)

text \<open>
  C34. Resolution always answers: on every inventory the registry can produce, with cyclic
  dependencies as with any others, the walk over the dependencies ends within the bound of one call
  for each stored record. The only errors are a version range that does not parse, a failure of the
  JSON encoder, and the failure of a listing, reported with the port's code and message, which
  happens only when the maintenance gate, the connection's lock or the database engine failed it;
  everything else is reported as a resolution.
\<close>

theorem resolution_answers:
  assumes "inventory_codec_ok c" and "(persisted_step c g)\<^sup>*\<^sup>* empty_inventory s"
  shows "(case resolve_contribution (on_inventory f c g) q host generation s of
       Inr resolution \<Rightarrow> True
     | Inl e \<Rightarrow> e = RgInvalidManifest ''dependency range'' \<or> e = RgDependencySnapshotEncoding
         \<or> (\<exists>i fault. f (AcList (Some i)) = Some fault \<and> e = inventory_failure (port_error (fault_error fault))))
    \<and> dependency_snapshot_hash (on_inventory f c g) s r host generation \<noteq> Inl RgFuelExhausted"
proof -
  have ok: "inventory_ok c s"
    using registry_reachable [OF assms] by simp
  then have "dependency_snapshot_hash (on_inventory f c g) s r host generation \<noteq> Inl RgFuelExhausted"
    by (rule persisted.snapshot_fuel_enough)
  then show ?thesis
    using persisted.resolve_errors [OF ok, of f g q host generation] listing_fails [OF ok, of f]
    by (cases "resolve_contribution (on_inventory f c g) q host generation s") (simp_all, metis)
qed

theorem resolution_answers_witness:
  "dependency_snapshot_hash demo_registry demo_tool_inventory (demo_tool_record 3) ''host'' 7 = Inr zero_hash
   \<and> dependency_snapshot_hash demo_registry demo_tool_inventory (demo_tool_record 3) ''host'' 7 \<noteq> Inl RgFuelExhausted"
proof -
  have "dependency_snapshot_hash demo_registry demo_tool_inventory (demo_tool_record 3) ''host'' 7 = Inr zero_hash"
    by (simp add: dependency_snapshot_hash_def snapshot_fuel_def demo_registry_def on_inventory_def demo_tool_record_def
        demo_tool_manifest_def demo_manifest_def zero_digest_def zero_hash_def)
  with resolution_answers [of demo_tool_codec demo_registry _ no_faults, unfolded demo_registry_on, OF demo_tool_codec_ok demo_registry_run]
  show ?thesis
    by blast
qed

end
