(* ===== verification/Authority_Laws.thy ===== *)
theory Authority_Laws
  imports Authority Registry_Laws
begin

text \<open>
  What the core freezes the worker accepts: versions, hashes, bindings and node capabilities of a
  frozen snapshot pass every check of the worker's compiler that concerns them. A pinned extension
  gives a binding the freezer accepts. A grant is consumed once.
\<close>

section \<open>Bindings\<close>

abbreviation frozen_types :: "capability_binding_v1 \<Rightarrow> capability_binding_v1" where
  "frozen_types b \<equiv> b\<lparr>bv_allowed_node_types := sorted_dedup (bv_allowed_node_types b)\<rparr>"

lemma freeze_bindings_Inr:
  assumes "freeze_bindings bs seen = Inr bindings"
  shows "bindings = map frozen_types bs" "distinct (map bv_capability_id bs)"
    "\<forall>b \<in> set bs. bv_capability_id b \<notin> set seen"
    "\<forall>b \<in> set bs. core_validate_binding (frozen_types b) = Inr ()"
proof -
  have "bindings = map frozen_types bs \<and> distinct (map bv_capability_id bs)
    \<and> (\<forall>b \<in> set bs. bv_capability_id b \<notin> set seen) \<and> (\<forall>b \<in> set bs. core_validate_binding (frozen_types b) = Inr ())"
    using assms
  proof (induction bs arbitrary: seen bindings)
    case (Cons b bs)
    then obtain rest where
      "bv_capability_id b \<notin> set seen" "core_validate_binding (frozen_types b) = Inr ()"
      "freeze_bindings bs (sinsert (bv_capability_id b) seen) = Inr rest" "bindings = frozen_types b # rest"
      by (cases "core_validate_binding (frozen_types b)") (auto simp: bind_r_Inr Let_def split: if_splits)
    then show ?case
      using Cons.IH [of "sinsert (bv_capability_id b) seen" rest] by (simp add: image_iff) metis
  qed simp
  then show "bindings = map frozen_types bs" "distinct (map bv_capability_id bs)"
    "\<forall>b \<in> set bs. bv_capability_id b \<notin> set seen"
    "\<forall>b \<in> set bs. core_validate_binding (frozen_types b) = Inr ()"
    by simp_all
qed

lemma core_validate_frozen: "core_validate_binding b = Inr () \<Longrightarrow> validate_binding (frozen_execution_binding b) = Inr ()"
  by (auto simp: core_validate_binding_def validate_binding_def frozen_execution_binding_def invalid_extension_def
      invalid_isolation_def split: if_splits option.splits)

lemma set_frozen_refs: "bcontains (bmap_of_list (map (\<lambda>b. (f b, b)) bs)) k \<longleftrightarrow> k \<in> f ` set bs"
proof -
  have "bcontains (fold (\<lambda>e. binsert (fst e) (snd e)) es m) k \<longleftrightarrow> bcontains m k \<or> k \<in> fst ` set es"
    for es and m :: "('a, 'b) bmap"
    by (induction es arbitrary: m) (auto simp: bcontains_def)
  from this [of "map (\<lambda>b. (f b, b)) bs" "[]"] show ?thesis
    by (simp add: bmap_of_list_def bcontains_def image_image)
qed

lemma check_node_capability:
  assumes "check_node (bmap_of_list (map (\<lambda>b. (bv_capability_id b, b)) bs)) n = Inr ()"
  shows "validate_capability (canonicalize_node n) (bset_of_list (map bv_capability_id bs)) = Inr ()"
  using assms set_frozen_refs [of bv_capability_id bs]
  by (auto simp: check_node_def validate_capability_def canonicalize_node_def bcontains_def split: option.splits if_splits)

section \<open>Snapshots\<close>

lemma snapshot_hash_content:
  assumes "pc_jcs_snapshot pc = ac_jcs_snapshot c" and "pc_sha pc = ac_sha c" and "snapshot_hash c s = Inr h"
  shows "snapshot_content_hash pc (s\<lparr>ws_snapshot_hash := x\<rparr>) = Inr h"
  using assms by (auto simp: snapshot_hash_def snapshot_content_hash_def canonicalize_snapshot_def bind_r_Inr ok_or_Inr)

lemma snapshot_hash_digest: "snapshot_hash c s = Inr h \<Longrightarrow> \<exists>b. h = ac_sha c b"
  by (auto simp: snapshot_hash_def bind_r_Inr)

lemma hex_digest_valid: "hex_digest sha \<Longrightarrow> valid_sha256 (sha m)"
  by (auto simp: hex_digest_def valid_sha256_def list_all_iff lower_hex_hex)

lemma seal_snapshot_Inr:
  assumes "seal_snapshot c q bindings = Inr (s, m)"
  obtains bytes i h where "snapshot_hash c (build_snapshot q i (ac_sha c bytes) bindings) = Inr h"
    "s = (build_snapshot q i (ac_sha c bytes) bindings)\<lparr>ws_snapshot_hash := h\<rparr>"
    "m = build_manifest i (ac_sha c bytes) bindings"
proof -
  from assms obtain bytes where "ac_jcs_bindings c bindings = Some bytes"
    by (auto simp: seal_snapshot_def bind_r_Inr ok_or_Inr)
  with assms show thesis
    by (cases "stable_id_parse (''manifest.'' @ take 32 (ac_sha c bytes))")
       (auto simp: seal_snapshot_def bind_r_Inr Let_def simp del: append_Cons append_Nil intro: that)
qed

lemma freeze_v1_Inr:
  assumes "freeze_v1 fs c q = Inr (s, m)"
  obtains bindings mh i h where
    "freeze_bindings (sort_key bv_capability_id (rv_capability_bindings q)) [] = Inr bindings"
    "\<forall>n \<in> set (rv_nodes q). check_node (bmap_of_list (map (\<lambda>b. (bv_capability_id b, b)) bindings)) n = Inr ()"
    "\<exists>b. rv_workflow_hash q = ac_sha c b" "\<exists>b. mh = ac_sha c b"
    "snapshot_hash c (build_snapshot q i mh bindings) = Inr h"
    "s = (build_snapshot q i mh bindings)\<lparr>ws_snapshot_hash := h\<rparr>" "m = build_manifest i mh bindings"
proof -
  let ?m = "\<lambda>bs. bmap_of_list (map (\<lambda>b. (bv_capability_id b, b)) bs)"
  from assms obtain bindings where
    w: "workflow_graph_hash c (rv_nodes q) (rv_transitions q) (rv_entry_nodes q) (rv_loop_descriptors q)
          (rv_join_descriptors q) (rv_route_rules q) = Inr (rv_workflow_hash q)" and
    b: "freeze_bindings (sort_key bv_capability_id (rv_capability_bindings q)) [] = Inr bindings" and
    n: "try_all (check_node (?m bindings)) (rv_nodes q) = Inr ()" and
    rest: "seal_snapshot c q bindings = Inr (s, m)"
    unfolding freeze_v1_def by (auto simp: bind_r_Inr split: sum.splits if_splits)
  from rest obtain bytes i h where
    seal: "snapshot_hash c (build_snapshot q i (ac_sha c bytes) bindings) = Inr h"
    "s = (build_snapshot q i (ac_sha c bytes) bindings)\<lparr>ws_snapshot_hash := h\<rparr>"
    "m = build_manifest i (ac_sha c bytes) bindings"
    by (rule seal_snapshot_Inr)
  have "\<exists>x. rv_workflow_hash q = ac_sha c x"
    using w by (auto simp: workflow_graph_hash_def bind_r_Inr) metis
  moreover have "check_node (?m bindings) n = Inr ()" if "n \<in> set (rv_nodes q)" for n
    using n that by (cases "check_node (?m bindings) n") (force simp: try_all_Inr_iff)+
  ultimately show thesis
    using seal b by (intro that [OF b _ _ _ seal]) auto
qed


section \<open>The worker accepts what the core froze\<close>

lemma validate_capabilities_frozen:
  assumes "freeze_bindings bs [] = Inr bindings"
    and "ws_capability_bindings s = map frozen_execution_binding bindings"
    and "ws_capability_refs s = map bv_capability_id bindings"
  shows "validate_capabilities (canonicalize_snapshot s) = Inr (bset_of_list (map bv_capability_id bindings))"
proof -
  have ids: "map fcb_capability_id (ws_capability_bindings s) = ws_capability_refs s"
    by (simp add: assms frozen_execution_binding_def)
  have dist: "distinct (ws_capability_refs s)"
    using freeze_bindings_Inr [OF assms(1)] assms(3) by (simp add: comp_def)
  have valid: "validate_binding b = Inr ()" if "b \<in> set (ws_capability_bindings s)" for b
    using that freeze_bindings_Inr [OF assms(1)] assms(2) by (auto intro!: core_validate_frozen)
  have same: "bset_of_list (map fcb_capability_id (sort_key fcb_capability_id (ws_capability_bindings s)))
      = bset_of_list (ws_capability_refs s)" "bset_of_list (sort (ws_capability_refs s)) = bset_of_list (ws_capability_refs s)"
    by (auto intro!: swf_ext simp flip: ids)
  have "try_all validate_binding (sort_key fcb_capability_id (ws_capability_bindings s)) = Inr ()"
    by (simp add: try_all_Inr_iff valid)
  then show ?thesis
    using same dist arg_cong [OF ids, of length] bset_length_eq_iff [of "map bv_capability_id bindings"]
    by (simp add: validate_capabilities_def canonicalize_snapshot_def Let_def assms(3))
qed

text \<open>
  C9. The composition of the core's freezer with the worker's compiler. A snapshot the core froze, handed to
  the worker under its own hash, passes the schema, compiler version, digest and content-hash checks of
  \<open>compile\<close>, whose outcome is then that of the size bounds and the graph; the capability list
  validates, every node's capability resolves in it, and the snapshot names the manifest that was returned,
  with one frozen binding for each of its bindings. Both crates call the same RFC 8785 writer and the same
  SHA-256 on the snapshot.
\<close>

theorem freeze_accepted_by_worker:
  assumes "freeze_v1 fs c q = Inr (s, m)" and "hex_digest (ac_sha c)"
    and "pc_jcs_snapshot pc = ac_jcs_snapshot c" and "pc_sha pc = ac_sha c"
  shows "compile pc s (ws_snapshot_hash s)
           = bind_r (validate_snapshot_bounds pc s) (\<lambda>_. build_plan pc (canonicalize_snapshot s))
         \<and> (\<exists>refs. validate_capabilities (canonicalize_snapshot s) = Inr refs
              \<and> (\<forall>n \<in> set (ws_nodes (canonicalize_snapshot s)). validate_capability n refs = Inr ()))
         \<and> ws_authority_manifest_ref s = mv_manifest_id m \<and> ws_authority_manifest_hash s = mv_manifest_hash m
         \<and> ws_capability_bindings s = map frozen_execution_binding (mv_capability_bindings m)"
proof -
  from assms(1) obtain bindings mh i h where
    b: "freeze_bindings (sort_key bv_capability_id (rv_capability_bindings q)) [] = Inr bindings" and
    n: "\<forall>n \<in> set (rv_nodes q). check_node (bmap_of_list (map (\<lambda>b. (bv_capability_id b, b)) bindings)) n = Inr ()" and
    d: "\<exists>b. rv_workflow_hash q = ac_sha c b" "\<exists>b. mh = ac_sha c b" and
    h: "snapshot_hash c (build_snapshot q i mh bindings) = Inr h" and
    s: "s = (build_snapshot q i mh bindings)\<lparr>ws_snapshot_hash := h\<rparr>" and m: "m = build_manifest i mh bindings"
    by (rule freeze_v1_Inr)
  have hash: "snapshot_content_hash pc s = Inr h"
    unfolding s by (rule snapshot_hash_content [OF assms(3,4) h])
  have "valid_sha256 (ws_workflow_hash s)" "valid_sha256 (ws_authority_manifest_hash s)" "valid_sha256 h"
    using d snapshot_hash_digest [OF h] hex_digest_valid [OF assms(2)] by (auto simp: s build_snapshot_def)
  then have "compile pc s (ws_snapshot_hash s)
      = bind_r (validate_snapshot_bounds pc s) (\<lambda>_. build_plan pc (canonicalize_snapshot s))"
    by (simp add: compile_def hash) (simp add: s build_snapshot_def SUPPORTED_WORKER_SCHEMA_VERSION_def WORKER_COMPILER_VERSION_def)
  moreover have "validate_capabilities (canonicalize_snapshot s) = Inr (bset_of_list (map bv_capability_id bindings))"
    by (rule validate_capabilities_frozen [OF b]) (simp_all add: s build_snapshot_def)
  moreover have "\<forall>n \<in> set (ws_nodes (canonicalize_snapshot s)).
      validate_capability n (bset_of_list (map bv_capability_id bindings)) = Inr ()"
    using n by (auto simp: s build_snapshot_def canonicalize_snapshot_def intro: check_node_capability)
  ultimately show ?thesis
    by (simp add: s m build_snapshot_def build_manifest_def)
qed

definition demo_fs :: fs_port where
  "demo_fs = \<lparr>fs_canonicalize = Some, fs_is_dir = (\<lambda>_. Some True), fs_created_nanos = (\<lambda>_. Some None),
     fs_handle_hash = (\<lambda>_. Some 0xA1), fs_to_string_lossy = id, fs_simplified = id, fs_os = ''linux'',
     fs_create_dir_all = (\<lambda>_. True)\<rparr>"

definition demo_authority_codec :: authority_codec where
  "demo_authority_codec = \<lparr>ac_jcs_legacy = (\<lambda>_. Some []), ac_jcs_bindings = (\<lambda>_. Some []), ac_jcs_graph = (\<lambda>_. Some []),
     ac_jcs_snapshot = (\<lambda>_. Some []), ac_sha = zero_digest\<rparr>"

text \<open>A workflow whose tool is the pinned contribution of the extension registry's example.\<close>

definition demo_request :: snapshot_request_v1 where
  "demo_request = \<lparr>rv_snapshot_id = ''s'', rv_chat_id = ''c'', rv_run_id = ''r'', rv_workflow_hash = zero_digest [],
     rv_nodes = [(demo_node ''search'' ExBrokered)\<lparr>wn_capability_ref := Some (cd_capability_id demo_descriptor)\<rparr>,
                 demo_node ''done'' ExTerminal],
     rv_transitions = [demo_transition ''t'' ''search'' ''done'' 0 None], rv_entry_nodes = [''search''],
     rv_loop_descriptors = [], rv_join_descriptors = [], rv_route_rules = [],
     rv_workspace = \<lparr>wbv_root = ''/w'', wbv_identity = \<lparr>wiv_canonical_path = ''/w'', wiv_platform = ''linux'',
        wiv_filesystem_object_id = ''object:00000000000000a1''\<rparr>\<rparr>,
     rv_capability_bindings = [from_extension_pin demo_pin ArPerInvocation [''step'']],
     rv_budget = demo_budget, rv_history_mode = LocalSqlite\<rparr>"

definition demo_frozen :: "worker_frozen_run_snapshot \<times> authority_manifest_v1" where
  "demo_frozen = (case freeze_v1 demo_fs demo_authority_codec demo_request of Inr r \<Rightarrow> r)"

lemma demo_freezes: "is_ok (freeze_v1 demo_fs demo_authority_codec demo_request)"
  by code_simp

lemma demo_frozen_plan: "is_ok (build_plan demo_codec (canonicalize_snapshot (fst demo_frozen)))"
  by code_simp

lemma demo_frozen_sizes:
  "map (\<lambda>f. f (fst demo_frozen)) [length \<circ> ws_nodes, length \<circ> ws_transitions, length \<circ> ws_entry_nodes,
     length \<circ> ws_loop_descriptors, length \<circ> ws_join_descriptors, length \<circ> ws_route_rules, length \<circ> ws_capability_bindings,
     length \<circ> ws_capability_refs] = [2, 1, 1, 0, 0, 0, 1, 1]"
  by code_simp

theorem freeze_accepted_by_worker_witness:
  "is_ok (compile demo_codec (fst demo_frozen) (ws_snapshot_hash (fst demo_frozen)))"
proof -
  have frozen: "freeze_v1 demo_fs demo_authority_codec demo_request = Inr (fst demo_frozen, snd demo_frozen)"
    using demo_freezes by (auto simp: demo_frozen_def split: sum.splits)
  have codec: "hex_digest (ac_sha demo_authority_codec)" "pc_jcs_snapshot demo_codec = ac_jcs_snapshot demo_authority_codec"
    "pc_sha demo_codec = ac_sha demo_authority_codec"
    by (simp_all add: demo_authority_codec_def demo_codec_def hex_digest_zero)
  have "compile demo_codec (fst demo_frozen) (ws_snapshot_hash (fst demo_frozen)) =
      bind_r (validate_snapshot_bounds demo_codec (fst demo_frozen)) (\<lambda>_. build_plan demo_codec (canonicalize_snapshot (fst demo_frozen)))"
    using freeze_accepted_by_worker [OF frozen codec] by blast
  then show ?thesis
    using demo_frozen_plan demo_frozen_sizes by (simp add: validate_snapshot_bounds_def demo_codec_def)
qed

section \<open>Grants\<close>

datatype engine_call =
    EcDeny stable_id
  | EcAuthorize capability_binding_v1 authority_manifest_v1 stable_id u64 "approval_grant option"

fun engine_apply :: "engine_call \<Rightarrow> approval_engine \<Rightarrow> approval_decision option \<times> approval_engine" where
  "engine_apply (EcDeny i) e = (None, engine_deny i e)"
| "engine_apply (EcAuthorize b m i t g) e = (case engine_authorize b m i t g e of (d, e') \<Rightarrow> (Some d, e'))"

fun engine_run :: "engine_call list \<Rightarrow> approval_engine \<Rightarrow> approval_decision option list" where
  "engine_run [] e = []"
| "engine_run (k # ks) e = (case engine_apply k e of (d, e') \<Rightarrow> d # engine_run ks e')"

fun approved_by :: "approval_decision option \<Rightarrow> stable_id list" where
  "approved_by (Some (AdApproved a)) = [a]"
| "approved_by _ = []"

lemma engine_apply_approved:
  assumes "fst (engine_apply k e) = Some (AdApproved a)"
  shows "\<exists>b m i t g. k = EcAuthorize b m i t (Some g) \<and> ag_approval_id g = a \<and> ag_invocation_id g = i
      \<and> ag_authority_manifest_ref g = mv_manifest_id m \<and> t < ag_expires_at_tick g
      \<and> i \<notin> set (en_denied_invocations e)"
    and "a \<notin> set (en_consumed e)"
  using assms
  by (cases k; auto simp: engine_authorize_def not_le split: if_splits option.splits)+

lemma engine_apply_state:
  "set (en_consumed (snd (engine_apply k e))) = set (en_consumed e) \<union> set (approved_by (fst (engine_apply k e)))"
  "i \<in> set (en_denied_invocations (snd (engine_apply k e))) \<longleftrightarrow> i \<in> set (en_denied_invocations e) \<or> k = EcDeny i"
  by (cases k; auto simp: engine_authorize_def engine_deny_def split: option.splits)+

lemma engine_run_fresh:
  "distinct (concat (map approved_by (engine_run ks e)))
   \<and> (\<forall>a \<in> set (concat (map approved_by (engine_run ks e))). a \<notin> set (en_consumed e))"
proof (induction ks arbitrary: e)
  case (Cons k ks)
  have "approved_by (fst (engine_apply k e)) = [] \<or> (\<exists>a. approved_by (fst (engine_apply k e)) = [a] \<and> a \<notin> set (en_consumed e))"
    using engine_apply_approved(2) [of k e] by (cases "fst (engine_apply k e)" rule: approved_by.cases) auto
  moreover obtain d e' where k: "engine_apply k e = (d, e')"
    by fastforce
  moreover have "set (en_consumed e') = set (en_consumed e) \<union> set (approved_by d)"
    using engine_apply_state(1) [of k e] by (simp add: k)
  ultimately show ?case
    using Cons.IH [of e'] by (auto simp: k)
qed simp

lemma engine_run_approved:
  assumes "n < length ks" and "engine_run ks e ! n = Some (AdApproved a)"
  shows "\<exists>b m i t g. ks ! n = EcAuthorize b m i t (Some g) \<and> ag_approval_id g = a \<and> ag_invocation_id g = i
      \<and> ag_authority_manifest_ref g = mv_manifest_id m \<and> t < ag_expires_at_tick g
      \<and> i \<notin> set (en_denied_invocations e) \<and> EcDeny i \<notin> set (take n ks)"
  using assms
proof (induction ks arbitrary: e n)
  case (Cons k ks)
  show ?case
  proof (cases n)
    case 0
    with Cons.prems engine_apply_approved(1) [of k e a] show ?thesis
      by (auto split: prod.splits)
  next
    case (Suc n')
    with Cons.prems Cons.IH [of n' "snd (engine_apply k e)"] show ?thesis
      by (auto simp: engine_apply_state split: prod.splits)
  qed
qed simp

text \<open>
  A grant is consumed at most once: over any sequence of denials and authorizations no approval id is
  returned as approved twice, and each approval names the grant that was presented, for that very invocation and
  manifest, strictly before its expiry, with no earlier denial of the invocation.
\<close>

theorem approval_consumed_once:
  "distinct (concat (map approved_by (engine_run ks engine_default)))
   \<and> (\<forall>n < length ks. \<forall>a. engine_run ks engine_default ! n = Some (AdApproved a) \<longrightarrow>
        (\<exists>b m i t g. ks ! n = EcAuthorize b m i t (Some g) \<and> ag_approval_id g = a \<and> ag_invocation_id g = i
           \<and> ag_authority_manifest_ref g = mv_manifest_id m \<and> t < ag_expires_at_tick g
           \<and> EcDeny i \<notin> set (take n ks)))"
  using engine_run_fresh [of ks engine_default] engine_run_approved [of _ ks engine_default] by blast

definition demo_grant :: approval_grant where
  "demo_grant = \<lparr>ag_approval_id = ''a'', ag_invocation_id = ''i'', ag_authority_manifest_ref = ''m'',
     ag_expires_at_tick = 5, ag_constraints = JNull\<rparr>"

definition demo_calls :: "engine_call list" where
  "demo_calls = map (\<lambda>t. EcAuthorize (from_extension_pin demo_pin ArPerInvocation []) (build_manifest ''m'' [] []) ''i'' t
     (Some demo_grant)) [5, 4, 4] @ [EcDeny ''i'', EcAuthorize (from_extension_pin demo_pin ArNever []) (build_manifest ''m'' [] []) ''i'' 0 None]"

theorem approval_consumed_once_witness:
  "engine_run demo_calls engine_default
     = [Some AdExpired, Some (AdApproved ''a''), Some AdAlreadyConsumed, None, Some AdDenied]
   \<and> EcDeny ''i'' \<notin> set (take 1 demo_calls)"
proof -
  have run: "engine_run demo_calls engine_default
     = [Some AdExpired, Some (AdApproved ''a''), Some AdAlreadyConsumed, None, Some AdDenied]"
    by code_simp
  have "1 < length demo_calls"
    by (simp add: demo_calls_def)
  moreover have "engine_run demo_calls engine_default ! 1 = Some (AdApproved ''a'')"
    by (simp add: run)
  ultimately have "\<exists>b m i t g. demo_calls ! 1 = EcAuthorize b m i t (Some g) \<and> EcDeny i \<notin> set (take 1 demo_calls)"
    using approval_consumed_once [of demo_calls] by blast
  with run show ?thesis
    by (auto simp: demo_calls_def)
qed

end
