(* ===== verification/Broker_Laws.thy ===== *)
theory Broker_Laws
  imports Broker Authority_Laws "HOL-Library.Sublist"
begin

text \<open>
  The history of every invocation is a path of one lifecycle, whatever the broker is asked and
  wherever its writes fail, and a host sees each invocation at most once. The ledger is an
  interface: the laws of the port are a locale, met by the ledger in memory.
\<close>

section \<open>The lifecycle of an invocation\<close>

datatype phase =
    PhNew
  | PhProposed invocation_proposal stable_id
  | PhAwaiting invocation_proposal stable_id approval_challenge
  | PhRejected
  | PhAuthorized approved_dispatch
  | PhAttempted approved_dispatch
  | PhAccepted approved_dispatch u64
  | PhSettled approved_dispatch string bool bool

definition dispatch_for :: "stable_id \<Rightarrow> invocation_proposal \<Rightarrow> stable_id \<Rightarrow> approved_dispatch \<Rightarrow> bool" where
  "dispatch_for i p m d \<longleftrightarrow>
     ad_invocation_id d = i \<and> ad_proposal_id d = ip_proposal_id p \<and> ad_capability_id d = ip_capability_id p
     \<and> ad_payload_hash d = ip_payload_hash p \<and> ad_manifest_id d = m \<and> distinct (ad_lease_ids d)"

definition challenge_for :: "digest \<Rightarrow> invocation_proposal \<Rightarrow> stable_id \<Rightarrow> approval_challenge \<Rightarrow> bool" where
  "challenge_for sha p m ch \<longleftrightarrow>
     ch_nonce ch = approval_nonce sha (ip_proposal_id p) m \<and> ch_capability_id ch = ip_capability_id p"

text \<open>
  One event of an invocation: proposed, perhaps challenged, then rejected or authorized; attempted
  once; accepted at most once, with progress counted from one; settled once. The acceptance of an
  attempt already settled as uncertain may still be recorded.
\<close>

fun advance :: "digest \<Rightarrow> stable_id \<Rightarrow> phase \<Rightarrow> ledger_event \<Rightarrow> phase option" where
  "advance sha i PhNew (EvProposed j p m) =
     (if i = invocation_id_of sha (ip_proposal_id p) then Some (PhProposed p m) else None)"
| "advance sha i (PhProposed p m) (EvApprovalRequested ch) =
     (if challenge_for sha p m ch then Some (PhAwaiting p m ch) else None)"
| "advance sha i (PhProposed p m) (EvApprovalRejected j reason) = Some PhRejected"
| "advance sha i (PhAwaiting p m ch) (EvApprovalRejected j reason) = Some PhRejected"
| "advance sha i (PhProposed p m) (EvAuthorized d) = (if dispatch_for i p m d then Some (PhAuthorized d) else None)"
| "advance sha i (PhAwaiting p m ch) (EvAuthorized d) = (if dispatch_for i p m d then Some (PhAuthorized d) else None)"
| "advance sha i (PhAuthorized d) (EvDispatchAttempted j) = Some (PhAttempted d)"
| "advance sha i (PhAttempted d) (EvDispatchAccepted j) = Some (PhAccepted d 0)"
| "advance sha i (PhAttempted d) (EvSettled j h u) = Some (PhSettled d h u False)"
| "advance sha i (PhAccepted d n) (EvProgressCommitted j k h) = (if unat k = unat n + 1 then Some (PhAccepted d k) else None)"
| "advance sha i (PhAccepted d n) (EvSettled j h u) = Some (PhSettled d h u True)"
| "advance sha i (PhSettled d h u False) (EvDispatchAccepted j) = Some (PhSettled d h u True)"
| "advance sha i ph e = None"

definition phase_of :: "digest \<Rightarrow> stable_id \<Rightarrow> ledger_event list \<Rightarrow> phase option" where
  "phase_of sha i es = foldl (\<lambda>ph e. Option.bind ph (\<lambda>p. advance sha i p e)) (Some PhNew) es"

lemma phase_of_Nil [simp]: "phase_of sha i [] = Some PhNew"
  by (simp add: phase_of_def)

lemma phase_of_snoc [simp]: "phase_of sha i (es @ [e]) = Option.bind (phase_of sha i es) (\<lambda>p. advance sha i p e)"
  by (simp add: phase_of_def)

fun phase_settled :: "phase \<Rightarrow> (string \<times> bool) option" where
  "phase_settled (PhSettled d h u a) = Some (h, u)"
| "phase_settled _ = None"

fun phase_dispatch :: "phase \<Rightarrow> approved_dispatch option" where
  "phase_dispatch (PhAuthorized d) = Some d"
| "phase_dispatch (PhAttempted d) = Some d"
| "phase_dispatch (PhAccepted d n) = Some d"
| "phase_dispatch (PhSettled d h u a) = Some d"
| "phase_dispatch _ = None"

fun phase_attempted :: "phase \<Rightarrow> bool" where
  "phase_attempted (PhAttempted d) = True"
| "phase_attempted (PhAccepted d n) = True"
| "phase_attempted (PhSettled d h u a) = True"
| "phase_attempted _ = False"

fun phase_accepted :: "phase \<Rightarrow> bool" where
  "phase_accepted (PhAccepted d n) = True"
| "phase_accepted (PhSettled d h u a) = a"
| "phase_accepted _ = False"

fun phase_open :: "phase \<Rightarrow> (invocation_proposal \<times> stable_id) option" where
  "phase_open (PhProposed p m) = Some (p, m)"
| "phase_open (PhAwaiting p m ch) = Some (p, m)"
| "phase_open _ = None"

lemma find_proposed_snoc: "find_proposed (es @ [e]) = (case find_proposed es of None \<Rightarrow> find_proposed [e] | r \<Rightarrow> r)"
  by (induction es rule: find_proposed.induct) simp_all

lemma find_challenge_snoc: "find_challenge (es @ [e]) = (case find_challenge es of None \<Rightarrow> find_challenge [e] | r \<Rightarrow> r)"
  by (induction es rule: find_challenge.induct) simp_all

lemma find_authorized_snoc: "find_authorized (es @ [e]) = (case find_authorized es of None \<Rightarrow> find_authorized [e] | r \<Rightarrow> r)"
  by (induction es rule: find_authorized.induct) simp_all

lemma find_settled_snoc: "find_settled (es @ [e]) = (case find_settled es of None \<Rightarrow> find_settled [e] | r \<Rightarrow> r)"
  by (induction es rule: find_settled.induct) simp_all

lemma progress_sequences_snoc: "progress_sequences (es @ [e]) = progress_sequences es @ progress_sequences [e]"
  by (induction es rule: progress_sequences.induct) simp_all

lemmas find_snoc = find_proposed_snoc find_challenge_snoc find_authorized_snoc find_settled_snoc progress_sequences_snoc

text \<open>What the broker reads from a history is what its phase says.\<close>

definition summary :: "ledger_event list \<Rightarrow> phase \<Rightarrow> bool" where
  "summary es ph \<longleftrightarrow>
     (ph = PhNew \<longleftrightarrow> es = []) \<and> find_settled es = phase_settled ph \<and> find_authorized es = phase_dispatch ph
     \<and> (list_ex is_attempted es \<longleftrightarrow> phase_attempted ph) \<and> (list_ex is_accepted es \<longleftrightarrow> phase_accepted ph)
     \<and> (list_ex is_rejected es \<longleftrightarrow> ph = PhRejected)
     \<and> (\<forall>p m. phase_open ph = Some (p, m) \<longrightarrow> find_proposed es = Some (p, m))
     \<and> (ph = PhNew \<longrightarrow> find_proposed es = None)
     \<and> (ph = PhNew \<or> (\<exists>p m. ph = PhProposed p m) \<longrightarrow> find_challenge es = None)
     \<and> (\<forall>p m ch. ph = PhAwaiting p m ch \<longrightarrow> find_challenge es = Some ch)
     \<and> (\<forall>d n. ph = PhAccepted d n \<longrightarrow> fold max (progress_sequences es) 0 = n)
     \<and> (\<not> phase_accepted ph \<longrightarrow> progress_sequences es = [])"

lemma advance_summary:
  assumes "summary es ph" and "advance sha i ph e = Some ph'"
  shows "summary (es @ [e]) ph'"
  using assms
  by (cases "(sha, i, ph, e)" rule: advance.cases)
     (auto simp: summary_def find_snoc max_def word_le_nat_alt split: if_splits)

lemma phase_summary: "phase_of sha i es = Some ph \<Longrightarrow> summary es ph"
proof (induction es arbitrary: ph rule: rev_induct)
  case (snoc e es)
  then obtain ph0 where "phase_of sha i es = Some ph0" "advance sha i ph0 e = Some ph"
    by (auto simp: bind_eq_Some_conv)
  with snoc.IH show ?case
    by (blast intro: advance_summary)
qed (simp add: summary_def)

lemma sorted_adjacent_distinct: "sorted xs \<Longrightarrow> \<not> adjacent_equal xs \<Longrightarrow> distinct xs"
proof (induction xs rule: adjacent_equal.induct)
  case (1 x y zs)
  then have "x < y" "\<forall>z \<in> set zs. y \<le> z"
    by auto
  with 1 show ?case
    by auto
qed auto

lemma sort_adjacent_distinct: "\<not> adjacent_equal (sort xs) \<Longrightarrow> distinct xs"
  using sorted_adjacent_distinct [of "sort xs"] by simp

section \<open>Runs\<close>

datatype ('l, 'x) broker_call =
    BcPropose authority_manifest invocation_proposal u64
  | BcResolve authority_manifest approval_response
  | BcAccept stable_id
  | BcProgress stable_id u64 string
  | BcSettle stable_id string bool
  | BcMark stable_id
  | BcDeliver "('l, 'x) host_port"
  | BcDeliverFor stable_id "('l, 'x) host_port"
  | BcResults "worker_result_outbox \<Rightarrow> 'x \<Rightarrow> (broker_error + delivery_acceptance) \<times> 'x"

fun broker_apply :: "('l, 'x) invocation_broker \<Rightarrow> ('l, 'x) broker_call \<Rightarrow> ('l, 'x) broker_world \<Rightarrow> ('l, 'x) broker_world" where
  "broker_apply b (BcPropose m p t) w = snd (propose b m p t w)"
| "broker_apply b (BcResolve m r) w = snd (broker_resolve_approval b m r w)"
| "broker_apply b (BcAccept i) w = snd (accept_dispatch b i w)"
| "broker_apply b (BcProgress i n h) w = snd (commit_progress b i n h w)"
| "broker_apply b (BcSettle i h u) w = snd (settle b i h u w)"
| "broker_apply b (BcMark i) w = snd (mark_dispatch_delivered b i w)"
| "broker_apply b (BcDeliver host) w = snd (deliver_dispatches b host w)"
| "broker_apply b (BcDeliverFor i host) w = snd (deliver_pending_dispatch_for b i host w)"
| "broker_apply b (BcResults worker) w = snd (deliver_worker_results b worker w)"

fun call_hosts :: "('l, 'x) broker_call \<Rightarrow> ('l, 'x) host_port list" where
  "call_hosts (BcDeliver host) = [host]"
| "call_hosts (BcDeliverFor i host) = [host]"
| "call_hosts _ = []"

text \<open>
  Any sequence of calls, with changes of the environment and silent steps of the ledger between
  them, such as a fault armed for the next write. What a host does while it dispatches is such a
  sequence again.
\<close>

inductive broker_run :: "('l, 'x) invocation_broker \<Rightarrow> ('l \<Rightarrow> 'l \<Rightarrow> bool) \<Rightarrow> ('l, 'x) broker_world \<Rightarrow> ('l, 'x) broker_world \<Rightarrow> bool"
  for b :: "('l, 'x) invocation_broker" and silent :: "'l \<Rightarrow> 'l \<Rightarrow> bool" where
  run_none: "broker_run b silent w w"
| run_call: "broker_run b silent w v \<Longrightarrow>
    (\<And>host d u. host \<in> set (call_hosts k) \<Longrightarrow> broker_run b silent u (snd (host d u))) \<Longrightarrow>
    broker_run b silent w (broker_apply b k v)"
| run_env: "broker_run b silent w v \<Longrightarrow> broker_run b silent w (v\<lparr>bw_env := x\<rparr>)"
| run_silent: "broker_run b silent w v \<Longrightarrow> silent (bw_ledger v) l \<Longrightarrow> broker_run b silent w (v\<lparr>bw_ledger := l\<rparr>)"

section \<open>The laws of a ledger\<close>

text \<open>
  \<open>InvocationLedgerPortV1\<close>: an append commits all of its events and its outbox entry or
  nothing; a settlement adds its event unless the same result is already there; marking an entry
  changes no event; reads return what was committed. Any call may fail.
\<close>

locale invocation_ledger =
  fixes p :: "'l ledger_port" and evs :: "'l \<Rightarrow> ledger_event list" and obs :: "'l \<Rightarrow> dispatch_outbox set"
    and silent :: "'l \<Rightarrow> 'l \<Rightarrow> bool"
  assumes events_read: "lp_events p i l = Inr es \<Longrightarrow> es = filter (\<lambda>e. event_invocation_id e = i) (evs l)"
    and pending_read: "lp_pending_dispatches p l = Inr entries \<Longrightarrow> set entries \<subseteq> obs l"
    and append_ok: "lp_append_atomic p es ob l = (Inr u, l') \<Longrightarrow> evs l' = evs l @ es \<and> obs l' \<subseteq> obs l \<union> set_option ob"
    and append_err: "lp_append_atomic p es ob l = (Inl x, l') \<Longrightarrow> evs l' = evs l \<and> obs l' \<subseteq> obs l"
    and settle_ok: "lp_append_settlement_atomic p e r l = (Inr u, l') \<Longrightarrow>
      (evs l' = evs l @ [e] \<or> evs l' = evs l) \<and> obs l' \<subseteq> obs l"
    and settle_err: "lp_append_settlement_atomic p e r l = (Inl x, l') \<Longrightarrow> evs l' = evs l \<and> obs l' \<subseteq> obs l"
    and mark_dispatch: "evs (snd (lp_mark_dispatch_delivered p i l)) = evs l \<and> obs (snd (lp_mark_dispatch_delivered p i l)) \<subseteq> obs l"
    and mark_result: "evs (snd (lp_mark_worker_result_delivered p i l)) = evs l \<and> obs (snd (lp_mark_worker_result_delivered p i l)) \<subseteq> obs l"
    and silent_keeps: "silent l l' \<Longrightarrow> evs l' = evs l \<and> obs l' \<subseteq> obs l"
begin

definition history :: "stable_id \<Rightarrow> 'l \<Rightarrow> ledger_event list" where
  "history i l = filter (\<lambda>e. event_invocation_id e = i) (evs l)"

definition inv :: "digest \<Rightarrow> ('l, 'x) broker_world \<Rightarrow> bool" where
  "inv sha w \<longleftrightarrow>
     (\<forall>i. phase_of sha i (history i (bw_ledger w)) \<noteq> None)
     \<and> (\<forall>ob \<in> obs (bw_ledger w). EvAuthorized (do_dispatch ob) \<in> set (evs (bw_ledger w)))
     \<and> distinct (map ad_invocation_id (bw_dispatched w))
     \<and> (\<forall>d \<in> set (bw_dispatched w). EvAuthorized d \<in> set (evs (bw_ledger w))
          \<and> EvDispatchAttempted (ad_invocation_id d) \<in> set (evs (bw_ledger w)))"

definition triple ::
  "digest \<Rightarrow> (('l, 'x) broker_world \<Rightarrow> bool) \<Rightarrow> ('l, 'x, 'a) brokered \<Rightarrow>
   (broker_error + 'a \<Rightarrow> ('l, 'x) broker_world \<Rightarrow> bool) \<Rightarrow> bool" where
  "triple sha P m Q \<longleftrightarrow>
     (\<forall>w. inv sha w \<and> P w \<longrightarrow>
        inv sha (snd (m w)) \<and> prefix (evs (bw_ledger w)) (evs (bw_ledger (snd (m w)))) \<and> Q (fst (m w)) (snd (m w)))"

lemma tripleI:
  assumes "\<And>w. inv sha w \<Longrightarrow> P w \<Longrightarrow> inv sha (snd (m w))"
    and "\<And>w. inv sha w \<Longrightarrow> P w \<Longrightarrow> prefix (evs (bw_ledger w)) (evs (bw_ledger (snd (m w))))"
    and "\<And>w. inv sha w \<Longrightarrow> P w \<Longrightarrow> Q (fst (m w)) (snd (m w))"
  shows "triple sha P m Q"
  using assms by (simp add: triple_def)

lemma triple_pre: "triple sha P m Q \<Longrightarrow> (\<And>w. inv sha w \<Longrightarrow> P' w \<Longrightarrow> P w) \<Longrightarrow> triple sha P' m Q"
  unfolding triple_def by blast

lemma triple_post: "triple sha P m Q \<Longrightarrow> (\<And>r w. Q r w \<Longrightarrow> Q' r w) \<Longrightarrow> triple sha P m Q'"
  unfolding triple_def by blast

lemma triple_then:
  assumes "triple sha P m Q" and "\<And>a. triple sha (Q (Inr a)) (f a) R" and "\<And>e w. Q (Inl e) w \<Longrightarrow> R (Inl e) w"
  shows "triple sha P (then_w m f) R"
proof (rule tripleI)
  fix w
  assume w: "inv sha w" "P w"
  obtain r v where m: "m w = (r, v)"
    by fastforce
  with assms(1) w have v: "inv sha v" "prefix (evs (bw_ledger w)) (evs (bw_ledger v))" "Q r v"
    by (auto simp: triple_def dest!: spec [of _ w])
  show "inv sha (snd (then_w m f w))" "prefix (evs (bw_ledger w)) (evs (bw_ledger (snd (then_w m f w))))"
    "R (fst (then_w m f w)) (snd (then_w m f w))"
    using v assms(2,3) by (cases r; fastforce simp: then_w_def m triple_def intro: prefix_order.trans)+
qed

lemma triple_of_r: "(\<And>w. P w \<Longrightarrow> Q r w) \<Longrightarrow> triple sha P (of_r r) Q"
  by (auto simp: triple_def of_r_def)

lemma triple_of_r_any: "triple sha P (of_r r) (\<lambda>_ _. True)"
  by (rule triple_of_r) simp

lemma triple_if: "(c \<Longrightarrow> triple sha P m Q) \<Longrightarrow> (\<not> c \<Longrightarrow> triple sha P n Q) \<Longrightarrow> triple sha P (if c then m else n) Q"
  by simp

lemma triple_env: "triple sha (\<lambda>w. P (bw_ledger w) (bw_dispatched w)) (on_env f) (\<lambda>_ w. P (bw_ledger w) (bw_dispatched w))"
  by (rule tripleI) (auto simp: on_env_def inv_def split: prod.splits)

lemma inv_phase: "inv sha w \<Longrightarrow> \<exists>ph. phase_of sha i (history i (bw_ledger w)) = Some ph \<and> summary (history i (bw_ledger w)) ph"
  unfolding inv_def using phase_summary by blast

lemma triple_read_then:
  assumes "ib_ledger b = p"
    and "\<And>es. triple sha (\<lambda>w. P w \<and> es = history i (bw_ledger w)) (f es) R" and "\<And>e w. P w \<Longrightarrow> R (Inl e) w"
  shows "triple sha P (then_w (read_events b i) f) R"
proof (rule triple_then)
  show "triple sha P (read_events b i)
      (\<lambda>r w. P w \<and> (case r of Inr es \<Rightarrow> es = history i (bw_ledger w) | Inl _ \<Rightarrow> True))"
    using assms(1) events_read
    by (intro tripleI) (auto simp: read_events_def history_def split: sum.splits)
qed (use assms in auto)

lemma triple_of_r_then:
  assumes "\<And>a. r = Inr a \<Longrightarrow> triple sha P (f a) R" and "\<And>e w. P w \<Longrightarrow> R (Inl e) w"
  shows "triple sha P (then_w (of_r r) f) R"
  using assms by (cases r) (auto simp: triple_def then_w_def of_r_def)

lemma invocation_history_append: "evs l' = evs l @ [e] \<Longrightarrow>
    history i l' = (if event_invocation_id e = i then history i l @ [e] else history i l)"
  by (simp add: history_def)

lemma inv_commit:
  assumes "inv sha w" and "evs l = evs (bw_ledger w) @ [e]" and "event_invocation_id e = i"
    and "phase_of sha i (history i (bw_ledger w)) = Some ph" and "advance sha i ph e \<noteq> None"
    and "\<forall>ob \<in> obs l. ob \<in> obs (bw_ledger w) \<or> e = EvAuthorized (do_dispatch ob)"
  shows "inv sha (w\<lparr>bw_ledger := l\<rparr>)"
proof -
  have "phase_of sha j (history j l) \<noteq> None" for j
    using assms(1,3-5) by (cases "j = i") (auto simp: invocation_history_append [OF assms(2)] inv_def)
  then show ?thesis
    using assms(1,2,6) by (fastforce simp: inv_def)
qed

lemma inv_same: "inv sha w \<Longrightarrow> evs l = evs (bw_ledger w) \<Longrightarrow> obs l \<subseteq> obs (bw_ledger w) \<Longrightarrow> inv sha (w\<lparr>bw_ledger := l\<rparr>)"
  unfolding inv_def history_def by (simp add: subset_iff)

text \<open>A write of one event that the phase of its invocation allows.\<close>

lemma triple_append:
  assumes "ib_ledger b = p" and "event_invocation_id e = i"
    and "\<And>w. inv sha w \<Longrightarrow> P w \<Longrightarrow> \<exists>ph. phase_of sha i (history i (bw_ledger w)) = Some ph \<and> advance sha i ph e \<noteq> None"
    and "\<And>entry. ob = Some entry \<Longrightarrow> e = EvAuthorized (do_dispatch entry)"
  shows "triple sha P (append_events b [e] ob)
    (\<lambda>r w. r = Inr () \<longrightarrow> (\<exists>v. P v \<and> inv sha v \<and> bw_dispatched w = bw_dispatched v
       \<and> evs (bw_ledger w) = evs (bw_ledger v) @ [e]))"
proof -
  have "inv sha (snd (append_events b [e] ob w)) \<and> prefix (evs (bw_ledger w)) (evs (bw_ledger (snd (append_events b [e] ob w))))
    \<and> (fst (append_events b [e] ob w) = Inr () \<longrightarrow> bw_dispatched (snd (append_events b [e] ob w)) = bw_dispatched w
       \<and> evs (bw_ledger (snd (append_events b [e] ob w))) = evs (bw_ledger w) @ [e])" if w: "inv sha w" "P w" for w
  proof -
    obtain r l where l: "lp_append_atomic p [e] ob (bw_ledger w) = (r, l)"
      by fastforce
    then have step: "append_events b [e] ob w = (r, w\<lparr>bw_ledger := l\<rparr>)"
      by (simp add: append_events_def on_ledger_def assms(1))
    show ?thesis
    proof (cases r)
      case (Inl x)
      with append_err l inv_same [OF w(1)] show ?thesis
        by (auto simp: step)
    next
      case (Inr u)
      with append_ok l have ok: "evs l = evs (bw_ledger w) @ [e]" "obs l \<subseteq> obs (bw_ledger w) \<union> set_option ob"
        by auto
      obtain ph where "phase_of sha i (history i (bw_ledger w)) = Some ph" "advance sha i ph e \<noteq> None"
        using assms(3) [OF w] by blast
      from inv_commit [OF w(1) ok(1) assms(2) this] ok(2) assms(4) have "inv sha (w\<lparr>bw_ledger := l\<rparr>)"
        by fastforce
      then show ?thesis
        by (simp add: step ok)
    qed
  qed
  then show ?thesis
    unfolding triple_def by blast
qed

lemma triple_append_any:
  assumes "ib_ledger b = p" and "event_invocation_id e = i"
    and "\<And>w. inv sha w \<Longrightarrow> P w \<Longrightarrow> \<exists>ph. phase_of sha i (history i (bw_ledger w)) = Some ph \<and> advance sha i ph e \<noteq> None"
    and "\<And>entry. ob = Some entry \<Longrightarrow> e = EvAuthorized (do_dispatch entry)"
  shows "triple sha P (append_events b [e] ob) (\<lambda>_ _. True)"
  by (rule triple_post [OF triple_append [OF assms]]) auto

lemma triple_settlement:
  assumes "ib_ledger b = p"
    and "\<And>w. inv sha w \<Longrightarrow> P w \<Longrightarrow> \<exists>ph. phase_of sha i (history i (bw_ledger w)) = Some ph \<and> advance sha i ph (EvSettled i h u) \<noteq> None"
  shows "triple sha P (append_settlement b i h u) (\<lambda>_ _. True)"
proof -
  have "inv sha (snd (append_settlement b i h u w)) \<and> prefix (evs (bw_ledger w)) (evs (bw_ledger (snd (append_settlement b i h u w))))"
    if w: "inv sha w" "P w" for w
  proof -
    define ob where "ob = \<lparr>wo_outbox_id = stable_digest_id (ib_sha b) ''result'' i, wo_invocation_id = i,
      wo_outcome_hash = h, wo_uncertain = u\<rparr>"
    obtain r l where l: "lp_append_settlement_atomic p (EvSettled i h u) ob (bw_ledger w) = (r, l)"
      by fastforce
    then have step: "append_settlement b i h u w = (r, w\<lparr>bw_ledger := l\<rparr>)"
      by (simp add: append_settlement_def on_ledger_def assms(1) ob_def)
    have cases: "(evs l = evs (bw_ledger w) @ [EvSettled i h u] \<or> evs l = evs (bw_ledger w)) \<and> obs l \<subseteq> obs (bw_ledger w)"
      using settle_ok settle_err l by (cases r) blast+
    obtain ph where "phase_of sha i (history i (bw_ledger w)) = Some ph" "advance sha i ph (EvSettled i h u) \<noteq> None"
      using assms(2) [OF w] by blast
    with inv_commit [OF w(1), of l "EvSettled i h u" i ph] inv_same [OF w(1)] cases have "inv sha (w\<lparr>bw_ledger := l\<rparr>)"
      by (auto simp: subset_iff)
    then show ?thesis
      using cases by (auto simp: step)
  qed
  then show ?thesis
    unfolding triple_def by blast
qed

lemma triple_mark: "ib_ledger b = p \<Longrightarrow> triple sha P (mark_dispatch_delivered b i) (\<lambda>_ _. True)"
  using mark_dispatch by (intro tripleI) (auto simp: mark_dispatch_delivered_def on_ledger_def inv_same split: prod.splits dest: sndI)

lemma phase_step:
  assumes "inv sha w" and "\<And>ph. summary (history i (bw_ledger w)) ph \<Longrightarrow> advance sha i ph e \<noteq> None"
  shows "\<exists>ph. phase_of sha i (history i (bw_ledger w)) = Some ph \<and> advance sha i ph e \<noteq> None"
  using inv_phase [OF assms(1)] assms(2) by blast

text \<open>The operations that need no host.\<close>

lemma accept_sound:
  assumes "ib_ledger b = p"
  shows "triple sha P (accept_dispatch b i) (\<lambda>_ _. True)"
  unfolding accept_dispatch_def
proof (rule triple_read_then [OF assms])
  fix es
  have phase: "\<exists>ph. phase_of sha i (history i (bw_ledger w)) = Some ph \<and> advance sha i ph (EvDispatchAccepted i) \<noteq> None"
    if "inv sha w" "P w \<and> es = history i (bw_ledger w)" "list_ex is_attempted es" "\<not> list_ex is_accepted es" for w
  proof (rule phase_step [OF that(1)])
    fix ph
    assume "summary (history i (bw_ledger w)) ph"
    with that have "phase_attempted ph" "\<not> phase_accepted ph"
      by (auto simp: summary_def)
    then show "advance sha i ph (EvDispatchAccepted i) \<noteq> None"
      by (cases ph) auto
  qed
  have step: "triple sha (\<lambda>w. P w \<and> es = history i (bw_ledger w)) (append_events b [EvDispatchAccepted i] None) (\<lambda>_ _. True)"
    if "list_ex is_attempted es" "\<not> list_ex is_accepted es"
    by (rule triple_append_any [OF assms, where i = i]) (simp, erule (1) phase, use that in simp_all)
  show "triple sha (\<lambda>w. P w \<and> es = history i (bw_ledger w)) (then_w (of_r (require_authorized es)) (\<lambda>_.
     if \<not> list_ex is_attempted es then of_r (Inl BrNotAttempted)
     else if list_ex is_accepted es then of_r (Inr ())
     else append_events b [EvDispatchAccepted i] None)) (\<lambda>_ _. True)"
    by (auto intro!: triple_of_r_then triple_of_r_any step)
qed simp

lemma progress_sound:
  assumes "ib_ledger b = p"
  shows "triple sha P (commit_progress b i n h) (\<lambda>_ _. True)"
  unfolding commit_progress_def
proof (rule triple_read_then [OF assms])
  fix es
  have phase: "\<exists>ph. phase_of sha i (history i (bw_ledger w)) = Some ph \<and> advance sha i ph (EvProgressCommitted i n h) \<noteq> None"
    if "inv sha w" "P w \<and> es = history i (bw_ledger w)" "list_ex is_accepted es" "find_settled es = None"
      "checked_add (fold max (progress_sequences es) 0) 1 = Some n" for w
  proof (rule phase_step [OF that(1)])
    fix ph
    assume ph: "summary (history i (bw_ledger w)) ph"
    with that have "phase_accepted ph" "phase_settled ph = None"
      by (auto simp: summary_def)
    then obtain d k where "ph = PhAccepted d k"
      by (cases ph) auto
    with ph that show "advance sha i ph (EvProgressCommitted i n h) \<noteq> None"
      by (auto simp: summary_def checked_add_Some)
  qed
  have step: "triple sha (\<lambda>w. P w \<and> es = history i (bw_ledger w)) (append_events b [EvProgressCommitted i n h] None) (\<lambda>_ _. True)"
    if "list_ex is_accepted es" "find_settled es = None" "checked_add (fold max (progress_sequences es) 0) 1 = Some n"
    by (rule triple_append_any [OF assms, where i = i]) (simp, erule (1) phase, use that in simp_all)
  show "triple sha (\<lambda>w. P w \<and> es = history i (bw_ledger w)) (then_w (of_r (require_authorized es)) (\<lambda>_.
     if \<not> list_ex is_accepted es then of_r (Inl BrNotAccepted)
     else if find_settled es \<noteq> None then of_r (Inl BrAlreadySettled)
     else case find_progress n es of
       Some existing_hash \<Rightarrow> of_r (if existing_hash = h then Inr () else Inl BrIdentityConflict)
     | None \<Rightarrow>
         then_w (of_r (ok_or (checked_add (fold max (progress_sequences es) 0) 1) BrProgressSequence)) (\<lambda>next_sequence.
         if n \<noteq> next_sequence then of_r (Inl BrProgressSequence)
         else append_events b [EvProgressCommitted i n h] None))) (\<lambda>_ _. True)"
    by (cases "find_settled es") (auto intro!: triple_of_r_then triple_of_r_any step simp: ok_or_Inr split: option.splits)
qed simp

lemma settle_sound:
  assumes "ib_ledger b = p"
  shows "triple sha P (settle b i h u) (\<lambda>_ _. True)"
  unfolding settle_def
proof (rule triple_read_then [OF assms])
  fix es
  have phase: "\<exists>ph. phase_of sha i (history i (bw_ledger w)) = Some ph \<and> advance sha i ph (EvSettled i h u) \<noteq> None"
    if "inv sha w" "P w \<and> es = history i (bw_ledger w)" "list_ex is_accepted es" "find_settled es = None" for w
  proof (rule phase_step [OF that(1)])
    fix ph
    assume "summary (history i (bw_ledger w)) ph"
    with that have "phase_accepted ph" "phase_settled ph = None"
      by (auto simp: summary_def)
    then show "advance sha i ph (EvSettled i h u) \<noteq> None"
      by (cases ph) auto
  qed
  show "triple sha (\<lambda>w. P w \<and> es = history i (bw_ledger w)) (then_w (of_r (require_authorized es)) (\<lambda>_.
     if \<not> list_ex is_accepted es then of_r (Inl BrNotAccepted)
     else case find_settled es of
       Some existing \<Rightarrow> of_r (if existing = (h, u) then Inr () else Inl BrIdentityConflict)
     | None \<Rightarrow> append_settlement b i h u)) (\<lambda>_ _. True)"
    by (intro triple_of_r_then triple_if) (auto intro!: triple_of_r_any triple_settlement [OF assms] phase split: option.splits)
qed simp

lemma settle_unaccepted_sound:
  assumes "ib_ledger b = p"
  shows "triple sha (\<lambda>w. EvDispatchAttempted i \<in> set (evs (bw_ledger w))) (settle_unaccepted_dispatch b i reason u) (\<lambda>_ _. True)"
  unfolding settle_unaccepted_dispatch_def
proof (rule triple_read_then [OF assms])
  fix es
  have phase: "\<exists>ph. phase_of sha i (history i (bw_ledger w)) = Some ph \<and> advance sha i ph (EvSettled i h u) \<noteq> None"
    if "inv sha w" "EvDispatchAttempted i \<in> set (evs (bw_ledger w)) \<and> es = history i (bw_ledger w)" "find_settled es = None" for w h
  proof (rule phase_step [OF that(1)])
    fix ph
    assume ph: "summary (history i (bw_ledger w)) ph"
    have "list_ex is_attempted (history i (bw_ledger w))"
      using that(2) by (auto simp: history_def list_ex_iff intro!: bexI [of _ "EvDispatchAttempted i"])
    with ph that have "phase_attempted ph" "phase_settled ph = None"
      by (auto simp: summary_def)
    then show "advance sha i ph (EvSettled i h u) \<noteq> None"
      by (cases ph) auto
  qed
  show "triple sha (\<lambda>w. EvDispatchAttempted i \<in> set (evs (bw_ledger w)) \<and> es = history i (bw_ledger w))
     (then_w (of_r (require_authorized es)) (\<lambda>_.
     case find_settled es of
       Some (existing_hash, existing_uncertain) \<Rightarrow>
         of_r (if existing_hash = outcome_hash (ib_sha b) reason \<and> existing_uncertain = u
               then Inr () else Inl BrIdentityConflict)
     | None \<Rightarrow> append_settlement b i (outcome_hash (ib_sha b) reason) u)) (\<lambda>_ _. True)"
    by (intro triple_of_r_then) (auto intro!: triple_of_r_any triple_settlement [OF assms] phase split: option.splits prod.splits)
qed simp

lemma triple_case:
  assumes "triple sha P m Q" and "\<And>a. triple sha (Q (Inr a)) (f a) R" and "\<And>e. triple sha (Q (Inl e)) (g e) R"
  shows "triple sha P (\<lambda>w. case m w of (Inl e, v) \<Rightarrow> g e v | (Inr a, v) \<Rightarrow> f a v) R"
proof (rule tripleI)
  fix w
  let ?n = "\<lambda>w. case m w of (Inl e, v) \<Rightarrow> g e v | (Inr a, v) \<Rightarrow> f a v"
  assume w: "inv sha w" "P w"
  obtain r v where m: "m w = (r, v)"
    by fastforce
  with assms(1) w have v: "inv sha v" "prefix (evs (bw_ledger w)) (evs (bw_ledger v))" "Q r v"
    by (auto simp: triple_def dest!: spec [of _ w])
  show "inv sha (snd (?n w))" "prefix (evs (bw_ledger w)) (evs (bw_ledger (snd (?n w))))" "R (fst (?n w)) (snd (?n w))"
    using v assms(2,3) by (cases r; fastforce simp: m triple_def intro: prefix_order.trans)+
qed

lemma triple_weak: "triple sha (\<lambda>_. True) m Q \<Longrightarrow> triple sha P m Q"
  by (rule triple_pre) auto

lemma triple_revoke: "triple sha P (revoke_leases b ids) (\<lambda>_ _. True)"
  unfolding revoke_leases_def
  by (rule triple_weak) (auto split: option.split intro: triple_of_r_any triple_env [where P = "\<lambda>_ _. True"])

lemma commit_authorized_sound:
  assumes "ib_ledger b = p" and "ad_invocation_id d = i"
    and "\<And>w. inv sha w \<Longrightarrow> P w \<Longrightarrow> \<exists>ph. phase_of sha i (history i (bw_ledger w)) = Some ph \<and> advance sha i ph (EvAuthorized d) \<noteq> None"
  shows "triple sha P (commit_authorized b d) (\<lambda>_ _. True)"
proof -
  define ob where "ob = \<lparr>do_outbox_id = stable_digest_id (ib_sha b) ''dispatch'' (ad_invocation_id d), do_dispatch = d\<rparr>"
  have step: "triple sha P (append_events b [EvAuthorized d] (Some ob)) (\<lambda>_ _. True)"
    by (rule triple_append_any [OF assms(1), where i = i]) (use assms(2,3) in \<open>auto simp: ob_def\<close>)
  have "triple sha (\<lambda>_. True) (\<lambda>w. case revoke_leases b (ad_lease_ids d) w of
      (Inl _, v) \<Rightarrow> (Inl BrLeaseRollbackFailed, v) | (Inr _, v) \<Rightarrow> (Inl e, v)) (\<lambda>_ _. True)" for e
    by (rule triple_case [where f = "\<lambda>_ w. (Inl e, w)" and g = "\<lambda>_ w. (Inl BrLeaseRollbackFailed, w)", OF triple_revoke])
       (simp_all add: triple_def)
  from triple_case [OF step _ this, where f = "\<lambda>_ w. (Inr (BdDispatchReady d), w)"]
  have "triple sha P (\<lambda>w. case append_events b [EvAuthorized d] (Some ob) w of
      (Inl e, v) \<Rightarrow> (case revoke_leases b (ad_lease_ids d) v of
        (Inl _, u) \<Rightarrow> (Inl BrLeaseRollbackFailed, u) | (Inr _, u) \<Rightarrow> (Inl e, u))
    | (Inr _, v) \<Rightarrow> (Inr (BdDispatchReady d), v)) (\<lambda>_ _. True)"
    by (simp add: triple_def)
  moreover have "commit_authorized b d = (\<lambda>w. case append_events b [EvAuthorized d] (Some ob) w of
      (Inl e, v) \<Rightarrow> (case revoke_leases b (ad_lease_ids d) v of
        (Inl _, u) \<Rightarrow> (Inl BrLeaseRollbackFailed, u) | (Inr _, u) \<Rightarrow> (Inl e, u))
    | (Inr _, v) \<Rightarrow> (Inr (BdDispatchReady d), v))"
    by (rule ext) (simp add: commit_authorized_def ob_def Let_def split: prod.split sum.split)
  ultimately show ?thesis
    by simp
qed

definition open_for :: "digest \<Rightarrow> invocation_proposal \<Rightarrow> stable_id \<Rightarrow> 'l \<Rightarrow> bool" where
  "open_for sha q m l \<longleftrightarrow>
     (\<exists>ph. phase_of sha (invocation_id_of sha (ip_proposal_id q)) (history (invocation_id_of sha (ip_proposal_id q)) l) = Some ph
        \<and> phase_open ph = Some (q, m))"

lemma authorize_sound:
  assumes "ib_ledger b = p" and "ib_sha b = sha"
  shows "triple sha (\<lambda>w. open_for sha q (am_manifest_id m) (bw_ledger w)) (broker_authorize b m q) (\<lambda>_ _. True)"
proof -
  let ?P = "\<lambda>w. open_for sha q (am_manifest_id m) (bw_ledger w)" and ?i = "invocation_id_of sha (ip_proposal_id q)"
  have issue: "triple sha ?P (issue_leases b q m ?i) (\<lambda>_. ?P)"
    unfolding issue_leases_def
    by (auto split: option.split intro: triple_of_r triple_env [where P = "\<lambda>l _. open_for sha q (am_manifest_id m) l"])
  have revoke: "triple sha ?P (\<lambda>w. (Inl BrDuplicateLease, snd (revoke_leases b ids w))) (\<lambda>_ _. True)" for ids
    using triple_revoke [of sha ?P b ids] by (simp add: triple_def)
  have commit: "triple sha ?P (commit_authorized b d) (\<lambda>_ _. True)" if d: "dispatch_for ?i q (am_manifest_id m) d" for d
  proof (rule commit_authorized_sound [OF assms(1)])
    show "ad_invocation_id d = ?i"
      using d by (simp add: dispatch_for_def)
    show "\<exists>ph. phase_of sha ?i (history ?i (bw_ledger w)) = Some ph \<and> advance sha ?i ph (EvAuthorized d) \<noteq> None" if "?P w" for w
    proof -
      from that obtain ph where "phase_of sha ?i (history ?i (bw_ledger w)) = Some ph" "phase_open ph = Some (q, am_manifest_id m)"
        by (auto simp: open_for_def)
      with d show ?thesis
        by (cases ph) auto
    qed
  qed
  show ?thesis
    unfolding broker_authorize_def Let_def assms(2)
    by (auto intro!: triple_of_r_any triple_then [OF issue] revoke commit simp: dispatch_for_def sort_adjacent_distinct split: option.split)
qed

lemma open_for_phase:
  "open_for sha q m l \<Longrightarrow> i = invocation_id_of sha (ip_proposal_id q) \<Longrightarrow>
     \<exists>ph. phase_of sha i (history i l) = Some ph \<and> advance sha i ph (EvApprovalRejected i reason) \<noteq> None"
  unfolding open_for_def by (auto elim!: phase_open.elims)

lemma decide_sound:
  assumes "ib_ledger b = p" and "ib_sha b = sha" and "i = invocation_id_of sha (ip_proposal_id q)"
  shows "triple sha (\<lambda>w. phase_of sha i (history i (bw_ledger w)) = Some (PhProposed q (am_manifest_id m)))
    (decide_after_proposed b m q t) (\<lambda>_ _. True)"
proof -
  let ?P = "\<lambda>w. phase_of sha i (history i (bw_ledger w)) = Some (PhProposed q (am_manifest_id m))"
  have entry: "triple sha ?P (append_events b [e] None) (\<lambda>_ _. True)"
    if "event_invocation_id e = i" "advance sha i (PhProposed q (am_manifest_id m)) e \<noteq> None" for e
    by (rule triple_append_any [OF assms(1) that(1)]) (use that(2) in auto)
  have authorize: "triple sha ?P (broker_authorize b m q) (\<lambda>_ _. True)"
    by (rule triple_pre [OF authorize_sound [OF assms(1,2)]]) (simp add: open_for_def assms(3))
  show ?thesis
    unfolding decide_after_proposed_def Let_def assms(2) assms(3) [symmetric]
    by (auto intro!: triple_of_r_then triple_of_r_any triple_then [OF entry] authorize
        simp: challenge_for_def split: option.split)
qed

lemma verify_proposal_ok: "verify_proposal_identity es q m = Inr () \<Longrightarrow> find_proposed es = Some (q, m)"
  by (auto simp: verify_proposal_identity_def proposed_identity_def bind_r_Inr ok_or_Inr split: if_splits)

lemma summary_incomplete:
  "summary es ph \<Longrightarrow> es \<noteq> [] \<Longrightarrow> replay_decision es = Inl BrIncompleteState \<Longrightarrow> \<exists>q m. ph = PhProposed q m"
  by (cases ph) (auto simp: summary_def replay_decision_def split: option.splits if_splits)

lemma propose_sound:
  assumes "ib_ledger b = p" and "ib_sha b = sha"
  shows "triple sha P (propose b m q t) (\<lambda>_ _. True)"
proof -
  define i where "i = invocation_id_of sha (ip_proposal_id q)"
  note decide = decide_sound [OF assms i_def]
  have fresh: "triple sha (\<lambda>w. P w \<and> [] = history i (bw_ledger w)) (append_events b [EvProposed i q (am_manifest_id m)] None)
      (\<lambda>r w. r = Inr () \<longrightarrow> phase_of sha i (history i (bw_ledger w)) = Some (PhProposed q (am_manifest_id m)))"
    by (rule triple_post [OF triple_append [OF assms(1), where i = i]])
       (auto simp: invocation_history_append i_def [symmetric] phase_of_def)
  have retry: "triple sha (\<lambda>w. P w \<and> es = history i (bw_ledger w)) (decide_after_proposed b m q t) (\<lambda>_ _. True)"
    if es: "es \<noteq> []" "verify_proposal_identity es q (am_manifest_id m) = Inr ()" "replay_decision es = Inl BrIncompleteState" for es
  proof (rule triple_pre [OF decide])
    fix w
    assume w: "inv sha w" "P w \<and> es = history i (bw_ledger w)"
    obtain ph where ph: "phase_of sha i (history i (bw_ledger w)) = Some ph" "summary (history i (bw_ledger w)) ph"
      using inv_phase [OF w(1)] by blast
    with w(2) es summary_incomplete obtain q' m' where "ph = PhProposed q' m'"
      by blast
    with ph w(2) verify_proposal_ok [OF es(2)] show "phase_of sha i (history i (bw_ledger w)) = Some (PhProposed q (am_manifest_id m))"
      by (auto simp: summary_def)
  qed
  show ?thesis
    unfolding propose_def Let_def assms(2) i_def [symmetric]
  proof (rule triple_read_then [OF assms(1)])
    fix es
    show "triple sha (\<lambda>w. P w \<and> es = history i (bw_ledger w)) (if es \<noteq> [] then
        then_w (of_r (verify_proposal_identity es q (am_manifest_id m))) (\<lambda>_.
        case replay_decision es of
          Inr decision \<Rightarrow> of_r (Inr decision)
        | Inl e \<Rightarrow> if e = BrIncompleteState then decide_after_proposed b m q t else of_r (Inl e))
      else then_w (append_events b [EvProposed i q (am_manifest_id m)] None) (\<lambda>_. decide_after_proposed b m q t)) (\<lambda>_ _. True)"
    proof (cases "es = []")
      case True
      then show ?thesis
        by simp (rule triple_then [OF fresh], rule triple_pre [OF decide], simp_all)
    next
      case False
      then show ?thesis
        by (auto intro!: triple_of_r_then triple_of_r_any retry split: sum.split)
    qed
  qed simp
qed

lemma summary_awaiting:
  "summary es ph \<Longrightarrow> find_proposed es = Some (q, m) \<Longrightarrow> find_challenge es = Some ch \<Longrightarrow>
     replayed_response (replay_decision es) ok = None \<Longrightarrow> \<exists>ch'. ph = PhAwaiting q m ch'"
  by (cases ph) (auto simp: summary_def replay_decision_def split: option.splits if_splits)

lemma phase_awaiting_id: "phase_of sha i es = Some ph \<Longrightarrow> phase_open ph = Some (q, m) \<Longrightarrow> i = invocation_id_of sha (ip_proposal_id q)"
proof (induction es arbitrary: ph rule: rev_induct)
  case (snoc e es)
  then obtain ph0 where "phase_of sha i es = Some ph0" "advance sha i ph0 e = Some ph"
    by (auto simp: bind_eq_Some_conv)
  with snoc show ?case
    by (cases "(sha, i, ph0, e)" rule: advance.cases) (auto split: if_splits)
qed simp

lemma resolve_sound:
  assumes "ib_ledger b = p" and "ib_sha b = sha"
  shows "triple sha P (broker_resolve_approval b m r) (\<lambda>_ _. True)"
proof -
  let ?i = "rs_invocation_id r"
  have awaiting: "\<exists>ch'. phase_of sha ?i (history ?i (bw_ledger w)) = Some (PhAwaiting q m' ch')"
    if "inv sha w" "find_proposed (history ?i (bw_ledger w)) = Some (q, m')" "find_challenge (history ?i (bw_ledger w)) = Some ch"
      "replayed_response (replay_decision (history ?i (bw_ledger w))) ok = None" for w q m' ch ok
    using inv_phase [OF that(1), of ?i] summary_awaiting that(2-4) by blast
  let ?open = "\<lambda>es q ch w. es = history ?i (bw_ledger w) \<and> find_proposed es = Some (q, am_manifest_id m)
      \<and> find_challenge es = Some ch \<and> replayed_response (replay_decision es) (rs_approved r) = None"
  have authorize: "triple sha (?open es q ch) (broker_authorize b m q) (\<lambda>_ _. True)" for es q ch
  proof (rule triple_pre [OF authorize_sound [OF assms]])
    fix w
    assume "inv sha w" "?open es q ch w"
    with awaiting obtain ch' where "phase_of sha ?i (history ?i (bw_ledger w)) = Some (PhAwaiting q (am_manifest_id m) ch')"
      by metis
    with phase_awaiting_id [OF this] show "open_for sha q (am_manifest_id m) (bw_ledger w)"
      by (auto simp: open_for_def)
  qed
  have reject: "triple sha (?open es q ch) (append_events b [EvApprovalRejected ?i reason] None) (\<lambda>_ _. True)" for es q ch reason
  proof (rule triple_append_any [OF assms(1), where i = ?i])
    fix w
    assume "inv sha w" "?open es q ch w"
    with awaiting obtain ch' where "phase_of sha ?i (history ?i (bw_ledger w)) = Some (PhAwaiting q (am_manifest_id m) ch')"
      by metis
    then show "\<exists>ph. phase_of sha ?i (history ?i (bw_ledger w)) = Some ph \<and> advance sha ?i ph (EvApprovalRejected ?i reason) \<noteq> None"
      by simp
  qed simp_all
  have rest: "triple sha (\<lambda>w. P w \<and> es = history ?i (bw_ledger w)) (answer_challenge b m r q ch) (\<lambda>_ _. True)"
    if "find_proposed es = Some (q, am_manifest_id m)" "find_challenge es = Some ch"
      "replayed_response (replay_decision es) (rs_approved r) = None" for es q ch
  proof (rule triple_pre [where P = "?open es q ch"])
    show "triple sha (?open es q ch) (answer_challenge b m r q ch) (\<lambda>_ _. True)"
      unfolding answer_challenge_def by (intro triple_if triple_of_r_any triple_then [OF reject] authorize) simp_all
  qed (use that in auto)
  show ?thesis
    unfolding broker_resolve_approval_def
    by (rule triple_read_then [OF assms(1)])
       (auto intro!: triple_of_r_then triple_of_r_any rest simp: proposed_identity_def ok_or_Inr split: option.split prod.split)
qed

section \<open>Delivery\<close>

definition tame :: "digest \<Rightarrow> ('l, 'x) host_port \<Rightarrow> bool" where
  "tame sha host \<longleftrightarrow> (\<forall>d. triple sha (\<lambda>_. True) (host d) (\<lambda>_ _. True))"

lemma finish_sound:
  assumes "ib_ledger b = p" and "triple sha P act (\<lambda>_ _. True)"
  shows "triple sha P (finish_delivery b ob act r) (\<lambda>_ _. True)"
  unfolding finish_delivery_def by (intro triple_then [OF assms(2)] triple_then [OF triple_mark [OF assms(1)]] triple_of_r_any) auto

text \<open>A dispatch is handed over after its attempt was recorded, and never for an invocation attempted before.\<close>

lemma call_host_sound:
  assumes "tame sha host"
  shows "triple sha (\<lambda>w. EvAuthorized d \<in> set (evs (bw_ledger w)) \<and> EvDispatchAttempted (ad_invocation_id d) \<in> set (evs (bw_ledger w))
      \<and> ad_invocation_id d \<notin> ad_invocation_id ` set (bw_dispatched w))
    (call_host host d) (\<lambda>_ w. EvDispatchAttempted (ad_invocation_id d) \<in> set (evs (bw_ledger w)))"
proof -
  have "inv sha (snd (call_host host d w)) \<and> prefix (evs (bw_ledger w)) (evs (bw_ledger (snd (call_host host d w))))"
    if w: "inv sha w" "EvAuthorized d \<in> set (evs (bw_ledger w))" "EvDispatchAttempted (ad_invocation_id d) \<in> set (evs (bw_ledger w))"
      "ad_invocation_id d \<notin> ad_invocation_id ` set (bw_dispatched w)" for w
  proof -
    let ?v = "w\<lparr>bw_dispatched := bw_dispatched w @ [d]\<rparr>"
    have "inv sha ?v"
      using w by (auto simp: inv_def)
    with assms have "inv sha (snd (host d ?v)) \<and> prefix (evs (bw_ledger ?v)) (evs (bw_ledger (snd (host d ?v))))"
      unfolding tame_def triple_def by blast
    then show ?thesis
      by (simp add: call_host_def)
  qed
  then show ?thesis
    unfolding triple_def by (blast dest: set_mono_prefix)
qed

lemma deliver_outbox_sound:
  fixes host :: "('l, 'x) host_port"
  assumes "ib_ledger b = p" and "tame sha host"
  shows "triple sha (\<lambda>w. EvAuthorized (do_dispatch ob) \<in> set (evs (bw_ledger w))) (deliver_outbox b ob host) (\<lambda>_ _. True)"
proof -
  define d where "d = do_dispatch ob"
  define i where "i = ad_invocation_id d"
  let ?P = "\<lambda>es (w :: ('l, 'x) broker_world). EvAuthorized d \<in> set (evs (bw_ledger w)) \<and> es = history i (bw_ledger w)"
  let ?tried = "\<lambda>w. EvDispatchAttempted i \<in> set (evs (bw_ledger w))"
  note settle = finish_sound [OF assms(1) settle_unaccepted_sound [OF assms(1)]]
  have seen: "?tried w" if "list_ex is_attempted es" "?P es w" for es w
    using that by (auto simp: history_def list_ex_iff elim!: is_attempted.elims)
  have attempt: "triple sha (?P es) (append_events b [EvDispatchAttempted i] None)
      (\<lambda>r w. r = Inr () \<longrightarrow> EvAuthorized d \<in> set (evs (bw_ledger w)) \<and> ?tried w \<and> i \<notin> ad_invocation_id ` set (bw_dispatched w))"
    if es: "find_settled es = None" "\<not> list_ex is_accepted es" "\<not> list_ex is_attempted es" for es
  proof (rule triple_post [OF triple_append [OF assms(1), where i = i]])
    fix w
    assume w: "inv sha w" "?P es w"
    have "EvAuthorized d \<in> set es"
      using w(2) by (simp add: history_def i_def)
    then have "find_authorized es \<noteq> None"
      by (induction es rule: find_authorized.induct) auto
    with es w(2) show "\<exists>ph. phase_of sha i (history i (bw_ledger w)) = Some ph \<and> advance sha i ph (EvDispatchAttempted i) \<noteq> None"
      by (intro phase_step [OF w(1)]) (auto simp: summary_def elim!: phase_dispatch.elims)
  next
    have fresh: "i \<notin> ad_invocation_id ` set (bw_dispatched v)" if "inv sha v" "?P es v" for v
      using that es(3) by (force simp: inv_def history_def list_ex_iff)
    show "r = Inr () \<longrightarrow> EvAuthorized d \<in> set (evs (bw_ledger w)) \<and> ?tried w \<and> i \<notin> ad_invocation_id ` set (bw_dispatched w)"
      if step: "r = Inr () \<longrightarrow> (\<exists>v. ?P es v \<and> inv sha v \<and> bw_dispatched w = bw_dispatched v
       \<and> evs (bw_ledger w) = evs (bw_ledger v) @ [EvDispatchAttempted i])" for r :: "broker_error + unit" and w :: "('l, 'x) broker_world"
    proof (rule impI)
      assume "r = Inr ()"
      with step obtain v where v: "?P es v" "inv sha v" "bw_dispatched w = bw_dispatched v"
        "evs (bw_ledger w) = evs (bw_ledger v) @ [EvDispatchAttempted i]"
        by blast
      with fresh [OF v(2,1)] show "EvAuthorized d \<in> set (evs (bw_ledger w)) \<and> ?tried w \<and> i \<notin> ad_invocation_id ` set (bw_dispatched w)"
        by simp
    qed
  qed simp_all
  have dispatch: "triple sha (\<lambda>w. EvAuthorized d \<in> set (evs (bw_ledger w)) \<and> ?tried w \<and> i \<notin> ad_invocation_id ` set (bw_dispatched w))
      (\<lambda>w. case call_host host d w of
          (Inl e, w') \<Rightarrow>
            finish_delivery b ob (settle_unaccepted_dispatch b i ''host_dispatch_transport_uncertain'' True) (Inl e) w'
        | (Inr acceptance, w') \<Rightarrow>
            (case acceptance of
               DaRejectedDefinitelyNotStarted \<Rightarrow>
                 finish_delivery b ob
                   (settle_unaccepted_dispatch b i HOST_DISPATCH_DEFINITELY_NOT_STARTED_REASON False) (Inl BrDispatchRejected) w'
             | DaAmbiguous \<Rightarrow>
                 finish_delivery b ob (settle_unaccepted_dispatch b i ''host_dispatch_acceptance_uncertain'' True)
                   (Inl BrAmbiguousDispatch) w'
             | _ \<Rightarrow> finish_delivery b ob (accept_dispatch b i) (Inr True) w')) (\<lambda>_ _. True)"
    apply (rule triple_case [OF call_host_sound [OF assms(2), of d, folded i_def]])
    subgoal for acceptance
      by (cases acceptance) (auto intro!: settle finish_sound [OF assms(1) accept_sound [OF assms(1)]])
    subgoal
      by (rule settle)
    done
  show ?thesis
    unfolding deliver_outbox_def Let_def d_def [symmetric] i_def [symmetric]
  proof (rule triple_read_then [OF assms(1)])
    fix es
    show "triple sha (?P es) (if find_settled es \<noteq> None \<or> list_ex is_accepted es then
        finish_delivery b ob (of_r (Inr ())) (Inr True)
      else if list_ex is_attempted es then
        finish_delivery b ob (settle_unaccepted_dispatch b i ''host_dispatch_recovery_uncertain'' True) (Inl BrAmbiguousDispatch)
      else
        then_w (append_events b [EvDispatchAttempted i] None) (\<lambda>_ w.
        case call_host host d w of
          (Inl e, w') \<Rightarrow>
            finish_delivery b ob (settle_unaccepted_dispatch b i ''host_dispatch_transport_uncertain'' True) (Inl e) w'
        | (Inr acceptance, w') \<Rightarrow>
            (case acceptance of
               DaRejectedDefinitelyNotStarted \<Rightarrow>
                 finish_delivery b ob
                   (settle_unaccepted_dispatch b i HOST_DISPATCH_DEFINITELY_NOT_STARTED_REASON False) (Inl BrDispatchRejected) w'
             | DaAmbiguous \<Rightarrow>
                 finish_delivery b ob (settle_unaccepted_dispatch b i ''host_dispatch_acceptance_uncertain'' True)
                   (Inl BrAmbiguousDispatch) w'
             | _ \<Rightarrow> finish_delivery b ob (accept_dispatch b i) (Inr True) w'))) (\<lambda>_ _. True)"
      by (intro triple_if finish_sound [OF assms(1) triple_of_r_any] triple_pre [OF settle] triple_then [OF attempt]
          triple_pre [OF dispatch]) (auto intro: seen simp del: not_None_eq)
  qed simp
qed

lemma pending_sound:
  assumes "ib_ledger b = p"
  shows "triple sha P (broker_pending_dispatches b)
    (\<lambda>r w. \<forall>pending. r = Inr pending \<longrightarrow> (\<forall>ob \<in> set pending. EvAuthorized (do_dispatch ob) \<in> set (evs (bw_ledger w))))"
  using assms pending_read by (intro tripleI) (fastforce simp: broker_pending_dispatches_def inv_def)+

lemma deliver_each_sound:
  assumes "ib_ledger b = p" and "tame sha host"
  shows "triple sha (\<lambda>w. \<forall>ob \<in> set pending. EvAuthorized (do_dispatch ob) \<in> set (evs (bw_ledger w)))
    (deliver_each b host pending n) (\<lambda>_ _. True)"
proof (induction pending arbitrary: n)
  case (Cons ob pending)
  have "triple sha (\<lambda>w. \<forall>x \<in> set (ob # pending). EvAuthorized (do_dispatch x) \<in> set (evs (bw_ledger w)))
      (deliver_outbox b ob host) (\<lambda>_ w. \<forall>x \<in> set pending. EvAuthorized (do_dispatch x) \<in> set (evs (bw_ledger w)))"
    using deliver_outbox_sound [OF assms, of ob] unfolding triple_def by (fastforce dest: set_mono_prefix)
  then show ?case
    by (auto intro!: triple_then Cons.IH)
qed (auto intro: triple_of_r_any)

lemma deliver_sound:
  assumes "ib_ledger b = p" and "tame sha host"
  shows "triple sha P (deliver_dispatches b host) (\<lambda>_ _. True)"
    and "triple sha P (deliver_pending_dispatch_for b i host) (\<lambda>_ _. True)"
proof -
  show "triple sha P (deliver_dispatches b host) (\<lambda>_ _. True)"
    unfolding deliver_dispatches_def
    by (rule triple_then [OF pending_sound [OF assms(1)]]) (auto intro: triple_pre [OF deliver_each_sound [OF assms]])
  show "triple sha P (deliver_pending_dispatch_for b i host) (\<lambda>_ _. True)"
    unfolding deliver_pending_dispatch_for_def
    by (rule triple_then [OF pending_sound [OF assms(1)]])
       (auto split: option.split intro!: triple_of_r_any triple_pre [OF deliver_outbox_sound [OF assms]] simp: find_Some_iff)
qed

lemma results_sound:
  assumes "ib_ledger b = p"
  shows "triple sha P (deliver_worker_results b worker) (\<lambda>_ _. True)"
proof -
  have mark: "triple sha P (on_ledger (lp_mark_worker_result_delivered (ib_ledger b) i)) (\<lambda>_ _. True)" for P i
    using mark_result assms by (intro tripleI) (auto simp: on_ledger_def inv_same split: prod.splits dest: sndI)
  have each: "triple sha (\<lambda>_. True) (deliver_results b worker pending n) (\<lambda>_ _. True)" for pending n
  proof (induction pending arbitrary: n)
    case (Cons ob pending)
    then show ?case
      unfolding deliver_results.simps
      by (intro triple_then [OF triple_env [where P = "\<lambda>_ _. True"]])
         (auto split: delivery_acceptance.split intro!: triple_of_r_any triple_then [OF mark])
  qed (auto intro: triple_of_r_any)
  show ?thesis
    using each [unfolded triple_def] by (intro tripleI) (auto simp: deliver_worker_results_def split: sum.split)
qed

lemma triple_keeps:
  "triple sha (\<lambda>_. True) m Q \<Longrightarrow> inv sha w \<Longrightarrow>
     inv sha (snd (m w)) \<and> prefix (evs (bw_ledger w)) (evs (bw_ledger (snd (m w))))"
  by (simp add: triple_def)

lemma apply_sound:
  assumes "ib_ledger b = p" and "ib_sha b = sha" and "\<forall>host \<in> set (call_hosts k). tame sha host" and "inv sha w"
  shows "inv sha (broker_apply b k w) \<and> prefix (evs (bw_ledger w)) (evs (bw_ledger (broker_apply b k w)))"
proof -
  note keeps = triple_keeps [OF _ assms(4)]
  show ?thesis
    by (cases k)
       (use assms(3) in \<open>simp_all add: keeps [OF propose_sound [OF assms(1,2)]] keeps [OF resolve_sound [OF assms(1,2)]]
          keeps [OF accept_sound [OF assms(1)]] keeps [OF progress_sound [OF assms(1)]] keeps [OF settle_sound [OF assms(1)]]
          keeps [OF triple_mark [OF assms(1)]] keeps [OF deliver_sound(1) [OF assms(1)]] keeps [OF deliver_sound(2) [OF assms(1)]]
          keeps [OF results_sound [OF assms(1)]]\<close>)
qed

lemma run_inv:
  assumes "broker_run b silent w v" and "ib_ledger b = p"
  shows "inv (ib_sha b) w \<Longrightarrow> inv (ib_sha b) v \<and> prefix (evs (bw_ledger w)) (evs (bw_ledger v))"
  using assms(1)
proof (induction rule: broker_run.induct)
  case (run_call w v k)
  have "\<forall>host \<in> set (call_hosts k). tame (ib_sha b) host"
    using run_call.IH(2) by (auto simp: tame_def triple_def)
  with apply_sound [OF assms(2) refl] run_call show ?case
    by (blast intro: prefix_order.trans)
next
  case (run_silent w v l)
  with silent_keeps inv_same show ?case
    by fastforce
qed (auto simp: inv_def)

end

section \<open>The ledger in memory\<close>

definition memory_entries :: "memory_ledger \<Rightarrow> dispatch_outbox set" where
  "memory_entries l = fst ` set (bvalues (ml_outbox l))"

lemma memory_entries_update [simp]:
  "memory_entries (l\<lparr>ml_events := es\<rparr>) = memory_entries l" "memory_entries (l\<lparr>ml_fail_next := f\<rparr>) = memory_entries l"
  "memory_entries (l\<lparr>ml_worker_results := rs\<rparr>) = memory_entries l"
  by (simp_all add: memory_entries_def)

lemma bvalues_binsert: "set (bvalues (binsert k v m)) \<subseteq> insert v (set (bvalues m))"
  by (induction m) auto

lemma entries_binsert: "fst ` set (bvalues (binsert k (ob, g) m)) \<subseteq> insert ob (fst ` set (bvalues m))"
  using image_mono [OF bvalues_binsert [of k "(ob, g)" m], of fst] by simp

lemma marked_entries:
  assumes "bget m k = Some (ob, f)"
  shows "fst ` set (bvalues (binsert k (ob, g) m)) \<subseteq> fst ` set (bvalues m)"
proof -
  have "ob \<in> fst ` set (bvalues m)"
    using imageI [OF bget_in_values [OF assms], of fst] by simp
  with entries_binsert [of k ob g m] show ?thesis
    by blast
qed

lemma memory_append_entries:
  assumes "memory_append_atomic es ob l = (Inr u, l')"
  shows "memory_entries l' \<subseteq> memory_entries l \<union> set_option ob"
proof (cases ob)
  case (Some x)
  with assms have "ml_outbox l' = ml_outbox l \<or> ml_outbox l' = binsert (do_outbox_id x) (x, False) (ml_outbox l)"
    by (auto simp: memory_append_atomic_def split: if_splits option.splits)
  with Some entries_binsert [of "do_outbox_id x" x False "ml_outbox l"] show ?thesis
    by (elim disjE) (simp_all add: memory_entries_def subset_insertI)
qed (use assms in \<open>auto simp: memory_append_atomic_def split: if_splits\<close>)

interpretation memory: invocation_ledger memory_port ml_events memory_entries "\<lambda>l l'. l' = fail_next_write l"
proof
  show "ml_events (snd (lp_mark_dispatch_delivered memory_port i l)) = ml_events l
      \<and> memory_entries (snd (lp_mark_dispatch_delivered memory_port i l)) \<subseteq> memory_entries l" for i l
    using marked_entries [of "ml_outbox l" i]
    by (auto simp: memory_port_def memory_mark_dispatch_delivered_def memory_entries_def split: option.split simp del: set_map)
  show "ml_events l' = ml_events l @ es \<and> memory_entries l' \<subseteq> memory_entries l \<union> set_option ob"
    if "lp_append_atomic memory_port es ob l = (Inr u, l')" for es ob l u l'
    using that memory_append_entries [of es ob l u l']
    by (auto simp: memory_port_def memory_append_atomic_def split: if_splits option.splits)
  show "set entries \<subseteq> memory_entries l" if "lp_pending_dispatches memory_port l = Inr entries" for l entries
    using that by (force simp: memory_port_def memory_pending_dispatches_def memory_entries_def)
qed (auto simp: memory_port_def memory_append_atomic_def memory_events_def memory_append_settlement_atomic_def
      memory_mark_worker_result_delivered_def fail_next_write_def split: if_splits option.splits prod.splits)

section \<open>Properties\<close>

lemma initial_inv:
  assumes "invocation_ledger p evs obs silent" and "evs l = []" and "obs l = {}"
  shows "invocation_ledger.inv evs obs sha \<lparr>bw_ledger = l, bw_env = x, bw_dispatched = []\<rparr>"
  using assms(2,3) by (simp add: invocation_ledger.inv_def [OF assms(1)] invocation_ledger.history_def [OF assms(1)])

definition demo_sha :: digest where
  "demo_sha m = take 64 (m @ replicate 64 (CHR ''0''))"

definition demo_broker :: "(memory_ledger, unit) invocation_broker" where
  "demo_broker = broker_new memory_port demo_sha 10"

definition demo_frozen_manifest :: authority_manifest where
  "demo_frozen_manifest = \<lparr>am_manifest_id = ''m'', am_capability_bindings = [\<lparr>cb_capability_id = ''search'', cb_adapter_version = ''1'',
     cb_enabled = True, cb_compatible = True, cb_approval = ArPerInvocation\<rparr>], am_summary = []\<rparr>"

definition demo_proposal :: invocation_proposal where
  "demo_proposal = \<lparr>ip_proposal_id = ''p'', ip_run_id = ''r'', ip_node_id = ''n'', ip_attempt = 1, ip_capability_id = ''search'',
     ip_payload_hash = ''h''\<rparr>"

definition demo_invocation :: stable_id where
  "demo_invocation = invocation_id_of demo_sha ''p''"

definition demo_response :: approval_response where
  "demo_response = \<lparr>rs_invocation_id = demo_invocation, rs_nonce = approval_nonce demo_sha ''p'' ''m'', rs_approved = True,
     rs_now_epoch_millis = 9\<rparr>"

definition demo_dispatch :: approved_dispatch where
  "demo_dispatch = \<lparr>ad_invocation_id = demo_invocation, ad_proposal_id = ''p'', ad_capability_id = ''search'', ad_payload_hash = ''h'',
     ad_manifest_id = ''m'', ad_lease_ids = []\<rparr>"

definition demo_host :: "(memory_ledger, unit) host_port" where
  "demo_host d w = (Inr DaAmbiguous, w)"

definition demo_world :: "(memory_ledger, unit) broker_world" where
  "demo_world = \<lparr>bw_ledger = empty_ledger, bw_env = (), bw_dispatched = []\<rparr>"

definition demo_approved :: "(memory_ledger, unit) broker_world" where
  "demo_approved = broker_apply demo_broker (BcResolve demo_frozen_manifest demo_response)
     (broker_apply demo_broker (BcPropose demo_frozen_manifest demo_proposal 0) demo_world)"

text \<open>The attempt fails to commit once; the next delivery is ambiguous; a last one finds nothing to deliver.\<close>

definition demo_delivered :: "(memory_ledger, unit) broker_world" where
  "demo_delivered = broker_apply demo_broker (BcDeliver demo_host) (broker_apply demo_broker (BcDeliver demo_host)
     (broker_apply demo_broker (BcDeliver demo_host)
       (demo_approved\<lparr>bw_ledger := fail_next_write (bw_ledger demo_approved)\<rparr>)))"

lemma demo_broker_port: "ib_ledger demo_broker = memory_port" "ib_sha demo_broker = demo_sha"
  by (simp_all add: demo_broker_def broker_new_def)

lemma broker_demo_run: "broker_run demo_broker (\<lambda>l l'. l' = fail_next_write l) demo_world demo_delivered"
proof -
  let ?run = "broker_run demo_broker (\<lambda>l l'. l' = fail_next_write l)"
  have quiet: "?run u (snd (demo_host d u))" for d u
    by (simp add: demo_host_def run_none)
  have deliver: "?run w (broker_apply demo_broker (BcDeliver demo_host) v)" if "?run w v" for w v
    by (rule run_call [OF that]) (simp add: quiet)
  have "?run demo_world demo_approved"
    unfolding demo_approved_def by (intro run_call run_none) simp_all
  then have "?run demo_world (demo_approved\<lparr>bw_ledger := fail_next_write (bw_ledger demo_approved)\<rparr>)"
    by (rule run_silent) simp
  then show ?thesis
    unfolding demo_delivered_def by (intro deliver)
qed

lemma demo_delivered_once: "bw_dispatched demo_delivered = [demo_dispatch]"
  by code_simp

lemma demo_history:
  "ml_events (bw_ledger demo_delivered) =
     [EvProposed demo_invocation demo_proposal ''m'',
      EvApprovalRequested \<lparr>ch_invocation_id = demo_invocation, ch_nonce = approval_nonce demo_sha ''p'' ''m'',
        ch_expires_epoch_millis = 10, ch_capability_id = ''search''\<rparr>,
      EvAuthorized demo_dispatch, EvDispatchAttempted demo_invocation,
      EvSettled demo_invocation (outcome_hash demo_sha ''host_dispatch_acceptance_uncertain'') True]"
  by code_simp

lemma demo_empty: "ml_events empty_ledger = []" "memory_entries empty_ledger = {}"
  by (simp_all add: empty_ledger_def memory_entries_def)

text \<open>
  C3. A host sees each invocation at most once. Over a ledger that meets the port's laws, whatever is called
  in whatever order, with writes that fail at any point, crashes that leave an attempt without its outcome, and hosts
  that call the broker again while they dispatch, no two dispatches have the same invocation id; and every dispatch
  handed over was durably authorized, and its attempt durably recorded, exactly as handed over.
\<close>

theorem host_dispatch_at_most_once:
  assumes "invocation_ledger (ib_ledger b) evs obs silent" and "evs l = []" and "obs l = {}"
    and "broker_run b silent \<lparr>bw_ledger = l, bw_env = x, bw_dispatched = []\<rparr> w"
  shows "distinct (map ad_invocation_id (bw_dispatched w))
    \<and> (\<forall>d \<in> set (bw_dispatched w). EvAuthorized d \<in> set (evs (bw_ledger w))
         \<and> EvDispatchAttempted (ad_invocation_id d) \<in> set (evs (bw_ledger w)))"
  using invocation_ledger.run_inv [OF assms(1,4) refl initial_inv [OF assms(1-3)]]
  by (simp add: invocation_ledger.inv_def [OF assms(1)])

theorem host_dispatch_at_most_once_witness:
  "bw_dispatched demo_delivered = [demo_dispatch]
   \<and> EvAuthorized demo_dispatch \<in> set (ml_events (bw_ledger demo_delivered))
   \<and> EvDispatchAttempted demo_invocation \<in> set (ml_events (bw_ledger demo_delivered))"
  using host_dispatch_at_most_once [of demo_broker, unfolded demo_broker_port, OF memory.invocation_ledger_axioms
      demo_empty broker_demo_run [unfolded demo_world_def]]
  by (simp add: demo_delivered_once demo_dispatch_def)

text \<open>
  C7. The durable history of every invocation is a path of its lifecycle: proposed under the id derived from
  its proposal, challenged at most once with the derived nonce, rejected or authorized for exactly what was proposed,
  attempted once, accepted once, with progress numbered 1, 2, 3 and so on without wrapping, and settled once.
\<close>

theorem ledger_follows_lifecycle:
  assumes "invocation_ledger (ib_ledger b) evs obs silent" and "evs l = []" and "obs l = {}"
    and "broker_run b silent \<lparr>bw_ledger = l, bw_env = x, bw_dispatched = []\<rparr> w"
  shows "phase_of (ib_sha b) i (filter (\<lambda>e. event_invocation_id e = i) (evs (bw_ledger w))) \<noteq> None"
  using invocation_ledger.run_inv [OF assms(1,4) refl initial_inv [OF assms(1-3)]]
  by (simp add: invocation_ledger.inv_def [OF assms(1)] invocation_ledger.history_def [OF assms(1)])

theorem ledger_follows_lifecycle_witness:
  "phase_of demo_sha demo_invocation
     (filter (\<lambda>e. event_invocation_id e = demo_invocation) (ml_events (bw_ledger demo_delivered))) \<noteq> None"
  using ledger_follows_lifecycle [of demo_broker, unfolded demo_broker_port, OF memory.invocation_ledger_axioms
      demo_empty broker_demo_run [unfolded demo_world_def]] .

lemma advance_settled:
  "advance sha i ph e = Some ph' \<Longrightarrow> phase_settled ph = Some s \<Longrightarrow> phase_settled ph' = Some s \<and> (\<forall>j h u. e \<noteq> EvSettled j h u)"
  by (cases "(sha, i, ph, e)" rule: advance.cases) auto

lemma phase_settled_event:
  "phase_of sha i es = Some ph \<Longrightarrow> EvSettled j h u \<in> set es \<Longrightarrow> phase_settled ph = Some (h, u)"
proof (induction es arbitrary: ph rule: rev_induct)
  case (snoc e es)
  then obtain ph0 where ph0: "phase_of sha i es = Some ph0" "advance sha i ph0 e = Some ph"
    by (auto simp: bind_eq_Some_conv)
  show ?case
  proof (cases "EvSettled j h u \<in> set es")
    case True
    with snoc.IH [OF ph0(1)] advance_settled [OF ph0(2)] show ?thesis
      by blast
  next
    case False
    with snoc.prems(2) ph0(2) show ?thesis
      by (cases ph0) (auto split: if_splits)
  qed
qed simp

text \<open>
  C30. A settlement is final: once the ledger holds one for an invocation, after any further run the
  history of the invocation holds no other, its replayed decision is that outcome, and proposing the same work again
  under the same manifest answers with it and changes nothing.
\<close>

theorem settlement_final:
  assumes "invocation_ledger (ib_ledger b) evs obs silent" and "evs l = []" and "obs l = {}"
    and "broker_run b silent \<lparr>bw_ledger = l, bw_env = x, bw_dispatched = []\<rparr> v" and "broker_run b silent v w"
    and "EvSettled i h u \<in> set (evs (bw_ledger v))"
    and "i = invocation_id_of (ib_sha b) (ip_proposal_id q)" and "lp_events (ib_ledger b) i (bw_ledger w) = Inr es"
    and "find_proposed es = Some (q, am_manifest_id m)"
  shows "(\<forall>j h' u'. EvSettled j h' u' \<in> set es \<longrightarrow> h' = h \<and> u' = u)
    \<and> replay_decision es = Inr (BdAlreadySettled h)
    \<and> propose b m q t w = (Inr (BdAlreadySettled h), w)"
proof -
  note inv_v = invocation_ledger.run_inv [OF assms(1,4) refl initial_inv [OF assms(1-3)]]
  note inv_w = invocation_ledger.run_inv [OF assms(1,5) refl conjunct1 [OF inv_v]]
  have es: "es = filter (\<lambda>e. event_invocation_id e = i) (evs (bw_ledger w))"
    by (rule invocation_ledger.events_read [OF assms(1,8)])
  have "phase_of (ib_sha b) i es \<noteq> None"
    using inv_w unfolding es by (simp add: invocation_ledger.inv_def [OF assms(1)] invocation_ledger.history_def [OF assms(1)])
  then obtain ph where ph: "phase_of (ib_sha b) i es = Some ph"
    by blast
  have settled: "EvSettled i h u \<in> set es"
    using assms(6) inv_w by (auto simp: es dest: set_mono_prefix)
  note phase = phase_settled_event [OF ph]
  have replay: "replay_decision es = Inr (BdAlreadySettled h)"
    using phase_summary [OF ph] phase [OF settled] by (simp add: summary_def replay_decision_def)
  moreover have "propose b m q t w = (Inr (BdAlreadySettled h), w)"
    using settled assms(7-9) replay
    by (auto simp: propose_def Let_def then_w_def read_events_def of_r_def verify_proposal_identity_def proposed_identity_def)
  moreover have "h' = h \<and> u' = u" if "EvSettled j h' u' \<in> set es" for j h' u'
    using phase [OF settled] phase [OF that] by simp
  ultimately show ?thesis
    by blast
qed

theorem settlement_final_witness:
  "propose demo_broker demo_frozen_manifest demo_proposal 99 demo_delivered =
     (Inr (BdAlreadySettled (outcome_hash demo_sha ''host_dispatch_acceptance_uncertain'')), demo_delivered)"
proof -
  define es where "es = filter (\<lambda>e. event_invocation_id e = demo_invocation) (ml_events (bw_ledger demo_delivered))"
  have "lp_events memory_port demo_invocation (bw_ledger demo_delivered) = Inr es"
    by (simp add: memory_port_def memory_events_def es_def)
  moreover have "find_proposed es = Some (demo_proposal, am_manifest_id demo_frozen_manifest)"
    by (simp add: es_def demo_history demo_frozen_manifest_def)
  moreover have "EvSettled demo_invocation (outcome_hash demo_sha ''host_dispatch_acceptance_uncertain'') True
      \<in> set (ml_events (bw_ledger demo_delivered))"
    by (simp add: demo_history)
  moreover have "demo_invocation = invocation_id_of demo_sha (ip_proposal_id demo_proposal)"
    by (simp add: demo_invocation_def demo_proposal_def)
  ultimately show ?thesis
    using settlement_final [of demo_broker, unfolded demo_broker_port, OF memory.invocation_ledger_axioms
        demo_empty broker_demo_run [unfolded demo_world_def] run_none]
    by blast
qed

lemma then_w_Inr: "then_w m f w = (Inr a, v) \<longleftrightarrow> (\<exists>x u. m w = (Inr x, u) \<and> f x u = (Inr a, v))"
  by (auto simp: then_w_def split: prod.splits sum.splits)

lemma of_r_Inr: "of_r r w = (Inr a, v) \<longleftrightarrow> r = Inr a \<and> v = w"
  by (auto simp: of_r_def)

lemma commit_authorized_ready: "commit_authorized b d w = (Inr x, v) \<Longrightarrow> x = BdDispatchReady d"
  by (auto simp: commit_authorized_def Let_def split: prod.splits sum.splits)

lemma authorize_ready:
  assumes "broker_authorize b m q w = (Inr (BdDispatchReady d), v)"
  shows "\<exists>c. find (\<lambda>c. cb_capability_id c = ip_capability_id q) (am_capability_bindings m) = Some c \<and> cb_enabled c \<and> cb_compatible c
    \<and> dispatch_for (invocation_id_of (ib_sha b) (ip_proposal_id q)) q (am_manifest_id m) d"
  using assms
  by (auto simp: broker_authorize_def Let_def then_w_Inr of_r_Inr dispatch_for_def dest!: commit_authorized_ready intro: sort_adjacent_distinct
      split: option.splits if_splits)

text \<open>
  C29. Approval is one live challenge answered: resolving a response yields a dispatch only if the response
  approves, and then either the dispatch was authorized before and nothing changes, or the invocation was still open,
  the nonce is that of its recorded challenge, the challenge had not expired, the manifest is the one proposed under,
  its first binding for the capability is enabled and compatible, and the dispatch is for exactly what was proposed.
\<close>

theorem approval_answers_live_challenge:
  assumes "broker_resolve_approval b m r w = (Inr (BdDispatchReady d), v)"
    and "lp_events (ib_ledger b) (rs_invocation_id r) (bw_ledger w) = Inr es"
  shows "rs_approved r \<and> (find_authorized es = Some d \<and> v = w
    \<or> (\<exists>ch q c. find_settled es = None \<and> find_authorized es = None \<and> \<not> list_ex is_rejected es
         \<and> find_challenge es = Some ch \<and> ch_nonce ch = rs_nonce r \<and> rs_now_epoch_millis r < ch_expires_epoch_millis ch
         \<and> find_proposed es = Some (q, am_manifest_id m)
         \<and> find (\<lambda>c. cb_capability_id c = ip_capability_id q) (am_capability_bindings m) = Some c \<and> cb_enabled c \<and> cb_compatible c
         \<and> dispatch_for (invocation_id_of (ib_sha b) (ip_proposal_id q)) q (am_manifest_id m) d))"
proof -
  from assms obtain q ch where
    read: "find_proposed es = Some (q, am_manifest_id m)" "find_challenge es = Some ch" and
    res: "(case replayed_response (replay_decision es) (rs_approved r) of
         Some x \<Rightarrow> of_r x | None \<Rightarrow> answer_challenge b m r q ch) w = (Inr (BdDispatchReady d), v)"
    unfolding broker_resolve_approval_def
    by (auto simp: then_w_Inr of_r_Inr read_events_def proposed_identity_def ok_or_Inr split: if_splits split del: option.split)
  show ?thesis
  proof (cases "replayed_response (replay_decision es) (rs_approved r)")
    case None
    with res have "ch_nonce ch = rs_nonce r" "rs_now_epoch_millis r < ch_expires_epoch_millis ch" "rs_approved r"
      "broker_authorize b m q w = (Inr (BdDispatchReady d), v)"
      by (auto simp: answer_challenge_def then_w_Inr of_r_Inr not_le split: if_splits)
    moreover have "find_settled es = None" "find_authorized es = None" "\<not> list_ex is_rejected es"
      using None read by (auto simp: replay_decision_def split: option.splits if_splits)
    ultimately show ?thesis
      using read authorize_ready by fastforce
  next
    case (Some x)
    with res show ?thesis
      by (auto simp: of_r_Inr replay_decision_def split: option.splits if_splits)
  qed
qed

theorem approval_answers_live_challenge_witness:
  "rs_approved demo_response \<and> rs_now_epoch_millis demo_response < 10
   \<and> fst (broker_resolve_approval demo_broker demo_frozen_manifest (demo_response\<lparr>rs_now_epoch_millis := 10\<rparr>)
       (broker_apply demo_broker (BcPropose demo_frozen_manifest demo_proposal 0) demo_world)) = Inr BdDenied"
  (is "_ \<and> _ \<and> fst (broker_resolve_approval _ _ _ ?w) = _")
proof -
  define es where "es = [EvProposed demo_invocation demo_proposal ''m'',
      EvApprovalRequested \<lparr>ch_invocation_id = demo_invocation, ch_nonce = approval_nonce demo_sha ''p'' ''m'',
        ch_expires_epoch_millis = 10, ch_capability_id = ''search''\<rparr>]"
  have "lp_events (ib_ledger demo_broker) (rs_invocation_id demo_response) (bw_ledger ?w) = Inr es"
    unfolding es_def by code_simp
  moreover have "fst (broker_resolve_approval demo_broker demo_frozen_manifest demo_response ?w) = Inr (BdDispatchReady demo_dispatch)"
    by code_simp
  then have "broker_resolve_approval demo_broker demo_frozen_manifest demo_response ?w = (Inr (BdDispatchReady demo_dispatch),
      snd (broker_resolve_approval demo_broker demo_frozen_manifest demo_response ?w))"
    by (metis prod.collapse)
  moreover have "fst (broker_resolve_approval demo_broker demo_frozen_manifest (demo_response\<lparr>rs_now_epoch_millis := 10\<rparr>) ?w) = Inr BdDenied"
    by code_simp
  ultimately show ?thesis
    using approval_answers_live_challenge [of demo_broker demo_frozen_manifest demo_response ?w] by (fastforce simp: es_def)
qed

end
