(* ===== verification/Lifecycle.thy ===== *)
theory Lifecycle
  imports Plan
begin

text \<open>
  The lifecycle of a chat and its run (\<open>crates/aworkit-trusted-core/src/lifecycle.rs\<close>): the
  first aggregate, and the event-sourced one with its decisions, its reducer, its replay and the
  recognition of repeated commands.
\<close>

section \<open>The first aggregate\<close>

datatype chat_state =
    ChDraft | ChActive | ChWaitingInput | ChWaitingApproval | ChPaused | ChCancelling | ChCancelled | ChCompleted | ChFailed

definition chat_terminal :: "chat_state \<Rightarrow> bool" where
  "chat_terminal s \<longleftrightarrow> s \<in> {ChCancelled, ChCompleted, ChFailed}"

datatype wait_reason = WaitInput | WaitApproval

datatype chat_command =
    CcStart string
  | CcQueueInput stable_id
  | CcBeginAttempt stable_id
  | CcWait wait_reason
  | CcApprove
  | CcResume
  | CcPause
  | CcCancel
  | CcCancelled
  | CcComplete
  | CcFail bool
  | CcRetry
  | CcFork stable_id
  | CcContinueFrom stable_id

datatype chat_event =
    CeStarted string
  | CeInputQueued stable_id
  | CeAttemptBegan stable_id
  | CeWaited wait_reason
  | CeApproved
  | CeResumed
  | CePaused
  | CeCancellationRequested
  | CeCancelled
  | CeCompleted
  | CeFailed bool
  | CeRetried
  | CeForked stable_id
  | CeContinued stable_id

record chat_aggregate =
  ca_chat_id :: stable_id
  ca_state :: chat_state
  ca_snapshot_hash :: "string option"
  ca_queued_inputs :: "stable_id list"
  ca_events :: "chat_event list"
  ca_retryable_failure :: bool

definition chat_new :: "stable_id \<Rightarrow> chat_aggregate" where
  "chat_new i = \<lparr>ca_chat_id = i, ca_state = ChDraft, ca_snapshot_hash = None, ca_queued_inputs = [], ca_events = [],
     ca_retryable_failure = False\<rparr>"

text \<open>The arm of a command and its guard; the error carries the state the command is illegal in.\<close>

fun chat_arm :: "chat_command \<Rightarrow> chat_aggregate \<Rightarrow> (chat_event \<times> chat_aggregate) option" where
  "chat_arm (CcStart h) a =
     (if ca_state a = ChDraft \<and> h \<noteq> [] then Some (CeStarted h, a\<lparr>ca_state := ChActive, ca_snapshot_hash := Some h\<rparr>) else None)"
| "chat_arm (CcQueueInput i) a =
     (if \<not> chat_terminal (ca_state a) then Some (CeInputQueued i, a\<lparr>ca_queued_inputs := ca_queued_inputs a @ [i]\<rparr>) else None)"
| "chat_arm (CcBeginAttempt i) a = (if ca_state a = ChActive then Some (CeAttemptBegan i, a) else None)"
| "chat_arm (CcWait WaitInput) a =
     (if ca_state a = ChActive then Some (CeWaited WaitInput, a\<lparr>ca_state := ChWaitingInput\<rparr>) else None)"
| "chat_arm (CcWait WaitApproval) a =
     (if ca_state a = ChActive then Some (CeWaited WaitApproval, a\<lparr>ca_state := ChWaitingApproval\<rparr>) else None)"
| "chat_arm CcApprove a = (if ca_state a = ChWaitingApproval then Some (CeApproved, a\<lparr>ca_state := ChActive\<rparr>) else None)"
| "chat_arm CcResume a =
     (if ca_state a \<in> {ChPaused, ChWaitingInput} then Some (CeResumed, a\<lparr>ca_state := ChActive\<rparr>) else None)"
| "chat_arm CcPause a =
     (if ca_state a \<in> {ChActive, ChWaitingInput, ChWaitingApproval} then Some (CePaused, a\<lparr>ca_state := ChPaused\<rparr>) else None)"
| "chat_arm CcCancel a =
     (if \<not> chat_terminal (ca_state a) then Some (CeCancellationRequested, a\<lparr>ca_state := ChCancelling\<rparr>) else None)"
| "chat_arm CcCancelled a = (if ca_state a = ChCancelling then Some (CeCancelled, a\<lparr>ca_state := ChCancelled\<rparr>) else None)"
| "chat_arm CcComplete a = (if ca_state a = ChActive then Some (CeCompleted, a\<lparr>ca_state := ChCompleted\<rparr>) else None)"
| "chat_arm (CcFail retryable) a =
     (if ca_state a \<in> {ChActive, ChCancelling}
      then Some (CeFailed retryable, a\<lparr>ca_state := ChFailed, ca_retryable_failure := retryable\<rparr>) else None)"
| "chat_arm CcRetry a =
     (if ca_state a = ChFailed \<and> ca_retryable_failure a then Some (CeRetried, a\<lparr>ca_state := ChActive\<rparr>) else None)"
| "chat_arm (CcFork child) a = (if chat_terminal (ca_state a) then Some (CeForked child, a) else None)"
| "chat_arm (CcContinueFrom parent) a = (if ca_state a = ChDraft then Some (CeContinued parent, a) else None)"

definition chat_apply :: "chat_command \<Rightarrow> chat_aggregate \<Rightarrow> (chat_state + chat_event) \<times> chat_aggregate" where
  "chat_apply command a =
     (case chat_arm command a of
        None \<Rightarrow> (Inl (ca_state a), a)
      | Some (event, a') \<Rightarrow> (Inr event, a'\<lparr>ca_events := ca_events a' @ [event]\<rparr>))"

section \<open>The run aggregate\<close>

datatype run_state =
    RunDraft | RunBlockedDraft | RunResolving | RunStarting | RunActive | RunWaitingInput | RunWaitingApproval
  | RunPausing | RunPaused | RunCancelling | RunRehydrating | RunBlocked | RunCancelled | RunCompleted | RunFailed

definition run_terminal :: "run_state \<Rightarrow> bool" where
  "run_terminal s \<longleftrightarrow> s \<in> {RunCancelled, RunCompleted, RunFailed}"

datatype run_command_kind =
    RcStartResolved stable_id stable_id string
  | RcRejectStart string
  | RcAcceptFirstInput stable_id
  | RcFreezeSnapshot stable_id string
  | RcWorkerReady process_generation
  | RcQueueInput stable_id
  | RcDeliverInput stable_id
  | RcBeginAttempt stable_id stable_id
  | RcFinishAttempt stable_id string
  | RcWait wait_reason
  | RcResolveApproval stable_id bool
  | RcRequestPause
  | RcWorkerQuiesced string
  | RcResume
  | RcRequestCancel
  | RcWorkerStopped
  | RcWorkerCrashed process_generation "string option" "stable_id list"
  | RcRehydrationReady process_generation
  | RcResolveBlockedInvocation stable_id
  | RcComplete
  | RcFail string bool
  | RcRetry
  | RcFork stable_id
  | RcContinueFrom stable_id

record run_command =
  rc_command_id :: stable_id
  rc_expected_version :: u64
  rc_command :: run_command_kind

datatype run_event_kind =
    ReChatStarted stable_id stable_id string
  | ReStartRejected string
  | ReFirstInputAccepted stable_id
  | ReSnapshotFrozen stable_id string
  | ReWorkerGenerationReady process_generation
  | ReInputQueued stable_id
  | ReInputDelivered stable_id
  | ReAttemptBegan stable_id stable_id
  | ReAttemptFinished stable_id string
  | ReWaited wait_reason
  | ReApprovalResolved stable_id bool
  | RePauseRequested
  | RePaused string
  | ReResumed
  | ReCancellationRequested
  | ReCancelled
  | ReWorkerGenerationCrashed process_generation "string option" "stable_id list"
  | ReRehydrationReady process_generation
  | ReBlockedInvocationResolved stable_id
  | ReCompleted
  | ReFailed string bool
  | ReRetried
  | ReForked stable_id
  | ReContinued stable_id

record committed_run_event =
  cr_sequence :: u64
  cr_command_id :: stable_id
  cr_event :: run_event_kind

datatype run_command_outcome = RunApplied committed_run_event | RunDuplicate committed_run_event

record attempt_state =
  as_operation_id :: stable_id
  as_outcome :: "string option"

record run_aggregate =
  ra_chat_id :: stable_id
  ra_run_id :: stable_id
  ra_version :: u64
  ra_state :: run_state
  ra_snapshot_id :: "stable_id option"
  ra_snapshot_hash :: "string option"
  ra_generation :: "process_generation option"
  ra_queued_inputs :: "stable_id list"
  ra_active_attempts :: "(string, attempt_state) bmap"
  ra_last_checkpoint_hash :: "string option"
  ra_uncertain_invocations :: "string list"
  ra_retryable_failure :: bool
  ra_parent_chat_id :: "stable_id option"
  ra_child_chat_ids :: "stable_id list"
  ra_start_rejection :: "string option"
  ra_rehydration_target :: "run_state option"
  ra_events :: "committed_run_event list"
  ra_command_digests :: "(string, string) bmap"

datatype lifecycle_error =
    LfIllegalTransition run_state
  | LfVersionConflict u64 u64
  | LfCommandIdentityConflict
  | LfCorruptHistory
  | LfVersionExhausted
  | LfEncoding

definition run_new :: "stable_id \<Rightarrow> stable_id \<Rightarrow> run_aggregate" where
  "run_new chat_id run_id =
     \<lparr>ra_chat_id = chat_id, ra_run_id = run_id, ra_version = 0, ra_state = RunDraft, ra_snapshot_id = None,
      ra_snapshot_hash = None, ra_generation = None, ra_queued_inputs = [], ra_active_attempts = [],
      ra_last_checkpoint_hash = None, ra_uncertain_invocations = [], ra_retryable_failure = False,
      ra_parent_chat_id = None, ra_child_chat_ids = [], ra_start_rejection = None, ra_rehydration_target = None,
      ra_events = [], ra_command_digests = []\<rparr>"

definition lf_is_sha256 :: "string \<Rightarrow> bool" where
  "lf_is_sha256 v \<longleftrightarrow> length v = 64 \<and> list_all is_ascii_hexdigit v"

definition valid_label :: "string \<Rightarrow> bool" where
  "valid_label v \<longleftrightarrow> \<not> trim_is_empty v \<and> length v \<le> 256 \<and> \<not> has_control v"

definition accepts_queued_input :: "run_state \<Rightarrow> bool" where
  "accepts_queued_input s \<longleftrightarrow>
     s \<in> {RunStarting, RunActive, RunWaitingInput, RunWaitingApproval, RunPausing, RunPaused, RunRehydrating}"

definition none_or :: "('a \<Rightarrow> bool) \<Rightarrow> 'a option \<Rightarrow> bool" where
  "none_or P x = (case x of None \<Rightarrow> True | Some v \<Rightarrow> P v)"

definition crash_reported :: "run_aggregate \<Rightarrow> process_generation \<Rightarrow> string option \<Rightarrow> stable_id list \<Rightarrow> bool" where
  "crash_reported a generation checkpoint uncertain \<longleftrightarrow>
     ra_state a \<in> {RunActive, RunWaitingInput, RunWaitingApproval, RunPausing, RunPaused, RunCancelling}
     \<and> ra_generation a = Some generation \<and> none_or lf_is_sha256 checkpoint
     \<and> length (bset_of_list uncertain) = length uncertain"

definition attempt_open :: "run_aggregate \<Rightarrow> stable_id \<Rightarrow> bool" where
  "attempt_open a i = (case bget (ra_active_attempts a) i of None \<Rightarrow> False | Some t \<Rightarrow> as_outcome t = None)"

section \<open>Decisions\<close>

definition guarded :: "run_aggregate \<Rightarrow> bool \<Rightarrow> run_event_kind \<Rightarrow> lifecycle_error + run_event_kind" where
  "guarded a c event = (if c then Inr event else Inl (LfIllegalTransition (ra_state a)))"

fun run_decide :: "run_aggregate \<Rightarrow> run_command_kind \<Rightarrow> lifecycle_error + run_event_kind" where
  "run_decide a (RcStartResolved input_id snapshot_id snapshot_hash) =
     guarded a (ra_state a \<in> {RunDraft, RunBlockedDraft} \<and> ra_snapshot_hash a = None \<and> lf_is_sha256 snapshot_hash)
       (ReChatStarted input_id snapshot_id snapshot_hash)"
| "run_decide a (RcRejectStart code) =
     guarded a (ra_state a \<in> {RunDraft, RunBlockedDraft, RunResolving} \<and> ra_snapshot_hash a = None \<and> valid_label code)
       (ReStartRejected code)"
| "run_decide a (RcAcceptFirstInput input_id) =
     guarded a (ra_state a \<in> {RunDraft, RunBlockedDraft}) (ReFirstInputAccepted input_id)"
| "run_decide a (RcFreezeSnapshot snapshot_id snapshot_hash) =
     guarded a (ra_state a = RunResolving \<and> lf_is_sha256 snapshot_hash \<and> ra_snapshot_hash a = None)
       (ReSnapshotFrozen snapshot_id snapshot_hash)"
| "run_decide a (RcWorkerReady generation) =
     guarded a (ra_state a = RunStarting \<and> 0 < generation) (ReWorkerGenerationReady generation)"
| "run_decide a (RcQueueInput input_id) =
     guarded a (accepts_queued_input (ra_state a) \<and> input_id \<notin> set (ra_queued_inputs a)) (ReInputQueued input_id)"
| "run_decide a (RcDeliverInput input_id) =
     guarded a (ra_state a \<in> {RunActive, RunWaitingInput} \<and> take 1 (ra_queued_inputs a) = [input_id]) (ReInputDelivered input_id)"
| "run_decide a (RcBeginAttempt attempt_id operation_id) =
     guarded a (ra_state a = RunActive \<and> \<not> bcontains (ra_active_attempts a) attempt_id) (ReAttemptBegan attempt_id operation_id)"
| "run_decide a (RcFinishAttempt attempt_id outcome) =
     guarded a (ra_state a = RunActive \<and> attempt_open a attempt_id \<and> valid_label outcome) (ReAttemptFinished attempt_id outcome)"
| "run_decide a (RcWait reason) = guarded a (ra_state a = RunActive) (ReWaited reason)"
| "run_decide a (RcResolveApproval approval_id approved) =
     guarded a (ra_state a = RunWaitingApproval) (ReApprovalResolved approval_id approved)"
| "run_decide a RcRequestPause =
     guarded a (ra_state a \<in> {RunActive, RunWaitingInput, RunWaitingApproval}) RePauseRequested"
| "run_decide a (RcWorkerQuiesced checkpoint_hash) =
     guarded a (ra_state a = RunPausing \<and> lf_is_sha256 checkpoint_hash) (RePaused checkpoint_hash)"
| "run_decide a RcResume = guarded a (ra_state a = RunPaused) ReResumed"
| "run_decide a RcRequestCancel = guarded a (\<not> run_terminal (ra_state a)) ReCancellationRequested"
| "run_decide a RcWorkerStopped = guarded a (ra_state a = RunCancelling) ReCancelled"
| "run_decide a (RcWorkerCrashed generation checkpoint_hash uncertain) =
     guarded a (crash_reported a generation checkpoint_hash uncertain)
       (ReWorkerGenerationCrashed generation checkpoint_hash uncertain)"
| "run_decide a (RcRehydrationReady generation) =
     guarded a (ra_state a = RunRehydrating \<and> none_or (\<lambda>current. current < generation) (ra_generation a))
       (ReRehydrationReady generation)"
| "run_decide a (RcResolveBlockedInvocation invocation_id) =
     guarded a (ra_state a = RunBlocked \<and> invocation_id \<in> set (ra_uncertain_invocations a))
       (ReBlockedInvocationResolved invocation_id)"
| "run_decide a RcComplete = guarded a (ra_state a = RunActive) ReCompleted"
| "run_decide a (RcFail code retryable) =
     guarded a (\<not> run_terminal (ra_state a) \<and> valid_label code) (ReFailed code retryable)"
| "run_decide a RcRetry = guarded a (ra_state a = RunFailed \<and> ra_retryable_failure a) ReRetried"
| "run_decide a (RcFork child_chat_id) = guarded a (run_terminal (ra_state a)) (ReForked child_chat_id)"
| "run_decide a (RcContinueFrom parent_chat_id) =
     guarded a (ra_state a = RunDraft \<and> ra_parent_chat_id a = None) (ReContinued parent_chat_id)"

section \<open>The reducer\<close>

fun can_apply :: "run_aggregate \<Rightarrow> run_event_kind \<Rightarrow> bool" where
  "can_apply a (ReChatStarted input_id snapshot_id snapshot_hash) \<longleftrightarrow>
     ra_state a \<in> {RunDraft, RunBlockedDraft} \<and> ra_snapshot_hash a = None \<and> lf_is_sha256 snapshot_hash"
| "can_apply a (ReStartRejected code) \<longleftrightarrow>
     ra_state a \<in> {RunDraft, RunBlockedDraft, RunResolving} \<and> ra_snapshot_hash a = None \<and> valid_label code"
| "can_apply a (ReFirstInputAccepted input_id) \<longleftrightarrow>
     ra_state a \<in> {RunDraft, RunBlockedDraft} \<and> input_id \<notin> set (ra_queued_inputs a)"
| "can_apply a (ReSnapshotFrozen snapshot_id snapshot_hash) \<longleftrightarrow>
     ra_state a = RunResolving \<and> ra_snapshot_hash a = None \<and> lf_is_sha256 snapshot_hash"
| "can_apply a (ReWorkerGenerationReady generation) \<longleftrightarrow> ra_state a = RunStarting \<and> 0 < generation"
| "can_apply a (ReInputQueued input_id) \<longleftrightarrow> accepts_queued_input (ra_state a) \<and> input_id \<notin> set (ra_queued_inputs a)"
| "can_apply a (ReInputDelivered input_id) \<longleftrightarrow>
     ra_state a \<in> {RunActive, RunWaitingInput} \<and> take 1 (ra_queued_inputs a) = [input_id]"
| "can_apply a (ReAttemptBegan attempt_id operation_id) \<longleftrightarrow>
     ra_state a = RunActive \<and> \<not> bcontains (ra_active_attempts a) attempt_id"
| "can_apply a (ReAttemptFinished attempt_id outcome) \<longleftrightarrow>
     ra_state a = RunActive \<and> valid_label outcome \<and> attempt_open a attempt_id"
| "can_apply a (ReWaited reason) \<longleftrightarrow> ra_state a = RunActive"
| "can_apply a (ReApprovalResolved approval_id approved) \<longleftrightarrow> ra_state a = RunWaitingApproval"
| "can_apply a RePauseRequested \<longleftrightarrow> ra_state a \<in> {RunActive, RunWaitingInput, RunWaitingApproval}"
| "can_apply a (RePaused checkpoint_hash) \<longleftrightarrow> ra_state a = RunPausing \<and> lf_is_sha256 checkpoint_hash"
| "can_apply a ReResumed \<longleftrightarrow> ra_state a = RunPaused"
| "can_apply a ReCancellationRequested \<longleftrightarrow> \<not> run_terminal (ra_state a)"
| "can_apply a ReCancelled \<longleftrightarrow> ra_state a = RunCancelling"
| "can_apply a (ReWorkerGenerationCrashed generation checkpoint_hash uncertain) \<longleftrightarrow>
     crash_reported a generation checkpoint_hash uncertain"
| "can_apply a (ReRehydrationReady generation) \<longleftrightarrow>
     ra_state a = RunRehydrating \<and> none_or (\<lambda>current. current < generation) (ra_generation a)"
| "can_apply a (ReBlockedInvocationResolved invocation_id) \<longleftrightarrow>
     ra_state a = RunBlocked \<and> invocation_id \<in> set (ra_uncertain_invocations a)"
| "can_apply a ReCompleted \<longleftrightarrow> ra_state a = RunActive"
| "can_apply a (ReFailed code retryable) \<longleftrightarrow> \<not> run_terminal (ra_state a) \<and> valid_label code"
| "can_apply a ReRetried \<longleftrightarrow> ra_state a = RunFailed \<and> ra_retryable_failure a"
| "can_apply a (ReForked child_chat_id) \<longleftrightarrow> run_terminal (ra_state a) \<and> child_chat_id \<notin> set (ra_child_chat_ids a)"
| "can_apply a (ReContinued parent_chat_id) \<longleftrightarrow> ra_state a = RunDraft \<and> ra_parent_chat_id a = None"

fun waiting_for :: "wait_reason \<Rightarrow> run_state" where
  "waiting_for WaitInput = RunWaitingInput"
| "waiting_for WaitApproval = RunWaitingApproval"

fun crash_target :: "run_state \<Rightarrow> run_state" where
  "crash_target RunWaitingInput = RunWaitingInput"
| "crash_target RunWaitingApproval = RunWaitingApproval"
| "crash_target RunPaused = RunPaused"
| "crash_target RunPausing = RunPaused"
| "crash_target RunCancelling = RunCancelling"
| "crash_target _ = RunActive"

definition generation_ready :: "process_generation \<Rightarrow> run_aggregate \<Rightarrow> run_aggregate" where
  "generation_ready generation a =
     a\<lparr>ra_generation := Some generation, ra_rehydration_target := None,
       ra_state := (case ra_rehydration_target a of None \<Rightarrow> RunActive | Some s \<Rightarrow> s)\<rparr>"

definition generation_crashed :: "string option \<Rightarrow> stable_id list \<Rightarrow> run_aggregate \<Rightarrow> run_aggregate" where
  "generation_crashed checkpoint_hash uncertain a =
     a\<lparr>ra_rehydration_target := Some (crash_target (ra_state a)), ra_last_checkpoint_hash := checkpoint_hash,
       ra_uncertain_invocations := bset_of_list uncertain,
       ra_state := (if bset_of_list uncertain = [] \<and> checkpoint_hash \<noteq> None then RunRehydrating else RunBlocked)\<rparr>"

definition invocation_resolved :: "stable_id \<Rightarrow> run_aggregate \<Rightarrow> run_aggregate" where
  "invocation_resolved invocation_id a =
     (let left = filter (\<lambda>i. i \<noteq> invocation_id) (ra_uncertain_invocations a) in
      a\<lparr>ra_uncertain_invocations := left,
        ra_state := (if left = [] \<and> ra_last_checkpoint_hash a \<noteq> None then RunRehydrating else ra_state a)\<rparr>)"

text \<open>The arm of an event: its result and what it has written by then.\<close>

fun reduce_event :: "run_event_kind \<Rightarrow> run_aggregate \<Rightarrow> (lifecycle_error + unit) \<times> run_aggregate" where
  "reduce_event (ReChatStarted input_id snapshot_id snapshot_hash) a =
     (Inr (), a\<lparr>ra_queued_inputs := ra_queued_inputs a @ [input_id], ra_snapshot_id := Some snapshot_id,
                ra_snapshot_hash := Some snapshot_hash, ra_start_rejection := None, ra_state := RunStarting\<rparr>)"
| "reduce_event (ReStartRejected code) a =
     (Inr (), a\<lparr>ra_start_rejection := Some code, ra_queued_inputs := [], ra_state := RunBlockedDraft\<rparr>)"
| "reduce_event (ReFirstInputAccepted input_id) a =
     (Inr (), a\<lparr>ra_state := RunResolving, ra_start_rejection := None, ra_queued_inputs := ra_queued_inputs a @ [input_id]\<rparr>)"
| "reduce_event (ReSnapshotFrozen snapshot_id snapshot_hash) a =
     (Inr (), a\<lparr>ra_snapshot_id := Some snapshot_id, ra_snapshot_hash := Some snapshot_hash, ra_state := RunStarting\<rparr>)"
| "reduce_event (ReWorkerGenerationReady generation) a = (Inr (), generation_ready generation a)"
| "reduce_event (ReRehydrationReady generation) a = (Inr (), generation_ready generation a)"
| "reduce_event (ReInputQueued input_id) a = (Inr (), a\<lparr>ra_queued_inputs := ra_queued_inputs a @ [input_id]\<rparr>)"
| "reduce_event (ReInputDelivered input_id) a =
     (if take 1 (ra_queued_inputs a) \<noteq> [input_id] then (Inl LfCorruptHistory, a)
      else (Inr (), a\<lparr>ra_queued_inputs := drop 1 (ra_queued_inputs a), ra_state := RunActive\<rparr>))"
| "reduce_event (ReAttemptBegan attempt_id operation_id) a =
     (Inr (), a\<lparr>ra_active_attempts :=
        binsert attempt_id \<lparr>as_operation_id = operation_id, as_outcome = None\<rparr> (ra_active_attempts a)\<rparr>)"
| "reduce_event (ReAttemptFinished attempt_id outcome) a =
     (case bget (ra_active_attempts a) attempt_id of
        None \<Rightarrow> (Inl LfCorruptHistory, a)
      | Some t \<Rightarrow> (Inr (), a\<lparr>ra_active_attempts := binsert attempt_id (t\<lparr>as_outcome := Some outcome\<rparr>) (ra_active_attempts a)\<rparr>))"
| "reduce_event (ReWaited reason) a = (Inr (), a\<lparr>ra_state := waiting_for reason\<rparr>)"
| "reduce_event (ReApprovalResolved approval_id approved) a = (Inr (), a\<lparr>ra_state := RunActive\<rparr>)"
| "reduce_event RePauseRequested a = (Inr (), a\<lparr>ra_state := RunPausing\<rparr>)"
| "reduce_event (RePaused checkpoint_hash) a =
     (Inr (), a\<lparr>ra_last_checkpoint_hash := Some checkpoint_hash, ra_state := RunPaused\<rparr>)"
| "reduce_event ReResumed a = (Inr (), a\<lparr>ra_state := RunActive\<rparr>)"
| "reduce_event ReCancellationRequested a = (Inr (), a\<lparr>ra_state := RunCancelling\<rparr>)"
| "reduce_event ReCancelled a = (Inr (), a\<lparr>ra_state := RunCancelled\<rparr>)"
| "reduce_event (ReWorkerGenerationCrashed generation checkpoint_hash uncertain) a =
     (Inr (), generation_crashed checkpoint_hash uncertain a)"
| "reduce_event (ReBlockedInvocationResolved invocation_id) a = (Inr (), invocation_resolved invocation_id a)"
| "reduce_event ReCompleted a = (Inr (), a\<lparr>ra_state := RunCompleted\<rparr>)"
| "reduce_event (ReFailed code retryable) a = (Inr (), a\<lparr>ra_retryable_failure := retryable, ra_state := RunFailed\<rparr>)"
| "reduce_event ReRetried a =
     (Inr (), a\<lparr>ra_retryable_failure := False, ra_rehydration_target := Some RunActive, ra_state := RunRehydrating\<rparr>)"
| "reduce_event (ReForked child_chat_id) a = (Inr (), a\<lparr>ra_child_chat_ids := ra_child_chat_ids a @ [child_chat_id]\<rparr>)"
| "reduce_event (ReContinued parent_chat_id) a = (Inr (), a\<lparr>ra_parent_chat_id := Some parent_chat_id\<rparr>)"

definition apply_event :: "committed_run_event \<Rightarrow> run_aggregate \<Rightarrow> (lifecycle_error + unit) \<times> run_aggregate" where
  "apply_event committed a =
     (if cr_sequence committed \<noteq> saturating_add (ra_version a) 1 then (Inl LfCorruptHistory, a)
      else if \<not> can_apply a (cr_event committed) then (Inl LfCorruptHistory, a)
      else case reduce_event (cr_event committed) a of
        (Inl e, a') \<Rightarrow> (Inl e, a')
      | (Inr _, a') \<Rightarrow> (Inr (), a'\<lparr>ra_version := cr_sequence committed\<rparr>))"

section \<open>Commands and replay\<close>

text \<open>\<open>serde_jcs::to_vec\<close> on commands, and SHA-256.\<close>

record lifecycle_codec =
  lc_jcs_command :: "run_command \<Rightarrow> string option"
  lc_sha :: digest

definition command_digest :: "lifecycle_codec \<Rightarrow> run_command \<Rightarrow> lifecycle_error + string" where
  "command_digest c command = bind_r (ok_or (lc_jcs_command c command) LfEncoding) (\<lambda>bytes. Inr (lc_sha c bytes))"

definition handle_new ::
  "run_command \<Rightarrow> string \<Rightarrow> run_aggregate \<Rightarrow> (lifecycle_error + run_command_outcome) \<times> run_aggregate" where
  "handle_new command digest a =
     (case bind_r (run_decide a (rc_command command)) (\<lambda>kind.
           bind_r (ok_or (checked_add (ra_version a) 1) LfVersionExhausted) (\<lambda>sequence.
           Inr \<lparr>cr_sequence = sequence, cr_command_id = rc_command_id command, cr_event = kind\<rparr>)) of
        Inl e \<Rightarrow> (Inl e, a)
      | Inr event \<Rightarrow>
          (case apply_event event a of
             (Inl e, a') \<Rightarrow> (Inl e, a')
           | (Inr _, a') \<Rightarrow>
               (Inr (RunApplied event),
                a'\<lparr>ra_command_digests := binsert (rc_command_id command) digest (ra_command_digests a'),
                   ra_events := ra_events a' @ [event]\<rparr>)))"

definition run_handle ::
  "lifecycle_codec \<Rightarrow> run_command \<Rightarrow> run_aggregate \<Rightarrow> (lifecycle_error + run_command_outcome) \<times> run_aggregate" where
  "run_handle c command a =
     (case command_digest c command of
        Inl e \<Rightarrow> (Inl e, a)
      | Inr digest \<Rightarrow>
          (case bget (ra_command_digests a) (rc_command_id command) of
             Some previous \<Rightarrow>
               if previous \<noteq> digest then (Inl LfCommandIdentityConflict, a)
               else (bind_r (ok_or (find (\<lambda>e. cr_command_id e = rc_command_id command) (ra_events a)) LfCorruptHistory)
                       (\<lambda>event. Inr (RunDuplicate event)), a)
           | None \<Rightarrow>
               if rc_expected_version command \<noteq> ra_version a
               then (Inl (LfVersionConflict (rc_expected_version command) (ra_version a)), a)
               else handle_new command digest a))"

fun fold_events :: "committed_run_event list \<Rightarrow> run_aggregate \<Rightarrow> lifecycle_error + run_aggregate" where
  "fold_events [] a = Inr a"
| "fold_events (event # events) a =
     (if cr_sequence event \<noteq> saturating_add (ra_version a) 1 \<or> bcontains (ra_command_digests a) (cr_command_id event)
      then Inl LfCorruptHistory
      else case apply_event event a of
        (Inl e, _) \<Rightarrow> Inl e
      | (Inr _, a') \<Rightarrow>
          fold_events events
            (a'\<lparr>ra_command_digests := binsert (cr_command_id event) (''folded:'' @ show_nat (unat (cr_sequence event)))
                  (ra_command_digests a'),
                ra_events := ra_events a' @ [event]\<rparr>))"

definition run_fold :: "stable_id \<Rightarrow> stable_id \<Rightarrow> committed_run_event list \<Rightarrow> lifecycle_error + run_aggregate" where
  "run_fold chat_id run_id events = fold_events events (run_new chat_id run_id)"

end
