(* ===== verification/Lifecycle_Laws.thy ===== *)
theory Lifecycle_Laws
  imports Lifecycle "HOL-Library.Sublist"
begin

text \<open>
  Replaying the committed events of a run rebuilds its aggregate, commands take effect once, and
  what is frozen or finished stays so.
\<close>

section \<open>Decisions and the reducer\<close>

lemma reduce_ok: "can_apply a e \<Longrightarrow> \<exists>b. reduce_event e a = (Inr (), b)"
  by (cases e) (auto simp: attempt_open_def split: option.splits)

text \<open>The only decisions the reducer refuses are a second fork to the same child and a queued first input.\<close>

lemma decide_can_apply:
  "run_decide a k = Inr e \<Longrightarrow> can_apply a e \<or> (\<exists>child. k = RcFork child \<and> child \<in> set (ra_child_chat_ids a))
     \<or> (\<exists>i. k = RcAcceptFirstInput i \<and> i \<in> set (ra_queued_inputs a))"
  by (cases k) (auto simp: guarded_def split: if_splits)

lemma reduce_keeps:
  assumes "reduce_event e a = (r, b)"
  shows "ra_chat_id b = ra_chat_id a" "ra_run_id b = ra_run_id a" "ra_version b = ra_version a" "ra_events b = ra_events a"
    "ra_command_digests b = ra_command_digests a"
  using assms
  by (cases e; auto simp: generation_ready_def generation_crashed_def invocation_resolved_def Let_def split: if_splits option.splits)+

lemma reduce_book:
  "reduce_event e (a\<lparr>ra_events := es, ra_command_digests := d\<rparr>) =
     (case reduce_event e a of (r, b) \<Rightarrow> (r, b\<lparr>ra_events := es, ra_command_digests := d\<rparr>))"
  by (cases e) (auto simp: generation_ready_def generation_crashed_def invocation_resolved_def Let_def split: option.split)

lemma can_apply_book: "can_apply (a\<lparr>ra_events := es, ra_command_digests := d\<rparr>) e = can_apply a e"
  by (cases e) (simp_all add: crash_reported_def attempt_open_def)

lemma decide_book: "run_decide (a\<lparr>ra_events := es, ra_command_digests := d\<rparr>) k = run_decide a k"
  by (cases k) (simp_all add: crash_reported_def attempt_open_def guarded_def)

lemma apply_event_ok:
  "apply_event e a = (Inr u, b) \<longleftrightarrow>
     cr_sequence e = saturating_add (ra_version a) 1 \<and> can_apply a (cr_event e)
     \<and> b = (snd (reduce_event (cr_event e) a))\<lparr>ra_version := cr_sequence e\<rparr>"
  using reduce_ok [of a "cr_event e"] by (auto simp: apply_event_def)

lemma apply_event_err: "apply_event e a = (Inl x, b) \<Longrightarrow> b = a"
  using reduce_ok [of a "cr_event e"] by (auto simp: apply_event_def split: if_splits)

lemma apply_event_book:
  "apply_event e (a\<lparr>ra_events := es, ra_command_digests := d\<rparr>) =
     (case apply_event e a of (r, b) \<Rightarrow> (r, b\<lparr>ra_events := es, ra_command_digests := d\<rparr>))"
  by (auto simp: apply_event_def can_apply_book reduce_book split: prod.splits sum.splits)

text \<open>A rejected command leaves the aggregate unchanged.\<close>

lemma run_handle_err: "run_handle c k a = (Inl x, b) \<Longrightarrow> b = a"
  by (auto simp: run_handle_def handle_new_def split: sum.splits option.splits if_splits prod.splits dest: apply_event_err)

lemma handle_new_applied:
  assumes "handle_new k h a = (Inr x, b)"
  obtains kind where "run_decide a (rc_command k) = Inr kind" "can_apply a kind" "unat (ra_version a + 1) = unat (ra_version a) + 1"
    "x = RunApplied \<lparr>cr_sequence = ra_version a + 1, cr_command_id = rc_command_id k, cr_event = kind\<rparr>"
    "b = (snd (reduce_event kind a))\<lparr>ra_version := ra_version a + 1,
       ra_events := ra_events a @ [\<lparr>cr_sequence = ra_version a + 1, cr_command_id = rc_command_id k, cr_event = kind\<rparr>],
       ra_command_digests := binsert (rc_command_id k) h (ra_command_digests a)\<rparr>"
proof -
  from assms obtain kind n where k: "run_decide a (rc_command k) = Inr kind" "checked_add (ra_version a) 1 = Some n"
    by (auto simp: handle_new_def bind_r_def ok_or_def split: sum.splits option.splits)
  let ?e = "\<lparr>cr_sequence = n, cr_command_id = rc_command_id k, cr_event = kind\<rparr>"
  from k assms obtain u a' where step: "apply_event ?e a = (Inr u, a')" and x: "x = RunApplied ?e"
    and b: "b = a'\<lparr>ra_command_digests := binsert (rc_command_id k) h (ra_command_digests a'), ra_events := ra_events a' @ [?e]\<rparr>"
    by (auto simp: handle_new_def split: sum.splits prod.splits)
  have n: "n = ra_version a + 1" "unat n = unat (ra_version a) + 1"
    using k(2) checked_add_Some [of "ra_version a" 1 n] by (auto simp: checked_add_def split: if_splits)
  obtain r c where red: "reduce_event kind a = (r, c)"
    by fastforce
  show thesis
    using that [OF k(1)] step x b n reduce_keeps [OF red] by (simp add: apply_event_ok red)
qed

text \<open>What a command does: nothing and an error, nothing and the event it produced before, or one new event.\<close>

lemma run_handle_cases:
  assumes "run_handle c k a = (Inr x, b)"
  obtains (dup) h e where "command_digest c k = Inr h" "bget (ra_command_digests a) (rc_command_id k) = Some h"
      "find (\<lambda>e. cr_command_id e = rc_command_id k) (ra_events a) = Some e" "x = RunDuplicate e" "b = a"
  | (new) h where "command_digest c k = Inr h" "bget (ra_command_digests a) (rc_command_id k) = None"
      "rc_expected_version k = ra_version a" "handle_new k h a = (Inr x, b)"
proof -
  from assms obtain h where h: "command_digest c k = Inr h"
    by (cases "command_digest c k") (auto simp: run_handle_def)
  show thesis
  proof (cases "bget (ra_command_digests a) (rc_command_id k)")
    case None
    with assms h new show thesis
      by (auto simp: run_handle_def split: if_splits)
  next
    case (Some v)
    with assms h show thesis
      by (auto simp: run_handle_def bind_r_Inr ok_or_Inr split: if_splits intro: dup)
  qed
qed

section \<open>Runs\<close>

definition run_step :: "lifecycle_codec \<Rightarrow> run_aggregate \<Rightarrow> run_aggregate \<Rightarrow> bool" where
  "run_step c a b \<longleftrightarrow> (\<exists>k. b = snd (run_handle c k a))"

lemma run_stepE:
  assumes "run_step c a b"
  obtains (same) "b = a"
  | (event) k h kind where "command_digest c k = Inr h" "bget (ra_command_digests a) (rc_command_id k) = None"
      "run_decide a (rc_command k) = Inr kind" "can_apply a kind" "unat (ra_version a + 1) = unat (ra_version a) + 1"
      "b = (snd (reduce_event kind a))\<lparr>ra_version := ra_version a + 1,
        ra_events := ra_events a @ [\<lparr>cr_sequence = ra_version a + 1, cr_command_id = rc_command_id k, cr_event = kind\<rparr>],
        ra_command_digests := binsert (rc_command_id k) h (ra_command_digests a)\<rparr>"
proof -
  from assms obtain k where b: "b = snd (run_handle c k a)"
    by (auto simp: run_step_def)
  show thesis
  proof (cases "fst (run_handle c k a)")
    case (Inl e)
    with b run_handle_err [of c k a e b] same show thesis
      by (metis prod.collapse)
  next
    case (Inr x)
    with b have "run_handle c k a = (Inr x, b)"
      by (metis prod.collapse)
    then show thesis
      by (cases rule: run_handle_cases) (auto elim!: handle_new_applied intro: same event)
  qed
qed

text \<open>The book of the run: its digests are those of its events, one for each command.\<close>

definition booked :: "run_aggregate \<Rightarrow> bool" where
  "booked a \<longleftrightarrow> (\<forall>k. bcontains (ra_command_digests a) k \<longleftrightarrow> k \<in> cr_command_id ` set (ra_events a))
     \<and> distinct (map cr_command_id (ra_events a))"

definition replayed :: "stable_id \<Rightarrow> stable_id \<Rightarrow> run_aggregate \<Rightarrow> bool" where
  "replayed chat run a \<longleftrightarrow> booked a
     \<and> (\<exists>d. run_fold chat run (ra_events a) = Inr (a\<lparr>ra_command_digests := d\<rparr>)
          \<and> (\<forall>k. bcontains d k \<longleftrightarrow> bcontains (ra_command_digests a) k)
          \<and> (\<forall>k v. bget d k = Some v \<longrightarrow> (\<exists>n. v = ''folded:'' @ n)))"

lemma fold_events_append: "fold_events (es @ fs) a = bind_r (fold_events es a) (fold_events fs)"
  by (induction es a rule: fold_events.induct) (auto split: prod.splits sum.splits)

lemma replayed_new: "replayed chat run (run_new chat run)"
  by (auto simp: replayed_def booked_def run_fold_def run_new_def bcontains_def intro!: exI [of _ "[]"])

lemma unat_lt_max: "unat (w :: u64) < 2 ^ 64"
proof -
  have "unat w < 2 ^ LENGTH(64)"
    by (rule unsigned_less)
  then show ?thesis
    by simp
qed

lemma replayed_step:
  assumes "run_step c a b" and "replayed chat run a"
  shows "replayed chat run b"
  using assms(1)
proof (cases rule: run_stepE)
  case (event k h kind)
  let ?e = "\<lparr>cr_sequence = ra_version a + 1, cr_command_id = rc_command_id k, cr_event = kind\<rparr>"
  from assms(2) obtain d where book: "booked a"
    and d: "run_fold chat run (ra_events a) = Inr (a\<lparr>ra_command_digests := d\<rparr>)"
      "\<forall>k. bcontains d k \<longleftrightarrow> bcontains (ra_command_digests a) k" "\<forall>k v. bget d k = Some v \<longrightarrow> (\<exists>n. v = ''folded:'' @ n)"
    by (auto simp: replayed_def)
  let ?d = "binsert (rc_command_id k) (''folded:'' @ show_nat (unat (ra_version a + 1))) d"
  have fresh: "\<not> bcontains d (rc_command_id k)" "rc_command_id k \<notin> cr_command_id ` set (ra_events a)"
    using event(2) d(2) book unfolding bcontains_def booked_def by metis+
  have seq: "saturating_add (ra_version a) 1 = ra_version a + 1"
    using event(5) unat_lt_max [of "ra_version a + 1"] by (simp add: saturating_add_def)
  obtain r a' where red: "reduce_event kind a = (r, a')"
    by fastforce
  have "apply_event ?e (a\<lparr>ra_command_digests := d\<rparr>) = (Inr (), a'\<lparr>ra_version := ra_version a + 1, ra_command_digests := d\<rparr>)"
    using apply_event_book [where e = ?e and a = a and es = "ra_events a" and d = d] event(4) seq reduce_keeps [OF red]
      apply_event_ok [of ?e a "()" "a'\<lparr>ra_version := ra_version a + 1\<rparr>"]
    by (simp add: red)
  then have "run_fold chat run (ra_events b) = Inr (b\<lparr>ra_command_digests := ?d\<rparr>)"
    using d(1) fresh(1) seq reduce_keeps [OF red] by (simp add: event(6) red run_fold_def fold_events_append)
  moreover have "booked b"
    using book fresh(2) by (auto simp: booked_def event(6) bcontains_def)
  moreover have "ra_command_digests b = binsert (rc_command_id k) h (ra_command_digests a)"
    by (simp add: event(6))
  ultimately show ?thesis
    using d(2,3) by (auto simp: replayed_def bcontains_def intro!: exI [of _ ?d] split: if_splits)
qed (use assms(2) in simp)

interpretation run_history: inv_system "run_step c" "replayed chat run" for c chat run
  by unfold_locales (rule replayed_step)

lemma find_distinct_key: "distinct (map f xs) \<Longrightarrow> x \<in> set xs \<Longrightarrow> find (\<lambda>y. f y = f x) xs = Some x"
  by (induction xs) auto

lemma handle_book:
  assumes "bget (ra_command_digests a) (rc_command_id k) = None" and "bget d (rc_command_id k) = None"
  shows "\<exists>e. run_handle c k (a\<lparr>ra_command_digests := d\<rparr>) =
    (fst (run_handle c k a), (snd (run_handle c k a))\<lparr>ra_command_digests := e\<rparr>)"
proof -
  have decide: "run_decide (a\<lparr>ra_command_digests := d\<rparr>) kind = run_decide a kind" for kind
    using decide_book [where a = a and es = "ra_events a" and d = d and k = kind] by simp
  have reduced: "apply_event e (a\<lparr>ra_command_digests := d\<rparr>) =
      (fst (apply_event e a), (snd (apply_event e a))\<lparr>ra_command_digests := d\<rparr>)" for e
  proof -
    have "ra_events (snd (apply_event e a)) = ra_events a"
      by (auto simp: apply_event_def reduce_keeps split: prod.split sum.split)
    then have "(snd (apply_event e a))\<lparr>ra_events := ra_events a\<rparr> = snd (apply_event e a)"
      by simp
    with apply_event_book [where e = e and a = a and es = "ra_events a" and d = d] show ?thesis
      by (simp add: case_prod_beta)
  qed
  show ?thesis
    using assms
    by (auto simp: run_handle_def handle_new_def decide reduced split: sum.split prod.split)
       (rule exI, rule run_aggregate.equality, simp_all)
qed

section \<open>What stays\<close>

definition settled_run :: "run_aggregate \<Rightarrow> run_aggregate \<Rightarrow> bool" where
  "settled_run a b \<longleftrightarrow>
     (\<forall>h. ra_snapshot_hash a = Some h \<longrightarrow> ra_snapshot_hash b = Some h \<and> ra_snapshot_id b = ra_snapshot_id a)
     \<and> (ra_state a \<in> {RunCompleted, RunCancelled} \<longrightarrow> ra_state b = ra_state a)
     \<and> prefix (ra_events a) (ra_events b)
     \<and> (\<forall>k v. bget (ra_command_digests a) k = Some v \<longrightarrow> bget (ra_command_digests b) k = Some v)"

lemma reduce_settled:
  assumes "can_apply a e" and "reduce_event e a = (r, b)"
  shows "ra_snapshot_hash a = Some h \<Longrightarrow> ra_snapshot_hash b = Some h \<and> ra_snapshot_id b = ra_snapshot_id a"
    and "ra_state a \<in> {RunCompleted, RunCancelled} \<Longrightarrow> ra_state b = ra_state a"
  using assms
  by (cases e; auto simp: generation_ready_def generation_crashed_def invocation_resolved_def Let_def run_terminal_def
      accepts_queued_input_def crash_reported_def split: if_splits option.splits)+

lemma settled_step:
  assumes "run_step c a b"
  shows "settled_run a b"
  using assms
proof (cases rule: run_stepE)
  case (event k h kind)
  obtain r a' where red: "reduce_event kind a = (r, a')"
    by fastforce
  show ?thesis
    using reduce_settled [OF event(4) red] event(2) by (auto simp: settled_run_def event(6) red)
qed (simp add: settled_run_def)

lemma settled_run_trans: "settled_run a b \<Longrightarrow> settled_run b c \<Longrightarrow> settled_run a c"
  by (auto simp: settled_run_def)

lemma settled_steps: "(run_step c)\<^sup>*\<^sup>* a b \<Longrightarrow> settled_run a b"
  by (induction rule: rtranclp_induct) (simp add: settled_run_def, blast intro: settled_step settled_run_trans)

definition demo_lifecycle :: lifecycle_codec where
  "demo_lifecycle = \<lparr>lc_jcs_command = (\<lambda>k. Some (rc_command_id k)), lc_sha = zero_digest\<rparr>"

definition demo_command :: "nat \<Rightarrow> run_command_kind \<Rightarrow> run_command" where
  "demo_command n k = \<lparr>rc_command_id = ''k'' @ show_nat n, rc_expected_version = of_nat n, rc_command = k\<rparr>"

text \<open>The aggregate after commands each expecting the number of commands before it.\<close>

fun demo_after :: "nat \<Rightarrow> run_command_kind list \<Rightarrow> run_aggregate \<Rightarrow> run_aggregate" where
  "demo_after n [] a = a"
| "demo_after n (k # ks) a = demo_after (Suc n) ks (snd (run_handle demo_lifecycle (demo_command n k) a))"

lemma demo_after_steps: "(run_step demo_lifecycle)\<^sup>*\<^sup>* a (demo_after n ks a)"
proof (induction ks arbitrary: n a)
  case (Cons k ks)
  have "run_step demo_lifecycle a (snd (run_handle demo_lifecycle (demo_command n k) a))"
    by (auto simp: run_step_def)
  with Cons.IH show ?case
    unfolding demo_after.simps by (meson converse_rtranclp_into_rtranclp)
qed simp

abbreviation demo_draft :: run_aggregate where
  "demo_draft \<equiv> run_new ''chat'' ''run''"

abbreviation demo_running :: "run_command_kind list" where
  "demo_running \<equiv> [RcStartResolved ''input'' ''snapshot'' (zero_digest []), RcWorkerReady 1]"

definition demo_done :: run_aggregate where
  "demo_done = demo_after 0 (demo_running @ [RcDeliverInput ''input'', RcComplete, RcRetry]) demo_draft"

text \<open>
  C14. Replaying the committed events of any run rebuilds its aggregate: after any commands, rejected and
  repeated ones included, folding the recorded events succeeds and returns the aggregate itself with other digests for
  the same command ids; and every command with a new id is then answered alike by both and leaves them alike again.
\<close>

theorem run_fold_replays:
  assumes "(run_step c)\<^sup>*\<^sup>* (run_new chat run) a"
  shows "\<exists>d. run_fold chat run (ra_events a) = Inr (a\<lparr>ra_command_digests := d\<rparr>)
    \<and> (\<forall>i. bcontains d i \<longleftrightarrow> bcontains (ra_command_digests a) i)
    \<and> (\<forall>k. bget d (rc_command_id k) = None \<longrightarrow>
         (\<exists>e. run_handle c k (a\<lparr>ra_command_digests := d\<rparr>) =
            (fst (run_handle c k a), (snd (run_handle c k a))\<lparr>ra_command_digests := e\<rparr>)))"
proof -
  from run_history.steps_inv [OF assms replayed_new] obtain d where
    d: "run_fold chat run (ra_events a) = Inr (a\<lparr>ra_command_digests := d\<rparr>)"
      "\<forall>i. bcontains d i \<longleftrightarrow> bcontains (ra_command_digests a) i"
    unfolding replayed_def by blast
  have "\<exists>e. run_handle c k (a\<lparr>ra_command_digests := d\<rparr>) =
      (fst (run_handle c k a), (snd (run_handle c k a))\<lparr>ra_command_digests := e\<rparr>)" if "bget d (rc_command_id k) = None" for k
  proof (rule handle_book)
    show "bget (ra_command_digests a) (rc_command_id k) = None"
      using d(2) that unfolding bcontains_def by metis
  qed (rule that)
  with d show ?thesis
    by blast
qed

theorem run_fold_replays_witness:
  "\<exists>d. run_fold ''chat'' ''run'' (ra_events demo_done) = Inr (demo_done\<lparr>ra_command_digests := d\<rparr>)
     \<and> ra_state demo_done = RunCompleted \<and> length (ra_events demo_done) = 4"
proof -
  have "ra_state demo_done = RunCompleted \<and> length (ra_events demo_done) = 4"
    by code_simp
  with run_fold_replays [OF demo_after_steps [of demo_draft 0 "demo_running @ [RcDeliverInput ''input'', RcComplete, RcRetry]",
      folded demo_done_def]] show ?thesis
    by blast
qed

text \<open>
  C18. A command takes effect once: when a command has been applied, then after any further commands the same
  command is answered with the very event it produced and changes nothing; and a command answered with an error leaves
  the aggregate as it was.
\<close>

theorem run_command_once:
  assumes "(run_step c)\<^sup>*\<^sup>* (run_new chat run) a" and "run_handle c k a = (Inr (RunApplied e), b)"
    and "(run_step c)\<^sup>*\<^sup>* b z"
  shows "run_handle c k z = (Inr (RunDuplicate e), z)
    \<and> (\<forall>k' x. fst (run_handle c k' z) = Inl x \<longrightarrow> snd (run_handle c k' z) = z)"
proof -
  from assms(2) obtain h where h: "command_digest c k = Inr h" "handle_new k h a = (Inr (RunApplied e), b)"
    by (cases rule: run_handle_cases) auto
  then have b: "bget (ra_command_digests b) (rc_command_id k) = Some h" "e \<in> set (ra_events b)" "cr_command_id e = rc_command_id k"
    by (auto elim!: handle_new_applied)
  with settled_steps [OF assms(3)] have z: "bget (ra_command_digests z) (rc_command_id k) = Some h" "e \<in> set (ra_events z)"
    by (auto simp: settled_run_def dest: set_mono_prefix)
  have "run_step c a b"
    using assms(2) by (auto simp: run_step_def intro: exI [of _ k])
  with assms(1,3) have "(run_step c)\<^sup>*\<^sup>* (run_new chat run) z"
    by (meson rtranclp.rtrancl_into_rtrancl rtranclp_trans)
  from run_history.steps_inv [OF this replayed_new] have "distinct (map cr_command_id (ra_events z))"
    by (simp add: replayed_def booked_def)
  with z(2) b(3) have "find (\<lambda>x. cr_command_id x = rc_command_id k) (ra_events z) = Some e"
    by (metis find_distinct_key)
  with h(1) z(1) have "run_handle c k z = (Inr (RunDuplicate e), z)"
    by (simp add: run_handle_def)
  then show ?thesis
    using run_handle_err by (metis prod.collapse)
qed

theorem run_command_once_witness:
  "run_handle demo_lifecycle (demo_command 0 (hd demo_running)) demo_done =
     (Inr (RunDuplicate \<lparr>cr_sequence = 1, cr_command_id = ''k0'', cr_event = ReChatStarted ''input'' ''snapshot'' (zero_digest [])\<rparr>),
      demo_done)"
proof -
  let ?k = "demo_command 0 (hd demo_running)"
  let ?e = "\<lparr>cr_sequence = 1, cr_command_id = ''k0'', cr_event = ReChatStarted ''input'' ''snapshot'' (zero_digest [])\<rparr>"
  have "fst (run_handle demo_lifecycle ?k demo_draft) = Inr (RunApplied ?e)"
    by code_simp
  then have applied: "run_handle demo_lifecycle ?k demo_draft = (Inr (RunApplied ?e), snd (run_handle demo_lifecycle ?k demo_draft))"
    by (metis prod.collapse)
  have "demo_done = demo_after 1 [RcWorkerReady 1, RcDeliverInput ''input'', RcComplete, RcRetry] (snd (run_handle demo_lifecycle ?k demo_draft))"
    by (simp add: demo_done_def)
  then have "(run_step demo_lifecycle)\<^sup>*\<^sup>* (snd (run_handle demo_lifecycle ?k demo_draft)) demo_done"
    using demo_after_steps by metis
  with run_command_once [OF rtranclp.rtrancl_refl applied] show ?thesis
    by blast
qed

text \<open>
  C31. What is frozen or finished stays so: whatever commands follow, a run keeps the snapshot it was started
  with, identifier and hash, a completed or cancelled run stays completed or cancelled, and its committed events are
  only ever extended.
\<close>

theorem run_commitments_final:
  assumes "(run_step c)\<^sup>*\<^sup>* a b"
  shows "(\<forall>h. ra_snapshot_hash a = Some h \<longrightarrow> ra_snapshot_hash b = Some h \<and> ra_snapshot_id b = ra_snapshot_id a)
    \<and> (ra_state a \<in> {RunCompleted, RunCancelled} \<longrightarrow> ra_state b = ra_state a)
    \<and> prefix (ra_events a) (ra_events b)"
  using settled_steps [OF assms] by (simp add: settled_run_def)

theorem run_commitments_final_witness:
  "ra_snapshot_hash demo_done = Some (zero_digest []) \<and> ra_snapshot_id demo_done = Some ''snapshot''"
proof -
  define a where "a = demo_after 0 demo_running demo_draft"
  have "ra_snapshot_hash a = Some (zero_digest [])" "ra_snapshot_id a = Some ''snapshot''"
    unfolding a_def by code_simp+
  moreover have "demo_done = demo_after 2 [RcDeliverInput ''input'', RcComplete, RcRetry] a"
    by (simp add: demo_done_def a_def numeral_2_eq_2)
  then have "(run_step demo_lifecycle)\<^sup>*\<^sup>* a demo_done"
    using demo_after_steps by metis
  ultimately show ?thesis
    using run_commitments_final [of demo_lifecycle a demo_done] by simp
qed

section \<open>Paths the decisions leave open\<close>

text \<open>
  A draft that fails retryably and is retried becomes active with no snapshot and worker generation
  zero. A run blocked on an invocation whose outcome is uncertain becomes active by failing and
  retrying, the invocation unresolved. A run waiting for approval becomes active by a pause and a
  resumption, the approval unresolved.
\<close>

lemma retried_draft_active:
  "let a = demo_after 0 [RcFail ''e'' True, RcRetry, RcRehydrationReady 0] demo_draft in
   ra_state a = RunActive \<and> ra_snapshot_hash a = None \<and> ra_generation a = Some 0"
  by code_simp

lemma retried_blocked_active:
  "let a = demo_after 0 (demo_running @ [RcWorkerCrashed 1 None [''i''], RcFail ''e'' True, RcRetry, RcRehydrationReady 2]) demo_draft in
   ra_state a = RunActive \<and> ra_uncertain_invocations a = [''i'']"
  by code_simp

lemma paused_approval_active:
  "let a = demo_after 0 (demo_running @ [RcWait WaitApproval, RcRequestPause, RcWorkerQuiesced (zero_digest []), RcResume]) demo_draft in
   ra_state a = RunActive \<and> length (ra_events a) = 6"
  by code_simp

text \<open>After a replay a command sent again is a conflict, not a duplicate: no digest starts as the replayed ones do.\<close>

lemma replay_forgets_commands:
  assumes "(run_step c)\<^sup>*\<^sup>* (run_new chat run) a" and "hex_digest (lc_sha c)"
    and "run_fold chat run (ra_events a) = Inr z" and "rc_command_id k \<in> cr_command_id ` set (ra_events a)"
    and "command_digest c k = Inr h"
  shows "run_handle c k z = (Inl LfCommandIdentityConflict, z)"
proof -
  from run_history.steps_inv [OF assms(1) replayed_new] obtain d where
    z: "z = a\<lparr>ra_command_digests := d\<rparr>" and d: "\<forall>i. bcontains d i \<longleftrightarrow> bcontains (ra_command_digests a) i"
      "\<forall>i v. bget d i = Some v \<longrightarrow> (\<exists>n. v = ''folded:'' @ n)" and "booked a"
    using assms(3) unfolding replayed_def by auto
  then obtain v n where v: "bget d (rc_command_id k) = Some v" "v = ''folded:'' @ n"
    using assms(4) unfolding booked_def bcontains_def by (metis option.exhaust)
  have "\<forall>x \<in> set h. is_lower_hexdigit x"
    using assms(2,5) by (auto simp: command_digest_def bind_r_Inr hex_digest_def)
  then have "v \<noteq> h"
    by (auto simp: v(2) is_lower_hexdigit_def is_ascii_digit_def byte_def)
  with v(1) assms(5) show ?thesis
    by (simp add: run_handle_def z)
qed

end
