(* ===== verification/Recovery.thy ===== *)
theory Recovery
  imports Lifecycle_Laws Worker_Laws Authority_Laws
begin

text \<open>
  Recovery from committed facts (\<open>crates/aworkit-trusted-core/src/recovery.rs\<close>): the report, the
  decision between a finished, a blocked and a replaced run, and the envelope for the replacement
  worker, which that worker's own checks accept.
\<close>

section \<open>Data\<close>

record recovery_report =
  rr_head_sequence :: u64
  rr_terminal :: bool
  rr_last_checkpoint_hash :: "string option"
  rr_pending_delivery_count :: usize
  rr_effect_replay_required :: bool

record recovery_event =
  rv_sequence :: u64
  rv_kind :: string
  rv_payload :: json

record recovery_facts =
  rf_snapshot :: worker_frozen_run_snapshot
  rf_checkpoint :: "worker_checkpoint option"
  rf_lifecycle_events :: "committed_run_event list"
  rf_events :: "recovery_event list"
  rf_committed_deltas :: "json list"
  rf_reconciled_outcomes :: "capability_outcome list"
  rf_uncertain_invocation_ids :: "stable_id list"
  rf_pending_delivery_count :: usize
  rf_prior_generation :: process_generation

record recovery_port_error =
  rp_code :: string
  rp_message :: string
  rp_retryable :: bool
  rp_inspectable_read_only :: bool

datatype core_recovery_error =
    RvPort string string bool bool
  | RvInvalidId
  | RvIdentityMismatch
  | RvCorruptAggregate
  | RvHistoryGap
  | RvHistoryTooLong
  | RvMissingCheckpoint
  | RvCheckpointMismatch
  | RvConflictingOutcome
  | RvGenerationExhausted
  | RvEncoding

datatype recovery_decision =
    RdTerminal run_aggregate recovery_report
  | RdBlocked run_aggregate "stable_id list" usize
  | RdSpawnReplacement run_aggregate rehydration_envelope usize

definition recovery_error_of_port :: "recovery_port_error \<Rightarrow> core_recovery_error" where
  "recovery_error_of_port e = RvPort (rp_code e) (rp_message e) (rp_retryable e) (rp_inspectable_read_only e)"

text \<open>
  The history port reads facts and nothing else. \<open>serde_jcs::to_vec\<close> on checkpoints and the
  serializers of the snapshot hash are parameters.
\<close>

type_synonym recovery_port = "stable_id \<Rightarrow> stable_id \<Rightarrow> recovery_port_error + recovery_facts"

record recovery_codec =
  rk_authority :: authority_codec
  rk_jcs_checkpoint :: "worker_checkpoint \<Rightarrow> string option"
  rk_sha :: digest

section \<open>Checks\<close>

definition event_in_order :: "u64 \<Rightarrow> recovery_event \<Rightarrow> bool" where
  "event_in_order expected e \<longleftrightarrow> rv_sequence e = expected \<and> \<not> trim_is_empty (rv_kind e) \<and> length (rv_kind e) \<le> 256"

text \<open>An index of a list no longer than ten million fits in 64 bits.\<close>

fun check_events :: "nat \<Rightarrow> recovery_event list \<Rightarrow> core_recovery_error + unit" where
  "check_events index [] = Inr ()"
| "check_events index (e # es) =
     (if event_in_order (saturating_add (of_nat index) 1) e then check_events (Suc index) es else Inl RvHistoryGap)"

definition validate_event_history :: "recovery_event list \<Rightarrow> core_recovery_error + unit" where
  "validate_event_history events = (if 10000000 < length events then Inl RvHistoryTooLong else check_events 0 events)"

definition validate_checkpoint ::
  "recovery_codec \<Rightarrow> worker_frozen_run_snapshot \<Rightarrow> worker_checkpoint \<Rightarrow> process_generation \<Rightarrow> core_recovery_error + unit" where
  "validate_checkpoint c snapshot checkpoint prior_generation =
     (case snapshot_hash (rk_authority c) snapshot of
        Inl _ \<Rightarrow> Inl RvEncoding
      | Inr calculated_snapshot \<Rightarrow>
          if ws_snapshot_hash snapshot \<noteq> calculated_snapshot \<or> wc_snapshot_hash checkpoint \<noteq> ws_snapshot_hash snapshot
             \<or> wc_prior_generation checkpoint \<noteq> prior_generation \<or> \<not> lf_is_sha256 (wc_plan_hash checkpoint)
             \<or> \<not> lf_is_sha256 (wc_checkpoint_hash checkpoint)
          then Inl RvCheckpointMismatch
          else bind_r (ok_or (rk_jcs_checkpoint c (checkpoint\<lparr>wc_checkpoint_hash := []\<rparr>)) RvEncoding) (\<lambda>bytes.
               if rk_sha c bytes \<noteq> wc_checkpoint_hash checkpoint then Inl RvCheckpointMismatch else Inr ()))"

fun check_deltas :: "u64 \<Rightarrow> json list \<Rightarrow> core_recovery_error + unit" where
  "check_deltas expected [] = Inr ()"
| "check_deltas expected (delta # deltas) =
     (if Option.bind (jget delta ''cursor'') as_u64 \<noteq> Some expected then Inl RvHistoryGap
      else check_deltas (saturating_add expected 1) deltas)"

definition validate_deltas :: "u64 \<Rightarrow> json list \<Rightarrow> core_recovery_error + unit" where
  "validate_deltas start deltas =
     (if 100000 < length deltas then Inl RvHistoryTooLong else check_deltas (saturating_add start 1) deltas)"

fun check_outcomes :: "capability_outcome list \<Rightarrow> string list \<Rightarrow> string list \<Rightarrow> core_recovery_error + unit" where
  "check_outcomes [] invocations ids = Inr ()"
| "check_outcomes (o1 # os) invocations ids =
     (if co_invocation_id o1 \<in> set invocations \<or> co_outcome_id o1 \<in> set ids then Inl RvConflictingOutcome
      else check_outcomes os (sinsert (co_invocation_id o1) invocations) (sinsert (co_outcome_id o1) ids))"

lemma validate_event_history_code [code]:
  "validate_event_history events = (if longer_than events 10000000 then Inl RvHistoryTooLong else check_events 0 events)"
  by (simp add: validate_event_history_def longer_than_iff)

lemma validate_deltas_code [code]:
  "validate_deltas start deltas =
     (if longer_than deltas 100000 then Inl RvHistoryTooLong else check_deltas (saturating_add start 1) deltas)"
  by (simp add: validate_deltas_def longer_than_iff)

section \<open>Recovery\<close>

definition report_of :: "recovery_facts \<Rightarrow> bool \<Rightarrow> recovery_report" where
  "report_of facts terminal =
     \<lparr>rr_head_sequence = (if rf_events facts = [] then 0 else rv_sequence (last (rf_events facts))), rr_terminal = terminal,
      rr_last_checkpoint_hash = map_option wc_checkpoint_hash (rf_checkpoint facts),
      rr_pending_delivery_count = rf_pending_delivery_count facts, rr_effect_replay_required = False\<rparr>"

definition fold_facts :: "recovery_facts \<Rightarrow> core_recovery_error + run_aggregate" where
  "fold_facts facts =
     (case run_fold (ws_chat_id (rf_snapshot facts)) (ws_run_id (rf_snapshot facts)) (rf_lifecycle_events facts) of
        Inl _ \<Rightarrow> Inl RvCorruptAggregate
      | Inr aggregate \<Rightarrow> Inr aggregate)"

definition recover :: "recovery_port \<Rightarrow> string \<Rightarrow> string \<Rightarrow> core_recovery_error + recovery_report" where
  "recover port chat_id branch_id =
     (case (stable_id_parse chat_id, stable_id_parse branch_id) of
        (Inr chat, Inr branch) \<Rightarrow>
          (case port chat branch of
             Inl e \<Rightarrow> Inl (recovery_error_of_port e)
           | Inr facts \<Rightarrow>
               bind_r (validate_event_history (rf_events facts)) (\<lambda>_.
               bind_r (fold_facts facts) (\<lambda>aggregate.
               if ws_chat_id (rf_snapshot facts) \<noteq> chat
                  \<or> ra_snapshot_hash aggregate \<noteq> Some (ws_snapshot_hash (rf_snapshot facts))
               then Inl RvIdentityMismatch
               else Inr (report_of facts (run_terminal (ra_state aggregate))))))
      | _ \<Rightarrow> Inl RvInvalidId)"

definition spawn_replacement ::
  "recovery_codec \<Rightarrow> recovery_facts \<Rightarrow> run_aggregate \<Rightarrow> core_recovery_error + recovery_decision" where
  "spawn_replacement c facts aggregate =
     bind_r (ok_or (rf_checkpoint facts) RvMissingCheckpoint) (\<lambda>checkpoint.
     bind_r (validate_checkpoint c (rf_snapshot facts) checkpoint (rf_prior_generation facts)) (\<lambda>_.
     bind_r (validate_deltas (wc_committed_cursor checkpoint) (rf_committed_deltas facts)) (\<lambda>_.
     bind_r (check_outcomes (rf_reconciled_outcomes facts) [] []) (\<lambda>_.
     bind_r (ok_or (checked_add (rf_prior_generation facts) 1) RvGenerationExhausted) (\<lambda>generation.
     Inr (RdSpawnReplacement aggregate
       \<lparr>re_snapshot = rf_snapshot facts, re_checkpoint = checkpoint, re_replacement_generation = generation,
        re_committed_deltas = rf_committed_deltas facts, re_reconciled_outcomes = rf_reconciled_outcomes facts\<rparr>
       (rf_pending_delivery_count facts)))))))"

definition recover_v1 ::
  "recovery_codec \<Rightarrow> recovery_port \<Rightarrow> stable_id \<Rightarrow> stable_id \<Rightarrow> core_recovery_error + recovery_decision" where
  "recover_v1 c port chat_id branch_id =
     (case port chat_id branch_id of
        Inl e \<Rightarrow> Inl (recovery_error_of_port e)
      | Inr facts \<Rightarrow>
          if ws_chat_id (rf_snapshot facts) \<noteq> chat_id then Inl RvIdentityMismatch
          else
            bind_r (validate_event_history (rf_events facts)) (\<lambda>_.
            bind_r (fold_facts facts) (\<lambda>aggregate.
            if ra_snapshot_hash aggregate \<noteq> Some (ws_snapshot_hash (rf_snapshot facts)) then Inl RvIdentityMismatch
            else if run_terminal (ra_state aggregate) then Inr (RdTerminal aggregate (report_of facts True))
            else if length (bset_of_list (rf_uncertain_invocation_ids facts)) \<noteq> length (rf_uncertain_invocation_ids facts)
            then Inl RvConflictingOutcome
            else if bset_of_list (rf_uncertain_invocation_ids facts) \<noteq> bset_of_list (ra_uncertain_invocations aggregate)
            then Inl RvConflictingOutcome
            else if rf_uncertain_invocation_ids facts \<noteq> []
            then Inr (RdBlocked aggregate (rf_uncertain_invocation_ids facts) (rf_pending_delivery_count facts))
            else spawn_replacement c facts aggregate)))"

section \<open>The worker accepts the envelope\<close>

lemma check_deltas_loop: "check_deltas n ds = Inr () \<Longrightarrow> delta_loop n ds = Inr ()"
  by (induction n ds rule: check_deltas.induct) (auto split: if_splits)

lemma check_outcomes_distinct:
  "check_outcomes os is ids = Inr () \<Longrightarrow> distinct (map co_invocation_id os) \<and> (\<forall>x \<in> set os. co_invocation_id x \<notin> set is)"
  by (induction os "is" ids rule: check_outcomes.induct) (auto split: if_splits)

lemma outcome_loop_distinct:
  assumes "distinct (map co_invocation_id os)" and "\<forall>x \<in> set os. bget seen (co_invocation_id x) = None"
  shows "outcome_loop w os seen ids =
    (if list_ex (\<lambda>x. wk_outcome_value w x = None) os then Inl RcEncoding else Inr (ids @ map co_outcome_id os))"
  using assms
proof (induction os arbitrary: seen ids)
  case (Cons x xs)
  then have "\<forall>y \<in> set xs. bget (binsert (co_invocation_id x) (co_outcome_id x, v) seen) (co_invocation_id y) = None" for v
    by (auto simp: image_iff)
  with Cons show ?case
    by (cases "wk_outcome_value w x") simp_all
qed simp

lemma spawn_replacement_Inr:
  assumes "spawn_replacement c facts aggregate = Inr d"
  obtains checkpoint generation where "rf_checkpoint facts = Some checkpoint"
    "validate_checkpoint c (rf_snapshot facts) checkpoint (rf_prior_generation facts) = Inr ()"
    "validate_deltas (wc_committed_cursor checkpoint) (rf_committed_deltas facts) = Inr ()"
    "check_outcomes (rf_reconciled_outcomes facts) [] [] = Inr ()"
    "unat generation = unat (rf_prior_generation facts) + 1"
    "d = RdSpawnReplacement aggregate
       \<lparr>re_snapshot = rf_snapshot facts, re_checkpoint = checkpoint, re_replacement_generation = generation,
        re_committed_deltas = rf_committed_deltas facts, re_reconciled_outcomes = rf_reconciled_outcomes facts\<rparr>
       (rf_pending_delivery_count facts)"
  using assms by (auto simp: spawn_replacement_def bind_r_Inr ok_or_Inr checked_add_Some intro: that)

lemma recover_v1_spawns:
  assumes "recover_v1 c port chat branch = Inr (RdSpawnReplacement aggregate envelope pending)"
  obtains facts where "port chat branch = Inr facts" "fold_facts facts = Inr aggregate"
    "ra_snapshot_hash aggregate = Some (ws_snapshot_hash (rf_snapshot facts))" "\<not> run_terminal (ra_state aggregate)"
    "ra_uncertain_invocations aggregate = []"
    "spawn_replacement c facts aggregate = Inr (RdSpawnReplacement aggregate envelope pending)"
proof -
  have empty: "bset_of_list xs = [] \<longleftrightarrow> xs = []" for xs :: "string list"
    using set_bset_of_list [of xs] by (metis set_empty)
  from assms obtain facts a where
    "port chat branch = Inr facts" "fold_facts facts = Inr a"
    "ra_snapshot_hash a = Some (ws_snapshot_hash (rf_snapshot facts))" "\<not> run_terminal (ra_state a)"
    "bset_of_list (ra_uncertain_invocations a) = bset_of_list []"
    "spawn_replacement c facts a = Inr (RdSpawnReplacement aggregate envelope pending)"
    by (auto simp: recover_v1_def bind_r_Inr split: sum.splits if_splits)
  moreover from this(6) have "a = aggregate"
    by (rule spawn_replacement_Inr) simp
  ultimately show thesis
    using that empty by (simp add: bset_of_list_def)
qed

text \<open>The envelope of a replacement passes every check of the worker that does not depend on the worker itself.\<close>

lemma replacement_rehydrates:
  assumes spawn: "spawn_replacement c facts aggregate = Inr (RdSpawnReplacement aggregate envelope pending)"
    and snap: "pc_jcs_snapshot (wk_plan w) = ac_jcs_snapshot (rk_authority c)" "pc_sha (wk_plan w) = ac_sha (rk_authority c)"
    and check: "wk_jcs_checkpoint w = rk_jcs_checkpoint c" "wk_sha w = rk_sha c"
  shows "re_snapshot envelope = rf_snapshot facts"
    and "unat (re_replacement_generation envelope) = unat (wc_prior_generation (re_checkpoint envelope)) + 1"
    and "rehydrate w envelope =
      (if 10000 < length (re_committed_deltas envelope) \<or> 10000 < length (re_reconciled_outcomes envelope)
       then Inl RcPayloadTooLarge
       else if \<not> (case compile (wk_plan w) (re_snapshot envelope) (ws_snapshot_hash (re_snapshot envelope)) of
                    Inl e \<Rightarrow> False | Inr plan \<Rightarrow> wc_plan_hash (re_checkpoint envelope) = ep_fingerprint plan)
       then Inl RcPlanMismatch
       else if list_ex (\<lambda>x. wk_outcome_value w x = None) (re_reconciled_outcomes envelope) then Inl RcEncoding
       else Inr \<lparr>rs_checkpoint = re_checkpoint envelope, rs_committed_deltas = re_committed_deltas envelope,
              rs_reconciled_outcome_ids = map co_outcome_id (re_reconciled_outcomes envelope)\<rparr>)"
proof -
  from spawn obtain checkpoint generation where s: "rf_checkpoint facts = Some checkpoint"
    "validate_checkpoint c (rf_snapshot facts) checkpoint (rf_prior_generation facts) = Inr ()"
    "validate_deltas (wc_committed_cursor checkpoint) (rf_committed_deltas facts) = Inr ()"
    "check_outcomes (rf_reconciled_outcomes facts) [] [] = Inr ()"
    "unat generation = unat (rf_prior_generation facts) + 1" and
    e: "envelope = \<lparr>re_snapshot = rf_snapshot facts, re_checkpoint = checkpoint, re_replacement_generation = generation,
        re_committed_deltas = rf_committed_deltas facts, re_reconciled_outcomes = rf_reconciled_outcomes facts\<rparr>"
    by (rule spawn_replacement_Inr) simp
  have c: "snapshot_hash (rk_authority c) (rf_snapshot facts) = Inr (ws_snapshot_hash (rf_snapshot facts))"
    "wc_snapshot_hash checkpoint = ws_snapshot_hash (rf_snapshot facts)" "wc_prior_generation checkpoint = rf_prior_generation facts"
    "\<exists>bytes. rk_jcs_checkpoint c (checkpoint\<lparr>wc_checkpoint_hash := []\<rparr>) = Some bytes \<and> rk_sha c bytes = wc_checkpoint_hash checkpoint"
    using s(2) by (auto simp: validate_checkpoint_def bind_r_Inr ok_or_Inr split: sum.splits if_splits)
  show "re_snapshot envelope = rf_snapshot facts"
    "unat (re_replacement_generation envelope) = unat (wc_prior_generation (re_checkpoint envelope)) + 1"
    using s(5) c(3) by (simp_all add: e)
  have "snapshot_content_hash (wk_plan w) (rf_snapshot facts) = Inr (ws_snapshot_hash (rf_snapshot facts))"
    using snapshot_hash_content [OF snap c(1), of "ws_snapshot_hash (rf_snapshot facts)"] by simp
  moreover have "checkpoint_hash w checkpoint = Inr (wc_checkpoint_hash checkpoint)"
    using c(4) check by (auto simp: checkpoint_hash_def)
  moreover have "validate_delta_cursors (wc_committed_cursor checkpoint) (rf_committed_deltas facts) = Inr ()"
    using s(3) check_deltas_loop by (auto simp: validate_deltas_def validate_delta_cursors_def split: if_splits)
  moreover note outcome_loop_distinct [of "rf_reconciled_outcomes facts" "[]" w "[]"]
  moreover have "\<not> generation \<le> wc_prior_generation checkpoint"
    using s(5) c(3) by (simp add: word_le_nat_alt)
  ultimately show "rehydrate w envelope =
      (if 10000 < length (re_committed_deltas envelope) \<or> 10000 < length (re_reconciled_outcomes envelope)
       then Inl RcPayloadTooLarge
       else if \<not> (case compile (wk_plan w) (re_snapshot envelope) (ws_snapshot_hash (re_snapshot envelope)) of
                    Inl e \<Rightarrow> False | Inr plan \<Rightarrow> wc_plan_hash (re_checkpoint envelope) = ep_fingerprint plan)
       then Inl RcPlanMismatch
       else if list_ex (\<lambda>x. wk_outcome_value w x = None) (re_reconciled_outcomes envelope) then Inl RcEncoding
       else Inr \<lparr>rs_checkpoint = re_checkpoint envelope, rs_committed_deltas = re_committed_deltas envelope,
              rs_reconciled_outcome_ids = map co_outcome_id (re_reconciled_outcomes envelope)\<rparr>)"
    using check_outcomes_distinct [OF s(4)] c(2) by (simp add: rehydrate_def e split: sum.split)
qed

text \<open>The fingerprint in the handshake of a started worker is that of the plan it compiles from the snapshot.\<close>

lemma start_fingerprint:
  assumes "handle w start s = (Inr result, t)" and "ce_control start = CtStart snapshot" and "res_handshake result = Some h"
  shows "\<exists>plan. compile (wk_plan w) snapshot (ws_snapshot_hash snapshot) = Inr plan \<and> wh_plan_fingerprint h = ep_fingerprint plan"
proof -
  obtain plan where plan: "compile (wk_plan w) snapshot (ce_snapshot_hash start) = Inr plan"
    using assms(1,2) by (cases "compile (wk_plan w) snapshot (ce_snapshot_hash start)") (auto simp: handle_def prepare_def)
  then have "wh_plan_fingerprint h = ep_fingerprint plan"
    using assms by (auto simp: handle_def prepare_def dispatch_def push_proposal_def handshake_def result_default_def Let_def
        split: prod.splits sum.splits admission.splits)
  with plan compile_Inr(3) [OF plan] show ?thesis
    by simp
qed

text \<open>
  C10. The composition of the core's recovery with the worker's rehydration. A replacement is spawned only for a
  run whose aggregate, rebuilt from the committed events, is not finished and has no invocation of uncertain outcome,
  one generation after the last. The worker's answer to the envelope is then determined: it refuses more than 10,000
  deltas or outcomes, a snapshot that it does not compile to the plan the checkpoint names, and an outcome it cannot
  encode; in every other case it returns the checkpoint, the deltas and the outcomes as committed. And when a worker of
  this build once accepted a start of the same snapshot and the checkpoint carries the plan fingerprint of its
  handshake, the plan is not what is refused.
\<close>

theorem recovery_accepted_by_worker:
  assumes "recover_v1 c port chat branch = Inr (RdSpawnReplacement aggregate envelope pending)"
    and "pc_jcs_snapshot (wk_plan w) = ac_jcs_snapshot (rk_authority c)" and "pc_sha (wk_plan w) = ac_sha (rk_authority c)"
    and "wk_jcs_checkpoint w = rk_jcs_checkpoint c" and "wk_sha w = rk_sha c"
  shows "(\<exists>events. run_fold chat (ws_run_id (re_snapshot envelope)) events = Inr aggregate)
    \<and> \<not> run_terminal (ra_state aggregate) \<and> ra_uncertain_invocations aggregate = []
    \<and> unat (re_replacement_generation envelope) = unat (wc_prior_generation (re_checkpoint envelope)) + 1
    \<and> rehydrate w envelope =
      (if 10000 < length (re_committed_deltas envelope) \<or> 10000 < length (re_reconciled_outcomes envelope)
       then Inl RcPayloadTooLarge
       else if \<not> (case compile (wk_plan w) (re_snapshot envelope) (ws_snapshot_hash (re_snapshot envelope)) of
                    Inl e \<Rightarrow> False | Inr plan \<Rightarrow> wc_plan_hash (re_checkpoint envelope) = ep_fingerprint plan)
       then Inl RcPlanMismatch
       else if list_ex (\<lambda>x. wk_outcome_value w x = None) (re_reconciled_outcomes envelope) then Inl RcEncoding
       else Inr \<lparr>rs_checkpoint = re_checkpoint envelope, rs_committed_deltas = re_committed_deltas envelope,
              rs_reconciled_outcome_ids = map co_outcome_id (re_reconciled_outcomes envelope)\<rparr>)
    \<and> (\<forall>start s result t h. handle w start s = (Inr result, t) \<and> ce_control start = CtStart (re_snapshot envelope)
         \<and> res_handshake result = Some h \<and> wc_plan_hash (re_checkpoint envelope) = wh_plan_fingerprint h
         \<longrightarrow> rehydrate w envelope \<noteq> Inl RcPlanMismatch)"
proof -
  from assms(1) obtain facts where f: "port chat branch = Inr facts" "fold_facts facts = Inr aggregate"
    "ra_snapshot_hash aggregate = Some (ws_snapshot_hash (rf_snapshot facts))" "\<not> run_terminal (ra_state aggregate)"
    "ra_uncertain_invocations aggregate = []"
    "spawn_replacement c facts aggregate = Inr (RdSpawnReplacement aggregate envelope pending)"
    by (rule recover_v1_spawns)
  have chat: "ws_chat_id (rf_snapshot facts) = chat"
    using assms(1) f(1) by (auto simp: recover_v1_def split: if_splits)
  note r = replacement_rehydrates [OF f(6) assms(2-5)]
  have "run_fold chat (ws_run_id (re_snapshot envelope)) (rf_lifecycle_events facts) = Inr aggregate"
    using f(2) chat by (auto simp: fold_facts_def r(1) split: sum.splits)
  moreover have "rehydrate w envelope \<noteq> Inl RcPlanMismatch"
    if "handle w start s = (Inr result, t)" "ce_control start = CtStart (re_snapshot envelope)"
      "res_handshake result = Some h" "wc_plan_hash (re_checkpoint envelope) = wh_plan_fingerprint h" for start s result t h
    using start_fingerprint [OF that(1-3)] that(4) unfolding r(3) by auto
  ultimately show ?thesis
    using f(4,5) r(2,3) by blast
qed

definition demo_recovery_codec :: recovery_codec where
  "demo_recovery_codec = \<lparr>rk_authority = demo_authority_codec, rk_jcs_checkpoint = (\<lambda>_. Some []), rk_sha = zero_digest\<rparr>"

definition demo_checkpoint :: worker_checkpoint where
  "demo_checkpoint = \<lparr>wc_checkpoint_id = ''cp'', wc_snapshot_hash = zero_digest [], wc_plan_hash = zero_digest [],
     wc_checkpoint_hash = zero_digest [], wc_prior_generation = 1, wc_committed_cursor = 4, wc_proposal_sequence = 2,
     wc_token_frontier = JNull, wc_context_heads = JNull, wc_context_revision_dag = JNull, wc_branch_frames = JNull,
     wc_loop_frames = JNull, wc_budget_state = JNull, wc_attempt_state = JNull, wc_no_resend_state = JNull,
     wc_suspension_state = JNull, wc_child_frames = JNull\<rparr>"

definition demo_facts :: recovery_facts where
  "demo_facts = \<lparr>rf_snapshot = demo_snapshot, rf_checkpoint = Some demo_checkpoint,
     rf_lifecycle_events = [\<lparr>cr_sequence = 1, cr_command_id = ''k1'', cr_event = ReChatStarted ''i'' ''s'' (zero_digest [])\<rparr>,
       \<lparr>cr_sequence = 2, cr_command_id = ''k2'', cr_event = ReWorkerGenerationReady 1\<rparr>],
     rf_events = [\<lparr>rv_sequence = 1, rv_kind = ''started'', rv_payload = JNull\<rparr>],
     rf_committed_deltas = [JObject [(''cursor'', JNumber (PosInt 5))], JObject [(''cursor'', JNumber (PosInt 6))]],
     rf_reconciled_outcomes = [], rf_uncertain_invocation_ids = [], rf_pending_delivery_count = 3, rf_prior_generation = 1\<rparr>"

definition demo_envelope :: rehydration_envelope where
  "demo_envelope = \<lparr>re_snapshot = demo_snapshot, re_checkpoint = demo_checkpoint, re_replacement_generation = 2,
     re_committed_deltas = rf_committed_deltas demo_facts, re_reconciled_outcomes = []\<rparr>"

definition demo_recovered :: run_aggregate where
  "demo_recovered = (case fold_facts demo_facts of Inr a \<Rightarrow> a)"

lemma demo_recovers:
  "recover_v1 demo_recovery_codec (\<lambda>_ _. Inr demo_facts) ''c'' ''b'' = Inr (RdSpawnReplacement demo_recovered demo_envelope 3)"
  by code_simp

theorem recovery_accepted_by_worker_witness:
  "rehydrate (demo_worker_codec\<lparr>wk_sha := zero_digest\<rparr>) demo_envelope =
     Inr \<lparr>rs_checkpoint = demo_checkpoint, rs_committed_deltas = rf_committed_deltas demo_facts, rs_reconciled_outcome_ids = []\<rparr>"
proof -
  let ?w = "demo_worker_codec\<lparr>wk_sha := zero_digest\<rparr>"
  have "ep_fingerprint demo_plan = zero_digest []"
    by code_simp
  moreover have "compile (wk_plan ?w) (re_snapshot demo_envelope) (ws_snapshot_hash (re_snapshot demo_envelope)) = Inr demo_plan"
    using demo_compiles by (simp add: demo_worker_codec_def demo_envelope_def demo_snapshot_def)
  ultimately show ?thesis
    using recovery_accepted_by_worker [OF demo_recovers, of ?w]
    by (simp add: demo_worker_codec_def demo_recovery_codec_def demo_codec_def demo_authority_codec_def demo_envelope_def
        demo_facts_def demo_checkpoint_def)
qed

end
