(* ===== verification/Secrets.thy ===== *)
theory Secrets
  imports Plan
begin

text \<open>
  Credential references and secret leases (\<open>crates/aworkit-trusted-core/src/secrets.rs\<close>): the
  broker with every operation over a credential store port, and the port's two implementations,
  in memory and over the keyring of the operating system (\<open>secrets/native.rs\<close>).
\<close>

section \<open>Data\<close>

text \<open>
  Instants and durations are nanoseconds on the process's monotonic clock; whether a sum is
  representable is up to the platform and a parameter.
\<close>

type_synonym instant = int
type_synonym duration = int
type_synonym secret_fields = "(string, string) bmap"

definition MAX_LEASE_TTL :: duration where
  "MAX_LEASE_TTL = 15 * 60 * 1000000000"

definition MAX_LEASE_USES :: u32 where
  "MAX_LEASE_USES = 64"

record credential_metadata =
  cm_credential :: stable_id
  cm_field_names :: "string list"
  cm_revision :: u64

datatype secret_error =
    SeUnknown
  | SeUnknownCredential
  | SeUsed
  | SeAudience
  | SeInvocationMismatch
  | SeFieldDenied
  | SeExpired
  | SeIdentityConflict
  | SeStoreUnavailable
  | SeStoreLocked
  | SeStoreAccessControlInvalid
  | SeSecretTooLarge
  | SeInvalidMetadata

record secret_lease =
  sl_lease_id :: stable_id
  sl_credential :: stable_id
  sl_audience_generation :: process_generation
  sl_decision_id :: "stable_id option"
  sl_invocation_id :: "stable_id option"
  sl_run_id :: "stable_id option"
  sl_permitted_fields :: "string list"
  sl_expires_at :: instant
  sl_remaining_uses :: u32
  sl_identity_hash :: string

record scoped_lease_request =
  lq_lease_id :: stable_id
  lq_credential :: stable_id
  lq_decision_id :: stable_id
  lq_invocation_id :: stable_id
  lq_run_id :: stable_id
  lq_audience_generation :: process_generation
  lq_permitted_fields :: "string list"
  lq_ttl :: duration
  lq_maximum_uses :: u32

record redeem_lease_request =
  rq_lease_id :: stable_id
  rq_decision_id :: stable_id
  rq_invocation_id :: stable_id
  rq_audience_generation :: process_generation
  rq_requested_fields :: "string list"

datatype lease_audit_kind = LaIssued | LaRedeemed | LaRevoked | LaExpired

type_synonym lease_audit = "stable_id \<times> lease_audit_kind"

section \<open>The store\<close>

record 'c credential_store_port =
  cs_put :: "stable_id \<Rightarrow> secret_fields \<Rightarrow> 'c \<Rightarrow> (secret_error + unit) \<times> 'c"
  cs_retrieve :: "stable_id \<Rightarrow> 'c \<Rightarrow> secret_error + secret_fields"
  cs_delete :: "stable_id \<Rightarrow> 'c \<Rightarrow> (secret_error + unit) \<times> 'c"

type_synonym memory_credentials = "(string, secret_fields) bmap"

definition memory_put :: "stable_id \<Rightarrow> secret_fields \<Rightarrow> memory_credentials \<Rightarrow> (secret_error + unit) \<times> memory_credentials" where
  "memory_put credential fs m = (Inr (), binsert credential fs m)"

definition memory_retrieve :: "stable_id \<Rightarrow> memory_credentials \<Rightarrow> secret_error + secret_fields" where
  "memory_retrieve credential m = ok_or (bget m credential) SeUnknownCredential"

definition memory_delete :: "stable_id \<Rightarrow> memory_credentials \<Rightarrow> (secret_error + unit) \<times> memory_credentials" where
  "memory_delete credential m =
     (if bcontains m credential then (Inr (), bremove credential m) else (Inl SeUnknownCredential, m))"

definition memory_credential_store :: "memory_credentials credential_store_port" where
  "memory_credential_store = \<lparr>cs_put = memory_put, cs_retrieve = memory_retrieve, cs_delete = memory_delete\<rparr>"

text \<open>
  The native store. The \<open>keyring\<close> crate, the serializer of the stored payload and SHA-256 are
  parameters; a payload field of a keyring error is only wiped.
\<close>

datatype keyring_error =
    KeNoEntry
  | KeNoStorageAccess
  | KeBadEncoding
  | KeBadDataFormat
  | KeBadStoreFormat
  | KeAmbiguous
  | KePlatformFailure
  | KeTooLong
  | KeInvalid
  | KeNoDefaultStore
  | KeNotSupportedByStore
  | KeOther

record stored_credential =
  sc_version :: "8 word"
  sc_fields :: secret_fields

datatype native_status = NsAvailable | NsLocked | NsUnavailable

record ('e, 'k) keyring =
  kr_store_status :: "'k \<Rightarrow> keyring_error + unit"
  kr_entry_new :: "string \<Rightarrow> string \<Rightarrow> keyring_error + 'e"
  kr_set_secret :: "'e \<Rightarrow> string \<Rightarrow> 'k \<Rightarrow> (keyring_error + unit) \<times> 'k"
  kr_get_secret :: "'e \<Rightarrow> 'k \<Rightarrow> keyring_error + string"
  kr_delete_credential :: "'e \<Rightarrow> 'k \<Rightarrow> (keyring_error + unit) \<times> 'k"
  kr_to_vec :: "stored_credential \<Rightarrow> string option"
  kr_from_slice :: "string \<Rightarrow> stored_credential option"
  kr_sha :: digest

definition SERVICE_NAME :: string where
  "SERVICE_NAME = ''org.aworkit.credentials.v1''"

definition PAYLOAD_VERSION :: "8 word" where
  "PAYLOAD_VERSION = 1"

fun map_store_error :: "keyring_error \<Rightarrow> secret_error" where
  "map_store_error KeNoEntry = SeUnknownCredential"
| "map_store_error KeNoStorageAccess = SeStoreLocked"
| "map_store_error KeBadEncoding = SeStoreAccessControlInvalid"
| "map_store_error KeBadDataFormat = SeStoreAccessControlInvalid"
| "map_store_error KeBadStoreFormat = SeStoreAccessControlInvalid"
| "map_store_error KeAmbiguous = SeStoreAccessControlInvalid"
| "map_store_error _ = SeStoreUnavailable"

definition native_store_status :: "('e, 'k) keyring \<Rightarrow> 'k \<Rightarrow> native_status" where
  "native_store_status kr k =
     (case kr_store_status kr k of Inr _ \<Rightarrow> NsAvailable | Inl KeNoStorageAccess \<Rightarrow> NsLocked | Inl _ \<Rightarrow> NsUnavailable)"

definition validate_access_control :: "('e, 'k) keyring \<Rightarrow> 'k \<Rightarrow> secret_error + unit" where
  "validate_access_control kr k =
     (case native_store_status kr k of
        NsAvailable \<Rightarrow> Inr () | NsLocked \<Rightarrow> Inl SeStoreLocked | NsUnavailable \<Rightarrow> Inl SeStoreUnavailable)"

definition native_entry :: "('e, 'k) keyring \<Rightarrow> stable_id \<Rightarrow> 'k \<Rightarrow> secret_error + 'e" where
  "native_entry kr credential k =
     bind_r (validate_access_control kr k) (\<lambda>_. map_sum map_store_error id (kr_entry_new kr SERVICE_NAME credential))"

definition native_put :: "('e, 'k) keyring \<Rightarrow> stable_id \<Rightarrow> secret_fields \<Rightarrow> 'k \<Rightarrow> (secret_error + unit) \<times> 'k" where
  "native_put kr credential fs k =
     (case kr_to_vec kr \<lparr>sc_version = PAYLOAD_VERSION, sc_fields = fs\<rparr> of
        None \<Rightarrow> (Inl SeStoreAccessControlInvalid, k)
      | Some payload \<Rightarrow>
          (case native_entry kr credential k of
             Inl e \<Rightarrow> (Inl e, k)
           | Inr entry \<Rightarrow>
               (case kr_set_secret kr entry payload k of
                  (Inl e, k') \<Rightarrow> (Inl (map_store_error e), k')
                | (Inr _, k') \<Rightarrow>
                    (bind_r (map_sum map_store_error id (kr_get_secret kr entry k')) (\<lambda>observed.
                     if kr_sha kr payload \<noteq> kr_sha kr observed then Inl SeStoreAccessControlInvalid else Inr ()), k'))))"

definition native_retrieve :: "('e, 'k) keyring \<Rightarrow> stable_id \<Rightarrow> 'k \<Rightarrow> secret_error + secret_fields" where
  "native_retrieve kr credential k =
     bind_r (native_entry kr credential k) (\<lambda>entry.
     bind_r (map_sum map_store_error id (kr_get_secret kr entry k)) (\<lambda>payload.
     bind_r (ok_or (kr_from_slice kr payload) SeStoreAccessControlInvalid) (\<lambda>stored.
     if sc_version stored \<noteq> PAYLOAD_VERSION \<or> sc_fields stored = [] then Inl SeStoreAccessControlInvalid
     else Inr (sc_fields stored))))"

definition native_delete :: "('e, 'k) keyring \<Rightarrow> stable_id \<Rightarrow> 'k \<Rightarrow> (secret_error + unit) \<times> 'k" where
  "native_delete kr credential k =
     (case native_entry kr credential k of
        Inl e \<Rightarrow> (Inl e, k)
      | Inr entry \<Rightarrow>
          (case kr_delete_credential kr entry k of
             (Inl e, k') \<Rightarrow> (Inl (map_store_error e), k')
           | (Inr _, k') \<Rightarrow> (Inr (), k')))"

definition native_credential_store :: "('e, 'k) keyring \<Rightarrow> 'k credential_store_port" where
  "native_credential_store kr = \<lparr>cs_put = native_put kr, cs_retrieve = native_retrieve kr, cs_delete = native_delete kr\<rparr>"

text \<open>\<open>CredentialSecretV1::select\<close>, over the sorted names of the request.\<close>

fun select_fields :: "secret_fields \<Rightarrow> string list \<Rightarrow> secret_error + secret_fields" where
  "select_fields fs [] = Inr []"
| "select_fields fs (name # names) =
     bind_r (ok_or (bget fs name) SeFieldDenied) (\<lambda>value.
     bind_r (select_fields fs names) (\<lambda>rest. Inr ((name, value) # rest)))"

section \<open>The broker\<close>

text \<open>
  The state of the broker with that of its store, and what it uses of the platform: the clock's
  addition, the JSON of a lease identity (\<open>serde_json::to_vec\<close>) and SHA-256.
\<close>

record 'c secret_broker =
  sb_store :: 'c
  sb_metadata :: "(string, credential_metadata) bmap"
  sb_leases :: "(string, secret_lease) bmap"
  sb_audit :: "lease_audit list"

type_synonym lease_identity_tuple =
  "stable_id \<times> stable_id \<times> stable_id option \<times> stable_id option \<times> stable_id option \<times> process_generation \<times> string list
     \<times> duration \<times> u32"

record secret_platform =
  sp_checked_add :: "instant \<Rightarrow> duration \<Rightarrow> instant option"
  sp_identity_to_vec :: "lease_identity_tuple \<Rightarrow> string"
  sp_sha :: digest

definition with_store :: "'c \<Rightarrow> 'c secret_broker" where
  "with_store store = \<lparr>sb_store = store, sb_metadata = [], sb_leases = [], sb_audit = []\<rparr>"

definition describe_credential :: "'c secret_broker \<Rightarrow> stable_id \<Rightarrow> credential_metadata option" where
  "describe_credential s credential = bget (sb_metadata s) credential"

definition field_byte :: "char \<Rightarrow> bool" where
  "field_byte ch \<longleftrightarrow> is_ascii_alphanumeric ch \<or> ch \<in> {CHR ''.'', CHR ''_'', CHR ''-''}"

definition validate_fields :: "string list \<Rightarrow> secret_error + unit" where
  "validate_fields fs =
     (if fs = [] \<or> list_ex (\<lambda>f. f = [] \<or> 128 < length f \<or> \<not> list_all field_byte f) fs
      then Inl SeFieldDenied else Inr ())"

definition lease_identity :: "secret_platform \<Rightarrow> lease_identity_tuple \<Rightarrow> string" where
  "lease_identity p t = ''sha256:'' @ sp_sha p (sp_identity_to_vec p t)"

definition revoke :: "stable_id \<Rightarrow> 'c secret_broker \<Rightarrow> 'c secret_broker" where
  "revoke lease_id s =
     (if bcontains (sb_leases s) lease_id
      then s\<lparr>sb_leases := bremove lease_id (sb_leases s), sb_audit := sb_audit s @ [(lease_id, LaRevoked)]\<rparr>
      else s)"

definition revoke_where :: "(secret_lease \<Rightarrow> bool) \<Rightarrow> 'c secret_broker \<Rightarrow> 'c secret_broker" where
  "revoke_where P s = fold revoke (map sl_lease_id (filter P (bvalues (sb_leases s)))) s"

definition revoke_generation :: "process_generation \<Rightarrow> 'c secret_broker \<Rightarrow> 'c secret_broker" where
  "revoke_generation generation s = revoke_where (\<lambda>l. sl_audience_generation l = generation) s"

definition revoke_run :: "stable_id \<Rightarrow> 'c secret_broker \<Rightarrow> 'c secret_broker" where
  "revoke_run run_id s = revoke_where (\<lambda>l. sl_run_id l = Some run_id) s"

definition restore_credential_metadata :: "credential_metadata \<Rightarrow> 'c secret_broker \<Rightarrow> (secret_error + unit) \<times> 'c secret_broker" where
  "restore_credential_metadata metadata s =
     (case validate_fields (cm_field_names metadata) of
        Inl e \<Rightarrow> (Inl e, s)
      | Inr _ \<Rightarrow>
          if cm_revision metadata = 0 then (Inl SeInvalidMetadata, s)
          else (case bget (sb_metadata s) (cm_credential metadata) of
                  Some existing \<Rightarrow> (if existing = metadata then Inr () else Inl SeInvalidMetadata, s)
                | None \<Rightarrow> (Inr (), s\<lparr>sb_metadata := binsert (cm_credential metadata) metadata (sb_metadata s)\<rparr>)))"

definition put_credential ::
  "'c credential_store_port \<Rightarrow> stable_id \<Rightarrow> secret_fields \<Rightarrow> 'c secret_broker \<Rightarrow> (secret_error + credential_metadata) \<times> 'c secret_broker" where
  "put_credential port credential fs s =
     (case validate_fields (bkeys fs) of
        Inl e \<Rightarrow> (Inl e, s)
      | Inr _ \<Rightarrow>
          if 64 < length fs \<or> list_ex (\<lambda>v. v = [] \<or> 64 * 1024 < length v) (bvalues fs)
             \<or> 256 * 1024 < sum_list (map length (bvalues fs))
          then (Inl SeSecretTooLarge, s)
          else
            (let next_revision = (case bget (sb_metadata s) credential of
                   None \<Rightarrow> 1 | Some m \<Rightarrow> saturating_add (cm_revision m) 1) in
             case cs_put port credential fs (sb_store s) of
               (Inl e, store) \<Rightarrow> (Inl e, s\<lparr>sb_store := store\<rparr>)
             | (Inr _, store) \<Rightarrow>
                 (let s' = revoke_where (\<lambda>l. sl_credential l = credential) (s\<lparr>sb_store := store\<rparr>);
                      metadata = \<lparr>cm_credential = credential, cm_field_names = bkeys fs, cm_revision = next_revision\<rparr> in
                  (Inr metadata, s'\<lparr>sb_metadata := binsert credential metadata (sb_metadata s')\<rparr>))))"

text \<open>\<open>getrandom\<close> fills 24 bytes or fails; \<open>format!("{byte:02x}")\<close> writes each of them.\<close>

definition format_byte :: "char \<Rightarrow> string" where
  "format_byte b = [''0123456789abcdef'' ! (byte b div 16), ''0123456789abcdef'' ! (byte b mod 16)]"

definition create_credential ::
  "'c credential_store_port \<Rightarrow> string option \<Rightarrow> secret_fields \<Rightarrow> 'c secret_broker \<Rightarrow> (secret_error + credential_metadata) \<times> 'c secret_broker" where
  "create_credential port random fs s =
     (case random of
        None \<Rightarrow> (Inl SeStoreUnavailable, s)
      | Some bytes \<Rightarrow>
          (case stable_id_parse (''credential.'' @ concat (map format_byte bytes)) of
             Inl _ \<Rightarrow> (Inl SeStoreUnavailable, s)
           | Inr credential \<Rightarrow> put_credential port credential fs s))"

definition delete_credential :: "'c credential_store_port \<Rightarrow> stable_id \<Rightarrow> 'c secret_broker \<Rightarrow> (secret_error + unit) \<times> 'c secret_broker" where
  "delete_credential port credential s =
     (case cs_delete port credential (sb_store s) of
        (Inl e, store) \<Rightarrow> (Inl e, s\<lparr>sb_store := store\<rparr>)
      | (Inr _, store) \<Rightarrow>
          (Inr (), revoke_where (\<lambda>l. sl_credential l = credential)
             (s\<lparr>sb_store := store, sb_metadata := bremove credential (sb_metadata s)\<rparr>)))"

definition insert_lease :: "secret_lease \<Rightarrow> 'c secret_broker \<Rightarrow> (secret_error + secret_lease) \<times> 'c secret_broker" where
  "insert_lease lease s =
     (case bget (sb_leases s) (sl_lease_id lease) of
        Some existing \<Rightarrow>
          (if sl_identity_hash existing = sl_identity_hash lease then Inr existing else Inl SeIdentityConflict, s)
      | None \<Rightarrow>
          (Inr lease, s\<lparr>sb_audit := sb_audit s @ [(sl_lease_id lease, LaIssued)],
                        sb_leases := binsert (sl_lease_id lease) lease (sb_leases s)\<rparr>))"

definition issue ::
  "secret_platform \<Rightarrow> instant \<Rightarrow> stable_id \<Rightarrow> stable_id \<Rightarrow> process_generation \<Rightarrow> duration \<Rightarrow> 'c secret_broker
    \<Rightarrow> (secret_error + secret_lease) \<times> 'c secret_broker" where
  "issue p now lease_id credential generation ttl s =
     (case sp_checked_add p now ttl of
        None \<Rightarrow> (Inl SeExpired, s)
      | Some expires_at \<Rightarrow>
          if ttl = 0 \<or> MAX_LEASE_TTL < ttl then (Inl SeExpired, s)
          else insert_lease
            \<lparr>sl_lease_id = lease_id, sl_credential = credential, sl_audience_generation = generation, sl_decision_id = None,
             sl_invocation_id = None, sl_run_id = None, sl_permitted_fields = [], sl_expires_at = expires_at,
             sl_remaining_uses = 1,
             sl_identity_hash = lease_identity p (lease_id, credential, None, None, None, generation, [], ttl, 1)\<rparr> s)"

definition issue_scoped ::
  "secret_platform \<Rightarrow> instant \<Rightarrow> scoped_lease_request \<Rightarrow> 'c secret_broker \<Rightarrow> (secret_error + secret_lease) \<times> 'c secret_broker" where
  "issue_scoped p now q s =
     (if lq_ttl q = 0 \<or> MAX_LEASE_TTL < lq_ttl q \<or> lq_maximum_uses q = 0 \<or> MAX_LEASE_USES < lq_maximum_uses q
      then (Inl SeExpired, s)
      else case validate_fields (lq_permitted_fields q) of
        Inl e \<Rightarrow> (Inl e, s)
      | Inr _ \<Rightarrow>
          (case bget (sb_metadata s) (lq_credential q) of
             None \<Rightarrow> (Inl SeUnknownCredential, s)
           | Some metadata \<Rightarrow>
               if \<not> list_all (\<lambda>f. f \<in> set (cm_field_names metadata)) (lq_permitted_fields q) then (Inl SeFieldDenied, s)
               else (case sp_checked_add p now (lq_ttl q) of
                       None \<Rightarrow> (Inl SeExpired, s)
                     | Some expires_at \<Rightarrow> insert_lease
                         \<lparr>sl_lease_id = lq_lease_id q, sl_credential = lq_credential q,
                          sl_audience_generation = lq_audience_generation q, sl_decision_id = Some (lq_decision_id q),
                          sl_invocation_id = Some (lq_invocation_id q), sl_run_id = Some (lq_run_id q),
                          sl_permitted_fields = lq_permitted_fields q, sl_expires_at = expires_at,
                          sl_remaining_uses = lq_maximum_uses q,
                          sl_identity_hash = lease_identity p (lq_lease_id q, lq_credential q, Some (lq_decision_id q),
                            Some (lq_invocation_id q), Some (lq_run_id q), lq_audience_generation q, lq_permitted_fields q,
                            lq_ttl q, lq_maximum_uses q)\<rparr> s)))"

definition validate_lease ::
  "instant \<Rightarrow> stable_id \<Rightarrow> process_generation \<Rightarrow> stable_id option \<Rightarrow> stable_id option \<Rightarrow> string list \<Rightarrow> 'c secret_broker
    \<Rightarrow> (secret_error + secret_lease) \<times> 'c secret_broker" where
  "validate_lease now lease_id generation decision_id invocation_id fs s =
     (case bget (sb_leases s) lease_id of
        None \<Rightarrow> (Inl SeUnknown, s)
      | Some lease \<Rightarrow>
          if sl_expires_at lease \<le> now then (Inl SeExpired, s\<lparr>sb_audit := sb_audit s @ [(lease_id, LaExpired)]\<rparr>)
          else if sl_remaining_uses lease = 0 then (Inl SeUsed, s)
          else if sl_audience_generation lease \<noteq> generation then (Inl SeAudience, s)
          else if sl_decision_id lease \<noteq> decision_id \<or> sl_invocation_id lease \<noteq> invocation_id then (Inl SeInvocationMismatch, s)
          else if \<not> list_all (\<lambda>f. f \<in> set (sl_permitted_fields lease)) fs then (Inl SeFieldDenied, s)
          else
            (let lease' = lease\<lparr>sl_remaining_uses := sl_remaining_uses lease - 1\<rparr> in
             (Inr lease', s\<lparr>sb_leases := binsert lease_id lease' (sb_leases s),
                            sb_audit := sb_audit s @ [(lease_id, LaRedeemed)]\<rparr>)))"

definition redeem ::
  "instant \<Rightarrow> stable_id \<Rightarrow> process_generation \<Rightarrow> 'c secret_broker \<Rightarrow> (secret_error + stable_id) \<times> 'c secret_broker" where
  "redeem now lease_id generation s =
     (case validate_lease now lease_id generation None None [] s of
        (Inl e, s') \<Rightarrow> (Inl e, s')
      | (Inr lease, s') \<Rightarrow> (Inr (sl_credential lease), s'))"

text \<open>A use is spent before the store is asked, so it is spent when the store fails too.\<close>

definition redeem_scoped ::
  "'c credential_store_port \<Rightarrow> instant \<Rightarrow> redeem_lease_request \<Rightarrow> 'c secret_broker \<Rightarrow> (secret_error + secret_fields) \<times> 'c secret_broker" where
  "redeem_scoped port now q s =
     (case validate_lease now (rq_lease_id q) (rq_audience_generation q) (Some (rq_decision_id q)) (Some (rq_invocation_id q))
             (rq_requested_fields q) s of
        (Inl e, s') \<Rightarrow> (Inl e, s')
      | (Inr lease, s') \<Rightarrow>
          (bind_r (cs_retrieve port (sl_credential lease) (sb_store s')) (\<lambda>secret.
           select_fields secret (rq_requested_fields q)), s'))"

end
