(* ===== verification/Secrets_Laws.thy ===== *)
theory Secrets_Laws
  imports Secrets
begin

text \<open>
  What secret leases guarantee in every run of the broker: over any store, that a lease is redeemed
  as it was issued and at most as often as it was issued for; over a store that keeps the contract of
  a credential store, that it delivers what was stored when it was issued. The contract is
  interpreted on the store in memory and proved for the native store over a lawful keyring.
\<close>

section \<open>Runs\<close>

text \<open>One operation of the broker at one instant, whatever its outcome.\<close>

inductive secret_step :: "secret_platform \<Rightarrow> 'c credential_store_port \<Rightarrow> 'c secret_broker \<Rightarrow> 'c secret_broker \<Rightarrow> bool"
  for p :: secret_platform and port :: "'c credential_store_port" where
  step_restore: "secret_step p port s (snd (restore_credential_metadata m s))"
| step_put: "secret_step p port s (snd (put_credential port c fs s))"
| step_create: "secret_step p port s (snd (create_credential port random fs s))"
| step_delete: "secret_step p port s (snd (delete_credential port c s))"
| step_issue: "secret_step p port s (snd (issue p now i c g ttl s))"
| step_issue_scoped: "secret_step p port s (snd (issue_scoped p now q s))"
| step_redeem: "secret_step p port s (snd (redeem now i g s))"
| step_redeem_scoped: "secret_step p port s (snd (redeem_scoped port now r s))"
| step_revoke: "secret_step p port s (revoke i s)"
| step_revoke_generation: "secret_step p port s (revoke_generation g s)"
| step_revoke_run: "secret_step p port s (revoke_run run s)"

abbreviation secret_run :: "secret_platform \<Rightarrow> 'c credential_store_port \<Rightarrow> 'c secret_broker \<Rightarrow> 'c secret_broker \<Rightarrow> bool" where
  "secret_run p port \<equiv> (secret_step p port)\<^sup>*\<^sup>*"

section \<open>Revocation\<close>

lemma revoke_simps [simp]:
  "sb_store (revoke i s) = sb_store s" "sb_metadata (revoke i s) = sb_metadata s"
  "bget (sb_leases (revoke i s)) j = (if j = i then None else bget (sb_leases s) j)"
  by (auto simp: revoke_def bcontains_def)

lemma fold_revoke_simps [simp]:
  "sb_store (fold revoke is s) = sb_store s" "sb_metadata (fold revoke is s) = sb_metadata s"
  "bget (sb_leases (fold revoke is s)) j = (if j \<in> set is then None else bget (sb_leases s) j)"
  by (induction "is" arbitrary: s) auto

lemma revoke_where_simps [simp]:
  "sb_store (revoke_where P s) = sb_store s" "sb_metadata (revoke_where P s) = sb_metadata s"
  "bget (sb_leases (revoke_where P s)) j =
     (if \<exists>l \<in> set (bvalues (sb_leases s)). P l \<and> sl_lease_id l = j then None else bget (sb_leases s) j)"
  by (auto simp: revoke_where_def)

lemma revoke_audit: "sb_audit (revoke i s) = sb_audit s @ (if bget (sb_leases s) i = None then [] else [(i, LaRevoked)])"
  by (auto simp: revoke_def bcontains_def)

lemma fold_revoke_audit:
  obtains as where "sb_audit (fold revoke is s) = sb_audit s @ as"
    "\<And>e. e \<in> set as \<Longrightarrow> snd e = LaRevoked"
    "\<And>j l. bget (sb_leases s) j = Some l \<Longrightarrow> j \<in> set is \<Longrightarrow> (j, LaRevoked) \<in> set as"
proof -
  have "\<exists>as. sb_audit (fold revoke is s) = sb_audit s @ as \<and> (\<forall>e \<in> set as. snd e = LaRevoked)
    \<and> (\<forall>j l. bget (sb_leases s) j = Some l \<longrightarrow> j \<in> set is \<longrightarrow> (j, LaRevoked) \<in> set as)"
  proof (induction "is" arbitrary: s)
    case (Cons i "is")
    obtain as where as: "sb_audit (fold revoke is (revoke i s)) = sb_audit (revoke i s) @ as" "\<forall>e \<in> set as. snd e = LaRevoked"
      "\<forall>j l. bget (sb_leases (revoke i s)) j = Some l \<longrightarrow> j \<in> set is \<longrightarrow> (j, LaRevoked) \<in> set as"
      using Cons.IH [of "revoke i s"] by blast
    let ?bs = "if bget (sb_leases s) i = None then [] else [(i, LaRevoked)]"
    have "(j, LaRevoked) \<in> set (?bs @ as)" if "bget (sb_leases s) j = Some l" "j \<in> set (i # is)" for j l
      using as(3) that by (cases "j = i") auto
    moreover have "\<forall>e \<in> set (?bs @ as). snd e = LaRevoked"
      using as(2) by simp
    moreover have "sb_audit (fold revoke (i # is) s) = sb_audit s @ ?bs @ as"
      using as(1) by (simp add: revoke_audit)
    ultimately show ?case
      by blast
  qed simp
  then show thesis
    using that by blast
qed

section \<open>One lease\<close>

text \<open>
  What a step does to a lease it does not revoke: nothing but counting down its uses, one for every
  redemption it reports; and \<open>R\<close> relates the store before and after for the lease's credential.
\<close>

definition kept :: "(stable_id \<Rightarrow> 'c \<Rightarrow> 'c \<Rightarrow> bool) \<Rightarrow> stable_id \<Rightarrow> 'c secret_broker \<Rightarrow> 'c secret_broker \<Rightarrow> bool" where
  "kept R i s s' \<longleftrightarrow> (\<exists>as. sb_audit s' = sb_audit s @ as
     \<and> (\<forall>l. bget (sb_leases s) i = Some l \<longrightarrow> sl_lease_id l = i \<longrightarrow> (i, LaRevoked) \<notin> set as \<longrightarrow>
          (\<exists>n. bget (sb_leases s') i = Some (l\<lparr>sl_remaining_uses := n\<rparr>)
             \<and> unat n + count_list as (i, LaRedeemed) = unat (sl_remaining_uses l)
             \<and> R (sl_credential l) (sb_store s) (sb_store s'))))"

lemma keptI:
  assumes "sb_audit s' = sb_audit s @ as"
    and "\<And>l. bget (sb_leases s) i = Some l \<Longrightarrow> sl_lease_id l = i \<Longrightarrow> (i, LaRevoked) \<notin> set as \<Longrightarrow>
          \<exists>n. bget (sb_leases s') i = Some (l\<lparr>sl_remaining_uses := n\<rparr>)
             \<and> unat n + count_list as (i, LaRedeemed) = unat (sl_remaining_uses l)
             \<and> R (sl_credential l) (sb_store s) (sb_store s')"
  shows "kept R i s s'"
  using assms unfolding kept_def by blast

lemma keptD:
  assumes "kept R i s s'" and "sb_audit s' = sb_audit s @ as" and "bget (sb_leases s) i = Some l" and "sl_lease_id l = i"
    and "(i, LaRevoked) \<notin> set as"
  obtains n where "bget (sb_leases s') i = Some (l\<lparr>sl_remaining_uses := n\<rparr>)"
    "unat n + count_list as (i, LaRedeemed) = unat (sl_remaining_uses l)"
    "R (sl_credential l) (sb_store s) (sb_store s')"
  using assms unfolding kept_def by auto

lemma validate_lease_Inr:
  assumes "validate_lease now i g d v fs s = (Inr l', s')"
  obtains l where "bget (sb_leases s) i = Some l" "now < sl_expires_at l" "sl_remaining_uses l \<noteq> 0"
    "sl_audience_generation l = g" "sl_decision_id l = d" "sl_invocation_id l = v" "set fs \<subseteq> set (sl_permitted_fields l)"
    "l' = l\<lparr>sl_remaining_uses := sl_remaining_uses l - 1\<rparr>"
    "s' = s\<lparr>sb_leases := binsert i l' (sb_leases s), sb_audit := sb_audit s @ [(i, LaRedeemed)]\<rparr>"
  using assms unfolding validate_lease_def Let_def
  by (auto simp: list_all_iff subset_iff split: option.splits if_splits intro: that)

lemma validate_lease_Inl:
  assumes "validate_lease now i g d v fs s = (Inl e, s')"
  obtains as where "s' = s\<lparr>sb_audit := sb_audit s @ as\<rparr>" "set as \<subseteq> {(i, LaExpired)}"
  using assms unfolding validate_lease_def Let_def
  by (auto split: option.splits if_splits intro: that [of "[]"] that)

lemma unat_minus_one_use: "(n :: u32) \<noteq> 0 \<Longrightarrow> Suc (unat (n - 1)) = unat n"
  by (simp add: unat_gt_0 unat_minus_one)

section \<open>Stores\<close>

text \<open>
  A relation \<open>R\<close> on the states of a store that holds whenever the broker does not revoke the leases of a
  credential: after an operation on another credential, and after one that failed.
\<close>

locale store_frame =
  fixes port :: "'c credential_store_port"
    and R :: "stable_id \<Rightarrow> 'c \<Rightarrow> 'c \<Rightarrow> bool"
  assumes R_refl: "R d st st"
    and R_trans: "R d st st' \<Longrightarrow> R d st' st'' \<Longrightarrow> R d st st''"
    and put_frame: "cs_put port c fs st = (r, st') \<Longrightarrow> fs \<noteq> [] \<Longrightarrow> d \<noteq> c \<or> \<not> is_ok r \<Longrightarrow> R d st st'"
    and delete_frame: "cs_delete port c st = (r, st') \<Longrightarrow> d \<noteq> c \<or> \<not> is_ok r \<Longrightarrow> R d st st'"
begin

declare R_refl [simp]

lemma kept_trans:
  assumes "kept R i s t" and "kept R i t u"
  shows "kept R i s u"
proof -
  obtain as bs where a: "sb_audit t = sb_audit s @ as" "sb_audit u = sb_audit t @ bs"
    using assms unfolding kept_def by blast
  show ?thesis
  proof (rule keptI [of _ _ "as @ bs"])
    show "\<exists>n. bget (sb_leases u) i = Some (l\<lparr>sl_remaining_uses := n\<rparr>)
        \<and> unat n + count_list (as @ bs) (i, LaRedeemed) = unat (sl_remaining_uses l)
        \<and> R (sl_credential l) (sb_store s) (sb_store u)"
      if l: "bget (sb_leases s) i = Some l" "sl_lease_id l = i" "(i, LaRevoked) \<notin> set (as @ bs)" for l
    proof -
      obtain n where n: "bget (sb_leases t) i = Some (l\<lparr>sl_remaining_uses := n\<rparr>)"
        "unat n + count_list as (i, LaRedeemed) = unat (sl_remaining_uses l)"
        "R (sl_credential l) (sb_store s) (sb_store t)"
        by (rule keptD [OF assms(1) a(1) l(1,2)]) (use l(3) in auto)
      show ?thesis
        by (rule keptD [OF assms(2) a(2) n(1)]) (use l n in \<open>auto intro: R_trans exI [of _ "_ :: u32"]\<close>)
    qed
  qed (use a in simp)
qed

lemma kept_store:
  "sb_audit s' = sb_audit s \<Longrightarrow> sb_leases s' = sb_leases s \<Longrightarrow> (\<And>d. R d (sb_store s) (sb_store s'))
    \<Longrightarrow> kept R i s s'"
  by (rule keptI [of _ _ "[]"]) (auto intro!: exI [of _ "sl_remaining_uses _"])

lemma kept_idle: "sb_audit s' = sb_audit s \<Longrightarrow> sb_leases s' = sb_leases s \<Longrightarrow> sb_store s' = sb_store s \<Longrightarrow> kept R i s s'"
  by (rule kept_store) simp_all

lemma kept_metadata [simp]: "kept R i s (t\<lparr>sb_metadata := m\<rparr>) \<longleftrightarrow> kept R i s t"
  by (simp add: kept_def)

lemma kept_fold_revoke:
  assumes "sb_audit t = sb_audit s" and "sb_leases t = sb_leases s"
    and "\<And>l. bget (sb_leases s) i = Some l \<Longrightarrow> sl_lease_id l = i \<Longrightarrow> i \<notin> set is \<Longrightarrow>
      R (sl_credential l) (sb_store s) (sb_store t)"
  shows "kept R i s (fold revoke is t)"
proof (rule fold_revoke_audit [of "is" t])
  fix as
  assume as: "sb_audit (fold revoke is t) = sb_audit t @ as" "\<And>e. e \<in> set as \<Longrightarrow> snd e = LaRevoked"
    "\<And>j l. bget (sb_leases t) j = Some l \<Longrightarrow> j \<in> set is \<Longrightarrow> (j, LaRevoked) \<in> set as"
  have "count_list as (i, LaRedeemed) = 0"
    using as(2) by (force simp: count_list_0_iff)
  with as assms show ?thesis
    by (intro keptI [of _ _ as]) (auto intro!: exI [of _ "sl_remaining_uses _"])
qed

lemma kept_revoke_where:
  assumes "sb_audit t = sb_audit s" and "sb_leases t = sb_leases s"
    and "\<And>l. bget (sb_leases s) i = Some l \<Longrightarrow> \<not> P l \<Longrightarrow>
      R (sl_credential l) (sb_store s) (sb_store t)"
  shows "kept R i s (revoke_where P t)"
  unfolding revoke_where_def using assms bget_in_values [of "sb_leases s" i]
  by (intro kept_fold_revoke) force+

lemma kept_insert_lease: "kept R i s (snd (insert_lease l s))"
  by (rule keptI [of _ _ "if bget (sb_leases s) (sl_lease_id l) = None then [(sl_lease_id l, LaIssued)] else []"])
     (auto simp: insert_lease_def split: option.split intro!: exI [of _ "sl_remaining_uses _"])

lemma kept_validate_lease: "kept R j s (snd (validate_lease now i g d v fs s))"
proof (cases "fst (validate_lease now i g d v fs s)")
  case (Inl e)
  then obtain s' where v: "validate_lease now i g d v fs s = (Inl e, s')"
    by (metis prod.collapse)
  then show ?thesis
  proof (rule validate_lease_Inl)
    fix as
    assume as: "s' = s\<lparr>sb_audit := sb_audit s @ as\<rparr>" "set as \<subseteq> {(i, LaExpired)}"
    then have "count_list as (j, LaRedeemed) = 0"
      by (auto simp: count_list_0_iff)
    with as v show ?thesis
      by (intro keptI [of _ _ as]) (auto intro!: exI [of _ "sl_remaining_uses _"])
  qed
next
  case (Inr l')
  then obtain s' where v: "validate_lease now i g d v fs s = (Inr l', s')"
    by (metis prod.collapse)
  then obtain l where l: "bget (sb_leases s) i = Some l" "sl_remaining_uses l \<noteq> 0"
    "l' = l\<lparr>sl_remaining_uses := sl_remaining_uses l - 1\<rparr>"
    "s' = s\<lparr>sb_leases := binsert i l' (sb_leases s), sb_audit := sb_audit s @ [(i, LaRedeemed)]\<rparr>"
    by (rule validate_lease_Inr)
  show ?thesis
  proof (cases "j = i")
    case True
    with v l show ?thesis
      by (intro keptI [of _ _ "[(i, LaRedeemed)]"]) (auto simp: unat_minus_one_use intro!: exI [of _ "sl_remaining_uses l - 1"])
  next
    case False
    with v l show ?thesis
      by (intro keptI [of _ _ "[(i, LaRedeemed)]"]) (auto intro!: exI [of _ "sl_remaining_uses _"])
  qed
qed

lemma kept_put: "kept R i s (snd (put_credential port c fs s))"
proof (cases "cs_put port c fs (sb_store s)")
  case (Pair r st)
  have "kept R i s (s\<lparr>sb_store := st\<rparr>)" if "fs \<noteq> []" "r = Inl e" for e
    using that Pair put_frame by (intro kept_store) auto
  moreover have "kept R i s (revoke_where (\<lambda>l. sl_credential l = c) (s\<lparr>sb_store := st\<rparr>))" if "fs \<noteq> []"
    using that Pair put_frame by (intro kept_revoke_where) auto
  ultimately show ?thesis
    using Pair by (cases r) (auto simp: put_credential_def validate_fields_def Let_def kept_idle)
qed

lemma kept_delete: "kept R i s (snd (delete_credential port c s))"
proof (cases "cs_delete port c (sb_store s)")
  case (Pair r st)
  have "kept R i s (s\<lparr>sb_store := st\<rparr>)" if "r = Inl e" for e
    using that Pair delete_frame by (intro kept_store) auto
  moreover have "kept R i s (revoke_where (\<lambda>l. sl_credential l = c) (s\<lparr>sb_store := st, sb_metadata := m\<rparr>))" for m
    using Pair delete_frame by (intro kept_revoke_where) auto
  ultimately show ?thesis
    using Pair by (cases r) (auto simp: delete_credential_def)
qed

lemma kept_step: "secret_step p port s s' \<Longrightarrow> kept R i s s'"
proof (induction rule: secret_step.induct)
  case (step_create s random fs)
  then show ?case
    by (auto simp: create_credential_def kept_put kept_idle split: option.split sum.split)
next
  case (step_redeem_scoped s now r)
  then show ?case
    using kept_validate_lease [of i s now "rq_lease_id r" "rq_audience_generation r" "Some (rq_decision_id r)"
        "Some (rq_invocation_id r)" "rq_requested_fields r"]
    by (auto simp: redeem_scoped_def split: prod.split sum.split)
next
  case (step_redeem s now j g)
  then show ?case
    using kept_validate_lease [of i s now j g None None "[]"] by (auto simp: redeem_def split: prod.split sum.split)
next
  case (step_revoke s j)
  then show ?case
    using kept_fold_revoke [of s s i "[j]"] by simp
qed (auto simp: restore_credential_metadata_def issue_def issue_scoped_def revoke_generation_def revoke_run_def
    kept_put kept_delete kept_idle kept_insert_lease intro: kept_revoke_where split: option.split sum.split)

lemma kept_run: "secret_run p port s s' \<Longrightarrow> kept R i s s'"
  by (induction rule: rtranclp_induct) (auto intro: kept_idle kept_trans kept_step)

end

text \<open>
  Over any store at all; and over a store that keeps the contract: a successful write is what is read
  afterwards, a failed one changes nothing, and no operation touches other credentials. The broker
  never writes an empty secret.
\<close>

interpretation any_store: store_frame port "\<lambda>_ _ _. True" for port
  by unfold_locales simp_all

locale credential_store =
  fixes port :: "'c credential_store_port"
  assumes put_reads: "cs_put port c fs st = (Inr u, st') \<Longrightarrow> fs \<noteq> [] \<Longrightarrow> cs_retrieve port c st' = Inr fs"
    and put_elsewhere: "cs_put port c fs st = (r, st') \<Longrightarrow> fs \<noteq> [] \<Longrightarrow> d \<noteq> c \<Longrightarrow> cs_retrieve port d st' = cs_retrieve port d st"
    and put_fails: "cs_put port c fs st = (Inl e, st') \<Longrightarrow> fs \<noteq> [] \<Longrightarrow> cs_retrieve port c st' = cs_retrieve port c st"
    and delete_elsewhere: "cs_delete port c st = (r, st') \<Longrightarrow> d \<noteq> c \<Longrightarrow> cs_retrieve port d st' = cs_retrieve port d st"
    and delete_fails: "cs_delete port c st = (Inl e, st') \<Longrightarrow> cs_retrieve port c st' = cs_retrieve port c st"

sublocale credential_store \<subseteq> frame: store_frame port "\<lambda>d st st'. cs_retrieve port d st' = cs_retrieve port d st"
proof
  fix c fs st r st' d
  show "cs_retrieve port d st' = cs_retrieve port d st"
    if "cs_put port c fs st = (r, st')" "fs \<noteq> []" "d \<noteq> c \<or> \<not> is_ok r"
    using that put_elsewhere put_fails by (cases "d = c"; cases r) auto
  show "cs_retrieve port d st' = cs_retrieve port d st"
    if "cs_delete port c st = (r, st')" "d \<noteq> c \<or> \<not> is_ok r"
    using that delete_elsewhere delete_fails by (cases "d = c"; cases r) auto
qed simp_all

context credential_store
begin

lemma lease_secret_kept:
  assumes "bget (sb_leases s1) i = Some l" "sl_lease_id l = i"
    and "secret_run p port s1 s2" "sb_audit s2 = sb_audit s1 @ as" "(i, LaRevoked) \<notin> set as"
  shows "cs_retrieve port (sl_credential l) (sb_store s2) = cs_retrieve port (sl_credential l) (sb_store s1)"
  by (rule keptD [OF frame.kept_run [OF assms(3)] assms(4) assms(1,2,5)])

end

lemma redeemed_as_issued:
  assumes issued: "bget (sb_leases s1) i = Some l" "sl_lease_id l = i"
    and run: "secret_run p port s1 s2" "sb_audit s2 = sb_audit s1 @ as" "(i, LaRevoked) \<notin> set as"
    and redeemed: "redeem_scoped port now r s2 = (Inr d, s3)" "rq_lease_id r = i"
  obtains fs where "now < sl_expires_at l" "sl_audience_generation l = rq_audience_generation r"
    "sl_decision_id l = Some (rq_decision_id r)" "sl_invocation_id l = Some (rq_invocation_id r)"
    "set (rq_requested_fields r) \<subseteq> set (sl_permitted_fields l)"
    "count_list as (i, LaRedeemed) < unat (sl_remaining_uses l)"
    "cs_retrieve port (sl_credential l) (sb_store s2) = Inr fs" "select_fields fs (rq_requested_fields r) = Inr d"
proof -
  obtain n where n: "bget (sb_leases s2) i = Some (l\<lparr>sl_remaining_uses := n\<rparr>)"
    "unat n + count_list as (i, LaRedeemed) = unat (sl_remaining_uses l)"
    by (rule keptD [OF any_store.kept_run [OF run(1)] run(2) issued run(3)])
  from redeemed obtain l' where v: "validate_lease now i (rq_audience_generation r) (Some (rq_decision_id r))
      (Some (rq_invocation_id r)) (rq_requested_fields r) s2 = (Inr l', s3)"
    and d: "bind_r (cs_retrieve port (sl_credential l') (sb_store s3)) (\<lambda>secret. select_fields secret (rq_requested_fields r)) = Inr d"
    by (auto simp: redeem_scoped_def split: prod.splits sum.splits)
  from v show thesis
  proof (rule validate_lease_Inr)
    fix k
    assume "bget (sb_leases s2) i = Some k" "now < sl_expires_at k" "sl_remaining_uses k \<noteq> 0"
      "sl_audience_generation k = rq_audience_generation r" "sl_decision_id k = Some (rq_decision_id r)"
      "sl_invocation_id k = Some (rq_invocation_id r)" "set (rq_requested_fields r) \<subseteq> set (sl_permitted_fields k)"
      "l' = k\<lparr>sl_remaining_uses := sl_remaining_uses k - 1\<rparr>"
      "s3 = s2\<lparr>sb_leases := binsert i l' (sb_leases s2), sb_audit := sb_audit s2 @ [(i, LaRedeemed)]\<rparr>"
    then show thesis
      using n d that by (auto simp: bind_r_Inr unat_gt_0 [symmetric])
  qed
qed

interpretation memory_credentials: credential_store memory_credential_store
  by unfold_locales
     (auto simp: memory_credential_store_def memory_put_def memory_retrieve_def memory_delete_def ok_or_Inr bcontains_def
       split: if_splits)

text \<open>
  The native store meets the contract over a keyring that keeps what it is given. The read after
  the write then never disagrees.
\<close>

definition lawful_keyring :: "('e, 'k) keyring \<Rightarrow> bool" where
  "lawful_keyring kr \<longleftrightarrow>
     (\<forall>c d e. kr_entry_new kr SERVICE_NAME c = Inr e \<longrightarrow> kr_entry_new kr SERVICE_NAME d = Inr e \<longrightarrow> c = d)
   \<and> (\<forall>e b k u k'. kr_set_secret kr e b k = (Inr u, k') \<longrightarrow> kr_get_secret kr e k' = Inr b)
   \<and> (\<forall>e b k x k'. kr_set_secret kr e b k = (Inl x, k') \<longrightarrow> kr_get_secret kr e k' = kr_get_secret kr e k)
   \<and> (\<forall>e b k r k'. kr_set_secret kr e b k = (r, k') \<longrightarrow>
        kr_store_status kr k' = kr_store_status kr k \<and> (\<forall>e'. e' \<noteq> e \<longrightarrow> kr_get_secret kr e' k' = kr_get_secret kr e' k))
   \<and> (\<forall>e k x k'. kr_delete_credential kr e k = (Inl x, k') \<longrightarrow> kr_get_secret kr e k' = kr_get_secret kr e k)
   \<and> (\<forall>e k r k'. kr_delete_credential kr e k = (r, k') \<longrightarrow>
        kr_store_status kr k' = kr_store_status kr k \<and> (\<forall>e'. e' \<noteq> e \<longrightarrow> kr_get_secret kr e' k' = kr_get_secret kr e' k))
   \<and> (\<forall>x b. kr_to_vec kr x = Some b \<longrightarrow> kr_from_slice kr b = Some x)"

lemma native_entry_cong: "kr_store_status kr k' = kr_store_status kr k \<Longrightarrow> native_entry kr c k' = native_entry kr c k"
  by (simp add: native_entry_def validate_access_control_def native_store_status_def)

lemma native_entry_Inr: "native_entry kr c k = Inr e \<Longrightarrow> kr_entry_new kr SERVICE_NAME c = Inr e"
  by (cases "kr_entry_new kr SERVICE_NAME c") (auto simp: native_entry_def bind_r_Inr)

lemma native_retrieve_cong:
  assumes "kr_store_status kr k' = kr_store_status kr k"
    and "\<And>e. native_entry kr c k = Inr e \<Longrightarrow> kr_get_secret kr e k' = kr_get_secret kr e k"
  shows "native_retrieve kr c k' = native_retrieve kr c k"
  using assms(2) native_entry_cong [OF assms(1)]
  by (cases "native_entry kr c k") (simp_all add: native_retrieve_def)

lemma native_put_cases:
  assumes "lawful_keyring kr" and "native_put kr c fs k = (r, k')"
  obtains "k' = k" "\<not> is_ok r"
  | e b where "native_entry kr c k = Inr e" "kr_set_secret kr e b k = (Inr (), k')" "r = Inr ()"
      "kr_to_vec kr \<lparr>sc_version = PAYLOAD_VERSION, sc_fields = fs\<rparr> = Some b"
  | e b x where "native_entry kr c k = Inr e" "kr_set_secret kr e b k = (Inl x, k')" "\<not> is_ok r"
proof (cases "kr_to_vec kr \<lparr>sc_version = PAYLOAD_VERSION, sc_fields = fs\<rparr>")
  case (Some b)
  show thesis
  proof (cases "native_entry kr c k")
    case (Inr e)
    obtain q k1 where s: "kr_set_secret kr e b k = (q, k1)"
      by (cases "kr_set_secret kr e b k")
    show thesis
    proof (cases q)
      case (Inr u)
      with s assms(1) have "kr_get_secret kr e k1 = Inr b"
        by (auto simp: lawful_keyring_def)
      with Some s Inr \<open>native_entry kr c k = Inr e\<close> assms(2) that(2) show thesis
        by (simp add: native_put_def)
    next
      case (Inl x)
      with Some s \<open>native_entry kr c k = Inr e\<close> assms(2) have "k' = k1" "r = Inl (map_store_error x)"
        by (simp_all add: native_put_def)
      with s Inl \<open>native_entry kr c k = Inr e\<close> that(3) show thesis
        by simp
    qed
  qed (use Some assms(2) that(1) in \<open>auto simp: native_put_def\<close>)
qed (use assms(2) that(1) in \<open>auto simp: native_put_def\<close>)

lemma lawful_keyring_elsewhere:
  assumes "lawful_keyring kr" and "native_entry kr c k = Inr e" and "kr_set_secret kr e b k = (r, k') \<or> kr_delete_credential kr e k = (r, k')"
    and "d \<noteq> c"
  shows "native_retrieve kr d k' = native_retrieve kr d k"
proof (rule native_retrieve_cong)
  show "kr_store_status kr k' = kr_store_status kr k"
    using assms(1,3) unfolding lawful_keyring_def by blast
  show "kr_get_secret kr f k' = kr_get_secret kr f k" if "native_entry kr d k = Inr f" for f
  proof -
    have "f \<noteq> e"
      using assms(1,2,4) native_entry_Inr that unfolding lawful_keyring_def by metis
    then show ?thesis
      using assms(1,3) unfolding lawful_keyring_def by blast
  qed
qed

lemma lawful_keyring_fails:
  assumes "lawful_keyring kr" and "native_entry kr c k = Inr e" and "kr_set_secret kr e b k = (Inl x, k') \<or> kr_delete_credential kr e k = (Inl x, k')"
  shows "native_retrieve kr c k' = native_retrieve kr c k"
proof (rule native_retrieve_cong)
  show "kr_store_status kr k' = kr_store_status kr k"
    using assms(1,3) unfolding lawful_keyring_def by blast
  show "kr_get_secret kr f k' = kr_get_secret kr f k" if "native_entry kr c k = Inr f" for f
    using assms that unfolding lawful_keyring_def by (metis sum.inject(2))
qed

lemma native_delete_cases:
  assumes "native_delete kr c k = (r, k')"
  obtains "k' = k" "\<not> is_ok r"
  | e q where "native_entry kr c k = Inr e" "kr_delete_credential kr e k = (q, k')" "is_ok q \<longleftrightarrow> is_ok r"
  using assms by (auto simp: native_delete_def split: sum.splits prod.splits)

lemma native_store_lawful:
  assumes "lawful_keyring kr"
  shows "credential_store (native_credential_store kr)"
proof (unfold_locales, unfold native_credential_store_def credential_store_port.simps)
  fix c fs k r k' d u e
  show "native_retrieve kr c k' = Inr fs" if "native_put kr c fs k = (Inr u, k')" "fs \<noteq> []"
  proof (rule native_put_cases [OF assms that(1)])
    fix e b
    assume b: "native_entry kr c k = Inr e" "kr_set_secret kr e b k = (Inr (), k')"
      "kr_to_vec kr \<lparr>sc_version = PAYLOAD_VERSION, sc_fields = fs\<rparr> = Some b"
    then have "kr_get_secret kr e k' = Inr b" "kr_store_status kr k' = kr_store_status kr k"
      "kr_from_slice kr b = Some \<lparr>sc_version = PAYLOAD_VERSION, sc_fields = fs\<rparr>"
      using assms unfolding lawful_keyring_def by metis+
    moreover from this have "native_entry kr c k' = Inr e"
      using b native_entry_cong by metis
    ultimately show ?thesis
      using that(2) by (simp add: native_retrieve_def)
  qed simp_all
  show "native_retrieve kr d k' = native_retrieve kr d k" if "native_put kr c fs k = (r, k')" "d \<noteq> c"
    by (rule native_put_cases [OF assms that(1)]) (auto intro: lawful_keyring_elsewhere [OF assms _ _ that(2)])
  show "native_retrieve kr c k' = native_retrieve kr c k" if "native_put kr c fs k = (Inl e, k')"
    by (rule native_put_cases [OF assms that(1)]) (auto intro: lawful_keyring_fails [OF assms])
  show "native_retrieve kr d k' = native_retrieve kr d k" if "native_delete kr c k = (r, k')" "d \<noteq> c"
    by (rule native_delete_cases [OF that(1)]) (auto intro: lawful_keyring_elsewhere [OF assms _ _ that(2)])
  show "native_retrieve kr c k' = native_retrieve kr c k" if "native_delete kr c k = (Inl e, k')"
  proof (rule native_delete_cases [OF that])
    fix f q
    assume "native_entry kr c k = Inr f" "kr_delete_credential kr f k = (q, k')" "is_ok q \<longleftrightarrow> is_ok (Inl e :: secret_error + unit)"
    then show ?thesis
      by (cases q) (auto intro: lawful_keyring_fails [OF assms])
  qed simp
qed

section \<open>Leases are redeemed as issued\<close>

lemma select_fields_Inr:
  "select_fields fs names = Inr d \<longleftrightarrow> d = map (\<lambda>f. (f, the (bget fs f))) names \<and> set names \<subseteq> dom (bget fs)"
  by (induction names arbitrary: d) (auto simp: bind_r_Inr ok_or_Inr)

text \<open>
  C15. A lease is redeemed as it was issued. After a lease is issued under a new identity, in any run of other operations
  that does not revoke it, a redemption that delivers comes before the lease expires, at most fifteen minutes after it
  was issued, from the generation, for the decision and for the invocation it was issued for, and asks only for
  permitted fields; fewer redemptions than the uses it was issued for come before it; and it delivers for every field it
  asks for the value that the store holds at that time. All this is over any store. If the store keeps the contract of
  \<open>credential_store\<close>, above all that a write or deletion it reports as failed has changed nothing, this is also what the
  store held when the lease was issued. The store in memory keeps the contract; the native store does over a keyring that
  returns what was written, and breaks it when the value read back after a write differs or cannot be read.
\<close>

theorem lease_redeemed_as_issued:
  assumes "\<And>a t b. sp_checked_add p a t = Some b \<Longrightarrow> b = a + t"
    and "issue_scoped p start q s = (Inr l, s1)" and "bget (sb_leases s) (lq_lease_id q) = None"
    and "secret_run p port s1 s2" and "sb_audit s2 = sb_audit s1 @ as" and "(lq_lease_id q, LaRevoked) \<notin> set as"
    and "redeem_scoped port now r s2 = (Inr d, s3)" and "rq_lease_id r = lq_lease_id q"
  shows "now < start + lq_ttl q \<and> lq_ttl q \<le> 15 * 60 * 1000000000
    \<and> rq_audience_generation r = lq_audience_generation q \<and> rq_decision_id r = lq_decision_id q
    \<and> rq_invocation_id r = lq_invocation_id q \<and> set (rq_requested_fields r) \<subseteq> set (lq_permitted_fields q)
    \<and> count_list as (lq_lease_id q, LaRedeemed) < unat (lq_maximum_uses q)
    \<and> (\<exists>fs. cs_retrieve port (lq_credential q) (sb_store s2) = Inr fs \<and> set (rq_requested_fields r) \<subseteq> dom (bget fs)
         \<and> d = map (\<lambda>f. (f, the (bget fs f))) (rq_requested_fields r))
    \<and> (credential_store port \<longrightarrow>
         cs_retrieve port (lq_credential q) (sb_store s2) = cs_retrieve port (lq_credential q) (sb_store s))"
proof -
  have l: "bget (sb_leases s1) (lq_lease_id q) = Some l" "sl_lease_id l = lq_lease_id q" "sb_store s1 = sb_store s"
    "sl_expires_at l = start + lq_ttl q" "lq_ttl q \<le> MAX_LEASE_TTL" "sl_audience_generation l = lq_audience_generation q"
    "sl_decision_id l = Some (lq_decision_id q)" "sl_invocation_id l = Some (lq_invocation_id q)"
    "sl_permitted_fields l = lq_permitted_fields q" "sl_remaining_uses l = lq_maximum_uses q" "sl_credential l = lq_credential q"
    using assms(2,3) by (auto simp: issue_scoped_def insert_lease_def dest: assms(1) split: sum.splits option.splits if_splits)
  have kept: "credential_store port \<Longrightarrow> cs_retrieve port (lq_credential q) (sb_store s2) = cs_retrieve port (lq_credential q) (sb_store s)"
    using credential_store.lease_secret_kept [OF _ l(1,2) assms(4-6)] l(3,11) by simp
  show ?thesis
    by (rule redeemed_as_issued [OF l(1,2) assms(4-8)]) (use l kept in \<open>simp add: MAX_LEASE_TTL_def select_fields_Inr\<close>)
qed

definition demo_secret_platform :: secret_platform where
  "demo_secret_platform = \<lparr>sp_checked_add = (\<lambda>a t. Some (a + t)), sp_identity_to_vec = (\<lambda>_. ''identity''), sp_sha = (\<lambda>_. ''00'')\<rparr>"

definition demo_secrets :: "memory_credentials secret_broker" where
  "demo_secrets = snd (put_credential memory_credential_store ''credential.a'' [(''token'', ''t0''), (''user'', ''u0'')] (with_store []))"

definition demo_lease_request :: scoped_lease_request where
  "demo_lease_request = \<lparr>lq_lease_id = ''lease.a'', lq_credential = ''credential.a'', lq_decision_id = ''decision.a'',
     lq_invocation_id = ''invocation.a'', lq_run_id = ''run.a'', lq_audience_generation = 7, lq_permitted_fields = [''token''],
     lq_ttl = 60 * 1000000000, lq_maximum_uses = 2\<rparr>"

definition demo_redeem_request :: redeem_lease_request where
  "demo_redeem_request = \<lparr>rq_lease_id = ''lease.a'', rq_decision_id = ''decision.a'', rq_invocation_id = ''invocation.a'',
     rq_audience_generation = 7, rq_requested_fields = [''token'']\<rparr>"

definition demo_issued :: "memory_credentials secret_broker" where
  "demo_issued = snd (issue_scoped demo_secret_platform 0 demo_lease_request demo_secrets)"

definition demo_redeemed :: "memory_credentials secret_broker" where
  "demo_redeemed = snd (redeem_scoped memory_credential_store 5 demo_redeem_request demo_issued)"

lemma demo_secrets_eval [code]:
  "demo_secrets = \<lparr>sb_store = [(''credential.a'', [(''token'', ''t0''), (''user'', ''u0'')])],
     sb_metadata = [(''credential.a'', \<lparr>cm_credential = ''credential.a'', cm_field_names = [''token'', ''user''], cm_revision = 1\<rparr>)],
     sb_leases = [], sb_audit = []\<rparr>"
proof -
  have "list_all field_byte (''token'' @ ''user'')"
    by code_simp
  then show ?thesis
    by (simp add: demo_secrets_def put_credential_def validate_fields_def with_store_def memory_credential_store_def
        memory_put_def revoke_where_def Let_def)
qed

theorem lease_redeemed_as_issued_witness:
  "(5 :: instant) < 0 + lq_ttl demo_lease_request \<and> count_list [(''lease.a'', LaRedeemed)] (''lease.a'', LaRedeemed) < unat (lq_maximum_uses demo_lease_request)
   \<and> fst (redeem_scoped memory_credential_store 5 demo_redeem_request demo_redeemed) = Inr [(''token'', ''t0'')]
   \<and> fst (redeem_scoped memory_credential_store 5 demo_redeem_request
       (snd (redeem_scoped memory_credential_store 5 demo_redeem_request demo_redeemed))) = Inl SeUsed
   \<and> cs_retrieve memory_credential_store (lq_credential demo_lease_request) (sb_store demo_redeemed)
      = cs_retrieve memory_credential_store (lq_credential demo_lease_request) (sb_store demo_secrets)"
proof -
  have "is_ok (fst (issue_scoped demo_secret_platform 0 demo_lease_request demo_secrets))"
    by code_simp
  then obtain l where issued: "issue_scoped demo_secret_platform 0 demo_lease_request demo_secrets = (Inr l, demo_issued)"
    unfolding demo_issued_def by (metis is_okE prod.collapse)
  have audit: "sb_audit demo_redeemed = sb_audit demo_issued @ [(''lease.a'', LaRedeemed)]"
    by code_simp
  have redeemed: "fst (redeem_scoped memory_credential_store 5 demo_redeem_request demo_redeemed) = Inr [(''token'', ''t0'')]"
    by code_simp
  have used: "fst (redeem_scoped memory_credential_store 5 demo_redeem_request
      (snd (redeem_scoped memory_credential_store 5 demo_redeem_request demo_redeemed))) = Inl SeUsed"
    by code_simp
  obtain s3 where third: "redeem_scoped memory_credential_store 5 demo_redeem_request demo_redeemed = (Inr [(''token'', ''t0'')], s3)"
    using redeemed by (metis prod.collapse)
  have "secret_run demo_secret_platform memory_credential_store demo_issued demo_redeemed"
    unfolding demo_redeemed_def by (rule r_into_rtranclp) (rule step_redeem_scoped)
  note run = this
  have h: "sp_checked_add demo_secret_platform a t = Some b \<Longrightarrow> b = a + t" "bget (sb_leases demo_secrets) (lq_lease_id demo_lease_request) = None"
    "(lq_lease_id demo_lease_request, LaRevoked) \<notin> set [(''lease.a'', LaRedeemed)]"
    "rq_lease_id demo_redeem_request = lq_lease_id demo_lease_request" "lq_lease_id demo_lease_request = ''lease.a''" for a t b
    by (simp_all add: demo_secret_platform_def demo_lease_request_def demo_redeem_request_def demo_secrets_eval)
  note lease = lease_redeemed_as_issued [OF h(1) issued h(2) run audit h(3) third h(4)]
  then have "(5 :: instant) < 0 + lq_ttl demo_lease_request"
    "count_list [(''lease.a'', LaRedeemed)] (''lease.a'', LaRedeemed) < unat (lq_maximum_uses demo_lease_request)"
    unfolding h(5) by blast+
  moreover have "cs_retrieve memory_credential_store (lq_credential demo_lease_request) (sb_store demo_redeemed)
      = cs_retrieve memory_credential_store (lq_credential demo_lease_request) (sb_store demo_secrets)"
    using lease memory_credentials.credential_store_axioms by blast
  ultimately show ?thesis
    using redeemed used by blast
qed

section \<open>Revocation is complete\<close>

text \<open>
  Leases are kept under their own identity, for no more than the maximum of uses, and a scoped
  lease permits only fields of the credential as it is now.
\<close>

definition lease_ok :: "(string, credential_metadata) bmap \<Rightarrow> string \<Rightarrow> secret_lease \<Rightarrow> bool" where
  "lease_ok ms k l \<longleftrightarrow> sl_lease_id l = k \<and> sl_remaining_uses l \<le> MAX_LEASE_USES
     \<and> (sl_decision_id l \<noteq> None \<longrightarrow>
          (\<exists>m. bget ms (sl_credential l) = Some m \<and> set (sl_permitted_fields l) \<subseteq> set (cm_field_names m)))"

definition secrets_inv :: "'c secret_broker \<Rightarrow> bool" where
  "secrets_inv s \<longleftrightarrow> bforall (lease_ok (sb_metadata s)) (sb_leases s)"

lemma secrets_inv_shrink:
  assumes "secrets_inv s"
    and "\<And>k l. bget (sb_leases t) k = Some l \<Longrightarrow> bget (sb_leases s) k = Some l
      \<and> (sl_lease_id l = k \<longrightarrow> bget (sb_metadata t) (sl_credential l) = bget (sb_metadata s) (sl_credential l))"
  shows "secrets_inv t"
  unfolding secrets_inv_def
proof (rule bforallI)
  fix k l
  assume "bget (sb_leases t) k = Some l"
  with assms show "lease_ok (sb_metadata t) k l"
    by (auto simp: secrets_inv_def lease_ok_def dest!: bforallD)
qed

lemma revoke_where_gone:
  assumes "secrets_inv s" and "sb_leases t = sb_leases s" and "bget (sb_leases (revoke_where P t)) k = Some l"
  shows "bget (sb_leases s) k = Some l \<and> \<not> P l"
proof -
  have l: "bget (sb_leases s) k = Some l" "\<not> (\<exists>l \<in> set (bvalues (sb_leases s)). P l \<and> sl_lease_id l = k)"
    using assms(2,3) by (auto split: if_splits)
  then have "sl_lease_id l = k"
    using assms(1) by (auto simp: secrets_inv_def lease_ok_def dest: bforallD)
  with l show ?thesis
    using bget_in_values by fastforce
qed

lemma secrets_inv_put:
  assumes "secrets_inv s"
  shows "secrets_inv (snd (put_credential port c fs s))"
proof (cases "cs_put port c fs (sb_store s)")
  case (Pair r st)
  let ?t = "revoke_where (\<lambda>l. sl_credential l = c) (s\<lparr>sb_store := st\<rparr>)"
  have "secrets_inv (s\<lparr>sb_store := st\<rparr>)"
    using assms by (simp add: secrets_inv_def)
  moreover have "secrets_inv (?t\<lparr>sb_metadata := binsert c m (sb_metadata ?t)\<rparr>)" for m
  proof (rule secrets_inv_shrink [OF assms])
    fix k l
    assume "bget (sb_leases (?t\<lparr>sb_metadata := binsert c m (sb_metadata ?t)\<rparr>)) k = Some l"
    then have "bget (sb_leases s) k = Some l \<and> sl_credential l \<noteq> c"
      using revoke_where_gone [OF assms, of "s\<lparr>sb_store := st\<rparr>" "\<lambda>l. sl_credential l = c" k l] by (simp del: revoke_where_simps)
    then show "bget (sb_leases s) k = Some l \<and> (sl_lease_id l = k \<longrightarrow>
        bget (sb_metadata (?t\<lparr>sb_metadata := binsert c m (sb_metadata ?t)\<rparr>)) (sl_credential l) = bget (sb_metadata s) (sl_credential l))"
      by simp
  qed
  ultimately show ?thesis
    using Pair assms by (auto simp: put_credential_def Let_def split: sum.split)
qed

lemma secrets_inv_delete:
  assumes "secrets_inv s"
  shows "secrets_inv (snd (delete_credential port c s))"
proof (cases "cs_delete port c (sb_store s)")
  case (Pair r st)
  let ?t = "s\<lparr>sb_store := st, sb_metadata := bremove c (sb_metadata s)\<rparr>"
  have "secrets_inv (s\<lparr>sb_store := st\<rparr>)"
    using assms by (simp add: secrets_inv_def)
  moreover have "secrets_inv (revoke_where (\<lambda>l. sl_credential l = c) ?t)"
  proof (rule secrets_inv_shrink [OF assms])
    fix k l
    assume "bget (sb_leases (revoke_where (\<lambda>l. sl_credential l = c) ?t)) k = Some l"
    then have "bget (sb_leases s) k = Some l \<and> sl_credential l \<noteq> c"
      using revoke_where_gone [OF assms, of ?t "\<lambda>l. sl_credential l = c" k l] by (simp del: revoke_where_simps)
    then show "bget (sb_leases s) k = Some l \<and> (sl_lease_id l = k \<longrightarrow>
        bget (sb_metadata (revoke_where (\<lambda>l. sl_credential l = c) ?t)) (sl_credential l) = bget (sb_metadata s) (sl_credential l))"
      by simp
  qed
  ultimately show ?thesis
    using Pair by (auto simp: delete_credential_def split: sum.split)
qed

lemma secrets_inv_insert_lease:
  assumes "secrets_inv s" and "lease_ok (sb_metadata s) (sl_lease_id l) l"
  shows "secrets_inv (snd (insert_lease l s))"
  using assms by (auto simp: insert_lease_def secrets_inv_def split: option.split intro: bforall_mono)

lemma secrets_inv_validate:
  assumes "secrets_inv s"
  shows "secrets_inv (snd (validate_lease now i g d v fs s))"
proof (cases "fst (validate_lease now i g d v fs s)")
  case (Inl e)
  then obtain s' where v: "validate_lease now i g d v fs s = (Inl e, s')"
    by (metis prod.collapse)
  then show ?thesis
    by (rule validate_lease_Inl) (use v assms in \<open>simp add: secrets_inv_def\<close>)
next
  case (Inr l')
  then obtain s' where v: "validate_lease now i g d v fs s = (Inr l', s')"
    by (metis prod.collapse)
  then obtain l where l: "bget (sb_leases s) i = Some l" "sl_remaining_uses l \<noteq> 0"
    "l' = l\<lparr>sl_remaining_uses := sl_remaining_uses l - 1\<rparr>"
    "s' = s\<lparr>sb_leases := binsert i l' (sb_leases s), sb_audit := sb_audit s @ [(i, LaRedeemed)]\<rparr>"
    by (rule validate_lease_Inr)
  have "sl_remaining_uses l - 1 \<le> sl_remaining_uses l"
    using unat_minus_one_use [OF l(2)] by (simp add: word_le_nat_alt)
  moreover have "lease_ok (sb_metadata s) i l"
    using assms l(1) by (auto simp: secrets_inv_def dest: bforallD)
  ultimately have "lease_ok (sb_metadata s) i l'"
    using l(3) by (auto simp: lease_ok_def)
  with assms l v show ?thesis
    by (auto simp: secrets_inv_def intro: bforall_mono)
qed

lemma secrets_inv_restore:
  assumes "secrets_inv s"
  shows "secrets_inv (snd (restore_credential_metadata m s))"
  using assms
  by (auto simp: restore_credential_metadata_def secrets_inv_def lease_ok_def split: sum.split option.split elim!: bforall_mono)

lemma secrets_inv_issue:
  assumes "secrets_inv s"
  shows "secrets_inv (snd (issue p now i c g ttl s))"
  using assms by (auto simp: issue_def lease_ok_def MAX_LEASE_USES_def intro!: secrets_inv_insert_lease split: option.split)

lemma secrets_inv_issue_scoped:
  assumes "secrets_inv s"
  shows "secrets_inv (snd (issue_scoped p now q s))"
  using assms by (auto simp: issue_scoped_def lease_ok_def list_all_iff intro!: secrets_inv_insert_lease split: option.split sum.split)

lemma secrets_inv_revoke: "secrets_inv s \<Longrightarrow> secrets_inv (fold revoke is s)"
  by (erule secrets_inv_shrink) (auto split: if_splits)

lemma secrets_inv_step: "secret_step p port s s' \<Longrightarrow> secrets_inv s \<Longrightarrow> secrets_inv s'"
proof (induction rule: secret_step.induct)
  case (step_create s random fs)
  then show ?case
    by (auto simp: create_credential_def secrets_inv_put split: option.split sum.split)
next
  case (step_redeem_scoped s now r)
  then show ?case
    using secrets_inv_validate [of s now "rq_lease_id r" "rq_audience_generation r" "Some (rq_decision_id r)"
        "Some (rq_invocation_id r)" "rq_requested_fields r"]
    by (auto simp: redeem_scoped_def split: prod.split sum.split)
next
  case (step_redeem s now j g)
  then show ?case
    using secrets_inv_validate [of s now j g None None "[]"] by (auto simp: redeem_def split: prod.split sum.split)
next
  case (step_revoke s j)
  then show ?case
    using secrets_inv_revoke [of s "[j]"] by simp
qed (simp_all add: secrets_inv_put secrets_inv_delete secrets_inv_restore secrets_inv_issue secrets_inv_issue_scoped
    secrets_inv_revoke revoke_generation_def revoke_run_def revoke_where_def)

interpretation secret_broker_runs: inv_system "secret_step p port" secrets_inv for p port
  by unfold_locales (rule secrets_inv_step)

lemma secrets_inv_with_store: "secrets_inv (with_store st)"
  by (simp add: secrets_inv_def with_store_def)

lemmas reachable_secrets = secret_broker_runs.steps_inv [OF _ secrets_inv_with_store]

text \<open>
  C33. Revocation is complete. In every state a broker reaches, and over any store, no lease remains of a revoked
  generation or run, nor of a credential that was replaced or deleted; and a scoped redemption that delivers uses a lease
  the broker holds, which permits every field delivered, and all of whose permitted fields belong to the credential's
  current metadata.
\<close>

theorem revocation_complete:
  assumes "secret_run p port (with_store st) s"
  shows "(bget (sb_leases (revoke_generation g s)) i = Some l \<longrightarrow> sl_audience_generation l \<noteq> g)
    \<and> (bget (sb_leases (revoke_run run s)) i = Some l \<longrightarrow> sl_run_id l \<noteq> Some run)
    \<and> (put_credential port c fs s = (Inr m, t) \<longrightarrow> bget (sb_leases t) i = Some l \<longrightarrow> sl_credential l \<noteq> c)
    \<and> (delete_credential port c s = (Inr (), u) \<longrightarrow> bget (sb_leases u) i = Some l \<longrightarrow> sl_credential l \<noteq> c)
    \<and> (redeem_scoped port now r s = (Inr d, v) \<longrightarrow>
         (\<exists>k x. bget (sb_leases s) (rq_lease_id r) = Some k \<and> describe_credential s (sl_credential k) = Some x
            \<and> bkeys d = rq_requested_fields r \<and> set (bkeys d) \<subseteq> set (sl_permitted_fields k)
            \<and> set (sl_permitted_fields k) \<subseteq> set (cm_field_names x)))"
proof (intro conjI impI)
  have inv: "secrets_inv s"
    using assms by (rule reachable_secrets)
  note gone = revoke_where_gone [OF inv]
  show "sl_audience_generation l \<noteq> g" if "bget (sb_leases (revoke_generation g s)) i = Some l"
    using gone [OF refl that [unfolded revoke_generation_def]] by simp
  show "sl_run_id l \<noteq> Some run" if "bget (sb_leases (revoke_run run s)) i = Some l"
    using gone [OF refl that [unfolded revoke_run_def]] by simp
  show "sl_credential l \<noteq> c" if "put_credential port c fs s = (Inr m, t)" "bget (sb_leases t) i = Some l"
  proof -
    let ?x = "snd (cs_put port c fs (sb_store s))"
    have "sb_leases t = sb_leases (revoke_where (\<lambda>l. sl_credential l = c) (s\<lparr>sb_store := ?x\<rparr>))"
      using that(1) by (auto simp: put_credential_def Let_def split: sum.splits prod.splits if_splits)
    then show ?thesis
      using gone [of "s\<lparr>sb_store := ?x\<rparr>" "\<lambda>l. sl_credential l = c" i l] that(2) by (simp del: revoke_where_simps)
  qed
  show "sl_credential l \<noteq> c" if "delete_credential port c s = (Inr (), u)" "bget (sb_leases u) i = Some l"
  proof -
    let ?x = "s\<lparr>sb_store := snd (cs_delete port c (sb_store s)), sb_metadata := bremove c (sb_metadata s)\<rparr>"
    have "sb_leases u = sb_leases (revoke_where (\<lambda>l. sl_credential l = c) ?x)"
      using that(1) by (auto simp: delete_credential_def split: sum.splits prod.splits)
    then show ?thesis
      using gone [of ?x "\<lambda>l. sl_credential l = c" i l] that(2) by (simp del: revoke_where_simps)
  qed
  assume "redeem_scoped port now r s = (Inr d, v)"
  then obtain l' where val: "validate_lease now (rq_lease_id r) (rq_audience_generation r) (Some (rq_decision_id r))
      (Some (rq_invocation_id r)) (rq_requested_fields r) s = (Inr l', v)"
    and d: "bind_r (cs_retrieve port (sl_credential l') (sb_store v)) (\<lambda>secret. select_fields secret (rq_requested_fields r)) = Inr d"
    by (auto simp: redeem_scoped_def split: prod.splits sum.splits)
  from val obtain k where k: "bget (sb_leases s) (rq_lease_id r) = Some k" "sl_decision_id k = Some (rq_decision_id r)"
    "set (rq_requested_fields r) \<subseteq> set (sl_permitted_fields k)"
    by (rule validate_lease_Inr)
  moreover have "bkeys d = rq_requested_fields r"
    using d by (auto simp: bind_r_Inr select_fields_Inr comp_def)
  ultimately show "\<exists>k x. bget (sb_leases s) (rq_lease_id r) = Some k \<and> describe_credential s (sl_credential k) = Some x
      \<and> bkeys d = rq_requested_fields r \<and> set (bkeys d) \<subseteq> set (sl_permitted_fields k)
      \<and> set (sl_permitted_fields k) \<subseteq> set (cm_field_names x)"
    using inv k(2) by (auto simp: secrets_inv_def lease_ok_def describe_credential_def dest!: bforallD)
qed

theorem revocation_complete_witness:
  "bget (sb_leases demo_issued) ''lease.a'' \<noteq> None \<and> bget (sb_leases (revoke_generation 7 demo_issued)) ''lease.a'' = None
   \<and> bget (sb_leases (revoke_generation 8 demo_issued)) ''lease.a'' \<noteq> None"
proof -
  have "secret_run demo_secret_platform memory_credential_store (with_store []) demo_issued"
    unfolding demo_issued_def demo_secrets_def
    by (meson rtranclp.rtrancl_into_rtrancl r_into_rtranclp step_put step_issue_scoped)
  note complete = revocation_complete [OF this, of 7 "''lease.a''" _ "''run.a''" "''credential.a''" "[]" _ _ _ 0 demo_redeem_request]
  have "bget (sb_leases (revoke_generation 7 demo_issued)) ''lease.a'' = None" (is "?x = None")
  proof (rule ccontr)
    assume "?x \<noteq> None"
    then obtain l where l: "?x = Some l"
      by auto
    then have "sl_audience_generation l \<noteq> 7"
      using complete by blast
    moreover have "map_option sl_audience_generation ?x \<in> {None, Some 7}"
      by code_simp
    ultimately show False
      using l by simp
  qed
  moreover have "map_option sl_audience_generation (bget (sb_leases demo_issued) ''lease.a'') = Some 7"
    by code_simp
  moreover have "map_option sl_audience_generation (bget (sb_leases (revoke_generation 8 demo_issued)) ''lease.a'') = Some 7"
    by code_simp
  ultimately show ?thesis
    by auto
qed

section \<open>Observations\<close>

text \<open>
  A store that reports a failure after it has written, as the native store does when the value it
  reads back differs, leaves the leases of the replaced credential in place: the lease issued for
  the old value delivers the new one.
\<close>

definition late_failing_store :: "memory_credentials credential_store_port" where
  "late_failing_store = memory_credential_store
     \<lparr>cs_put := \<lambda>credential fs m. (Inl SeStoreAccessControlInvalid, snd (memory_put credential fs m))\<rparr>"

lemma late_failing_put:
  "put_credential late_failing_store c [(''token'', ''t1'')] s =
     (Inl SeStoreAccessControlInvalid, s\<lparr>sb_store := binsert c [(''token'', ''t1'')] (sb_store s)\<rparr>)"
proof -
  have "list_all field_byte ''token''"
    by code_simp
  then show ?thesis
    by (simp add: put_credential_def validate_fields_def late_failing_store_def memory_put_def Let_def)
qed

lemma failed_rotation_served:
  "fst (redeem_scoped late_failing_store 5 demo_redeem_request
     (snd (put_credential late_failing_store ''credential.a'' [(''token'', ''t1'')] demo_issued))) = Inr [(''token'', ''t1'')]"
  unfolding late_failing_put by code_simp

text \<open>A use is spent although the store delivers nothing, here because the field is gone from it.\<close>

lemma failed_redemption_spends:
  "fst (redeem_scoped memory_credential_store 5 demo_redeem_request (demo_issued\<lparr>sb_store := []\<rparr>)) = Inl SeUnknownCredential"
  "map_option sl_remaining_uses (bget (sb_leases (snd (redeem_scoped memory_credential_store 5 demo_redeem_request
     (demo_issued\<lparr>sb_store := []\<rparr>)))) ''lease.a'') = Some 1"
  by code_simp+

text \<open>A reference made of 24 random bytes is always a valid identifier, so only the store can refuse it.\<close>

lemma format_byte_valid: "list_all stable_id_byte (format_byte b)" "length (format_byte b) = 2"
proof -
  have "list_all stable_id_byte ''0123456789abcdef''"
    by code_simp
  then have digit: "stable_id_byte (''0123456789abcdef'' ! n)" if "n < 16" for n
    using that unfolding list_all_length by (simp del: nth_Cons_numeral)
  have "byte b < 256"
    by (simp add: byte_def)
  then have "byte b div 16 < 16" "byte b mod 16 < 16"
    by simp_all
  with digit show "list_all stable_id_byte (format_byte b)" "length (format_byte b) = 2"
    by (simp_all add: format_byte_def)
qed

lemma create_credential_puts:
  assumes "length bytes = 24"
  shows "create_credential port (Some bytes) fs s = put_credential port (''credential.'' @ concat (map format_byte bytes)) fs s"
proof -
  have "length (concat (map format_byte bs)) = 2 * length bs \<and> list_all stable_id_byte (concat (map format_byte bs))" for bs
    by (induction bs) (simp_all add: format_byte_valid)
  moreover have "list_all stable_id_byte ''credential.''"
    by code_simp
  ultimately show ?thesis
    using assms by (simp add: create_credential_def stable_id_parse_def valid_stable_id_def)
qed

end
