(* ===== verification/Supervisor.thy ===== *)
theory Supervisor
  imports Worker Authority Secrets
begin

text \<open>
  Supervision of worker processes (\<open>crates/aworkit-trusted-core/src/supervisor.rs\<close>): the generation
  book of \<open>WorkerSupervisor\<close>, and \<open>ProcessWorkerSupervisorV1\<close> with every operation over a port for
  the operating system's processes, pipes and clock. The bytes a worker writes are read here too.
\<close>

section \<open>The generation book\<close>

datatype worker_supervisor_error =
    SvUnknownWorker
  | SvStaleHandshake
  | SvGenerationExhausted
  | SvRestartBudgetExhausted
  | SvSpawn string
  | SvTransport string
  | SvHandshakeTimeout
  | SvOutputTimeout
  | SvHeartbeatTimeout
  | SvUnexpectedHandshakeOutput
  | SvExecutableIdentityMismatch
  | SvAlreadyRunning
  | SvShutdownTimeout
  | SvProcessExited
  | SvInvalidStartControl

datatype worker_control = WcResume | WcPause | WcCancel | WcInput stable_id | WcApprovalGranted stable_id

record book_handshake =
  bh_chat_id :: stable_id
  bh_generation :: process_generation
  bh_snapshot_hash :: string

record worker_record =
  wr_generation :: process_generation
  wr_snapshot_hash :: string
  wr_healthy :: bool
  wr_restarts :: u32

record worker_supervisor =
  sv_workers :: "(string, worker_record) bmap"
  sv_max_restarts :: u32

definition with_restart_budget :: "u32 \<Rightarrow> worker_supervisor" where
  "with_restart_budget max_restarts = \<lparr>sv_workers = [], sv_max_restarts = max_restarts\<rparr>"

definition book_start ::
  "frozen_run_snapshot \<Rightarrow> worker_supervisor \<Rightarrow> (worker_supervisor_error + book_handshake) \<times> worker_supervisor" where
  "book_start snapshot s =
     (case (case bget (sv_workers s) (fs_chat_id snapshot) of
              Some r \<Rightarrow> ok_or (checked_add (wr_generation r) 1) SvGenerationExhausted
            | None \<Rightarrow> Inr 1) of
        Inl e \<Rightarrow> (Inl e, s)
      | Inr generation \<Rightarrow>
          (let restarts = (case bget (sv_workers s) (fs_chat_id snapshot) of None \<Rightarrow> 0 | Some r \<Rightarrow> wr_restarts r) in
           if sv_max_restarts s < restarts then (Inl SvRestartBudgetExhausted, s)
           else
             (Inr \<lparr>bh_chat_id = fs_chat_id snapshot, bh_generation = generation, bh_snapshot_hash = fs_snapshot_hash snapshot\<rparr>,
              s\<lparr>sv_workers := binsert (fs_chat_id snapshot)
                  \<lparr>wr_generation = generation, wr_snapshot_hash = fs_snapshot_hash snapshot, wr_healthy = False,
                   wr_restarts = restarts\<rparr> (sv_workers s)\<rparr>)))"

definition book_acknowledge ::
  "book_handshake \<Rightarrow> worker_supervisor \<Rightarrow> (worker_supervisor_error + unit) \<times> worker_supervisor" where
  "book_acknowledge h s =
     (case bget (sv_workers s) (bh_chat_id h) of
        None \<Rightarrow> (Inl SvUnknownWorker, s)
      | Some r \<Rightarrow>
          if wr_generation r \<noteq> bh_generation h \<or> wr_snapshot_hash r \<noteq> bh_snapshot_hash h then (Inl SvStaleHandshake, s)
          else (Inr (), s\<lparr>sv_workers := binsert (bh_chat_id h) (r\<lparr>wr_healthy := True\<rparr>) (sv_workers s)\<rparr>))"

definition book_deliver ::
  "stable_id \<Rightarrow> process_generation \<Rightarrow> worker_control \<Rightarrow> worker_supervisor \<Rightarrow> worker_supervisor_error + unit" where
  "book_deliver chat_id generation control s =
     (case bget (sv_workers s) chat_id of
        None \<Rightarrow> Inl SvUnknownWorker
      | Some r \<Rightarrow> if wr_generation r \<noteq> generation \<or> \<not> wr_healthy r then Inl SvStaleHandshake else Inr ())"

definition book_crashed ::
  "stable_id \<Rightarrow> process_generation \<Rightarrow> worker_supervisor \<Rightarrow> (worker_supervisor_error + unit) \<times> worker_supervisor" where
  "book_crashed chat_id generation s =
     (case bget (sv_workers s) chat_id of
        None \<Rightarrow> (Inl SvUnknownWorker, s)
      | Some r \<Rightarrow>
          if wr_generation r \<noteq> generation then (Inl SvStaleHandshake, s)
          else
            (case checked_add (wr_restarts r) 1 of
               None \<Rightarrow> (Inl SvRestartBudgetExhausted, s\<lparr>sv_workers := binsert chat_id (r\<lparr>wr_healthy := False\<rparr>) (sv_workers s)\<rparr>)
             | Some restarts \<Rightarrow>
                 (if sv_max_restarts s < restarts then Inl SvRestartBudgetExhausted else Inr (),
                  s\<lparr>sv_workers := binsert chat_id (r\<lparr>wr_healthy := False, wr_restarts := restarts\<rparr>) (sv_workers s)\<rparr>)))"

section \<open>The output of a worker\<close>

text \<open>
  The thread that reads a worker's output puts every frame on a channel until the stream ends or
  breaks. A frame is decoded as an optional envelope, so a body of JSON \<open>null\<close> ends it as well. The
  texts of I/O errors are parameters.
\<close>

record output_reader_codec =
  or_read_failed :: string
  or_unexpected_end :: string
  or_protocol_text :: "protocol_error \<Rightarrow> string"
  or_from_slice :: "string \<Rightarrow> worker_output_envelope option option"

definition read_output_frame :: "output_reader_codec \<Rightarrow> reader \<Rightarrow> (string + worker_output_envelope option) \<times> reader" where
  "read_output_frame c input =
     (case read_full 4 input [] of
        (Inl (EndOfInput got), r) \<Rightarrow> (if got = [] then Inr None else Inl ''truncated worker frame prefix'', r)
      | (Inl ReadFailed, r) \<Rightarrow> (Inl (or_read_failed c), r)
      | (Inr prefix, r) \<Rightarrow>
          if MAX_FRAME_BYTES < unat (from_be_bytes prefix) then (Inl ''worker frame exceeded one MiB'', r)
          else (case read_full (unat (from_be_bytes prefix)) r prefix of
                  (Inl (EndOfInput _), r') \<Rightarrow> (Inl (or_unexpected_end c), r')
                | (Inl ReadFailed, r') \<Rightarrow> (Inl (or_read_failed c), r')
                | (Inr frame, r') \<Rightarrow> (map_sum (or_protocol_text c) id (decode_frame (or_from_slice c) frame), r')))"

lemma read_output_frame_size:
  assumes "read_output_frame c r = (Inr (Some output), r')"
  shows "reader_size r' < reader_size r"
proof -
  obtain x r1 where p: "read_full 4 r [] = (x, r1)"
    by fastforce
  with assms obtain prefix frame where "x = Inr prefix" and b: "read_full (unat (from_be_bytes prefix)) r1 prefix = (Inr frame, r')"
    by (auto simp: read_output_frame_def split: sum.splits read_stop.splits if_splits prod.splits)
  with read_full_size [OF p] read_full_size [OF b] show ?thesis
    by simp
qed

text \<open>
  The thread sends over a channel of bounded capacity. \<open>sends\<close> is what its calls of \<open>send\<close> return, in
  order: \<open>True\<close> when the channel took the item, \<open>False\<close> when the receiver is gone. When the list ends,
  the next call does not return: the channel is full and nobody receives. The result is what was
  sent, and whether the thread came to its end.
\<close>

datatype pump_end = PumpReturned | PumpBlocked

function pump_outputs ::
  "output_reader_codec \<Rightarrow> reader \<Rightarrow> bool list \<Rightarrow> (string + worker_output_envelope) list \<times> pump_end" where
  "pump_outputs c input sends =
     (case read_output_frame c input of
        (Inr (Some output), input1) \<Rightarrow>
          (case sends of
             [] \<Rightarrow> ([], PumpBlocked)
           | False # _ \<Rightarrow> ([], PumpReturned)
           | True # sends1 \<Rightarrow> (case pump_outputs c input1 sends1 of (sent, stop) \<Rightarrow> (Inr output # sent, stop)))
      | (Inr None, _) \<Rightarrow> ([], PumpReturned)
      | (Inl text, _) \<Rightarrow>
          (case sends of
             [] \<Rightarrow> ([], PumpBlocked)
           | taken # _ \<Rightarrow> (if taken then [Inl text] else [], PumpReturned)))"
  by pat_completeness auto
termination
  by (relation "measure (\<lambda>(_, input, _). reader_size input)") (auto dest: read_output_frame_size [OF sym])

declare pump_outputs.simps [simp del]

section \<open>Processes\<close>

text \<open>
  What a receive with a timeout on a worker's channel finds. The port's operations act on a world:
  starting the executable in a process group, its observed identity, the two pipes, the thread that
  pumps its output, writing and flushing, receiving, killing and waiting, polling for the exit, the
  clock and sleeping; and the serializer of controls with its error texts and SHA-256. A write to a
  full pipe, and waiting for a process that was not killed, need not return: \<open>None\<close>. For the join of
  the thread the port tells how many items the channel holds and what of the output the thread has
  not sent yet; \<open>px_joined\<close> is the world after it.
\<close>

datatype received = RcvOutput worker_output_envelope | RcvBroken string | RcvTimeout | RcvDisconnected

record executable_identity =
  ei_canonical_path :: string
  ei_content_hash :: string
  ei_byte_size :: u64
  ei_object_identity_hash :: string

record ('h, 'w) process_port =
  px_canonicalize :: "string \<Rightarrow> 'w \<Rightarrow> string + string"
  px_open_identity :: "string \<Rightarrow> 'w \<Rightarrow> string + executable_identity"
  px_spawn :: "string \<Rightarrow> 'w \<Rightarrow> (string + 'h) \<times> 'w"
  px_stdin_piped :: "'h \<Rightarrow> 'w \<Rightarrow> bool"
  px_stdout_piped :: "'h \<Rightarrow> 'w \<Rightarrow> bool"
  px_start_pump :: "'h \<Rightarrow> process_generation \<Rightarrow> 'w \<Rightarrow> (string + unit) \<times> 'w"
  px_write :: "'h \<Rightarrow> string \<Rightarrow> 'w \<Rightarrow> ((string + unit) \<times> 'w) option"
  px_recv :: "'h \<Rightarrow> duration \<Rightarrow> 'w \<Rightarrow> received \<times> 'w"
  px_kill_wait :: "'h \<Rightarrow> 'w \<Rightarrow> 'w option"
  px_queued :: "'h \<Rightarrow> 'w \<Rightarrow> nat"
  px_unsent :: "'h \<Rightarrow> 'w \<Rightarrow> reader"
  px_joined :: "'h \<Rightarrow> 'w \<Rightarrow> 'w"
  px_try_wait :: "'h \<Rightarrow> 'w \<Rightarrow> (string + bool) \<times> 'w"
  px_now :: "'w \<Rightarrow> instant \<times> 'w"
  px_sleep :: "duration \<Rightarrow> 'w \<Rightarrow> 'w"
  px_control_to_vec :: "worker_control_envelope \<Rightarrow> string option"
  px_protocol_text :: "protocol_error \<Rightarrow> string"
  px_output_reader :: output_reader_codec
  px_sha :: digest

record 'h live_worker =
  lw_child :: 'h
  lw_chat_id :: stable_id
  lw_run_id :: stable_id
  lw_generation :: process_generation
  lw_snapshot_hash :: string
  lw_last_heartbeat :: "u64 option"
  lw_last_heartbeat_at :: "instant option"

record restart_state =
  rt_last_generation :: u64
  rt_crashes :: u32

record 'h process_supervisor =
  ps_executable :: executable_identity
  ps_workers :: "(string, 'h live_worker) bmap"
  ps_restart_state :: "(string, restart_state) bmap"
  ps_maximum_restarts :: u32

definition ps_new :: "('h, 'w) process_port \<Rightarrow> string \<Rightarrow> u32 \<Rightarrow> 'w \<Rightarrow> worker_supervisor_error + 'h process_supervisor" where
  "ps_new px executable maximum_restarts w =
     (case px_canonicalize px executable w of
        Inl text \<Rightarrow> Inl (SvSpawn text)
      | Inr path \<Rightarrow>
          (case px_open_identity px path w of
             Inl text \<Rightarrow> Inl (SvSpawn text)
           | Inr identity \<Rightarrow>
               Inr \<lparr>ps_executable = identity, ps_workers = [], ps_restart_state = [], ps_maximum_restarts = maximum_restarts\<rparr>))"

definition supervisor_id :: "digest \<Rightarrow> string \<Rightarrow> worker_supervisor_error + stable_id" where
  "supervisor_id sha material =
     (case derived_id sha ''supervisor.'' material of Inl _ \<Rightarrow> Inl SvInvalidStartControl | Inr i \<Rightarrow> Inr i)"

definition CHANNEL_CAPACITY :: usize where
  "CHANNEL_CAPACITY = 1024"

text \<open>
  The join returns when the thread does. The receiver is held and not read meanwhile, so the channel
  takes what it has room for and no more.
\<close>

definition join_pump :: "('h, 'w) process_port \<Rightarrow> 'h live_worker \<Rightarrow> 'w \<Rightarrow> 'w option" where
  "join_pump px worker w =
     (case snd (pump_outputs (px_output_reader px) (px_unsent px (lw_child worker) w)
                  (replicate (CHANNEL_CAPACITY - px_queued px (lw_child worker) w) True)) of
        PumpReturned \<Rightarrow> Some (px_joined px (lw_child worker) w)
      | PumpBlocked \<Rightarrow> None)"

definition terminate_worker :: "('h, 'w) process_port \<Rightarrow> 'h live_worker \<Rightarrow> 'w \<Rightarrow> 'w option" where
  "terminate_worker px worker w = Option.bind (px_kill_wait px (lw_child worker) w) (join_pump px worker)"

definition validate_control_identity :: "'h live_worker \<Rightarrow> worker_control_envelope \<Rightarrow> worker_supervisor_error + unit" where
  "validate_control_identity worker control =
     (if lw_chat_id worker \<noteq> ce_chat_id control \<or> lw_run_id worker \<noteq> ce_run_id control
         \<or> lw_generation worker \<noteq> ce_generation control \<or> lw_snapshot_hash worker \<noteq> ce_snapshot_hash control
      then Inl SvStaleHandshake else Inr ())"

definition validate_output_identity :: "'h live_worker \<Rightarrow> worker_output_envelope \<Rightarrow> worker_supervisor_error + unit" where
  "validate_output_identity worker output =
     (if oe_generation output \<noteq> lw_generation worker then Inl SvStaleHandshake
      else case oe_output output of
        OutProposal p \<Rightarrow>
          (if pe_chat_id p \<noteq> lw_chat_id worker \<or> pe_run_id p \<noteq> lw_run_id worker
              \<or> pe_generation p \<noteq> lw_generation worker \<or> pe_snapshot_hash p \<noteq> lw_snapshot_hash worker
           then Inl SvStaleHandshake else Inr ())
      | _ \<Rightarrow> Inr ())"

definition write_control ::
  "('h, 'w) process_port \<Rightarrow> 'h \<Rightarrow> worker_control_envelope \<Rightarrow> 'w \<Rightarrow> ((worker_supervisor_error + unit) \<times> 'w) option" where
  "write_control px child control w =
     (case encode_frame (px_control_to_vec px) control of
        Inl e \<Rightarrow> Some (Inl (SvTransport (px_protocol_text px e)), w)
      | Inr frame \<Rightarrow>
          (case px_write px child frame w of
             None \<Rightarrow> None
           | Some (Inl text, w') \<Rightarrow> Some (Inl (SvTransport text), w')
           | Some (Inr _, w') \<Rightarrow> Some (Inr (), w')))"

definition receive_output ::
  "('h, 'w) process_port \<Rightarrow> 'h \<Rightarrow> duration \<Rightarrow> 'w \<Rightarrow> (worker_supervisor_error + worker_output_envelope) \<times> 'w" where
  "receive_output px child timeout w =
     (case px_recv px child timeout w of
        (RcvOutput output, w') \<Rightarrow> (Inr output, w')
      | (RcvBroken text, w') \<Rightarrow> (Inl (SvTransport text), w')
      | (RcvTimeout, w') \<Rightarrow> (Inl SvOutputTimeout, w')
      | (RcvDisconnected, w') \<Rightarrow> (Inl SvProcessExited, w'))"

section \<open>The supervisor\<close>

definition restart_of :: "'h process_supervisor \<Rightarrow> stable_id \<Rightarrow> restart_state" where
  "restart_of s chat_id = (case bget (ps_restart_state s) chat_id of None \<Rightarrow> \<lparr>rt_last_generation = 0, rt_crashes = 0\<rparr> | Some r \<Rightarrow> r)"

definition next_generation :: "'h process_supervisor \<Rightarrow> stable_id \<Rightarrow> worker_supervisor_error + process_generation" where
  "next_generation s chat_id =
     (if ps_maximum_restarts s < rt_crashes (restart_of s chat_id) then Inl SvRestartBudgetExhausted
      else ok_or (checked_add (rt_last_generation (restart_of s chat_id)) 1) SvGenerationExhausted)"

definition allocate_generation ::
  "stable_id \<Rightarrow> 'h process_supervisor \<Rightarrow> (worker_supervisor_error + process_generation) \<times> 'h process_supervisor" where
  "allocate_generation chat_id s =
     (case next_generation s chat_id of
        Inl e \<Rightarrow> (Inl e, s)
      | Inr generation \<Rightarrow>
          (Inr generation, s\<lparr>ps_restart_state :=
             binsert chat_id ((restart_of s chat_id)\<lparr>rt_last_generation := generation\<rparr>) (ps_restart_state s)\<rparr>))"

text \<open>The first output must be the handshake of exactly the process that was asked for.\<close>

definition check_handshake ::
  "('h, 'w) process_port \<Rightarrow> executable_identity \<Rightarrow> worker_control_envelope \<Rightarrow> worker_output_envelope \<Rightarrow> 'w
     \<Rightarrow> worker_supervisor_error + worker_handshake" where
  "check_handshake px executable control output w =
     (case oe_output output of
        OutHandshake h \<Rightarrow>
          (case px_canonicalize px (wh_executable_identity h) w of
             Inl _ \<Rightarrow> Inl SvExecutableIdentityMismatch
           | Inr identity \<Rightarrow>
               if oe_generation output \<noteq> ce_generation control \<or> wh_protocol_version h \<noteq> 1 \<or> wh_chat_id h \<noteq> ce_chat_id control
                  \<or> wh_run_id h \<noteq> ce_run_id control \<or> wh_generation h \<noteq> ce_generation control
                  \<or> wh_snapshot_hash h \<noteq> ce_snapshot_hash control \<or> identity \<noteq> ei_canonical_path executable
               then Inl SvStaleHandshake else Inr h)
      | _ \<Rightarrow> Inl SvUnexpectedHandshakeOutput)"

text \<open>
  Starting a process. A process whose identity has changed is killed; one without its pipes or its
  thread is dropped as it is. From the first write on every failure terminates it.
\<close>

definition launch ::
  "('h, 'w) process_port \<Rightarrow> executable_identity \<Rightarrow> worker_control_envelope \<Rightarrow> 'w
     \<Rightarrow> ((worker_supervisor_error + 'h live_worker) \<times> 'w) option" where
  "launch px executable control w =
     (case px_spawn px (ei_canonical_path executable) w of
        (Inl text, w1) \<Rightarrow> Some (Inl (SvSpawn text), w1)
      | (Inr child, w1) \<Rightarrow>
          if px_open_identity px (ei_canonical_path executable) w1 \<noteq> Inr executable
          then map_option (\<lambda>w2. (Inl SvExecutableIdentityMismatch, w2)) (px_kill_wait px child w1)
          else if \<not> px_stdin_piped px child w1 then Some (Inl (SvSpawn ''worker stdin was not piped''), w1)
          else if \<not> px_stdout_piped px child w1 then Some (Inl (SvSpawn ''worker stdout was not piped''), w1)
          else
            (case px_start_pump px child (ce_generation control) w1 of
               (Inl text, w2) \<Rightarrow> Some (Inl (SvSpawn text), w2)
             | (Inr _, w2) \<Rightarrow>
                 Some (Inr \<lparr>lw_child = child, lw_chat_id = ce_chat_id control, lw_run_id = ce_run_id control,
                       lw_generation = ce_generation control, lw_snapshot_hash = ce_snapshot_hash control,
                       lw_last_heartbeat = None, lw_last_heartbeat_at = None\<rparr>, w2)))"

text \<open>The error of an operation, once the process it gives up is terminated.\<close>

definition give_up ::
  "('h, 'w) process_port \<Rightarrow> 'h live_worker \<Rightarrow> worker_supervisor_error \<Rightarrow> 'h process_supervisor \<Rightarrow> 'w
     \<Rightarrow> ((worker_supervisor_error + 'a) \<times> 'h process_supervisor \<times> 'w) option" where
  "give_up px worker e s w = map_option (\<lambda>w'. (Inl e, s, w')) (terminate_worker px worker w)"

definition spawn_control ::
  "('h, 'w) process_port \<Rightarrow> worker_control_envelope \<Rightarrow> duration \<Rightarrow> 'h process_supervisor \<Rightarrow> 'w
     \<Rightarrow> ((worker_supervisor_error + worker_handshake) \<times> 'h process_supervisor \<times> 'w) option" where
  "spawn_control px control timeout s w =
     (case launch px (ps_executable s) control w of
        None \<Rightarrow> None
      | Some (Inl e, w1) \<Rightarrow> Some (Inl e, s, w1)
      | Some (Inr worker, w1) \<Rightarrow>
          (case write_control px (lw_child worker) control w1 of
             None \<Rightarrow> None
           | Some (Inl e, w2) \<Rightarrow> give_up px worker e s w2
           | Some (Inr _, w2) \<Rightarrow>
               (case receive_output px (lw_child worker) timeout w2 of
                  (Inl e, w3) \<Rightarrow> give_up px worker (if e = SvOutputTimeout then SvHandshakeTimeout else e) s w3
                | (Inr output, w3) \<Rightarrow>
                    (case check_handshake px (ps_executable s) control output w3 of
                       Inl e \<Rightarrow> give_up px worker e s w3
                     | Inr h \<Rightarrow> Some (Inr h, s\<lparr>ps_workers := binsert (ce_chat_id control) worker (ps_workers s)\<rparr>, w3)))))"

definition start_control ::
  "('h, 'w) process_port \<Rightarrow> worker_frozen_run_snapshot \<Rightarrow> u64 \<Rightarrow> process_generation \<Rightarrow> worker_supervisor_error + worker_control_envelope" where
  "start_control px snapshot committed_cursor generation =
     bind_r (supervisor_id (px_sha px)
       (''start:'' @ ws_chat_id snapshot @ '':'' @ ws_run_id snapshot @ '':'' @ show_nat (unat generation))) (\<lambda>message_id.
     Inr \<lparr>ce_message_id = message_id, ce_chat_id = ws_chat_id snapshot, ce_run_id = ws_run_id snapshot,
          ce_generation = generation, ce_snapshot_hash = ws_snapshot_hash snapshot, ce_committed_cursor = committed_cursor,
          ce_control = CtStart snapshot\<rparr>)"

definition spawn_start ::
  "('h, 'w) process_port \<Rightarrow> worker_frozen_run_snapshot \<Rightarrow> u64 \<Rightarrow> duration \<Rightarrow> 'h process_supervisor \<Rightarrow> 'w
     \<Rightarrow> ((worker_supervisor_error + worker_handshake) \<times> 'h process_supervisor \<times> 'w) option" where
  "spawn_start px snapshot committed_cursor timeout s w =
     (if bcontains (ps_workers s) (ws_chat_id snapshot) then Some (Inl SvAlreadyRunning, s, w)
      else case allocate_generation (ws_chat_id snapshot) s of
        (Inl e, s1) \<Rightarrow> Some (Inl e, s1, w)
      | (Inr generation, s1) \<Rightarrow>
          (case start_control px snapshot committed_cursor generation of
             Inl e \<Rightarrow> Some (Inl e, s1, w)
           | Inr control \<Rightarrow> spawn_control px control timeout s1 w))"

definition spawn_restore ::
  "('h, 'w) process_port \<Rightarrow> worker_control_envelope \<Rightarrow> duration \<Rightarrow> 'h process_supervisor \<Rightarrow> 'w
     \<Rightarrow> ((worker_supervisor_error + worker_handshake) \<times> 'h process_supervisor \<times> 'w) option" where
  "spawn_restore px control timeout s w =
     (if (case ce_control control of CtRestore _ \<Rightarrow> False | _ \<Rightarrow> True) \<or> bcontains (ps_workers s) (ce_chat_id control)
      then Some (Inl SvInvalidStartControl, s, w)
      else case next_generation s (ce_chat_id control) of
        Inl e \<Rightarrow> Some (Inl e, s, w)
      | Inr expected \<Rightarrow>
          if expected \<noteq> ce_generation control then Some (Inl SvStaleHandshake, s, w)
          else (case allocate_generation (ce_chat_id control) s of
                  (Inl e, s1) \<Rightarrow> Some (Inl e, s1, w)
                | (Inr _, s1) \<Rightarrow> spawn_control px control timeout s1 w))"

definition send_control ::
  "('h, 'w) process_port \<Rightarrow> worker_control_envelope \<Rightarrow> 'h process_supervisor \<Rightarrow> 'w 
     \<Rightarrow> ((worker_supervisor_error + unit) \<times> 'w) option" where
  "send_control px control s w =
     (case bget (ps_workers s) (ce_chat_id control) of
        None \<Rightarrow> Some (Inl SvUnknownWorker, w)
      | Some worker \<Rightarrow>
          (case validate_control_identity worker control of
             Inl e \<Rightarrow> Some (Inl e, w)
           | Inr _ \<Rightarrow> write_control px (lw_child worker) control w))"

definition ps_receive ::
  "('h, 'w) process_port \<Rightarrow> stable_id \<Rightarrow> duration \<Rightarrow> 'h process_supervisor \<Rightarrow> 'w
     \<Rightarrow> (worker_supervisor_error + worker_output_envelope) \<times> 'h process_supervisor \<times> 'w" where
  "ps_receive px chat_id timeout s w =
     (case bget (ps_workers s) chat_id of
        None \<Rightarrow> (Inl SvUnknownWorker, s, w)
      | Some worker \<Rightarrow>
          (case receive_output px (lw_child worker) timeout w of
             (Inl e, w1) \<Rightarrow> (Inl e, s, w1)
           | (Inr output, w1) \<Rightarrow>
               (case validate_output_identity worker output of
                  Inl e \<Rightarrow> (Inl e, s, w1)
                | Inr _ \<Rightarrow>
                    (case oe_output output of
                       OutHeartbeat hb \<Rightarrow>
                         (if (case lw_last_heartbeat worker of None \<Rightarrow> False | Some sequence \<Rightarrow> hb_sequence hb \<le> sequence)
                          then (Inl SvStaleHandshake, s, w1)
                          else case px_now px w1 of
                            (now, w2) \<Rightarrow>
                              (Inr output, s\<lparr>ps_workers := binsert chat_id
                                 (worker\<lparr>lw_last_heartbeat := Some (hb_sequence hb), lw_last_heartbeat_at := Some now\<rparr>)
                                 (ps_workers s)\<rparr>, w2))
                     | _ \<Rightarrow> (Inr output, s, w1)))))"

definition check_health ::
  "('h, 'w) process_port \<Rightarrow> stable_id \<Rightarrow> 'h process_supervisor \<Rightarrow> 'w \<Rightarrow> (worker_supervisor_error + process_generation) \<times> 'w" where
  "check_health px chat_id s w =
     (case bget (ps_workers s) chat_id of
        None \<Rightarrow> (Inl SvUnknownWorker, w)
      | Some worker \<Rightarrow>
          (case px_try_wait px (lw_child worker) w of
             (Inl text, w1) \<Rightarrow> (Inl (SvTransport text), w1)
           | (Inr exited, w1) \<Rightarrow> (if exited then Inl SvProcessExited else Inr (lw_generation worker), w1)))"

definition check_health_within ::
  "('h, 'w) process_port \<Rightarrow> stable_id \<Rightarrow> duration \<Rightarrow> 'h process_supervisor \<Rightarrow> 'w \<Rightarrow> (worker_supervisor_error + process_generation) \<times> 'w" where
  "check_health_within px chat_id maximum_silence s w =
     (case check_health px chat_id s w of
        (Inl e, w1) \<Rightarrow> (Inl e, w1)
      | (Inr generation, w1) \<Rightarrow>
          (case bget (ps_workers s) chat_id of
             None \<Rightarrow> (Inl SvUnknownWorker, w1)
           | Some worker \<Rightarrow>
               (case lw_last_heartbeat_at worker of
                  None \<Rightarrow> (Inl SvHeartbeatTimeout, w1)
                | Some observed \<Rightarrow>
                    (case px_now px w1 of
                       (now, w2) \<Rightarrow>
                         (if maximum_silence < max 0 (now - observed) then Inl SvHeartbeatTimeout else Inr generation, w2)))))"

definition mark_crashed ::
  "('h, 'w) process_port \<Rightarrow> stable_id \<Rightarrow> process_generation \<Rightarrow> 'h process_supervisor \<Rightarrow> 'w
     \<Rightarrow> ((worker_supervisor_error + unit) \<times> 'h process_supervisor \<times> 'w) option" where
  "mark_crashed px chat_id generation s w =
     (case bget (ps_workers s) chat_id of
        None \<Rightarrow> Some (Inl SvUnknownWorker, s, w)
      | Some worker \<Rightarrow>
          if lw_generation worker \<noteq> generation then Some (Inl SvStaleHandshake, s, w)
          else
            (case terminate_worker px worker w of
               None \<Rightarrow> None
             | Some w1 \<Rightarrow>
                 (let s1 = s\<lparr>ps_workers := bremove chat_id (ps_workers s)\<rparr> in
                  case bget (ps_restart_state s1) chat_id of
                    None \<Rightarrow> Some (Inl SvUnknownWorker, s1, w1)
                  | Some r \<Rightarrow>
                      (case checked_add (rt_crashes r) 1 of
                         None \<Rightarrow> Some (Inl SvRestartBudgetExhausted, s1, w1)
                       | Some crashes \<Rightarrow>
                           Some (if ps_maximum_restarts s < crashes then Inl SvRestartBudgetExhausted else Inr (),
                             s1\<lparr>ps_restart_state := binsert chat_id (r\<lparr>rt_crashes := crashes\<rparr>) (ps_restart_state s1)\<rparr>, w1)))))"

text \<open>Dropping the supervisor terminates the workers it holds, one after another.\<close>

fun terminate_all :: "('h, 'w) process_port \<Rightarrow> 'h live_worker list \<Rightarrow> 'w \<Rightarrow> 'w option" where
  "terminate_all px [] w = Some w"
| "terminate_all px (worker # workers) w = Option.bind (terminate_worker px worker w) (terminate_all px workers)"

definition ps_drop :: "('h, 'w) process_port \<Rightarrow> 'h process_supervisor \<Rightarrow> 'w \<Rightarrow> ('h process_supervisor \<times> 'w) option" where
  "ps_drop px s w = map_option (\<lambda>w'. (s\<lparr>ps_workers := []\<rparr>, w')) (terminate_all px (bvalues (ps_workers s)) w)"

section \<open>Shutdown\<close>

text \<open>
  The two loops of a shutdown read a clock that need not advance, so whether they end is a question,
  as it is for the write, the wait and the join: \<open>None\<close> is running on. An output of another identity ends the wait with the process left running.
\<close>

definition shutdown_control ::
  "('h, 'w) process_port \<Rightarrow> 'h live_worker \<Rightarrow> u64 \<Rightarrow> worker_supervisor_error + stable_id \<times> worker_control_envelope" where
  "shutdown_control px worker committed_cursor =
     bind_r (supervisor_id (px_sha px)
       (''shutdown:'' @ lw_chat_id worker @ '':'' @ show_nat (unat (lw_generation worker)))) (\<lambda>control_id.
     bind_r (supervisor_id (px_sha px) (''shutdown.message:'' @ control_id)) (\<lambda>message_id.
     Inr (control_id,
       \<lparr>ce_message_id = message_id, ce_chat_id = lw_chat_id worker, ce_run_id = lw_run_id worker,
        ce_generation = lw_generation worker, ce_snapshot_hash = lw_snapshot_hash worker,
        ce_committed_cursor = committed_cursor, ce_control = CtShutdown control_id\<rparr>)))"

partial_function (option) await_ack ::
  "('h, 'w) process_port \<Rightarrow> 'h live_worker \<Rightarrow> stable_id \<Rightarrow> instant \<Rightarrow> 'w \<Rightarrow> ((worker_supervisor_error + bool) \<times> 'w) option" where
  "await_ack px worker control_id deadline w =
     (case px_now px w of
        (now, w1) \<Rightarrow>
          if \<not> now < deadline then Some (Inr False, w1)
          else
            (case px_now px w1 of
               (now1, w2) \<Rightarrow>
                 (case receive_output px (lw_child worker) (max 0 (deadline - now1)) w2 of
                    (Inr output, w3) \<Rightarrow>
                      (case validate_output_identity worker output of
                         Inl e \<Rightarrow> Some (Inl e, w3)
                       | Inr _ \<Rightarrow>
                           if oe_output output = OutShutdownAck control_id then Some (Inr True, w3)
                           else await_ack px worker control_id deadline w3)
                  | (Inl e, w3) \<Rightarrow>
                      if e = SvOutputTimeout then Some (Inr False, w3)
                      else map_option (\<lambda>w4. (Inl e, w4)) (terminate_worker px worker w3))))"

partial_function (option) wait_or_kill :: "('h, 'w) process_port \<Rightarrow> 'h live_worker \<Rightarrow> instant \<Rightarrow> 'w \<Rightarrow> 'w option" where
  "wait_or_kill px worker deadline w =
     (case px_now px w of
        (now, w1) \<Rightarrow>
          if \<not> now < deadline then terminate_worker px worker w1
          else
            (case px_try_wait px (lw_child worker) w1 of
               (exited, w2) \<Rightarrow>
                 if exited = Inr True then join_pump px worker w2
                 else wait_or_kill px worker deadline (px_sleep px 5000000 w2)))"

definition shutdown ::
  "('h, 'w) process_port \<Rightarrow> stable_id \<Rightarrow> u64 \<Rightarrow> duration \<Rightarrow> 'h process_supervisor \<Rightarrow> 'w
     \<Rightarrow> ((worker_supervisor_error + unit) \<times> 'h process_supervisor \<times> 'w) option" where
  "shutdown px chat_id committed_cursor timeout s w =
     (case bget (ps_workers s) chat_id of
        None \<Rightarrow> Some (Inl SvUnknownWorker, s, w)
      | Some worker \<Rightarrow>
          (let s1 = s\<lparr>ps_workers := bremove chat_id (ps_workers s)\<rparr> in
           case shutdown_control px worker committed_cursor of
             Inl e \<Rightarrow> Some (Inl e, s1, w)
           | Inr (control_id, control) \<Rightarrow>
               (case write_control px (lw_child worker) control w of
                  None \<Rightarrow> None
                | Some (Inl e, w1) \<Rightarrow> Some (Inl e, s1, w1)
                | Some (Inr _, w1) \<Rightarrow>
                    (case px_now px w1 of
                       (now, w2) \<Rightarrow>
                         (case await_ack px worker control_id (now + timeout) w2 of
                            None \<Rightarrow> None
                          | Some (Inl e, w3) \<Rightarrow> Some (Inl e, s1, w3)
                          | Some (Inr acknowledged, w3) \<Rightarrow>
                              if \<not> acknowledged then give_up px worker SvShutdownTimeout s1 w3
                              else map_option (\<lambda>w4. (Inr (), s1, w4)) (wait_or_kill px worker (now + timeout) w3))))))"

end
