(* ===== verification/Supervisor_Laws.thy ===== *)
theory Supervisor_Laws
  imports Supervisor Worker_Laws
begin

text \<open>
  What supervision guarantees: the core and the worker it runs agree on the wire, and across
  restarts a chat's controls and outputs belong to the newest generation only.
\<close>

section \<open>What a worker answers\<close>

fun beats :: "worker_output_envelope list \<Rightarrow> u64 list" where
  "beats [] = []"
| "beats (x # xs) = (case oe_output x of OutHeartbeat hb \<Rightarrow> hb_sequence hb # beats xs | _ \<Rightarrow> beats xs)"

lemma beats_append [simp]: "beats (xs @ ys) = beats xs @ beats ys"
  by (induction xs) (auto split: worker_output_kind.split)

lemma emit_inner_identity:
  assumes "emit_inner c kind reserved g = (Inr p, g')" and "gw_identity g = Some i"
  shows "proposal_identity p = i"
  using assms by (auto simp: emit_inner_def proposal_identity_def proposal_envelope_def bind_r_Inr ok_or_Inr Let_def
      split: sum.splits if_splits)

text \<open>The answer to a control carries the identity the control was admitted under.\<close>

definition result_of :: "worker_codec \<Rightarrow> worker_control_envelope \<Rightarrow> service_result \<Rightarrow> bool" where
  "result_of c envelope result \<longleftrightarrow> (\<forall>p \<in> set (res_proposals result). proposal_identity p = envelope_identity envelope)
     \<and> (\<forall>h. res_handshake result = Some h \<longrightarrow> (\<exists>fingerprint. h = handshake c envelope fingerprint))"

lemma result_of_heartbeat [simp]: "result_of c envelope (result\<lparr>res_heartbeat := hb\<rparr>) \<longleftrightarrow> result_of c envelope result"
  by (simp add: result_of_def)

lemma push_proposal_result:
  assumes "push_proposal c reserved kind result s = (Inr result', t)" and "gw_identity (svc_gateway s) = Some (envelope_identity envelope)"
    and "result_of c envelope result"
  shows "result_of c envelope result' \<and> res_heartbeat result' = res_heartbeat result"
  using assms(1)
proof (cases rule: push_proposal_cases)
  case (emitted p g)
  with assms(2,3) emit_inner_identity show ?thesis
    by (auto simp: result_of_def)
qed simp

lemma dispatch_result:
  assumes "dispatch c envelope prepared s = (Inr result, t)" and "gw_identity (svc_gateway s) = Some (envelope_identity envelope)"
  shows "result_of c envelope result \<and> res_heartbeat result = None \<and> svc_heartbeat_sequence t = svc_heartbeat_sequence s"
proof -
  have planned: "result_of c envelope result \<and> res_heartbeat result = None \<and> svc_heartbeat_sequence t = svc_heartbeat_sequence s"
    if "planned_proposal c reserved kind s = (Inr result, t)" for reserved kind
    using that push_proposal_result [of c reserved kind result_default s result t envelope] assms(2) push_proposal_keeps
    by (auto simp: planned_proposal_def result_of_def result_default_def split: if_splits)
  show ?thesis
  proof (cases prepared)
    case None
    with assms(1) planned show ?thesis
      by (cases "ce_control envelope") (auto simp: dispatch_def result_of_def result_default_def)
  next
    case (Some ph)
    then obtain plan checkpoint where ph: "prepared = Some (plan, checkpoint)"
      by (cases ph) auto
    then obtain kind where push: "push_proposal c False kind
        (result_default\<lparr>res_handshake := Some (handshake c envelope (ep_fingerprint plan))\<rparr>) (s\<lparr>svc_plan := Some plan\<rparr>) = (Inr result, t)"
      using assms(1) by (auto simp: dispatch_def)
    have "result_of c envelope (result_default\<lparr>res_handshake := Some (handshake c envelope (ep_fingerprint plan))\<rparr>)"
      by (auto simp: result_of_def result_default_def)
    with push_proposal_result [OF push] push_proposal_keeps [OF push] assms(2) show ?thesis
      by (simp add: result_default_def)
  qed
qed

lemma saturating_step: "unat (n :: u64) + 1 < 2 ^ 64 \<Longrightarrow> unat (saturating_add n 1) = unat n + 1"
  by (simp add: unat_saturating_add)

lemma handle_result:
  assumes "handle c envelope s = (Inr result, t)" and "unat (svc_heartbeat_sequence s) + 1 < 2 ^ 64"
  shows "result_of c envelope result
    \<and> (res_heartbeat result = None \<and> svc_heartbeat_sequence t = svc_heartbeat_sequence s
       \<or> (\<exists>hb. res_heartbeat result = Some hb \<and> hb_sequence hb = svc_heartbeat_sequence t
            \<and> unat (svc_heartbeat_sequence t) = unat (svc_heartbeat_sequence s) + 1))"
proof (cases "prepare c envelope")
  case (Inr prepared)
  obtain a g where adm: "admit_control (wk_gateway c) envelope (svc_gateway s) = (a, g)"
    by fastforce
  show ?thesis
  proof (cases "a = Inr AdNew")
    case True
    with adm have id: "gw_identity g = Some (envelope_identity envelope)"
      by (auto elim: admit_control_noted)
    obtain r s1 where d: "dispatch c envelope prepared (s\<lparr>svc_gateway := g\<rparr>) = (Inr r, s1)"
      and t: "result = r\<lparr>res_heartbeat := res_heartbeat result\<rparr>" "res_heartbeat result \<noteq> None"
      "hb_sequence (the (res_heartbeat result)) = saturating_add (svc_heartbeat_sequence s1) 1"
      "svc_heartbeat_sequence t = saturating_add (svc_heartbeat_sequence s1) 1"
      using assms(1) Inr adm True by (auto simp: handle_def Let_def split: prod.splits sum.splits)
    have "result_of c envelope r" "svc_heartbeat_sequence s1 = svc_heartbeat_sequence s"
      using dispatch_result [OF d] id by simp_all
    then have "result_of c envelope result"
      by (subst t(1)) simp
    then show ?thesis
      using t(2-) saturating_step [OF assms(2)] \<open>svc_heartbeat_sequence s1 = svc_heartbeat_sequence s\<close> by auto
  next
    case False
    with assms(1) Inr adm show ?thesis
      by (cases a) (auto simp: handle_def result_of_def result_default_def split: admission.splits)
  qed
qed (use assms(1) in \<open>simp add: handle_def\<close>)

text \<open>What a supervisor that holds the worker accepts of its outputs.\<close>

definition accepted :: "worker_codec \<Rightarrow> 'h live_worker \<Rightarrow> worker_output_envelope \<Rightarrow> bool" where
  "accepted c worker x \<longleftrightarrow> validate_output_identity worker x = Inr ()
     \<and> (\<forall>h. oe_output x = OutHandshake h \<longrightarrow> wh_protocol_version h = 1 \<and> wh_chat_id h = lw_chat_id worker
          \<and> wh_run_id h = lw_run_id worker \<and> wh_generation h = lw_generation worker
          \<and> wh_snapshot_hash h = lw_snapshot_hash worker \<and> wh_executable_identity h = wk_executable c)"

lemma output_with_Inr: "output_with c material g kind = Inr x \<Longrightarrow> oe_generation x = g \<and> oe_output x = kind"
  by (auto simp: output_with_def bind_r_Inr)

lemma dispatch_beat: "dispatch c envelope prepared s = (r, t) \<Longrightarrow> svc_heartbeat_sequence t = svc_heartbeat_sequence s"
proof (cases prepared)
  case None
  moreover have "svc_heartbeat_sequence t = svc_heartbeat_sequence s" if "planned_proposal c reserved kind s = (r, t)" for reserved kind
    using that push_proposal_keeps by (auto simp: planned_proposal_def split: if_splits)
  moreover assume "dispatch c envelope prepared s = (r, t)"
  ultimately show ?thesis
    by (cases "ce_control envelope") (auto simp: dispatch_def)
next
  case (Some ph)
  moreover assume "dispatch c envelope prepared s = (r, t)"
  ultimately show ?thesis
    using push_proposal_keeps by (cases ph) (fastforce simp: dispatch_def)
qed

lemma handle_error_beat: "handle c envelope s = (Inl e, t) \<Longrightarrow> svc_heartbeat_sequence t = svc_heartbeat_sequence s"
  by (erule handle_cases) (auto dest: dispatch_beat)

lemma output_accepted:
  assumes "validate_control_identity worker envelope = Inr ()" and "output_with c material (ce_generation envelope) kind = Inr x"
    and "\<And>p. kind \<noteq> OutProposal p" and "\<And>h. kind = OutHandshake h \<Longrightarrow> \<exists>fingerprint. h = handshake c envelope fingerprint"
  shows "accepted c worker x"
  using assms output_with_Inr [OF assms(2)]
  by (auto simp: accepted_def validate_control_identity_def validate_output_identity_def handshake_def split: if_splits worker_output_kind.split)

lemma proposal_accepted:
  assumes "validate_control_identity worker envelope = Inr ()" and "proposal_identity p = envelope_identity envelope"
  shows "accepted c worker \<lparr>oe_message_id = i, oe_generation = ce_generation envelope, oe_output = OutProposal p\<rparr>"
  using assms
  by (auto simp: accepted_def validate_control_identity_def validate_output_identity_def proposal_identity_def envelope_identity_def
      split: if_splits)

lemma answers_accepted_mem:
  assumes "validate_control_identity worker envelope = Inr ()" and "Inr x \<in> set (answers c envelope r)"
    and "\<And>result. r = Inr result \<Longrightarrow> result_of c envelope result"
  shows "accepted c worker x"
proof (cases r)
  case (Inl e)
  with assms output_accepted [OF assms(1)] show ?thesis
    by (auto simp: answers_def Let_def dest!: sym [of "Inr x"])
next
  case (Inr result)
  note res = assms(3) [OF Inr]
  from Inr assms(2) consider
      (handshake) h where "res_handshake result = Some h"
        "output_with c (''handshake:'' @ ce_message_id envelope) (ce_generation envelope) (OutHandshake h) = Inr x"
    | (proposal) p where "p \<in> set (res_proposals result)"
        "x = \<lparr>oe_message_id = pe_proposal_id p, oe_generation = ce_generation envelope, oe_output = OutProposal p\<rparr>"
    | (beat) material hb where "output_with c material (ce_generation envelope) (OutHeartbeat hb) = Inr x"
    | (ack) material i where "output_with c material (ce_generation envelope) (OutShutdownAck i) = Inr x"
    by (auto simp: answers_def Let_def split: option.splits) metis+
  then show ?thesis
  proof cases
    case handshake
    with res show ?thesis
      by (intro output_accepted [OF assms(1) handshake(2)]) (auto simp: result_of_def)
  next
    case proposal
    with res proposal_accepted [OF assms(1)] show ?thesis
      by (simp add: result_of_def)
  qed (auto intro: output_accepted [OF assms(1)])
qed

lemma beats_output_with:
  "\<exists>x. output_with c material g kind = Inr x \<Longrightarrow>
     beats (projr (output_with c material g kind) # xs) = (case kind of OutHeartbeat hb \<Rightarrow> [hb_sequence hb] | _ \<Rightarrow> []) @ beats xs"
  using output_with_Inr by (fastforce split: worker_output_kind.split)

lemma beats_proposals: "beats (map (\<lambda>p. \<lparr>oe_message_id = f p, oe_generation = g, oe_output = OutProposal p\<rparr>) ps) = []"
  by (induction ps) simp_all

lemma beats_answers:
  assumes "answers c envelope (Inr result) = map Inr xs"
  shows "beats xs = (case res_heartbeat result of None \<Rightarrow> [] | Some hb \<Rightarrow> [hb_sequence hb])"
proof -
  have xs: "xs = map projr (answers c envelope (Inr result))"
    using assms by (simp add: comp_def)
  have "\<exists>x. y = Inr x" if "y \<in> set (answers c envelope (Inr result))" for y
    using that assms by auto
  then have ok: "\<exists>x. output_with c m g k = Inr x" if "output_with c m g k \<in> set (answers c envelope (Inr result))" for m g k
    using that by blast
  show ?thesis
    unfolding xs using ok
    by (cases "res_handshake result"; cases "res_heartbeat result"; cases "res_shutdown_ack result")
       (auto simp: answers_def Let_def beats_output_with beats_proposals comp_def simp del: beats.simps(2))
qed

lemma answers_accepted:
  assumes "handle c envelope s = (r, t)" and "unat (svc_heartbeat_sequence s) + 1 < 2 ^ 64"
    and "validate_control_identity worker envelope = Inr ()" and "answers c envelope r = map Inr xs"
  shows "list_all (accepted c worker) xs
    \<and> (beats xs = [] \<and> svc_heartbeat_sequence t = svc_heartbeat_sequence s
       \<or> beats xs = [svc_heartbeat_sequence t] \<and> unat (svc_heartbeat_sequence t) = unat (svc_heartbeat_sequence s) + 1)"
proof (cases r)
  case (Inl e)
  then obtain x where x: "xs = [x]" "output_with c (''error:'' @ ce_message_id envelope) (ce_generation envelope)
      (OutError ''worker_control_rejected'' (take_chars 4096 (runtime_error_display e))) = Inr x"
    using assms(4) by (auto simp: answers_def Let_def)
  then have "beats xs = []" "accepted c worker x"
    using output_with_Inr [OF x(2)] output_accepted [OF assms(3) x(2)] by simp_all
  with x(1) Inl assms(1) show ?thesis
    by (auto dest: handle_error_beat)
next
  case (Inr result)
  note res = handle_result [OF assms(1) [unfolded Inr] assms(2)]
  have "accepted c worker x" if "x \<in> set xs" for x
    by (rule answers_accepted_mem [OF assms(3), of _ c r]) (use that assms(4) Inr res in auto)
  moreover have "beats xs = (case res_heartbeat result of None \<Rightarrow> [] | Some hb \<Rightarrow> [hb_sequence hb])"
    using beats_answers assms(4) Inr by blast
  ultimately show ?thesis
    using res by (auto simp: list_all_iff)
qed

section \<open>The conversation\<close>

lemma write_outputs_Inr:
  assumes "write_outputs c ys written = (Inr u, written')"
  obtains xs frames where "ys = map Inr xs" "list_all2 (\<lambda>x f. encode_frame (wk_output_to_vec c) x = Inr f) xs frames"
    "written' = written @ concat frames"
  using assms
proof (induction c ys written arbitrary: thesis rule: write_outputs.induct)
  case (1 c written)
  then show ?case
    by simp
next
  case (3 c x ys written)
  then obtain frame where f: "encode_frame (wk_output_to_vec c) x = Inr frame"
    and w: "write_outputs c ys (written @ frame) = (Inr u, written')"
    and n: "wk_write_fails c written frame = None"
    by (auto split: sum.splits option.splits)
  show ?case
  proof (rule "3.IH" [OF f n _ w])
    fix xs frames
    assume "ys = map Inr xs" "list_all2 (\<lambda>x f. encode_frame (wk_output_to_vec c) x = Inr f) xs frames"
      "written' = (written @ frame) @ concat frames"
    then show ?case
      using f by (intro "3.prems"(1) [of "x # xs" "frame # frames"]) simp_all
  qed
qed simp

lemma write_outputs_frames:
  "list_all2 (\<lambda>x f. encode_frame (wk_output_to_vec c) x = Inr f) xs frames \<Longrightarrow> (\<And>b f. wk_write_fails c b f = None) \<Longrightarrow>
     write_outputs c (map Inr xs) written = (Inr (), written @ concat frames)"
  by (induction xs frames arbitrary: written rule: list_all2_induct) simp_all

lemma serve_controls_accepted:
  assumes "serve_controls c controls s written = (Inr u, written')" and "unat (svc_heartbeat_sequence s) + length controls < 2 ^ 64"
    and "list_all (\<lambda>k. validate_control_identity worker k = Inr ()) controls"
  obtains xs frames where "list_all2 (\<lambda>x f. encode_frame (wk_output_to_vec c) x = Inr f) xs frames"
    "written' = written @ concat frames" "list_all (accepted c worker) xs"
    "sorted_wrt (<) (svc_heartbeat_sequence s # beats xs)"
    "\<And>k ks. controls = k # ks \<Longrightarrow> \<exists>ys zs. xs = ys @ zs \<and> answers c k (fst (handle c k s)) = map Inr ys"
proof -
  let ?enc = "\<lambda>x f. encode_frame (wk_output_to_vec c) x = Inr f"
  have "\<exists>xs frames. list_all2 ?enc xs frames \<and> written' = written @ concat frames \<and> list_all (accepted c worker) xs
      \<and> sorted_wrt (<) (svc_heartbeat_sequence s # beats xs)
      \<and> (\<forall>k ks. controls = k # ks \<longrightarrow> (\<exists>ys zs. xs = ys @ zs \<and> answers c k (fst (handle c k s)) = map Inr ys))"
    using assms
  proof (induction controls arbitrary: s written)
    case Nil
    then show ?case
      by (intro exI [of _ "[]"]) simp
  next
    case (Cons k ks)
    obtain r t where h: "handle c k s = (r, t)"
      by fastforce
    obtain q v where w: "write_outputs c (answers c k r) written = (q, v)"
      by fastforce
    with Cons.prems(1) h have "q = Inr ()" and flush: "\<not> wk_flush_fails c v"
      by (auto simp: serve_control_def split: sum.splits if_splits)
    with w obtain xs frames where x: "answers c k r = map Inr xs" "list_all2 ?enc xs frames" "v = written @ concat frames"
      by (auto elim: write_outputs_Inr)
    have beat: "list_all (accepted c worker) xs
        \<and> (beats xs = [] \<and> svc_heartbeat_sequence t = svc_heartbeat_sequence s
           \<or> beats xs = [svc_heartbeat_sequence t] \<and> unat (svc_heartbeat_sequence t) = unat (svc_heartbeat_sequence s) + 1)"
      by (rule answers_accepted [OF h _ _ x(1)]) (use Cons.prems in auto)
    show ?case
    proof (cases "\<exists>result. r = Inr result \<and> res_shutdown result")
      case True
      with Cons.prems(1) h w \<open>q = Inr ()\<close> flush have "written' = v"
        by (auto simp: serve_control_def)
      with x beat h show ?thesis
        by (intro exI [of _ xs] exI [of _ frames]) (auto simp: word_less_nat_alt)
    next
      case False
      with Cons.prems(1) h w \<open>q = Inr ()\<close> flush have "serve_controls c ks t v = (Inr u, written')"
        by (auto simp: serve_control_def split: sum.splits)
      moreover have "unat (svc_heartbeat_sequence t) + length ks < 2 ^ 64"
        using beat Cons.prems(2) by auto
      ultimately obtain ys fs where y: "list_all2 ?enc ys fs" "written' = v @ concat fs" "list_all (accepted c worker) ys"
        "sorted_wrt (<) (svc_heartbeat_sequence t # beats ys)"
        using Cons.IH [of t v] Cons.prems(3) by auto
      have "sorted_wrt (<) (svc_heartbeat_sequence s # beats (xs @ ys))"
        using beat y(4) by (auto simp: word_less_nat_alt)
      with x y beat h show ?thesis
        by (intro exI [of _ "xs @ ys"] exI [of _ "frames @ fs"]) (auto simp: list_all2_appendI)
    qed
  qed
  then show thesis
    using that by blast
qed

lemma fresh_handshake:
  assumes "handle c k svc_new = (Inr result, t)"
  shows "res_handshake result \<noteq> None"
  using assms
proof (cases rule: handle_cases)
  case (repeated prepared g)
  then show ?thesis
    by (auto simp: svc_new_def gw_new_def gw_with_bounds_def dest: admit_duplicate)
next
  case (dispatched prepared g r1 s1)
  then obtain plan checkpoint where p: "prepared = Some (plan, checkpoint)"
    using admit_without_start [of c k gw_new "wk_gateway c"]
    by (cases prepared) (auto simp: svc_new_def gw_new_def gw_with_bounds_def)
  obtain r where r: "r1 = Inr r"
    using dispatched(6) by (cases r1) auto
  have "res_handshake r \<noteq> None"
    using dispatched(3) unfolding p r by (auto simp: dispatch_def elim: push_proposal_cases)
  moreover have "res_handshake result = res_handshake r"
    using assms dispatched(1-3) r by (auto simp: handle_def svc_new_def Let_def)
  ultimately show ?thesis
    by simp
qed simp_all

lemma read_output_frame_of:
  "read_one_frame r = (Inr (Some frame), r') \<Longrightarrow>
     read_output_frame c r = (map_sum (or_protocol_text c) id (decode_frame (or_from_slice c) frame), r')"
  by (auto simp: read_one_frame_def read_output_frame_def split: prod.splits sum.splits read_stop.splits if_splits)

text \<open>What the reading thread sends when every send is taken; with fewer, it sends a prefix and blocks.\<close>

function pumped :: "output_reader_codec \<Rightarrow> reader \<Rightarrow> (string + worker_output_envelope) list" where
  "pumped c input =
     (case read_output_frame c input of
        (Inr (Some output), input1) \<Rightarrow> Inr output # pumped c input1
      | (Inr None, _) \<Rightarrow> []
      | (Inl text, _) \<Rightarrow> [Inl text])"
  by pat_completeness auto
termination
  by (relation "measure (\<lambda>(_, input). reader_size input)") (auto dest: read_output_frame_size [OF sym])

declare pumped.simps [simp del]

lemma pump_outputs_taken:
  "pump_outputs c input (replicate m True) =
     (take m (pumped c input), if m < length (pumped c input) then PumpBlocked else PumpReturned)"
proof (induction c input arbitrary: m rule: pumped.induct)
  case (1 c input)
  then show ?case
    by (subst pump_outputs.simps, subst (1 2) pumped.simps)
       (cases m; auto split: prod.split sum.split option.split)
qed

lemma pump_frames:
  assumes "list_all2 (\<lambda>x f. encode_frame to_vec x = Inr f) xs frames" and "\<And>x b. to_vec x = Some b \<Longrightarrow> or_from_slice c b = Some (Some x)"
    and "[] \<notin> set chunks" and "concat chunks = concat frames"
  shows "pumped c (map Some chunks) = map Inr xs"
  using assms(1,3,4)
proof (induction xs frames arbitrary: chunks rule: list_all2_induct)
  case Nil
  then have "chunks = []"
    by (cases chunks) auto
  then show ?case
    by (simp add: pumped.simps [of c "[]"] read_output_frame_def)
next
  case (Cons x xs f fs)
  then obtain body where body: "to_vec x = Some body" "length body \<le> MAX_FRAME_BYTES" "f = frame_of body"
    by (auto simp: encode_frame_Inr frame_of_def)
  then obtain chunks' where read: "read_one_frame (map Some chunks) = (Inr (Some f), map Some chunks')"
    and rest: "[] \<notin> set chunks'" "concat chunks' = concat fs"
    using read_one_frame_chunks [OF Cons.prems(1), of body "concat fs"] Cons.prems(2) by auto
  have "decode_frame (or_from_slice c) f = Inr (Some x)"
    using decode_frame_of [OF body(2), of "or_from_slice c"] body assms(2) by simp
  then show ?case
    using Cons.IH [OF rest] read_output_frame_of [OF read, of c] by (subst pumped.simps) simp
qed

lemma accepted_handshake:
  assumes "accepted c worker x" and "validate_control_identity worker k = Inr ()" and "oe_output x = OutHandshake h"
    and "px_canonicalize px (wk_executable c) w = Inr (ei_canonical_path executable)"
  shows "check_handshake px executable k x w = Inr h"
  using assms by (auto simp: accepted_def check_handshake_def validate_control_identity_def validate_output_identity_def split: if_splits)

text \<open>
  C6. The supervisor and the worker agree on the wire, in both directions. Let the core write controls of one identity to
  a worker's input and read what the worker writes, each in chunks of any size, with decoders that invert the other
  side's encoders. Whenever serving these controls succeeds, there is a sequence of outputs without an error of which the
  reading thread delivers as many as the channel takes, ending when it takes them all and waiting on the channel when it
  does not; every one of them passes the supervisor's identity check; heartbeats increase strictly; every handshake
  passes the check of a spawn with any of these controls, for the executable that was started; and if the first control
  was accepted, the first output is the handshake a spawn waits for.
\<close>

theorem supervisor_worker_agree:
  assumes "list_all2 (\<lambda>k f. encode_frame (px_control_to_vec px) k = Inr f) controls frames"
    and "codec_inverse (px_control_to_vec px) (wk_control_from_slice c)"
    and "\<And>x b. wk_output_to_vec c x = Some b \<Longrightarrow> or_from_slice oc b = Some (Some x)"
    and "[] \<notin> set stdin" and "concat stdin = concat frames" and "serve_stdio c (map Some stdin) = (Inr (), written)"
    and "[] \<notin> set stdout" and "concat stdout = written"
    and "list_all (\<lambda>k. validate_control_identity worker k = Inr ()) controls" and "length controls < 2 ^ 64"
    and "px_canonicalize px (wk_executable c) w = Inr (ei_canonical_path executable)"
  shows "\<exists>xs. (\<forall>m. pump_outputs oc (map Some stdout) (replicate m True) =
        (map Inr (take m xs), if m < length xs then PumpBlocked else PumpReturned))
    \<and> list_all (\<lambda>x. validate_output_identity worker x = Inr ()) xs \<and> sorted_wrt (<) (beats xs)
    \<and> (\<forall>k \<in> set controls. \<forall>x \<in> set xs. \<forall>h. oe_output x = OutHandshake h \<longrightarrow> check_handshake px executable k x w = Inr h)
    \<and> (\<forall>k ks. controls = k # ks \<and> is_ok (fst (handle c k svc_new)) \<longrightarrow> (\<exists>x rest h. xs = x # rest \<and> oe_output x = OutHandshake h))"
proof -
  have "serve_controls c controls svc_new [] = (Inr (), written)"
    using assms(6) unfolding serve_stdio_def serve_loop_controls [OF assms(1,2,4,5)] .
  moreover have "unat (svc_heartbeat_sequence svc_new) + length controls < 2 ^ 64"
    using assms(10) by (simp add: svc_new_def)
  ultimately show ?thesis
  proof (rule serve_controls_accepted [OF _ _ assms(9)])
    fix xs fs
    assume x: "list_all2 (\<lambda>x f. encode_frame (wk_output_to_vec c) x = Inr f) xs fs" "written = [] @ concat fs"
      "list_all (accepted c worker) xs" "sorted_wrt (<) (svc_heartbeat_sequence svc_new # beats xs)"
      "\<And>k ks. controls = k # ks \<Longrightarrow> \<exists>ys zs. xs = ys @ zs \<and> answers c k (fst (handle c k svc_new)) = map Inr ys"
    have "pumped oc (map Some stdout) = map Inr xs"
      using pump_frames [OF x(1) assms(3,7)] assms(8) x(2) by simp
    then have "pump_outputs oc (map Some stdout) (replicate m True) =
        (map Inr (take m xs), if m < length xs then PumpBlocked else PumpReturned)" for m
      by (simp add: pump_outputs_taken take_map)
    moreover have "check_handshake px executable k x w = Inr h"
      if "k \<in> set controls" "x \<in> set xs" "oe_output x = OutHandshake h" for k x h
      using that x(3) assms(9,11) by (intro accepted_handshake) (auto simp: list_all_iff)
    moreover have "\<exists>x rest h. xs = x # rest \<and> oe_output x = OutHandshake h"
      if k: "controls = k # ks" "is_ok (fst (handle c k svc_new))" for k ks
    proof -
      obtain result where r: "handle c k svc_new = (Inr result, snd (handle c k svc_new))"
        using k(2) by (metis is_okE prod.collapse)
      obtain h where "res_handshake result = Some h"
        using fresh_handshake [OF r] by auto
      moreover obtain ys zs where "xs = ys @ zs" "answers c k (Inr result) = map Inr ys"
        using x(5) [OF k(1)] r by (metis fst_conv)
      ultimately show ?thesis
        using output_with_Inr by (cases ys) (fastforce simp: answers_def Let_def)+
    qed
    ultimately show ?thesis
      using x(3,4) by (intro exI [of _ xs]) (auto simp: accepted_def list_all_iff)
  qed
qed

lemma demo_admitted: "admit_control demo_gateway_codec demo_start gw_new = (Inr AdNew, gw_new\<lparr>gw_identity := Some (envelope_identity demo_start),
    gw_seen_messages := [(''start'', tail_digest [])]\<rparr>)"
  by (simp add: admit_control_def admit_identity_def admit_cursor_def demo_start_def demo_control_def demo_gateway_codec_def
      snapshot_matches_def demo_snapshot_def gw_new_def gw_with_bounds_def envelope_identity_def Let_def)

definition demo_ready :: worker_proposal_envelope where
  "demo_ready = proposal_envelope (envelope_identity demo_start)
     (projr (gw_stable_id demo_gateway_codec (proposal_material (envelope_identity demo_start) 1))) 1 0 (PrReady (ep_fingerprint demo_plan))"

definition demo_beat :: worker_heartbeat where
  "demo_beat = \<lparr>hb_sequence = 1, hb_monotonic_time_ms = 1, hb_active = True, hb_quiescent = False\<rparr>"

definition demo_greeting :: worker_handshake where
  "demo_greeting = handshake demo_worker_codec demo_start (ep_fingerprint demo_plan)"

definition demo_result :: service_result where
  "demo_result = \<lparr>res_handshake = Some demo_greeting, res_proposals = [demo_ready], res_heartbeat = Some demo_beat,
     res_shutdown_ack = None, res_shutdown = False\<rparr>"

text \<open>The three answers to the start, on a wire where each side knows the other's messages by one letter.\<close>

definition demo_out :: "string \<Rightarrow> worker_output_kind \<Rightarrow> worker_output_envelope" where
  "demo_out material kind = projr (output_with demo_worker_codec material 1 kind)"

definition demo_letters :: "(string \<times> worker_output_envelope) list" where
  "demo_letters = [(''h'', demo_out ''handshake:start'' (OutHandshake demo_greeting)),
     (''p'', \<lparr>oe_message_id = pe_proposal_id demo_ready, oe_generation = 1, oe_output = OutProposal demo_ready\<rparr>),
     (''b'', demo_out ''heartbeat:ProcessGeneration(1):1'' (OutHeartbeat demo_beat))]"

definition demo_peer :: worker_codec where
  "demo_peer = demo_worker_codec
     \<lparr>wk_output_to_vec := (\<lambda>x. map_of (map (\<lambda>(l, y). (y, l)) demo_letters) x),
      wk_control_from_slice := (\<lambda>b. if b = ''s'' then Some demo_start else None)\<rparr>"

definition demo_output_reader :: output_reader_codec where
  "demo_output_reader = \<lparr>or_read_failed = ''read failed'', or_unexpected_end = ''failed to fill whole buffer'', or_protocol_text = (\<lambda>_. ''protocol''),
     or_from_slice = (\<lambda>b. map_option Some (map_of demo_letters b))\<rparr>"

lemma demo_stable_id: "\<exists>k. gw_stable_id demo_gateway_codec m = Inr k \<and> length k \<le> 128"
proof -
  obtain k where k: "derived_id tail_digest ''gateway.'' m = Inr k"
    using derived_id_ok [OF hex_tail_digest, of "''gateway.''" m] by (auto simp: stable_id_byte_def is_ascii_alphanumeric_code)
  then have "length k \<le> 128"
    by (auto simp: derived_id_def valid_stable_id_def)
  with k show ?thesis
    by (simp add: gw_stable_id_def demo_gateway_codec_def)
qed

lemma demo_emitted:
  "\<exists>g. emit_inner demo_gateway_codec (PrReady (ep_fingerprint demo_plan)) False (gw_new\<lparr>gw_identity := Some (envelope_identity demo_start),
     gw_seen_messages := [(''start'', tail_digest [])]\<rparr>) = (Inr demo_ready, g)"
proof -
  obtain k where k: "gw_stable_id demo_gateway_codec (proposal_material (envelope_identity demo_start) 1) = Inr k" "length k \<le> 128"
    using demo_stable_id by blast
  moreover have "checked_add (0 :: u64) 1 = Some 1"
    by (simp add: checked_add_def)
  moreover have "gc_json demo_gateway_codec e = Some (pe_proposal_id e)" for e
    by (simp add: demo_gateway_codec_def)
  ultimately show ?thesis
    by (simp add: emit_inner_def gw_new_def gw_with_bounds_def usize_saturating_add_def MAX_RESERVED_CONTROL_PROPOSALS_def
        usize_checked_add_def over_byte_limit_def demo_ready_def Let_def proposal_envelope_def RESERVED_BYTES_def)
qed

lemma demo_peer_simps [simp]:
  "wk_gateway demo_peer = demo_gateway_codec" "wk_executable demo_peer = ''w''" "wk_sha demo_peer = tail_digest"
  "prepare demo_peer demo_start = Inr (Some (demo_plan, None))" "handshake demo_peer = handshake demo_worker_codec"
  using demo_compiles
  by (simp_all add: demo_peer_def demo_worker_codec_def prepare_def demo_start_def demo_control_def handshake_def fun_eq_iff)

lemma demo_handled: "fst (handle demo_peer demo_start svc_new) = Inr demo_result"
proof -
  obtain g where g: "emit_inner demo_gateway_codec (PrReady (ep_fingerprint demo_plan)) False
      (gw_new\<lparr>gw_identity := Some (envelope_identity demo_start), gw_seen_messages := [(''start'', tail_digest [])]\<rparr>) = (Inr demo_ready, g)"
    using demo_emitted by blast
  with demo_admitted show ?thesis
    by (simp add: handle_def dispatch_def push_proposal_def gw_emit_def svc_new_def result_default_def demo_result_def demo_greeting_def
        demo_beat_def Let_def saturating_add_def)
qed

lemma demo_out: "output_with demo_peer material 1 kind = Inr (demo_out material kind)" "oe_output (demo_out material kind) = kind"
proof -
  have "derived_id tail_digest ''worker.output.'' material = Inr (''worker.output.'' @ take 48 (tail_digest material))"
    by (rule derived_id_ok [OF hex_tail_digest]) (simp_all add: stable_id_byte_def is_ascii_alphanumeric_code)
  then show "output_with demo_peer material 1 kind = Inr (demo_out material kind)" "oe_output (demo_out material kind) = kind"
    by (simp_all add: demo_out_def output_with_def output_id_def demo_worker_codec_def)
qed

lemma demo_answers: "answers demo_peer demo_start (Inr demo_result) = map Inr (map snd demo_letters)"
proof -
  have "show_nat (Suc 0) = ''1''"
    by code_simp
  then show ?thesis
    by (simp add: answers_def demo_result_def demo_letters_def demo_out demo_start_def demo_control_def demo_beat_def)
qed

lemma demo_letters_inverse: "map_of (map (\<lambda>(l, y). (y, l)) demo_letters) x = Some b \<longleftrightarrow> (b, x) \<in> set demo_letters"
  "map_of demo_letters b = Some x \<longleftrightarrow> (b, x) \<in> set demo_letters"
proof -
  have "distinct (map oe_output (map snd demo_letters))"
    by (simp add: demo_letters_def demo_out)
  then have "distinct (map fst (map (\<lambda>(l, y). (y, l)) demo_letters))"
    by (auto simp: distinct_map comp_def case_prod_beta inj_on_def)
  then show "map_of (map (\<lambda>(l, y). (y, l)) demo_letters) x = Some b \<longleftrightarrow> (b, x) \<in> set demo_letters"
    by (subst map_of_eq_Some_iff) (force simp: image_iff)+
  show "map_of demo_letters b = Some x \<longleftrightarrow> (b, x) \<in> set demo_letters"
    by (rule map_of_eq_Some_iff) (simp add: demo_letters_def)
qed

lemma demo_encodes: "(l, x) \<in> set demo_letters \<Longrightarrow> encode_frame (wk_output_to_vec demo_peer) x = Inr (frame_of l)"
proof -
  assume x: "(l, x) \<in> set demo_letters"
  then have "length l \<le> MAX_FRAME_BYTES"
    by (auto simp: demo_letters_def MAX_FRAME_BYTES_def)
  with x show ?thesis
    by (auto simp: encode_frame_Inr frame_of_def demo_peer_def demo_letters_inverse)
qed

lemma demo_written:
  "serve_controls demo_peer [demo_start] svc_new [] = (Inr (), frame_of ''h'' @ frame_of ''p'' @ frame_of ''b'')"
proof -
  have "list_all2 (\<lambda>x f. encode_frame (wk_output_to_vec demo_peer) x = Inr f) (map snd demo_letters) (map (frame_of \<circ> fst) demo_letters)"
    using demo_encodes by (auto simp: list_all2_conv_all_nth set_conv_nth) (metis prod.collapse)
  then have "write_outputs demo_peer (map Inr (map snd demo_letters)) [] = (Inr (), [] @ concat (map (frame_of \<circ> fst) demo_letters))"
    by (rule write_outputs_frames) (simp add: demo_peer_def demo_worker_codec_def)
  then have "write_outputs demo_peer (map Inr (map snd demo_letters)) [] = (Inr (), frame_of ''h'' @ frame_of ''p'' @ frame_of ''b'')"
    by (simp add: demo_letters_def)
  then show ?thesis
    using demo_handled demo_answers by (cases "handle demo_peer demo_start svc_new") (simp add: serve_control_def demo_result_def demo_peer_def demo_worker_codec_def)
qed

definition demo_live_worker :: "unit live_worker" where
  "demo_live_worker = \<lparr>lw_child = (), lw_chat_id = ''c'', lw_run_id = ''r'', lw_generation = 1, lw_snapshot_hash = zero_digest [],
     lw_last_heartbeat = None, lw_last_heartbeat_at = None\<rparr>"

definition demo_executable :: executable_identity where
  "demo_executable = \<lparr>ei_canonical_path = ''/opt/w'', ei_content_hash = ''sha256:0'', ei_byte_size = 1, ei_object_identity_hash = ''sha256:0''\<rparr>"

definition demo_process_port :: "(unit, unit) process_port" where
  "demo_process_port = \<lparr>px_canonicalize = (\<lambda>p _. Inr (''/opt/'' @ p)), px_open_identity = (\<lambda>_ _. Inr demo_executable),
     px_spawn = (\<lambda>_ w. (Inr (), w)), px_stdin_piped = (\<lambda>_ _. True), px_stdout_piped = (\<lambda>_ _. True),
     px_start_pump = (\<lambda>_ _ w. (Inr (), w)), px_write = (\<lambda>_ _ w. Some (Inr (), w)), px_recv = (\<lambda>_ _ w. (RcvTimeout, w)),
     px_kill_wait = (\<lambda>_ w. Some w), px_queued = (\<lambda>_ _. 0), px_unsent = (\<lambda>_ _. []), px_joined = (\<lambda>_ w. w), px_try_wait = (\<lambda>_ w. (Inr False, w)), px_now = (\<lambda>w. (0, w)),
     px_sleep = (\<lambda>_ w. w), px_control_to_vec = (\<lambda>k. if k = demo_start then Some ''s'' else None),
     px_protocol_text = (\<lambda>_. ''protocol''), px_output_reader = demo_output_reader, px_sha = tail_digest\<rparr>"

theorem supervisor_worker_agree_witness:
  "\<exists>x rest h. pump_outputs demo_output_reader [Some (frame_of ''h''), Some (frame_of ''p'' @ frame_of ''b'')]
         (replicate (Suc (length rest)) True) = (map Inr (x # rest), PumpReturned)
     \<and> oe_output x = OutHandshake h \<and> list_all (\<lambda>x. validate_output_identity demo_live_worker x = Inr ()) (x # rest)
     \<and> check_handshake demo_process_port demo_executable demo_start x () = Inr h"
proof -
  have enc: "list_all2 (\<lambda>k f. encode_frame (px_control_to_vec demo_process_port) k = Inr f) [demo_start] [frame_of ''s'']"
    by (simp add: encode_frame_Inr frame_of_def demo_process_port_def MAX_FRAME_BYTES_def)
  have inverse: "codec_inverse (px_control_to_vec demo_process_port) (wk_control_from_slice demo_peer)"
    by (auto simp: codec_inverse_def demo_process_port_def demo_peer_def split: if_splits)
  have "serve_stdio demo_peer (map Some [frame_of ''s'']) = (Inr (), frame_of ''h'' @ frame_of ''p'' @ frame_of ''b'')"
    unfolding serve_stdio_def
    by (subst serve_loop_controls [OF enc inverse]) (simp_all only: demo_written, simp_all add: frame_of_def)
  moreover have "wk_output_to_vec demo_peer x = Some b \<Longrightarrow> or_from_slice demo_output_reader b = Some (Some x)" for x b
    by (simp add: demo_peer_def demo_output_reader_def demo_letters_inverse)
  moreover have "list_all (\<lambda>k. validate_control_identity demo_live_worker k = Inr ()) [demo_start]"
    by (simp add: validate_control_identity_def demo_live_worker_def demo_start_def demo_control_def)
  moreover have "px_canonicalize demo_process_port (wk_executable demo_peer) () = Inr (ei_canonical_path demo_executable)"
    by (simp add: demo_process_port_def demo_executable_def)
  moreover have "[] \<notin> set [frame_of ''h'', frame_of ''p'' @ frame_of ''b'']" "[] \<notin> set [frame_of ''s'']"
    by (simp_all add: frame_of_def)
  ultimately have "\<exists>xs. (\<forall>m. pump_outputs demo_output_reader (map Some [frame_of ''h'', frame_of ''p'' @ frame_of ''b'']) (replicate m True) =
        (map Inr (take m xs), if m < length xs then PumpBlocked else PumpReturned))
    \<and> list_all (\<lambda>x. validate_output_identity demo_live_worker x = Inr ()) xs \<and> sorted_wrt (<) (beats xs)
    \<and> (\<forall>k \<in> set [demo_start]. \<forall>x \<in> set xs. \<forall>h. oe_output x = OutHandshake h \<longrightarrow>
         check_handshake demo_process_port demo_executable k x () = Inr h)
    \<and> (\<forall>k ks. [demo_start] = k # ks \<and> is_ok (fst (handle demo_peer k svc_new)) \<longrightarrow> (\<exists>x rest h. xs = x # rest \<and> oe_output x = OutHandshake h))"
    by (intro supervisor_worker_agree [OF enc inverse, where stdin = "[frame_of ''s'']"]) simp_all
  then obtain xs where xs: "\<And>m. pump_outputs demo_output_reader (map Some [frame_of ''h'', frame_of ''p'' @ frame_of ''b'']) (replicate m True) =
      (map Inr (take m xs), if m < length xs then PumpBlocked else PumpReturned)"
    "list_all (\<lambda>x. validate_output_identity demo_live_worker x = Inr ()) xs"
    "\<And>x h. x \<in> set xs \<Longrightarrow> oe_output x = OutHandshake h \<Longrightarrow> check_handshake demo_process_port demo_executable demo_start x () = Inr h"
    "\<exists>x rest h. xs = x # rest \<and> oe_output x = OutHandshake h"
    using demo_handled by auto
  from xs(4) obtain x rest h where "xs = x # rest" "oe_output x = OutHandshake h"
    by blast
  with xs(1) [of "length xs"] xs(2,3) show ?thesis
    by (intro exI [of _ x] exI [of _ rest] exI [of _ h]) simp
qed

section \<open>Generations\<close>

text \<open>
  One operation of the supervisor that returns, in any world, with the handshakes accepted so far.
\<close>

type_synonym handshake_log = "(stable_id \<times> process_generation) list"

definition logged :: "worker_supervisor_error + worker_handshake \<Rightarrow> handshake_log" where
  "logged r = (case r of Inl _ \<Rightarrow> [] | Inr h \<Rightarrow> [(wh_chat_id h, wh_generation h)])"

inductive sup_step ::
  "('h, 'w) process_port \<Rightarrow> 'h process_supervisor \<times> handshake_log \<Rightarrow> 'h process_supervisor \<times> handshake_log \<Rightarrow> bool"
  for px :: "('h, 'w) process_port" where
  sup_start: "spawn_start px snapshot cursor timeout s w = Some (r, s', w') \<Longrightarrow> sup_step px (s, log) (s', log @ logged r)"
| sup_restore: "spawn_restore px control timeout s w = Some (r, s', w') \<Longrightarrow> sup_step px (s, log) (s', log @ logged r)"
| sup_receive: "ps_receive px chat timeout s w = (x, s', w') \<Longrightarrow> sup_step px (s, log) (s', log)"
| sup_crashed: "mark_crashed px chat generation s w = Some (u, s', w') \<Longrightarrow> sup_step px (s, log) (s', log)"
| sup_shutdown: "shutdown px chat cursor timeout s w = Some (u, s', w') \<Longrightarrow> sup_step px (s, log) (s', log)"
| sup_drop: "ps_drop px s w = Some (s', w') \<Longrightarrow> sup_step px (s, log) (s', log)"

definition generations :: "stable_id \<Rightarrow> handshake_log \<Rightarrow> process_generation list" where
  "generations c log = map snd (filter (\<lambda>e. fst e = c) log)"

lemma generations_append [simp]: "generations c (xs @ ys) = generations c xs @ generations c ys"
  by (simp add: generations_def)

definition sup_inv :: "'h process_supervisor \<times> handshake_log \<Rightarrow> bool" where
  "sup_inv x \<longleftrightarrow> (case x of (s, log) \<Rightarrow>
     (\<forall>c. \<forall>g \<in> set (generations c log). g \<le> rt_last_generation (restart_of s c))
     \<and> (\<forall>c. sorted_wrt (<) (generations c log))
     \<and> (\<forall>c worker. bget (ps_workers s) c = Some worker \<longrightarrow>
          lw_chat_id worker = c \<and> generations c log \<noteq> [] \<and> last (generations c log) = lw_generation worker))"

lemma spawn_control_cases:
  assumes "spawn_control px k timeout s w = Some (r, s', w')"
  obtains (failed) e where "r = Inl e" "s' = s"
  | (live) h worker where "r = Inr h" "wh_chat_id h = ce_chat_id k" "wh_generation h = ce_generation k"
      "s' = s\<lparr>ps_workers := binsert (ce_chat_id k) worker (ps_workers s)\<rparr>"
      "lw_chat_id worker = ce_chat_id k" "lw_generation worker = ce_generation k"
proof (cases r)
  case (Inl e)
  with assms have "s' = s"
    by (auto simp: spawn_control_def give_up_def split: prod.splits sum.splits option.splits)
  with Inl failed show ?thesis
    by blast
next
  case (Inr h)
  with assms obtain worker w1 w2 x where l: "launch px (ps_executable s) k w = Some (Inr worker, w1)"
    and c: "check_handshake px (ps_executable s) k x w2 = Inr h"
    and s': "s' = s\<lparr>ps_workers := binsert (ce_chat_id k) worker (ps_workers s)\<rparr>"
    by (auto simp: spawn_control_def give_up_def split: prod.splits sum.splits option.splits)
  have "lw_chat_id worker = ce_chat_id k" "lw_generation worker = ce_generation k"
    using l by (auto simp: launch_def split: prod.splits sum.splits if_splits)
  moreover have "wh_chat_id h = ce_chat_id k" "wh_generation h = ce_generation k"
    using c by (auto simp: check_handshake_def split: worker_output_kind.splits sum.splits if_splits)
  ultimately show ?thesis
    using live Inr s' by blast
qed

lemma next_generation_Inr: "next_generation s c = Inr g \<Longrightarrow> unat g = unat (rt_last_generation (restart_of s c)) + 1"
  by (auto simp: next_generation_def ok_or_Inr checked_add_Some split: if_splits)

lemma allocate_generation_cases:
  assumes "allocate_generation c s = (r, s')"
  obtains e where "r = Inl e" "s' = s"
  | g where "r = Inr g" "unat g = unat (rt_last_generation (restart_of s c)) + 1" "ps_workers s' = ps_workers s"
      "\<And>d. rt_last_generation (restart_of s' d) = (if d = c then g else rt_last_generation (restart_of s d))"
proof (cases "next_generation s c")
  case (Inr g)
  have "restart_of s' d = (if d = c then (restart_of s c)\<lparr>rt_last_generation := g\<rparr> else restart_of s d)" for d
    using assms Inr by (auto simp: allocate_generation_def restart_of_def)
  with assms Inr next_generation_Inr [OF Inr] that(2) [of g] show ?thesis
    by (auto simp: allocate_generation_def)
next
  case (Inl e)
  with assms that(1) [of e] show ?thesis
    by (simp add: allocate_generation_def)
qed

lemma sup_inv_spawned:
  assumes "sup_inv (s, log)" and "allocate_generation (ce_chat_id k) s = (Inr (ce_generation k), s1)"
    and "spawn_control px k timeout s1 w = Some (r, s', w')"
  shows "sup_inv (s', log @ logged r)"
proof -
  let ?c = "ce_chat_id k"
  have new: "unat (ce_generation k) = unat (rt_last_generation (restart_of s ?c)) + 1" "ps_workers s1 = ps_workers s"
    "\<And>d. rt_last_generation (restart_of s1 d) = (if d = ?c then ce_generation k else rt_last_generation (restart_of s d))"
    using assms(2) by (auto elim: allocate_generation_cases)
  have below: "g < ce_generation k" if "g \<in> set (generations ?c log)" for g
    using assms(1) that new(1) unfolding sup_inv_def word_less_nat_alt word_le_nat_alt by fastforce
  have s1: "sup_inv (s1, log)"
    using assms(1) new below unfolding sup_inv_def by (auto intro: less_imp_le)
  from assms(3) show ?thesis
  proof (cases rule: spawn_control_cases)
    case (failed e)
    with s1 show ?thesis
      by (simp add: logged_def)
  next
    case (live h worker)
    have "restart_of s' d = restart_of s1 d" for d
      using live by (simp add: restart_of_def)
    moreover have "generations d (logged r) = (if d = ?c then [ce_generation k] else [])" for d
      using live by (simp add: logged_def generations_def)
    moreover have "rt_last_generation (restart_of s1 ?c) = ce_generation k"
      using new(3) by simp
    ultimately show ?thesis
      using s1 live below unfolding sup_inv_def by (auto simp: sorted_wrt_append)
  qed
qed

lemma sup_inv_shrink:
  assumes "sup_inv (s, log)" and "\<And>c. rt_last_generation (restart_of s' c) = rt_last_generation (restart_of s c)"
    and "\<And>c worker. bget (ps_workers s') c = Some worker \<Longrightarrow>
      \<exists>worker'. bget (ps_workers s) c = Some worker' \<and> lw_chat_id worker' = lw_chat_id worker \<and> lw_generation worker' = lw_generation worker"
  shows "sup_inv (s', log)"
  using assms(1,2) unfolding sup_inv_def by (auto dest!: assms(3))

lemma sup_inv_allocated:
  assumes "sup_inv (s, log)" and "allocate_generation c s = (r, s')"
  shows "sup_inv (s', log)"
  using assms(2)
proof (cases rule: allocate_generation_cases)
  case (2 g)
  have "rt_last_generation (restart_of s d) \<le> rt_last_generation (restart_of s' d)" for d
    using 2 by (simp add: word_le_nat_alt)
  with assms(1) 2(3) show ?thesis
    unfolding sup_inv_def by (auto intro: order_trans)
qed (use assms(1) in simp)

lemma start_control_Inr:
  "start_control px snapshot cursor g = Inr k \<Longrightarrow> ce_chat_id k = ws_chat_id snapshot \<and> ce_generation k = g"
  by (auto simp: start_control_def bind_r_Inr)

lemma sup_inv_step: "sup_step px x y \<Longrightarrow> sup_inv x \<Longrightarrow> sup_inv y"
proof (induction rule: sup_step.induct)
  case (sup_start snapshot cursor timeout s w r s' w' log)
  obtain q s1 where a: "allocate_generation (ws_chat_id snapshot) s = (q, s1)"
    by fastforce
  show ?case
  proof (cases "\<exists>g k. q = Inr g \<and> start_control px snapshot cursor g = Inr k \<and> \<not> bcontains (ps_workers s) (ws_chat_id snapshot)")
    case True
    then obtain g k where k: "q = Inr g" "start_control px snapshot cursor g = Inr k" "spawn_control px k timeout s1 w = Some (r, s', w')"
      using sup_start.hyps a by (auto simp: spawn_start_def)
    with a sup_start.prems start_control_Inr [OF k(2)] show ?thesis
      by (intro sup_inv_spawned [OF _ _ k(3)]) auto
  next
    case False
    with sup_start.hyps a have "s' = s \<or> s' = s1" "\<not> is_ok r"
      by (auto simp: spawn_start_def split: if_splits sum.splits)
    with sup_inv_allocated [OF sup_start.prems a] sup_start.prems show ?thesis
      by (cases r) (auto simp: logged_def)
  qed
next
  case (sup_restore control timeout s w r s' w' log)
  show ?case
  proof (cases "next_generation s (ce_chat_id control) = Inr (ce_generation control) \<and> \<not> bcontains (ps_workers s) (ce_chat_id control)
      \<and> (\<exists>e. ce_control control = CtRestore e)")
    case True
    then obtain s1 where a: "allocate_generation (ce_chat_id control) s = (Inr (ce_generation control), s1)"
      by (simp add: allocate_generation_def)
    with True sup_restore show ?thesis
      by (intro sup_inv_spawned [OF _ a]) (auto simp: spawn_restore_def)
  next
    case False
    with sup_restore.hyps have "s' = s" "\<not> is_ok r"
      by (auto simp: spawn_restore_def split: if_splits sum.splits worker_control_kind.splits)
    with sup_restore.prems show ?thesis
      by (cases r) (auto simp: logged_def)
  qed
next
  case (sup_receive chat timeout s w x s' w' log)
  then show ?case
    by (elim sup_inv_shrink)
       (auto simp: ps_receive_def restart_of_def split: option.splits sum.splits prod.splits worker_output_kind.splits if_splits)
next
  case (sup_crashed chat generation s w u s' w' log)
  then show ?case
    by (elim sup_inv_shrink) (auto simp: mark_crashed_def Let_def restart_of_def split: option.splits if_splits)
next
  case (sup_shutdown chat cursor timeout s w u s' w' log)
  have "s' = s \<or> s' = s\<lparr>ps_workers := bremove chat (ps_workers s)\<rparr>"
    using sup_shutdown.hyps by (auto simp: shutdown_def give_up_def Let_def split: option.splits sum.splits prod.splits if_splits)
  with sup_shutdown.prems show ?case
    by (auto elim!: sup_inv_shrink simp: restart_of_def split: if_splits)
next
  case (sup_drop s w s' w' log)
  then show ?case
    by (elim sup_inv_shrink) (auto simp: ps_drop_def restart_of_def)
qed

interpretation supervision: inv_system "sup_step px" sup_inv for px
  by unfold_locales (rule sup_inv_step)

text \<open>
  C16. Generations are fenced. From a new supervisor, whatever processes do, the generations of a chat's accepted
  handshakes increase strictly; a control is written only to the worker whose handshake was the last to be accepted for
  its chat, and only when it carries that worker's generation; and an output is handed out only when it carries the
  generation of the last accepted handshake.
\<close>

theorem generations_fenced:
  assumes "ps_new px path restarts w0 = Inr s0" and "(sup_step px)\<^sup>*\<^sup>* (s0, []) (s, log)"
  shows "sorted_wrt (<) (generations chat log)
    \<and> (send_control px k s w = Some (Inr (), w1) \<longrightarrow>
         generations (ce_chat_id k) log \<noteq> [] \<and> ce_generation k = last (generations (ce_chat_id k) log))
    \<and> (ps_receive px chat timeout s w = (Inr x, s2, w2) \<longrightarrow>
         generations chat log \<noteq> [] \<and> oe_generation x = last (generations chat log))"
proof -
  have "sup_inv (s0, [])"
    using assms(1) by (auto simp: ps_new_def sup_inv_def generations_def split: sum.splits)
  then have inv: "sup_inv (s, log)"
    using supervision.steps_inv [OF assms(2)] by blast
  have "generations (ce_chat_id k) log \<noteq> [] \<and> ce_generation k = last (generations (ce_chat_id k) log)"
    if "send_control px k s w = Some (Inr (), w1)"
    using that inv by (auto simp: send_control_def validate_control_identity_def sup_inv_def split: option.splits if_splits)
  moreover have "generations chat log \<noteq> [] \<and> oe_generation x = last (generations chat log)"
    if receives: "ps_receive px chat timeout s w = (Inr x, s2, w2)"
  proof -
    obtain worker where "bget (ps_workers s) chat = Some worker" "validate_output_identity worker x = Inr ()"
      using receives by (auto simp: ps_receive_def split: option.splits sum.splits prod.splits worker_output_kind.splits if_splits)
    then show ?thesis
      using inv by (auto simp: validate_output_identity_def sup_inv_def split: if_splits)
  qed
  ultimately show ?thesis
    using inv by (simp add: sup_inv_def)
qed

definition demo_hello :: worker_handshake where
  "demo_hello = \<lparr>wh_protocol_version = 1, wh_worker_version = ''0.1.0'', wh_chat_id = ''c'', wh_run_id = ''r'',
     wh_generation = 1, wh_snapshot_hash = ''h'', wh_plan_fingerprint = [], wh_executable_identity = ''w''\<rparr>"

definition demo_fence_port :: "(unit, unit) process_port" where
  "demo_fence_port = demo_process_port\<lparr>px_control_to_vec := (\<lambda>_. Some ''s''),
     px_recv := (\<lambda>_ _ w. (RcvOutput \<lparr>oe_message_id = ''o'', oe_generation = 1, oe_output = OutHandshake demo_hello\<rparr>, w))\<rparr>"

definition demo_supervisor :: "unit process_supervisor" where
  "demo_supervisor = \<lparr>ps_executable = demo_executable, ps_workers = [], ps_restart_state = [], ps_maximum_restarts = 1\<rparr>"

definition demo_supervised :: "unit process_supervisor" where
  "demo_supervised = \<lparr>ps_executable = demo_executable, ps_workers = [(''c'', demo_live_worker\<lparr>lw_snapshot_hash := ''h''\<rparr>)],
     ps_restart_state = [(''c'', \<lparr>rt_last_generation = 1, rt_crashes = 0\<rparr>)], ps_maximum_restarts = 1\<rparr>"

lemma demo_writes [simp]: "write_control demo_fence_port h k w = Some (Inr (), w)"
proof -
  have "encode_frame (px_control_to_vec demo_fence_port) k = Inr (frame_of ''s'')"
    by (simp add: encode_frame_Inr frame_of_def demo_fence_port_def MAX_FRAME_BYTES_def)
  then show ?thesis
    by (simp add: write_control_def) (simp add: demo_fence_port_def demo_process_port_def)
qed

lemma demo_start_control:
  "\<exists>i. start_control demo_fence_port demo_run_snapshot 0 1 = Inr ((demo_control i (CtStart demo_run_snapshot)))"
proof -
  have "supervisor_id (px_sha demo_fence_port) m = Inr (''supervisor.'' @ take 48 (tail_digest m))" for m
    using derived_id_ok [OF hex_tail_digest, of "''supervisor.''" m]
    by (simp add: supervisor_id_def demo_fence_port_def demo_process_port_def stable_id_byte_def is_ascii_alphanumeric_code)
  then show ?thesis
    by (simp add: start_control_def demo_control_def demo_run_snapshot_def)
qed

lemma demo_launched:
  "launch demo_fence_port demo_executable (demo_control i (CtStart demo_run_snapshot)) () = Some (Inr (demo_live_worker\<lparr>lw_snapshot_hash := ''h''\<rparr>), ())"
  by (simp add: launch_def demo_fence_port_def demo_process_port_def demo_live_worker_def demo_control_def)

lemma demo_received:
  "receive_output demo_fence_port h t w = (Inr \<lparr>oe_message_id = ''o'', oe_generation = 1, oe_output = OutHandshake demo_hello\<rparr>, w)"
  by (simp add: receive_output_def demo_fence_port_def)

lemma demo_checked:
  "check_handshake demo_fence_port demo_executable (demo_control i (CtStart demo_run_snapshot))
     \<lparr>oe_message_id = ''o'', oe_generation = 1, oe_output = OutHandshake demo_hello\<rparr> () = Inr demo_hello"
  by (simp add: check_handshake_def demo_hello_def demo_executable_def demo_fence_port_def demo_process_port_def demo_control_def)

lemma demo_spawned: "spawn_start demo_fence_port demo_run_snapshot 0 5 demo_supervisor () = Some (Inr demo_hello, demo_supervised, ())"
proof -
  obtain i where "start_control demo_fence_port demo_run_snapshot 0 1 = Inr ((demo_control i (CtStart demo_run_snapshot)))"
    using demo_start_control by blast
  moreover have "allocate_generation ''c'' demo_supervisor
      = (Inr 1, demo_supervisor\<lparr>ps_restart_state := [(''c'', \<lparr>rt_last_generation = 1, rt_crashes = 0\<rparr>)]\<rparr>)"
    by (simp add: allocate_generation_def next_generation_def restart_of_def demo_supervisor_def checked_add_def)
  moreover have "ws_chat_id demo_run_snapshot = ''c''" "ps_workers demo_supervisor = []" "ps_executable demo_supervisor = demo_executable"
    by (simp_all add: demo_run_snapshot_def demo_supervisor_def)
  ultimately have "spawn_start demo_fence_port demo_run_snapshot 0 5 demo_supervisor () = Some (Inr demo_hello,
      demo_supervisor\<lparr>ps_restart_state := [(''c'', \<lparr>rt_last_generation = 1, rt_crashes = 0\<rparr>)],
        ps_workers := [(ce_chat_id (demo_control i (CtStart demo_run_snapshot)), demo_live_worker\<lparr>lw_snapshot_hash := ''h''\<rparr>)]\<rparr>, ())"
    by (simp add: spawn_start_def spawn_control_def demo_launched demo_received demo_checked)
  then show ?thesis
    by (simp add: demo_supervisor_def demo_supervised_def demo_control_def)
qed

theorem generations_fenced_witness:
  "send_control demo_fence_port (demo_control ''k'' (CtShutdown ''k'')) demo_supervised () = Some (Inr (), ())
   \<and> ce_generation (demo_control ''k'' (CtShutdown ''k'')) = last (generations ''c'' [(''c'', 1)])
   \<and> send_control demo_fence_port ((demo_control ''k'' (CtShutdown ''k''))\<lparr>ce_generation := 2\<rparr>) demo_supervised () = Some (Inl SvStaleHandshake, ())"
proof -
  have new: "ps_new demo_fence_port ''w'' 1 () = Inr demo_supervisor"
    by (simp add: ps_new_def demo_supervisor_def demo_fence_port_def demo_process_port_def)
  have "(sup_step demo_fence_port)\<^sup>*\<^sup>* (demo_supervisor, []) (demo_supervised, [(''c'', 1)])"
    using sup_start [OF demo_spawned, of "[]"] by (simp add: logged_def demo_hello_def r_into_rtranclp)
  from generations_fenced [OF new this, of "''c''" "demo_control ''k'' (CtShutdown ''k'')" "()" "()"]
  show ?thesis
    by (simp add: send_control_def demo_supervised_def demo_live_worker_def demo_control_def validate_control_identity_def)
qed

section \<open>Shutdown returns\<close>


lemma join_pump_blocked:
  "px_queued px (lw_child worker) w \<le> CHANNEL_CAPACITY \<Longrightarrow>
   CHANNEL_CAPACITY < px_queued px (lw_child worker) w + length (pumped (px_output_reader px) (px_unsent px (lw_child worker) w)) \<Longrightarrow>
     join_pump px worker w = None"
  by (simp add: join_pump_def pump_outputs_taken)












section \<open>Observations\<close>

text \<open>
  A worker that cannot be joined: with more outputs left than the channel has room for, the reading
  thread waits for a receiver that is held and never read again, so neither terminating the worker
  nor the shutdown that runs out of time returns.
\<close>

lemma terminate_hangs:
  assumes "px_kill_wait px (lw_child worker) w = Some w'" and "px_queued px (lw_child worker) w' \<le> CHANNEL_CAPACITY"
    and "CHANNEL_CAPACITY < px_queued px (lw_child worker) w' + length (pumped (px_output_reader px) (px_unsent px (lw_child worker) w'))"
  shows "terminate_worker px worker w = None"
  using join_pump_blocked [OF assms(2,3)] assms(1) by (simp add: terminate_worker_def)

lemma shutdown_hangs:
  assumes "bget (ps_workers s) chat = Some worker" and "shutdown_control px worker cursor = Inr (i, k)"
    and "write_control px (lw_child worker) k w = Some (Inr (), w1)" and "px_now px w1 = (start, w2)"
    and "px_now px w2 = (now, w3)" and "start + timeout \<le> now" and "px_kill_wait px (lw_child worker) w3 = Some w4"
    and "px_queued px (lw_child worker) w4 \<le> 1024"
    and "1024 < px_queued px (lw_child worker) w4 + length (pumped (px_output_reader px) (px_unsent px (lw_child worker) w4))"
  shows "shutdown px chat cursor timeout s w = None"
proof -
  have "await_ack px worker i (start + timeout) w2 = Some (Inr False, w3)"
    using assms(5,6) by (subst await_ack.simps) simp
  moreover have "terminate_worker px worker w3 = None"
    using assms(7-9) by (intro terminate_hangs) (simp_all add: CHANNEL_CAPACITY_def)
  ultimately show ?thesis
    using assms(1-4) by (simp add: shutdown_def give_up_def)
qed

text \<open>
  A shutdown takes the worker out of the book first. When the control cannot be written, the process
  is dropped as it is: nothing after the failed write touches the world.
\<close>

lemma shutdown_drops_process:
  assumes "bget (ps_workers s) chat = Some worker" and "shutdown_control px worker cursor = Inr (i, k)"
    and "write_control px (lw_child worker) k w = Some (Inl e, w')"
  shows "shutdown px chat cursor timeout s w = Some (Inl e, s\<lparr>ps_workers := bremove chat (ps_workers s)\<rparr>, w')"
  using assms by (simp add: shutdown_def)

text \<open>A worker that never gets as far as its handshake does not count as a crash.\<close>

lemma spawn_failure_uncounted:
  assumes "spawn_start px snapshot cursor timeout s w = Some (Inl e, s', w')"
  shows "rt_crashes (restart_of s' c) = rt_crashes (restart_of s c)"
proof -
  obtain q s1 where a: "allocate_generation (ws_chat_id snapshot) s = (q, s1)"
    by fastforce
  have "rt_crashes (restart_of s1 c) = rt_crashes (restart_of s c)"
  proof (cases q)
    case (Inr g)
    with a have "s1 = s\<lparr>ps_restart_state := binsert (ws_chat_id snapshot)
        ((restart_of s (ws_chat_id snapshot))\<lparr>rt_last_generation := g\<rparr>) (ps_restart_state s)\<rparr>"
      by (auto simp: allocate_generation_def split: sum.splits)
    then show ?thesis
      by (cases "c = ws_chat_id snapshot") (simp_all add: restart_of_def)
  qed (use a in \<open>auto simp: allocate_generation_def split: sum.splits\<close>)
  moreover have "s' = s \<or> s' = s1"
    using assms a by (auto simp: spawn_start_def elim: spawn_control_cases split: if_splits sum.splits)
  ultimately show ?thesis
    by auto
qed

text \<open>
  The book of generations is not restored: a new supervisor restores a worker at generation one only,
  whereas recovery asks for the generation after the one that ran.
\<close>

lemma new_supervisor_restores_first:
  assumes "ps_new px path restarts w0 = Inr s" and "spawn_restore px control timeout s w = Some (Inr h, s', w')"
  shows "ce_generation control = 1"
proof -
  have "restart_of s c = \<lparr>rt_last_generation = 0, rt_crashes = 0\<rparr>" for c
    using assms(1) by (auto simp: ps_new_def restart_of_def split: sum.splits)
  then have "next_generation s c = Inr g \<Longrightarrow> g = 1" for c g
    by (auto simp: next_generation_def ok_or_Inr checked_add_def split: if_splits)
  then show ?thesis
    using assms(2) by (auto simp: spawn_restore_def split: if_splits sum.splits)
qed

text \<open>A frame whose body is JSON \<open>null\<close> ends the reading of a worker's output without an error.\<close>

lemma null_frame_ends_output:
  assumes "or_from_slice c body = Some None" and "length body \<le> MAX_FRAME_BYTES" and "[] \<notin> set chunks"
    and "concat chunks = frame_of body @ rest"
  shows "pump_outputs c (map Some chunks) sends = ([], PumpReturned)"
proof -
  obtain chunks' where "read_one_frame (map Some chunks) = (Inr (Some (frame_of body)), map Some chunks')"
    using read_one_frame_chunks [OF assms(3,4,2)] by blast
  then have "read_output_frame c (map Some chunks) = (Inr None, map Some chunks')"
    using read_output_frame_of decode_frame_of [OF assms(2), of "or_from_slice c"] assms(1) by fastforce
  then show ?thesis
    by (subst pump_outputs.simps) simp
qed

end
