(* ===== verification/Spec2Isabelle.thy ===== *)
theory Spec2Isabelle
  imports Suspension Branch Policy Scheduler_Restore Agent_Laws Worker_Laws Broker_Laws Recovery Secrets_Laws Supervisor_Laws
begin

text \<open>
  Aworkit runs workflow graphs in a worker process whose every effect is first proposed to a trusted
  core and takes hold only after the core has committed it. This library models both processes, the
  wire between them and the extension inventory they rest on, and proves what each promises.

  \<^bold>\<open>The program.\<close> The trusted core (\<open>crates/aworkit-trusted-core\<close>) resolves workspaces and
  extensions, freezes a run into an immutable snapshot, starts a worker generation for it, brokers
  every invocation of a capability, leases secrets, folds committed events into the state of a run
  and decides how to recover it. The worker (\<open>crates/aworkit-workflow-worker\<close>) compiles the
  snapshot into a plan, admits controls, schedules tokens over the plan and emits proposals. They
  exchange framed JSON envelopes (\<open>crates/aworkit-protocol\<close>). The extension registry keeps its
  records in a table of the local store (\<open>crates/aworkit-local-store\<close>).

  \<^bold>\<open>Conventions.\<close> A Rust integer \<open>uN\<close> is an \<open>N word\<close>; \<open>usize\<close> is \<open>nat\<close>; text is its bytes.
  \<open>Result\<close> is a sum with the error on the left, \<open>?\<close> is \<open>bind_r\<close>. A method on \<open>&mut self\<close> returns
  its result and the next state on every path, so an error that leaves a change behind shows it.
  \<open>BTreeMap\<close> and \<open>BTreeSet\<close> are sorted lists (\<open>Btree\<close>). Structs are records and enums datatypes,
  with field prefixes of the component. What is not in the sources is a parameter: SHA-256
  (\<open>digest\<close>, where needed assumed to give 64 lowercase hexadecimal digits), serializers (records of
  functions, where needed assumed to be inverted by their decoders), semantic versions, the file
  system, the keyring, processes and clocks. Every such assumption is met by a concrete function in
  the witness of the property that makes it.

  \<^bold>\<open>Shared theories.\<close> \<open>Aw_Prelude\<close> has the arithmetic of Rust, results, byte predicates and the
  locales \<open>inv_system\<close> (a step relation with an invariant), \<open>checkpointing\<close> and \<open>crash_safe\<close> (crashes
  and restores add no behaviour). \<open>Btree\<close> has the maps and sets, \<open>Json\<close> the values of \<open>serde_json\<close>.

  \<^bold>\<open>Protocol.\<close>
  \<^item> \<open>Protocol\<close> and \<open>Framing\<close> (\<open>lib.rs\<close>): identifiers, envelopes, frames and the incremental decoder,
    which decodes the stream however it is cut and keeps a bounded buffer.
  \<^item> \<open>Runtime_Contract\<close> (\<open>runtime.rs\<close>, parts of \<open>history.rs\<close>) and \<open>Extension\<close> (\<open>extension.rs\<close>): the
    messages and documents of both processes, and the metadata of extensions with its hashes.

  \<^bold>\<open>Worker.\<close>
  \<^item> \<open>Plan\<close> and \<open>Cycles\<close> (\<open>plan.rs\<close>): \<open>compile\<close> accepts only graphs in which every cycle passes a
    declared, bounded loop.
  \<^item> \<open>Routing\<close> (\<open>routing.rs\<close>): the predicate language against a reference semantics, and route choice.
  \<^item> \<open>Scheduler\<close>, \<open>Scheduler_Inv\<close>, \<open>Scheduler_Run\<close>, \<open>Scheduler_Bounds\<close>, \<open>Scheduler_Restore\<close>
    (\<open>scheduler.rs\<close>): operations, invariant, the abstract step relation they implement, bounds on
    loops and tokens, and restoring a checkpoint.
  \<^item> \<open>Limits\<close>, \<open>Limits_Tree\<close>, \<open>Limits_Ledger\<close> (\<open>limits.rs\<close>): the hierarchical budget ledger, in which
    nothing is lost or created.
  \<^item> \<open>Branch\<close> (\<open>branch.rs\<close>), \<open>Policy\<close> (\<open>policy.rs\<close>), \<open>Suspension\<close> (\<open>suspension.rs\<close>): joins in
    declared order, retry decisions, and frames whose inputs are consumed once.
  \<^item> \<open>Context_Store\<close>, \<open>Context_Laws\<close> (\<open>context.rs\<close>): immutable revisions, ancestry and pruning.
  \<^item> \<open>Node\<close> (\<open>node.rs\<close>) and \<open>Agent\<close>, \<open>Agent_Laws\<close> (\<open>agent.rs\<close>): node contracts, and agent loops that
    drive the ledger and the context store.
  \<^item> \<open>Gateway\<close> (\<open>gateway.rs\<close>) and \<open>Worker\<close>, \<open>Worker_Laws\<close> (\<open>runtime.rs\<close>, \<open>RehydratorV1\<close> of
    \<open>suspension.rs\<close>): admission of controls, retransmission of proposals, the service and its loop.
  \<^item> \<open>Compat\<close>: the compatibility types of \<open>plan.rs\<close>, \<open>scheduler.rs\<close> and \<open>suspension.rs\<close>.

  \<^bold>\<open>Trusted core.\<close>
  \<^item> \<open>Project\<close> (\<open>project.rs\<close>): workspaces, projects and documents free of secret material.
  \<^item> \<open>Inventory\<close>, \<open>Inventory_Laws\<close> (\<open>extension_inventory.rs\<close> of the local store) and \<open>Registry\<close>,
    \<open>Registry_Laws\<close> (\<open>extensions.rs\<close>): the inventory keeps a hash-chained history and provides the
    port (locale \<open>inventory_store\<close>) over which the registry (locale \<open>registry_over\<close>) resolves only
    attested code. What the maintenance gate, the lock and the engine fail an access with is an
    argument of every operation (\<open>access_faults\<close>); runs are under any faults.
  \<^item> \<open>Authority\<close>, \<open>Authority_Laws\<close> (\<open>authority.rs\<close>): freezing; what is frozen passes the worker's checks.
  \<^item> \<open>Broker\<close>, \<open>Broker_Laws\<close> (\<open>broker.rs\<close>): proposals, approvals, dispatch and settlement over any
    ledger that meets the locale \<open>invocation_ledger\<close>; a host sees an invocation at most once.
  \<^item> \<open>Secrets\<close>, \<open>Secrets_Laws\<close> (\<open>secrets.rs\<close>, \<open>secrets/native.rs\<close>): leases over any store (locale
    \<open>store_frame\<close>), and over one that meets the locale \<open>credential_store\<close>, which the store in memory
    does, and the native one over a keyring that keeps what it is given.
  \<^item> \<open>Lifecycle\<close>, \<open>Lifecycle_Laws\<close> (\<open>lifecycle.rs\<close>): the event-sourced run; replay rebuilds it.
  \<^item> \<open>Recovery\<close> (\<open>recovery.rs\<close>): the decision after a crash, and exactly which of its envelopes the
    worker accepts.
  \<^item> \<open>Supervisor\<close>, \<open>Supervisor_Laws\<close> (\<open>supervisor.rs\<close>): worker processes, fenced by generation, the
    thread that reads their output into a bounded channel, and that the supervisor accepts everything
    the modelled worker writes.

  \<^bold>\<open>How the parts are composed.\<close> A pinned extension gives a binding the freezer accepts, a frozen
  snapshot passes the compiler's checks, a recovery envelope is rehydrated, and the frames of one
  process are read by the other: each is a theorem over the definitions of both sides.

  \<^bold>\<open>Termination and fuel.\<close> Searches and loops with a bound in the sources (depth, number of terms,
  visited sets, bytes left) are total functions. The two loops of a shutdown read a clock and are
  \<open>partial_function (option)\<close>; a write to a worker, waiting for its end and joining its reading thread
  can block and are options as well. That a shutdown returns is proved from an advancing clock,
  writes and kills that return, and no more unread outputs than the channel holds; with more it can
  hang (\<open>shutdown_hangs\<close>). The walk over the dependencies of an extension (\<open>dependency_snapshot_hash_inner\<close>) has
  fuel, two more than the number of records of the inventory; every call adds a record to the set
  under visit, so this is enough (\<open>snapshot_fuel_enough\<close>).

  \<^bold>\<open>Not modelled.\<close> Interleavings of threads: operations that hold a lock are steps, and the reading
  thread of a worker is a function of what its sends return. The committer and the
  portable gate of the core, the portable store and the other parts of the local store: their
  behaviour is that of SQLite transactions and of files. The capability host: network and processes;
  the broker sees it as a port. The desktop facade, the desktop application, the repair subsystem
  and the bootstrap helper: they use the modelled components or none of them. Wiping of memory, error
  texts of libraries, and re-exports have no counterpart.
\<close>

end
